(* ===== verification/URX_Prelude.thy ===== *)
theory URX_Prelude
  imports Main "HOL-Library.Word" "HOL-Library.AList"
begin

text \<open>
  Shared ground of the development: the parts of the Go language and its standard library that
  every package uses (error values and their wrap trees, callbacks that return or panic, option
  lists, fixed-width counters), the \<open>named_theorems\<close> collections the component theories fill, and
  a few generic lemmas.
\<close>

subsection \<open>Collections\<close>

named_theorems urx_defs "definitions of operations, unfolded together in component proofs"
named_theorems urx_inv "invariant preservation, one fact per operation"
named_theorems urx_frame "fields an operation leaves alone"

subsection \<open>Go error values\<close>

text \<open>
  An \<open>error\<close> is a package sentinel (\<open>errors.New\<close>), one of the two context errors, an error of the
  caller's own code (numbered), a recovered panic (\<open>*panix.PanicError\<close> with its \<open>Op\<close> and
  \<open>Value\<close>; the captured stack is not part of any decision and is left out) or a wrapping node:
  \<open>fmt.Errorf\<close> with one or more \<open>%w\<close> verbs, or \<open>errors.Join\<close>. The string of a node is its format
  with the non-error arguments filled in. A panic value is an error or any other value.
\<close>

datatype goerr =
    Sentinel string
  | CtxCanceled
  | CtxDeadlineExceeded
  | UserError nat
  | PanicError string panicval
  | Errorf string "goerr list"
and panicval = PvError goerr | PvOther nat

type_synonym goerror = "goerr option"

text \<open>\<open>errors.Is\<close> walks the tree of \<open>Unwrap\<close> results depth first, comparing with \<open>==\<close>.\<close>

fun errors_Is :: "goerr \<Rightarrow> goerr \<Rightarrow> bool" where
  "errors_Is (Errorf m es) t = (Errorf m es = t \<or> list_ex (\<lambda>e. errors_Is e t) es)"
| "errors_Is (PanicError op (PvError e)) t = (PanicError op (PvError e) = t \<or> errors_Is e t)"
| "errors_Is e t = (e = t)"

text \<open>\<open>errors.As\<close> with a \<open>*panix.PanicError\<close> target: is there one in the tree?\<close>

fun errors_As_PanicError :: "goerr \<Rightarrow> bool" where
  "errors_As_PanicError (PanicError op v) = True"
| "errors_As_PanicError (Errorf m es) = list_ex errors_As_PanicError es"
| "errors_As_PanicError e = False"

lemma errors_Is_refl [simp]: "errors_Is e e"
  by (cases "(e, e)" rule: errors_Is.cases) auto

lemma errors_Is_wrap: "e \<in> set es \<Longrightarrow> errors_Is e t \<Longrightarrow> errors_Is (Errorf m es) t"
  by (auto simp: list_ex_iff)

text \<open>\<open>errors.Join\<close> of errors none of which is nil.\<close>

definition errors_Join :: "goerr list \<Rightarrow> goerror" where
  "errors_Join es = (if es = [] then None else Some (Errorf ''errors.Join'' es))"

lemma errors_Join_None [simp]: "errors_Join es = None \<longleftrightarrow> es = []"
  by (simp add: errors_Join_def)

lemma errors_Join_Is: "errors_Join es = Some e \<Longrightarrow> x \<in> set es \<Longrightarrow> errors_Is x t \<Longrightarrow> errors_Is e t"
  by (auto simp: errors_Join_def list_ex_iff split: if_splits)

subsection \<open>Callbacks\<close>

text \<open>
  A call of user code either returns a value and an error, or panics. A callback that runs while
  the component's state may be changed by others is a function of that state (see the component
  theories); its own result is an \<open>outcome\<close>.
\<close>

datatype 'a outcome = Returns 'a goerror | Panics panicval

subsection \<open>Option lists\<close>

text \<open>
  Functional options: \<open>newConfig\<close> applies the non-nil options in order to the default
  configuration. A nil option is \<open>None\<close>.
\<close>

definition apply_opts :: "('c \<Rightarrow> 'c) option list \<Rightarrow> 'c \<Rightarrow> 'c" where
  "apply_opts opts c = fold (\<lambda>opt c. case opt of None \<Rightarrow> c | Some f \<Rightarrow> f c) opts c"

lemma apply_opts_simps [simp]:
  "apply_opts [] c = c"
  "apply_opts (None # opts) c = apply_opts opts c"
  "apply_opts (Some f # opts) c = apply_opts opts (f c)"
  by (simp_all add: apply_opts_def)

lemma apply_opts_append: "apply_opts (xs @ ys) c = apply_opts ys (apply_opts xs c)"
  by (simp add: apply_opts_def)

lemma apply_opts_inv:
  assumes "P c" and "\<And>f c. Some f \<in> set opts \<Longrightarrow> P c \<Longrightarrow> P (f c)"
  shows "P (apply_opts opts c)"
  using assms
proof (induction opts arbitrary: c)
  case Nil
  then show ?case by simp
next
  case (Cons opt opts)
  then show ?case by (cases opt) auto
qed

subsection \<open>Fixed-width counters\<close>

text \<open>
  \<open>atomic.Uint64\<close> counters are \<open>64 word\<close>. \<open>atomic.Int32\<close> and \<open>atomic.Int64\<close> values are \<open>int\<close> with
  the two's complement wrap written out.
\<close>

type_synonym u64 = "64 word"

definition wrap_i32 :: "int \<Rightarrow> int" where
  "wrap_i32 x = (x + 2 ^ 31) mod 2 ^ 32 - 2 ^ 31"

definition wrap_i64 :: "int \<Rightarrow> int" where
  "wrap_i64 x = (x + 2 ^ 63) mod 2 ^ 64 - 2 ^ 63"

lemma wrap_i32_id [simp]: "- (2 ^ 31) \<le> x \<Longrightarrow> x < 2 ^ 31 \<Longrightarrow> wrap_i32 x = x"
  by (simp add: wrap_i32_def mod_pos_pos_trivial)

lemma wrap_i64_id [simp]: "- (2 ^ 63) \<le> x \<Longrightarrow> x < 2 ^ 63 \<Longrightarrow> wrap_i64 x = x"
  by (simp add: wrap_i64_def mod_pos_pos_trivial)

lemma wrap_i64_step: "wrap_i64 (wrap_i64 x + 1) = wrap_i64 (x + 1)" "wrap_i64 (wrap_i64 x - d) = wrap_i64 (x - d)"
  unfolding wrap_i64_def by (simp_all add: algebra_simps mod_simps)

lemma wrap_i64_plus: "wrap_i64 (wrap_i64 x + d) = wrap_i64 (x + d)"
  using wrap_i64_step(2) [of x "- d"] by simp

lemma wrap_i32_range: "- (2 ^ 31) \<le> wrap_i32 x \<and> wrap_i32 x < 2 ^ 31"
proof -
  have "0 \<le> (x + 2 ^ 31) mod 2 ^ 32" and "(x + 2 ^ 31) mod 2 ^ 32 < 2 ^ 32"
    by simp_all
  then show ?thesis by (simp add: wrap_i32_def)
qed

subsection \<open>Decimal numbers\<close>

text \<open>\<open>strconv\<close> formatting of integers, also what \<open>%d\<close> prints.\<close>

fun FormatUint :: "nat \<Rightarrow> string" where
  "FormatUint n =
     (if n < 10 then [char_of (48 + n)] else FormatUint (n div 10) @ [char_of (48 + n mod 10)])"

definition FormatInt :: "int \<Rightarrow> string" where
  "FormatInt n = (if n < 0 then ''-'' @ FormatUint (nat (- n)) else FormatUint (nat n))"

subsection \<open>Counting in a list of threads\<close>

lemma length_filter_update:
  "i < length xs \<Longrightarrow>
     int (length (filter P (xs[i := x]))) = int (length (filter P xs)) - of_bool (P (xs ! i)) + of_bool (P x)"
proof (induction xs arbitrary: i)
  case (Cons y ys)
  then show ?case by (cases i) auto
qed simp

lemma sum_list_update_int: "i < length xs \<Longrightarrow> sum_list (xs[i := x]) = sum_list xs + x - xs ! i" for x :: int
proof (induction xs arbitrary: i)
  case (Cons y ys)
  then show ?case by (cases i) auto
qed simp

lemma length_filter_mono:
  "(\<And>x. P x \<Longrightarrow> Q x) \<Longrightarrow> length (filter P xs) \<le> length (filter Q xs)"
  by (induction xs) auto

text \<open>The number of goroutines in a role.\<close>

definition how_many :: "('a \<Rightarrow> bool) \<Rightarrow> 'a list \<Rightarrow> int" where
  "how_many P ts = int (length (filter P ts))"

lemma how_many_simps [simp]:
  "how_many P [] = 0" "how_many P (ts @ [pc]) = how_many P ts + of_bool (P pc)" "0 \<le> how_many P ts"
  "how_many P ts \<le> int (length ts)"
  by (simp_all add: how_many_def)

lemma how_many_update: "i < length ts \<Longrightarrow> how_many P (ts[i := pc]) = how_many P ts - of_bool (P (ts ! i)) + of_bool (P pc)"
  by (simp add: how_many_def length_filter_update)

lemma how_many_mono: "(\<And>pc. P pc \<Longrightarrow> Q pc) \<Longrightarrow> how_many P ts \<le> how_many Q ts"
  unfolding how_many_def of_nat_le_iff by (rule length_filter_mono)

lemma how_many_append: "how_many P (ps @ qs) = how_many P ps + how_many P qs"
  by (simp add: how_many_def)

lemma how_many_one: "how_many P [x] = of_bool (P x)"
  by (simp add: how_many_def)

lemma how_many_split:
  "(\<And>pc. pc \<in> set ps \<Longrightarrow> (P pc \<longleftrightarrow> Q pc \<or> R pc) \<and> \<not> (Q pc \<and> R pc)) \<Longrightarrow> how_many P ps = how_many Q ps + how_many R ps"
  unfolding how_many_def by (induction ps) auto

lemma how_many_pos: "i < length ts \<Longrightarrow> P (ts ! i) \<Longrightarrow> 0 < how_many P ts"
  by (auto simp: how_many_def filter_empty_conv)

lemma how_many_unique:
  assumes "how_many P ts = 1" and "i < length ts" and "P (ts ! i)" and "j < length ts" and "j \<noteq> i"
  shows "\<not> P (ts ! j)"
proof
  assume "P (ts ! j)"
  with assms have "{i, j} \<subseteq> {k. k < length ts \<and> P (ts ! k)}" by auto
  then have "card {i, j} \<le> card {k. k < length ts \<and> P (ts ! k)}" by (intro card_mono) simp_all
  with assms(1,5) show False by (simp add: how_many_def length_filter_conv_card)
qed

subsection \<open>Association lists\<close>

text \<open>A Go map whose size matters is an association list with distinct keys.\<close>

lemma map_of_filter_key:
  "distinct (map fst al) \<Longrightarrow> map_of (filter P al) k
     = (case map_of al k of None \<Rightarrow> None | Some b \<Rightarrow> if P (k, b) then Some b else None)"
  by (induction al) (auto simp: map_of_eq_None_iff split: option.splits)

lemma alist_length_update:
  "length (AList.update k v al) = (if k \<in> fst ` set al then length al else Suc (length al))"
  by (induction al) auto

lemma alist_set_update: "k \<notin> fst ` set al \<Longrightarrow> set (AList.update k v al) = insert (k, v) (set al)"
  by (induction al) auto

lemma alist_length_delete:
  "distinct (map fst al) \<Longrightarrow> int (length (AList.delete k al)) = int (length al) - (if k \<in> fst ` set al then 1 else 0)"
  by (induction al) (force split: if_splits)+

subsection \<open>A closable component\<close>

text \<open>
  Every package with a lifecycle gives \<open>Close\<close> the same contract: it always succeeds, a closed
  component stays closed, and a second \<open>Close\<close> changes nothing.
\<close>

locale closer =
  fixes close :: "'s \<Rightarrow> 's"
    and is_closed :: "'s \<Rightarrow> bool"
  assumes close_closes: "is_closed (close s)"
    and close_again: "is_closed s \<Longrightarrow> close s = s"
begin

lemma close_idem: "close (close s) = close s"
  by (rule close_again [OF close_closes])

lemma close_iter: "0 < n \<Longrightarrow> (close ^^ n) s = close s"
proof (induction n)
  case 0
  then show ?case by simp
next
  case (Suc n)
  then show ?case by (cases "n = 0") (simp_all add: close_idem)
qed

end

end
