(* ===== verification/Panix.thy ===== *)
theory Panix
  imports URX_Prelude
begin

text \<open>
  Package \<open>panix\<close>: panic recovery. \<open>Safe\<close> turns the outcome of a call into a value and an error;
  every other package runs user code through it. \<open>captureStackLimited\<close> is the buffer-growing loop
  that copies the stack trace.
\<close>

definition panix_defaultStackSize :: nat where
  "panix_defaultStackSize = 4096"

definition panix_maxStackSize :: nat where
  "panix_maxStackSize = 64 * 1024"

text \<open>
  \<open>Safe op fn\<close>: the zero value of \<open>T\<close> is a parameter. A nil \<open>fn\<close> panics when it is called; the
  runtime error it panics with is \<open>PvError (Sentinel ''runtime: nil dereference'')\<close>.
\<close>

definition nil_call :: "'a outcome" where
  "nil_call = Panics (PvError (Sentinel ''runtime: nil dereference''))"

definition call_fn :: "'a outcome option \<Rightarrow> 'a outcome" where
  "call_fn fn = (case fn of None \<Rightarrow> nil_call | Some out \<Rightarrow> out)"

definition panix_Safe :: "'a \<Rightarrow> string \<Rightarrow> 'a outcome option \<Rightarrow> 'a \<times> goerror" where
  "panix_Safe zero op fn =
     (case call_fn fn of
        Returns v e \<Rightarrow> (v, e)
      | Panics r \<Rightarrow> (zero, Some (PanicError op r)))"

text \<open>\<open>SafeVoid\<close> instantiates \<open>Safe\<close> at the empty struct and drops the value.\<close>

definition panix_SafeVoid :: "string \<Rightarrow> unit outcome option \<Rightarrow> goerror" where
  "panix_SafeVoid op fn = snd (panix_Safe () op (Some
     (case call_fn fn of Returns v e \<Rightarrow> Returns () e | Panics r \<Rightarrow> Panics r)))"

text \<open>\<open>Wrap\<close> and \<open>WrapVoid\<close> return a closure that runs \<open>fn\<close> under \<open>Safe\<close> on each call.\<close>

definition panix_Wrap :: "'a \<Rightarrow> string \<Rightarrow> 'a outcome option \<Rightarrow> (unit \<Rightarrow> 'a \<times> goerror)" where
  "panix_Wrap zero op fn = (\<lambda>_. panix_Safe zero op fn)"

definition panix_WrapVoid :: "string \<Rightarrow> unit outcome option \<Rightarrow> (unit \<Rightarrow> goerror)" where
  "panix_WrapVoid op fn = (\<lambda>_. panix_SafeVoid op fn)"

text \<open>\<open>PanicError.Unwrap\<close>: the panic value when it is an error, nil otherwise.\<close>

fun panix_Unwrap :: "goerr \<Rightarrow> goerror" where
  "panix_Unwrap (PanicError op (PvError e)) = Some e"
| "panix_Unwrap e = None"

text \<open>
  The goroutine \<open>SafeGo\<close> starts, as the list of calls it makes: \<open>fn\<close> under \<open>SafeVoid\<close>, then, when
  \<open>fn\<close> panicked and \<open>onError\<close> is not nil, \<open>onError\<close> with that error, again under \<open>SafeVoid\<close>. The
  result is the error given to \<open>onError\<close>, and whether the goroutine ends without a panic of its
  own. The body passed to \<open>SafeVoid\<close> returns a nil error after \<open>fn\<close>.
\<close>

definition panix_SafeGo ::
  "string \<Rightarrow> unit outcome option \<Rightarrow> (goerr \<Rightarrow> unit outcome) option \<Rightarrow> goerror \<times> goerror" where
  "panix_SafeGo op fn onError =
     (let body = (case call_fn fn of Returns u e \<Rightarrow> Returns () None | Panics r \<Rightarrow> Panics r);
          err = panix_SafeVoid op (Some body)
      in case (err, onError) of
           (Some e, Some h) \<Rightarrow>
             (Some e, panix_SafeVoid (op @ ''.onError'')
                (Some (case h e of Returns u e' \<Rightarrow> Returns () None | Panics r \<Rightarrow> Panics r)))
         | _ \<Rightarrow> (None, None))"

text \<open>
  \<open>runtime.Stack(buf, false)\<close> writes as much of a trace of \<open>full\<close> bytes as fits and returns that
  number. The loop doubles the buffer up to \<open>cap\<close>; the result is the number of bytes returned.
\<close>

partial_function (option) panix_capture_loop :: "nat \<Rightarrow> nat \<Rightarrow> nat \<Rightarrow> nat option" where
  "panix_capture_loop full cap sz =
     (let n = min full sz
      in if n < sz then Some n
         else if cap \<le> sz then Some sz
         else panix_capture_loop full cap (min (sz * 2) cap))"

definition panix_captureStackLimited :: "nat \<Rightarrow> nat \<Rightarrow> nat option" where
  "panix_captureStackLimited full cap = panix_capture_loop full cap (min panix_defaultStackSize cap)"

definition panix_captureStack :: "nat \<Rightarrow> nat option" where
  "panix_captureStack full = panix_captureStackLimited full panix_maxStackSize"

subsection \<open>Facts\<close>

lemma panix_Safe_returns [simp]: "panix_Safe zero op (Some (Returns v e)) = (v, e)"
  by (simp add: panix_Safe_def call_fn_def)

lemma panix_Safe_panics [simp]:
  "panix_Safe zero op (Some (Panics r)) = (zero, Some (PanicError op r))"
  by (simp add: panix_Safe_def call_fn_def)

lemma panix_Safe_nil:
  "panix_Safe zero op None = (zero, Some (PanicError op (PvError (Sentinel ''runtime: nil dereference''))))"
  by (simp add: panix_Safe_def call_fn_def nil_call_def)

lemma panix_SafeVoid_simps [simp]:
  "panix_SafeVoid op (Some (Returns u e)) = e"
  "panix_SafeVoid op (Some (Panics r)) = Some (PanicError op r)"
  by (simp_all add: panix_SafeVoid_def call_fn_def)

lemma panix_SafeVoid_panic_iff:
  assumes "fn = Some (case out of Returns u e \<Rightarrow> Returns () None | Panics r \<Rightarrow> Panics r)"
  shows "panix_SafeVoid op fn = None \<or> (\<exists>r. panix_SafeVoid op fn = Some (PanicError op r))"
  using assms by (cases out) auto

lemma capture_loop_result:
  "0 < sz \<Longrightarrow> sz \<le> cap \<Longrightarrow> panix_capture_loop full cap sz = Some (min full cap)"
proof (induction "cap - sz" arbitrary: sz rule: less_induct)
  case less
  show ?case
  proof (cases "full < sz \<or> cap \<le> sz")
    case True
    then show ?thesis using less.prems
      by (subst panix_capture_loop.simps) (auto simp: Let_def min_def)
  next
    case False
    then have "panix_capture_loop full cap sz = panix_capture_loop full cap (min (sz * 2) cap)"
      by (subst panix_capture_loop.simps) (auto simp: Let_def min_def)
    also have "\<dots> = Some (min full cap)"
      using False less.prems by (intro less.hyps) auto
    finally show ?thesis .
  qed
qed

lemma captureStackLimited_eq: "panix_captureStackLimited full cap = Some (min full cap)"
proof (cases "cap = 0")
  case True
  then show ?thesis
    by (simp add: panix_captureStackLimited_def panix_defaultStackSize_def panix_capture_loop.simps)
next
  case False
  then show ?thesis
    unfolding panix_captureStackLimited_def
    by (intro capture_loop_result) (auto simp: panix_defaultStackSize_def)
qed

end
