(* ===== verification/Circuitx.thy ===== *)
theory Circuitx
  imports Panix
begin

text \<open>
  Package \<open>circuitx\<close>: the circuit breaker. Part one: configuration and options, the breaker's state
  and every operation on it, run one at a time. A callback of \<open>Execute\<close> is a function of the
  breaker, so whatever other goroutines do while it runs is covered by quantifying over it.
  \<open>Circuitx_Conc\<close> has the interleavings.
\<close>

subsection \<open>Configuration\<close>

datatype circuitx_State = Closed | Open | HalfOpen

fun circuitx_State_String :: "circuitx_State \<Rightarrow> string" where
  "circuitx_State_String Closed = ''closed''"
| "circuitx_State_String Open = ''open''"
| "circuitx_State_String HalfOpen = ''half_open''"

definition circuitx_ErrOpen :: goerr where
  "circuitx_ErrOpen = Sentinel ''circuitx: circuit breaker is open''"

definition circuitx_ErrNilFunc :: goerr where
  "circuitx_ErrNilFunc = Sentinel ''circuitx: nil function''"

definition circuitx_ErrClosed :: goerr where
  "circuitx_ErrClosed = Sentinel ''circuitx: breaker is closed''"

definition circuitx_ErrCancelled :: goerr where
  "circuitx_ErrCancelled = Sentinel ''circuitx: context cancelled''"

definition circuitx_errCancelled :: "goerr \<Rightarrow> goerr" where
  "circuitx_errCancelled cause = Errorf ''%w: %w'' [circuitx_ErrCancelled, cause]"

lemmas circuitx_errors =
  circuitx_ErrOpen_def circuitx_ErrNilFunc_def circuitx_ErrClosed_def circuitx_ErrCancelled_def
  circuitx_errCancelled_def

definition circuitx_DefaultMaxFailures :: int where "circuitx_DefaultMaxFailures = 5"
definition circuitx_DefaultResetTimeout :: int where "circuitx_DefaultResetTimeout = 10 * 10 ^ 9"
definition circuitx_DefaultHalfOpenMax :: int where "circuitx_DefaultHalfOpenMax = 1"
definition circuitx_DefaultSuccessThreshold :: int where "circuitx_DefaultSuccessThreshold = 1"
definition circuitx_minMaxFailures :: int where "circuitx_minMaxFailures = 1"
definition circuitx_minHalfOpenMax :: int where "circuitx_minHalfOpenMax = 1"
definition circuitx_minSuccessThreshold :: int where "circuitx_minSuccessThreshold = 1"
definition circuitx_opExecute :: string where "circuitx_opExecute = ''circuitx.Execute''"
definition circuitx_opTryExecute :: string where "circuitx_opTryExecute = ''circuitx.TryExecute''"

lemmas circuitx_consts =
  circuitx_DefaultMaxFailures_def circuitx_DefaultResetTimeout_def circuitx_DefaultHalfOpenMax_def
  circuitx_DefaultSuccessThreshold_def circuitx_minMaxFailures_def circuitx_minHalfOpenMax_def
  circuitx_minSuccessThreshold_def

record circuitx_config =
  cx_maxFailures :: int
  cx_resetTimeout :: int
  cx_halfOpenMax :: int
  cx_successThreshold :: int
  cx_onStateChange :: "(circuitx_State \<Rightarrow> circuitx_State \<Rightarrow> unit outcome) option"
  cx_failureIf :: "(goerr \<Rightarrow> bool) option"
  cx_countCanceled :: bool
  cx_op :: string

definition circuitx_WithMaxFailures :: "int \<Rightarrow> circuitx_config \<Rightarrow> circuitx_config" where
  "circuitx_WithMaxFailures n c = (if 0 < n then c\<lparr>cx_maxFailures := n\<rparr> else c)"

definition circuitx_WithResetTimeout :: "int \<Rightarrow> circuitx_config \<Rightarrow> circuitx_config" where
  "circuitx_WithResetTimeout d c = (if 0 < d then c\<lparr>cx_resetTimeout := d\<rparr> else c)"

definition circuitx_WithHalfOpenMax :: "int \<Rightarrow> circuitx_config \<Rightarrow> circuitx_config" where
  "circuitx_WithHalfOpenMax n c = (if 0 < n then c\<lparr>cx_halfOpenMax := n\<rparr> else c)"

definition circuitx_WithSuccessThreshold :: "int \<Rightarrow> circuitx_config \<Rightarrow> circuitx_config" where
  "circuitx_WithSuccessThreshold n c = (if 0 < n then c\<lparr>cx_successThreshold := n\<rparr> else c)"

definition circuitx_WithOnStateChange ::
  "(circuitx_State \<Rightarrow> circuitx_State \<Rightarrow> unit outcome) option \<Rightarrow> circuitx_config \<Rightarrow> circuitx_config" where
  "circuitx_WithOnStateChange fn c = (if fn \<noteq> None then c\<lparr>cx_onStateChange := fn\<rparr> else c)"

definition circuitx_WithFailureIf :: "(goerr \<Rightarrow> bool) option \<Rightarrow> circuitx_config \<Rightarrow> circuitx_config" where
  "circuitx_WithFailureIf fn c = (if fn \<noteq> None then c\<lparr>cx_failureIf := fn\<rparr> else c)"

definition circuitx_WithCountCanceled :: "circuitx_config \<Rightarrow> circuitx_config" where
  "circuitx_WithCountCanceled c = c\<lparr>cx_countCanceled := True\<rparr>"

definition circuitx_WithOp :: "string \<Rightarrow> circuitx_config \<Rightarrow> circuitx_config" where
  "circuitx_WithOp op c = (if op \<noteq> [] then c\<lparr>cx_op := op\<rparr> else c)"

definition circuitx_newConfig :: "(circuitx_config \<Rightarrow> circuitx_config) option list \<Rightarrow> circuitx_config" where
  "circuitx_newConfig opts =
     (let c0 = apply_opts opts
            \<lparr>cx_maxFailures = circuitx_DefaultMaxFailures,
             cx_resetTimeout = circuitx_DefaultResetTimeout,
             cx_halfOpenMax = circuitx_DefaultHalfOpenMax,
             cx_successThreshold = circuitx_DefaultSuccessThreshold,
             cx_onStateChange = None, cx_failureIf = None, cx_countCanceled = False, cx_op = []\<rparr>;
          c1 = (if cx_maxFailures c0 < circuitx_minMaxFailures
                then c0\<lparr>cx_maxFailures := circuitx_minMaxFailures\<rparr> else c0);
          c2 = (if cx_resetTimeout c1 \<le> 0
                then c1\<lparr>cx_resetTimeout := circuitx_DefaultResetTimeout\<rparr> else c1);
          c3 = (if cx_halfOpenMax c2 < circuitx_minHalfOpenMax
                then c2\<lparr>cx_halfOpenMax := circuitx_minHalfOpenMax\<rparr> else c2)
      in if cx_successThreshold c3 < circuitx_minSuccessThreshold
         then c3\<lparr>cx_successThreshold := circuitx_minSuccessThreshold\<rparr> else c3)"

definition circuitx_opOrDefault :: "circuitx_config \<Rightarrow> string" where
  "circuitx_opOrDefault c = (if cx_op c \<noteq> [] then cx_op c else circuitx_opExecute)"

definition circuitx_opOrDefaultTry :: "circuitx_config \<Rightarrow> string" where
  "circuitx_opOrDefaultTry c = (if cx_op c \<noteq> [] then cx_op c else circuitx_opTryExecute)"

subsection \<open>The breaker\<close>

text \<open>
  \<open>br_generation\<close> is the \<open>atomic.Uint64\<close> epoch. \<open>br_fired\<close> is not a field of the code: it lists the calls of the
  \<open>WithOnStateChange\<close> hook, oldest first.
\<close>

record circuitx_Breaker =
  br_cfg :: circuitx_config
  br_state :: circuitx_State
  br_failures :: int
  br_lastOpen :: int
  br_halfOpenInflight :: int
  br_halfOpenSuccesses :: int
  br_generation :: u64
  br_successes :: u64
  br_totalFail :: u64
  br_rejected :: u64
  br_trips :: u64
  br_closed :: bool
  br_fired :: "(circuitx_State \<times> circuitx_State) list"

definition circuitx_New :: "(circuitx_config \<Rightarrow> circuitx_config) option list \<Rightarrow> circuitx_Breaker" where
  "circuitx_New opts =
     \<lparr>br_cfg = circuitx_newConfig opts, br_state = Closed, br_failures = 0, br_lastOpen = 0,
      br_halfOpenInflight = 0, br_halfOpenSuccesses = 0, br_generation = 0,
      br_successes = 0, br_totalFail = 0, br_rejected = 0, br_trips = 0,
      br_closed = False, br_fired = []\<rparr>"

definition circuitx_fireStateChange ::
  "circuitx_State \<Rightarrow> circuitx_State \<Rightarrow> circuitx_Breaker \<Rightarrow> circuitx_Breaker" where
  "circuitx_fireStateChange from to b =
     (case cx_onStateChange (br_cfg b) of
        None \<Rightarrow> b
      | Some fn \<Rightarrow> b\<lparr>br_fired := br_fired b @ [(from, to)]\<rparr>)"

text \<open>
  \<open>State\<close>: the compare-and-swap is written out; run alone it succeeds, and \<open>Circuitx_Conc\<close> has
  the schedules where it does not.
\<close>

definition circuitx_cas_state ::
  "circuitx_State \<Rightarrow> circuitx_State \<Rightarrow> circuitx_Breaker \<Rightarrow> circuitx_Breaker \<times> bool" where
  "circuitx_cas_state old new b =
     (if br_state b = old then (b\<lparr>br_state := new\<rparr>, True) else (b, False))"

definition circuitx_State :: "int \<Rightarrow> circuitx_Breaker \<Rightarrow> circuitx_Breaker \<times> circuitx_State" where
  "circuitx_State now b =
     (if br_state b \<noteq> Open then (b, br_state b)
      else if now - br_lastOpen b < cx_resetTimeout (br_cfg b) then (b, Open)
      else case circuitx_cas_state Open HalfOpen b of
             (b1, True) \<Rightarrow>
               (circuitx_fireStateChange Open HalfOpen
                  (b1\<lparr>br_generation := br_generation b1 + 1,
                      br_halfOpenInflight := 0, br_halfOpenSuccesses := 0\<rparr>), HalfOpen)
           | (b1, False) \<Rightarrow> (b1, br_state b1))"

definition circuitx_Failures :: "circuitx_Breaker \<Rightarrow> int" where
  "circuitx_Failures b = br_failures b"

definition circuitx_Reset :: "circuitx_Breaker \<Rightarrow> circuitx_Breaker" where
  "circuitx_Reset b =
     (let prev = br_state b;
          b1 = b\<lparr>br_failures := 0, br_state := Closed, br_generation := br_generation b + 1,
                 br_halfOpenInflight := 0, br_halfOpenSuccesses := 0\<rparr>
      in if prev \<noteq> Closed then circuitx_fireStateChange prev Closed b1 else b1)"

definition circuitx_snapshotState :: "circuitx_Breaker \<Rightarrow> circuitx_State" where
  "circuitx_snapshotState b = br_state b"

record circuitx_Stats =
  cs_State :: circuitx_State
  cs_Failures :: int
  cs_MaxFailures :: int
  cs_Successes :: u64
  cs_TotalFail :: u64
  cs_Rejected :: u64
  cs_Trips :: u64

definition circuitx_BreakerStats :: "circuitx_Breaker \<Rightarrow> circuitx_Stats" where
  "circuitx_BreakerStats b =
     \<lparr>cs_State = circuitx_snapshotState b, cs_Failures = br_failures b,
      cs_MaxFailures = cx_maxFailures (br_cfg b), cs_Successes = br_successes b,
      cs_TotalFail = br_totalFail b, cs_Rejected = br_rejected b, cs_Trips = br_trips b\<rparr>"

definition circuitx_ResetStats :: "circuitx_Breaker \<Rightarrow> circuitx_Breaker" where
  "circuitx_ResetStats b =
     b\<lparr>br_successes := 0, br_totalFail := 0, br_rejected := 0, br_trips := 0\<rparr>"

definition circuitx_Close :: "circuitx_Breaker \<Rightarrow> circuitx_Breaker" where
  "circuitx_Close b = b\<lparr>br_closed := True\<rparr>"

definition circuitx_IsClosed :: "circuitx_Breaker \<Rightarrow> bool" where
  "circuitx_IsClosed b = br_closed b"

subsection \<open>Admission\<close>

definition circuitx_tryAdmitProbe :: "circuitx_Breaker \<Rightarrow> circuitx_Breaker \<times> bool" where
  "circuitx_tryAdmitProbe b =
     (let cur = br_halfOpenInflight b
      in if cx_halfOpenMax (br_cfg b) \<le> cur then (b, False)
         else (b\<lparr>br_halfOpenInflight := wrap_i32 (cur + 1)\<rparr>, True))"

definition circuitx_tryAdmit ::
  "int \<Rightarrow> circuitx_Breaker \<Rightarrow> circuitx_Breaker \<times> circuitx_State \<times> u64 \<times> bool" where
  "circuitx_tryAdmit now b =
     (case circuitx_State now b of
        (b1, state) \<Rightarrow>
          (let gen = br_generation b1
           in if state = Open then (b1\<lparr>br_rejected := br_rejected b1 + 1\<rparr>, state, gen, False)
              else if state = HalfOpen then
                (case circuitx_tryAdmitProbe b1 of
                   (b2, True) \<Rightarrow> (b2, state, gen, True)
                 | (b2, False) \<Rightarrow> (b2\<lparr>br_rejected := br_rejected b2 + 1\<rparr>, state, gen, False))
              else (b1, state, gen, True)))"

definition circuitx_releaseProbe :: "u64 \<Rightarrow> circuitx_Breaker \<Rightarrow> circuitx_Breaker" where
  "circuitx_releaseProbe admitGen b =
     (if admitGen \<noteq> br_generation b then b
      else if br_halfOpenInflight b \<le> 0 then b
      else b\<lparr>br_halfOpenInflight := br_halfOpenInflight b - 1\<rparr>)"

subsection \<open>Settlement\<close>

definition circuitx_countsAsFailure :: "circuitx_Breaker \<Rightarrow> goerr \<Rightarrow> bool" where
  "circuitx_countsAsFailure b err =
     (if errors_As_PanicError err then True
      else if errors_Is err CtxCanceled \<and> \<not> cx_countCanceled (br_cfg b) then False
      else case cx_failureIf (br_cfg b) of Some f \<Rightarrow> f err | None \<Rightarrow> True)"

definition circuitx_recordSuccess_locked :: "u64 \<Rightarrow> circuitx_Breaker \<Rightarrow> circuitx_Breaker" where
  "circuitx_recordSuccess_locked admitGen b =
     (if admitGen \<noteq> br_generation b then b
      else case br_state b of
             HalfOpen \<Rightarrow>
               (let count = wrap_i32 (br_halfOpenSuccesses b + 1);
                    b1 = b\<lparr>br_halfOpenSuccesses := count\<rparr>
                in if count < cx_successThreshold (br_cfg b1) then b1
                   else circuitx_fireStateChange HalfOpen Closed
                          (b1\<lparr>br_halfOpenSuccesses := 0, br_failures := 0,
                              br_generation := br_generation b1 + 1, br_state := Closed\<rparr>))
           | Closed \<Rightarrow> b\<lparr>br_failures := 0\<rparr>
           | Open \<Rightarrow> b)"

definition circuitx_recordSuccess :: "u64 \<Rightarrow> circuitx_Breaker \<Rightarrow> circuitx_Breaker" where
  "circuitx_recordSuccess admitGen b =
     (if br_state b = Closed \<and> br_failures b = 0 then b
      else circuitx_recordSuccess_locked admitGen b)"

definition circuitx_recordFailure :: "int \<Rightarrow> bool \<Rightarrow> u64 \<Rightarrow> circuitx_Breaker \<Rightarrow> circuitx_Breaker" where
  "circuitx_recordFailure now forced admitGen b =
     (if admitGen \<noteq> br_generation b then b
      else let live = br_state b
           in if live = Open then b
              else let count = wrap_i32 (br_failures b + 1);
                       b1 = b\<lparr>br_failures := count\<rparr>
                   in if \<not> forced \<and> live = Closed \<and> count < cx_maxFailures (br_cfg b1) then b1
                      else let b2 = (if live = HalfOpen then b1\<lparr>br_halfOpenSuccesses := 0\<rparr> else b1)
                           in circuitx_fireStateChange live Open
                                (b2\<lparr>br_state := Open, br_lastOpen := now, br_trips := br_trips b2 + 1\<rparr>))"

definition circuitx_openFrom ::
  "int \<Rightarrow> circuitx_State \<Rightarrow> u64 \<Rightarrow> circuitx_Breaker \<Rightarrow> circuitx_Breaker" where
  "circuitx_openFrom now state admitGen b =
     (if admitGen \<noteq> br_generation b then b
      else let prev = br_state b
           in if prev = Open then b
              else let b1 = b\<lparr>br_state := Open, br_lastOpen := now, br_trips := br_trips b + 1\<rparr>;
                       from = (if prev \<noteq> state then prev else state)
                   in circuitx_fireStateChange from Open b1)"

subsection \<open>Execution\<close>

text \<open>The controller handed to the callback; \<open>SkipFailure\<close> and \<open>Trip\<close> set its two flags.\<close>

record circuitx_execution =
  ce_state :: circuitx_State
  ce_failures :: int
  ce_maxFailures :: int
  ce_skipFailure :: bool
  ce_tripped :: bool

definition circuitx_SkipFailure :: "circuitx_execution \<Rightarrow> circuitx_execution" where
  "circuitx_SkipFailure e = e\<lparr>ce_skipFailure := True\<rparr>"

definition circuitx_Trip :: "circuitx_execution \<Rightarrow> circuitx_execution" where
  "circuitx_Trip e = e\<lparr>ce_tripped := True\<rparr>"

text \<open>
  A callback gets the controller and the breaker; it returns the breaker as it is when the callback
  ends, the controller and its outcome.
\<close>

type_synonym 'a circuitx_Func =
  "circuitx_execution \<Rightarrow> circuitx_Breaker \<Rightarrow> circuitx_Breaker \<times> circuitx_execution \<times> 'a outcome"

text \<open>\<open>executeRun\<close> after the callback: settle, then the deferred release of a probe slot.\<close>

definition circuitx_settle ::
  "int \<Rightarrow> circuitx_State \<Rightarrow> u64 \<Rightarrow> circuitx_execution \<Rightarrow> goerror \<Rightarrow> circuitx_Breaker \<Rightarrow> circuitx_Breaker" where
  "circuitx_settle now state admitGen cc err b =
     (let b1 =
        (case err of
           Some e \<Rightarrow>
             if \<not> ce_skipFailure cc \<and> circuitx_countsAsFailure b e
             then circuitx_recordFailure now (ce_tripped cc) admitGen
                    (b\<lparr>br_totalFail := br_totalFail b + 1\<rparr>)
             else if ce_tripped cc then circuitx_openFrom now state admitGen b
             else b
         | None \<Rightarrow>
             if ce_tripped cc then circuitx_openFrom now state admitGen b
             else circuitx_recordSuccess admitGen (b\<lparr>br_successes := br_successes b + 1\<rparr>))
      in if state = HalfOpen then circuitx_releaseProbe admitGen b1 else b1)"

definition circuitx_controller :: "circuitx_State \<Rightarrow> circuitx_Breaker \<Rightarrow> circuitx_execution" where
  "circuitx_controller state b =
     \<lparr>ce_state = state, ce_failures = br_failures b, ce_maxFailures = cx_maxFailures (br_cfg b),
      ce_skipFailure = False, ce_tripped = False\<rparr>"

definition circuitx_executeRun ::
  "int \<Rightarrow> 'a \<Rightarrow> string \<Rightarrow> circuitx_State \<Rightarrow> u64 \<Rightarrow> 'a circuitx_Func \<Rightarrow> circuitx_Breaker
     \<Rightarrow> circuitx_Breaker \<times> 'a \<times> goerror" where
  "circuitx_executeRun now zero op state admitGen fn b =
     (case fn (circuitx_controller state b) b of
        (b1, cc, out) \<Rightarrow>
          (case panix_Safe zero op (Some out) of
             (val, err) \<Rightarrow> (circuitx_settle now state admitGen cc err b1, val, err)))"

text \<open>\<open>t\<close> is the clock at admission, \<open>t'\<close> at settlement; \<open>cerr\<close> is \<open>ctx.Err()\<close>.\<close>

definition circuitx_Execute ::
  "int \<Rightarrow> int \<Rightarrow> 'a \<Rightarrow> goerror \<Rightarrow> 'a circuitx_Func option \<Rightarrow> circuitx_Breaker
     \<Rightarrow> circuitx_Breaker \<times> 'a \<times> goerror" where
  "circuitx_Execute t t' zero cerr fn b =
     (if br_closed b then (b, zero, Some circuitx_ErrClosed)
      else case fn of
             None \<Rightarrow> (b, zero, Some circuitx_ErrNilFunc)
           | Some f \<Rightarrow>
               (case cerr of
                  Some e \<Rightarrow> (b, zero, Some (circuitx_errCancelled e))
                | None \<Rightarrow>
                    (case circuitx_tryAdmit t b of
                       (b1, state, gen, ok) \<Rightarrow>
                         if \<not> ok then (b1, zero, Some circuitx_ErrOpen)
                         else circuitx_executeRun t' zero (circuitx_opOrDefault (br_cfg b1))
                                state gen f b1)))"

definition circuitx_TryExecute ::
  "int \<Rightarrow> int \<Rightarrow> 'a \<Rightarrow> goerror \<Rightarrow> 'a circuitx_Func option \<Rightarrow> circuitx_Breaker
     \<Rightarrow> circuitx_Breaker \<times> bool \<times> 'a \<times> goerror" where
  "circuitx_TryExecute t t' zero cerr fn b =
     (if br_closed b then (b, False, zero, Some circuitx_ErrClosed)
      else case fn of
             None \<Rightarrow> (b, False, zero, Some circuitx_ErrNilFunc)
           | Some f \<Rightarrow>
               (case cerr of
                  Some e \<Rightarrow> (b, False, zero, Some (circuitx_errCancelled e))
                | None \<Rightarrow>
                    (case circuitx_tryAdmit t b of
                       (b1, state, gen, ok) \<Rightarrow>
                         if \<not> ok then (b1, False, zero, None)
                         else (case circuitx_executeRun t' zero (circuitx_opOrDefaultTry (br_cfg b1))
                                      state gen f b1 of
                                 (b2, val, err) \<Rightarrow> (b2, True, val, err)))))"

subsection \<open>The configuration is always usable\<close>

definition circuitx_cfg_ok :: "circuitx_config \<Rightarrow> bool" where
  "circuitx_cfg_ok c \<longleftrightarrow> 1 \<le> cx_maxFailures c \<and> 0 < cx_resetTimeout c \<and> 1 \<le> cx_halfOpenMax c
     \<and> 1 \<le> cx_successThreshold c"

lemma circuitx_newConfig_valid: "circuitx_cfg_ok (circuitx_newConfig opts)"
  by (simp add: circuitx_newConfig_def circuitx_cfg_ok_def circuitx_consts Let_def)

subsection \<open>Invariant\<close>

text \<open>
  The hook log of a healthy breaker is a path in the state graph: every edge starts where the one
  before it ended, none is a self-loop, and Closed never goes straight to HalfOpen.
\<close>

fun circuitx_chain :: "circuitx_State \<Rightarrow> (circuitx_State \<times> circuitx_State) list \<Rightarrow> circuitx_State option" where
  "circuitx_chain s [] = Some s"
| "circuitx_chain s ((f, t) # es) =
     (if f = s \<and> f \<noteq> t \<and> \<not> (f = Closed \<and> t = HalfOpen) then circuitx_chain t es else None)"

lemma circuitx_chain_snoc:
  "circuitx_chain s es = Some f \<Longrightarrow> f \<noteq> t \<Longrightarrow> \<not> (f = Closed \<and> t = HalfOpen) \<Longrightarrow>
   circuitx_chain s (es @ [(f, t)]) = Some t"
  by (induction s es rule: circuitx_chain.induct) (auto split: if_splits)

definition circuitx_core :: "circuitx_Breaker \<Rightarrow> bool" where
  "circuitx_core b \<longleftrightarrow>
     circuitx_cfg_ok (br_cfg b)
   \<and> br_halfOpenInflight b \<le> cx_halfOpenMax (br_cfg b)
   \<and> (cx_halfOpenMax (br_cfg b) < 2 ^ 31 \<longrightarrow> 0 \<le> br_halfOpenInflight b)
   \<and> br_halfOpenSuccesses b < cx_successThreshold (br_cfg b)
   \<and> (cx_successThreshold (br_cfg b) < 2 ^ 31 \<longrightarrow> 0 \<le> br_halfOpenSuccesses b)
   \<and> (br_state b = Closed \<longrightarrow> br_failures b < cx_maxFailures (br_cfg b))
   \<and> (br_state b = Closed \<and> cx_maxFailures (br_cfg b) < 2 ^ 31 \<longrightarrow> 0 \<le> br_failures b)"

definition circuitx_log_ok :: "circuitx_State \<Rightarrow> circuitx_Breaker \<Rightarrow> bool" where
  "circuitx_log_ok s b \<longleftrightarrow>
     cx_onStateChange (br_cfg b) = None \<or> circuitx_chain Closed (br_fired b) = Some s"

definition circuitx_inv :: "circuitx_Breaker \<Rightarrow> bool" where
  "circuitx_inv b \<longleftrightarrow> circuitx_core b \<and> circuitx_log_ok (br_state b) b"

lemma circuitx_fire_fields [simp]:
  "br_cfg (circuitx_fireStateChange f t b) = br_cfg b"
  "br_state (circuitx_fireStateChange f t b) = br_state b"
  "br_failures (circuitx_fireStateChange f t b) = br_failures b"
  "br_lastOpen (circuitx_fireStateChange f t b) = br_lastOpen b"
  "br_halfOpenInflight (circuitx_fireStateChange f t b) = br_halfOpenInflight b"
  "br_halfOpenSuccesses (circuitx_fireStateChange f t b) = br_halfOpenSuccesses b"
  "br_generation (circuitx_fireStateChange f t b) = br_generation b"
  "br_successes (circuitx_fireStateChange f t b) = br_successes b"
  "br_totalFail (circuitx_fireStateChange f t b) = br_totalFail b"
  "br_rejected (circuitx_fireStateChange f t b) = br_rejected b"
  "br_trips (circuitx_fireStateChange f t b) = br_trips b"
  "br_closed (circuitx_fireStateChange f t b) = br_closed b"
  by (auto simp: circuitx_fireStateChange_def split: option.splits)

lemma circuitx_fire_log:
  "br_fired (circuitx_fireStateChange f t b) =
     (if cx_onStateChange (br_cfg b) = None then br_fired b else br_fired b @ [(f, t)])"
  by (auto simp: circuitx_fireStateChange_def split: option.splits)

lemma circuitx_fire_core [simp]: "circuitx_core (circuitx_fireStateChange f t b) = circuitx_core b"
  by (simp add: circuitx_core_def)

lemma circuitx_fire_log_ok:
  "circuitx_log_ok f b \<Longrightarrow> f \<noteq> t \<Longrightarrow> \<not> (f = Closed \<and> t = HalfOpen) \<Longrightarrow>
   circuitx_log_ok t (circuitx_fireStateChange f t b)"
  by (auto simp: circuitx_log_ok_def circuitx_fire_log intro: circuitx_chain_snoc)

lemma circuitx_log_ok_cong:
  "br_cfg b' = br_cfg b \<Longrightarrow> br_fired b' = br_fired b \<Longrightarrow> circuitx_log_ok s b' = circuitx_log_ok s b"
  by (simp add: circuitx_log_ok_def)

text \<open>An edge of the state graph: the fields change, then the hook fires.\<close>

lemma circuitx_edge_inv:
  assumes "circuitx_inv b" and "br_cfg b' = br_cfg b" and "br_fired b' = br_fired b"
    and "circuitx_core b'" and "br_state b = f" and "br_state b' = t"
    and "f \<noteq> t" and "\<not> (f = Closed \<and> t = HalfOpen)"
  shows "circuitx_inv (circuitx_fireStateChange f t b')"
  using assms circuitx_fire_log_ok [of f b' t] circuitx_log_ok_cong [of b' b f]
  by (simp add: circuitx_inv_def)

text \<open>A change that fires no hook.\<close>

lemma circuitx_quiet_inv:
  assumes "circuitx_inv b" and "br_cfg b' = br_cfg b" and "br_fired b' = br_fired b"
    and "circuitx_core b'" and "br_state b' = br_state b"
  shows "circuitx_inv b'"
  using assms circuitx_log_ok_cong [of b' b "br_state b"] by (simp add: circuitx_inv_def)

lemma circuitx_New_inv: "circuitx_inv (circuitx_New opts)"
  using circuitx_newConfig_valid [of opts]
  by (auto simp: circuitx_inv_def circuitx_core_def circuitx_log_ok_def circuitx_New_def
      circuitx_cfg_ok_def)

lemma circuitx_inv_core: "circuitx_inv b \<Longrightarrow> circuitx_core b"
  by (simp add: circuitx_inv_def)

lemma circuitx_State_eq:
  "circuitx_State now b =
     (if br_state b = Open \<and> cx_resetTimeout (br_cfg b) \<le> now - br_lastOpen b
      then (circuitx_fireStateChange Open HalfOpen
              (b\<lparr>br_state := HalfOpen, br_generation := br_generation b + 1,
                 br_halfOpenInflight := 0, br_halfOpenSuccesses := 0\<rparr>), HalfOpen)
      else (b, br_state b))"
  by (auto simp: circuitx_State_def circuitx_cas_state_def)

lemma circuitx_State_returns: "circuitx_State now b = (b', s) \<Longrightarrow> br_state b' = s"
  by (auto simp: circuitx_State_eq split: if_splits)

lemma circuitx_State_inv [urx_inv]:
  assumes "circuitx_inv b" and "circuitx_State now b = (b', s)"
  shows "circuitx_inv b'"
proof (cases "br_state b = Open \<and> cx_resetTimeout (br_cfg b) \<le> now - br_lastOpen b")
  case True
  let ?b = "b\<lparr>br_state := HalfOpen, br_generation := br_generation b + 1,
              br_halfOpenInflight := 0, br_halfOpenSuccesses := 0\<rparr>"
  have "circuitx_core ?b"
    using circuitx_inv_core [OF assms(1)] by (simp add: circuitx_core_def circuitx_cfg_ok_def)
  then have "circuitx_inv (circuitx_fireStateChange Open HalfOpen ?b)"
    using True by (intro circuitx_edge_inv [OF assms(1)]) simp_all
  with True assms(2) show ?thesis by (simp add: circuitx_State_eq)
next
  case False
  with assms show ?thesis by (auto simp: circuitx_State_eq)
qed

lemma circuitx_tryAdmitProbe_inv [urx_inv]:
  assumes "circuitx_inv b" and "circuitx_tryAdmitProbe b = (b', ok)"
  shows "circuitx_inv b'"
proof (cases "cx_halfOpenMax (br_cfg b) \<le> br_halfOpenInflight b")
  case True
  with assms show ?thesis by (simp add: circuitx_tryAdmitProbe_def Let_def)
next
  case False
  have "wrap_i32 (br_halfOpenInflight b + 1) \<le> cx_halfOpenMax (br_cfg b)"
    using False circuitx_inv_core [OF assms(1)] wrap_i32_range [of "br_halfOpenInflight b + 1"]
    by (cases "cx_halfOpenMax (br_cfg b) < 2 ^ 31") (simp_all add: circuitx_core_def)
  then have "circuitx_core (b\<lparr>br_halfOpenInflight := wrap_i32 (br_halfOpenInflight b + 1)\<rparr>)"
    using False circuitx_inv_core [OF assms(1)] by (simp add: circuitx_core_def)
  with False assms show ?thesis
    by (auto simp: circuitx_tryAdmitProbe_def Let_def intro: circuitx_quiet_inv)
qed

lemma circuitx_stats_inv [simp]:
  "circuitx_inv (b\<lparr>br_rejected := r\<rparr>) = circuitx_inv b"
  "circuitx_inv (b\<lparr>br_totalFail := r\<rparr>) = circuitx_inv b"
  "circuitx_inv (b\<lparr>br_successes := r\<rparr>) = circuitx_inv b"
  "circuitx_inv (b\<lparr>br_trips := r\<rparr>) = circuitx_inv b"
  "circuitx_inv (b\<lparr>br_closed := c\<rparr>) = circuitx_inv b"
  by (simp_all add: circuitx_inv_def circuitx_core_def circuitx_log_ok_def)

lemma circuitx_tryAdmit_inv [urx_inv]:
  assumes "circuitx_inv b" and "circuitx_tryAdmit now b = (b', r)"
  shows "circuitx_inv b'"
proof -
  obtain b1 s where s: "circuitx_State now b = (b1, s)" by fastforce
  obtain b2 ok where p: "circuitx_tryAdmitProbe b1 = (b2, ok)" by fastforce
  from circuitx_State_inv [OF assms(1) s] have i1: "circuitx_inv b1" .
  from circuitx_tryAdmitProbe_inv [OF i1 p] have "circuitx_inv b2" .
  with i1 assms(2) show ?thesis
    by (auto simp: circuitx_tryAdmit_def s p Let_def split: if_splits bool.splits)
qed

lemma circuitx_releaseProbe_inv [urx_inv]:
  "circuitx_inv b \<Longrightarrow> circuitx_inv (circuitx_releaseProbe g b)"
  by (auto simp: circuitx_releaseProbe_def circuitx_core_def
      intro!: circuitx_quiet_inv [of b] dest: circuitx_inv_core)

lemma circuitx_recordSuccess_fast: "circuitx_recordSuccess g b = circuitx_recordSuccess_locked g b"
  by (auto simp: circuitx_recordSuccess_def circuitx_recordSuccess_locked_def)

lemma circuitx_recordSuccess_inv [urx_inv]:
  assumes "circuitx_inv b"
  shows "circuitx_inv (circuitx_recordSuccess g b)"
proof (cases "g = br_generation b")
  case False
  with assms show ?thesis
    by (simp add: circuitx_recordSuccess_fast circuitx_recordSuccess_locked_def)
next
  case g: True
  note core = circuitx_inv_core [OF assms]
  show ?thesis
  proof (cases "br_state b")
    case HalfOpen
    let ?count = "wrap_i32 (br_halfOpenSuccesses b + 1)"
    let ?b = "b\<lparr>br_halfOpenSuccesses := 0, br_failures := 0, br_generation := br_generation b + 1,
               br_state := Closed\<rparr>"
    have "circuitx_core ?b"
      using core by (simp add: circuitx_core_def circuitx_cfg_ok_def)
    then have heal: "circuitx_inv (circuitx_fireStateChange HalfOpen Closed ?b)"
      using HalfOpen by (intro circuitx_edge_inv [OF assms]) simp_all
    have "0 \<le> ?count" if "cx_successThreshold (br_cfg b) < 2 ^ 31"
      using that core by (simp add: circuitx_core_def)
    then have "circuitx_core (b\<lparr>br_halfOpenSuccesses := ?count\<rparr>)"
      if "?count < cx_successThreshold (br_cfg b)"
      using that core HalfOpen by (simp add: circuitx_core_def)
    then have "circuitx_inv (b\<lparr>br_halfOpenSuccesses := ?count\<rparr>)"
      if "?count < cx_successThreshold (br_cfg b)"
      using that by (intro circuitx_quiet_inv [OF assms]) simp_all
    with heal show ?thesis
      using g HalfOpen
      by (simp add: circuitx_recordSuccess_fast circuitx_recordSuccess_locked_def Let_def)
  next
    case Closed
    have "circuitx_core (b\<lparr>br_failures := 0\<rparr>)"
      using core by (simp add: circuitx_core_def circuitx_cfg_ok_def)
    then have "circuitx_inv (b\<lparr>br_failures := 0\<rparr>)"
      by (intro circuitx_quiet_inv [OF assms]) simp_all
    then show ?thesis
      using g Closed by (simp add: circuitx_recordSuccess_fast circuitx_recordSuccess_locked_def)
  next
    case Open
    then show ?thesis
      using g assms by (simp add: circuitx_recordSuccess_fast circuitx_recordSuccess_locked_def)
  qed
qed

text \<open>Every way into Open: whatever else changed, the hook fires from the live state.\<close>

lemma circuitx_trip_inv:
  assumes "circuitx_inv b" and "br_state b \<noteq> Open"
    and "hs = br_halfOpenSuccesses b \<or> hs = 0"
  shows "circuitx_inv (circuitx_fireStateChange (br_state b) Open
           (b\<lparr>br_failures := fl, br_halfOpenSuccesses := hs, br_state := Open, br_lastOpen := now,
              br_trips := t\<rparr>))"
proof (rule circuitx_edge_inv [OF assms(1)])
  show "circuitx_core (b\<lparr>br_failures := fl, br_halfOpenSuccesses := hs, br_state := Open,
          br_lastOpen := now, br_trips := t\<rparr>)"
    using circuitx_inv_core [OF assms(1)] assms(3)
    by (auto simp: circuitx_core_def circuitx_cfg_ok_def)
qed (use assms(2) in simp_all)

lemma circuitx_recordFailure_inv [urx_inv]:
  assumes "circuitx_inv b"
  shows "circuitx_inv (circuitx_recordFailure now forced g b)"
proof -
  let ?count = "wrap_i32 (br_failures b + 1)"
  note core = circuitx_inv_core [OF assms]
  have below: "circuitx_inv (b\<lparr>br_failures := ?count\<rparr>)"
    if "br_state b = Closed" "?count < cx_maxFailures (br_cfg b)"
  proof (rule circuitx_quiet_inv [OF assms])
    show "circuitx_core (b\<lparr>br_failures := ?count\<rparr>)"
      using that core by (simp add: circuitx_core_def)
  qed simp_all
  have trip: "circuitx_inv (circuitx_fireStateChange (br_state b) Open
      (b\<lparr>br_failures := ?count, br_halfOpenSuccesses := hs, br_state := Open, br_lastOpen := now,
         br_trips := br_trips b + 1\<rparr>))"
    if "br_state b \<noteq> Open" "hs = br_halfOpenSuccesses b \<or> hs = 0" for hs
    using circuitx_trip_inv [OF assms that] .
  show ?thesis
    using below assms trip [of "br_halfOpenSuccesses b"] trip [of 0]
    by (cases "br_state b") (simp_all add: circuitx_recordFailure_def Let_def)
qed

lemma circuitx_openFrom_inv [urx_inv]:
  assumes "circuitx_inv b"
  shows "circuitx_inv (circuitx_openFrom now s g b)"
proof -
  have "circuitx_inv (circuitx_fireStateChange (br_state b) Open
      (b\<lparr>br_failures := br_failures b, br_halfOpenSuccesses := br_halfOpenSuccesses b,
         br_state := Open, br_lastOpen := now, br_trips := br_trips b + 1\<rparr>))"
    if "br_state b \<noteq> Open"
    using circuitx_trip_inv [OF assms that] by blast
  then show ?thesis
    using assms by (cases "br_state b = Open") (auto simp: circuitx_openFrom_def Let_def)
qed

lemma circuitx_settle_inv [urx_inv]:
  assumes "circuitx_inv b"
  shows "circuitx_inv (circuitx_settle now s g cc err b)"
proof -
  have r: "circuitx_inv b1 \<Longrightarrow> circuitx_inv (if s = HalfOpen then circuitx_releaseProbe g b1 else b1)" for b1
    by (simp add: circuitx_releaseProbe_inv)
  have f: "circuitx_inv (circuitx_recordFailure now fo g (b\<lparr>br_totalFail := t\<rparr>))" for fo t
    by (rule circuitx_recordFailure_inv) (simp add: assms)
  have k: "circuitx_inv (circuitx_recordSuccess g (b\<lparr>br_successes := t\<rparr>))" for t
    by (rule circuitx_recordSuccess_inv) (simp add: assms)
  show ?thesis
    unfolding circuitx_settle_def Let_def
    by (rule r) (simp add: assms f k circuitx_openFrom_inv [OF assms] split: option.split)
qed

lemma circuitx_Reset_inv [urx_inv]:
  assumes "circuitx_inv b"
  shows "circuitx_inv (circuitx_Reset b)"
proof -
  let ?b = "b\<lparr>br_failures := 0, br_state := Closed, br_generation := br_generation b + 1,
             br_halfOpenInflight := 0, br_halfOpenSuccesses := 0\<rparr>"
  have core: "circuitx_core ?b"
    using circuitx_inv_core [OF assms] by (simp add: circuitx_core_def circuitx_cfg_ok_def)
  show ?thesis
  proof (cases "br_state b = Closed")
    case True
    then show ?thesis
      using core by (auto simp: circuitx_Reset_def Let_def intro!: circuitx_quiet_inv [OF assms])
  next
    case False
    then have "circuitx_inv (circuitx_fireStateChange (br_state b) Closed ?b)"
      using core by (intro circuitx_edge_inv [OF assms]) simp_all
    with False show ?thesis by (simp add: circuitx_Reset_def Let_def)
  qed
qed

lemma circuitx_ResetStats_inv [urx_inv]: "circuitx_inv b \<Longrightarrow> circuitx_inv (circuitx_ResetStats b)"
  by (simp add: circuitx_ResetStats_def)

lemma circuitx_Close_inv [urx_inv]: "circuitx_inv b \<Longrightarrow> circuitx_inv (circuitx_Close b)"
  by (simp add: circuitx_Close_def)

interpretation circuitx_closer: closer circuitx_Close circuitx_IsClosed
  by unfold_locales (simp_all add: circuitx_Close_def circuitx_IsClosed_def)

lemma circuitx_executeRun_inv:
  assumes "circuitx_inv b" and "\<And>cc b. circuitx_inv b \<Longrightarrow> circuitx_inv (fst (fn cc b))"
  shows "circuitx_inv (fst (circuitx_executeRun now zero op s g fn b))"
proof -
  obtain b1 cc out where f: "fn (circuitx_controller s b) b = (b1, cc, out)" by (metis prod_cases3)
  obtain val err where r: "panix_Safe zero op (Some out) = (val, err)" by fastforce
  have "circuitx_inv b1" using assms(2) [OF assms(1), of "circuitx_controller s b"] f by simp
  then show ?thesis by (simp add: circuitx_executeRun_def f r circuitx_settle_inv)
qed

lemma circuitx_Execute_inv:
  assumes "circuitx_inv b" and "\<And>f cc b. fn = Some f \<Longrightarrow> circuitx_inv b \<Longrightarrow> circuitx_inv (fst (f cc b))"
  shows "circuitx_inv (fst (circuitx_Execute t t' zero cerr fn b))"
proof -
  obtain b1 s g ok where a: "circuitx_tryAdmit t b = (b1, s, g, ok)" by (metis prod_cases4)
  from circuitx_tryAdmit_inv [OF assms(1) a] have i1: "circuitx_inv b1" .
  from assms(1) i1 show ?thesis
    by (auto simp: circuitx_Execute_def a split: option.split
        intro!: circuitx_executeRun_inv assms(2))
qed

subsection \<open>The breaker as an automaton\<close>

text \<open>
  The contract of the package documentation, for calls made one after another: three control
  states with one number each, and four verdicts on a finished call.
\<close>

datatype circuitx_spec = SClosed int | SOpen int | SHalfOpen int

datatype circuitx_verdict = Succeeded | Failed | Forced | Ignored

definition circuitx_verdict_of ::
  "circuitx_Breaker \<Rightarrow> bool \<Rightarrow> bool \<Rightarrow> goerror \<Rightarrow> circuitx_verdict" where
  "circuitx_verdict_of b skip trip err =
     (if trip then Forced
      else case err of
             None \<Rightarrow> Succeeded
           | Some e \<Rightarrow> if \<not> skip \<and> circuitx_countsAsFailure b e then Failed else Ignored)"

definition circuitx_spec_admit :: "circuitx_config \<Rightarrow> int \<Rightarrow> circuitx_spec \<Rightarrow> circuitx_spec" where
  "circuitx_spec_admit c now s =
     (case s of SOpen t \<Rightarrow> if cx_resetTimeout c \<le> now - t then SHalfOpen 0 else s | _ \<Rightarrow> s)"

fun circuitx_spec_settle ::
  "circuitx_config \<Rightarrow> int \<Rightarrow> circuitx_verdict \<Rightarrow> circuitx_spec \<Rightarrow> circuitx_spec" where
  "circuitx_spec_settle c now Forced s = SOpen now"
| "circuitx_spec_settle c now Ignored s = s"
| "circuitx_spec_settle c now Succeeded (SHalfOpen k) =
     (if k + 1 < cx_successThreshold c then SHalfOpen (k + 1) else SClosed 0)"
| "circuitx_spec_settle c now Succeeded (SClosed n) = SClosed 0"
| "circuitx_spec_settle c now Failed (SHalfOpen k) = SOpen now"
| "circuitx_spec_settle c now Failed (SClosed n) =
     (if n + 1 < cx_maxFailures c then SClosed (n + 1) else SOpen now)"
| "circuitx_spec_settle c now v (SOpen t) = SOpen t"

definition circuitx_abs :: "circuitx_Breaker \<Rightarrow> circuitx_spec" where
  "circuitx_abs b =
     (case br_state b of
        Closed \<Rightarrow> SClosed (br_failures b)
      | Open \<Rightarrow> SOpen (br_lastOpen b)
      | HalfOpen \<Rightarrow> SHalfOpen (br_halfOpenSuccesses b))"

text \<open>Between calls no probe is in flight. The thresholds fit the 32-bit counters.\<close>

definition circuitx_cfg_i32 :: "circuitx_config \<Rightarrow> bool" where
  "circuitx_cfg_i32 c \<longleftrightarrow>
     cx_maxFailures c < 2 ^ 31 \<and> cx_successThreshold c < 2 ^ 31 \<and> cx_halfOpenMax c < 2 ^ 31"

definition circuitx_quiet :: "circuitx_Breaker \<Rightarrow> bool" where
  "circuitx_quiet b \<longleftrightarrow>
     circuitx_inv b \<and> circuitx_cfg_i32 (br_cfg b)
     \<and> (br_state b = HalfOpen \<longrightarrow> br_halfOpenInflight b = 0)"

text \<open>
  A call whose callback leaves the breaker alone: it may skip, trip, return or panic. The record
  holds the clock at admission and at settlement.
\<close>

record 'a circuitx_call =
  ca_at :: int
  ca_done :: int
  ca_skip :: bool
  ca_trip :: bool
  ca_out :: "'a outcome"

definition circuitx_call_fn :: "'a circuitx_call \<Rightarrow> 'a circuitx_Func" where
  "circuitx_call_fn c cc b =
     (b, (let cc1 = (if ca_skip c then circuitx_SkipFailure cc else cc)
          in if ca_trip c then circuitx_Trip cc1 else cc1), ca_out c)"

definition circuitx_seq :: "'a \<Rightarrow> 'a circuitx_call \<Rightarrow> circuitx_Breaker \<Rightarrow> circuitx_Breaker \<times> 'a \<times> goerror" where
  "circuitx_seq zero c b =
     circuitx_Execute (ca_at c) (ca_done c) zero None (Some (circuitx_call_fn c)) b"

definition circuitx_seqs :: "'a \<Rightarrow> 'a circuitx_call list \<Rightarrow> circuitx_Breaker \<Rightarrow> circuitx_Breaker" where
  "circuitx_seqs zero cs b = fold (\<lambda>c b. fst (circuitx_seq zero c b)) cs b"

lemmas circuitx_settle_defs =
  circuitx_settle_def circuitx_verdict_of_def circuitx_recordFailure_def circuitx_openFrom_def
  circuitx_recordSuccess_fast circuitx_recordSuccess_locked_def circuitx_releaseProbe_def
  circuitx_abs_def Let_def

lemma circuitx_count_i32:
  assumes "circuitx_inv b" and "circuitx_cfg_i32 (br_cfg b)"
  shows "br_state b = Closed \<Longrightarrow> wrap_i32 (br_failures b + 1) = br_failures b + 1"
    and "wrap_i32 (br_halfOpenSuccesses b + 1) = br_halfOpenSuccesses b + 1"
  using assms by (auto simp: circuitx_inv_def circuitx_core_def circuitx_cfg_i32_def)

lemma circuitx_countsAsFailure_cong [simp]:
  "circuitx_countsAsFailure (b\<lparr>br_totalFail := t\<rparr>) e = circuitx_countsAsFailure b e"
  by (simp add: circuitx_countsAsFailure_def)

lemma circuitx_settle_cfg [simp]:
  "br_cfg (circuitx_settle now s g cc err b) = br_cfg b"
  "br_closed (circuitx_settle now s g cc err b) = br_closed b"
  by (auto simp: circuitx_settle_defs split: option.split circuitx_State.split)

lemma circuitx_settle_abs:
  assumes "circuitx_inv b" and "circuitx_cfg_i32 (br_cfg b)" and "br_state b \<noteq> Open"
  shows "circuitx_abs (circuitx_settle now (br_state b) (br_generation b) cc err b) =
         circuitx_spec_settle (br_cfg b) now
           (circuitx_verdict_of b (ce_skipFailure cc) (ce_tripped cc) err) (circuitx_abs b)"
proof (cases "br_state b")
  case Closed
  then show ?thesis
    using circuitx_count_i32(1) [OF assms(1,2)]
    by (cases err) (simp_all add: circuitx_settle_defs)
next
  case HalfOpen
  then show ?thesis
    using circuitx_count_i32(2) [OF assms(1,2)]
    by (cases err) (simp_all add: circuitx_settle_defs)
next
  case Open
  with assms(3) show ?thesis by simp
qed

lemma circuitx_settle_inflight:
  assumes "br_state b \<noteq> Open" and "br_state b = HalfOpen \<Longrightarrow> br_halfOpenInflight b = 1"
  shows "br_state (circuitx_settle now (br_state b) (br_generation b) cc err b) = HalfOpen \<longrightarrow>
         br_halfOpenInflight (circuitx_settle now (br_state b) (br_generation b) cc err b) = 0"
proof (cases "br_state b")
  case HalfOpen
  with assms(2) have "br_halfOpenInflight b = 1" by simp
  with HalfOpen show ?thesis by (cases err) (simp_all add: circuitx_settle_defs)
next
  case Closed
  then show ?thesis by (cases err) (simp_all add: circuitx_settle_defs)
next
  case Open
  with assms(1) show ?thesis by simp
qed

text \<open>Admission between calls: promotion, then a slot.\<close>

lemma circuitx_tryAdmit_quiet_eq:
  assumes "circuitx_quiet b"
  shows "circuitx_tryAdmit now b =
    (case br_state b of
       Closed \<Rightarrow> (b, Closed, br_generation b, True)
     | HalfOpen \<Rightarrow> (b\<lparr>br_halfOpenInflight := 1\<rparr>, HalfOpen, br_generation b, True)
     | Open \<Rightarrow>
         if cx_resetTimeout (br_cfg b) \<le> now - br_lastOpen b
         then (circuitx_fireStateChange Open HalfOpen
                 (b\<lparr>br_state := HalfOpen, br_generation := br_generation b + 1,
                    br_halfOpenInflight := 0, br_halfOpenSuccesses := 0\<rparr>)\<lparr>br_halfOpenInflight := 1\<rparr>,
               HalfOpen, br_generation b + 1, True)
         else (b\<lparr>br_rejected := br_rejected b + 1\<rparr>, Open, br_generation b, False))"
proof -
  have "1 \<le> cx_halfOpenMax (br_cfg b)"
    using assms by (simp add: circuitx_quiet_def circuitx_inv_def circuitx_core_def circuitx_cfg_ok_def)
  then have "\<not> cx_halfOpenMax (br_cfg b) \<le> 0" by simp
  then show ?thesis
    using assms
    by (cases "br_state b") (simp_all add: circuitx_tryAdmit_def circuitx_State_eq
        circuitx_tryAdmitProbe_def circuitx_quiet_def Let_def)
qed

lemma circuitx_tryAdmit_quiet:
  assumes "circuitx_quiet b" and "circuitx_tryAdmit now b = (b1, s, g, ok)"
  shows "circuitx_inv b1" and "br_cfg b1 = br_cfg b" and "br_closed b1 = br_closed b"
    and "circuitx_abs b1 = circuitx_spec_admit (br_cfg b) now (circuitx_abs b)"
    and "br_state b1 = s" and "br_generation b1 = g" and "ok \<longleftrightarrow> s \<noteq> Open"
    and "s = HalfOpen \<Longrightarrow> br_halfOpenInflight b1 = 1"
proof -
  show "circuitx_inv b1"
    using assms circuitx_tryAdmit_inv circuitx_quiet_def by blast
  note eq = assms(2) [unfolded circuitx_tryAdmit_quiet_eq [OF assms(1)]]
  show "br_cfg b1 = br_cfg b" and "br_closed b1 = br_closed b" and "br_state b1 = s"
    and "br_generation b1 = g" and "ok \<longleftrightarrow> s \<noteq> Open"
    and "s = HalfOpen \<Longrightarrow> br_halfOpenInflight b1 = 1"
    using eq by (cases "br_state b"; auto split: if_splits)+
  show "circuitx_abs b1 = circuitx_spec_admit (br_cfg b) now (circuitx_abs b)"
    using eq by (cases "br_state b")
      (auto simp: circuitx_abs_def circuitx_spec_admit_def split: if_splits)
qed

lemma circuitx_verdict_cong:
  assumes "br_cfg b' = br_cfg b"
  shows "circuitx_verdict_of b' = circuitx_verdict_of b"
proof -
  have "circuitx_countsAsFailure b' = circuitx_countsAsFailure b"
    by (rule ext) (simp add: circuitx_countsAsFailure_def assms)
  then show ?thesis
    by (intro ext) (simp add: circuitx_verdict_of_def split: option.split)
qed

definition circuitx_call_result :: "'a \<Rightarrow> circuitx_config \<Rightarrow> 'a circuitx_call \<Rightarrow> 'a \<times> goerror" where
  "circuitx_call_result zero cfg c = panix_Safe zero (circuitx_opOrDefault cfg) (Some (ca_out c))"

definition circuitx_call_verdict :: "'a \<Rightarrow> circuitx_Breaker \<Rightarrow> 'a circuitx_call \<Rightarrow> circuitx_verdict" where
  "circuitx_call_verdict zero b c =
     circuitx_verdict_of b (ca_skip c) (ca_trip c) (snd (circuitx_call_result zero (br_cfg b) c))"

lemma circuitx_call_verdict_cong:
  assumes "br_cfg b' = br_cfg b"
  shows "circuitx_call_verdict zero b' = circuitx_call_verdict zero b"
  by (rule ext) (simp add: circuitx_call_verdict_def circuitx_verdict_cong [OF assms] assms)

definition circuitx_spec_call :: "'a \<Rightarrow> circuitx_Breaker \<Rightarrow> 'a circuitx_call \<Rightarrow> circuitx_spec \<Rightarrow> circuitx_spec" where
  "circuitx_spec_call zero b c s =
     (case circuitx_spec_admit (br_cfg b) (ca_at c) s of
        SOpen t \<Rightarrow> SOpen t
      | s1 \<Rightarrow> circuitx_spec_settle (br_cfg b) (ca_done c) (circuitx_call_verdict zero b c) s1)"

lemma circuitx_call_fn_flags:
  "circuitx_call_fn c (circuitx_controller s b) b1 = (b2, cc, out) \<Longrightarrow>
   b2 = b1 \<and> ce_skipFailure cc = ca_skip c \<and> ce_tripped cc = ca_trip c \<and> out = ca_out c"
  by (cases "ca_skip c"; cases "ca_trip c") (auto simp: circuitx_call_fn_def circuitx_controller_def
      circuitx_SkipFailure_def circuitx_Trip_def Let_def)

lemma circuitx_seq_sim:
  assumes "circuitx_quiet b" and "\<not> br_closed b" and "circuitx_seq zero c b = (b', v, err)"
  shows "circuitx_quiet b'" and "\<not> br_closed b'" and "br_cfg b' = br_cfg b"
    and "circuitx_abs b' = circuitx_spec_call zero b c (circuitx_abs b)"
    and "(v, err) = (case circuitx_spec_admit (br_cfg b) (ca_at c) (circuitx_abs b) of
            SOpen t \<Rightarrow> (zero, Some circuitx_ErrOpen)
          | _ \<Rightarrow> circuitx_call_result zero (br_cfg b) c)"
proof -
  obtain b1 s g ok where a: "circuitx_tryAdmit (ca_at c) b = (b1, s, g, ok)" by (metis prod_cases4)
  note adm = circuitx_tryAdmit_quiet [OF assms(1) a]
  obtain b2 cc out where f: "circuitx_call_fn c (circuitx_controller s b1) b1 = (b2, cc, out)"
    by (metis prod_cases3)
  note fl = circuitx_call_fn_flags [OF f]
  let ?r = "circuitx_call_result zero (br_cfg b) c"
  let ?set = "circuitx_settle (ca_done c) (br_state b1) (br_generation b1) cc (snd ?r) b1"
  have seq: "circuitx_seq zero c b =
      (if s = Open then (b1, zero, Some circuitx_ErrOpen) else (?set, fst ?r, snd ?r))"
    using assms(2) fl adm(2,5,6,7)
    by (simp add: circuitx_seq_def circuitx_Execute_def a circuitx_executeRun_def f
        circuitx_call_result_def split: prod.split)
  have i32: "circuitx_cfg_i32 (br_cfg b1)"
    using assms(1) adm(2) by (simp add: circuitx_quiet_def)
  have abs1: "circuitx_spec_admit (br_cfg b) (ca_at c) (circuitx_abs b) = circuitx_abs b1"
    using adm(4) by simp
  have set_abs: "circuitx_abs ?set =
      circuitx_spec_settle (br_cfg b) (ca_done c) (circuitx_call_verdict zero b c) (circuitx_abs b1)"
    if "s \<noteq> Open"
    using circuitx_settle_abs [OF adm(1) i32] that adm(2,5) fl
    by (simp add: circuitx_call_verdict_def circuitx_verdict_cong [of b1 b])
  have set_quiet: "circuitx_quiet ?set" if "s \<noteq> Open"
    using circuitx_settle_inflight [of b1 "ca_done c" cc "snd ?r"] circuitx_settle_inv [OF adm(1)] i32 that
      adm(5,8) unfolding circuitx_quiet_def by simp
  have b1_quiet: "circuitx_quiet b1" if "s = Open"
    using that adm i32 by (simp add: circuitx_quiet_def)
  have ab1: "circuitx_abs b1 = (case s of Closed \<Rightarrow> SClosed (br_failures b1)
      | Open \<Rightarrow> SOpen (br_lastOpen b1) | HalfOpen \<Rightarrow> SHalfOpen (br_halfOpenSuccesses b1))"
    using adm(5) by (simp add: circuitx_abs_def)
  have b': "b' = (if s = Open then b1 else ?set)"
    and ve: "(v, err) = (if s = Open then (zero, Some circuitx_ErrOpen) else ?r)"
    using assms(3) unfolding seq by (cases "s = Open"; simp add: prod_eq_iff)+
  show "circuitx_quiet b'" unfolding b' using set_quiet b1_quiet by simp
  show "\<not> br_closed b'" unfolding b' using assms(2) adm(3) by simp
  show "br_cfg b' = br_cfg b" unfolding b' using adm(2) by simp
  show "circuitx_abs b' = circuitx_spec_call zero b c (circuitx_abs b)"
    unfolding b' circuitx_spec_call_def abs1 using set_abs ab1 by (cases s) simp_all
  show "(v, err) = (case circuitx_spec_admit (br_cfg b) (ca_at c) (circuitx_abs b) of
            SOpen t \<Rightarrow> (zero, Some circuitx_ErrOpen)
          | _ \<Rightarrow> circuitx_call_result zero (br_cfg b) c)"
    unfolding ve abs1 using ab1 by (cases s) simp_all
qed

lemma circuitx_seqs_sim:
  assumes "circuitx_quiet b" and "\<not> br_closed b"
  shows "circuitx_quiet (circuitx_seqs zero cs b) \<and> \<not> br_closed (circuitx_seqs zero cs b)
    \<and> br_cfg (circuitx_seqs zero cs b) = br_cfg b
    \<and> circuitx_abs (circuitx_seqs zero cs b) = fold (circuitx_spec_call zero b) cs (circuitx_abs b)"
  using assms
proof (induction cs arbitrary: b)
  case Nil
  then show ?case by (simp add: circuitx_seqs_def)
next
  case (Cons c cs)
  obtain b' v err where c: "circuitx_seq zero c b = (b', v, err)" by (metis prod_cases3)
  note sim = circuitx_seq_sim [OF Cons.prems c]
  have "circuitx_spec_call zero b' = circuitx_spec_call zero b"
    by (intro ext) (simp add: circuitx_spec_call_def sim(3)
      circuitx_call_verdict_cong [OF sim(3)] split: circuitx_spec.split)
  with Cons.IH [OF sim(1,2)] show ?case
    by (simp add: circuitx_seqs_def c sim(3,4))
qed

lemma circuitx_New_quiet:
  "circuitx_cfg_i32 (circuitx_newConfig opts) \<Longrightarrow> circuitx_quiet (circuitx_New opts)"
  using circuitx_New_inv [of opts] by (simp add: circuitx_quiet_def circuitx_New_def)

text \<open>A run of failures in Closed, and a run of successes from an expired Open.\<close>

lemma circuitx_spec_failures:
  assumes "\<forall>c\<in>set cs. circuitx_call_verdict zero b c = Failed"
    and "n + int (length cs) \<le> cx_maxFailures (br_cfg b)" and "n < cx_maxFailures (br_cfg b)"
  shows "fold (circuitx_spec_call zero b) cs (SClosed n) =
         (if n + int (length cs) < cx_maxFailures (br_cfg b) then SClosed (n + int (length cs))
          else SOpen (ca_done (last cs)))"
  using assms
proof (induction cs arbitrary: n)
  case Nil
  then show ?case by simp
next
  case (Cons c cs)
  show ?case
  proof (cases "n + 1 < cx_maxFailures (br_cfg b)")
    case True
    then have "circuitx_spec_call zero b c (SClosed n) = SClosed (n + 1)"
      using Cons.prems(1) by (simp add: circuitx_spec_call_def circuitx_spec_admit_def)
    with True Cons.IH [of "n + 1"] Cons.prems show ?thesis by (auto simp: algebra_simps)
  next
    case False
    with Cons.prems have "cs = []" by (cases cs) simp_all
    with False Cons.prems show ?thesis
      by (simp add: circuitx_spec_call_def circuitx_spec_admit_def)
  qed
qed

lemma circuitx_spec_successes:
  assumes "\<forall>c\<in>set cs. circuitx_call_verdict zero b c = Succeeded"
    and "k + int (length cs) \<le> cx_successThreshold (br_cfg b)" and "k < cx_successThreshold (br_cfg b)"
  shows "fold (circuitx_spec_call zero b) cs (SHalfOpen k) =
         (if k + int (length cs) < cx_successThreshold (br_cfg b) then SHalfOpen (k + int (length cs))
          else SClosed 0)"
  using assms
proof (induction cs arbitrary: k)
  case Nil
  then show ?case by simp
next
  case (Cons c cs)
  show ?case
  proof (cases "k + 1 < cx_successThreshold (br_cfg b)")
    case True
    then have "circuitx_spec_call zero b c (SHalfOpen k) = SHalfOpen (k + 1)"
      using Cons.prems(1) by (simp add: circuitx_spec_call_def circuitx_spec_admit_def)
    with True Cons.IH [of "k + 1"] Cons.prems show ?thesis by (auto simp: algebra_simps)
  next
    case False
    with Cons.prems have "cs = []" by (cases cs) simp_all
    with False Cons.prems show ?thesis
      by (simp add: circuitx_spec_call_def circuitx_spec_admit_def)
  qed
qed

subsection \<open>Properties\<close>

text \<open>
  C2: Refinement. A call on a quiescent breaker is a step of the automaton: admission promotes an
  expired Open, a still-open circuit answers \<open>ErrOpen\<close> with the zero value and stays as it was, an
  admitted call returns the callback's value and error (a panic as a \<open>PanicError\<close>) and moves the
  automaton by its verdict; the breaker is quiescent again.
\<close>

theorem circuitx_Execute_refines:
  assumes "circuitx_quiet b" and "\<not> br_closed b" and "circuitx_seq zero c b = (b', v, err)"
  shows "circuitx_quiet b' \<and> br_cfg b' = br_cfg b \<and>
    (case circuitx_spec_admit (br_cfg b) (ca_at c) (circuitx_abs b) of
       SOpen t \<Rightarrow> circuitx_abs b' = SOpen t \<and> v = zero \<and> err = Some circuitx_ErrOpen
     | s \<Rightarrow> (v, err) = panix_Safe zero (circuitx_opOrDefault (br_cfg b)) (Some (ca_out c)) \<and>
            circuitx_abs b' = circuitx_spec_settle (br_cfg b) (ca_done c)
              (circuitx_verdict_of b (ca_skip c) (ca_trip c) err) s)"
  using circuitx_seq_sim [OF assms]
  by (cases "circuitx_spec_admit (br_cfg b) (ca_at c) (circuitx_abs b)")
    (simp_all add: circuitx_spec_call_def circuitx_call_verdict_def circuitx_call_result_def
      prod_eq_iff)

text \<open>
  Trip threshold. Consecutive counted failures leave a fresh run Closed with their number as
  the failure count, until the configured maximum is reached: exactly then the circuit is Open,
  stamped with the time the last call settled.
\<close>

theorem circuitx_trips_at_max:
  assumes "circuitx_quiet b" and "\<not> br_closed b" and "circuitx_abs b = SClosed 0"
    and "\<forall>c\<in>set cs. circuitx_call_verdict zero b c = Failed"
    and "int (length cs) \<le> cx_maxFailures (br_cfg b)"
  shows "circuitx_abs (circuitx_seqs zero cs b) =
    (if int (length cs) < cx_maxFailures (br_cfg b) then SClosed (int (length cs))
     else SOpen (ca_done (last cs)))"
proof -
  have "0 < cx_maxFailures (br_cfg b)"
    using assms(1) by (simp add: circuitx_quiet_def circuitx_inv_def circuitx_core_def circuitx_cfg_ok_def)
  then show ?thesis
    using circuitx_seqs_sim [OF assms(1,2), of zero cs] circuitx_spec_failures [OF assms(4), of 0] assms(3,5)
    by simp
qed

text \<open>
  Recovery. Once the reset timeout of an Open circuit has passed, the next call is admitted as
  a probe, and the circuit closes after exactly the configured number of successful probes.
\<close>

theorem circuitx_heals_at_threshold:
  assumes "circuitx_quiet b" and "\<not> br_closed b" and "circuitx_abs b = SOpen t"
    and "t + cx_resetTimeout (br_cfg b) \<le> ca_at c"
    and "\<forall>c\<in>set (c # cs). circuitx_call_verdict zero b c = Succeeded"
    and "int (length (c # cs)) \<le> cx_successThreshold (br_cfg b)"
  shows "circuitx_abs (circuitx_seqs zero (c # cs) b) =
    (if int (length (c # cs)) < cx_successThreshold (br_cfg b)
     then SHalfOpen (int (length (c # cs))) else SClosed 0)"
proof -
  have pos: "0 < cx_successThreshold (br_cfg b)"
    using assms(1) by (simp add: circuitx_quiet_def circuitx_inv_def circuitx_core_def circuitx_cfg_ok_def)
  have "circuitx_spec_call zero b c (SOpen t) = circuitx_spec_call zero b c (SHalfOpen 0)"
    using assms(4) by (simp add: circuitx_spec_call_def circuitx_spec_admit_def)
  then have "circuitx_abs (circuitx_seqs zero (c # cs) b) =
      fold (circuitx_spec_call zero b) (c # cs) (SHalfOpen 0)"
    using circuitx_seqs_sim [OF assms(1,2), of zero "c # cs"] assms(3) by simp
  also have "\<dots> = (if 0 + int (length (c # cs)) < cx_successThreshold (br_cfg b)
      then SHalfOpen (0 + int (length (c # cs))) else SClosed 0)"
    by (rule circuitx_spec_successes [OF assms(5)]) (use assms(6) pos in simp_all)
  finally show ?thesis by simp
qed

text \<open>Fail fast. While an open circuit's timeout has not passed, \<open>Execute\<close> and \<open>TryExecute\<close> do not
  call the function: whatever it is, the answer is the rejection, and the only thing that changes
  is the rejection counter.
\<close>

theorem circuitx_open_rejects:
  assumes "\<not> br_closed b" and "br_state b = Open"
    and "t < br_lastOpen b + cx_resetTimeout (br_cfg b)"
  shows "circuitx_Execute t t' zero None (Some f) b =
           (b\<lparr>br_rejected := br_rejected b + 1\<rparr>, zero, Some circuitx_ErrOpen) \<and>
         circuitx_TryExecute t t' zero None (Some f) b =
           (b\<lparr>br_rejected := br_rejected b + 1\<rparr>, False, zero, None)"
  using assms
  by (simp add: circuitx_Execute_def circuitx_TryExecute_def circuitx_tryAdmit_def
      circuitx_State_eq Let_def)

text \<open>Stale settlement. A call admitted in an older epoch (its generation is not the live one)
  settles on the cumulative success and failure counters alone: it cannot heal, trip or reset the
  breaker, nor free a probe slot of the newer epoch, and no hook fires.
\<close>

theorem circuitx_stale_settle:
  assumes "g \<noteq> br_generation b"
  shows "circuitx_settle now st g cc err b =
      b\<lparr>br_successes := br_successes b + (if err = None \<and> \<not> ce_tripped cc then 1 else 0),
        br_totalFail := br_totalFail b + (if \<exists>e. err = Some e \<and> \<not> ce_skipFailure cc \<and>
          circuitx_countsAsFailure b e then 1 else 0)\<rparr>"
  using assms by (cases err) (simp_all add: circuitx_settle_defs)

subsection \<open>Witnesses\<close>

lemma circuitx_default_quiet: "circuitx_quiet (circuitx_New [])"
  by (rule circuitx_New_quiet) (simp add: circuitx_newConfig_def circuitx_cfg_i32_def circuitx_consts)

lemma circuitx_default_fields [simp]:
  "br_closed (circuitx_New opts) = False"
  "circuitx_abs (circuitx_New opts) = SClosed 0"
  "br_cfg (circuitx_New opts) = circuitx_newConfig opts"
  by (simp_all add: circuitx_New_def circuitx_abs_def)

definition circuitx_demo :: "int \<Rightarrow> nat outcome \<Rightarrow> nat circuitx_call" where
  "circuitx_demo t out = \<lparr>ca_at = t, ca_done = t + 1, ca_skip = False, ca_trip = False, ca_out = out\<rparr>"

lemma circuitx_demo_verdict [simp]:
  "circuitx_call_verdict zero b (circuitx_demo t (Panics r)) = Failed"
  "circuitx_call_verdict zero b (circuitx_demo t (Returns v None)) = Succeeded"
  by (simp_all add: circuitx_call_verdict_def circuitx_demo_def circuitx_verdict_of_def
      circuitx_call_result_def circuitx_countsAsFailure_def)

theorem circuitx_Execute_refines_witness:
  "\<exists>b' v err. circuitx_seq 0 (circuitx_demo 3 (Panics (PvOther 7))) (circuitx_New []) = (b', v, err)
    \<and> circuitx_abs b' = SClosed 1 \<and> v = 0 \<and> err = Some (PanicError circuitx_opExecute (PvOther 7))"
proof -
  obtain b' v err where
    r: "circuitx_seq 0 (circuitx_demo 3 (Panics (PvOther 7))) (circuitx_New []) = (b', v, err)"
    by (metis prod_cases3)
  show ?thesis
    using r circuitx_Execute_refines [OF circuitx_default_quiet _ r]
    by (simp add: circuitx_spec_admit_def circuitx_demo_def circuitx_verdict_of_def
        circuitx_countsAsFailure_def circuitx_newConfig_def circuitx_consts circuitx_opOrDefault_def)
qed

theorem circuitx_trips_at_max_witness:
  "circuitx_abs (circuitx_seqs 0 (map (\<lambda>t. circuitx_demo t (Panics (PvOther 7))) [1, 2, 3, 4, 5])
     (circuitx_New [])) = SOpen 6"
  using circuitx_trips_at_max [OF circuitx_default_quiet, of
      "map (\<lambda>t. circuitx_demo t (Panics (PvOther 7))) [1, 2, 3, 4, 5]" 0]
  by (simp add: circuitx_newConfig_def circuitx_consts) (simp add: circuitx_demo_def)

definition circuitx_demo_open :: circuitx_Breaker where
  "circuitx_demo_open = (circuitx_New [])\<lparr>br_state := Open, br_lastOpen := 6\<rparr>"

lemma circuitx_demo_open_quiet: "circuitx_quiet circuitx_demo_open"
  by (simp add: circuitx_quiet_def circuitx_demo_open_def circuitx_New_def circuitx_inv_def
      circuitx_core_def circuitx_log_ok_def circuitx_cfg_ok_def circuitx_cfg_i32_def
      circuitx_newConfig_def circuitx_consts)

lemma circuitx_demo_open_fields [simp]:
  "br_closed circuitx_demo_open = False"
  "br_state circuitx_demo_open = Open"
  "br_lastOpen circuitx_demo_open = 6"
  "circuitx_abs circuitx_demo_open = SOpen 6"
  "cx_resetTimeout (br_cfg circuitx_demo_open) = 10000000000"
  "cx_successThreshold (br_cfg circuitx_demo_open) = 1"
  by (simp_all add: circuitx_demo_open_def circuitx_New_def circuitx_abs_def circuitx_newConfig_def
      circuitx_consts)

theorem circuitx_heals_at_threshold_witness:
  "circuitx_abs (circuitx_seqs 0 [circuitx_demo 10000000006 (Returns 5 None)] circuitx_demo_open) = SClosed 0"
  using circuitx_heals_at_threshold [OF circuitx_demo_open_quiet, of 6
      "circuitx_demo 10000000006 (Returns 5 None)" "[]" 0]
  by (simp del: circuitx_demo_verdict(1)) (simp add: circuitx_demo_def)

theorem circuitx_open_rejects_witness:
  "snd (circuitx_Execute 7 8 (0::nat) None (Some (\<lambda>cc b. (b, cc, Returns 5 None))) circuitx_demo_open)
     = (0, Some circuitx_ErrOpen)"
  using circuitx_open_rejects [of circuitx_demo_open 7 8 "0::nat" "\<lambda>cc b. (b, cc, Returns 5 None)"]
  by simp

theorem circuitx_stale_settle_witness:
  "br_successes (circuitx_settle 9 HalfOpen 3 \<lparr>ce_state = HalfOpen, ce_failures = 0,
     ce_maxFailures = 5, ce_skipFailure = False, ce_tripped = False\<rparr> None circuitx_demo_open) = 1"
  using circuitx_stale_settle [of 3 circuitx_demo_open 9 HalfOpen
      "\<lparr>ce_state = HalfOpen, ce_failures = 0, ce_maxFailures = 5, ce_skipFailure = False,
        ce_tripped = False\<rparr>" None]
  by (simp add: circuitx_demo_open_def circuitx_New_def)

end
