(* ===== verification/Circuitx_Conc.thy ===== *)
theory Circuitx_Conc
  imports Circuitx "HOL-Library.Multiset"
begin

text \<open>
  Package \<open>circuitx\<close>, part two: any number of goroutines on one breaker, one load, store, add or compare-and-swap of an atomic field at a time. The
  transition mutex is held by \<open>recordSuccess\<close>, \<open>recordFailure\<close>, \<open>openFrom\<close> and \<open>Reset\<close> only; \<open>State\<close>, admission and the release of a probe slot run
  beside it. Run alone, the accesses of a call add up to the operations of \<open>Circuitx\<close>.
\<close>

subsection \<open>Program points\<close>

text \<open>Where a goroutine goes on after an operation that others share: it is done, admission goes on, or the deferred \<open>releaseProbe\<close> runs.\<close>

datatype circuitx_cont = KDone | KAdmit circuitx_State | KRelease u64

text \<open>
  The points of admission; the first argument of those of \<open>State\<close> says whether \<open>tryAdmit\<close> called it. Then the points inside the mutex: of
  \<open>recordFailure\<close> and \<open>openFrom\<close>, of \<open>recordSuccess\<close>, and of \<open>Reset\<close>.
\<close>

datatype circuitx_admission =
    AStart bool                                \<comment> \<open>\<open>State\<close>: \<open>s := state.Load()\<close>\<close>
  | ATime bool                                 \<comment> \<open>\<open>lastOpen.Load()\<close> and the timeout test\<close>
  | ACas bool                                  \<comment> \<open>\<open>state.CompareAndSwap(Open, HalfOpen)\<close>\<close>
  | AGen bool                                  \<comment> \<open>\<open>generation.Add(1)\<close>\<close>
  | AInflight bool                             \<comment> \<open>\<open>halfOpenInflight.Store(0)\<close>\<close>
  | ASucc bool                                 \<comment> \<open>\<open>halfOpenSuccesses.Store(0)\<close>\<close>
  | AReload bool                               \<comment> \<open>the load after a lost compare-and-swap\<close>
  | AGenLoad circuitx_State                    \<comment> \<open>\<open>tryAdmit\<close>: \<open>gen = generation.Load()\<close>\<close>
  | AProbe u64                                 \<comment> \<open>\<open>tryAdmitProbe\<close>: \<open>cur := halfOpenInflight.Load()\<close>\<close>
  | AProbeCas u64 int                          \<comment> \<open>\<open>tryAdmitProbe\<close>: the compare-and-swap\<close>
  | AReject                                    \<comment> \<open>\<open>rejected.Add(1)\<close>\<close>

datatype circuitx_failing =
    FGen u64 bool                              \<comment> \<open>\<open>recordFailure\<close>: \<open>generation.Load()\<close>\<close>
  | FState bool                                \<comment> \<open>\<open>live := state.Load()\<close>\<close>
  | FAdd bool circuitx_State                   \<comment> \<open>\<open>failures.Add(1)\<close>\<close>
  | FSucc circuitx_State                       \<comment> \<open>\<open>halfOpenSuccesses.Store(0)\<close>\<close>
  | OGen u64                                   \<comment> \<open>\<open>openFrom\<close>: \<open>generation.Load()\<close>\<close>
  | OState                                     \<comment> \<open>\<open>prev := state.Load()\<close>\<close>
  | FOpen circuitx_State                       \<comment> \<open>both: \<open>state.Store(Open)\<close>\<close>
  | FLast circuitx_State                       \<comment> \<open>\<open>lastOpen.Store(now)\<close>\<close>
  | FTrips circuitx_State                      \<comment> \<open>\<open>trips.Add(1)\<close>\<close>
  | FUnlock circuitx_State

datatype circuitx_healing =
    SGen u64                                   \<comment> \<open>\<open>recordSuccess\<close>: \<open>generation.Load()\<close>\<close>
  | SState                                     \<comment> \<open>\<open>state.Load()\<close>\<close>
  | SCount                                     \<comment> \<open>\<open>halfOpenSuccesses.Add(1)\<close>\<close>
  | SHealSucc                                  \<comment> \<open>the four writes that heal\<close>
  | SHealFail
  | SHealGen
  | SHealState
  | SUnlock
  | SForgive                                   \<comment> \<open>\<open>failures.Store(0)\<close> in Closed\<close>

datatype circuitx_resetting = TFail | TSwap | TGen circuitx_State | TInflight circuitx_State | TSucc circuitx_State | TUnlock circuitx_State

text \<open>A call carries \<open>Some g\<close> when it holds a probe slot taken in generation \<open>g\<close>, and the generation it was admitted with.\<close>

datatype circuitx_pc =
    CIdle
  | EClosed                                    \<comment> \<open>\<open>closed.Load()\<close>\<close>
  | CAdmission circuitx_admission
  | EFailures "u64 option" u64                 \<comment> \<open>\<open>executeRun\<close>: \<open>failures.Load()\<close>\<close>
  | ERun "u64 option" u64                      \<comment> \<open>the callback runs\<close>
  | ETotal "u64 option" u64 bool               \<comment> \<open>\<open>totalFail.Add(1)\<close>\<close>
  | ESucc "u64 option" u64                     \<comment> \<open>\<open>successes.Add(1)\<close>\<close>
  | SFast "u64 option" u64                     \<comment> \<open>\<open>recordSuccess\<close>: the two loads of the fast path\<close>
  | SFast2 "u64 option" u64
  | FLock "u64 option" u64 bool                \<comment> \<open>\<open>mu.Lock()\<close> of \<open>recordFailure\<close>, \<open>openFrom\<close>, \<open>recordSuccess\<close> and \<open>Reset\<close>\<close>
  | OLock "u64 option" u64
  | SLock "u64 option" u64
  | TLock
  | CFailing "u64 option" circuitx_failing
  | CHealing "u64 option" circuitx_healing
  | CResetting circuitx_resetting
  | CUnlock "u64 option"                       \<comment> \<open>\<open>mu.Unlock()\<close> of a settlement that changes no state\<close>
  | CFire circuitx_State circuitx_State circuitx_cont  \<comment> \<open>\<open>fireStateChange\<close>\<close>
  | RGen u64                                   \<comment> \<open>\<open>releaseProbe\<close>: \<open>generation.Load()\<close>\<close>
  | RLoad
  | RCas int
  | CZero nat                                  \<comment> \<open>\<open>ResetStats\<close>: the four stores\<close>
  | CClose

fun circuitx_resume :: "circuitx_cont \<Rightarrow> circuitx_pc" where
  "circuitx_resume KDone = CIdle"
| "circuitx_resume (KAdmit st) = CAdmission (AGenLoad st)"
| "circuitx_resume (KRelease g) = RGen g"

definition circuitx_leave :: "u64 option \<Rightarrow> circuitx_cont" where
  "circuitx_leave rel = (case rel of Some g \<Rightarrow> KRelease g | None \<Rightarrow> KDone)"

definition circuitx_after :: "bool \<Rightarrow> circuitx_State \<Rightarrow> circuitx_cont" where
  "circuitx_after admitting st = (if admitting then KAdmit st else KDone)"

subsection \<open>One access\<close>

text \<open>
  The shared state is the breaker, whether the mutex is held, and a ghost: the changes of the state in the order in which they were made. What comes
  from outside in a step: the operation an idle goroutine calls (\<open>OpExecute runs\<close> with a function and a live context, or not), the clock, and the
  controller's flags and the error with which a callback ends.
\<close>

record circuitx_shared =
  cy_b :: circuitx_Breaker
  cy_mu :: bool
  cy_changes :: "(circuitx_State \<times> circuitx_State) list"

datatype circuitx_op = OpExecute bool | OpState | OpReset | OpResetStats | OpClose

record circuitx_input =
  ci_op :: circuitx_op
  ci_now :: int
  ci_skip :: bool
  ci_trip :: bool
  ci_err :: goerror

definition circuitx_put :: "circuitx_Breaker \<Rightarrow> circuitx_shared \<Rightarrow> circuitx_shared" where
  "circuitx_put b s = s\<lparr>cy_b := b\<rparr>"

definition circuitx_set_state :: "circuitx_State \<Rightarrow> circuitx_shared \<Rightarrow> circuitx_shared" where
  "circuitx_set_state st s =
     s\<lparr>cy_b := (cy_b s)\<lparr>br_state := st\<rparr>,
       cy_changes := (if br_state (cy_b s) = st then cy_changes s else cy_changes s @ [(br_state (cy_b s), st)])\<rparr>"

definition circuitx_lock :: "circuitx_pc \<Rightarrow> circuitx_shared \<Rightarrow> (circuitx_shared \<times> circuitx_pc) option" where
  "circuitx_lock pc s = (if cy_mu s then None else Some (s\<lparr>cy_mu := True\<rparr>, pc))"

text \<open>Where a callback that ends leads, by its error and the flags of its controller.\<close>

definition circuitx_ended :: "circuitx_input \<Rightarrow> u64 option \<Rightarrow> u64 \<Rightarrow> circuitx_Breaker \<Rightarrow> circuitx_pc" where
  "circuitx_ended inp rel g b =
     (if (\<exists>e. ci_err inp = Some e \<and> \<not> ci_skip inp \<and> circuitx_countsAsFailure b e) then ETotal rel g (ci_trip inp)
      else if ci_trip inp then OLock rel g
      else if ci_err inp \<noteq> None then circuitx_resume (circuitx_leave rel)
      else ESucc rel g)"

fun circuitx_call :: "circuitx_op \<Rightarrow> circuitx_pc" where
  "circuitx_call (OpExecute runs) = (if runs then EClosed else CIdle)"
| "circuitx_call OpState = CAdmission (AStart False)"
| "circuitx_call OpReset = TLock"
| "circuitx_call OpResetStats = CZero 0"
| "circuitx_call OpClose = CClose"

definition circuitx_zero_stat :: "nat \<Rightarrow> circuitx_Breaker \<Rightarrow> circuitx_Breaker" where
  "circuitx_zero_stat k b =
     (if k = 0 then b\<lparr>br_successes := 0\<rparr> else if k = 1 then b\<lparr>br_totalFail := 0\<rparr> else if k = 2 then b\<lparr>br_rejected := 0\<rparr> else b\<lparr>br_trips := 0\<rparr>)"

text \<open>The accesses of an admission, each with the point that follows.\<close>

fun circuitx_admission_step :: "int \<Rightarrow> circuitx_admission \<Rightarrow> circuitx_shared \<Rightarrow> circuitx_shared \<times> circuitx_pc" where
  "circuitx_admission_step now (AStart k) s =
     (s, if br_state (cy_b s) \<noteq> Open then circuitx_resume (circuitx_after k (br_state (cy_b s))) else CAdmission (ATime k))"
| "circuitx_admission_step now (ATime k) s =
     (s, if now - br_lastOpen (cy_b s) < cx_resetTimeout (br_cfg (cy_b s)) then circuitx_resume (circuitx_after k Open) else CAdmission (ACas k))"
| "circuitx_admission_step now (ACas k) s =
     (if br_state (cy_b s) = Open then (circuitx_set_state HalfOpen s, CAdmission (AGen k)) else (s, CAdmission (AReload k)))"
| "circuitx_admission_step now (AGen k) s =
     (circuitx_put ((cy_b s)\<lparr>br_generation := br_generation (cy_b s) + 1\<rparr>) s, CAdmission (AInflight k))"
| "circuitx_admission_step now (AInflight k) s = (circuitx_put ((cy_b s)\<lparr>br_halfOpenInflight := 0\<rparr>) s, CAdmission (ASucc k))"
| "circuitx_admission_step now (ASucc k) s =
     (circuitx_put ((cy_b s)\<lparr>br_halfOpenSuccesses := 0\<rparr>) s, CFire Open HalfOpen (circuitx_after k HalfOpen))"
| "circuitx_admission_step now (AReload k) s = (s, circuitx_resume (circuitx_after k (br_state (cy_b s))))"
| "circuitx_admission_step now (AGenLoad st) s =
     (s, case st of Open \<Rightarrow> CAdmission AReject | HalfOpen \<Rightarrow> CAdmission (AProbe (br_generation (cy_b s)))
         | Closed \<Rightarrow> EFailures None (br_generation (cy_b s)))"
| "circuitx_admission_step now (AProbe g) s =
     (s, if cx_halfOpenMax (br_cfg (cy_b s)) \<le> br_halfOpenInflight (cy_b s) then CAdmission AReject
         else CAdmission (AProbeCas g (br_halfOpenInflight (cy_b s))))"
| "circuitx_admission_step now (AProbeCas g cur) s =
     (if br_halfOpenInflight (cy_b s) = cur
      then (circuitx_put ((cy_b s)\<lparr>br_halfOpenInflight := wrap_i32 (cur + 1)\<rparr>) s, EFailures (Some g) g)
      else (s, CAdmission (AProbe g)))"
| "circuitx_admission_step now AReject s = (circuitx_put ((cy_b s)\<lparr>br_rejected := br_rejected (cy_b s) + 1\<rparr>) s, CIdle)"

text \<open>The accesses inside the mutex.\<close>

fun circuitx_failing_step :: "int \<Rightarrow> u64 option \<Rightarrow> circuitx_failing \<Rightarrow> circuitx_shared \<Rightarrow> circuitx_shared \<times> circuitx_pc" where
  "circuitx_failing_step now rel (FGen g forced) s =
     (s, if g \<noteq> br_generation (cy_b s) then CUnlock rel else CFailing rel (FState forced))"
| "circuitx_failing_step now rel (FState forced) s =
     (s, if br_state (cy_b s) = Open then CUnlock rel else CFailing rel (FAdd forced (br_state (cy_b s))))"
| "circuitx_failing_step now rel (FAdd forced live) s =
     (let count = wrap_i32 (br_failures (cy_b s) + 1)
      in (circuitx_put ((cy_b s)\<lparr>br_failures := count\<rparr>) s,
           if \<not> forced \<and> live = Closed \<and> count < cx_maxFailures (br_cfg (cy_b s)) then CUnlock rel
           else if live = HalfOpen then CFailing rel (FSucc live) else CFailing rel (FOpen live)))"
| "circuitx_failing_step now rel (FSucc live) s = (circuitx_put ((cy_b s)\<lparr>br_halfOpenSuccesses := 0\<rparr>) s, CFailing rel (FOpen live))"
| "circuitx_failing_step now rel (OGen g) s = (s, if g \<noteq> br_generation (cy_b s) then CUnlock rel else CFailing rel OState)"
| "circuitx_failing_step now rel OState s =
     (s, if br_state (cy_b s) = Open then CUnlock rel else CFailing rel (FOpen (br_state (cy_b s))))"
| "circuitx_failing_step now rel (FOpen live) s = (circuitx_set_state Open s, CFailing rel (FLast live))"
| "circuitx_failing_step now rel (FLast live) s = (circuitx_put ((cy_b s)\<lparr>br_lastOpen := now\<rparr>) s, CFailing rel (FTrips live))"
| "circuitx_failing_step now rel (FTrips live) s = (circuitx_put ((cy_b s)\<lparr>br_trips := br_trips (cy_b s) + 1\<rparr>) s, CFailing rel (FUnlock live))"
| "circuitx_failing_step now rel (FUnlock live) s = (s\<lparr>cy_mu := False\<rparr>, CFire live Open (circuitx_leave rel))"

fun circuitx_healing_step :: "u64 option \<Rightarrow> circuitx_healing \<Rightarrow> circuitx_shared \<Rightarrow> circuitx_shared \<times> circuitx_pc" where
  "circuitx_healing_step rel (SGen g) s = (s, if g \<noteq> br_generation (cy_b s) then CUnlock rel else CHealing rel SState)"
| "circuitx_healing_step rel SState s =
     (s, case br_state (cy_b s) of HalfOpen \<Rightarrow> CHealing rel SCount | Closed \<Rightarrow> CHealing rel SForgive | Open \<Rightarrow> CUnlock rel)"
| "circuitx_healing_step rel SCount s =
     (let count = wrap_i32 (br_halfOpenSuccesses (cy_b s) + 1)
      in (circuitx_put ((cy_b s)\<lparr>br_halfOpenSuccesses := count\<rparr>) s,
           if count < cx_successThreshold (br_cfg (cy_b s)) then CUnlock rel else CHealing rel SHealSucc))"
| "circuitx_healing_step rel SHealSucc s = (circuitx_put ((cy_b s)\<lparr>br_halfOpenSuccesses := 0\<rparr>) s, CHealing rel SHealFail)"
| "circuitx_healing_step rel SHealFail s = (circuitx_put ((cy_b s)\<lparr>br_failures := 0\<rparr>) s, CHealing rel SHealGen)"
| "circuitx_healing_step rel SHealGen s = (circuitx_put ((cy_b s)\<lparr>br_generation := br_generation (cy_b s) + 1\<rparr>) s, CHealing rel SHealState)"
| "circuitx_healing_step rel SHealState s = (circuitx_set_state Closed s, CHealing rel SUnlock)"
| "circuitx_healing_step rel SUnlock s = (s\<lparr>cy_mu := False\<rparr>, CFire HalfOpen Closed (circuitx_leave rel))"
| "circuitx_healing_step rel SForgive s = (circuitx_put ((cy_b s)\<lparr>br_failures := 0\<rparr>) s, CUnlock rel)"

fun circuitx_resetting_step :: "circuitx_resetting \<Rightarrow> circuitx_shared \<Rightarrow> circuitx_shared \<times> circuitx_pc" where
  "circuitx_resetting_step TFail s = (circuitx_put ((cy_b s)\<lparr>br_failures := 0\<rparr>) s, CResetting TSwap)"
| "circuitx_resetting_step TSwap s = (circuitx_set_state Closed s, CResetting (TGen (br_state (cy_b s))))"
| "circuitx_resetting_step (TGen prev) s =
     (circuitx_put ((cy_b s)\<lparr>br_generation := br_generation (cy_b s) + 1\<rparr>) s, CResetting (TInflight prev))"
| "circuitx_resetting_step (TInflight prev) s = (circuitx_put ((cy_b s)\<lparr>br_halfOpenInflight := 0\<rparr>) s, CResetting (TSucc prev))"
| "circuitx_resetting_step (TSucc prev) s = (circuitx_put ((cy_b s)\<lparr>br_halfOpenSuccesses := 0\<rparr>) s, CResetting (TUnlock prev))"
| "circuitx_resetting_step (TUnlock prev) s = (s\<lparr>cy_mu := False\<rparr>, if prev \<noteq> Closed then CFire prev Closed KDone else CIdle)"

text \<open>Any access; \<open>None\<close> while the mutex is taken.\<close>

fun circuitx_micro :: "circuitx_input \<Rightarrow> circuitx_pc \<Rightarrow> circuitx_shared \<Rightarrow> (circuitx_shared \<times> circuitx_pc) option" where
  "circuitx_micro inp CIdle s = Some (s, circuitx_call (ci_op inp))"
| "circuitx_micro inp EClosed s = Some (s, if br_closed (cy_b s) then CIdle else CAdmission (AStart True))"
| "circuitx_micro inp (CAdmission a) s = Some (circuitx_admission_step (ci_now inp) a s)"
| "circuitx_micro inp (EFailures rel g) s = Some (s, ERun rel g)"
| "circuitx_micro inp (ERun rel g) s = Some (s, circuitx_ended inp rel g (cy_b s))"
| "circuitx_micro inp (ETotal rel g forced) s =
     Some (circuitx_put ((cy_b s)\<lparr>br_totalFail := br_totalFail (cy_b s) + 1\<rparr>) s, FLock rel g forced)"
| "circuitx_micro inp (ESucc rel g) s = Some (circuitx_put ((cy_b s)\<lparr>br_successes := br_successes (cy_b s) + 1\<rparr>) s, SFast rel g)"
| "circuitx_micro inp (SFast rel g) s = Some (s, if br_state (cy_b s) = Closed then SFast2 rel g else SLock rel g)"
| "circuitx_micro inp (SFast2 rel g) s = Some (s, if br_failures (cy_b s) = 0 then circuitx_resume (circuitx_leave rel) else SLock rel g)"
| "circuitx_micro inp (FLock rel g forced) s = circuitx_lock (CFailing rel (FGen g forced)) s"
| "circuitx_micro inp (OLock rel g) s = circuitx_lock (CFailing rel (OGen g)) s"
| "circuitx_micro inp (SLock rel g) s = circuitx_lock (CHealing rel (SGen g)) s"
| "circuitx_micro inp TLock s = circuitx_lock (CResetting TFail) s"
| "circuitx_micro inp (CFailing rel f) s = Some (circuitx_failing_step (ci_now inp) rel f s)"
| "circuitx_micro inp (CHealing rel h) s = Some (circuitx_healing_step rel h s)"
| "circuitx_micro inp (CResetting t) s = Some (circuitx_resetting_step t s)"
| "circuitx_micro inp (CUnlock rel) s = Some (s\<lparr>cy_mu := False\<rparr>, circuitx_resume (circuitx_leave rel))"
| "circuitx_micro inp (CFire from to k) s = Some (circuitx_put (circuitx_fireStateChange from to (cy_b s)) s, circuitx_resume k)"
| "circuitx_micro inp (RGen g) s = Some (s, if g \<noteq> br_generation (cy_b s) then CIdle else RLoad)"
| "circuitx_micro inp RLoad s = Some (s, if br_halfOpenInflight (cy_b s) \<le> 0 then CIdle else RCas (br_halfOpenInflight (cy_b s)))"
| "circuitx_micro inp (RCas cur) s =
     (if br_halfOpenInflight (cy_b s) = cur then Some (circuitx_put ((cy_b s)\<lparr>br_halfOpenInflight := cur - 1\<rparr>) s, CIdle) else Some (s, RLoad))"
| "circuitx_micro inp (CZero k) s = Some (circuitx_put (circuitx_zero_stat k (cy_b s)) s, if k < 3 then CZero (Suc k) else CIdle)"
| "circuitx_micro inp CClose s = Some (circuitx_put ((cy_b s)\<lparr>br_closed := True\<rparr>) s, CIdle)"

subsection \<open>Interleavings\<close>

text \<open>A move lets one goroutine make its next access; a run is a list of moves from a new breaker and idle goroutines.\<close>

definition circuitx_move ::
    "nat \<times> circuitx_input \<Rightarrow> circuitx_shared \<times> circuitx_pc list \<Rightarrow> (circuitx_shared \<times> circuitx_pc list) option" where
  "circuitx_move m sys =
     (case m of (i, inp) \<Rightarrow> case sys of (s, pcs) \<Rightarrow>
        if i < length pcs then map_option (\<lambda>(s', pc). (s', pcs[i := pc])) (circuitx_micro inp (pcs ! i) s) else None)"

fun circuitx_run ::
    "(nat \<times> circuitx_input) list \<Rightarrow> circuitx_shared \<times> circuitx_pc list \<Rightarrow> (circuitx_shared \<times> circuitx_pc list) option" where
  "circuitx_run [] sys = Some sys"
| "circuitx_run (m # ms) sys = (case circuitx_move m sys of None \<Rightarrow> None | Some sys' \<Rightarrow> circuitx_run ms sys')"

definition circuitx_start :: "(circuitx_config \<Rightarrow> circuitx_config) option list \<Rightarrow> nat \<Rightarrow> circuitx_shared \<times> circuitx_pc list" where
  "circuitx_start opts n = (\<lparr>cy_b = circuitx_New opts, cy_mu = False, cy_changes = []\<rparr>, replicate n CIdle)"

subsection \<open>Run alone\<close>

text \<open>The accesses of one goroutine that no other interrupts.\<close>

inductive circuitx_alone :: "circuitx_input \<Rightarrow> circuitx_shared \<times> circuitx_pc \<Rightarrow> circuitx_shared \<times> circuitx_pc \<Rightarrow> bool" for inp where
  refl: "circuitx_alone inp sys sys"
| step: "circuitx_micro inp pc s = Some sys1 \<Longrightarrow> circuitx_alone inp sys1 sys2 \<Longrightarrow> circuitx_alone inp (s, pc) sys2"

lemma circuitx_alone_trans: "circuitx_alone inp a b \<Longrightarrow> circuitx_alone inp b c \<Longrightarrow> circuitx_alone inp a c"
  by (induction rule: circuitx_alone.induct) (auto intro: circuitx_alone.step)

fun circuitx_solo :: "nat \<Rightarrow> circuitx_input \<Rightarrow> circuitx_shared \<times> circuitx_pc \<Rightarrow> (circuitx_shared \<times> circuitx_pc) option" where
  "circuitx_solo 0 inp sys = Some sys"
| "circuitx_solo (Suc k) inp sys = (case circuitx_micro inp (snd sys) (fst sys) of None \<Rightarrow> None | Some sys' \<Rightarrow> circuitx_solo k inp sys')"

lemma circuitx_solo_alone: "circuitx_solo k inp sys = Some sys' \<Longrightarrow> circuitx_alone inp sys sys'"
  by (induction k arbitrary: sys) (auto intro: circuitx_alone.refl circuitx_alone.step split: option.splits)

lemmas circuitx_solo_simps = circuitx_put_def circuitx_set_state_def circuitx_lock_def circuitx_after_def circuitx_leave_def
  circuitx_fireStateChange_def numeral_eq_Suc Let_def

lemma circuitx_tryAdmit_alone:
  assumes "circuitx_tryAdmit (ci_now inp) (cy_b s) = (b', st, g, ok)"
  shows "\<exists>s'. circuitx_alone inp (s, CAdmission (AStart True))
      (s', if ok then EFailures (if st = HalfOpen then Some g else None) g else CIdle) \<and> cy_b s' = b'"
proof -
  have "\<exists>k s'. circuitx_solo k inp (s, CAdmission (AStart True)) =
      Some (s', if ok then EFailures (if st = HalfOpen then Some g else None) g else CIdle) \<and> cy_b s' = b'"
  proof (cases "br_state (cy_b s)")
    case Open
    note eqs = assms [unfolded circuitx_tryAdmit_def circuitx_State_def circuitx_cas_state_def circuitx_tryAdmitProbe_def]
    show ?thesis
    proof (cases "ci_now inp - br_lastOpen (cy_b s) < cx_resetTimeout (br_cfg (cy_b s))")
      case True
      then show ?thesis using Open eqs by (intro exI [of _ 4]) (auto simp: circuitx_solo_simps)
    next
      case False
      note timeout = False
      show ?thesis
      proof (cases "cx_halfOpenMax (br_cfg (cy_b s)) \<le> 0")
        case True
        then show ?thesis using Open timeout eqs by (intro exI [of _ 10]) (auto simp: circuitx_solo_simps split: option.splits)
      next
        case False
        then show ?thesis using Open timeout eqs by (intro exI [of _ 10]) (auto simp: circuitx_solo_simps split: option.splits)
      qed
    qed
  next
    case HalfOpen
    then show ?thesis using assms
      by (intro exI [of _ 4]) (auto simp: circuitx_solo_simps circuitx_tryAdmit_def circuitx_State_def circuitx_tryAdmitProbe_def split: if_splits)
  next
    case Closed
    then show ?thesis using assms
      by (intro exI [of _ 2]) (auto simp: circuitx_solo_simps circuitx_tryAdmit_def circuitx_State_def)
  qed
  then show ?thesis using circuitx_solo_alone by blast
qed

lemma circuitx_Reset_alone:
  assumes "\<not> cy_mu s"
  shows "\<exists>s'. circuitx_alone inp (s, TLock) (s', CIdle) \<and> cy_b s' = circuitx_Reset (cy_b s)"
proof -
  have "\<exists>k s'. circuitx_solo k inp (s, TLock) = Some (s', CIdle) \<and> cy_b s' = circuitx_Reset (cy_b s)"
  proof (cases "br_state (cy_b s) = Closed")
    case True
    then show ?thesis using assms by (intro exI [of _ 7]) (auto simp: circuitx_solo_simps circuitx_Reset_def)
  next
    case False
    then show ?thesis using assms by (intro exI [of _ 8]) (auto simp: circuitx_solo_simps circuitx_Reset_def split: option.splits)
  qed
  then show ?thesis using circuitx_solo_alone by blast
qed

text \<open>Settlement and the deferred release of a slot add up to \<open>circuitx_settle\<close>.\<close>

definition circuitx_slot :: "circuitx_State \<Rightarrow> u64 \<Rightarrow> u64 option" where
  "circuitx_slot st g = (if st = HalfOpen then Some g else None)"

lemma circuitx_release_alone:
  "\<exists>s'. circuitx_alone inp (s, circuitx_resume (circuitx_leave (circuitx_slot st g))) (s', CIdle) \<and> cy_mu s' = cy_mu s \<and>
     cy_b s' = (if st = HalfOpen then circuitx_releaseProbe g (cy_b s) else cy_b s)"
proof (cases "st = HalfOpen")
  case True
  consider "g \<noteq> br_generation (cy_b s)" | "g = br_generation (cy_b s)" "br_halfOpenInflight (cy_b s) \<le> 0"
    | "g = br_generation (cy_b s)" "\<not> br_halfOpenInflight (cy_b s) \<le> 0" by blast
  then have "\<exists>k s'. circuitx_solo k inp (s, RGen g) = Some (s', CIdle) \<and> cy_mu s' = cy_mu s \<and> cy_b s' = circuitx_releaseProbe g (cy_b s)"
  proof cases
    case 1
    then show ?thesis by (intro exI [of _ 1]) (auto simp: circuitx_solo_simps circuitx_releaseProbe_def)
  next
    case 2
    then show ?thesis by (intro exI [of _ 2]) (auto simp: circuitx_solo_simps circuitx_releaseProbe_def)
  next
    case 3
    then show ?thesis by (intro exI [of _ 3]) (auto simp: circuitx_solo_simps circuitx_releaseProbe_def)
  qed
  then show ?thesis using True circuitx_solo_alone by (fastforce simp: circuitx_leave_def circuitx_slot_def)
next
  case False
  then show ?thesis using circuitx_alone.refl by (fastforce simp: circuitx_leave_def circuitx_slot_def)
qed

text \<open>A settlement that leaves the mutex free and calls the hook, if it does, before the release.\<close>

definition circuitx_settles :: "circuitx_input \<Rightarrow> u64 option \<Rightarrow> circuitx_shared \<times> circuitx_pc \<Rightarrow> circuitx_Breaker \<Rightarrow> bool" where
  "circuitx_settles inp rel sys b \<longleftrightarrow>
     (\<exists>s'. circuitx_alone inp sys (s', circuitx_resume (circuitx_leave rel)) \<and> \<not> cy_mu s' \<and> cy_b s' = b)"

lemma circuitx_settlesI:
  "\<exists>s'. circuitx_solo k inp sys = Some (s', circuitx_resume (circuitx_leave rel)) \<and> \<not> cy_mu s' \<and> cy_b s' = b \<Longrightarrow> circuitx_settles inp rel sys b"
  using circuitx_solo_alone unfolding circuitx_settles_def by blast

lemmas circuitx_settle_simps = circuitx_put_def circuitx_set_state_def circuitx_lock_def circuitx_fireStateChange_def numeral_eq_Suc Let_def

lemma circuitx_open_alone:
  assumes "cy_mu s" and "br_state (cy_b s) \<noteq> Open"
  shows "circuitx_settles inp rel (s, CFailing rel (FOpen live))
    (circuitx_fireStateChange live Open ((cy_b s)\<lparr>br_state := Open, br_lastOpen := ci_now inp, br_trips := br_trips (cy_b s) + 1\<rparr>))"
  using assms by (intro circuitx_settlesI [of 5]) (simp_all add: circuitx_settle_simps)

lemma circuitx_settles_first:
  "circuitx_solo k inp sys = Some sys1 \<Longrightarrow> circuitx_settles inp rel sys1 b \<Longrightarrow> circuitx_settles inp rel sys b"
  using circuitx_solo_alone circuitx_alone_trans unfolding circuitx_settles_def by blast

lemma circuitx_recordFailure_alone:
  assumes "\<not> cy_mu s"
  shows "circuitx_settles inp rel (s, FLock rel g forced) (circuitx_recordFailure (ci_now inp) forced g (cy_b s))"
proof -
  consider "g \<noteq> br_generation (cy_b s)" | "g = br_generation (cy_b s)" "br_state (cy_b s) = Open"
    | "g = br_generation (cy_b s)" "br_state (cy_b s) = Closed" "\<not> forced \<and> wrap_i32 (br_failures (cy_b s) + 1) < cx_maxFailures (br_cfg (cy_b s))"
    | "g = br_generation (cy_b s)" "br_state (cy_b s) = Closed" "\<not> (\<not> forced \<and> wrap_i32 (br_failures (cy_b s) + 1) < cx_maxFailures (br_cfg (cy_b s)))"
    | "g = br_generation (cy_b s)" "br_state (cy_b s) = HalfOpen"
    using circuitx_State.exhaust by blast
  then show ?thesis
  proof cases
    case 1
    then show ?thesis using assms by (intro circuitx_settlesI [of 3]) (simp_all add: circuitx_settle_simps circuitx_recordFailure_def)
  next
    case 2
    then show ?thesis using assms by (intro circuitx_settlesI [of 4]) (simp_all add: circuitx_settle_simps circuitx_recordFailure_def)
  next
    case 3
    then show ?thesis using assms by (intro circuitx_settlesI [of 5]) (simp_all add: circuitx_settle_simps circuitx_recordFailure_def)
  next
    case 4
    then show ?thesis using assms by (intro circuitx_settlesI [of 9]) (auto simp: circuitx_settle_simps circuitx_recordFailure_def split: option.splits)
  next
    case 5
    then show ?thesis using assms by (intro circuitx_settlesI [of 10]) (auto simp: circuitx_settle_simps circuitx_recordFailure_def split: option.splits)
  qed
qed

lemma circuitx_openFrom_alone:
  assumes "\<not> cy_mu s"
  shows "circuitx_settles inp rel (s, OLock rel g) (circuitx_openFrom (ci_now inp) st g (cy_b s))"
proof -
  consider "g \<noteq> br_generation (cy_b s)" | "g = br_generation (cy_b s)" "br_state (cy_b s) = Open"
    | "g = br_generation (cy_b s)" "br_state (cy_b s) \<noteq> Open" by blast
  then show ?thesis
  proof cases
    case 1
    then show ?thesis using assms by (intro circuitx_settlesI [of 3]) (simp_all add: circuitx_settle_simps circuitx_openFrom_def)
  next
    case 2
    then show ?thesis using assms by (intro circuitx_settlesI [of 4]) (simp_all add: circuitx_settle_simps circuitx_openFrom_def)
  next
    case 3
    then show ?thesis using assms by (intro circuitx_settlesI [of 8]) (auto simp: circuitx_settle_simps circuitx_openFrom_def split: option.splits)
  qed
qed

lemma circuitx_recordSuccess_locked_alone:
  assumes "\<not> cy_mu s"
  shows "circuitx_settles inp rel (s, SLock rel g) (circuitx_recordSuccess_locked g (cy_b s))"
proof -
  consider "g \<noteq> br_generation (cy_b s)" | "g = br_generation (cy_b s)" "br_state (cy_b s) = Open"
    | "g = br_generation (cy_b s)" "br_state (cy_b s) = Closed"
    | "g = br_generation (cy_b s)" "br_state (cy_b s) = HalfOpen" "wrap_i32 (br_halfOpenSuccesses (cy_b s) + 1) < cx_successThreshold (br_cfg (cy_b s))"
    | "g = br_generation (cy_b s)" "br_state (cy_b s) = HalfOpen" "\<not> wrap_i32 (br_halfOpenSuccesses (cy_b s) + 1) < cx_successThreshold (br_cfg (cy_b s))"
    using circuitx_State.exhaust by blast
  then show ?thesis
  proof cases
    case 1
    then show ?thesis using assms by (intro circuitx_settlesI [of 3]) (simp_all add: circuitx_settle_simps circuitx_recordSuccess_locked_def)
  next
    case 2
    then show ?thesis using assms by (intro circuitx_settlesI [of 4]) (simp_all add: circuitx_settle_simps circuitx_recordSuccess_locked_def)
  next
    case 3
    then show ?thesis using assms by (intro circuitx_settlesI [of 5]) (simp_all add: circuitx_settle_simps circuitx_recordSuccess_locked_def)
  next
    case 4
    then show ?thesis using assms by (intro circuitx_settlesI [of 5]) (simp_all add: circuitx_settle_simps circuitx_recordSuccess_locked_def)
  next
    case 5
    then show ?thesis using assms by (intro circuitx_settlesI [of 10]) (auto simp: circuitx_settle_simps circuitx_recordSuccess_locked_def split: option.splits)
  qed
qed

lemma circuitx_recordSuccess_alone:
  assumes "\<not> cy_mu s"
  shows "circuitx_settles inp rel (s, SFast rel g) (circuitx_recordSuccess g (cy_b s))"
proof -
  consider "br_state (cy_b s) \<noteq> Closed" | "br_state (cy_b s) = Closed" "br_failures (cy_b s) = 0"
    | "br_state (cy_b s) = Closed" "br_failures (cy_b s) \<noteq> 0" by blast
  then show ?thesis
  proof cases
    case 1
    then show ?thesis using circuitx_settles_first [of 1] circuitx_recordSuccess_locked_alone [OF assms] by (simp add: circuitx_recordSuccess_def)
  next
    case 2
    then show ?thesis using assms by (intro circuitx_settlesI [of 2]) (simp_all add: circuitx_settle_simps circuitx_recordSuccess_def)
  next
    case 3
    then show ?thesis using circuitx_settles_first [of 2] circuitx_recordSuccess_locked_alone [OF assms]
      by (simp add: circuitx_recordSuccess_def numeral_eq_Suc)
  qed
qed

lemma circuitx_settle_alone:
  assumes "\<not> cy_mu s" and "ce_skipFailure cc = ci_skip inp" and "ce_tripped cc = ci_trip inp"
  shows "\<exists>s'. circuitx_alone inp (s, ERun (circuitx_slot st g) g) (s', CIdle) \<and>
    cy_b s' = circuitx_settle (ci_now inp) st g cc (ci_err inp) (cy_b s)"
proof -
  let ?rel = "circuitx_slot st g" and ?b = "cy_b s"
  let ?failed = "\<exists>e. ci_err inp = Some e \<and> \<not> ci_skip inp \<and> circuitx_countsAsFailure ?b e"
  let ?b1 = "if ?failed then circuitx_recordFailure (ci_now inp) (ci_trip inp) g (?b\<lparr>br_totalFail := br_totalFail ?b + 1\<rparr>)
    else if ci_trip inp then circuitx_openFrom (ci_now inp) st g ?b else if ci_err inp \<noteq> None then ?b
    else circuitx_recordSuccess g (?b\<lparr>br_successes := br_successes ?b + 1\<rparr>)"
  have eq: "circuitx_settle (ci_now inp) st g cc (ci_err inp) ?b = (if st = HalfOpen then circuitx_releaseProbe g ?b1 else ?b1)"
    using assms(2,3) by (cases "ci_err inp") (auto simp: circuitx_settle_def)
  have one: "circuitx_solo (Suc 0) inp (s, ERun ?rel g) = Some (s, circuitx_ended inp ?rel g ?b)" by simp
  have "circuitx_settles inp ?rel (s, ERun ?rel g) ?b1"
  proof (cases "?failed")
    case True
    then have "circuitx_solo (Suc (Suc 0)) inp (s, ERun ?rel g) = Some (circuitx_put (?b\<lparr>br_totalFail := br_totalFail ?b + 1\<rparr>) s, FLock ?rel g (ci_trip inp))"
      by (simp add: circuitx_ended_def)
    from circuitx_settles_first [OF this] True show ?thesis
      using circuitx_recordFailure_alone [of "circuitx_put (?b\<lparr>br_totalFail := br_totalFail ?b + 1\<rparr>) s" inp ?rel g "ci_trip inp"] assms(1)
      by (simp add: circuitx_put_def)
  next
    case False
    note counted = False
    show ?thesis
    proof (cases "ci_trip inp")
      case True
      with counted have "circuitx_ended inp ?rel g ?b = OLock ?rel g" by (simp add: circuitx_ended_def)
      then show ?thesis using circuitx_settles_first [OF one] circuitx_openFrom_alone [OF assms(1), of inp ?rel g st] counted True by auto
    next
      case False
      note quiet = False
      show ?thesis
      proof (cases "ci_err inp")
        case None
        then have "circuitx_solo (Suc (Suc 0)) inp (s, ERun ?rel g) = Some (circuitx_put (?b\<lparr>br_successes := br_successes ?b + 1\<rparr>) s, SFast ?rel g)"
          using quiet by (simp add: circuitx_ended_def)
        from circuitx_settles_first [OF this] None quiet show ?thesis
          using circuitx_recordSuccess_alone [of "circuitx_put (?b\<lparr>br_successes := br_successes ?b + 1\<rparr>) s" inp ?rel g] assms(1)
          by (simp add: circuitx_put_def)
      next
        case (Some e)
        then have "circuitx_ended inp ?rel g ?b = circuitx_resume (circuitx_leave ?rel)" using counted quiet by (auto simp: circuitx_ended_def)
        then show ?thesis using one counted quiet Some assms(1) by (intro circuitx_settlesI [of "Suc 0"]) auto
      qed
    qed
  qed
  then obtain s1 where "circuitx_alone inp (s, ERun ?rel g) (s1, circuitx_resume (circuitx_leave ?rel))" "cy_b s1 = ?b1"
    by (auto simp: circuitx_settles_def)
  moreover obtain s2 where "circuitx_alone inp (s1, circuitx_resume (circuitx_leave ?rel)) (s2, CIdle)"
    "cy_b s2 = (if st = HalfOpen then circuitx_releaseProbe g (cy_b s1) else cy_b s1)"
    using circuitx_release_alone [of inp s1 st g] by blast
  ultimately have "circuitx_alone inp (s, ERun ?rel g) (s2, CIdle)" "cy_b s2 = (if st = HalfOpen then circuitx_releaseProbe g ?b1 else ?b1)"
    using circuitx_alone_trans by simp_all
  then show ?thesis unfolding eq by blast
qed

subsection \<open>The invariant\<close>

fun circuitx_locked :: "circuitx_pc \<Rightarrow> bool" where
  "circuitx_locked (CFailing rel f) = True"
| "circuitx_locked (CHealing rel h) = True"
| "circuitx_locked (CResetting t) = True"
| "circuitx_locked (CUnlock rel) = True"
| "circuitx_locked pc = False"

text \<open>The change of state that a goroutine has made and not yet reported to the hook.\<close>

definition circuitx_edge :: "circuitx_State \<Rightarrow> circuitx_State \<Rightarrow> (circuitx_State \<times> circuitx_State) option" where
  "circuitx_edge from to = (if from = to then None else Some (from, to))"

fun circuitx_pending :: "circuitx_pc \<Rightarrow> (circuitx_State \<times> circuitx_State) option" where
  "circuitx_pending (CAdmission a) = (case a of AGen _ \<Rightarrow> Some (Open, HalfOpen) | AInflight _ \<Rightarrow> Some (Open, HalfOpen) | ASucc _ \<Rightarrow> Some (Open, HalfOpen) | _ \<Rightarrow> None)"
| "circuitx_pending (CFailing rel f) = (case f of FLast live \<Rightarrow> Some (live, Open) | FTrips live \<Rightarrow> Some (live, Open) | FUnlock live \<Rightarrow> Some (live, Open) | _ \<Rightarrow> None)"
| "circuitx_pending (CHealing rel h) = (case h of SUnlock \<Rightarrow> Some (HalfOpen, Closed) | _ \<Rightarrow> None)"
| "circuitx_pending (CResetting t) =
     (case t of TGen prev \<Rightarrow> circuitx_edge prev Closed | TInflight prev \<Rightarrow> circuitx_edge prev Closed
      | TSucc prev \<Rightarrow> circuitx_edge prev Closed | TUnlock prev \<Rightarrow> circuitx_edge prev Closed | _ \<Rightarrow> None)"
| "circuitx_pending (CFire from to k) = Some (from, to)"
| "circuitx_pending pc = None"

text \<open>What a goroutine knows: under the mutex, the state it has loaded still holds.\<close>

fun circuitx_knows :: "circuitx_Breaker \<Rightarrow> circuitx_pc \<Rightarrow> bool" where
  "circuitx_knows b (CAdmission a) = (case a of AProbeCas g cur \<Rightarrow> cur < cx_halfOpenMax (br_cfg b) | _ \<Rightarrow> True)"
| "circuitx_knows b (CFailing rel f) =
     (case f of FAdd _ live \<Rightarrow> live \<noteq> Open \<and> br_state b = live | FSucc live \<Rightarrow> live \<noteq> Open \<and> br_state b = live
      | FOpen live \<Rightarrow> live \<noteq> Open \<and> br_state b = live | _ \<Rightarrow> True)"
| "circuitx_knows b (CHealing rel h) = (h \<in> {SCount, SHealSucc, SHealFail, SHealGen, SHealState} \<longrightarrow> br_state b = HalfOpen)"
| "circuitx_knows b (RCas cur) = (0 < cur)"
| "circuitx_knows b pc = True"

definition circuitx_budget :: "circuitx_Breaker \<Rightarrow> bool" where
  "circuitx_budget b \<longleftrightarrow> 0 \<le> br_halfOpenInflight b \<and> br_halfOpenInflight b \<le> cx_halfOpenMax (br_cfg b) \<and>
     0 < cx_halfOpenMax (br_cfg b) \<and> cx_halfOpenMax (br_cfg b) < 2 ^ 31"

text \<open>How often a change has been made and not yet logged.\<close>

definition circuitx_unreported :: "circuitx_State \<times> circuitx_State \<Rightarrow> circuitx_shared \<Rightarrow> int" where
  "circuitx_unreported edge s = int (count_list (cy_changes s) edge) - int (count_list (br_fired (cy_b s)) edge)"

text \<open>The parts of the invariant that an access of one goroutine keeps.\<close>

definition circuitx_sound :: "circuitx_shared \<Rightarrow> bool" where
  "circuitx_sound s \<longleftrightarrow> circuitx_budget (cy_b s) \<and> circuitx_chain Closed (cy_changes s) = Some (br_state (cy_b s))"

text \<open>An access keeps the sound state, what its goroutine knows and the accounts of the mutex and of the reports.\<close>

definition circuitx_follows :: "circuitx_pc \<Rightarrow> circuitx_shared \<Rightarrow> circuitx_shared \<Rightarrow> circuitx_pc \<Rightarrow> bool" where
  "circuitx_follows pc s s' pc' \<longleftrightarrow>
     br_cfg (cy_b s') = br_cfg (cy_b s) \<and> circuitx_sound s' \<and> circuitx_knows (cy_b s') pc' \<and>
     of_bool (cy_mu s') - of_bool (cy_mu s) = (of_bool (circuitx_locked pc') - of_bool (circuitx_locked pc) :: int) \<and>
     (br_state (cy_b s') = br_state (cy_b s) \<or> circuitx_locked pc \<or> br_state (cy_b s) = Open) \<and>
     (cx_onStateChange (br_cfg (cy_b s)) \<noteq> None \<longrightarrow>
       (\<forall>edge. circuitx_unreported edge s' - circuitx_unreported edge s =
          of_bool (circuitx_pending pc' = Some edge) - of_bool (circuitx_pending pc = Some edge)))"

lemmas circuitx_follow_defs = circuitx_follows_def circuitx_sound_def circuitx_budget_def circuitx_unreported_def circuitx_put_def

lemma circuitx_resume_fields [simp]:
  "circuitx_locked (circuitx_resume k) = False" "circuitx_pending (circuitx_resume k) = None" "circuitx_knows b (circuitx_resume k)"
  by (cases k; simp)+

lemma circuitx_set_state_sound:
  assumes "circuitx_sound s" and "\<not> (br_state (cy_b s) = Closed \<and> st = HalfOpen)"
  shows "circuitx_sound (circuitx_set_state st s)"
  using assms circuitx_chain_snoc [of Closed "cy_changes s" "br_state (cy_b s)" st]
  by (auto simp: circuitx_sound_def circuitx_set_state_def circuitx_budget_def)

lemma circuitx_set_state_unreported:
  "circuitx_unreported edge (circuitx_set_state st s) = circuitx_unreported edge s + of_bool (circuitx_edge (br_state (cy_b s)) st = Some edge)"
  by (auto simp: circuitx_unreported_def circuitx_set_state_def circuitx_edge_def)

lemma circuitx_set_state_fields [simp]:
  "br_cfg (cy_b (circuitx_set_state st s)) = br_cfg (cy_b s)" "br_state (cy_b (circuitx_set_state st s)) = st"
  "cy_mu (circuitx_set_state st s) = cy_mu s"
  by (simp_all add: circuitx_set_state_def)

lemma circuitx_admission_follows:
  assumes "circuitx_sound s" and "circuitx_knows (cy_b s) (CAdmission a)" and "circuitx_admission_step now a s = (s', pc')"
  shows "circuitx_follows (CAdmission a) s s' pc'"
proof (cases "\<exists>k. a = ACas k")
  case True
  then show ?thesis
    using assms circuitx_set_state_sound [of s HalfOpen] 
    by (auto simp: circuitx_follows_def circuitx_edge_def circuitx_set_state_unreported split: if_splits)
next
  case False
  have "wrap_i32 (cur + 1) = cur + 1" if "a = AProbeCas g cur" "br_halfOpenInflight (cy_b s) = cur" for g cur
    using that assms(1,2) by (intro wrap_i32_id) (auto simp: circuitx_sound_def circuitx_budget_def)
  with False show ?thesis
    using assms by (cases a) (auto simp: circuitx_follow_defs split: if_splits circuitx_State.splits)
qed

lemma circuitx_failing_follows:
  assumes "circuitx_sound s" and "circuitx_knows (cy_b s) (CFailing rel f)" and "cy_mu s" and "circuitx_failing_step now rel f s = (s', pc')"
  shows "circuitx_follows (CFailing rel f) s s' pc'"
proof (cases "\<exists>live. f = FOpen live")
  case True
  then show ?thesis
    using assms circuitx_set_state_sound [of s Open] 
    by (auto simp: circuitx_follows_def circuitx_edge_def circuitx_set_state_unreported)
next
  case False
  then show ?thesis
    using assms by (cases f) (auto simp: circuitx_follow_defs Let_def split: if_splits)
qed

lemma circuitx_healing_follows:
  assumes "circuitx_sound s" and "circuitx_knows (cy_b s) (CHealing rel h)" and "cy_mu s" and "circuitx_healing_step rel h s = (s', pc')"
  shows "circuitx_follows (CHealing rel h) s s' pc'"
proof (cases "h = SHealState")
  case True
  then show ?thesis
    using assms circuitx_set_state_sound [of s Closed]
    by (auto simp: circuitx_follows_def circuitx_edge_def circuitx_set_state_unreported)
next
  case False
  then show ?thesis
    using assms by (cases h) (auto simp: circuitx_follow_defs Let_def split: if_splits circuitx_State.splits)
qed

lemma circuitx_resetting_follows:
  assumes "circuitx_sound s" and "cy_mu s" and "circuitx_resetting_step t s = (s', pc')"
  shows "circuitx_follows (CResetting t) s s' pc'"
proof (cases "t = TSwap")
  case True
  then show ?thesis
    using assms circuitx_set_state_sound [of s Closed]
    by (auto simp: circuitx_follows_def circuitx_set_state_unreported)
next
  case False
  then show ?thesis
    using assms by (cases t) (auto simp: circuitx_follow_defs circuitx_edge_def split: if_splits)
qed

lemma circuitx_call_fields [simp]:
  "circuitx_locked (circuitx_call op) = False" "circuitx_pending (circuitx_call op) = None" "circuitx_knows b (circuitx_call op)"
  by (cases op; simp)+

lemma circuitx_ended_fields [simp]:
  "circuitx_locked (circuitx_ended inp rel g b) = False" "circuitx_pending (circuitx_ended inp rel g b) = None"
  "circuitx_knows b' (circuitx_ended inp rel g b)"
  by (simp_all add: circuitx_ended_def)

lemma circuitx_lock_follows:
  assumes "circuitx_lock q s = Some (s', pc')" and "circuitx_sound s" and "\<not> circuitx_locked pc" and "circuitx_pending pc = None"
    and "circuitx_locked q" and "circuitx_pending q = None" and "circuitx_knows (cy_b s) q"
  shows "circuitx_follows pc s s' pc'"
  using assms by (auto simp: circuitx_follow_defs circuitx_lock_def split: if_splits)

text \<open>A step that changes neither the state, the budget, the log nor the mutex.\<close>

lemma circuitx_plain_follows:
  assumes "circuitx_sound s" and "\<not> circuitx_locked pc" and "circuitx_pending pc = None" and "s' = s\<lparr>cy_b := b\<rparr>"
    and "br_cfg b = br_cfg (cy_b s)" and "br_state b = br_state (cy_b s)" and "br_fired b = br_fired (cy_b s)"
    and "0 \<le> br_halfOpenInflight b" and "br_halfOpenInflight b \<le> br_halfOpenInflight (cy_b s)"
    and "\<not> circuitx_locked pc'" and "circuitx_pending pc' = None" and "circuitx_knows b pc'"
  shows "circuitx_follows pc s s' pc'"
  using assms by (auto simp: circuitx_follow_defs)

lemma circuitx_micro_follows:
  assumes "circuitx_sound s" and "circuitx_knows (cy_b s) pc" and "circuitx_locked pc \<longrightarrow> cy_mu s" and "circuitx_micro inp pc s = Some (s', pc')"
  shows "circuitx_follows pc s s' pc'"
proof -
  have pos: "0 \<le> br_halfOpenInflight (cy_b s)" using assms(1) by (simp add: circuitx_sound_def circuitx_budget_def)
  note plain = circuitx_plain_follows [OF assms(1), where s' = s' and pc' = pc']
  show ?thesis
  proof (cases pc)
    case (CAdmission a)
    with assms show ?thesis using circuitx_admission_follows [of s a "ci_now inp" s' pc'] by simp
  next
    case (CFailing rel f)
    with assms show ?thesis using circuitx_failing_follows [of s rel f "ci_now inp" s' pc'] by simp
  next
    case (CHealing rel h)
    with assms show ?thesis using circuitx_healing_follows [of s rel h s' pc'] by simp
  next
    case (CResetting t)
    with assms show ?thesis using circuitx_resetting_follows [of s t s' pc'] by simp
  next
    case (CFire st st1 k)
    with assms show ?thesis by (auto simp: circuitx_follow_defs circuitx_fireStateChange_def split: option.splits)
  next
    case (CUnlock rel)
    with assms show ?thesis by (auto simp: circuitx_follow_defs)
  next
    case (FLock rel g forced)
    with assms show ?thesis using circuitx_lock_follows [of "CFailing rel (FGen g forced)" s s' pc' pc] by simp
  next
    case (OLock rel g)
    with assms show ?thesis using circuitx_lock_follows [of "CFailing rel (OGen g)" s s' pc' pc] by simp
  next
    case (SLock rel g)
    with assms show ?thesis using circuitx_lock_follows [of "CHealing rel (SGen g)" s s' pc' pc] by simp
  next
    case TLock
    with assms show ?thesis using circuitx_lock_follows [of "CResetting TFail" s s' pc' pc] by simp
  next
    case (RCas cur)
    with assms pos show ?thesis
      by (intro plain [of _ "cy_b s'"]) (auto simp: circuitx_put_def split: if_splits)
  next
    case (CZero k)
    with assms pos show ?thesis by (intro plain [of _ "cy_b s'"]) (auto simp: circuitx_put_def circuitx_zero_stat_def split: if_splits)
  qed (use assms(1,2,4) in \<open>auto simp: circuitx_follow_defs split: if_splits\<close>)
qed


text \<open>The knowledge of one goroutine survives the accesses of the others.\<close>

lemma circuitx_knows_stable:
  assumes "circuitx_knows b q" and "br_cfg b' = br_cfg b" and "br_state b' = br_state b \<or> circuitx_locked pc \<or> br_state b = Open"
    and "\<not> (circuitx_locked pc \<and> circuitx_locked q)"
  shows "circuitx_knows b' q"
  using assms by (cases q) (auto split: circuitx_admission.splits circuitx_failing.splits)

definition circuitx_sys_inv :: "circuitx_shared \<times> circuitx_pc list \<Rightarrow> bool" where
  "circuitx_sys_inv sys \<longleftrightarrow>
     (case sys of (s, pcs) \<Rightarrow>
        circuitx_sound s \<and> how_many circuitx_locked pcs = of_bool (cy_mu s) \<and> (\<forall>pc\<in>set pcs. circuitx_knows (cy_b s) pc) \<and>
        (cx_onStateChange (br_cfg (cy_b s)) \<noteq> None \<longrightarrow>
          (\<forall>edge. circuitx_unreported edge s = how_many (\<lambda>pc. circuitx_pending pc = Some edge) pcs)))"

lemma circuitx_move_inv:
  assumes "circuitx_sys_inv sys" and "circuitx_move m sys = Some sys'"
  shows "circuitx_sys_inv sys' \<and> br_cfg (cy_b (fst sys')) = br_cfg (cy_b (fst sys)) \<and> length (snd sys') = length (snd sys)"
proof -
  obtain i inp s pcs where m: "m = (i, inp)" and sys: "sys = (s, pcs)" by (metis surj_pair)
  obtain s' pc' where i: "i < length pcs" and step: "circuitx_micro inp (pcs ! i) s = Some (s', pc')" and sys': "sys' = (s', pcs[i := pc'])"
    using assms(2) by (auto simp: m sys circuitx_move_def split: if_splits)
  have inv: "circuitx_sound s" "how_many circuitx_locked pcs = of_bool (cy_mu s)" "\<forall>pc\<in>set pcs. circuitx_knows (cy_b s) pc"
    "cx_onStateChange (br_cfg (cy_b s)) \<noteq> None \<longrightarrow> (\<forall>edge. circuitx_unreported edge s = how_many (\<lambda>pc. circuitx_pending pc = Some edge) pcs)"
    using assms(1) by (simp_all add: sys circuitx_sys_inv_def)
  have lock: "circuitx_locked (pcs ! i) \<longrightarrow> cy_mu s" using how_many_pos [OF i, of circuitx_locked] inv(2) by (cases "cy_mu s") auto
  have f: "circuitx_follows (pcs ! i) s s' pc'" using circuitx_micro_follows [OF inv(1) _ lock step] inv(3) i by simp
  have others: "circuitx_knows (cy_b s') (pcs[i := pc'] ! j)" if "j < length pcs" "j \<noteq> i" for j
  proof -
    have "\<not> (circuitx_locked (pcs ! i) \<and> circuitx_locked (pcs ! j))"
      using how_many_unique [of circuitx_locked pcs i j] inv(2) lock i that by auto
    then show ?thesis
      using circuitx_knows_stable [of "cy_b s" "pcs ! j" "cy_b s'" "pcs ! i"] f inv(3) that by (simp add: circuitx_follows_def)
  qed
  have "circuitx_knows (cy_b s') (pcs[i := pc'] ! j)" if "j < length pcs" for j
    using others [OF that] f i by (cases "j = i") (simp_all add: circuitx_follows_def)
  then have "\<forall>pc\<in>set (pcs[i := pc']). circuitx_knows (cy_b s') pc" by (simp add: all_set_conv_all_nth)
  moreover have "how_many circuitx_locked (pcs[i := pc']) = of_bool (cy_mu s')"
    using f inv(2) by (simp add: how_many_update [OF i] circuitx_follows_def)
  moreover have "circuitx_unreported edge s' = how_many (\<lambda>pc. circuitx_pending pc = Some edge) (pcs[i := pc'])"
    if "cx_onStateChange (br_cfg (cy_b s)) \<noteq> None" for edge
  proof -
    have "circuitx_unreported edge s' = circuitx_unreported edge s + of_bool (circuitx_pending pc' = Some edge) -
        of_bool (circuitx_pending (pcs ! i) = Some edge)"
      using f that unfolding circuitx_follows_def by (metis add.commute add_diff_eq diff_add_cancel)
    then show ?thesis using inv(4) that by (simp add: how_many_update [OF i])
  qed
  ultimately show ?thesis using f by (simp add: sys sys' circuitx_sys_inv_def circuitx_follows_def)
qed

lemma circuitx_run_inv:
  assumes "circuitx_run ms sys = Some sys'" and "circuitx_sys_inv sys"
  shows "circuitx_sys_inv sys' \<and> br_cfg (cy_b (fst sys')) = br_cfg (cy_b (fst sys)) \<and> length (snd sys') = length (snd sys)"
  using assms
proof (induction ms arbitrary: sys)
  case (Cons m ms)
  then obtain sys1 where m: "circuitx_move m sys = Some sys1" and rest: "circuitx_run ms sys1 = Some sys'" by (auto split: option.splits)
  show ?case using circuitx_move_inv [OF Cons.prems(2) m] Cons.IH [OF rest] by simp
qed simp

lemma circuitx_start_inv: "cx_halfOpenMax (circuitx_newConfig opts) < 2 ^ 31 \<Longrightarrow> circuitx_sys_inv (circuitx_start opts n)"
  using circuitx_newConfig_valid [of opts]
  by (simp add: circuitx_sys_inv_def circuitx_start_def circuitx_sound_def circuitx_budget_def circuitx_New_def circuitx_unreported_def
      circuitx_cfg_ok_def how_many_def)

subsection \<open>Properties\<close>

text \<open>
  C1: Transitions. Any number of goroutines call \<open>Execute\<close>, \<open>State\<close>, \<open>Reset\<close>, \<open>ResetStats\<close> and \<open>Close\<close>, interleaved access by access. The changes of
  the state, in the order in which they were made, form a path of the documented state graph from Closed to the present state (no change is lost
  or made twice, none is a self-loop and none goes from Closed to HalfOpen). The hook has been called once for every change, except for the changes
  that some goroutine has made and is about to report, one each; when every goroutine is idle it has been called exactly once per change. At most one goroutine
  is inside the transition mutex, and the in-flight counter stays between zero and the budget.
\<close>

theorem circuitx_transitions:
  assumes "circuitx_run ms (circuitx_start opts n) = Some (s, pcs)" and "cx_halfOpenMax (circuitx_newConfig opts) < 2 ^ 31"
  shows "circuitx_chain Closed (cy_changes s) = Some (br_state (cy_b s)) \<and>
    (cx_onStateChange (circuitx_newConfig opts) \<noteq> None \<longrightarrow>
      (\<forall>edge. int (count_list (br_fired (cy_b s)) edge) + how_many (\<lambda>pc. circuitx_pending pc = Some edge) pcs =
         int (count_list (cy_changes s) edge)) \<and>
      ((\<forall>pc\<in>set pcs. pc = CIdle) \<longrightarrow> mset (br_fired (cy_b s)) = mset (cy_changes s))) \<and>
    how_many circuitx_locked pcs \<le> 1 \<and>
    0 \<le> br_halfOpenInflight (cy_b s) \<and> br_halfOpenInflight (cy_b s) \<le> cx_halfOpenMax (circuitx_newConfig opts)"
proof -
  have inv: "circuitx_sys_inv (s, pcs)" and cfg: "br_cfg (cy_b s) = circuitx_newConfig opts"
    using circuitx_run_inv [OF assms(1) circuitx_start_inv [OF assms(2)]] by (simp_all add: circuitx_start_def circuitx_New_def)
  have count: "int (count_list (br_fired (cy_b s)) edge) + how_many (\<lambda>pc. circuitx_pending pc = Some edge) pcs =
         int (count_list (cy_changes s) edge)" if "cx_onStateChange (circuitx_newConfig opts) \<noteq> None" for edge
    using inv that by (cases edge) (simp add: circuitx_sys_inv_def cfg circuitx_unreported_def algebra_simps)
  have "mset (br_fired (cy_b s)) = mset (cy_changes s)"
    if "cx_onStateChange (circuitx_newConfig opts) \<noteq> None" "\<forall>pc\<in>set pcs. pc = CIdle"
  proof (rule multiset_eqI)
    fix edge
    have "how_many (\<lambda>pc. circuitx_pending pc = Some edge) pcs = 0" using that(2) by (auto simp: how_many_def filter_empty_conv)
    then show "count (mset (br_fired (cy_b s))) edge = count (mset (cy_changes s)) edge"
      using count [OF that(1), of edge] by (simp add: count_mset)
  qed
  then show ?thesis
    using inv count by (simp add: circuitx_sys_inv_def circuitx_sound_def circuitx_budget_def cfg of_bool_def)
qed


subsection \<open>Witnesses and what concurrency breaks\<close>

definition circuitx_demo_opts :: "(circuitx_config \<Rightarrow> circuitx_config) option list" where
  "circuitx_demo_opts = [Some (circuitx_WithOnStateChange (Some (\<lambda>st st'. Returns () None)))]"

text \<open>One goroutine makes \<open>k\<close> accesses at time \<open>t\<close>, with the operation it calls when idle and the end of its callback.\<close>

definition circuitx_burst :: "nat \<Rightarrow> nat \<Rightarrow> int \<Rightarrow> circuitx_op \<Rightarrow> bool \<Rightarrow> goerror \<Rightarrow> (nat \<times> circuitx_input) list" where
  "circuitx_burst i k t op trip err = replicate k (i, \<lparr>ci_op = op, ci_now = t, ci_skip = False, ci_trip = trip, ci_err = err\<rparr>)"

definition circuitx_later :: int where "circuitx_later = 10000000010"

text \<open>Goroutine 0 trips the circuit; after the timeout goroutine 1 promotes it and runs a probe.\<close>

definition circuitx_demo_run :: "(nat \<times> circuitx_input) list" where
  "circuitx_demo_run = circuitx_burst 0 14 5 (OpExecute True) True None @ circuitx_burst 1 13 circuitx_later (OpExecute True) False None"

lemmas circuitx_demo_defs = circuitx_burst_def circuitx_later_def circuitx_demo_opts_def circuitx_start_def circuitx_New_def
  circuitx_newConfig_def circuitx_consts circuitx_WithOnStateChange_def circuitx_move_def circuitx_put_def circuitx_set_state_def
  circuitx_lock_def circuitx_ended_def circuitx_after_def circuitx_leave_def circuitx_fireStateChange_def circuitx_countsAsFailure_def

lemma circuitx_demo_result:
  "\<exists>s. circuitx_run circuitx_demo_run (circuitx_start circuitx_demo_opts 2) = Some (s, [CIdle, ERun (Some 1) 1]) \<and>
     br_fired (cy_b s) = [(Closed, Open), (Open, HalfOpen)] \<and> br_halfOpenInflight (cy_b s) = 1"
  by (simp add: circuitx_demo_run_def circuitx_demo_defs numeral_eq_Suc)


theorem circuitx_transitions_witness:
  "\<exists>s. circuitx_run circuitx_demo_run (circuitx_start circuitx_demo_opts 2) = Some (s, [CIdle, ERun (Some 1) 1]) \<and>
     br_fired (cy_b s) = [(Closed, Open), (Open, HalfOpen)] \<and> count_list (cy_changes s) (Open, HalfOpen) = 1"
proof -
  obtain s where s: "circuitx_run circuitx_demo_run (circuitx_start circuitx_demo_opts 2) = Some (s, [CIdle, ERun (Some 1) 1])"
    "br_fired (cy_b s) = [(Closed, Open), (Open, HalfOpen)]" using circuitx_demo_result by blast
  have cfg: "cx_halfOpenMax (circuitx_newConfig circuitx_demo_opts) < 2 ^ 31" "cx_onStateChange (circuitx_newConfig circuitx_demo_opts) \<noteq> None"
    by (simp_all add: circuitx_demo_defs)
  have "int (count_list (br_fired (cy_b s)) (Open, HalfOpen)) +
      how_many (\<lambda>pc. circuitx_pending pc = Some (Open, HalfOpen)) [CIdle, ERun (Some 1) 1] = int (count_list (cy_changes s) (Open, HalfOpen))"
    using circuitx_transitions [OF s(1) cfg(1)] cfg(2) by blast
  then have "count_list (cy_changes s) (Open, HalfOpen) = 1" by (simp add: s(2) how_many_def)
  then show ?thesis using s by blast
qed

text \<open>
  The counter's bound is not a bound on the probes. \<open>State\<close> swaps Open to HalfOpen before it clears the in-flight count, outside the mutex; a
  goroutine that passes admission in between keeps running uncounted. With a budget of one there is a run in which two probes of the live generation
  are running.
\<close>

theorem circuitx_probe_race:
  "\<exists>ms s. circuitx_run ms (circuitx_start circuitx_demo_opts 2) = Some (s, [ERun (Some 1) 1, ERun (Some 1) 1]) \<and>
     br_state (cy_b s) = HalfOpen \<and> br_generation (cy_b s) = 1 \<and> cx_halfOpenMax (br_cfg (cy_b s)) = 1 \<and> br_halfOpenInflight (cy_b s) = 1"
proof -
  let ?b = "\<lambda>i k. circuitx_burst i k circuitx_later (OpExecute True) False None"
  show ?thesis
    by (intro exI [of _ "circuitx_burst 0 14 5 (OpExecute True) True None @ ?b 0 6 @ ?b 1 7 @ ?b 0 7"])
      (simp add: circuitx_demo_defs numeral_eq_Suc)
qed

text \<open>
  A slot can be lost for good. A probe whose compare-and-swap comes after the circuit was opened and promoted again takes a slot of the new epoch with
  its old generation, and \<open>releaseProbe\<close> then does nothing. In the run below every goroutine is idle again and the circuit is HalfOpen with its one
  slot taken: from then on every admission is refused at any time, until \<open>Reset\<close>.
\<close>

theorem circuitx_stuck_half_open:
  "\<exists>ms s. circuitx_run ms (circuitx_start circuitx_demo_opts 2) = Some (s, [CIdle, CIdle]) \<and> br_state (cy_b s) = HalfOpen \<and>
     (\<forall>t. \<exists>b'. circuitx_tryAdmit t (cy_b s) = (b', HalfOpen, br_generation (cy_b s), False))"
proof -
  let ?fail = "Some (UserError 1)"
  let ?ms = "circuitx_burst 0 14 5 (OpExecute True) True None @ circuitx_burst 0 13 circuitx_later (OpExecute True) False ?fail @
    circuitx_burst 1 4 circuitx_later (OpExecute True) False None @ circuitx_burst 0 15 circuitx_later (OpExecute True) False ?fail @
    circuitx_burst 0 8 (2 * circuitx_later) OpState False None @ circuitx_burst 1 10 circuitx_later (OpExecute True) False None"
  show ?thesis
    by (intro exI [of _ ?ms])
      (simp add: circuitx_demo_defs numeral_eq_Suc circuitx_tryAdmit_def circuitx_State_def circuitx_tryAdmitProbe_def)
qed

end
