(* ===== verification/Lrux_List.thy ===== *)
theory Lrux_List
  imports Panix
begin

text \<open>
  Package \<open>lrux\<close>, the data structure: the cache's state with its nodes in an explicit heap, and the
  intrusive doubly linked list (\<open>listPushFront\<close>, \<open>listRemove\<close>, \<open>listMoveToFront\<close>) pointer write by
  pointer write. A list of addresses describes the heap structure; the operations are shown to be
  cons, removal and move-to-front on it.
\<close>

subsection \<open>Types\<close>

datatype lrux_EvictionReason =
  EvictionCapacity | EvictionExpired | EvictionDeleted | EvictionCleared | EvictionReplaced

fun lrux_EvictionReason_String :: "lrux_EvictionReason \<Rightarrow> string" where
  "lrux_EvictionReason_String EvictionCapacity = ''capacity''"
| "lrux_EvictionReason_String EvictionExpired = ''expired''"
| "lrux_EvictionReason_String EvictionDeleted = ''deleted''"
| "lrux_EvictionReason_String EvictionCleared = ''cleared''"
| "lrux_EvictionReason_String EvictionReplaced = ''replaced''"

type_synonym ('k, 'v) lrux_OnEvictFunc = "'k \<Rightarrow> 'v \<Rightarrow> lrux_EvictionReason \<Rightarrow> unit outcome"

record ('k, 'v) lrux_Entry =
  en_Key :: 'k
  en_Value :: 'v
  en_CreatedAt :: int
  en_AccessedAt :: int
  en_ExpiresAt :: "int option"

record ('k, 'v) lrux_node =
  nd_key :: 'k
  nd_value :: 'v
  nd_prev :: "nat option"
  nd_next :: "nat option"
  nd_createdAt :: int
  nd_accessedAt :: int
  nd_expiresAt :: "int option"

type_synonym ('k, 'v) lrux_evictEvent = "'k \<times> 'v \<times> lrux_EvictionReason"

text \<open>
  A node pointer is an address of \<open>lc_heap\<close>; \<open>lc_brk\<close> is the next address an allocation takes.
  \<open>lc_cleanup\<close> is the background ticker, if one was started, and whether it was stopped. \<open>lc_fired\<close>
  is not in the code: it lists the calls of the eviction callback, oldest first.
\<close>

record ('k, 'v) lrux_Cache =
  lc_heap :: "nat \<Rightarrow> ('k, 'v) lrux_node option"
  lc_brk :: nat
  lc_items :: "'k \<Rightarrow> nat option"
  lc_head :: "nat option"
  lc_tail :: "nat option"
  lc_size :: int
  lc_capacity :: int
  lc_ttl :: int
  lc_onEvict :: "('k, 'v) lrux_OnEvictFunc option"
  lc_hits :: u64
  lc_misses :: u64
  lc_evictions :: u64
  lc_cleanup :: "bool option"
  lc_closed :: bool
  lc_fired :: "('k, 'v) lrux_evictEvent list"

definition lrux_at :: "('k, 'v) lrux_Cache \<Rightarrow> nat \<Rightarrow> ('k, 'v) lrux_node" where
  "lrux_at c p = the (lc_heap c p)"

definition lrux_upd ::
  "nat \<Rightarrow> (('k, 'v) lrux_node \<Rightarrow> ('k, 'v) lrux_node) \<Rightarrow> ('k, 'v) lrux_Cache \<Rightarrow> ('k, 'v) lrux_Cache" where
  "lrux_upd p f c = c\<lparr>lc_heap := (lc_heap c)(p := map_option f (lc_heap c p))\<rparr>"

subsection \<open>The list operations\<close>

definition lrux_listPushFront :: "nat \<Rightarrow> ('k, 'v) lrux_Cache \<Rightarrow> ('k, 'v) lrux_Cache" where
  "lrux_listPushFront n c =
     (let c1 = lrux_upd n (\<lambda>x. x\<lparr>nd_prev := None\<rparr>) c;
          c2 = lrux_upd n (\<lambda>x. x\<lparr>nd_next := lc_head c1\<rparr>) c1;
          c3 = (case lc_head c2 of
                  None \<Rightarrow> c2
                | Some h \<Rightarrow> lrux_upd h (\<lambda>x. x\<lparr>nd_prev := Some n\<rparr>) c2);
          c4 = c3\<lparr>lc_head := Some n\<rparr>;
          c5 = (if lc_tail c4 = None then c4\<lparr>lc_tail := Some n\<rparr> else c4)
      in c5\<lparr>lc_size := lc_size c5 + 1\<rparr>)"

definition lrux_listRemove :: "nat \<Rightarrow> ('k, 'v) lrux_Cache \<Rightarrow> ('k, 'v) lrux_Cache" where
  "lrux_listRemove n c =
     (let c1 = (case nd_prev (lrux_at c n) of
                  Some p \<Rightarrow> lrux_upd p (\<lambda>x. x\<lparr>nd_next := nd_next (lrux_at c n)\<rparr>) c
                | None \<Rightarrow> c\<lparr>lc_head := nd_next (lrux_at c n)\<rparr>);
          c2 = (case nd_next (lrux_at c1 n) of
                  Some q \<Rightarrow> lrux_upd q (\<lambda>x. x\<lparr>nd_prev := nd_prev (lrux_at c1 n)\<rparr>) c1
                | None \<Rightarrow> c1\<lparr>lc_tail := nd_prev (lrux_at c1 n)\<rparr>);
          c3 = lrux_upd n (\<lambda>x. x\<lparr>nd_prev := None\<rparr>) c2;
          c4 = lrux_upd n (\<lambda>x. x\<lparr>nd_next := None\<rparr>) c3
      in c4\<lparr>lc_size := lc_size c4 - 1\<rparr>)"

definition lrux_listMoveToFront :: "nat \<Rightarrow> ('k, 'v) lrux_Cache \<Rightarrow> ('k, 'v) lrux_Cache" where
  "lrux_listMoveToFront n c =
     (if lc_head c = Some n then c else lrux_listPushFront n (lrux_listRemove n c))"

subsection \<open>List segments\<close>

text \<open>
  \<open>lrux_seg hp b f ps l e\<close>: from pointer \<open>f\<close> the nodes \<open>ps\<close> follow one another, the first one's
  predecessor is \<open>b\<close>, the last one is \<open>l\<close> and its successor \<open>e\<close>.
\<close>

fun lrux_seg ::
  "(nat \<Rightarrow> ('k, 'v) lrux_node option) \<Rightarrow> nat option \<Rightarrow> nat option \<Rightarrow> nat list \<Rightarrow> nat option \<Rightarrow> nat option \<Rightarrow> bool" where
  "lrux_seg hp b f [] l e = (f = e \<and> l = b)"
| "lrux_seg hp b f (p # ps) l e =
     (f = Some p \<and> (\<exists>n. hp p = Some n \<and> nd_prev n = b \<and> lrux_seg hp (Some p) (nd_next n) ps l e))"

lemma lrux_seg_append:
  "lrux_seg hp b f (xs @ ys) l e = (\<exists>l' e'. lrux_seg hp b f xs l' e' \<and> lrux_seg hp l' e' ys l e)"
  by (induction xs arbitrary: b f) auto

lemma lrux_seg_cong:
  "(\<And>p. p \<in> set ps \<Longrightarrow> hp' p = hp p) \<Longrightarrow> lrux_seg hp' b f ps l e = lrux_seg hp b f ps l e"
  by (induction ps arbitrary: b f) simp_all

lemma lrux_seg_upd [simp]: "p \<notin> set ps \<Longrightarrow> lrux_seg (hp(p := x)) b f ps l e = lrux_seg hp b f ps l e"
  by (rule lrux_seg_cong) auto

lemma lrux_seg_ends:
  "lrux_seg hp b f ps l e \<Longrightarrow>
   f = (if ps = [] then e else Some (hd ps)) \<and> l = (if ps = [] then b else Some (last ps))"
  by (induction ps arbitrary: b f) auto

lemma lrux_seg_alloc: "lrux_seg hp b f ps l e \<Longrightarrow> p \<in> set ps \<Longrightarrow> hp p \<noteq> None"
  by (induction ps arbitrary: b f) auto

text \<open>Redirecting the last node's successor, and the first node's predecessor.\<close>

lemma lrux_seg_set_next:
  "lrux_seg hp b f (xs @ [q]) l e \<Longrightarrow> q \<notin> set xs \<Longrightarrow>
   lrux_seg (hp(q := map_option (\<lambda>x. x\<lparr>nd_next := e'\<rparr>) (hp q))) b f (xs @ [q]) l e'"
  by (auto simp: lrux_seg_append)

lemma lrux_seg_set_prev:
  "lrux_seg hp b f (q # ys) l e \<Longrightarrow> q \<notin> set ys \<Longrightarrow>
   lrux_seg (hp(q := map_option (\<lambda>x. x\<lparr>nd_prev := b'\<rparr>) (hp q))) b' f (q # ys) l e"
  by auto

text \<open>The list of a cache.\<close>

definition lrux_list :: "('k, 'v) lrux_Cache \<Rightarrow> nat list \<Rightarrow> bool" where
  "lrux_list c ps \<longleftrightarrow>
     lrux_seg (lc_heap c) None (lc_head c) ps (lc_tail c) None \<and> distinct ps
     \<and> lc_size c = int (length ps)"

lemma lrux_list_unique:
  assumes "lrux_list c ps" and "lrux_list c qs"
  shows "ps = qs"
proof -
  have "lrux_seg hp b f ps l None \<Longrightarrow> lrux_seg hp b f qs l' None \<Longrightarrow> ps = qs" for hp b f l l' ps qs
  proof (induction ps arbitrary: b f qs)
    case Nil
    then show ?case by (cases qs) auto
  next
    case (Cons p ps)
    then show ?case by (cases qs) auto
  qed
  with assms show ?thesis unfolding lrux_list_def by blast
qed

lemma lrux_upd_fields [simp]:
  "lc_heap (lrux_upd p f c) = (lc_heap c)(p := map_option f (lc_heap c p))"
  "lc_brk (lrux_upd p f c) = lc_brk c"
  "lc_items (lrux_upd p f c) = lc_items c"
  "lc_head (lrux_upd p f c) = lc_head c"
  "lc_tail (lrux_upd p f c) = lc_tail c"
  "lc_size (lrux_upd p f c) = lc_size c"
  "lc_capacity (lrux_upd p f c) = lc_capacity c"
  "lc_ttl (lrux_upd p f c) = lc_ttl c"
  "lc_onEvict (lrux_upd p f c) = lc_onEvict c"
  "lc_hits (lrux_upd p f c) = lc_hits c"
  "lc_misses (lrux_upd p f c) = lc_misses c"
  "lc_evictions (lrux_upd p f c) = lc_evictions c"
  "lc_cleanup (lrux_upd p f c) = lc_cleanup c"
  "lc_closed (lrux_upd p f c) = lc_closed c"
  "lc_fired (lrux_upd p f c) = lc_fired c"
  by (simp_all add: lrux_upd_def)

lemma lrux_listPushFront_list:
  assumes "lrux_list c ps" and "p \<notin> set ps" and "lc_heap c p = Some n"
  shows "lrux_list (lrux_listPushFront p c) (p # ps)"
proof (cases ps)
  case Nil
  with assms show ?thesis by (auto simp: lrux_list_def lrux_listPushFront_def Let_def)
next
  case (Cons h qs)
  have "lc_tail c \<noteq> None"
    using assms(1) lrux_seg_ends Cons unfolding lrux_list_def by fastforce
  with assms Cons show ?thesis
    by (auto simp: lrux_list_def lrux_listPushFront_def Let_def)
qed

lemma lrux_list_tail: "lrux_list c ps \<Longrightarrow> lc_tail c = (if ps = [] then None else Some (last ps))"
  unfolding lrux_list_def using lrux_seg_ends by fastforce

lemma lrux_list_head: "lrux_list c ps \<Longrightarrow> lc_head c = (if ps = [] then None else Some (hd ps))"
  unfolding lrux_list_def using lrux_seg_ends by fastforce

lemma lrux_list_alloc: "lrux_list c ps \<Longrightarrow> p \<in> set ps \<Longrightarrow> lc_heap c p = Some (lrux_at c p)"
  unfolding lrux_list_def lrux_at_def using lrux_seg_alloc by fastforce

text \<open>Removal: the neighbours are joined, and the ends move when the node was one.\<close>

lemma lrux_listRemove_list:
  assumes "lrux_list c (xs @ p # ys)"
  shows "lrux_list (lrux_listRemove p c) (xs @ ys)"
proof -
  obtain l n where xs: "lrux_seg (lc_heap c) None (lc_head c) xs l (Some p)"
    and n: "lc_heap c p = Some n" "nd_prev n = l"
    and ys: "lrux_seg (lc_heap c) (Some p) (nd_next n) ys (lc_tail c) None"
    and d: "distinct (xs @ p # ys)" and sz: "lc_size c = int (length xs) + int (length ys) + 1"
    using assms by (auto simp: lrux_list_def lrux_seg_append)
  have xe: "lc_head c = (if xs = [] then Some p else Some (hd xs))" "l = (if xs = [] then None else Some (last xs))"
    and ye: "nd_next n = (if ys = [] then None else Some (hd ys))"
      "lc_tail c = (if ys = [] then Some p else Some (last ys))"
    using lrux_seg_ends [OF xs] lrux_seg_ends [OF ys] by auto
  show ?thesis
  proof (cases xs rule: rev_cases)
    case Nil
    then show ?thesis
      using n ys d sz xe ye
      by (cases ys) (auto simp: lrux_list_def lrux_listRemove_def Let_def lrux_at_def)
  next
    case (snoc us u)
    then show ?thesis
      using n xs ys d sz xe ye
      by (cases ys) (auto simp: lrux_list_def lrux_listRemove_def Let_def lrux_at_def lrux_seg_append)
  qed
qed

subsection \<open>What the list operations leave alone\<close>

text \<open>The client's view of a node: everything but the links.\<close>

definition lrux_entry_of :: "('k, 'v) lrux_node \<Rightarrow> ('k, 'v) lrux_Entry" where
  "lrux_entry_of n =
     \<lparr>en_Key = nd_key n, en_Value = nd_value n, en_CreatedAt = nd_createdAt n,
      en_AccessedAt = nd_accessedAt n, en_ExpiresAt = nd_expiresAt n\<rparr>"

definition lrux_entry :: "('k, 'v) lrux_Cache \<Rightarrow> nat \<Rightarrow> ('k, 'v) lrux_Entry option" where
  "lrux_entry c p = map_option lrux_entry_of (lc_heap c p)"

lemma lrux_entry_of_links [simp]:
  "lrux_entry_of (n\<lparr>nd_prev := x\<rparr>) = lrux_entry_of n"
  "lrux_entry_of (n\<lparr>nd_next := x\<rparr>) = lrux_entry_of n"
  by (simp_all add: lrux_entry_of_def)

lemma lrux_entry_upd_links [simp]:
  "lrux_entry (lrux_upd p (\<lambda>n. n\<lparr>nd_prev := x\<rparr>) c) = lrux_entry c"
  "lrux_entry (lrux_upd p (\<lambda>n. n\<lparr>nd_next := x\<rparr>) c) = lrux_entry c"
  by (auto simp: lrux_entry_def fun_eq_iff option.map_comp o_def)

lemma lrux_entry_cong:
  "lc_heap c' = lc_heap c \<Longrightarrow> lrux_entry c' = lrux_entry c"
  by (simp add: lrux_entry_def fun_eq_iff)

lemma lrux_entry_fields [simp]:
  "lrux_entry (c\<lparr>lc_head := h\<rparr>) = lrux_entry c"
  "lrux_entry (c\<lparr>lc_tail := h\<rparr>) = lrux_entry c"
  "lrux_entry (c\<lparr>lc_size := sz\<rparr>) = lrux_entry c"
  "lrux_entry (c\<lparr>lc_items := m\<rparr>) = lrux_entry c"
  "lrux_entry (c\<lparr>lc_brk := b\<rparr>) = lrux_entry c"
  "lrux_entry (c\<lparr>lc_capacity := i\<rparr>) = lrux_entry c"
  "lrux_entry (c\<lparr>lc_hits := w\<rparr>) = lrux_entry c"
  "lrux_entry (c\<lparr>lc_misses := w\<rparr>) = lrux_entry c"
  "lrux_entry (c\<lparr>lc_evictions := w\<rparr>) = lrux_entry c"
  "lrux_entry (c\<lparr>lc_closed := cl\<rparr>) = lrux_entry c"
  "lrux_entry (c\<lparr>lc_cleanup := cu\<rparr>) = lrux_entry c"
  "lrux_entry (c\<lparr>lc_fired := fs\<rparr>) = lrux_entry c"
  by (simp_all add: lrux_entry_def fun_eq_iff)

lemma lrux_listPushFront_entry [simp]: "lrux_entry (lrux_listPushFront p c) = lrux_entry c"
  by (simp add: lrux_listPushFront_def Let_def split: option.split)

lemma lrux_listRemove_entry [simp]: "lrux_entry (lrux_listRemove p c) = lrux_entry c"
  by (simp add: lrux_listRemove_def Let_def split: option.split)

lemma lrux_listMoveToFront_entry [simp]: "lrux_entry (lrux_listMoveToFront p c) = lrux_entry c"
  by (simp add: lrux_listMoveToFront_def)

lemma lrux_listPushFront_fields [simp]:
  "lc_brk (lrux_listPushFront p c) = lc_brk c"
  "lc_items (lrux_listPushFront p c) = lc_items c"
  "lc_capacity (lrux_listPushFront p c) = lc_capacity c"
  "lc_ttl (lrux_listPushFront p c) = lc_ttl c"
  "lc_onEvict (lrux_listPushFront p c) = lc_onEvict c"
  "lc_hits (lrux_listPushFront p c) = lc_hits c"
  "lc_misses (lrux_listPushFront p c) = lc_misses c"
  "lc_evictions (lrux_listPushFront p c) = lc_evictions c"
  "lc_cleanup (lrux_listPushFront p c) = lc_cleanup c"
  "lc_closed (lrux_listPushFront p c) = lc_closed c"
  "lc_fired (lrux_listPushFront p c) = lc_fired c"
  by (simp_all add: lrux_listPushFront_def Let_def split: option.split)

lemma lrux_listRemove_fields [simp]:
  "lc_brk (lrux_listRemove p c) = lc_brk c"
  "lc_items (lrux_listRemove p c) = lc_items c"
  "lc_capacity (lrux_listRemove p c) = lc_capacity c"
  "lc_ttl (lrux_listRemove p c) = lc_ttl c"
  "lc_onEvict (lrux_listRemove p c) = lc_onEvict c"
  "lc_hits (lrux_listRemove p c) = lc_hits c"
  "lc_misses (lrux_listRemove p c) = lc_misses c"
  "lc_evictions (lrux_listRemove p c) = lc_evictions c"
  "lc_cleanup (lrux_listRemove p c) = lc_cleanup c"
  "lc_closed (lrux_listRemove p c) = lc_closed c"
  "lc_fired (lrux_listRemove p c) = lc_fired c"
  by (simp_all add: lrux_listRemove_def Let_def split: option.split)

lemma lrux_listMoveToFront_fields [simp]:
  "lc_brk (lrux_listMoveToFront p c) = lc_brk c"
  "lc_items (lrux_listMoveToFront p c) = lc_items c"
  "lc_capacity (lrux_listMoveToFront p c) = lc_capacity c"
  "lc_ttl (lrux_listMoveToFront p c) = lc_ttl c"
  "lc_onEvict (lrux_listMoveToFront p c) = lc_onEvict c"
  "lc_hits (lrux_listMoveToFront p c) = lc_hits c"
  "lc_misses (lrux_listMoveToFront p c) = lc_misses c"
  "lc_evictions (lrux_listMoveToFront p c) = lc_evictions c"
  "lc_cleanup (lrux_listMoveToFront p c) = lc_cleanup c"
  "lc_closed (lrux_listMoveToFront p c) = lc_closed c"
  "lc_fired (lrux_listMoveToFront p c) = lc_fired c"
  by (simp_all add: lrux_listMoveToFront_def)

lemma lrux_alloc_entry: "lc_heap c p = None \<longleftrightarrow> lrux_entry c p = None"
  by (simp add: lrux_entry_def)

lemma lrux_listMoveToFront_list:
  assumes "lrux_list c (xs @ p # ys)"
  shows "lrux_list (lrux_listMoveToFront p c) (p # xs @ ys)"
proof (cases "lc_head c = Some p")
  case True
  moreover have "lc_head c = Some (hd (xs @ p # ys))" using lrux_list_head [OF assms] by simp
  moreover have "p \<notin> set xs" using assms by (simp add: lrux_list_def)
  ultimately have "xs = []" by (cases xs) simp_all
  with True assms show ?thesis by (simp add: lrux_listMoveToFront_def)
next
  case False
  have "lrux_entry c p \<noteq> None"
    using lrux_list_alloc [OF assms, of p] by (simp add: lrux_entry_def)
  then obtain n where "lc_heap (lrux_listRemove p c) p = Some n"
    using lrux_listRemove_entry [of p c] lrux_alloc_entry by (metis not_None_eq)
  moreover have "p \<notin> set (xs @ ys)" using assms by (simp add: lrux_list_def)
  ultimately have "lrux_list (lrux_listPushFront p (lrux_listRemove p c)) (p # xs @ ys)"
    by (intro lrux_listPushFront_list [OF lrux_listRemove_list [OF assms]])
  with False show ?thesis by (simp add: lrux_listMoveToFront_def)
qed

lemma lrux_list_cong:
  assumes "lc_head c' = lc_head c" and "lc_tail c' = lc_tail c" and "lc_size c' = lc_size c"
    and "\<And>p. p \<in> set ps \<Longrightarrow> lc_heap c' p = lc_heap c p"
  shows "lrux_list c' ps = lrux_list c ps"
  using assms lrux_seg_cong [of ps "lc_heap c'" "lc_heap c"] by (simp add: lrux_list_def)

text \<open>Writing a payload field keeps the list.\<close>

lemma lrux_seg_payload:
  assumes "\<And>n. nd_prev (f n) = nd_prev n" and "\<And>n. nd_next (f n) = nd_next n"
  shows "lrux_seg (hp(p := map_option f (hp p))) b e ps l x = lrux_seg hp b e ps l x"
  using assms by (induction ps arbitrary: b e) auto

lemma lrux_list_payload:
  assumes "\<And>n. nd_prev (f n) = nd_prev n" and "\<And>n. nd_next (f n) = nd_next n"
  shows "lrux_list (lrux_upd p f c) ps = lrux_list c ps"
  using lrux_seg_payload [of f, OF assms] by (simp add: lrux_list_def)

end
