(* ===== verification/F64.thy ===== *)
theory F64
  imports URX_Prelude "HOL-Library.Log_Nat"
begin

text \<open>
  Go's \<open>float64\<close> as the packages use it: finite numbers are rationals, and every operation is the
  exact result rounded to 53 significant bits, ties to even. The exponent range is taken unbounded
  (no overflow to infinity, no subnormals), and NaN, infinities and the sign of zero are left out;
  the code rejects or never forms them on the modelled paths. The locale \<open>rounding\<close> lists what the
  limiters need of a rounding mode, and is interpreted on the concrete function.
\<close>

type_synonym f64 = rat

subsection \<open>Rounding\<close>

text \<open>The exponent \<open>e\<close> of a nonzero number, \<open>2 ^ e \<le> \<bar>q\<bar> < 2 ^ (e + 1)\<close>.\<close>

definition f64_exp :: "rat \<Rightarrow> int" where
  "f64_exp q =
     (case quotient_of \<bar>q\<bar> of (a, b) \<Rightarrow>
        let e = int (floorlog 2 (nat a)) - int (floorlog 2 (nat b))
        in if 2 powi e \<le> \<bar>q\<bar> then e else e - 1)"

definition f64_rhe :: "rat \<Rightarrow> int" where
  "f64_rhe m =
     (let f = \<lfloor>m\<rfloor>; d = m - of_int f
      in if d < 1 / 2 then f else if 1 / 2 < d then f + 1 else if even f then f else f + 1)"

definition f64_round :: "rat \<Rightarrow> f64" where
  "f64_round q =
     (if q = 0 then 0
      else let u = 2 powi (f64_exp q - 52) in of_int (f64_rhe (q / u)) * u)"

definition f64_add :: "f64 \<Rightarrow> f64 \<Rightarrow> f64" where "f64_add x y = f64_round (x + y)"
definition f64_sub :: "f64 \<Rightarrow> f64 \<Rightarrow> f64" where "f64_sub x y = f64_round (x - y)"
definition f64_mul :: "f64 \<Rightarrow> f64 \<Rightarrow> f64" where "f64_mul x y = f64_round (x * y)"
definition f64_div :: "f64 \<Rightarrow> f64 \<Rightarrow> f64" where "f64_div x y = f64_round (x / y)"

text \<open>
  \<open>float64(n)\<close> of an integer, and \<open>int64(x)\<close>: truncation towards zero. Out of the range of \<open>int64\<close>
  the language leaves the result to the implementation: it is the parameter \<open>oob\<close>.
\<close>

definition f64_of_int :: "int \<Rightarrow> f64" where "f64_of_int n = f64_round (of_int n)"

definition f64_trunc :: "f64 \<Rightarrow> int" where
  "f64_trunc x = (if 0 \<le> x then \<lfloor>x\<rfloor> else \<lceil>x\<rceil>)"

definition f64_to_i64 :: "(f64 \<Rightarrow> int) \<Rightarrow> f64 \<Rightarrow> int" where
  "f64_to_i64 oob x =
     (let n = f64_trunc x in if - (2 ^ 63) \<le> n \<and> n < 2 ^ 63 then n else oob x)"

text \<open>\<open>Duration.Seconds\<close>: whole seconds and the nanosecond rest, converted and added.\<close>

definition f64_Seconds :: "int \<Rightarrow> f64" where
  "f64_Seconds d = f64_add (f64_of_int (d div 10 ^ 9)) (f64_div (f64_of_int (d mod 10 ^ 9)) (10 ^ 9))"

subsection \<open>What a rounding mode gives\<close>

locale rounding =
  fixes rnd :: "rat \<Rightarrow> rat"
  assumes rnd_mono: "x \<le> y \<Longrightarrow> rnd x \<le> rnd y"
    and rnd_idem: "rnd (rnd x) = rnd x"
    and rnd_int: "\<bar>n\<bar> < 2 ^ 53 \<Longrightarrow> rnd (of_int n) = of_int n"
begin

lemma rnd_0: "rnd 0 = 0"
  using rnd_int [of 0] by simp

lemma rnd_nonneg: "0 \<le> x \<Longrightarrow> 0 \<le> rnd x"
  using rnd_mono [of 0 x] rnd_0 by simp

lemma rnd_nonpos: "x \<le> 0 \<Longrightarrow> rnd x \<le> 0"
  using rnd_mono [of x 0] rnd_0 by simp

text \<open>A representable bound survives rounding.\<close>

lemma rnd_upper: "x \<le> y \<Longrightarrow> rnd y = y \<Longrightarrow> rnd x \<le> y"
  using rnd_mono [of x y] by simp

lemma rnd_lower: "y \<le> x \<Longrightarrow> rnd y = y \<Longrightarrow> y \<le> rnd x"
  using rnd_mono [of y x] by simp

lemma rnd_sub_bounds: "0 \<le> y \<Longrightarrow> y \<le> x \<Longrightarrow> rnd x = x \<Longrightarrow> 0 \<le> rnd (x - y) \<and> rnd (x - y) \<le> x"
  using rnd_nonneg [of "x - y"] rnd_upper [of "x - y" x] by simp

lemma rnd_add_lower: "0 \<le> y \<Longrightarrow> rnd x = x \<Longrightarrow> x \<le> rnd (x + y)"
  using rnd_lower [of x "x + y"] by simp

end

subsection \<open>The concrete rounding is one\<close>

lemma f64_exp_bounds:
  assumes "q \<noteq> 0"
  shows "2 powi (f64_exp q) \<le> \<bar>q\<bar> \<and> \<bar>q\<bar> < 2 powi (f64_exp q + 1)"
proof -
  obtain a b where ab: "quotient_of \<bar>q\<bar> = (a, b)" by fastforce
  have b: "0 < b" using quotient_of_denom_pos [OF ab] .
  have q: "\<bar>q\<bar> = of_int a / of_int b" using quotient_of_div [OF ab] .
  have "(0::rat) < of_int a / of_int b" using assms q by (metis zero_less_abs_iff)
  with b have a: "0 < a" by (simp add: zero_less_divide_iff)
  let ?la = "floorlog 2 (nat a)" and ?lb = "floorlog 2 (nat b)"
  have la: "0 < ?la" and lb: "0 < ?lb" using a b by (simp_all add: floorlog_eq_zero_iff zero_less_iff_neq_zero)
  have "2 ^ (?la - 1) \<le> nat a \<and> nat a < 2 ^ ?la" and "2 ^ (?lb - 1) \<le> nat b \<and> nat b < 2 ^ ?lb"
    using floorlog_bounds [of "nat a" 2] floorlog_bounds [of "nat b" 2] a b by simp_all
  then have A: "2 ^ (?la - 1) \<le> a" "a < 2 ^ ?la" and B: "2 ^ (?lb - 1) \<le> b" "b < 2 ^ ?lb"
    using a b by (simp_all add: le_nat_iff nat_less_iff)
  have rle: "(x::int) \<le> y \<Longrightarrow> (of_int x :: rat) \<le> of_int y" and rlt: "x < y \<Longrightarrow> (of_int x :: rat) < of_int y" for x y
    by simp_all
  note Ar = rle [OF A(1), unfolded of_int_power of_int_numeral] rlt [OF A(2), unfolded of_int_power of_int_numeral]
  note Br = rle [OF B(1), unfolded of_int_power of_int_numeral] rlt [OF B(2), unfolded of_int_power of_int_numeral]
  have br: "(0::rat) < of_int b" using b by simp
  let ?e = "int ?la - int ?lb"
  have pow: "(2::rat) powi (int m - int k) = 2 ^ m / 2 ^ k" for m k
    by (simp add: power_int_diff)
  have lo: "2 powi (?e - 1) \<le> \<bar>q\<bar>"
  proof -
    have "(2::rat) powi (?e - 1) = 2 ^ (?la - 1) / 2 ^ ?lb"
      using pow [of "?la - 1" ?lb] la by (simp add: of_nat_diff algebra_simps)
    also have "\<dots> \<le> of_int a / of_int b"
      using Ar(1) Br(2) a br by (intro frac_le less_imp_le [OF Br(2)]) simp_all
    finally show ?thesis using q by simp
  qed
  have hi: "\<bar>q\<bar> < 2 powi (?e + 1)"
  proof -
    have "of_int a / of_int b < (2::rat) ^ ?la / 2 ^ (?lb - 1)"
      by (rule frac_less [OF _ Ar(2) _ Br(1)]) (use a in simp_all)
    also have "\<dots> = 2 powi (?e + 1)"
      using pow [of ?la "?lb - 1"] lb by (simp add: of_nat_diff algebra_simps)
    finally show ?thesis using q by simp
  qed
  show ?thesis
    using lo hi by (auto simp: f64_exp_def ab Let_def)
qed

lemma f64_powi_less_iff: "(2::rat) powi a < 2 powi b \<longleftrightarrow> a < b"
  using power_int_strict_increasing [of a b "2::rat"] power_int_increasing [of b a "2::rat"]
  by (cases "a < b") simp_all

lemma f64_powi_le_iff: "(2::rat) powi a \<le> 2 powi b \<longleftrightarrow> a \<le> b"
  using f64_powi_less_iff [of b a] by (simp add: not_less [symmetric])

lemma f64_exp_unique:
  assumes "2 powi e \<le> \<bar>q\<bar>" and "\<bar>q\<bar> < 2 powi (e + 1)"
  shows "f64_exp q = e"
proof -
  have "0 < (2::rat) powi e" by simp
  from less_le_trans [OF this assms(1)] have "0 < \<bar>q\<bar>" .
  then have "q \<noteq> 0" by simp
  from f64_exp_bounds [OF this]
  have "(2::rat) powi (f64_exp q) < 2 powi (e + 1)" and "(2::rat) powi e < 2 powi (f64_exp q + 1)"
    using assms by linarith+
  then show ?thesis by (simp add: f64_powi_less_iff)
qed

lemma f64_rhe_bounds: "\<lfloor>m\<rfloor> \<le> f64_rhe m \<and> f64_rhe m \<le> \<lfloor>m\<rfloor> + 1"
  by (simp add: f64_rhe_def Let_def)

lemma f64_rhe_of_int [simp]: "f64_rhe (of_int n) = n"
  by (simp add: f64_rhe_def)

lemma f64_rhe_mono: "x \<le> y \<Longrightarrow> f64_rhe x \<le> f64_rhe y"
proof (cases "\<lfloor>x\<rfloor> = \<lfloor>y\<rfloor>")
  case True
  assume "x \<le> y"
  with True show ?thesis by (simp add: f64_rhe_def Let_def)
next
  case False
  assume "x \<le> y"
  then have "\<lfloor>x\<rfloor> \<le> \<lfloor>y\<rfloor>" by (rule floor_mono)
  with False f64_rhe_bounds [of x] f64_rhe_bounds [of y] show ?thesis by linarith
qed

lemma f64_rhe_minus: "f64_rhe (- m) = - f64_rhe m"
proof (cases "m = of_int \<lfloor>m\<rfloor>")
  case True
  then show ?thesis by (metis f64_rhe_of_int of_int_minus)
next
  case False
  then have "\<lfloor>- m\<rfloor> = - \<lfloor>m\<rfloor> - 1"
    using floor_correct [of m] by (intro floor_unique) (simp_all, linarith+)
  then show ?thesis
    by (auto simp: f64_rhe_def Let_def)
qed

lemma f64_exp_minus [simp]: "f64_exp (- q) = f64_exp q"
  by (simp add: f64_exp_def)

lemma f64_round_minus: "f64_round (- q) = - f64_round q"
  by (simp add: f64_round_def Let_def f64_rhe_minus)

text \<open>A positive number rounds into its own binade, its upper end included.\<close>

lemma f64_round_binade:
  assumes "0 < q"
  shows "2 powi (f64_exp q) \<le> f64_round q \<and> f64_round q \<le> 2 powi (f64_exp q + 1)"
proof -
  let ?e = "f64_exp q" let ?u = "(2::rat) powi (?e - 52)"
  have u: "0 < ?u" by simp
  have b: "2 powi ?e \<le> q" "q < 2 powi (?e + 1)" using f64_exp_bounds [of q] assms by auto
  have ue: "2 powi ?e = of_int (2 ^ 52) * ?u" "2 powi (?e + 1) = of_int (2 ^ 53) * ?u"
    using power_int_add [of "2::rat" 52 "?e - 52"] power_int_add [of "2::rat" 53 "?e - 52"]
    by (simp_all add: add.commute)
  have "of_int (2 ^ 52) \<le> q / ?u" "q / ?u \<le> of_int (2 ^ 53)"
    using b u unfolding ue by (simp_all add: pos_le_divide_eq pos_divide_le_eq)
  then have "2 ^ 52 \<le> f64_rhe (q / ?u)" "f64_rhe (q / ?u) \<le> 2 ^ 53"
    using f64_rhe_mono f64_rhe_of_int by metis+
  then have "of_int (2 ^ 52) * ?u \<le> of_int (f64_rhe (q / ?u)) * ?u"
      "of_int (f64_rhe (q / ?u)) * ?u \<le> of_int (2 ^ 53) * ?u"
    using u by (simp_all only: mult_le_cancel_right_pos of_int_le_iff)
  with assms show ?thesis by (simp add: f64_round_def Let_def ue)
qed

lemma f64_round_mono_pos:
  assumes "0 < x" and "x \<le> y"
  shows "f64_round x \<le> f64_round y"
proof (cases "f64_exp x = f64_exp y")
  case True
  have "0 < y" using assms by simp
  with True assms show ?thesis
    by (simp add: f64_round_def Let_def f64_rhe_mono divide_right_mono)
next
  case False
  have "0 < y" using assms by simp
  have "(2::rat) powi (f64_exp x) < 2 powi (f64_exp y + 1)"
    using f64_exp_bounds [of x] f64_exp_bounds [of y] assms by linarith
  then have "f64_exp x < f64_exp y + 1" by (simp add: f64_powi_less_iff)
  with False have "f64_exp x + 1 \<le> f64_exp y" by simp
  then have "(2::rat) powi (f64_exp x + 1) \<le> 2 powi (f64_exp y)"
    by (intro power_int_increasing) simp_all
  with f64_round_binade [OF assms(1)] f64_round_binade [OF \<open>0 < y\<close>] show ?thesis by linarith
qed

lemma f64_round_pos: "0 < x \<Longrightarrow> 0 < f64_round x"
  using f64_round_binade [of x] zero_less_power_int [of "2::rat" "f64_exp x"] by linarith

lemma f64_round_mono: "x \<le> y \<Longrightarrow> f64_round x \<le> f64_round y"
proof -
  assume le: "x \<le> y"
  have z: "f64_round 0 = 0" by (simp add: f64_round_def)
  have neg: "f64_round x < 0" if "x < 0" for x
    using f64_round_pos [of "- x"] that by (simp add: f64_round_minus)
  consider "0 < x" | "y < 0" | "x \<le> 0" "0 \<le> y" by linarith
  then show ?thesis
  proof cases
    case 1
    then show ?thesis using f64_round_mono_pos le by blast
  next
    case 2
    then show ?thesis using f64_round_mono_pos [of "- y" "- x"] le by (simp add: f64_round_minus)
  next
    case 3
    then have "f64_round x \<le> 0" "0 \<le> f64_round y"
      using neg [of x] f64_round_pos [of y] z by (auto simp: le_less)
    then show ?thesis by linarith
  qed
qed

lemma f64_round_fix:
  assumes "q = of_int n * 2 powi (f64_exp q - 52)"
  shows "f64_round q = q"
proof -
  define u where "u = (2::rat) powi (f64_exp q - 52)"
  have "u \<noteq> 0" and q: "q = of_int n * u" using assms by (simp_all add: u_def)
  then have "q / u = of_int n" by simp
  then show ?thesis by (simp add: f64_round_def u_def [symmetric] q [symmetric])
qed

text \<open>Numbers of the form \<open>k * 2 ^ e\<close> with a 53-bit integer \<open>k\<close> are exact.\<close>

lemma f64_round_exact:
  assumes "\<bar>k\<bar> \<le> 2 ^ 53"
  shows "f64_round (of_int k * 2 powi e) = of_int k * 2 powi e"
proof -
  have pos: "f64_round (of_int k * 2 powi e) = of_int k * 2 powi e" if k: "0 < k" "k \<le> 2 ^ 53" for k
  proof -
    let ?q = "of_int k * (2::rat) powi e"
    have q: "0 < ?q" using k by simp
    have kr: "of_int k \<le> (of_int (2 ^ 53) :: rat)" using k(2) by (simp only: of_int_le_iff)
    then have "?q \<le> of_int (2 ^ 53) * 2 powi e" by (intro mult_right_mono) simp_all
    also have "\<dots> = 2 powi (e + 53)" by (simp add: power_int_add)
    finally have "(2::rat) powi (f64_exp ?q) \<le> 2 powi (e + 53)"
      using f64_exp_bounds [of ?q] q by linarith
    then have "f64_exp ?q - 53 \<le> e" by (simp add: f64_powi_le_iff)
    show ?thesis
    proof (cases "f64_exp ?q - 52 \<le> e")
      case True
      define d where "d = nat (e - (f64_exp ?q - 52))"
      have "(2::rat) powi e = of_int (2 ^ d) * 2 powi (f64_exp ?q - 52)"
      proof -
        have "(2::rat) powi e = 2 powi (int d + (f64_exp ?q - 52))" using True by (simp add: d_def)
        also have "\<dots> = 2 powi (int d) * 2 powi (f64_exp ?q - 52)" by (intro power_int_add) simp
        finally show ?thesis by simp
      qed
      then have "?q = of_int k * (of_int (2 ^ d) * 2 powi (f64_exp ?q - 52))" by (rule arg_cong)
      then have eq: "?q = of_int (k * 2 ^ d) * 2 powi (f64_exp ?q - 52)"
        unfolding of_int_mult mult.assoc .
      then show ?thesis by (rule f64_round_fix)
    next
      case False
      with \<open>f64_exp ?q - 53 \<le> e\<close> have e: "f64_exp ?q = e + 53" by simp
      have "k = 2 ^ 53"
        using f64_exp_bounds [of ?q] q k e by (simp add: power_int_add)
      then have "?q = of_int (2 ^ 52) * 2 powi (e + 1)" by (simp add: power_int_add)
      then have "?q = of_int (2 ^ 52) * 2 powi (f64_exp ?q - 52)" unfolding e by (simp add: add.commute)
      then show ?thesis by (rule f64_round_fix)
    qed
  qed
  consider "k = 0" | "0 < k" | "0 < - k" by linarith
  then show ?thesis
  proof cases
    case 3
    then show ?thesis using pos [of "- k"] assms f64_round_minus [of "of_int k * 2 powi e"] by simp
  qed (use pos [of k] assms in \<open>simp_all add: f64_round_def\<close>)
qed

interpretation f64: rounding f64_round
proof
  fix x y :: rat assume "x \<le> y"
  then show "f64_round x \<le> f64_round y" by (rule f64_round_mono)
next
  fix x :: rat
  show "f64_round (f64_round x) = f64_round x"
  proof (cases "x = 0")
    case False
    have r: "f64_round x = of_int (f64_rhe (x / 2 powi (f64_exp x - 52))) * 2 powi (f64_exp x - 52)"
      using False by (simp add: f64_round_def Let_def)
    have u: "0 < (2::rat) powi (f64_exp x - 52)" by simp
    have "\<bar>x\<bar> < of_int (2 ^ 53) * 2 powi (f64_exp x - 52)"
      using f64_exp_bounds [OF False] power_int_add [of "2::rat" 53 "f64_exp x - 52"]
      by (simp add: add.commute)
    then have "\<bar>x / 2 powi (f64_exp x - 52)\<bar> < of_int (2 ^ 53)"
      using u by (simp add: abs_divide pos_divide_less_eq)
    then have "- of_int (2 ^ 53) \<le> x / 2 powi (f64_exp x - 52)" "x / 2 powi (f64_exp x - 52) \<le> of_int (2 ^ 53)"
      by (simp_all only: abs_less_iff) linarith+
    then have "f64_rhe (of_int (- (2 ^ 53))) \<le> f64_rhe (x / 2 powi (f64_exp x - 52))"
      "f64_rhe (x / 2 powi (f64_exp x - 52)) \<le> f64_rhe (of_int (2 ^ 53))"
      by (intro f64_rhe_mono; simp)+
    then have "\<bar>f64_rhe (x / 2 powi (f64_exp x - 52))\<bar> \<le> 2 ^ 53"
      unfolding f64_rhe_of_int by linarith
    from f64_round_exact [OF this] show ?thesis unfolding r .
  qed (simp add: f64_round_def)
next
  fix n :: int assume "\<bar>n\<bar> < 2 ^ 53"
  then show "f64_round (of_int n) = of_int n" using f64_round_exact [of n 0] by simp
qed

lemma f64_round_numeral [simp]:
  "f64_round 0 = 0" "f64_round 1 = 1"
  "(numeral k :: int) < 2 ^ 53 \<Longrightarrow> f64_round (numeral k) = numeral k"
  using f64.rnd_int [of 1] f64.rnd_int [of "numeral k"] f64.rnd_0 by simp_all

lemma f64_round_dyadic: "\<bar>k\<bar> \<le> 2 ^ 53 \<Longrightarrow> f64_round (of_int k / 2 ^ n) = of_int k / 2 ^ n"
  using f64_round_exact [of k "- int n"] by (simp add: power_int_minus divide_inverse)

lemma f64_of_int_exact: "\<bar>n\<bar> < 2 ^ 53 \<Longrightarrow> f64_of_int n = of_int n"
  by (simp add: f64_of_int_def f64.rnd_int)

lemma f64_of_int_rep: "f64_round (f64_of_int n) = f64_of_int n"
  by (simp add: f64_of_int_def f64.rnd_idem)

lemma f64_of_int_nonneg: "0 \<le> n \<Longrightarrow> 0 \<le> f64_of_int n"
  by (simp add: f64_of_int_def f64.rnd_nonneg)

lemma f64_of_int_mono: "m \<le> n \<Longrightarrow> f64_of_int m \<le> f64_of_int n"
  by (simp add: f64_of_int_def f64.rnd_mono)

lemma f64_mul_nonneg: "0 \<le> x \<Longrightarrow> 0 \<le> y \<Longrightarrow> 0 \<le> f64_mul x y"
  by (simp add: f64_mul_def f64.rnd_nonneg)

lemma f64_div_nonneg: "0 \<le> x \<Longrightarrow> 0 \<le> y \<Longrightarrow> 0 \<le> f64_div x y"
  by (simp add: f64_div_def f64.rnd_nonneg)

lemma f64_Seconds_nonneg: "0 \<le> d \<Longrightarrow> 0 \<le> f64_Seconds d"
  by (simp add: f64_Seconds_def f64_add_def f64.rnd_nonneg f64_of_int_nonneg f64_div_nonneg
      pos_imp_zdiv_nonneg_iff)

lemma f64_trunc_of_int [simp]: "f64_trunc (of_int n) = n"
  by (simp add: f64_trunc_def)

lemma f64_trunc_mono: "x \<le> y \<Longrightarrow> f64_trunc x \<le> f64_trunc y"
  by (auto simp: f64_trunc_def floor_mono ceiling_mono)
    (metis ceiling_le_zero dual_order.trans linorder_not_le nle_le zero_le_floor)

subsection \<open>Error bounds\<close>

text \<open>The relative error of one rounding is at most \<open>2 ^ -53\<close>.\<close>

definition f64_u :: rat where "f64_u = 1 / 2 ^ 53"

lemma f64_u_pos: "0 < f64_u"
  by (simp add: f64_u_def)

lemma f64_rhe_error: "\<bar>of_int (f64_rhe m) - m\<bar> \<le> 1 / 2"
proof -
  have "of_int \<lfloor>m\<rfloor> \<le> m" "m < of_int \<lfloor>m\<rfloor> + 1" by linarith+
  then show ?thesis by (simp add: f64_rhe_def Let_def)
qed

lemma f64_round_error: "\<bar>f64_round q - q\<bar> \<le> \<bar>q\<bar> * f64_u"
proof (cases "q = 0")
  case False
  define v where "v = (2::rat) powi (f64_exp q - 52)"
  have v: "0 < v" by (simp add: v_def)
  have "f64_round q - q = (of_int (f64_rhe (q / v)) - q / v) * v"
    using False v by (simp add: f64_round_def Let_def v_def [symmetric] left_diff_distrib)
  then have "\<bar>f64_round q - q\<bar> = \<bar>of_int (f64_rhe (q / v)) - q / v\<bar> * v"
    using v by (simp add: abs_mult)
  also have "\<dots> \<le> 1 / 2 * v" using f64_rhe_error v by (intro mult_right_mono) simp_all
  also have "\<dots> = 2 powi (f64_exp q) * f64_u"
    unfolding v_def f64_u_def by (simp add: power_int_diff)
  also have "\<dots> \<le> \<bar>q\<bar> * f64_u"
    using f64_exp_bounds [OF False] f64_u_pos by (intro mult_right_mono) simp_all
  finally show ?thesis .
qed (simp add: f64_round_def)

lemma f64_round_upper:
  assumes "0 \<le> q"
  shows "f64_round q \<le> q * (1 + f64_u)"
  using f64_round_error [of q] assms by (simp add: distrib_left)

lemma f64_round_le_scaled:
  assumes "q \<le> b" and "0 \<le> q"
  shows "f64_round q \<le> b * (1 + f64_u)"
  by (rule order_trans [OF f64_round_upper [OF assms(2)] mult_right_mono [OF assms(1)]]) (use f64_u_pos in simp)

lemma f64_Seconds_upper:
  assumes "0 \<le> d"
  shows "f64_Seconds d \<le> of_int d / 10 ^ 9 * (1 + f64_u) ^ 3"
proof -
  let ?s = "d div 10 ^ 9" and ?r = "d mod 10 ^ 9" and ?u = "1 + f64_u"
  have u: "1 \<le> ?u" using f64_u_pos by simp
  have s: "0 \<le> ?s" and r: "0 \<le> ?r" using assms by (simp_all add: pos_imp_zdiv_nonneg_iff)
  have "f64_of_int ?s \<le> of_int ?s * ?u" using f64_round_upper [of "of_int ?s"] s by (simp add: f64_of_int_def)
  also have "\<dots> \<le> of_int ?s * ?u ^ 2"
    using u s self_le_power [of ?u 2] by (intro mult_left_mono) simp_all
  finally have A: "f64_of_int ?s \<le> of_int ?s * ?u ^ 2" .
  have r1: "f64_of_int ?r \<le> of_int ?r * ?u" using f64_round_upper [of "of_int ?r"] r by (simp add: f64_of_int_def)
  have "f64_div (f64_of_int ?r) (10 ^ 9) \<le> of_int ?r * ?u / 10 ^ 9 * ?u"
    unfolding f64_div_def
    by (rule f64_round_le_scaled) (use r1 f64_of_int_nonneg [OF r] in \<open>simp_all add: divide_right_mono\<close>)
  then have B: "f64_div (f64_of_int ?r) (10 ^ 9) \<le> of_int ?r / 10 ^ 9 * ?u ^ 2"
    by (simp add: power2_eq_square)
  have d: "(of_int d :: rat) / 10 ^ 9 = of_int ?s + of_int ?r / 10 ^ 9"
  proof -
    have "d = ?s * 10 ^ 9 + ?r" by simp
    then have "(of_int d :: rat) = of_int (?s * 10 ^ 9 + ?r)" by simp
    then show ?thesis by (simp only: of_int_add of_int_mult) simp
  qed
  have "f64_Seconds d \<le> (of_int d / 10 ^ 9 * ?u ^ 2) * ?u"
    unfolding f64_Seconds_def f64_add_def
  proof (rule f64_round_le_scaled)
    show "f64_of_int ?s + f64_div (f64_of_int ?r) (10 ^ 9) \<le> of_int d / 10 ^ 9 * ?u ^ 2"
      unfolding d distrib_right using A B by linarith
    show "0 \<le> f64_of_int ?s + f64_div (f64_of_int ?r) (10 ^ 9)"
      using f64_of_int_nonneg [OF s] f64_of_int_nonneg [OF r] by (simp add: f64_div_nonneg)
  qed
  then show ?thesis by (simp add: power3_eq_cube power2_eq_square mult.assoc)
qed

text \<open>Taking an integer from a number below \<open>2 ^ 53\<close> that is at least as large is exact.\<close>

lemma f64_sub_int_exact:
  assumes "f64_round x = x" and "0 \<le> n" and "of_int n \<le> x" and "x < 2 ^ 53"
  shows "f64_round (x - of_int n) = x - of_int n"
proof (cases "x = 0")
  case True
  then show ?thesis using assms by (simp add: f64_round_def)
next
  case False
  have "(0::rat) \<le> of_int n" using assms(2) by simp
  with assms(3) False have x: "0 < x" by linarith
  let ?e = "f64_exp x - 52"
  define k where "k = f64_rhe (x / 2 powi ?e)"
  have xk: "x = of_int k * 2 powi ?e"
    using assms(1) False by (simp add: f64_round_def Let_def k_def)
  have b: "2 powi (f64_exp x) \<le> x" "x < 2 powi (f64_exp x + 1)" using f64_exp_bounds [of x] x by auto
  have "(2::rat) powi (f64_exp x) < 2 powi 53" using b assms(4) by simp
  then have e: "?e \<le> 0" by (simp only: f64_powi_less_iff)
  define d where "d = nat (- ?e)"
  have pe: "(2::rat) powi ?e = inverse (2 ^ d)"
  proof -
    have "?e = - int d" using e by (simp add: d_def)
    then show ?thesis by (simp only: power_int_minus power_int_of_nat)
  qed
  have eq: "x - of_int n = of_int (k - n * 2 ^ d) * 2 powi ?e"
    using pe by (subst xk) (simp add: field_simps)
  have p: "0 < (2::rat) powi ?e" by simp
  have "x - of_int n \<le> x" using assms(2) by simp
  also have "x \<le> of_int (2 ^ 53) * 2 powi ?e"
    using b(2) power_int_add [of "2::rat" 53 ?e] by (simp add: add.commute)
  finally have "(of_int (k - n * 2 ^ d) :: rat) \<le> of_int (2 ^ 53)"
    unfolding eq using p by (simp only: mult_le_cancel_right_pos)
  then have hi: "k - n * 2 ^ d \<le> 2 ^ 53" by (simp only: of_int_le_iff)
  have "0 \<le> of_int (k - n * 2 ^ d) * (2::rat) powi ?e" using assms(3) eq by simp
  then have "(0::rat) \<le> of_int (k - n * 2 ^ d)" using p by (simp only: zero_le_mult_iff) linarith
  then have "0 \<le> k - n * 2 ^ d" by (simp only: of_int_0_le_iff)
  with hi show ?thesis unfolding eq by (intro f64_round_exact) simp
qed

end
