(* ===== verification/Lrux_Cache.thy ===== *)
theory Lrux_Cache
  imports Lrux_List F64
begin

text \<open>
  Package \<open>lrux\<close>, the operations of \<open>Cache\<close>. Each one runs under the cache's mutex, so it is one
  step on the state; the eviction callbacks fire after it, in the order collected. Clock readings
  are arguments: \<open>t\<close> for the expiry test and \<open>t'\<close> for a second reading in the same operation; a loop
  over the nodes reads the clock once per node: \<open>now k\<close> is the time it reaches the node of key \<open>k\<close>.
\<close>

subsection \<open>Configuration\<close>

record ('k, 'v) lrux_config =
  lo_capacity :: int
  lo_ttl :: int
  lo_onEvict :: "('k, 'v) lrux_OnEvictFunc option"
  lo_cleanupInterval :: int

definition lrux_defaultCapacity :: int where "lrux_defaultCapacity = 0"
definition lrux_defaultTTL :: int where "lrux_defaultTTL = 0"
definition lrux_defaultCleanupInterval :: int where "lrux_defaultCleanupInterval = 0"

text \<open>\<open>newConfig\<close> here calls every option; a nil one would panic and is not part of the model.\<close>

definition lrux_newConfig ::
  "(('k, 'v) lrux_config \<Rightarrow> ('k, 'v) lrux_config) list \<Rightarrow> ('k, 'v) lrux_config" where
  "lrux_newConfig opts =
     fold (\<lambda>opt cfg. opt cfg) opts
       \<lparr>lo_capacity = lrux_defaultCapacity, lo_ttl = lrux_defaultTTL, lo_onEvict = None,
        lo_cleanupInterval = lrux_defaultCleanupInterval\<rparr>"

definition lrux_WithCapacity :: "int \<Rightarrow> ('k, 'v) lrux_config \<Rightarrow> ('k, 'v) lrux_config" where
  "lrux_WithCapacity n c = c\<lparr>lo_capacity := (if n < 0 then 0 else n)\<rparr>"

definition lrux_WithTTL :: "int \<Rightarrow> ('k, 'v) lrux_config \<Rightarrow> ('k, 'v) lrux_config" where
  "lrux_WithTTL d c = c\<lparr>lo_ttl := (if d < 0 then 0 else d)\<rparr>"

definition lrux_WithOnEvict ::
  "('k, 'v) lrux_OnEvictFunc option \<Rightarrow> ('k, 'v) lrux_config \<Rightarrow> ('k, 'v) lrux_config" where
  "lrux_WithOnEvict fn c = c\<lparr>lo_onEvict := fn\<rparr>"

definition lrux_WithCleanupInterval :: "int \<Rightarrow> ('k, 'v) lrux_config \<Rightarrow> ('k, 'v) lrux_config" where
  "lrux_WithCleanupInterval d c = (if 0 < d then c\<lparr>lo_cleanupInterval := d\<rparr> else c)"

definition lrux_startCleanup :: "('k, 'v) lrux_Cache \<Rightarrow> ('k, 'v) lrux_Cache" where
  "lrux_startCleanup c = c\<lparr>lc_cleanup := Some False\<rparr>"

definition lrux_New ::
  "(('k, 'v) lrux_config \<Rightarrow> ('k, 'v) lrux_config) list \<Rightarrow> ('k, 'v) lrux_Cache" where
  "lrux_New opts =
     (let cfg = lrux_newConfig opts;
          c = \<lparr>lc_heap = Map.empty, lc_brk = 0, lc_items = Map.empty, lc_head = None, lc_tail = None,
               lc_size = 0, lc_capacity = lo_capacity cfg, lc_ttl = lo_ttl cfg,
               lc_onEvict = lo_onEvict cfg, lc_hits = 0, lc_misses = 0, lc_evictions = 0,
               lc_cleanup = None, lc_closed = False, lc_fired = []\<rparr>
      in if 0 < lo_cleanupInterval cfg then lrux_startCleanup c else c)"

subsection \<open>Expiry\<close>

definition lrux_isExpired :: "int \<Rightarrow> ('k, 'v) lrux_node \<Rightarrow> bool" where
  "lrux_isExpired now n = (case nd_expiresAt n of None \<Rightarrow> False | Some e \<Rightarrow> e < now)"

definition lrux_expireTime :: "int \<Rightarrow> int \<Rightarrow> ('k, 'v) lrux_Cache \<Rightarrow> int option" where
  "lrux_expireTime now ttl c =
     (if 0 < ttl then Some (now + ttl) else if 0 < lc_ttl c then Some (now + lc_ttl c) else None)"

definition lrux_slideExpiration :: "nat \<Rightarrow> int \<Rightarrow> ('k, 'v) lrux_Cache \<Rightarrow> ('k, 'v) lrux_Cache" where
  "lrux_slideExpiration p now c =
     (case nd_expiresAt (lrux_at c p) of
        Some e \<Rightarrow>
          (let remaining = e - nd_accessedAt (lrux_at c p)
           in if 0 < remaining then lrux_upd p (\<lambda>n. n\<lparr>nd_expiresAt := Some (now + remaining)\<rparr>) c else c)
      | None \<Rightarrow>
          if 0 < lc_ttl c then lrux_upd p (\<lambda>n. n\<lparr>nd_expiresAt := Some (now + lc_ttl c)\<rparr>) c else c)"

subsection \<open>Callbacks and removal\<close>

definition lrux_opOnEvict :: string where "lrux_opOnEvict = ''lrux.onEvict''"

definition lrux_safeOnEvict ::
  "'k \<Rightarrow> 'v \<Rightarrow> lrux_EvictionReason \<Rightarrow> ('k, 'v) lrux_Cache \<Rightarrow> ('k, 'v) lrux_Cache" where
  "lrux_safeOnEvict k v r c =
     (case lc_onEvict c of
        None \<Rightarrow> c
      | Some f \<Rightarrow>
          (case panix_SafeVoid lrux_opOnEvict (Some (f k v r)) of
             _ \<Rightarrow> c\<lparr>lc_fired := lc_fired c @ [(k, v, r)]\<rparr>))"

definition lrux_fireCallback ::
  "('k, 'v) lrux_evictEvent option \<Rightarrow> ('k, 'v) lrux_Cache \<Rightarrow> ('k, 'v) lrux_Cache" where
  "lrux_fireCallback ev c =
     (case ev of
        None \<Rightarrow> c
      | Some (k, v, r) \<Rightarrow> if lc_onEvict c = None then c else lrux_safeOnEvict k v r c)"

definition lrux_fireCallbacks ::
  "('k, 'v) lrux_evictEvent list \<Rightarrow> ('k, 'v) lrux_Cache \<Rightarrow> ('k, 'v) lrux_Cache" where
  "lrux_fireCallbacks events c =
     (if events = [] \<or> lc_onEvict c = None then c
      else fold (\<lambda>(k, v, r). lrux_safeOnEvict k v r) events c)"

definition lrux_removeNodeLocked ::
  "nat \<Rightarrow> lrux_EvictionReason \<Rightarrow> ('k, 'v) lrux_Cache
     \<Rightarrow> ('k, 'v) lrux_Cache \<times> ('k, 'v) lrux_evictEvent option" where
  "lrux_removeNodeLocked p reason c =
     (let c1 = c\<lparr>lc_items := (lc_items c)(nd_key (lrux_at c p) := None)\<rparr>;
          c2 = lrux_listRemove p c1
      in (c2, if lc_onEvict c2 \<noteq> None
              then Some (nd_key (lrux_at c2 p), nd_value (lrux_at c2 p), reason) else None))"

definition lrux_removeTailLocked ::
  "('k, 'v) lrux_Cache \<Rightarrow> ('k, 'v) lrux_Cache \<times> ('k, 'v) lrux_evictEvent option" where
  "lrux_removeTailLocked c =
     (case lc_tail c of None \<Rightarrow> (c, None) | Some p \<Rightarrow> lrux_removeNodeLocked p EvictionCapacity c)"

definition lrux_evicted :: "('k, 'v) lrux_Cache \<Rightarrow> ('k, 'v) lrux_Cache" where
  "lrux_evicted c = c\<lparr>lc_evictions := lc_evictions c + 1\<rparr>"

definition lrux_event_list :: "'e option \<Rightarrow> 'e list" where
  "lrux_event_list ev = (case ev of None \<Rightarrow> [] | Some e \<Rightarrow> [e])"

subsection \<open>Insertion\<close>

definition lrux_alloc ::
  "('k, 'v) lrux_node \<Rightarrow> ('k, 'v) lrux_Cache \<Rightarrow> nat \<times> ('k, 'v) lrux_Cache" where
  "lrux_alloc n c =
     (lc_brk c, c\<lparr>lc_heap := (lc_heap c)(lc_brk c \<mapsto> n), lc_brk := lc_brk c + 1\<rparr>)"

text \<open>The three blocks of an insertion: overwrite a node, add a node, trim to the capacity.\<close>

definition lrux_overwrite ::
  "nat \<Rightarrow> 'v \<Rightarrow> int \<Rightarrow> int option \<Rightarrow> ('k, 'v) lrux_Cache \<Rightarrow> ('k, 'v) lrux_Cache" where
  "lrux_overwrite p v now xp c =
     (let c1 = lrux_upd p (\<lambda>n. n\<lparr>nd_value := v\<rparr>) c;
          c2 = lrux_upd p (\<lambda>n. n\<lparr>nd_accessedAt := now\<rparr>) c1;
          c3 = lrux_upd p (\<lambda>n. n\<lparr>nd_expiresAt := xp\<rparr>) c2
      in lrux_listMoveToFront p c3)"

definition lrux_replaced_event :: "nat \<Rightarrow> ('k, 'v) lrux_Cache \<Rightarrow> ('k, 'v) lrux_evictEvent list" where
  "lrux_replaced_event p c =
     (if lc_onEvict c \<noteq> None
      then [(nd_key (lrux_at c p), nd_value (lrux_at c p), EvictionReplaced)] else [])"

definition lrux_insert_new ::
  "'k \<Rightarrow> 'v \<Rightarrow> int \<Rightarrow> int option \<Rightarrow> ('k, 'v) lrux_Cache \<Rightarrow> ('k, 'v) lrux_Cache" where
  "lrux_insert_new k v now xp c =
     (case lrux_alloc \<lparr>nd_key = k, nd_value = v, nd_prev = None, nd_next = None, nd_createdAt = now,
                       nd_accessedAt = now, nd_expiresAt = xp\<rparr> c of
        (p, c1) \<Rightarrow> lrux_listPushFront p (c1\<lparr>lc_items := (lc_items c1)(k \<mapsto> p)\<rparr>))"

definition lrux_trim1 ::
  "('k, 'v) lrux_Cache \<Rightarrow> ('k, 'v) lrux_Cache \<times> ('k, 'v) lrux_evictEvent list" where
  "lrux_trim1 c =
     (if 0 < lc_capacity c \<and> lc_capacity c < lc_size c
      then case lrux_removeTailLocked c of (c1, ev) \<Rightarrow> (lrux_evicted c1, lrux_event_list ev)
      else (c, []))"

definition lrux_SetWithTTL ::
  "int \<Rightarrow> 'k \<Rightarrow> 'v \<Rightarrow> int \<Rightarrow> ('k, 'v) lrux_Cache \<Rightarrow> ('k, 'v) lrux_Cache" where
  "lrux_SetWithTTL now k v ttl c =
     (if lc_closed c then c
      else let xp = lrux_expireTime now ttl c
           in case lc_items c k of
                Some p \<Rightarrow> lrux_fireCallbacks (lrux_replaced_event p c) (lrux_overwrite p v now xp c)
              | None \<Rightarrow>
                  (case lrux_trim1 (lrux_insert_new k v now xp c) of
                     (c1, events) \<Rightarrow> lrux_fireCallbacks events c1))"

definition lrux_Set :: "int \<Rightarrow> 'k \<Rightarrow> 'v \<Rightarrow> ('k, 'v) lrux_Cache \<Rightarrow> ('k, 'v) lrux_Cache" where
  "lrux_Set now k v c = lrux_SetWithTTL now k v 0 c"

subsection \<open>Lookup\<close>

text \<open>A promoted hit: the access time is set and the node moves to the front.\<close>

definition lrux_promote :: "nat \<Rightarrow> int \<Rightarrow> ('k, 'v) lrux_Cache \<Rightarrow> ('k, 'v) lrux_Cache" where
  "lrux_promote p now c = lrux_listMoveToFront p (lrux_upd p (\<lambda>n. n\<lparr>nd_accessedAt := now\<rparr>) c)"

text \<open>An expired node found by a lookup: removed, counted as an eviction, its callback fired.\<close>

definition lrux_drop_expired :: "nat \<Rightarrow> ('k, 'v) lrux_Cache \<Rightarrow> ('k, 'v) lrux_Cache" where
  "lrux_drop_expired p c =
     (case lrux_removeNodeLocked p EvictionExpired c of
        (c1, ev) \<Rightarrow> lrux_fireCallback ev (lrux_evicted c1))"

definition lrux_hit :: "('k, 'v) lrux_Cache \<Rightarrow> ('k, 'v) lrux_Cache" where
  "lrux_hit c = c\<lparr>lc_hits := lc_hits c + 1\<rparr>"

definition lrux_miss :: "('k, 'v) lrux_Cache \<Rightarrow> ('k, 'v) lrux_Cache" where
  "lrux_miss c = c\<lparr>lc_misses := lc_misses c + 1\<rparr>"

definition lrux_Get :: "int \<Rightarrow> int \<Rightarrow> 'k \<Rightarrow> ('k, 'v) lrux_Cache \<Rightarrow> ('k, 'v) lrux_Cache \<times> 'v option" where
  "lrux_Get t t' k c =
     (if lc_closed c then (c, None)
      else case lc_items c k of
             None \<Rightarrow> (lrux_miss c, None)
           | Some p \<Rightarrow>
               if lrux_isExpired t (lrux_at c p) then (lrux_miss (lrux_drop_expired p c), None)
               else (lrux_hit (lrux_promote p t' c), Some (nd_value (lrux_at (lrux_promote p t' c) p))))"

definition lrux_peekPromote ::
  "int \<Rightarrow> int \<Rightarrow> 'k \<Rightarrow> ('k, 'v) lrux_Cache \<Rightarrow> ('k, 'v) lrux_Cache \<times> 'v option" where
  "lrux_peekPromote t t' k c =
     (case lc_items c k of
        None \<Rightarrow> (c, None)
      | Some p \<Rightarrow>
          if lrux_isExpired t (lrux_at c p) then (lrux_drop_expired p c, None)
          else (lrux_promote p t' c, Some (nd_value (lrux_at (lrux_promote p t' c) p))))"

definition lrux_GetFast :: "int \<Rightarrow> 'k \<Rightarrow> ('k, 'v) lrux_Cache \<Rightarrow> ('k, 'v) lrux_Cache \<times> 'v option" where
  "lrux_GetFast t k c =
     (if lc_closed c then (c, None)
      else case lc_items c k of
             None \<Rightarrow> (lrux_miss c, None)
           | Some p \<Rightarrow>
               if lrux_isExpired t (lrux_at c p) then (lrux_miss c, None)
               else (lrux_hit c, Some (nd_value (lrux_at c p))))"

definition lrux_Peek :: "int \<Rightarrow> 'k \<Rightarrow> ('k, 'v) lrux_Cache \<Rightarrow> 'v option" where
  "lrux_Peek t k c =
     (if lc_closed c then None
      else case lc_items c k of
             None \<Rightarrow> None
           | Some p \<Rightarrow> if lrux_isExpired t (lrux_at c p) then None else Some (nd_value (lrux_at c p)))"

definition lrux_Has :: "int \<Rightarrow> 'k \<Rightarrow> ('k, 'v) lrux_Cache \<Rightarrow> bool" where
  "lrux_Has t k c =
     (if lc_closed c then False
      else case lc_items c k of None \<Rightarrow> False | Some p \<Rightarrow> \<not> lrux_isExpired t (lrux_at c p))"

definition lrux_GetEntry :: "int \<Rightarrow> 'k \<Rightarrow> ('k, 'v) lrux_Cache \<Rightarrow> ('k, 'v) lrux_Entry option" where
  "lrux_GetEntry t k c =
     (if lc_closed c then None
      else case lc_items c k of
             None \<Rightarrow> None
           | Some p \<Rightarrow> if lrux_isExpired t (lrux_at c p) then None else Some (lrux_entry_of (lrux_at c p)))"

definition lrux_TTL :: "int \<Rightarrow> 'k \<Rightarrow> ('k, 'v) lrux_Cache \<Rightarrow> int" where
  "lrux_TTL t k c =
     (if lc_closed c then 0
      else case lc_items c k of
             None \<Rightarrow> 0
           | Some p \<Rightarrow>
               (case nd_expiresAt (lrux_at c p) of
                  None \<Rightarrow> - 1
                | Some e \<Rightarrow> let rem = e - t in if rem \<le> 0 then 0 else rem))"

subsection \<open>Touch, deletion, capacity\<close>

definition lrux_Touch :: "int \<Rightarrow> int \<Rightarrow> 'k \<Rightarrow> ('k, 'v) lrux_Cache \<Rightarrow> ('k, 'v) lrux_Cache \<times> bool" where
  "lrux_Touch t now k c =
     (if lc_closed c then (c, False)
      else case lc_items c k of
             None \<Rightarrow> (c, False)
           | Some p \<Rightarrow>
               if lrux_isExpired t (lrux_at c p) then (lrux_drop_expired p c, False)
               else (lrux_promote p now (lrux_slideExpiration p now c), True))"

definition lrux_Delete :: "'k \<Rightarrow> ('k, 'v) lrux_Cache \<Rightarrow> ('k, 'v) lrux_Cache \<times> bool" where
  "lrux_Delete k c =
     (if lc_closed c then (c, False)
      else case lc_items c k of
             None \<Rightarrow> (c, False)
           | Some p \<Rightarrow>
               (case lrux_removeNodeLocked p EvictionDeleted c of
                  (c1, ev) \<Rightarrow> (lrux_fireCallback ev c1, True)))"

text \<open>
  \<open>DeleteMulti\<close>: the loop over the keys collects the events and counts; they fire at the end.
\<close>

fun lrux_DeleteMulti_loop ::
  "'k list \<Rightarrow> ('k, 'v) lrux_Cache \<Rightarrow> ('k, 'v) lrux_evictEvent list \<Rightarrow> nat
     \<Rightarrow> ('k, 'v) lrux_Cache \<times> ('k, 'v) lrux_evictEvent list \<times> nat" where
  "lrux_DeleteMulti_loop [] c events count = (c, events, count)"
| "lrux_DeleteMulti_loop (k # ks) c events count =
     (case lc_items c k of
        None \<Rightarrow> lrux_DeleteMulti_loop ks c events count
      | Some p \<Rightarrow>
          (case lrux_removeNodeLocked p EvictionDeleted c of
             (c1, ev) \<Rightarrow> lrux_DeleteMulti_loop ks c1 (events @ lrux_event_list ev) (count + 1)))"

definition lrux_DeleteMulti :: "'k list \<Rightarrow> ('k, 'v) lrux_Cache \<Rightarrow> ('k, 'v) lrux_Cache \<times> nat" where
  "lrux_DeleteMulti ks c =
     (if lc_closed c \<or> ks = [] then (c, 0)
      else case lrux_DeleteMulti_loop ks c [] 0 of
             (c1, events, count) \<Rightarrow> (lrux_fireCallbacks events c1, count))"

text \<open>
  The trimming loops of \<open>Resize\<close> and \<open>SetMulti\<close>. They differ: \<open>Resize\<close> leaves the loop when there
  was no event and no tail is left.
\<close>

partial_function (option) lrux_Resize_loop ::
  "('k, 'v) lrux_Cache \<Rightarrow> ('k, 'v) lrux_evictEvent list
     \<Rightarrow> (('k, 'v) lrux_Cache \<times> ('k, 'v) lrux_evictEvent list) option" where
  "lrux_Resize_loop c events =
     (if lc_capacity c < lc_size c
      then (case lrux_removeTailLocked c of
              (c1, ev) \<Rightarrow>
                if ev = None \<and> lc_tail c1 = None then Some (c1, events)
                else lrux_Resize_loop (lrux_evicted c1) (events @ lrux_event_list ev))
      else Some (c, events))"

definition lrux_Resize :: "int \<Rightarrow> ('k, 'v) lrux_Cache \<Rightarrow> ('k, 'v) lrux_Cache option" where
  "lrux_Resize n c =
     (if lc_closed c then Some c
      else let capacity = (if n < 0 then 0 else n);
               c1 = c\<lparr>lc_capacity := capacity\<rparr>
           in case (if 0 < capacity then lrux_Resize_loop c1 [] else Some (c1, [])) of
                None \<Rightarrow> None
              | Some (c2, events) \<Rightarrow> Some (lrux_fireCallbacks events c2))"

partial_function (option) lrux_SetMulti_trim ::
  "('k, 'v) lrux_Cache \<Rightarrow> ('k, 'v) lrux_evictEvent list
     \<Rightarrow> (('k, 'v) lrux_Cache \<times> ('k, 'v) lrux_evictEvent list) option" where
  "lrux_SetMulti_trim c events =
     (if lc_capacity c < lc_size c
      then (case lrux_removeTailLocked c of
              (c1, ev) \<Rightarrow> lrux_SetMulti_trim (lrux_evicted c1) (events @ lrux_event_list ev))
      else Some (c, events))"

text \<open>The map argument of \<open>SetMulti\<close> is a list in the order the iteration visits it.\<close>

fun lrux_SetMulti_loop ::
  "int \<Rightarrow> int option \<Rightarrow> ('k \<times> 'v) list \<Rightarrow> ('k, 'v) lrux_Cache \<Rightarrow> ('k, 'v) lrux_evictEvent list
     \<Rightarrow> ('k, 'v) lrux_Cache \<times> ('k, 'v) lrux_evictEvent list" where
  "lrux_SetMulti_loop now xp [] c events = (c, events)"
| "lrux_SetMulti_loop now xp ((k, v) # kvs) c events =
     (case lc_items c k of
        Some p \<Rightarrow>
          lrux_SetMulti_loop now xp kvs (lrux_overwrite p v now xp c) (events @ lrux_replaced_event p c)
      | None \<Rightarrow> lrux_SetMulti_loop now xp kvs (lrux_insert_new k v now xp c) events)"

definition lrux_SetMulti ::
  "int \<Rightarrow> ('k \<times> 'v) list \<Rightarrow> ('k, 'v) lrux_Cache \<Rightarrow> ('k, 'v) lrux_Cache option" where
  "lrux_SetMulti now items c =
     (if lc_closed c \<or> items = [] then Some c
      else case lrux_SetMulti_loop now (lrux_expireTime now 0 c) items c [] of
             (c1, events) \<Rightarrow>
               (case (if 0 < lc_capacity c1 then lrux_SetMulti_trim c1 events else Some (c1, events)) of
                  None \<Rightarrow> None
                | Some (c2, events2) \<Rightarrow> Some (lrux_fireCallbacks events2 c2)))"

text \<open>\<open>GetMulti\<close> calls \<open>Get\<close> per key; each call has its two clock readings.\<close>

fun lrux_GetMulti ::
  "('k \<times> int \<times> int) list \<Rightarrow> ('k, 'v) lrux_Cache \<Rightarrow> ('k \<Rightarrow> 'v option)
     \<Rightarrow> ('k, 'v) lrux_Cache \<times> ('k \<Rightarrow> 'v option)" where
  "lrux_GetMulti [] c result = (c, result)"
| "lrux_GetMulti ((k, t, t') # ks) c result =
     (case lrux_Get t t' k c of
        (c1, Some v) \<Rightarrow> lrux_GetMulti ks c1 (result(k \<mapsto> v))
      | (c1, None) \<Rightarrow> lrux_GetMulti ks c1 result)"

subsection \<open>Scans\<close>

definition lrux_Len :: "('k, 'v) lrux_Cache \<Rightarrow> int" where
  "lrux_Len c = (if lc_closed c then 0 else lc_size c)"

partial_function (option) lrux_LenValid_loop ::
  "('k \<Rightarrow> int) \<Rightarrow> ('k, 'v) lrux_Cache \<Rightarrow> nat option \<Rightarrow> nat \<Rightarrow> nat option" where
  "lrux_LenValid_loop now c n count =
     (case n of
        None \<Rightarrow> Some count
      | Some p \<Rightarrow>
          lrux_LenValid_loop now c (nd_next (lrux_at c p))
            (if lrux_isExpired (now (nd_key (lrux_at c p))) (lrux_at c p) then count else count + 1))"

definition lrux_LenValid :: "('k \<Rightarrow> int) \<Rightarrow> ('k, 'v) lrux_Cache \<Rightarrow> nat option" where
  "lrux_LenValid now c = (if lc_closed c then Some 0 else lrux_LenValid_loop now c (lc_head c) 0)"

text \<open>
  \<open>Keys\<close>, \<open>Values\<close>, \<open>Snapshot\<close>, \<open>Range\<close> and \<open>ExpireOld\<close> are the same loop: save the next pointer,
  remove an expired node and count the eviction, hand a live one to a visitor. The visitor returns
  its accumulator and whether to go on; \<open>ExpireOld\<close> counts in \<open>onExp\<close>.
\<close>

partial_function (option) lrux_sweep ::
  "('k \<Rightarrow> int) \<Rightarrow> ('a \<Rightarrow> 'a) \<Rightarrow> (('k, 'v) lrux_node \<Rightarrow> 'a \<Rightarrow> 'a \<times> bool) \<Rightarrow> ('k, 'v) lrux_Cache
     \<Rightarrow> nat option \<Rightarrow> ('k, 'v) lrux_evictEvent list \<Rightarrow> 'a
     \<Rightarrow> (('k, 'v) lrux_Cache \<times> ('k, 'v) lrux_evictEvent list \<times> 'a) option" where
  "lrux_sweep now onExp visit c n events acc =
     (case n of
        None \<Rightarrow> Some (c, events, acc)
      | Some p \<Rightarrow>
          (let next = nd_next (lrux_at c p)
           in if lrux_isExpired (now (nd_key (lrux_at c p))) (lrux_at c p)
              then (case lrux_removeNodeLocked p EvictionExpired c of
                      (c1, ev) \<Rightarrow> lrux_sweep now onExp visit (lrux_evicted c1) next
                                  (events @ lrux_event_list ev) (onExp acc))
              else (case visit (lrux_at c p) acc of
                      (acc1, go) \<Rightarrow>
                        if go then lrux_sweep now onExp visit c next events acc1
                        else Some (c, events, acc1))))"

definition lrux_scan ::
  "('k \<Rightarrow> int) \<Rightarrow> ('a \<Rightarrow> 'a) \<Rightarrow> (('k, 'v) lrux_node \<Rightarrow> 'a \<Rightarrow> 'a \<times> bool) \<Rightarrow> 'a \<Rightarrow> ('k, 'v) lrux_Cache
     \<Rightarrow> (('k, 'v) lrux_Cache \<times> 'a) option" where
  "lrux_scan now onExp visit acc c =
     (if lc_closed c then Some (c, acc)
      else case lrux_sweep now onExp visit c (lc_head c) [] acc of
             None \<Rightarrow> None
           | Some (c1, events, acc1) \<Rightarrow> Some (lrux_fireCallbacks events c1, acc1))"

definition lrux_Keys :: "('k \<Rightarrow> int) \<Rightarrow> ('k, 'v) lrux_Cache \<Rightarrow> (('k, 'v) lrux_Cache \<times> 'k list) option" where
  "lrux_Keys now c = lrux_scan now (\<lambda>a. a) (\<lambda>n ks. (ks @ [nd_key n], True)) [] c"

definition lrux_Values :: "('k \<Rightarrow> int) \<Rightarrow> ('k, 'v) lrux_Cache \<Rightarrow> (('k, 'v) lrux_Cache \<times> 'v list) option" where
  "lrux_Values now c = lrux_scan now (\<lambda>a. a) (\<lambda>n vs. (vs @ [nd_value n], True)) [] c"

definition lrux_Snapshot ::
  "('k \<Rightarrow> int) \<Rightarrow> ('k, 'v) lrux_Cache \<Rightarrow> (('k, 'v) lrux_Cache \<times> ('k, 'v) lrux_Entry list) option" where
  "lrux_Snapshot now c = lrux_scan now (\<lambda>a. a) (\<lambda>n es. (es @ [lrux_entry_of n], True)) [] c"

text \<open>The function given to \<open>Range\<close> threads a state of its own and must not touch the cache.\<close>

definition lrux_Range ::
  "('k \<Rightarrow> int) \<Rightarrow> ('k \<Rightarrow> 'v \<Rightarrow> 's \<Rightarrow> 's \<times> bool) \<Rightarrow> 's \<Rightarrow> ('k, 'v) lrux_Cache
     \<Rightarrow> (('k, 'v) lrux_Cache \<times> 's) option" where
  "lrux_Range now fn s c = lrux_scan now (\<lambda>a. a) (\<lambda>n s. fn (nd_key n) (nd_value n) s) s c"

definition lrux_ExpireOld :: "('k \<Rightarrow> int) \<Rightarrow> ('k, 'v) lrux_Cache \<Rightarrow> (('k, 'v) lrux_Cache \<times> nat) option" where
  "lrux_ExpireOld now c = lrux_scan now (\<lambda>n. n + 1) (\<lambda>n cnt. (cnt, True)) 0 c"

subsection \<open>Statistics and lifecycle\<close>

record lrux_Stats =
  ls_Size :: int
  ls_Capacity :: int
  ls_Hits :: u64
  ls_Misses :: u64
  ls_Evictions :: u64
  ls_HitRate :: f64

definition lrux_hitRate :: "u64 \<Rightarrow> u64 \<Rightarrow> f64" where
  "lrux_hitRate hits misses =
     (let total = hits + misses
      in if 0 < total then f64_div (f64_of_int (uint hits)) (f64_of_int (uint total)) else 0)"

definition lrux_CacheStats :: "('k, 'v) lrux_Cache \<Rightarrow> lrux_Stats" where
  "lrux_CacheStats c =
     \<lparr>ls_Size = lc_size c, ls_Capacity = lc_capacity c, ls_Hits = lc_hits c, ls_Misses = lc_misses c,
      ls_Evictions = lc_evictions c, ls_HitRate = lrux_hitRate (lc_hits c) (lc_misses c)\<rparr>"

definition lrux_ResetStats :: "('k, 'v) lrux_Cache \<Rightarrow> ('k, 'v) lrux_Cache" where
  "lrux_ResetStats c = c\<lparr>lc_hits := 0, lc_misses := 0, lc_evictions := 0\<rparr>"

text \<open>The events of a drained list: a walk that changes nothing.\<close>

partial_function (option) lrux_walk_events ::
  "lrux_EvictionReason \<Rightarrow> ('k, 'v) lrux_Cache \<Rightarrow> nat option \<Rightarrow> ('k, 'v) lrux_evictEvent list
     \<Rightarrow> ('k, 'v) lrux_evictEvent list option" where
  "lrux_walk_events r c n events =
     (case n of
        None \<Rightarrow> Some events
      | Some p \<Rightarrow>
          lrux_walk_events r c (nd_next (lrux_at c p))
            (events @ [(nd_key (lrux_at c p), nd_value (lrux_at c p), r)]))"

definition lrux_drain ::
  "lrux_EvictionReason \<Rightarrow> ('k, 'v) lrux_Cache \<Rightarrow> ('k, 'v) lrux_Cache option" where
  "lrux_drain reason c =
     (case (if lc_onEvict c \<noteq> None then lrux_walk_events reason c (lc_head c) [] else Some []) of
        None \<Rightarrow> None
      | Some events \<Rightarrow>
          Some (lrux_fireCallbacks events
            (c\<lparr>lc_items := Map.empty, lc_head := None, lc_tail := None, lc_size := 0\<rparr>)))"

definition lrux_Clear :: "('k, 'v) lrux_Cache \<Rightarrow> ('k, 'v) lrux_Cache option" where
  "lrux_Clear c = (if lc_closed c then Some c else lrux_drain EvictionCleared c)"

definition lrux_Stop :: "bool \<Rightarrow> bool" where
  "lrux_Stop stopped = True"

text \<open>\<open>Close\<close> repeats the body of \<open>drain\<close> with the reason \<open>EvictionCleared\<close>.\<close>

definition lrux_Close :: "('k, 'v) lrux_Cache \<Rightarrow> ('k, 'v) lrux_Cache option" where
  "lrux_Close c =
     (if lc_closed c then Some c
      else let c1 = c\<lparr>lc_closed := True\<rparr>;
               c2 = c1\<lparr>lc_cleanup := map_option lrux_Stop (lc_cleanup c1)\<rparr>
           in lrux_drain EvictionCleared c2)"

definition lrux_IsClosed :: "('k, 'v) lrux_Cache \<Rightarrow> bool" where
  "lrux_IsClosed c = lc_closed c"

end
