(* ===== verification/Lrux_Refine.thy ===== *)
theory Lrux_Refine
  imports Lrux_Cache
begin

text \<open>
  Package \<open>lrux\<close>: the heap representation of a cache against the list of its entries, most recently
  used first. \<open>lrux_rep\<close> ties the item map and the linked list together; every building block of the
  operations is shown to be a list operation.
\<close>

type_synonym ('k, 'v) lrux_cells = "(nat \<times> ('k, 'v) lrux_Entry) list"

definition lrux_index :: "('k, 'v) lrux_cells \<Rightarrow> ('k \<times> nat) list" where
  "lrux_index pes = map (\<lambda>(p, e). (en_Key e, p)) pes"

definition lrux_rep :: "('k, 'v) lrux_Cache \<Rightarrow> ('k, 'v) lrux_cells \<Rightarrow> bool" where
  "lrux_rep c pes \<longleftrightarrow>
     lrux_list c (map fst pes)
   \<and> (\<forall>(p, e)\<in>set pes. lrux_entry c p = Some e \<and> p < lc_brk c)
   \<and> distinct (map (en_Key \<circ> snd) pes)
   \<and> lc_items c = map_of (lrux_index pes)"

lemma lrux_index_simps [simp]:
  "lrux_index [] = []"
  "lrux_index ((p, e) # pes) = (en_Key e, p) # lrux_index pes"
  "lrux_index (xs @ ys) = lrux_index xs @ lrux_index ys"
  by (simp_all add: lrux_index_def)

lemma lrux_index_keys: "fst ` set (lrux_index pes) = en_Key ` snd ` set pes"
  by (force simp: lrux_index_def)

lemma lrux_index_dom [simp]: "k \<notin> en_Key ` snd ` set pes \<Longrightarrow> map_of (lrux_index pes) k = None"
  by (simp add: map_of_eq_None_iff lrux_index_keys)

text \<open>A lookup in the item map finds the node of the key.\<close>

lemma lrux_items_Some:
  assumes "lrux_rep c pes" and "lc_items c k = Some p"
  obtains xs e ys where "pes = xs @ (p, e) # ys" and "en_Key e = k"
proof -
  from assms have "(k, p) \<in> set (lrux_index pes)" by (auto simp: lrux_rep_def dest: map_of_SomeD)
  then obtain e where "(p, e) \<in> set pes" "en_Key e = k" by (auto simp: lrux_index_def)
  with that show thesis by (metis in_set_conv_decomp)
qed

lemma lrux_items_None:
  "lrux_rep c pes \<Longrightarrow> lc_items c k = None \<longleftrightarrow> k \<notin> en_Key ` snd ` set pes"
  by (simp add: lrux_rep_def map_of_eq_None_iff lrux_index_keys)

lemma lrux_rep_at:
  assumes "lrux_rep c pes" and "(p, e) \<in> set pes"
  shows "lrux_entry_of (lrux_at c p) = e" and "lc_heap c p = Some (lrux_at c p)"
    and "nd_key (lrux_at c p) = en_Key e" and "nd_value (lrux_at c p) = en_Value e"
    and "nd_expiresAt (lrux_at c p) = en_ExpiresAt e" and "nd_accessedAt (lrux_at c p) = en_AccessedAt e"
proof -
  have "lrux_entry c p = Some e" using assms by (auto simp: lrux_rep_def)
  then obtain n where n: "lc_heap c p = Some n" "lrux_entry_of n = e" by (auto simp: lrux_entry_def)
  then show "lrux_entry_of (lrux_at c p) = e" and "lc_heap c p = Some (lrux_at c p)"
    by (simp_all add: lrux_at_def)
  then show "nd_key (lrux_at c p) = en_Key e" and "nd_value (lrux_at c p) = en_Value e"
    and "nd_expiresAt (lrux_at c p) = en_ExpiresAt e" and "nd_accessedAt (lrux_at c p) = en_AccessedAt e"
    by (auto simp: lrux_entry_of_def)
qed

lemma lrux_rep_cong:
  assumes "lrux_rep c pes" and "lc_heap c' = lc_heap c" and "lc_brk c' = lc_brk c"
    and "lc_items c' = lc_items c" and "lc_head c' = lc_head c" and "lc_tail c' = lc_tail c"
    and "lc_size c' = lc_size c"
  shows "lrux_rep c' pes"
  using assms lrux_entry_cong [of c' c] by (simp add: lrux_rep_def lrux_list_def)

text \<open>Fields outside the representation.\<close>

lemma lrux_rep_fields [simp]:
  "lrux_rep (c\<lparr>lc_hits := w\<rparr>) pes = lrux_rep c pes"
  "lrux_rep (c\<lparr>lc_misses := w\<rparr>) pes = lrux_rep c pes"
  "lrux_rep (c\<lparr>lc_evictions := w\<rparr>) pes = lrux_rep c pes"
  "lrux_rep (c\<lparr>lc_capacity := i\<rparr>) pes = lrux_rep c pes"
  "lrux_rep (c\<lparr>lc_closed := b\<rparr>) pes = lrux_rep c pes"
  "lrux_rep (c\<lparr>lc_cleanup := u\<rparr>) pes = lrux_rep c pes"
  "lrux_rep (c\<lparr>lc_fired := f\<rparr>) pes = lrux_rep c pes"
  by (simp_all add: lrux_rep_def lrux_list_def)

lemma lrux_rep_size: "lrux_rep c pes \<Longrightarrow> lc_size c = int (length pes)"
  by (simp add: lrux_rep_def lrux_list_def)

lemma lrux_rep_head: "lrux_rep c pes \<Longrightarrow> lc_head c = (if pes = [] then None else Some (fst (hd pes)))"
  using lrux_list_head by (fastforce simp: lrux_rep_def hd_map)

lemma lrux_rep_tail: "lrux_rep c pes \<Longrightarrow> lc_tail c = (if pes = [] then None else Some (fst (last pes)))"
  using lrux_list_tail by (fastforce simp: lrux_rep_def last_map)

subsection \<open>Building blocks\<close>

lemma lrux_map_of_remove:
  assumes "k \<notin> fst ` set xs" and "k \<notin> fst ` set ys"
  shows "(map_of (xs @ (k, v) # ys))(k := None) = map_of (xs @ ys)"
proof -
  have "map_of xs k = None" "map_of ys k = None" using assms by (simp_all add: map_of_eq_None_iff)
  then show ?thesis by (auto simp: fun_eq_iff map_add_def split: option.split)
qed

lemma lrux_map_of_front:
  assumes "k \<notin> fst ` set xs" and "k \<notin> fst ` set ys"
  shows "map_of (xs @ (k, v) # ys) = map_of ((k, v) # xs @ ys)"
proof -
  have "map_of xs k = None" "map_of ys k = None" using assms by (simp_all add: map_of_eq_None_iff)
  then show ?thesis by (auto simp: fun_eq_iff map_add_def split: option.split)
qed

lemma lrux_rep_remove:
  assumes "lrux_rep c (xs @ (p, e) # ys)"
  shows "lrux_rep (lrux_listRemove p (c\<lparr>lc_items := (lc_items c)(en_Key e := None)\<rparr>)) (xs @ ys)"
proof -
  let ?c = "c\<lparr>lc_items := (lc_items c)(en_Key e := None)\<rparr>"
  have "lrux_list c (map fst xs @ p # map fst ys)" using assms by (simp add: lrux_rep_def)
  then have "lrux_list ?c (map fst xs @ p # map fst ys)" by (simp add: lrux_list_def)
  from lrux_listRemove_list [OF this]
  have "lrux_list (lrux_listRemove p ?c) (map fst (xs @ ys))" by simp
  moreover have "(map_of (lrux_index (xs @ (p, e) # ys)))(en_Key e := None) = map_of (lrux_index (xs @ ys))"
    using assms lrux_map_of_remove [of "en_Key e" "lrux_index xs" "lrux_index ys" p]
    by (auto simp: lrux_rep_def lrux_index_keys)
  ultimately show ?thesis
    using assms by (simp add: lrux_rep_def)
qed

lemma lrux_removeNodeLocked_rep:
  assumes "lrux_rep c (xs @ (p, e) # ys)" and "lrux_removeNodeLocked p r c = (c', ev)"
  shows "lrux_rep c' (xs @ ys)"
    and "ev = (if lc_onEvict c = None then None else Some (en_Key e, en_Value e, r))"
    and "lc_capacity c' = lc_capacity c" "lc_ttl c' = lc_ttl c" "lc_onEvict c' = lc_onEvict c"
      "lc_hits c' = lc_hits c" "lc_misses c' = lc_misses c" "lc_evictions c' = lc_evictions c"
      "lc_closed c' = lc_closed c" "lc_fired c' = lc_fired c" "lc_cleanup c' = lc_cleanup c"
proof -
  have key: "nd_key (lrux_at c p) = en_Key e"
    using lrux_rep_at(3) [OF assms(1)] by simp
  let ?c = "lrux_listRemove p (c\<lparr>lc_items := (lc_items c)(en_Key e := None)\<rparr>)"
  have c': "c' = ?c" using assms(2) key by (simp add: lrux_removeNodeLocked_def Let_def)
  have "lrux_entry ?c p = lrux_entry c p" by simp
  also have "\<dots> = Some e" using assms(1) by (auto simp: lrux_rep_def)
  finally have "map_option lrux_entry_of (lc_heap ?c p) = Some e" unfolding lrux_entry_def .
  then obtain n where "lc_heap ?c p = Some n" "lrux_entry_of n = e" by blast
  then have "nd_key (lrux_at ?c p) = en_Key e" "nd_value (lrux_at ?c p) = en_Value e"
    by (auto simp: lrux_at_def lrux_entry_of_def)
  then show "ev = (if lc_onEvict c = None then None else Some (en_Key e, en_Value e, r))"
    using assms(2) key by (auto simp: lrux_removeNodeLocked_def Let_def)
  show "lrux_rep c' (xs @ ys)" unfolding c' by (rule lrux_rep_remove [OF assms(1)])
qed (use assms(2) in \<open>auto simp: lrux_removeNodeLocked_def Let_def\<close>)

lemma lrux_rep_moveToFront:
  assumes "lrux_rep c (xs @ (p, e) # ys)"
  shows "lrux_rep (lrux_listMoveToFront p c) ((p, e) # xs @ ys)"
proof -
  have "lrux_list c (map fst xs @ p # map fst ys)" using assms by (simp add: lrux_rep_def)
  from lrux_listMoveToFront_list [OF this]
  have "lrux_list (lrux_listMoveToFront p c) (map fst ((p, e) # xs @ ys))" by simp
  moreover have "map_of (lrux_index (xs @ (p, e) # ys)) = map_of (lrux_index ((p, e) # xs @ ys))"
    using assms lrux_map_of_front [of "en_Key e" "lrux_index xs" "lrux_index ys" p]
    by (auto simp: lrux_rep_def lrux_index_keys)
  ultimately show ?thesis
    using assms by (auto simp: lrux_rep_def)
qed

lemma lrux_rep_payload:
  assumes "lrux_rep c (xs @ (p, e) # ys)"
    and "\<And>n. nd_prev (f n) = nd_prev n" and "\<And>n. nd_next (f n) = nd_next n"
    and "\<And>n. lrux_entry_of (f n) = g (lrux_entry_of n)" and "en_Key (g e) = en_Key e"
  shows "lrux_rep (lrux_upd p f c) (xs @ (p, g e) # ys)"
proof -
  have "distinct (map fst (xs @ (p, e) # ys))" using assms(1) by (simp add: lrux_rep_def lrux_list_def)
  then have d: "p \<notin> fst ` set xs" "p \<notin> fst ` set ys" by auto
  have "lrux_entry c p = Some e" using assms(1) by (simp add: lrux_rep_def)
  then have p: "lrux_entry (lrux_upd p f c) p = Some (g e)"
    by (auto simp: lrux_entry_def assms(4))
  have q: "lrux_entry (lrux_upd p f c) q = lrux_entry c q" if "q \<noteq> p" for q
    using that by (simp add: lrux_entry_def)
  have ent: "lrux_entry (lrux_upd p f c) q = Some e' \<and> q < lc_brk c" if "(q, e') \<in> set xs \<union> set ys" for q e'
  proof -
    have "q \<in> fst ` (set xs \<union> set ys)" using that by (metis fst_conv image_eqI)
    with d have "q \<noteq> p" by auto
    moreover have "lrux_entry c q = Some e' \<and> q < lc_brk c" using assms(1) that by (auto simp: lrux_rep_def)
    ultimately show ?thesis using q by simp
  qed
  have "lrux_list (lrux_upd p f c) (map fst (xs @ (p, g e) # ys))"
    using assms(1) lrux_list_payload [of f p c "map fst xs @ p # map fst ys", OF assms(2,3)]
    by (simp add: lrux_rep_def)
  moreover have "\<forall>(q, e')\<in>set (xs @ (p, g e) # ys). lrux_entry (lrux_upd p f c) q = Some e' \<and> q < lc_brk c"
    using ent p assms(1) by (auto simp: lrux_rep_def)
  ultimately show ?thesis
    using assms(1,5) unfolding lrux_rep_def by simp
qed

lemma lrux_overwrite_rep:
  assumes "lrux_rep c (xs @ (p, e) # ys)"
  shows "lrux_rep (lrux_overwrite p v now xp c)
    ((p, e\<lparr>en_Value := v, en_AccessedAt := now, en_ExpiresAt := xp\<rparr>) # xs @ ys)"
proof -
  have 1: "lrux_rep (lrux_upd p (\<lambda>n. n\<lparr>nd_value := v\<rparr>) c) (xs @ (p, e\<lparr>en_Value := v\<rparr>) # ys)"
    by (rule lrux_rep_payload [OF assms, where g = "\<lambda>e. e\<lparr>en_Value := v\<rparr>"])
      (simp_all add: lrux_entry_of_def)
  note 2 = lrux_rep_payload [OF 1, where f = "\<lambda>n. n\<lparr>nd_accessedAt := now\<rparr>" and g = "\<lambda>e. e\<lparr>en_AccessedAt := now\<rparr>"]
  have 3: "lrux_rep (lrux_upd p (\<lambda>n. n\<lparr>nd_accessedAt := now\<rparr>) (lrux_upd p (\<lambda>n. n\<lparr>nd_value := v\<rparr>) c))
      (xs @ (p, e\<lparr>en_Value := v, en_AccessedAt := now\<rparr>) # ys)"
    by (rule 2) (simp_all add: lrux_entry_of_def)
  note 4 = lrux_rep_payload [OF 3, where f = "\<lambda>n. n\<lparr>nd_expiresAt := xp\<rparr>" and g = "\<lambda>e. e\<lparr>en_ExpiresAt := xp\<rparr>"]
  show ?thesis
    unfolding lrux_overwrite_def Let_def
    by (rule lrux_rep_moveToFront, rule 4) (simp_all add: lrux_entry_of_def)
qed

lemma lrux_promote_rep:
  assumes "lrux_rep c (xs @ (p, e) # ys)"
  shows "lrux_rep (lrux_promote p now c) ((p, e\<lparr>en_AccessedAt := now\<rparr>) # xs @ ys)"
  unfolding lrux_promote_def
  by (rule lrux_rep_moveToFront, rule lrux_rep_payload [OF assms, where g = "\<lambda>e. e\<lparr>en_AccessedAt := now\<rparr>"])
    (simp_all add: lrux_entry_of_def)

text \<open>\<open>slideExpiration\<close> on an entry.\<close>

definition lrux_slide :: "int \<Rightarrow> int \<Rightarrow> ('k, 'v) lrux_Entry \<Rightarrow> ('k, 'v) lrux_Entry" where
  "lrux_slide ttl now e =
     (case en_ExpiresAt e of
        Some x \<Rightarrow> if en_AccessedAt e < x then e\<lparr>en_ExpiresAt := Some (now + (x - en_AccessedAt e))\<rparr> else e
      | None \<Rightarrow> if 0 < ttl then e\<lparr>en_ExpiresAt := Some (now + ttl)\<rparr> else e)"

lemma lrux_slide_rep:
  assumes "lrux_rep c (xs @ (p, e) # ys)"
  shows "lrux_rep (lrux_slideExpiration p now c) (xs @ (p, lrux_slide (lc_ttl c) now e) # ys)"
proof -
  have at: "nd_expiresAt (lrux_at c p) = en_ExpiresAt e" "nd_accessedAt (lrux_at c p) = en_AccessedAt e"
    using lrux_rep_at [OF assms] by simp_all
  have up: "lrux_rep (lrux_upd p (\<lambda>n. n\<lparr>nd_expiresAt := x\<rparr>) c) (xs @ (p, e\<lparr>en_ExpiresAt := x\<rparr>) # ys)" for x
    by (rule lrux_rep_payload [OF assms, where g = "\<lambda>e. e\<lparr>en_ExpiresAt := x\<rparr>"])
      (simp_all add: lrux_entry_of_def)
  show ?thesis
    using up assms by (auto simp: lrux_slideExpiration_def lrux_slide_def at Let_def split: option.split)
qed

lemma lrux_insert_new_rep:
  assumes "lrux_rep c pes" and "lc_items c k = None"
  shows "\<exists>p. lrux_rep (lrux_insert_new k v now xp c)
    ((p, \<lparr>en_Key = k, en_Value = v, en_CreatedAt = now, en_AccessedAt = now, en_ExpiresAt = xp\<rparr>) # pes)"
proof
  let ?n = "\<lparr>nd_key = k, nd_value = v, nd_prev = None, nd_next = None, nd_createdAt = now,
             nd_accessedAt = now, nd_expiresAt = xp\<rparr>"
  let ?p = "lc_brk c"
  let ?c1 = "c\<lparr>lc_heap := (lc_heap c)(?p \<mapsto> ?n), lc_brk := ?p + 1, lc_items := (lc_items c)(k \<mapsto> ?p)\<rparr>"
  have fresh: "?p \<notin> fst ` set pes" using assms(1) by (auto simp: lrux_rep_def)
  have l: "lrux_list ?c1 (map fst pes)"
    using assms(1) fresh by (subst lrux_list_cong [of _ c]) (auto simp: lrux_rep_def)
  have l': "lrux_list (lrux_listPushFront ?p ?c1) (?p # map fst pes)"
    by (rule lrux_listPushFront_list [OF l]) (use fresh in simp_all)
  have ent: "\<forall>(q, e)\<in>set pes. lrux_entry ?c1 q = Some e"
    using assms(1) fresh by (fastforce simp: lrux_rep_def lrux_entry_def)
  have "lrux_entry ?c1 ?p = Some (lrux_entry_of ?n)" by (simp add: lrux_entry_def)
  then show "lrux_rep (lrux_insert_new k v now xp c)
    ((?p, \<lparr>en_Key = k, en_Value = v, en_CreatedAt = now, en_AccessedAt = now, en_ExpiresAt = xp\<rparr>) # pes)"
    using l' ent assms lrux_items_None [OF assms(1), of k]
    by (auto simp: lrux_rep_def lrux_insert_new_def lrux_alloc_def lrux_entry_of_def)
qed

end
