(* ===== verification/Lrux_Spec.thy ===== *)
theory Lrux_Spec
  imports Lrux_Refine
begin

text \<open>
  Package \<open>lrux\<close>: the reference cache, a list of entries, most recently used first, with the counters
  and the log of eviction callbacks; and the proof that every operation of \<open>Cache\<close> refines it. The
  loops of the code are shown to return on the way.
\<close>

record ('k, 'v) lrux_spec =
  sp_es :: "('k, 'v) lrux_Entry list"
  sp_cap :: int
  sp_ttl :: int
  sp_hook :: bool
  sp_hits :: u64
  sp_misses :: u64
  sp_evs :: u64
  sp_closed :: bool
  sp_fired :: "('k, 'v) lrux_evictEvent list"

definition sp_find :: "'k \<Rightarrow> ('k, 'v) lrux_Entry list \<Rightarrow> ('k, 'v) lrux_Entry option" where
  "sp_find k es = find (\<lambda>e. en_Key e = k) es"

definition sp_del :: "'k \<Rightarrow> ('k, 'v) lrux_Entry list \<Rightarrow> ('k, 'v) lrux_Entry list" where
  "sp_del k es = filter (\<lambda>e. en_Key e \<noteq> k) es"

definition sp_ev :: "lrux_EvictionReason \<Rightarrow> ('k, 'v) lrux_Entry \<Rightarrow> ('k, 'v) lrux_evictEvent" where
  "sp_ev r e = (en_Key e, en_Value e, r)"

definition sp_fire :: "('k, 'v) lrux_evictEvent list \<Rightarrow> ('k, 'v) lrux_spec \<Rightarrow> ('k, 'v) lrux_spec" where
  "sp_fire evs s = (if sp_hook s then s\<lparr>sp_fired := sp_fired s @ evs\<rparr> else s)"

definition sp_expired :: "int \<Rightarrow> ('k, 'v) lrux_Entry \<Rightarrow> bool" where
  "sp_expired t e = (case en_ExpiresAt e of None \<Rightarrow> False | Some x \<Rightarrow> x < t)"

definition sp_expireTime :: "int \<Rightarrow> int \<Rightarrow> ('k, 'v) lrux_spec \<Rightarrow> int option" where
  "sp_expireTime now ttl s =
     (if 0 < ttl then Some (now + ttl) else if 0 < sp_ttl s then Some (now + sp_ttl s) else None)"

definition sp_drop :: "lrux_EvictionReason \<Rightarrow> ('k, 'v) lrux_Entry \<Rightarrow> ('k, 'v) lrux_spec \<Rightarrow> ('k, 'v) lrux_spec" where
  "sp_drop r e s = sp_fire [sp_ev r e] (s\<lparr>sp_es := sp_del (en_Key e) (sp_es s)\<rparr>)"

definition sp_front :: "('k, 'v) lrux_Entry \<Rightarrow> ('k, 'v) lrux_spec \<Rightarrow> ('k, 'v) lrux_spec" where
  "sp_front e s = s\<lparr>sp_es := e # sp_del (en_Key e) (sp_es s)\<rparr>"

definition sp_trim :: "('k, 'v) lrux_spec \<Rightarrow> ('k, 'v) lrux_spec" where
  "sp_trim s =
     (if 0 < sp_cap s
      then let gone = rev (drop (nat (sp_cap s)) (sp_es s))
           in sp_fire (map (sp_ev EvictionCapacity) gone)
                (s\<lparr>sp_es := take (nat (sp_cap s)) (sp_es s), sp_evs := sp_evs s + of_nat (length gone)\<rparr>)
      else s)"

definition sp_put :: "int \<Rightarrow> int option \<Rightarrow> 'k \<Rightarrow> 'v \<Rightarrow> ('k, 'v) lrux_spec \<Rightarrow> ('k, 'v) lrux_spec" where
  "sp_put now xp k v s =
     (case sp_find k (sp_es s) of
        Some e \<Rightarrow>
          sp_fire [sp_ev EvictionReplaced e]
            (sp_front (e\<lparr>en_Value := v, en_AccessedAt := now, en_ExpiresAt := xp\<rparr>) s)
      | None \<Rightarrow>
          sp_front \<lparr>en_Key = k, en_Value = v, en_CreatedAt = now, en_AccessedAt = now, en_ExpiresAt = xp\<rparr> s)"

definition sp_set :: "int \<Rightarrow> 'k \<Rightarrow> 'v \<Rightarrow> int \<Rightarrow> ('k, 'v) lrux_spec \<Rightarrow> ('k, 'v) lrux_spec" where
  "sp_set now k v ttl s =
     (if sp_closed s then s
      else if sp_find k (sp_es s) = None then sp_trim (sp_put now (sp_expireTime now ttl s) k v s)
      else sp_put now (sp_expireTime now ttl s) k v s)"

subsection \<open>Abstraction\<close>

definition lrux_abs :: "('k, 'v) lrux_Cache \<Rightarrow> ('k, 'v) lrux_spec \<Rightarrow> bool" where
  "lrux_abs c s \<longleftrightarrow>
     (\<exists>pes. lrux_rep c pes \<and> map snd pes = sp_es s)
   \<and> lc_capacity c = sp_cap s \<and> lc_ttl c = sp_ttl s \<and> (lc_onEvict c \<noteq> None) = sp_hook s
   \<and> lc_hits c = sp_hits s \<and> lc_misses c = sp_misses s \<and> lc_evictions c = sp_evs s
   \<and> lc_closed c = sp_closed s \<and> lc_fired c = sp_fired s"

lemma lrux_absI:
  assumes "lrux_rep c pes" and "map snd pes = sp_es s"
    and "lc_capacity c = sp_cap s" and "lc_ttl c = sp_ttl s" and "(lc_onEvict c \<noteq> None) = sp_hook s"
    and "lc_hits c = sp_hits s" and "lc_misses c = sp_misses s" and "lc_evictions c = sp_evs s"
    and "lc_closed c = sp_closed s" and "lc_fired c = sp_fired s"
  shows "lrux_abs c s"
  using assms unfolding lrux_abs_def by blast

lemma lrux_absD:
  assumes "lrux_abs c s"
  shows "lc_capacity c = sp_cap s" and "lc_ttl c = sp_ttl s" and "(lc_onEvict c \<noteq> None) = sp_hook s"
    and "lc_hits c = sp_hits s" and "lc_misses c = sp_misses s" and "lc_evictions c = sp_evs s"
    and "lc_closed c = sp_closed s" and "lc_fired c = sp_fired s"
  using assms by (simp_all add: lrux_abs_def)

lemma sp_fire_fields [simp]:
  "sp_es (sp_fire evs s) = sp_es s" "sp_cap (sp_fire evs s) = sp_cap s" "sp_ttl (sp_fire evs s) = sp_ttl s"
  "sp_hook (sp_fire evs s) = sp_hook s" "sp_hits (sp_fire evs s) = sp_hits s"
  "sp_misses (sp_fire evs s) = sp_misses s" "sp_evs (sp_fire evs s) = sp_evs s"
  "sp_closed (sp_fire evs s) = sp_closed s"
  "sp_fired (sp_fire evs s) = (if sp_hook s then sp_fired s @ evs else sp_fired s)"
  by (simp_all add: sp_fire_def)

lemma lrux_safeOnEvict_eq:
  "lrux_safeOnEvict k v r c = (if lc_onEvict c = None then c else c\<lparr>lc_fired := lc_fired c @ [(k, v, r)]\<rparr>)"
  by (simp add: lrux_safeOnEvict_def split: option.split)

lemma lrux_fireCallbacks_eq:
  "lrux_fireCallbacks evs c = (if lc_onEvict c = None then c else c\<lparr>lc_fired := lc_fired c @ evs\<rparr>)"
proof -
  have "fold (\<lambda>(k, v, r). lrux_safeOnEvict k v r) evs c = c\<lparr>lc_fired := lc_fired c @ evs\<rparr>"
    if "lc_onEvict c \<noteq> None"
    using that by (induction evs arbitrary: c) (auto simp: lrux_safeOnEvict_eq)
  then show ?thesis by (auto simp: lrux_fireCallbacks_def)
qed

lemma lrux_fireCallback_eq: "lrux_fireCallback ev c = lrux_fireCallbacks (lrux_event_list ev) c"
  by (auto simp: lrux_fireCallback_def lrux_fireCallbacks_eq lrux_safeOnEvict_eq lrux_event_list_def
      split: option.split)

lemma lrux_fire_abs:
  assumes "lrux_abs c s" and "sp_hook s \<Longrightarrow> evs = evs'"
  shows "lrux_abs (lrux_fireCallbacks evs c) (sp_fire evs' s)"
proof -
  obtain pes where "lrux_rep c pes" "map snd pes = sp_es s" using assms(1) by (auto simp: lrux_abs_def)
  then show ?thesis
    using lrux_absD [OF assms(1)] assms(2)
    by (intro lrux_absI [of _ pes]) (auto simp: lrux_fireCallbacks_eq)
qed

lemma sp_find_append:
  "sp_find k (xs @ ys) = (case sp_find k xs of None \<Rightarrow> sp_find k ys | Some e \<Rightarrow> Some e)"
  by (induction xs) (auto simp: sp_find_def)

text \<open>The two outcomes of a lookup.\<close>

lemma lrux_lookup:
  assumes "lrux_abs c s"
  obtains (miss) pes where "lc_items c k = None" and "sp_find k (sp_es s) = None"
      and "lrux_rep c pes" and "map snd pes = sp_es s" and "sp_del k (sp_es s) = sp_es s"
  | (hit) xs p e ys where "lc_items c k = Some p" and "sp_find k (sp_es s) = Some e"
      and "lrux_rep c (xs @ (p, e) # ys)" and "en_Key e = k"
      and "sp_es s = map snd xs @ e # map snd ys" and "sp_del k (sp_es s) = map snd (xs @ ys)"
proof -
  obtain pes where r: "lrux_rep c pes" "map snd pes = sp_es s" using assms by (auto simp: lrux_abs_def)
  show thesis
  proof (cases "lc_items c k")
    case None
    then have k: "k \<notin> en_Key ` set (sp_es s)" using lrux_items_None [OF r(1)] r(2) [symmetric] by simp
    then have "sp_find k (sp_es s) = None" "sp_del k (sp_es s) = sp_es s"
      by (auto simp: sp_find_def find_None_iff sp_del_def filter_id_conv)
    with None r show thesis by (intro miss)
  next
    case (Some p)
    then obtain xs e ys where s: "pes = xs @ (p, e) # ys" "en_Key e = k" using lrux_items_Some [OF r(1)] by metis
    then have d: "k \<notin> en_Key ` snd ` set xs" "k \<notin> en_Key ` snd ` set ys"
      using r(1) by (auto simp: lrux_rep_def)
    then have "sp_find k (map snd xs) = None" "sp_del k (map snd xs) = map snd xs" "sp_del k (map snd ys) = map snd ys"
      by (auto simp: sp_find_def find_None_iff sp_del_def filter_id_conv)
    then have "sp_find k (sp_es s) = Some e" "sp_del k (sp_es s) = map snd (xs @ ys)"
      using s r(2) [symmetric] d
      by (simp_all add: sp_find_append) (simp_all add: sp_find_def sp_del_def)
    with Some r s show thesis by (intro hit) auto
  qed
qed

lemma lrux_expired_eq:
  "lrux_rep c pes \<Longrightarrow> (p, e) \<in> set pes \<Longrightarrow> lrux_isExpired t (lrux_at c p) = sp_expired t e"
  by (simp add: lrux_isExpired_def sp_expired_def lrux_rep_at)

subsection \<open>Refinement of the blocks\<close>

text \<open>A record update of counters goes through the abstraction.\<close>

lemma lrux_abs_counters:
  assumes "lrux_abs c s"
  shows "lrux_abs (lrux_hit c) (s\<lparr>sp_hits := sp_hits s + 1\<rparr>)"
    and "lrux_abs (lrux_miss c) (s\<lparr>sp_misses := sp_misses s + 1\<rparr>)"
    and "lrux_abs (lrux_evicted c) (s\<lparr>sp_evs := sp_evs s + 1\<rparr>)"
    and "lrux_abs (c\<lparr>lc_capacity := n\<rparr>) (s\<lparr>sp_cap := n\<rparr>)"
  using assms by (auto simp: lrux_abs_def lrux_hit_def lrux_miss_def lrux_evicted_def)

lemma lrux_remove_abs:
  assumes "lrux_abs c s" and "lrux_rep c (xs @ (p, e) # ys)"
    and "sp_del (en_Key e) (sp_es s) = map snd (xs @ ys)"
    and "lrux_removeNodeLocked p r c = (c1, ev)"
  shows "lrux_abs c1 (s\<lparr>sp_es := sp_del (en_Key e) (sp_es s)\<rparr>)"
    and "lrux_event_list ev = (if sp_hook s then [sp_ev r e] else [])"
proof -
  note rm = lrux_removeNodeLocked_rep [OF assms(2,4)]
  show "lrux_abs c1 (s\<lparr>sp_es := sp_del (en_Key e) (sp_es s)\<rparr>)"
    using lrux_absD [OF assms(1)] rm assms(3) by (intro lrux_absI [of _ "xs @ ys"]) simp_all
  show "lrux_event_list ev = (if sp_hook s then [sp_ev r e] else [])"
    using rm(2) lrux_absD(3) [OF assms(1)] by (auto simp: lrux_event_list_def sp_ev_def)
qed

lemma lrux_drop_expired_abs:
  assumes "lrux_abs c s" and "lrux_rep c (xs @ (p, e) # ys)"
    and "sp_del (en_Key e) (sp_es s) = map snd (xs @ ys)"
  shows "lrux_abs (lrux_drop_expired p c) (sp_drop EvictionExpired e (s\<lparr>sp_evs := sp_evs s + 1\<rparr>))"
proof -
  obtain c1 ev where r: "lrux_removeNodeLocked p EvictionExpired c = (c1, ev)" by fastforce
  note rm = lrux_remove_abs [OF assms r]
  have "lrux_abs (lrux_evicted c1) (s\<lparr>sp_es := sp_del (en_Key e) (sp_es s), sp_evs := sp_evs s + 1\<rparr>)"
    using lrux_abs_counters(3) [OF rm(1)] by simp
  then have "lrux_abs (lrux_fireCallbacks (lrux_event_list ev) (lrux_evicted c1))
      (sp_fire [sp_ev EvictionExpired e] (s\<lparr>sp_es := sp_del (en_Key e) (sp_es s), sp_evs := sp_evs s + 1\<rparr>))"
    by (rule lrux_fire_abs) (simp add: rm(2))
  moreover have "s\<lparr>sp_es := sp_del (en_Key e) (sp_es s), sp_evs := sp_evs s + 1\<rparr> =
      s\<lparr>sp_evs := sp_evs s + 1, sp_es := sp_del (en_Key e) (sp_es s)\<rparr>" by simp
  ultimately show ?thesis by (simp add: lrux_drop_expired_def r lrux_fireCallback_eq sp_drop_def)
qed

text \<open>A block that only changes the representation.\<close>

lemma lrux_front_abs:
  assumes "lrux_abs c s" and "lrux_rep c' ((p, e) # xs @ ys)"
    and "sp_del (en_Key e) (sp_es s) = map snd (xs @ ys)"
    and "lc_capacity c' = lc_capacity c" "lc_ttl c' = lc_ttl c" "lc_onEvict c' = lc_onEvict c"
      "lc_hits c' = lc_hits c" "lc_misses c' = lc_misses c" "lc_evictions c' = lc_evictions c"
      "lc_closed c' = lc_closed c" "lc_fired c' = lc_fired c"
  shows "lrux_abs c' (sp_front e s)"
  using assms(2-) lrux_absD [OF assms(1)]
  by (intro lrux_absI [of _ "(p, e) # xs @ ys"]) (simp_all add: sp_front_def)

lemma lrux_overwrite_fields [simp]:
  "lc_capacity (lrux_overwrite p v now xp c) = lc_capacity c" "lc_ttl (lrux_overwrite p v now xp c) = lc_ttl c"
  "lc_onEvict (lrux_overwrite p v now xp c) = lc_onEvict c" "lc_hits (lrux_overwrite p v now xp c) = lc_hits c"
  "lc_misses (lrux_overwrite p v now xp c) = lc_misses c" "lc_evictions (lrux_overwrite p v now xp c) = lc_evictions c"
  "lc_closed (lrux_overwrite p v now xp c) = lc_closed c" "lc_fired (lrux_overwrite p v now xp c) = lc_fired c"
  by (simp_all add: lrux_overwrite_def Let_def)

lemma lrux_promote_fields [simp]:
  "lc_capacity (lrux_promote p now c) = lc_capacity c" "lc_ttl (lrux_promote p now c) = lc_ttl c"
  "lc_onEvict (lrux_promote p now c) = lc_onEvict c" "lc_hits (lrux_promote p now c) = lc_hits c"
  "lc_misses (lrux_promote p now c) = lc_misses c" "lc_evictions (lrux_promote p now c) = lc_evictions c"
  "lc_closed (lrux_promote p now c) = lc_closed c" "lc_fired (lrux_promote p now c) = lc_fired c"
  by (simp_all add: lrux_promote_def)

lemma lrux_slide_fields [simp]:
  "lc_capacity (lrux_slideExpiration p now c) = lc_capacity c" "lc_ttl (lrux_slideExpiration p now c) = lc_ttl c"
  "lc_onEvict (lrux_slideExpiration p now c) = lc_onEvict c" "lc_hits (lrux_slideExpiration p now c) = lc_hits c"
  "lc_misses (lrux_slideExpiration p now c) = lc_misses c" "lc_evictions (lrux_slideExpiration p now c) = lc_evictions c"
  "lc_closed (lrux_slideExpiration p now c) = lc_closed c" "lc_fired (lrux_slideExpiration p now c) = lc_fired c"
  by (simp_all add: lrux_slideExpiration_def Let_def split: option.split)

lemma lrux_insert_new_fields [simp]:
  "lc_capacity (lrux_insert_new k v now xp c) = lc_capacity c" "lc_ttl (lrux_insert_new k v now xp c) = lc_ttl c"
  "lc_onEvict (lrux_insert_new k v now xp c) = lc_onEvict c" "lc_hits (lrux_insert_new k v now xp c) = lc_hits c"
  "lc_misses (lrux_insert_new k v now xp c) = lc_misses c" "lc_evictions (lrux_insert_new k v now xp c) = lc_evictions c"
  "lc_closed (lrux_insert_new k v now xp c) = lc_closed c" "lc_fired (lrux_insert_new k v now xp c) = lc_fired c"
  by (simp_all add: lrux_insert_new_def lrux_alloc_def)

lemma lrux_promote_abs:
  assumes "lrux_abs c s" and "lrux_rep c (xs @ (p, e) # ys)"
    and "sp_del (en_Key e) (sp_es s) = map snd (xs @ ys)"
  shows "lrux_abs (lrux_promote p now c) (sp_front (e\<lparr>en_AccessedAt := now\<rparr>) s)"
    and "nd_value (lrux_at (lrux_promote p now c) p) = en_Value e"
proof -
  note r = lrux_promote_rep [OF assms(2), of now]
  show "lrux_abs (lrux_promote p now c) (sp_front (e\<lparr>en_AccessedAt := now\<rparr>) s)"
    by (rule lrux_front_abs [OF assms(1) r]) (simp_all add: assms(3))
  show "nd_value (lrux_at (lrux_promote p now c) p) = en_Value e"
    using lrux_rep_at(4) [OF r, of p "e\<lparr>en_AccessedAt := now\<rparr>"] by simp
qed

lemma lrux_overwrite_abs:
  assumes "lrux_abs c s" and "lrux_rep c (xs @ (p, e) # ys)" and "en_Key e = k"
    and "sp_find k (sp_es s) = Some e" and "sp_del k (sp_es s) = map snd (xs @ ys)"
  shows "lrux_abs (lrux_fireCallbacks (lrux_replaced_event p c) (lrux_overwrite p v now xp c))
      (sp_put now xp k v s)"
    and "lrux_abs (lrux_overwrite p v now xp c)
      (sp_front (e\<lparr>en_Value := v, en_AccessedAt := now, en_ExpiresAt := xp\<rparr>) s)"
    and "lrux_replaced_event p c = (if sp_hook s then [sp_ev EvictionReplaced e] else [])"
proof -
  show a: "lrux_abs (lrux_overwrite p v now xp c)
      (sp_front (e\<lparr>en_Value := v, en_AccessedAt := now, en_ExpiresAt := xp\<rparr>) s)"
    by (rule lrux_front_abs [OF assms(1) lrux_overwrite_rep [OF assms(2)]]) (simp_all add: assms(3,5))
  have "nd_key (lrux_at c p) = en_Key e" "nd_value (lrux_at c p) = en_Value e"
    using lrux_rep_at(3,4) [OF assms(2), of p e] by simp_all
  then show ev: "lrux_replaced_event p c = (if sp_hook s then [sp_ev EvictionReplaced e] else [])"
    using lrux_absD(3) [OF assms(1)] by (simp add: lrux_replaced_event_def sp_ev_def)
  have h: "sp_hook (sp_front e' s) = sp_hook s" for e' by (simp add: sp_front_def)
  show "lrux_abs (lrux_fireCallbacks (lrux_replaced_event p c) (lrux_overwrite p v now xp c))
      (sp_put now xp k v s)"
    using lrux_fire_abs [OF a, of "lrux_replaced_event p c" "[sp_ev EvictionReplaced e]"] assms(4) ev
    by (simp add: sp_put_def h)
qed

lemma lrux_insert_abs:
  assumes "lrux_abs c s" and "lc_items c k = None"
  shows "lrux_abs (lrux_insert_new k v now xp c) (sp_put now xp k v s)"
  using assms(1)
proof (cases rule: lrux_lookup [of c s k])
  case (miss pes)
  obtain p where r: "lrux_rep (lrux_insert_new k v now xp c)
    ((p, \<lparr>en_Key = k, en_Value = v, en_CreatedAt = now, en_AccessedAt = now, en_ExpiresAt = xp\<rparr>) # pes)"
    using lrux_insert_new_rep [OF miss(3) assms(2)] by blast
  have "lrux_abs (lrux_insert_new k v now xp c)
    (sp_front \<lparr>en_Key = k, en_Value = v, en_CreatedAt = now, en_AccessedAt = now, en_ExpiresAt = xp\<rparr> s)"
    by (rule lrux_front_abs [OF assms(1), of _ p _ "[]" pes]) (use r miss in simp_all)
  with miss show ?thesis by (simp add: sp_put_def)
qed (use assms(2) in simp_all)

text \<open>Evicting the tail once, and down to the capacity.\<close>

definition sp_evict :: "('k, 'v) lrux_spec \<Rightarrow> ('k, 'v) lrux_spec" where
  "sp_evict s = s\<lparr>sp_es := butlast (sp_es s), sp_evs := sp_evs s + 1\<rparr>"

lemma lrux_removeTail_abs:
  assumes "lrux_abs c s" and "sp_es s \<noteq> []" and "lrux_removeTailLocked c = (c1, ev)"
  shows "lrux_abs (lrux_evicted c1) (sp_evict s)"
    and "lrux_event_list ev = (if sp_hook s then [sp_ev EvictionCapacity (last (sp_es s))] else [])"
    and "lc_tail c1 = None \<longleftrightarrow> length (sp_es s) = 1"
proof -
  obtain pes where r: "lrux_rep c pes" "map snd pes = sp_es s" using assms(1) by (auto simp: lrux_abs_def)
  then have ne: "pes \<noteq> []" using assms(2) by auto
  obtain p e where pe: "last pes = (p, e)" by fastforce
  have dec: "pes = butlast pes @ (p, e) # []" using append_butlast_last_id [OF ne] pe by simp
  have rd: "lrux_rep c (butlast pes @ (p, e) # [])" using r(1) by (subst dec [symmetric])
  have "map snd pes = map snd (butlast pes) @ [e]" by (subst dec) simp
  then have es: "sp_es s = map snd (butlast pes) @ [e]" using r(2) by simp
  have "distinct (map (en_Key \<circ> snd) (butlast pes @ (p, e) # []))" using rd unfolding lrux_rep_def by blast
  then have "en_Key e \<notin> en_Key ` set (map snd (butlast pes))" by (simp add: image_comp)
  then have "sp_del (en_Key e) (map snd (butlast pes)) = map snd (butlast pes)"
    unfolding sp_del_def filter_id_conv by (metis image_eqI)
  then have del: "sp_del (en_Key e) (sp_es s) = map snd (butlast pes @ [])"
    using es by (simp add: sp_del_def)
  have rmv: "lrux_removeNodeLocked p EvictionCapacity c = (c1, ev)"
    using assms(3) lrux_rep_tail [OF r(1)] ne pe by (simp add: lrux_removeTailLocked_def)
  note rm = lrux_remove_abs [OF assms(1) rd del rmv]
  have bl: "butlast (sp_es s) = sp_del (en_Key e) (sp_es s)" using es del by simp
  show "lrux_abs (lrux_evicted c1) (sp_evict s)"
    using lrux_abs_counters(3) [OF rm(1)] by (simp add: sp_evict_def bl)
  show "lrux_event_list ev = (if sp_hook s then [sp_ev EvictionCapacity (last (sp_es s))] else [])"
    using rm(2) es by simp
  have "lrux_rep c1 (butlast pes)" using lrux_removeNodeLocked_rep(1) [OF rd rmv] by simp
  then show "lc_tail c1 = None \<longleftrightarrow> length (sp_es s) = 1"
    using lrux_rep_tail [of c1 "butlast pes"] arg_cong [OF es, of length]
    by (cases "butlast pes") (simp_all del: length_butlast)
qed

text \<open>The state and the events after trimming to \<open>n\<close> entries.\<close>

definition sp_trimmed :: "nat \<Rightarrow> ('k, 'v) lrux_spec \<Rightarrow> ('k, 'v) lrux_spec" where
  "sp_trimmed n s =
     s\<lparr>sp_es := take n (sp_es s), sp_evs := sp_evs s + of_nat (length (sp_es s) - n)\<rparr>"

lemma sp_trimmed_fields [simp]:
  "sp_hook (sp_trimmed n s) = sp_hook s" "sp_cap (sp_trimmed n s) = sp_cap s"
  "sp_closed (sp_trimmed n s) = sp_closed s" "sp_ttl (sp_trimmed n s) = sp_ttl s"
  "sp_fired (sp_trimmed n s) = sp_fired s" "sp_es (sp_trimmed n s) = take n (sp_es s)"
  by (simp_all add: sp_trimmed_def)

lemma sp_trimmed_step:
  assumes "n < length (sp_es s)"
  shows "sp_trimmed n (sp_evict s) = sp_trimmed n s"
    and "rev (drop n (sp_es s)) = last (sp_es s) # rev (drop n (butlast (sp_es s)))"
proof -
  have "length (sp_es s) - n = Suc (length (sp_es s) - 1 - n)" using assms by simp
  then have "(of_nat (length (sp_es s) - n) :: u64) = 1 + of_nat (length (sp_es s) - 1 - n)" by (simp only: of_nat_Suc)
  then show "sp_trimmed n (sp_evict s) = sp_trimmed n s"
    using assms by (simp add: sp_trimmed_def sp_evict_def take_butlast)
  have "sp_es s \<noteq> []" using assms by auto
  then have "sp_es s = butlast (sp_es s) @ [last (sp_es s)]" by simp
  then have "drop n (sp_es s) = drop n (butlast (sp_es s)) @ [last (sp_es s)]"
    using assms by (metis drop_butlast append_butlast_last_id drop_eq_Nil last_drop not_le)
  then show "rev (drop n (sp_es s)) = last (sp_es s) # rev (drop n (butlast (sp_es s)))" by simp
qed

lemma lrux_abs_size: "lrux_abs c s \<Longrightarrow> lc_size c = int (length (sp_es s))"
  using lrux_rep_size by (fastforce simp: lrux_abs_def dest: arg_cong [where f = length])

lemma lrux_SetMulti_trim_abs:
  assumes "lrux_abs c s" and "0 \<le> sp_cap s"
  shows "\<exists>c' evs'. lrux_SetMulti_trim c evs = Some (c', evs') \<and>
    lrux_abs c' (sp_trimmed (nat (sp_cap s)) s) \<and>
    (sp_hook s \<longrightarrow> evs' = evs @ map (sp_ev EvictionCapacity) (rev (drop (nat (sp_cap s)) (sp_es s))))"
  using assms
proof (induction "length (sp_es s) - nat (sp_cap s)" arbitrary: c s evs)
  case 0
  then have "\<not> lc_capacity c < lc_size c"
    using lrux_abs_size [OF 0(2)] lrux_absD(1) [OF 0(2)] by simp
  moreover have "sp_trimmed (nat (sp_cap s)) s = s" using 0(1) by (simp add: sp_trimmed_def)
  ultimately show ?case
    using 0 by (subst lrux_SetMulti_trim.simps) simp
next
  case (Suc m)
  then have lt: "nat (sp_cap s) < length (sp_es s)" by simp
  then have ne: "sp_es s \<noteq> []" by auto
  have loop: "lc_capacity c < lc_size c"
    using lrux_abs_size [OF Suc.prems(1)] lrux_absD(1) [OF Suc.prems(1)] lt by simp
  obtain c1 ev where r: "lrux_removeTailLocked c = (c1, ev)" by fastforce
  note tl = lrux_removeTail_abs [OF Suc.prems(1) ne r]
  have m: "m = length (sp_es (sp_evict s)) - nat (sp_cap (sp_evict s))"
    using Suc.hyps(2) by (simp add: sp_evict_def)
  have c: "sp_cap (sp_evict s) = sp_cap s" "sp_hook (sp_evict s) = sp_hook s"
    "sp_es (sp_evict s) = butlast (sp_es s)" by (simp_all add: sp_evict_def)
  from Suc.hyps(1) [OF m tl(1), of "evs @ lrux_event_list ev"] Suc.prems(2) show ?case
    unfolding c using tl(2) sp_trimmed_step [OF lt]
    by (subst lrux_SetMulti_trim.simps) (auto simp: loop r)
qed

lemma lrux_Resize_loop_abs:
  assumes "lrux_abs c s" and "0 < sp_cap s"
  shows "\<exists>c' evs'. lrux_Resize_loop c evs = Some (c', evs') \<and>
    lrux_abs c' (sp_trimmed (nat (sp_cap s)) s) \<and>
    (sp_hook s \<longrightarrow> evs' = evs @ map (sp_ev EvictionCapacity) (rev (drop (nat (sp_cap s)) (sp_es s))))"
  using assms
proof (induction "length (sp_es s) - nat (sp_cap s)" arbitrary: c s evs)
  case 0
  then have "\<not> lc_capacity c < lc_size c"
    using lrux_abs_size [OF 0(2)] lrux_absD(1) [OF 0(2)] by simp
  moreover have "sp_trimmed (nat (sp_cap s)) s = s" using 0(1) by (simp add: sp_trimmed_def)
  ultimately show ?case
    using 0 by (subst lrux_Resize_loop.simps) simp
next
  case (Suc m)
  then have lt: "nat (sp_cap s) < length (sp_es s)" by simp
  then have ne: "sp_es s \<noteq> []" by auto
  have loop: "lc_capacity c < lc_size c"
    using lrux_abs_size [OF Suc.prems(1)] lrux_absD(1) [OF Suc.prems(1)] lt by simp
  obtain c1 ev where r: "lrux_removeTailLocked c = (c1, ev)" by fastforce
  note tl = lrux_removeTail_abs [OF Suc.prems(1) ne r]
  have m: "m = length (sp_es (sp_evict s)) - nat (sp_cap (sp_evict s))"
    using Suc.hyps(2) by (simp add: sp_evict_def)
  have c: "sp_cap (sp_evict s) = sp_cap s" "sp_hook (sp_evict s) = sp_hook s"
    "sp_es (sp_evict s) = butlast (sp_es s)" by (simp_all add: sp_evict_def)
  have tail: "lc_tail c1 \<noteq> None" using tl(3) lt Suc.prems(2) by auto
  from Suc.hyps(1) [OF m tl(1), of "evs @ lrux_event_list ev"] Suc.prems(2) show ?case
    unfolding c using tl(2) sp_trimmed_step [OF lt]
    by (subst lrux_Resize_loop.simps) (auto simp: loop r tail)
qed

lemma sp_trim_eq:
  "sp_trim s = (if 0 < sp_cap s
     then sp_fire (map (sp_ev EvictionCapacity) (rev (drop (nat (sp_cap s)) (sp_es s))))
            (sp_trimmed (nat (sp_cap s)) s) else s)"
  by (simp add: sp_trim_def sp_trimmed_def Let_def)

text \<open>An insertion exceeds the capacity by one at most: there one removal is the whole trim.\<close>

lemma lrux_trim1_abs:
  assumes "lrux_abs c s" and "0 < sp_cap s \<Longrightarrow> int (length (sp_es s)) \<le> sp_cap s + 1"
    and "lrux_trim1 c = (c1, evs)"
  shows "lrux_abs (lrux_fireCallbacks evs c1) (sp_trim s)"
proof (cases "0 < sp_cap s \<and> sp_cap s < int (length (sp_es s))")
  case True
  with assms(2) have len: "length (sp_es s) = Suc (nat (sp_cap s))" by linarith
  then have ne: "sp_es s \<noteq> []" by auto
  obtain c2 ev where r: "lrux_removeTailLocked c = (c2, ev)" by fastforce
  note tl = lrux_removeTail_abs [OF assms(1) ne r]
  have "c1 = lrux_evicted c2" "evs = lrux_event_list ev"
    using assms(3) True lrux_abs_size [OF assms(1)] lrux_absD(1) [OF assms(1)]
    by (simp_all add: lrux_trim1_def r)
  moreover have "sp_evict s = sp_trimmed (nat (sp_cap s)) s"
    using len by (simp add: sp_evict_def sp_trimmed_def butlast_conv_take)
  moreover have "rev (drop (nat (sp_cap s)) (sp_es s)) = [last (sp_es s)]"
    using sp_trimmed_step(2) [of "nat (sp_cap s)" s] len by simp
  ultimately show ?thesis
    using lrux_fire_abs [OF tl(1), of evs "[sp_ev EvictionCapacity (last (sp_es s))]"] tl(2) True
    by (simp add: sp_trim_eq)
next
  case False
  then have "c1 = c" "evs = []"
    using assms(3) lrux_abs_size [OF assms(1)] lrux_absD(1) [OF assms(1)]
    by (auto simp: lrux_trim1_def)
  moreover have "sp_trim s = s"
    using False by (auto simp: sp_trim_eq sp_trimmed_def sp_fire_def)
  ultimately show ?thesis using assms(1) by (simp add: lrux_fireCallbacks_eq)
qed

subsection \<open>Refinement of the scans\<close>

lemma lrux_rep_next:
  assumes "lrux_rep c (xs @ (p, e) # ys)"
  shows "nd_next (lrux_at c p) = (if ys = [] then None else Some (fst (hd ys)))"
proof -
  have "lrux_seg (lc_heap c) None (lc_head c) (map fst xs @ p # map fst ys) (lc_tail c) None"
    using assms by (simp add: lrux_rep_def lrux_list_def)
  then obtain n where "lc_heap c p = Some n" "lrux_seg (lc_heap c) (Some p) (nd_next n) (map fst ys) (lc_tail c) None"
    by (auto simp: lrux_seg_append)
  then show ?thesis using lrux_seg_ends by (fastforce simp: lrux_at_def hd_map)
qed

definition lrux_first :: "('k, 'v) lrux_cells \<Rightarrow> nat option" where
  "lrux_first pes = (if pes = [] then None else Some (fst (hd pes)))"

lemma lrux_LenValid_loop_eq:
  assumes "lrux_rep c (xs @ ys)"
  shows "lrux_LenValid_loop now c (lrux_first ys) n =
    Some (n + length (filter (\<lambda>e. \<not> sp_expired (now (en_Key e)) e) (map snd ys)))"
  using assms
proof (induction ys arbitrary: xs n)
  case Nil
  then show ?case by (subst lrux_LenValid_loop.simps) (simp add: lrux_first_def)
next
  case (Cons pe ys)
  obtain p e where pe: "pe = (p, e)" by fastforce
  have nxt: "nd_next (lrux_at c p) = lrux_first ys"
    using lrux_rep_next [OF Cons.prems [unfolded pe]] by (simp add: lrux_first_def)
  have at: "lrux_isExpired t (lrux_at c p) = sp_expired t e" "nd_key (lrux_at c p) = en_Key e" for t
    using lrux_expired_eq [OF Cons.prems, of p e] lrux_rep_at(3) [OF Cons.prems, of p e] by (simp_all add: pe)
  have "lrux_rep c ((xs @ [pe]) @ ys)" using Cons.prems by simp
  from Cons.IH [OF this] show ?case
    by (subst lrux_LenValid_loop.simps) (simp add: lrux_first_def [of "_ # _"] pe at nxt)
qed

lemma lrux_walk_events_eq:
  assumes "lrux_rep c (xs @ ys)"
  shows "lrux_walk_events r c (lrux_first ys) evs = Some (evs @ map (sp_ev r) (map snd ys))"
  using assms
proof (induction ys arbitrary: xs evs)
  case Nil
  then show ?case by (subst lrux_walk_events.simps) (simp add: lrux_first_def)
next
  case (Cons pe ys)
  obtain p e where pe: "pe = (p, e)" by fastforce
  have nxt: "nd_next (lrux_at c p) = lrux_first ys"
    using lrux_rep_next [OF Cons.prems [unfolded pe]] by (simp add: lrux_first_def)
  have at: "nd_key (lrux_at c p) = en_Key e" "nd_value (lrux_at c p) = en_Value e"
    using lrux_rep_at(3,4) [OF Cons.prems, of p e] by (simp_all add: pe)
  have "lrux_rep c ((xs @ [pe]) @ ys)" using Cons.prems by simp
  from Cons.IH [OF this] show ?case
    by (subst lrux_walk_events.simps) (simp add: lrux_first_def [of "_ # _"] pe at nxt sp_ev_def)
qed

text \<open>What a sweep keeps, what it removes, and its accumulator.\<close>

fun sp_sweep ::
  "('k \<Rightarrow> int) \<Rightarrow> ('a \<Rightarrow> 'a) \<Rightarrow> (('k, 'v) lrux_Entry \<Rightarrow> 'a \<Rightarrow> 'a \<times> bool) \<Rightarrow> ('k, 'v) lrux_Entry list \<Rightarrow> 'a
     \<Rightarrow> ('k, 'v) lrux_Entry list \<times> ('k, 'v) lrux_Entry list \<times> 'a" where
  "sp_sweep now onExp visit [] acc = ([], [], acc)"
| "sp_sweep now onExp visit (e # es) acc =
     (if sp_expired (now (en_Key e)) e
      then case sp_sweep now onExp visit es (onExp acc) of (kept, gone, a) \<Rightarrow> (kept, e # gone, a)
      else case visit e acc of
             (acc1, go) \<Rightarrow>
               if go then case sp_sweep now onExp visit es acc1 of (kept, gone, a) \<Rightarrow> (e # kept, gone, a)
               else (e # es, [], acc1))"

definition sp_swept :: "('k, 'v) lrux_Entry list \<Rightarrow> nat \<Rightarrow> ('k, 'v) lrux_spec \<Rightarrow> ('k, 'v) lrux_spec" where
  "sp_swept es n s = s\<lparr>sp_es := es, sp_evs := sp_evs s + of_nat n\<rparr>"

lemma lrux_sweep_abs:
  assumes "lrux_abs c s" and "lrux_rep c (xs @ ys)" and "sp_es s = map snd (xs @ ys)"
    and "sp_sweep now onExp visit (map snd ys) acc = (kept, gone, acc')"
  shows "\<exists>c' evs'. lrux_sweep now onExp (\<lambda>n. visit (lrux_entry_of n)) c (lrux_first ys) evs acc =
      Some (c', evs', acc') \<and> lrux_abs c' (sp_swept (map snd xs @ kept) (length gone) s) \<and>
      (sp_hook s \<longrightarrow> evs' = evs @ map (sp_ev EvictionExpired) gone)"
  using assms
proof (induction ys arbitrary: c s xs evs acc kept gone)
  case Nil
  have "sp_swept (map snd xs) 0 s = s" using Nil(3) by (simp add: sp_swept_def)
  with Nil show ?case by (subst lrux_sweep.simps) (simp add: lrux_first_def)
next
  case (Cons pe ys)
  obtain p e where pe: "pe = (p, e)" by fastforce
  note rp = Cons.prems(2) [unfolded pe]
  have nxt: "nd_next (lrux_at c p) = lrux_first ys"
    using lrux_rep_next [OF rp] by (simp add: lrux_first_def)
  have at: "lrux_isExpired t (lrux_at c p) = sp_expired t e" "nd_key (lrux_at c p) = en_Key e"
      "lrux_entry_of (lrux_at c p) = e" for t
    using lrux_expired_eq [OF rp, of p e] lrux_rep_at(1,3) [OF rp, of p e] by simp_all
  show ?case
  proof (cases "sp_expired (now (en_Key e)) e")
    case True
    obtain gone' where g: "sp_sweep now onExp visit (map snd ys) (onExp acc) = (kept, gone', acc')" "gone = e # gone'"
      using Cons.prems(4) True by (auto simp: pe split: prod.splits)
    obtain c1 ev where r: "lrux_removeNodeLocked p EvictionExpired c = (c1, ev)" by fastforce
    have "distinct (map (en_Key \<circ> snd) (xs @ (p, e) # ys))" using rp unfolding lrux_rep_def by blast
    then have "en_Key e \<notin> en_Key ` set (map snd (xs @ ys))" by (auto simp: image_comp)
    then have "sp_del (en_Key e) (map snd (xs @ ys)) = map snd (xs @ ys)"
      unfolding sp_del_def filter_id_conv by (metis image_eqI)
    then have del: "sp_del (en_Key e) (sp_es s) = map snd (xs @ ys)"
      using Cons.prems(3) by (simp add: pe sp_del_def)
    note rm = lrux_remove_abs [OF Cons.prems(1) rp del r]
    let ?s = "s\<lparr>sp_es := sp_del (en_Key e) (sp_es s), sp_evs := sp_evs s + 1\<rparr>"
    have a: "lrux_abs (lrux_evicted c1) ?s" using lrux_abs_counters(3) [OF rm(1)] by simp
    have rp1: "lrux_rep (lrux_evicted c1) (xs @ ys)"
      using lrux_removeNodeLocked_rep(1) [OF rp r] by (simp add: lrux_evicted_def)
    have sw: "sp_swept (map snd xs @ kept) (length gone') ?s = sp_swept (map snd xs @ kept) (length gone) s"
      by (simp add: sp_swept_def g(2))
    have es: "sp_es ?s = map snd (xs @ ys)" by (simp add: del)
    from Cons.IH [OF a rp1 es g(1), of "evs @ lrux_event_list ev"] rm(2) sw show ?thesis
      by (subst lrux_sweep.simps) (auto simp: lrux_first_def [of "_ # _"] pe True at nxt r g(2))
  next
    case live: False
    obtain acc1 go where v: "visit e acc = (acc1, go)" by fastforce
    show ?thesis
    proof (cases go)
      case True
      obtain kept' where k: "sp_sweep now onExp visit (map snd ys) acc1 = (kept', gone, acc')" "kept = e # kept'"
        using Cons.prems(4) live v True by (auto simp: pe split: prod.splits)
      have rp1: "lrux_rep c ((xs @ [pe]) @ ys)" and es: "sp_es s = map snd ((xs @ [pe]) @ ys)"
        using Cons.prems(2,3) by simp_all
      from Cons.IH [OF Cons.prems(1) rp1 es k(1), of evs] show ?thesis
        by (subst lrux_sweep.simps)
          (simp add: lrux_first_def [of "_ # _"] pe live at nxt v True k(2))
    next
      case False
      then have k: "kept = e # map snd ys" "gone = []" "acc' = acc1"
        using Cons.prems(4) live v by (simp_all add: pe)
      have "sp_swept (map snd xs @ kept) (length gone) s = s"
        using Cons.prems(3) by (simp add: sp_swept_def k pe)
      with Cons.prems(1) show ?thesis
        by (subst lrux_sweep.simps)
          (simp add: lrux_first_def [of "_ # _"] pe live at nxt v False k)
    qed
  qed
qed

end
