(* ===== verification/Simulation.thy ===== *)
theory Simulation
  imports URX_Prelude
begin

text \<open>
  Forward simulation between an implementation, whose operations may fail to return (\<open>None\<close>), and
  a total reference, stated once as a locale: single operations, runs, and a vector of independent
  components of which an operation addresses one.
\<close>

fun sim_run :: "('o \<Rightarrow> 'c \<Rightarrow> ('c \<times> 'r) option) \<Rightarrow> 'o list \<Rightarrow> 'c \<Rightarrow> ('c \<times> 'r list) option" where
  "sim_run exec [] c = Some (c, [])"
| "sim_run exec (x # xs) c =
     (case exec x c of
        None \<Rightarrow> None
      | Some (c1, r) \<Rightarrow> (case sim_run exec xs c1 of None \<Rightarrow> None | Some (c2, rs) \<Rightarrow> Some (c2, r # rs)))"

fun sim_spec_run :: "('o \<Rightarrow> 's \<Rightarrow> 's \<times> 'r) \<Rightarrow> 'o list \<Rightarrow> 's \<Rightarrow> 's \<times> 'r list" where
  "sim_spec_run spec [] s = (s, [])"
| "sim_spec_run spec (x # xs) s =
     (case spec x s of (s1, r) \<Rightarrow> (case sim_spec_run spec xs s1 of (s2, rs) \<Rightarrow> (s2, r # rs)))"

lemma sim_spec_run_append:
  "sim_spec_run spec (xs @ ys) s =
     (case sim_spec_run spec xs s of (s1, rs) \<Rightarrow> (case sim_spec_run spec ys s1 of (s2, rs2) \<Rightarrow> (s2, rs @ rs2)))"
  by (induction xs arbitrary: s) (auto split: prod.split)

text \<open>An operation on component \<open>i\<close> of a vector.\<close>

definition sim_at ::
  "('o \<Rightarrow> 'c \<Rightarrow> ('c \<times> 'r) option) \<Rightarrow> nat \<times> 'o \<Rightarrow> 'c list \<Rightarrow> ('c list \<times> 'r) option" where
  "sim_at exec io cs =
     (case io of (i, x) \<Rightarrow> (case exec x (cs ! i) of None \<Rightarrow> None | Some (c1, r) \<Rightarrow> Some (cs[i := c1], r)))"

definition sim_spec_at :: "('o \<Rightarrow> 's \<Rightarrow> 's \<times> 'r) \<Rightarrow> nat \<times> 'o \<Rightarrow> 's list \<Rightarrow> 's list \<times> 'r" where
  "sim_spec_at spec io ss = (case io of (i, x) \<Rightarrow> (case spec x (ss ! i) of (s1, r) \<Rightarrow> (ss[i := s1], r)))"

text \<open>The same operation on every component in turn, the results collected.\<close>

fun sim_all :: "('o \<Rightarrow> 'c \<Rightarrow> ('c \<times> 'r) option) \<Rightarrow> 'o \<Rightarrow> 'c list \<Rightarrow> ('c list \<times> 'r list) option" where
  "sim_all exec x [] = Some ([], [])"
| "sim_all exec x (c # cs) =
     (case exec x c of
        None \<Rightarrow> None
      | Some (c1, r) \<Rightarrow> (case sim_all exec x cs of None \<Rightarrow> None | Some (cs1, rs) \<Rightarrow> Some (c1 # cs1, r # rs)))"

locale simulation =
  fixes exec :: "'o \<Rightarrow> 'c \<Rightarrow> ('c \<times> 'r) option"
    and spec :: "'o \<Rightarrow> 's \<Rightarrow> 's \<times> 'r"
    and abs :: "'c \<Rightarrow> 's \<Rightarrow> bool"
    and inv :: "'s \<Rightarrow> bool"
  assumes sim: "abs c s \<Longrightarrow> inv s \<Longrightarrow> \<exists>c'. exec x c = Some (c', snd (spec x s)) \<and> abs c' (fst (spec x s))"
    and keeps: "inv s \<Longrightarrow> inv (fst (spec x s))"
begin

lemma run_sim:
  "abs c s \<Longrightarrow> inv s \<Longrightarrow>
   \<exists>c'. sim_run exec xs c = Some (c', snd (sim_spec_run spec xs s)) \<and> abs c' (fst (sim_spec_run spec xs s))
     \<and> inv (fst (sim_spec_run spec xs s))"
proof (induction xs arbitrary: c s)
  case Nil
  then show ?case by simp
next
  case (Cons x xs)
  obtain s1 r where s1: "spec x s = (s1, r)" by fastforce
  obtain c1 where c1: "exec x c = Some (c1, r)" "abs c1 s1" using sim [OF Cons.prems, of x] s1 by auto
  have "inv s1" using keeps [OF Cons.prems(2), of x] s1 by simp
  from Cons.IH [OF c1(2) this] show ?case
    by (auto simp: s1 c1(1) split: prod.split)
qed

text \<open>A vector of components simulates the vector of their references.\<close>

definition abs_all :: "'c list \<Rightarrow> 's list \<Rightarrow> bool" where
  "abs_all cs ss \<longleftrightarrow> list_all2 abs cs ss \<and> list_all inv ss"

lemma at_sim:
  assumes "abs_all cs ss" and "i < length cs"
  shows "\<exists>cs'. sim_at exec (i, x) cs = Some (cs', snd (sim_spec_at spec (i, x) ss))
    \<and> abs_all cs' (fst (sim_spec_at spec (i, x) ss))"
proof -
  obtain s1 r where s1: "spec x (ss ! i) = (s1, r)" by fastforce
  have l: "length cs = length ss" using assms(1) by (auto simp: abs_all_def dest: list_all2_lengthD)
  have a: "abs (cs ! i) (ss ! i)" "inv (ss ! i)"
    using assms l by (auto simp: abs_all_def list_all_length list_all2_conv_all_nth)
  obtain c1 where c1: "exec x (cs ! i) = Some (c1, r)" "abs c1 s1" using sim [OF a, of x] s1 by auto
  have "inv s1" using keeps [OF a(2), of x] s1 by simp
  then have "abs_all (cs[i := c1]) (ss[i := s1])"
    using assms c1(2) unfolding abs_all_def
    by (auto intro: list_all2_update_cong simp: list_all_iff dest!: set_update_subset_insert [THEN subsetD])
  then show ?thesis by (simp add: sim_at_def sim_spec_at_def s1 c1(1))
qed

lemma all_sim:
  "abs_all cs ss \<Longrightarrow>
   \<exists>cs'. sim_all exec x cs = Some (cs', map (snd \<circ> spec x) ss) \<and> abs_all cs' (map (fst \<circ> spec x) ss)"
proof (induction cs arbitrary: ss)
  case Nil
  then show ?case by (simp add: abs_all_def)
next
  case (Cons c cs)
  then obtain s ts where ss: "ss = s # ts" by (cases ss) (auto simp: abs_all_def)
  have a: "abs c s" "inv s" "abs_all cs ts" using Cons.prems by (auto simp: abs_all_def ss)
  obtain c1 where c1: "exec x c = Some (c1, snd (spec x s))" "abs c1 (fst (spec x s))" using sim [OF a(1,2), of x] by blast
  from Cons.IH [OF a(3)] c1 keeps [OF a(2), of x] show ?case
    by (auto simp: ss abs_all_def)
qed

end

end
