(* ===== verification/Lrux_Run.thy ===== *)
theory Lrux_Run
  imports Lrux_Spec Simulation "HOL-Library.Multiset"
begin

text \<open>
  Package \<open>lrux\<close>: the cache as a whole. Every exported operation is a command; a run of commands on
  the heap implementation returns, and gives the results of the same run on the reference cache.
  What the cache promises (the bound, freshness, the accounting of evictions) is then a fact about
  the reference cache, carried over.
\<close>

datatype ('k, 'v) lrux_cmd =
    CSet int 'k 'v
  | CSetWithTTL int 'k 'v int
  | CGet int int 'k
  | CGetFast int 'k
  | CPeek int 'k
  | CHas int 'k
  | CGetEntry int 'k
  | CTTL int 'k
  | CTouch int int 'k
  | CDelete 'k
  | CDeleteMulti "'k list"
  | CSetMulti int "('k \<times> 'v) list"
  | CGetMulti "('k \<times> int \<times> int) list"
  | CResize int
  | CLen
  | CLenValid "'k \<Rightarrow> int"
  | CKeys "'k \<Rightarrow> int"
  | CValues "'k \<Rightarrow> int"
  | CSnapshot "'k \<Rightarrow> int"
  | CRange "'k \<Rightarrow> int" "('k \<times> 'v) list \<Rightarrow> bool"
  | CExpireOld "'k \<Rightarrow> int"
  | CStats
  | CResetStats
  | CClear
  | CClose
  | CIsClosed

datatype ('k, 'v) lrux_res =
    RUnit
  | RVal "'v option"
  | RBool bool
  | RInt int
  | RNat nat
  | REntry "('k, 'v) lrux_Entry option"
  | RKeys "'k list"
  | RValues "'v list"
  | REntries "('k, 'v) lrux_Entry list"
  | RPairs "('k \<times> 'v) list"
  | RMap "'k \<Rightarrow> 'v option"
  | RStats lrux_Stats

text \<open>\<open>Range\<close> with a callback that records what it sees and decides on that record whether to go on.\<close>

definition lrux_range_fn :: "(('k \<times> 'v) list \<Rightarrow> bool) \<Rightarrow> 'k \<Rightarrow> 'v \<Rightarrow> ('k \<times> 'v) list \<Rightarrow> ('k \<times> 'v) list \<times> bool" where
  "lrux_range_fn P k v seen = (seen @ [(k, v)], P (seen @ [(k, v)]))"

fun lrux_exec ::
  "('k, 'v) lrux_cmd \<Rightarrow> ('k, 'v) lrux_Cache \<Rightarrow> (('k, 'v) lrux_Cache \<times> ('k, 'v) lrux_res) option" where
  "lrux_exec (CSet now k v) c = Some (lrux_Set now k v c, RUnit)"
| "lrux_exec (CSetWithTTL now k v ttl) c = Some (lrux_SetWithTTL now k v ttl c, RUnit)"
| "lrux_exec (CGet t t' k) c = Some (map_prod id RVal (lrux_Get t t' k c))"
| "lrux_exec (CGetFast t k) c = Some (map_prod id RVal (lrux_GetFast t k c))"
| "lrux_exec (CPeek t k) c = Some (c, RVal (lrux_Peek t k c))"
| "lrux_exec (CHas t k) c = Some (c, RBool (lrux_Has t k c))"
| "lrux_exec (CGetEntry t k) c = Some (c, REntry (lrux_GetEntry t k c))"
| "lrux_exec (CTTL t k) c = Some (c, RInt (lrux_TTL t k c))"
| "lrux_exec (CTouch t t' k) c = Some (map_prod id RBool (lrux_Touch t t' k c))"
| "lrux_exec (CDelete k) c = Some (map_prod id RBool (lrux_Delete k c))"
| "lrux_exec (CDeleteMulti ks) c = Some (map_prod id RNat (lrux_DeleteMulti ks c))"
| "lrux_exec (CSetMulti now kvs) c = map_option (\<lambda>c. (c, RUnit)) (lrux_SetMulti now kvs c)"
| "lrux_exec (CGetMulti ks) c = Some (map_prod id RMap (lrux_GetMulti ks c Map.empty))"
| "lrux_exec (CResize n) c = map_option (\<lambda>c. (c, RUnit)) (lrux_Resize n c)"
| "lrux_exec CLen c = Some (c, RInt (lrux_Len c))"
| "lrux_exec (CLenValid now) c = map_option (\<lambda>n. (c, RNat n)) (lrux_LenValid now c)"
| "lrux_exec (CKeys now) c = map_option (map_prod id RKeys) (lrux_Keys now c)"
| "lrux_exec (CValues now) c = map_option (map_prod id RValues) (lrux_Values now c)"
| "lrux_exec (CSnapshot now) c = map_option (map_prod id REntries) (lrux_Snapshot now c)"
| "lrux_exec (CRange now P) c = map_option (map_prod id RPairs) (lrux_Range now (lrux_range_fn P) [] c)"
| "lrux_exec (CExpireOld now) c = map_option (map_prod id RNat) (lrux_ExpireOld now c)"
| "lrux_exec CStats c = Some (c, RStats (lrux_CacheStats c))"
| "lrux_exec CResetStats c = Some (lrux_ResetStats c, RUnit)"
| "lrux_exec CClear c = map_option (\<lambda>c. (c, RUnit)) (lrux_Clear c)"
| "lrux_exec CClose c = map_option (\<lambda>c. (c, RUnit)) (lrux_Close c)"
| "lrux_exec CIsClosed c = Some (c, RBool (lrux_IsClosed c))"

subsection \<open>The reference cache\<close>

definition sp_live :: "int \<Rightarrow> 'k \<Rightarrow> ('k, 'v) lrux_spec \<Rightarrow> ('k, 'v) lrux_Entry option" where
  "sp_live t k s =
     (if sp_closed s then None
      else case sp_find k (sp_es s) of None \<Rightarrow> None | Some e \<Rightarrow> if sp_expired t e then None else Some e)"

definition sp_lookup :: "int \<Rightarrow> int \<Rightarrow> 'k \<Rightarrow> ('k, 'v) lrux_spec \<Rightarrow> ('k, 'v) lrux_spec \<times> 'v option" where
  "sp_lookup t t' k s =
     (case sp_find k (sp_es s) of
        None \<Rightarrow> (s, None)
      | Some e \<Rightarrow>
          if sp_expired t e then (sp_drop EvictionExpired e (s\<lparr>sp_evs := sp_evs s + 1\<rparr>), None)
          else (sp_front (e\<lparr>en_AccessedAt := t'\<rparr>) s, Some (en_Value e)))"

definition sp_get :: "int \<Rightarrow> int \<Rightarrow> 'k \<Rightarrow> ('k, 'v) lrux_spec \<Rightarrow> ('k, 'v) lrux_spec \<times> 'v option" where
  "sp_get t t' k s =
     (if sp_closed s then (s, None)
      else case sp_lookup t t' k s of
             (s1, Some v) \<Rightarrow> (s1\<lparr>sp_hits := sp_hits s1 + 1\<rparr>, Some v)
           | (s1, None) \<Rightarrow> (s1\<lparr>sp_misses := sp_misses s1 + 1\<rparr>, None))"

definition sp_getFast :: "int \<Rightarrow> 'k \<Rightarrow> ('k, 'v) lrux_spec \<Rightarrow> ('k, 'v) lrux_spec \<times> 'v option" where
  "sp_getFast t k s =
     (if sp_closed s then (s, None)
      else case sp_live t k s of
             Some e \<Rightarrow> (s\<lparr>sp_hits := sp_hits s + 1\<rparr>, Some (en_Value e))
           | None \<Rightarrow> (s\<lparr>sp_misses := sp_misses s + 1\<rparr>, None))"

definition sp_touch :: "int \<Rightarrow> int \<Rightarrow> 'k \<Rightarrow> ('k, 'v) lrux_spec \<Rightarrow> ('k, 'v) lrux_spec \<times> bool" where
  "sp_touch t now k s =
     (if sp_closed s then (s, False)
      else case sp_find k (sp_es s) of
             None \<Rightarrow> (s, False)
           | Some e \<Rightarrow>
               if sp_expired t e then (sp_drop EvictionExpired e (s\<lparr>sp_evs := sp_evs s + 1\<rparr>), False)
               else (sp_front ((lrux_slide (sp_ttl s) now e)\<lparr>en_AccessedAt := now\<rparr>) s, True))"

definition sp_delete :: "'k \<Rightarrow> ('k, 'v) lrux_spec \<Rightarrow> ('k, 'v) lrux_spec \<times> bool" where
  "sp_delete k s =
     (case sp_find k (sp_es s) of None \<Rightarrow> (s, False) | Some e \<Rightarrow> (sp_drop EvictionDeleted e s, True))"

fun sp_deletes :: "'k list \<Rightarrow> ('k, 'v) lrux_spec \<Rightarrow> ('k, 'v) lrux_spec \<times> nat" where
  "sp_deletes [] s = (s, 0)"
| "sp_deletes (k # ks) s =
     (case sp_delete k s of
        (s1, d) \<Rightarrow> (case sp_deletes ks s1 of (s2, n) \<Rightarrow> (s2, if d then n + 1 else n)))"

definition sp_puts :: "int \<Rightarrow> ('k \<times> 'v) list \<Rightarrow> ('k, 'v) lrux_spec \<Rightarrow> ('k, 'v) lrux_spec" where
  "sp_puts now kvs s = fold (\<lambda>(k, v). sp_put now (sp_expireTime now 0 s) k v) kvs s"

fun sp_gets ::
  "('k \<times> int \<times> int) list \<Rightarrow> ('k, 'v) lrux_spec \<Rightarrow> ('k \<Rightarrow> 'v option) \<Rightarrow> ('k, 'v) lrux_spec \<times> ('k \<Rightarrow> 'v option)" where
  "sp_gets [] s m = (s, m)"
| "sp_gets ((k, t, t') # ks) s m =
     (case sp_get t t' k s of (s1, r) \<Rightarrow> sp_gets ks s1 (case r of Some v \<Rightarrow> m(k \<mapsto> v) | None \<Rightarrow> m))"

definition sp_scan ::
  "('k \<Rightarrow> int) \<Rightarrow> ('a \<Rightarrow> 'a) \<Rightarrow> (('k, 'v) lrux_Entry \<Rightarrow> 'a \<Rightarrow> 'a \<times> bool) \<Rightarrow> 'a \<Rightarrow> ('k, 'v) lrux_spec
     \<Rightarrow> ('k, 'v) lrux_spec \<times> 'a" where
  "sp_scan now onExp visit acc s =
     (if sp_closed s then (s, acc)
      else case sp_sweep now onExp visit (sp_es s) acc of
             (kept, gone, acc1) \<Rightarrow>
               (sp_fire (map (sp_ev EvictionExpired) gone) (sp_swept kept (length gone) s), acc1))"

definition sp_drain :: "('k, 'v) lrux_spec \<Rightarrow> ('k, 'v) lrux_spec" where
  "sp_drain s = sp_fire (map (sp_ev EvictionCleared) (sp_es s)) (s\<lparr>sp_es := []\<rparr>)"

fun sp_exec :: "('k, 'v) lrux_cmd \<Rightarrow> ('k, 'v) lrux_spec \<Rightarrow> ('k, 'v) lrux_spec \<times> ('k, 'v) lrux_res" where
  "sp_exec (CSet now k v) s = (sp_set now k v 0 s, RUnit)"
| "sp_exec (CSetWithTTL now k v ttl) s = (sp_set now k v ttl s, RUnit)"
| "sp_exec (CGet t t' k) s = map_prod id RVal (sp_get t t' k s)"
| "sp_exec (CGetFast t k) s = map_prod id RVal (sp_getFast t k s)"
| "sp_exec (CPeek t k) s = (s, RVal (map_option en_Value (sp_live t k s)))"
| "sp_exec (CHas t k) s = (s, RBool (sp_live t k s \<noteq> None))"
| "sp_exec (CGetEntry t k) s = (s, REntry (sp_live t k s))"
| "sp_exec (CTTL t k) s =
     (s, RInt (if sp_closed s then 0
               else case sp_find k (sp_es s) of
                      None \<Rightarrow> 0
                    | Some e \<Rightarrow> (case en_ExpiresAt e of None \<Rightarrow> - 1 | Some x \<Rightarrow> max 0 (x - t))))"
| "sp_exec (CTouch t t' k) s = map_prod id RBool (sp_touch t t' k s)"
| "sp_exec (CDelete k) s = map_prod id RBool (if sp_closed s then (s, False) else sp_delete k s)"
| "sp_exec (CDeleteMulti ks) s = map_prod id RNat (if sp_closed s then (s, 0) else sp_deletes ks s)"
| "sp_exec (CSetMulti now kvs) s = (if sp_closed s \<or> kvs = [] then s else sp_trim (sp_puts now kvs s), RUnit)"
| "sp_exec (CGetMulti ks) s = map_prod id RMap (sp_gets ks s Map.empty)"
| "sp_exec (CResize n) s = (if sp_closed s then s else sp_trim (s\<lparr>sp_cap := max 0 n\<rparr>), RUnit)"
| "sp_exec CLen s = (s, RInt (if sp_closed s then 0 else int (length (sp_es s))))"
| "sp_exec (CLenValid now) s =
     (s, RNat (if sp_closed s then 0
               else length (filter (\<lambda>e. \<not> sp_expired (now (en_Key e)) e) (sp_es s))))"
| "sp_exec (CKeys now) s = map_prod id RKeys (sp_scan now (\<lambda>a. a) (\<lambda>e ks. (ks @ [en_Key e], True)) [] s)"
| "sp_exec (CValues now) s = map_prod id RValues (sp_scan now (\<lambda>a. a) (\<lambda>e vs. (vs @ [en_Value e], True)) [] s)"
| "sp_exec (CSnapshot now) s = map_prod id REntries (sp_scan now (\<lambda>a. a) (\<lambda>e es. (es @ [e], True)) [] s)"
| "sp_exec (CRange now P) s =
     map_prod id RPairs (sp_scan now (\<lambda>a. a) (\<lambda>e. lrux_range_fn P (en_Key e) (en_Value e)) [] s)"
| "sp_exec (CExpireOld now) s = map_prod id RNat (sp_scan now (\<lambda>n. n + 1) (\<lambda>e n. (n, True)) 0 s)"
| "sp_exec CStats s =
     (s, RStats \<lparr>ls_Size = int (length (sp_es s)), ls_Capacity = sp_cap s, ls_Hits = sp_hits s,
                 ls_Misses = sp_misses s, ls_Evictions = sp_evs s,
                 ls_HitRate = lrux_hitRate (sp_hits s) (sp_misses s)\<rparr>)"
| "sp_exec CResetStats s = (s\<lparr>sp_hits := 0, sp_misses := 0, sp_evs := 0\<rparr>, RUnit)"
| "sp_exec CClear s = (if sp_closed s then s else sp_drain s, RUnit)"
| "sp_exec CClose s = (if sp_closed s then s else sp_drain (s\<lparr>sp_closed := True\<rparr>), RUnit)"
| "sp_exec CIsClosed s = (s, RBool (sp_closed s))"

subsection \<open>Each operation refines its reference\<close>

definition sp_inv :: "('k, 'v) lrux_spec \<Rightarrow> bool" where
  "sp_inv s \<longleftrightarrow> distinct (map en_Key (sp_es s)) \<and> (0 < sp_cap s \<longrightarrow> int (length (sp_es s)) \<le> sp_cap s)
     \<and> (sp_closed s \<longrightarrow> sp_es s = [])"

lemma lrux_reads_eq:
  assumes "lrux_abs c s"
  shows "lrux_Peek t k c = map_option en_Value (sp_live t k s)
    \<and> lrux_Has t k c = (sp_live t k s \<noteq> None) \<and> lrux_GetEntry t k c = sp_live t k s"
  using assms
proof (cases rule: lrux_lookup [of c s k])
  case (hit xs p e ys)
  then show ?thesis
    using lrux_absD(7) [OF assms] lrux_expired_eq [OF hit(3), of p e t] lrux_rep_at(1,4) [OF hit(3), of p e]
    by (simp add: sp_live_def lrux_Peek_def lrux_Has_def lrux_GetEntry_def)
qed (use lrux_absD(7) [OF assms] in \<open>simp add: sp_live_def lrux_Peek_def lrux_Has_def lrux_GetEntry_def\<close>)

lemma lrux_TTL_eq:
  assumes "lrux_abs c s"
  shows "RInt (lrux_TTL t k c) = snd (sp_exec (CTTL t k) s)"
  using assms
proof (cases rule: lrux_lookup [of c s k])
  case (hit xs p e ys)
  then show ?thesis
    using lrux_absD(7) [OF assms] lrux_rep_at(5) [OF hit(3), of p e]
    by (simp add: lrux_TTL_def Let_def max_def split: option.split)
qed (use lrux_absD(7) [OF assms] in \<open>simp add: lrux_TTL_def\<close>)

lemma lrux_peekPromote_abs:
  assumes "lrux_abs c s"
  shows "lrux_abs (fst (lrux_peekPromote t t' k c)) (fst (sp_lookup t t' k s))"
    and "snd (lrux_peekPromote t t' k c) = snd (sp_lookup t t' k s)"
proof -
  have "lrux_abs (fst (lrux_peekPromote t t' k c)) (fst (sp_lookup t t' k s))
    \<and> snd (lrux_peekPromote t t' k c) = snd (sp_lookup t t' k s)"
    using assms
  proof (cases rule: lrux_lookup [of c s k])
    case (miss pes)
    then show ?thesis using assms by (simp add: lrux_peekPromote_def sp_lookup_def)
  next
    case (hit xs p e ys)
    have del: "sp_del (en_Key e) (sp_es s) = map snd (xs @ ys)" using hit by simp
    note ex = lrux_expired_eq [OF hit(3), of p e t]
    show ?thesis
      using lrux_drop_expired_abs [OF assms hit(3) del] lrux_promote_abs [OF assms hit(3) del, of t'] ex
      by (simp add: lrux_peekPromote_def sp_lookup_def hit(1,2))
  qed
  then show "lrux_abs (fst (lrux_peekPromote t t' k c)) (fst (sp_lookup t t' k s))"
    and "snd (lrux_peekPromote t t' k c) = snd (sp_lookup t t' k s)" by simp_all
qed

text \<open>\<open>Get\<close> is \<open>peekPromote\<close> with the statistics.\<close>

lemma lrux_Get_peek:
  "lrux_Get t t' k c =
     (if lc_closed c then (c, None)
      else case lrux_peekPromote t t' k c of
             (c1, Some v) \<Rightarrow> (lrux_hit c1, Some v)
           | (c1, None) \<Rightarrow> (lrux_miss c1, None))"
  by (simp add: lrux_Get_def lrux_peekPromote_def split: option.split)

lemma lrux_Get_abs:
  assumes "lrux_abs c s"
  shows "lrux_abs (fst (lrux_Get t t' k c)) (fst (sp_get t t' k s))"
    and "snd (lrux_Get t t' k c) = snd (sp_get t t' k s)"
proof -
  obtain c1 r where c1: "lrux_peekPromote t t' k c = (c1, r)" by fastforce
  obtain s1 r' where s1: "sp_lookup t t' k s = (s1, r')" by fastforce
  have "lrux_abs c1 s1" "r = r'"
    using lrux_peekPromote_abs [OF assms, of t t' k] by (simp_all add: c1 s1)
  then show "lrux_abs (fst (lrux_Get t t' k c)) (fst (sp_get t t' k s))"
    and "snd (lrux_Get t t' k c) = snd (sp_get t t' k s)"
    using assms lrux_absD(7) [OF assms] lrux_abs_counters(1,2) [of c1 s1]
    by (simp_all add: lrux_Get_peek sp_get_def c1 s1 split: option.split)
qed

lemma lrux_GetFast_abs:
  assumes "lrux_abs c s"
  shows "lrux_abs (fst (lrux_GetFast t k c)) (fst (sp_getFast t k s))
    \<and> snd (lrux_GetFast t k c) = snd (sp_getFast t k s)"
  using assms
proof (cases rule: lrux_lookup [of c s k])
  case (miss pes)
  then show ?thesis using assms lrux_absD(7) [OF assms] lrux_abs_counters(2) [OF assms]
    by (simp add: lrux_GetFast_def sp_getFast_def sp_live_def)
next
  case (hit xs p e ys)
  then show ?thesis
    using assms lrux_absD(7) [OF assms] lrux_abs_counters(1,2) [OF assms]
      lrux_expired_eq [OF hit(3), of p e t] lrux_rep_at(4) [OF hit(3), of p e]
    by (simp add: lrux_GetFast_def sp_getFast_def sp_live_def)
qed

lemma lrux_Touch_abs:
  assumes "lrux_abs c s"
  shows "lrux_abs (fst (lrux_Touch t now k c)) (fst (sp_touch t now k s))
    \<and> snd (lrux_Touch t now k c) = snd (sp_touch t now k s)"
  using assms
proof (cases rule: lrux_lookup [of c s k])
  case (miss pes)
  then show ?thesis using assms lrux_absD(7) [OF assms] by (simp add: lrux_Touch_def sp_touch_def)
next
  case (hit xs p e ys)
  have del: "sp_del (en_Key e) (sp_es s) = map snd (xs @ ys)" using hit by simp
  let ?e = "lrux_slide (sp_ttl s) now e" and ?c = "lrux_slideExpiration p now c"
  have k: "en_Key ?e = en_Key e" by (simp add: lrux_slide_def split: option.split)
  have "lrux_rep ?c (xs @ (p, ?e) # ys)"
    using lrux_slide_rep [OF hit(3), of now] lrux_absD(2) [OF assms] by simp
  from lrux_promote_rep [OF this, of now]
  have "lrux_abs (lrux_promote p now ?c) (sp_front (?e\<lparr>en_AccessedAt := now\<rparr>) s)"
    by (rule lrux_front_abs [OF assms]) (simp_all add: del k)
  then show ?thesis
    using assms lrux_absD(7) [OF assms] lrux_drop_expired_abs [OF assms hit(3) del]
      lrux_expired_eq [OF hit(3), of p e t]
    by (simp add: lrux_Touch_def sp_touch_def hit(1,2))
qed

lemma sp_put_fields [simp]:
  "sp_cap (sp_put now xp k v s) = sp_cap s" "sp_closed (sp_put now xp k v s) = sp_closed s"
  "sp_ttl (sp_put now xp k v s) = sp_ttl s" "sp_hook (sp_put now xp k v s) = sp_hook s"
  by (simp_all add: sp_put_def sp_front_def split: option.split)

lemma sp_put_length: "length (sp_es (sp_put now xp k v s)) \<le> length (sp_es s) + 1"
  by (simp add: sp_put_def sp_front_def sp_del_def split: option.split)

lemma lrux_Set_abs:
  assumes "lrux_abs c s" and "sp_inv s"
  shows "lrux_abs (lrux_SetWithTTL now k v ttl c) (sp_set now k v ttl s)"
proof -
  have xp: "lrux_expireTime now ttl c = sp_expireTime now ttl s"
    using lrux_absD(2) [OF assms(1)] by (simp add: lrux_expireTime_def sp_expireTime_def)
  note cl = lrux_absD(7) [OF assms(1)]
  from assms(1) show ?thesis
  proof (cases rule: lrux_lookup [of c s k])
    case (hit xs p e ys)
    then show ?thesis
      using assms(1) lrux_overwrite_abs(1) [OF assms(1) hit(3,4,2,6)]
      by (simp add: lrux_SetWithTTL_def sp_set_def cl xp)
  next
    case (miss pes)
    let ?s = "sp_put now (sp_expireTime now ttl s) k v s"
    have a: "lrux_abs (lrux_insert_new k v now (sp_expireTime now ttl s) c) ?s"
      by (rule lrux_insert_abs [OF assms(1) miss(1)])
    have len: "0 < sp_cap ?s \<Longrightarrow> int (length (sp_es ?s)) \<le> sp_cap ?s + 1"
      using assms(2) sp_put_length [of now "sp_expireTime now ttl s" k v s] by (simp add: sp_inv_def)
    obtain c1 evs where t: "lrux_trim1 (lrux_insert_new k v now (sp_expireTime now ttl s) c) = (c1, evs)"
      by fastforce
    from lrux_trim1_abs [OF a len t] miss assms(1) show ?thesis
      by (simp add: lrux_SetWithTTL_def sp_set_def cl xp t)
  qed
qed

text \<open>
  Inside a multi-key operation events are pending: the cache is at a reference state from which
  firing them gives the state reached so far.
\<close>

definition lrux_pend ::
  "('k, 'v) lrux_Cache \<Rightarrow> ('k, 'v) lrux_evictEvent list \<Rightarrow> ('k, 'v) lrux_spec \<Rightarrow> bool" where
  "lrux_pend c evs s \<longleftrightarrow> (\<exists>s0. lrux_abs c s0 \<and> sp_fire evs s0 = s)"

lemma lrux_pend_start: "lrux_abs c s \<Longrightarrow> lrux_pend c [] s"
  by (auto simp: lrux_pend_def sp_fire_def)

lemma lrux_pend_fire: "lrux_pend c evs s \<Longrightarrow> lrux_abs (lrux_fireCallbacks evs c) s"
  unfolding lrux_pend_def using lrux_fire_abs by blast

lemma sp_fire_append: "sp_fire (xs @ ys) s = sp_fire ys (sp_fire xs s)"
  by (simp add: sp_fire_def)

lemma sp_fire_es: "sp_fire evs (s\<lparr>sp_es := es\<rparr>) = (sp_fire evs s)\<lparr>sp_es := es\<rparr>"
  by (simp add: sp_fire_def)

text \<open>Unless the hook is set the events do not matter.\<close>

lemma sp_fire_hook: "(sp_hook s \<Longrightarrow> evs = evs') \<Longrightarrow> sp_fire evs s = sp_fire evs' s"
  by (simp add: sp_fire_def)

lemma lrux_delete_abs:
  assumes "lrux_abs c s" and "lrux_rep c (xs @ (p, e) # ys)"
    and "sp_del (en_Key e) (sp_es s) = map snd (xs @ ys)"
    and "lrux_removeNodeLocked p EvictionDeleted c = (c1, ev)"
  shows "lrux_pend c1 (lrux_event_list ev) (sp_drop EvictionDeleted e s)"
  unfolding lrux_pend_def
  using lrux_remove_abs [OF assms]
  by (auto simp: sp_drop_def sp_fire_def)

lemma lrux_Delete_abs:
  assumes "lrux_abs c s"
  shows "lrux_abs (fst (lrux_Delete k c)) (fst (if sp_closed s then (s, False) else sp_delete k s))
    \<and> snd (lrux_Delete k c) = snd (if sp_closed s then (s, False) else sp_delete k s)"
  using assms
proof (cases rule: lrux_lookup [of c s k])
  case (miss pes)
  then show ?thesis using assms lrux_absD(7) [OF assms] by (simp add: lrux_Delete_def sp_delete_def)
next
  case (hit xs p e ys)
  have del: "sp_del (en_Key e) (sp_es s) = map snd (xs @ ys)" using hit by simp
  obtain c1 ev where r: "lrux_removeNodeLocked p EvictionDeleted c = (c1, ev)" by fastforce
  from lrux_pend_fire [OF lrux_delete_abs [OF assms hit(3) del r]]
  show ?thesis using assms lrux_absD(7) [OF assms]
    by (simp add: lrux_Delete_def sp_delete_def hit(1,2) r lrux_fireCallback_eq)
qed

lemma lrux_DeleteMulti_abs:
  assumes "lrux_pend c evs s"
  shows "\<exists>c' evs'. lrux_DeleteMulti_loop ks c evs n = (c', evs', n + snd (sp_deletes ks s)) \<and>
    lrux_pend c' evs' (fst (sp_deletes ks s))"
  using assms
proof (induction ks arbitrary: c evs s n)
  case Nil
  then show ?case by simp
next
  case (Cons k ks)
  obtain s0 where s0: "lrux_abs c s0" "sp_fire evs s0 = s" using Cons.prems by (auto simp: lrux_pend_def)
  have es: "sp_es s = sp_es s0" using s0(2) by auto
  from s0(1) show ?case
  proof (cases rule: lrux_lookup [of c s0 k])
    case (miss pes)
    with Cons.IH [OF Cons.prems, of n] show ?thesis by (simp add: sp_delete_def es)
  next
    case (hit xs p e ys)
    have del: "sp_del (en_Key e) (sp_es s0) = map snd (xs @ ys)" using hit by simp
    obtain c1 ev where r: "lrux_removeNodeLocked p EvictionDeleted c = (c1, ev)" by fastforce
    note rm = lrux_remove_abs [OF s0(1) hit(3) del r]
    have "sp_fire (evs @ lrux_event_list ev) (s0\<lparr>sp_es := sp_del (en_Key e) (sp_es s0)\<rparr>) =
        sp_drop EvictionDeleted e s"
      using rm(2) s0(2) by (auto simp: sp_drop_def sp_fire_def)
    with rm(1) have "lrux_pend c1 (evs @ lrux_event_list ev) (sp_drop EvictionDeleted e s)"
      by (auto simp: lrux_pend_def)
    from Cons.IH [OF this, of "n + 1"] show ?thesis
      by (cases "sp_deletes ks (sp_drop EvictionDeleted e s)") (simp add: hit(1,2) r sp_delete_def es)
  qed
qed

lemma lrux_SetMulti_loop_abs:
  assumes "lrux_pend c evs s"
  shows "\<exists>c' evs'. lrux_SetMulti_loop now xp kvs c evs = (c', evs') \<and>
    lrux_pend c' evs' (fold (\<lambda>(k, v). sp_put now xp k v) kvs s)"
  using assms
proof (induction kvs arbitrary: c evs s)
  case Nil
  then show ?case by simp
next
  case (Cons kv kvs)
  obtain k v where kv: "kv = (k, v)" by fastforce
  obtain s0 where s0: "lrux_abs c s0" "sp_fire evs s0 = s" using Cons.prems by (auto simp: lrux_pend_def)
  have es: "sp_es s = sp_es s0" using s0(2) by auto
  from s0(1) show ?case
  proof (cases rule: lrux_lookup [of c s0 k])
    case (miss pes)
    have "sp_fire evs (sp_put now xp k v s0) = sp_put now xp k v s"
      using s0(2) miss(2) by (auto simp: sp_put_def sp_front_def sp_fire_def)
    then have "lrux_pend (lrux_insert_new k v now xp c) evs (sp_put now xp k v s)"
      using lrux_insert_abs [OF s0(1) miss(1)] by (auto simp: lrux_pend_def)
    from Cons.IH [OF this] show ?thesis by (simp add: kv miss(1))
  next
    case (hit xs p e ys)
    note ow = lrux_overwrite_abs(2,3) [OF s0(1) hit(3,4,2,6)]
    have "sp_fire (evs @ lrux_replaced_event p c)
        (sp_front (e\<lparr>en_Value := v, en_AccessedAt := now, en_ExpiresAt := xp\<rparr>) s0) = sp_put now xp k v s"
      using ow(2) s0(2) hit(2) by (auto simp: sp_put_def sp_front_def sp_fire_def)
    with ow(1) have "lrux_pend (lrux_overwrite p v now xp c) (evs @ lrux_replaced_event p c) (sp_put now xp k v s)"
      unfolding lrux_pend_def by blast
    from Cons.IH [OF this] show ?thesis by (simp add: kv hit(1))
  qed
qed

lemma lrux_trim_pend:
  assumes "lrux_pend c evs s" and "0 < sp_cap s"
  shows "\<exists>c' evs'. lrux_SetMulti_trim c evs = Some (c', evs') \<and> lrux_pend c' evs' (sp_trim s)"
    and "\<exists>c' evs'. lrux_Resize_loop c evs = Some (c', evs') \<and> lrux_pend c' evs' (sp_trim s)"
proof -
  obtain s0 where s0: "lrux_abs c s0" "sp_fire evs s0 = s" using assms(1) by (auto simp: lrux_pend_def)
  have f: "sp_cap s = sp_cap s0" "sp_es s = sp_es s0" "sp_hook s = sp_hook s0" using s0(2) by auto
  have fin: "sp_fire evs' (sp_trimmed (nat (sp_cap s)) s0) = sp_trim s"
    if "sp_hook s0 \<longrightarrow> evs' = evs @ map (sp_ev EvictionCapacity) (rev (drop (nat (sp_cap s)) (sp_es s0)))" for evs'
    using that assms(2) s0(2) by (auto simp: sp_trim_eq f sp_fire_def sp_trimmed_def)
  have 0: "0 < sp_cap s0" using assms(2) f by simp
  show "\<exists>c' evs'. lrux_SetMulti_trim c evs = Some (c', evs') \<and> lrux_pend c' evs' (sp_trim s)"
    using lrux_SetMulti_trim_abs [OF s0(1), of evs] 0 fin unfolding f(1) lrux_pend_def by fastforce
  show "\<exists>c' evs'. lrux_Resize_loop c evs = Some (c', evs') \<and> lrux_pend c' evs' (sp_trim s)"
    using lrux_Resize_loop_abs [OF s0(1) 0, of evs] fin unfolding f(1) lrux_pend_def by fastforce
qed

lemma sp_puts_fields [simp]:
  "sp_cap (fold (\<lambda>(k, v). sp_put now xp k v) kvs s) = sp_cap s"
  "sp_closed (fold (\<lambda>(k, v). sp_put now xp k v) kvs s) = sp_closed s"
  by (induction kvs arbitrary: s) (auto split: prod.splits)

lemma lrux_pend_cap: "lrux_pend c evs s \<Longrightarrow> lc_capacity c = sp_cap s"
  by (auto simp: lrux_pend_def dest: lrux_absD(1))

lemma lrux_SetMulti_abs:
  assumes "lrux_abs c s"
  shows "\<exists>c'. lrux_SetMulti now kvs c = Some c' \<and> lrux_abs c' (fst (sp_exec (CSetMulti now kvs) s))"
proof (cases "sp_closed s \<or> kvs = []")
  case True
  then show ?thesis using assms lrux_absD(7) [OF assms] by (auto simp: lrux_SetMulti_def)
next
  case False
  have xp: "lrux_expireTime now 0 c = sp_expireTime now 0 s"
    using lrux_absD(2) [OF assms] by (simp add: lrux_expireTime_def sp_expireTime_def)
  obtain c1 evs where l: "lrux_SetMulti_loop now (sp_expireTime now 0 s) kvs c [] = (c1, evs)"
      and p: "lrux_pend c1 evs (sp_puts now kvs s)"
    using lrux_SetMulti_loop_abs [OF lrux_pend_start [OF assms]] unfolding sp_puts_def by blast
  show ?thesis
  proof (cases "0 < sp_cap (sp_puts now kvs s)")
    case True
    from lrux_trim_pend(1) [OF p True] obtain c2 evs2 where
      "lrux_SetMulti_trim c1 evs = Some (c2, evs2)" "lrux_pend c2 evs2 (sp_trim (sp_puts now kvs s))" by blast
    with False True lrux_pend_cap [OF p] show ?thesis
      using lrux_absD(7) [OF assms] by (auto simp: lrux_SetMulti_def xp l intro: lrux_pend_fire)
  next
    case cap: False
    then have "sp_trim (sp_puts now kvs s) = sp_puts now kvs s" by (simp add: sp_trim_def)
    with cap False lrux_pend_cap [OF p] show ?thesis
      using lrux_absD(7) [OF assms] lrux_pend_fire [OF p] by (auto simp: lrux_SetMulti_def xp l)
  qed
qed

lemma lrux_Resize_abs:
  assumes "lrux_abs c s"
  shows "\<exists>c'. lrux_Resize n c = Some c' \<and> lrux_abs c' (fst (sp_exec (CResize n) s))"
proof (cases "sp_closed s")
  case True
  then show ?thesis using assms lrux_absD(7) [OF assms] by (simp add: lrux_Resize_def)
next
  case False
  let ?s = "s\<lparr>sp_cap := max 0 n\<rparr>" and ?c = "c\<lparr>lc_capacity := (if n < 0 then 0 else n)\<rparr>"
  have m: "(if n < 0 then 0 else n) = max 0 n" by simp
  have a: "lrux_abs ?c ?s" using lrux_abs_counters(4) [OF assms, of "max 0 n"] by (simp only: m)
  show ?thesis
  proof (cases "0 < n")
    case True
    with lrux_trim_pend(2) [OF lrux_pend_start [OF a]] obtain c2 evs2 where
      "lrux_Resize_loop ?c [] = Some (c2, evs2)" "lrux_pend c2 evs2 (sp_trim ?s)" by fastforce
    with True False show ?thesis
      using lrux_absD(7) [OF assms] by (auto simp: lrux_Resize_def Let_def intro: lrux_pend_fire)
  next
    case n: False
    then have "sp_trim ?s = ?s" by (simp add: sp_trim_def)
    with n False a show ?thesis
      using lrux_absD(7) [OF assms]
      by (cases "n < 0") (auto simp: lrux_Resize_def Let_def lrux_fireCallbacks_eq lrux_abs_def)
  qed
qed

lemma lrux_first_head: "lrux_rep c pes \<Longrightarrow> lrux_first pes = lc_head c"
  using lrux_rep_head by (fastforce simp: lrux_first_def)

lemma lrux_scan_abs:
  assumes "lrux_abs c s"
  shows "\<exists>c'. lrux_scan now onExp (\<lambda>n. visit (lrux_entry_of n)) acc c =
      Some (c', snd (sp_scan now onExp visit acc s)) \<and> lrux_abs c' (fst (sp_scan now onExp visit acc s))"
proof (cases "sp_closed s")
  case True
  then show ?thesis using assms lrux_absD(7) [OF assms] by (simp add: lrux_scan_def sp_scan_def)
next
  case False
  obtain pes where r: "lrux_rep c ([] @ pes)" "sp_es s = map snd ([] @ pes)"
    using assms by (auto simp: lrux_abs_def)
  obtain kept gone acc1 where sw: "sp_sweep now onExp visit (map snd pes) acc = (kept, gone, acc1)"
    by (metis prod_cases3)
  have hd: "lrux_first pes = lc_head c" using lrux_first_head [OF r(1)] by simp
  obtain c' evs where "lrux_sweep now onExp (\<lambda>n. visit (lrux_entry_of n)) c (lc_head c) [] acc = Some (c', evs, acc1)"
    and a: "lrux_abs c' (sp_swept kept (length gone) s)"
    and ev: "sp_hook s \<longrightarrow> evs = map (sp_ev EvictionExpired) gone"
    using lrux_sweep_abs [OF assms r sw, of "[]"] unfolding hd by auto
  moreover have "lrux_abs (lrux_fireCallbacks evs c')
      (sp_fire (map (sp_ev EvictionExpired) gone) (sp_swept kept (length gone) s))"
    by (rule lrux_fire_abs [OF a]) (use ev in \<open>simp add: sp_swept_def\<close>)
  ultimately show ?thesis
    using False lrux_absD(7) [OF assms] sw r(2) by (simp add: lrux_scan_def sp_scan_def)
qed

lemma lrux_drain_abs:
  assumes "lrux_abs c s"
  shows "\<exists>c'. lrux_drain EvictionCleared c = Some c' \<and> lrux_abs c' (sp_drain s)"
proof -
  obtain pes where r: "lrux_rep c ([] @ pes)" "sp_es s = map snd pes"
    using assms by (auto simp: lrux_abs_def)
  have walk: "lrux_walk_events EvictionCleared c (lc_head c) [] = Some (map (sp_ev EvictionCleared) (sp_es s))"
    using lrux_walk_events_eq [OF r(1)] lrux_first_head [OF r(1)] r(2) by simp
  let ?c = "c\<lparr>lc_items := Map.empty, lc_head := None, lc_tail := None, lc_size := 0\<rparr>"
  have "lrux_rep ?c []" by (simp add: lrux_rep_def lrux_list_def)
  then have a: "lrux_abs ?c (s\<lparr>sp_es := []\<rparr>)"
    using lrux_absD [OF assms] by (intro lrux_absI [of _ "[]"]) simp_all
  show ?thesis
  proof (cases "lc_onEvict c = None")
    case True
    then have "\<not> sp_hook s" using lrux_absD(3) [OF assms] by simp
    with a True show ?thesis by (simp add: lrux_drain_def sp_drain_def lrux_fireCallbacks_eq sp_fire_def)
  next
    case False
    with walk lrux_fire_abs [OF a, of _ "map (sp_ev EvictionCleared) (sp_es s)"] show ?thesis
      by (simp add: lrux_drain_def sp_drain_def)
  qed
qed

lemma lrux_GetMulti_abs:
  assumes "lrux_abs c s"
  shows "lrux_abs (fst (lrux_GetMulti ks c m)) (fst (sp_gets ks s m))
    \<and> snd (lrux_GetMulti ks c m) = snd (sp_gets ks s m)"
  using assms
proof (induction ks arbitrary: c s m)
  case Nil
  then show ?case by simp
next
  case (Cons q ks)
  obtain k t t' where q: "q = (k, t, t')" by (metis prod_cases3)
  obtain c1 r where c1: "lrux_Get t t' k c = (c1, r)" by fastforce
  obtain s1 where s1: "sp_get t t' k s = (s1, r)" "lrux_abs c1 s1"
    using lrux_Get_abs [OF Cons.prems, of t t' k] c1 by (metis fst_conv snd_conv prod.collapse)
  show ?case using Cons.IH [OF s1(2)] by (cases r) (simp_all add: q c1 s1(1) fun_upd_def)
qed

lemma lrux_DeleteMulti_cmd:
  assumes "lrux_abs c s"
  shows "lrux_abs (fst (lrux_DeleteMulti ks c)) (fst (if sp_closed s then (s, 0) else sp_deletes ks s))
    \<and> snd (lrux_DeleteMulti ks c) = snd (if sp_closed s then (s, 0) else sp_deletes ks s)"
proof -
  obtain c1 evs where l: "lrux_DeleteMulti_loop ks c [] 0 = (c1, evs, 0 + snd (sp_deletes ks s))"
      and p: "lrux_pend c1 evs (fst (sp_deletes ks s))"
    using lrux_DeleteMulti_abs [OF lrux_pend_start [OF assms], of ks 0] by blast
  from lrux_pend_fire [OF p] l show ?thesis
    using assms lrux_absD(7) [OF assms]
    by (cases "ks = []") (simp_all add: lrux_DeleteMulti_def)
qed

lemma lrux_exec_reads_refines:
  assumes "lrux_abs c s"
  shows "lrux_exec (CPeek t k) c = Some (c, snd (sp_exec (CPeek t k) s))"
    and "lrux_exec (CHas t k) c = Some (c, snd (sp_exec (CHas t k) s))"
    and "lrux_exec (CGetEntry t k) c = Some (c, snd (sp_exec (CGetEntry t k) s))"
    and "lrux_exec (CTTL t k) c = Some (c, snd (sp_exec (CTTL t k) s))"
    and "lrux_exec CLen c = Some (c, snd (sp_exec CLen s))"
    and "lrux_exec (CLenValid now) c = Some (c, snd (sp_exec (CLenValid now) s))"
    and "lrux_exec CStats c = Some (c, snd (sp_exec CStats s))"
    and "lrux_exec CIsClosed c = Some (c, snd (sp_exec CIsClosed s))"
proof -
  obtain pes where r: "lrux_rep c ([] @ pes)" "sp_es s = map snd pes"
    using assms by (auto simp: lrux_abs_def)
  show "lrux_exec (CLenValid now) c = Some (c, snd (sp_exec (CLenValid now) s))"
    using lrux_LenValid_loop_eq [OF r(1), of now 0] lrux_first_head [of c pes] r lrux_absD(7) [OF assms]
    by (simp add: lrux_LenValid_def)
qed (use lrux_reads_eq [OF assms] lrux_TTL_eq [OF assms] lrux_absD [OF assms] lrux_abs_size [OF assms] in
    \<open>simp_all add: lrux_Len_def lrux_CacheStats_def lrux_IsClosed_def\<close>)

lemma lrux_exec_refines:
  assumes "lrux_abs c s" and "sp_inv s"
  shows "\<exists>c'. lrux_exec cmd c = Some (c', snd (sp_exec cmd s)) \<and> lrux_abs c' (fst (sp_exec cmd s))"
proof (cases cmd)
  case (CSet now k v)
  then show ?thesis using lrux_Set_abs [OF assms, of now k v 0] by (simp add: lrux_Set_def)
next
  case (CSetWithTTL now k v ttl)
  then show ?thesis using lrux_Set_abs [OF assms] by simp
next
  case (CGet t t' k)
  then show ?thesis using lrux_Get_abs [OF assms(1)] by (simp add: prod_eq_iff)
next
  case (CGetFast t k)
  then show ?thesis using lrux_GetFast_abs [OF assms(1)] by (simp add: prod_eq_iff)
next
  case (CPeek t k)
  then show ?thesis using lrux_exec_reads_refines(1) [OF assms(1)] assms(1) by (simp del: lrux_exec.simps)
next
  case (CHas t k)
  then show ?thesis using lrux_exec_reads_refines(2) [OF assms(1)] assms(1) by (simp del: lrux_exec.simps)
next
  case (CGetEntry t k)
  then show ?thesis using lrux_exec_reads_refines(3) [OF assms(1)] assms(1) by (simp del: lrux_exec.simps)
next
  case (CTTL t k)
  then show ?thesis using lrux_exec_reads_refines(4) [OF assms(1)] assms(1) by (simp del: lrux_exec.simps)
next
  case (CTouch t t' k)
  then show ?thesis using lrux_Touch_abs [OF assms(1)] by (simp add: prod_eq_iff)
next
  case (CDelete k)
  then show ?thesis using lrux_Delete_abs [OF assms(1)] by (simp add: prod_eq_iff)
next
  case (CDeleteMulti ks)
  then show ?thesis using lrux_DeleteMulti_cmd [OF assms(1)] by (simp add: prod_eq_iff)
next
  case (CSetMulti now kvs)
  then show ?thesis using lrux_SetMulti_abs [OF assms(1), of now kvs] by auto
next
  case (CGetMulti ks)
  then show ?thesis using lrux_GetMulti_abs [OF assms(1)] by (simp add: prod_eq_iff)
next
  case (CResize n)
  then show ?thesis using lrux_Resize_abs [OF assms(1), of n] by auto
next
  case CLen
  then show ?thesis using lrux_exec_reads_refines(5) [OF assms(1)] assms(1) by (simp del: lrux_exec.simps)
next
  case (CLenValid now)
  then show ?thesis using lrux_exec_reads_refines(6) [OF assms(1)] assms(1) by (simp del: lrux_exec.simps)
next
  case (CKeys now)
  then show ?thesis using lrux_scan_abs [OF assms(1), of now _ "\<lambda>e ks. (ks @ [en_Key e], True)"]
    by (fastforce simp: lrux_Keys_def lrux_entry_of_def prod_eq_iff)
next
  case (CValues now)
  then show ?thesis using lrux_scan_abs [OF assms(1), of now _ "\<lambda>e ks. (ks @ [en_Value e], True)"]
    by (fastforce simp: lrux_Values_def lrux_entry_of_def prod_eq_iff)
next
  case (CSnapshot now)
  then show ?thesis using lrux_scan_abs [OF assms(1), of now _ "\<lambda>e ks. (ks @ [e], True)"]
    by (fastforce simp: lrux_Snapshot_def prod_eq_iff)
next
  case (CRange now P)
  then show ?thesis using lrux_scan_abs [OF assms(1), of now _ "\<lambda>e. lrux_range_fn P (en_Key e) (en_Value e)"]
    by (fastforce simp: lrux_Range_def lrux_entry_of_def prod_eq_iff)
next
  case (CExpireOld now)
  then show ?thesis using lrux_scan_abs [OF assms(1), of now _ "\<lambda>e n. (n, True)"]
    by (fastforce simp: lrux_ExpireOld_def prod_eq_iff)
next
  case CStats
  then show ?thesis using lrux_exec_reads_refines(7) [OF assms(1)] assms(1) by (simp del: lrux_exec.simps)
next
  case CResetStats
  then show ?thesis using assms(1) by (auto simp: lrux_abs_def lrux_ResetStats_def)
next
  case CClear
  then show ?thesis using lrux_drain_abs [OF assms(1)] assms(1) lrux_absD(7) [OF assms(1)]
    by (auto simp: lrux_Clear_def)
next
  case CClose
  have "lrux_abs (c\<lparr>lc_closed := True, lc_cleanup := map_option lrux_Stop (lc_cleanup c)\<rparr>) (s\<lparr>sp_closed := True\<rparr>)"
    using assms(1) by (auto simp: lrux_abs_def)
  from lrux_drain_abs [OF this] show ?thesis using assms(1) lrux_absD(7) [OF assms(1)] CClose
    by (auto simp: lrux_Close_def)
next
  case CIsClosed
  then show ?thesis using lrux_exec_reads_refines(8) [OF assms(1)] assms(1) by (simp del: lrux_exec.simps)
qed

subsection \<open>Facts of the reference cache\<close>

text \<open>Contents and callbacks so far, as bags of key-value pairs.\<close>

definition sp_pairs :: "('k, 'v) lrux_spec \<Rightarrow> ('k \<times> 'v) multiset" where
  "sp_pairs s = mset (map (\<lambda>e. (en_Key e, en_Value e)) (sp_es s))"

definition sp_reported :: "('k, 'v) lrux_spec \<Rightarrow> ('k \<times> 'v) multiset" where
  "sp_reported s = mset (map (\<lambda>(k, v, r). (k, v)) (sp_fired s))"

lemma sp_find_Some:
  assumes "distinct (map en_Key es)" and "sp_find k es = Some e"
  shows "en_Key e = k" and "e \<in> set es" and "mset es = add_mset e (mset (sp_del k es))"
proof -
  obtain i where i: "i < length es" "en_Key (es ! i) = k" "e = es ! i"
    using assms(2) unfolding sp_find_def find_Some_iff by auto
  then obtain xs ys where es: "es = xs @ e # ys" and k: "en_Key e = k"
    using id_take_nth_drop [OF i(1)] by blast
  then show "en_Key e = k" and "e \<in> set es" by simp_all
  have "k \<notin> en_Key ` set xs" "k \<notin> en_Key ` set ys" using assms(1) es k by auto
  then have "sp_del k xs = xs" "sp_del k ys = ys"
    unfolding sp_del_def filter_id_conv by (metis image_eqI)+
  then show "mset es = add_mset e (mset (sp_del k es))"
    using es k by (simp add: sp_del_def)
qed

lemma sp_find_None: "sp_find k es = None \<Longrightarrow> k \<notin> en_Key ` set es \<and> sp_del k es = es"
  unfolding sp_find_def sp_del_def find_None_iff filter_id_conv by auto

lemma sp_del_distinct: "distinct (map en_Key es) \<Longrightarrow> distinct (map en_Key (sp_del k es))"
  by (simp add: sp_del_def distinct_map_filter)

lemma sp_del_key [simp]: "k \<notin> en_Key ` set (sp_del k es)"
  by (auto simp: sp_del_def)

lemma sp_find_length:
  "distinct (map en_Key es) \<Longrightarrow> sp_find k es = Some e \<Longrightarrow> length es = Suc (length (sp_del k es))"
  using arg_cong [OF sp_find_Some(3), of es k e size] by simp

definition sp_bal :: "('k, 'v) lrux_spec \<Rightarrow> ('k \<times> 'v) multiset" where
  "sp_bal s = sp_pairs s + sp_reported s"

text \<open>The steps every operation is made of.\<close>

lemma sp_drop_facts:
  assumes "sp_inv s" and "sp_find k (sp_es s) = Some e"
  shows "sp_inv (sp_drop r e s)" and "sp_hook s \<Longrightarrow> sp_bal (sp_drop r e s) = sp_bal s"
proof -
  have d: "distinct (map en_Key (sp_es s))" using assms(1) by (simp add: sp_inv_def)
  note f = sp_find_Some [OF d assms(2)]
  show "sp_inv (sp_drop r e s)"
    using assms(1) sp_find_length [OF d assms(2)] f(1) sp_del_distinct [OF d, of k]
    by (auto simp: sp_inv_def sp_drop_def sp_del_def)
  show "sp_bal (sp_drop r e s) = sp_bal s" if "sp_hook s"
    using that f by (simp add: sp_bal_def sp_drop_def sp_pairs_def sp_reported_def sp_ev_def)
qed

lemma sp_front_facts:
  assumes "sp_inv s" and "sp_find k (sp_es s) = Some e" and "en_Key e' = k"
  shows "sp_inv (sp_front e' s)"
    and "en_Value e' = en_Value e \<Longrightarrow> sp_bal (sp_front e' s) = sp_bal s"
proof -
  have d: "distinct (map en_Key (sp_es s))" using assms(1) by (simp add: sp_inv_def)
  note f = sp_find_Some [OF d assms(2)]
  show "sp_inv (sp_front e' s)"
    using assms(1,2) sp_find_length [OF d assms(2)] assms(3) sp_del_distinct [OF d, of k] f(2)
    by (auto simp: sp_inv_def sp_front_def)
  show "sp_bal (sp_front e' s) = sp_bal s" if "en_Value e' = en_Value e"
    using that f assms(3) by (simp add: sp_bal_def sp_front_def sp_pairs_def sp_reported_def)
qed

lemma sp_trim_facts:
  assumes "distinct (map en_Key (sp_es s))" and "sp_closed s \<longrightarrow> sp_es s = []"
  shows "sp_inv (sp_trim s)" and "sp_hook s \<Longrightarrow> sp_bal (sp_trim s) = sp_bal s"
proof -
  show "sp_inv (sp_trim s)"
    using assms by (auto simp: sp_inv_def sp_trim_eq take_map [symmetric])
  have "mset (take n xs) + mset (drop n xs) = mset xs" for n and xs :: "('a, 'b) lrux_Entry list"
    by (metis append_take_drop_id mset_append)
  then have "image_mset f (mset (take n xs)) + image_mset f (mset (drop n xs)) = image_mset f (mset xs)"
    for n and xs :: "('a, 'b) lrux_Entry list" and f :: "('a, 'b) lrux_Entry \<Rightarrow> 'a \<times> 'b"
    by (metis image_mset_union)
  from this [symmetric] show "sp_bal (sp_trim s) = sp_bal s" if "sp_hook s"
    using that by (simp add: sp_bal_def sp_trim_eq sp_pairs_def sp_reported_def sp_ev_def
        image_mset.compositionality o_def)
qed

lemma sp_put_facts:
  assumes "distinct (map en_Key (sp_es s))"
  shows "distinct (map en_Key (sp_es (sp_put now xp k v s)))"
    and "sp_hook s \<Longrightarrow> sp_bal (sp_put now xp k v s) = add_mset (k, v) (sp_bal s)"
    and "sp_find k (sp_es s) \<noteq> None \<Longrightarrow> length (sp_es (sp_put now xp k v s)) = length (sp_es s)"
proof -
  show "distinct (map en_Key (sp_es (sp_put now xp k v s)))"
    using sp_find_Some(1) [OF assms, of k] sp_del_distinct [OF assms, of k]
    by (cases "sp_find k (sp_es s)") (simp_all add: sp_put_def sp_front_def)
  show "sp_bal (sp_put now xp k v s) = add_mset (k, v) (sp_bal s)" if "sp_hook s"
  proof (cases "sp_find k (sp_es s)")
    case None
    with sp_find_None [OF this] show ?thesis
      by (simp add: sp_bal_def sp_put_def sp_front_def sp_pairs_def sp_reported_def)
  next
    case (Some e)
    with sp_find_Some [OF assms Some] that show ?thesis
      by (simp add: sp_bal_def sp_put_def sp_front_def sp_pairs_def sp_reported_def sp_ev_def)
  qed
  show "length (sp_es (sp_put now xp k v s)) = length (sp_es s)" if "sp_find k (sp_es s) \<noteq> None"
    using that sp_find_length [OF assms, of k] sp_find_Some(1) [OF assms, of k]
    by (cases "sp_find k (sp_es s)") (simp_all add: sp_put_def sp_front_def)
qed

lemma sp_sweep_facts:
  assumes "sp_sweep now onExp visit es acc = (kept, gone, acc')"
  shows "mset es = mset kept + mset gone" and "distinct (map en_Key es) \<Longrightarrow> distinct (map en_Key kept)"
proof -
  have "mset es = mset kept + mset gone \<and> (distinct (map en_Key es) \<longrightarrow> distinct (map en_Key kept))"
    using assms
  proof (induction es arbitrary: acc kept gone)
    case (Cons e es)
    show ?case
    proof (cases "sp_expired (now (en_Key e)) e")
      case True
      then obtain gone' where "sp_sweep now onExp visit es (onExp acc) = (kept, gone', acc')" "gone = e # gone'"
        using Cons.prems by (auto split: prod.splits)
      with Cons.IH show ?thesis by fastforce
    next
      case False
      obtain acc1 go where v: "visit e acc = (acc1, go)" by fastforce
      show ?thesis
      proof (cases go)
        case True
        then obtain kept' where k: "sp_sweep now onExp visit es acc1 = (kept', gone, acc')" "kept = e # kept'"
          using Cons.prems False v by (auto split: prod.splits)
        note ih = Cons.IH [OF k(1)]
        then have "set kept' \<subseteq> set es" by (metis mset_subset_eq_add_left set_mset_mono set_mset_mset)
        with ih k(2) show ?thesis by auto
      qed (use Cons.prems False v in auto)
    qed
  qed simp
  then show "mset es = mset kept + mset gone" and "distinct (map en_Key es) \<Longrightarrow> distinct (map en_Key kept)"
    by simp_all
qed

lemma sp_scan_facts:
  assumes "sp_inv s"
  shows "sp_inv (fst (sp_scan now onExp visit acc s))"
    and "sp_hook s \<Longrightarrow> sp_bal (fst (sp_scan now onExp visit acc s)) = sp_bal s"
proof -
  obtain kept gone acc' where sw: "sp_sweep now onExp visit (sp_es s) acc = (kept, gone, acc')"
    by (metis prod_cases3)
  note f = sp_sweep_facts [OF sw]
  have len: "length (sp_es s) = length kept + length gone" using arg_cong [OF f(1), of size] by simp
  show "sp_inv (fst (sp_scan now onExp visit acc s))"
    using assms f(2) len by (auto simp: sp_inv_def sp_scan_def sw sp_swept_def)
  show "sp_bal (fst (sp_scan now onExp visit acc s)) = sp_bal s" if "sp_hook s"
    using that f(1) by (simp add: sp_bal_def sp_scan_def sw sp_swept_def sp_pairs_def sp_reported_def
        sp_ev_def image_mset.compositionality o_def)
qed

lemma sp_inv_counters [simp]:
  "sp_inv (s\<lparr>sp_hits := w\<rparr>) = sp_inv s" "sp_inv (s\<lparr>sp_misses := w\<rparr>) = sp_inv s"
  "sp_inv (s\<lparr>sp_evs := w\<rparr>) = sp_inv s"
  "sp_bal (s\<lparr>sp_hits := w\<rparr>) = sp_bal s" "sp_bal (s\<lparr>sp_misses := w\<rparr>) = sp_bal s"
  "sp_bal (s\<lparr>sp_evs := w\<rparr>) = sp_bal s" "sp_bal (s\<lparr>sp_cap := n\<rparr>) = sp_bal s"
  by (simp_all add: sp_inv_def sp_bal_def sp_pairs_def sp_reported_def)

text \<open>What a command adds to the bags: the pairs it stores, while the cache is open.\<close>

fun lrux_stored :: "('k, 'v) lrux_cmd \<Rightarrow> ('k \<times> 'v) list" where
  "lrux_stored (CSet now k v) = [(k, v)]"
| "lrux_stored (CSetWithTTL now k v ttl) = [(k, v)]"
| "lrux_stored (CSetMulti now kvs) = kvs"
| "lrux_stored cmd = []"

text \<open>\<open>sp_keeps w s s'\<close>: from \<open>s\<close> to \<open>s'\<close> the invariant is kept and the pairs \<open>w\<close> are accounted for.\<close>

definition sp_keeps :: "('k \<times> 'v) multiset \<Rightarrow> ('k, 'v) lrux_spec \<Rightarrow> ('k, 'v) lrux_spec \<Rightarrow> bool" where
  "sp_keeps w s s' \<longleftrightarrow> (sp_inv s \<longrightarrow> sp_inv s') \<and> sp_hook s' = sp_hook s
     \<and> (sp_inv s \<and> sp_hook s \<longrightarrow> sp_bal s' = sp_bal s + w)"

lemma sp_keeps_refl: "sp_keeps {#} s s"
  by (simp add: sp_keeps_def)

lemma sp_keeps_trans: "sp_keeps v s s1 \<Longrightarrow> sp_keeps w s1 s2 \<Longrightarrow> sp_keeps (v + w) s s2"
  by (auto simp: sp_keeps_def)

lemma sp_keeps_counters [simp]:
  "sp_keeps w s (s'\<lparr>sp_hits := x\<rparr>) = sp_keeps w s s'" "sp_keeps w s (s'\<lparr>sp_misses := x\<rparr>) = sp_keeps w s s'"
  "sp_keeps w s (s'\<lparr>sp_evs := x\<rparr>) = sp_keeps w s s'"
  by (simp_all add: sp_keeps_def)

lemma sp_drop_keeps: "sp_find k (sp_es s) = Some e \<Longrightarrow> sp_keeps {#} s (sp_drop r e (s\<lparr>sp_evs := w\<rparr>))"
  using sp_drop_facts [of "s\<lparr>sp_evs := w\<rparr>" k e r] by (auto simp: sp_keeps_def sp_drop_def)

lemma sp_drop_keeps': "sp_find k (sp_es s) = Some e \<Longrightarrow> sp_keeps {#} s (sp_drop r e s)"
  using sp_drop_facts [of s k e r] by (auto simp: sp_keeps_def sp_drop_def)

lemma sp_front_keeps:
  assumes "sp_find k (sp_es s) = Some e" and "sp_inv s \<Longrightarrow> en_Key e' = k" and "en_Value e' = en_Value e"
  shows "sp_keeps {#} s (sp_front e' s)"
proof -
  have "sp_hook (sp_front e' s) = sp_hook s" by (simp add: sp_front_def)
  then show ?thesis using sp_front_facts [of s k e e'] assms by (auto simp: sp_keeps_def)
qed

lemma sp_lookup_keeps: "sp_keeps {#} s (fst (sp_lookup t t' k s))"
proof (cases "sp_find k (sp_es s)")
  case None
  then show ?thesis by (simp add: sp_lookup_def sp_keeps_refl)
next
  case (Some e)
  have key: "en_Key e = k" if "sp_inv s"
    using sp_find_Some(1) [OF _ Some] that by (simp add: sp_inv_def)
  show ?thesis
    using sp_drop_keeps [OF Some] sp_front_keeps [OF Some, of "e\<lparr>en_AccessedAt := t'\<rparr>"] key
    by (simp add: sp_lookup_def Some)
qed

lemma sp_get_keeps: "sp_keeps {#} s (fst (sp_get t t' k s))"
  using sp_lookup_keeps [of s t t' k]
  by (cases "sp_lookup t t' k s") (auto simp: sp_get_def sp_keeps_refl split: option.split)

lemma sp_gets_keeps: "sp_keeps {#} s (fst (sp_gets ks s m))"
proof (induction ks arbitrary: s m)
  case Nil
  then show ?case by (simp add: sp_keeps_refl)
next
  case (Cons q ks)
  obtain k t t' where q: "q = (k, t, t')" by (metis prod_cases3)
  obtain s1 r where s1: "sp_get t t' k s = (s1, r)" by fastforce
  show ?case
    using sp_keeps_trans [of "{#}" s s1 "{#}", OF _ Cons.IH [of s1]] sp_get_keeps [of s t t' k]
    by (simp add: q s1)
qed

lemma sp_delete_keeps: "sp_keeps {#} s (fst (sp_delete k s))"
  by (cases "sp_find k (sp_es s)") (simp_all add: sp_delete_def sp_keeps_refl sp_drop_keeps')

lemma sp_deletes_keeps: "sp_keeps {#} s (fst (sp_deletes ks s))"
proof (induction ks arbitrary: s)
  case (Cons k ks)
  obtain s1 d where s1: "sp_delete k s = (s1, d)" by fastforce
  show ?case
    using sp_keeps_trans [of "{#}" s s1 "{#}", OF _ Cons.IH [of s1]] sp_delete_keeps [of s k]
    by (cases "sp_deletes ks s1") (simp add: s1)
qed (simp add: sp_keeps_refl)

lemma sp_touch_keeps: "sp_keeps {#} s (fst (sp_touch t now k s))"
proof (cases "sp_find k (sp_es s)")
  case None
  then show ?thesis by (simp add: sp_touch_def sp_keeps_refl)
next
  case (Some e)
  have key: "en_Key e = k" if "sp_inv s"
    using sp_find_Some(1) [OF _ Some] that by (simp add: sp_inv_def)
  have same: "en_Key (lrux_slide ttl now e) = en_Key e" "en_Value (lrux_slide ttl now e) = en_Value e" for ttl
    by (simp_all add: lrux_slide_def split: option.split)
  show ?thesis
    using sp_drop_keeps [OF Some] key same
      sp_front_keeps [OF Some, of "(lrux_slide (sp_ttl s) now e)\<lparr>en_AccessedAt := now\<rparr>"]
    by (simp add: sp_touch_def Some sp_keeps_refl)
qed

lemma sp_set_keeps: "\<not> sp_closed s \<Longrightarrow> sp_keeps {#(k, v)#} s (sp_set now k v ttl s)"
proof -
  assume op: "\<not> sp_closed s"
  let ?s = "sp_put now (sp_expireTime now ttl s) k v s"
  have d: "distinct (map en_Key (sp_es s))" if "sp_inv s" using that by (simp add: sp_inv_def)
  note put = sp_put_facts [OF d]
  show ?thesis
  proof (cases "sp_find k (sp_es s)")
    case None
    have "sp_hook (sp_trim ?s) = sp_hook s" by (simp add: sp_trim_eq)
    with None show ?thesis
      using op put(1,2) sp_trim_facts [of ?s] by (auto simp: sp_set_def sp_keeps_def)
  next
    case (Some e)
    then show ?thesis
      using op put by (auto simp: sp_set_def sp_keeps_def) (auto simp: sp_inv_def)
  qed
qed

lemma sp_puts_keeps:
  assumes "sp_inv s" and "\<not> sp_closed s"
  shows "sp_keeps (mset kvs) s (sp_trim (sp_puts now kvs s))"
proof -
  have "distinct (map en_Key (sp_es (fold (\<lambda>(k, v). sp_put now xp k v) kvs s)))
      \<and> sp_hook (fold (\<lambda>(k, v). sp_put now xp k v) kvs s) = sp_hook s
      \<and> (sp_hook s \<longrightarrow> sp_bal (fold (\<lambda>(k, v). sp_put now xp k v) kvs s) = sp_bal s + mset kvs)"
    if "distinct (map en_Key (sp_es s))" for xp s
    using that
  proof (induction kvs arbitrary: s)
    case (Cons kv kvs)
    then show ?case using sp_put_facts [OF Cons.prems, where now = now and xp = xp and k = "fst kv" and v = "snd kv"] by (auto simp: case_prod_beta)
  qed simp
  then have p: "distinct (map en_Key (sp_es (sp_puts now kvs s)))" "sp_hook (sp_puts now kvs s) = sp_hook s"
    "sp_hook s \<longrightarrow> sp_bal (sp_puts now kvs s) = sp_bal s + mset kvs"
    using assms(1) by (simp_all add: sp_puts_def sp_inv_def)
  have "sp_hook (sp_trim (sp_puts now kvs s)) = sp_hook s" using p(2) by (simp add: sp_trim_eq)
  moreover have "\<not> sp_closed (sp_puts now kvs s)" using assms(2) by (simp add: sp_puts_def)
  ultimately show ?thesis
    using p sp_trim_facts [OF p(1)] assms by (auto simp: sp_keeps_def)
qed

lemma sp_drain_keeps:
  "sp_keeps {#} s (sp_drain s)"
  "\<not> sp_closed s \<Longrightarrow> sp_keeps {#} s (sp_drain (s\<lparr>sp_closed := True\<rparr>))"
  by (auto simp: sp_keeps_def sp_inv_def sp_drain_def sp_bal_def sp_pairs_def sp_reported_def sp_ev_def
      image_mset.compositionality o_def)

lemma sp_resize_keeps: "sp_keeps {#} s (sp_trim (s\<lparr>sp_cap := n\<rparr>))"
proof -
  have h: "sp_hook (sp_trim (s\<lparr>sp_cap := n\<rparr>)) = sp_hook s" by (simp add: sp_trim_eq)
  show ?thesis
    using sp_trim_facts [of "s\<lparr>sp_cap := n\<rparr>"] h by (auto simp: sp_keeps_def) (auto simp: sp_inv_def)
qed

lemma sp_scan_keeps: "sp_keeps {#} s (fst (sp_scan now onExp visit acc s))"
proof -
  have "sp_hook (fst (sp_scan now onExp visit acc s)) = sp_hook s"
    by (simp add: sp_scan_def sp_swept_def split: prod.split)
  then show ?thesis using sp_scan_facts [where s = s and now = now and onExp = onExp and visit = visit and acc = acc] by (auto simp: sp_keeps_def)
qed

lemma sp_set_closed: "sp_closed s \<Longrightarrow> sp_set now k v ttl s = s"
  by (simp add: sp_set_def)

lemma sp_exec_keeps:
  assumes "sp_inv s"
  shows "sp_keeps (if sp_closed s then {#} else mset (lrux_stored cmd)) s (fst (sp_exec cmd s))"
proof (cases cmd)
  case (CSetMulti now kvs)
  then show ?thesis using sp_puts_keeps [OF assms, where kvs = kvs and now = now] by (simp add: sp_keeps_refl)
next
  case CResetStats
  then show ?thesis by (simp add: sp_keeps_refl)
qed (simp_all add: sp_keeps_refl sp_get_keeps sp_gets_keeps sp_touch_keeps sp_delete_keeps sp_deletes_keeps
    sp_set_keeps sp_scan_keeps sp_drain_keeps sp_resize_keeps sp_getFast_def sp_set_closed split: option.split)

interpretation lrux: simulation lrux_exec sp_exec lrux_abs sp_inv
proof
  fix c s and x :: "('k, 'v) lrux_cmd"
  show "lrux_abs c s \<Longrightarrow> sp_inv s \<Longrightarrow>
      \<exists>c'. lrux_exec x c = Some (c', snd (sp_exec x s)) \<and> lrux_abs c' (fst (sp_exec x s))"
    by (rule lrux_exec_refines)
  show "sp_inv s \<Longrightarrow> sp_inv (fst (sp_exec x s))"
    using sp_exec_keeps [of s x] by (simp add: sp_keeps_def)
qed

definition sp_init :: "('k, 'v) lrux_config \<Rightarrow> ('k, 'v) lrux_spec" where
  "sp_init cfg =
     \<lparr>sp_es = [], sp_cap = lo_capacity cfg, sp_ttl = lo_ttl cfg, sp_hook = (lo_onEvict cfg \<noteq> None),
      sp_hits = 0, sp_misses = 0, sp_evs = 0, sp_closed = False, sp_fired = []\<rparr>"

lemma lrux_New_abs: "lrux_abs (lrux_New opts) (sp_init (lrux_newConfig opts))"
  by (rule lrux_absI [of _ "[]"])
    (simp_all add: lrux_New_def Let_def sp_init_def lrux_startCleanup_def lrux_rep_def lrux_list_def)

lemma sp_init_inv: "sp_inv (sp_init cfg)"
  by (simp add: sp_inv_def sp_init_def)

lemma lrux_run_abs:
  assumes "sim_run lrux_exec cmds (lrux_New opts) = Some (c, rs)"
  shows "lrux_abs c (fst (sim_spec_run sp_exec cmds (sp_init (lrux_newConfig opts))))"
    and "sp_inv (fst (sim_spec_run sp_exec cmds (sp_init (lrux_newConfig opts))))"
  using lrux.run_sim [OF lrux_New_abs [of opts] sp_init_inv, of cmds] assms by auto

lemma sp_block_closed [simp]:
  "sp_closed (sp_drop r e s) = sp_closed s" "sp_closed (sp_front e s) = sp_closed s"
  "sp_closed (sp_trim s) = sp_closed s" "sp_closed (sp_drain s) = sp_closed s"
  "sp_closed (fst (sp_scan now onExp visit acc s)) = sp_closed s"
  "sp_closed (sp_puts t kvs s) = sp_closed s"
  "sp_closed (fst (sp_delete k s)) = sp_closed s"
  by (simp_all add: sp_drop_def sp_front_def sp_trim_eq sp_drain_def sp_scan_def sp_swept_def sp_puts_def
      sp_delete_def split: prod.split option.split)

lemma sp_set_closed_eq [simp]: "sp_closed (sp_set now k v ttl s) = sp_closed s"
  by (simp add: sp_set_def)

lemma sp_find_front: "sp_find k (e # es) = (if en_Key e = k then Some e else sp_find k es)"
  by (simp add: sp_find_def)

lemma sp_set_find:
  assumes "\<not> sp_closed s" and "sp_inv s"
  shows "\<exists>e. sp_find k (sp_es (sp_set now k v ttl s)) = Some e \<and> en_Value e = v
    \<and> en_ExpiresAt e = sp_expireTime now ttl s"
proof (cases "sp_find k (sp_es s)")
  case None
  let ?e = "\<lparr>en_Key = k, en_Value = v, en_CreatedAt = now, en_AccessedAt = now,
             en_ExpiresAt = sp_expireTime now ttl s\<rparr>"
  have "sp_es (sp_put now (sp_expireTime now ttl s) k v s) = ?e # sp_del k (sp_es s)"
    using None by (simp add: sp_put_def sp_front_def)
  with None assms(1) have "\<exists>es. sp_es (sp_set now k v ttl s) = ?e # es"
    by (auto simp: sp_set_def sp_trim_eq take_Cons' )
  then show ?thesis by (auto simp: sp_find_front)
next
  case (Some e)
  have "en_Key e = k" using sp_find_Some(1) [OF _ Some] assms(2) by (simp add: sp_inv_def)
  with Some assms(1) show ?thesis
    by (simp add: sp_set_def sp_put_def sp_front_def sp_find_front)
qed

lemma sp_lookup_closed [simp]: "sp_closed (fst (sp_lookup t t' k s)) = sp_closed s"
  by (simp add: sp_lookup_def split: option.split)

end
