(* ===== verification/Lrux_Props.thy ===== *)
theory Lrux_Props
  imports Lrux_Run
begin

text \<open>
  Package \<open>lrux\<close>: what the cache promises, for any sequence of operations on a new cache.
\<close>

subsection \<open>Lemmas\<close>

lemma sp_get_closed [simp]: "sp_closed (fst (sp_get t t' k s)) = sp_closed s"
  using sp_lookup_closed [of t t' k s] by (cases "sp_lookup t t' k s") (auto simp: sp_get_def split: option.split)

lemma sp_gets_closed [simp]: "sp_closed (fst (sp_gets ks s m)) = sp_closed s"
proof (induction ks arbitrary: s m)
  case (Cons q ks)
  obtain k t t' where q: "q = (k, t, t')" by (metis prod_cases3)
  show ?case using sp_get_closed [of t t' k s] Cons.IH by (cases "sp_get t t' k s") (simp add: q)
qed simp

lemma sp_deletes_closed [simp]: "sp_closed (fst (sp_deletes ks s)) = sp_closed s"
proof (induction ks arbitrary: s)
  case (Cons k ks)
  obtain s1 d where s1: "sp_delete k s = (s1, d)" by fastforce
  show ?case using sp_block_closed(7) [of k s] Cons.IH [of s1] by (cases "sp_deletes ks s1") (simp add: s1)
qed simp

lemma sp_touch_closed [simp]: "sp_closed (fst (sp_touch t now k s)) = sp_closed s"
  by (simp add: sp_touch_def split: option.split)

lemma sp_exec_closed: "sp_closed (fst (sp_exec cmd s)) = (sp_closed s \<or> cmd = CClose)"
  by (cases cmd) (simp_all add: sp_getFast_def split: option.split)

text \<open>The pairs a run stores: those of the commands before the first \<open>Close\<close>.\<close>

fun lrux_stores :: "('k, 'v) lrux_cmd list \<Rightarrow> ('k \<times> 'v) list" where
  "lrux_stores [] = []"
| "lrux_stores (cmd # cmds) = (if cmd = CClose then [] else lrux_stored cmd @ lrux_stores cmds)"

lemma sp_run_bal:
  "sp_inv s \<Longrightarrow> sp_hook s \<Longrightarrow>
   sp_bal (fst (sim_spec_run sp_exec cmds s)) = sp_bal s + (if sp_closed s then {#} else mset (lrux_stores cmds))
   \<and> sp_hook (fst (sim_spec_run sp_exec cmds s))
   \<and> sp_closed (fst (sim_spec_run sp_exec cmds s)) = (sp_closed s \<or> CClose \<in> set cmds)"
proof (induction cmds arbitrary: s)
  case (Cons cmd cmds)
  obtain s1 r where s1: "sp_exec cmd s = (s1, r)" by fastforce
  have k: "sp_keeps (if sp_closed s then {#} else mset (lrux_stored cmd)) s s1"
    and c: "sp_closed s1 = (sp_closed s \<or> cmd = CClose)"
    using sp_exec_keeps [OF Cons.prems(1), of cmd] sp_exec_closed [of cmd s] by (simp_all add: s1)
  have "sp_inv s1" "sp_hook s1" using k Cons.prems by (simp_all add: sp_keeps_def)
  from Cons.IH [OF this] k c Cons.prems show ?case
    by (cases "sim_spec_run sp_exec cmds s1") (auto simp: s1 sp_keeps_def)
qed simp

lemma lrux_rep_card:
  assumes "lrux_rep c pes"
  shows "card (dom (lc_items c)) = length pes"
proof -
  have "distinct (map (en_Key \<circ> snd) pes)" using assms by (simp add: lrux_rep_def)
  moreover have "dom (lc_items c) = set (map (en_Key \<circ> snd) pes)"
    using assms by (simp add: lrux_rep_def dom_map_of_conv_image_fst lrux_index_keys image_comp)
  ultimately show ?thesis using distinct_card by (metis length_map)
qed

subsection \<open>Properties\<close>

text \<open>
  C3: Refinement of the whole cache. Any sequence of operations on a new cache, loops over the
  pointers included, returns; it gives the results of the reference cache (a list of entries, most
  recently used first), and ends in a heap that represents the reference's entries, counters and
  eviction callbacks.
\<close>

theorem lrux_cache_refines:
  "\<exists>c. sim_run lrux_exec cmds (lrux_New opts) =
         Some (c, snd (sim_spec_run sp_exec cmds (sp_init (lrux_newConfig opts)))) \<and>
       lrux_abs c (fst (sim_spec_run sp_exec cmds (sp_init (lrux_newConfig opts))))"
  using lrux.run_sim [OF lrux_New_abs [of opts] sp_init_inv, of cmds] by blast

text \<open>
  C4: Capacity. After any sequence of operations, \<open>Resize\<close> and \<open>SetMulti\<close> included, a bounded cache
  holds at most its capacity, and the size it reports is the number of keys in the map.
\<close>

theorem lrux_capacity_bound:
  assumes "sim_run lrux_exec cmds (lrux_New opts) = Some (c, rs)"
  shows "lc_size c = int (card (dom (lc_items c))) \<and> (lc_capacity c \<le> 0 \<or> lc_size c \<le> lc_capacity c)"
proof -
  note a = lrux_run_abs [OF assms]
  obtain pes where r: "lrux_rep c pes" using a(1) by (auto simp: lrux_abs_def)
  from lrux_rep_card [OF r] lrux_rep_size [OF r] have "lc_size c = int (card (dom (lc_items c)))" by simp
  moreover have "lc_capacity c \<le> 0 \<or> lc_size c \<le> lc_capacity c"
    using lrux_abs_size [OF a(1)] lrux_absD(1) [OF a(1)] a(2) by (auto simp: sp_inv_def)
  ultimately show ?thesis by simp
qed

theorem lrux_capacity_bound_witness:
  "\<exists>c rs. sim_run lrux_exec [CSet 1 ''a'' (7::nat), CSet 2 ''b'' 8] (lrux_New [lrux_WithCapacity 1]) = Some (c, rs)
     \<and> lc_capacity c = 1 \<and> lc_size c \<le> 1"
proof -
  obtain c rs where r: "sim_run lrux_exec [CSet 1 ''a'' (7::nat), CSet 2 ''b'' 8] (lrux_New [lrux_WithCapacity 1]) = Some (c, rs)"
    using lrux_cache_refines by blast
  have "lc_capacity c = 1"
    using lrux_absD(1) [OF lrux_run_abs(1) [OF r]]
    by (simp add: sp_init_def lrux_newConfig_def lrux_WithCapacity_def sp_set_def sp_trim_eq)
  with lrux_capacity_bound [OF r] r show ?thesis by auto
qed

text \<open>
  Accounting. With an eviction callback set, every pair ever stored is reported to it exactly
  once: replaced, evicted, expired, deleted or cleared. After the final \<open>Close\<close> the bag of reported
  pairs is the bag of stored ones, and nothing is left.
\<close>

theorem lrux_evictions_account:
  assumes "sim_run lrux_exec (cmds @ [CClose]) (lrux_New opts) = Some (c, rs)"
    and "lo_onEvict (lrux_newConfig opts) \<noteq> None"
  shows "mset (map (\<lambda>(k, v, r). (k, v)) (lc_fired c)) = mset (lrux_stores cmds) \<and> lc_items c = Map.empty"
proof -
  let ?init = "sp_init (lrux_newConfig opts)"
  let ?s = "fst (sim_spec_run sp_exec (cmds @ [CClose]) ?init)"
  note a = lrux_run_abs [OF assms(1)]
  have h: "sp_hook ?init" "\<not> sp_closed ?init" using assms(2) by (simp_all add: sp_init_def)
  have st: "lrux_stores (cmds @ [CClose]) = lrux_stores cmds"
    by (induction cmds) simp_all
  have b: "sp_bal ?s = sp_bal ?init + mset (lrux_stores cmds)" "sp_closed ?s"
    using sp_run_bal [OF sp_init_inv h(1), of "cmds @ [CClose]"] h(2) by (simp_all add: st)
  then have es: "sp_es ?s = []" using a(2) by (simp add: sp_inv_def)
  have "sp_bal ?init = {#}" by (simp add: sp_bal_def sp_pairs_def sp_reported_def sp_init_def)
  then have "sp_reported ?s = mset (lrux_stores cmds)"
    using b(1) es by (simp add: sp_bal_def sp_pairs_def)
  moreover have "lc_fired c = sp_fired ?s" by (rule lrux_absD(8) [OF a(1)])
  moreover have "lc_items c = Map.empty"
    using a(1) es by (auto simp: lrux_abs_def lrux_rep_def)
  ultimately show ?thesis by (simp add: sp_reported_def)
qed

definition lrux_demo_hook :: "(nat, nat) lrux_OnEvictFunc" where
  "lrux_demo_hook k v r = Returns () None"

theorem lrux_evictions_account_witness:
  "\<exists>c rs. sim_run lrux_exec [CSet 1 (3::nat) (7::nat), CSet 2 4 8, CClose]
       (lrux_New [lrux_WithCapacity 1, lrux_WithOnEvict (Some lrux_demo_hook)]) = Some (c, rs)
     \<and> mset (map (\<lambda>(k, v, r). (k, v)) (lc_fired c)) = {#(3, 7), (4, 8)#}"
proof -
  obtain c rs where r: "sim_run lrux_exec ([CSet 1 (3::nat) (7::nat), CSet 2 4 8] @ [CClose])
       (lrux_New [lrux_WithCapacity 1, lrux_WithOnEvict (Some lrux_demo_hook)]) = Some (c, rs)"
    using lrux_cache_refines by blast
  have "lo_onEvict (lrux_newConfig [lrux_WithCapacity 1, lrux_WithOnEvict (Some lrux_demo_hook)]) \<noteq> None"
    by (simp add: lrux_newConfig_def lrux_WithCapacity_def lrux_WithOnEvict_def)
  from lrux_evictions_account [OF r this] r show ?thesis by auto
qed

text \<open>The default time to live is the configured one for good.\<close>

lemma sp_fold_put_ttl [simp]: "sp_ttl (fold (\<lambda>(k, v). sp_put t x k v) kvs s) = sp_ttl s"
proof (induction kvs arbitrary: s)
  case (Cons q kvs)
  then show ?case by (cases q) (simp add: sp_put_def sp_front_def split: option.split)
qed simp

lemma sp_block_ttl [simp]:
  "sp_ttl (sp_drop r e s) = sp_ttl s" "sp_ttl (sp_front e s) = sp_ttl s" "sp_ttl (sp_trim s) = sp_ttl s" "sp_ttl (sp_drain s) = sp_ttl s"
  "sp_ttl (fst (sp_scan now onExp visit acc s)) = sp_ttl s" "sp_ttl (sp_puts t kvs s) = sp_ttl s"
  "sp_ttl (fst (sp_delete k s)) = sp_ttl s" "sp_ttl (sp_set t1 k v ttl s) = sp_ttl s" "sp_ttl (fst (sp_lookup t2 t3 k s)) = sp_ttl s"
  "sp_ttl (fst (sp_touch t2 t3 k s)) = sp_ttl s"
  by (simp_all add: sp_drop_def sp_front_def sp_trim_eq sp_drain_def sp_scan_def sp_swept_def sp_puts_def
      sp_delete_def sp_set_def sp_lookup_def sp_touch_def split: prod.split option.split)

lemma sp_get_ttl [simp]: "sp_ttl (fst (sp_get t t' k s)) = sp_ttl s"
  using sp_block_ttl(9) [of t t' k s] by (cases "sp_lookup t t' k s") (auto simp: sp_get_def split: option.split)

lemma sp_gets_ttl [simp]: "sp_ttl (fst (sp_gets ks s m)) = sp_ttl s"
proof (induction ks arbitrary: s m)
  case (Cons q ks)
  obtain k t t' where q: "q = (k, t, t')" by (metis prod_cases3)
  show ?case using sp_get_ttl [of t t' k s] Cons.IH by (cases "sp_get t t' k s") (simp add: q)
qed simp

lemma sp_deletes_ttl [simp]: "sp_ttl (fst (sp_deletes ks s)) = sp_ttl s"
proof (induction ks arbitrary: s)
  case (Cons k ks)
  obtain s1 d where s1: "sp_delete k s = (s1, d)" by fastforce
  show ?case using sp_block_ttl(7) [of k s] Cons.IH [of s1] by (cases "sp_deletes ks s1") (simp add: s1)
qed simp

lemma sp_exec_ttl: "sp_ttl (fst (sp_exec cmd s)) = sp_ttl s"
  by (cases cmd) (simp_all add: sp_getFast_def split: option.split)

lemma sp_run_ttl: "sp_ttl (fst (sim_spec_run sp_exec cmds s)) = sp_ttl s"
proof (induction cmds arbitrary: s)
  case (Cons cmd cmds)
  obtain s1 r where s1: "sp_exec cmd s = (s1, r)" by fastforce
  then show ?case using sp_exec_ttl [of cmd s] Cons.IH [of s1] by (cases "sim_spec_run sp_exec cmds s1") simp
qed simp

text \<open>
  C5: A stored value is found. On an open cache reached by any operations, whatever its capacity, a \<open>Get\<close> right after storing a key returns that
  value exactly as long as its time to live has not passed. That time is the one given with the value if it is positive, else the one
  of \<open>WithTTL\<close>; if neither is positive the value is found at any time.
\<close>

theorem lrux_set_get:
  assumes "sim_run lrux_exec cmds (lrux_New opts) = Some (c, rs)" and "\<not> lc_closed c"
  shows "snd (lrux_Get t t' k (lrux_SetWithTTL now k v ttl c)) =
    (if 0 < ttl then (if t \<le> now + ttl then Some v else None)
     else if 0 < lo_ttl (lrux_newConfig opts) then (if t \<le> now + lo_ttl (lrux_newConfig opts) then Some v else None)
     else Some v)"
proof -
  let ?s = "fst (sim_spec_run sp_exec cmds (sp_init (lrux_newConfig opts)))"
  note a = lrux_run_abs [OF assms(1)]
  have open': "\<not> sp_closed ?s" using assms(2) lrux_absD(7) [OF a(1)] by simp
  have ttl: "sp_ttl ?s = lo_ttl (lrux_newConfig opts)" by (simp add: sp_run_ttl sp_init_def)
  obtain e where e: "sp_find k (sp_es (sp_set now k v ttl ?s)) = Some e" "en_Value e = v"
      "en_ExpiresAt e = sp_expireTime now ttl ?s"
    using sp_set_find [OF open' a(2)] by blast
  have "snd (lrux_Get t t' k (lrux_SetWithTTL now k v ttl c)) = snd (sp_get t t' k (sp_set now k v ttl ?s))"
    by (rule lrux_Get_abs(2) [OF lrux_Set_abs [OF a]])
  also have "\<dots> = (if sp_expired t e then None else Some v)"
    using open' e(1,2) by (simp add: sp_get_def sp_lookup_def)
  finally show ?thesis
    using e(3) by (auto simp: sp_expireTime_def ttl sp_expired_def)
qed

theorem lrux_set_get_witness:
  "snd (lrux_Get 5 5 ''k'' (lrux_SetWithTTL 1 ''k'' (9::nat) 10 (lrux_New [lrux_WithCapacity 1]))) = Some 9"
proof -
  have "sim_run lrux_exec [] (lrux_New [lrux_WithCapacity 1]) = Some (lrux_New [lrux_WithCapacity 1], [])"
    by simp
  moreover have "\<not> lc_closed (lrux_New [lrux_WithCapacity 1])"
    by (simp add: lrux_New_def Let_def lrux_startCleanup_def)
  ultimately show ?thesis
    using lrux_set_get [of "[]" "[lrux_WithCapacity 1]" "lrux_New [lrux_WithCapacity 1]" "[]" 5 5 "''k''" 1 9 10]
    by simp
qed

end
