(* ===== verification/Lrux_Compute.thy ===== *)
theory Lrux_Compute
  imports Lrux_Run
begin

unbundle bit_operations_syntax

text \<open>
  Package \<open>lrux\<close>: \<open>GetOrCompute\<close>. The compute function and whatever other goroutines do while the
  cache is unlocked are one function of the cache, so interference is quantified over. Context
  checks are arguments, \<open>None\<close> for a live context. \<open>golang.org/x/sync/singleflight\<close> is not part of
  the repository: what the code relies on is that \<open>DoChan\<close> either runs the given function or hands
  over the result of a call already in flight for the same key string (\<open>shared\<close>).
\<close>

subsection \<open>Definitions\<close>

definition lrux_ErrClosed :: goerr where "lrux_ErrClosed = Sentinel ''lrux: cache is closed''"
definition lrux_opGetOrCompute :: string where "lrux_opGetOrCompute = ''lrux.GetOrCompute''"

record lrux_computeConfig =
  co_ttl :: int
  co_singleflight :: bool

definition lrux_newComputeConfig :: "(lrux_computeConfig \<Rightarrow> lrux_computeConfig) list \<Rightarrow> lrux_computeConfig" where
  "lrux_newComputeConfig opts = fold (\<lambda>opt cfg. opt cfg) opts \<lparr>co_ttl = 0, co_singleflight = False\<rparr>"

definition lrux_WithComputeTTL :: "int \<Rightarrow> lrux_computeConfig \<Rightarrow> lrux_computeConfig" where
  "lrux_WithComputeTTL d c = c\<lparr>co_ttl := (if d < 0 then 0 else d)\<rparr>"

definition lrux_WithSingleflight :: "lrux_computeConfig \<Rightarrow> lrux_computeConfig" where
  "lrux_WithSingleflight c = c\<lparr>co_singleflight := True\<rparr>"

type_synonym ('k, 'v) lrux_compute = "('k, 'v) lrux_Cache \<Rightarrow> ('k, 'v) lrux_Cache \<times> 'v outcome"

text \<open>\<open>^uint64(0)\<close> is minus one: the addition takes the miss back.\<close>

definition lrux_convertMissToHit :: "('k, 'v) lrux_Cache \<Rightarrow> ('k, 'v) lrux_Cache" where
  "lrux_convertMissToHit c = c\<lparr>lc_hits := lc_hits c + 1, lc_misses := lc_misses c + NOT 0\<rparr>"

definition lrux_insertLocked ::
  "int \<Rightarrow> 'k \<Rightarrow> 'v \<Rightarrow> int \<Rightarrow> ('k, 'v) lrux_evictEvent list \<Rightarrow> ('k, 'v) lrux_Cache
     \<Rightarrow> ('k, 'v) lrux_Cache \<times> ('k, 'v) lrux_evictEvent list \<times> bool" where
  "lrux_insertLocked now k v ttl events c =
     (if lc_closed c then (c, events, False)
      else case lrux_trim1 (lrux_insert_new k v now (lrux_expireTime now ttl c) c) of
             (c1, evs) \<Rightarrow> (c1, events @ evs, True))"

text \<open>An expired node of the key, still in the map, is removed before the computation and the store.\<close>

definition lrux_purge ::
  "'k \<Rightarrow> ('k, 'v) lrux_Cache \<Rightarrow> ('k, 'v) lrux_Cache \<times> ('k, 'v) lrux_evictEvent list" where
  "lrux_purge k c =
     (case lc_items c k of
        Some p \<Rightarrow>
          (case lrux_removeNodeLocked p EvictionExpired c of (c1, ev) \<Rightarrow> (lrux_evicted c1, lrux_event_list ev))
      | None \<Rightarrow> (c, []))"

definition lrux_live_node :: "int \<Rightarrow> 'k \<Rightarrow> ('k, 'v) lrux_Cache \<Rightarrow> nat option" where
  "lrux_live_node t k c =
     (case lc_items c k of
        Some p \<Rightarrow> if lrux_isExpired t (lrux_at c p) then None else Some p
      | None \<Rightarrow> None)"

text \<open>
  \<open>computeDirect\<close>: \<open>t1\<close>, \<open>a1\<close> are the clock readings of the first locked region, \<open>t2\<close>, \<open>now\<close> of the
  second; \<open>e1\<close> and \<open>e2\<close> are \<open>ctx.Err()\<close> before and after the computation.
\<close>

definition lrux_computeDirect ::
  "int \<Rightarrow> int \<Rightarrow> int \<Rightarrow> int \<Rightarrow> goerror \<Rightarrow> goerror \<Rightarrow> 'v \<Rightarrow> 'k \<Rightarrow> ('k, 'v) lrux_compute \<Rightarrow> int
     \<Rightarrow> ('k, 'v) lrux_Cache \<Rightarrow> ('k, 'v) lrux_Cache \<times> 'v \<times> goerror" where
  "lrux_computeDirect t1 a1 t2 now e1 e2 zero k compute ttl c =
     (case lrux_live_node t1 k c of
        Some p \<Rightarrow>
          (let c1 = lrux_promote p a1 c
           in (lrux_convertMissToHit c1, nd_value (lrux_at c1 p), None))
      | None \<Rightarrow>
          (case lrux_purge k c of
             (c1, events) \<Rightarrow>
               (let c2 = lrux_fireCallbacks events c1
                in case e1 of
                     Some e \<Rightarrow> (c2, zero, Some e)
                   | None \<Rightarrow>
                       (case compute c2 of
                          (c3, out) \<Rightarrow>
                            (case panix_Safe zero lrux_opGetOrCompute (Some out) of
                               (v, Some e) \<Rightarrow> (c3, zero, Some e)
                             | (v, None) \<Rightarrow>
                                 (case e2 of
                                    Some e \<Rightarrow> (c3, zero, Some e)
                                  | None \<Rightarrow>
                                      (case lrux_live_node t2 k c3 of
                                         Some p \<Rightarrow> (lrux_convertMissToHit c3, nd_value (lrux_at c3 p), None)
                                       | None \<Rightarrow>
                                           (case lrux_purge k c3 of
                                              (c4, events) \<Rightarrow>
                                                (case lrux_insertLocked now k v ttl events c4 of
                                                   (c5, events2, ok) \<Rightarrow>
                                                     if ok then (lrux_fireCallbacks events2 c5, v, None)
                                                     else (c5, zero, Some lrux_ErrClosed))))))))))"

text \<open>
  \<open>computeSingle\<close>: \<open>done\<close> is \<open>ctx.Err()\<close> if the wait ended by cancellation, \<open>e\<close> after the result
  came. The function given to \<open>DoChan\<close> is \<open>lrux_flight\<close>.
\<close>

definition lrux_flight ::
  "int \<Rightarrow> int \<Rightarrow> int \<Rightarrow> 'v \<Rightarrow> 'k \<Rightarrow> ('k, 'v) lrux_compute \<Rightarrow> int
     \<Rightarrow> ('k, 'v) lrux_Cache \<Rightarrow> ('k, 'v) lrux_Cache \<times> 'v \<times> goerror" where
  "lrux_flight t a now zero k compute ttl c =
     (case lrux_peekPromote t a k c of
        (c1, Some v) \<Rightarrow> (c1, v, None)
      | (c1, None) \<Rightarrow>
          (case compute (lrux_miss c1) of
             (c2, out) \<Rightarrow>
               (case panix_Safe zero lrux_opGetOrCompute (Some out) of
                  (v, Some e) \<Rightarrow> (c2, zero, Some e)
                | (v, None) \<Rightarrow> (lrux_SetWithTTL now k v ttl c2, v, None))))"

definition lrux_computeSingle ::
  "('k \<Rightarrow> string) \<Rightarrow> (string \<Rightarrow> ('v \<times> goerror) option) \<Rightarrow> int \<Rightarrow> int \<Rightarrow> int \<Rightarrow> goerror \<Rightarrow> goerror
     \<Rightarrow> 'v \<Rightarrow> 'k \<Rightarrow> ('k, 'v) lrux_compute \<Rightarrow> int \<Rightarrow> ('k, 'v) lrux_Cache \<Rightarrow> ('k, 'v) lrux_Cache \<times> 'v \<times> goerror" where
  "lrux_computeSingle keyStr shared t a now don e zero k compute ttl c =
     (case (case shared (keyStr k) of
              Some (v, err) \<Rightarrow> (c, v, err)
            | None \<Rightarrow> lrux_flight t a now zero k compute ttl c) of
        (c1, v, err) \<Rightarrow>
          (case don of
             Some x \<Rightarrow> (c1, zero, Some x)
           | None \<Rightarrow>
               (case e of
                  Some x \<Rightarrow> (c1, zero, Some x)
                | None \<Rightarrow>
                    (case err of
                       Some x \<Rightarrow> (c1, zero, Some x)
                     | None \<Rightarrow> if lc_closed c1 then (c1, zero, Some lrux_ErrClosed) else (c1, v, None)))))"

text \<open>
  \<open>GetOrCompute\<close>: \<open>env\<close> is what happens between the first lookup and the locked regions below.
\<close>

definition lrux_GetOrCompute ::
  "('k \<Rightarrow> string) \<Rightarrow> (string \<Rightarrow> ('v \<times> goerror) option) \<Rightarrow> int \<Rightarrow> int \<Rightarrow> int \<Rightarrow> int \<Rightarrow> int \<Rightarrow> int
     \<Rightarrow> goerror \<Rightarrow> goerror \<Rightarrow> goerror \<Rightarrow> 'v \<Rightarrow> 'k \<Rightarrow> ('k, 'v) lrux_compute
     \<Rightarrow> (('k, 'v) lrux_Cache \<Rightarrow> ('k, 'v) lrux_Cache) \<Rightarrow> (lrux_computeConfig \<Rightarrow> lrux_computeConfig) list
     \<Rightarrow> ('k, 'v) lrux_Cache \<Rightarrow> ('k, 'v) lrux_Cache \<times> 'v \<times> goerror" where
  "lrux_GetOrCompute keyStr shared t0 a0 t1 a1 t2 now e0 e1 e2 zero k compute env opts c =
     (if lc_closed c then (c, zero, Some lrux_ErrClosed)
      else case e0 of
             Some e \<Rightarrow> (c, zero, Some e)
           | None \<Rightarrow>
               (case lrux_peekPromote t0 a0 k c of
                  (c1, Some v) \<Rightarrow> (lrux_hit c1, v, None)
                | (c1, None) \<Rightarrow>
                    (let cfg = lrux_newComputeConfig opts
                     in if co_singleflight cfg
                        then lrux_computeSingle keyStr shared t1 a1 now e1 e2 zero k compute (co_ttl cfg) (env c1)
                        else lrux_computeDirect t1 a1 t2 now e1 e2 zero k compute (co_ttl cfg)
                               (env (lrux_miss c1)))))"

subsection \<open>Keys as strings\<close>

text \<open>
  The dynamic types \<open>keyString\<close> tells apart, floats left out: signed and unsigned integers of every
  width as one constructor each, and, for the \<open>fmt.Sprint\<close> default, a struct of two strings (which
  prints in braces with a blank between the fields).
\<close>

datatype lrux_key = KString string | KInt int | KUint nat | KBool bool | KPair string string

fun lrux_keyString :: "lrux_key \<Rightarrow> string" where
  "lrux_keyString (KString s) = s"
| "lrux_keyString (KInt n) = FormatInt n"
| "lrux_keyString (KUint n) = FormatUint n"
| "lrux_keyString (KBool b) = (if b then ''true'' else ''false'')"
| "lrux_keyString (KPair a b) = ''{'' @ a @ '' '' @ b @ ''}''"

subsection \<open>Lemmas\<close>

lemma lrux_live_node_eq:
  assumes "lrux_abs c s" and "sp_find k (sp_es s) = None"
  shows "lrux_live_node t k c = None" and "lrux_purge k c = (c, [])"
proof -
  have "lc_items c k = None" using assms(1)
    by (cases rule: lrux_lookup [of c s k]) (use assms(2) in simp_all)
  then show "lrux_live_node t k c = None" and "lrux_purge k c = (c, [])"
    by (simp_all add: lrux_live_node_def lrux_purge_def)
qed

lemma sp_lookup_None:
  assumes "sp_inv s" and "snd (sp_lookup t a k s) = None"
  shows "sp_find k (sp_es (fst (sp_lookup t a k s))) = None"
proof (cases "sp_find k (sp_es s)")
  case (Some e)
  have "en_Key e = k" using sp_find_Some(1) [OF _ Some] assms(1) by (simp add: sp_inv_def)
  moreover have "sp_find k (sp_del k es) = None" for es :: "('a, 'b) lrux_Entry list"
    by (auto simp: sp_find_def sp_del_def find_None_iff)
  ultimately show ?thesis using assms(2) Some by (auto simp: sp_lookup_def sp_drop_def split: if_splits)
qed (simp add: sp_lookup_def)

text \<open>Inserting under the lock is \<open>Set\<close> of an absent key with the events pending.\<close>

lemma lrux_insertLocked_abs:
  assumes "lrux_abs c s" and "sp_inv s" and "\<not> sp_closed s" and "sp_find k (sp_es s) = None"
  shows "\<exists>c1 evs. lrux_insertLocked now k v ttl [] c = (c1, evs, True) \<and>
    lrux_abs (lrux_fireCallbacks evs c1) (sp_set now k v ttl s)"
proof -
  have none: "lc_items c k = None" using assms(1)
    by (cases rule: lrux_lookup [of c s k]) (use assms(4) in simp_all)
  obtain c1 evs where t: "lrux_trim1 (lrux_insert_new k v now (lrux_expireTime now ttl c) c) = (c1, evs)" by fastforce
  have "lrux_SetWithTTL now k v ttl c = lrux_fireCallbacks evs c1"
    using none lrux_absD(7) [OF assms(1)] assms(3) by (simp add: lrux_SetWithTTL_def t)
  with lrux_Set_abs [OF assms(1,2), of now k v ttl] show ?thesis
    using lrux_absD(7) [OF assms(1)] assms(3) by (simp add: lrux_insertLocked_def t)
qed

subsection \<open>Properties\<close>

text \<open>
  \<open>GetOrCompute\<close> on a key that is missing or expired runs the function once, returns its value
  and leaves the cache as a \<open>Set\<close> of that value would, with one miss counted; the next \<open>Get\<close> before
  the entry's expiry finds it. (No other goroutine acts in between; the contexts stay live.)
\<close>

theorem lrux_compute_stores:
  assumes "lrux_abs c s" and "sp_inv s" and "\<not> lc_closed c"
    and "snd (sp_lookup t0 a0 k s) = None" and "\<not> co_singleflight (lrux_newComputeConfig opts)"
  shows "\<exists>c'. lrux_GetOrCompute keyStr shared t0 a0 t1 a1 t2 now None None None zero k
         (\<lambda>c. (c, Returns v None)) (\<lambda>c. c) opts c = (c', v, None)
    \<and> lc_misses c' = lc_misses c + 1 \<and> lc_hits c' = lc_hits c
    \<and> (lrux_expireTime now (co_ttl (lrux_newComputeConfig opts)) c = None
        \<or> t \<le> the (lrux_expireTime now (co_ttl (lrux_newComputeConfig opts)) c)
       \<longrightarrow> snd (lrux_Get t t' k c') = Some v)"
proof -
  let ?ttl = "co_ttl (lrux_newComputeConfig opts)"
  obtain c1 where c1: "lrux_peekPromote t0 a0 k c = (c1, None)" "lrux_abs c1 (fst (sp_lookup t0 a0 k s))"
    using lrux_peekPromote_abs [OF assms(1), of t0 a0 k] assms(4) by (metis prod.collapse)
  define s1 where "s1 = (fst (sp_lookup t0 a0 k s))\<lparr>sp_misses := sp_misses s + 1\<rparr>"
  have ml: "sp_misses (fst (sp_lookup t0 a0 k s)) = sp_misses s" "sp_hits (fst (sp_lookup t0 a0 k s)) = sp_hits s"
      "sp_ttl (fst (sp_lookup t0 a0 k s)) = sp_ttl s"
    by (simp_all add: sp_lookup_def sp_drop_def sp_front_def split: option.split)
  have a1: "lrux_abs (lrux_miss c1) s1"
    using lrux_abs_counters(2) [OF c1(2)] by (simp add: s1_def ml)
  have i1: "sp_inv s1" using sp_lookup_keeps [of s t0 a0 k] assms(2) by (simp add: s1_def sp_keeps_def)
  have o1: "\<not> sp_closed s1" using assms(3) lrux_absD(7) [OF assms(1)] by (simp add: s1_def)
  have n1: "sp_find k (sp_es s1) = None" using sp_lookup_None [OF assms(2,4)] by (simp add: s1_def)
  obtain c5 evs where ins: "lrux_insertLocked now k v ?ttl [] (lrux_miss c1) = (c5, evs, True)"
    and a5: "lrux_abs (lrux_fireCallbacks evs c5) (sp_set now k v ?ttl s1)"
    using lrux_insertLocked_abs [OF a1 i1 o1 n1] by blast
  have call: "lrux_GetOrCompute keyStr shared t0 a0 t1 a1 t2 now None None None zero k
      (\<lambda>c. (c, Returns v None)) (\<lambda>c. c) opts c = (lrux_fireCallbacks evs c5, v, None)"
    using assms(3,5) lrux_live_node_eq [OF a1 n1] ins
    by (simp add: lrux_GetOrCompute_def c1(1) Let_def lrux_computeDirect_def lrux_fireCallbacks_eq [of "[]"])
  have cnt: "sp_misses (sp_set now k v ?ttl s1) = sp_misses s1" "sp_hits (sp_set now k v ?ttl s1) = sp_hits s1"
    by (simp_all add: sp_set_def sp_trim_eq sp_trimmed_def sp_put_def sp_front_def split: option.split)
  obtain e where e: "sp_find k (sp_es (sp_set now k v ?ttl s1)) = Some e" "en_Value e = v"
      "en_ExpiresAt e = sp_expireTime now ?ttl s1"
    using sp_set_find [OF o1 i1] by blast
  have xp: "sp_expireTime now ?ttl s1 = lrux_expireTime now ?ttl c"
    using lrux_absD(2) [OF assms(1)] ml(3) by (simp add: lrux_expireTime_def sp_expireTime_def s1_def)
  have "snd (lrux_Get t t' k (lrux_fireCallbacks evs c5)) = (if sp_expired t e then None else Some v)"
    using lrux_Get_abs(2) [OF a5, of t t' k] o1 e(1,2) by (simp add: sp_get_def sp_lookup_def)
  then have "lrux_expireTime now ?ttl c = None \<or> t \<le> the (lrux_expireTime now ?ttl c) \<longrightarrow>
      snd (lrux_Get t t' k (lrux_fireCallbacks evs c5)) = Some v"
    using e(3) xp by (auto simp: sp_expired_def split: option.splits)
  with call show ?thesis
    using lrux_absD(4,5) [OF a5] cnt lrux_absD(4,5) [OF assms(1)] by (simp add: s1_def ml)
qed

theorem lrux_compute_stores_witness:
  "\<exists>c'. lrux_GetOrCompute (\<lambda>_. ''x'') Map.empty 1 1 2 2 3 4 None None None 0 ''k''
       (\<lambda>c. (c, Returns (7::nat) None)) (\<lambda>c. c) [] (lrux_New []) = (c', 7, None)
     \<and> snd (lrux_Get 9 9 ''k'' c') = Some 7"
proof -
  have "\<not> lc_closed (lrux_New ([] :: ((string, nat) lrux_config \<Rightarrow> _) list))"
    by (simp add: lrux_New_def Let_def lrux_startCleanup_def)
  from lrux_compute_stores [OF lrux_New_abs [of "[]"] sp_init_inv this, of 1 1 "''k''" "[]" "\<lambda>_. ''x''" Map.empty 2 2 3 4 0 7 9 9]
  show ?thesis
    by (auto simp: sp_lookup_def sp_find_def sp_init_def lrux_newComputeConfig_def lrux_expireTime_def
        lrux_New_def Let_def lrux_newConfig_def lrux_defaultTTL_def lrux_startCleanup_def)
qed

text \<open>
  Failed computations cache nothing. When the function returns an error or panics, or the context
  ends while it runs, \<open>GetOrCompute\<close> returns the zero value with that error (a panic as a
  \<open>PanicError\<close> of the operation) and the cache is exactly as the function left it.
\<close>

theorem lrux_compute_failure:
  assumes "\<not> lc_closed c" and "lrux_peekPromote t0 a0 k c = (c1, None)"
    and "\<not> co_singleflight (lrux_newComputeConfig opts)"
    and "lrux_live_node t1 k (env (lrux_miss c1)) = None"
    and "compute (lrux_fireCallbacks (snd (lrux_purge k (env (lrux_miss c1)))) (fst (lrux_purge k (env (lrux_miss c1))))) = (c3, out)"
    and "(case out of Panics r \<Rightarrow> err = PanicError lrux_opGetOrCompute r
          | Returns v e \<Rightarrow> e = Some err \<or> e = None \<and> e2 = Some err)"
  shows "lrux_GetOrCompute keyStr shared t0 a0 t1 a1 t2 now None None e2 zero k compute env opts c = (c3, zero, Some err)"
  using assms
  by (cases "lrux_purge k (env (lrux_miss c1))"; cases out)
    (auto simp: lrux_GetOrCompute_def Let_def lrux_computeDirect_def split: option.split)

theorem lrux_compute_failure_witness:
  "snd (lrux_GetOrCompute (\<lambda>_. ''x'') Map.empty 1 1 2 2 3 4 None None None (0::nat) ''k''
       (\<lambda>c. (c, Panics (PvOther 3))) (\<lambda>c. c) [] (lrux_New []))
     = (0, Some (PanicError lrux_opGetOrCompute (PvOther 3)))"
  using lrux_compute_failure [of "lrux_New []" 1 1 "''k''" "lrux_New []" "[]" 2 "\<lambda>c. c"
      "\<lambda>c. (c, Panics (PvOther 3))" _ "Panics (PvOther 3)" "PanicError lrux_opGetOrCompute (PvOther 3)" None
      "\<lambda>_. ''x''" Map.empty 2 3 4 "0::nat"]
  by (simp add: lrux_New_def Let_def lrux_startCleanup_def lrux_peekPromote_def lrux_newComputeConfig_def
      lrux_live_node_def lrux_miss_def)

text \<open>
  The key string is not injective: two different keys of a struct type print alike, and a call
  that waits on the other key's computation gets the other key's value as its own.
\<close>

theorem lrux_singleflight_collision:
  "\<exists>k1 k2. k1 \<noteq> k2 \<and> lrux_keyString k1 = lrux_keyString k2 \<and>
     (\<forall>v t a now zero compute ttl (c :: (lrux_key, 'v) lrux_Cache). \<not> lc_closed c \<longrightarrow>
        lrux_computeSingle lrux_keyString (Map.empty(lrux_keyString k1 \<mapsto> (v, None))) t a now None None
          zero k2 compute ttl c = (c, v, None))"
  by (intro exI [of _ "KPair ''a b'' ''c''"] exI [of _ "KPair ''a'' ''b c''"])
    (simp add: lrux_computeSingle_def)

theorem lrux_singleflight_collision_witness:
  "\<exists>k1 k2 :: lrux_key. k1 \<noteq> k2 \<and> lrux_keyString k1 = lrux_keyString k2"
  using lrux_singleflight_collision [where 'v = nat] by (elim exE conjE) blast

text \<open>Taking a counted miss back wraps when the statistics were reset in between: a key stored by
  another goroutine and a \<open>ResetStats\<close>, both while the function runs, leave the miss counter at its
  largest value.
\<close>

theorem lrux_compute_stats_underflow:
  fixes k :: 'k and v w zero :: 'v
  shows "lc_misses (fst (lrux_GetOrCompute keyStr shared 1 1 2 2 3 4 None None None zero k
     (\<lambda>c. (lrux_ResetStats (lrux_Set 2 k w c), Returns v None)) (\<lambda>c. c) [] (lrux_New []))) = - 1"
proof -
  let ?n = "lrux_New [] :: ('k, 'v) lrux_Cache"
  let ?c = "lrux_ResetStats (lrux_Set 2 k w (lrux_miss (?n)))"
  have "lrux_abs (lrux_miss (?n)) ((sp_init (lrux_newConfig []))\<lparr>sp_misses := 0 + 1\<rparr>)"
    using lrux_abs_counters(2) [OF lrux_New_abs [of "[] :: (('k, 'v) lrux_config \<Rightarrow> _) list"]] by (simp add: sp_init_def)
  moreover have "sp_inv ((sp_init (lrux_newConfig []))\<lparr>sp_misses := 0 + 1\<rparr>)"
    using sp_init_inv [of "lrux_newConfig []"] by simp
  ultimately have "lrux_abs (lrux_Set 2 k w (lrux_miss (?n)))
      (sp_set 2 k w 0 ((sp_init (lrux_newConfig []))\<lparr>sp_misses := 0 + 1\<rparr>))"
    unfolding lrux_Set_def by (rule lrux_Set_abs)
  then have a: "lrux_abs ?c
      (fst (sp_exec CResetStats (sp_set 2 k w 0 ((sp_init (lrux_newConfig []))\<lparr>sp_misses := 0 + 1\<rparr>))))"
    by (auto simp: lrux_abs_def lrux_ResetStats_def)
  have m: "lc_misses ?c = 0" by (simp add: lrux_ResetStats_def)
  have "lrux_live_node 3 k ?c \<noteq> None"
    using a
  proof (cases rule: lrux_lookup [of _ _ k])
    case (miss pes)
    then show ?thesis
      by (simp add: sp_set_def sp_init_def sp_find_def sp_put_def sp_front_def sp_trim_def
          lrux_newConfig_def lrux_defaultCapacity_def)
  next
    case (hit xs p e ys)
    have "en_ExpiresAt e = None" using hit(2)
      by (simp add: sp_set_def sp_init_def sp_find_def sp_put_def sp_front_def sp_trim_def sp_expireTime_def
          lrux_newConfig_def lrux_defaultCapacity_def lrux_defaultTTL_def split: if_splits) auto
    then show ?thesis using hit(1) lrux_expired_eq [OF hit(3), of p e 3]
      by (simp add: lrux_live_node_def sp_expired_def)
  qed
  then obtain p where p: "lrux_live_node 3 k ?c = Some p" by blast
  have c0: "lrux_peekPromote 1 1 k (?n) = (?n, None)" "\<not> lc_closed (?n)"
      "lrux_live_node 2 k (lrux_miss (?n)) = None" "lrux_purge k (lrux_miss (?n)) = (lrux_miss (?n), [])"
    by (simp_all add: lrux_peekPromote_def lrux_New_def Let_def lrux_startCleanup_def lrux_live_node_def
        lrux_purge_def lrux_miss_def)
  show ?thesis
    using m p c0
    by (simp add: lrux_GetOrCompute_def Let_def lrux_newComputeConfig_def lrux_computeDirect_def
        lrux_fireCallbacks_eq [of "[]"] lrux_convertMissToHit_def)
qed

end
