(* ===== verification/Lrux_Sharded.thy ===== *)
theory Lrux_Sharded
  imports Lrux_Run
begin

unbundle bit_operations_syntax

text \<open>
  Package \<open>lrux\<close>: \<open>ShardedCache\<close>, a power-of-two number of caches of which the masked hash of the
  key selects one. The hash function (\<open>maphash.Comparable\<close> with a random seed) is a parameter. The
  batch operations group their keys by shard; above \<open>parallelBatchThreshold\<close> they run one goroutine
  per shard, and as the shards are disjoint the result is that of the sequential loop modelled here.
\<close>

subsection \<open>Configuration\<close>

definition lrux_defaultShardCount :: int where "lrux_defaultShardCount = 16"
definition lrux_maxShardCount :: int where "lrux_maxShardCount = 4096"

record ('k, 'v) lrux_shardedConfig =
  so_shardCount :: int
  so_capacity :: int
  so_ttl :: int
  so_onEvict :: "('k, 'v) lrux_OnEvictFunc option"
  so_cleanupInterval :: int

definition lrux_newShardedConfig ::
  "(('k, 'v) lrux_shardedConfig \<Rightarrow> ('k, 'v) lrux_shardedConfig) list \<Rightarrow> ('k, 'v) lrux_shardedConfig" where
  "lrux_newShardedConfig opts =
     fold (\<lambda>opt cfg. opt cfg) opts
       \<lparr>so_shardCount = lrux_defaultShardCount, so_capacity = lrux_defaultCapacity,
        so_ttl = lrux_defaultTTL, so_onEvict = None, so_cleanupInterval = lrux_defaultCleanupInterval\<rparr>"

definition lrux_WithShardCount :: "int \<Rightarrow> ('k, 'v) lrux_shardedConfig \<Rightarrow> ('k, 'v) lrux_shardedConfig" where
  "lrux_WithShardCount n c =
     (if 0 < n then c\<lparr>so_shardCount := (if lrux_maxShardCount < n then lrux_maxShardCount else n)\<rparr> else c)"

definition lrux_WithShardCapacity :: "int \<Rightarrow> ('k, 'v) lrux_shardedConfig \<Rightarrow> ('k, 'v) lrux_shardedConfig" where
  "lrux_WithShardCapacity n c = c\<lparr>so_capacity := (if n < 0 then 0 else n)\<rparr>"

definition lrux_WithShardTTL :: "int \<Rightarrow> ('k, 'v) lrux_shardedConfig \<Rightarrow> ('k, 'v) lrux_shardedConfig" where
  "lrux_WithShardTTL d c = c\<lparr>so_ttl := (if d < 0 then 0 else d)\<rparr>"

definition lrux_WithShardOnEvict ::
  "('k, 'v) lrux_OnEvictFunc option \<Rightarrow> ('k, 'v) lrux_shardedConfig \<Rightarrow> ('k, 'v) lrux_shardedConfig" where
  "lrux_WithShardOnEvict fn c = c\<lparr>so_onEvict := fn\<rparr>"

definition lrux_WithShardCleanupInterval ::
  "int \<Rightarrow> ('k, 'v) lrux_shardedConfig \<Rightarrow> ('k, 'v) lrux_shardedConfig" where
  "lrux_WithShardCleanupInterval d c = (if 0 < d then c\<lparr>so_cleanupInterval := d\<rparr> else c)"

text \<open>\<open>nextPow2\<close> doubles a 64-bit counter; the doubling is written with its wrap-around.\<close>

partial_function (option) lrux_nextPow2_loop :: "int \<Rightarrow> int \<Rightarrow> int option" where
  "lrux_nextPow2_loop n cnt =
     (if cnt < n then lrux_nextPow2_loop n (wrap_i64 (cnt * 2)) else Some cnt)"

definition lrux_nextPow2 :: "int \<Rightarrow> int option" where
  "lrux_nextPow2 n = lrux_nextPow2_loop n 1"

subsection \<open>The sharded cache\<close>

record ('k, 'v) lrux_ShardedCache =
  sh_shards :: "('k, 'v) lrux_Cache list"
  sh_shardMask :: u64
  sh_closed :: bool

definition lrux_NewSharded ::
  "(('k, 'v) lrux_shardedConfig \<Rightarrow> ('k, 'v) lrux_shardedConfig) list \<Rightarrow> ('k, 'v) lrux_ShardedCache option" where
  "lrux_NewSharded opts =
     (let cfg = lrux_newShardedConfig opts
      in case lrux_nextPow2 (so_shardCount cfg) of
           None \<Rightarrow> None
         | Some cnt \<Rightarrow>
             Some \<lparr>sh_shards =
                     map (\<lambda>i. lrux_New [lrux_WithCapacity (so_capacity cfg), lrux_WithTTL (so_ttl cfg),
                                        lrux_WithOnEvict (so_onEvict cfg),
                                        lrux_WithCleanupInterval (so_cleanupInterval cfg)])
                       [0..<nat cnt],
                   sh_shardMask = word_of_int (cnt - 1), sh_closed = False\<rparr>)"

definition lrux_shard_index :: "('k \<Rightarrow> u64) \<Rightarrow> 'k \<Rightarrow> ('k, 'v) lrux_ShardedCache \<Rightarrow> nat" where
  "lrux_shard_index hasher k c = unat (hasher k AND sh_shardMask c)"

definition lrux_shard :: "('k \<Rightarrow> u64) \<Rightarrow> 'k \<Rightarrow> ('k, 'v) lrux_ShardedCache \<Rightarrow> ('k, 'v) lrux_Cache" where
  "lrux_shard hasher k c = sh_shards c ! lrux_shard_index hasher k c"

text \<open>
  The keyed operations of \<open>ShardedCache\<close> call the operation of the same name on the key's shard:
  \<open>Set\<close>, \<open>SetWithTTL\<close>, \<open>Get\<close>, \<open>GetFast\<close>, \<open>Peek\<close>, \<open>Has\<close>, \<open>Touch\<close>, \<open>Delete\<close>, \<open>GetEntry\<close> and \<open>TTL\<close>.
\<close>

definition lrux_at_shard ::
  "('k \<Rightarrow> u64) \<Rightarrow> 'k \<Rightarrow> (('k, 'v) lrux_Cache \<Rightarrow> ('k, 'v) lrux_Cache \<times> 'r)
     \<Rightarrow> ('k, 'v) lrux_ShardedCache \<Rightarrow> ('k, 'v) lrux_ShardedCache \<times> 'r" where
  "lrux_at_shard hasher k f c =
     (case f (lrux_shard hasher k c) of
        (s, r) \<Rightarrow> (c\<lparr>sh_shards := (sh_shards c)[lrux_shard_index hasher k c := s]\<rparr>, r))"

definition lrux_sharded_SetWithTTL ::
  "('k \<Rightarrow> u64) \<Rightarrow> int \<Rightarrow> 'k \<Rightarrow> 'v \<Rightarrow> int \<Rightarrow> ('k, 'v) lrux_ShardedCache \<Rightarrow> ('k, 'v) lrux_ShardedCache" where
  "lrux_sharded_SetWithTTL h now k v ttl c = fst (lrux_at_shard h k (\<lambda>s. (lrux_SetWithTTL now k v ttl s, ())) c)"

definition lrux_sharded_Set ::
  "('k \<Rightarrow> u64) \<Rightarrow> int \<Rightarrow> 'k \<Rightarrow> 'v \<Rightarrow> ('k, 'v) lrux_ShardedCache \<Rightarrow> ('k, 'v) lrux_ShardedCache" where
  "lrux_sharded_Set h now k v c = fst (lrux_at_shard h k (\<lambda>s. (lrux_Set now k v s, ())) c)"

definition lrux_sharded_Get ::
  "('k \<Rightarrow> u64) \<Rightarrow> int \<Rightarrow> int \<Rightarrow> 'k \<Rightarrow> ('k, 'v) lrux_ShardedCache \<Rightarrow> ('k, 'v) lrux_ShardedCache \<times> 'v option" where
  "lrux_sharded_Get h t t' k c = lrux_at_shard h k (lrux_Get t t' k) c"

definition lrux_sharded_GetFast ::
  "('k \<Rightarrow> u64) \<Rightarrow> int \<Rightarrow> 'k \<Rightarrow> ('k, 'v) lrux_ShardedCache \<Rightarrow> ('k, 'v) lrux_ShardedCache \<times> 'v option" where
  "lrux_sharded_GetFast h t k c = lrux_at_shard h k (lrux_GetFast t k) c"

definition lrux_sharded_Peek :: "('k \<Rightarrow> u64) \<Rightarrow> int \<Rightarrow> 'k \<Rightarrow> ('k, 'v) lrux_ShardedCache \<Rightarrow> 'v option" where
  "lrux_sharded_Peek h t k c = lrux_Peek t k (lrux_shard h k c)"

definition lrux_sharded_Has :: "('k \<Rightarrow> u64) \<Rightarrow> int \<Rightarrow> 'k \<Rightarrow> ('k, 'v) lrux_ShardedCache \<Rightarrow> bool" where
  "lrux_sharded_Has h t k c = lrux_Has t k (lrux_shard h k c)"

definition lrux_sharded_GetEntry ::
  "('k \<Rightarrow> u64) \<Rightarrow> int \<Rightarrow> 'k \<Rightarrow> ('k, 'v) lrux_ShardedCache \<Rightarrow> ('k, 'v) lrux_Entry option" where
  "lrux_sharded_GetEntry h t k c = lrux_GetEntry t k (lrux_shard h k c)"

definition lrux_sharded_TTL :: "('k \<Rightarrow> u64) \<Rightarrow> int \<Rightarrow> 'k \<Rightarrow> ('k, 'v) lrux_ShardedCache \<Rightarrow> int" where
  "lrux_sharded_TTL h t k c = lrux_TTL t k (lrux_shard h k c)"

definition lrux_sharded_Touch ::
  "('k \<Rightarrow> u64) \<Rightarrow> int \<Rightarrow> int \<Rightarrow> 'k \<Rightarrow> ('k, 'v) lrux_ShardedCache \<Rightarrow> ('k, 'v) lrux_ShardedCache \<times> bool" where
  "lrux_sharded_Touch h t t' k c = lrux_at_shard h k (lrux_Touch t t' k) c"

definition lrux_sharded_Delete ::
  "('k \<Rightarrow> u64) \<Rightarrow> 'k \<Rightarrow> ('k, 'v) lrux_ShardedCache \<Rightarrow> ('k, 'v) lrux_ShardedCache \<times> bool" where
  "lrux_sharded_Delete h k c = lrux_at_shard h k (lrux_Delete k) c"

subsection \<open>Operations on all shards\<close>

text \<open>One shard after the other, \<open>None\<close> when a loop of one does not return.\<close>

fun lrux_each :: "('c \<Rightarrow> ('c \<times> 'r) option) \<Rightarrow> 'c list \<Rightarrow> ('c list \<times> 'r list) option" where
  "lrux_each f [] = Some ([], [])"
| "lrux_each f (s # ss) =
     (case f s of
        None \<Rightarrow> None
      | Some (s1, r) \<Rightarrow> (case lrux_each f ss of None \<Rightarrow> None | Some (ss1, rs) \<Rightarrow> Some (s1 # ss1, r # rs)))"

definition lrux_on_shards ::
  "(('k, 'v) lrux_Cache \<Rightarrow> (('k, 'v) lrux_Cache \<times> 'r) option) \<Rightarrow> ('r list \<Rightarrow> 'a)
     \<Rightarrow> ('k, 'v) lrux_ShardedCache \<Rightarrow> (('k, 'v) lrux_ShardedCache \<times> 'a) option" where
  "lrux_on_shards f g c =
     (case lrux_each f (sh_shards c) of
        None \<Rightarrow> None
      | Some (ss, rs) \<Rightarrow> Some (c\<lparr>sh_shards := ss\<rparr>, g rs))"

definition lrux_sharded_Resize :: "int \<Rightarrow> ('k, 'v) lrux_ShardedCache \<Rightarrow> ('k, 'v) lrux_ShardedCache option" where
  "lrux_sharded_Resize n c =
     map_option fst (lrux_on_shards (\<lambda>s. map_option (\<lambda>s1. (s1, ())) (lrux_Resize n s)) (\<lambda>_. ()) c)"

definition lrux_sharded_Clear :: "('k, 'v) lrux_ShardedCache \<Rightarrow> ('k, 'v) lrux_ShardedCache option" where
  "lrux_sharded_Clear c =
     map_option fst (lrux_on_shards (\<lambda>s. map_option (\<lambda>s1. (s1, ())) (lrux_Clear s)) (\<lambda>_. ()) c)"

definition lrux_sharded_Len :: "('k, 'v) lrux_ShardedCache \<Rightarrow> int" where
  "lrux_sharded_Len c = sum_list (map lrux_Len (sh_shards c))"

definition lrux_sharded_LenValid ::
  "('k \<Rightarrow> int) \<Rightarrow> ('k, 'v) lrux_ShardedCache \<Rightarrow> (('k, 'v) lrux_ShardedCache \<times> nat) option" where
  "lrux_sharded_LenValid now c =
     lrux_on_shards (\<lambda>s. map_option (\<lambda>n. (s, n)) (lrux_LenValid now s)) sum_list c"

definition lrux_sharded_ExpireOld ::
  "('k \<Rightarrow> int) \<Rightarrow> ('k, 'v) lrux_ShardedCache \<Rightarrow> (('k, 'v) lrux_ShardedCache \<times> nat) option" where
  "lrux_sharded_ExpireOld now c = lrux_on_shards (lrux_ExpireOld now) sum_list c"

definition lrux_sharded_Keys ::
  "('k \<Rightarrow> int) \<Rightarrow> ('k, 'v) lrux_ShardedCache \<Rightarrow> (('k, 'v) lrux_ShardedCache \<times> 'k list) option" where
  "lrux_sharded_Keys now c = lrux_on_shards (lrux_Keys now) concat c"

definition lrux_sharded_Values ::
  "('k \<Rightarrow> int) \<Rightarrow> ('k, 'v) lrux_ShardedCache \<Rightarrow> (('k, 'v) lrux_ShardedCache \<times> 'v list) option" where
  "lrux_sharded_Values now c = lrux_on_shards (lrux_Values now) concat c"

definition lrux_sharded_Snapshot ::
  "('k \<Rightarrow> int) \<Rightarrow> ('k, 'v) lrux_ShardedCache
     \<Rightarrow> (('k, 'v) lrux_ShardedCache \<times> ('k, 'v) lrux_Entry list) option" where
  "lrux_sharded_Snapshot now c = lrux_on_shards (lrux_Snapshot now) concat c"

text \<open>\<open>Range\<close> stops at the shard in which the callback asked for it.\<close>

fun lrux_sharded_Range_loop ::
  "('k \<Rightarrow> int) \<Rightarrow> ('k \<Rightarrow> 'v \<Rightarrow> 's \<Rightarrow> 's \<times> bool) \<Rightarrow> 's \<Rightarrow> ('k, 'v) lrux_Cache list
     \<Rightarrow> (('k, 'v) lrux_Cache list \<times> 's) option" where
  "lrux_sharded_Range_loop now fn st [] = Some ([], st)"
| "lrux_sharded_Range_loop now fn st (s # ss) =
     (case lrux_Range now
             (\<lambda>k v (st, stopped). case fn k v st of (st1, go) \<Rightarrow> ((st1, if go then stopped else True), go))
             (st, False) s of
        None \<Rightarrow> None
      | Some (s1, st1, stopped) \<Rightarrow>
          if stopped then Some (s1 # ss, st1)
          else (case lrux_sharded_Range_loop now fn st1 ss of
                  None \<Rightarrow> None
                | Some (ss1, st2) \<Rightarrow> Some (s1 # ss1, st2)))"

definition lrux_sharded_Range ::
  "('k \<Rightarrow> int) \<Rightarrow> ('k \<Rightarrow> 'v \<Rightarrow> 's \<Rightarrow> 's \<times> bool) \<Rightarrow> 's \<Rightarrow> ('k, 'v) lrux_ShardedCache
     \<Rightarrow> (('k, 'v) lrux_ShardedCache \<times> 's) option" where
  "lrux_sharded_Range now fn st c =
     (case lrux_sharded_Range_loop now fn st (sh_shards c) of
        None \<Rightarrow> None
      | Some (ss, st1) \<Rightarrow> Some (c\<lparr>sh_shards := ss\<rparr>, st1))"

definition lrux_sharded_Close :: "('k, 'v) lrux_ShardedCache \<Rightarrow> ('k, 'v) lrux_ShardedCache option" where
  "lrux_sharded_Close c =
     (if sh_closed c then Some c
      else map_option fst (lrux_on_shards (\<lambda>s. map_option (\<lambda>s1. (s1, ())) (lrux_Close s)) (\<lambda>_. ())
             (c\<lparr>sh_closed := True\<rparr>)))"

definition lrux_sharded_IsClosed :: "('k, 'v) lrux_ShardedCache \<Rightarrow> bool" where
  "lrux_sharded_IsClosed c = sh_closed c"

definition lrux_sharded_Stats :: "('k, 'v) lrux_ShardedCache \<Rightarrow> lrux_Stats" where
  "lrux_sharded_Stats c =
     (let ss = map lrux_CacheStats (sh_shards c);
          hits = sum_list (map ls_Hits ss); misses = sum_list (map ls_Misses ss)
      in \<lparr>ls_Size = sum_list (map ls_Size ss), ls_Capacity = sum_list (map ls_Capacity ss),
          ls_Hits = hits, ls_Misses = misses, ls_Evictions = sum_list (map ls_Evictions ss),
          ls_HitRate = lrux_hitRate hits misses\<rparr>)"

definition lrux_sharded_ResetStats :: "('k, 'v) lrux_ShardedCache \<Rightarrow> ('k, 'v) lrux_ShardedCache" where
  "lrux_sharded_ResetStats c = c\<lparr>sh_shards := map lrux_ResetStats (sh_shards c)\<rparr>"

subsection \<open>Batches\<close>

definition lrux_groupKeys :: "('k \<Rightarrow> u64) \<Rightarrow> 'k list \<Rightarrow> ('k, 'v) lrux_ShardedCache \<Rightarrow> 'k list list" where
  "lrux_groupKeys hasher ks c =
     fold (\<lambda>k groups. let idx = lrux_shard_index hasher k c in groups[idx := groups ! idx @ [k]]) ks
       (replicate (length (sh_shards c)) [])"

definition lrux_groupItems ::
  "('k \<Rightarrow> u64) \<Rightarrow> ('k \<times> 'v) list \<Rightarrow> ('k, 'v) lrux_ShardedCache \<Rightarrow> ('k \<times> 'v) list list" where
  "lrux_groupItems hasher kvs c =
     fold (\<lambda>(k, v) groups. let idx = lrux_shard_index hasher k c in groups[idx := groups ! idx @ [(k, v)]]) kvs
       (replicate (length (sh_shards c)) [])"

text \<open>One batch per shard; an empty batch leaves its shard alone.\<close>

fun lrux_batches ::
  "('g list \<Rightarrow> 'c \<Rightarrow> ('c \<times> 'r) option) \<Rightarrow> 'g list list \<Rightarrow> 'c list \<Rightarrow> ('c list \<times> 'r list) option" where
  "lrux_batches f (g # gs) (s # ss) =
     (case (if g = [] then Some (s, []) else map_option (\<lambda>(s1, r). (s1, [r])) (f g s)) of
        None \<Rightarrow> None
      | Some (s1, r) \<Rightarrow>
          (case lrux_batches f gs ss of None \<Rightarrow> None | Some (ss1, rs) \<Rightarrow> Some (s1 # ss1, r @ rs)))"
| "lrux_batches f gs ss = Some (ss, [])"

definition lrux_sharded_SetMulti ::
  "('k \<Rightarrow> u64) \<Rightarrow> int \<Rightarrow> ('k \<times> 'v) list \<Rightarrow> ('k, 'v) lrux_ShardedCache \<Rightarrow> ('k, 'v) lrux_ShardedCache option" where
  "lrux_sharded_SetMulti hasher now items c =
     (if items = [] then Some c
      else case lrux_batches (\<lambda>g s. map_option (\<lambda>s1. (s1, ())) (lrux_SetMulti now g s))
                  (lrux_groupItems hasher items c) (sh_shards c) of
             None \<Rightarrow> None
           | Some (ss, rs) \<Rightarrow> Some (c\<lparr>sh_shards := ss\<rparr>))"

definition lrux_mergeMaps :: "('k \<Rightarrow> 'v option) list \<Rightarrow> 'k \<Rightarrow> 'v option" where
  "lrux_mergeMaps maps = fold (\<lambda>m result. result ++ m) maps Map.empty"

text \<open>The two clock readings of the \<open>Get\<close> of a key are \<open>clk k\<close>.\<close>

definition lrux_sharded_GetMulti ::
  "('k \<Rightarrow> u64) \<Rightarrow> ('k \<Rightarrow> int \<times> int) \<Rightarrow> 'k list \<Rightarrow> ('k, 'v) lrux_ShardedCache
     \<Rightarrow> (('k, 'v) lrux_ShardedCache \<times> ('k \<Rightarrow> 'v option)) option" where
  "lrux_sharded_GetMulti hasher clk ks c =
     (if ks = [] then Some (c, Map.empty)
      else case lrux_batches (\<lambda>g s. Some (lrux_GetMulti (map (\<lambda>k. (k, clk k)) g) s Map.empty))
                  (lrux_groupKeys hasher ks c) (sh_shards c) of
             None \<Rightarrow> None
           | Some (ss, rs) \<Rightarrow> Some (c\<lparr>sh_shards := ss\<rparr>, lrux_mergeMaps rs))"

definition lrux_sharded_DeleteMulti ::
  "('k \<Rightarrow> u64) \<Rightarrow> 'k list \<Rightarrow> ('k, 'v) lrux_ShardedCache \<Rightarrow> (('k, 'v) lrux_ShardedCache \<times> nat) option" where
  "lrux_sharded_DeleteMulti hasher ks c =
     (if ks = [] then Some (c, 0)
      else case lrux_batches (\<lambda>g s. Some (lrux_DeleteMulti g s)) (lrux_groupKeys hasher ks c) (sh_shards c) of
             None \<Rightarrow> None
           | Some (ss, rs) \<Rightarrow> Some (c\<lparr>sh_shards := ss\<rparr>, sum_list rs))"

subsection \<open>The number of shards\<close>

lemma lrux_nextPow2_loop_eq:
  assumes "cnt = 2 ^ i" and "i \<le> k" and "k \<le> 62" and "n \<le> 2 ^ k" and "\<And>j. j < k \<Longrightarrow> 2 ^ j < n"
  shows "lrux_nextPow2_loop n cnt = Some (2 ^ k)"
  using assms(1,2)
proof (induction "k - i" arbitrary: cnt i)
  case 0
  then have "i = k" by simp
  then show ?case using 0 assms(4) by (subst lrux_nextPow2_loop.simps) simp
next
  case (Suc m)
  then have i: "i < k" by simp
  then have "i + 1 \<le> 62" using assms(3) by simp
  then have "(2::int) ^ (i + 1) \<le> 2 ^ 62" by (intro power_increasing) simp_all
  then have "wrap_i64 (2 ^ (i + 1)) = 2 ^ (i + 1)"
    by (intro wrap_i64_id) (simp_all add: order_trans [of _ 0])
  then have wrap: "wrap_i64 (2 ^ i * 2) = 2 ^ (i + 1)" by (simp add: mult.commute)
  have "lrux_nextPow2_loop n (2 ^ (i + 1)) = Some (2 ^ k)"
    using Suc(1) [of "i + 1"] Suc(2) i by simp
  then show ?case
    using assms(5) [OF i] Suc.prems(1) wrap by (subst lrux_nextPow2_loop.simps) simp
qed

lemma lrux_nextPow2_eq:
  assumes "n \<le> 2 ^ 62"
  shows "\<exists>k\<le>62. lrux_nextPow2 n = Some (2 ^ k) \<and> n \<le> 2 ^ k \<and> (0 < k \<longrightarrow> 2 ^ (k - 1) < n)"
proof -
  define k where "k = (LEAST k. n \<le> 2 ^ k)"
  have k: "n \<le> 2 ^ k" unfolding k_def by (rule LeastI [of _ 62]) (use assms in simp)
  have k62: "k \<le> 62" unfolding k_def by (rule Least_le) (use assms in simp)
  have less: "2 ^ j < n" if "j < k" for j using not_less_Least [of j "\<lambda>k. n \<le> 2 ^ k"] that by (simp add: k_def not_le)
  have "lrux_nextPow2 n = Some (2 ^ k)"
    unfolding lrux_nextPow2_def by (rule lrux_nextPow2_loop_eq [of 1 0]) (use k k62 less in simp_all)
  with k k62 less [of "k - 1"] show ?thesis by auto
qed

text \<open>Masking a hash with the shard count minus one is taking it modulo the shard count.\<close>

lemma lrux_mask_mod:
  assumes "k \<le> 62"
  shows "unat (w AND word_of_int (2 ^ k - 1) :: u64) = unat w mod 2 ^ k"
proof -
  have "(word_of_int (2 ^ k - 1) :: u64) = mask k" by (simp add: mask_eq_exp_minus_1)
  then have "w AND word_of_int (2 ^ k - 1) = take_bit k w" by (simp add: take_bit_eq_mask)
  moreover have "unat (take_bit k w) = unat w mod 2 ^ k"
    using assms by transfer (simp add: take_bit_eq_mod [symmetric] nat_mod_as_int)
  ultimately show ?thesis by simp
qed

subsection \<open>Routing\<close>

text \<open>The shards simulate reference caches and every hash selects one of them.\<close>

definition lrux_sharded_ok :: "('k, 'v) lrux_ShardedCache \<Rightarrow> bool" where
  "lrux_sharded_ok c \<longleftrightarrow>
     (\<exists>ss. lrux.abs_all (sh_shards c) ss)
   \<and> (\<exists>n\<le>62. length (sh_shards c) = 2 ^ n \<and> sh_shardMask c = word_of_int (2 ^ n - 1))"

lemma lrux_sharded_index:
  assumes "lrux_sharded_ok c"
  shows "lrux_shard_index h k c < length (sh_shards c)"
    and "lrux_shard_index h k c = unat (h k) mod length (sh_shards c)"
  using assms lrux_mask_mod by (auto simp: lrux_sharded_ok_def lrux_shard_index_def)

lemma lrux_NewSharded_eq:
  assumes "so_shardCount (lrux_newShardedConfig opts) \<le> 2 ^ 62"
  shows "\<exists>n c. n \<le> 62 \<and> lrux_NewSharded opts = Some c \<and> length (sh_shards c) = 2 ^ n
    \<and> so_shardCount (lrux_newShardedConfig opts) \<le> 2 ^ n
    \<and> (0 < n \<longrightarrow> 2 ^ (n - 1) < so_shardCount (lrux_newShardedConfig opts)) \<and> lrux_sharded_ok c"
proof -
  let ?cfg = "lrux_newShardedConfig opts"
  let ?opts = "[lrux_WithCapacity (so_capacity ?cfg), lrux_WithTTL (so_ttl ?cfg),
      lrux_WithOnEvict (so_onEvict ?cfg), lrux_WithCleanupInterval (so_cleanupInterval ?cfg)]"
  obtain n where n: "n \<le> 62" "lrux_nextPow2 (so_shardCount ?cfg) = Some (2 ^ n)"
      "so_shardCount ?cfg \<le> 2 ^ n" "0 < n \<longrightarrow> 2 ^ (n - 1) < so_shardCount ?cfg"
    using lrux_nextPow2_eq [OF assms] by blast
  let ?c = "\<lparr>sh_shards = map (\<lambda>i. lrux_New ?opts) [0..<2 ^ n], sh_shardMask = word_of_int (2 ^ n - 1),
             sh_closed = False\<rparr>"
  have new: "lrux_NewSharded opts = Some ?c"
    using n(2) by (simp add: lrux_NewSharded_def Let_def nat_power_eq)
  have "lrux.abs_all (sh_shards ?c) (map (\<lambda>i. sp_init (lrux_newConfig ?opts)) [0..<2 ^ n])"
    unfolding lrux.abs_all_def
    using lrux_New_abs [of ?opts] sp_init_inv [of "lrux_newConfig ?opts"]
    by (simp add: list_all2_conv_all_nth list_all_length)
  then have "lrux_sharded_ok ?c"
    using n(1) unfolding lrux_sharded_ok_def by (intro conjI exI [of _ n]) auto
  then show ?thesis using n new by (intro exI [of _ n] exI [of _ ?c]) simp
qed

text \<open>An operation on a shard that executes a command keeps the sharded cache in order.\<close>

lemma lrux_at_shard_ok:
  assumes "lrux_sharded_ok c" and "lrux_exec cmd (lrux_shard h k c) = Some (fst (f (lrux_shard h k c)), r)"
  shows "lrux_sharded_ok (fst (lrux_at_shard h k f c))"
proof -
  obtain ss where ss: "lrux.abs_all (sh_shards c) ss" using assms(1) by (auto simp: lrux_sharded_ok_def)
  obtain s1 r1 where f: "f (lrux_shard h k c) = (s1, r1)" by fastforce
  have "sim_at lrux_exec (lrux_shard_index h k c, cmd) (sh_shards c) =
      Some ((sh_shards c)[lrux_shard_index h k c := s1], r)"
    using assms(2) f by (simp add: sim_at_def lrux_shard_def)
  then have "\<exists>ss'. lrux.abs_all ((sh_shards c)[lrux_shard_index h k c := s1]) ss'"
    using lrux.at_sim [OF ss lrux_sharded_index(1) [OF assms(1)], of h k cmd] by auto
  then show ?thesis
    using assms(1) by (auto simp: lrux_sharded_ok_def lrux_at_shard_def f)
qed

lemma lrux_shard_abs:
  assumes "lrux_sharded_ok c"
  shows "\<exists>s. lrux_abs (lrux_shard h k c) s \<and> sp_inv s"
  using assms lrux_sharded_index(1) [OF assms, of h k]
  by (auto simp: lrux_sharded_ok_def lrux.abs_all_def lrux_shard_def list_all2_conv_all_nth list_all_length)

lemma lrux_at_shard_shard:
  assumes "lrux_sharded_ok c"
  shows "lrux_shard h k' (fst (lrux_at_shard h k f c)) =
    (if lrux_shard_index h k' c = lrux_shard_index h k c then fst (f (lrux_shard h k c)) else lrux_shard h k' c)"
    and "snd (lrux_at_shard h k f c) = snd (f (lrux_shard h k c))"
  using lrux_sharded_index(1) [OF assms, of h k]
  by (auto simp: lrux_at_shard_def lrux_shard_def lrux_shard_index_def split: prod.split)

subsection \<open>Properties\<close>

text \<open>
  Sharding. \<open>NewSharded\<close> returns for every shard count up to 2 to the 62 (the option clamps it
  to 4096): the number of shards is the least power of two not below it, every key's masked hash is
  its hash modulo that number, so the index is never out of range.
\<close>

theorem lrux_sharded_index_valid:
  assumes "so_shardCount (lrux_newShardedConfig opts) \<le> 2 ^ 62"
  shows "\<exists>n c. lrux_NewSharded opts = Some c \<and> length (sh_shards c) = 2 ^ n
    \<and> so_shardCount (lrux_newShardedConfig opts) \<le> 2 ^ n
    \<and> (0 < n \<longrightarrow> 2 ^ (n - 1) < so_shardCount (lrux_newShardedConfig opts))
    \<and> (\<forall>h k. lrux_shard_index h k c = unat (h k) mod 2 ^ n \<and> lrux_shard_index h k c < length (sh_shards c))"
proof -
  obtain n c where "lrux_NewSharded opts = Some c" "length (sh_shards c) = 2 ^ n"
    "so_shardCount (lrux_newShardedConfig opts) \<le> 2 ^ n"
    "0 < n \<longrightarrow> 2 ^ (n - 1) < so_shardCount (lrux_newShardedConfig opts)" and ok: "lrux_sharded_ok c"
    using lrux_NewSharded_eq [OF assms] by blast
  then show ?thesis using lrux_sharded_index [OF ok] by (intro exI [of _ n] exI [of _ c]) simp
qed

theorem lrux_sharded_index_valid_witness:
  "\<exists>n (c :: (nat, nat) lrux_ShardedCache).
     lrux_NewSharded [lrux_WithShardCount 5] = Some c \<and> length (sh_shards c) = 2 ^ n \<and> (5::int) \<le> 2 ^ n"
proof -
  let ?opts = "[lrux_WithShardCount 5] :: ((nat, nat) lrux_shardedConfig \<Rightarrow> _) list"
  have five: "so_shardCount (lrux_newShardedConfig ?opts) = 5"
    by (simp add: lrux_newShardedConfig_def lrux_WithShardCount_def lrux_maxShardCount_def)
  then have "so_shardCount (lrux_newShardedConfig ?opts) \<le> 2 ^ 62" by simp
  from lrux_sharded_index_valid [OF this] show ?thesis unfolding five by blast
qed

text \<open>
  Keys of different shards do not interfere, keys of the same shard find what they stored. On a
  sharded cache in order, a \<open>Get\<close> after a \<open>SetWithTTL\<close> of the same key returns the value until it
  expires, a lookup of a key on another shard gives what it gave before, and the cache stays in order.
\<close>

theorem lrux_sharded_set_get:
  assumes "lrux_sharded_ok c" and "\<not> lc_closed (lrux_shard h k c)"
  shows "snd (lrux_sharded_Get h t t' k (lrux_sharded_SetWithTTL h now k v ttl c)) =
      (case lrux_expireTime now ttl (lrux_shard h k c) of
         None \<Rightarrow> Some v | Some x \<Rightarrow> if t \<le> x then Some v else None)
    \<and> (lrux_shard_index h k' c \<noteq> lrux_shard_index h k c \<longrightarrow>
         lrux_sharded_Peek h t k' (lrux_sharded_SetWithTTL h now k v ttl c) = lrux_sharded_Peek h t k' c)
    \<and> lrux_sharded_ok (lrux_sharded_SetWithTTL h now k v ttl c)"
proof -
  obtain s where s: "lrux_abs (lrux_shard h k c) s" "sp_inv s" using lrux_shard_abs [OF assms(1)] by blast
  let ?c = "lrux_sharded_SetWithTTL h now k v ttl c"
  have ok: "lrux_sharded_ok ?c"
    unfolding lrux_sharded_SetWithTTL_def
    by (rule lrux_at_shard_ok [OF assms(1), of "CSetWithTTL now k v ttl"]) simp
  have sh: "lrux_shard h k' ?c = (if lrux_shard_index h k' c = lrux_shard_index h k c
      then lrux_SetWithTTL now k v ttl (lrux_shard h k c) else lrux_shard h k' c)" for k'
    by (simp add: lrux_sharded_SetWithTTL_def lrux_at_shard_shard [OF assms(1)])
  have op: "\<not> sp_closed s" using assms(2) lrux_absD(7) [OF s(1)] by simp
  have xp: "lrux_expireTime now ttl (lrux_shard h k c) = sp_expireTime now ttl s"
    using lrux_absD(2) [OF s(1)] by (simp add: lrux_expireTime_def sp_expireTime_def)
  obtain e where e: "sp_find k (sp_es (sp_set now k v ttl s)) = Some e" "en_Value e = v"
      "en_ExpiresAt e = sp_expireTime now ttl s"
    using sp_set_find [OF op s(2)] by blast
  have "snd (lrux_sharded_Get h t t' k ?c) = snd (lrux_Get t t' k (lrux_SetWithTTL now k v ttl (lrux_shard h k c)))"
    by (simp add: lrux_sharded_Get_def lrux_at_shard_shard [OF ok] sh)
  also have "\<dots> = snd (sp_get t t' k (sp_set now k v ttl s))"
    by (rule lrux_Get_abs(2) [OF lrux_Set_abs [OF s]])
  also have "\<dots> = (if sp_expired t e then None else Some v)"
    using op e(1,2) by (simp add: sp_get_def sp_lookup_def sp_set_closed_eq)
  finally show ?thesis
    using e(3) ok by (auto simp: xp sp_expired_def lrux_sharded_Peek_def sh split: option.split)
qed

theorem lrux_sharded_set_get_witness:
  "\<exists>c. lrux_NewSharded [] = Some c \<and>
     snd (lrux_sharded_Get (\<lambda>n::nat. of_nat n) 5 5 3 (lrux_sharded_SetWithTTL (\<lambda>n. of_nat n) 1 3 (9::nat) 10 c)) = Some 9"
proof -
  have cfg: "so_shardCount (lrux_newShardedConfig ([] :: ((nat, nat) lrux_shardedConfig \<Rightarrow> _) list)) \<le> 2 ^ 62"
    by (simp add: lrux_newShardedConfig_def lrux_defaultShardCount_def)
  obtain c :: "(nat, nat) lrux_ShardedCache" where c: "lrux_NewSharded [] = Some c" "lrux_sharded_ok c"
    using lrux_NewSharded_eq [OF cfg] by blast
  have all: "\<forall>s\<in>set (sh_shards c). \<not> lc_closed s"
    using c(1) by (auto simp: lrux_NewSharded_def Let_def lrux_New_def lrux_startCleanup_def split: option.splits)
  have "\<not> lc_closed (lrux_shard (\<lambda>n. of_nat n) 3 c)"
    using all lrux_sharded_index(1) [OF c(2)] by (simp add: lrux_shard_def)
  from lrux_sharded_set_get [OF c(2) this, of 5 5 1 9 10] c(1) show ?thesis
    by (auto simp: lrux_expireTime_def)
qed

end
