(* ===== verification/Ratex.thy ===== *)
theory Ratex
  imports Panix F64
begin

text \<open>
  Package \<open>ratex\<close>: the token bucket. Clock readings are arguments; the balance is a \<open>float64\<close> with
  its rounding. The waiting loop runs on a list of rounds, each with the clock, the context and the
  outcome of the timer as the code meets them; a list that ends without a decision is a caller that
  still waits.
\<close>

subsection \<open>Configuration\<close>

definition ratex_DefaultRate :: f64 where "ratex_DefaultRate = 10"
definition ratex_DefaultBurst :: int where "ratex_DefaultBurst = 20"
definition ratex_minBurst :: int where "ratex_minBurst = 1"
definition ratex_opExecute :: string where "ratex_opExecute = ''ratex.Execute''"
definition ratex_opTryExecute :: string where "ratex_opTryExecute = ''ratex.TryExecute''"
definition ratex_minDelay :: int where "ratex_minDelay = 10 ^ 6"

definition ratex_ErrCancelled :: goerr where "ratex_ErrCancelled = Sentinel ''ratex: rate limiter wait cancelled''"
definition ratex_ErrNilFunc :: goerr where "ratex_ErrNilFunc = Sentinel ''ratex: nil function''"
definition ratex_ErrExceedsBurst :: goerr where "ratex_ErrExceedsBurst = Sentinel ''ratex: n exceeds burst''"

definition ratex_errCancelled :: "goerr \<Rightarrow> goerr" where
  "ratex_errCancelled cause = Errorf ''%w: %w'' [ratex_ErrCancelled, cause]"

record ratex_config =
  rc_rate :: f64
  rc_burst :: int

definition ratex_WithRate :: "f64 \<Rightarrow> ratex_config \<Rightarrow> ratex_config" where
  "ratex_WithRate r c = (if 0 < r then c\<lparr>rc_rate := r\<rparr> else c)"

definition ratex_WithBurst :: "int \<Rightarrow> ratex_config \<Rightarrow> ratex_config" where
  "ratex_WithBurst n c = c\<lparr>rc_burst := n\<rparr>"

definition ratex_newConfig :: "(ratex_config \<Rightarrow> ratex_config) option list \<Rightarrow> ratex_config" where
  "ratex_newConfig opts =
     (let c0 = apply_opts opts \<lparr>rc_rate = ratex_DefaultRate, rc_burst = ratex_DefaultBurst\<rparr>;
          c1 = (if rc_rate c0 \<le> 0 then c0\<lparr>rc_rate := ratex_DefaultRate\<rparr> else c0)
      in if rc_burst c1 < ratex_minBurst then c1\<lparr>rc_burst := ratex_minBurst\<rparr> else c1)"

subsection \<open>The bucket\<close>

record ratex_Limiter =
  rl_cfg :: ratex_config
  rl_tokens :: f64
  rl_lastUpdate :: int
  rl_allowed :: u64
  rl_limited :: u64

definition ratex_New :: "int \<Rightarrow> (ratex_config \<Rightarrow> ratex_config) option list \<Rightarrow> ratex_Limiter" where
  "ratex_New now opts =
     (let cfg = ratex_newConfig opts
      in \<lparr>rl_cfg = cfg, rl_tokens = f64_of_int (rc_burst cfg), rl_lastUpdate = now, rl_allowed = 0, rl_limited = 0\<rparr>)"

definition ratex_cap :: "ratex_Limiter \<Rightarrow> f64" where
  "ratex_cap l = f64_of_int (rc_burst (rl_cfg l))"

text \<open>The tokens earned in a time.\<close>

definition ratex_earned :: "ratex_Limiter \<Rightarrow> int \<Rightarrow> f64" where
  "ratex_earned l elapsed = f64_mul (f64_Seconds elapsed) (rc_rate (rl_cfg l))"

definition ratex_refill :: "int \<Rightarrow> ratex_Limiter \<Rightarrow> ratex_Limiter" where
  "ratex_refill now l =
     (let elapsed = now - rl_lastUpdate l
      in if elapsed \<le> 0 then l
         else let add = ratex_earned l elapsed
              in if 0 < add
                 then l\<lparr>rl_tokens := min (ratex_cap l) (f64_add (rl_tokens l) add), rl_lastUpdate := now\<rparr>
                 else l)"

definition ratex_take :: "int \<Rightarrow> f64 \<Rightarrow> ratex_Limiter \<Rightarrow> ratex_Limiter \<times> bool \<times> f64" where
  "ratex_take now n l =
     (let l1 = ratex_refill now l
      in if n \<le> rl_tokens l1
         then let l2 = l1\<lparr>rl_tokens := f64_sub (rl_tokens l1) n\<rparr> in (l2, True, rl_tokens l2)
         else (l1, False, rl_tokens l1))"

definition ratex_AllowN :: "int \<Rightarrow> int \<Rightarrow> ratex_Limiter \<Rightarrow> ratex_Limiter \<times> bool" where
  "ratex_AllowN now n l =
     (let n1 = (if n < 1 then 1 else n)
      in case ratex_take now (f64_of_int n1) l of
           (l1, True, _) \<Rightarrow> (l1\<lparr>rl_allowed := rl_allowed l1 + 1\<rparr>, True)
         | (l1, False, _) \<Rightarrow> (l1\<lparr>rl_limited := rl_limited l1 + 1\<rparr>, False))"

definition ratex_Allow :: "int \<Rightarrow> ratex_Limiter \<Rightarrow> ratex_Limiter \<times> bool" where
  "ratex_Allow now l = ratex_AllowN now 1 l"

definition ratex_countLimited :: "ratex_Limiter \<Rightarrow> ratex_Limiter" where
  "ratex_countLimited l = l\<lparr>rl_limited := rl_limited l + 1\<rparr>"

definition ratex_refund :: "f64 \<Rightarrow> ratex_Limiter \<Rightarrow> ratex_Limiter" where
  "ratex_refund n l =
     (let l1 = l\<lparr>rl_tokens := min (ratex_cap l) (f64_add (rl_tokens l) n)\<rparr>
      in if 0 < rl_allowed l1 then l1\<lparr>rl_allowed := rl_allowed l1 - 1\<rparr> else l1)"

definition ratex_Release :: "f64 \<Rightarrow> ratex_Limiter \<Rightarrow> ratex_Limiter" where
  "ratex_Release n l = ratex_refund n l"

text \<open>\<open>oob\<close> is the conversion of a delay outside \<open>int64\<close>, which the language leaves open.\<close>

definition ratex_delay :: "(f64 \<Rightarrow> int) \<Rightarrow> int \<Rightarrow> int \<Rightarrow> ratex_Limiter \<Rightarrow> ratex_Limiter \<times> int" where
  "ratex_delay oob now n l =
     (let l1 = ratex_refill now l;
          deficit = f64_sub (f64_of_int n) (rl_tokens l1)
      in if deficit \<le> 0 then (l1, ratex_minDelay)
         else let d = f64_to_i64 oob (f64_mul deficit (f64_div (10 ^ 9) (rc_rate (rl_cfg l1))))
              in (l1, if d < ratex_minDelay then ratex_minDelay else d))"

subsection \<open>Waiting\<close>

text \<open>
  One round of \<open>waitFor\<close>: \<open>ctx.Err()\<close> at the top, the clock of \<open>take\<close>, \<open>ctx.Err()\<close> after a
  success, the clock of \<open>delay\<close>, the error if the context ends the wait, \<open>ctx.Err()\<close> after the timer,
  and what other goroutines do to the limiter while this one sleeps.
\<close>

record ratex_round =
  rr_e0 :: goerror
  rr_take :: int
  rr_e1 :: goerror
  rr_delay :: int
  rr_done :: goerror
  rr_e2 :: goerror
  rr_env :: "ratex_Limiter \<Rightarrow> ratex_Limiter"

record ratex_waitResult =
  rw_remaining :: f64
  rw_waited :: bool

fun ratex_wait_loop ::
  "(f64 \<Rightarrow> int) \<Rightarrow> int \<Rightarrow> ratex_round list \<Rightarrow> bool \<Rightarrow> ratex_Limiter
     \<Rightarrow> (ratex_Limiter \<times> (goerr + ratex_waitResult)) option" where
  "ratex_wait_loop oob n [] waited l = None"
| "ratex_wait_loop oob n (r # rs) waited l =
     (case rr_e0 r of
        Some e \<Rightarrow> Some (ratex_countLimited l, Inl (ratex_errCancelled e))
      | None \<Rightarrow>
          (case ratex_take (rr_take r) (f64_of_int n) l of
             (l1, True, rem) \<Rightarrow>
               (let l2 = l1\<lparr>rl_allowed := rl_allowed l1 + 1\<rparr>
                in case rr_e1 r of
                     Some e \<Rightarrow>
                       Some (ratex_countLimited (ratex_refund (f64_of_int n) l2), Inl (ratex_errCancelled e))
                   | None \<Rightarrow> Some (l2, Inr \<lparr>rw_remaining = rem, rw_waited = waited\<rparr>))
           | (l1, False, rem) \<Rightarrow>
               (let l2 = rr_env r (fst (ratex_delay oob (rr_delay r) n l1))
                in case rr_done r of
                     Some e \<Rightarrow> Some (ratex_countLimited l2, Inl (ratex_errCancelled e))
                   | None \<Rightarrow>
                       (case rr_e2 r of
                          Some e \<Rightarrow> Some (ratex_countLimited l2, Inl (ratex_errCancelled e))
                        | None \<Rightarrow> ratex_wait_loop oob n rs True l2))))"

definition ratex_waitFor ::
  "(f64 \<Rightarrow> int) \<Rightarrow> int \<Rightarrow> ratex_round list \<Rightarrow> ratex_Limiter
     \<Rightarrow> (ratex_Limiter \<times> (goerr + ratex_waitResult)) option" where
  "ratex_waitFor oob n rs l =
     (let n1 = (if n < 1 then 1 else n)
      in if rc_burst (rl_cfg l) < n1 then Some (ratex_countLimited l, Inl ratex_ErrExceedsBurst)
         else ratex_wait_loop oob n1 rs False l)"

definition ratex_WaitN ::
  "(f64 \<Rightarrow> int) \<Rightarrow> int \<Rightarrow> ratex_round list \<Rightarrow> ratex_Limiter \<Rightarrow> (ratex_Limiter \<times> goerror) option" where
  "ratex_WaitN oob n rs l =
     map_option (\<lambda>(l1, r). (l1, case r of Inl e \<Rightarrow> Some e | Inr _ \<Rightarrow> None)) (ratex_waitFor oob n rs l)"

definition ratex_Wait :: "(f64 \<Rightarrow> int) \<Rightarrow> ratex_round list \<Rightarrow> ratex_Limiter \<Rightarrow> (ratex_Limiter \<times> goerror) option" where
  "ratex_Wait oob rs l = ratex_WaitN oob 1 rs l"

subsection \<open>Execution\<close>

record ratex_execution =
  re_tokens :: f64
  re_rate :: f64
  re_burst :: int
  re_waited :: bool
  re_skipToken :: bool

definition ratex_SkipToken :: "ratex_execution \<Rightarrow> ratex_execution" where
  "ratex_SkipToken e = e\<lparr>re_skipToken := True\<rparr>"

type_synonym 'a ratex_Func =
  "ratex_execution \<Rightarrow> ratex_Limiter \<Rightarrow> ratex_Limiter \<times> ratex_execution \<times> 'a outcome"

definition ratex_run ::
  "'a \<Rightarrow> string \<Rightarrow> bool \<Rightarrow> f64 \<Rightarrow> 'a ratex_Func \<Rightarrow> ratex_Limiter \<Rightarrow> ratex_Limiter \<times> 'a \<times> goerror" where
  "ratex_run zero op waited remaining fn l =
     (case fn \<lparr>re_tokens = remaining, re_rate = rc_rate (rl_cfg l), re_burst = rc_burst (rl_cfg l),
               re_waited = waited, re_skipToken = False\<rparr> l of
        (l1, rc, out) \<Rightarrow>
          (case panix_Safe zero op (Some out) of
             (val, err) \<Rightarrow> (if re_skipToken rc then ratex_refund 1 l1 else l1, val, err)))"

definition ratex_acquire ::
  "(f64 \<Rightarrow> int) \<Rightarrow> ratex_round list \<Rightarrow> ratex_Limiter \<Rightarrow> (ratex_Limiter \<times> bool \<times> f64 \<times> goerror) option" where
  "ratex_acquire oob rs l =
     (case ratex_waitFor oob 1 rs l of
        None \<Rightarrow> None
      | Some (l1, Inl e) \<Rightarrow> Some (l1, False, 0, Some e)
      | Some (l1, Inr res) \<Rightarrow> Some (l1, rw_waited res, rw_remaining res, None))"

definition ratex_Execute ::
  "(f64 \<Rightarrow> int) \<Rightarrow> ratex_round list \<Rightarrow> 'a \<Rightarrow> 'a ratex_Func option \<Rightarrow> ratex_Limiter
     \<Rightarrow> (ratex_Limiter \<times> 'a \<times> goerror) option" where
  "ratex_Execute oob rs zero fn l =
     (case fn of
        None \<Rightarrow> Some (l, zero, Some ratex_ErrNilFunc)
      | Some f \<Rightarrow>
          (case ratex_acquire oob rs l of
             None \<Rightarrow> None
           | Some (l1, waited, remaining, Some e) \<Rightarrow> Some (l1, zero, Some e)
           | Some (l1, waited, remaining, None) \<Rightarrow> Some (ratex_run zero ratex_opExecute waited remaining f l1)))"

definition ratex_TryExecute ::
  "int \<Rightarrow> goerror \<Rightarrow> goerror \<Rightarrow> 'a \<Rightarrow> 'a ratex_Func option \<Rightarrow> ratex_Limiter
     \<Rightarrow> ratex_Limiter \<times> bool \<times> 'a \<times> goerror" where
  "ratex_TryExecute now e0 e1 zero fn l =
     (case fn of
        None \<Rightarrow> (l, False, zero, Some ratex_ErrNilFunc)
      | Some f \<Rightarrow>
          (case e0 of
             Some e \<Rightarrow> (l, False, zero, Some (ratex_errCancelled e))
           | None \<Rightarrow>
               (case ratex_take now 1 l of
                  (l1, False, remaining) \<Rightarrow> (l1\<lparr>rl_limited := rl_limited l1 + 1\<rparr>, False, zero, None)
                | (l1, True, remaining) \<Rightarrow>
                    (let l2 = l1\<lparr>rl_allowed := rl_allowed l1 + 1\<rparr>
                     in case e1 of
                          Some e \<Rightarrow>
                            (ratex_countLimited (ratex_refund 1 l2), False, zero, Some (ratex_errCancelled e))
                        | None \<Rightarrow>
                            (case ratex_run zero ratex_opTryExecute False remaining f l2 of
                               (l3, val, err) \<Rightarrow> (l3, True, val, err))))))"

subsection \<open>Observation and reset\<close>

record ratex_Stats =
  rs_Rate :: f64
  rs_Burst :: int
  rs_Tokens :: f64
  rs_Allowed :: u64
  rs_Limited :: u64

definition ratex_Tokens :: "int \<Rightarrow> ratex_Limiter \<Rightarrow> ratex_Limiter \<times> f64" where
  "ratex_Tokens now l = (let l1 = ratex_refill now l in (l1, rl_tokens l1))"

definition ratex_Rate :: "ratex_Limiter \<Rightarrow> f64" where "ratex_Rate l = rc_rate (rl_cfg l)"
definition ratex_Burst :: "ratex_Limiter \<Rightarrow> int" where "ratex_Burst l = rc_burst (rl_cfg l)"

definition ratex_LimiterStats :: "int \<Rightarrow> ratex_Limiter \<Rightarrow> ratex_Limiter \<times> ratex_Stats" where
  "ratex_LimiterStats now l =
     (let l1 = ratex_refill now l
      in (l1, \<lparr>rs_Rate = rc_rate (rl_cfg l1), rs_Burst = rc_burst (rl_cfg l1), rs_Tokens = rl_tokens l1,
              rs_Allowed = rl_allowed l1, rs_Limited = rl_limited l1\<rparr>))"

definition ratex_ResetStats :: "ratex_Limiter \<Rightarrow> ratex_Limiter" where
  "ratex_ResetStats l = l\<lparr>rl_allowed := 0, rl_limited := 0\<rparr>"

definition ratex_Reset :: "int \<Rightarrow> ratex_Limiter \<Rightarrow> ratex_Limiter" where
  "ratex_Reset now l = l\<lparr>rl_tokens := f64_of_int (rc_burst (rl_cfg l)), rl_lastUpdate := now\<rparr>"

section \<open>The invariant\<close>

text \<open>
  The balance is a representable number between zero and the capacity, and the configuration is
  one \<open>newConfig\<close> can leave.
\<close>

definition ratex_inv :: "ratex_Limiter \<Rightarrow> bool" where
  "ratex_inv l \<longleftrightarrow>
     0 < rc_rate (rl_cfg l) \<and> 1 \<le> rc_burst (rl_cfg l)
     \<and> 0 \<le> rl_tokens l \<and> rl_tokens l \<le> ratex_cap l \<and> f64_round (rl_tokens l) = rl_tokens l"

lemma ratex_newConfig_ok:
  "0 < rc_rate (ratex_newConfig opts) \<and> 1 \<le> rc_burst (ratex_newConfig opts)"
  by (simp add: ratex_newConfig_def Let_def ratex_minBurst_def ratex_DefaultRate_def)

lemma ratex_cap_rep: "f64_round (ratex_cap l) = ratex_cap l"
  by (simp add: ratex_cap_def f64_of_int_rep)

lemma ratex_cap_ge_1: "1 \<le> rc_burst (rl_cfg l) \<Longrightarrow> 1 \<le> ratex_cap l"
  using f64_of_int_mono [of 1 "rc_burst (rl_cfg l)"] by (simp add: ratex_cap_def f64_of_int_exact)

lemma ratex_inv_New [urx_inv]: "ratex_inv (ratex_New now opts)"
  using ratex_newConfig_ok [of opts]
  by (simp add: ratex_inv_def ratex_New_def Let_def ratex_cap_def f64_of_int_rep f64_of_int_nonneg)

lemma ratex_min_cap_round:
  assumes "0 \<le> q" and "1 \<le> rc_burst (rl_cfg l)"
  shows "0 \<le> min (ratex_cap l) (f64_round q) \<and> min (ratex_cap l) (f64_round q) \<le> ratex_cap l
    \<and> f64_round (min (ratex_cap l) (f64_round q)) = min (ratex_cap l) (f64_round q)"
  using f64.rnd_nonneg [OF assms(1)] ratex_cap_ge_1 [OF assms(2)] ratex_cap_rep [of l]
  by (simp add: min_def f64.rnd_idem)

lemma ratex_earned_nonneg: "ratex_inv l \<Longrightarrow> 0 \<le> d \<Longrightarrow> 0 \<le> ratex_earned l d"
  by (simp add: ratex_earned_def f64_mul_nonneg f64_Seconds_nonneg ratex_inv_def)

lemma ratex_cap_upd [simp]:
  "ratex_cap (l\<lparr>rl_tokens := t\<rparr>) = ratex_cap l"
  "ratex_cap (l\<lparr>rl_lastUpdate := u\<rparr>) = ratex_cap l"
  "ratex_cap (l\<lparr>rl_allowed := a\<rparr>) = ratex_cap l"
  "ratex_cap (l\<lparr>rl_limited := a\<rparr>) = ratex_cap l"
  by (simp_all add: ratex_cap_def)

lemma ratex_inv_counters [simp]:
  "ratex_inv (l\<lparr>rl_allowed := a\<rparr>) = ratex_inv l"
  "ratex_inv (l\<lparr>rl_limited := a\<rparr>) = ratex_inv l"
  "ratex_inv (l\<lparr>rl_lastUpdate := u\<rparr>) = ratex_inv l"
  by (simp_all add: ratex_inv_def)

lemma ratex_inv_add:
  "ratex_inv l \<Longrightarrow> 0 \<le> n \<Longrightarrow> ratex_inv (l\<lparr>rl_tokens := min (ratex_cap l) (f64_add (rl_tokens l) n)\<rparr>)"
  using ratex_min_cap_round [of "rl_tokens l + n" l] by (simp add: ratex_inv_def f64_add_def)

lemma ratex_inv_refill [urx_inv]: "ratex_inv l \<Longrightarrow> ratex_inv (ratex_refill now l)"
  by (simp add: ratex_refill_def Let_def ratex_inv_add ratex_earned_nonneg)

lemma ratex_cfg_refill [urx_frame, simp]:
  "rl_cfg (ratex_refill now l) = rl_cfg l"
  "rl_allowed (ratex_refill now l) = rl_allowed l"
  "rl_limited (ratex_refill now l) = rl_limited l"
  by (simp_all add: ratex_refill_def Let_def)

lemma ratex_cap_refill [simp]: "ratex_cap (ratex_refill now l) = ratex_cap l"
  by (simp add: ratex_cap_def)

lemma ratex_inv_take [urx_inv]:
  assumes "ratex_inv l" and "0 \<le> n"
  shows "ratex_inv (fst (ratex_take now n l))"
proof -
  have i: "ratex_inv (ratex_refill now l)" using assms(1) by (rule ratex_inv_refill)
  then have "0 \<le> f64_sub (rl_tokens (ratex_refill now l)) n \<and> f64_sub (rl_tokens (ratex_refill now l)) n \<le> rl_tokens (ratex_refill now l)"
    if "n \<le> rl_tokens (ratex_refill now l)"
    using f64.rnd_sub_bounds [of n "rl_tokens (ratex_refill now l)"] assms(2) that
    by (simp add: ratex_inv_def f64_sub_def)
  with i show ?thesis
    by (auto simp: ratex_take_def Let_def ratex_inv_def f64_sub_def f64.rnd_idem)
qed

lemma ratex_AllowN_alt:
  "ratex_AllowN now n l =
     (let r = ratex_take now (f64_of_int (max 1 n)) l; l1 = fst r
      in if fst (snd r) then (l1\<lparr>rl_allowed := rl_allowed l1 + 1\<rparr>, True)
         else (l1\<lparr>rl_limited := rl_limited l1 + 1\<rparr>, False))"
  by (auto simp: ratex_AllowN_def Let_def max_def split: prod.split bool.split)

lemma ratex_take_frame [urx_frame, simp]:
  "rl_cfg (fst (ratex_take now n l)) = rl_cfg l"
  "rl_allowed (fst (ratex_take now n l)) = rl_allowed l"
  "rl_limited (fst (ratex_take now n l)) = rl_limited l"
  by (simp_all add: ratex_take_def Let_def)

lemma ratex_inv_AllowN [urx_inv]: "ratex_inv l \<Longrightarrow> ratex_inv (fst (ratex_AllowN now n l))"
  by (simp add: ratex_AllowN_alt Let_def ratex_inv_take f64_of_int_nonneg)

lemma ratex_inv_refund [urx_inv]: "ratex_inv l \<Longrightarrow> 0 \<le> n \<Longrightarrow> ratex_inv (ratex_refund n l)"
  by (simp add: ratex_refund_def Let_def ratex_inv_add)

lemma ratex_inv_countLimited [urx_inv]: "ratex_inv l \<Longrightarrow> ratex_inv (ratex_countLimited l)"
  by (simp add: ratex_countLimited_def)

lemma ratex_delay_state: "fst (ratex_delay oob now n l) = ratex_refill now l"
  by (simp add: ratex_delay_def Let_def)

lemma ratex_inv_wait_loop:
  assumes "ratex_inv l" and "1 \<le> n" and "\<And>r l. r \<in> set rs \<Longrightarrow> ratex_inv l \<Longrightarrow> ratex_inv (rr_env r l)"
    and "ratex_wait_loop oob n rs waited l = Some (l', res)"
  shows "ratex_inv l'"
  using assms
proof (induction rs arbitrary: waited l)
  case (Cons r rs)
  obtain l1 ok rem where t: "ratex_take (rr_take r) (f64_of_int n) l = (l1, ok, rem)" by (metis prod_cases3)
  have i1: "ratex_inv l1"
    using ratex_inv_take [OF Cons.prems(1), of "f64_of_int n" "rr_take r"] Cons.prems(2) t
    by (simp add: f64_of_int_nonneg)
  have i2: "ratex_inv (rr_env r (fst (ratex_delay oob (rr_delay r) n l1)))"
    using Cons.prems(3) [of r] i1 by (simp add: ratex_delay_state ratex_inv_refill)
  have n0: "0 \<le> f64_of_int n" using Cons.prems(2) by (simp add: f64_of_int_nonneg)
  show ?case
  proof (cases ok)
    case True
    with Cons.prems(1,4) i1 n0 t show ?thesis
      by (auto simp: Let_def ratex_countLimited_def ratex_inv_refund split: option.splits)
  next
    case False
    show ?thesis
    proof (cases "rr_e0 r = None \<and> rr_done r = None \<and> rr_e2 r = None")
      case c: True
      have "ratex_wait_loop oob n rs True (rr_env r (fst (ratex_delay oob (rr_delay r) n l1))) = Some (l', res)"
        using Cons.prems(4) c False t by (simp add: Let_def)
      from Cons.IH [OF i2 Cons.prems(2) _ this] Cons.prems(3) show ?thesis by simp
    next
      case c: False
      with Cons.prems(1,4) i2 False t show ?thesis
        by (auto simp: Let_def ratex_countLimited_def split: option.splits)
    qed
  qed
qed simp

section \<open>The rate bound\<close>

text \<open>What one refill adds: at most the tokens earned, up to one rounding error of the capacity.\<close>

lemma ratex_refill_gain:
  assumes "ratex_inv l"
  shows "rl_tokens (ratex_refill now l)
    \<le> rl_tokens l + rc_rate (rl_cfg l) * of_int (rl_lastUpdate (ratex_refill now l) - rl_lastUpdate l) / 10 ^ 9
        * (1 + f64_u) ^ 4 + ratex_cap l * f64_u"
proof -
  let ?d = "now - rl_lastUpdate l" and ?u = "1 + f64_u" and ?r = "rc_rate (rl_cfg l)"
  have u: "0 < f64_u" by (rule f64_u_pos)
  have c: "0 \<le> ratex_cap l" "0 \<le> rl_tokens l" "0 < ?r" using assms by (simp_all add: ratex_inv_def)
  show ?thesis
  proof (cases "0 < ?d \<and> 0 < ratex_earned l ?d")
    case True
    let ?y = "rl_tokens l + ratex_earned l ?d"
    have "f64_mul (f64_Seconds ?d) ?r \<le> (of_int ?d / 10 ^ 9 * ?u ^ 3 * ?r) * ?u"
      unfolding f64_mul_def
      by (rule f64_round_le_scaled)
        (use f64_Seconds_upper [of ?d] f64_Seconds_nonneg [of ?d] True c in \<open>simp_all add: mult_right_mono\<close>)
    then have e: "ratex_earned l ?d \<le> ?r * of_int ?d / 10 ^ 9 * ?u ^ 4"
      by (simp add: ratex_earned_def power3_eq_cube power4_eq_xxxx mult_ac)
    have "min (ratex_cap l) (f64_round ?y) \<le> ?y + ratex_cap l * f64_u"
    proof (cases "ratex_cap l \<le> ?y")
      case True
      moreover have "0 \<le> ratex_cap l * f64_u" using c u by simp
      ultimately show ?thesis by linarith
    next
      case False
      then have "?y * f64_u \<le> ratex_cap l * f64_u" using u by (intro mult_right_mono) simp_all
      moreover have "f64_round ?y \<le> ?y * (1 + f64_u)"
        using f64_round_upper [of ?y] c True by simp
      then have "f64_round ?y \<le> ?y + ?y * f64_u" by (simp only: distrib_left mult_1_right)
      ultimately show ?thesis by linarith
    qed
    with e True show ?thesis
      by (simp add: ratex_refill_def Let_def f64_add_def)
  next
    case False
    then show ?thesis using c u by (auto simp: ratex_refill_def Let_def)
  qed
qed

lemma ratex_refill_clock: "rl_lastUpdate l \<le> rl_lastUpdate (ratex_refill now l)"
  by (simp add: ratex_refill_def Let_def)

text \<open>Below \<open>2 ^ 53\<close> a take is exact.\<close>

lemma ratex_take_exact:
  assumes "ratex_inv l" and "rc_burst (rl_cfg l) < 2 ^ 53" and "1 \<le> n"
  shows "ratex_take now (f64_of_int n) l =
    (let l1 = ratex_refill now l
     in if of_int n \<le> rl_tokens l1
        then (l1\<lparr>rl_tokens := rl_tokens l1 - of_int n\<rparr>, True, rl_tokens l1 - of_int n)
        else (l1, False, rl_tokens l1))"
proof -
  let ?t = "rl_tokens (ratex_refill now l)"
  have i: "ratex_inv (ratex_refill now l)" using assms(1) by (rule ratex_inv_refill)
  have cap: "ratex_cap l = of_int (rc_burst (rl_cfg l))"
    using assms(1,2) by (simp add: ratex_cap_def f64_of_int_exact ratex_inv_def)
  have lt: "(of_int (rc_burst (rl_cfg l)) :: rat) < of_int (2 ^ 53)" using assms(2) by (simp only: of_int_less_iff)
  have t: "?t \<le> of_int (rc_burst (rl_cfg l))" "?t < 2 ^ 53"
    using i cap lt by (simp_all add: ratex_inv_def)
  have le: "f64_of_int n \<le> ?t \<longleftrightarrow> of_int n \<le> ?t"
  proof (cases "n < 2 ^ 53")
    case True
    then show ?thesis using assms(3) by (simp add: f64_of_int_exact)
  next
    case False
    then have "f64_of_int (2 ^ 53 - 1) \<le> f64_of_int n" by (intro f64_of_int_mono) simp
    have "of_int (rc_burst (rl_cfg l)) < (of_int n :: rat)" using False assms(2) by simp
    moreover have "f64_of_int (2 ^ 53) \<le> f64_of_int n" using False by (intro f64_of_int_mono) simp
    moreover have "f64_of_int (2 ^ 53) = 2 ^ 53"
      using f64_round_exact [of "2 ^ 53" 0] by (simp add: f64_of_int_def)
    ultimately show ?thesis using t by simp
  qed
  show ?thesis
  proof (cases "of_int n \<le> ?t")
    case True
    then have "(of_int n :: rat) < of_int (2 ^ 53)" using t(2) by simp
    then have "n < 2 ^ 53" by (simp only: of_int_less_iff)
    then have n: "f64_of_int n = of_int n" using assms(3) by (simp add: f64_of_int_exact)
    have "f64_round (?t - of_int n) = ?t - of_int n"
      by (rule f64_sub_int_exact) (use i assms(3) True t(2) in \<open>simp_all add: ratex_inv_def\<close>)
    with n True show ?thesis by (simp add: ratex_take_def Let_def f64_sub_def)
  next
    case False
    then show ?thesis using le by (simp add: ratex_take_def Let_def)
  qed
qed

datatype ratex_call = RAllowN int int | RTokens int | RStats int

fun ratex_calls :: "ratex_call list \<Rightarrow> ratex_Limiter \<Rightarrow> ratex_Limiter \<times> int" where
  "ratex_calls [] l = (l, 0)"
| "ratex_calls (RAllowN now n # cs) l =
     (case ratex_AllowN now n l of
        (l1, ok) \<Rightarrow>
          (case ratex_calls cs l1 of (l2, g) \<Rightarrow> (l2, (if ok then max 1 n else 0) + g)))"
| "ratex_calls (RTokens now # cs) l = ratex_calls cs (fst (ratex_Tokens now l))"
| "ratex_calls (RStats now # cs) l = ratex_calls cs (fst (ratex_LimiterStats now l))"

definition ratex_budget :: "ratex_Limiter \<Rightarrow> ratex_Limiter \<Rightarrow> rat" where
  "ratex_budget l l' =
     rl_tokens l + rc_rate (rl_cfg l) * of_int (rl_lastUpdate l' - rl_lastUpdate l) / 10 ^ 9 * (1 + f64_u) ^ 4"

lemma ratex_AllowN_step:
  assumes "ratex_inv l" and "rc_burst (rl_cfg l) < 2 ^ 53"
  shows "rl_tokens (fst (ratex_AllowN now n l)) + of_int (if snd (ratex_AllowN now n l) then max 1 n else 0)
      = rl_tokens (ratex_refill now l)"
    and "rl_lastUpdate (fst (ratex_AllowN now n l)) = rl_lastUpdate (ratex_refill now l)"
    and "rl_cfg (fst (ratex_AllowN now n l)) = rl_cfg l"
  using assms by (simp_all add: ratex_AllowN_alt ratex_take_exact Let_def)

lemma ratex_budget_step:
  assumes "ratex_inv l" and "rl_tokens l1 + g = rl_tokens (ratex_refill now l)"
    and "rl_lastUpdate l1 = rl_lastUpdate (ratex_refill now l)" and "rl_cfg l1 = rl_cfg l"
  shows "ratex_budget l1 l' + g \<le> ratex_budget l l' + ratex_cap l * f64_u"
proof -
  let ?k = "rc_rate (rl_cfg l) / 10 ^ 9 * (1 + f64_u) ^ 4"
  let ?a = "rl_lastUpdate l' - rl_lastUpdate l1" and ?b = "rl_lastUpdate l1 - rl_lastUpdate l"
  have k: "ratex_budget l l' = rl_tokens l + ?k * of_int (rl_lastUpdate l' - rl_lastUpdate l)"
    by (simp add: ratex_budget_def mult_ac)
  have "of_int (rl_lastUpdate l' - rl_lastUpdate l) = (of_int ?a + of_int ?b :: rat)" by simp
  then have "ratex_budget l l' = rl_tokens l + ?k * of_int ?a + ?k * of_int ?b"
    unfolding k by (simp only: distrib_left add.assoc)
  moreover have "ratex_budget l1 l' = rl_tokens l1 + ?k * of_int ?a"
    using assms(4) by (simp add: ratex_budget_def mult_ac)
  moreover have "rl_tokens (ratex_refill now l) \<le> rl_tokens l + ?k * of_int ?b + ratex_cap l * f64_u"
    using ratex_refill_gain [OF assms(1), of now] assms(3) by (simp add: mult_ac)
  ultimately show ?thesis using assms(2) by linarith
qed

lemma ratex_calls_bound:
  assumes "ratex_inv l" and "rc_burst (rl_cfg l) < 2 ^ 53" and "ratex_calls cs l = (l', g)"
  shows "of_int g + rl_tokens l' \<le> ratex_budget l l' + of_nat (length cs) * (ratex_cap l * f64_u)"
  using assms
proof (induction cs arbitrary: l g)
  case Nil
  then show ?case by (simp add: ratex_budget_def)
next
  case (Cons c cs)
  have ref: "ratex_budget (ratex_refill now l) l' \<le> ratex_budget l l' + ratex_cap l * f64_u" for now
    using ratex_budget_step [OF Cons.prems(1), of "ratex_refill now l" 0 now l'] by simp
  show ?case
  proof (cases c)
    case (RAllowN now n)
    let ?l1 = "fst (ratex_AllowN now n l)" and ?h = "if snd (ratex_AllowN now n l) then max 1 n else 0"
    obtain g1 where g1: "ratex_calls cs ?l1 = (l', g1)" "g = ?h + g1"
      using Cons.prems(3) RAllowN by (auto split: prod.splits if_splits)
    note st = ratex_AllowN_step [OF Cons.prems(1,2), of now n]
    from Cons.IH [OF ratex_inv_AllowN [OF Cons.prems(1)] _ g1(1)] st(3) Cons.prems(2)
    have "of_int g1 + rl_tokens l' \<le> ratex_budget ?l1 l' + of_nat (length cs) * (ratex_cap l * f64_u)"
      by (simp add: ratex_cap_def)
    moreover from ratex_budget_step [OF Cons.prems(1) st, of l']
    have "ratex_budget ?l1 l' + of_int ?h \<le> ratex_budget l l' + ratex_cap l * f64_u" .
    moreover have "(of_int g :: rat) = of_int ?h + of_int g1" using g1(2) by simp
    ultimately show ?thesis by (simp add: distrib_right)
  next
    case (RTokens now)
    with Cons.prems have "ratex_calls cs (ratex_refill now l) = (l', g)" by (simp add: ratex_Tokens_def Let_def)
    from Cons.IH [OF ratex_inv_refill [OF Cons.prems(1)] _ this] ref [of now] Cons.prems(2)
    show ?thesis by (simp add: distrib_right)
  next
    case (RStats now)
    with Cons.prems have "ratex_calls cs (ratex_refill now l) = (l', g)" by (simp add: ratex_LimiterStats_def Let_def)
    from Cons.IH [OF ratex_inv_refill [OF Cons.prems(1)] _ this] ref [of now] Cons.prems(2)
    show ?thesis by (simp add: distrib_right)
  qed
qed

fun ratex_call_clock :: "ratex_call \<Rightarrow> int" where
  "ratex_call_clock (RAllowN now n) = now"
| "ratex_call_clock (RTokens now) = now"
| "ratex_call_clock (RStats now) = now"

lemma ratex_refill_clock_le: "rl_lastUpdate l \<le> t \<Longrightarrow> now \<le> t \<Longrightarrow> rl_lastUpdate (ratex_refill now l) \<le> t"
  by (simp add: ratex_refill_def Let_def)

lemma ratex_AllowN_clock: "rl_lastUpdate (fst (ratex_AllowN now n l)) = rl_lastUpdate (ratex_refill now l)"
  by (simp add: ratex_AllowN_alt ratex_take_def Let_def)

lemma ratex_calls_inv: "ratex_inv l \<Longrightarrow> ratex_calls cs l = (l', g) \<Longrightarrow> ratex_inv l'"
proof (induction cs arbitrary: l g)
  case (Cons c cs)
  show ?case
  proof (cases c)
    case (RAllowN now n)
    then obtain g1 where "ratex_calls cs (fst (ratex_AllowN now n l)) = (l', g1)"
      using Cons.prems(2) by (auto split: prod.splits)
    from Cons.IH [OF ratex_inv_AllowN [OF Cons.prems(1)] this] show ?thesis .
  qed (use Cons.prems Cons.IH [OF ratex_inv_refill [OF Cons.prems(1)]]
       in \<open>simp_all add: ratex_Tokens_def ratex_LimiterStats_def Let_def\<close>)
qed simp

lemma ratex_calls_clock:
  assumes "ratex_calls cs l = (l', g)" and "rl_lastUpdate l \<le> t" and "\<forall>c\<in>set cs. ratex_call_clock c \<le> t"
  shows "rl_lastUpdate l' \<le> t"
  using assms
proof (induction cs arbitrary: l g)
  case (Cons c cs)
  have step: "rl_lastUpdate l' \<le> t" if "ratex_calls cs l1 = (l', g1)"
    and "rl_lastUpdate l1 = rl_lastUpdate (ratex_refill (ratex_call_clock c) l)" for l1 g1
    using Cons.IH [OF that(1)] that(2) Cons.prems(2,3) by (simp add: ratex_refill_clock_le)
  show ?case
  proof (cases c)
    case (RAllowN now n)
    then obtain g1 where "ratex_calls cs (fst (ratex_AllowN now n l)) = (l', g1)"
      using Cons.prems(1) by (auto split: prod.splits)
    from step [OF this] RAllowN show ?thesis by (simp add: ratex_AllowN_clock)
  qed (use Cons.prems(1) step in \<open>simp_all add: ratex_Tokens_def ratex_LimiterStats_def Let_def\<close>)
qed simp

section \<open>Waiting\<close>

lemma ratex_allowed_back: "(a :: u64) + 1 \<noteq> 0 \<Longrightarrow> 0 < a + 1"
  using word_neq_0_conv by blast

text \<open>Giving back what a successful take consumed restores the refilled bucket exactly.\<close>

lemma ratex_take_refund:
  assumes "ratex_inv l" and "rc_burst (rl_cfg l) < 2 ^ 53" and "1 \<le> n"
    and "ratex_take now (f64_of_int n) l = (l1, True, rem)" and "rl_allowed l + 1 \<noteq> 0"
  shows "ratex_refund (f64_of_int n) (l1\<lparr>rl_allowed := rl_allowed l1 + 1\<rparr>) = ratex_refill now l"
proof -
  let ?r = "ratex_refill now l"
  have i: "ratex_inv ?r" using assms(1) by (rule ratex_inv_refill)
  have t: "of_int n \<le> rl_tokens ?r" "l1 = ?r\<lparr>rl_tokens := rl_tokens ?r - of_int n\<rparr>"
    using assms(4) ratex_take_exact [OF assms(1-3), of now] by (auto simp: Let_def split: if_splits)
  have "(of_int (rc_burst (rl_cfg l)) :: rat) < of_int (2 ^ 53)" using assms(2) by (simp only: of_int_less_iff)
  moreover have "ratex_cap l = of_int (rc_burst (rl_cfg l))"
    using assms(1,2) by (simp add: ratex_cap_def f64_of_int_exact ratex_inv_def)
  ultimately have "(of_int n :: rat) < of_int (2 ^ 53)" using t(1) i by (simp add: ratex_inv_def)
  then have "n < 2 ^ 53" by (simp only: of_int_less_iff)
  then have n: "f64_of_int n = of_int n" using assms(3) by (simp add: f64_of_int_exact)
  have "min (ratex_cap l) (f64_round (rl_tokens ?r)) = rl_tokens ?r"
    using i by (simp add: ratex_inv_def)
  with t n show ?thesis
    using ratex_allowed_back [OF assms(5)] by (simp add: ratex_refund_def Let_def f64_add_def)
qed

fun ratex_wait_clocks :: "ratex_round list \<Rightarrow> int list" where
  "ratex_wait_clocks [] = []"
| "ratex_wait_clocks (r # rs) = rr_take r # rr_delay r # ratex_wait_clocks rs"

definition ratex_wait_alone :: "ratex_round list \<Rightarrow> bool" where
  "ratex_wait_alone rs \<longleftrightarrow> (\<forall>r\<in>set rs. rr_env r = id)"

text \<open>The bucket after an abandoned wait is the bucket refilled at some of the clocks that were read.\<close>

definition ratex_refilled :: "ratex_Limiter \<Rightarrow> ratex_Limiter \<Rightarrow> bool" where
  "ratex_refilled l l' \<longleftrightarrow>
     (\<exists>ts. rl_tokens l' = rl_tokens (fold ratex_refill ts l) \<and> rl_lastUpdate l' = rl_lastUpdate (fold ratex_refill ts l))"

lemma ratex_refilled_refl: "rl_tokens l' = rl_tokens l \<Longrightarrow> rl_lastUpdate l' = rl_lastUpdate l \<Longrightarrow> ratex_refilled l l'"
  unfolding ratex_refilled_def by (rule exI [where x = "[]"]) simp

lemma ratex_refilled_step: "ratex_refilled (ratex_refill now l) l' \<Longrightarrow> ratex_refilled l l'"
  unfolding ratex_refilled_def by (metis fold_simps(2))

lemma ratex_wait_loop_outcome:
  assumes "ratex_inv l" and "rc_burst (rl_cfg l) < 2 ^ 53" and "1 \<le> n" and "ratex_wait_alone rs"
    and "rl_allowed l + 1 \<noteq> 0" and "ratex_wait_loop oob n rs waited l = Some (l', res)"
  shows "case res of
      Inl e \<Rightarrow> (\<exists>cause. e = ratex_errCancelled cause) \<and> ratex_refilled l l'
        \<and> rl_allowed l' = rl_allowed l \<and> rl_limited l' = rl_limited l + 1
    | Inr w \<Rightarrow> (\<exists>l1. ratex_refilled l l1 \<and> of_int n \<le> rl_tokens l1 \<and> rl_tokens l' = rl_tokens l1 - of_int n)
        \<and> rw_remaining w = rl_tokens l' \<and> rl_allowed l' = rl_allowed l + 1 \<and> rl_limited l' = rl_limited l"
  using assms
proof (induction rs arbitrary: waited l)
  case (Cons r rs)
  let ?r = "ratex_refill (rr_take r) l" and ?d = "ratex_refill (rr_delay r) (ratex_refill (rr_take r) l)"
  have env: "rr_env r = id" and al: "ratex_wait_alone rs" using Cons.prems(4) by (simp_all add: ratex_wait_alone_def)
  have r1: "ratex_refilled l ?r" by (rule ratex_refilled_step [OF ratex_refilled_refl]) simp_all
  have r2: "ratex_refilled l ?d"
    by (rule ratex_refilled_step [OF ratex_refilled_step [OF ratex_refilled_refl]]) simp_all
  note ex = ratex_take_exact [OF Cons.prems(1-3), of "rr_take r", unfolded Let_def]
  have rf: "ratex_refilled l (ratex_countLimited x)" if "ratex_refilled l x" for x
    using that by (simp add: ratex_refilled_def ratex_countLimited_def)
  show ?case
  proof (cases "rr_e0 r")
    case (Some e)
    with Cons.prems(6) rf [OF ratex_refilled_refl [of l l]] show ?thesis
      by (auto simp: ratex_countLimited_def)
  next
    case None
    show ?thesis
    proof (cases "rat_of_int n \<le> rl_tokens ?r")
      case True
      let ?t = "?r\<lparr>rl_tokens := rl_tokens ?r - of_int n\<rparr>"
      have tk: "ratex_take (rr_take r) (f64_of_int n) l = (?t, True, rl_tokens ?r - of_int n)"
        using ex True by simp
      note undo = ratex_take_refund [OF Cons.prems(1-3) tk Cons.prems(5)]
      from Cons.prems(6) None tk undo r1 rf [OF r1] True show ?thesis
        by (cases "rr_e1 r") (auto simp: Let_def ratex_countLimited_def)
    next
      case False
      then have tk: "ratex_take (rr_take r) (f64_of_int n) l = (?r, False, rl_tokens ?r)" using ex by simp
      show ?thesis
      proof (cases "rr_done r = None \<and> rr_e2 r = None")
        case True
        have w: "ratex_wait_loop oob n rs True ?d = Some (l', res)"
          using Cons.prems(6) None tk True env by (simp add: Let_def ratex_delay_state)
        have "ratex_inv ?d" using Cons.prems(1) by (simp add: ratex_inv_refill)
        from Cons.IH [OF this _ Cons.prems(3) al _ w] Cons.prems(2,5) show ?thesis
          by (auto split: sum.splits dest!: ratex_refilled_step)
      next
        case c: False
        with Cons.prems(6) None tk env rf [OF r2] show ?thesis
          by (auto simp: Let_def ratex_delay_state ratex_countLimited_def split: option.splits)
      qed
    qed
  qed
qed simp

lemma ratex_wait_loop_returns:
  assumes "\<exists>r\<in>set rs. rr_e0 r \<noteq> None \<or> rr_done r \<noteq> None \<or> rr_e2 r \<noteq> None"
  shows "\<exists>p. ratex_wait_loop oob n rs waited l = Some p"
  using assms
proof (induction rs arbitrary: waited l)
  case (Cons r rs)
  obtain l1 ok rem where t: "ratex_take (rr_take r) (f64_of_int n) l = (l1, ok, rem)" by (metis prod_cases3)
  show ?case
  proof (cases "rr_e0 r \<noteq> None \<or> ok \<or> rr_done r \<noteq> None \<or> rr_e2 r \<noteq> None")
    case True
    with t show ?thesis by (auto simp: Let_def split: option.splits bool.splits)
  next
    case False
    with Cons.prems have "\<exists>r\<in>set rs. rr_e0 r \<noteq> None \<or> rr_done r \<noteq> None \<or> rr_e2 r \<noteq> None" by auto
    from Cons.IH [OF this] t False show ?thesis by (simp add: Let_def)
  qed
qed simp

section \<open>Running a callback\<close>

lemma ratex_run_cases:
  "ratex_run zero op waited remaining fn l =
     (case fn \<lparr>re_tokens = remaining, re_rate = ratex_Rate l, re_burst = ratex_Burst l,
               re_waited = waited, re_skipToken = False\<rparr> l of
        (l1, rc, out) \<Rightarrow>
          (if re_skipToken rc then ratex_refund 1 l1 else l1,
           (case out of Returns v e \<Rightarrow> v | Panics pv \<Rightarrow> zero),
           (case out of Returns v e \<Rightarrow> e | Panics pv \<Rightarrow> Some (PanicError op pv))))"
  by (simp add: ratex_run_def panix_Safe_def call_fn_def ratex_Rate_def ratex_Burst_def split: prod.split outcome.split)

section \<open>Properties\<close>

text \<open>From a new limiter on.\<close>

lemma ratex_New_bound:
  assumes "rc_burst (ratex_newConfig opts) < 2 ^ 53"
    and "ratex_calls cs (ratex_New t0 opts) = (l', granted)"
    and "\<forall>c\<in>set cs. ratex_call_clock c \<le> t1" and "t0 \<le> t1"
  shows "of_int granted
    \<le> of_int (rc_burst (ratex_newConfig opts)) * (1 + of_nat (length cs) * f64_u)
        + rc_rate (ratex_newConfig opts) * of_int (t1 - t0) / 10 ^ 9 * (1 + f64_u) ^ 4"
proof -
  let ?l = "ratex_New t0 opts" and ?b = "rc_burst (ratex_newConfig opts)" and ?r = "rc_rate (ratex_newConfig opts)"
  have cfg: "rl_cfg ?l = ratex_newConfig opts" "rl_lastUpdate ?l = t0"
    by (simp_all add: ratex_New_def Let_def)
  have b: "f64_of_int ?b = of_int ?b" and r: "0 < ?r"
    using assms(1) ratex_newConfig_ok [of opts] by (simp_all add: f64_of_int_exact)
  have i: "ratex_inv ?l" by (rule ratex_inv_New)
  have bd: "of_int granted + rl_tokens l' \<le> ratex_budget ?l l' + of_nat (length cs) * (ratex_cap ?l * f64_u)"
    by (rule ratex_calls_bound [OF i _ assms(2)]) (unfold cfg, rule assms(1))
  have t: "rl_lastUpdate l' \<le> t1"
    by (rule ratex_calls_clock [OF assms(2) _ assms(3)]) (simp add: cfg assms(4))
  have "?r * of_int (rl_lastUpdate l' - t0) / 10 ^ 9 * (1 + f64_u) ^ 4 \<le> ?r * of_int (t1 - t0) / 10 ^ 9 * (1 + f64_u) ^ 4"
    using t r f64_u_pos by (intro mult_right_mono divide_right_mono mult_left_mono) simp_all
  moreover have "ratex_budget ?l l' = of_int ?b + ?r * of_int (rl_lastUpdate l' - t0) / 10 ^ 9 * (1 + f64_u) ^ 4"
    by (simp only: ratex_budget_def cfg) (simp add: ratex_New_def Let_def b)
  moreover have "ratex_cap ?l = of_int ?b" by (simp add: ratex_cap_def cfg b)
  moreover have "0 \<le> rl_tokens l'"
    using bd ratex_calls_inv [OF i assms(2)] by (simp add: ratex_inv_def)
  ultimately have "of_int granted \<le> of_int ?b + ?r * of_int (t1 - t0) / 10 ^ 9 * (1 + f64_u) ^ 4
      + of_nat (length cs) * (of_int ?b * f64_u)"
    using bd by simp
  then show ?thesis by (simp add: algebra_simps)
qed


text \<open>The limiters of the witnesses: the default one, and one with nothing left.\<close>

lemma ratex_New_default:
  "ratex_New 0 [] = \<lparr>rl_cfg = \<lparr>rc_rate = 10, rc_burst = 20\<rparr>, rl_tokens = 20, rl_lastUpdate = 0,
     rl_allowed = 0, rl_limited = 0\<rparr>"
  by (simp add: ratex_New_def ratex_newConfig_def ratex_DefaultRate_def ratex_DefaultBurst_def
      ratex_minBurst_def f64_of_int_def)

definition ratex_empty_limiter :: ratex_Limiter where
  "ratex_empty_limiter =
     \<lparr>rl_cfg = \<lparr>rc_rate = 10, rc_burst = 20\<rparr>, rl_tokens = 0, rl_lastUpdate = 0, rl_allowed = 5, rl_limited = 0\<rparr>"

lemmas ratex_eval = ratex_empty_limiter_def ratex_inv_def ratex_cap_def ratex_refill_def ratex_earned_def
  f64_Seconds_def f64_add_def f64_sub_def f64_mul_def f64_div_def f64_of_int_def Let_def ratex_take_def


text \<open>
  An abandoned wait costs nothing and every wait is counted once. With nobody else at the bucket, a
  \<open>waitFor\<close> that returns an error leaves the balance a refill would leave, even when the context
  ended between the take and the check after it; it counts one limited request and rolls the
  allowed count back. One that succeeds has consumed exactly \<open>n\<close> tokens and counts one allowed.
\<close>

theorem ratex_waitFor_outcome:
  assumes "ratex_inv l" and "rc_burst (rl_cfg l) < 2 ^ 53" and "ratex_wait_alone rs"
    and "rl_allowed l + 1 \<noteq> 0" and "ratex_waitFor oob n rs l = Some (l', res)"
  shows "case res of
      Inl e \<Rightarrow> (if rc_burst (rl_cfg l) < max 1 n then e = ratex_ErrExceedsBurst else \<exists>cause. e = ratex_errCancelled cause)
        \<and> ratex_refilled l l' \<and> rl_allowed l' = rl_allowed l \<and> rl_limited l' = rl_limited l + 1
    | Inr w \<Rightarrow> max 1 n \<le> rc_burst (rl_cfg l)
        \<and> (\<exists>l1. ratex_refilled l l1 \<and> of_int (max 1 n) \<le> rl_tokens l1 \<and> rl_tokens l' = rl_tokens l1 - of_int (max 1 n))
        \<and> rw_remaining w = rl_tokens l' \<and> rl_allowed l' = rl_allowed l + 1 \<and> rl_limited l' = rl_limited l"
proof -
  have m: "(if n < 1 then 1 else n) = max 1 n" by simp
  show ?thesis
  proof (cases "rc_burst (rl_cfg l) < max 1 n")
    case True
    then have "l' = ratex_countLimited l" "res = Inl ratex_ErrExceedsBurst"
      using assms(5) by (simp_all only: ratex_waitFor_def m Let_def if_True option.inject prod.inject)
    with True show ?thesis by (simp add: ratex_countLimited_def ratex_refilled_refl)
  next
    case False
    then have "ratex_wait_loop oob (max 1 n) rs False l = Some (l', res)"
      using assms(5) by (simp only: ratex_waitFor_def m Let_def if_False)
    from ratex_wait_loop_outcome [OF assms(1,2) _ assms(3,4) this] False show ?thesis
      by (cases res) (auto simp: not_less)
  qed
qed

text \<open>One round: the token is taken after a second, then the context turns out to be cancelled.\<close>

lemma ratex_waitFor_outcome_witness:
  "\<exists>l'. ratex_waitFor (\<lambda>_. 0) 1 [\<lparr>rr_e0 = None, rr_take = 1000000000, rr_e1 = Some CtxCanceled, rr_delay = 0,
        rr_done = None, rr_e2 = None, rr_env = id\<rparr>] ratex_empty_limiter = Some (l', Inl (ratex_errCancelled CtxCanceled))
     \<and> ratex_refilled ratex_empty_limiter l' \<and> rl_tokens l' = 10 \<and> rl_allowed l' = 5 \<and> rl_limited l' = 1"
proof -
  let ?rs = "[\<lparr>rr_e0 = None, rr_take = 1000000000, rr_e1 = Some CtxCanceled, rr_delay = 0,
        rr_done = None, rr_e2 = None, rr_env = id\<rparr>]"
  let ?l = "ratex_empty_limiter"
  obtain l' where r: "ratex_waitFor (\<lambda>_. 0) 1 ?rs ?l = Some (l', Inl (ratex_errCancelled CtxCanceled))"
    and t: "rl_tokens l' = 10"
    by (simp add: ratex_waitFor_def ratex_eval ratex_countLimited_def ratex_refund_def)
  have i: "ratex_inv ?l" "rc_burst (rl_cfg ?l) < 2 ^ 53" "rl_allowed ?l + 1 \<noteq> 0" "rl_allowed ?l = 5"
    "rl_limited ?l = 0" "rc_burst (rl_cfg ?l) = 20"
    by (simp_all add: ratex_eval)
  have "ratex_wait_alone ?rs" by (simp add: ratex_wait_alone_def)
  from ratex_waitFor_outcome [OF i(1,2) this i(3) r] r t i show ?thesis by simp
qed

text \<open>a wait ends with its context. Whatever the rest of the rounds hold and whatever other
  goroutines do to the bucket, \<open>waitFor\<close> returns by the first round in which the context is
  done at the top, during the sleep or after the timer; and so does \<open>Execute\<close>.
\<close>

theorem ratex_waitFor_returns:
  assumes "\<exists>r\<in>set rs. rr_e0 r \<noteq> None \<or> rr_done r \<noteq> None \<or> rr_e2 r \<noteq> None"
  shows "(\<exists>p. ratex_waitFor oob n rs l = Some p) \<and> (\<exists>p. ratex_Execute oob rs zero fn l = Some p)"
proof -
  have w: "\<exists>p. ratex_waitFor oob n rs l = Some p" for n
    using ratex_wait_loop_returns [OF assms] by (simp add: ratex_waitFor_def Let_def)
  from w [of 1] obtain l1 r where "ratex_waitFor oob 1 rs l = Some (l1, r)" by auto
  then show ?thesis
    using w [of n] by (cases r; cases fn) (auto simp: ratex_Execute_def ratex_acquire_def intro: prod_cases3)
qed

lemma ratex_waitFor_returns_witness:
  "\<exists>p. ratex_waitFor (\<lambda>_. 0) 1 [\<lparr>rr_e0 = None, rr_take = 0, rr_e1 = None, rr_delay = 0,
        rr_done = Some CtxDeadlineExceeded, rr_e2 = None, rr_env = id\<rparr>] ratex_empty_limiter = Some p"
  by (rule conjunct1 [OF ratex_waitFor_returns [where fn = None and zero = "0 :: int"]]) simp

text \<open>
  \<open>Release\<close> reverses \<open>AllowN\<close>. Releasing the tokens of a granted \<open>AllowN\<close> at once restores the
  refilled bucket bit for bit, the allowed count included.
\<close>

theorem ratex_Release_AllowN:
  assumes "ratex_inv l" and "rc_burst (rl_cfg l) < 2 ^ 53" and "1 \<le> n" and "rl_allowed l + 1 \<noteq> 0"
    and "ratex_AllowN now n l = (l1, True)"
  shows "ratex_Release (f64_of_int n) l1 = ratex_refill now l"
proof -
  have m: "max 1 n = n" using assms(3) by simp
  obtain l2 ok rem where t: "ratex_take now (f64_of_int n) l = (l2, ok, rem)" by (metis prod_cases3)
  with assms(5) m have "ok" "l1 = l2\<lparr>rl_allowed := rl_allowed l2 + 1\<rparr>"
    by (auto simp: ratex_AllowN_alt Let_def split: if_splits)
  with ratex_take_refund [OF assms(1-3) _ assms(4), of now l2 rem] t show ?thesis
    by (simp add: ratex_Release_def)
qed

lemma ratex_Release_AllowN_witness:
  "\<exists>l1. ratex_AllowN 1000000000 7 ratex_empty_limiter = (l1, True)
     \<and> ratex_Release (f64_of_int 7) l1 = ratex_refill 1000000000 ratex_empty_limiter"
proof -
  let ?l = "ratex_empty_limiter"
  have i: "ratex_inv ?l" "rc_burst (rl_cfg ?l) < 2 ^ 53" "rl_allowed ?l + 1 \<noteq> 0" by (simp_all add: ratex_eval)
  obtain l1 where r: "ratex_AllowN 1000000000 7 ?l = (l1, True)" by (simp add: ratex_AllowN_def ratex_eval)
  from ratex_Release_AllowN [OF i(1,2) _ i(3) r] r show ?thesis by simp
qed

text \<open>
  No request within the burst is starved. Once the time since the last refill has earned a full
  bucket, an \<open>AllowN\<close> of any size up to the burst is granted; a larger one never is.
\<close>

theorem ratex_AllowN_granted:
  assumes "ratex_inv l" and "rc_burst (rl_cfg l) < 2 ^ 53"
  shows "(max 1 n \<le> rc_burst (rl_cfg l) \<and> rl_lastUpdate l < now \<and> ratex_cap l \<le> ratex_earned l (now - rl_lastUpdate l)
      \<longrightarrow> snd (ratex_AllowN now n l))
    \<and> (rc_burst (rl_cfg l) < max 1 n \<longrightarrow> \<not> snd (ratex_AllowN now n l))"
proof -
  let ?r = "ratex_refill now l" and ?m = "max 1 n"
  have cap: "ratex_cap l = of_int (rc_burst (rl_cfg l))"
    using assms by (simp add: ratex_cap_def f64_of_int_exact ratex_inv_def)
  have g: "snd (ratex_AllowN now n l) = (of_int ?m \<le> rl_tokens ?r)"
    using ratex_take_exact [OF assms, of ?m now] by (simp add: ratex_AllowN_alt Let_def)
  have "of_int ?m \<le> rl_tokens ?r" if c: "?m \<le> rc_burst (rl_cfg l)" "rl_lastUpdate l < now"
    "ratex_cap l \<le> ratex_earned l (now - rl_lastUpdate l)"
  proof -
    have t: "0 \<le> rl_tokens l" "1 \<le> ratex_cap l"
      using assms(1) by (simp_all add: ratex_inv_def ratex_cap_ge_1)
    then have "ratex_cap l \<le> f64_round (rl_tokens l + ratex_earned l (now - rl_lastUpdate l))"
      using c(3) by (intro f64.rnd_lower ratex_cap_rep) simp
    then have "rl_tokens ?r = ratex_cap l"
      using c(2,3) t by (simp add: ratex_refill_def Let_def f64_add_def)
    moreover have "(of_int ?m :: rat) \<le> of_int (rc_burst (rl_cfg l))" using c(1) by (simp only: of_int_le_iff)
    ultimately show ?thesis using cap by simp
  qed
  moreover have "\<not> of_int ?m \<le> rl_tokens ?r" if c: "rc_burst (rl_cfg l) < ?m"
  proof -
    have "(of_int (rc_burst (rl_cfg l)) :: rat) < of_int ?m" using c by (simp only: of_int_less_iff)
    moreover have "rl_tokens ?r \<le> ratex_cap l" using ratex_inv_refill [OF assms(1), of now] by (simp add: ratex_inv_def)
    ultimately show ?thesis using cap by simp
  qed
  ultimately show ?thesis using g by blast
qed

lemma ratex_AllowN_granted_witness:
  "snd (ratex_AllowN 2000000000 20 ratex_empty_limiter) \<and> \<not> snd (ratex_AllowN 2000000000 21 ratex_empty_limiter)"
  using ratex_AllowN_granted [of ratex_empty_limiter 20 2000000000] ratex_AllowN_granted [of ratex_empty_limiter 21 2000000000]
  by (simp add: ratex_eval)

text \<open>a skipped call costs nothing, even when it panics. If a token is there and the callback calls
  \<open>SkipToken\<close>, then after \<open>TryExecute\<close> the bucket and both counters are what a refill alone would
  leave; the caller still gets the callback's result, a panic as a \<open>PanicError\<close> of this operation.
\<close>

theorem ratex_TryExecute_skip:
  assumes "ratex_inv l" and "rc_burst (rl_cfg l) < 2 ^ 53" and "rl_allowed l + 1 \<noteq> 0"
    and "1 \<le> rl_tokens (ratex_refill now l)"
    and "\<forall>rc l. f rc l = (l, ratex_SkipToken rc, out)"
  shows "ratex_TryExecute now None None zero (Some f) l
    = (ratex_refill now l, True,
       (case out of
          Returns v e \<Rightarrow> (v, e)
        | Panics pv \<Rightarrow> (zero, Some (PanicError ''ratex.TryExecute'' pv))))"
proof -
  have one: "f64_of_int 1 = 1" by (simp add: f64_of_int_exact)
  let ?r = "ratex_refill now l"
  have t: "ratex_take now (f64_of_int 1) l = (?r\<lparr>rl_tokens := rl_tokens ?r - 1\<rparr>, True, rl_tokens ?r - 1)"
    using ratex_take_exact [OF assms(1,2), of 1 now] assms(4) by (simp add: Let_def)
  from ratex_take_refund [OF assms(1,2) _ t assms(3)] t assms(5) show ?thesis
    by (cases out) (simp_all add: ratex_TryExecute_def Let_def one ratex_run_cases ratex_SkipToken_def ratex_opTryExecute_def)
qed

lemma ratex_TryExecute_skip_witness:
  "ratex_TryExecute 1000000000 None None (0 :: int) (Some (\<lambda>rc l. (l, ratex_SkipToken rc, Panics (PvOther 3)))) ratex_empty_limiter
    = (ratex_refill 1000000000 ratex_empty_limiter, True, 0, Some (PanicError ''ratex.TryExecute'' (PvOther 3)))"
proof -
  let ?l = "ratex_empty_limiter"
  have i: "ratex_inv ?l" "rc_burst (rl_cfg ?l) < 2 ^ 53" "rl_allowed ?l + 1 \<noteq> 0"
    "1 \<le> rl_tokens (ratex_refill 1000000000 ?l)" by (simp_all add: ratex_eval)
  show ?thesis
    using ratex_TryExecute_skip [OF i, of "\<lambda>rc l. (l, ratex_SkipToken rc, Panics (PvOther 3))" "Panics (PvOther 3)" "0 :: int"]
    by simp
qed

text \<open>
  Two observations. \<open>AllowN 0\<close> takes one token, and \<open>Release 0\<close> with the same argument gives none
  back. And a refill moves \<open>lastUpdate\<close> even when the earned part is too small to change the
  balance, so polling a large bucket very often loses what it earns.
\<close>

lemma ratex_Release_zero:
  "rl_tokens (ratex_Release 0 (fst (ratex_AllowN 1000000000 0 ratex_empty_limiter))) = 9
   \<and> rl_tokens (ratex_refill 1000000000 ratex_empty_limiter) = 10"
  by (simp add: ratex_AllowN_def ratex_Release_def ratex_refund_def ratex_eval)

end
