(* ===== verification/Retryx.thy ===== *)
theory Retryx
  imports Panix F64
begin

text \<open>
  Package \<open>retryx\<close>: the retry engine. The caller's function and hooks run on a state of their own
  (\<open>'s\<close>) and may panic. What the engine reads from outside during attempt \<open>i\<close> (the context, the
  clock, the random number, the timer) is the record \<open>env i\<close>. The engine itself keeps no state: the
  attempts made and the delays slept are collected in ghost lists for the lemmas.
\<close>

subsection \<open>Errors\<close>

definition retryx_ErrExhausted :: goerr where "retryx_ErrExhausted = Sentinel ''retryx: all retry attempts exhausted''"
definition retryx_ErrCancelled :: goerr where "retryx_ErrCancelled = Sentinel ''retryx: retry cancelled by context''"
definition retryx_ErrAborted :: goerr where "retryx_ErrAborted = Sentinel ''retryx: retry aborted by caller''"
definition retryx_ErrNilFunc :: goerr where "retryx_ErrNilFunc = Sentinel ''retryx: nil function''"
definition retryx_ErrMaxElapsed :: goerr where "retryx_ErrMaxElapsed = Sentinel ''retryx: max elapsed time exceeded''"

text \<open>A wrapped nil cause has no node below it.\<close>

definition retryx_wrap :: "string \<Rightarrow> goerr \<Rightarrow> goerror \<Rightarrow> goerr" where
  "retryx_wrap fmt sentinel cause = Errorf fmt (sentinel # (case cause of None \<Rightarrow> [] | Some c \<Rightarrow> [c]))"

definition retryx_errExhausted :: "int \<Rightarrow> goerror \<Rightarrow> goerr" where
  "retryx_errExhausted attempts cause = retryx_wrap (''%w (attempts='' @ FormatInt attempts @ ''): %w'') retryx_ErrExhausted cause"

definition retryx_errCancelled :: "goerr \<Rightarrow> goerr" where
  "retryx_errCancelled cause = retryx_wrap ''%w: %w'' retryx_ErrCancelled (Some cause)"

definition retryx_errAborted :: "int \<Rightarrow> goerror \<Rightarrow> goerr" where
  "retryx_errAborted n cause = retryx_wrap (''%w (attempt='' @ FormatInt n @ ''): %w'') retryx_ErrAborted cause"

definition retryx_errMaxElapsed :: "goerror \<Rightarrow> goerr" where
  "retryx_errMaxElapsed cause = retryx_wrap ''%w: %w'' retryx_ErrMaxElapsed cause"

subsection \<open>Configuration\<close>

definition retryx_DefaultMaxAttempts :: int where "retryx_DefaultMaxAttempts = 3"
definition retryx_DefaultBackoff :: int where "retryx_DefaultBackoff = 100 * 10 ^ 6"
definition retryx_DefaultMaxBackoff :: int where "retryx_DefaultMaxBackoff = 10 * 10 ^ 9"
definition retryx_minAttempts :: int where "retryx_minAttempts = 1"
definition retryx_opDo :: string where "retryx_opDo = ''retryx.Do''"
definition retryx_jitterFloor :: f64 where "retryx_jitterFloor = 1 / 2"
definition retryx_jitterSpan :: f64 where "retryx_jitterSpan = 1"

datatype retryx_jitterMode = JitterMultiplicative | JitterOff | JitterEqual

text \<open>A hook that returns a plain value, or panics.\<close>

type_synonym ('s, 'r) retryx_hook = "'s \<Rightarrow> 's \<times> (panicval + 'r)"

record 's retryx_config =
  yc_maxAttempts :: int
  yc_backoff :: int
  yc_maxBackoff :: int
  yc_maxElapsed :: int
  yc_retryIf :: "(goerr \<Rightarrow> ('s, bool) retryx_hook) option"
  yc_onRetry :: "(int \<Rightarrow> goerr \<Rightarrow> ('s, unit) retryx_hook) option"
  yc_delayFunc :: "(int \<Rightarrow> goerr \<Rightarrow> ('s, int) retryx_hook) option"
  yc_op :: string
  yc_jitterMode :: retryx_jitterMode

definition retryx_opOrDefault :: "'s retryx_config \<Rightarrow> string" where
  "retryx_opOrDefault c = (if yc_op c \<noteq> [] then yc_op c else retryx_opDo)"

definition retryx_newConfig :: "('s retryx_config \<Rightarrow> 's retryx_config) option list \<Rightarrow> 's retryx_config" where
  "retryx_newConfig opts =
     (let c = apply_opts opts
        \<lparr>yc_maxAttempts = retryx_DefaultMaxAttempts, yc_backoff = retryx_DefaultBackoff,
         yc_maxBackoff = retryx_DefaultMaxBackoff, yc_maxElapsed = 0, yc_retryIf = None, yc_onRetry = None,
         yc_delayFunc = None, yc_op = [], yc_jitterMode = JitterMultiplicative\<rparr>
      in if yc_maxAttempts c < retryx_minAttempts then c\<lparr>yc_maxAttempts := retryx_minAttempts\<rparr> else c)"

definition retryx_WithMaxAttempts :: "int \<Rightarrow> 's retryx_config \<Rightarrow> 's retryx_config" where
  "retryx_WithMaxAttempts n c = c\<lparr>yc_maxAttempts := n\<rparr>"

definition retryx_WithBackoff :: "int \<Rightarrow> 's retryx_config \<Rightarrow> 's retryx_config" where
  "retryx_WithBackoff d c = (if 0 < d then c\<lparr>yc_backoff := d\<rparr> else c)"

definition retryx_WithMaxBackoff :: "int \<Rightarrow> 's retryx_config \<Rightarrow> 's retryx_config" where
  "retryx_WithMaxBackoff d c = (if 0 < d then c\<lparr>yc_maxBackoff := d\<rparr> else c)"

definition retryx_WithJitter :: "bool \<Rightarrow> 's retryx_config \<Rightarrow> 's retryx_config" where
  "retryx_WithJitter enabled c = c\<lparr>yc_jitterMode := (if enabled then JitterMultiplicative else JitterOff)\<rparr>"

definition retryx_WithEqualJitter :: "'s retryx_config \<Rightarrow> 's retryx_config" where
  "retryx_WithEqualJitter c = c\<lparr>yc_jitterMode := JitterEqual\<rparr>"

definition retryx_WithMaxElapsed :: "int \<Rightarrow> 's retryx_config \<Rightarrow> 's retryx_config" where
  "retryx_WithMaxElapsed d c = (if 0 < d then c\<lparr>yc_maxElapsed := d\<rparr> else c)"

definition retryx_WithDelayFunc ::
  "(int \<Rightarrow> goerr \<Rightarrow> ('s, int) retryx_hook) option \<Rightarrow> 's retryx_config \<Rightarrow> 's retryx_config" where
  "retryx_WithDelayFunc fn c = (case fn of None \<Rightarrow> c | Some f \<Rightarrow> c\<lparr>yc_delayFunc := Some f\<rparr>)"

definition retryx_WithRetryIf ::
  "(goerr \<Rightarrow> ('s, bool) retryx_hook) option \<Rightarrow> 's retryx_config \<Rightarrow> 's retryx_config" where
  "retryx_WithRetryIf fn c = c\<lparr>yc_retryIf := fn\<rparr>"

definition retryx_WithOnRetry ::
  "(int \<Rightarrow> goerr \<Rightarrow> ('s, unit) retryx_hook) option \<Rightarrow> 's retryx_config \<Rightarrow> 's retryx_config" where
  "retryx_WithOnRetry fn c = c\<lparr>yc_onRetry := fn\<rparr>"

definition retryx_WithOp :: "string \<Rightarrow> 's retryx_config \<Rightarrow> 's retryx_config" where
  "retryx_WithOp op c = (if op \<noteq> [] then c\<lparr>yc_op := op\<rparr> else c)"

subsection \<open>The controller\<close>

record retryx_attempt =
  ya_number :: int
  ya_lastErr :: goerror
  ya_aborted :: bool

definition retryx_Abort :: "retryx_attempt \<Rightarrow> retryx_attempt" where
  "retryx_Abort a = a\<lparr>ya_aborted := True\<rparr>"

type_synonym ('s, 'a) retryx_func = "retryx_attempt \<Rightarrow> 's \<Rightarrow> 's \<times> retryx_attempt \<times> 'a outcome"

subsection \<open>Delays\<close>

text \<open>
  The delay after attempt \<open>i\<close>, with the random number \<open>rnd\<close> of \<open>rand.Float64\<close>. \<open>math.Pow\<close> of two is
  exact; where it overflows to infinity in Go the cap applies as it does here.
\<close>

definition retryx_capped :: "'s retryx_config \<Rightarrow> nat \<Rightarrow> f64" where
  "retryx_capped c i =
     (let d = f64_mul (f64_of_int (yc_backoff c)) (2 ^ i)
      in if f64_of_int (yc_maxBackoff c) < d then f64_of_int (yc_maxBackoff c) else d)"

definition retryx_backoff :: "(f64 \<Rightarrow> int) \<Rightarrow> 's retryx_config \<Rightarrow> f64 \<Rightarrow> nat \<Rightarrow> int" where
  "retryx_backoff oob c rnd i =
     (let d = retryx_capped c i;
          j = (case yc_jitterMode c of
                 JitterEqual \<Rightarrow> (let half = f64_mul d retryx_jitterFloor in f64_add half (f64_mul rnd half))
               | JitterMultiplicative \<Rightarrow> f64_mul d (f64_add retryx_jitterFloor (f64_mul rnd retryx_jitterSpan))
               | JitterOff \<Rightarrow> d)
      in f64_to_i64 oob j)"

text \<open>
  What the engine meets in attempt \<open>i\<close>: \<open>ctx.Err()\<close> at the top, the elapsed time there, \<open>ctx.Err()\<close>
  after the attempt, the random number, the elapsed time when the delay is clamped, \<open>ctx.Err()\<close> for a
  delay that is not positive, and the context error if the context ends the sleep (\<open>None\<close> when the
  timer fires first).
\<close>

record retryx_env =
  ye_e0 :: goerror
  ye_elapsed :: int
  ye_e1 :: goerror
  ye_rand :: f64
  ye_elapsedDelay :: int
  ye_e2 :: goerror
  ye_done :: goerror

definition retryx_delayAfter ::
  "(f64 \<Rightarrow> int) \<Rightarrow> 's retryx_config \<Rightarrow> retryx_env \<Rightarrow> int \<Rightarrow> goerr \<Rightarrow> nat \<Rightarrow> ('s, int) retryx_hook" where
  "retryx_delayAfter oob c en n err i s =
     (case (case yc_delayFunc c of None \<Rightarrow> (s, Inr (retryx_backoff oob c (ye_rand en) i)) | Some f \<Rightarrow> f n err s) of
        (s1, Inl p) \<Rightarrow> (s1, Inl p)
      | (s1, Inr d) \<Rightarrow>
          (s1, Inr (if 0 < yc_maxElapsed c
                    then let remaining = yc_maxElapsed c - ye_elapsedDelay en in if remaining < d then remaining else d
                    else d)))"

definition retryx_sleep :: "retryx_env \<Rightarrow> int \<Rightarrow> goerror" where
  "retryx_sleep en d = (if d \<le> 0 then ye_e2 en else ye_done en)"

definition retryx_isRetryable :: "'s retryx_config \<Rightarrow> goerr \<Rightarrow> ('s, bool) retryx_hook" where
  "retryx_isRetryable c err s = (case yc_retryIf c of Some f \<Rightarrow> f err s | None \<Rightarrow> (s, Inr True))"

definition retryx_fireOnRetry :: "'s retryx_config \<Rightarrow> int \<Rightarrow> goerr \<Rightarrow> 's \<Rightarrow> 's \<times> goerror" where
  "retryx_fireOnRetry c n err s =
     (case yc_onRetry c of
        None \<Rightarrow> (s, None)
      | Some f \<Rightarrow>
          (case f n err s of
             (s1, r) \<Rightarrow>
               (s1, panix_SafeVoid (retryx_opOrDefault c)
                      (Some (case r of Inl p \<Rightarrow> Panics p | Inr u \<Rightarrow> Returns u None)))))"

subsection \<open>The loop\<close>

text \<open>
  A call returns, or a panic of \<open>RetryIf\<close> or \<open>DelayFunc\<close> passes through it. The fields of a run but the first are ghosts: the attempts
  with their results, the delays slept, and what the callbacks said after the last attempt: whether it was aborted, and the outcomes of the
  predicate, the hook and the delay function, where they were called.
\<close>

datatype 'a retryx_result = YReturn 'a goerror | YPanic panicval

record retryx_said =
  yd_aborted :: bool
  yd_retryIf :: "(panicval + bool) option"
  yd_onRetry :: "(panicval + unit) option"
  yd_delayFunc :: "(panicval + int) option"

definition retryx_quiet :: retryx_said where
  "retryx_quiet = \<lparr>yd_aborted = False, yd_retryIf = None, yd_onRetry = None, yd_delayFunc = None\<rparr>"

record ('s, 'a) retryx_run =
  yr_state :: 's
  yr_attempts :: "(retryx_attempt \<times> 'a \<times> goerror) list"
  yr_sleeps :: "int list"
  yr_said :: retryx_said

text \<open>The end of an iteration: the hook, the delay and the sleep.\<close>

definition retryx_wait ::
  "(f64 \<Rightarrow> int) \<Rightarrow> 's retryx_config \<Rightarrow> retryx_env \<Rightarrow> 'a \<Rightarrow> int \<Rightarrow> goerr \<Rightarrow> nat
     \<Rightarrow> ('s, 'a) retryx_run \<Rightarrow> ('s, 'a) retryx_run \<times> ('a retryx_result + goerr)" where
  "retryx_wait oob c en zero n err i r =
     (case retryx_fireOnRetry c n err (yr_state r) of
        (s1, hooked) \<Rightarrow>
          (let r1 = r\<lparr>yr_state := s1, yr_said := (yr_said r)\<lparr>yd_onRetry := map_option (\<lambda>f. snd (f n err (yr_state r))) (yc_onRetry c)\<rparr>\<rparr>
           in case hooked of
                Some e \<Rightarrow> (r1, Inl (YReturn zero (Some e)))
              | None \<Rightarrow>
                  (case retryx_delayAfter oob c en n err i s1 of
                     (s2, delay) \<Rightarrow>
                       (let r2 = r1\<lparr>yr_state := s2, yr_said := (yr_said r1)\<lparr>yd_delayFunc := map_option (\<lambda>f. snd (f n err s1)) (yc_delayFunc c)\<rparr>\<rparr>
                        in case delay of
                             Inl p \<Rightarrow> (r2, Inl (YPanic p))
                           | Inr d \<Rightarrow>
                               (let r3 = r2\<lparr>yr_sleeps := yr_sleeps r2 @ [d]\<rparr>
                                in case retryx_sleep en d of
                                     Some e \<Rightarrow> (r3, Inl (YReturn zero (Some (retryx_errCancelled e))))
                                   | None \<Rightarrow> (r3, Inr err))))))"

definition retryx_iteration ::
  "(f64 \<Rightarrow> int) \<Rightarrow> 's retryx_config \<Rightarrow> retryx_env \<Rightarrow> ('s, 'a) retryx_func \<Rightarrow> 'a \<Rightarrow> nat
     \<Rightarrow> goerror \<Rightarrow> ('s, 'a) retryx_run \<Rightarrow> ('s, 'a) retryx_run \<times> ('a retryx_result + goerr)" where
  "retryx_iteration oob c en fn zero i lastErr r =
     (case ye_e0 en of
        Some e \<Rightarrow> (r, Inl (YReturn zero (Some (retryx_errCancelled e))))
      | None \<Rightarrow>
      if 0 < i \<and> 0 < yc_maxElapsed c \<and> yc_maxElapsed c \<le> ye_elapsed en
      then (r, Inl (YReturn zero (Some (retryx_errMaxElapsed lastErr))))
      else
        let n = int i + 1; rc0 = \<lparr>ya_number = n, ya_lastErr = lastErr, ya_aborted = False\<rparr>
        in case fn rc0 (yr_state r) of
          (s1, rc, out) \<Rightarrow>
            (case panix_Safe zero (retryx_opOrDefault c) (Some out) of
               (val, attemptErr) \<Rightarrow>
                 (let r1 = r\<lparr>yr_state := s1, yr_attempts := yr_attempts r @ [(rc0, val, attemptErr)],
                        yr_said := retryx_quiet\<lparr>yd_aborted := ya_aborted rc\<rparr>\<rparr>
                  in case attemptErr of
                       None \<Rightarrow> (r1, Inl (YReturn val None))
                     | Some err \<Rightarrow>
                         if ya_aborted rc then (r1, Inl (YReturn zero (Some (retryx_errAborted n (Some err)))))
                         else case ye_e1 en of
                           Some e \<Rightarrow> (r1, Inl (YReturn zero (Some (retryx_errCancelled e))))
                         | None \<Rightarrow>
                             (case retryx_isRetryable c err s1 of
                                (s2, q) \<Rightarrow>
                                  (let r2 = r1\<lparr>yr_state := s2,
                                         yr_said := (yr_said r1)\<lparr>yd_retryIf := map_option (\<lambda>f. snd (f err s1)) (yc_retryIf c)\<rparr>\<rparr>
                                   in case q of
                                        Inl p \<Rightarrow> (r2, Inl (YPanic p))
                                      | Inr retry \<Rightarrow>
                                          if \<not> retry then (r2, Inl (YReturn zero (Some (retryx_errExhausted n (Some err)))))
                                          else if int i = yc_maxAttempts c - 1
                                          then (r2, Inl (YReturn zero (Some (retryx_errExhausted (yc_maxAttempts c) (Some err)))))
                                          else retryx_wait oob c en zero n err i r2)))))"

text \<open>The \<open>for\<close> loop over the attempts: \<open>k\<close> of them are left.\<close>

fun retryx_loop ::
  "(f64 \<Rightarrow> int) \<Rightarrow> 's retryx_config \<Rightarrow> (nat \<Rightarrow> retryx_env) \<Rightarrow> ('s, 'a) retryx_func \<Rightarrow> 'a \<Rightarrow> nat \<Rightarrow> nat
     \<Rightarrow> goerror \<Rightarrow> ('s, 'a) retryx_run \<Rightarrow> ('s, 'a) retryx_run \<times> 'a retryx_result" where
  "retryx_loop oob c env fn zero i 0 lastErr r =
     (r, YReturn zero (Some (retryx_errExhausted (yc_maxAttempts c) lastErr)))"
| "retryx_loop oob c env fn zero i (Suc k) lastErr r =
     (case retryx_iteration oob c (env i) fn zero i lastErr r of
        (r1, Inl res) \<Rightarrow> (r1, res)
      | (r1, Inr err) \<Rightarrow> retryx_loop oob c env fn zero (Suc i) k (Some err) r1)"

definition retryx_Do ::
  "(f64 \<Rightarrow> int) \<Rightarrow> ('s retryx_config \<Rightarrow> 's retryx_config) option list \<Rightarrow> (nat \<Rightarrow> retryx_env) \<Rightarrow> 'a
     \<Rightarrow> ('s, 'a) retryx_func option \<Rightarrow> 's \<Rightarrow> ('s, 'a) retryx_run \<times> 'a retryx_result" where
  "retryx_Do oob opts env zero fn s =
     (let c = retryx_newConfig opts; r = \<lparr>yr_state = s, yr_attempts = [], yr_sleeps = [], yr_said = retryx_quiet\<rparr>
      in case fn of
           None \<Rightarrow> (r, YReturn zero (Some retryx_ErrNilFunc))
         | Some f \<Rightarrow> retryx_loop oob c env f zero 0 (nat (yc_maxAttempts c)) None r)"

section \<open>The loop\<close>

text \<open>
  The log of a run in which \<open>i\<close> attempts failed: numbered from one, each told the error of the one
  before, started with a live context and within the time budget, each followed by one sleep that
  is clamped to the remaining budget.
\<close>

definition retryx_prev :: "(retryx_attempt \<times> 'a \<times> goerror) list \<Rightarrow> nat \<Rightarrow> goerror" where
  "retryx_prev ats i = (case i of 0 \<Rightarrow> None | Suc j \<Rightarrow> snd (snd (ats ! j)))"

definition retryx_started ::
  "'s retryx_config \<Rightarrow> (nat \<Rightarrow> retryx_env) \<Rightarrow> (retryx_attempt \<times> 'a \<times> goerror) list \<Rightarrow> nat \<Rightarrow> bool" where
  "retryx_started c env ats j \<longleftrightarrow>
     fst (ats ! j) = \<lparr>ya_number = int j + 1, ya_lastErr = retryx_prev ats j, ya_aborted = False\<rparr>
     \<and> ye_e0 (env j) = None \<and> (0 < j \<and> 0 < yc_maxElapsed c \<longrightarrow> ye_elapsed (env j) < yc_maxElapsed c)"

definition retryx_failed :: "(retryx_attempt \<times> 'a \<times> goerror) list \<Rightarrow> nat \<Rightarrow> bool" where
  "retryx_failed ats j \<longleftrightarrow> snd (snd (ats ! j)) \<noteq> None"

definition retryx_slept :: "'s retryx_config \<Rightarrow> (nat \<Rightarrow> retryx_env) \<Rightarrow> int list \<Rightarrow> nat \<Rightarrow> bool" where
  "retryx_slept c env ds j \<longleftrightarrow>
     (0 < yc_maxElapsed c \<longrightarrow> ds ! j \<le> yc_maxElapsed c - ye_elapsedDelay (env j))"

definition retryx_going ::
  "'s retryx_config \<Rightarrow> (nat \<Rightarrow> retryx_env) \<Rightarrow> nat \<Rightarrow> goerror \<Rightarrow> ('s, 'a) retryx_run \<Rightarrow> bool" where
  "retryx_going c env i lastErr r \<longleftrightarrow>
     length (yr_attempts r) = i \<and> length (yr_sleeps r) = i \<and> lastErr = retryx_prev (yr_attempts r) i
     \<and> (\<forall>j<i. retryx_started c env (yr_attempts r) j \<and> retryx_failed (yr_attempts r) j \<and> retryx_slept c env (yr_sleeps r) j)"

text \<open>The log of a finished run, and the results that go with it.\<close>

definition retryx_finished ::
  "'s retryx_config \<Rightarrow> (nat \<Rightarrow> retryx_env) \<Rightarrow> ('s, 'a) retryx_run \<Rightarrow> bool" where
  "retryx_finished c env r \<longleftrightarrow>
     (let ats = yr_attempts r; n = length ats
      in int n \<le> yc_maxAttempts c \<and> n \<le> length (yr_sleeps r) + 1 \<and> length (yr_sleeps r) \<le> n
         \<and> (\<forall>j<n. retryx_started c env ats j) \<and> (\<forall>j. Suc j < n \<longrightarrow> retryx_failed ats j)
         \<and> (\<forall>j<length (yr_sleeps r). retryx_slept c env (yr_sleeps r) j))"

text \<open>
  What a call returns after an attempt, the \<open>n\<close>-th, that failed with \<open>err\<close>, as documented; \<open>None\<close>: nothing, it goes on. \<open>slept\<close> is the delay before the
  next attempt, if the call came that far.
\<close>

definition retryx_verdict ::
  "'s retryx_config \<Rightarrow> retryx_env \<Rightarrow> 'a \<Rightarrow> int \<Rightarrow> goerr \<Rightarrow> retryx_said \<Rightarrow> int option \<Rightarrow> 'a retryx_result option" where
  "retryx_verdict c en zero n err said slept =
     (let exhausted = Some (YReturn zero (Some (Errorf (''%w (attempts='' @ FormatInt n @ ''): %w'') [retryx_ErrExhausted, err])));
          cancelled = (\<lambda>x. Some (YReturn zero (Some (Errorf ''%w: %w'' [retryx_ErrCancelled, x]))))
      in if yd_aborted said then Some (YReturn zero (Some (Errorf (''%w (attempt='' @ FormatInt n @ ''): %w'') [retryx_ErrAborted, err])))
         else if ye_e1 en \<noteq> None then cancelled (the (ye_e1 en))
         else if \<exists>p. yd_retryIf said = Some (Inl p) then Some (YPanic (projl (the (yd_retryIf said))))
         else if yd_retryIf said = Some (Inr False) \<or> n = yc_maxAttempts c then exhausted
         else if \<exists>p. yd_onRetry said = Some (Inl p)
         then Some (YReturn zero (Some (PanicError (retryx_opOrDefault c) (projl (the (yd_onRetry said))))))
         else if \<exists>p. yd_delayFunc said = Some (Inl p) then Some (YPanic (projl (the (yd_delayFunc said))))
         else case (if the slept \<le> 0 then ye_e2 en else ye_done en) of Some x \<Rightarrow> cancelled x | None \<Rightarrow> None)"

text \<open>The result of a finished run.\<close>

definition retryx_result_ok ::
  "'s retryx_config \<Rightarrow> (nat \<Rightarrow> retryx_env) \<Rightarrow> 'a \<Rightarrow> ('s, 'a) retryx_run \<Rightarrow> 'a retryx_result \<Rightarrow> bool" where
  "retryx_result_ok c env zero r res \<longleftrightarrow>
     (let n = length (yr_attempts r);
          stopped = (\<exists>x. ye_e0 (env n) = Some x \<and> res = YReturn zero (Some (Errorf ''%w: %w'' [retryx_ErrCancelled, x])))
      in if n = 0 then stopped
         else case snd (last (yr_attempts r)) of
           (v, None) \<Rightarrow> res = YReturn v None
         | (v, Some err) \<Rightarrow>
             (case retryx_verdict c (env (n - 1)) zero (int n) err (yr_said r) (if length (yr_sleeps r) = n then Some (last (yr_sleeps r)) else None) of
                Some res1 \<Rightarrow> res = res1
              | None \<Rightarrow> stopped \<or>
                  ye_e0 (env n) = None \<and> 0 < yc_maxElapsed c \<and> yc_maxElapsed c \<le> ye_elapsed (env n) \<and>
                  res = YReturn zero (Some (Errorf ''%w: %w'' [retryx_ErrMaxElapsed, err]))))"

lemmas retryx_errors = retryx_errExhausted_def retryx_errCancelled_def retryx_errAborted_def retryx_errMaxElapsed_def retryx_wrap_def

lemma retryx_prev_append [simp]: "j \<le> length ats \<Longrightarrow> retryx_prev (ats @ [x]) j = retryx_prev ats j"
  by (cases j) (simp_all add: retryx_prev_def nth_append)

lemma retryx_prev_last [simp]: "retryx_prev (ats @ [x]) (Suc (length ats)) = snd (snd x)"
  by (simp add: retryx_prev_def)

lemma retryx_started_append [simp]:
  "j < length ats \<Longrightarrow> retryx_started c env (ats @ [x]) j = retryx_started c env ats j"
  by (simp add: retryx_started_def nth_append)

lemma retryx_failed_append [simp]: "j < length ats \<Longrightarrow> retryx_failed (ats @ [x]) j = retryx_failed ats j"
  by (simp add: retryx_failed_def nth_append)

lemma retryx_slept_append [simp]: "j < length ds \<Longrightarrow> retryx_slept c env (ds @ [d]) j = retryx_slept c env ds j"
  by (simp add: retryx_slept_def nth_append)

text \<open>What the end of an iteration does to the log, and what it returns.\<close>

definition retryx_slept_one :: "'s retryx_config \<Rightarrow> retryx_env \<Rightarrow> int list \<Rightarrow> int list \<Rightarrow> int option \<Rightarrow> bool" where
  "retryx_slept_one c en ds ds' slept \<longleftrightarrow>
     ds' = ds @ (case slept of None \<Rightarrow> [] | Some d \<Rightarrow> [d]) \<and>
     (\<forall>d. slept = Some d \<longrightarrow> 0 < yc_maxElapsed c \<longrightarrow> d \<le> yc_maxElapsed c - ye_elapsedDelay en)"

definition retryx_goes ::
  "'s retryx_config \<Rightarrow> retryx_env \<Rightarrow> 'a \<Rightarrow> int \<Rightarrow> goerr \<Rightarrow> retryx_said \<Rightarrow> int option \<Rightarrow> 'a retryx_result + goerr \<Rightarrow> bool" where
  "retryx_goes c en zero n err said slept x \<longleftrightarrow>
     (case x of
        Inl res \<Rightarrow> retryx_verdict c en zero n err said slept = Some res
      | Inr e \<Rightarrow> e = err \<and> slept \<noteq> None \<and> n \<noteq> yc_maxAttempts c \<and> retryx_verdict c en zero n err said slept = None)"

lemma retryx_delayAfter_clamped:
  assumes "retryx_delayAfter oob c en n err i s = (s', Inr d)"
  shows "0 < yc_maxElapsed c \<longrightarrow> d \<le> yc_maxElapsed c - ye_elapsedDelay en"
  using assms by (auto simp: retryx_delayAfter_def Let_def split: prod.splits sum.splits if_splits)

lemma retryx_delayAfter_said:
  assumes "retryx_delayAfter oob c en n err i s = (s', d)"
  shows "map_option (\<lambda>f. snd (f n err s)) (yc_delayFunc c) = Some (Inl p) \<longleftrightarrow> d = Inl p"
  using assms by (cases "yc_delayFunc c") (auto simp: retryx_delayAfter_def Let_def split: prod.splits sum.splits if_splits)

lemma retryx_fireOnRetry_said:
  assumes "retryx_fireOnRetry c n err s = (s', h)"
  shows "h = (case map_option (\<lambda>f. snd (f n err s)) (yc_onRetry c) of Some (Inl p) \<Rightarrow> Some (PanicError (retryx_opOrDefault c) p) | _ \<Rightarrow> None)"
  using assms
  by (auto simp: retryx_fireOnRetry_def panix_SafeVoid_def panix_Safe_def call_fn_def split: option.splits prod.splits sum.splits)

lemma retryx_wait_cases:
  assumes "retryx_wait oob c en zero n err i r = (r1, x)" and "\<not> yd_aborted (yr_said r)" and "ye_e1 en = None"
    and "yd_retryIf (yr_said r) = None \<or> yd_retryIf (yr_said r) = Some (Inr True)" and "n \<noteq> yc_maxAttempts c"
  shows "yr_attempts r1 = yr_attempts r \<and>
    (\<exists>slept. retryx_slept_one c en (yr_sleeps r) (yr_sleeps r1) slept \<and> retryx_goes c en zero n err (yr_said r1) slept x)"
proof -
  let ?hook = "map_option (\<lambda>f. snd (f n err (yr_state r))) (yc_onRetry c)"
  obtain s1 h where h: "retryx_fireOnRetry c n err (yr_state r) = (s1, h)" by (metis surj_pair)
  obtain s2 d where d: "retryx_delayAfter oob c en n err i s1 = (s2, d)" by (metis surj_pair)
  note W = assms(1) [unfolded retryx_wait_def, simplified h d prod.case Let_def]
  note said = retryx_fireOnRetry_said [OF h] retryx_delayAfter_said [OF d]
  have V: "retryx_verdict c en zero n err \<lparr>yd_aborted = False, yd_retryIf = yd_retryIf (yr_said r), yd_onRetry = ?hook, yd_delayFunc = dl\<rparr> slept =
      (case h of Some e \<Rightarrow> Some (YReturn zero (Some e))
       | None \<Rightarrow> if \<exists>p. dl = Some (Inl p) then Some (YPanic (projl (the dl)))
         else case (if the slept \<le> 0 then ye_e2 en else ye_done en) of
           Some e \<Rightarrow> Some (YReturn zero (Some (retryx_errCancelled e))) | None \<Rightarrow> None)" for dl slept
    using assms(3-5) said(1)
    by (auto simp: retryx_verdict_def retryx_errors Let_def split: option.splits sum.splits)
  have same: "(yr_said r)\<lparr>yd_onRetry := a\<rparr>\<lparr>yd_delayFunc := b\<rparr> = \<lparr>yd_aborted = False, yd_retryIf = yd_retryIf (yr_said r), yd_onRetry = a, yd_delayFunc = b\<rparr>"
    "(yr_said r)\<lparr>yd_onRetry := a\<rparr> = \<lparr>yd_aborted = False, yd_retryIf = yd_retryIf (yr_said r), yd_onRetry = a, yd_delayFunc = yd_delayFunc (yr_said r)\<rparr>" for a b
    using assms(2) by (cases "yr_said r"; simp)+
  show ?thesis
  proof (cases h)
    case (Some e)
    then have "r1 = r\<lparr>yr_state := s1, yr_said := (yr_said r)\<lparr>yd_onRetry := ?hook\<rparr>\<rparr>" "x = Inl (YReturn zero (Some e))" using W by simp_all
    then show ?thesis using V [of "yd_delayFunc (yr_said r)" None] Some
      by (intro conjI exI [of _ None]) (simp_all add: retryx_slept_one_def retryx_goes_def same)
  next
    case None
    note h = this
    let ?said = "(yr_said r)\<lparr>yd_onRetry := ?hook\<rparr>\<lparr>yd_delayFunc := map_option (\<lambda>f. snd (f n err s1)) (yc_delayFunc c)\<rparr>"
    show ?thesis
    proof (cases d)
      case (Inl p)
      then have "r1 = r\<lparr>yr_state := s2, yr_said := ?said\<rparr>" "x = Inl (YPanic p)" using W h by simp_all
      moreover have "map_option (\<lambda>f. snd (f n err s1)) (yc_delayFunc c) = Some (Inl p)" using said(2) [of p] Inl by simp
      ultimately show ?thesis using V [of "Some (Inl p)" None] h
        by (intro conjI exI [of _ None]) (simp_all add: retryx_slept_one_def retryx_goes_def same)
    next
      case (Inr y)
      define dl where "dl = map_option (\<lambda>f. snd (f n err s1)) (yc_delayFunc c)"
      have none: "\<not> (\<exists>p. dl = Some (Inl p))" using said(2) Inr by (simp add: dl_def)
      have "r1 = r\<lparr>yr_state := s2, yr_said := (yr_said r)\<lparr>yd_onRetry := ?hook\<rparr>\<lparr>yd_delayFunc := dl\<rparr>, yr_sleeps := yr_sleeps r @ [y]\<rparr>"
          "x = (case retryx_sleep en y of Some e \<Rightarrow> Inl (YReturn zero (Some (retryx_errCancelled e))) | None \<Rightarrow> Inr err)"
        using W h Inr by (simp_all add: dl_def split: option.splits)
      moreover have "retryx_verdict c en zero n err \<lparr>yd_aborted = False, yd_retryIf = yd_retryIf (yr_said r), yd_onRetry = ?hook, yd_delayFunc = dl\<rparr> (Some y) =
          (case retryx_sleep en y of Some e \<Rightarrow> Some (YReturn zero (Some (retryx_errCancelled e))) | None \<Rightarrow> None)"
        unfolding V h using none by (simp add: retryx_sleep_def)
      ultimately show ?thesis
        using retryx_delayAfter_clamped [OF d [unfolded Inr]] assms(5)
        by (intro conjI exI [of _ "Some y"])
          (simp_all add: retryx_slept_one_def retryx_goes_def same split: option.split)
    qed
  qed
qed

text \<open>What one iteration can do.\<close>

lemma retryx_iteration_cases:
  assumes "retryx_iteration oob c en fn zero i lastErr r = (r1, x)"
  obtains
    (top) e where "yr_attempts r1 = yr_attempts r" "yr_sleeps r1 = yr_sleeps r" "yr_said r1 = yr_said r"
      "x = Inl (YReturn zero (Some e))"
      "(\<exists>y. ye_e0 en = Some y \<and> e = retryx_errCancelled y) \<or>
       ye_e0 en = None \<and> 0 < i \<and> 0 < yc_maxElapsed c \<and> yc_maxElapsed c \<le> ye_elapsed en \<and> e = retryx_errMaxElapsed lastErr"
  | (success) v where "yr_attempts r1 = yr_attempts r @ [(\<lparr>ya_number = int i + 1, ya_lastErr = lastErr, ya_aborted = False\<rparr>, v, None)]"
      "yr_sleeps r1 = yr_sleeps r" "x = Inl (YReturn v None)" "ye_e0 en = None"
      "0 < i \<and> 0 < yc_maxElapsed c \<longrightarrow> ye_elapsed en < yc_maxElapsed c"
  | (failure) v err slept where
      "yr_attempts r1 = yr_attempts r @ [(\<lparr>ya_number = int i + 1, ya_lastErr = lastErr, ya_aborted = False\<rparr>, v, Some err)]"
      "retryx_slept_one c en (yr_sleeps r) (yr_sleeps r1) slept"
      "ye_e0 en = None" "0 < i \<and> 0 < yc_maxElapsed c \<longrightarrow> ye_elapsed en < yc_maxElapsed c"
      "retryx_goes c en zero (int i + 1) err (yr_said r1) slept x"
proof -
  note I = assms [unfolded retryx_iteration_def]
  show thesis
  proof (cases "ye_e0 en = None \<and> \<not> (0 < i \<and> 0 < yc_maxElapsed c \<and> yc_maxElapsed c \<le> ye_elapsed en)")
    case False
    with I show thesis by (cases "ye_e0 en") (auto intro: top split: if_splits)
  next
    case True
    let ?rc = "\<lparr>ya_number = int i + 1, ya_lastErr = lastErr, ya_aborted = False\<rparr>"
    obtain s1 rc out where f: "fn ?rc (yr_state r) = (s1, rc, out)" by (metis prod_cases3)
    obtain v ae where sf: "panix_Safe zero (retryx_opOrDefault c) (Some out) = (v, ae)" by (metis surj_pair)
    define r2 where "r2 = r\<lparr>yr_state := s1, yr_attempts := yr_attempts r @ [(?rc, v, ae)], yr_said := retryx_quiet\<lparr>yd_aborted := ya_aborted rc\<rparr>\<rparr>"
    have r2: "yr_attempts r2 = yr_attempts r @ [(?rc, v, ae)]" "yr_sleeps r2 = yr_sleeps r" "yr_said r2 = retryx_quiet\<lparr>yd_aborted := ya_aborted rc\<rparr>"
      by (simp_all add: r2_def)
    have t: "ye_e0 en = None" "0 < i \<and> 0 < yc_maxElapsed c \<longrightarrow> ye_elapsed en < yc_maxElapsed c"
      using True by auto
    show thesis
    proof (cases ae)
      case None
      with I f sf True r2 t show thesis by (intro success [of v]) (auto simp: Let_def r2_def)
    next
      case (Some err)
      obtain s2 q where q: "retryx_isRetryable c err s1 = (s2, q)" by (metis surj_pair)
      let ?ask = "map_option (\<lambda>f. snd (f err s1)) (yc_retryIf c)"
      have asked: "q = (case ?ask of Some a \<Rightarrow> a | None \<Rightarrow> Inr True)"
        using q by (auto simp: retryx_isRetryable_def split: option.splits)
      define r3 where "r3 = r2\<lparr>yr_state := s2, yr_said := (yr_said r2)\<lparr>yd_retryIf := ?ask\<rparr>\<rparr>"
      have r3: "yr_attempts r3 = yr_attempts r2" "yr_sleeps r3 = yr_sleeps r2" "yr_said r3 = retryx_quiet\<lparr>yd_aborted := ya_aborted rc, yd_retryIf := ?ask\<rparr>"
        by (simp_all add: r3_def r2)
      consider (abort) "ya_aborted rc" | (ctx) y where "\<not> ya_aborted rc" "ye_e1 en = Some y"
        | (panic) p where "\<not> ya_aborted rc" "ye_e1 en = None" "q = Inl p" | (no) "\<not> ya_aborted rc" "ye_e1 en = None" "q = Inr False"
        | (last) "\<not> ya_aborted rc" "ye_e1 en = None" "q = Inr True" "int i = yc_maxAttempts c - 1"
        | (wait) "\<not> ya_aborted rc" "ye_e1 en = None" "q = Inr True" "int i \<noteq> yc_maxAttempts c - 1"
        by (cases q) (cases "ye_e1 en"; force)+
      then have "yr_attempts r1 = yr_attempts r2 \<and>
        (\<exists>slept. retryx_slept_one c en (yr_sleeps r2) (yr_sleeps r1) slept \<and> retryx_goes c en zero (int i + 1) err (yr_said r1) slept x)"
      proof cases
        case wait
        have "retryx_wait oob c en zero (int i + 1) err i r3 = (r1, x)"
          using I f sf t Some q wait True by (simp add: Let_def r3_def r2_def)
        moreover have "?ask = None \<or> ?ask = Some (Inr True)" using asked wait(3) by (auto split: option.splits)
        ultimately show ?thesis
          using retryx_wait_cases [of oob c en zero "int i + 1" err i r3 r1 x] wait by (simp add: r3 retryx_quiet_def)
      qed (use I f sf t Some q True asked in \<open>auto simp: Let_def r2_def r3_def retryx_quiet_def retryx_slept_one_def retryx_goes_def retryx_verdict_def
          retryx_errors intro!: exI [of _ None] split: option.splits\<close>)
      with r2 t Some show thesis by (auto intro: failure)
    qed
  qed
qed

lemma retryx_going_started:
  assumes "retryx_going c env i lastErr r" and "ye_e0 (env i) = None"
    and "0 < i \<and> 0 < yc_maxElapsed c \<longrightarrow> ye_elapsed (env i) < yc_maxElapsed c"
  shows "\<forall>j<Suc i. retryx_started c env (yr_attempts r @ [(\<lparr>ya_number = int i + 1, ya_lastErr = lastErr, ya_aborted = False\<rparr>, w)]) j"
proof (intro allI impI)
  fix j assume "j < Suc i"
  let ?x = "(\<lparr>ya_number = int i + 1, ya_lastErr = lastErr, ya_aborted = False\<rparr>, w)"
  show "retryx_started c env (yr_attempts r @ [?x]) j"
  proof (cases "j < i")
    case False
    then have j: "j = length (yr_attempts r)" "j = i" using assms(1) \<open>j < Suc i\<close> by (simp_all add: retryx_going_def)
    then have "retryx_prev (yr_attempts r @ [?x]) j = lastErr"
      using assms(1) by (simp add: retryx_going_def)
    with j assms show ?thesis by (simp add: retryx_started_def)
  qed (use assms(1) in \<open>simp add: retryx_going_def\<close>)
qed

lemma retryx_going_failed:
  assumes "retryx_going c env i lastErr r"
  shows "\<forall>j<i. retryx_failed (yr_attempts r @ [x]) j"
    and "snd (snd x) \<noteq> None \<Longrightarrow> \<forall>j<Suc i. retryx_failed (yr_attempts r @ [x]) j"
proof -
  show f: "\<forall>j<i. retryx_failed (yr_attempts r @ [x]) j"
    using assms by (simp add: retryx_going_def)
  have "length (yr_attempts r) = i" using assms by (simp add: retryx_going_def)
  then have "retryx_failed (yr_attempts r @ [x]) i" if "snd (snd x) \<noteq> None"
    using that by (auto simp: retryx_failed_def)
  with f show "snd (snd x) \<noteq> None \<Longrightarrow> \<forall>j<Suc i. retryx_failed (yr_attempts r @ [x]) j"
    by (simp add: less_Suc_eq)
qed

lemma retryx_going_slept:
  assumes "retryx_going c env i lastErr r"
    and "0 < yc_maxElapsed c \<longrightarrow> d \<le> yc_maxElapsed c - ye_elapsedDelay (env i)"
  shows "\<forall>j<Suc i. retryx_slept c env (yr_sleeps r @ [d]) j"
proof -
  have "length (yr_sleeps r) = i" "\<forall>j<i. retryx_slept c env (yr_sleeps r) j"
    using assms(1) by (simp_all add: retryx_going_def)
  moreover have "retryx_slept c env (yr_sleeps r @ [d]) i"
    using assms(2) \<open>length (yr_sleeps r) = i\<close> by (auto simp: retryx_slept_def)
  ultimately show ?thesis by (simp add: less_Suc_eq)
qed

text \<open>The loop goes on after \<open>i\<close> attempts.\<close>

definition retryx_goes_on :: "'s retryx_config \<Rightarrow> (nat \<Rightarrow> retryx_env) \<Rightarrow> 'a \<Rightarrow> nat \<Rightarrow> ('s, 'a) retryx_run \<Rightarrow> bool" where
  "retryx_goes_on c env zero i r \<longleftrightarrow>
     (0 < i \<longrightarrow> (\<exists>v err. snd (last (yr_attempts r)) = (v, Some err) \<and>
        retryx_verdict c (env (i - 1)) zero (int i) err (yr_said r) (Some (last (yr_sleeps r))) = None))"

lemma retryx_slept_one_all:
  assumes "retryx_going c env i lastErr r" and "retryx_slept_one c (env i) (yr_sleeps r) ds slept"
  shows "length ds \<le> Suc i" and "i \<le> length ds" and "\<forall>j<length ds. retryx_slept c env ds j"
proof -
  have l: "length (yr_sleeps r) = i" "\<forall>j<i. retryx_slept c env (yr_sleeps r) j" using assms(1) by (simp_all add: retryx_going_def)
  show "length ds \<le> Suc i" "i \<le> length ds" using assms(2) l(1) by (auto simp: retryx_slept_one_def split: option.splits)
  show "\<forall>j<length ds. retryx_slept c env ds j"
    using assms(2) l retryx_going_slept [OF assms(1)] by (cases slept) (auto simp: retryx_slept_one_def)
qed

lemma retryx_loop_finished:
  assumes "retryx_going c env i lastErr r" and "retryx_goes_on c env zero i r" and "int i + int k = yc_maxAttempts c" and "0 < k"
    and "retryx_loop oob c env fn zero i k lastErr r = (r', res)"
  shows "retryx_finished c env r' \<and> retryx_result_ok c env zero r' res"
  using assms
proof (induction k arbitrary: i lastErr r)
  case (Suc k)
  note g = Suc.prems(1)
  have l: "length (yr_attempts r) = i" "length (yr_sleeps r) = i" "lastErr = retryx_prev (yr_attempts r) i"
    "\<forall>j<i. retryx_started c env (yr_attempts r) j" "\<forall>j<i. retryx_failed (yr_attempts r) j"
    "\<forall>j<i. retryx_slept c env (yr_sleeps r) j"
    using g by (simp_all add: retryx_going_def)
  have i: "int i < yc_maxAttempts c" using Suc.prems(3) by simp
  obtain r1 x where it: "retryx_iteration oob c (env i) fn zero i lastErr r = (r1, x)" by (metis surj_pair)
  from it show ?case
  proof (cases rule: retryx_iteration_cases)
    case (top e)
    then have res: "r' = r1" "res = YReturn zero (Some e)" using Suc.prems(5) it by simp_all
    have last: "lastErr = Some err" if "snd (last (yr_attempts r)) = (v, Some err)" "0 < i" for v err
    proof -
      have "last (yr_attempts r) = yr_attempts r ! (i - 1)" using l(1) that(2) by (metis last_conv_nth length_0_conv less_numeral_extra(3))
      then show ?thesis using l(3) that by (cases i) (simp_all add: retryx_prev_def)
    qed
    have "retryx_result_ok c env zero r1 res"
    proof (cases "i = 0")
      case True
      then show ?thesis using top(5) l(1) res(2) by (auto simp: retryx_result_ok_def top(1) retryx_errors)
    next
      case False
      then obtain v err where v: "snd (last (yr_attempts r)) = (v, Some err)"
          "retryx_verdict c (env (i - 1)) zero (int i) err (yr_said r) (Some (last (yr_sleeps r))) = None"
        using Suc.prems(2) by (auto simp: retryx_goes_on_def)
      show ?thesis
        using top(5) l(1,2) res(2) v last [OF v(1)] False
        by (auto simp: retryx_result_ok_def top(1-3) retryx_errors Let_def)
    qed
    with top res l i show ?thesis by (simp add: retryx_finished_def Let_def)
  next
    case (success v)
    then have "r' = r1" "res = YReturn v None" using Suc.prems(5) it by simp_all
    with success l i retryx_going_started [OF g success(4,5), of "(v, None)"] retryx_going_failed(1) [OF g]
    show ?thesis by (simp add: retryx_finished_def retryx_result_ok_def Let_def)
  next
    case (failure v err slept)
    let ?a = "(\<lparr>ya_number = int i + 1, ya_lastErr = lastErr, ya_aborted = False\<rparr>, v, Some err)"
    note ds = retryx_slept_one_all [OF g failure(2)]
    have started: "\<forall>j<Suc i. retryx_started c env (yr_attempts r1) j" and failed: "\<forall>j<Suc i. retryx_failed (yr_attempts r1) j"
      using failure(1) retryx_going_started [OF g failure(3,4), of "(v, Some err)"] retryx_going_failed(2) [OF g, of ?a] by simp_all
    have len: "length (yr_attempts r1) = Suc i" using failure(1) l(1) by simp
    have slept: "slept = (if length (yr_sleeps r1) = Suc i then Some (last (yr_sleeps r1)) else None)"
      using failure(2) l(2) by (auto simp: retryx_slept_one_def split: option.splits)
    show ?thesis
    proof (cases x)
      case (Inl res1)
      then have "r' = r1" "res = res1" using Suc.prems(5) it by simp_all
      moreover have "retryx_finished c env r1" using len ds started failed i by (simp add: retryx_finished_def Let_def)
      moreover have "retryx_verdict c (env i) zero (int (Suc i)) err (yr_said r1) slept = Some res1"
        using failure(5) Inl by (simp add: retryx_goes_def add.commute)
      then have "retryx_result_ok c env zero r1 res1"
        using len failure(1) slept by (simp add: retryx_result_ok_def Let_def)
      ultimately show ?thesis by simp
    next
      case (Inr e)
      then have goes: "e = err" "slept \<noteq> None" "int i + 1 \<noteq> yc_maxAttempts c" "retryx_verdict c (env i) zero (int i + 1) err (yr_said r1) slept = None"
        using failure(5) by (simp_all add: retryx_goes_def)
      have sleeps: "length (yr_sleeps r1) = Suc i" using slept goes(2) by (simp split: if_splits)
      have "retryx_prev (yr_attempts r1) (Suc i) = Some err" using failure(1) l(1) by (auto simp: retryx_prev_def)
      then have "retryx_going c env (Suc i) (Some err) r1"
        using len sleeps started failed ds(3) by (simp add: retryx_going_def)
      moreover have "retryx_goes_on c env zero (Suc i) r1"
        using goes(4) slept sleeps failure(1) by (simp add: retryx_goes_on_def add.commute)
      moreover have "int (Suc i) + int k = yc_maxAttempts c" "0 < k" using Suc.prems(3) goes(3) by auto
      ultimately show ?thesis using Suc.IH [of "Suc i" "Some err" r1] Suc.prems(5) it Inr goes(1) by simp
    qed
  qed
qed simp

text \<open>The loop when every attempt fails and nothing stops it.\<close>

definition retryx_plain :: "'s retryx_config \<Rightarrow> bool" where
  "retryx_plain c \<longleftrightarrow> yc_maxElapsed c = 0 \<and> yc_retryIf c = None \<and> yc_onRetry c = None \<and> yc_delayFunc c = None"

definition retryx_live :: "retryx_env \<Rightarrow> bool" where
  "retryx_live en \<longleftrightarrow> ye_e0 en = None \<and> ye_e1 en = None \<and> ye_e2 en = None \<and> ye_done en = None"

lemma retryx_iteration_plain:
  assumes "retryx_plain c" and "retryx_live en"
    and "fn \<lparr>ya_number = int i + 1, ya_lastErr = lastErr, ya_aborted = False\<rparr> (yr_state r) = (s1, rc, out)"
    and "\<not> ya_aborted rc"
  shows "retryx_iteration oob c en fn zero i lastErr r =
    (let (v, ae) = panix_Safe zero (retryx_opOrDefault c) (Some out);
         ats = yr_attempts r @ [(\<lparr>ya_number = int i + 1, ya_lastErr = lastErr, ya_aborted = False\<rparr>, v, ae)]
     in case ae of
          None \<Rightarrow> (r\<lparr>yr_state := s1, yr_attempts := ats, yr_said := retryx_quiet\<rparr>, Inl (YReturn v None))
        | Some err \<Rightarrow>
            if int i = yc_maxAttempts c - 1
            then (r\<lparr>yr_state := s1, yr_attempts := ats, yr_said := retryx_quiet\<rparr>, Inl (YReturn zero (Some (retryx_errExhausted (yc_maxAttempts c) ae))))
            else (r\<lparr>yr_state := s1, yr_attempts := ats, yr_sleeps := yr_sleeps r @ [retryx_backoff oob c (ye_rand en) i], yr_said := retryx_quiet\<rparr>,
                Inr err))"
  using assms
  by (auto simp: retryx_iteration_def retryx_wait_def retryx_quiet_def Let_def retryx_plain_def retryx_live_def retryx_isRetryable_def
      retryx_fireOnRetry_def retryx_delayAfter_def retryx_sleep_def split: prod.split option.split)

text \<open>A function that fails until attempt \<open>m\<close> and succeeds there.\<close>

definition retryx_fails_until :: "string \<Rightarrow> 'a \<Rightarrow> int \<Rightarrow> 'a \<Rightarrow> ('s, 'a) retryx_func \<Rightarrow> bool" where
  "retryx_fails_until op zero m v fn \<longleftrightarrow>
     (\<forall>a s. \<not> ya_aborted a \<longrightarrow> \<not> ya_aborted (fst (snd (fn a s)))
        \<and> (ya_number a < m \<longrightarrow> snd (panix_Safe zero op (Some (snd (snd (fn a s))))) \<noteq> None)
        \<and> (ya_number a = m \<longrightarrow> snd (snd (fn a s)) = Returns v None))"

lemma retryx_loop_until:
  assumes "retryx_plain c" and "\<forall>i. retryx_live (env i)" and "retryx_fails_until (retryx_opOrDefault c) zero m v fn"
    and "int i + int k = yc_maxAttempts c" and "0 < k" and "int i < m"
    and "length (yr_attempts r) = i" and "yr_sleeps r = map (\<lambda>j. retryx_backoff oob c (ye_rand (env j)) j) [0..<i]"
    and "retryx_loop oob c env fn zero i k lastErr r = (r', res)"
  shows "length (yr_attempts r') = nat (min m (yc_maxAttempts c))
    \<and> yr_sleeps r' = map (\<lambda>j. retryx_backoff oob c (ye_rand (env j)) j) [0..<nat (min m (yc_maxAttempts c)) - 1]
    \<and> res = (if m \<le> yc_maxAttempts c then YReturn v None
             else YReturn zero (Some (retryx_errExhausted (yc_maxAttempts c) (snd (snd (last (yr_attempts r')))))))"
  using assms(4-)
proof (induction k arbitrary: i lastErr r)
  case (Suc k)
  let ?a = "\<lparr>ya_number = int i + 1, ya_lastErr = lastErr, ya_aborted = False\<rparr>"
  let ?op = "retryx_opOrDefault c"
  obtain s1 rc out where f: "fn ?a (yr_state r) = (s1, rc, out)" by (metis prod_cases3)
  have ff: "\<not> ya_aborted (fst (snd (fn a s)))" "ya_number a < m \<Longrightarrow> snd (panix_Safe zero ?op (Some (snd (snd (fn a s))))) \<noteq> None"
    "ya_number a = m \<Longrightarrow> snd (snd (fn a s)) = Returns v None" if "\<not> ya_aborted a" for a s
    using assms(3) that by (simp_all add: retryx_fails_until_def)
  have na: "\<not> ya_aborted rc" using ff(1) [of ?a "yr_state r"] f by simp
  note it = retryx_iteration_plain [where oob = oob and zero = zero and fn = fn, OF assms(1) assms(2) [rule_format, of i] f na]
  show ?case
  proof (cases "int i + 1 = m")
    case True
    then have "out = Returns v None" using ff(3) [of ?a "yr_state r"] f by simp
    with it have "retryx_iteration oob c (env i) fn zero i lastErr r
        = (r\<lparr>yr_state := s1, yr_attempts := yr_attempts r @ [(?a, v, None)], yr_said := retryx_quiet\<rparr>, Inl (YReturn v None))"
      by (simp add: panix_Safe_def call_fn_def)
    with Suc.prems have "r' = r\<lparr>yr_state := s1, yr_attempts := yr_attempts r @ [(?a, v, None)], yr_said := retryx_quiet\<rparr>" "res = YReturn v None" by simp_all
    moreover have "nat (min m (yc_maxAttempts c)) = Suc i" using True Suc.prems(1) by simp
    ultimately show ?thesis using True Suc.prems(1,4,5) by simp
  next
    case False
    with Suc.prems have lt: "int i + 1 < m" by simp
    from ff(2) [of ?a "yr_state r"] f lt obtain w err where sf: "panix_Safe zero ?op (Some out) = (w, Some err)"
      by (cases "panix_Safe zero ?op (Some out)") auto
    show ?thesis
    proof (cases "int i = yc_maxAttempts c - 1")
      case True
      with it sf have "retryx_iteration oob c (env i) fn zero i lastErr r
        = (r\<lparr>yr_state := s1, yr_attempts := yr_attempts r @ [(?a, w, Some err)], yr_said := retryx_quiet\<rparr>,
           Inl (YReturn zero (Some (retryx_errExhausted (yc_maxAttempts c) (Some err)))))" by simp
      with Suc.prems have "r' = r\<lparr>yr_state := s1, yr_attempts := yr_attempts r @ [(?a, w, Some err)], yr_said := retryx_quiet\<rparr>"
        "res = YReturn zero (Some (retryx_errExhausted (yc_maxAttempts c) (Some err)))" by simp_all
      moreover have "nat (min m (yc_maxAttempts c)) = Suc i" using True lt by simp
      ultimately show ?thesis using True lt Suc.prems(4,5) by simp
    next
      case nl: False
      let ?r = "r\<lparr>yr_state := s1, yr_attempts := yr_attempts r @ [(?a, w, Some err)],
          yr_sleeps := yr_sleeps r @ [retryx_backoff oob c (ye_rand (env i)) i], yr_said := retryx_quiet\<rparr>"
      have "retryx_iteration oob c (env i) fn zero i lastErr r = (?r, Inr err)" using it sf nl by simp
      with Suc.prems(6) have "retryx_loop oob c env fn zero (Suc i) k (Some err) ?r = (r', res)" by simp
      moreover have "int (Suc i) + int k = yc_maxAttempts c" "0 < k" using Suc.prems(1) nl by auto
      ultimately show ?thesis using Suc.IH [of "Suc i" ?r "Some err"] lt Suc.prems(4,5) by simp
    qed
  qed
qed simp

section \<open>Properties\<close>

lemma retryx_newConfig_attempts: "1 \<le> yc_maxAttempts (retryx_newConfig opts)"
  by (simp add: retryx_newConfig_def Let_def retryx_minAttempts_def)

text \<open>
  C7: the attempts of a call. Whatever the function, the hooks, the clock and the context do, \<open>Do\<close>
  makes at most \<open>WithMaxAttempts\<close> attempts (at least one is configured), numbered from one; each is told
  the error of the attempt before it and starts with a live context, and every attempt but the first starts
  before \<open>WithMaxElapsed\<close> has passed; all attempts but the last failed; every delay is clamped to what is left
  of the elapsed budget.
\<close>

theorem retryx_Do_attempts:
  assumes "retryx_Do oob opts env zero (Some fn) s = (r, res)"
  shows "retryx_finished (retryx_newConfig opts) env r"
proof -
  let ?c = "retryx_newConfig opts" and ?r = "\<lparr>yr_state = s, yr_attempts = [], yr_sleeps = [], yr_said = retryx_quiet\<rparr>"
  have l: "retryx_loop oob ?c env fn zero 0 (nat (yc_maxAttempts ?c)) None ?r = (r, res)"
    using assms by (simp add: retryx_Do_def Let_def)
  have "retryx_going ?c env 0 None ?r" "retryx_goes_on ?c env zero 0 ?r" by (simp_all add: retryx_going_def retryx_goes_on_def retryx_prev_def)
  from retryx_loop_finished [OF this _ _ l] retryx_newConfig_attempts [of opts] show ?thesis by simp
qed

text \<open>The call of the witnesses: two attempts without jitter, and a function that fails once.\<close>

definition retryx_demo_opts :: "(unit retryx_config \<Rightarrow> unit retryx_config) option list" where
  "retryx_demo_opts = [Some (retryx_WithMaxAttempts 2), None, Some (retryx_WithJitter False)]"

definition retryx_demo_fn :: "(unit, int) retryx_func" where
  "retryx_demo_fn a s = (s, a, Returns 5 (if ya_number a < 2 then Some (UserError 7) else None))"

definition retryx_demo_env :: "nat \<Rightarrow> retryx_env" where
  "retryx_demo_env i = \<lparr>ye_e0 = None, ye_elapsed = 0, ye_e1 = None, ye_rand = 0, ye_elapsedDelay = 0, ye_e2 = None, ye_done = None\<rparr>"

lemma retryx_demo_config:
  "retryx_newConfig retryx_demo_opts =
     \<lparr>yc_maxAttempts = 2, yc_backoff = 100000000, yc_maxBackoff = 10000000000, yc_maxElapsed = 0, yc_retryIf = None,
      yc_onRetry = None, yc_delayFunc = None, yc_op = [], yc_jitterMode = JitterOff\<rparr>"
  by (simp add: retryx_newConfig_def retryx_demo_opts_def retryx_WithMaxAttempts_def retryx_WithJitter_def Let_def
      retryx_DefaultMaxAttempts_def retryx_DefaultBackoff_def retryx_DefaultMaxBackoff_def retryx_minAttempts_def)

theorem retryx_Do_attempts_witness:
  "length (yr_attempts (fst (retryx_Do (\<lambda>_. 0) retryx_demo_opts retryx_demo_env 0 (Some retryx_demo_fn) ()))) \<le> 2"
proof -
  obtain r res where "retryx_Do (\<lambda>_. 0) retryx_demo_opts retryx_demo_env 0 (Some retryx_demo_fn) () = (r, res)"
    by (metis surj_pair)
  from this retryx_Do_attempts [OF this] show ?thesis
    by (simp add: retryx_finished_def Let_def retryx_demo_config)
qed

text \<open>
  C8: the result of a call, in every situation. A call returns a nil error exactly with the value of its last attempt, which succeeded. After a
  failed last attempt it returns the zero value and, in this order: \<open>ErrAborted\<close> around the error of that attempt if the function called \<open>Abort\<close>;
  \<open>ErrCancelled\<close> around the error of the context if that was done after the attempt; \<open>ErrExhausted\<close> around the error of the attempt if the predicate
  refused it or it was the last of the budget; the recovered panic of the \<open>OnRetry\<close> hook; \<open>ErrCancelled\<close> if the context ended the sleep or was done
  before the next attempt; and \<open>ErrMaxElapsed\<close> around the error of the attempt if the elapsed budget was used up by then. Before the first attempt
  there is only \<open>ErrCancelled\<close>. \<open>Do\<close> itself panics exactly with a panic of the predicate or the delay function.
\<close>

theorem retryx_Do_result:
  assumes "retryx_Do oob opts env zero (Some fn) s = (r, res)"
  shows "retryx_result_ok (retryx_newConfig opts) env zero r res"
proof -
  let ?c = "retryx_newConfig opts" and ?r = "\<lparr>yr_state = s, yr_attempts = [], yr_sleeps = [], yr_said = retryx_quiet\<rparr>"
  have l: "retryx_loop oob ?c env fn zero 0 (nat (yc_maxAttempts ?c)) None ?r = (r, res)"
    using assms by (simp add: retryx_Do_def Let_def)
  have "retryx_going ?c env 0 None ?r" "retryx_goes_on ?c env zero 0 ?r" by (simp_all add: retryx_going_def retryx_goes_on_def retryx_prev_def)
  from retryx_loop_finished [OF this _ _ l] retryx_newConfig_attempts [of opts] show ?thesis by simp
qed

definition retryx_demo_abort :: "(unit, int) retryx_func" where
  "retryx_demo_abort a s = (s, retryx_Abort a, Returns 5 (Some (UserError 7)))"

theorem retryx_Do_result_witness:
  "\<exists>r. retryx_Do (\<lambda>_. 0) retryx_demo_opts retryx_demo_env 0 (Some retryx_demo_abort) () =
     (r, YReturn 0 (Some (Errorf (''%w (attempt='' @ FormatInt 1 @ ''): %w'') [retryx_ErrAborted, UserError 7])))"
proof -
  let ?D = "retryx_Do (\<lambda>_. 0) retryx_demo_opts retryx_demo_env 0 (Some retryx_demo_abort) ()"
  obtain r res where r: "?D = (r, res)" by (metis surj_pair)
  have "length (yr_attempts r) = 1" "snd (last (yr_attempts r)) = (5, Some (UserError 7))" "yd_aborted (yr_said r)"
    using r by (auto simp: retryx_Do_def Let_def retryx_demo_config eval_nat_numeral retryx_iteration_def retryx_demo_env_def retryx_demo_abort_def
        retryx_Abort_def panix_Safe_def call_fn_def)
  with r retryx_Do_result [OF r] show ?thesis by (simp add: retryx_result_ok_def retryx_verdict_def Let_def)
qed

text \<open>
  \<open>Do\<close> retries until success. With a live context and no predicate, hook, delay function or elapsed
  budget, a function that first succeeds at attempt \<open>m\<close> is called exactly \<open>m\<close> times if \<open>m\<close> is within the
  budget, and its value is returned; otherwise it is called exactly \<open>WithMaxAttempts\<close> times and the result is
  \<open>ErrExhausted\<close> with that count and the last error. Between the attempts exactly the backoff delays are
  slept.
\<close>

theorem retryx_Do_until:
  assumes "retryx_plain (retryx_newConfig opts)" and "\<forall>i. retryx_live (env i)" and "1 \<le> m"
    and "retryx_fails_until (retryx_opOrDefault (retryx_newConfig opts)) zero m v fn"
    and "retryx_Do oob opts env zero (Some fn) s = (r, res)"
  shows "int (length (yr_attempts r)) = min m (yc_maxAttempts (retryx_newConfig opts))
    \<and> yr_sleeps r = map (\<lambda>j. retryx_backoff oob (retryx_newConfig opts) (ye_rand (env j)) j) [0..<length (yr_attempts r) - 1]
    \<and> res = (if m \<le> yc_maxAttempts (retryx_newConfig opts) then YReturn v None
             else YReturn zero (Some (retryx_errExhausted (yc_maxAttempts (retryx_newConfig opts))
                    (snd (snd (last (yr_attempts r)))))))"
proof -
  let ?c = "retryx_newConfig opts" and ?r = "\<lparr>yr_state = s, yr_attempts = [], yr_sleeps = [], yr_said = retryx_quiet\<rparr>"
  have l: "retryx_loop oob ?c env fn zero 0 (nat (yc_maxAttempts ?c)) None ?r = (r, res)"
    using assms(5) by (simp add: retryx_Do_def Let_def)
  have m: "1 \<le> min m (yc_maxAttempts ?c)" using assms(3) retryx_newConfig_attempts [of opts] by simp
  from retryx_loop_until [OF assms(1,2,4) _ _ _ _ _ l] assms(3) retryx_newConfig_attempts [of opts]
  have k: "length (yr_attempts r) = nat (min m (yc_maxAttempts ?c))"
    "yr_sleeps r = map (\<lambda>j. retryx_backoff oob ?c (ye_rand (env j)) j) [0..<nat (min m (yc_maxAttempts ?c)) - 1]"
    "res = (if m \<le> yc_maxAttempts ?c then YReturn v None
             else YReturn zero (Some (retryx_errExhausted (yc_maxAttempts ?c) (snd (snd (last (yr_attempts r)))))))"
    by simp_all
  have "int (length (yr_attempts r)) = min m (yc_maxAttempts ?c)" using k(1) m by (simp only: int_nat_eq) simp
  with k show ?thesis by simp
qed

lemma retryx_Do_until_witness:
  "\<exists>r. retryx_Do (\<lambda>_. 0) retryx_demo_opts retryx_demo_env 0 (Some retryx_demo_fn) () = (r, YReturn 5 None)
     \<and> length (yr_attempts r) = 2 \<and> length (yr_sleeps r) = 1"
proof -
  let ?c = "retryx_newConfig retryx_demo_opts"
  obtain r res where r: "retryx_Do (\<lambda>_. 0) retryx_demo_opts retryx_demo_env 0 (Some retryx_demo_fn) () = (r, res)"
    by (metis surj_pair)
  have p: "retryx_plain ?c" by (simp add: retryx_plain_def retryx_demo_config)
  have l: "\<forall>i. retryx_live (retryx_demo_env i)" by (simp add: retryx_live_def retryx_demo_env_def)
  have f: "retryx_fails_until (retryx_opOrDefault ?c) 0 2 5 retryx_demo_fn"
    by (simp add: retryx_fails_until_def retryx_demo_fn_def panix_Safe_def call_fn_def)
  from retryx_Do_until [OF p l _ f r] r show ?thesis by (simp add: retryx_demo_config)
qed

text \<open>
  The backoff delay. For a cap below \<open>2 ^ 52\<close> nanoseconds (52 days) the nominal delay after attempt \<open>i\<close> is exactly
  the base times \<open>2 ^ i\<close>, capped at the maximum: without jitter it is slept as it is, equal jitter stays between half
  of it and all of it, multiplicative jitter between half of it and one and a half (rounded to the next
  representable delay), so the cap is exceeded by at most half.
\<close>

theorem retryx_backoff_bounds:
  assumes "0 < yc_backoff c" and "yc_backoff c < 2 ^ 53" and "0 < yc_maxBackoff c" and "yc_maxBackoff c < 2 ^ 52"
    and "0 \<le> rnd" and "rnd < 1"
  shows "let d = min (yc_backoff c * 2 ^ i) (yc_maxBackoff c); b = retryx_backoff oob c rnd i
    in case yc_jitterMode c of
         JitterOff \<Rightarrow> b = d
       | JitterEqual \<Rightarrow> d div 2 \<le> b \<and> b \<le> d
       | JitterMultiplicative \<Rightarrow> d div 2 \<le> b \<and> 2 * b \<le> 3 * d + 1"
proof -
  define d where "d = min (yc_backoff c * 2 ^ i) (yc_maxBackoff c)"
  have d: "0 < d" "d < 2 ^ 52" using assms(1,3,4) by (simp_all add: d_def)
  have pow: "(2::rat) powi int i = 2 ^ i" by simp
  have ex: "f64_mul (f64_of_int (yc_backoff c)) (2 ^ i) = of_int (yc_backoff c * 2 ^ i)"
    using f64_round_exact [of "yc_backoff c" "int i"] assms(1,2)
    by (simp add: f64_mul_def f64_of_int_exact)
  have lt: "(of_int (yc_maxBackoff c) < (of_int (yc_backoff c * 2 ^ i) :: rat)) = (yc_maxBackoff c < yc_backoff c * 2 ^ i)"
    by (simp only: of_int_less_iff)
  have cap: "retryx_capped c i = of_int d"
    using assms(3,4) ex lt by (simp add: retryx_capped_def Let_def f64_of_int_exact d_def min_def)
  have dr: "(of_int d :: rat) < 2 ^ 52" using d(2) by (metis of_int_less_iff of_int_numeral of_int_power)
  have half: "f64_round (of_int d * (1 / 2)) = of_int d / 2"
    using f64_round_exact [of d "-1"] d by (simp add: power_int_minus)
  have conv: "f64_to_i64 oob x = \<lfloor>x\<rfloor>" if "0 \<le> x" "x < 2 ^ 60" for x
  proof -
    have "\<lfloor>x\<rfloor> < 2 ^ 60" using that(2) by (simp add: floor_less_iff)
    with that(1) show ?thesis by (simp add: f64_to_i64_def f64_trunc_def Let_def)
  qed
  show ?thesis
  proof (cases "yc_jitterMode c")
    case JitterOff
    have "(of_int d :: rat) < 2 ^ 60" using dr by simp
    with JitterOff d cap show ?thesis
      by (simp add: retryx_backoff_def conv d_def [symmetric])
  next
    case JitterEqual
    let ?h = "of_int d / 2 :: rat" and ?q = "f64_round (rnd * (of_int d / 2))"
    have q: "0 \<le> ?q" "?q \<le> ?h"
    proof -
      show "0 \<le> ?q" using assms(5) d by (intro f64.rnd_nonneg) simp
      have "rnd * ?h \<le> 1 * ?h" using assms(6) d by (intro mult_right_mono) simp_all
      with half show "?q \<le> ?h" by (intro f64.rnd_upper) simp_all
    qed
    have lo: "?h \<le> f64_round (?h + ?q)" using q(1) half by (intro f64.rnd_lower) simp_all
    have hi: "f64_round (?h + ?q) \<le> of_int d"
      using q(2) d f64.rnd_int [of d] by (intro f64.rnd_upper) simp_all
    have "f64_mul (of_int d) retryx_jitterFloor = ?h"
      using half by (simp only: f64_mul_def retryx_jitterFloor_def)
    then have "retryx_backoff oob c rnd i = f64_to_i64 oob (f64_round (?h + ?q))"
      using JitterEqual cap by (simp only: retryx_backoff_def Let_def f64_mul_def f64_add_def retryx_jitterMode.case)
    moreover have "0 \<le> f64_round (?h + ?q)" "f64_round (?h + ?q) < 2 ^ 60" using lo hi dr d by simp_all
    ultimately have b: "retryx_backoff oob c rnd i = \<lfloor>f64_round (?h + ?q)\<rfloor>" by (simp only: conv)
    have "d div 2 = \<lfloor>?h\<rfloor>" by (metis floor_divide_of_int_eq of_int_numeral)
    then have "d div 2 \<le> retryx_backoff oob c rnd i" using lo b by (simp add: floor_mono)
    moreover have "retryx_backoff oob c rnd i \<le> d" using hi b by (metis floor_mono floor_of_int)
    ultimately show ?thesis using JitterEqual by (simp add: d_def [symmetric])
  next
    case JitterMultiplicative
    define w where "w = f64_round (1 / 2 + f64_round rnd)"
    have r1: "0 \<le> f64_round rnd" "f64_round rnd \<le> 1" using assms(5,6) by (simp_all add: f64.rnd_nonneg f64.rnd_upper)
    have hf: "f64_round (1 / 2) = 1 / 2" "f64_round (3 / 2) = 3 / 2"
      using f64_round_exact [of 1 "-1"] f64_round_exact [of 3 "-1"] by (simp_all add: power_int_minus)
    have w: "1 / 2 \<le> w" "w \<le> 3 / 2"
      using f64.rnd_lower [of "1 / 2" "1 / 2 + f64_round rnd"] f64.rnd_upper [of "1 / 2 + f64_round rnd" "3 / 2"] r1 hf
      by (simp_all add: w_def)
    have lo: "of_int d / 2 \<le> f64_round (of_int d * w)"
      using w(1) d half by (intro f64.rnd_lower) (simp_all add: field_simps)
    define k where "k = (3 * d + 1) div 2"
    have k: "3 * d \<le> 2 * k" "2 * k \<le> 3 * d + 1" "0 < k" "k < 2 ^ 53" using d by (auto simp: k_def)
    have "of_int d * w \<le> of_int d * (3 / 2)" using w(2) d by (intro mult_left_mono) simp_all
    also have "\<dots> \<le> of_int k"
    proof -
      have "(of_int (3 * d) :: rat) \<le> of_int (2 * k)" using k(1) by (simp only: of_int_le_iff)
      then show ?thesis by simp
    qed
    finally have up: "f64_round (of_int d * w) \<le> of_int k"
      using f64.rnd_int [of k] k by (intro f64.rnd_upper) simp_all
    have "(of_int k :: rat) < 2 ^ 60"
    proof -
      have "(of_int k :: rat) < of_int (2 ^ 53)" using k(4) by (simp only: of_int_less_iff)
      then show ?thesis by simp
    qed
    then have g: "0 \<le> f64_round (of_int d * w)" "f64_round (of_int d * w) < 2 ^ 60" using lo up d by simp_all
    have "retryx_backoff oob c rnd i = f64_to_i64 oob (f64_round (of_int d * w))"
      using JitterMultiplicative cap
      by (simp add: retryx_backoff_def Let_def f64_mul_def f64_add_def retryx_jitterFloor_def retryx_jitterSpan_def w_def)
    with conv [OF g] have b: "retryx_backoff oob c rnd i = \<lfloor>f64_round (of_int d * w)\<rfloor>" by simp
    have "d div 2 = \<lfloor>of_int d / 2 :: rat\<rfloor>" by (metis floor_divide_of_int_eq of_int_numeral)
    then have "d div 2 \<le> retryx_backoff oob c rnd i" using lo b by (simp add: floor_mono)
    moreover have "retryx_backoff oob c rnd i \<le> k" using up b by (metis floor_mono floor_of_int)
    ultimately show ?thesis using JitterMultiplicative k(2) by (simp add: d_def [symmetric])
  qed
qed

lemma retryx_backoff_bounds_witness:
  "retryx_backoff (\<lambda>_. 0) (retryx_newConfig retryx_demo_opts) (1 / 4) 3 = 800000000"
  using retryx_backoff_bounds [of "retryx_newConfig retryx_demo_opts" "1 / 4" 3 "\<lambda>_. 0"]
  by (simp add: retryx_demo_config)

end
