(* ===== verification/Shedx.thy ===== *)
theory Shedx
  imports Panix F64
begin

text \<open>
  Package \<open>shedx\<close>: the load shedder. First the configuration, the admission decision and the operations
  without contention, then the lock-free reservation one atomic access at a time, with any number of
  goroutines.
\<close>

subsection \<open>Priorities and errors\<close>

type_synonym shedx_Priority = "8 word"

definition shedx_PriorityLow :: shedx_Priority where "shedx_PriorityLow = 0"
definition shedx_PriorityNormal :: shedx_Priority where "shedx_PriorityNormal = 1"
definition shedx_PriorityHigh :: shedx_Priority where "shedx_PriorityHigh = 2"
definition shedx_PriorityCritical :: shedx_Priority where "shedx_PriorityCritical = 3"

lemmas shedx_priorities =
  shedx_PriorityLow_def shedx_PriorityNormal_def shedx_PriorityHigh_def shedx_PriorityCritical_def

definition shedx_Priority_String :: "shedx_Priority \<Rightarrow> string" where
  "shedx_Priority_String p =
     (if p = shedx_PriorityLow then ''low'' else if p = shedx_PriorityNormal then ''normal''
      else if p = shedx_PriorityHigh then ''high'' else if p = shedx_PriorityCritical then ''critical''
      else ''unknown'')"

definition shedx_ErrRejected :: goerr where "shedx_ErrRejected = Sentinel ''shedx: request shed''"
definition shedx_ErrClosed :: goerr where "shedx_ErrClosed = Sentinel ''shedx: shedder closed''"
definition shedx_ErrNilFunc :: goerr where "shedx_ErrNilFunc = Sentinel ''shedx: nil function''"
definition shedx_ErrCancelled :: goerr where "shedx_ErrCancelled = Sentinel ''shedx: context cancelled''"

definition shedx_errRejected :: "shedx_Priority \<Rightarrow> goerr" where
  "shedx_errRejected p = Errorf (''%w (priority='' @ shedx_Priority_String p @ '')'') [shedx_ErrRejected]"

definition shedx_errCancelled :: "goerr \<Rightarrow> goerr" where
  "shedx_errCancelled cause = Errorf ''%w: %w'' [shedx_ErrCancelled, cause]"

subsection \<open>Configuration\<close>

definition shedx_DefaultCapacity :: int where "shedx_DefaultCapacity = 1000"
definition shedx_DefaultThreshold :: f64 where "shedx_DefaultThreshold = f64_round (8 / 10)"
definition shedx_DefaultCutoffLow :: f64 where "shedx_DefaultCutoffLow = f64_round (25 / 100)"
definition shedx_DefaultCutoffNormal :: f64 where "shedx_DefaultCutoffNormal = f64_round (60 / 100)"
definition shedx_DefaultCutoffHigh :: f64 where "shedx_DefaultCutoffHigh = f64_round (90 / 100)"
definition shedx_minCapacity :: int where "shedx_minCapacity = 1"
definition shedx_opExecute :: string where "shedx_opExecute = ''shedx.Execute''"
definition shedx_opTryExecute :: string where "shedx_opTryExecute = ''shedx.TryExecute''"

record shedx_config =
  hc_capacity :: int
  hc_threshold :: f64
  hc_hysteresis :: f64
  hc_cutoffLow :: f64
  hc_cutoffNormal :: f64
  hc_cutoffHigh :: f64
  hc_op :: string

definition shedx_validCutoff :: "f64 \<Rightarrow> bool" where
  "shedx_validCutoff v \<longleftrightarrow> 0 < v \<and> v \<le> 1"

definition shedx_normalizeCutoffs :: "shedx_config \<Rightarrow> shedx_config" where
  "shedx_normalizeCutoffs c =
     (let dflt = c\<lparr>hc_cutoffLow := shedx_DefaultCutoffLow, hc_cutoffNormal := shedx_DefaultCutoffNormal,
                 hc_cutoffHigh := shedx_DefaultCutoffHigh\<rparr>
      in if \<not> shedx_validCutoff (hc_cutoffLow c) \<or> \<not> shedx_validCutoff (hc_cutoffNormal c)
            \<or> \<not> shedx_validCutoff (hc_cutoffHigh c) then dflt
         else if hc_cutoffNormal c < hc_cutoffLow c \<or> hc_cutoffHigh c < hc_cutoffNormal c then dflt
         else c)"

definition shedx_newConfig :: "(shedx_config \<Rightarrow> shedx_config) option list \<Rightarrow> shedx_config" where
  "shedx_newConfig opts =
     (let c0 = apply_opts opts
        \<lparr>hc_capacity = shedx_DefaultCapacity, hc_threshold = shedx_DefaultThreshold, hc_hysteresis = 0,
         hc_cutoffLow = shedx_DefaultCutoffLow, hc_cutoffNormal = shedx_DefaultCutoffNormal,
         hc_cutoffHigh = shedx_DefaultCutoffHigh, hc_op = []\<rparr>;
        c1 = (if hc_capacity c0 < shedx_minCapacity then c0\<lparr>hc_capacity := shedx_minCapacity\<rparr> else c0);
        c2 = (if hc_threshold c1 \<le> 0 \<or> 1 < hc_threshold c1 then c1\<lparr>hc_threshold := shedx_DefaultThreshold\<rparr> else c1);
        c3 = (if hc_hysteresis c2 \<le> 0 \<or> hc_threshold c2 \<le> hc_hysteresis c2 then c2\<lparr>hc_hysteresis := 0\<rparr> else c2)
      in shedx_normalizeCutoffs c3)"

definition shedx_opOrDefault :: "shedx_config \<Rightarrow> string" where
  "shedx_opOrDefault c = (if hc_op c \<noteq> [] then hc_op c else shedx_opExecute)"

definition shedx_opOrDefaultTry :: "shedx_config \<Rightarrow> string" where
  "shedx_opOrDefaultTry c = (if hc_op c \<noteq> [] then hc_op c else shedx_opTryExecute)"

definition shedx_WithCapacity :: "int \<Rightarrow> shedx_config \<Rightarrow> shedx_config" where
  "shedx_WithCapacity n c = (if 0 < n then c\<lparr>hc_capacity := n\<rparr> else c)"

definition shedx_WithThreshold :: "f64 \<Rightarrow> shedx_config \<Rightarrow> shedx_config" where
  "shedx_WithThreshold t c = (if 0 < t \<and> t \<le> 1 then c\<lparr>hc_threshold := t\<rparr> else c)"

definition shedx_WithCutoffs :: "f64 \<Rightarrow> f64 \<Rightarrow> f64 \<Rightarrow> shedx_config \<Rightarrow> shedx_config" where
  "shedx_WithCutoffs low normal high c = c\<lparr>hc_cutoffLow := low, hc_cutoffNormal := normal, hc_cutoffHigh := high\<rparr>"

definition shedx_WithOp :: "string \<Rightarrow> shedx_config \<Rightarrow> shedx_config" where
  "shedx_WithOp op c = (if op \<noteq> [] then c\<lparr>hc_op := op\<rparr> else c)"

definition shedx_WithHysteresis :: "f64 \<Rightarrow> shedx_config \<Rightarrow> shedx_config" where
  "shedx_WithHysteresis delta c = (if 0 < delta then c\<lparr>hc_hysteresis := delta\<rparr> else c)"

subsection \<open>State and admission\<close>

record shedx_Shedder =
  hs_cfg :: shedx_config
  hs_inflight :: int
  hs_admitted :: int
  hs_shed :: int
  hs_degraded :: int
  hs_closed :: bool
  hs_shedding :: bool

definition shedx_New :: "(shedx_config \<Rightarrow> shedx_config) option list \<Rightarrow> shedx_Shedder" where
  "shedx_New opts =
     \<lparr>hs_cfg = shedx_newConfig opts, hs_inflight = 0, hs_admitted = 0, hs_shed = 0, hs_degraded = 0,
      hs_closed = False, hs_shedding = False\<rparr>"

definition shedx_add_inflight :: "int \<Rightarrow> shedx_Shedder \<Rightarrow> shedx_Shedder" where
  "shedx_add_inflight d s = s\<lparr>hs_inflight := wrap_i64 (hs_inflight s + d)\<rparr>"

definition shedx_count_shed :: "shedx_Shedder \<Rightarrow> shedx_Shedder" where
  "shedx_count_shed s = s\<lparr>hs_shed := wrap_i64 (hs_shed s + 1)\<rparr>"

definition shedx_count_admitted :: "shedx_Shedder \<Rightarrow> shedx_Shedder" where
  "shedx_count_admitted s = s\<lparr>hs_admitted := wrap_i64 (hs_admitted s + 1)\<rparr>"

definition shedx_cutoff :: "shedx_config \<Rightarrow> shedx_Priority \<Rightarrow> f64" where
  "shedx_cutoff c p =
     (if p = shedx_PriorityLow then hc_cutoffLow c
      else if p = shedx_PriorityNormal then hc_cutoffNormal c else hc_cutoffHigh c)"

definition shedx_applyCutoffs :: "shedx_config \<Rightarrow> f64 \<Rightarrow> shedx_Priority \<Rightarrow> bool" where
  "shedx_applyCutoffs c load p =
     (let band = f64_sub 1 (hc_threshold c)
      in if band \<le> 0 then False
         else f64_div (f64_sub load (hc_threshold c)) band < shedx_cutoff c p)"

definition shedx_load_of :: "shedx_config \<Rightarrow> int \<Rightarrow> f64" where
  "shedx_load_of c n = f64_div (f64_of_int n) (f64_of_int (hc_capacity c))"

text \<open>The decision and the new value of the \<open>shedding\<close> latch.\<close>

definition shedx_admits :: "shedx_config \<Rightarrow> bool \<Rightarrow> shedx_Priority \<Rightarrow> int \<Rightarrow> bool \<times> bool" where
  "shedx_admits c shedding p n =
     (if p = shedx_PriorityCritical then (True, shedding)
      else let load = shedx_load_of c n
           in if 0 < hc_hysteresis c
              then if shedding
                   then if load < f64_sub (hc_threshold c) (hc_hysteresis c) then (True, False)
                        else if load < hc_threshold c then (False, shedding)
                        else (shedx_applyCutoffs c load p, shedding)
                   else if load < hc_threshold c then (True, shedding)
                        else (shedx_applyCutoffs c load p, True)
              else if load < hc_threshold c then (True, shedding)
              else (shedx_applyCutoffs c load p, shedding))"

definition shedx_Allow :: "shedx_Priority \<Rightarrow> shedx_Shedder \<Rightarrow> shedx_Shedder \<times> bool" where
  "shedx_Allow p s =
     (if hs_closed s then (s, False)
      else case shedx_admits (hs_cfg s) (hs_shedding s) p (wrap_i64 (hs_inflight s + 1)) of
             (ok, sh) \<Rightarrow> (s\<lparr>hs_shedding := sh\<rparr>, ok))"

subsection \<open>Reservation, uncontended\<close>

text \<open>The reservation count, whether it succeeded, and whether the shedder was closed.\<close>

definition shedx_commitReservation :: "int \<Rightarrow> shedx_Shedder \<Rightarrow> shedx_Shedder \<times> int \<times> bool \<times> bool" where
  "shedx_commitReservation nxt s =
     (if hs_closed s then (shedx_add_inflight (- 1) s, 0, False, True) else (s, nxt, True, False))"

definition shedx_tryReserve :: "shedx_Priority \<Rightarrow> shedx_Shedder \<Rightarrow> shedx_Shedder \<times> int \<times> bool \<times> bool" where
  "shedx_tryReserve p s =
     (if hs_closed s then (s, 0, False, True)
      else let nxt = wrap_i64 (hs_inflight s + 1)
           in case shedx_admits (hs_cfg s) (hs_shedding s) p nxt of
                (False, sh) \<Rightarrow> (s\<lparr>hs_shedding := sh\<rparr>, 0, False, False)
              | (True, sh) \<Rightarrow> shedx_commitReservation nxt (s\<lparr>hs_shedding := sh, hs_inflight := nxt\<rparr>))"

text \<open>A token is its \<open>done\<close> flag; a nil token is \<open>None\<close>.\<close>

definition shedx_Acquire :: "shedx_Priority \<Rightarrow> shedx_Shedder \<Rightarrow> shedx_Shedder \<times> (goerr + bool)" where
  "shedx_Acquire p s =
     (case shedx_tryReserve p s of
        (s1, n, False, True) \<Rightarrow> (s1, Inl shedx_ErrClosed)
      | (s1, n, False, False) \<Rightarrow> (shedx_count_shed s1, Inl (shedx_errRejected p))
      | (s1, n, True, cl) \<Rightarrow> (shedx_count_admitted s1, Inr False))"

definition shedx_Release :: "bool option \<Rightarrow> shedx_Shedder \<Rightarrow> shedx_Shedder \<times> bool option" where
  "shedx_Release t s =
     (case t of
        None \<Rightarrow> (s, None)
      | Some done_ \<Rightarrow> if done_ then (s, Some True) else (shedx_add_inflight (- 1) s, Some True))"

subsection \<open>Execution\<close>

record shedx_execution =
  hx_priority :: shedx_Priority
  hx_load :: f64
  hx_inFlight :: int
  hx_capacity :: int
  hx_degraded :: bool
  hx_released :: bool

definition shedx_Shed :: "shedx_execution \<Rightarrow> shedx_execution" where
  "shedx_Shed e = e\<lparr>hx_degraded := True\<rparr>"

definition shedx_SkipSlot :: "shedx_execution \<Rightarrow> shedx_Shedder \<Rightarrow> shedx_execution \<times> shedx_Shedder" where
  "shedx_SkipSlot e s =
     (if hx_released e then (e, s) else (e\<lparr>hx_released := True\<rparr>, shedx_add_inflight (- 1) s))"

text \<open>
  A callback runs on the shedder, which other goroutines may change while it runs, and may use its
  controller.
\<close>

type_synonym 'a shedx_Func =
  "shedx_execution \<Rightarrow> shedx_Shedder \<Rightarrow> shedx_Shedder \<times> shedx_execution \<times> 'a outcome"

definition shedx_runAfterAdmit ::
  "'a \<Rightarrow> shedx_Priority \<Rightarrow> int \<Rightarrow> string \<Rightarrow> 'a shedx_Func \<Rightarrow> shedx_Shedder \<Rightarrow> shedx_Shedder \<times> 'a \<times> goerror" where
  "shedx_runAfterAdmit zero p n op fn s =
     (case fn \<lparr>hx_priority = p, hx_load = shedx_load_of (hs_cfg s) (n - 1), hx_inFlight = n - 1,
              hx_capacity = hc_capacity (hs_cfg s), hx_degraded = False, hx_released = False\<rparr> s of
        (s1, sc, out) \<Rightarrow>
          (case panix_Safe zero op (Some out) of
             (val, err) \<Rightarrow>
               (let s2 = (if hx_degraded sc then s1\<lparr>hs_degraded := wrap_i64 (hs_degraded s1 + 1)\<rparr> else s1);
                    s3 = (if hx_released sc then s2 else shedx_add_inflight (- 1) s2)
                in (s3, val, err))))"

definition shedx_Execute ::
  "'a \<Rightarrow> goerror \<Rightarrow> shedx_Priority \<Rightarrow> 'a shedx_Func option \<Rightarrow> shedx_Shedder \<Rightarrow> shedx_Shedder \<times> 'a \<times> goerror" where
  "shedx_Execute zero ctxErr p fn s =
     (if hs_closed s then (s, zero, Some shedx_ErrClosed)
      else case fn of
        None \<Rightarrow> (s, zero, Some shedx_ErrNilFunc)
      | Some f \<Rightarrow>
          (case ctxErr of
             Some e \<Rightarrow> (s, zero, Some (shedx_errCancelled e))
           | None \<Rightarrow>
               (case shedx_tryReserve p s of
                  (s1, n, False, True) \<Rightarrow> (s1, zero, Some shedx_ErrClosed)
                | (s1, n, False, False) \<Rightarrow> (shedx_count_shed s1, zero, Some (shedx_errRejected p))
                | (s1, n, True, cl) \<Rightarrow>
                    shedx_runAfterAdmit zero p n (shedx_opOrDefault (hs_cfg s1)) f (shedx_count_admitted s1))))"

definition shedx_TryExecute ::
  "'a \<Rightarrow> goerror \<Rightarrow> shedx_Priority \<Rightarrow> 'a shedx_Func option \<Rightarrow> shedx_Shedder
     \<Rightarrow> shedx_Shedder \<times> bool \<times> 'a \<times> goerror" where
  "shedx_TryExecute zero ctxErr p fn s =
     (if hs_closed s then (s, False, zero, Some shedx_ErrClosed)
      else case fn of
        None \<Rightarrow> (s, False, zero, Some shedx_ErrNilFunc)
      | Some f \<Rightarrow>
          (case ctxErr of
             Some e \<Rightarrow> (s, False, zero, Some (shedx_errCancelled e))
           | None \<Rightarrow>
               (case shedx_tryReserve p s of
                  (s1, n, False, True) \<Rightarrow> (s1, False, zero, Some shedx_ErrClosed)
                | (s1, n, False, False) \<Rightarrow> (shedx_count_shed s1, False, zero, None)
                | (s1, n, True, cl) \<Rightarrow>
                    (case shedx_runAfterAdmit zero p n (shedx_opOrDefaultTry (hs_cfg s1)) f (shedx_count_admitted s1) of
                       (s2, val, err) \<Rightarrow> (s2, True, val, err)))))"

subsection \<open>Observation and lifecycle\<close>

record shedx_Stats =
  ht_Capacity :: int
  ht_Threshold :: f64
  ht_CutoffLow :: f64
  ht_CutoffNormal :: f64
  ht_CutoffHigh :: f64
  ht_InFlight :: int
  ht_Admitted :: int
  ht_Shed :: int
  ht_Degraded :: int

definition shedx_Load :: "shedx_Shedder \<Rightarrow> f64" where "shedx_Load s = shedx_load_of (hs_cfg s) (hs_inflight s)"
definition shedx_InFlight :: "shedx_Shedder \<Rightarrow> int" where "shedx_InFlight s = hs_inflight s"
definition shedx_Capacity :: "shedx_Shedder \<Rightarrow> int" where "shedx_Capacity s = hc_capacity (hs_cfg s)"
definition shedx_Threshold :: "shedx_Shedder \<Rightarrow> f64" where "shedx_Threshold s = hc_threshold (hs_cfg s)"

definition shedx_ShedderStats :: "shedx_Shedder \<Rightarrow> shedx_Stats" where
  "shedx_ShedderStats s =
     \<lparr>ht_Capacity = hc_capacity (hs_cfg s), ht_Threshold = hc_threshold (hs_cfg s),
      ht_CutoffLow = hc_cutoffLow (hs_cfg s), ht_CutoffNormal = hc_cutoffNormal (hs_cfg s),
      ht_CutoffHigh = hc_cutoffHigh (hs_cfg s), ht_InFlight = hs_inflight s, ht_Admitted = hs_admitted s,
      ht_Shed = hs_shed s, ht_Degraded = hs_degraded s\<rparr>"

definition shedx_ResetStats :: "shedx_Shedder \<Rightarrow> shedx_Shedder" where
  "shedx_ResetStats s = s\<lparr>hs_admitted := 0, hs_shed := 0, hs_degraded := 0\<rparr>"

definition shedx_Close :: "shedx_Shedder \<Rightarrow> shedx_Shedder" where
  "shedx_Close s = s\<lparr>hs_closed := True\<rparr>"

definition shedx_IsClosed :: "shedx_Shedder \<Rightarrow> bool" where
  "shedx_IsClosed s = hs_closed s"

interpretation shedx: closer shedx_Close shedx_IsClosed
  by unfold_locales (simp_all add: shedx_Close_def shedx_IsClosed_def)

section \<open>The admission decision\<close>

definition shedx_cfg_ok :: "shedx_config \<Rightarrow> bool" where
  "shedx_cfg_ok c \<longleftrightarrow>
     1 \<le> hc_capacity c \<and> 0 < hc_threshold c \<and> hc_threshold c \<le> 1
     \<and> 0 \<le> hc_hysteresis c \<and> hc_hysteresis c < hc_threshold c
     \<and> 0 < hc_cutoffLow c \<and> hc_cutoffLow c \<le> hc_cutoffNormal c \<and> hc_cutoffNormal c \<le> hc_cutoffHigh c
     \<and> hc_cutoffHigh c \<le> 1"

lemma shedx_defaults:
  "0 < shedx_DefaultThreshold" "shedx_DefaultThreshold \<le> 1"
  "0 < shedx_DefaultCutoffLow" "shedx_DefaultCutoffLow \<le> shedx_DefaultCutoffNormal"
  "shedx_DefaultCutoffNormal \<le> shedx_DefaultCutoffHigh" "shedx_DefaultCutoffHigh \<le> 1"
  using f64_round_pos [of "8 / 10"] f64_round_pos [of "25 / 100"] f64_round_mono [of "8 / 10" 1]
    f64_round_mono [of "25 / 100" "60 / 100"] f64_round_mono [of "60 / 100" "90 / 100"] f64_round_mono [of "90 / 100" 1]
  by (simp_all add: shedx_DefaultThreshold_def shedx_DefaultCutoffLow_def shedx_DefaultCutoffNormal_def
      shedx_DefaultCutoffHigh_def)

lemma shedx_normalizeCutoffs_ok:
  "1 \<le> hc_capacity c \<Longrightarrow> 0 < hc_threshold c \<Longrightarrow> hc_threshold c \<le> 1 \<Longrightarrow> 0 \<le> hc_hysteresis c
     \<Longrightarrow> hc_hysteresis c < hc_threshold c \<Longrightarrow> shedx_cfg_ok (shedx_normalizeCutoffs c)"
  using shedx_defaults
  by (simp add: shedx_normalizeCutoffs_def shedx_cfg_ok_def shedx_validCutoff_def Let_def)

lemma shedx_newConfig_ok: "shedx_cfg_ok (shedx_newConfig opts)"
  using shedx_defaults(1,2)
  by (simp only: shedx_newConfig_def Let_def, intro shedx_normalizeCutoffs_ok) (simp_all add: shedx_minCapacity_def)

lemma shedx_capacity_pos: "shedx_cfg_ok c \<Longrightarrow> 1 \<le> f64_of_int (hc_capacity c)"
  using f64_of_int_mono [of 1 "hc_capacity c"] by (simp add: shedx_cfg_ok_def f64_of_int_exact)

lemma shedx_load_mono: "shedx_cfg_ok c \<Longrightarrow> m \<le> n \<Longrightarrow> shedx_load_of c m \<le> shedx_load_of c n"
  using shedx_capacity_pos [of c]
  by (simp add: shedx_load_of_def f64_div_def f64_round_mono divide_right_mono f64_of_int_mono)

lemma shedx_load_full:
  assumes "shedx_cfg_ok c" and "hc_capacity c \<le> n"
  shows "1 \<le> shedx_load_of c n"
proof -
  have "1 \<le> f64_of_int n / f64_of_int (hc_capacity c)"
    using shedx_capacity_pos [OF assms(1)] f64_of_int_mono [OF assms(2)] by simp
  then show ?thesis using f64.rnd_lower [of 1] by (simp add: shedx_load_of_def f64_div_def)
qed

lemma shedx_cutoff_le_1: "shedx_cfg_ok c \<Longrightarrow> shedx_cutoff c p \<le> 1"
  by (auto simp: shedx_cutoff_def shedx_cfg_ok_def)

lemma shedx_applyCutoffs_full:
  assumes "shedx_cfg_ok c" and "1 \<le> load"
  shows "\<not> shedx_applyCutoffs c load p"
proof (cases "f64_sub 1 (hc_threshold c) \<le> 0")
  case False
  have "f64_sub 1 (hc_threshold c) \<le> f64_sub load (hc_threshold c)"
    using assms(2) by (simp add: f64_sub_def f64_round_mono)
  with False have "1 \<le> f64_sub load (hc_threshold c) / f64_sub 1 (hc_threshold c)" by simp
  then have "1 \<le> f64_div (f64_sub load (hc_threshold c)) (f64_sub 1 (hc_threshold c))"
    using f64.rnd_lower [of 1] by (simp add: f64_div_def)
  with shedx_cutoff_le_1 [OF assms(1), of p] False show ?thesis
    by (simp add: shedx_applyCutoffs_def Let_def)
qed (simp add: shedx_applyCutoffs_def)

text \<open>A request that is not critical is admitted only strictly below the capacity.\<close>

lemma shedx_admits_below_capacity:
  assumes "shedx_cfg_ok c" and "fst (shedx_admits c b p n)" and "p \<noteq> shedx_PriorityCritical"
  shows "n < hc_capacity c"
proof (rule ccontr)
  assume "\<not> n < hc_capacity c"
  then have l: "1 \<le> shedx_load_of c n" using shedx_load_full [OF assms(1)] by simp
  have t: "hc_threshold c \<le> 1" "0 \<le> hc_hysteresis c" using assms(1) by (simp_all add: shedx_cfg_ok_def)
  then have "f64_sub (hc_threshold c) (hc_hysteresis c) \<le> 1"
    using f64.rnd_upper [of "hc_threshold c - hc_hysteresis c" 1] by (simp add: f64_sub_def)
  with l t shedx_applyCutoffs_full [OF assms(1) l] assms(2,3) show False
    by (auto simp: shedx_admits_def Let_def split: if_splits)
qed

lemma shedx_applyCutoffs_mono:
  assumes "shedx_applyCutoffs c load' p" and "load \<le> load'"
  shows "shedx_applyCutoffs c load p"
proof -
  have "f64_sub load (hc_threshold c) \<le> f64_sub load' (hc_threshold c)"
    using assms(2) by (simp add: f64_sub_def f64_round_mono)
  moreover have "0 < f64_sub 1 (hc_threshold c)" using assms(1) by (simp add: shedx_applyCutoffs_def Let_def split: if_splits)
  ultimately have "f64_div (f64_sub load (hc_threshold c)) (f64_sub 1 (hc_threshold c))
      \<le> f64_div (f64_sub load' (hc_threshold c)) (f64_sub 1 (hc_threshold c))"
    by (simp add: f64_div_def f64_round_mono divide_right_mono)
  with assms(1) show ?thesis by (simp add: shedx_applyCutoffs_def Let_def split: if_splits)
qed

lemma shedx_applyCutoffs_order:
  "shedx_applyCutoffs c load p \<Longrightarrow> shedx_cutoff c p \<le> shedx_cutoff c q \<Longrightarrow> shedx_applyCutoffs c load q"
  by (auto simp: shedx_applyCutoffs_def Let_def split: if_splits)

lemma shedx_cutoff_order:
  assumes "shedx_cfg_ok c" and "p \<le> q"
  shows "shedx_cutoff c p \<le> shedx_cutoff c q"
proof -
  have "p = 0 \<or> p = 1 \<or> 2 \<le> p" by (simp add: word_le_nat_alt unat_arith_simps) arith
  moreover have "q = 0 \<or> q = 1 \<or> 2 \<le> q" by (simp add: word_le_nat_alt unat_arith_simps) arith
  moreover have "\<not> (2 \<le> p \<and> p \<le> 1)" by (auto simp: word_le_nat_alt)
  ultimately show ?thesis
    using assms by (auto simp: shedx_cutoff_def shedx_priorities shedx_cfg_ok_def)
qed

section \<open>A latch that never clears\<close>

text \<open>
  With the latch set and nothing in flight, the load of the next request is that of one request. When
  it lies in the hysteresis band, the request is rejected and the state stays as it is.
\<close>

definition shedx_stuck :: "shedx_Shedder \<Rightarrow> bool" where
  "shedx_stuck s \<longleftrightarrow>
     hs_shedding s \<and> \<not> hs_closed s \<and> hs_inflight s = 0 \<and> 0 < hc_hysteresis (hs_cfg s)
     \<and> f64_sub (hc_threshold (hs_cfg s)) (hc_hysteresis (hs_cfg s)) \<le> shedx_load_of (hs_cfg s) 1
     \<and> shedx_load_of (hs_cfg s) 1 < hc_threshold (hs_cfg s)"

lemma shedx_stuck_reserve:
  assumes "shedx_stuck s" and "p \<noteq> shedx_PriorityCritical"
  shows "shedx_tryReserve p s = (s, 0, False, False)"
  using assms by (auto simp: shedx_tryReserve_def shedx_stuck_def shedx_admits_def Let_def)

lemma shedx_stuck_count [simp]: "shedx_stuck (shedx_count_shed s) = shedx_stuck s"
  by (simp add: shedx_stuck_def shedx_count_shed_def)

section \<open>Properties\<close>

text \<open>
  Lower priorities are shed first, and load only ever closes the door. At the same load and latch, a
  request admitted at one priority is admitted at every higher one, and critical requests always are. With
  the latch clear, a request admitted at some in-flight count is admitted at every smaller one.
\<close>

theorem shedx_admits_order:
  assumes "shedx_cfg_ok c"
  shows "(fst (shedx_admits c b p n) \<and> p \<le> q \<and> q \<le> shedx_PriorityCritical \<longrightarrow> fst (shedx_admits c b q n))
    \<and> fst (shedx_admits c b shedx_PriorityCritical n)
    \<and> (fst (shedx_admits c False p n) \<and> m \<le> n \<longrightarrow> fst (shedx_admits c False p m))"
proof -
  have ord: "shedx_applyCutoffs c l q" if "shedx_applyCutoffs c l p" "p \<le> q" for l
    using shedx_applyCutoffs_order [OF that(1) shedx_cutoff_order [OF assms that(2)]] .
  have crit: "q = shedx_PriorityCritical" if "p = shedx_PriorityCritical" "p \<le> q" "q \<le> shedx_PriorityCritical"
    using that by simp
  have "fst (shedx_admits c b q n)" if "fst (shedx_admits c b p n)" "p \<le> q" "q \<le> shedx_PriorityCritical"
    using that ord crit by (auto simp: shedx_admits_def Let_def split: if_splits)
  moreover have "fst (shedx_admits c b shedx_PriorityCritical n)" by (simp add: shedx_admits_def)
  moreover have "fst (shedx_admits c False p m)" if "fst (shedx_admits c False p n)" "m \<le> n"
    using that(1) shedx_load_mono [OF assms that(2)] shedx_applyCutoffs_mono [of c "shedx_load_of c n" p "shedx_load_of c m"]
    by (auto simp: shedx_admits_def Let_def split: if_splits)
  ultimately show ?thesis by blast
qed

lemma shedx_admits_order_witness:
  "fst (shedx_admits (shedx_newConfig []) True shedx_PriorityCritical 5000)"
  using shedx_admits_order [OF shedx_newConfig_ok] by blast

text \<open>A shedder in use: two high requests come and go, then the requests \<open>ps\<close> are made one after another.\<close>

fun shedx_acquire_all :: "shedx_Priority list \<Rightarrow> shedx_Shedder \<Rightarrow> shedx_Shedder \<times> (goerr + bool) list" where
  "shedx_acquire_all [] s = (s, [])"
| "shedx_acquire_all (p # ps) s =
     (case shedx_Acquire p s of (s1, r) \<Rightarrow> (case shedx_acquire_all ps s1 of (s2, rs) \<Rightarrow> (s2, r # rs)))"

definition shedx_after_two :: "shedx_Shedder \<Rightarrow> shedx_Shedder" where
  "shedx_after_two s =
     fst (shedx_Release (Some False) (fst (shedx_Release (Some False)
       (fst (shedx_acquire_all [shedx_PriorityHigh, shedx_PriorityHigh] s)))))"

lemma shedx_stuck_all:
  "shedx_stuck s \<Longrightarrow> \<forall>p\<in>set ps. p \<noteq> shedx_PriorityCritical \<Longrightarrow>
     snd (shedx_acquire_all ps s) = map (\<lambda>p. Inl (shedx_errRejected p)) ps"
proof (induction ps arbitrary: s)
  case (Cons p ps)
  have "shedx_Acquire p s = (shedx_count_shed s, Inl (shedx_errRejected p))"
    using shedx_stuck_reserve [OF Cons.prems(1), of p] Cons.prems(2) by (simp add: shedx_Acquire_def)
  with Cons show ?case by (simp split: prod.split) (metis shedx_stuck_count snd_conv)
qed simp

definition shedx_demo_opts :: "(shedx_config \<Rightarrow> shedx_config) option list" where
  "shedx_demo_opts = [Some (shedx_WithCapacity 4), Some (shedx_WithThreshold (1 / 2)), Some (shedx_WithHysteresis (3 / 8))]"

lemma shedx_demo_config:
  "shedx_newConfig shedx_demo_opts =
     \<lparr>hc_capacity = 4, hc_threshold = 1 / 2, hc_hysteresis = 3 / 8, hc_cutoffLow = shedx_DefaultCutoffLow,
      hc_cutoffNormal = shedx_DefaultCutoffNormal, hc_cutoffHigh = shedx_DefaultCutoffHigh, hc_op = []\<rparr>"
  using shedx_defaults
  by (simp add: shedx_newConfig_def shedx_demo_opts_def shedx_WithCapacity_def shedx_WithThreshold_def
      shedx_WithHysteresis_def shedx_minCapacity_def Let_def shedx_normalizeCutoffs_def)

lemma shedx_dyadics:
  "f64_round (1 / 4) = 1 / 4" "f64_round (1 / 2) = 1 / 2" "f64_round (1 / 8) = 1 / 8" "f64_round (3 / 8) = 3 / 8"
  using f64_round_dyadic [of 1 2] f64_round_dyadic [of 1 1] f64_round_dyadic [of 1 3] f64_round_dyadic [of 3 3]
  by simp_all

lemmas shedx_eval = shedx_Acquire_def shedx_Release_def shedx_tryReserve_def shedx_commitReservation_def
  shedx_admits_def shedx_priorities shedx_load_of_def f64_div_def f64_of_int_def f64_sub_def shedx_dyadics
  shedx_applyCutoffs_def shedx_cutoff_def shedx_count_admitted_def shedx_count_shed_def shedx_add_inflight_def Let_def

text \<open>
  One use of hysteresis can shut the door for good. In a shedder of capacity 4 with threshold 1/2 and
  hysteresis 3/8, two requests set the latch (the second reaches the threshold and is still admitted). Once
  both are released and nothing is in flight, every request that is not critical is rejected, however many are
  made: an idle shedder never gets back below the band, because the load counts the candidate itself.
\<close>

theorem shedx_hysteresis_stuck:
  assumes "\<forall>p\<in>set ps. p \<noteq> shedx_PriorityCritical"
  shows "snd (shedx_acquire_all [shedx_PriorityHigh, shedx_PriorityHigh] (shedx_New shedx_demo_opts)) = [Inr False, Inr False]
    \<and> hs_inflight (shedx_after_two (shedx_New shedx_demo_opts)) = 0
    \<and> snd (shedx_acquire_all ps (shedx_after_two (shedx_New shedx_demo_opts))) = map (\<lambda>p. Inl (shedx_errRejected p)) ps"
proof -
  have h: "0 < shedx_DefaultCutoffHigh" using shedx_defaults by simp
  have two: "shedx_acquire_all [shedx_PriorityHigh, shedx_PriorityHigh] (shedx_New shedx_demo_opts)
     = (shedx_New shedx_demo_opts\<lparr>hs_inflight := 2, hs_admitted := 2, hs_shedding := True\<rparr>, [Inr False, Inr False])"
    using h by (simp add: shedx_New_def shedx_demo_config shedx_eval)
  then have af: "shedx_after_two (shedx_New shedx_demo_opts) = shedx_New shedx_demo_opts\<lparr>hs_admitted := 2, hs_shedding := True\<rparr>"
    by (simp add: shedx_after_two_def shedx_Release_def shedx_add_inflight_def shedx_New_def)
  have "shedx_stuck (shedx_after_two (shedx_New shedx_demo_opts))"
    unfolding af by (simp add: shedx_stuck_def shedx_New_def shedx_demo_config shedx_eval)
  from shedx_stuck_all [OF this assms] two af show ?thesis by (simp add: shedx_New_def)
qed

lemma shedx_hysteresis_stuck_witness:
  "snd (shedx_acquire_all [shedx_PriorityLow, shedx_PriorityHigh] (shedx_after_two (shedx_New shedx_demo_opts)))
   = [Inl (shedx_errRejected shedx_PriorityLow), Inl (shedx_errRejected shedx_PriorityHigh)]"
  using shedx_hysteresis_stuck [of "[shedx_PriorityLow, shedx_PriorityHigh]"] by (simp add: shedx_priorities)

text \<open>
  An execution gives its slot back. Whatever the callback returns or panics with, and whether or not it
  calls \<open>Shed\<close> and \<open>SkipSlot\<close>, an admitted \<open>Execute\<close> leaves the in-flight count as it was, counts one
  admission and at most one degradation, and returns the callback's result, a panic as a \<open>PanicError\<close>; a
  request that is not admitted changes no count but the shed one.
\<close>

theorem shedx_Execute_balanced:
  assumes "0 \<le> hs_inflight s" and "hs_inflight s < 2 ^ 63 - 1" and "\<not> hs_closed s"
    and "\<forall>sc s. f sc s =
      (let sc1 = (if degrade then shedx_Shed sc else sc)
       in if skip then (case shedx_SkipSlot sc1 s of (sc2, s2) \<Rightarrow> (s2, sc2, out)) else (s, sc1, out))"
  shows "case shedx_Execute zero None p (Some f) s of
     (s', val, err) \<Rightarrow>
       hs_inflight s' = hs_inflight s
       \<and> (if fst (shedx_admits (hs_cfg s) (hs_shedding s) p (hs_inflight s + 1))
          then hs_admitted s' = wrap_i64 (hs_admitted s + 1) \<and> hs_shed s' = hs_shed s
            \<and> hs_degraded s' = (if degrade then wrap_i64 (hs_degraded s + 1) else hs_degraded s)
            \<and> (val, err) = (case out of Returns v e \<Rightarrow> (v, e)
                             | Panics pv \<Rightarrow> (zero, Some (PanicError (shedx_opOrDefault (hs_cfg s)) pv)))
          else hs_admitted s' = hs_admitted s \<and> hs_shed s' = wrap_i64 (hs_shed s + 1)
            \<and> hs_degraded s' = hs_degraded s \<and> val = zero \<and> err = Some (shedx_errRejected p))"
proof -
  obtain ok sh where a: "shedx_admits (hs_cfg s) (hs_shedding s) p (hs_inflight s + 1) = (ok, sh)" by (metis surj_pair)
  have w: "wrap_i64 (hs_inflight s + 1) = hs_inflight s + 1" "wrap_i64 (hs_inflight s + 1 + - 1) = hs_inflight s"
    using assms(1,2) by simp_all
  show ?thesis
    using assms(3,4) a w
    by (cases ok; cases skip; cases degrade; cases out)
      (simp_all add: shedx_Execute_def shedx_tryReserve_def shedx_commitReservation_def Let_def shedx_runAfterAdmit_def
        shedx_Shed_def shedx_SkipSlot_def shedx_add_inflight_def shedx_count_admitted_def shedx_count_shed_def
        panix_Safe_def call_fn_def)
qed

lemma shedx_Execute_balanced_witness:
  "case shedx_Execute 0 None shedx_PriorityCritical
      (Some (\<lambda>sc s. case shedx_SkipSlot (shedx_Shed sc) s of (sc2, s2) \<Rightarrow> (s2, sc2, Panics (PvOther 1)))) (shedx_New []) of
     (s', val, err) \<Rightarrow> hs_inflight s' = 0 \<and> hs_degraded s' = 1 \<and> val = (0 :: int) \<and> err = Some (PanicError ''shedx.Execute'' (PvOther 1))"
proof -
  let ?f = "\<lambda>sc s. case shedx_SkipSlot (shedx_Shed sc) s of (sc2, s2) \<Rightarrow> (s2, sc2, Panics (PvOther 1))"
  have n: "hs_inflight (shedx_New []) = 0" "\<not> hs_closed (shedx_New [])" "hs_degraded (shedx_New []) = 0"
    "shedx_opOrDefault (hs_cfg (shedx_New [])) = ''shedx.Execute''"
    by (simp_all add: shedx_New_def shedx_newConfig_def shedx_normalizeCutoffs_def shedx_opOrDefault_def shedx_opExecute_def Let_def)
  show ?thesis
    using shedx_Execute_balanced [where s = "shedx_New []" and f = ?f and degrade = True and skip = True
        and out = "Panics (PvOther 1)" and zero = "0 :: int" and p = shedx_PriorityCritical] n
    by (simp add: shedx_admits_def Let_def split: prod.splits)
qed

end
