(* ===== verification/Shedx_Conc.thy ===== *)
theory Shedx_Conc
  imports Shedx
begin

text \<open>
  Package \<open>shedx\<close>, part two: the lock-free reservation with any number of goroutines, one atomic load,
  store or compare-and-swap at a time. A goroutine is its program counter; \<open>SHold\<close> is the time between
  the reservation and the release.
\<close>

subsection \<open>The atomic accesses of \<open>tryReserve\<close>\<close>

datatype shedx_pc =
    SStart shedx_Priority
  | SLoad shedx_Priority
  | SLatch shedx_Priority int
  | SDecide shedx_Priority int bool
  | SCas shedx_Priority int
  | SCommit shedx_Priority int
  | SHold shedx_Priority int
  | SRejected
  | SClosed
  | SFinished

fun shedx_micro :: "shedx_Shedder \<Rightarrow> shedx_pc \<Rightarrow> shedx_Shedder \<times> shedx_pc" where
  "shedx_micro s (SStart p) = (s, if hs_closed s then SClosed else SLoad p)"
| "shedx_micro s (SLoad p) = (s, SLatch p (hs_inflight s))"
| "shedx_micro s (SLatch p cur) = (s, SDecide p cur (hs_shedding s))"
| "shedx_micro s (SDecide p cur b) =
     (case shedx_admits (hs_cfg s) b p (wrap_i64 (cur + 1)) of
        (ok, sh) \<Rightarrow> (if sh \<noteq> b then s\<lparr>hs_shedding := sh\<rparr> else s, if ok then SCas p cur else SRejected))"
| "shedx_micro s (SCas p cur) =
     (if hs_inflight s = cur
      then (s\<lparr>hs_inflight := wrap_i64 (cur + 1)\<rparr>, SCommit p (wrap_i64 (cur + 1))) else (s, SStart p))"
| "shedx_micro s (SCommit p n) =
     (if hs_closed s then (shedx_add_inflight (- 1) s, SClosed) else (s, SHold p n))"
| "shedx_micro s (SHold p n) = (shedx_add_inflight (- 1) s, SFinished)"
| "shedx_micro s pc = (s, pc)"

fun shedx_micros :: "nat \<Rightarrow> shedx_Shedder \<Rightarrow> shedx_pc \<Rightarrow> shedx_Shedder \<times> shedx_pc" where
  "shedx_micros 0 s pc = (s, pc)"
| "shedx_micros (Suc n) s pc = (case shedx_micro s pc of (s1, pc1) \<Rightarrow> shedx_micros n s1 pc1)"

text \<open>The result of \<open>tryReserve\<close> at the end of its accesses.\<close>

fun shedx_pc_result :: "shedx_pc \<Rightarrow> int \<times> bool \<times> bool" where
  "shedx_pc_result (SHold p n) = (n, True, False)"
| "shedx_pc_result SRejected = (0, False, False)"
| "shedx_pc_result pc = (0, False, True)"

text \<open>
  Left alone, the compare-and-swap loop is the reservation in one step: its six atomic accesses without
  interference give the state and the result of \<open>tryReserve\<close>.
\<close>

theorem shedx_tryReserve_micros:
  "shedx_tryReserve p s = (case shedx_micros 6 s (SStart p) of (s', pc) \<Rightarrow> (s', shedx_pc_result pc))"
proof (cases "hs_closed s")
  case True
  then show ?thesis by (simp add: eval_nat_numeral shedx_tryReserve_def)
next
  case False
  obtain ok sh where a: "shedx_admits (hs_cfg s) (hs_shedding s) p (wrap_i64 (hs_inflight s + 1)) = (ok, sh)"
    by (metis surj_pair)
  have u: "s\<lparr>hs_shedding := hs_shedding s\<rparr> = s" by simp
  show ?thesis
    using False a by (cases ok; cases "sh = hs_shedding s")
      (simp_all add: eval_nat_numeral shedx_tryReserve_def shedx_commitReservation_def Let_def u)
qed

subsection \<open>Goroutines\<close>

type_synonym shedx_sys = "shedx_Shedder \<times> shedx_pc list"

inductive shedx_step :: "shedx_sys \<Rightarrow> shedx_sys \<Rightarrow> bool" where
  run: "i < length ts \<Longrightarrow> shedx_micro s (ts ! i) = (s', pc) \<Longrightarrow> shedx_step (s, ts) (s', ts[i := pc])"
| call: "shedx_step (s, ts) (s, ts @ [SStart p])"
| allow: "shedx_step (s, ts) (fst (shedx_Allow p s), ts)"
| close: "shedx_step (s, ts) (shedx_Close s, ts)"
| reset_stats: "shedx_step (s, ts) (shedx_ResetStats s, ts)"

inductive_cases shedx_stepE: "shedx_step (s, ts) (s', ts')"

inductive shedx_reach :: "(shedx_config \<Rightarrow> shedx_config) option list \<Rightarrow> shedx_sys \<Rightarrow> bool" for opts where
  init: "shedx_reach opts (shedx_New opts, [])"
| step: "shedx_reach opts x \<Longrightarrow> shedx_step x y \<Longrightarrow> shedx_reach opts y"

text \<open>Who occupies a slot, and who does so without being critical.\<close>

fun shedx_holds :: "shedx_pc \<Rightarrow> bool" where
  "shedx_holds (SCommit p n) = True"
| "shedx_holds (SHold p n) = True"
| "shedx_holds pc = False"

fun shedx_holds_nc :: "shedx_pc \<Rightarrow> bool" where
  "shedx_holds_nc (SCommit p n) = (p \<noteq> shedx_PriorityCritical)"
| "shedx_holds_nc (SHold p n) = (p \<noteq> shedx_PriorityCritical)"
| "shedx_holds_nc pc = False"

definition shedx_slots :: "shedx_pc list \<Rightarrow> int" where
  "shedx_slots ts = int (length (filter shedx_holds ts))"

definition shedx_slots_nc :: "shedx_pc list \<Rightarrow> int" where
  "shedx_slots_nc ts = int (length (filter shedx_holds_nc ts))"

fun shedx_pc_ok :: "shedx_config \<Rightarrow> int \<Rightarrow> shedx_pc \<Rightarrow> bool" where
  "shedx_pc_ok c m (SLatch p cur) = (0 \<le> cur \<and> cur \<le> m)"
| "shedx_pc_ok c m (SDecide p cur b) = (0 \<le> cur \<and> cur \<le> m)"
| "shedx_pc_ok c m (SCas p cur) = (0 \<le> cur \<and> cur \<le> m \<and> (p = shedx_PriorityCritical \<or> cur + 1 < hc_capacity c))"
| "shedx_pc_ok c m pc = True"

definition shedx_sys_inv :: "shedx_sys \<Rightarrow> bool" where
  "shedx_sys_inv x \<longleftrightarrow>
     (case x of (s, ts) \<Rightarrow>
        shedx_cfg_ok (hs_cfg s)
        \<and> (int (length ts) < 2 ^ 62 \<longrightarrow>
             hs_inflight s = shedx_slots ts \<and> shedx_slots_nc ts < hc_capacity (hs_cfg s)
             \<and> (\<forall>pc\<in>set ts. shedx_pc_ok (hs_cfg s) (int (length ts)) pc)))"

lemma shedx_slots_update:
  "i < length ts \<Longrightarrow> shedx_slots (ts[i := pc]) = shedx_slots ts - of_bool (shedx_holds (ts ! i)) + of_bool (shedx_holds pc)"
  "i < length ts \<Longrightarrow> shedx_slots_nc (ts[i := pc]) = shedx_slots_nc ts - of_bool (shedx_holds_nc (ts ! i)) + of_bool (shedx_holds_nc pc)"
  by (simp_all add: shedx_slots_def shedx_slots_nc_def length_filter_update)

lemma shedx_slots_le: "shedx_slots_nc ts \<le> shedx_slots ts" "0 \<le> shedx_slots ts" "shedx_slots ts \<le> int (length ts)"
proof -
  have "shedx_holds_nc pc \<Longrightarrow> shedx_holds pc" for pc by (cases pc) simp_all
  then show "shedx_slots_nc ts \<le> shedx_slots ts"
    unfolding shedx_slots_def shedx_slots_nc_def of_nat_le_iff by (rule length_filter_mono)
qed (simp_all add: shedx_slots_def)

lemma shedx_pc_ok_set: "\<forall>x\<in>set ts. P x \<Longrightarrow> P pc \<Longrightarrow> \<forall>x\<in>set (ts[i := pc]). P x"
  using set_update_subset_insert [of ts i pc] by auto

lemma shedx_cfg_micro: "shedx_micro s pc = (s', pc') \<Longrightarrow> hs_cfg s' = hs_cfg s"
  by (cases pc) (auto simp: shedx_add_inflight_def split: prod.splits if_splits)

text \<open>Steps that do not touch the counter or a slot.\<close>

lemma shedx_quiet_inv:
  assumes "shedx_sys_inv (s, ts)" and "hs_cfg s' = hs_cfg s" and "hs_inflight s' = hs_inflight s"
  shows "shedx_sys_inv (s', ts)"
  using assms by (simp add: shedx_sys_inv_def)

lemma shedx_run_quiet:
  assumes "shedx_sys_inv (s, ts)" and "i < length ts" and "hs_cfg s' = hs_cfg s" and "hs_inflight s' = hs_inflight s"
    and "shedx_holds pc = shedx_holds (ts ! i)" and "shedx_holds_nc pc = shedx_holds_nc (ts ! i)"
    and "int (length ts) < 2 ^ 62 \<Longrightarrow> shedx_pc_ok (hs_cfg s) (int (length ts)) pc"
  shows "shedx_sys_inv (s', ts[i := pc])"
  using assms shedx_pc_ok_set [where P = "shedx_pc_ok (hs_cfg s) (int (length ts))" and ts = ts and pc = pc and i = i]
  by (simp add: shedx_sys_inv_def shedx_slots_update)

lemma shedx_run_release:
  assumes "shedx_sys_inv (s, ts)" and "i < length ts" and "shedx_holds (ts ! i)"
    and "\<not> shedx_holds pc" and "\<not> shedx_holds_nc pc" and "\<And>c m. shedx_pc_ok c m pc"
  shows "shedx_sys_inv (shedx_add_inflight (- 1) s, ts[i := pc])"
proof -
  have "of_bool (shedx_holds_nc (ts ! i)) \<ge> (0 :: int)" by simp
  moreover have "1 \<le> shedx_slots ts"
  proof -
    have "ts ! i \<in> set (filter shedx_holds ts)" using assms(2,3) by simp
    then have "filter shedx_holds ts \<noteq> []" by (metis empty_iff list.set(1))
    then have "0 < length (filter shedx_holds ts)" by simp
    then show ?thesis by (simp add: shedx_slots_def Suc_le_eq)
  qed
  ultimately show ?thesis
    using assms shedx_slots_le(3) [of ts]
      shedx_pc_ok_set [where P = "shedx_pc_ok (hs_cfg s) (int (length ts))" and ts = ts and pc = pc and i = i]
    by (auto simp: shedx_sys_inv_def shedx_slots_update shedx_add_inflight_def)
qed

lemma shedx_run_inv:
  assumes "shedx_sys_inv (s, ts)" and "i < length ts" and "shedx_micro s (ts ! i) = (s', pc)"
  shows "shedx_sys_inv (s', ts[i := pc])"
proof -
  let ?m = "int (length ts)"
  have ok: "?m < 2 ^ 62 \<Longrightarrow> shedx_pc_ok (hs_cfg s) ?m (ts ! i)" and c: "shedx_cfg_ok (hs_cfg s)"
    and cnt: "?m < 2 ^ 62 \<Longrightarrow> hs_inflight s = shedx_slots ts \<and> shedx_slots_nc ts < hc_capacity (hs_cfg s)"
    using assms(1,2) by (simp_all add: shedx_sys_inv_def)
  note quiet = shedx_run_quiet [OF assms(1,2) shedx_cfg_micro [OF assms(3)]]
  show ?thesis
  proof (cases "ts ! i")
    case (SStart p)
    with assms(3) show ?thesis by (intro quiet) (auto split: if_splits)
  next
    case (SLoad p)
    with assms(3) cnt shedx_slots_le(2,3) [of ts] show ?thesis by (intro quiet) auto
  next
    case (SLatch p cur)
    with assms(3) ok show ?thesis by (intro quiet) auto
  next
    case (SDecide p cur b)
    obtain adm sh where a: "shedx_admits (hs_cfg s) b p (wrap_i64 (cur + 1)) = (adm, sh)" by (metis surj_pair)
    have "p = shedx_PriorityCritical \<or> cur + 1 < hc_capacity (hs_cfg s)" if "adm" "?m < 2 ^ 62"
    proof -
      have "wrap_i64 (cur + 1) = cur + 1" using ok [OF that(2)] SDecide that(2) by simp
      then show ?thesis using shedx_admits_below_capacity [OF c, of b p "cur + 1"] a that(1) by auto
    qed
    with assms(3) ok SDecide a show ?thesis by (intro quiet) (auto split: if_splits)
  next
    case (SCas p cur)
    show ?thesis
    proof (cases "hs_inflight s = cur")
      case True
      then have st: "s' = s\<lparr>hs_inflight := wrap_i64 (cur + 1)\<rparr>" "pc = SCommit p (wrap_i64 (cur + 1))"
        using assms(3) SCas by simp_all
      have "?m < 2 ^ 62 \<Longrightarrow> wrap_i64 (cur + 1) = shedx_slots ts + 1 \<and>
          shedx_slots_nc (ts[i := pc]) < hc_capacity (hs_cfg s)"
        using ok cnt SCas True st(2) assms(2) shedx_slots_le(1) [of ts] by (auto simp: shedx_slots_update)
      then show ?thesis
        using assms(1,2) st SCas shedx_pc_ok_set [where P = "shedx_pc_ok (hs_cfg s) ?m" and ts = ts and pc = pc and i = i]
        by (simp add: shedx_sys_inv_def shedx_slots_update)
    next
      case False
      with assms(3) SCas show ?thesis by (intro quiet) auto
    qed
  next
    case (SCommit p n)
    show ?thesis
    proof (cases "hs_closed s")
      case True
      with assms(3) SCommit shedx_run_release [OF assms(1,2), of SClosed] show ?thesis by simp
    next
      case False
      with assms(3) SCommit show ?thesis by (intro quiet) auto
    qed
  next
    case (SHold p n)
    with assms(3) shedx_run_release [OF assms(1,2), of SFinished] show ?thesis by simp
  qed (use assms(3) in \<open>auto intro!: quiet\<close>)
qed

lemma shedx_pc_ok_mono: "shedx_pc_ok c m pc \<Longrightarrow> shedx_pc_ok c (1 + m) pc"
  by (cases pc) auto

lemma shedx_call_inv: "shedx_sys_inv (s, ts) \<Longrightarrow> shedx_sys_inv (s, ts @ [SStart p])"
  using shedx_pc_ok_mono by (auto simp: shedx_sys_inv_def shedx_slots_def shedx_slots_nc_def)

lemma shedx_step_inv:
  assumes "shedx_step (s, ts) (s', ts')" and "shedx_sys_inv (s, ts)"
  shows "shedx_sys_inv (s', ts')"
proof -
  have "hs_cfg (fst (shedx_Allow p s)) = hs_cfg s \<and> hs_inflight (fst (shedx_Allow p s)) = hs_inflight s" for p
    by (auto simp: shedx_Allow_def split: prod.split)
  with assms show ?thesis
    by (elim shedx_stepE)
      (auto simp: shedx_Close_def shedx_ResetStats_def intro: shedx_run_inv shedx_call_inv shedx_quiet_inv)
qed

lemma shedx_reach_inv: "shedx_reach opts x \<Longrightarrow> shedx_sys_inv x"
proof (induction rule: shedx_reach.induct)
  case init
  show ?case
    using shedx_newConfig_ok [of opts]
    by (auto simp: shedx_sys_inv_def shedx_New_def shedx_slots_def shedx_slots_nc_def shedx_cfg_ok_def)
next
  case (step x y)
  then show ?case by (cases x; cases y) (simp add: shedx_step_inv)
qed

lemma shedx_reach_cfg: "shedx_reach opts x \<Longrightarrow> hs_cfg (fst x) = shedx_newConfig opts"
proof (induction rule: shedx_reach.induct)
  case (step x y)
  from step.hyps(2) have "hs_cfg (fst y) = hs_cfg (fst x)"
    by (cases rule: shedx_step.cases)
      (auto simp: shedx_cfg_micro shedx_Close_def shedx_ResetStats_def shedx_Allow_def split: prod.splits)
  with step.IH show ?case by simp
qed (simp add: shedx_New_def)

text \<open>
  C9: the capacity bound holds under every interleaving. However the atomic accesses of any number of
  goroutines (fewer than \<open>2 ^ 62\<close>), \<open>Allow\<close> calls, \<open>Close\<close> and \<open>ResetStats\<close> interleave, the in-flight counter is exactly
  the number of slots held, and the slots held by requests that are not critical are strictly fewer than the
  capacity. In particular a shedder of capacity one never admits such a request.
\<close>

theorem shedx_capacity_bound:
  assumes "shedx_reach opts (s, ts)" and "int (length ts) < 2 ^ 62"
  shows "hs_inflight s = shedx_slots ts \<and> shedx_slots_nc ts < hc_capacity (shedx_newConfig opts)"
  using shedx_reach_inv [OF assms(1)] shedx_reach_cfg [OF assms(1)] assms(2) by (simp add: shedx_sys_inv_def)

text \<open>One goroutine in a shedder of capacity one: its critical request holds the slot.\<close>

lemma shedx_capacity_bound_witness:
  "\<exists>s. shedx_reach [Some (shedx_WithCapacity 1)] (s, [SLoad shedx_PriorityCritical]) \<and> hs_inflight s = 0
     \<and> shedx_slots_nc [SLoad shedx_PriorityCritical] < 1"
proof -
  let ?o = "[Some (shedx_WithCapacity 1)]"
  have "shedx_step (shedx_New ?o, [] @ [SStart shedx_PriorityCritical]) (shedx_New ?o, ([] @ [SStart shedx_PriorityCritical])[0 := SLoad shedx_PriorityCritical])"
    by (rule shedx_step.run) (simp_all add: shedx_New_def)
  then have r: "shedx_reach ?o (shedx_New ?o, [SLoad shedx_PriorityCritical])"
    using shedx_reach.step [OF shedx_reach.step [OF shedx_reach.init shedx_step.call]] by simp
  have "hc_capacity (shedx_newConfig ?o) = 1"
    by (simp add: shedx_newConfig_def shedx_WithCapacity_def shedx_minCapacity_def Let_def shedx_normalizeCutoffs_def)
  with shedx_capacity_bound [OF r] r show ?thesis
    by (intro exI [of _ "shedx_New ?o"]) (simp add: shedx_slots_def)
qed

end
