(* ===== verification/Bulkx.thy ===== *)
theory Bulkx
  imports Panix F64
begin

text \<open>
  Package \<open>bulkx\<close>: the bulkhead. The buffered channel \<open>sem\<close> is the number of its occupied slots and
  \<open>closedCh\<close> is whether it is closed. This theory has the configuration, the operations of one caller
  without contention, and observation; \<open>Bulkx_Conc\<close> has the interleavings.
\<close>

subsection \<open>Errors and configuration\<close>

definition bulkx_ErrTimeout :: goerr where "bulkx_ErrTimeout = Sentinel ''bulkx: slot acquisition timed out''"
definition bulkx_ErrClosed :: goerr where "bulkx_ErrClosed = Sentinel ''bulkx: bulkhead closed''"
definition bulkx_ErrCancelled :: goerr where "bulkx_ErrCancelled = Sentinel ''bulkx: slot wait cancelled''"
definition bulkx_ErrNilFunc :: goerr where "bulkx_ErrNilFunc = Sentinel ''bulkx: nil function''"
definition bulkx_ErrWaitersExceeded :: goerr where "bulkx_ErrWaitersExceeded = Sentinel ''bulkx: waiter limit exceeded''"

definition bulkx_errCancelled :: "goerr \<Rightarrow> goerr" where
  "bulkx_errCancelled cause = Errorf ''%w: %w'' [bulkx_ErrCancelled, cause]"

definition bulkx_DefaultMaxConcurrent :: int where "bulkx_DefaultMaxConcurrent = 10"
definition bulkx_DefaultTimeout :: int where "bulkx_DefaultTimeout = 30 * 10 ^ 9"
definition bulkx_minConcurrent :: int where "bulkx_minConcurrent = 1"
definition bulkx_opExecute :: string where "bulkx_opExecute = ''bulkx.Execute''"
definition bulkx_opTryExecute :: string where "bulkx_opTryExecute = ''bulkx.TryExecute''"

record bulkx_config =
  kc_maxConcurrent :: int
  kc_timeout :: int
  kc_maxWaiters :: int
  kc_op :: string

definition bulkx_newConfig :: "(bulkx_config \<Rightarrow> bulkx_config) option list \<Rightarrow> bulkx_config" where
  "bulkx_newConfig opts =
     (let c = apply_opts opts
        \<lparr>kc_maxConcurrent = bulkx_DefaultMaxConcurrent, kc_timeout = bulkx_DefaultTimeout, kc_maxWaiters = 0, kc_op = []\<rparr>
      in if kc_maxConcurrent c < bulkx_minConcurrent then c\<lparr>kc_maxConcurrent := bulkx_minConcurrent\<rparr> else c)"

definition bulkx_opOrDefault :: "bulkx_config \<Rightarrow> string" where
  "bulkx_opOrDefault c = (if kc_op c \<noteq> [] then kc_op c else bulkx_opExecute)"

definition bulkx_opOrDefaultTry :: "bulkx_config \<Rightarrow> string" where
  "bulkx_opOrDefaultTry c = (if kc_op c \<noteq> [] then kc_op c else bulkx_opTryExecute)"

definition bulkx_WithMaxConcurrent :: "int \<Rightarrow> bulkx_config \<Rightarrow> bulkx_config" where
  "bulkx_WithMaxConcurrent n c = (if 0 < n then c\<lparr>kc_maxConcurrent := n\<rparr> else c)"

definition bulkx_WithTimeout :: "int \<Rightarrow> bulkx_config \<Rightarrow> bulkx_config" where
  "bulkx_WithTimeout d c = (if 0 < d then c\<lparr>kc_timeout := d\<rparr> else c)"

definition bulkx_WithOp :: "string \<Rightarrow> bulkx_config \<Rightarrow> bulkx_config" where
  "bulkx_WithOp op c = (if op \<noteq> [] then c\<lparr>kc_op := op\<rparr> else c)"

definition bulkx_WithMaxWaiters :: "int \<Rightarrow> bulkx_config \<Rightarrow> bulkx_config" where
  "bulkx_WithMaxWaiters n c = (if 0 < n then c\<lparr>kc_maxWaiters := n\<rparr> else c)"

subsection \<open>State\<close>

record bulkx_Bulkhead =
  kb_cfg :: bulkx_config
  kb_sem :: int
  kb_active :: int
  kb_waiters :: int
  kb_executed :: u64
  kb_rejected :: u64
  kb_timeouts :: u64
  kb_closed :: bool
  kb_closedCh :: bool

definition bulkx_New :: "(bulkx_config \<Rightarrow> bulkx_config) option list \<Rightarrow> bulkx_Bulkhead" where
  "bulkx_New opts =
     \<lparr>kb_cfg = bulkx_newConfig opts, kb_sem = 0, kb_active = 0, kb_waiters = 0, kb_executed = 0,
      kb_rejected = 0, kb_timeouts = 0, kb_closed = False, kb_closedCh = False\<rparr>"

definition bulkx_add_active :: "int \<Rightarrow> bulkx_Bulkhead \<Rightarrow> bulkx_Bulkhead" where
  "bulkx_add_active d b = b\<lparr>kb_active := wrap_i64 (kb_active b + d)\<rparr>"

definition bulkx_add_waiters :: "int \<Rightarrow> bulkx_Bulkhead \<Rightarrow> bulkx_Bulkhead" where
  "bulkx_add_waiters d b = b\<lparr>kb_waiters := wrap_i64 (kb_waiters b + d)\<rparr>"

definition bulkx_reject :: "bulkx_Bulkhead \<Rightarrow> bulkx_Bulkhead" where
  "bulkx_reject b = b\<lparr>kb_rejected := kb_rejected b + 1\<rparr>"

text \<open>Sending to and receiving from the semaphore channel, when that does not block.\<close>

definition bulkx_sem_free :: "bulkx_Bulkhead \<Rightarrow> bool" where
  "bulkx_sem_free b \<longleftrightarrow> kb_sem b < kc_maxConcurrent (kb_cfg b)"

definition bulkx_send :: "bulkx_Bulkhead \<Rightarrow> bulkx_Bulkhead" where
  "bulkx_send b = b\<lparr>kb_sem := kb_sem b + 1\<rparr>"

definition bulkx_releaseUncommittedSlot :: "bulkx_Bulkhead \<Rightarrow> bulkx_Bulkhead" where
  "bulkx_releaseUncommittedSlot b = b\<lparr>kb_sem := kb_sem b - 1\<rparr>"

definition bulkx_releaseSlot :: "bulkx_Bulkhead \<Rightarrow> bulkx_Bulkhead" where
  "bulkx_releaseSlot b = bulkx_releaseUncommittedSlot (bulkx_add_active (- 1) b)"

definition bulkx_Allow :: "bulkx_Bulkhead \<Rightarrow> bool" where
  "bulkx_Allow b = (if kb_closed b then False else kb_active b < kc_maxConcurrent (kb_cfg b))"

subsection \<open>Reservation by one caller\<close>

text \<open>
  What the caller meets: \<open>ctx.Err()\<close> at the top and after the reservation, and the ready case that the
  \<open>select\<close> of the slow path picks (with the context's error where it has one).
\<close>

datatype bulkx_sel = SelSem | SelCtx goerr | SelTimer goerror | SelClosedCh

definition bulkx_slotWait :: "int option \<Rightarrow> int \<Rightarrow> int" where
  "bulkx_slotWait remaining timeout =
     (case remaining of
        None \<Rightarrow> timeout
      | Some r \<Rightarrow> if r < timeout then if r < 0 then 0 else r else timeout)"

definition bulkx_commitSlot :: "bool \<Rightarrow> bulkx_Bulkhead \<Rightarrow> bulkx_Bulkhead \<times> (goerr + bool)" where
  "bulkx_commitSlot waited b =
     (if \<not> kb_closed b then (b, Inr waited)
      else (bulkx_reject (bulkx_releaseUncommittedSlot b), Inl bulkx_ErrClosed))"

definition bulkx_finishReserve :: "goerror \<Rightarrow> bool \<Rightarrow> bulkx_Bulkhead \<Rightarrow> bulkx_Bulkhead \<times> (goerr + bool)" where
  "bulkx_finishReserve e1 waited b =
     (case bulkx_commitSlot waited b of
        (b1, Inl err) \<Rightarrow> (b1, Inl err)
      | (b1, Inr _) \<Rightarrow>
          (case e1 of
             Some e \<Rightarrow> (bulkx_reject (bulkx_releaseUncommittedSlot b1), Inl (bulkx_errCancelled e))
           | None \<Rightarrow> (b1, Inr waited)))"

text \<open>\<open>None\<close>: the picked case is not ready, the caller stays blocked.\<close>

definition bulkx_reserveSlow :: "bulkx_sel \<Rightarrow> goerror \<Rightarrow> bulkx_Bulkhead \<Rightarrow> (bulkx_Bulkhead \<times> (goerr + bool)) option" where
  "bulkx_reserveSlow sel e1 b =
     (let b1 = bulkx_add_waiters 1 b; n = kb_waiters b1; unwait = map_prod (bulkx_add_waiters (- 1)) id
      in if 0 < kc_maxWaiters (kb_cfg b1) \<and> kc_maxWaiters (kb_cfg b1) < n
         then Some (unwait (bulkx_reject b1, Inl bulkx_ErrWaitersExceeded))
         else case sel of
                SelSem \<Rightarrow> if bulkx_sem_free b1 then Some (unwait (bulkx_finishReserve e1 True (bulkx_send b1))) else None
              | SelCtx e \<Rightarrow> Some (unwait (bulkx_reject b1, Inl (bulkx_errCancelled e)))
              | SelTimer (Some e) \<Rightarrow> Some (unwait (bulkx_reject b1, Inl (bulkx_errCancelled e)))
              | SelTimer None \<Rightarrow> Some (unwait (b1\<lparr>kb_timeouts := kb_timeouts b1 + 1\<rparr>, Inl bulkx_ErrTimeout))
              | SelClosedCh \<Rightarrow> if kb_closedCh b1 then Some (unwait (bulkx_reject b1, Inl bulkx_ErrClosed)) else None)"

definition bulkx_reserve ::
  "goerror \<Rightarrow> bulkx_sel \<Rightarrow> goerror \<Rightarrow> bulkx_Bulkhead \<Rightarrow> (bulkx_Bulkhead \<times> (goerr + bool)) option" where
  "bulkx_reserve e0 sel e1 b =
     (if kb_closed b then Some (b, Inl bulkx_ErrClosed)
      else case e0 of
        Some e \<Rightarrow> Some (bulkx_reject b, Inl (bulkx_errCancelled e))
      | None \<Rightarrow>
          if kb_waiters b = 0 \<and> bulkx_sem_free b
          then if 0 < kb_waiters (bulkx_send b)
               then bulkx_reserveSlow sel e1 (bulkx_releaseUncommittedSlot (bulkx_send b))
               else Some (bulkx_finishReserve e1 False (bulkx_send b))
          else bulkx_reserveSlow sel e1 b)"

text \<open>A token is its \<open>done\<close> flag.\<close>

definition bulkx_Acquire ::
  "goerror \<Rightarrow> bulkx_sel \<Rightarrow> goerror \<Rightarrow> bulkx_Bulkhead \<Rightarrow> (bulkx_Bulkhead \<times> (goerr + bool)) option" where
  "bulkx_Acquire e0 sel e1 b =
     map_option (\<lambda>(b1, r). case r of Inl e \<Rightarrow> (b1, Inl e) | Inr _ \<Rightarrow> (bulkx_add_active 1 b1, Inr False))
       (bulkx_reserve e0 sel e1 b)"

definition bulkx_Release :: "bool option \<Rightarrow> bulkx_Bulkhead \<Rightarrow> bulkx_Bulkhead \<times> bool option" where
  "bulkx_Release t b =
     (case t of
        None \<Rightarrow> (b, None)
      | Some d \<Rightarrow> if d then (b, Some True) else (bulkx_releaseSlot b, Some True))"

subsection \<open>Execution\<close>

record bulkx_execution =
  kx_active :: int
  kx_maxConcurrent :: int
  kx_waitedSlot :: bool

type_synonym 'a bulkx_Func = "bulkx_execution \<Rightarrow> bulkx_Bulkhead \<Rightarrow> bulkx_Bulkhead \<times> 'a outcome"

definition bulkx_run ::
  "'a \<Rightarrow> bool \<Rightarrow> string \<Rightarrow> 'a bulkx_Func \<Rightarrow> bulkx_Bulkhead \<Rightarrow> bulkx_Bulkhead \<times> 'a \<times> goerror" where
  "bulkx_run zero waited op fn b =
     (let b1 = bulkx_add_active 1 b;
          b2 = b1\<lparr>kb_executed := kb_executed b1 + 1\<rparr>
      in case fn \<lparr>kx_active = kb_active b1, kx_maxConcurrent = kc_maxConcurrent (kb_cfg b), kx_waitedSlot = waited\<rparr> b2 of
           (b3, out) \<Rightarrow> (bulkx_releaseSlot b3, panix_Safe zero op (Some out)))"

definition bulkx_Execute ::
  "goerror \<Rightarrow> bulkx_sel \<Rightarrow> goerror \<Rightarrow> 'a \<Rightarrow> 'a bulkx_Func option \<Rightarrow> bulkx_Bulkhead \<Rightarrow> (bulkx_Bulkhead \<times> 'a \<times> goerror) option" where
  "bulkx_Execute e0 sel e1 zero fn b =
     (if kb_closed b then Some (b, zero, Some bulkx_ErrClosed)
      else case fn of
        None \<Rightarrow> Some (b, zero, Some bulkx_ErrNilFunc)
      | Some f \<Rightarrow>
          map_option (\<lambda>(b1, r). case r of
              Inl e \<Rightarrow> (b1, zero, Some e)
            | Inr waited \<Rightarrow> bulkx_run zero waited (bulkx_opOrDefault (kb_cfg b)) f b1)
            (bulkx_reserve e0 sel e1 b))"

definition bulkx_TryExecute ::
  "goerror \<Rightarrow> goerror \<Rightarrow> 'a \<Rightarrow> 'a bulkx_Func option \<Rightarrow> bulkx_Bulkhead \<Rightarrow> bulkx_Bulkhead \<times> bool \<times> 'a \<times> goerror" where
  "bulkx_TryExecute e0 e1 zero fn b =
     (if kb_closed b then (b, False, zero, Some bulkx_ErrClosed)
      else case fn of
        None \<Rightarrow> (b, False, zero, Some bulkx_ErrNilFunc)
      | Some f \<Rightarrow>
          (case e0 of
             Some e \<Rightarrow> (b, False, zero, Some (bulkx_errCancelled e))
           | None \<Rightarrow>
               if 0 < kb_waiters b then (bulkx_reject b, False, zero, None)
               else if bulkx_sem_free b
               then if 0 < kb_waiters (bulkx_send b)
                    then (bulkx_reject (bulkx_releaseUncommittedSlot (bulkx_send b)), False, zero, None)
                    else (case bulkx_finishReserve e1 False (bulkx_send b) of
                            (b1, Inl e) \<Rightarrow> (b1, False, zero, Some e)
                          | (b1, Inr _) \<Rightarrow>
                              (case bulkx_run zero False (bulkx_opOrDefaultTry (kb_cfg b)) f b1 of
                                 (b2, val, err) \<Rightarrow> (b2, True, val, err)))
               else (bulkx_reject b, False, zero, None)))"

subsection \<open>Observation and lifecycle\<close>

definition bulkx_Active :: "bulkx_Bulkhead \<Rightarrow> int" where "bulkx_Active b = kb_active b"
definition bulkx_MaxConcurrent :: "bulkx_Bulkhead \<Rightarrow> int" where "bulkx_MaxConcurrent b = kc_maxConcurrent (kb_cfg b)"

definition bulkx_Load :: "bulkx_Bulkhead \<Rightarrow> f64" where
  "bulkx_Load b = f64_div (f64_of_int (kb_active b)) (f64_of_int (kc_maxConcurrent (kb_cfg b)))"

record bulkx_Stats =
  kt_MaxConcurrent :: int
  kt_Active :: int
  kt_Waiters :: int
  kt_Executed :: u64
  kt_Rejected :: u64
  kt_Timeouts :: u64

definition bulkx_BulkheadStats :: "bulkx_Bulkhead \<Rightarrow> bulkx_Stats" where
  "bulkx_BulkheadStats b =
     \<lparr>kt_MaxConcurrent = kc_maxConcurrent (kb_cfg b), kt_Active = kb_active b, kt_Waiters = kb_waiters b,
      kt_Executed = kb_executed b, kt_Rejected = kb_rejected b, kt_Timeouts = kb_timeouts b\<rparr>"

definition bulkx_ResetStats :: "bulkx_Bulkhead \<Rightarrow> bulkx_Bulkhead" where
  "bulkx_ResetStats b = b\<lparr>kb_executed := 0, kb_rejected := 0, kb_timeouts := 0\<rparr>"

definition bulkx_Close :: "bulkx_Bulkhead \<Rightarrow> bulkx_Bulkhead" where
  "bulkx_Close b = b\<lparr>kb_closed := True, kb_closedCh := True\<rparr>"

definition bulkx_IsClosed :: "bulkx_Bulkhead \<Rightarrow> bool" where "bulkx_IsClosed b = kb_closed b"

interpretation bulkx: closer bulkx_Close "\<lambda>b. kb_closed b \<and> kb_closedCh b"
  by unfold_locales (simp_all add: bulkx_Close_def)

section \<open>Slots\<close>

text \<open>What the reservation does to the slots: the occupancy grows by one exactly when it succeeds.\<close>

definition bulkx_occupancy :: "bulkx_Bulkhead \<Rightarrow> int \<times> int \<times> int" where
  "bulkx_occupancy b = (kb_sem b, kb_active b, kb_waiters b)"

lemma bulkx_finishReserve_slots:
  "bulkx_finishReserve e1 w b = (b1, r) \<Longrightarrow>
     bulkx_occupancy b1 = (kb_sem b - (case r of Inl _ \<Rightarrow> 1 | Inr _ \<Rightarrow> 0), kb_active b, kb_waiters b)
     \<and> kb_cfg b1 = kb_cfg b"
  by (auto simp: bulkx_finishReserve_def bulkx_commitSlot_def bulkx_reject_def bulkx_releaseUncommittedSlot_def
      bulkx_occupancy_def split: if_splits option.splits)

definition bulkx_waiters_ok :: "bulkx_Bulkhead \<Rightarrow> bool" where
  "bulkx_waiters_ok b \<longleftrightarrow> 0 \<le> kb_waiters b \<and> kb_waiters b < 2 ^ 62 \<and> 0 \<le> kb_active b \<and> kb_active b < 2 ^ 62"

lemma bulkx_reserveSlow_slots:
  assumes "bulkx_reserveSlow sel e1 b = Some (b1, r)" and "bulkx_waiters_ok b"
  shows "bulkx_occupancy b1 = (kb_sem b + (case r of Inl _ \<Rightarrow> 0 | Inr _ \<Rightarrow> 1), kb_active b, kb_waiters b)
    \<and> kb_cfg b1 = kb_cfg b"
proof -
  obtain b2 r2 where f: "bulkx_finishReserve e1 True (bulkx_send (bulkx_add_waiters 1 b)) = (b2, r2)" by (metis surj_pair)
  note d = bulkx_reserveSlow_def Let_def bulkx_add_waiters_def bulkx_send_def bulkx_reject_def bulkx_occupancy_def
    bulkx_waiters_ok_def
  show ?thesis
  proof (cases sel)
    case SelSem
    with bulkx_finishReserve_slots [OF f] assms f show ?thesis by (cases r2) (auto simp: d split: if_splits)
  next
    case (SelTimer e)
    with assms show ?thesis by (cases e) (auto simp: d split: if_splits)
  qed (use assms in \<open>auto simp: d split: if_splits\<close>)
qed

lemma bulkx_reserve_slots:
  assumes "bulkx_reserve e0 sel e1 b = Some (b1, r)" and "bulkx_waiters_ok b"
  shows "bulkx_occupancy b1 = (kb_sem b + (case r of Inl _ \<Rightarrow> 0 | Inr _ \<Rightarrow> 1), kb_active b, kb_waiters b)
    \<and> kb_cfg b1 = kb_cfg b"
proof -
  obtain b2 r2 where f: "bulkx_finishReserve e1 False (bulkx_send b) = (b2, r2)" by (metis surj_pair)
  have u: "bulkx_releaseUncommittedSlot (bulkx_send b) = b" by (simp add: bulkx_releaseUncommittedSlot_def bulkx_send_def)
  from bulkx_finishReserve_slots [OF f] assms f bulkx_reserveSlow_slots [of sel e1 b b1 r] show ?thesis
    by (auto simp: bulkx_reserve_def u bulkx_send_def bulkx_reject_def bulkx_occupancy_def
        split: if_splits option.splits sum.splits)
qed

lemma bulkx_run_slots:
  assumes "bulkx_waiters_ok b" and "\<forall>x b. bulkx_occupancy (fst (f x b)) = bulkx_occupancy b"
  shows "bulkx_occupancy (fst (bulkx_run zero w op f b)) = (kb_sem b - 1, kb_active b, kb_waiters b)"
proof -
  let ?b = "bulkx_add_active 1 b\<lparr>kb_executed := kb_executed (bulkx_add_active 1 b) + 1\<rparr>"
  obtain b3 out where f: "f \<lparr>kx_active = kb_active (bulkx_add_active 1 b), kx_maxConcurrent = kc_maxConcurrent (kb_cfg b),
      kx_waitedSlot = w\<rparr> ?b = (b3, out)" by (metis surj_pair)
  have "bulkx_occupancy b3 = bulkx_occupancy ?b" using assms(2) f by (metis fst_conv)
  with f assms(1) show ?thesis
    by (simp add: bulkx_run_def Let_def bulkx_releaseSlot_def bulkx_releaseUncommittedSlot_def bulkx_add_active_def
        bulkx_occupancy_def bulkx_waiters_ok_def)
qed

section \<open>Property\<close>

text \<open>
  No path leaks a slot. When a call to \<open>Execute\<close> or \<open>TryExecute\<close> is over, whatever ended it (closed,
  nil function, cancellation before, during or after the wait, timeout, too many waiters, the callback's result or its
  panic), the occupied slots, the active count and the waiter count are what they were before.
\<close>

theorem bulkx_no_leak:
  assumes "bulkx_waiters_ok b" and "\<forall>f x b. fn = Some f \<longrightarrow> bulkx_occupancy (fst (f x b)) = bulkx_occupancy b"
  shows "(bulkx_Execute e0 sel e1 zero fn b = Some r \<longrightarrow> bulkx_occupancy (fst r) = bulkx_occupancy b)
    \<and> bulkx_occupancy (fst (bulkx_TryExecute e0 e1 zero fn b)) = bulkx_occupancy b"
proof (cases fn)
  case None
  then show ?thesis by (auto simp: bulkx_Execute_def bulkx_TryExecute_def split: if_splits)
next
  case (Some f)
  with assms(2) have fo: "\<forall>x b. bulkx_occupancy (fst (f x b)) = bulkx_occupancy b" by simp
  have run: "bulkx_occupancy (fst (bulkx_run zero w op f b1)) = bulkx_occupancy b"
    if "bulkx_occupancy b1 = (kb_sem b + 1, kb_active b, kb_waiters b)" for w op b1
    using bulkx_run_slots [OF _ fo, of b1 zero w op] that assms(1)
    by (simp add: bulkx_occupancy_def bulkx_waiters_ok_def)
  have "bulkx_occupancy (fst r) = bulkx_occupancy b" if e: "bulkx_Execute e0 sel e1 zero fn b = Some r"
  proof (cases "kb_closed b")
    case True
    with e show ?thesis by (auto simp: bulkx_Execute_def)
  next
    case False
    with e Some obtain b1 x where rs: "bulkx_reserve e0 sel e1 b = Some (b1, x)"
      and r: "r = (case x of Inl e \<Rightarrow> (b1, zero, Some e) | Inr w \<Rightarrow> bulkx_run zero w (bulkx_opOrDefault (kb_cfg b)) f b1)"
      by (auto simp: bulkx_Execute_def)
    from bulkx_reserve_slots [OF rs assms(1)] run r show ?thesis
      by (cases x) (simp_all add: bulkx_occupancy_def)
  qed
  moreover have "bulkx_occupancy (fst (bulkx_TryExecute e0 e1 zero fn b)) = bulkx_occupancy b"
  proof -
    obtain b2 x where f: "bulkx_finishReserve e1 False (bulkx_send b) = (b2, x)" by (metis surj_pair)
    obtain b3 v er where r: "bulkx_run zero False (bulkx_opOrDefaultTry (kb_cfg b2)) f b2 = (b3, v, er)" by (metis prod_cases3)
    have "bulkx_occupancy b3 = bulkx_occupancy b" if "x = Inr w" for w
      using run [of b2 False "bulkx_opOrDefaultTry (kb_cfg b2)"] r bulkx_finishReserve_slots [OF f] that
      by (simp add: bulkx_send_def)
    with bulkx_finishReserve_slots [OF f] f r Some show ?thesis
      by (auto simp: bulkx_TryExecute_def bulkx_reject_def bulkx_releaseUncommittedSlot_def bulkx_send_def bulkx_occupancy_def
          split: if_splits option.splits sum.splits)
  qed
  ultimately show ?thesis by simp
qed

lemma bulkx_no_leak_witness:
  "bulkx_occupancy (fst (bulkx_TryExecute None None (0 :: int) (Some (\<lambda>x b. (b, Panics (PvOther 1)))) (bulkx_New []))) = (0, 0, 0)"
proof -
  have "bulkx_waiters_ok (bulkx_New [])" "bulkx_occupancy (bulkx_New []) = (0, 0, 0)"
    by (simp_all add: bulkx_waiters_ok_def bulkx_New_def bulkx_occupancy_def)
  with bulkx_no_leak [of "bulkx_New []" "Some (\<lambda>x b. (b, Panics (PvOther 1)))" None SelSem None "0 :: int" undefined]
  show ?thesis by simp
qed

end
