(* ===== verification/Bulkx_Conc.thy ===== *)
theory Bulkx_Conc
  imports Bulkx
begin

text \<open>
  Package \<open>bulkx\<close>, part two: any number of goroutines in \<open>Acquire\<close>, \<open>Execute\<close> and \<open>TryExecute\<close>, one atomic
  access or channel operation at a time. A goroutine is its program counter. What a step reads from outside (the
  context, the ready case a \<open>select\<close> picks) is its \<open>choice\<close>; a \<open>select\<close> whose picked case is not ready stays
  where it is. A counter of the statistics is bumped together with the access before it.
\<close>

subsection \<open>Program counters\<close>

datatype bulkx_kind = KAcquire | KExecute | KTry

datatype bulkx_pc =
    BStart bulkx_kind
  | BCtx bulkx_kind
  | BWaiters bulkx_kind
  | BSend bulkx_kind
  | BRecheck bulkx_kind
  | BBack bulkx_kind
  | BSlow bulkx_kind
  | BCap bulkx_kind int
  | BSelect bulkx_kind
  | BCommit bulkx_kind bool
  | BCtx2 bulkx_kind bool
  | BDrop bulkx_kind bool
  | BUnwait bulkx_kind bool
  | BActive bulkx_kind
  | BRun bulkx_kind
  | BFree
  | BEnd

record bulkx_choice =
  bc_ctx :: goerror
  bc_sel :: bulkx_sel

fun bulkx_micro :: "bulkx_choice \<Rightarrow> bulkx_Bulkhead \<Rightarrow> bulkx_pc \<Rightarrow> bulkx_Bulkhead \<times> bulkx_pc" where
  "bulkx_micro ch b (BStart k) = (b, if kb_closed b then BEnd else BCtx k)"
| "bulkx_micro ch b (BCtx k) =
     (case bc_ctx ch of
        Some e \<Rightarrow> (if k = KTry then b else bulkx_reject b, BEnd)
      | None \<Rightarrow> (b, BWaiters k))"
| "bulkx_micro ch b (BWaiters k) =
     (if k = KTry then (if 0 < kb_waiters b then (bulkx_reject b, BEnd) else (b, BSend k))
      else (b, if kb_waiters b = 0 then BSend k else BSlow k))"
| "bulkx_micro ch b (BSend k) =
     (if bulkx_sem_free b then (bulkx_send b, BRecheck k)
      else if k = KTry then (bulkx_reject b, BEnd) else (b, BSlow k))"
| "bulkx_micro ch b (BRecheck k) = (b, if 0 < kb_waiters b then BBack k else BCommit k False)"
| "bulkx_micro ch b (BBack k) =
     (let b1 = bulkx_releaseUncommittedSlot b in if k = KTry then (bulkx_reject b1, BEnd) else (b1, BSlow k))"
| "bulkx_micro ch b (BSlow k) = (let b1 = bulkx_add_waiters 1 b in (b1, BCap k (kb_waiters b1)))"
| "bulkx_micro ch b (BCap k n) =
     (if 0 < kc_maxWaiters (kb_cfg b) \<and> kc_maxWaiters (kb_cfg b) < n then (bulkx_reject b, BUnwait k False)
      else (b, BSelect k))"
| "bulkx_micro ch b (BSelect k) =
     (case bc_sel ch of
        SelSem \<Rightarrow> if bulkx_sem_free b then (bulkx_send b, BCommit k True) else (b, BSelect k)
      | SelCtx e \<Rightarrow> (bulkx_reject b, BUnwait k False)
      | SelTimer (Some e) \<Rightarrow> (bulkx_reject b, BUnwait k False)
      | SelTimer None \<Rightarrow> (b\<lparr>kb_timeouts := kb_timeouts b + 1\<rparr>, BUnwait k False)
      | SelClosedCh \<Rightarrow> if kb_closedCh b then (bulkx_reject b, BUnwait k False) else (b, BSelect k))"
| "bulkx_micro ch b (BCommit k w) = (b, if kb_closed b then BDrop k w else BCtx2 k w)"
| "bulkx_micro ch b (BCtx2 k w) =
     (b, if bc_ctx ch \<noteq> None then BDrop k w else if w then BUnwait k True else BActive k)"
| "bulkx_micro ch b (BDrop k w) =
     (bulkx_reject (bulkx_releaseUncommittedSlot b), if w then BUnwait k False else BEnd)"
| "bulkx_micro ch b (BUnwait k ok) = (bulkx_add_waiters (- 1) b, if ok then BActive k else BEnd)"
| "bulkx_micro ch b (BActive k) =
     (let b1 = bulkx_add_active 1 b
      in (if k = KAcquire then b1 else b1\<lparr>kb_executed := kb_executed b1 + 1\<rparr>, BRun k))"
| "bulkx_micro ch b (BRun k) = (bulkx_add_active (- 1) b, BFree)"
| "bulkx_micro ch b BFree = (bulkx_releaseUncommittedSlot b, BEnd)"
| "bulkx_micro ch b BEnd = (b, BEnd)"

subsection \<open>Goroutines\<close>

type_synonym bulkx_sys = "bulkx_Bulkhead \<times> bulkx_pc list"

inductive bulkx_step :: "bulkx_sys \<Rightarrow> bulkx_sys \<Rightarrow> bool" where
  run: "i < length ts \<Longrightarrow> bulkx_micro ch b (ts ! i) = (b', pc) \<Longrightarrow> bulkx_step (b, ts) (b', ts[i := pc])"
| call: "bulkx_step (b, ts) (b, ts @ [BStart k])"
| close_flag: "bulkx_step (b, ts) (b\<lparr>kb_closed := True\<rparr>, ts)"
| close_chan: "kb_closed b \<Longrightarrow> bulkx_step (b, ts) (b\<lparr>kb_closedCh := True\<rparr>, ts)"
| reset_stats: "bulkx_step (b, ts) (bulkx_ResetStats b, ts)"

inductive_cases bulkx_stepE: "bulkx_step (b, ts) (b', ts')"

inductive bulkx_steps :: "bulkx_sys \<Rightarrow> bulkx_sys \<Rightarrow> bool" where
  refl: "bulkx_steps x x"
| step: "bulkx_steps x y \<Longrightarrow> bulkx_step y z \<Longrightarrow> bulkx_steps x z"

text \<open>Who holds a slot of the semaphore, who is active, who is a waiter, and who waits for a slot.\<close>

fun bulkx_holds :: "bulkx_pc \<Rightarrow> bool" where
  "bulkx_holds (BRecheck k) = True"
| "bulkx_holds (BBack k) = True"
| "bulkx_holds (BCommit k w) = True"
| "bulkx_holds (BCtx2 k w) = True"
| "bulkx_holds (BDrop k w) = True"
| "bulkx_holds (BUnwait k ok) = ok"
| "bulkx_holds (BActive k) = True"
| "bulkx_holds (BRun k) = True"
| "bulkx_holds BFree = True"
| "bulkx_holds pc = False"

fun bulkx_running :: "bulkx_pc \<Rightarrow> bool" where
  "bulkx_running (BRun k) = True"
| "bulkx_running pc = False"

fun bulkx_waiting :: "bulkx_pc \<Rightarrow> bool" where
  "bulkx_waiting (BCap k n) = True"
| "bulkx_waiting (BSelect k) = True"
| "bulkx_waiting (BCommit k w) = w"
| "bulkx_waiting (BCtx2 k w) = w"
| "bulkx_waiting (BDrop k w) = w"
| "bulkx_waiting (BUnwait k ok) = True"
| "bulkx_waiting pc = False"

fun bulkx_queued :: "bulkx_config \<Rightarrow> bulkx_pc \<Rightarrow> bool" where
  "bulkx_queued c (BCap k n) = (n \<le> kc_maxWaiters c)"
| "bulkx_queued c (BSelect k) = True"
| "bulkx_queued c pc = False"

fun bulkx_admitted :: "bulkx_pc \<Rightarrow> bool" where
  "bulkx_admitted (BCtx2 k w) = True"
| "bulkx_admitted (BUnwait k ok) = ok"
| "bulkx_admitted (BActive k) = True"
| "bulkx_admitted (BRun k) = True"
| "bulkx_admitted pc = False"

definition bulkx_number :: "(bulkx_pc \<Rightarrow> bool) \<Rightarrow> bulkx_pc list \<Rightarrow> int" where
  "bulkx_number P ts = int (length (filter P ts))"

lemma bulkx_number_update:
  "i < length ts \<Longrightarrow> bulkx_number P (ts[i := pc]) = bulkx_number P ts - of_bool (P (ts ! i)) + of_bool (P pc)"
  by (simp add: bulkx_number_def length_filter_update)

lemma bulkx_number_bounds: "0 \<le> bulkx_number P ts" "bulkx_number P ts \<le> int (length ts)"
  by (simp_all add: bulkx_number_def)

lemma bulkx_number_mono: "(\<And>pc. P pc \<Longrightarrow> Q pc) \<Longrightarrow> bulkx_number P ts \<le> bulkx_number Q ts"
  unfolding bulkx_number_def of_nat_le_iff by (rule length_filter_mono)

lemma bulkx_number_append [simp]: "bulkx_number P (ts @ [pc]) = bulkx_number P ts + of_bool (P pc)"
  by (simp add: bulkx_number_def)

lemma bulkx_number_pos: "i < length ts \<Longrightarrow> P (ts ! i) \<Longrightarrow> 1 \<le> bulkx_number P ts"
proof -
  assume a: "i < length ts" "P (ts ! i)"
  then have "ts ! i \<in> set (filter P ts)" by simp
  then have "filter P ts \<noteq> []" by (metis empty_iff list.set(1))
  then show ?thesis by (simp add: bulkx_number_def Suc_le_eq)
qed

subsection \<open>One step\<close>

text \<open>Every step changes the counters as it changes the roles of its goroutine.\<close>

lemma bulkx_micro_counts:
  assumes "bulkx_micro ch b pc = (b', pc')"
  shows "kb_cfg b' = kb_cfg b"
    and "kb_sem b' = kb_sem b - of_bool (bulkx_holds pc) + of_bool (bulkx_holds pc')"
    and "kb_sem b \<le> kc_maxConcurrent (kb_cfg b) \<Longrightarrow> kb_sem b' \<le> kc_maxConcurrent (kb_cfg b)"
    and "kb_closed b' = kb_closed b"
    and "kb_closed b \<Longrightarrow> bulkx_admitted pc' \<Longrightarrow> bulkx_admitted pc"
proof -
  note d = bulkx_reject_def bulkx_send_def bulkx_releaseUncommittedSlot_def bulkx_add_waiters_def bulkx_add_active_def
    bulkx_sem_free_def Let_def
  show "kb_cfg b' = kb_cfg b"
    using assms by (cases pc) (auto simp: d split: option.splits if_splits bulkx_sel.splits)
  show "kb_sem b' = kb_sem b - of_bool (bulkx_holds pc) + of_bool (bulkx_holds pc')"
    using assms by (cases pc) (auto simp: d split: option.splits if_splits bulkx_sel.splits)
  show "kb_sem b \<le> kc_maxConcurrent (kb_cfg b) \<Longrightarrow> kb_sem b' \<le> kc_maxConcurrent (kb_cfg b)"
    using assms by (cases pc) (auto simp: d split: option.splits if_splits bulkx_sel.splits)
  show "kb_closed b' = kb_closed b"
    using assms by (cases pc) (auto simp: d split: option.splits if_splits bulkx_sel.splits)
  show "kb_closed b \<Longrightarrow> bulkx_admitted pc' \<Longrightarrow> bulkx_admitted pc"
    using assms by (cases pc) (auto simp: d split: option.splits if_splits bulkx_sel.splits)
qed

lemma bulkx_micro_atomics:
  assumes "bulkx_micro ch b pc = (b', pc')"
    and "0 \<le> kb_active b" and "kb_active b < 2 ^ 62" and "0 \<le> kb_waiters b" and "kb_waiters b < 2 ^ 62"
  shows "kb_active b' = kb_active b - of_bool (bulkx_running pc) + of_bool (bulkx_running pc')"
    and "kb_waiters b' = kb_waiters b - of_bool (bulkx_waiting pc) + of_bool (bulkx_waiting pc')"
    and "bulkx_queued (kb_cfg b) pc' \<Longrightarrow> bulkx_queued (kb_cfg b) pc \<or> kc_maxWaiters (kb_cfg b) \<le> 0
           \<or> \<not> bulkx_waiting pc \<and> kb_waiters b + 1 \<le> kc_maxWaiters (kb_cfg b)"
proof -
  note d = bulkx_reject_def bulkx_send_def bulkx_releaseUncommittedSlot_def bulkx_add_waiters_def bulkx_add_active_def
    bulkx_sem_free_def Let_def
  show "kb_active b' = kb_active b - of_bool (bulkx_running pc) + of_bool (bulkx_running pc')"
    using assms by (cases pc) (auto simp: d split: option.splits if_splits bulkx_sel.splits)
  show "kb_waiters b' = kb_waiters b - of_bool (bulkx_waiting pc) + of_bool (bulkx_waiting pc')"
    using assms by (cases pc) (auto simp: d split: option.splits if_splits bulkx_sel.splits)
  show "bulkx_queued (kb_cfg b) pc' \<Longrightarrow> bulkx_queued (kb_cfg b) pc \<or> kc_maxWaiters (kb_cfg b) \<le> 0
           \<or> \<not> bulkx_waiting pc \<and> kb_waiters b + 1 \<le> kc_maxWaiters (kb_cfg b)"
    using assms by (cases pc) (auto simp: d split: option.splits if_splits bulkx_sel.splits)
qed

subsection \<open>The invariant\<close>

definition bulkx_inv :: "bulkx_sys \<Rightarrow> bool" where
  "bulkx_inv x \<longleftrightarrow>
     (case x of (b, ts) \<Rightarrow>
        1 \<le> kc_maxConcurrent (kb_cfg b) \<and> kb_sem b = bulkx_number bulkx_holds ts
        \<and> kb_sem b \<le> kc_maxConcurrent (kb_cfg b)
        \<and> (int (length ts) < 2 ^ 62 \<longrightarrow>
             kb_active b = bulkx_number bulkx_running ts \<and> kb_waiters b = bulkx_number bulkx_waiting ts
             \<and> (0 < kc_maxWaiters (kb_cfg b) \<longrightarrow>
                  bulkx_number (bulkx_queued (kb_cfg b)) ts \<le> kc_maxWaiters (kb_cfg b))))"

lemma bulkx_queued_waiting: "bulkx_queued c pc \<Longrightarrow> bulkx_waiting pc"
  by (cases pc) auto

lemma bulkx_run_inv:
  assumes "bulkx_inv (b, ts)" and "i < length ts" and "bulkx_micro ch b (ts ! i) = (b', pc)"
  shows "bulkx_inv (b', ts[i := pc])"
proof -
  note m = bulkx_micro_counts [OF assms(3)]
  have i: "kb_sem b = bulkx_number bulkx_holds ts" "kb_sem b \<le> kc_maxConcurrent (kb_cfg b)" "1 \<le> kc_maxConcurrent (kb_cfg b)"
    using assms(1) by (simp_all add: bulkx_inv_def)
  have "kb_active b' = bulkx_number bulkx_running (ts[i := pc]) \<and> kb_waiters b' = bulkx_number bulkx_waiting (ts[i := pc])
      \<and> (0 < kc_maxWaiters (kb_cfg b) \<longrightarrow>
           bulkx_number (bulkx_queued (kb_cfg b)) (ts[i := pc]) \<le> kc_maxWaiters (kb_cfg b))"
    if l: "int (length ts) < 2 ^ 62"
  proof -
    have c: "kb_active b = bulkx_number bulkx_running ts" "kb_waiters b = bulkx_number bulkx_waiting ts"
      "0 < kc_maxWaiters (kb_cfg b) \<Longrightarrow> bulkx_number (bulkx_queued (kb_cfg b)) ts \<le> kc_maxWaiters (kb_cfg b)"
      using assms(1) l by (simp_all add: bulkx_inv_def)
    have "0 \<le> kb_active b" "kb_active b < 2 ^ 62" "0 \<le> kb_waiters b" "kb_waiters b < 2 ^ 62"
      using c l bulkx_number_bounds [of bulkx_running ts] bulkx_number_bounds [of bulkx_waiting ts] by simp_all
    note a = bulkx_micro_atomics [OF assms(3) this]
    have q: "bulkx_number (bulkx_queued (kb_cfg b)) ts \<le> bulkx_number bulkx_waiting ts"
      by (rule bulkx_number_mono) (rule bulkx_queued_waiting)
    have "bulkx_number (bulkx_queued (kb_cfg b)) (ts[i := pc]) \<le> kc_maxWaiters (kb_cfg b)" if w: "0 < kc_maxWaiters (kb_cfg b)"
      using a(3) c(2) c(3) [OF w] q w assms(2) by (auto simp: bulkx_number_update)
    with a(1,2) c(1,2) assms(2) show ?thesis by (simp add: bulkx_number_update)
  qed
  with i m assms(2) show ?thesis by (simp add: bulkx_inv_def bulkx_number_update)
qed

lemma bulkx_step_inv: "bulkx_step (b, ts) (b', ts') \<Longrightarrow> bulkx_inv (b, ts) \<Longrightarrow> bulkx_inv (b', ts')"
proof (elim bulkx_stepE)
  fix i ch pc
  assume "bulkx_inv (b, ts)" "ts' = ts[i := pc]" "i < length ts" "bulkx_micro ch b (ts ! i) = (b', pc)"
  then show ?thesis by (simp add: bulkx_run_inv)
qed (auto simp: bulkx_inv_def bulkx_ResetStats_def)

lemma bulkx_steps_inv: "bulkx_steps x y \<Longrightarrow> bulkx_inv x \<Longrightarrow> bulkx_inv y"
proof (induction rule: bulkx_steps.induct)
  case (step x y z)
  then show ?case by (cases y; cases z) (simp add: bulkx_step_inv)
qed

lemma bulkx_inv_New: "bulkx_inv (bulkx_New opts, [])"
  by (simp add: bulkx_inv_def bulkx_New_def bulkx_newConfig_def Let_def bulkx_minConcurrent_def bulkx_number_def)

lemma bulkx_steps_cfg: "bulkx_steps x y \<Longrightarrow> kb_cfg (fst y) = kb_cfg (fst x)"
proof (induction rule: bulkx_steps.induct)
  case (step x y z)
  from step.hyps(2) have "kb_cfg (fst z) = kb_cfg (fst y)"
    by (cases rule: bulkx_step.cases) (auto simp: bulkx_micro_counts(1) bulkx_ResetStats_def)
  with step.IH show ?case by simp
qed simp

lemma bulkx_step_closed:
  assumes "bulkx_step (b, ts) (b', ts')" and "kb_closed b"
  shows "kb_closed b' \<and> bulkx_number bulkx_admitted ts' \<le> bulkx_number bulkx_admitted ts"
  using assms
proof (elim bulkx_stepE)
  fix i ch pc
  assume r: "ts' = ts[i := pc]" "i < length ts" "bulkx_micro ch b (ts ! i) = (b', pc)"
  from bulkx_micro_counts(4,5) [OF r(3)] assms(2) r(1,2) show ?thesis
    by (auto simp: bulkx_number_update)
qed (auto simp: bulkx_ResetStats_def)

lemma bulkx_steps_closed:
  "bulkx_steps x y \<Longrightarrow> kb_closed (fst x) \<Longrightarrow>
     kb_closed (fst y) \<and> bulkx_number bulkx_admitted (snd y) \<le> bulkx_number bulkx_admitted (snd x)"
proof (induction rule: bulkx_steps.induct)
  case (step x y z)
  from step.hyps(2) step.IH [OF step.prems] bulkx_step_closed [of "fst y" "snd y" "fst z" "snd z"]
  show ?case by simp
qed simp

section \<open>Properties\<close>

text \<open>
  C10: the bulkhead bounds concurrency under every interleaving. However the accesses of any number of
  goroutines (fewer than \<open>2 ^ 62\<close>), the two halves of \<open>Close\<close> and \<open>ResetStats\<close> interleave, the active count is exactly
  the number of running operations, it never exceeds the occupied slots, and those never exceed
  \<open>WithMaxConcurrent\<close>; the waiter count is exactly the number of callers on the slow path, and with \<open>WithMaxWaiters\<close> at
  most that many are waiting for a slot.
\<close>

theorem bulkx_concurrency_bound:
  assumes "bulkx_steps (bulkx_New opts, []) (b, ts)" and "int (length ts) < 2 ^ 62"
  shows "kb_active b = bulkx_number bulkx_running ts
    \<and> kb_active b \<le> kb_sem b \<and> kb_sem b \<le> kc_maxConcurrent (bulkx_newConfig opts)
    \<and> kb_waiters b = bulkx_number bulkx_waiting ts
    \<and> (0 < kc_maxWaiters (bulkx_newConfig opts) \<longrightarrow>
         bulkx_number (\<lambda>pc. \<exists>k. pc = BSelect k) ts \<le> kc_maxWaiters (bulkx_newConfig opts))"
proof -
  have i: "bulkx_inv (b, ts)" by (rule bulkx_steps_inv [OF assms(1) bulkx_inv_New])
  have c: "kb_cfg b = bulkx_newConfig opts" using bulkx_steps_cfg [OF assms(1)] by (simp add: bulkx_New_def)
  have "bulkx_running pc \<Longrightarrow> bulkx_holds pc" for pc by (cases pc) auto
  then have "bulkx_number bulkx_running ts \<le> bulkx_number bulkx_holds ts" by (rule bulkx_number_mono)
  moreover have "bulkx_number (\<lambda>pc. \<exists>k. pc = BSelect k) ts \<le> bulkx_number (bulkx_queued (kb_cfg b)) ts"
    by (rule bulkx_number_mono) auto
  ultimately show ?thesis using i assms(2) unfolding c [symmetric] by (auto simp: bulkx_inv_def)
qed

text \<open>
  Nobody is admitted after \<open>Close\<close>. From the moment the closed flag is set, in whatever state the goroutines are,
  the number of callers that have passed the closed check of \<open>commitSlot\<close> and are on their way to or inside
  their operation never grows again.
\<close>

theorem bulkx_no_admission_after_close:
  assumes "bulkx_steps (b\<lparr>kb_closed := True\<rparr>, ts) (b', ts')"
  shows "bulkx_number bulkx_admitted ts' \<le> bulkx_number bulkx_admitted ts"
  using bulkx_steps_closed [OF assms] by simp

text \<open>A goroutine that took its slot just before the close is turned away.\<close>

lemma bulkx_witness_step:
  "bulkx_steps x (b, [pc]) \<Longrightarrow> bulkx_micro \<lparr>bc_ctx = None, bc_sel = SelSem\<rparr> b pc = (b', pc') \<Longrightarrow> bulkx_steps x (b', [pc'])"
  using bulkx_steps.step bulkx_step.run [of 0 "[pc]" "\<lparr>bc_ctx = None, bc_sel = SelSem\<rparr>" b b' pc'] by simp

lemma bulkx_concurrency_bound_witness:
  "\<exists>b. bulkx_steps (bulkx_New [], []) (b, [BRecheck KTry]) \<and> kb_active b = 0 \<and> kb_active b \<le> kb_sem b \<and> kb_sem b \<le> 10"
proof -
  have "bulkx_steps (bulkx_New [], []) (bulkx_New [], [BStart KTry])"
    using bulkx_steps.step [OF bulkx_steps.refl bulkx_step.call, of "bulkx_New []" "[]" KTry] by simp
  then have "bulkx_steps (bulkx_New [], []) (bulkx_New [], [BCtx KTry])"
    by (rule bulkx_witness_step) (simp add: bulkx_New_def)
  then have "bulkx_steps (bulkx_New [], []) (bulkx_New [], [BWaiters KTry])"
    by (rule bulkx_witness_step) (simp add: bulkx_New_def)
  then have "bulkx_steps (bulkx_New [], []) (bulkx_New [], [BSend KTry])"
    by (rule bulkx_witness_step) (simp add: bulkx_New_def)
  then have s: "bulkx_steps (bulkx_New [], []) (bulkx_send (bulkx_New []), [BRecheck KTry])"
    by (rule bulkx_witness_step)
      (simp add: bulkx_New_def bulkx_sem_free_def bulkx_newConfig_def bulkx_DefaultMaxConcurrent_def bulkx_minConcurrent_def Let_def)
  have "kc_maxConcurrent (bulkx_newConfig []) = 10"
    by (simp add: bulkx_newConfig_def bulkx_DefaultMaxConcurrent_def bulkx_minConcurrent_def Let_def)
  with bulkx_concurrency_bound [OF s] s show ?thesis
    by (intro exI [of _ "bulkx_send (bulkx_New [])"]) (simp add: bulkx_number_def)
qed

lemma bulkx_no_admission_after_close_witness:
  "bulkx_steps (bulkx_New []\<lparr>kb_closed := True\<rparr>, [BCommit KExecute True]) (bulkx_New []\<lparr>kb_closed := True\<rparr>, [BDrop KExecute True])
   \<and> bulkx_number bulkx_admitted [BDrop KExecute True] \<le> bulkx_number bulkx_admitted [BCommit KExecute True]"
proof -
  have s: "bulkx_steps (bulkx_New []\<lparr>kb_closed := True\<rparr>, [BCommit KExecute True]) (bulkx_New []\<lparr>kb_closed := True\<rparr>, [BDrop KExecute True])"
    by (rule bulkx_witness_step [OF bulkx_steps.refl]) simp
  from s bulkx_no_admission_after_close [OF s] show ?thesis by blast
qed

end
