(* ===== verification/Quotax.thy ===== *)
theory Quotax
  imports Ratex "HOL-Library.AList"
begin

text \<open>
  Package \<open>quotax\<close>: one token bucket of \<open>ratex\<close> for each key, in shards. A shard's Go map is an association
  list with distinct keys. Each operation that holds a shard lock or touches one bucket is one step; the wait of
  \<open>WaitN\<close> and \<open>Execute\<close> is a list of rounds, in each of which other goroutines may change the quota. The hash is
  the parameter \<open>h\<close>; \<open>maphash\<close> promises only that it is a function of the key.
\<close>

subsection \<open>Errors and configuration\<close>

definition quotax_ErrLimited :: goerr where "quotax_ErrLimited = Sentinel ''quotax: rate limit exceeded''"
definition quotax_ErrMaxKeys :: goerr where "quotax_ErrMaxKeys = Sentinel ''quotax: maximum tracked keys reached''"
definition quotax_ErrCancelled :: goerr where "quotax_ErrCancelled = Sentinel ''quotax: wait cancelled''"
definition quotax_ErrClosed :: goerr where "quotax_ErrClosed = Sentinel ''quotax: limiter is closed''"
definition quotax_ErrNilFunc :: goerr where "quotax_ErrNilFunc = Sentinel ''quotax: nil function''"

definition quotax_errLimited :: "string \<Rightarrow> goerr" where
  "quotax_errLimited key = Errorf (''%w (key='' @ key @ '')'') [quotax_ErrLimited]"

definition quotax_errMaxKeys :: "string \<Rightarrow> goerr" where
  "quotax_errMaxKeys key = Errorf (''%w (key='' @ key @ '')'') [quotax_ErrMaxKeys]"

definition quotax_errCancelled :: "goerr \<Rightarrow> goerr" where
  "quotax_errCancelled cause = Errorf ''%w: %w'' [quotax_ErrCancelled, cause]"

definition quotax_DefaultRate :: f64 where "quotax_DefaultRate = 10"
definition quotax_DefaultBurst :: int where "quotax_DefaultBurst = 20"
definition quotax_DefaultShards :: int where "quotax_DefaultShards = 64"
definition quotax_DefaultEvictionTTL :: int where "quotax_DefaultEvictionTTL = 15 * 60 * 10 ^ 9"
definition quotax_DefaultEvictionInterval :: int where "quotax_DefaultEvictionInterval = 60 * 10 ^ 9"
definition quotax_unlimitedKeys :: int where "quotax_unlimitedKeys = 0"
definition quotax_minBurst :: int where "quotax_minBurst = 1"
definition quotax_minWaitDelay :: int where "quotax_minWaitDelay = 10 ^ 6"
definition quotax_nanosPerSecond :: f64 where "quotax_nanosPerSecond = 10 ^ 9"
definition quotax_opExecute :: string where "quotax_opExecute = ''quotax.Execute''"
definition quotax_opTryExecute :: string where "quotax_opTryExecute = ''quotax.TryExecute''"
definition quotax_opOnMaxKeys :: string where "quotax_opOnMaxKeys = ''quotax.OnMaxKeys''"

record quotax_config =
  qc_rate :: f64
  qc_burst :: int
  qc_shards :: int
  qc_maxKeys :: int
  qc_evictionTTL :: int
  qc_evictionInterval :: int
  qc_onMaxKeys :: "(string \<Rightarrow> unit outcome) option"

definition quotax_newConfig :: "(quotax_config \<Rightarrow> quotax_config) option list \<Rightarrow> quotax_config" where
  "quotax_newConfig opts =
     (let c0 = apply_opts opts
        \<lparr>qc_rate = quotax_DefaultRate, qc_burst = quotax_DefaultBurst, qc_shards = quotax_DefaultShards,
         qc_maxKeys = quotax_unlimitedKeys, qc_evictionTTL = quotax_DefaultEvictionTTL,
         qc_evictionInterval = quotax_DefaultEvictionInterval, qc_onMaxKeys = None\<rparr>;
        c1 = (if qc_rate c0 \<le> 0 then c0\<lparr>qc_rate := quotax_DefaultRate\<rparr> else c0)
      in if qc_burst c1 < quotax_minBurst then c1\<lparr>qc_burst := quotax_minBurst\<rparr> else c1)"

definition quotax_WithRate :: "f64 \<Rightarrow> quotax_config \<Rightarrow> quotax_config" where
  "quotax_WithRate r c = (if 0 < r then c\<lparr>qc_rate := r\<rparr> else c)"

definition quotax_WithBurst :: "int \<Rightarrow> quotax_config \<Rightarrow> quotax_config" where
  "quotax_WithBurst n c = c\<lparr>qc_burst := n\<rparr>"

definition quotax_WithShards :: "int \<Rightarrow> quotax_config \<Rightarrow> quotax_config" where
  "quotax_WithShards n c = (if 0 < n then c\<lparr>qc_shards := n\<rparr> else c)"

definition quotax_WithMaxKeys :: "int \<Rightarrow> quotax_config \<Rightarrow> quotax_config" where
  "quotax_WithMaxKeys n c = (if 0 \<le> n then c\<lparr>qc_maxKeys := n\<rparr> else c)"

definition quotax_WithEvictionTTL :: "int \<Rightarrow> quotax_config \<Rightarrow> quotax_config" where
  "quotax_WithEvictionTTL d c = (if 0 < d then c\<lparr>qc_evictionTTL := d\<rparr> else c)"

definition quotax_WithEvictionInterval :: "int \<Rightarrow> quotax_config \<Rightarrow> quotax_config" where
  "quotax_WithEvictionInterval d c = (if 0 < d then c\<lparr>qc_evictionInterval := d\<rparr> else c)"

definition quotax_WithOnMaxKeys :: "(string \<Rightarrow> unit outcome) option \<Rightarrow> quotax_config \<Rightarrow> quotax_config" where
  "quotax_WithOnMaxKeys fn c = c\<lparr>qc_onMaxKeys := fn\<rparr>"

subsection \<open>State\<close>

record quotax_bucket =
  bk_limiter :: ratex_Limiter
  bk_lastAccess :: int
  bk_pins :: int

definition quotax_touch :: "int \<Rightarrow> quotax_bucket \<Rightarrow> quotax_bucket" where
  "quotax_touch now b = b\<lparr>bk_lastAccess := now\<rparr>"

definition quotax_pin :: "quotax_bucket \<Rightarrow> quotax_bucket" where
  "quotax_pin b = b\<lparr>bk_pins := wrap_i32 (bk_pins b + 1)\<rparr>"

definition quotax_unpin :: "quotax_bucket \<Rightarrow> quotax_bucket" where
  "quotax_unpin b = b\<lparr>bk_pins := wrap_i32 (bk_pins b - 1)\<rparr>"

text \<open>The list \<open>qq_hooks\<close> is a ghost: the keys the \<open>OnMaxKeys\<close> hook was called with.\<close>

record quotax_Quota =
  qq_cfg :: quotax_config
  qq_shards :: "(string \<times> quotax_bucket) list list"
  qq_keyCount :: int
  qq_allowed :: int
  qq_limited :: int
  qq_closed :: bool
  qq_hooks :: "string list"

definition quotax_New :: "(quotax_config \<Rightarrow> quotax_config) option list \<Rightarrow> quotax_Quota" where
  "quotax_New opts =
     (let cfg = quotax_newConfig opts
      in \<lparr>qq_cfg = cfg, qq_shards = replicate (nat (qc_shards cfg)) [], qq_keyCount = 0, qq_allowed = 0,
          qq_limited = 0, qq_closed = False, qq_hooks = []\<rparr>)"

definition quotax_shardFor :: "(string \<Rightarrow> u64) \<Rightarrow> quotax_Quota \<Rightarrow> string \<Rightarrow> nat" where
  "quotax_shardFor h q key = unat (h key mod word_of_nat (length (qq_shards q)))"

definition quotax_find :: "(string \<Rightarrow> u64) \<Rightarrow> quotax_Quota \<Rightarrow> string \<Rightarrow> quotax_bucket option" where
  "quotax_find h q key = map_of (qq_shards q ! quotax_shardFor h q key) key"

definition quotax_put :: "(string \<Rightarrow> u64) \<Rightarrow> string \<Rightarrow> quotax_bucket \<Rightarrow> quotax_Quota \<Rightarrow> quotax_Quota" where
  "quotax_put h key b q =
     (let i = quotax_shardFor h q key
      in q\<lparr>qq_shards := (qq_shards q)[i := AList.update key b (qq_shards q ! i)]\<rparr>)"

definition quotax_drop :: "(string \<Rightarrow> u64) \<Rightarrow> string \<Rightarrow> quotax_Quota \<Rightarrow> quotax_Quota" where
  "quotax_drop h key q =
     (let i = quotax_shardFor h q key
      in q\<lparr>qq_shards := (qq_shards q)[i := AList.delete key (qq_shards q ! i)]\<rparr>)"

definition quotax_add_limited :: "quotax_Quota \<Rightarrow> quotax_Quota" where
  "quotax_add_limited q = q\<lparr>qq_limited := wrap_i64 (qq_limited q + 1)\<rparr>"

definition quotax_add_allowed :: "quotax_Quota \<Rightarrow> quotax_Quota" where
  "quotax_add_allowed q = q\<lparr>qq_allowed := wrap_i64 (qq_allowed q + 1)\<rparr>"

definition quotax_record :: "bool \<Rightarrow> quotax_Quota \<Rightarrow> quotax_Quota" where
  "quotax_record ok q = (if ok then quotax_add_allowed q else quotax_add_limited q)"

definition quotax_rollbackAllowed :: "quotax_Quota \<Rightarrow> quotax_Quota" where
  "quotax_rollbackAllowed q = (if qq_allowed q \<le> 0 then q else q\<lparr>qq_allowed := qq_allowed q - 1\<rparr>)"

subsection \<open>Keys\<close>

definition quotax_reserveKey :: "quotax_Quota \<Rightarrow> quotax_Quota \<times> bool" where
  "quotax_reserveKey q =
     (if qc_maxKeys (qq_cfg q) = quotax_unlimitedKeys then (q\<lparr>qq_keyCount := wrap_i64 (qq_keyCount q + 1)\<rparr>, True)
      else if qc_maxKeys (qq_cfg q) \<le> qq_keyCount q then (q, False)
      else (q\<lparr>qq_keyCount := wrap_i64 (qq_keyCount q + 1)\<rparr>, True))"

definition quotax_invokeOnMaxKeys :: "string \<Rightarrow> quotax_Quota \<Rightarrow> quotax_Quota" where
  "quotax_invokeOnMaxKeys key q =
     (case qc_onMaxKeys (qq_cfg q) of
        None \<Rightarrow> q
      | Some f \<Rightarrow> (let _ = panix_SafeVoid quotax_opOnMaxKeys (Some (f key)) in q\<lparr>qq_hooks := qq_hooks q @ [key]\<rparr>))"

definition quotax_new_bucket :: "int \<Rightarrow> int \<Rightarrow> quotax_Quota \<Rightarrow> quotax_bucket" where
  "quotax_new_bucket tnew ttouch q =
     quotax_touch ttouch
       \<lparr>bk_limiter = ratex_New tnew [Some (ratex_WithRate (qc_rate (qq_cfg q))), Some (ratex_WithBurst (qc_burst (qq_cfg q)))],
        bk_lastAccess = 0, bk_pins = 0\<rparr>"

text \<open>The clock readings of one call: the limiter's creation, the touch, and the take.\<close>

record quotax_clock =
  ck_new :: int
  ck_touch :: int
  ck_take :: int

text \<open>\<open>lookup\<close> and \<open>getOrCreate\<close> return the bucket they touched, if any.\<close>

definition quotax_lookup ::
  "(string \<Rightarrow> u64) \<Rightarrow> int \<Rightarrow> string \<Rightarrow> quotax_Quota \<Rightarrow> quotax_Quota \<times> quotax_bucket option" where
  "quotax_lookup h ttouch key q =
     (case quotax_find h q key of
        None \<Rightarrow> (q, None)
      | Some b \<Rightarrow> (let b1 = quotax_touch ttouch b in (quotax_put h key b1 q, Some b1)))"

definition quotax_getOrCreate ::
  "(string \<Rightarrow> u64) \<Rightarrow> quotax_clock \<Rightarrow> string \<Rightarrow> quotax_Quota \<Rightarrow> quotax_Quota \<times> quotax_bucket option" where
  "quotax_getOrCreate h ck key q =
     (case quotax_find h q key of
        Some b \<Rightarrow> (let b1 = quotax_touch (ck_touch ck) b in (quotax_put h key b1 q, Some b1))
      | None \<Rightarrow>
          (case quotax_reserveKey q of
             (q1, False) \<Rightarrow> (quotax_invokeOnMaxKeys key q1, None)
           | (q1, True) \<Rightarrow>
               (let b = quotax_new_bucket (ck_new ck) (ck_touch ck) q1 in (quotax_put h key b q1, Some b))))"

definition quotax_bucketForWait ::
  "(string \<Rightarrow> u64) \<Rightarrow> quotax_clock \<Rightarrow> string \<Rightarrow> quotax_Quota \<Rightarrow> quotax_Quota \<times> goerror" where
  "quotax_bucketForWait h ck key q =
     (case quotax_find h q key of
        Some b \<Rightarrow> (quotax_put h key (quotax_touch (ck_touch ck) (quotax_pin b)) q, None)
      | None \<Rightarrow>
          (case quotax_reserveKey q of
             (q1, False) \<Rightarrow> (quotax_add_limited (quotax_invokeOnMaxKeys key q1), Some (quotax_errMaxKeys key))
           | (q1, True) \<Rightarrow> (quotax_put h key (quotax_pin (quotax_new_bucket (ck_new ck) (ck_touch ck) q1)) q1, None)))"

text \<open>A change of the bucket of a key.\<close>

definition quotax_on :: "(string \<Rightarrow> u64) \<Rightarrow> string \<Rightarrow> (quotax_bucket \<Rightarrow> quotax_bucket) \<Rightarrow> quotax_Quota \<Rightarrow> quotax_Quota" where
  "quotax_on h key f q = (case quotax_find h q key of None \<Rightarrow> q | Some b \<Rightarrow> quotax_put h key (f b) q)"

definition quotax_limiter_upd :: "(ratex_Limiter \<Rightarrow> ratex_Limiter) \<Rightarrow> quotax_bucket \<Rightarrow> quotax_bucket" where
  "quotax_limiter_upd f b = b\<lparr>bk_limiter := f (bk_limiter b)\<rparr>"

subsection \<open>Non-blocking checks\<close>

definition quotax_AllowN ::
  "(string \<Rightarrow> u64) \<Rightarrow> quotax_clock \<Rightarrow> string \<Rightarrow> int \<Rightarrow> quotax_Quota \<Rightarrow> quotax_Quota \<times> bool" where
  "quotax_AllowN h ck key n q =
     (if qq_closed q then (q, False)
      else
        let use = (\<lambda>b q. case ratex_AllowN (ck_take ck) n (bk_limiter b) of
              (l, ok) \<Rightarrow> (quotax_record ok (quotax_put h key (b\<lparr>bk_limiter := l\<rparr>) q), ok))
        in case quotax_lookup h (ck_touch ck) key q of
             (q1, Some b) \<Rightarrow> use b q1
           | (q1, None) \<Rightarrow>
               (case quotax_getOrCreate h ck key q1 of
                  (q2, None) \<Rightarrow> (quotax_add_limited q2, False)
                | (q2, Some b) \<Rightarrow> use b q2))"

definition quotax_Allow :: "(string \<Rightarrow> u64) \<Rightarrow> quotax_clock \<Rightarrow> string \<Rightarrow> quotax_Quota \<Rightarrow> quotax_Quota \<times> bool" where
  "quotax_Allow h ck key q = quotax_AllowN h ck key 1 q"

definition quotax_AllowOrError ::
  "(string \<Rightarrow> u64) \<Rightarrow> quotax_clock \<Rightarrow> string \<Rightarrow> quotax_Quota \<Rightarrow> quotax_Quota \<times> goerror" where
  "quotax_AllowOrError h ck key q =
     (if qq_closed q then (q, Some quotax_ErrClosed)
      else
        let use = (\<lambda>b q. case ratex_Allow (ck_take ck) (bk_limiter b) of
              (l, ok) \<Rightarrow> (quotax_record ok (quotax_put h key (b\<lparr>bk_limiter := l\<rparr>) q),
                           if ok then None else Some (quotax_errLimited key)))
        in case quotax_lookup h (ck_touch ck) key q of
             (q1, Some b) \<Rightarrow> use b q1
           | (q1, None) \<Rightarrow>
               (case quotax_getOrCreate h ck key q1 of
                  (q2, None) \<Rightarrow> (quotax_add_limited q2, Some (quotax_errMaxKeys key))
                | (q2, Some b) \<Rightarrow> use b q2))"

subsection \<open>Waiting\<close>

text \<open>
  One round of the wait: \<open>ctx.Err()\<close> at the top, the clocks of the touch, the take, the check after it
  (\<open>ctx.Err()\<close>), the clock of \<open>Tokens\<close>, what other goroutines do during the sleep, and the ready case of the
  \<open>select\<close>. A case that is not ready is a caller that stays blocked.
\<close>

datatype quotax_sel = QDone goerr | QClosedCh | QTimer goerror

record quotax_round =
  qr_e0 :: goerror
  qr_touch :: int
  qr_take :: int
  qr_e1 :: goerror
  qr_tokens :: int
  qr_env :: "quotax_Quota \<Rightarrow> quotax_Quota"
  qr_sel :: quotax_sel

record quotax_waitResult =
  qw_remaining :: f64
  qw_waited :: bool

text \<open>The delay is a refill of the bucket and the time to sleep.\<close>

definition quotax_waitDelay :: "(f64 \<Rightarrow> int) \<Rightarrow> int \<Rightarrow> int \<Rightarrow> quotax_bucket \<Rightarrow> quotax_bucket \<times> int" where
  "quotax_waitDelay oob now n b =
     (case ratex_Tokens now (bk_limiter b) of
        (l, t) \<Rightarrow>
          (let deficit = f64_sub (f64_of_int n) t; b1 = b\<lparr>bk_limiter := l\<rparr>
           in if deficit \<le> 0 then (b1, quotax_minWaitDelay)
              else let d = f64_to_i64 oob (f64_mul (f64_div deficit (ratex_Rate l)) quotax_nanosPerSecond)
                   in (b1, if d < quotax_minWaitDelay then quotax_minWaitDelay else d)))"

fun quotax_wait_loop ::
  "(string \<Rightarrow> u64) \<Rightarrow> (f64 \<Rightarrow> int) \<Rightarrow> string \<Rightarrow> int \<Rightarrow> quotax_round list \<Rightarrow> bool \<Rightarrow> quotax_Quota
     \<Rightarrow> (quotax_Quota \<times> (goerr + quotax_waitResult)) option" where
  "quotax_wait_loop h oob key n [] waited q = None"
| "quotax_wait_loop h oob key n (r # rs) waited q =
     (if qq_closed q then Some (quotax_add_limited q, Inl quotax_ErrClosed)
      else case qr_e0 r of
        Some e \<Rightarrow> Some (quotax_add_limited q, Inl (quotax_errCancelled e))
      | None \<Rightarrow>
          (case quotax_find h q key of
             None \<Rightarrow> None
           | Some b0 \<Rightarrow>
               (let b = quotax_touch (qr_touch r) b0
                in case ratex_AllowN (qr_take r) n (bk_limiter b) of
                     (l, True) \<Rightarrow>
                       (case qr_e1 r of
                          Some e \<Rightarrow>
                            Some (quotax_add_limited (quotax_put h key (b\<lparr>bk_limiter := ratex_Release (f64_of_int n) l\<rparr>) q),
                                  Inl (quotax_errCancelled e))
                        | None \<Rightarrow>
                            (case ratex_Tokens (qr_tokens r) l of
                               (l2, rem) \<Rightarrow>
                                 Some (quotax_add_allowed (quotax_put h key (b\<lparr>bk_limiter := l2\<rparr>) q),
                                       Inr \<lparr>qw_remaining = rem, qw_waited = waited\<rparr>)))
                   | (l, False) \<Rightarrow>
                       (let b2 = fst (quotax_waitDelay oob (qr_tokens r) n (b\<lparr>bk_limiter := l\<rparr>));
                            q2 = qr_env r (quotax_put h key b2 q)
                        in case qr_sel r of
                             QDone e \<Rightarrow> Some (quotax_add_limited q2, Inl (quotax_errCancelled e))
                           | QClosedCh \<Rightarrow>
                               if qq_closed q2 then Some (quotax_add_limited q2, Inl quotax_ErrClosed) else None
                           | QTimer (Some e) \<Rightarrow> Some (quotax_add_limited q2, Inl (quotax_errCancelled e))
                           | QTimer None \<Rightarrow> quotax_wait_loop h oob key n rs True q2))))"

definition quotax_waitForOnBucket ::
  "(string \<Rightarrow> u64) \<Rightarrow> (f64 \<Rightarrow> int) \<Rightarrow> string \<Rightarrow> int \<Rightarrow> goerror \<Rightarrow> quotax_round list \<Rightarrow> quotax_Quota
     \<Rightarrow> (quotax_Quota \<times> (goerr + quotax_waitResult)) option" where
  "quotax_waitForOnBucket h oob key n0 e rs q =
     (let n = (if n0 < 1 then 1 else n0)
      in if qc_burst (qq_cfg q) < n then Some (quotax_add_limited q, Inl ratex_ErrExceedsBurst)
         else
           let q1 = quotax_on h key quotax_pin q; unpin = map_prod (quotax_on h key quotax_unpin) id
           in if qq_closed q1 then Some (unpin (q1, Inl quotax_ErrClosed))
              else case e of
                Some c \<Rightarrow> Some (unpin (quotax_add_limited q1, Inl (quotax_errCancelled c)))
              | None \<Rightarrow> map_option unpin (quotax_wait_loop h oob key n rs False q1))"

definition quotax_waitFor ::
  "(string \<Rightarrow> u64) \<Rightarrow> (f64 \<Rightarrow> int) \<Rightarrow> quotax_clock \<Rightarrow> string \<Rightarrow> int \<Rightarrow> goerror \<Rightarrow> goerror \<Rightarrow> quotax_round list \<Rightarrow> quotax_Quota
     \<Rightarrow> (quotax_Quota \<times> (goerr + quotax_waitResult)) option" where
  "quotax_waitFor h oob ck key n0 e0 e1 rs q =
     (let n = (if n0 < 1 then 1 else n0)
      in if qc_burst (qq_cfg q) < n then Some (quotax_add_limited q, Inl ratex_ErrExceedsBurst)
         else if qq_closed q then Some (q, Inl quotax_ErrClosed)
         else case e0 of
           Some c \<Rightarrow> Some (quotax_add_limited q, Inl (quotax_errCancelled c))
         | None \<Rightarrow>
             (case quotax_bucketForWait h ck key q of
                (q1, Some err) \<Rightarrow> Some (q1, Inl err)
              | (q1, None) \<Rightarrow>
                  map_option (map_prod (quotax_on h key quotax_unpin) id) (quotax_waitForOnBucket h oob key n e1 rs q1)))"

definition quotax_WaitN ::
  "(string \<Rightarrow> u64) \<Rightarrow> (f64 \<Rightarrow> int) \<Rightarrow> quotax_clock \<Rightarrow> string \<Rightarrow> int \<Rightarrow> goerror \<Rightarrow> goerror \<Rightarrow> quotax_round list \<Rightarrow> quotax_Quota
     \<Rightarrow> (quotax_Quota \<times> goerror) option" where
  "quotax_WaitN h oob ck key n e0 e1 rs q =
     map_option (\<lambda>(q1, r). (q1, case r of Inl e \<Rightarrow> Some e | Inr _ \<Rightarrow> None)) (quotax_waitFor h oob ck key n e0 e1 rs q)"

definition quotax_Wait ::
  "(string \<Rightarrow> u64) \<Rightarrow> (f64 \<Rightarrow> int) \<Rightarrow> quotax_clock \<Rightarrow> string \<Rightarrow> goerror \<Rightarrow> goerror \<Rightarrow> quotax_round list \<Rightarrow> quotax_Quota
     \<Rightarrow> (quotax_Quota \<times> goerror) option" where
  "quotax_Wait h oob ck key e0 e1 rs q = quotax_WaitN h oob ck key 1 e0 e1 rs q"

subsection \<open>Execution\<close>

record quotax_execution =
  qx_key :: string
  qx_tokens :: f64
  qx_rate :: f64
  qx_burst :: int
  qx_waited :: bool
  qx_skipToken :: bool

definition quotax_SkipToken :: "quotax_execution \<Rightarrow> quotax_execution" where
  "quotax_SkipToken e = e\<lparr>qx_skipToken := True\<rparr>"

text \<open>A callback runs on the quota: it and other goroutines may use it meanwhile.\<close>

type_synonym 'a quotax_Func =
  "quotax_execution \<Rightarrow> quotax_Quota \<Rightarrow> quotax_Quota \<times> quotax_execution \<times> 'a outcome"

definition quotax_runAfterAdmit ::
  "(string \<Rightarrow> u64) \<Rightarrow> 'a \<Rightarrow> string \<Rightarrow> quotax_waitResult \<Rightarrow> string \<Rightarrow> 'a quotax_Func \<Rightarrow> quotax_Quota \<Rightarrow> quotax_Quota \<times> 'a \<times> goerror" where
  "quotax_runAfterAdmit h zero key res op fn q =
     (case fn \<lparr>qx_key = key, qx_tokens = qw_remaining res,
              qx_rate = (case quotax_find h q key of Some b \<Rightarrow> ratex_Rate (bk_limiter b) | None \<Rightarrow> 0),
              qx_burst = (case quotax_find h q key of Some b \<Rightarrow> ratex_Burst (bk_limiter b) | None \<Rightarrow> 0),
              qx_waited = qw_waited res, qx_skipToken = False\<rparr> q of
        (q1, qc, out) \<Rightarrow>
          (case panix_Safe zero op (Some out) of
             (val, err) \<Rightarrow>
               (if qx_skipToken qc
                then quotax_rollbackAllowed (quotax_on h key (quotax_limiter_upd (ratex_Release 1)) q1) else q1, val, err)))"

definition quotax_Execute ::
  "(string \<Rightarrow> u64) \<Rightarrow> (f64 \<Rightarrow> int) \<Rightarrow> quotax_clock \<Rightarrow> string \<Rightarrow> goerror \<Rightarrow> goerror \<Rightarrow> quotax_round list \<Rightarrow> int \<Rightarrow> 'a
     \<Rightarrow> 'a quotax_Func option \<Rightarrow> quotax_Quota \<Rightarrow> (quotax_Quota \<times> 'a \<times> goerror) option" where
  "quotax_Execute h oob ck key e0 e1 rs ttouch zero fn q =
     (case fn of
        None \<Rightarrow> Some (q, zero, Some quotax_ErrNilFunc)
      | Some f \<Rightarrow>
          if qq_closed q then Some (q, zero, Some quotax_ErrClosed)
          else case e0 of
            Some c \<Rightarrow> Some (quotax_add_limited q, zero, Some (quotax_errCancelled c))
          | None \<Rightarrow>
              (case quotax_bucketForWait h ck key q of
                 (q1, Some err) \<Rightarrow> Some (q1, zero, Some err)
               | (q1, None) \<Rightarrow>
                   map_option (\<lambda>(q2, r). case r of
                       Inl err \<Rightarrow> (quotax_on h key quotax_unpin q2, zero, Some err)
                     | Inr res \<Rightarrow>
                         (case quotax_runAfterAdmit h zero key res quotax_opExecute f
                                 (quotax_on h key (quotax_touch ttouch) q2) of
                            (q3, val, err) \<Rightarrow> (quotax_on h key quotax_unpin q3, val, err)))
                     (quotax_waitForOnBucket h oob key 1 e1 rs q1)))"

definition quotax_TryExecute ::
  "(string \<Rightarrow> u64) \<Rightarrow> quotax_clock \<Rightarrow> string \<Rightarrow> goerror \<Rightarrow> goerror \<Rightarrow> int \<Rightarrow> int \<Rightarrow> 'a \<Rightarrow> 'a quotax_Func option \<Rightarrow> quotax_Quota
     \<Rightarrow> (quotax_Quota \<times> bool \<times> 'a \<times> goerror) option" where
  "quotax_TryExecute h ck key e0 e1 ttouch ttokens zero fn q =
     (case fn of
        None \<Rightarrow> Some (q, False, zero, Some quotax_ErrNilFunc)
      | Some f \<Rightarrow>
          if qq_closed q then Some (q, False, zero, Some quotax_ErrClosed)
          else case e0 of
            Some c \<Rightarrow> Some (q, False, zero, Some (quotax_errCancelled c))
          | None \<Rightarrow>
              (case quotax_bucketForWait h ck key q of
                 (q1, Some err) \<Rightarrow> Some (q1, False, zero, Some err)
               | (q1, None) \<Rightarrow>
                   (case quotax_find h q1 key of
                      None \<Rightarrow> None
                    | Some b \<Rightarrow>
                        (case ratex_Allow (ck_take ck) (bk_limiter b) of
                           (l, False) \<Rightarrow>
                             Some (quotax_on h key quotax_unpin (quotax_add_limited (quotax_put h key (b\<lparr>bk_limiter := l\<rparr>) q1)),
                                   False, zero, None)
                         | (l, True) \<Rightarrow>
                             (case e1 of
                                Some c \<Rightarrow>
                                  Some (quotax_on h key quotax_unpin
                                          (quotax_add_limited (quotax_put h key (b\<lparr>bk_limiter := ratex_Release 1 l\<rparr>) q1)),
                                        False, zero, Some (quotax_errCancelled c))
                              | None \<Rightarrow>
                                  (case ratex_Tokens ttokens l of
                                     (l2, rem) \<Rightarrow>
                                       (case quotax_runAfterAdmit h zero key \<lparr>qw_remaining = rem, qw_waited = False\<rparr> quotax_opTryExecute f
                                               (quotax_add_allowed (quotax_put h key (quotax_touch ttouch (b\<lparr>bk_limiter := l2\<rparr>)) q1)) of
                                          (q3, val, err) \<Rightarrow> Some (quotax_on h key quotax_unpin q3, True, val, err))))))))"

subsection \<open>Key management, eviction and lifecycle\<close>

definition quotax_Remove :: "(string \<Rightarrow> u64) \<Rightarrow> string \<Rightarrow> quotax_Quota \<Rightarrow> quotax_Quota \<times> bool" where
  "quotax_Remove h key q =
     (case quotax_find h q key of
        None \<Rightarrow> (q, False)
      | Some b \<Rightarrow>
          if 0 < bk_pins b then (q, False)
          else (let q1 = quotax_drop h key q in (q1\<lparr>qq_keyCount := wrap_i64 (qq_keyCount q1 - 1)\<rparr>, True)))"

definition quotax_Exists :: "(string \<Rightarrow> u64) \<Rightarrow> string \<Rightarrow> quotax_Quota \<Rightarrow> bool" where
  "quotax_Exists h key q \<longleftrightarrow> quotax_find h q key \<noteq> None"

definition quotax_KeyCount :: "quotax_Quota \<Rightarrow> int" where "quotax_KeyCount q = qq_keyCount q"

text \<open>
  \<open>Reset\<close> and \<open>evict\<close> lock one shard at a time. A shard's locked section is a function of its own, because
  other operations run between the sections; the whole pass is their sequence when nothing does.
\<close>

definition quotax_reset_shard :: "nat \<Rightarrow> quotax_Quota \<times> int \<Rightarrow> quotax_Quota \<times> int" where
  "quotax_reset_shard i qr =
     (case qr of
        (q, remaining) \<Rightarrow>
          (let s = filter (\<lambda>(k, b). 0 < bk_pins b) (qq_shards q ! i)
           in (q\<lparr>qq_shards := (qq_shards q)[i := s]\<rparr>, remaining + int (length s))))"

definition quotax_Reset :: "quotax_Quota \<Rightarrow> quotax_Quota" where
  "quotax_Reset q =
     (case fold quotax_reset_shard [0..<length (qq_shards q)] (q, 0) of
        (q1, remaining) \<Rightarrow> q1\<lparr>qq_keyCount := remaining\<rparr>)"

text \<open>The scan of a shard for stale keys, and the locked section that checks them again.\<close>

definition quotax_evict_scan :: "int \<Rightarrow> (string \<times> quotax_bucket) list \<Rightarrow> string list" where
  "quotax_evict_scan cutoff s = map fst (filter (\<lambda>(k, b). \<not> 0 < bk_pins b \<and> bk_lastAccess b < cutoff) s)"

definition quotax_evict_locked :: "int \<Rightarrow> string list \<Rightarrow> nat \<Rightarrow> quotax_Quota \<Rightarrow> quotax_Quota" where
  "quotax_evict_locked cutoff stale i q =
     (let s = qq_shards q ! i;
          s1 = filter (\<lambda>(k, b). \<not> (k \<in> set stale \<and> bk_pins b = 0 \<and> bk_lastAccess b < cutoff)) s
      in q\<lparr>qq_shards := (qq_shards q)[i := s1],
           qq_keyCount := wrap_i64 (qq_keyCount q - (int (length s) - int (length s1)))\<rparr>)"

definition quotax_evict_shard :: "int \<Rightarrow> nat \<Rightarrow> quotax_Quota \<Rightarrow> quotax_Quota" where
  "quotax_evict_shard cutoff i q =
     (let stale = quotax_evict_scan cutoff (qq_shards q ! i)
      in if stale = [] then q else quotax_evict_locked cutoff stale i q)"

definition quotax_evict :: "int \<Rightarrow> quotax_Quota \<Rightarrow> quotax_Quota" where
  "quotax_evict now q =
     fold (quotax_evict_shard (now - qc_evictionTTL (qq_cfg q))) [0..<length (qq_shards q)] q"

definition quotax_ForceEviction :: "int \<Rightarrow> quotax_Quota \<Rightarrow> quotax_Quota" where
  "quotax_ForceEviction now q = quotax_evict now q"

record quotax_Stats =
  qs_Keys :: int
  qs_Allowed :: int
  qs_Limited :: int

definition quotax_QuotaStats :: "quotax_Quota \<Rightarrow> quotax_Stats" where
  "quotax_QuotaStats q = \<lparr>qs_Keys = qq_keyCount q, qs_Allowed = qq_allowed q, qs_Limited = qq_limited q\<rparr>"

definition quotax_ResetStats :: "quotax_Quota \<Rightarrow> quotax_Quota" where
  "quotax_ResetStats q = q\<lparr>qq_allowed := 0, qq_limited := 0\<rparr>"

definition quotax_Close :: "quotax_Quota \<Rightarrow> quotax_Quota" where "quotax_Close q = q\<lparr>qq_closed := True\<rparr>"
definition quotax_IsClosed :: "quotax_Quota \<Rightarrow> bool" where "quotax_IsClosed q = qq_closed q"

interpretation quotax: closer quotax_Close quotax_IsClosed
  by unfold_locales (simp_all add: quotax_Close_def quotax_IsClosed_def)

end
