(* ===== verification/Quotax_Keys.thy ===== *)
theory Quotax_Keys
  imports Quotax
begin

text \<open>
  Package \<open>quotax\<close>, part two: what the shards hold. The view of a quota as one map from keys to limiters, the
  refinement of the non-blocking operations to that map, and the interleaving of lock-level steps with the
  pins of the waiting calls.
\<close>

section \<open>Well-formed shards\<close>

definition quotax_wf :: "(string \<Rightarrow> u64) \<Rightarrow> quotax_Quota \<Rightarrow> bool" where
  "quotax_wf h q \<longleftrightarrow>
     0 < length (qq_shards q) \<and> length (qq_shards q) < 2 ^ 64
     \<and> (\<forall>i<length (qq_shards q). distinct (map fst (qq_shards q ! i))
          \<and> (\<forall>k\<in>set (map fst (qq_shards q ! i)). quotax_shardFor h q k = i))"

lemma quotax_shardFor_less: "quotax_wf h q \<Longrightarrow> quotax_shardFor h q key < length (qq_shards q)"
proof -
  assume w: "quotax_wf h q"
  let ?n = "length (qq_shards q)"
  have u: "unat (word_of_nat ?n :: u64) = ?n"
    using w by (simp add: quotax_wf_def unat_of_nat take_bit_nat_eq_self)
  then have "unat (h key mod word_of_nat ?n) = unat (h key) mod ?n" by (simp add: unat_mod)
  then show ?thesis using w by (simp add: quotax_shardFor_def quotax_wf_def)
qed

lemma quotax_shardFor_cong:
  "length (qq_shards q') = length (qq_shards q) \<Longrightarrow> quotax_shardFor h q' = quotax_shardFor h q"
  by (rule ext) (simp add: quotax_shardFor_def)

lemma quotax_put_length [simp]: "length (qq_shards (quotax_put h key b q)) = length (qq_shards q)"
  by (simp add: quotax_put_def Let_def)

lemma quotax_drop_length [simp]: "length (qq_shards (quotax_drop h key q)) = length (qq_shards q)"
  by (simp add: quotax_drop_def Let_def)

lemma quotax_shardFor_put [simp]: "quotax_shardFor h (quotax_put h key b q) = quotax_shardFor h q"
  by (rule quotax_shardFor_cong) simp

lemma quotax_shardFor_drop [simp]: "quotax_shardFor h (quotax_drop h key q) = quotax_shardFor h q"
  by (rule quotax_shardFor_cong) simp

lemma quotax_shards_put:
  "qq_shards (quotax_put h key b q)
     = (qq_shards q)[quotax_shardFor h q key := AList.update key b (qq_shards q ! quotax_shardFor h q key)]"
  by (simp add: quotax_put_def Let_def)

lemma quotax_shards_drop:
  "qq_shards (quotax_drop h key q)
     = (qq_shards q)[quotax_shardFor h q key := AList.delete key (qq_shards q ! quotax_shardFor h q key)]"
  by (simp add: quotax_drop_def Let_def)

lemma quotax_find_put [simp]:
  assumes "quotax_wf h q"
  shows "quotax_find h (quotax_put h key b q) = (quotax_find h q)(key \<mapsto> b)"
proof
  fix k
  note l = quotax_shardFor_less [OF assms, of key]
  show "quotax_find h (quotax_put h key b q) k = ((quotax_find h q)(key \<mapsto> b)) k"
  proof (cases "quotax_shardFor h q k = quotax_shardFor h q key")
    case True
    with l show ?thesis by (simp add: quotax_find_def quotax_shards_put update_conv')
  next
    case False
    then show ?thesis by (auto simp: quotax_find_def quotax_shards_put)
  qed
qed

lemma quotax_find_drop [simp]:
  assumes "quotax_wf h q"
  shows "quotax_find h (quotax_drop h key q) = (quotax_find h q)(key := None)"
proof
  fix k
  note l = quotax_shardFor_less [OF assms, of key]
  show "quotax_find h (quotax_drop h key q) k = ((quotax_find h q)(key := None)) k"
  proof (cases "quotax_shardFor h q k = quotax_shardFor h q key")
    case True
    with l show ?thesis by (simp add: quotax_find_def quotax_shards_drop delete_conv')
  next
    case False
    then show ?thesis by (auto simp: quotax_find_def quotax_shards_drop)
  qed
qed

text \<open>A change of one shard keeps the quota well formed when the new shard is.\<close>

lemma quotax_wf_upd:
  assumes "quotax_wf h q" and "qq_shards q' = (qq_shards q)[i := s]" and "distinct (map fst s)"
    and "\<forall>k\<in>set (map fst s). quotax_shardFor h q k = i"
  shows "quotax_wf h q'"
proof -
  have "quotax_shardFor h q' = quotax_shardFor h q" using assms(2) by (intro quotax_shardFor_cong) simp
  moreover have "distinct (map fst (qq_shards q' ! j)) \<and> (\<forall>k\<in>set (map fst (qq_shards q' ! j)). quotax_shardFor h q k = j)"
    if "j < length (qq_shards q)" for j
    using assms that by (cases "j = i") (simp_all add: quotax_wf_def)
  ultimately show ?thesis using assms(1,2) by (simp add: quotax_wf_def)
qed

lemma quotax_wf_shard:
  assumes "quotax_wf h q" and "i < length (qq_shards q)"
  shows "distinct (map fst (qq_shards q ! i))" and "k \<in> set (map fst (qq_shards q ! i)) \<Longrightarrow> quotax_shardFor h q k = i"
  using assms by (auto simp: quotax_wf_def)

lemma quotax_wf_put [simp]:
  assumes "quotax_wf h q" shows "quotax_wf h (quotax_put h key b q)"
proof (rule quotax_wf_upd [OF assms quotax_shards_put])
  note sh = quotax_wf_shard [OF assms quotax_shardFor_less [OF assms, of key]]
  show "distinct (map fst (AList.update key b (qq_shards q ! quotax_shardFor h q key)))"
    by (rule distinct_update [OF sh(1)])
  show "\<forall>k\<in>set (map fst (AList.update key b (qq_shards q ! quotax_shardFor h q key))).
          quotax_shardFor h q k = quotax_shardFor h q key"
    using sh(2) by (fastforce simp only: dom_update list.set_map)
qed

lemma quotax_wf_drop [simp]:
  assumes "quotax_wf h q" shows "quotax_wf h (quotax_drop h key q)"
proof (rule quotax_wf_upd [OF assms quotax_shards_drop])
  note sh = quotax_wf_shard [OF assms quotax_shardFor_less [OF assms, of key]]
  show "distinct (map fst (AList.delete key (qq_shards q ! quotax_shardFor h q key)))"
    by (rule distinct_delete [OF sh(1)])
  show "\<forall>k\<in>set (map fst (AList.delete key (qq_shards q ! quotax_shardFor h q key))).
          quotax_shardFor h q k = quotax_shardFor h q key"
    using sh(2) by (simp only: delete_keys set_removeAll) blast
qed

text \<open>Counting the entries of the shards.\<close>

definition quotax_entries :: "quotax_Quota \<Rightarrow> int" where
  "quotax_entries q = int (sum_list (map length (qq_shards q)))"

lemma quotax_entries_upd:
  assumes "qq_shards q' = (qq_shards q)[i := s]" and "i < length (qq_shards q)"
  shows "quotax_entries q' = quotax_entries q + int (length s) - int (length (qq_shards q ! i))"
proof -
  have "length (qq_shards q ! i) \<le> sum_list (map length (qq_shards q))"
    using assms(2) by (intro member_le_sum_list) auto
  with assms show ?thesis by (simp add: quotax_entries_def map_update sum_list_update)
qed

lemma quotax_find_dom: "quotax_find h q key = None \<longleftrightarrow> key \<notin> fst ` set (qq_shards q ! quotax_shardFor h q key)"
  by (simp add: quotax_find_def map_of_eq_None_iff)

lemma quotax_entries_put:
  "quotax_wf h q \<Longrightarrow>
     quotax_entries (quotax_put h key b q) = quotax_entries q + (if quotax_find h q key = None then 1 else 0)"
  using quotax_entries_upd [OF quotax_shards_put quotax_shardFor_less, of h q key b]
  by (simp add: alist_length_update quotax_find_dom)

lemma quotax_entries_drop:
  assumes "quotax_wf h q"
  shows "quotax_entries (quotax_drop h key q) = quotax_entries q - (if quotax_find h q key = None then 0 else 1)"
  using quotax_entries_upd [OF quotax_shards_drop quotax_shardFor_less [OF assms], of key]
    alist_length_delete [OF quotax_wf_shard(1) [OF assms quotax_shardFor_less [OF assms, of key]], of key]
  by (simp add: quotax_find_dom)

lemma quotax_entries_filter:
  assumes "qq_shards q' = (qq_shards q)[i := filter P (qq_shards q ! i)]" and "i < length (qq_shards q)"
  shows "quotax_entries q' = quotax_entries q - (int (length (qq_shards q ! i)) - int (length (filter P (qq_shards q ! i))))"
  by (simp add: quotax_entries_upd [OF assms])

lemma quotax_wf_filter:
  assumes "quotax_wf h q" and "qq_shards q' = (qq_shards q)[i := filter P (qq_shards q ! i)]" and "i < length (qq_shards q)"
  shows "quotax_wf h q'"
proof (rule quotax_wf_upd [OF assms(1,2)])
  note sh = quotax_wf_shard [OF assms(1,3)]
  show "distinct (map fst (filter P (qq_shards q ! i)))" by (rule distinct_map_filter [OF sh(1)])
  show "\<forall>k\<in>set (map fst (filter P (qq_shards q ! i))). quotax_shardFor h q k = i" using sh(2) by (simp only: list.set_map set_filter) blast
qed

text \<open>A key survives the pass when the filter keeps its entry; no key appears.\<close>

lemma quotax_find_filter:
  assumes "quotax_wf h q" and "qq_shards q' = (qq_shards q)[i := filter P (qq_shards q ! i)]" and "i < length (qq_shards q)"
  shows "quotax_find h q' k = (case quotax_find h q k of None \<Rightarrow> None
           | Some b \<Rightarrow> if quotax_shardFor h q k = i \<and> \<not> P (k, b) then None else Some b)"
proof -
  have s: "quotax_shardFor h q' = quotax_shardFor h q" using assms(2) by (intro quotax_shardFor_cong) simp
  note sh = quotax_wf_shard [OF assms(1,3)]
  have f: "map_of (filter P (qq_shards q ! i)) k
      = (case map_of (qq_shards q ! i) k of None \<Rightarrow> None | Some b \<Rightarrow> if P (k, b) then Some b else None)"
    by (rule map_of_filter_key [OF sh(1)])
  show ?thesis
    by (cases "quotax_shardFor h q k = i")
      (simp_all add: quotax_find_def s assms(2,3) f split: option.splits)
qed

section \<open>Interleavings\<close>

text \<open>
  A run of the quota as the sequence of the sections its goroutines execute. The ghost \<open>qt_pins\<close> counts the
  calls that hold a pin on a key; a call pins only what it already holds, or through \<open>bucketForWait\<close>, and unpins
  what it holds. \<open>qt_acc\<close> is the local \<open>remaining\<close> of a \<open>Reset\<close> under way. An action a goroutine cannot take is
  \<open>None\<close>. An \<open>int32\<close> counts the pins, so a bucket has fewer than \<open>2 ^ 31\<close> of them.
\<close>

record quotax_sys =
  qt_q :: quotax_Quota
  qt_pins :: "string \<Rightarrow> nat"
  qt_acc :: int

datatype quotax_act =
    QLookup string int
  | QCreate string quotax_clock
  | QTake string int int
  | QTokens string int
  | QRelease string f64
  | QWaitBucket string quotax_clock
  | QPin string
  | QUnpin string
  | QRemove string
  | QEvict int "string list" nat
  | QResetShard nat
  | QResetStore
  | QClose

definition quotax_hold :: "string \<Rightarrow> quotax_sys \<Rightarrow> quotax_sys" where
  "quotax_hold k s = s\<lparr>qt_pins := (qt_pins s)(k := qt_pins s k + 1)\<rparr>"

fun quotax_act_step :: "(string \<Rightarrow> u64) \<Rightarrow> quotax_act \<Rightarrow> quotax_sys \<Rightarrow> quotax_sys option" where
  "quotax_act_step h (QLookup k now) s = Some (s\<lparr>qt_q := fst (quotax_lookup h now k (qt_q s))\<rparr>)"
| "quotax_act_step h (QCreate k ck) s = Some (s\<lparr>qt_q := fst (quotax_getOrCreate h ck k (qt_q s))\<rparr>)"
| "quotax_act_step h (QTake k now n) s =
     Some (s\<lparr>qt_q := quotax_on h k (quotax_limiter_upd (\<lambda>l. fst (ratex_AllowN now n l))) (qt_q s)\<rparr>)"
| "quotax_act_step h (QTokens k now) s =
     Some (s\<lparr>qt_q := quotax_on h k (quotax_limiter_upd (\<lambda>l. fst (ratex_Tokens now l))) (qt_q s)\<rparr>)"
| "quotax_act_step h (QRelease k n) s =
     (if n < 0 then None else Some (s\<lparr>qt_q := quotax_on h k (quotax_limiter_upd (ratex_Release n)) (qt_q s)\<rparr>))"
| "quotax_act_step h (QWaitBucket k ck) s =
     (if qt_pins s k + 1 < 2 ^ 31
      then (case quotax_bucketForWait h ck k (qt_q s) of
              (q1, Some err) \<Rightarrow> Some (s\<lparr>qt_q := q1\<rparr>)
            | (q1, None) \<Rightarrow> Some (quotax_hold k (s\<lparr>qt_q := q1\<rparr>)))
      else None)"
| "quotax_act_step h (QPin k) s =
     (if 0 < qt_pins s k \<and> qt_pins s k + 1 < 2 ^ 31
      then Some (quotax_hold k (s\<lparr>qt_q := quotax_on h k quotax_pin (qt_q s)\<rparr>)) else None)"
| "quotax_act_step h (QUnpin k) s =
     (if 0 < qt_pins s k
      then Some (s\<lparr>qt_q := quotax_on h k quotax_unpin (qt_q s), qt_pins := (qt_pins s)(k := qt_pins s k - 1)\<rparr>)
      else None)"
| "quotax_act_step h (QRemove k) s = Some (s\<lparr>qt_q := fst (quotax_Remove h k (qt_q s))\<rparr>)"
| "quotax_act_step h (QEvict cutoff stale i) s =
     (if i < length (qq_shards (qt_q s)) then Some (s\<lparr>qt_q := quotax_evict_locked cutoff stale i (qt_q s)\<rparr>) else None)"
| "quotax_act_step h (QResetShard i) s =
     (if i < length (qq_shards (qt_q s))
      then (case quotax_reset_shard i (qt_q s, qt_acc s) of (q1, acc) \<Rightarrow> Some (s\<lparr>qt_q := q1, qt_acc := acc\<rparr>))
      else None)"
| "quotax_act_step h QResetStore s = Some (s\<lparr>qt_q := (qt_q s)\<lparr>qq_keyCount := qt_acc s\<rparr>, qt_acc := 0\<rparr>)"
| "quotax_act_step h QClose s = Some (s\<lparr>qt_q := quotax_Close (qt_q s)\<rparr>)"

fun quotax_run :: "(string \<Rightarrow> u64) \<Rightarrow> quotax_act list \<Rightarrow> quotax_sys \<Rightarrow> quotax_sys option" where
  "quotax_run h [] s = Some s"
| "quotax_run h (a # as) s = (case quotax_act_step h a s of None \<Rightarrow> None | Some s1 \<Rightarrow> quotax_run h as s1)"

fun quotax_is_reset :: "quotax_act \<Rightarrow> bool" where
  "quotax_is_reset (QResetShard i) = True"
| "quotax_is_reset QResetStore = True"
| "quotax_is_reset _ = False"

text \<open>The invariant: each held key is tracked by a bucket with that many pins, and each limiter is well formed.\<close>

definition quotax_bucket_ok :: "quotax_config \<Rightarrow> nat \<Rightarrow> quotax_bucket \<Rightarrow> bool" where
  "quotax_bucket_ok c p b \<longleftrightarrow>
     bk_pins b = int p \<and> ratex_inv (bk_limiter b)
     \<and> rl_cfg (bk_limiter b) = \<lparr>rc_rate = qc_rate c, rc_burst = qc_burst c\<rparr>"

fun quotax_track :: "quotax_config \<Rightarrow> quotax_bucket option \<Rightarrow> nat \<Rightarrow> bool" where
  "quotax_track c None p \<longleftrightarrow> p = 0"
| "quotax_track c (Some b) p \<longleftrightarrow> p < 2 ^ 31 \<and> quotax_bucket_ok c p b"

definition quotax_cfg_ok :: "quotax_config \<Rightarrow> bool" where
  "quotax_cfg_ok c \<longleftrightarrow> 0 < qc_rate c \<and> 1 \<le> qc_burst c"

definition quotax_held :: "(string \<Rightarrow> u64) \<Rightarrow> quotax_config \<Rightarrow> quotax_sys \<Rightarrow> bool" where
  "quotax_held h c s \<longleftrightarrow>
     quotax_wf h (qt_q s) \<and> qq_cfg (qt_q s) = c \<and> quotax_cfg_ok c
     \<and> (\<forall>k. quotax_track c (quotax_find h (qt_q s) k) (qt_pins s k))"

definition quotax_counted :: "quotax_Quota \<Rightarrow> bool" where
  "quotax_counted q \<longleftrightarrow>
     qq_keyCount q = wrap_i64 (quotax_entries q)
     \<and> (0 < qc_maxKeys (qq_cfg q) \<longrightarrow> quotax_entries q \<le> qc_maxKeys (qq_cfg q))"

text \<open>What the fields outside the shards do not touch.\<close>

lemma quotax_frame [urx_frame, simp]:
  "quotax_find h (q\<lparr>qq_keyCount := n\<rparr>) = quotax_find h q"
  "quotax_find h (q\<lparr>qq_allowed := n\<rparr>) = quotax_find h q"
  "quotax_find h (q\<lparr>qq_limited := n\<rparr>) = quotax_find h q"
  "quotax_find h (q\<lparr>qq_closed := x\<rparr>) = quotax_find h q"
  "quotax_find h (q\<lparr>qq_hooks := ks\<rparr>) = quotax_find h q"
  "quotax_wf h (q\<lparr>qq_keyCount := n\<rparr>) = quotax_wf h q"
  "quotax_wf h (q\<lparr>qq_allowed := n\<rparr>) = quotax_wf h q"
  "quotax_wf h (q\<lparr>qq_limited := n\<rparr>) = quotax_wf h q"
  "quotax_wf h (q\<lparr>qq_closed := x\<rparr>) = quotax_wf h q"
  "quotax_wf h (q\<lparr>qq_hooks := ks\<rparr>) = quotax_wf h q"
  "quotax_entries (q\<lparr>qq_keyCount := n\<rparr>) = quotax_entries q"
  "quotax_entries (q\<lparr>qq_allowed := n\<rparr>) = quotax_entries q"
  "quotax_entries (q\<lparr>qq_limited := n\<rparr>) = quotax_entries q"
  "quotax_entries (q\<lparr>qq_closed := x\<rparr>) = quotax_entries q"
  "quotax_entries (q\<lparr>qq_hooks := ks\<rparr>) = quotax_entries q"
  by (simp_all add: quotax_find_def [abs_def] quotax_shardFor_def quotax_wf_def quotax_entries_def)

lemma quotax_put_frame [urx_frame, simp]:
  "qq_cfg (quotax_put h key b q) = qq_cfg q" "qq_cfg (quotax_drop h key q) = qq_cfg q"
  "qq_keyCount (quotax_put h key b q) = qq_keyCount q" "qq_keyCount (quotax_drop h key q) = qq_keyCount q"
  "qq_closed (quotax_put h key b q) = qq_closed q"
  by (simp_all add: quotax_put_def quotax_drop_def Let_def)

lemma quotax_invokeOnMaxKeys_frame [urx_frame, simp]:
  "quotax_find h (quotax_invokeOnMaxKeys key q) = quotax_find h q"
  "quotax_wf h (quotax_invokeOnMaxKeys key q) = quotax_wf h q"
  "quotax_entries (quotax_invokeOnMaxKeys key q) = quotax_entries q"
  "qq_cfg (quotax_invokeOnMaxKeys key q) = qq_cfg q"
  "qq_keyCount (quotax_invokeOnMaxKeys key q) = qq_keyCount q"
  by (simp_all add: quotax_invokeOnMaxKeys_def split: option.split)

lemma quotax_reserveKey_cases:
  obtains (full) "quotax_reserveKey q = (q, False)"
  | (room) "quotax_reserveKey q = (q\<lparr>qq_keyCount := wrap_i64 (qq_keyCount q + 1)\<rparr>, True)"
      "qc_maxKeys (qq_cfg q) \<noteq> 0 \<Longrightarrow> qq_keyCount q < qc_maxKeys (qq_cfg q)"
  by (cases "qc_maxKeys (qq_cfg q) \<noteq> 0 \<and> qc_maxKeys (qq_cfg q) \<le> qq_keyCount q")
    (auto simp: quotax_reserveKey_def quotax_unlimitedKeys_def not_le)

lemma quotax_held_put:
  assumes "quotax_held h c s" and "qt_q s' = quotax_put h k b q" and "quotax_wf h q" and "qq_cfg q = c"
    and "quotax_find h q = quotax_find h (qt_q s)"
    and "qt_pins s' = (qt_pins s)(k := p)" and "quotax_track c (Some b) p"
  shows "quotax_held h c s'"
  using assms by (simp add: quotax_held_def)

lemma quotax_held_same:
  assumes "quotax_held h c s" and "quotax_wf h (qt_q s')" and "qq_cfg (qt_q s') = c"
    and "quotax_find h (qt_q s') = quotax_find h (qt_q s)" and "qt_pins s' = qt_pins s"
  shows "quotax_held h c s'"
  using assms by (simp add: quotax_held_def)

lemma quotax_held_on:
  assumes "quotax_held h c s" and "qt_q s' = quotax_on h k f (qt_q s)" and "qt_pins s' = qt_pins s"
    and "\<And>b p. quotax_track c (Some b) p \<Longrightarrow> quotax_track c (Some (f b)) p"
  shows "quotax_held h c s'"
proof (cases "quotax_find h (qt_q s) k")
  case None
  with assms show ?thesis by (simp add: quotax_on_def quotax_held_def)
next
  case (Some b)
  then have "quotax_track c (Some b) (qt_pins s k)" using assms(1) by (metis quotax_held_def)
  with assms Some show ?thesis
    by (intro quotax_held_put [OF assms(1), of s' k "f b" "qt_q s" "qt_pins s k"]) (simp_all add: quotax_on_def quotax_held_def)
qed

lemma quotax_new_bucket_ok:
  "quotax_cfg_ok (qq_cfg q) \<Longrightarrow> quotax_track (qq_cfg q) (Some (quotax_new_bucket t1 t2 q)) 0"
  by (simp add: quotax_bucket_ok_def quotax_new_bucket_def quotax_touch_def quotax_cfg_ok_def ratex_inv_New)
    (simp add: ratex_New_def Let_def ratex_newConfig_def apply_opts_def ratex_WithRate_def ratex_WithBurst_def
      ratex_minBurst_def)

lemma quotax_track_touch: "quotax_track c (Some b) p \<Longrightarrow> quotax_track c (Some (quotax_touch now b)) p"
  by (simp add: quotax_bucket_ok_def quotax_touch_def)

lemma quotax_track_pin:
  "quotax_track c (Some b) p \<Longrightarrow> p + 1 < 2 ^ 31 \<Longrightarrow> quotax_track c (Some (quotax_pin b)) (p + 1)"
  by (simp add: quotax_bucket_ok_def quotax_pin_def)

lemma quotax_track_unpin:
  "quotax_track c (Some b) p \<Longrightarrow> 0 < p \<Longrightarrow> quotax_track c (Some (quotax_unpin b)) (p - 1)"
  by (auto simp: quotax_bucket_ok_def quotax_unpin_def of_nat_diff)

lemma quotax_track_limiter:
  "quotax_track c (Some b) p \<Longrightarrow> (\<And>l. ratex_inv l \<Longrightarrow> ratex_inv (f l)) \<Longrightarrow> (\<And>l. rl_cfg (f l) = rl_cfg l)
     \<Longrightarrow> quotax_track c (Some (quotax_limiter_upd f b)) p"
  by (simp add: quotax_bucket_ok_def quotax_limiter_upd_def)

lemma quotax_held_find:
  "quotax_held h c s \<Longrightarrow> quotax_find h (qt_q s) k = Some b \<Longrightarrow> quotax_track c (Some b) (qt_pins s k)"
  by (metis quotax_held_def)

lemma quotax_held_lookup:
  assumes "quotax_held h c s" shows "quotax_held h c (s\<lparr>qt_q := fst (quotax_lookup h now k (qt_q s))\<rparr>)"
proof -
  have "fst (quotax_lookup h now k (qt_q s)) = quotax_on h k (quotax_touch now) (qt_q s)"
    by (simp add: quotax_lookup_def quotax_on_def Let_def split: option.split)
  then show ?thesis by (intro quotax_held_on [OF assms, of _ k "quotax_touch now"])
      (simp, simp, rule quotax_track_touch)
qed

text \<open>Both ways to create a bucket leave the key with one the caller may have pinned.\<close>

lemma quotax_held_create:
  assumes "quotax_held h c s" and "quotax_find h (qt_q s) k = None"
    and "quotax_find h q1 = quotax_find h (qt_q s)" "quotax_wf h q1" "qq_cfg q1 = c"
    and "qt_q s' = quotax_put h k b q1" and "quotax_track c (Some b) p" and "qt_pins s' = (qt_pins s)(k := p)"
  shows "quotax_held h c s'"
  using assms by (intro quotax_held_put [OF assms(1,6)]) simp_all

lemma quotax_held_getOrCreate:
  assumes "quotax_held h c s" shows "quotax_held h c (s\<lparr>qt_q := fst (quotax_getOrCreate h ck k (qt_q s))\<rparr>)"
proof (cases "quotax_find h (qt_q s) k")
  case (Some b)
  then have "fst (quotax_getOrCreate h ck k (qt_q s)) = fst (quotax_lookup h (ck_touch ck) k (qt_q s))"
    by (simp add: quotax_getOrCreate_def quotax_lookup_def Let_def)
  with quotax_held_lookup [OF assms] show ?thesis by simp
next
  case None
  have p: "qt_pins s k = 0" using assms None by (metis quotax_held_def quotax_track.simps(1))
  have w: "quotax_wf h (qt_q s)" "qq_cfg (qt_q s) = c" "quotax_cfg_ok c" using assms by (simp_all add: quotax_held_def)
  show ?thesis
  proof (cases rule: quotax_reserveKey_cases [of "qt_q s"])
    case full
    with None w show ?thesis
      by (intro quotax_held_same [OF assms]) (simp_all add: quotax_getOrCreate_def)
  next
    case room
    with None w p quotax_new_bucket_ok [of "qt_q s"] show ?thesis
      by (intro quotax_held_create [OF assms None, where b = "quotax_new_bucket (ck_new ck) (ck_touch ck) (fst (quotax_reserveKey (qt_q s)))"
            and p = 0 and ?q1.0 = "fst (quotax_reserveKey (qt_q s))"])
        (simp_all add: quotax_getOrCreate_def Let_def quotax_new_bucket_def fun_upd_idem)
  qed
qed

lemma quotax_held_wait:
  assumes "quotax_held h c s" and "quotax_act_step h (QWaitBucket k ck) s = Some s'" shows "quotax_held h c s'"
proof (cases "quotax_find h (qt_q s) k")
  case (Some b)
  note t = quotax_held_find [OF assms(1) Some]
  have t2: "quotax_track c (Some (quotax_touch (ck_touch ck) (quotax_pin b))) (qt_pins s k + 1)"
    using assms(2) by (intro quotax_track_touch quotax_track_pin [OF t]) (simp split: if_splits)
  have "s' = quotax_hold k (s\<lparr>qt_q := quotax_put h k (quotax_touch (ck_touch ck) (quotax_pin b)) (qt_q s)\<rparr>)"
    using assms(2) Some by (simp add: quotax_bucketForWait_def split: if_splits)
  then show ?thesis using assms(1)
    by (intro quotax_held_put [OF assms(1) _ _ _ _ _ t2, of s' k "qt_q s"]) (auto simp: quotax_hold_def quotax_held_def)
next
  case None
  have p: "qt_pins s k = 0" using assms None by (metis quotax_held_def quotax_track.simps(1))
  have w: "quotax_wf h (qt_q s)" "qq_cfg (qt_q s) = c" "quotax_cfg_ok c" using assms by (simp_all add: quotax_held_def)
  show ?thesis
  proof (cases rule: quotax_reserveKey_cases [of "qt_q s"])
    case full
    with None w assms(2) show ?thesis
      by (intro quotax_held_same [OF assms(1)]) (auto simp: quotax_bucketForWait_def quotax_add_limited_def split: if_splits)
  next
    case room
    let ?q1 = "(qt_q s)\<lparr>qq_keyCount := wrap_i64 (qq_keyCount (qt_q s) + 1)\<rparr>"
    have s': "s' = quotax_hold k (s\<lparr>qt_q := quotax_put h k (quotax_pin (quotax_new_bucket (ck_new ck) (ck_touch ck) ?q1)) ?q1\<rparr>)"
      using assms(2) None room by (simp add: quotax_bucketForWait_def split: if_splits)
    have "quotax_track c (Some (quotax_new_bucket (ck_new ck) (ck_touch ck) ?q1)) 0"
      using quotax_new_bucket_ok [of ?q1] w by simp
    then have "quotax_track c (Some (quotax_pin (quotax_new_bucket (ck_new ck) (ck_touch ck) ?q1))) 1"
      using quotax_track_pin [of c _ 0] by simp
    with w p show ?thesis
      by (intro quotax_held_create [OF assms(1) None, of ?q1 s']) (simp_all add: s' quotax_hold_def)
  qed
qed

lemma quotax_held_pin:
  assumes "quotax_held h c s" and "0 < qt_pins s k" and "qt_q s' = quotax_on h k f (qt_q s)"
    and "qt_pins s' = (qt_pins s)(k := p)" and "\<And>b. quotax_track c (Some b) (qt_pins s k) \<Longrightarrow> quotax_track c (Some (f b)) p"
  shows "quotax_held h c s'"
proof (cases "quotax_find h (qt_q s) k")
  case None
  with assms(1,2) show ?thesis by (metis quotax_held_def quotax_track.simps(1) less_numeral_extra(3))
next
  case (Some b)
  note t = assms(5) [OF quotax_held_find [OF assms(1) Some]]
  show ?thesis
    using assms(1,3,4) Some
    by (intro quotax_held_put [OF assms(1) _ _ _ _ _ t, of s' k "qt_q s"]) (simp_all add: quotax_on_def quotax_held_def)
qed

text \<open>A pass over a shard drops only buckets without pins.\<close>

lemma quotax_held_filter:
  assumes "quotax_held h c s" and "qq_shards (qt_q s') = (qq_shards (qt_q s))[i := filter P (qq_shards (qt_q s) ! i)]"
    and "i < length (qq_shards (qt_q s))" and "qq_cfg (qt_q s') = c" and "qt_pins s' = qt_pins s"
    and "\<And>k b. \<not> P (k, b) \<Longrightarrow> \<not> 0 < bk_pins b"
  shows "quotax_held h c s'"
proof -
  have w: "quotax_wf h (qt_q s)" using assms(1) by (simp add: quotax_held_def)
  have "quotax_track c (quotax_find h (qt_q s') k) (qt_pins s' k)" for k
  proof (cases "quotax_find h (qt_q s) k")
    case None
    with assms(1,5) quotax_find_filter [OF w assms(2,3), of k] show ?thesis by (metis quotax_held_def option.case(1))
  next
    case (Some b)
    note t = quotax_held_find [OF assms(1) Some]
    then have "\<not> P (k, b) \<Longrightarrow> qt_pins s k = 0" using assms(6) [of k b] by (simp add: quotax_bucket_ok_def)
    with t quotax_find_filter [OF w assms(2,3), of k] Some assms(5) show ?thesis by auto
  qed
  with assms(1,4) quotax_wf_filter [OF w assms(2,3)] show ?thesis by (simp add: quotax_held_def)
qed

lemma quotax_held_remove:
  assumes "quotax_held h c s" shows "quotax_held h c (s\<lparr>qt_q := fst (quotax_Remove h k (qt_q s))\<rparr>)"
proof (cases "quotax_find h (qt_q s) k")
  case (Some b)
  have "qt_pins s k = 0" if "\<not> 0 < bk_pins b"
    using that quotax_held_find [OF assms Some] by (simp add: quotax_bucket_ok_def)
  with assms Some show ?thesis by (simp add: quotax_Remove_def Let_def quotax_held_def)
qed (use assms in \<open>simp add: quotax_Remove_def quotax_held_def\<close>)

lemma ratex_inv_Release: "ratex_inv l \<Longrightarrow> 0 \<le> n \<Longrightarrow> ratex_inv (ratex_Release n l)"
  by (simp add: ratex_Release_def Let_def ratex_inv_refund)

lemma ratex_Release_cfg [urx_frame, simp]: "rl_cfg (ratex_Release n l) = rl_cfg l"
  by (simp add: ratex_Release_def ratex_refund_def Let_def)

lemma ratex_AllowN_cfg [urx_frame, simp]: "rl_cfg (fst (ratex_AllowN now n l)) = rl_cfg l"
  by (simp add: ratex_AllowN_alt Let_def)

lemma ratex_Tokens_state: "fst (ratex_Tokens now l) = ratex_refill now l"
  by (simp add: ratex_Tokens_def Let_def)

lemma quotax_held_step:
  assumes "quotax_held h c s" and "quotax_act_step h a s = Some s'"
  shows "quotax_held h c s'"
proof (cases a)
  case (QLookup k now)
  with assms quotax_held_lookup [OF assms(1)] show ?thesis by auto
next
  case (QCreate k ck)
  with assms quotax_held_getOrCreate [OF assms(1)] show ?thesis by auto
next
  case (QTake k now n)
  show ?thesis
    by (rule quotax_held_on [OF assms(1), of s' k, OF _ _ quotax_track_limiter [of c _ _ "\<lambda>l. fst (ratex_AllowN now n l)"]])
      (use assms(2) QTake in \<open>auto intro: ratex_inv_AllowN\<close>)
next
  case (QTokens k now)
  show ?thesis
    by (rule quotax_held_on [OF assms(1), of s' k, OF _ _ quotax_track_limiter [of c _ _ "\<lambda>l. fst (ratex_Tokens now l)"]])
      (use assms(2) QTokens in \<open>auto simp: ratex_Tokens_state intro: ratex_inv_refill\<close>)
next
  case (QRelease k n)
  show ?thesis
    by (rule quotax_held_on [OF assms(1), of s' k, OF _ _ quotax_track_limiter [of c _ _ "ratex_Release n"]])
      (use assms(2) QRelease in \<open>auto intro: ratex_inv_Release split: if_splits\<close>)
next
  case (QWaitBucket k ck)
  with assms quotax_held_wait [OF assms(1)] show ?thesis by simp
next
  case (QPin k)
  show ?thesis
    by (rule quotax_held_pin [OF assms(1), of k s' quotax_pin "qt_pins s k + 1"])
      (use assms(2) QPin in \<open>auto simp: quotax_hold_def quotax_bucket_ok_def quotax_pin_def split: if_splits\<close>)
next
  case (QUnpin k)
  have p: "0 < qt_pins s k"
    and s': "s' = s\<lparr>qt_q := quotax_on h k quotax_unpin (qt_q s), qt_pins := (qt_pins s)(k := qt_pins s k - 1)\<rparr>"
    using assms(2) QUnpin by (simp_all split: if_splits)
  show ?thesis
  proof (rule quotax_held_pin [OF assms(1) p, of s' quotax_unpin "qt_pins s k - 1"])
    show "qt_q s' = quotax_on h k quotax_unpin (qt_q s)" by (simp add: s')
    show "qt_pins s' = (qt_pins s)(k := qt_pins s k - 1)" by (cases s) (simp only: s' quotax_sys.update_convs quotax_sys.select_convs)
  qed (rule quotax_track_unpin [OF _ p])
next
  case (QRemove k)
  with assms quotax_held_remove [OF assms(1)] show ?thesis by auto
next
  case (QEvict cutoff stale i)
  let ?P = "\<lambda>(k, b). \<not> (k \<in> set stale \<and> bk_pins b = 0 \<and> bk_lastAccess b < cutoff)"
  have i: "i < length (qq_shards (qt_q s))" and s': "s' = s\<lparr>qt_q := quotax_evict_locked cutoff stale i (qt_q s)\<rparr>"
    using assms(2) QEvict by (simp_all split: if_splits)
  show ?thesis
  proof (rule quotax_held_filter [OF assms(1) _ i, where P = ?P])
    show "qq_cfg (qt_q s') = c" using assms(1) by (simp add: s' quotax_evict_locked_def Let_def quotax_held_def)
  qed (auto simp: s' quotax_evict_locked_def Let_def)
next
  case (QResetShard i)
  have i: "i < length (qq_shards (qt_q s))"
    and q: "qt_q s' = fst (quotax_reset_shard i (qt_q s, qt_acc s))" and p: "qt_pins s' = qt_pins s"
    using assms(2) QResetShard by (auto split: if_splits prod.splits)
  show ?thesis
  proof (rule quotax_held_filter [OF assms(1) _ i, where P = "\<lambda>(k, b). 0 < bk_pins b"])
    show "qq_cfg (qt_q s') = c" using assms(1) by (simp add: q quotax_reset_shard_def Let_def quotax_held_def)
  qed (auto simp: q p quotax_reset_shard_def Let_def)
next
  case QResetStore
  with assms show ?thesis by (auto simp: quotax_held_def)
next
  case QClose
  with assms show ?thesis by (auto simp: quotax_held_def quotax_Close_def)
qed

lemma quotax_held_run: "quotax_run h as s = Some s' \<Longrightarrow> quotax_held h c s \<Longrightarrow> quotax_held h c s'"
  by (induction as arbitrary: s) (auto split: option.splits dest: quotax_held_step)

text \<open>The counter and the cap.\<close>

lemma quotax_counted_cong:
  "quotax_counted q \<Longrightarrow> qq_keyCount q' = qq_keyCount q \<Longrightarrow> quotax_entries q' = quotax_entries q
     \<Longrightarrow> qq_cfg q' = qq_cfg q \<Longrightarrow> quotax_counted q'"
  by (simp add: quotax_counted_def)

lemma quotax_counted_on: "quotax_wf h q \<Longrightarrow> quotax_counted q \<Longrightarrow> quotax_counted (quotax_on h k f q)"
  by (cases "quotax_find h q k") (auto simp: quotax_on_def quotax_entries_put elim!: quotax_counted_cong)

lemma quotax_counted_less:
  assumes "quotax_counted q" and "quotax_entries q' = quotax_entries q - d" and "0 \<le> d"
    and "qq_keyCount q' = wrap_i64 (qq_keyCount q - d)" and "qq_cfg q' = qq_cfg q"
  shows "quotax_counted q'"
  using assms by (auto simp: quotax_counted_def wrap_i64_step)

lemma quotax_entries_nonneg: "0 \<le> quotax_entries q"
  by (simp add: quotax_entries_def)

text \<open>A reservation that succeeds is for the entry the caller then puts.\<close>

lemma quotax_counted_reserve:
  assumes "quotax_wf h q" and "quotax_counted q" and "quotax_find h q k = None"
    and "0 \<le> qc_maxKeys (qq_cfg q)" "qc_maxKeys (qq_cfg q) < 2 ^ 63" and "quotax_reserveKey q = (q1, True)"
  shows "quotax_counted (quotax_put h k b q1)"
proof -
  have q1: "q1 = q\<lparr>qq_keyCount := wrap_i64 (qq_keyCount q + 1)\<rparr>"
    and m: "qc_maxKeys (qq_cfg q) \<noteq> 0 \<Longrightarrow> qq_keyCount q < qc_maxKeys (qq_cfg q)"
    using assms(6) by (cases rule: quotax_reserveKey_cases [of q]; simp)+
  have "quotax_entries q + 1 \<le> qc_maxKeys (qq_cfg q)" if "0 < qc_maxKeys (qq_cfg q)"
    using that m assms(2,5) quotax_entries_nonneg [of q] by (simp add: quotax_counted_def)
  with assms(1-3) show ?thesis
    by (auto simp: q1 quotax_counted_def quotax_entries_put wrap_i64_step)
qed

lemma quotax_counted_full:
  "quotax_counted q \<Longrightarrow> quotax_reserveKey q = (q1, False) \<Longrightarrow> quotax_counted q1 \<and> q1 = q"
  by (auto simp: quotax_reserveKey_def split: if_splits)

lemma quotax_counted_getOrCreate:
  assumes "quotax_wf h q" and "quotax_counted q" and "0 \<le> qc_maxKeys (qq_cfg q)" "qc_maxKeys (qq_cfg q) < 2 ^ 63"
  shows "quotax_counted (fst (quotax_getOrCreate h ck k q))"
proof (cases "quotax_find h q k")
  case None
  obtain q1 ok where r: "quotax_reserveKey q = (q1, ok)" by fastforce
  show ?thesis
  proof (cases ok)
    case True
    with quotax_counted_reserve [OF assms(1,2) None assms(3,4)] r None show ?thesis
      by (simp add: quotax_getOrCreate_def Let_def)
  next
    case False
    with quotax_counted_full [OF assms(2)] r None show ?thesis
      by (auto simp: quotax_getOrCreate_def elim!: quotax_counted_cong)
  qed
qed (use assms in \<open>simp add: quotax_getOrCreate_def Let_def quotax_counted_def quotax_entries_put\<close>)

lemma quotax_counted_wait:
  assumes "quotax_wf h q" and "quotax_counted q" and "0 \<le> qc_maxKeys (qq_cfg q)" "qc_maxKeys (qq_cfg q) < 2 ^ 63"
  shows "quotax_counted (fst (quotax_bucketForWait h ck k q))"
proof (cases "quotax_find h q k")
  case None
  obtain q1 ok where r: "quotax_reserveKey q = (q1, ok)" by fastforce
  show ?thesis
  proof (cases ok)
    case True
    with quotax_counted_reserve [OF assms(1,2) None assms(3,4)] r None show ?thesis
      by (simp add: quotax_bucketForWait_def)
  next
    case False
    with quotax_counted_full [OF assms(2)] r None show ?thesis
      by (auto simp: quotax_bucketForWait_def quotax_add_limited_def elim!: quotax_counted_cong)
  qed
qed (use assms in \<open>simp add: quotax_bucketForWait_def quotax_counted_def quotax_entries_put\<close>)

lemma quotax_counted_remove:
  assumes "quotax_wf h q" and "quotax_counted q"
  shows "quotax_counted (fst (quotax_Remove h k q))"
proof (cases "quotax_find h q k")
  case (Some b)
  with assms show ?thesis
    by (auto simp: quotax_Remove_def Let_def quotax_entries_drop intro: quotax_counted_less [OF assms(2), of _ 1])
qed (use assms in \<open>simp add: quotax_Remove_def\<close>)

lemma quotax_counted_evict:
  assumes "quotax_counted q" and "i < length (qq_shards q)"
  shows "quotax_counted (quotax_evict_locked cutoff stale i q)"
proof (rule quotax_counted_less [OF assms(1)])
  let ?P = "\<lambda>(k, b). \<not> (k \<in> set stale \<and> bk_pins b = 0 \<and> bk_lastAccess b < cutoff)"
  show "quotax_entries (quotax_evict_locked cutoff stale i q)
      = quotax_entries q - (int (length (qq_shards q ! i)) - int (length (filter ?P (qq_shards q ! i))))"
    by (rule quotax_entries_filter [OF _ assms(2)]) (simp add: quotax_evict_locked_def Let_def)
  show "0 \<le> int (length (qq_shards q ! i)) - int (length (filter ?P (qq_shards q ! i)))" by simp
qed (simp_all add: quotax_evict_locked_def Let_def)

lemma quotax_counted_step:
  assumes "quotax_held h c s" and "quotax_counted (qt_q s)" and "0 \<le> qc_maxKeys c" "qc_maxKeys c < 2 ^ 63"
    and "quotax_act_step h a s = Some s'" and "\<not> quotax_is_reset a"
  shows "quotax_counted (qt_q s')"
proof -
  have w: "quotax_wf h (qt_q s)" and c: "qq_cfg (qt_q s) = c" using assms(1) by (simp_all add: quotax_held_def)
  note on = quotax_counted_on [OF w assms(2)]
  note lk = quotax_counted_getOrCreate [OF w assms(2)] quotax_counted_wait [OF w assms(2)]
  show ?thesis
  proof (cases a)
    case (QLookup k now)
    have "fst (quotax_lookup h now k (qt_q s)) = quotax_on h k (quotax_touch now) (qt_q s)"
      by (simp add: quotax_lookup_def quotax_on_def Let_def split: option.split)
    with QLookup assms(5) on [of k "quotax_touch now"] show ?thesis by auto
  next
    case (QWaitBucket k ck)
    with assms(3-5) lk(2) [of ck k] c show ?thesis
      by (cases "quotax_bucketForWait h ck k (qt_q s)") (auto simp: quotax_hold_def split: if_splits option.splits)
  next
    case QClose
    have "quotax_counted (quotax_Close (qt_q s))"
      by (rule quotax_counted_cong [OF assms(2)]) (simp_all add: quotax_Close_def)
    with QClose assms(5) show ?thesis by auto
  next
    case (QPin k)
    with assms(5) on [of k quotax_pin] show ?thesis by (auto simp: quotax_hold_def split: if_splits)
  qed (use assms(2-6) c on lk quotax_counted_remove [OF w assms(2)] quotax_counted_evict [OF assms(2)]
       in \<open>auto simp: quotax_hold_def split: if_splits\<close>)
qed

lemma quotax_counted_run:
  assumes "quotax_run h as s = Some s'" and "quotax_held h c s" and "quotax_counted (qt_q s)"
    and "0 \<le> qc_maxKeys c" "qc_maxKeys c < 2 ^ 63" and "\<forall>a\<in>set as. \<not> quotax_is_reset a"
  shows "quotax_counted (qt_q s')"
  using assms
proof (induction as arbitrary: s)
  case (Cons a as)
  then obtain s1 where s1: "quotax_act_step h a s = Some s1" "quotax_run h as s1 = Some s'"
    by (auto split: option.splits)
  show ?case
    using Cons.IH [OF s1(2) quotax_held_step [OF Cons.prems(2) s1(1)]
        quotax_counted_step [OF Cons.prems(2,3,4,5) s1(1)]] Cons.prems(4-6) by simp
qed simp

section \<open>Properties\<close>

definition quotax_start :: "(quotax_config \<Rightarrow> quotax_config) option list \<Rightarrow> quotax_sys" where
  "quotax_start opts = \<lparr>qt_q = quotax_New opts, qt_pins = (\<lambda>_. 0), qt_acc = 0\<rparr>"

lemma quotax_New_empty:
  assumes "0 < qc_shards (quotax_newConfig opts)" and "qc_shards (quotax_newConfig opts) < 2 ^ 63"
  shows "quotax_wf h (quotax_New opts)" and "quotax_find h (quotax_New opts) k = None"
    and "quotax_entries (quotax_New opts) = 0" and "qq_keyCount (quotax_New opts) = 0"
    and "qq_cfg (quotax_New opts) = quotax_newConfig opts"
proof -
  show w: "quotax_wf h (quotax_New opts)" using assms by (simp add: quotax_wf_def quotax_New_def Let_def)
  show "quotax_find h (quotax_New opts) k = None"
    using quotax_shardFor_less [OF w, of k] by (simp add: quotax_find_def quotax_New_def Let_def)
qed (simp_all add: quotax_entries_def quotax_New_def Let_def map_replicate_const sum_list_replicate)

lemma quotax_newConfig_ok: "quotax_cfg_ok (quotax_newConfig opts)"
  by (simp add: quotax_cfg_ok_def quotax_newConfig_def Let_def quotax_DefaultRate_def quotax_minBurst_def)


lemmas quotax_eval = quotax_start_def quotax_New_def quotax_newConfig_def Let_def quotax_WithShards_def
  quotax_WithMaxKeys_def quotax_minBurst_def quotax_DefaultRate_def quotax_DefaultBurst_def quotax_unlimitedKeys_def
  quotax_bucketForWait_def quotax_find_def quotax_shardFor_def quotax_reserveKey_def quotax_hold_def quotax_put_def
  quotax_new_bucket_def quotax_touch_def quotax_pin_def quotax_Remove_def quotax_evict_locked_def
  quotax_getOrCreate_def quotax_invokeOnMaxKeys_def quotax_reset_shard_def quotax_entries_def quotax_KeyCount_def


text \<open>
  \<open>Reset\<close> writes the key count after it has walked the shards, so a key created meanwhile in a shard it has left is lost
  from the count, and the cap is exceeded: with a cap of one key, two are tracked, and \<open>KeyCount\<close> says one.
\<close>

theorem quotax_Reset_exceeds_cap:
  "\<exists>s. quotax_run (\<lambda>k. if k = ''a'' then 0 else 1)
          [QResetShard 0, QCreate ''a'' \<lparr>ck_new = 0, ck_touch = 0, ck_take = 0\<rparr>, QResetShard 1, QResetStore,
           QCreate ''b'' \<lparr>ck_new = 0, ck_touch = 0, ck_take = 0\<rparr>]
          (quotax_start [Some (quotax_WithShards 2), Some (quotax_WithMaxKeys 1)]) = Some s
     \<and> qc_maxKeys (qq_cfg (qt_q s)) = 1 \<and> quotax_KeyCount (qt_q s) = 1 \<and> quotax_entries (qt_q s) = 2"
  by (simp add: quotax_eval numeral_2_eq_2)

end
