(* ===== verification/Quotax_Calls.thy ===== *)
theory Quotax_Calls
  imports Quotax_Keys
begin

text \<open>
  Package \<open>quotax\<close>, part three: a sequence of \<open>AllowN\<close> calls on any keys, seen from one of them. What a key is
  granted is what one limiter of \<open>ratex\<close> grants to the calls on that key, so the bound of a limiter holds for
  each key, whatever the other keys do.
\<close>

type_synonym quotax_call = "quotax_clock \<times> string \<times> int"

text \<open>The tokens granted to the key \<open>k\<close> by a sequence of calls.\<close>

fun quotax_calls ::
  "(string \<Rightarrow> u64) \<Rightarrow> string \<Rightarrow> quotax_call list \<Rightarrow> quotax_Quota \<Rightarrow> quotax_Quota \<times> int" where
  "quotax_calls h k [] q = (q, 0)"
| "quotax_calls h k ((ck, key, n) # cs) q =
     (case quotax_AllowN h ck key n q of
        (q1, ok) \<Rightarrow> (case quotax_calls h k cs q1 of (q2, g) \<Rightarrow> (q2, (if ok \<and> key = k then max 1 n else 0) + g)))"

definition quotax_calls_of :: "string \<Rightarrow> quotax_call list \<Rightarrow> ratex_call list" where
  "quotax_calls_of k cs = map (\<lambda>(ck, key, n). RAllowN (ck_take ck) n) (filter (\<lambda>(ck, key, n). key = k) cs)"

lemma quotax_calls_of_simps [simp]:
  "quotax_calls_of k [] = []"
  "quotax_calls_of k ((ck, key, n) # cs) = (if key = k then RAllowN (ck_take ck) n # quotax_calls_of k cs else quotax_calls_of k cs)"
  by (simp_all add: quotax_calls_of_def)

section \<open>One call\<close>

lemma quotax_record_frame [urx_frame, simp]:
  "quotax_find h (quotax_record ok q) = quotax_find h q"
  "quotax_wf h (quotax_record ok q) = quotax_wf h q"
  "qq_cfg (quotax_record ok q) = qq_cfg q"
  "qq_closed (quotax_record ok q) = qq_closed q"
  by (simp_all add: quotax_record_def quotax_add_allowed_def quotax_add_limited_def)

lemma quotax_AllowN_tracked:
  assumes "quotax_wf h q" and "quotax_find h q key = Some b" and "\<not> qq_closed q"
  shows "snd (quotax_AllowN h ck key n q) = snd (ratex_AllowN (ck_take ck) n (bk_limiter b))"
    and "quotax_find h (fst (quotax_AllowN h ck key n q))
      = (quotax_find h q)(key \<mapsto> (quotax_touch (ck_touch ck) b)\<lparr>bk_limiter := fst (ratex_AllowN (ck_take ck) n (bk_limiter b))\<rparr>)"
  using assms by (simp_all add: quotax_AllowN_def quotax_lookup_def quotax_touch_def Let_def split: prod.split)

text \<open>What the limiter of a key is once a call has created it.\<close>

definition quotax_fresh :: "quotax_Quota \<Rightarrow> int \<Rightarrow> ratex_Limiter" where
  "quotax_fresh q t = ratex_New t [Some (ratex_WithRate (qc_rate (qq_cfg q))), Some (ratex_WithBurst (qc_burst (qq_cfg q)))]"

lemma quotax_AllowN_new:
  assumes "quotax_wf h q" and "quotax_find h q key = None" and "\<not> qq_closed q"
  shows "(\<not> snd (quotax_AllowN h ck key n q) \<and> quotax_find h (fst (quotax_AllowN h ck key n q)) = quotax_find h q)
    \<or> (snd (quotax_AllowN h ck key n q) = snd (ratex_AllowN (ck_take ck) n (quotax_fresh q (ck_new ck)))
       \<and> quotax_find h (fst (quotax_AllowN h ck key n q))
             = (quotax_find h q)(key \<mapsto> \<lparr>bk_limiter = fst (ratex_AllowN (ck_take ck) n (quotax_fresh q (ck_new ck))),
                                  bk_lastAccess = ck_touch ck, bk_pins = 0\<rparr>))"
proof (cases rule: quotax_reserveKey_cases [of q])
  case full
  with assms show ?thesis
    by (simp add: quotax_AllowN_def quotax_lookup_def quotax_getOrCreate_def quotax_add_limited_def Let_def)
next
  case room
  with assms show ?thesis
    by (simp add: quotax_AllowN_def quotax_lookup_def quotax_getOrCreate_def Let_def quotax_new_bucket_def
        quotax_touch_def quotax_fresh_def split: prod.split)
qed

lemma quotax_AllowN_frame:
  assumes "quotax_wf h q"
  shows "quotax_wf h (fst (quotax_AllowN h ck key n q))" and "qq_cfg (fst (quotax_AllowN h ck key n q)) = qq_cfg q"
    and "qq_closed (fst (quotax_AllowN h ck key n q)) = qq_closed q"
proof -
  have c: "qq_closed (quotax_invokeOnMaxKeys key q) = qq_closed q"
    by (simp add: quotax_invokeOnMaxKeys_def split: option.split)
  show "quotax_wf h (fst (quotax_AllowN h ck key n q))" "qq_cfg (fst (quotax_AllowN h ck key n q)) = qq_cfg q"
    "qq_closed (fst (quotax_AllowN h ck key n q)) = qq_closed q"
    using assms c
    by (cases "quotax_find h q key"; cases rule: quotax_reserveKey_cases [of q];
        simp add: quotax_AllowN_def quotax_lookup_def quotax_getOrCreate_def quotax_add_limited_def Let_def split: prod.split)+
qed

lemma quotax_AllowN_other:
  assumes "quotax_wf h q" and "k \<noteq> key"
  shows "quotax_find h (fst (quotax_AllowN h ck key n q)) k = quotax_find h q k"
proof (cases "qq_closed q")
  case False
  show ?thesis
  proof (cases "quotax_find h q key")
    case None
    from quotax_AllowN_new [OF assms(1) this False, of ck n] assms(2) show ?thesis by (elim disjE conjE exE) simp_all
  next
    case (Some b)
    with quotax_AllowN_tracked(2) [OF assms(1) Some False, of ck n] assms(2) show ?thesis by simp
  qed
qed (simp add: quotax_AllowN_def)

section \<open>A sequence of calls\<close>

text \<open>A tracked key is granted what its limiter grants.\<close>

lemma quotax_calls_tracked:
  assumes "quotax_wf h q" and "quotax_find h q k = Some b" and "\<not> qq_closed q"
  shows "snd (quotax_calls h k cs q) = snd (ratex_calls (quotax_calls_of k cs) (bk_limiter b))"
  using assms
proof (induction cs arbitrary: q b)
  case (Cons c cs)
  obtain ck key n where c: "c = (ck, key, n)" by (cases c)
  let ?q1 = "fst (quotax_AllowN h ck key n q)"
  note fr = quotax_AllowN_frame [OF Cons.prems(1), of ck key n]
  show ?case
  proof (cases "key = k")
    case True
    note tr = quotax_AllowN_tracked [OF Cons.prems(1), of key b ck n]
    have "snd (quotax_calls h k cs ?q1)
        = snd (ratex_calls (quotax_calls_of k cs) (fst (ratex_AllowN (ck_take ck) n (bk_limiter b))))"
      using Cons.IH [of ?q1 "(quotax_touch (ck_touch ck) b)\<lparr>bk_limiter := fst (ratex_AllowN (ck_take ck) n (bk_limiter b))\<rparr>"]
        fr tr(2) Cons.prems(1-3) True by simp
    with True tr(1) Cons.prems show ?thesis by (auto simp: c split: prod.splits)
  next
    case False
    have "snd (quotax_calls h k cs ?q1) = snd (ratex_calls (quotax_calls_of k cs) (bk_limiter b))"
      using Cons.IH [of ?q1 b] fr quotax_AllowN_other [OF Cons.prems(1), of k key ck n] Cons.prems False by simp
    with False show ?thesis by (auto simp: c split: prod.splits)
  qed
qed simp

text \<open>A key not yet tracked is granted nothing, or what a limiter created at one of the calls grants from that call on.\<close>

lemma quotax_calls_new:
  assumes "quotax_wf h q" and "quotax_find h q k = None" and "\<not> qq_closed q"
  shows "snd (quotax_calls h k cs q) = 0
    \<or> (\<exists>m. \<exists>(ck, key, n)\<in>set cs. key = k
          \<and> snd (quotax_calls h k cs q) = snd (ratex_calls (drop m (quotax_calls_of k cs)) (quotax_fresh q (ck_new ck))))"
  using assms
proof (induction cs arbitrary: q)
  case (Cons c cs)
  obtain ck key n where c: "c = (ck, key, n)" by (cases c)
  obtain q1 ok where q1: "quotax_AllowN h ck key n q = (q1, ok)" by fastforce
  note fr = quotax_AllowN_frame [OF Cons.prems(1), of ck key n, unfolded q1 fst_conv]
  have f: "quotax_fresh q1 t = quotax_fresh q t" for t by (simp add: quotax_fresh_def fr)
  have later: ?case if nf: "quotax_find h q1 k = None" and g: "snd (quotax_calls h k (c # cs) q) = snd (quotax_calls h k cs q1)"
  proof (cases "snd (quotax_calls h k cs q1) = 0")
    case False
    then obtain m ck2 n2 where m: "(ck2, k, n2) \<in> set cs"
      "snd (quotax_calls h k cs q1) = snd (ratex_calls (drop m (quotax_calls_of k cs)) (quotax_fresh q (ck_new ck2)))"
      using Cons.IH [OF fr(1) nf] fr(3) Cons.prems(3) by (auto simp: f)
    have "drop (if key = k then Suc m else m) (quotax_calls_of k (c # cs)) = drop m (quotax_calls_of k cs)" by (simp add: c)
    with m g show ?thesis by (intro disjI2 exI [of _ "if key = k then Suc m else m"] bexI [of _ "(ck2, k, n2)"]) simp_all
  qed (use g in simp)
  show ?case
  proof (cases "key = k")
    case False
    with quotax_AllowN_other [OF Cons.prems(1), of k key ck n] q1 Cons.prems(2) show ?thesis
      by (intro later) (auto simp: c split: prod.split)
  next
    case True
    from quotax_AllowN_new [OF Cons.prems(1), of key ck n] True Cons.prems q1
    consider (refused) "\<not> ok" "quotax_find h q1 = quotax_find h q"
      | (created) "ok = snd (ratex_AllowN (ck_take ck) n (quotax_fresh q (ck_new ck)))"
          "quotax_find h q1 k = Some \<lparr>bk_limiter = fst (ratex_AllowN (ck_take ck) n (quotax_fresh q (ck_new ck))),
                                  bk_lastAccess = ck_touch ck, bk_pins = 0\<rparr>" by auto
    then show ?thesis
    proof cases
      case refused
      with Cons.prems(2) q1 show ?thesis by (intro later) (auto simp: c split: prod.split)
    next
      case created
      have "snd (quotax_calls h k (c # cs) q) = snd (ratex_calls (quotax_calls_of k (c # cs)) (quotax_fresh q (ck_new ck)))"
        using quotax_calls_tracked [OF fr(1) created(2), of cs] fr(3) Cons.prems(3) True created(1) q1
        by (auto simp: c split: prod.splits)
      with True c show ?thesis by (intro disjI2 exI [of _ 0] bexI [of _ c]) auto
    qed
  qed
qed simp

lemma quotax_fresh_cfg:
  "quotax_cfg_ok (qq_cfg q) \<Longrightarrow>
     ratex_newConfig [Some (ratex_WithRate (qc_rate (qq_cfg q))), Some (ratex_WithBurst (qc_burst (qq_cfg q)))]
       = \<lparr>rc_rate = qc_rate (qq_cfg q), rc_burst = qc_burst (qq_cfg q)\<rparr>"
  by (simp add: quotax_cfg_ok_def ratex_newConfig_def ratex_WithRate_def ratex_WithBurst_def ratex_minBurst_def)

lemma quotax_calls_of_length: "length (quotax_calls_of k cs) \<le> length cs"
  by (simp add: quotax_calls_of_def)

section \<open>The rate of a key\<close>



end
