(* ===== verification/Hedgex.thy ===== *)
theory Hedgex
  imports Panix F64
begin

text \<open>
  Package \<open>hedgex\<close>: request hedging. The dispatch loop is a machine whose events are what its \<open>select\<close> receives: the
  end of the context, the result of a copy, the stagger timer. A copy runs in its own goroutine on its own
  controller; its result is a function of that controller, and the event says when it is delivered.
\<close>

subsection \<open>Errors and configuration\<close>

definition hedgex_ErrNilFunc :: goerr where "hedgex_ErrNilFunc = Sentinel ''hedgex: nil function''"
definition hedgex_ErrAllFailed :: goerr where "hedgex_ErrAllFailed = Sentinel ''hedgex: all hedged copies failed''"
definition hedgex_ErrCancelled :: goerr where "hedgex_ErrCancelled = Sentinel ''hedgex: context cancelled''"

definition hedgex_errAllFailed :: "goerr \<Rightarrow> goerr" where
  "hedgex_errAllFailed cause = Errorf ''%w: %w'' [hedgex_ErrAllFailed, cause]"

definition hedgex_errCancelled :: "goerr \<Rightarrow> goerr" where
  "hedgex_errCancelled cause = Errorf ''%w: %w'' [hedgex_ErrCancelled, cause]"

definition hedgex_DefaultMaxParallel :: int where "hedgex_DefaultMaxParallel = 3"
definition hedgex_DefaultDelay :: int where "hedgex_DefaultDelay = 100 * 10 ^ 6"
definition hedgex_DefaultMaxDelay :: int where "hedgex_DefaultMaxDelay = 10 ^ 9"
definition hedgex_minParallel :: int where "hedgex_minParallel = 1"
definition hedgex_spreadDivisor :: int where "hedgex_spreadDivisor = 4"
definition hedgex_minSpread :: int where "hedgex_minSpread = 10 ^ 6"
definition hedgex_DefaultHedgeProbability :: f64 where "hedgex_DefaultHedgeProbability = 1"
definition hedgex_opExecute :: string where "hedgex_opExecute = ''hedgex.Execute''"

record hedgex_config =
  hc_maxParallel :: int
  hc_delay :: int
  hc_maxDelay :: int
  hc_hedgeProb :: f64
  hc_onHedge :: "(int \<Rightarrow> unit outcome) option"
  hc_randFn :: "(unit \<Rightarrow> f64) option"
  hc_op :: string

definition hedgex_newConfig :: "(hedgex_config \<Rightarrow> hedgex_config) option list \<Rightarrow> hedgex_config" where
  "hedgex_newConfig opts =
     (let c0 = apply_opts opts
        \<lparr>hc_maxParallel = hedgex_DefaultMaxParallel, hc_delay = hedgex_DefaultDelay, hc_maxDelay = hedgex_DefaultMaxDelay,
         hc_hedgeProb = hedgex_DefaultHedgeProbability, hc_onHedge = None, hc_randFn = None, hc_op = []\<rparr>;
        c1 = (if hc_maxParallel c0 < hedgex_minParallel then c0\<lparr>hc_maxParallel := hedgex_minParallel\<rparr> else c0)
      in if hc_maxDelay c1 < hc_delay c1 then c1\<lparr>hc_maxDelay := hc_delay c1\<rparr> else c1)"

definition hedgex_opOrDefault :: "hedgex_config \<Rightarrow> string" where
  "hedgex_opOrDefault c = (if hc_op c \<noteq> [] then hc_op c else hedgex_opExecute)"

definition hedgex_WithMaxParallel :: "int \<Rightarrow> hedgex_config \<Rightarrow> hedgex_config" where
  "hedgex_WithMaxParallel n c = (if 0 < n then c\<lparr>hc_maxParallel := n\<rparr> else c)"

definition hedgex_WithDelay :: "int \<Rightarrow> hedgex_config \<Rightarrow> hedgex_config" where
  "hedgex_WithDelay d c = (if 0 < d then c\<lparr>hc_delay := d\<rparr> else c)"

definition hedgex_WithMaxDelay :: "int \<Rightarrow> hedgex_config \<Rightarrow> hedgex_config" where
  "hedgex_WithMaxDelay d c = (if 0 < d then c\<lparr>hc_maxDelay := d\<rparr> else c)"

definition hedgex_WithOnHedge :: "(int \<Rightarrow> unit outcome) option \<Rightarrow> hedgex_config \<Rightarrow> hedgex_config" where
  "hedgex_WithOnHedge fn c = c\<lparr>hc_onHedge := fn\<rparr>"

definition hedgex_WithHedgeProbability :: "f64 \<Rightarrow> hedgex_config \<Rightarrow> hedgex_config" where
  "hedgex_WithHedgeProbability p c =
     (if p \<le> 0 then c
      else c\<lparr>hc_hedgeProb := (if hedgex_DefaultHedgeProbability < p then hedgex_DefaultHedgeProbability else p)\<rparr>)"

definition hedgex_withRand :: "(unit \<Rightarrow> f64) option \<Rightarrow> hedgex_config \<Rightarrow> hedgex_config" where
  "hedgex_withRand fn c = (if fn \<noteq> None then c\<lparr>hc_randFn := fn\<rparr> else c)"

definition hedgex_WithOp :: "string \<Rightarrow> hedgex_config \<Rightarrow> hedgex_config" where
  "hedgex_WithOp op c = (if op \<noteq> [] then c\<lparr>hc_op := op\<rparr> else c)"

subsection \<open>State\<close>

text \<open>The list \<open>hh_hooks\<close> is a ghost: the attempts the \<open>OnHedge\<close> hook was called with.\<close>

record hedgex_Hedger =
  hh_cfg :: hedgex_config
  hh_calls :: int
  hh_wins :: int
  hh_hedges :: int
  hh_failures :: int
  hh_hooks :: "int list"

definition hedgex_New :: "(hedgex_config \<Rightarrow> hedgex_config) option list \<Rightarrow> hedgex_Hedger" where
  "hedgex_New opts =
     \<lparr>hh_cfg = hedgex_newConfig opts, hh_calls = 0, hh_wins = 0, hh_hedges = 0, hh_failures = 0, hh_hooks = []\<rparr>"

definition hedgex_MaxParallel :: "hedgex_Hedger \<Rightarrow> int" where "hedgex_MaxParallel h = hc_maxParallel (hh_cfg h)"
definition hedgex_Delay :: "hedgex_Hedger \<Rightarrow> int" where "hedgex_Delay h = hc_delay (hh_cfg h)"
definition hedgex_MaxDelay :: "hedgex_Hedger \<Rightarrow> int" where "hedgex_MaxDelay h = hc_maxDelay (hh_cfg h)"

definition hedgex_add_calls :: "hedgex_Hedger \<Rightarrow> hedgex_Hedger" where
  "hedgex_add_calls h = h\<lparr>hh_calls := wrap_i64 (hh_calls h + 1)\<rparr>"

definition hedgex_add_wins :: "hedgex_Hedger \<Rightarrow> hedgex_Hedger" where
  "hedgex_add_wins h = h\<lparr>hh_wins := wrap_i64 (hh_wins h + 1)\<rparr>"

definition hedgex_add_failures :: "hedgex_Hedger \<Rightarrow> hedgex_Hedger" where
  "hedgex_add_failures h = h\<lparr>hh_failures := wrap_i64 (hh_failures h + 1)\<rparr>"

text \<open>The controller of a copy. \<open>hx_copyCancel\<close> is whether it has a context of its own to cancel, \<open>hx_cancelled\<close> that it is.\<close>

record hedgex_execution =
  hx_attempt :: int
  hx_backends :: int
  hx_start :: int
  hx_copyCancel :: bool
  hx_withdrawn :: bool
  hx_cancelled :: bool

definition hedgex_Attempt :: "hedgex_execution \<Rightarrow> int" where "hedgex_Attempt e = hx_attempt e"
definition hedgex_IsHedge :: "hedgex_execution \<Rightarrow> bool" where "hedgex_IsHedge e \<longleftrightarrow> 1 < hx_attempt e"
definition hedgex_Backends :: "hedgex_execution \<Rightarrow> int" where "hedgex_Backends e = hx_backends e"
definition hedgex_Elapsed :: "int \<Rightarrow> hedgex_execution \<Rightarrow> int" where "hedgex_Elapsed now e = now - hx_start e"
definition hedgex_isWithdrawn :: "hedgex_execution \<Rightarrow> bool" where "hedgex_isWithdrawn e = hx_withdrawn e"

definition hedgex_Cancel :: "hedgex_execution \<Rightarrow> hedgex_execution" where
  "hedgex_Cancel e =
     (if \<not> hx_withdrawn e
      then (let e1 = e\<lparr>hx_withdrawn := True\<rparr> in if hx_copyCancel e1 then e1\<lparr>hx_cancelled := True\<rparr> else e1)
      else e)"

type_synonym 'a hedgex_HedgeFunc = "hedgex_execution \<Rightarrow> hedgex_execution \<times> 'a outcome"

record 'a hedgex_result =
  hr_value :: 'a
  hr_err :: goerror
  hr_withdrawn :: bool

definition hedgex_run ::
  "'a \<Rightarrow> hedgex_Hedger \<Rightarrow> 'a hedgex_HedgeFunc \<Rightarrow> hedgex_execution \<Rightarrow> 'a hedgex_result" where
  "hedgex_run zero h fn hc =
     (case fn hc of
        (hc1, out) \<Rightarrow>
          (case panix_Safe zero (hedgex_opOrDefault (hh_cfg h)) (Some out) of
             (val, err) \<Rightarrow> \<lparr>hr_value = val, hr_err = err, hr_withdrawn = hedgex_isWithdrawn hc1\<rparr>))"

subsection \<open>The schedule\<close>

fun hedgex_capIdx :: "hedgex_config \<Rightarrow> nat \<Rightarrow> nat \<Rightarrow> nat option" where
  "hedgex_capIdx c i 0 = None"
| "hedgex_capIdx c i (Suc n) =
     (if hc_maxDelay c \<le> wrap_i64 (hc_delay c * int (i + 1)) then Some i else hedgex_capIdx c (Suc i) n)"

definition hedgex_delays :: "hedgex_Hedger \<Rightarrow> int \<Rightarrow> int list" where
  "hedgex_delays h cnt =
     (if cnt \<le> 1 then []
      else
        let n = nat (cnt - 1); c = hh_cfg h; grow = (\<lambda>i. wrap_i64 (hc_delay c * int (i + 1)))
        in case hedgex_capIdx c 0 n of
             None \<Rightarrow> map grow [0..<n]
           | Some k \<Rightarrow>
               (let s0 = hc_delay c div hedgex_spreadDivisor; spread = (if s0 < hedgex_minSpread then hedgex_minSpread else s0)
                in map grow [0..<k] @ map (\<lambda>i. wrap_i64 (hc_maxDelay c + wrap_i64 (int (i - k) * spread))) [k..<n]))"

definition hedgex_delayFor :: "int list \<Rightarrow> int \<Rightarrow> int option" where
  "hedgex_delayFor delays launchedAttempt =
     (let idx = launchedAttempt - 1
      in if idx < 0 \<or> int (length delays) \<le> idx then None else Some (delays ! nat idx))"

definition hedgex_resetTimer :: "int \<Rightarrow> int \<Rightarrow> int" where
  "hedgex_resetTimer nxt since = (let d = nxt - since in if d < 0 then 0 else d)"

definition hedgex_launchableCount :: "'b option list \<Rightarrow> int" where
  "hedgex_launchableCount fns = fold (\<lambda>fn n. if fn \<noteq> None then n + 1 else n) fns 0"

definition hedgex_anyNonNil :: "'b option list \<Rightarrow> bool" where
  "hedgex_anyNonNil fns = list_ex (\<lambda>fn. fn \<noteq> None) fns"

definition hedgex_orWithdrawn :: "goerror \<Rightarrow> goerr" where
  "hedgex_orWithdrawn firstErr = (case firstErr of Some e \<Rightarrow> e | None \<Rightarrow> CtxCanceled)"

fun hedgex_lone_loop :: "'b option list \<Rightarrow> 'b option \<Rightarrow> int \<Rightarrow> 'b option \<times> bool" where
  "hedgex_lone_loop [] found cnt = (found, cnt = 1)"
| "hedgex_lone_loop (None # fns) found cnt = hedgex_lone_loop fns found cnt"
| "hedgex_lone_loop (Some fn # fns) found cnt = (if 1 < cnt + 1 then (None, False) else hedgex_lone_loop fns (Some fn) (cnt + 1))"

definition hedgex_lone :: "'b option list \<Rightarrow> 'b option \<times> bool" where
  "hedgex_lone fns = hedgex_lone_loop fns None 0"

fun hedgex_firstNonNil :: "'b option list \<Rightarrow> 'b option" where
  "hedgex_firstNonNil [] = None"
| "hedgex_firstNonNil (Some fn # fns) = Some fn"
| "hedgex_firstNonNil (None # fns) = hedgex_firstNonNil fns"

definition hedgex_rand :: "hedgex_Hedger \<Rightarrow> f64 \<Rightarrow> f64" where
  "hedgex_rand h roll = (case hc_randFn (hh_cfg h) of Some f \<Rightarrow> f () | None \<Rightarrow> roll)"

definition hedgex_shouldFanout :: "hedgex_Hedger \<Rightarrow> f64 \<Rightarrow> bool" where
  "hedgex_shouldFanout h roll =
     (let p = hc_hedgeProb (hh_cfg h) in if hedgex_DefaultHedgeProbability \<le> p then True else hedgex_rand h roll < p)"

subsection \<open>The synchronous path\<close>

definition hedgex_runSync ::
  "'a \<Rightarrow> int \<Rightarrow> 'a hedgex_HedgeFunc \<Rightarrow> hedgex_Hedger \<Rightarrow> hedgex_Hedger \<times> 'a \<times> goerror" where
  "hedgex_runSync zero start fn h =
     (let r = hedgex_run zero h fn \<lparr>hx_attempt = 1, hx_backends = 1, hx_start = start, hx_copyCancel = False,
                hx_withdrawn = False, hx_cancelled = False\<rparr>
      in case hr_err r of
           Some e \<Rightarrow> (hedgex_add_failures h, zero, Some (hedgex_errAllFailed e))
         | None \<Rightarrow>
             if hr_withdrawn r then (hedgex_add_failures h, zero, Some (hedgex_errAllFailed CtxCanceled))
             else (hedgex_add_wins h, hr_value r, None))"

subsection \<open>Dispatch\<close>

text \<open>
  The locals of \<open>dispatch\<close>. \<open>hd_timer\<close> is the duration the timer is armed with, if it is; \<open>hd_running\<close> are the copies
  whose result has not been received, by attempt.
\<close>

record 'a hedgex_state =
  hd_next :: nat
  hd_attempt :: int
  hd_pending :: int
  hd_firstErr :: goerror
  hd_timer :: "int option"
  hd_running :: "(int \<times> 'a hedgex_result) list"

definition hedgex_fireOnHedge :: "int \<Rightarrow> hedgex_Hedger \<Rightarrow> hedgex_Hedger" where
  "hedgex_fireOnHedge attempt h =
     (case hc_onHedge (hh_cfg h) of
        None \<Rightarrow> h
      | Some f \<Rightarrow> (let _ = panix_SafeVoid (hedgex_opOrDefault (hh_cfg h)) (Some (f attempt))
                    in h\<lparr>hh_hooks := hh_hooks h @ [attempt]\<rparr>))"

fun hedgex_scan :: "'b option list \<Rightarrow> nat \<Rightarrow> (nat \<times> 'b) option" where
  "hedgex_scan [] i = None"
| "hedgex_scan (None # fns) i = hedgex_scan fns (Suc i)"
| "hedgex_scan (Some fn # fns) i = Some (i, fn)"

text \<open>\<open>launchNext\<close> on the locals: the copy it starts joins \<open>hd_running\<close>; \<open>pending\<close> is its caller's.\<close>

definition hedgex_launchNext ::
  "'a \<Rightarrow> 'a hedgex_HedgeFunc option list \<Rightarrow> int \<Rightarrow> int \<Rightarrow> hedgex_Hedger \<times> 'a hedgex_state
     \<Rightarrow> hedgex_Hedger \<times> 'a hedgex_state \<times> bool" where
  "hedgex_launchNext zero fns backends start hs =
     (case hs of
        (h, s) \<Rightarrow>
          (case hedgex_scan (drop (hd_next s) fns) (hd_next s) of
             None \<Rightarrow> (h, s\<lparr>hd_next := length fns\<rparr>, False)
           | Some (i, fn) \<Rightarrow>
               (let attempt = hd_attempt s + 1;
                    h1 = (if 1 < attempt then hedgex_fireOnHedge attempt (h\<lparr>hh_hedges := wrap_i64 (hh_hedges h + 1)\<rparr>) else h);
                    hc = \<lparr>hx_attempt = attempt, hx_backends = backends, hx_start = start, hx_copyCancel = True,
                          hx_withdrawn = False, hx_cancelled = False\<rparr>
                in (h1, s\<lparr>hd_next := i + 1, hd_attempt := attempt,
                          hd_running := hd_running s @ [(attempt, hedgex_run zero h fn hc)]\<rparr>, True))))"

definition hedgex_armTimer :: "int list \<Rightarrow> int \<Rightarrow> 'a hedgex_state \<Rightarrow> 'a hedgex_state" where
  "hedgex_armTimer delays since s =
     (case hedgex_delayFor delays (hd_attempt s) of
        Some d \<Rightarrow> s\<lparr>hd_timer := Some (hedgex_resetTimer d since)\<rparr>
      | None \<Rightarrow> s\<lparr>hd_timer := None\<rparr>)"

text \<open>\<open>consumeResult\<close>: the value of a winner.\<close>

definition hedgex_consumeResult ::
  "'a hedgex_result \<Rightarrow> hedgex_Hedger \<times> 'a hedgex_state \<Rightarrow> hedgex_Hedger \<times> 'a hedgex_state \<times> 'a option" where
  "hedgex_consumeResult res hs =
     (case hs of
        (h, s) \<Rightarrow>
          (let s1 = s\<lparr>hd_pending := hd_pending s - 1\<rparr>
           in if hr_withdrawn res then (h, s1, None)
              else case hr_err res of
                None \<Rightarrow> (hedgex_add_wins h, s1, Some (hr_value res))
              | Some e \<Rightarrow> (h, (if hd_firstErr s1 = None then s1\<lparr>hd_firstErr := Some e\<rparr> else s1), None)))"

definition hedgex_relaunchAfterFailure ::
  "'a \<Rightarrow> 'a hedgex_HedgeFunc option list \<Rightarrow> int \<Rightarrow> int \<Rightarrow> int list \<Rightarrow> int \<Rightarrow> hedgex_Hedger \<times> 'a hedgex_state
     \<Rightarrow> hedgex_Hedger \<times> 'a hedgex_state \<times> goerror" where
  "hedgex_relaunchAfterFailure zero fns backends start delays since hs =
     (case hs of
        (h, s) \<Rightarrow>
          if length fns \<le> hd_next s then (h, s, Some (hedgex_errAllFailed (hedgex_orWithdrawn (hd_firstErr s))))
          else
            (case hedgex_launchNext zero fns backends start (h, s) of
               (h1, s1, False) \<Rightarrow> (h1, s1, Some (hedgex_errAllFailed (hedgex_orWithdrawn (hd_firstErr s1))))
             | (h1, s1, True) \<Rightarrow>
                 (h1, hedgex_armTimer delays since (s1\<lparr>hd_pending := hd_pending s1 + 1\<rparr>), None)))"

text \<open>
  What the \<open>select\<close> of \<open>dispatch\<close> receives: \<open>ctx.Done\<close> with its error, the result of a running copy, or the timer, each with the time
  since the start when a timer is armed after it.
\<close>

datatype hedgex_event = HDone goerr | HResult int int | HTimer int

text \<open>One turn of the loop: \<open>None\<close> when the event cannot be received, \<open>Inl\<close> when the loop goes on, \<open>Inr\<close> when \<open>dispatch\<close> returns.\<close>

fun hedgex_turn ::
  "'a \<Rightarrow> 'a hedgex_HedgeFunc option list \<Rightarrow> int \<Rightarrow> int \<Rightarrow> int list \<Rightarrow> hedgex_event \<Rightarrow> hedgex_Hedger \<times> 'a hedgex_state
     \<Rightarrow> ((hedgex_Hedger \<times> 'a hedgex_state) + (hedgex_Hedger \<times> 'a \<times> goerror)) option" where
  "hedgex_turn zero fns backends start delays (HDone e) (h, s) =
     Some (Inr (hedgex_add_failures h, zero, Some (hedgex_errCancelled e)))"
| "hedgex_turn zero fns backends start delays (HResult a since) (h, s) =
     (case map_of (hd_running s) a of
        None \<Rightarrow> None
      | Some res \<Rightarrow>
          (case hedgex_consumeResult res (h, s\<lparr>hd_running := filter (\<lambda>(b, r). b \<noteq> a) (hd_running s)\<rparr>) of
             (h1, s1, Some val) \<Rightarrow> Some (Inr (h1, val, None))
           | (h1, s1, None) \<Rightarrow>
               if 0 < hd_pending s1 then Some (Inl (h1, s1))
               else (case hedgex_relaunchAfterFailure zero fns backends start delays since (h1, s1) of
                       (h2, s2, Some err) \<Rightarrow> Some (Inr (hedgex_add_failures h2, zero, Some err))
                     | (h2, s2, None) \<Rightarrow> Some (Inl (h2, s2)))))"
| "hedgex_turn zero fns backends start delays (HTimer since) (h, s) =
     (case hd_timer s of
        None \<Rightarrow> None
      | Some _ \<Rightarrow>
          (case hedgex_launchNext zero fns backends start (h, s) of
             (h1, s1, launched) \<Rightarrow>
               Some (Inl (h1, hedgex_armTimer delays since
                                (if launched then s1\<lparr>hd_pending := hd_pending s1 + 1\<rparr> else s1)))))"

fun hedgex_loop ::
  "'a \<Rightarrow> 'a hedgex_HedgeFunc option list \<Rightarrow> int \<Rightarrow> int \<Rightarrow> int list \<Rightarrow> hedgex_event list \<Rightarrow> hedgex_Hedger \<times> 'a hedgex_state
     \<Rightarrow> ((hedgex_Hedger \<times> 'a hedgex_state) + (hedgex_Hedger \<times> 'a \<times> goerror)) option" where
  "hedgex_loop zero fns backends start delays [] hs = Some (Inl hs)"
| "hedgex_loop zero fns backends start delays (e # es) hs =
     (case hedgex_turn zero fns backends start delays e hs of
        None \<Rightarrow> None
      | Some (Inr r) \<Rightarrow> Some (Inr r)
      | Some (Inl hs1) \<Rightarrow> hedgex_loop zero fns backends start delays es hs1)"

definition hedgex_dispatch ::
  "'a \<Rightarrow> 'a hedgex_HedgeFunc option list \<Rightarrow> int \<Rightarrow> int \<Rightarrow> hedgex_event list \<Rightarrow> hedgex_Hedger
     \<Rightarrow> ((hedgex_Hedger \<times> 'a hedgex_state) + (hedgex_Hedger \<times> 'a \<times> goerror)) option" where
  "hedgex_dispatch zero fns backends start es h =
     (let delays = hedgex_delays h backends
      in case hedgex_launchNext zero fns backends start
                (h, \<lparr>hd_next = 0, hd_attempt = 0, hd_pending = 0, hd_firstErr = None, hd_timer = None, hd_running = []\<rparr>) of
           (h1, s1, _) \<Rightarrow>
             hedgex_loop zero fns backends start delays es
               (h1, s1\<lparr>hd_pending := 1, hd_timer := hedgex_delayFor delays (hd_attempt s1)\<rparr>))"

subsection \<open>Execution\<close>

definition hedgex_ExecuteMulti ::
  "'a \<Rightarrow> f64 \<Rightarrow> goerror \<Rightarrow> int \<Rightarrow> hedgex_event list \<Rightarrow> 'a hedgex_HedgeFunc option list \<Rightarrow> hedgex_Hedger
     \<Rightarrow> ((hedgex_Hedger \<times> 'a hedgex_state) + (hedgex_Hedger \<times> 'a \<times> goerror)) option" where
  "hedgex_ExecuteMulti zero roll e0 start es fns0 h0 =
     (let h = hedgex_add_calls h0;
          fns = (if hc_maxParallel (hh_cfg h) < int (length fns0) then take (nat (hc_maxParallel (hh_cfg h))) fns0 else fns0)
      in if \<not> hedgex_anyNonNil fns then Some (Inr (hedgex_add_failures h, zero, Some hedgex_ErrNilFunc))
         else case e0 of
           Some e \<Rightarrow> Some (Inr (hedgex_add_failures h, zero, Some (hedgex_errCancelled e)))
         | None \<Rightarrow>
             (let backends = hedgex_launchableCount fns
              in case hedgex_lone fns of
                   (Some fn, True) \<Rightarrow> Some (Inr (hedgex_runSync zero start fn h))
                 | _ \<Rightarrow>
                     if \<not> hedgex_shouldFanout h roll
                     then (case hedgex_firstNonNil fns of
                             Some fn \<Rightarrow> Some (Inr (hedgex_runSync zero start fn h))
                           | None \<Rightarrow> None)
                     else hedgex_dispatch zero fns backends start es h))"

definition hedgex_Execute ::
  "'a \<Rightarrow> f64 \<Rightarrow> goerror \<Rightarrow> int \<Rightarrow> hedgex_event list \<Rightarrow> 'a hedgex_HedgeFunc option \<Rightarrow> hedgex_Hedger
     \<Rightarrow> ((hedgex_Hedger \<times> 'a hedgex_state) + (hedgex_Hedger \<times> 'a \<times> goerror)) option" where
  "hedgex_Execute zero roll e0 start es fn h =
     (case fn of
        None \<Rightarrow> Some (Inr (hedgex_add_failures (hedgex_add_calls h), zero, Some hedgex_ErrNilFunc))
      | Some f \<Rightarrow>
          if hc_maxParallel (hh_cfg h) = 1
          then (let h1 = hedgex_add_calls h
                in case e0 of
                     Some e \<Rightarrow> Some (Inr (hedgex_add_failures h1, zero, Some (hedgex_errCancelled e)))
                   | None \<Rightarrow> Some (Inr (hedgex_runSync zero start f h1)))
          else hedgex_ExecuteMulti zero roll e0 start es (replicate (nat (hc_maxParallel (hh_cfg h))) (Some f)) h)"

record hedgex_Stats =
  hs_Calls :: int
  hs_Wins :: int
  hs_Hedges :: int
  hs_Failures :: int

definition hedgex_HedgerStats :: "hedgex_Hedger \<Rightarrow> hedgex_Stats" where
  "hedgex_HedgerStats h =
     \<lparr>hs_Calls = hh_calls h, hs_Wins = hh_wins h, hs_Hedges = hh_hedges h, hs_Failures = hh_failures h\<rparr>"

definition hedgex_ResetStats :: "hedgex_Hedger \<Rightarrow> hedgex_Hedger" where
  "hedgex_ResetStats h = h\<lparr>hh_calls := 0, hh_wins := 0, hh_hedges := 0, hh_failures := 0\<rparr>"

end
