(* ===== verification/Hedgex_Race.thy ===== *)
theory Hedgex_Race
  imports Hedgex
begin

text \<open>
  Package \<open>hedgex\<close>, part two: the race of the copies. An invariant of the dispatch loop relates its locals to the
  results received so far, in order; from it follow the outcome of a race, its counters, and that it ends.
\<close>

section \<open>The copies of a race\<close>

definition hedgex_backends_of :: "'b option list \<Rightarrow> 'b list" where
  "hedgex_backends_of fns = map the (filter (\<lambda>fn. fn \<noteq> None) fns)"

lemma hedgex_backends_of_simps [simp]:
  "hedgex_backends_of [] = []"
  "hedgex_backends_of (None # fns) = hedgex_backends_of fns"
  "hedgex_backends_of (Some fn # fns) = fn # hedgex_backends_of fns"
  by (simp_all add: hedgex_backends_of_def)

definition hedgex_copy :: "'a \<Rightarrow> hedgex_Hedger \<Rightarrow> 'a hedgex_HedgeFunc option list \<Rightarrow> int \<Rightarrow> int \<Rightarrow> 'a hedgex_result" where
  "hedgex_copy zero h fns start a =
     hedgex_run zero h (hedgex_backends_of fns ! nat (a - 1))
       \<lparr>hx_attempt = a, hx_backends = int (length (hedgex_backends_of fns)), hx_start = start, hx_copyCancel = True,
        hx_withdrawn = False, hx_cancelled = False\<rparr>"

definition hedgex_wins :: "'a hedgex_result \<Rightarrow> bool" where
  "hedgex_wins r \<longleftrightarrow> hr_err r = None \<and> \<not> hr_withdrawn r"

text \<open>The first failure among results in the order of their arrival; a withdrawn copy is none.\<close>

definition hedgex_first_err :: "'a hedgex_result list \<Rightarrow> goerror" where
  "hedgex_first_err rs = (case filter (\<lambda>r. \<not> hr_withdrawn r \<and> hr_err r \<noteq> None) rs of [] \<Rightarrow> None | r # _ \<Rightarrow> hr_err r)"

lemma hedgex_first_err_Nil [simp]: "hedgex_first_err [] = None"
  by (simp add: hedgex_first_err_def)

lemma hedgex_first_err_snoc:
  "hedgex_first_err (rs @ [r]) =
     (if hedgex_first_err rs \<noteq> None then hedgex_first_err rs else if hr_withdrawn r then None else hr_err r)"
proof (cases "filter (\<lambda>r. \<not> hr_withdrawn r \<and> hr_err r \<noteq> None) rs")
  case (Cons x xs)
  then have "hr_err x \<noteq> None" by (metis (mono_tags, lifting) filter_eq_ConsD)
  with Cons show ?thesis by (simp add: hedgex_first_err_def)
qed (simp add: hedgex_first_err_def)

fun hedgex_reaped :: "hedgex_event list \<Rightarrow> int list" where
  "hedgex_reaped [] = []"
| "hedgex_reaped (HResult a since # es) = a # hedgex_reaped es"
| "hedgex_reaped (_ # es) = hedgex_reaped es"

lemma hedgex_run_cfg: "hh_cfg h = hh_cfg h' \<Longrightarrow> hedgex_run zero h = hedgex_run zero h'"
  by (rule ext)+ (simp add: hedgex_run_def)

section \<open>The invariant\<close>

definition hedgex_hooked :: "hedgex_Hedger \<Rightarrow> int \<Rightarrow> int list" where
  "hedgex_hooked h k = (case hc_onHedge (hh_cfg h) of None \<Rightarrow> [] | Some _ \<Rightarrow> [2..k])"

text \<open>What a call has counted once it has launched \<open>k\<close> copies.\<close>

definition hedgex_counts :: "hedgex_Hedger \<Rightarrow> int \<Rightarrow> hedgex_Hedger \<Rightarrow> bool" where
  "hedgex_counts h0 k h \<longleftrightarrow>
     h = h0\<lparr>hh_hedges := (if k \<le> 1 then hh_hedges h0 else wrap_i64 (hh_hedges h0 + (k - 1))), hh_hooks := hh_hooks h0 @ hedgex_hooked h0 k\<rparr>"

definition hedgex_racing ::
  "'a \<Rightarrow> 'a hedgex_HedgeFunc option list \<Rightarrow> int \<Rightarrow> hedgex_Hedger \<Rightarrow> int list \<Rightarrow> hedgex_Hedger \<times> 'a hedgex_state \<Rightarrow> bool" where
  "hedgex_racing zero fns start h0 rs hs \<longleftrightarrow>
     (case hs of (h, s) \<Rightarrow>
        1 \<le> hd_attempt s \<and> hd_attempt s \<le> int (length (hedgex_backends_of fns))
        \<and> hedgex_backends_of (drop (hd_next s) fns) = drop (nat (hd_attempt s)) (hedgex_backends_of fns)
        \<and> hd_running s = map (\<lambda>a. (a, hedgex_copy zero h0 fns start a)) (filter (\<lambda>a. a \<notin> set rs) [1..hd_attempt s])
        \<and> distinct rs \<and> set rs \<subseteq> {1..hd_attempt s}
        \<and> hd_pending s = int (length (hd_running s)) \<and> 0 < hd_pending s
        \<and> (\<forall>a\<in>set rs. \<not> hedgex_wins (hedgex_copy zero h0 fns start a))
        \<and> hd_firstErr s = hedgex_first_err (map (hedgex_copy zero h0 fns start) rs)
        \<and> (hd_timer s = None \<longleftrightarrow> hd_attempt s = int (length (hedgex_backends_of fns)))
        \<and> hedgex_counts h0 (hd_attempt s) h)"

lemma hedgex_scan_backends:
  "hedgex_scan fns i =
     (case hedgex_backends_of fns of [] \<Rightarrow> None | fn # _ \<Rightarrow> Some (i + length (takeWhile (\<lambda>fn. fn = None) fns), fn))"
  by (induction fns i rule: hedgex_scan.induct) (auto split: list.split)

lemma hedgex_backends_of_rest:
  "hedgex_backends_of (drop (Suc (length (takeWhile (\<lambda>fn. fn = None) fns))) fns) = tl (hedgex_backends_of fns)"
proof (induction fns)
  case (Cons fn fns)
  then show ?case by (cases fn) simp_all
qed simp

lemma hedgex_fireOnHedge_eq:
  "hedgex_fireOnHedge k h = h\<lparr>hh_hooks := hh_hooks h @ (case hc_onHedge (hh_cfg h) of None \<Rightarrow> [] | Some _ \<Rightarrow> [k])\<rparr>"
  by (simp add: hedgex_fireOnHedge_def split: option.split)

lemma hedgex_hooked_step:
  "1 \<le> k \<Longrightarrow> hedgex_hooked h (k + 1) = hedgex_hooked h k @ (case hc_onHedge (hh_cfg h) of None \<Rightarrow> [] | Some _ \<Rightarrow> [k + 1])"
  by (simp add: hedgex_hooked_def upto_rec2 split: option.split)

lemma hedgex_counts_step:
  assumes "hedgex_counts h0 k h" and "1 \<le> k"
  shows "hedgex_counts h0 (k + 1) (hedgex_fireOnHedge (k + 1) (h\<lparr>hh_hedges := wrap_i64 (hh_hedges h + 1)\<rparr>))"
proof -
  have "wrap_i64 (hh_hedges h + 1) = wrap_i64 (hh_hedges h0 + k)"
    using assms wrap_i64_step(1) [of "hh_hedges h0 + (k - 1)"] by (cases "k = 1") (auto simp: hedgex_counts_def)
  with assms hedgex_hooked_step [OF assms(2), of h0] show ?thesis
    by (simp add: hedgex_counts_def hedgex_fireOnHedge_eq)
qed

text \<open>A launch with a backend left starts the next copy, and counts it unless it is the original.\<close>

lemma hedgex_launch_step:
  assumes "hedgex_backends_of (drop (hd_next s) fns) = drop (nat (hd_attempt s)) (hedgex_backends_of fns)"
    and "0 \<le> hd_attempt s" and "hd_attempt s < int (length (hedgex_backends_of fns))"
    and "if hd_attempt s = 0 then h = h0 else hedgex_counts h0 (hd_attempt s) h"
  obtains h1 i where
    "hedgex_launchNext zero fns (int (length (hedgex_backends_of fns))) start (h, s)
       = (h1, s\<lparr>hd_next := i, hd_attempt := hd_attempt s + 1,
                hd_running := hd_running s @ [(hd_attempt s + 1, hedgex_copy zero h0 fns start (hd_attempt s + 1))]\<rparr>, True)"
    "hedgex_backends_of (drop i fns) = drop (nat (hd_attempt s + 1)) (hedgex_backends_of fns)"
    "hedgex_counts h0 (hd_attempt s + 1) h1"
proof -
  let ?bs = "hedgex_backends_of fns" and ?a = "hd_attempt s + 1" and ?rest = "drop (hd_next s) fns"
  have k: "nat (hd_attempt s) < length ?bs" using assms(2,3) by linarith
  then have d: "drop (nat (hd_attempt s)) ?bs = ?bs ! nat (hd_attempt s) # drop (Suc (nat (hd_attempt s))) ?bs"
    by (rule Cons_nth_drop_Suc [symmetric])
  have sc: "hedgex_scan ?rest (hd_next s) = Some (hd_next s + length (takeWhile (\<lambda>fn. fn = None) ?rest), ?bs ! nat (hd_attempt s))"
    using hedgex_scan_backends [of ?rest "hd_next s"] by (simp add: assms(1) d)
  let ?i = "Suc (hd_next s + length (takeWhile (\<lambda>fn. fn = None) ?rest))"
  have i: "hedgex_backends_of (drop ?i fns) = drop (nat ?a) ?bs"
    using hedgex_backends_of_rest [of ?rest] assms(1,2) by (simp add: d add.commute nat_add_distrib)
  let ?h1 = "if 1 < ?a then hedgex_fireOnHedge ?a (h\<lparr>hh_hedges := wrap_i64 (hh_hedges h + 1)\<rparr>) else h"
  have cfg: "hh_cfg h = hh_cfg h0" using assms(4) by (auto simp: hedgex_counts_def split: if_splits)
  have c: "hedgex_counts h0 ?a ?h1"
  proof (cases "hd_attempt s = 0")
    case True
    with assms(4) show ?thesis by (simp add: hedgex_counts_def hedgex_hooked_def split: option.split)
  next
    case False
    with assms(2,4) hedgex_counts_step [of h0 "hd_attempt s" h] show ?thesis by simp
  qed
  show ?thesis
    by (rule that [of ?h1 ?i, OF _ i c])
      (use assms(2) in \<open>simp add: hedgex_launchNext_def sc Let_def hedgex_copy_def hedgex_run_cfg [OF cfg, of zero]\<close>)
qed

lemma hedgex_counts_cfg: "hedgex_counts h0 k h \<Longrightarrow> hh_cfg h = hh_cfg h0"
  by (simp add: hedgex_counts_def)

text \<open>The schedule has an entry for each copy but the first, so the timer is armed exactly while a backend is left.\<close>

lemma hedgex_delays_length: "length (hedgex_delays h n) = nat (n - 1)"
proof (cases "hedgex_capIdx (hh_cfg h) 0 (nat (n - 1))")
  case (Some k)
  have "hedgex_capIdx c i m = Some k \<Longrightarrow> k < i + m" for c i m
    by (induction c i m rule: hedgex_capIdx.induct) (auto split: if_splits)
  from this [OF Some] Some show ?thesis by (simp add: hedgex_delays_def Let_def)
qed (simp add: hedgex_delays_def Let_def)

lemma hedgex_delayFor_None:
  "1 \<le> a \<Longrightarrow> a \<le> n \<Longrightarrow> hedgex_delayFor (hedgex_delays h n) a = None \<longleftrightarrow> a = n"
  by (auto simp: hedgex_delayFor_def hedgex_delays_length Let_def)

lemma hedgex_armTimer_eq:
  "hedgex_armTimer delays since s = s\<lparr>hd_timer := map_option (\<lambda>d. hedgex_resetTimer d since) (hedgex_delayFor delays (hd_attempt s))\<rparr>"
  by (simp add: hedgex_armTimer_def split: option.split)

lemma hedgex_running_launch:
  assumes "set rs \<subseteq> {1..k}" and "0 \<le> (k :: int)"
  shows "map (\<lambda>a. (a, f a)) (filter (\<lambda>a. a \<notin> set rs) [1..k]) @ [(k + 1, f (k + 1))]
       = map (\<lambda>a. (a, f a)) (filter (\<lambda>a. a \<notin> set rs) [1..k + 1])"
  using assms by (auto simp: upto_rec2)

lemma hedgex_running_reap:
  "filter (\<lambda>(b, r). b \<noteq> a) (map (\<lambda>a. (a, f a)) (filter (\<lambda>a. a \<notin> set rs) xs))
     = map (\<lambda>a. (a, f a)) (filter (\<lambda>a. a \<notin> set (rs @ [a0])) xs)" if "a0 = a" for a0
  using that by (induction xs) auto

lemma hedgex_running_count:
  "distinct xs \<Longrightarrow> a \<in> set xs \<Longrightarrow> a \<notin> set rs \<Longrightarrow>
   length (filter (\<lambda>a. a \<notin> set rs) xs) = Suc (length (filter (\<lambda>b. b \<notin> set (rs @ [a])) xs))"
proof (induction xs)
  case (Cons x xs)
  then show ?case
  proof (cases "x = a")
    case True
    with Cons.prems have "filter (\<lambda>b. b \<noteq> a \<and> b \<notin> set rs) xs = filter (\<lambda>b. b \<notin> set rs) xs"
      by (intro filter_cong) auto
    with True Cons.prems show ?thesis by simp
  qed auto
qed simp

text \<open>A launch in the loop, whoever asks for it, keeps the invariant up to the timer and the pending count.\<close>

lemma hedgex_racing_launch:
  assumes "hedgex_backends_of (drop (hd_next s) fns) = drop (nat (hd_attempt s)) (hedgex_backends_of fns)"
    and "1 \<le> hd_attempt s" and "hd_attempt s < int (length (hedgex_backends_of fns))"
    and "hd_running s = map (\<lambda>a. (a, hedgex_copy zero h0 fns start a)) (filter (\<lambda>a. a \<notin> set rs) [1..hd_attempt s])"
    and "distinct rs" "set rs \<subseteq> {1..hd_attempt s}" and "hd_pending s = int (length (hd_running s))"
    and "\<forall>a\<in>set rs. \<not> hedgex_wins (hedgex_copy zero h0 fns start a)"
    and "hd_firstErr s = hedgex_first_err (map (hedgex_copy zero h0 fns start) rs)"
    and "hedgex_counts h0 (hd_attempt s) h"
  obtains h1 s1 where
    "hedgex_launchNext zero fns (int (length (hedgex_backends_of fns))) start (h, s) = (h1, s1, True)"
    "hedgex_racing zero fns start h0 rs
       (h1, hedgex_armTimer (hedgex_delays h0 (int (length (hedgex_backends_of fns)))) since (s1\<lparr>hd_pending := hd_pending s1 + 1\<rparr>))"
proof -
  obtain h1 i where l: "hedgex_launchNext zero fns (int (length (hedgex_backends_of fns))) start (h, s)
       = (h1, s\<lparr>hd_next := i, hd_attempt := hd_attempt s + 1,
                hd_running := hd_running s @ [(hd_attempt s + 1, hedgex_copy zero h0 fns start (hd_attempt s + 1))]\<rparr>, True)"
    and i: "hedgex_backends_of (drop i fns) = drop (nat (hd_attempt s + 1)) (hedgex_backends_of fns)"
    and c: "hedgex_counts h0 (hd_attempt s + 1) h1"
    using hedgex_launch_step [OF assms(1) _ assms(3), of h h0 zero start] assms(2,10) by auto
  have r: "hd_running s @ [(hd_attempt s + 1, hedgex_copy zero h0 fns start (hd_attempt s + 1))]
      = map (\<lambda>a. (a, hedgex_copy zero h0 fns start a)) (filter (\<lambda>a. a \<notin> set rs) [1..hd_attempt s + 1])"
    unfolding assms(4) by (rule hedgex_running_launch [OF assms(6)]) (use assms(2) in simp)
  show ?thesis
  proof (rule that [OF l])
    show "hedgex_racing zero fns start h0 rs (h1, hedgex_armTimer (hedgex_delays h0 (int (length (hedgex_backends_of fns)))) since
        (s\<lparr>hd_next := i, hd_attempt := hd_attempt s + 1,
           hd_running := hd_running s @ [(hd_attempt s + 1, hedgex_copy zero h0 fns start (hd_attempt s + 1))]\<rparr>
          \<lparr>hd_pending := hd_pending (s\<lparr>hd_next := i, hd_attempt := hd_attempt s + 1,
             hd_running := hd_running s @ [(hd_attempt s + 1, hedgex_copy zero h0 fns start (hd_attempt s + 1))]\<rparr>) + 1\<rparr>))"
      unfolding hedgex_racing_def hedgex_armTimer_eq prod.case
      using assms i c hedgex_delayFor_None [of "hd_attempt s + 1" "int (length (hedgex_backends_of fns))" h0]
      by (simp add: r [symmetric] del: upto.simps) auto
  qed
qed

text \<open>One turn: the loop goes on with the invariant, or returns with an outcome the results received so far account for.\<close>

definition hedgex_outcome ::
  "'a \<Rightarrow> 'a hedgex_HedgeFunc option list \<Rightarrow> int \<Rightarrow> hedgex_Hedger \<Rightarrow> hedgex_event \<Rightarrow> int list \<Rightarrow> hedgex_Hedger \<times> 'a \<times> goerror \<Rightarrow> bool" where
  "hedgex_outcome zero fns start h0 e rs r \<longleftrightarrow>
     (case r of (h, v, err) \<Rightarrow>
        \<exists>k h1. hedgex_counts h0 k h1 \<and> 1 \<le> k \<and> k \<le> int (length (hedgex_backends_of fns))
          \<and> (\<forall>b\<in>set rs. \<not> hedgex_wins (hedgex_copy zero h0 fns start b))
          \<and> (case err of
               None \<Rightarrow>
                 \<exists>a\<in>{1..k} - set rs. (\<exists>since. e = HResult a since) \<and> hedgex_wins (hedgex_copy zero h0 fns start a)
                   \<and> v = hr_value (hedgex_copy zero h0 fns start a) \<and> h = hedgex_add_wins h1
             | Some x \<Rightarrow>
                 v = zero \<and> h = hedgex_add_failures h1
                 \<and> ((\<exists>c. e = HDone c \<and> x = hedgex_errCancelled c)
                    \<or> (\<exists>a since. e = HResult a since \<and> k = int (length (hedgex_backends_of fns))
                         \<and> distinct (rs @ [a]) \<and> set (rs @ [a]) = {1..k}
                         \<and> (\<forall>b\<in>{1..k}. \<not> hedgex_wins (hedgex_copy zero h0 fns start b))
                         \<and> x = hedgex_errAllFailed (hedgex_orWithdrawn
                                 (hedgex_first_err (map (hedgex_copy zero h0 fns start) (rs @ [a]))))))))"

lemma hedgex_consume_win:
  "hedgex_wins res \<Longrightarrow>
     hedgex_consumeResult res (h, s) = (hedgex_add_wins h, s\<lparr>hd_pending := hd_pending s - 1\<rparr>, Some (hr_value res))"
  by (simp add: hedgex_consumeResult_def hedgex_wins_def)

lemma hedgex_consume_lose:
  "\<not> hedgex_wins res \<Longrightarrow>
     hedgex_consumeResult res (h, s) =
       (h, s\<lparr>hd_pending := hd_pending s - 1,
             hd_firstErr := if hd_firstErr s \<noteq> None then hd_firstErr s else if hr_withdrawn res then None else hr_err res\<rparr>, None)"
  by (cases "hd_firstErr s") (auto simp: hedgex_consumeResult_def hedgex_wins_def Let_def split: option.split)

lemma hedgex_running_find:
  "map_of (map (\<lambda>a. (a, f a)) (filter P xs)) a = Some r \<longleftrightarrow> a \<in> set xs \<and> P a \<and> r = f a"
  by (induction xs) auto

lemma hedgex_racing_unpack:
  assumes "hedgex_racing zero fns start h0 rs (h, s)"
  shows "1 \<le> hd_attempt s" "hd_attempt s \<le> int (length (hedgex_backends_of fns))"
    "hedgex_backends_of (drop (hd_next s) fns) = drop (nat (hd_attempt s)) (hedgex_backends_of fns)"
    "hd_running s = map (\<lambda>a. (a, hedgex_copy zero h0 fns start a)) (filter (\<lambda>a. a \<notin> set rs) [1..hd_attempt s])"
    "distinct rs" "set rs \<subseteq> {1..hd_attempt s}" "hd_pending s = int (length (hd_running s))"
    "\<forall>a\<in>set rs. \<not> hedgex_wins (hedgex_copy zero h0 fns start a)"
    "hd_firstErr s = hedgex_first_err (map (hedgex_copy zero h0 fns start) rs)"
    "hd_timer s = None \<longleftrightarrow> hd_attempt s = int (length (hedgex_backends_of fns))" "hedgex_counts h0 (hd_attempt s) h"
    "0 < hd_pending s"
  using assms unfolding hedgex_racing_def by auto

lemma hedgex_turn_timer:
  assumes "hedgex_racing zero fns start h0 rs (h, s)"
    and "hedgex_turn zero fns (int (length (hedgex_backends_of fns))) start
          (hedgex_delays h0 (int (length (hedgex_backends_of fns)))) (HTimer since) (h, s) = Some out"
  shows "\<exists>hs. out = Inl hs \<and> hedgex_racing zero fns start h0 rs hs \<and> hd_attempt (snd hs) = hd_attempt s + 1"
proof -
  have t: "hd_timer s \<noteq> None" using assms(2) by (cases "hd_timer s") simp_all
  then have a: "hd_attempt s < int (length (hedgex_backends_of fns))" using assms(1) by (auto simp: hedgex_racing_def)
  obtain h1 s1 where l: "hedgex_launchNext zero fns (int (length (hedgex_backends_of fns))) start (h, s) = (h1, s1, True)"
    and r: "hedgex_racing zero fns start h0 rs
       (h1, hedgex_armTimer (hedgex_delays h0 (int (length (hedgex_backends_of fns)))) since (s1\<lparr>hd_pending := hd_pending s1 + 1\<rparr>))"
    by (rule hedgex_racing_launch [OF _ _ a, where h = h and ?h0.0 = h0 and zero = zero and start = start and rs = rs and since = since])
      (use hedgex_racing_unpack [OF assms(1)] in simp_all)
  have "hd_attempt s1 = hd_attempt s + 1" using l by (auto simp: hedgex_launchNext_def Let_def split: option.splits)
  with assms(2) t l r show ?thesis by (auto simp: hedgex_armTimer_eq)
qed

lemma hedgex_turn_result:
  assumes "hedgex_racing zero fns start h0 rs (h, s)"
    and "hedgex_turn zero fns (int (length (hedgex_backends_of fns))) start
          (hedgex_delays h0 (int (length (hedgex_backends_of fns)))) (HResult a since) (h, s) = Some out"
  shows "case out of
      Inl hs \<Rightarrow> hedgex_racing zero fns start h0 (rs @ [a]) hs \<and> hd_attempt s \<le> hd_attempt (snd hs)
    | Inr r \<Rightarrow> hedgex_outcome zero fns start h0 (HResult a since) rs r"
proof -
  let ?n = "int (length (hedgex_backends_of fns))" and ?f = "hedgex_copy zero h0 fns start"
  note R = hedgex_racing_unpack [OF assms(1)]
  obtain res where res: "map_of (hd_running s) a = Some res"
    using assms(2) by (cases "map_of (hd_running s) a") simp_all
  have a: "a \<in> {1..hd_attempt s}" "a \<notin> set rs" "res = ?f a"
    using res unfolding R(4) hedgex_running_find by simp_all
  let ?run = "filter (\<lambda>(b, r). b \<noteq> a) (hd_running s)"
  have run: "?run = map (\<lambda>a. (a, ?f a)) (filter (\<lambda>b. b \<notin> set (rs @ [a])) [1..hd_attempt s])"
    unfolding R(4) by (rule hedgex_running_reap) simp
  have pend: "hd_pending s - 1 = int (length ?run)"
    using hedgex_running_count [of "[1..hd_attempt s]" a rs] a(1,2) unfolding run R(7) R(4) by (simp add: conj_commute)
  show ?thesis
  proof (cases "hedgex_wins res")
    case True
    have "out = Inr (hedgex_add_wins h, hr_value res, None)"
      using assms(2) res by (simp add: hedgex_consume_win [OF True])
    moreover have "a \<in> {1..hd_attempt s} - set rs" using a(1,2) by simp
    ultimately show ?thesis using True a(3) R(1,2,8,11)
      by (auto simp: hedgex_outcome_def intro!: exI [of _ "hd_attempt s"] exI [of _ h])
  next
    case False
    define s1 where "s1 = s\<lparr>hd_running := ?run, hd_pending := hd_pending s - 1,
      hd_firstErr := hedgex_first_err (map ?f (rs @ [a]))\<rparr>"
    have con: "hedgex_consumeResult res (h, s\<lparr>hd_running := ?run\<rparr>) = (h, s1, None)"
      unfolding hedgex_consume_lose [OF False] s1_def by (simp add: R(9) hedgex_first_err_snoc a(3))
    have lost: "\<forall>b\<in>set (rs @ [a]). \<not> hedgex_wins (?f b)" using R(8) False a(3) by simp
    have dist: "distinct (rs @ [a])" "set (rs @ [a]) \<subseteq> {1..hd_attempt s}" using R(5,6) a(1,2) by auto
    show ?thesis
    proof (cases "0 < hd_pending s1")
      case True
      then have "out = Inl (h, s1)" and ne: "?run \<noteq> []" using assms(2) res con pend by (auto simp: s1_def)
      moreover have "hedgex_racing zero fns start h0 (rs @ [a]) (h, s1)"
        unfolding hedgex_racing_def prod.case
        using R(1-3,10,11) run pend lost dist ne by (simp add: s1_def)
      ultimately show ?thesis by (simp add: s1_def)
    next
      case False
      then have none: "?run = []" using pend by (simp add: s1_def)
      show ?thesis
      proof (cases "hd_attempt s < ?n")
        case True
        obtain h2 s2 where l: "hedgex_launchNext zero fns ?n start (h, s1) = (h2, s2, True)"
          and r: "hedgex_racing zero fns start h0 (rs @ [a])
             (h2, hedgex_armTimer (hedgex_delays h0 ?n) since (s2\<lparr>hd_pending := hd_pending s2 + 1\<rparr>))"
          by (rule hedgex_racing_launch [where s = s1 and h = h and ?h0.0 = h0 and zero = zero and start = start and fns = fns
                and rs = "rs @ [a]" and since = since])
            (use True R run pend lost dist in \<open>simp_all add: s1_def\<close>)
        have "\<not> length fns \<le> hd_next s1" using R(3) True R(1) by (auto simp: s1_def)
        with l have "out = Inl (h2, hedgex_armTimer (hedgex_delays h0 ?n) since (s2\<lparr>hd_pending := hd_pending s2 + 1\<rparr>))"
          using assms(2) res con False by (simp add: hedgex_relaunchAfterFailure_def)
        moreover have "hd_attempt s2 = hd_attempt s + 1"
          using l by (auto simp: hedgex_launchNext_def Let_def s1_def split: option.splits)
        ultimately show ?thesis using r by (simp add: hedgex_armTimer_eq)
      next
        case alln: False
        let ?err = "hedgex_errAllFailed (hedgex_orWithdrawn (hedgex_first_err (map ?f (rs @ [a]))))"
        have k: "hd_attempt s = ?n" using alln R(2) by simp
        have sc: "hedgex_scan (drop (hd_next s1) fns) (hd_next s1) = None"
          using R(3) k by (simp add: hedgex_scan_backends s1_def)
        have "hedgex_relaunchAfterFailure zero fns ?n start (hedgex_delays h0 ?n) since (h, s1)
            = (h, if length fns \<le> hd_next s1 then s1 else s1\<lparr>hd_next := length fns\<rparr>, Some ?err)"
          using sc by (simp add: hedgex_relaunchAfterFailure_def hedgex_launchNext_def) (simp add: s1_def)
        then have out: "out = Inr (hedgex_add_failures h, zero, Some ?err)"
          using assms(2) res con False by simp
        have all: "set (rs @ [a]) = {1..?n}"
        proof -
          have "filter (\<lambda>b. b \<notin> set (rs @ [a])) [1..hd_attempt s] = []" using none unfolding run by simp
          then show ?thesis using dist(2) k by (auto simp: filter_empty_conv)
        qed
        show ?thesis
          unfolding out hedgex_outcome_def sum.case prod.case option.case
          using R(1,2,8,11) k dist(1) all lost
          by (intro exI [of _ "?n"] exI [of _ h] conjI disjI2 exI [of _ a] exI [of _ since]) (simp_all del: set_append)
      qed
    qed
  qed
qed

section \<open>The whole race\<close>

lemma hedgex_turn_racing:
  assumes "hedgex_racing zero fns start h0 rs hs"
    and "hedgex_turn zero fns (int (length (hedgex_backends_of fns))) start
          (hedgex_delays h0 (int (length (hedgex_backends_of fns)))) e hs = Some out"
  shows "case out of
      Inl hs1 \<Rightarrow> hedgex_racing zero fns start h0 (rs @ hedgex_reaped [e]) hs1
        \<and> hd_attempt (snd hs) + 1 \<le> hd_attempt (snd hs1) + int (length (hedgex_reaped [e]))
    | Inr r \<Rightarrow> hedgex_outcome zero fns start h0 e rs r"
proof (cases hs)
  case (Pair h s)
  show ?thesis
  proof (cases e)
    case (HDone c)
    have "1 \<le> hd_attempt s" "hd_attempt s \<le> int (length (hedgex_backends_of fns))" "hedgex_counts h0 (hd_attempt s) h"
      "\<forall>b\<in>set rs. \<not> hedgex_wins (hedgex_copy zero h0 fns start b)"
      using assms(1) Pair by (simp_all add: hedgex_racing_def)
    with assms(2) Pair HDone show ?thesis
      by (auto simp: hedgex_outcome_def intro!: exI [of _ "hd_attempt s"] exI [of _ h])
  next
    case (HResult a since)
    with assms Pair hedgex_turn_result [of zero fns start h0 rs h s a since out] show ?thesis by (auto split: sum.splits)
  next
    case (HTimer since)
    with assms Pair hedgex_turn_timer [of zero fns start h0 rs h s since out] show ?thesis by auto
  qed
qed

lemma hedgex_reaped_Cons: "hedgex_reaped (e # es) = hedgex_reaped [e] @ hedgex_reaped es"
  by (cases e) simp_all

lemma hedgex_loop_racing:
  assumes "hedgex_racing zero fns start h0 rs hs"
    and "hedgex_loop zero fns (int (length (hedgex_backends_of fns))) start
          (hedgex_delays h0 (int (length (hedgex_backends_of fns)))) es hs = Some out"
  shows "case out of
      Inl hs1 \<Rightarrow> hedgex_racing zero fns start h0 (rs @ hedgex_reaped es) hs1
        \<and> hd_attempt (snd hs) + int (length es) \<le> hd_attempt (snd hs1) + int (length (hedgex_reaped es))
    | Inr r \<Rightarrow> \<exists>m<length es. hedgex_outcome zero fns start h0 (es ! m) (rs @ hedgex_reaped (take m es)) r"
  using assms
proof (induction es arbitrary: rs hs)
  case (Cons e es)
  obtain o1 where o1: "hedgex_turn zero fns (int (length (hedgex_backends_of fns))) start
          (hedgex_delays h0 (int (length (hedgex_backends_of fns)))) e hs = Some o1"
    using Cons.prems(2) by (auto split: option.splits)
  note t = hedgex_turn_racing [OF Cons.prems(1) o1]
  show ?case
  proof (cases o1)
    case (Inl hs1)
    then have l: "hedgex_loop zero fns (int (length (hedgex_backends_of fns))) start
          (hedgex_delays h0 (int (length (hedgex_backends_of fns)))) es hs1 = Some out"
      using Cons.prems(2) o1 by simp
    have r: "hedgex_racing zero fns start h0 (rs @ hedgex_reaped [e]) hs1"
      and a: "hd_attempt (snd hs) + 1 \<le> hd_attempt (snd hs1) + int (length (hedgex_reaped [e]))" using t Inl by simp_all
    note ih = Cons.IH [OF r l]
    show ?thesis
    proof (cases out)
      case (Inl hs2)
      with ih a show ?thesis by (simp add: hedgex_reaped_Cons [of e es])
    next
      case (Inr r)
      with ih obtain m where "m < length es"
        "hedgex_outcome zero fns start h0 (es ! m) ((rs @ hedgex_reaped [e]) @ hedgex_reaped (take m es)) r" by auto
      then show ?thesis using Inr by (auto simp: hedgex_reaped_Cons [of e "take m es"] intro!: exI [of _ "Suc m"])
    qed
  next
    case (Inr r)
    with t Cons.prems(2) o1 show ?thesis by (auto intro!: exI [of _ 0])
  qed
next
  case Nil
  then show ?case by auto
qed

text \<open>The start of the race: the original copy.\<close>

lemma hedgex_dispatch_start:
  assumes "2 \<le> length (hedgex_backends_of fns)"
  obtains hs where "hedgex_racing zero fns start h [] hs" "hd_attempt (snd hs) = 1"
    "hedgex_dispatch zero fns (int (length (hedgex_backends_of fns))) start es h
       = hedgex_loop zero fns (int (length (hedgex_backends_of fns))) start
           (hedgex_delays h (int (length (hedgex_backends_of fns)))) es hs"
proof -
  let ?n = "int (length (hedgex_backends_of fns))"
  let ?s0 = "\<lparr>hd_next = 0, hd_attempt = 0, hd_pending = 0, hd_firstErr = None, hd_timer = None, hd_running = []\<rparr>"
  obtain h1 i where l: "hedgex_launchNext zero fns ?n start (h, ?s0)
       = (h1, ?s0\<lparr>hd_next := i, hd_attempt := 1, hd_running := [(1, hedgex_copy zero h fns start 1)]\<rparr>, True)"
    and i: "hedgex_backends_of (drop i fns) = drop 1 (hedgex_backends_of fns)" and c: "hedgex_counts h 1 h1"
    by (rule hedgex_launch_step [of ?s0 fns h h zero start]) (use assms in auto)
  let ?s = "?s0\<lparr>hd_next := i, hd_attempt := 1, hd_running := [(1, hedgex_copy zero h fns start 1)]\<rparr>
      \<lparr>hd_pending := 1, hd_timer := hedgex_delayFor (hedgex_delays h ?n) 1\<rparr>"
  have "hedgex_racing zero fns start h [] (h1, ?s)"
    using assms i c hedgex_delayFor_None [of 1 ?n h] by (simp add: hedgex_racing_def)
  then show ?thesis
    by (rule that) (simp_all add: hedgex_dispatch_def l Let_def)
qed

section \<open>Properties\<close>

text \<open>The functions a call races: those within the cap.\<close>

definition hedgex_capped :: "hedgex_Hedger \<Rightarrow> 'b option list \<Rightarrow> 'b option list" where
  "hedgex_capped h fns = take (nat (hc_maxParallel (hh_cfg h))) fns"

lemma hedgex_launchableCount_eq: "hedgex_launchableCount fns = int (length (hedgex_backends_of fns))"
proof -
  have "fold (\<lambda>fn n. if fn \<noteq> None then n + 1 else n) fns (m :: int) = m + int (length (hedgex_backends_of fns))" for m
    by (induction fns arbitrary: m) (auto simp: hedgex_backends_of_def)
  then show ?thesis by (simp add: hedgex_launchableCount_def)
qed

lemma hedgex_anyNonNil_eq: "hedgex_anyNonNil fns \<longleftrightarrow> hedgex_backends_of fns \<noteq> []"
  by (induction fns) (auto simp: hedgex_anyNonNil_def hedgex_backends_of_def)

lemma hedgex_lone_eq:
  "snd (hedgex_lone fns) \<longleftrightarrow> length (hedgex_backends_of fns) = 1"
proof -
  have "snd (hedgex_lone_loop fns f n) \<longleftrightarrow> n + int (length (hedgex_backends_of fns)) = 1" if "0 \<le> n" "n \<le> 1" for f n
    using that
  proof (induction fns f n rule: hedgex_lone_loop.induct)
    case (3 fn fns found cnt)
    then show ?case by (cases "cnt = 0") auto
  qed simp_all
  from this [of 0 None] show ?thesis by (simp add: hedgex_lone_def)
qed

lemma hedgex_ExecuteMulti_race:
  assumes "2 \<le> length (hedgex_backends_of (hedgex_capped h fns))" and "hedgex_shouldFanout h roll"
  shows "hedgex_ExecuteMulti zero roll None start es fns h
    = hedgex_dispatch zero (hedgex_capped h fns) (int (length (hedgex_backends_of (hedgex_capped h fns)))) start es
        (hedgex_add_calls h)"
proof -
  have c: "(if hc_maxParallel (hh_cfg (hedgex_add_calls h)) < int (length fns)
      then take (nat (hc_maxParallel (hh_cfg (hedgex_add_calls h)))) fns else fns) = hedgex_capped h fns"
    by (simp add: hedgex_capped_def hedgex_add_calls_def)
  have f: "hedgex_shouldFanout (hedgex_add_calls h) roll"
    using assms(2) by (auto simp: hedgex_shouldFanout_def hedgex_rand_def hedgex_add_calls_def Let_def split: if_splits)
  obtain fn b where l: "hedgex_lone (hedgex_capped h fns) = (fn, b)" by fastforce
  with hedgex_lone_eq [of "hedgex_capped h fns"] assms(1) have "\<not> b" by simp
  with l have l: "hedgex_lone (hedgex_capped h fns) = (fn, False)" by simp
  have ne: "hedgex_anyNonNil (hedgex_capped h fns)" using assms(1) by (auto simp: hedgex_anyNonNil_eq)
  show ?thesis
    unfolding hedgex_ExecuteMulti_def Let_def c
    by (cases fn) (simp_all add: ne f l hedgex_launchableCount_eq)
qed

lemma hedgex_copy_add_calls: "hedgex_copy zero (hedgex_add_calls h) = hedgex_copy zero h"
  by (rule ext)+ (simp add: hedgex_copy_def hedgex_add_calls_def hedgex_run_cfg [of "h\<lparr>hh_calls := wrap_i64 (hh_calls h + 1)\<rparr>" h])

lemma hedgex_outcome_add_calls:
  "hedgex_outcome zero fns start (hedgex_add_calls h) e rs (h', v, err) \<Longrightarrow> err = None \<Longrightarrow>
     \<exists>a. 1 \<le> a \<and> a \<le> int (length (hedgex_backends_of fns)) \<and> hedgex_wins (hedgex_copy zero h fns start a)
       \<and> v = hr_value (hedgex_copy zero h fns start a)"
  by (auto simp: hedgex_outcome_def hedgex_copy_add_calls)

text \<open> C13:
  The outcome of a race, as \<open>hedgex_outcome\<close> spells it out. When \<open>ExecuteMulti\<close> fans out to \<open>n\<close> backends and returns at some event, it has launched
  copies \<open>1\<close> to \<open>k\<close>, has told the hook of each hedge and counted it, and has counted the call once and either one win or one failure.
  A success is the value of the first copy received that returned no error and had not withdrawn: none received before it won. An
  error comes with the zero value and is the cancellation, or \<open>ErrAllFailed\<close>: this one only when all \<open>n\<close> backends were launched, each
  result was received and none won, and it wraps the first failure in the order received, or \<open>context.Canceled\<close> when all withdrew.
\<close>

theorem hedgex_race_outcome:
  assumes "2 \<le> length (hedgex_backends_of (hedgex_capped h fns))" and "hedgex_shouldFanout h roll"
    and "hedgex_ExecuteMulti zero roll None start es fns h = Some (Inr (h', v, err))"
  shows "\<exists>m<length es. hedgex_outcome zero (hedgex_capped h fns) start (hedgex_add_calls h) (es ! m)
           (hedgex_reaped (take m es)) (h', v, err)"
proof -
  obtain hs where r: "hedgex_racing zero (hedgex_capped h fns) start (hedgex_add_calls h) [] hs"
    and d: "hedgex_dispatch zero (hedgex_capped h fns) (int (length (hedgex_backends_of (hedgex_capped h fns)))) start es
        (hedgex_add_calls h)
      = hedgex_loop zero (hedgex_capped h fns) (int (length (hedgex_backends_of (hedgex_capped h fns)))) start
          (hedgex_delays (hedgex_add_calls h) (int (length (hedgex_backends_of (hedgex_capped h fns))))) es hs"
    using hedgex_dispatch_start [OF assms(1), of zero start "hedgex_add_calls h" es] by metis
  from hedgex_loop_racing [OF r, of es "Inr (h', v, err)"] assms(3) show ?thesis
    by (simp add: hedgex_ExecuteMulti_race [OF assms(1,2)] d)
qed

text \<open>Two copies: the original fails, the hedge returns seven.\<close>

definition hedgex_demo_fn :: "nat hedgex_HedgeFunc" where
  "hedgex_demo_fn e = (e, if hedgex_IsHedge e then Returns 7 None else Returns 0 (Some (UserError 1)))"

definition hedgex_demo :: hedgex_Hedger where
  "hedgex_demo = hedgex_New [Some (hedgex_WithMaxParallel 2), Some (hedgex_WithDelay 1000000)]"

lemmas hedgex_eval = hedgex_demo_def hedgex_New_def hedgex_newConfig_def Let_def hedgex_WithMaxParallel_def hedgex_WithDelay_def
  hedgex_DefaultMaxParallel_def hedgex_DefaultDelay_def hedgex_DefaultMaxDelay_def hedgex_minParallel_def
  hedgex_DefaultHedgeProbability_def hedgex_capped_def hedgex_shouldFanout_def hedgex_launchNext_def hedgex_dispatch_def
  hedgex_delays_def hedgex_delayFor_def hedgex_run_def hedgex_demo_fn_def hedgex_IsHedge_def hedgex_fireOnHedge_def
  hedgex_isWithdrawn_def hedgex_add_calls_def hedgex_armTimer_def hedgex_resetTimer_def hedgex_add_wins_def
  hedgex_consumeResult_def hedgex_relaunchAfterFailure_def

lemma hedgex_demo_race:
  "2 \<le> length (hedgex_backends_of (hedgex_capped hedgex_demo [Some hedgex_demo_fn, Some hedgex_demo_fn]))"
  "hedgex_shouldFanout hedgex_demo 0"
  by (simp_all add: hedgex_eval numeral_2_eq_2)

lemma hedgex_race_outcome_witness:
  "\<exists>h' m. hedgex_ExecuteMulti 0 0 None 0 [HResult 1 5, HResult 2 9] [Some hedgex_demo_fn, Some hedgex_demo_fn] hedgex_demo
        = Some (Inr (h', 7, None))
     \<and> hedgex_outcome 0 (hedgex_capped hedgex_demo [Some hedgex_demo_fn, Some hedgex_demo_fn]) 0 (hedgex_add_calls hedgex_demo)
         ([HResult 1 5, HResult 2 9] ! m) (hedgex_reaped (take m [HResult 1 5, HResult 2 9])) (h', 7, None)"
proof -
  note a = hedgex_demo_race
  obtain h' where h: "hedgex_ExecuteMulti 0 0 None 0 [HResult 1 5, HResult 2 9] [Some hedgex_demo_fn, Some hedgex_demo_fn] hedgex_demo
        = Some (Inr (h', 7, None))"
    unfolding hedgex_ExecuteMulti_race [OF a] by (simp add: hedgex_eval numeral_2_eq_2 upt_rec)
  from hedgex_race_outcome [OF a h] show ?thesis using h by blast
qed

text \<open> C14:
  A race ends. While \<open>ExecuteMulti\<close> with \<open>n\<close> backends has not returned, its \<open>select\<close> has received at most \<open>2 n - 2\<close> results and timer ticks,
  some copy it launched is still to be heard of, and it can receive the result of each of these: so it returns once the copies do, after at most
  \<open>2 n - 1\<close> events, whatever their order.
\<close>

theorem hedgex_race_ends:
  assumes "2 \<le> length (hedgex_backends_of (hedgex_capped h fns))" and "hedgex_shouldFanout h roll"
    and "hedgex_ExecuteMulti zero roll None start es fns h = Some (Inl (h', s))"
  shows "length es + 2 \<le> 2 * length (hedgex_backends_of (hedgex_capped h fns)) \<and> hd_running s \<noteq> []
    \<and> (\<forall>(a, r)\<in>set (hd_running s). \<forall>since.
          hedgex_ExecuteMulti zero roll None start (es @ [HResult a since]) fns h \<noteq> None)"
proof -
  let ?fns = "hedgex_capped h fns" and ?h = "hedgex_add_calls h"
  let ?n = "int (length (hedgex_backends_of ?fns))"
  obtain hs where r: "hedgex_racing zero ?fns start ?h [] hs" "hd_attempt (snd hs) = 1"
    and d: "\<And>es. hedgex_dispatch zero ?fns ?n start es ?h = hedgex_loop zero ?fns ?n start (hedgex_delays ?h ?n) es hs"
  proof -
    obtain hs where "hedgex_racing zero ?fns start ?h [] hs" "hd_attempt (snd hs) = 1"
      "hedgex_dispatch zero ?fns ?n start [] ?h = hedgex_loop zero ?fns ?n start (hedgex_delays ?h ?n) [] hs"
      using hedgex_dispatch_start [OF assms(1), of zero start ?h "[]"] by metis
    moreover from this(3) have "hedgex_dispatch zero ?fns ?n start es ?h = hedgex_loop zero ?fns ?n start (hedgex_delays ?h ?n) es hs" for es
      by (simp add: hedgex_dispatch_def Let_def split: prod.splits)
    ultimately show ?thesis using that by blast
  qed
  have l: "hedgex_loop zero ?fns ?n start (hedgex_delays ?h ?n) es hs = Some (Inl (h', s))"
    using assms(3) by (simp add: hedgex_ExecuteMulti_race [OF assms(1,2)] d)
  from hedgex_loop_racing [OF r(1) l] r(2)
  have R: "hedgex_racing zero ?fns start ?h (hedgex_reaped es) (h', s)"
    and c: "1 + int (length es) \<le> hd_attempt s + int (length (hedgex_reaped es))" by simp_all
  note R = hedgex_racing_unpack [OF R]
  have ne: "hd_running s \<noteq> []" using R(7,12) by auto
  have "int (length (hedgex_reaped es)) < hd_attempt s"
  proof -
    obtain a where "a \<in> {1..hd_attempt s}" "a \<notin> set (hedgex_reaped es)"
      using ne R(4) by (auto simp: filter_empty_conv)
    then have "card (set (hedgex_reaped es)) < card {1..hd_attempt s}"
      using R(6) by (intro psubset_card_mono) auto
    then show ?thesis using distinct_card [OF R(5)] R(1) by simp
  qed
  with c R(2) have "length es + 2 \<le> 2 * length (hedgex_backends_of ?fns)" by linarith
  moreover have "hedgex_loop zero ?fns ?n start (hedgex_delays ?h ?n) (es @ [HResult a since]) hs \<noteq> None"
    if ar: "(a, r) \<in> set (hd_running s)" for a r since
  proof -
    have app: "hedgex_loop zero ?fns ?n start ds es hs0 = Some (Inl hs1) \<Longrightarrow>
        hedgex_loop zero ?fns ?n start ds (es @ [e]) hs0 = hedgex_loop zero ?fns ?n start ds [e] hs1" for ds es e hs0 hs1
      by (induction es arbitrary: hs0) (auto split: option.splits sum.splits)
    obtain res where "map_of (hd_running s) a = Some res" using weak_map_of_SomeI [OF ar] by blast
    then show ?thesis unfolding app [OF l] by (simp split: prod.split option.split sum.split)
  qed
  ultimately show ?thesis using ne by (auto simp: hedgex_ExecuteMulti_race [OF assms(1,2)] d)
qed

lemma hedgex_race_ends_witness:
  "\<exists>h' s. hedgex_ExecuteMulti 0 0 None 0 [HTimer 1000000] [Some hedgex_demo_fn, Some hedgex_demo_fn] hedgex_demo = Some (Inl (h', s))
     \<and> hd_running s \<noteq> []"
proof -
  note a = hedgex_demo_race
  obtain h' s where h: "hedgex_ExecuteMulti 0 0 None 0 [HTimer 1000000] [Some hedgex_demo_fn, Some hedgex_demo_fn] hedgex_demo
        = Some (Inl (h', s))"
    unfolding hedgex_ExecuteMulti_race [OF a] by (simp add: hedgex_eval numeral_2_eq_2 upt_rec)
  from hedgex_race_ends [OF a h] show ?thesis using h by blast
qed

section \<open>The schedule\<close>

lemma hedgex_capIdx_Some:
  "hedgex_capIdx c i m = Some k \<Longrightarrow>
     i \<le> k \<and> k < i + m \<and> hc_maxDelay c \<le> wrap_i64 (hc_delay c * int (k + 1))
     \<and> (\<forall>j. i \<le> j \<and> j < k \<longrightarrow> wrap_i64 (hc_delay c * int (j + 1)) < hc_maxDelay c)"
proof (induction c i m rule: hedgex_capIdx.induct)
  case (2 c i n)
  show ?case
  proof (cases "hc_maxDelay c \<le> wrap_i64 (hc_delay c * int (i + 1))")
    case False
    with 2 have ih: "Suc i \<le> k \<and> k < Suc i + n \<and> hc_maxDelay c \<le> wrap_i64 (hc_delay c * int (k + 1))
        \<and> (\<forall>j. Suc i \<le> j \<and> j < k \<longrightarrow> wrap_i64 (hc_delay c * int (j + 1)) < hc_maxDelay c)" by simp
    then have "wrap_i64 (hc_delay c * int (j + 1)) < hc_maxDelay c" if "i \<le> j" "j < k" for j
      using that False by (cases "j = i") (simp_all only: not_le, simp)
    with ih show ?thesis by auto
  qed (use 2 in auto)
qed simp

lemma hedgex_capIdx_None:
  "hedgex_capIdx c i m = None \<Longrightarrow> i \<le> j \<Longrightarrow> j < i + m \<Longrightarrow> wrap_i64 (hc_delay c * int (j + 1)) < hc_maxDelay c"
proof (induction c i m rule: hedgex_capIdx.induct)
  case (2 c i n)
  then show ?case by (cases "j = i") (auto split: if_splits simp: not_le)
qed simp

definition hedgex_spread :: "hedgex_Hedger \<Rightarrow> int" where
  "hedgex_spread h = max hedgex_minSpread (hc_delay (hh_cfg h) div hedgex_spreadDivisor)"

text \<open>The closed form: multiples of the delay up to an index, then the spread tail.\<close>

lemma hedgex_delays_form:
  assumes "0 < hc_delay (hh_cfg h)" and "2 \<le> n"
    and "hc_delay (hh_cfg h) * n < 2 ^ 63" and "hc_maxDelay (hh_cfg h) + hedgex_spread h * n < 2 ^ 63" and "0 \<le> hc_maxDelay (hh_cfg h)"
  obtains k where "k \<le> nat (n - 1)"
    and "\<And>j. j < nat (n - 1) \<Longrightarrow> j < k \<longleftrightarrow> hc_delay (hh_cfg h) * int (j + 1) < hc_maxDelay (hh_cfg h)"
    and "\<And>j. j < nat (n - 1) \<Longrightarrow> hedgex_delays h n ! j =
           (if j < k then hc_delay (hh_cfg h) * int (j + 1) else hc_maxDelay (hh_cfg h) + int (j - k) * hedgex_spread h)"
proof -
  let ?c = "hh_cfg h" and ?m = "nat (n - 1)"
  let ?d = "hc_delay ?c" and ?M = "hc_maxDelay ?c" and ?sp = "hedgex_spread h"
  have sp: "0 < ?sp" "(if ?d div hedgex_spreadDivisor < hedgex_minSpread then hedgex_minSpread else ?d div hedgex_spreadDivisor) = ?sp"
    by (auto simp: hedgex_spread_def hedgex_minSpread_def)
  have small: "wrap_i64 (?d * int (j + 1)) = ?d * int (j + 1)" if "j < ?m" for j
  proof (rule wrap_i64_id)
    have "?d * int (j + 1) \<le> ?d * n" using that assms(1) by (intro mult_left_mono) linarith+
    then show "?d * int (j + 1) < 2 ^ 63" using assms(3) by simp
    have "0 \<le> ?d * int (j + 1)" using assms(1) by simp
    then show "- (2 ^ 63) \<le> ?d * int (j + 1)" by simp
  qed
  have tail: "wrap_i64 (?M + wrap_i64 (int (j - k) * ?sp)) = ?M + int (j - k) * ?sp" if "j < ?m" for j k
  proof -
    have "int (j - k) * ?sp \<le> n * ?sp" using that sp(1) by (intro mult_right_mono) linarith+
    then have le: "?M + int (j - k) * ?sp < 2 ^ 63" using assms(4) by (simp add: mult.commute)
    have nn: "0 \<le> int (j - k) * ?sp" using sp(1) by simp
    have "wrap_i64 (int (j - k) * ?sp) = int (j - k) * ?sp" using le nn assms(5) by (intro wrap_i64_id) linarith+
    moreover have "wrap_i64 (?M + int (j - k) * ?sp) = ?M + int (j - k) * ?sp"
      using le nn assms(5) by (intro wrap_i64_id) linarith+
    ultimately show ?thesis by simp
  qed
  have mono: "?d * int (j + 1) \<le> ?d * int (j' + 1)" if "j \<le> j'" for j j'
    using that assms(1) by (intro mult_left_mono) simp_all
  show ?thesis
  proof (cases "hedgex_capIdx ?c 0 ?m")
    case None
    have lt: "?d * int (j + 1) < ?M" if "j < ?m" for j
      using hedgex_capIdx_None [OF None, of j] small [OF that] that by simp
    show ?thesis
    proof (rule that [of ?m])
      show "hedgex_delays h n ! j = (if j < ?m then ?d * int (j + 1) else ?M + int (j - ?m) * ?sp)" if "j < ?m" for j
        using that small [OF that] assms(2) by (simp add: hedgex_delays_def None Let_def)
    qed (use lt in auto)
  next
    case (Some k)
    note k = hedgex_capIdx_Some [OF Some]
    have km: "k < ?m" using k by simp
    have M: "?M \<le> ?d * int (k + 1)" using k small [OF km] by simp
    show ?thesis
    proof (rule that [of k])
      show "k \<le> ?m" using km by simp
      show "j < k \<longleftrightarrow> ?d * int (j + 1) < ?M" if "j < ?m" for j
      proof
        assume "j < k"
        with k have "wrap_i64 (?d * int (j + 1)) < ?M" by blast
        then show "?d * int (j + 1) < ?M" unfolding small [OF that] .
      next
        assume "?d * int (j + 1) < ?M"
        with M mono [of k j] show "j < k" by (cases "k \<le> j") linarith+
      qed
      show "hedgex_delays h n ! j = (if j < k then ?d * int (j + 1) else ?M + int (j - k) * ?sp)" if "j < ?m" for j
      proof -
        have "hedgex_delays h n = map (\<lambda>i. wrap_i64 (?d * int (i + 1))) [0..<k]
            @ map (\<lambda>i. wrap_i64 (?M + wrap_i64 (int (i - k) * ?sp))) [k..<?m]"
          using assms(2) by (simp add: hedgex_delays_def Some Let_def sp(2))
        then show ?thesis using that km small [OF that] tail [OF that, of k] by (auto simp: nth_append)
      qed
    qed
  qed
qed

text \<open> 
  The schedule of \<open>n\<close> copies has \<open>n - 1\<close> strictly increasing launch times and the first is the delay. A copy whose multiple of the delay is below \<open>MaxDelay\<close>
  starts at that multiple; from there on copies start at \<open>MaxDelay\<close> or later, each one spread (a quarter of the delay, at least a
  millisecond) after the one before, as long as the times fit in a \<open>Duration\<close>.
\<close>

theorem hedgex_delays_schedule:
  assumes "0 < hc_delay (hh_cfg h)" and "hc_delay (hh_cfg h) \<le> hc_maxDelay (hh_cfg h)" and "2 \<le> n"
    and "hc_delay (hh_cfg h) * n < 2 ^ 63" and "hc_maxDelay (hh_cfg h) + hedgex_spread h * n < 2 ^ 63"
  shows "length (hedgex_delays h n) = nat (n - 1) \<and> sorted_wrt (<) (hedgex_delays h n)
    \<and> hedgex_delays h n ! 0 = hc_delay (hh_cfg h)
    \<and> (\<forall>i<nat (n - 1).
          (if hc_delay (hh_cfg h) * int (i + 1) < hc_maxDelay (hh_cfg h)
           then hedgex_delays h n ! i = hc_delay (hh_cfg h) * int (i + 1)
           else hc_maxDelay (hh_cfg h) \<le> hedgex_delays h n ! i
             \<and> (i + 1 < nat (n - 1) \<longrightarrow> hedgex_delays h n ! (i + 1) = hedgex_delays h n ! i + hedgex_spread h)))"
proof -
  let ?c = "hh_cfg h" and ?m = "nat (n - 1)" and ?ds = "hedgex_delays h n"
  let ?d = "hc_delay ?c" and ?M = "hc_maxDelay ?c" and ?sp = "hedgex_spread h"
  obtain k where k: "k \<le> ?m" "\<And>j. j < ?m \<Longrightarrow> j < k \<longleftrightarrow> ?d * int (j + 1) < ?M"
      "\<And>j. j < ?m \<Longrightarrow> ?ds ! j = (if j < k then ?d * int (j + 1) else ?M + int (j - k) * ?sp)"
    by (rule hedgex_delays_form [OF assms(1,3,4,5)]) (use assms(1,2) in auto)
  have sp: "0 < ?sp" by (simp add: hedgex_spread_def hedgex_minSpread_def)
  have len: "length ?ds = ?m" by (rule hedgex_delays_length)
  have step: "?ds ! i < ?ds ! j" if "i < j" "j < ?m" for i j
  proof -
    have "?d * int (i + 1) < ?d * int (j + 1)" using that(1) assms(1) by (intro mult_strict_left_mono) simp_all
    moreover have "int (i - k) * ?sp < int (j - k) * ?sp" if "k \<le> i" using that \<open>i < j\<close> sp by (intro mult_strict_right_mono) auto
    moreover have "0 \<le> int (j - k) * ?sp" using sp by simp
    ultimately show ?thesis using that k(2) [of i] k(3) [of i] k(3) [of j] by (auto simp: not_less)
  qed
  have first: "?ds ! 0 = ?d"
  proof -
    have "0 < ?m" using assms(3) by simp
    with k(2) [of 0] k(3) [of 0] assms(2) show ?thesis by (auto split: if_splits)
  qed
  have each: "if ?d * int (i + 1) < ?M then ?ds ! i = ?d * int (i + 1)
      else ?M \<le> ?ds ! i \<and> (i + 1 < ?m \<longrightarrow> ?ds ! (i + 1) = ?ds ! i + ?sp)" if "i < ?m" for i
  proof (cases "i < k")
    case True
    with k(2,3) [OF that] show ?thesis by simp
  next
    case False
    with k(2,3) [OF that] k(3) [of "i + 1"] sp show ?thesis by (auto simp: Suc_diff_le not_less distrib_right)
  qed
  have "sorted_wrt (<) ?ds" using step by (simp add: sorted_wrt_iff_nth_less len)
  then show ?thesis using len first each by blast
qed

lemma hedgex_delays_schedule_witness:
  "sorted_wrt (<) (hedgex_delays (hedgex_New []) 20) \<and> hedgex_delays (hedgex_New []) 20 ! 0 = 100000000"
proof -
  have c: "hc_delay (hh_cfg (hedgex_New [])) = 100000000" "hc_maxDelay (hh_cfg (hedgex_New [])) = 1000000000"
    by (simp_all add: hedgex_eval)
  show ?thesis
    using hedgex_delays_schedule [of "hedgex_New []" 20] by (simp add: c hedgex_spread_def hedgex_minSpread_def hedgex_spreadDivisor_def)
qed

end
