(* ===== verification/Go_Heap.thy ===== *)
theory Go_Heap
  imports URX_Prelude "HOL-Library.Multiset"
begin

text \<open>
  \<open>container/heap\<close> of the standard library: \<open>up\<close>, \<open>down\<close>, \<open>Push\<close>, \<open>Fix\<close> and \<open>Remove\<close> over the methods of \<open>heap.Interface\<close>,
  and what they keep of a heap, stated once for every implementation of the interface as a locale.
\<close>

section \<open>The algorithms\<close>

function heap_up :: "(nat \<Rightarrow> nat \<Rightarrow> 's \<Rightarrow> bool) \<Rightarrow> (nat \<Rightarrow> nat \<Rightarrow> 's \<Rightarrow> 's) \<Rightarrow> nat \<Rightarrow> 's \<Rightarrow> 's" where
  "heap_up ls swap j s =
     (let i = (j - 1) div 2
      in if i = j \<or> \<not> ls j i s then s else heap_up ls swap i (swap i j s))"
  by pat_completeness auto
termination by (relation "measure (\<lambda>(ls, swap, j, s). j)") auto

function heap_down ::
  "(nat \<Rightarrow> nat \<Rightarrow> 's \<Rightarrow> bool) \<Rightarrow> (nat \<Rightarrow> nat \<Rightarrow> 's \<Rightarrow> 's) \<Rightarrow> nat \<Rightarrow> nat \<Rightarrow> 's \<Rightarrow> 's \<times> nat" where
  "heap_down ls swap i n s =
     (let j1 = 2 * i + 1
      in if n \<le> j1 then (s, i)
         else let j = (if j1 + 1 < n \<and> ls (j1 + 1) j1 s then j1 + 1 else j1)
              in if \<not> ls j i s then (s, i) else heap_down ls swap j n (swap i j s))"
  by pat_completeness auto
termination by (relation "measure (\<lambda>(ls, swap, i, n, s). n - i)") (auto split: if_splits)

declare heap_up.simps [simp del] heap_down.simps [simp del]

definition heap_sift ::
  "(nat \<Rightarrow> nat \<Rightarrow> 's \<Rightarrow> bool) \<Rightarrow> (nat \<Rightarrow> nat \<Rightarrow> 's \<Rightarrow> 's) \<Rightarrow> nat \<Rightarrow> nat \<Rightarrow> 's \<Rightarrow> 's" where
  "heap_sift ls swap i n s =
     (case heap_down ls swap i n s of (s1, i1) \<Rightarrow> if i < i1 then s1 else heap_up ls swap i s1)"

definition heap_Fix ::
  "('s \<Rightarrow> nat) \<Rightarrow> (nat \<Rightarrow> nat \<Rightarrow> 's \<Rightarrow> bool) \<Rightarrow> (nat \<Rightarrow> nat \<Rightarrow> 's \<Rightarrow> 's) \<Rightarrow> nat \<Rightarrow> 's \<Rightarrow> 's" where
  "heap_Fix len ls swap i s = heap_sift ls swap i (len s) s"

definition heap_Push ::
  "('s \<Rightarrow> nat) \<Rightarrow> (nat \<Rightarrow> nat \<Rightarrow> 's \<Rightarrow> bool) \<Rightarrow> (nat \<Rightarrow> nat \<Rightarrow> 's \<Rightarrow> 's) \<Rightarrow> ('p \<Rightarrow> 's \<Rightarrow> 's) \<Rightarrow> 'p \<Rightarrow> 's \<Rightarrow> 's" where
  "heap_Push len ls swap push x s = (let s1 = push x s in heap_up ls swap (len s1 - 1) s1)"

definition heap_Remove ::
  "('s \<Rightarrow> nat) \<Rightarrow> (nat \<Rightarrow> nat \<Rightarrow> 's \<Rightarrow> bool) \<Rightarrow> (nat \<Rightarrow> nat \<Rightarrow> 's \<Rightarrow> 's) \<Rightarrow> ('s \<Rightarrow> 's) \<Rightarrow> nat \<Rightarrow> 's \<Rightarrow> 's" where
  "heap_Remove len ls swap pop i s =
     (let n = len s - 1 in pop (if n \<noteq> i then heap_sift ls swap i n (swap i n s) else s))"

section \<open>Heap order of an array\<close>

definition heap_par :: "nat \<Rightarrow> nat" where "heap_par i = (i - 1) div 2"

definition heap_ok :: "(nat \<Rightarrow> 'k::linorder) \<Rightarrow> nat \<Rightarrow> bool" where
  "heap_ok a n \<longleftrightarrow> (\<forall>i<n. 0 < i \<longrightarrow> a (heap_par i) \<le> a i)"

text \<open>Ordered but for the edges at one index, and its children are not below its parent.\<close>

definition heap_but :: "(nat \<Rightarrow> 'k::linorder) \<Rightarrow> nat \<Rightarrow> nat \<Rightarrow> bool" where
  "heap_but a n j \<longleftrightarrow>
     (\<forall>i<n. 0 < i \<and> i \<noteq> j \<and> heap_par i \<noteq> j \<longrightarrow> a (heap_par i) \<le> a i)
     \<and> (\<forall>i<n. 0 < i \<and> heap_par i = j \<and> 0 < j \<longrightarrow> a (heap_par j) \<le> a i)"

definition heap_below :: "(nat \<Rightarrow> 'k::linorder) \<Rightarrow> nat \<Rightarrow> nat \<Rightarrow> bool" where
  "heap_below a n j \<longleftrightarrow> (\<forall>i<n. 0 < i \<and> heap_par i = j \<longrightarrow> a j \<le> a i)"

lemma heap_par_less: "0 < i \<Longrightarrow> heap_par i < i"
  by (simp add: heap_par_def)

lemma heap_par_child: "0 < k \<Longrightarrow> heap_par k = i \<longleftrightarrow> k = 2 * i + 1 \<or> k = 2 * i + 2"
  unfolding heap_par_def by presburger

lemma heap_but_ok:
  "heap_but a n j \<Longrightarrow> heap_below a n j \<Longrightarrow> (0 < j \<Longrightarrow> j < n \<Longrightarrow> a (heap_par j) \<le> a j) \<Longrightarrow> heap_ok a n"
  unfolding heap_but_def heap_below_def heap_ok_def by metis

lemma heap_root_min:
  assumes "heap_ok a n" and "i < n" shows "a 0 \<le> a i"
  using assms(2)
proof (induction i rule: less_induct)
  case (less i)
  show ?case
  proof (cases "i = 0")
    case False
    with less heap_par_less [of i] have "a 0 \<le> a (heap_par i)" by simp
    also have "\<dots> \<le> a i" using assms(1) less.prems False by (simp add: heap_ok_def)
    finally show ?thesis .
  qed simp
qed

definition heap_swapped :: "(nat \<Rightarrow> 'k) \<Rightarrow> nat \<Rightarrow> nat \<Rightarrow> nat \<Rightarrow> 'k" where
  "heap_swapped a i j = a(i := a j, j := a i)"

text \<open>One step of \<open>up\<close> and one of \<open>down\<close>.\<close>

lemma heap_up_step:
  assumes "heap_but a n j" and "heap_below a n j" and "0 < j" and "j < n" and "a j < a (heap_par j)"
  shows "heap_but (heap_swapped a (heap_par j) j) n (heap_par j) \<and> heap_below (heap_swapped a (heap_par j) j) n (heap_par j)"
proof -
  let ?p = "heap_par j" and ?a = "heap_swapped a (heap_par j) j"
  have p: "?p < j" by (rule heap_par_less [OF assms(3)])
  have a: "?a ?p = a j" "?a j = a ?p" "\<And>i. i \<noteq> ?p \<Longrightarrow> i \<noteq> j \<Longrightarrow> ?a i = a i"
    using p by (simp_all add: heap_swapped_def)
  have e: "a (heap_par i) \<le> a i" if "i < n" "0 < i" "i \<noteq> j" "heap_par i \<noteq> j" for i
    using assms(1) that by (simp add: heap_but_def)
  have c: "a ?p \<le> a i" if "i < n" "0 < i" "heap_par i = j" for i
    using assms(1,3) that by (simp add: heap_but_def)
  have "heap_below ?a n ?p"
    unfolding heap_below_def
  proof (intro allI impI)
    fix i assume i: "i < n" "0 < i \<and> heap_par i = ?p"
    then have "i \<noteq> ?p" using heap_par_less [of i] by auto
    with i e [of i] a assms(5) p show "?a ?p \<le> ?a i" by (cases "i = j") auto
  qed
  moreover have "?a (heap_par i) \<le> ?a i" if i: "i < n" "0 < i" "i \<noteq> ?p" "heap_par i \<noteq> ?p" for i
  proof (cases "heap_par i = j")
    case True
    then have "i \<noteq> j" using heap_par_less [OF i(2)] by auto
    with True a i c [of i] show ?thesis by simp
  next
    case False
    with i a e [of i] show ?thesis by (cases "i = j") auto
  qed
  moreover have "?a (heap_par ?p) \<le> ?a i" if i: "i < n" "0 < i" "heap_par i = ?p" "0 < ?p" for i
  proof -
    have pp: "heap_par ?p < ?p" by (rule heap_par_less [OF i(4)])
    have ep: "a (heap_par ?p) \<le> a ?p" using e [of ?p] p pp assms(4) i(4) by auto
    show ?thesis
    proof (cases "i = j")
      case True with a p pp ep show ?thesis by simp
    next
      case False
      have "i \<noteq> ?p" using heap_par_less [OF i(2)] i(3) by auto
      with False a p pp ep e [of i] i show ?thesis by auto
    qed
  qed
  ultimately show ?thesis by (simp add: heap_but_def)
qed

lemma heap_down_step:
  assumes "heap_but a n i" and "0 < j" and "heap_par j = i" and "j < n" and "a j < a i"
    and "\<forall>k<n. 0 < k \<and> heap_par k = i \<longrightarrow> a j \<le> a k"
  shows "heap_but (heap_swapped a i j) n j \<and> heap_swapped a i j i \<le> heap_swapped a i j j"
proof -
  let ?a = "heap_swapped a i j"
  have ij: "i < j" using heap_par_less [OF assms(2)] assms(3) by simp
  have a: "?a i = a j" "?a j = a i" "\<And>k. k \<noteq> i \<Longrightarrow> k \<noteq> j \<Longrightarrow> ?a k = a k"
    using ij by (simp_all add: heap_swapped_def)
  have e: "a (heap_par k) \<le> a k" if "k < n" "0 < k" "k \<noteq> i" "heap_par k \<noteq> i" for k
    using assms(1) that by (simp add: heap_but_def)
  have c: "a (heap_par i) \<le> a k" if "k < n" "0 < k" "heap_par k = i" "0 < i" for k
    using assms(1) that by (simp add: heap_but_def)
  have "?a (heap_par k) \<le> ?a k" if k: "k < n" "0 < k" "k \<noteq> j" "heap_par k \<noteq> j" for k
  proof (cases "k = i")
    case True
    with k(2) have "heap_par i < i" by (intro heap_par_less) simp
    with True k c [of j] assms(2-4) ij a show ?thesis by simp
  next
    case False
    with k a e [of k] assms(6) show ?thesis by (cases "heap_par k = i") auto
  qed
  moreover have "?a (heap_par j) \<le> ?a k" if k: "k < n" "0 < k" "heap_par k = j" for k
  proof -
    have "j < k" using heap_par_less [OF k(2)] k(3) by simp
    with k ij a e [of k] assms(3) show ?thesis by simp
  qed
  ultimately show ?thesis using a assms(5) by (simp add: heap_but_def)
qed

section \<open>The interface\<close>

text \<open>
  What an implementation promises: \<open>Less\<close> compares the keys of the elements at two indices, \<open>Swap\<close> exchanges them, keeps
  the implementation's own invariant, and leaves alone what a \<open>view\<close> of the state shows.
\<close>

locale go_heap =
  fixes len :: "'s \<Rightarrow> nat" and ls :: "nat \<Rightarrow> nat \<Rightarrow> 's \<Rightarrow> bool" and swap :: "nat \<Rightarrow> nat \<Rightarrow> 's \<Rightarrow> 's"
    and elems :: "'s \<Rightarrow> 'p list" and key :: "'s \<Rightarrow> 'p \<Rightarrow> 'k::linorder" and inv :: "'s \<Rightarrow> bool" and view :: "'s \<Rightarrow> 'v"
  assumes len_elems: "len s = length (elems s)"
    and ls_key: "inv s \<Longrightarrow> i < len s \<Longrightarrow> j < len s \<Longrightarrow> ls i j s \<longleftrightarrow> key s (elems s ! i) < key s (elems s ! j)"
    and swap_elems: "inv s \<Longrightarrow> i < len s \<Longrightarrow> j < len s \<Longrightarrow> elems (swap i j s) = (elems s)[i := elems s ! j, j := elems s ! i]"
    and swap_key: "key (swap i j s) = key s"
    and swap_inv: "inv s \<Longrightarrow> i < len s \<Longrightarrow> j < len s \<Longrightarrow> inv (swap i j s)"
    and swap_view: "view (swap i j s) = view s"
begin

definition arr :: "'s \<Rightarrow> nat \<Rightarrow> 'k" where "arr s i = key s (elems s ! i)"

text \<open>The same elements, those from \<open>n\<close> on in place.\<close>

definition same :: "nat \<Rightarrow> 's \<Rightarrow> 's \<Rightarrow> bool" where
  "same n s s' \<longleftrightarrow> inv s' \<and> mset (elems s') = mset (elems s) \<and> key s' = key s \<and> view s' = view s
     \<and> (\<forall>i<len s. n \<le> i \<longrightarrow> elems s' ! i = elems s ! i)"

lemma same_len: "same n s s' \<Longrightarrow> len s' = len s"
  unfolding same_def len_elems by (metis size_mset)

lemma same_refl: "inv s \<Longrightarrow> same n s s"
  by (simp add: same_def)

lemma same_trans: "same n s s1 \<Longrightarrow> same n s1 s2 \<Longrightarrow> same n s s2"
  using same_len [of n s s1] by (auto simp: same_def)

lemma swap_same:
  assumes "inv s" and "i < n" and "j < n" and "n \<le> len s" shows "same n s (swap i j s)"
proof -
  have ij: "i < len s" "j < len s" using assms by auto
  have "mset ((elems s)[i := elems s ! j, j := elems s ! i]) = mset (elems s)"
    using ij mset_swap [of j "elems s" i] by (simp add: len_elems)
  with assms ij show ?thesis
    by (simp add: same_def swap_elems swap_inv swap_key swap_view)
qed

lemma swap_arr: "inv s \<Longrightarrow> i < len s \<Longrightarrow> j < len s \<Longrightarrow> k < len s \<Longrightarrow> arr (swap i j s) k = heap_swapped (arr s) i j k"
  by (auto simp: arr_def swap_elems swap_key heap_swapped_def nth_list_update len_elems)

lemma arr_cong_ok: "(\<And>i. i < n \<Longrightarrow> a i = b i) \<Longrightarrow> heap_ok a n \<longleftrightarrow> heap_ok b n"
  unfolding heap_ok_def by (metis heap_par_less less_trans)

lemma arr_but_mono:
  assumes "\<And>i. i < n \<Longrightarrow> a i = b i" and "heap_but a n j" shows "heap_but b n j"
proof -
  have p: "heap_par i < n" if "i < n" "0 < i" for i using heap_par_less [OF that(2)] that(1) by simp
  show ?thesis
    unfolding heap_but_def
  proof (intro conjI allI impI)
    fix i assume i: "i < n" "0 < i \<and> i \<noteq> j \<and> heap_par i \<noteq> j"
    then have "a (heap_par i) \<le> a i" using assms(2) by (auto simp: heap_but_def)
    then show "b (heap_par i) \<le> b i" using i assms(1) [OF i(1)] assms(1) [OF p [of i]] by simp
  next
    fix i assume i: "i < n" "0 < i \<and> heap_par i = j \<and> 0 < j"
    then have "j < n" using p [of i] by simp
    with i show "b (heap_par j) \<le> b i"
      using assms(2) assms(1) [OF i(1)] assms(1) [OF p [of j]] by (auto simp: heap_but_def)
  qed
qed

lemma arr_cong_but: "(\<And>i. i < n \<Longrightarrow> a i = b i) \<Longrightarrow> heap_but a n j \<longleftrightarrow> heap_but b n j"
  using arr_but_mono [of n a b j] arr_but_mono [of n b a j] by metis

lemma arr_cong_below: "(\<And>i. i < n \<Longrightarrow> a i = b i) \<Longrightarrow> heap_below a n j \<longleftrightarrow> heap_below b n j"
  unfolding heap_below_def by (metis heap_par_less less_trans)

lemma up_ok:
  assumes "inv s" and "j < n" and "n \<le> len s" and "heap_but (arr s) n j" and "heap_below (arr s) n j"
  shows "same n s (heap_up ls swap j s) \<and> heap_ok (arr (heap_up ls swap j s)) n"
  using assms
proof (induction j arbitrary: s rule: less_induct)
  case (less j)
  let ?p = "heap_par j"
  have j: "j < len s" "?p \<le> j" using less.prems(2,3) by (auto simp: heap_par_def)
  show ?case
  proof (cases "?p = j \<or> \<not> ls j ?p s")
    case True
    then have "heap_up ls swap j s = s" by (subst heap_up.simps) (simp add: heap_par_def Let_def)
    moreover have "0 < j \<Longrightarrow> arr s ?p \<le> arr s j"
      using True ls_key [OF less.prems(1) j(1), of ?p] j heap_par_less [of j] by (auto simp: arr_def)
    ultimately show ?thesis
      using heap_but_ok [OF less.prems(4,5)] same_refl [OF less.prems(1)] by simp
  next
    case False
    then have j0: "0 < j" by (cases j) (simp_all add: heap_par_def)
    have p: "?p < j" by (rule heap_par_less [OF j0])
    have up: "heap_up ls swap j s = heap_up ls swap ?p (swap ?p j s)"
      using False by (subst heap_up.simps) (simp add: heap_par_def Let_def)
    have pl: "?p < len s" using p j by simp
    have lt: "arr s j < arr s ?p" using False ls_key [OF less.prems(1) j(1) pl] by (simp add: arr_def)
    note st = heap_up_step [OF less.prems(4,5) j0 less.prems(2) lt]
    have eq: "\<And>i. i < n \<Longrightarrow> arr (swap ?p j s) i = heap_swapped (arr s) ?p j i"
      using swap_arr [OF less.prems(1) pl j(1)] less.prems(3) by simp
    have sm: "same n s (swap ?p j s)" using less.prems p by (intro swap_same) auto
    have "same n (swap ?p j s) (heap_up ls swap ?p (swap ?p j s)) \<and> heap_ok (arr (heap_up ls swap ?p (swap ?p j s))) n"
    proof (rule less.IH [OF p])
      show "inv (swap ?p j s)" using sm by (simp add: same_def)
      show "?p < n" using p less.prems(2) by simp
      show "n \<le> len (swap ?p j s)" using same_len [OF sm] less.prems(3) by simp
      show "heap_but (arr (swap ?p j s)) n ?p" "heap_below (arr (swap ?p j s)) n ?p"
        using st arr_cong_but [OF eq] arr_cong_below [OF eq] by simp_all
    qed
    then show ?thesis using same_trans [OF sm] by (simp add: up)
  qed
qed

lemma down_ok:
  assumes "inv s" and "i < n" and "n \<le> len s" and "heap_but (arr s) n i" and "heap_down ls swap i n s = (s', i')"
  shows "same n s s' \<and> i \<le> i' \<and> (i' = i \<longrightarrow> s' = s \<and> heap_below (arr s) n i) \<and> (i < i' \<longrightarrow> heap_ok (arr s') n)"
  using assms
proof (induction "n - i" arbitrary: i s rule: less_induct)
  case less
  let ?l = "2 * i + 1"
  show ?case
  proof (cases "n \<le> ?l")
    case True
    then have "s' = s" "i' = i" using less.prems(5) by (simp_all add: heap_down.simps [of ls swap i n s] Let_def)
    moreover have "heap_below (arr s) n i"
      unfolding heap_below_def
    proof (intro allI impI)
      fix k assume "k < n" "0 < k \<and> heap_par k = i"
      with True heap_par_child [of k i] show "arr s i \<le> arr s k" by linarith
    qed
    ultimately show ?thesis using same_refl [OF less.prems(1)] by simp
  next
    case False
    define j where "j = (if ?l + 1 < n \<and> ls (?l + 1) ?l s then ?l + 1 else ?l)"
    have unf: "heap_down ls swap i n s = (if \<not> ls j i s then (s, i) else heap_down ls swap j n (swap i j s))"
      unfolding j_def using False by (subst heap_down.simps) (simp add: Let_def)
    have j: "0 < j" "heap_par j = i" "j < n" "i < j" using False by (auto simp: j_def heap_par_def)
    have lens: "i < len s" "j < len s" using less.prems(2,3) j(3) by auto
    have least: "\<forall>k<n. 0 < k \<and> heap_par k = i \<longrightarrow> arr s j \<le> arr s k"
    proof (intro allI impI)
      fix k assume k: "k < n" "0 < k \<and> heap_par k = i"
      then consider (left) "k = ?l" | (right) "k = ?l + 1" using heap_par_child [of k i] by auto
      then show "arr s j \<le> arr s k"
      proof cases
        case left
        show ?thesis
        proof (cases "?l + 1 < n \<and> ls (?l + 1) ?l s")
          case True
          with ls_key [OF less.prems(1), of "?l + 1" ?l] less.prems(3) left show ?thesis
            by (auto simp: j_def arr_def)
        qed (auto simp: j_def left)
      next
        case right
        with k ls_key [OF less.prems(1), of "?l + 1" ?l] less.prems(3) show ?thesis
          by (auto simp: j_def arr_def not_less)
      qed
    qed
    show ?thesis
    proof (cases "ls j i s")
      case False
      then have "s' = s" "i' = i"
        using less.prems(5) unf by simp_all
      moreover have "arr s i \<le> arr s j"
        using False ls_key [OF less.prems(1) lens(2,1)] by (simp add: arr_def not_less)
      then have "heap_below (arr s) n i" using least by (auto simp: heap_below_def)
      ultimately show ?thesis using same_refl [OF less.prems(1)] by simp
    next
      case True
      have dn: "heap_down ls swap j n (swap i j s) = (s', i')"
        using True less.prems(5) unf by simp
      have lt: "arr s j < arr s i" using True ls_key [OF less.prems(1) lens(2,1)] by (simp add: arr_def)
      note st = heap_down_step [OF less.prems(4) j(1-3) lt least]
      have eq: "\<And>k. k < n \<Longrightarrow> arr (swap i j s) k = heap_swapped (arr s) i j k"
        using swap_arr [OF less.prems(1) lens] less.prems(3) by simp
      have sm: "same n s (swap i j s)" using less.prems j by (intro swap_same) auto
      have but: "heap_but (arr (swap i j s)) n j" using st arr_cong_but [OF eq] by simp
      have top: "arr (swap i j s) (heap_par j) \<le> arr (swap i j s) j" using st eq [OF less.prems(2)] eq [OF j(3)] j(2) by simp
      have ih: "same n (swap i j s) s' \<and> j \<le> i' \<and> (i' = j \<longrightarrow> s' = swap i j s \<and> heap_below (arr (swap i j s)) n j)
          \<and> (j < i' \<longrightarrow> heap_ok (arr s') n)"
      proof (rule less.hyps [OF _ _ j(3) _ but dn])
        show "n - j < n - i" using j by auto
        show "inv (swap i j s)" using sm by (simp add: same_def)
        show "n \<le> len (swap i j s)" using same_len [OF sm] less.prems(3) by simp
      qed
      have "heap_ok (arr s') n"
      proof (cases "i' = j")
        case True
        with ih have "s' = swap i j s" "heap_below (arr (swap i j s)) n j" by simp_all
        with heap_but_ok [OF but] top show ?thesis by simp
      qed (use ih in auto)
      with ih same_trans [OF sm] j(4) show ?thesis by auto
    qed
  qed
qed

lemma sift_ok:
  assumes "inv s" and "i < n" and "n \<le> len s" and "heap_but (arr s) n i"
  shows "same n s (heap_sift ls swap i n s) \<and> heap_ok (arr (heap_sift ls swap i n s)) n"
proof -
  obtain s1 i1 where d: "heap_down ls swap i n s = (s1, i1)" by fastforce
  note r = down_ok [OF assms d]
  show ?thesis
  proof (cases "i < i1")
    case False
    with r have "s1 = s" "heap_below (arr s) n i" by auto
    with up_ok [OF assms(1-4)] d False show ?thesis by (simp add: heap_sift_def)
  qed (use r d in \<open>simp add: heap_sift_def\<close>)
qed

text \<open>\<open>Fix\<close> after the key of one element changed: heap order but for that index.\<close>

lemma heap_ok_but: "heap_ok a n \<Longrightarrow> (\<And>i. i \<noteq> j \<Longrightarrow> i < n \<Longrightarrow> b i = a i) \<Longrightarrow> j < n \<Longrightarrow> heap_but b n j"
proof -
  assume ok: "heap_ok a n" and eq: "\<And>i. i \<noteq> j \<Longrightarrow> i < n \<Longrightarrow> b i = a i" and j: "j < n"
  have e: "a (heap_par i) \<le> a i" if "i < n" "0 < i" for i using ok that by (simp add: heap_ok_def)
  show ?thesis
    unfolding heap_but_def
  proof (intro conjI allI impI)
    fix i assume i: "i < n" "0 < i \<and> i \<noteq> j \<and> heap_par i \<noteq> j"
    have "heap_par i < n" using i heap_par_less [of i] by auto
    with i e [of i] eq [of i] eq [of "heap_par i"] show "b (heap_par i) \<le> b i" by simp
  next
    fix i assume i: "i < n" "0 < i \<and> heap_par i = j \<and> 0 < j"
    have l: "j < i" "heap_par j < j" using i heap_par_less [of i] heap_par_less [of j] by auto
    have "a (heap_par j) \<le> a i" using e [of i] e [of j] i j by (auto intro: order_trans)
    with l i j eq [of i] eq [of "heap_par j"] show "b (heap_par j) \<le> b i" by simp
  qed
qed

lemma Fix_ok:
  assumes "inv s" and "i < len s" and "heap_but (arr s) (len s) i"
  shows "same (len s) s (heap_Fix len ls swap i s) \<and> heap_ok (arr (heap_Fix len ls swap i s)) (len s)"
  unfolding heap_Fix_def by (rule sift_ok [OF assms(1,2) _ assms(3)]) simp

text \<open>\<open>Push\<close>, when the new element is the last one and the others are in order.\<close>

lemma Push_ok:
  assumes "inv (push x s)" and "len (push x s) = Suc n" and "heap_ok (arr (push x s)) n"
  shows "same (Suc n) (push x s) (heap_Push len ls swap push x s) \<and> heap_ok (arr (heap_Push len ls swap push x s)) (Suc n)"
proof -
  let ?s = "push x s"
  have par: "heap_par i \<noteq> n" if "i < Suc n" "0 < i" for i using heap_par_less [OF that(2)] that(1) by simp
  have but: "heap_but (arr ?s) (Suc n) n"
    unfolding heap_but_def
  proof (intro conjI allI impI)
    fix i assume "i < Suc n" "0 < i \<and> i \<noteq> n \<and> heap_par i \<noteq> n"
    then show "arr ?s (heap_par i) \<le> arr ?s i" using assms(3) by (simp add: heap_ok_def)
  next
    fix i assume "i < Suc n" "0 < i \<and> heap_par i = n \<and> 0 < n"
    then show "arr ?s (heap_par n) \<le> arr ?s i" using par [of i] by simp
  qed
  have below: "heap_below (arr ?s) (Suc n) n"
    unfolding heap_below_def using par by blast
  show ?thesis
    unfolding heap_Push_def Let_def using up_ok [OF assms(1) _ _ but below] assms(2) by simp
qed

text \<open>\<open>Remove\<close> up to the final \<open>Pop\<close>: the element is last, and those before it are in order.\<close>

lemma Remove_ok:
  assumes "inv s" and "i < len s" and "heap_ok (arr s) (len s)"
  obtains s' where "heap_Remove len ls swap pop i s = pop s'" and "same (len s) s s'"
    and "elems s' ! (len s - 1) = elems s ! i" and "heap_ok (arr s') (len s - 1)"
proof (cases "len s - 1 = i")
  case True
  with assms show ?thesis
    by (intro that [of s]) (auto simp: heap_Remove_def same_refl heap_ok_def)
next
  case False
  let ?n = "len s - 1" let ?s = "swap i ?n s"
  have n: "i < ?n" "?n < len s" using False assms(2) by auto
  have eq: "arr ?s k = heap_swapped (arr s) i ?n k" if "k < len s" for k
    by (rule swap_arr [OF assms(1,2) n(2) that])
  have sm: "same (len s) s ?s" using n assms by (intro swap_same) auto
  have but: "heap_but (arr ?s) ?n i"
  proof (rule heap_ok_but [of "arr s" ?n])
    show "heap_ok (arr s) ?n" using assms(3) by (simp add: heap_ok_def)
    show "arr ?s k = arr s k" if "k \<noteq> i" "k < ?n" for k
      using eq [of k] that by (simp add: heap_swapped_def)
  qed (rule n(1))
  have st: "same ?n ?s (heap_sift ls swap i ?n ?s) \<and> heap_ok (arr (heap_sift ls swap i ?n ?s)) ?n"
  proof (rule sift_ok [OF _ n(1) _ but])
    show "inv ?s" using sm by (simp add: same_def)
    show "?n \<le> len ?s" using same_len [OF sm] by simp
  qed
  show ?thesis
  proof (rule that [of "heap_sift ls swap i ?n ?s"])
    show "heap_Remove len ls swap pop i s = pop (heap_sift ls swap i ?n ?s)"
      using False by (simp add: heap_Remove_def Let_def)
    have len: "len ?s = len s" by (rule same_len [OF sm])
    have "same (len s) ?s (heap_sift ls swap i ?n ?s)" using st len by (auto simp: same_def)
    then show "same (len s) s (heap_sift ls swap i ?n ?s)" by (rule same_trans [OF sm])
    have "elems (heap_sift ls swap i ?n ?s) ! ?n = elems ?s ! ?n" using st n(2) len by (auto simp: same_def)
    also have "\<dots> = elems s ! i" using n assms(1,2) by (simp add: swap_elems len_elems)
    finally show "elems (heap_sift ls swap i ?n ?s) ! ?n = elems s ! i" .
  qed (use st in simp)
qed

text \<open>The root has the least key.\<close>

lemma root_least:
  assumes "heap_ok (arr s) (len s)" and "p \<in> set (elems s)"
  shows "key s (elems s ! 0) \<le> key s p"
  using assms heap_root_min [of "arr s" "len s"] by (auto simp: in_set_conv_nth arr_def len_elems)

end

end
