(* ===== verification/Fallx.thy ===== *)
theory Fallx
  imports Panix Go_Heap
begin

text \<open>
  Package \<open>fallx\<close>: a primary operation with a fallback, and the sharded result cache of \<open>StrategyCached\<close>. A cache entry is a
  record in the store of its shard, which the shard's map and its LRU heap point to; the heap is \<open>container/heap\<close> of \<open>Go_Heap\<close> on the
  methods of \<open>lruHeap\<close>. A clock reading is an argument.
\<close>

subsection \<open>Errors, strategies, configuration\<close>

definition fallx_ErrNoFunc :: goerr where "fallx_ErrNoFunc = Sentinel ''fallx: no fallback function configured''"
definition fallx_ErrNoCached :: goerr where "fallx_ErrNoCached = Sentinel ''fallx: no cached result available''"
definition fallx_ErrClosed :: goerr where "fallx_ErrClosed = Sentinel ''fallx: fallback is closed''"
definition fallx_ErrNilFunc :: goerr where "fallx_ErrNilFunc = Sentinel ''fallx: nil primary function''"
definition fallx_ErrFallbackFailed :: goerr where "fallx_ErrFallbackFailed = Sentinel ''fallx: fallback function failed''"

definition fallx_errNoCached :: "string \<Rightarrow> goerr" where
  "fallx_errNoCached key = Errorf (''%w (key='' @ key @ '')'') [fallx_ErrNoCached]"

definition fallx_errFallbackFailed :: "goerr \<Rightarrow> goerr" where
  "fallx_errFallbackFailed cause = Errorf ''%w: %w'' [fallx_ErrFallbackFailed, cause]"

type_synonym fallx_Strategy = "8 word"

definition fallx_StrategyStatic :: fallx_Strategy where "fallx_StrategyStatic = 0"
definition fallx_StrategyFunc :: fallx_Strategy where "fallx_StrategyFunc = 1"
definition fallx_StrategyCached :: fallx_Strategy where "fallx_StrategyCached = 2"

lemmas fallx_strategies = fallx_StrategyStatic_def fallx_StrategyFunc_def fallx_StrategyCached_def

definition fallx_Strategy_String :: "fallx_Strategy \<Rightarrow> string" where
  "fallx_Strategy_String s =
     (if s = fallx_StrategyStatic then ''static'' else if s = fallx_StrategyFunc then ''function''
      else if s = fallx_StrategyCached then ''cached'' else ''unknown'')"

definition fallx_DefaultCacheTTL :: int where "fallx_DefaultCacheTTL = 5 * 60 * 10 ^ 9"
definition fallx_DefaultMaxCacheSize :: int where "fallx_DefaultMaxCacheSize = 1000"
definition fallx_DefaultShards :: int where "fallx_DefaultShards = 16"
definition fallx_DefaultKey :: string where "fallx_DefaultKey = ''default''"
definition fallx_opExecute :: string where "fallx_opExecute = ''fallx.Execute''"
definition fallx_opFallback :: string where "fallx_opFallback = ''fallx.Fallback''"
definition fallx_minShards :: int where "fallx_minShards = 1"
definition fallx_shardCapDivisor :: int where "fallx_shardCapDivisor = 4"

text \<open>The controller of a call.\<close>

record fallx_execution =
  fx_strategy :: fallx_Strategy
  fx_key :: string
  fx_err :: goerror
  fx_onFallback :: bool

definition fallx_execution_Strategy :: "fallx_execution \<Rightarrow> fallx_Strategy" where "fallx_execution_Strategy e = fx_strategy e"
definition fallx_Key :: "fallx_execution \<Rightarrow> string" where "fallx_Key e = fx_key e"
definition fallx_OnFallback :: "fallx_execution \<Rightarrow> bool" where "fallx_OnFallback e = fx_onFallback e"
definition fallx_Error :: "fallx_execution \<Rightarrow> goerror" where "fallx_Error e = fx_err e"

text \<open>
  A context is the number of its contents, which only the key function reads. The hook may panic. The zero value of \<open>T\<close> is a field
  the code has in its type.
\<close>

type_synonym 'v fallx_FallbackFunc = "fallx_execution \<Rightarrow> 'v outcome"

record 'v fallx_config =
  fc_strategy :: fallx_Strategy
  fc_staticValue :: 'v
  fc_fallbackFn :: "'v fallx_FallbackFunc option"
  fc_keyFn :: "(nat \<Rightarrow> string) option"
  fc_cacheTTL :: int
  fc_maxCacheSize :: int
  fc_shardCount :: int
  fc_cleanupInterval :: int
  fc_onFallback :: "(goerr \<Rightarrow> fallx_Strategy \<Rightarrow> unit outcome) option"
  fc_fallbackIf :: "(goerr \<Rightarrow> bool) option"
  fc_clone :: "('v \<Rightarrow> 'v) option"
  fc_op :: string

definition fallx_newConfig :: "'v \<Rightarrow> ('v fallx_config \<Rightarrow> 'v fallx_config) option list \<Rightarrow> 'v fallx_config" where
  "fallx_newConfig zero opts =
     (let c0 = apply_opts opts
        \<lparr>fc_strategy = fallx_StrategyStatic, fc_staticValue = zero, fc_fallbackFn = None, fc_keyFn = None,
         fc_cacheTTL = fallx_DefaultCacheTTL, fc_maxCacheSize = fallx_DefaultMaxCacheSize, fc_shardCount = fallx_DefaultShards,
         fc_cleanupInterval = 0, fc_onFallback = None, fc_fallbackIf = None, fc_clone = None, fc_op = []\<rparr>;
        c1 = (if fc_shardCount c0 < fallx_minShards then c0\<lparr>fc_shardCount := fallx_minShards\<rparr> else c0)
      in if 0 < fc_maxCacheSize c1 \<and> fc_maxCacheSize c1 < fc_shardCount c1
         then c1\<lparr>fc_shardCount := max fallx_minShards (fc_maxCacheSize c1 div fallx_shardCapDivisor)\<rparr> else c1)"

definition fallx_opOrDefault :: "'v fallx_config \<Rightarrow> string" where
  "fallx_opOrDefault c = (if fc_op c \<noteq> [] then fc_op c else fallx_opExecute)"

definition fallx_WithStatic :: "'v \<Rightarrow> 'v fallx_config \<Rightarrow> 'v fallx_config" where
  "fallx_WithStatic value c = c\<lparr>fc_strategy := fallx_StrategyStatic, fc_staticValue := value\<rparr>"

definition fallx_WithFunc :: "'v fallx_FallbackFunc option \<Rightarrow> 'v fallx_config \<Rightarrow> 'v fallx_config" where
  "fallx_WithFunc fn c = (if fn \<noteq> None then c\<lparr>fc_strategy := fallx_StrategyFunc, fc_fallbackFn := fn\<rparr> else c)"

definition fallx_WithCached :: "int \<Rightarrow> int \<Rightarrow> 'v fallx_config \<Rightarrow> 'v fallx_config" where
  "fallx_WithCached ttl maxSize c =
     (let c1 = c\<lparr>fc_strategy := fallx_StrategyCached\<rparr>; c2 = (if 0 < ttl then c1\<lparr>fc_cacheTTL := ttl\<rparr> else c1)
      in if 0 < maxSize then c2\<lparr>fc_maxCacheSize := maxSize\<rparr> else c2)"

definition fallx_WithKeyFunc :: "(nat \<Rightarrow> string) option \<Rightarrow> 'v fallx_config \<Rightarrow> 'v fallx_config" where
  "fallx_WithKeyFunc fn c = (if fn \<noteq> None then c\<lparr>fc_keyFn := fn\<rparr> else c)"

definition fallx_WithShards :: "int \<Rightarrow> 'v fallx_config \<Rightarrow> 'v fallx_config" where
  "fallx_WithShards n c = (if fallx_minShards \<le> n then c\<lparr>fc_shardCount := n\<rparr> else c)"

definition fallx_WithOnFallback :: "(goerr \<Rightarrow> fallx_Strategy \<Rightarrow> unit outcome) option \<Rightarrow> 'v fallx_config \<Rightarrow> 'v fallx_config" where
  "fallx_WithOnFallback fn c = (if fn \<noteq> None then c\<lparr>fc_onFallback := fn\<rparr> else c)"

definition fallx_WithFallbackIf :: "(goerr \<Rightarrow> bool) option \<Rightarrow> 'v fallx_config \<Rightarrow> 'v fallx_config" where
  "fallx_WithFallbackIf fn c = (if fn \<noteq> None then c\<lparr>fc_fallbackIf := fn\<rparr> else c)"

definition fallx_WithClone :: "('v \<Rightarrow> 'v) option \<Rightarrow> 'v fallx_config \<Rightarrow> 'v fallx_config" where
  "fallx_WithClone fn c = (if fn \<noteq> None then c\<lparr>fc_clone := fn\<rparr> else c)"

definition fallx_WithCleanupInterval :: "int \<Rightarrow> 'v fallx_config \<Rightarrow> 'v fallx_config" where
  "fallx_WithCleanupInterval d c = (if 0 < d then c\<lparr>fc_cleanupInterval := d\<rparr> else c)"

definition fallx_WithOp :: "string \<Rightarrow> 'v fallx_config \<Rightarrow> 'v fallx_config" where
  "fallx_WithOp op c = (if op \<noteq> [] then c\<lparr>fc_op := op\<rparr> else c)"

subsection \<open>A shard\<close>

record 'v fallx_cacheEntry =
  fe_key :: string
  fe_value :: 'v
  fe_expiresAt :: int
  fe_lastAccess :: int
  fe_heapIndex :: int

text \<open>\<open>fs_store\<close> and \<open>fs_fresh\<close> are the memory of the shard's entries and its next address.\<close>

record 'v fallx_cacheShard =
  fs_entries :: "(string \<times> nat) list"
  fs_lru :: "nat list"
  fs_store :: "nat \<Rightarrow> 'v fallx_cacheEntry option"
  fs_fresh :: nat

definition fallx_newCacheShard :: "'v fallx_cacheShard" where
  "fallx_newCacheShard = \<lparr>fs_entries = [], fs_lru = [], fs_store = (\<lambda>_. None), fs_fresh = 0\<rparr>"

definition fallx_clear :: "'v fallx_cacheShard \<Rightarrow> 'v fallx_cacheShard" where
  "fallx_clear s = s\<lparr>fs_entries := [], fs_lru := []\<rparr>"

definition fallx_at :: "'v fallx_cacheShard \<Rightarrow> nat \<Rightarrow> 'v fallx_cacheEntry" where
  "fallx_at s p = the (fs_store s p)"

definition fallx_upd :: "nat \<Rightarrow> ('v fallx_cacheEntry \<Rightarrow> 'v fallx_cacheEntry) \<Rightarrow> 'v fallx_cacheShard \<Rightarrow> 'v fallx_cacheShard" where
  "fallx_upd p f s = s\<lparr>fs_store := (fs_store s)(p \<mapsto> f (fallx_at s p))\<rparr>"

subsection \<open>The LRU heap\<close>

definition fallx_Len :: "'v fallx_cacheShard \<Rightarrow> nat" where
  "fallx_Len s = length (fs_lru s)"

definition fallx_Less :: "nat \<Rightarrow> nat \<Rightarrow> 'v fallx_cacheShard \<Rightarrow> bool" where
  "fallx_Less i j s \<longleftrightarrow> fe_lastAccess (fallx_at s (fs_lru s ! i)) < fe_lastAccess (fallx_at s (fs_lru s ! j))"

definition fallx_Swap :: "nat \<Rightarrow> nat \<Rightarrow> 'v fallx_cacheShard \<Rightarrow> 'v fallx_cacheShard" where
  "fallx_Swap i j s =
     (let s1 = s\<lparr>fs_lru := (fs_lru s)[i := fs_lru s ! j, j := fs_lru s ! i]\<rparr>;
          s2 = fallx_upd (fs_lru s1 ! i) (\<lambda>e. e\<lparr>fe_heapIndex := int i\<rparr>) s1
      in fallx_upd (fs_lru s2 ! j) (\<lambda>e. e\<lparr>fe_heapIndex := int j\<rparr>) s2)"

definition fallx_Push :: "nat \<Rightarrow> 'v fallx_cacheShard \<Rightarrow> 'v fallx_cacheShard" where
  "fallx_Push p s =
     (let s1 = fallx_upd p (\<lambda>e. e\<lparr>fe_heapIndex := int (length (fs_lru s))\<rparr>) s in s1\<lparr>fs_lru := fs_lru s1 @ [p]\<rparr>)"

definition fallx_Pop :: "'v fallx_cacheShard \<Rightarrow> 'v fallx_cacheShard" where
  "fallx_Pop s =
     (let s1 = fallx_upd (last (fs_lru s)) (\<lambda>e. e\<lparr>fe_heapIndex := - 1\<rparr>) s in s1\<lparr>fs_lru := butlast (fs_lru s1)\<rparr>)"

definition fallx_peek :: "'v fallx_cacheShard \<Rightarrow> nat option" where
  "fallx_peek s = (if length (fs_lru s) = 0 then None else Some (fs_lru s ! 0))"

definition fallx_touch :: "nat \<Rightarrow> int \<Rightarrow> 'v fallx_cacheShard \<Rightarrow> 'v fallx_cacheShard" where
  "fallx_touch p t s =
     (let s1 = fallx_upd p (\<lambda>e. e\<lparr>fe_lastAccess := t\<rparr>) s
      in heap_Fix fallx_Len fallx_Less fallx_Swap (nat (fe_heapIndex (fallx_at s1 p))) s1)"

definition fallx_remove :: "nat \<Rightarrow> 'v fallx_cacheShard \<Rightarrow> 'v fallx_cacheShard" where
  "fallx_remove p s =
     (let s1 = s\<lparr>fs_entries := AList.delete (fe_key (fallx_at s p)) (fs_entries s)\<rparr>; i = fe_heapIndex (fallx_at s1 p)
      in if 0 \<le> i \<and> i < int (length (fs_lru s1))
         then heap_Remove fallx_Len fallx_Less fallx_Swap fallx_Pop (nat i) s1 else s1)"

text \<open>The locked section of \<open>cacheResult\<close>, and whether it added an entry.\<close>

definition fallx_store :: "string \<Rightarrow> 'v \<Rightarrow> int \<Rightarrow> int \<Rightarrow> 'v fallx_cacheShard \<Rightarrow> 'v fallx_cacheShard \<times> bool" where
  "fallx_store key v now ttl s =
     (case map_of (fs_entries s) key of
        Some p \<Rightarrow>
          (let s1 = fallx_upd p (\<lambda>e. e\<lparr>fe_value := v\<rparr>) s;
               s2 = fallx_upd p (\<lambda>e. e\<lparr>fe_expiresAt := now + ttl\<rparr>) s1
           in (fallx_touch p now s2, False))
      | None \<Rightarrow>
          (let p = fs_fresh s;
               s1 = s\<lparr>fs_store := (fs_store s)(p \<mapsto> \<lparr>fe_key = key, fe_value = v, fe_expiresAt = now + ttl,
                                                   fe_lastAccess = now, fe_heapIndex = - 1\<rparr>), fs_fresh := Suc p\<rparr>;
               s2 = s1\<lparr>fs_entries := AList.update key p (fs_entries s1)\<rparr>
           in (heap_Push fallx_Len fallx_Less fallx_Swap fallx_Push p s2, True)))"

text \<open>The expired entries of a shard, in the order the range visits the map, and their removal.\<close>

definition fallx_expired :: "int \<Rightarrow> 'v fallx_cacheShard \<Rightarrow> nat list" where
  "fallx_expired now s = filter (\<lambda>p. fe_expiresAt (fallx_at s p) < now) (map snd (fs_entries s))"

subsection \<open>The cache\<close>

text \<open>The list \<open>ff_hooks\<close> is a ghost: the calls of the \<open>OnFallback\<close> hook. \<open>ff_sweeper\<close> is whether the cleanup goroutine was started.\<close>

record 'v fallx_Fallback =
  ff_cfg :: "'v fallx_config"
  ff_shards :: "'v fallx_cacheShard list"
  ff_calls :: int
  ff_primarySuccess :: int
  ff_fallbackUsed :: int
  ff_fallbackSuccess :: int
  ff_fallbackFailed :: int
  ff_cacheHits :: int
  ff_cacheMisses :: int
  ff_cacheEvictions :: int
  ff_cacheSize :: int
  ff_sweeper :: bool
  ff_closed :: bool
  ff_hooks :: "(goerr \<times> fallx_Strategy) list"

definition fallx_initCache :: "'v fallx_Fallback \<Rightarrow> 'v fallx_Fallback" where
  "fallx_initCache f =
     (if ff_shards f \<noteq> [] then f
      else f\<lparr>ff_shards := replicate (nat (fc_shardCount (ff_cfg f))) fallx_newCacheShard\<rparr>)"

definition fallx_New :: "'v \<Rightarrow> ('v fallx_config \<Rightarrow> 'v fallx_config) option list \<Rightarrow> 'v fallx_Fallback" where
  "fallx_New zero opts =
     (let cfg = fallx_newConfig zero opts;
          f = \<lparr>ff_cfg = cfg, ff_shards = [], ff_calls = 0, ff_primarySuccess = 0, ff_fallbackUsed = 0, ff_fallbackSuccess = 0,
               ff_fallbackFailed = 0, ff_cacheHits = 0, ff_cacheMisses = 0, ff_cacheEvictions = 0, ff_cacheSize = 0,
               ff_sweeper = False, ff_closed = False, ff_hooks = []\<rparr>;
          f1 = (if fc_strategy cfg = fallx_StrategyCached then fallx_initCache f else f)
      in if fc_strategy cfg = fallx_StrategyCached \<and> 0 < fc_cleanupInterval cfg then f1\<lparr>ff_sweeper := True\<rparr> else f1)"

definition fallx_Strategy_of :: "'v fallx_Fallback \<Rightarrow> fallx_Strategy" where
  "fallx_Strategy_of f = fc_strategy (ff_cfg f)"

definition fallx_fnvOffset32 :: "32 word" where "fallx_fnvOffset32 = 2166136261"
definition fallx_fnvPrime32 :: "32 word" where "fallx_fnvPrime32 = 16777619"

definition fallx_getShard :: "string \<Rightarrow> 'v fallx_Fallback \<Rightarrow> nat" where
  "fallx_getShard key f =
     (let h = foldl (\<lambda>h c. xor h (of_char c) * fallx_fnvPrime32) fallx_fnvOffset32 key
      in unat (h mod word_of_nat (length (ff_shards f))))"

definition fallx_add_size :: "int \<Rightarrow> 'v fallx_Fallback \<Rightarrow> 'v fallx_Fallback" where
  "fallx_add_size d f = f\<lparr>ff_cacheSize := wrap_i64 (ff_cacheSize f + d)\<rparr>"

definition fallx_add_evictions :: "'v fallx_Fallback \<Rightarrow> 'v fallx_Fallback" where
  "fallx_add_evictions f = f\<lparr>ff_cacheEvictions := wrap_i64 (ff_cacheEvictions f + 1)\<rparr>"

definition fallx_set_shard :: "nat \<Rightarrow> 'v fallx_cacheShard \<Rightarrow> 'v fallx_Fallback \<Rightarrow> 'v fallx_Fallback" where
  "fallx_set_shard i s f = f\<lparr>ff_shards := (ff_shards f)[i := s]\<rparr>"

text \<open>The removal of one entry of a shard, with its counters.\<close>

definition fallx_drop :: "nat \<Rightarrow> nat \<Rightarrow> 'v fallx_Fallback \<Rightarrow> 'v fallx_Fallback" where
  "fallx_drop i p f = fallx_add_evictions (fallx_add_size (- 1) (fallx_set_shard i (fallx_remove p (ff_shards f ! i)) f))"

definition fallx_evictExpired :: "int \<Rightarrow> nat \<Rightarrow> 'v fallx_Fallback \<Rightarrow> 'v fallx_Fallback" where
  "fallx_evictExpired now i f = fold (fallx_drop i) (fallx_expired now (ff_shards f ! i)) f"

definition fallx_syncCacheSize :: "'v fallx_Fallback \<Rightarrow> 'v fallx_Fallback" where
  "fallx_syncCacheSize f = f\<lparr>ff_cacheSize := sum_list (map (\<lambda>s. int (length (fs_entries s))) (ff_shards f))\<rparr>"

text \<open>The coldest entry of the shards from the \<open>i\<close>-th on, against the one found so far.\<close>

fun fallx_coldest_loop :: "'v fallx_cacheShard list \<Rightarrow> nat \<Rightarrow> (nat \<times> nat \<times> int) option \<Rightarrow> (nat \<times> nat \<times> int) option" where
  "fallx_coldest_loop [] i best = best"
| "fallx_coldest_loop (s # ss) i best =
     fallx_coldest_loop ss (Suc i)
       (case fallx_peek s of
          None \<Rightarrow> best
        | Some p \<Rightarrow>
            (case best of
               None \<Rightarrow> Some (i, p, fe_lastAccess (fallx_at s p))
             | Some (j, q, t) \<Rightarrow>
                 if fe_lastAccess (fallx_at s p) < t then Some (i, p, fe_lastAccess (fallx_at s p)) else Some (j, q, t)))"

definition fallx_coldestEntry :: "'v fallx_Fallback \<Rightarrow> (nat \<times> nat) option" where
  "fallx_coldestEntry f = map_option (\<lambda>(i, p, t). (i, p)) (fallx_coldest_loop (ff_shards f) 0 None)"

lemma wrap_i64_le: "- (2 ^ 63) \<le> x \<Longrightarrow> wrap_i64 x \<le> x"
proof -
  assume "- (2 ^ 63) \<le> x"
  then have "(x + 2 ^ 63) mod 2 ^ 64 \<le> x + 2 ^ 63" by (intro zmod_le_nonneg_dividend) simp
  then show ?thesis by (simp add: wrap_i64_def)
qed

text \<open>The loop of \<open>evictIfNeeded\<close>. It ends because each turn that does not break lowers the size, which is above a positive bound.\<close>

function fallx_evict_loop :: "'v fallx_Fallback \<Rightarrow> 'v fallx_Fallback" where
  "fallx_evict_loop f =
     (if 0 < fc_maxCacheSize (ff_cfg f) \<and> fc_maxCacheSize (ff_cfg f) < ff_cacheSize f
      then (case fallx_coldestEntry f of
              None \<Rightarrow> fallx_syncCacheSize f
            | Some (i, p) \<Rightarrow>
                if map_of (fs_entries (ff_shards f ! i)) (fe_key (fallx_at (ff_shards f ! i) p)) = Some p
                then fallx_evict_loop (fallx_drop i p f)
                else fallx_syncCacheSize f)
      else f)"
  by pat_completeness auto
termination
proof (relation "measure (\<lambda>f. nat (ff_cacheSize f))", simp)
  fix f :: "'a fallx_Fallback" and x i p
  assume "0 < fc_maxCacheSize (ff_cfg f) \<and> fc_maxCacheSize (ff_cfg f) < ff_cacheSize f"
  then show "(fallx_drop i p f, f) \<in> measure (\<lambda>f. nat (ff_cacheSize f))"
    using wrap_i64_le [of "ff_cacheSize f - 1"]
    by (simp add: fallx_drop_def fallx_add_evictions_def fallx_add_size_def fallx_set_shard_def)
qed

declare fallx_evict_loop.simps [simp del]

definition fallx_evictIfNeeded :: "int \<Rightarrow> 'v fallx_Fallback \<Rightarrow> 'v fallx_Fallback" where
  "fallx_evictIfNeeded now f =
     (if fc_maxCacheSize (ff_cfg f) \<le> 0 \<or> ff_cacheSize f \<le> fc_maxCacheSize (ff_cfg f) then f
      else fallx_evict_loop (fold (fallx_evictExpired now) [0..<length (ff_shards f)] f))"

definition fallx_cacheResult :: "string \<Rightarrow> 'v \<Rightarrow> int \<Rightarrow> int \<Rightarrow> int \<Rightarrow> 'v fallx_Fallback \<Rightarrow> 'v fallx_Fallback" where
  "fallx_cacheResult key v0 ttl now tevict f =
     (let v = (case fc_clone (ff_cfg f) of None \<Rightarrow> v0 | Some cl \<Rightarrow> cl v0); i = fallx_getShard key f
      in case fallx_store key v now ttl (ff_shards f ! i) of
           (s, False) \<Rightarrow> fallx_set_shard i s f
         | (s, True) \<Rightarrow>
             (let f1 = fallx_add_size 1 (fallx_set_shard i s f)
              in if 0 < fc_maxCacheSize (ff_cfg f1) \<and> fc_maxCacheSize (ff_cfg f1) < ff_cacheSize f1
                 then fallx_evictIfNeeded tevict f1 else f1))"

definition fallx_getCachedResult :: "string \<Rightarrow> int \<Rightarrow> 'v fallx_Fallback \<Rightarrow> 'v fallx_Fallback \<times> 'v option" where
  "fallx_getCachedResult key now f =
     (let i = fallx_getShard key f; s = ff_shards f ! i
      in case map_of (fs_entries s) key of
           None \<Rightarrow> (f, None)
         | Some p \<Rightarrow>
             if fe_expiresAt (fallx_at s p) < now then (fallx_drop i p f, None)
             else (let s1 = fallx_touch p now s; v = fe_value (fallx_at s1 p)
                   in (fallx_set_shard i s1 f, Some (case fc_clone (ff_cfg f) of None \<Rightarrow> v | Some cl \<Rightarrow> cl v))))"

text \<open>One tick of the cleanup goroutine.\<close>

definition fallx_cleanup_tick :: "int \<Rightarrow> 'v fallx_Fallback \<Rightarrow> 'v fallx_Fallback" where
  "fallx_cleanup_tick now f = fold (fallx_evictExpired now) [0..<length (ff_shards f)] f"

subsection \<open>Execution\<close>

text \<open>A primary function runs on the fallback: it and other goroutines may use it meanwhile.\<close>

type_synonym 'v fallx_PrimaryFunc = "fallx_execution \<Rightarrow> 'v fallx_Fallback \<Rightarrow> 'v fallx_Fallback \<times> 'v outcome"

definition fallx_fireOnFallback :: "goerr \<Rightarrow> 'v fallx_Fallback \<Rightarrow> 'v fallx_Fallback" where
  "fallx_fireOnFallback err f =
     (case fc_onFallback (ff_cfg f) of
        None \<Rightarrow> f
      | Some fn \<Rightarrow> f\<lparr>ff_hooks := ff_hooks f @ [(err, fc_strategy (ff_cfg f))]\<rparr>)"

definition fallx_resolveKey :: "nat \<Rightarrow> 'v fallx_Fallback \<Rightarrow> string" where
  "fallx_resolveKey ctx f = (case fc_keyFn (ff_cfg f) of Some fn \<Rightarrow> fn ctx | None \<Rightarrow> fallx_DefaultKey)"

definition fallx_ok :: "'v fallx_Fallback \<Rightarrow> 'v fallx_Fallback" where
  "fallx_ok f = f\<lparr>ff_fallbackSuccess := wrap_i64 (ff_fallbackSuccess f + 1)\<rparr>"

definition fallx_failed :: "'v fallx_Fallback \<Rightarrow> 'v fallx_Fallback" where
  "fallx_failed f = f\<lparr>ff_fallbackFailed := wrap_i64 (ff_fallbackFailed f + 1)\<rparr>"

definition fallx_fallback ::
  "'v \<Rightarrow> int \<Rightarrow> fallx_execution \<Rightarrow> goerr \<Rightarrow> 'v fallx_Fallback \<Rightarrow> 'v fallx_Fallback \<times> 'v \<times> goerror" where
  "fallx_fallback zero now fc primaryErr f0 =
     (let f1 = f0\<lparr>ff_fallbackUsed := wrap_i64 (ff_fallbackUsed f0 + 1)\<rparr>; f = fallx_fireOnFallback primaryErr f1;
          fc1 = fc\<lparr>fx_onFallback := True, fx_err := Some primaryErr\<rparr>
      in if fc_strategy (ff_cfg f) = fallx_StrategyStatic then (fallx_ok f, fc_staticValue (ff_cfg f), None)
         else if fc_strategy (ff_cfg f) = fallx_StrategyFunc
         then (case fc_fallbackFn (ff_cfg f) of
                 None \<Rightarrow> (fallx_failed f, zero, Some fallx_ErrNoFunc)
               | Some fn \<Rightarrow>
                   (case panix_Safe zero fallx_opFallback (Some (fn fc1)) of
                      (result, Some err) \<Rightarrow> (fallx_failed f, zero, Some (fallx_errFallbackFailed err))
                    | (result, None) \<Rightarrow> (fallx_ok f, result, None)))
         else if fc_strategy (ff_cfg f) = fallx_StrategyCached
         then (case fallx_getCachedResult (fx_key fc1) now f of
                 (f2, Some cached) \<Rightarrow> (fallx_ok (f2\<lparr>ff_cacheHits := wrap_i64 (ff_cacheHits f2 + 1)\<rparr>), cached, None)
               | (f2, None) \<Rightarrow>
                   (fallx_failed (f2\<lparr>ff_cacheMisses := wrap_i64 (ff_cacheMisses f2 + 1)\<rparr>), zero,
                    Some (fallx_errNoCached (fx_key fc1))))
         else (fallx_failed f, zero, Some fallx_ErrNoFunc))"

text \<open>The clocks of a call: \<open>cacheResult\<close> and its eviction, or the lookup of the fallback.\<close>

record fallx_clock =
  fk_store :: int
  fk_evict :: int
  fk_lookup :: int

definition fallx_ExecuteWithKey ::
  "'v \<Rightarrow> fallx_clock \<Rightarrow> string \<Rightarrow> 'v fallx_PrimaryFunc option \<Rightarrow> 'v fallx_Fallback \<Rightarrow> 'v fallx_Fallback \<times> 'v \<times> goerror" where
  "fallx_ExecuteWithKey zero ck key primaryFn f =
     (if ff_closed f then (f, zero, Some fallx_ErrClosed)
      else case primaryFn of
        None \<Rightarrow> (f, zero, Some fallx_ErrNilFunc)
      | Some fn \<Rightarrow>
          (let f1 = f\<lparr>ff_calls := wrap_i64 (ff_calls f + 1)\<rparr>;
               fc = \<lparr>fx_strategy = fc_strategy (ff_cfg f1), fx_key = key, fx_err = None, fx_onFallback = False\<rparr>
           in case fn fc f1 of
                (f2, out) \<Rightarrow>
                  (case panix_Safe zero (fallx_opOrDefault (ff_cfg f2)) (Some out) of
                     (result, None) \<Rightarrow>
                       (let f3 = f2\<lparr>ff_primarySuccess := wrap_i64 (ff_primarySuccess f2 + 1)\<rparr>
                        in (if fc_strategy (ff_cfg f3) = fallx_StrategyCached
                            then fallx_cacheResult key result (fc_cacheTTL (ff_cfg f3)) (fk_store ck) (fk_evict ck) f3 else f3,
                            result, None))
                   | (result, Some err) \<Rightarrow>
                       if (case fc_fallbackIf (ff_cfg f2) of Some p \<Rightarrow> \<not> p err | None \<Rightarrow> False) then (f2, result, Some err)
                       else fallx_fallback zero (fk_lookup ck) fc err f2)))"

definition fallx_Execute ::
  "'v \<Rightarrow> fallx_clock \<Rightarrow> nat \<Rightarrow> 'v fallx_PrimaryFunc option \<Rightarrow> 'v fallx_Fallback \<Rightarrow> 'v fallx_Fallback \<times> 'v \<times> goerror" where
  "fallx_Execute zero ck ctx primaryFn f = fallx_ExecuteWithKey zero ck (fallx_resolveKey ctx f) primaryFn f"

definition fallx_Seed :: "string \<Rightarrow> 'v \<Rightarrow> int \<Rightarrow> int \<Rightarrow> 'v fallx_Fallback \<Rightarrow> 'v fallx_Fallback" where
  "fallx_Seed key v now tevict f =
     (if ff_closed f \<or> fc_strategy (ff_cfg f) \<noteq> fallx_StrategyCached then f
      else fallx_cacheResult key v (fc_cacheTTL (ff_cfg f)) now tevict f)"

definition fallx_SeedWithTTL :: "string \<Rightarrow> 'v \<Rightarrow> int \<Rightarrow> int \<Rightarrow> int \<Rightarrow> 'v fallx_Fallback \<Rightarrow> 'v fallx_Fallback" where
  "fallx_SeedWithTTL key v ttl0 now tevict f =
     (if ff_closed f \<or> fc_strategy (ff_cfg f) \<noteq> fallx_StrategyCached then f
      else (let ttl = (if ttl0 \<le> 0 then fc_cacheTTL (ff_cfg f) else ttl0) in fallx_cacheResult key v ttl now tevict f))"

definition fallx_ClearCache :: "'v fallx_Fallback \<Rightarrow> 'v fallx_Fallback" where
  "fallx_ClearCache f =
     (if ff_closed f \<or> fc_strategy (ff_cfg f) \<noteq> fallx_StrategyCached \<or> length (ff_shards f) = 0 then f
      else fallx_syncCacheSize (f\<lparr>ff_shards := map fallx_clear (ff_shards f)\<rparr>))"

record fallx_Stats =
  ft_Calls :: int
  ft_PrimarySuccess :: int
  ft_FallbackUsed :: int
  ft_FallbackSuccess :: int
  ft_FallbackFailed :: int
  ft_CacheHits :: int
  ft_CacheMisses :: int
  ft_CacheSize :: int
  ft_CacheEvictions :: int

definition fallx_FallbackStats :: "'v fallx_Fallback \<Rightarrow> fallx_Stats" where
  "fallx_FallbackStats f =
     \<lparr>ft_Calls = ff_calls f, ft_PrimarySuccess = ff_primarySuccess f, ft_FallbackUsed = ff_fallbackUsed f,
      ft_FallbackSuccess = ff_fallbackSuccess f, ft_FallbackFailed = ff_fallbackFailed f, ft_CacheHits = ff_cacheHits f,
      ft_CacheMisses = ff_cacheMisses f, ft_CacheSize = ff_cacheSize f, ft_CacheEvictions = ff_cacheEvictions f\<rparr>"

definition fallx_ResetStats :: "'v fallx_Fallback \<Rightarrow> 'v fallx_Fallback" where
  "fallx_ResetStats f =
     f\<lparr>ff_calls := 0, ff_primarySuccess := 0, ff_fallbackUsed := 0, ff_fallbackSuccess := 0, ff_fallbackFailed := 0,
       ff_cacheHits := 0, ff_cacheMisses := 0, ff_cacheEvictions := 0\<rparr>"

definition fallx_Close :: "'v fallx_Fallback \<Rightarrow> 'v fallx_Fallback" where
  "fallx_Close f = (if ff_closed f then f else f\<lparr>ff_closed := True, ff_sweeper := False\<rparr>)"

definition fallx_IsClosed :: "'v fallx_Fallback \<Rightarrow> bool" where "fallx_IsClosed f = ff_closed f"

interpretation fallx: closer fallx_Close fallx_IsClosed
  by unfold_locales (simp_all add: fallx_Close_def fallx_IsClosed_def)

end
