(* ===== verification/Fallx_Shard.thy ===== *)
theory Fallx_Shard
  imports Fallx
begin

text \<open>
  Package \<open>fallx\<close>, part two: one shard of the cache. The LRU heap is an implementation of \<open>heap.Interface\<close>, so the locale of \<open>Go_Heap\<close>
  gives its order; the operations of a shard keep the heap, the index stored in each entry and the map in step.
\<close>

section \<open>The heap of a shard\<close>

definition fallx_indexed :: "'v fallx_cacheShard \<Rightarrow> bool" where
  "fallx_indexed s \<longleftrightarrow> distinct (fs_lru s) \<and> (\<forall>p\<in>set (fs_lru s). fs_store s p \<noteq> None)
     \<and> (\<forall>i<length (fs_lru s). fe_heapIndex (fallx_at s (fs_lru s ! i)) = int i)"

text \<open>All of a shard but the order of its heap.\<close>

definition fallx_view :: "'v fallx_cacheShard \<Rightarrow> (string \<times> nat) list \<times> nat \<times> (nat \<Rightarrow> 'v fallx_cacheEntry)" where
  "fallx_view s = (fs_entries s, fs_fresh s, \<lambda>p. (fallx_at s p)\<lparr>fe_heapIndex := 0\<rparr>)"

lemma fallx_at_upd [simp]: "fallx_at (fallx_upd p f s) q = (if q = p then f (fallx_at s p) else fallx_at s q)"
  by (simp add: fallx_at_def fallx_upd_def)

lemma fallx_upd_frame [urx_frame, simp]:
  "fs_entries (fallx_upd p f s) = fs_entries s" "fs_lru (fallx_upd p f s) = fs_lru s" "fs_fresh (fallx_upd p f s) = fs_fresh s"
  "(fs_store (fallx_upd p f s) q = None) = (q \<noteq> p \<and> fs_store s q = None)"
  by (simp_all add: fallx_upd_def)

lemma fallx_at_frame [urx_frame, simp]:
  "fallx_at (s\<lparr>fs_lru := ps\<rparr>) = fallx_at s" "fallx_at (s\<lparr>fs_entries := es\<rparr>) = fallx_at s" "fallx_at (s\<lparr>fs_fresh := n\<rparr>) = fallx_at s"
  by (rule ext, simp add: fallx_at_def)+

lemma fallx_Swap_lru [simp]: "fs_lru (fallx_Swap i j s) = (fs_lru s)[i := fs_lru s ! j, j := fs_lru s ! i]"
  by (simp add: fallx_Swap_def Let_def)

lemma fallx_Swap_at:
  assumes "i < length (fs_lru s)" and "j < length (fs_lru s)"
  shows "fallx_at (fallx_Swap i j s) q =
    (if q = fs_lru s ! i then (fallx_at s q)\<lparr>fe_heapIndex := int j\<rparr>
     else if q = fs_lru s ! j then (fallx_at s q)\<lparr>fe_heapIndex := int i\<rparr> else fallx_at s q)"
  using assms by (auto simp: fallx_Swap_def Let_def nth_list_update)

lemma fallx_Swap_indexed:
  assumes "fallx_indexed s" and "i < length (fs_lru s)" and "j < length (fs_lru s)"
  shows "fallx_indexed (fallx_Swap i j s)"
  unfolding fallx_indexed_def
proof (intro conjI ballI allI impI)
  have d: "distinct (fs_lru s)" using assms(1) by (simp add: fallx_indexed_def)
  show "distinct (fs_lru (fallx_Swap i j s))" using d assms(2,3) by (simp add: distinct_swap)
  fix p assume "p \<in> set (fs_lru (fallx_Swap i j s))"
  then have "p \<in> set (fs_lru s)" using assms(2,3) by (simp add: set_swap)
  then have "fs_store s p \<noteq> None" using assms(1) by (simp add: fallx_indexed_def)
  then show "fs_store (fallx_Swap i j s) p \<noteq> None" by (simp add: fallx_Swap_def Let_def fallx_upd_def)
next
  have d: "distinct (fs_lru s)" and x: "\<And>k. k < length (fs_lru s) \<Longrightarrow> fe_heapIndex (fallx_at s (fs_lru s ! k)) = int k"
    using assms(1) by (simp_all add: fallx_indexed_def)
  fix k assume "k < length (fs_lru (fallx_Swap i j s))"
  then have k: "k < length (fs_lru s)" by simp
  consider "k = i" | "k \<noteq> i" "k = j" | "k \<noteq> i" "k \<noteq> j" by blast
  then show "fe_heapIndex (fallx_at (fallx_Swap i j s) (fs_lru (fallx_Swap i j s) ! k)) = int k"
    using assms(2,3) k d x [of k]
    by cases (auto simp: fallx_Swap_at nth_list_update nth_eq_iff_index_eq)
qed

lemma fallx_Swap_view: "fallx_view (fallx_Swap i j s) = fallx_view s"
  by (auto simp: fallx_view_def fallx_Swap_def Let_def fun_eq_iff)

lemma fallx_Swap_key: "(\<lambda>p. fe_lastAccess (fallx_at (fallx_Swap i j s) p)) = (\<lambda>p. fe_lastAccess (fallx_at s p))"
  by (auto simp: fallx_Swap_def Let_def fun_eq_iff)

interpretation lru: go_heap fallx_Len fallx_Less fallx_Swap fs_lru "\<lambda>s p. fe_lastAccess (fallx_at s p)" fallx_indexed fallx_view
  by unfold_locales
    (simp_all add: fallx_Len_def fallx_Less_def fallx_Swap_indexed fallx_Swap_view fallx_Swap_key)

section \<open>A well-formed shard\<close>

definition fallx_shard_ok :: "'v fallx_cacheShard \<Rightarrow> bool" where
  "fallx_shard_ok s \<longleftrightarrow>
     distinct (map fst (fs_entries s)) \<and> set (fs_lru s) = snd ` set (fs_entries s)
     \<and> (\<forall>(k, p)\<in>set (fs_entries s). fe_key (fallx_at s p) = k \<and> p < fs_fresh s)
     \<and> fallx_indexed s \<and> heap_ok (lru.arr s) (length (fs_lru s))"

lemma fallx_shard_okD:
  assumes "fallx_shard_ok s"
  shows "distinct (map fst (fs_entries s))" "set (fs_lru s) = snd ` set (fs_entries s)"
    "(k, p) \<in> set (fs_entries s) \<Longrightarrow> fe_key (fallx_at s p) = k" "(k, p) \<in> set (fs_entries s) \<Longrightarrow> p < fs_fresh s"
    "fallx_indexed s" "heap_ok (lru.arr s) (length (fs_lru s))"
  using assms by (auto simp: fallx_shard_ok_def)

text \<open>What the map says of a key: the entry without its place in the heap.\<close>

definition fallx_lookup :: "'v fallx_cacheShard \<Rightarrow> string \<Rightarrow> 'v fallx_cacheEntry option" where
  "fallx_lookup s key = map_option (\<lambda>p. (fallx_at s p)\<lparr>fe_heapIndex := 0\<rparr>) (map_of (fs_entries s) key)"

lemma fallx_view_at:
  assumes "fallx_view s' = fallx_view s"
  shows "fs_entries s' = fs_entries s" "fs_fresh s' = fs_fresh s"
    "fe_key (fallx_at s' p) = fe_key (fallx_at s p)" "fe_value (fallx_at s' p) = fe_value (fallx_at s p)"
    "fe_expiresAt (fallx_at s' p) = fe_expiresAt (fallx_at s p)" "fe_lastAccess (fallx_at s' p) = fe_lastAccess (fallx_at s p)"
    "fallx_lookup s' = fallx_lookup s"
proof -
  have v: "fs_entries s' = fs_entries s" "fs_fresh s' = fs_fresh s"
      "\<And>p. (fallx_at s' p)\<lparr>fe_heapIndex := 0\<rparr> = (fallx_at s p)\<lparr>fe_heapIndex := 0\<rparr>"
    using assms by (auto simp: fallx_view_def fun_eq_iff)
  show "fs_entries s' = fs_entries s" "fs_fresh s' = fs_fresh s" by (fact v)+
  show "fe_key (fallx_at s' p) = fe_key (fallx_at s p)" "fe_value (fallx_at s' p) = fe_value (fallx_at s p)"
    "fe_expiresAt (fallx_at s' p) = fe_expiresAt (fallx_at s p)" "fe_lastAccess (fallx_at s' p) = fe_lastAccess (fallx_at s p)"
    using v(3) [of p] by (cases "fallx_at s' p"; cases "fallx_at s p"; simp)+
  show "fallx_lookup s' = fallx_lookup s" by (simp add: fallx_lookup_def [abs_def] v)
qed

lemma fallx_new_ok: "fallx_shard_ok fallx_newCacheShard" "fallx_shard_ok (fallx_clear s)"
  by (simp_all add: fallx_shard_ok_def fallx_newCacheShard_def fallx_clear_def fallx_indexed_def heap_ok_def)

text \<open>Every pointer of the heap is at the index its entry stores.\<close>

lemma fallx_index_of:
  assumes "fallx_indexed s" and "p \<in> set (fs_lru s)"
  obtains i where "i < length (fs_lru s)" "fs_lru s ! i = p" "fe_heapIndex (fallx_at s p) = int i"
  using assms by (metis fallx_indexed_def in_set_conv_nth)

lemma fallx_ptr_inj:
  assumes "fallx_shard_ok s" and "(k, p) \<in> set (fs_entries s)" and "(k', p) \<in> set (fs_entries s)" shows "k = k'"
  using fallx_shard_okD(3) [OF assms(1)] assms(2,3) by metis

text \<open>A change of the heap's order that ends in heap order keeps the shard well formed.\<close>

lemma fallx_same_ok:
  assumes "distinct (map fst (fs_entries s1))" and "set (fs_lru s1) = snd ` set (fs_entries s1)"
    and "\<forall>(k, p)\<in>set (fs_entries s1). fe_key (fallx_at s1 p) = k \<and> p < fs_fresh s1"
    and "lru.same n s1 s'" and "heap_ok (lru.arr s') (length (fs_lru s'))"
  shows "fallx_shard_ok s'" and "fallx_lookup s' = fallx_lookup s1" and "fs_entries s' = fs_entries s1"
    "fs_fresh s' = fs_fresh s1"
proof -
  have v: "fallx_view s' = fallx_view s1" and i: "fallx_indexed s'" and m: "set (fs_lru s') = set (fs_lru s1)"
    using assms(4) by (auto simp: lru.same_def dest: mset_eq_setD)
  note v = fallx_view_at [OF v]
  show "fallx_shard_ok s'" using assms(1-3,5) i m by (simp add: fallx_shard_ok_def v)
  show "fallx_lookup s' = fallx_lookup s1" "fs_entries s' = fs_entries s1" "fs_fresh s' = fs_fresh s1" by (simp_all add: v)
qed

lemma fallx_touch_ok:
  assumes "fallx_shard_ok s" and "map_of (fs_entries s) key = Some p"
  shows "fallx_shard_ok (fallx_touch p t s)"
    and "fallx_lookup (fallx_touch p t s) = (fallx_lookup s)(key \<mapsto> (fallx_at s p)\<lparr>fe_lastAccess := t, fe_heapIndex := 0\<rparr>)"
    and "fs_entries (fallx_touch p t s) = fs_entries s"
    and "fe_value (fallx_at (fallx_touch p t s) p) = fe_value (fallx_at s p)"
proof -
  note ok = fallx_shard_okD [OF assms(1)]
  have kp: "(key, p) \<in> set (fs_entries s)" using assms(2) by (rule map_of_SomeD)
  then have pl: "p \<in> set (fs_lru s)" using ok(2) by force
  obtain i where i: "i < length (fs_lru s)" "fs_lru s ! i = p" "fe_heapIndex (fallx_at s p) = int i"
    by (rule fallx_index_of [OF ok(5) pl])
  define s1 where "s1 = fallx_upd p (\<lambda>e. e\<lparr>fe_lastAccess := t\<rparr>) s"
  have s1: "fs_lru s1 = fs_lru s" "fs_entries s1 = fs_entries s" "fs_fresh s1 = fs_fresh s"
      "\<And>q. fe_key (fallx_at s1 q) = fe_key (fallx_at s q)" "\<And>q. fe_heapIndex (fallx_at s1 q) = fe_heapIndex (fallx_at s q)"
      "fallx_Len s1 = length (fs_lru s)"
    by (simp_all add: s1_def fallx_Len_def)
  have ix: "fallx_indexed s1" using ok(5) by (auto simp: fallx_indexed_def s1 s1_def)
  have dis: "distinct (fs_lru s)" using ok(5) by (simp add: fallx_indexed_def)
  have but: "heap_but (lru.arr s1) (fallx_Len s1) i"
  proof (rule lru.heap_ok_but)
    show "heap_ok (lru.arr s) (fallx_Len s1)" using ok(6) by (simp add: s1)
    show "lru.arr s1 j = lru.arr s j" if "j \<noteq> i" "j < fallx_Len s1" for j
      using that i dis by (auto simp: lru.arr_def s1_def fallx_Len_def nth_eq_iff_index_eq)
  qed (use i in \<open>simp add: s1\<close>)
  have t: "fallx_touch p t s = heap_Fix fallx_Len fallx_Less fallx_Swap i s1"
    using i(3) s1(5) [of p] by (simp add: fallx_touch_def s1_def Let_def)
  have "i < fallx_Len s1" using i(1) by (simp add: s1)
  note fx = lru.Fix_ok [OF ix this but]
  have sm: "lru.same (fallx_Len s1) s1 (fallx_touch p t s)" using fx by (simp add: t)
  have len: "length (fs_lru (fallx_touch p t s)) = fallx_Len s1" using lru.same_len [OF sm] by (simp add: fallx_Len_def)
  have hp: "heap_ok (lru.arr (fallx_touch p t s)) (length (fs_lru (fallx_touch p t s)))" using fx len by (simp add: t)
  have m: "distinct (map fst (fs_entries s1))" "set (fs_lru s1) = snd ` set (fs_entries s1)"
      "\<forall>(k, p)\<in>set (fs_entries s1). fe_key (fallx_at s1 p) = k \<and> p < fs_fresh s1"
    using ok(1,2) ok(3,4) by (auto simp: s1)
  note r = fallx_same_ok [OF m sm hp]
  show "fallx_shard_ok (fallx_touch p t s)" by (rule r(1))
  show "fs_entries (fallx_touch p t s) = fs_entries s" using r(3) s1(2) by simp
  have v: "fallx_view (fallx_touch p t s) = fallx_view s1" using sm by (simp add: lru.same_def)
  show "fe_value (fallx_at (fallx_touch p t s) p) = fe_value (fallx_at s p)"
    using fallx_view_at(4) [OF v, of p] by (simp add: s1_def)
  have "fallx_lookup s1 k = ((fallx_lookup s)(key \<mapsto> (fallx_at s p)\<lparr>fe_lastAccess := t, fe_heapIndex := 0\<rparr>)) k" for k
  proof (cases "k = key")
    case False
    have "q \<noteq> p" if "map_of (fs_entries s) k = Some q" for q
      using fallx_ptr_inj [OF assms(1) kp] map_of_SomeD [OF that] False by auto
    with False show ?thesis by (auto simp: fallx_lookup_def s1_def split: option.split intro!: option.map_cong0)
  qed (use assms(2) in \<open>simp add: fallx_lookup_def s1_def\<close>)
  then show "fallx_lookup (fallx_touch p t s) = (fallx_lookup s)(key \<mapsto> (fallx_at s p)\<lparr>fe_lastAccess := t, fe_heapIndex := 0\<rparr>)"
    using r(2) by auto
qed

lemma fallx_lookup_None: "fallx_lookup s key = None \<longleftrightarrow> key \<notin> fst ` set (fs_entries s)"
  by (simp add: fallx_lookup_def map_of_eq_None_iff)

text \<open>The locked section of \<open>cacheResult\<close>.\<close>

lemma fallx_upd_ok:
  assumes "fallx_shard_ok s" and "map_of (fs_entries s) key = Some p"
    and "\<And>e. fe_key (f e) = fe_key e" "\<And>e. fe_heapIndex (f e) = fe_heapIndex e" "\<And>e. fe_lastAccess (f e) = fe_lastAccess e"
  shows "fallx_shard_ok (fallx_upd p f s)"
    and "fallx_lookup (fallx_upd p f s) = (fallx_lookup s)(key \<mapsto> (f (fallx_at s p))\<lparr>fe_heapIndex := 0\<rparr>)"
proof -
  note ok = fallx_shard_okD [OF assms(1)]
  have kp: "(key, p) \<in> set (fs_entries s)" using assms(2) by (rule map_of_SomeD)
  have ix: "fallx_indexed (fallx_upd p f s)" using ok(5) by (auto simp: fallx_indexed_def assms(4))
  have arr: "lru.arr (fallx_upd p f s) = lru.arr s" by (auto simp: lru.arr_def fun_eq_iff assms(5))
  show "fallx_shard_ok (fallx_upd p f s)"
    using ok(1,2,6) ok(3,4) ix by (auto simp: fallx_shard_ok_def arr assms(3))
  have "fallx_lookup (fallx_upd p f s) k = ((fallx_lookup s)(key \<mapsto> (f (fallx_at s p))\<lparr>fe_heapIndex := 0\<rparr>)) k" for k
  proof (cases "k = key")
    case False
    have "q \<noteq> p" if "map_of (fs_entries s) k = Some q" for q
      using fallx_ptr_inj [OF assms(1) kp] map_of_SomeD [OF that] False by auto
    with False show ?thesis by (auto simp: fallx_lookup_def intro!: option.map_cong0)
  qed (use assms(2) in \<open>simp add: fallx_lookup_def\<close>)
  then show "fallx_lookup (fallx_upd p f s) = (fallx_lookup s)(key \<mapsto> (f (fallx_at s p))\<lparr>fe_heapIndex := 0\<rparr>)" by auto
qed

lemma fallx_insert_ok:
  assumes "fallx_shard_ok s" and "map_of (fs_entries s) key = None" and "fe_key e = key" and "fe_heapIndex e = - 1"
    and "s2 = s\<lparr>fs_store := (fs_store s)(fs_fresh s \<mapsto> e), fs_fresh := Suc (fs_fresh s), fs_entries := AList.update key (fs_fresh s) (fs_entries s)\<rparr>"
    and "s' = heap_Push fallx_Len fallx_Less fallx_Swap fallx_Push (fs_fresh s) s2"
  shows "fallx_shard_ok s'" and "fallx_lookup s' = (fallx_lookup s)(key \<mapsto> e\<lparr>fe_heapIndex := 0\<rparr>)"
    and "length (fs_entries s') = Suc (length (fs_entries s))"
proof -
  note ok = fallx_shard_okD [OF assms(1)]
  let ?p = "fs_fresh s"
  have nk: "key \<notin> fst ` set (fs_entries s)" using assms(2) by (simp add: map_of_eq_None_iff)
  have ents: "set (AList.update key ?p (fs_entries s)) = insert (key, ?p) (set (fs_entries s))"
    by (rule alist_set_update [OF nk])
  have old: "q \<noteq> ?p" if "q \<in> set (fs_lru s)" for q using that ok(2,4) by fastforce
  define s3 where "s3 = fallx_Push ?p s2"
  have at: "fallx_at s3 q = (if q = ?p then e\<lparr>fe_heapIndex := int (length (fs_lru s))\<rparr> else fallx_at s q)" for q
    by (simp add: s3_def fallx_Push_def Let_def assms(5)) (simp add: fallx_at_def)
  have st: "fs_store s3 q = None \<longleftrightarrow> q \<noteq> ?p \<and> fs_store s q = None" for q
    by (simp add: s3_def fallx_Push_def Let_def assms(5) fallx_upd_def)
  have s3: "fs_lru s3 = fs_lru s @ [?p]" "fs_entries s3 = AList.update key ?p (fs_entries s)" "fs_fresh s3 = Suc ?p"
    by (simp_all add: s3_def fallx_Push_def Let_def assms(5))
  have ix: "fallx_indexed s3"
    using ok(5) old by (auto simp: fallx_indexed_def s3 at st nth_append less_Suc_eq)
  have hp: "heap_ok (lru.arr s3) (length (fs_lru s))"
  proof -
    have "lru.arr s3 i = lru.arr s i" if "i < length (fs_lru s)" for i
      using that old [of "fs_lru s ! i"] by (simp add: lru.arr_def s3 at nth_append)
    then show ?thesis using ok(6) lru.arr_cong_ok [of "length (fs_lru s)" "lru.arr s3" "lru.arr s"] by simp
  qed
  have "lru.same (Suc (length (fs_lru s))) s3 s' \<and> heap_ok (lru.arr s') (Suc (length (fs_lru s)))"
    unfolding assms(6) s3_def
    by (rule lru.Push_ok) (use ix hp s3 in \<open>simp_all add: s3_def fallx_Len_def\<close>)
  then have sm: "lru.same (Suc (length (fs_lru s))) s3 s'" and hp': "heap_ok (lru.arr s') (Suc (length (fs_lru s)))" by simp_all
  have len: "length (fs_lru s') = Suc (length (fs_lru s))" using lru.same_len [OF sm] by (simp add: fallx_Len_def s3)
  have m: "distinct (map fst (fs_entries s3))" "set (fs_lru s3) = snd ` set (fs_entries s3)"
      "\<forall>(k, p)\<in>set (fs_entries s3). fe_key (fallx_at s3 p) = k \<and> p < fs_fresh s3"
  proof -
    show "distinct (map fst (fs_entries s3))" by (simp add: s3 distinct_update ok(1))
    show "set (fs_lru s3) = snd ` set (fs_entries s3)" by (simp add: s3 ents ok(2))
    show "\<forall>(k, p)\<in>set (fs_entries s3). fe_key (fallx_at s3 p) = k \<and> p < fs_fresh s3"
      using ok(3,4) assms(3) by (auto simp: s3 ents at less_Suc_eq)
  qed
  note r = fallx_same_ok [OF m sm]
  show "fallx_shard_ok s'" by (rule r(1)) (simp add: hp' len)
  show "length (fs_entries s') = Suc (length (fs_entries s))"
    using r(3) hp' len nk by (simp add: s3 alist_length_update)
  have "fallx_lookup s3 k = ((fallx_lookup s)(key \<mapsto> e\<lparr>fe_heapIndex := 0\<rparr>)) k" for k
  proof (cases "k = key")
    case False
    have "q \<noteq> ?p" if "map_of (fs_entries s) k = Some q" for q using ok(4) map_of_SomeD [OF that] by force
    with False show ?thesis by (auto simp: fallx_lookup_def s3 at update_conv intro!: option.map_cong0)
  qed (simp add: fallx_lookup_def s3 at update_conv)
  then show "fallx_lookup s' = (fallx_lookup s)(key \<mapsto> e\<lparr>fe_heapIndex := 0\<rparr>)" using r(2) hp' len by auto
qed

text \<open>What is stored under a key.\<close>

definition fallx_new_entry :: "string \<Rightarrow> 'v \<Rightarrow> int \<Rightarrow> int \<Rightarrow> 'v fallx_cacheEntry" where
  "fallx_new_entry key v now ttl =
     \<lparr>fe_key = key, fe_value = v, fe_expiresAt = now + ttl, fe_lastAccess = now, fe_heapIndex = 0\<rparr>"

lemma fallx_store_ok:
  assumes "fallx_shard_ok s"
  shows "fallx_shard_ok (fst (fallx_store key v now ttl s))"
    and "fallx_lookup (fst (fallx_store key v now ttl s)) = (fallx_lookup s)(key \<mapsto> fallx_new_entry key v now ttl)"
    and "snd (fallx_store key v now ttl s) \<longleftrightarrow> fallx_lookup s key = None"
    and "length (fs_entries (fst (fallx_store key v now ttl s))) = length (fs_entries s) + (if fallx_lookup s key = None then 1 else 0)"
proof -
  have "fallx_shard_ok (fst (fallx_store key v now ttl s))
      \<and> fallx_lookup (fst (fallx_store key v now ttl s)) = (fallx_lookup s)(key \<mapsto> fallx_new_entry key v now ttl)
      \<and> (snd (fallx_store key v now ttl s) \<longleftrightarrow> fallx_lookup s key = None)
      \<and> length (fs_entries (fst (fallx_store key v now ttl s))) = length (fs_entries s) + (if fallx_lookup s key = None then 1 else 0)"
  proof (cases "map_of (fs_entries s) key")
    case None
    note r = fallx_insert_ok [OF assms None, of "\<lparr>fe_key = key, fe_value = v, fe_expiresAt = now + ttl, fe_lastAccess = now, fe_heapIndex = - 1\<rparr>",
        OF _ _ refl refl]
    show ?thesis using r None by (simp add: fallx_store_def Let_def fallx_new_entry_def fallx_lookup_def)
  next
    case (Some p)
    let ?s1 = "fallx_upd p (\<lambda>e. e\<lparr>fe_value := v\<rparr>) s"
    let ?s2 = "fallx_upd p (\<lambda>e. e\<lparr>fe_expiresAt := now + ttl\<rparr>) ?s1"
    have k: "fe_key (fallx_at s p) = key" by (rule fallx_shard_okD(3) [OF assms map_of_SomeD [OF Some]])
    note u1 = fallx_upd_ok [OF assms Some, of "\<lambda>e. e\<lparr>fe_value := v\<rparr>", simplified]
    have m1: "map_of (fs_entries ?s1) key = Some p" using Some by simp
    note u2 = fallx_upd_ok [OF u1(1) m1, of "\<lambda>e. e\<lparr>fe_expiresAt := now + ttl\<rparr>", simplified]
    have m2: "map_of (fs_entries ?s2) key = Some p" using Some by simp
    note t = fallx_touch_ok [OF u2(1) m2, of now]
    have "fallx_lookup (fallx_touch p now ?s2) = (fallx_lookup s)(key \<mapsto> fallx_new_entry key v now ttl)"
      using k by (cases "fallx_at s p") (simp add: t(2) u1(2) u2(2) fallx_new_entry_def)
    then show ?thesis using Some t(1,3) by (simp add: fallx_store_def Let_def fallx_lookup_def)
  qed
  then show "fallx_shard_ok (fst (fallx_store key v now ttl s))"
    "fallx_lookup (fst (fallx_store key v now ttl s)) = (fallx_lookup s)(key \<mapsto> fallx_new_entry key v now ttl)"
    "snd (fallx_store key v now ttl s) \<longleftrightarrow> fallx_lookup s key = None"
    "length (fs_entries (fst (fallx_store key v now ttl s))) = length (fs_entries s) + (if fallx_lookup s key = None then 1 else 0)"
    by simp_all
qed

section \<open>Removal\<close>

lemma fallx_Pop_ok:
  assumes "fallx_indexed s" and "fs_lru s \<noteq> []" and "heap_ok (lru.arr s) (length (fs_lru s) - 1)"
  shows "fallx_indexed (fallx_Pop s)" and "heap_ok (lru.arr (fallx_Pop s)) (length (fs_lru (fallx_Pop s)))"
    and "fs_lru (fallx_Pop s) = butlast (fs_lru s)" and "fallx_view (fallx_Pop s) = fallx_view s"
proof -
  let ?n = "length (fs_lru s)" let ?l = "fs_lru s ! (?n - 1)"
  have n: "?n - 1 < ?n" using assms(2) by simp
  have d: "distinct (fs_lru s)" using assms(1) by (simp add: fallx_indexed_def)
  show lru: "fs_lru (fallx_Pop s) = butlast (fs_lru s)" by (simp add: fallx_Pop_def Let_def)
  have at: "fallx_at (fallx_Pop s) q = (if q = ?l then (fallx_at s q)\<lparr>fe_heapIndex := - 1\<rparr> else fallx_at s q)" for q
    using assms(2) by (simp add: fallx_Pop_def Let_def last_conv_nth)
  have st: "fs_store s q \<noteq> None \<Longrightarrow> fs_store (fallx_Pop s) q \<noteq> None" for q
    by (simp add: fallx_Pop_def Let_def fallx_upd_def)
  have nl: "fs_lru s ! i \<noteq> ?l" if "i < ?n - 1" for i using that n d by (simp add: nth_eq_iff_index_eq)
  show "fallx_indexed (fallx_Pop s)"
    using assms(1) st nl d by (auto simp: fallx_indexed_def lru at nth_butlast distinct_butlast dest: in_set_butlastD)
  have "lru.arr (fallx_Pop s) i = lru.arr s i" if "i < ?n - 1" for i
    using that by (simp add: lru.arr_def lru at nth_butlast)
  then show "heap_ok (lru.arr (fallx_Pop s)) (length (fs_lru (fallx_Pop s)))"
    using assms(3) lru.arr_cong_ok [of "?n - 1" "lru.arr (fallx_Pop s)" "lru.arr s"] by (simp add: lru)
  show "fallx_view (fallx_Pop s) = fallx_view s"
    by (auto simp: fallx_view_def fun_eq_iff at) (simp_all add: fallx_Pop_def Let_def)
qed

lemma fallx_remove_ok:
  assumes "fallx_shard_ok s" and "map_of (fs_entries s) key = Some p"
  shows "fallx_shard_ok (fallx_remove p s)" and "fallx_lookup (fallx_remove p s) = (fallx_lookup s)(key := None)"
    and "fs_entries (fallx_remove p s) = AList.delete key (fs_entries s)"
    and "fe_expiresAt (fallx_at (fallx_remove p s) q) = fe_expiresAt (fallx_at s q)"
proof -
  note ok = fallx_shard_okD [OF assms(1)]
  have kp: "(key, p) \<in> set (fs_entries s)" using assms(2) by (rule map_of_SomeD)
  have k: "fe_key (fallx_at s p) = key" by (rule ok(3) [OF kp])
  have pl: "p \<in> set (fs_lru s)" using kp ok(2) by force
  obtain i where i: "i < length (fs_lru s)" "fs_lru s ! i = p" "fe_heapIndex (fallx_at s p) = int i"
    by (rule fallx_index_of [OF ok(5) pl])
  define s1 where "s1 = s\<lparr>fs_entries := AList.delete key (fs_entries s)\<rparr>"
  have s1: "fs_lru s1 = fs_lru s" "fallx_at s1 = fallx_at s" "fs_store s1 = fs_store s" "fs_fresh s1 = fs_fresh s"
      "fallx_Len s1 = length (fs_lru s)" "lru.arr s1 = lru.arr s"
    by (simp_all add: s1_def fallx_Len_def lru.arr_def fun_eq_iff)
  have ix: "fallx_indexed s1" using ok(5) by (simp add: fallx_indexed_def s1)
  have rm: "fallx_remove p s = heap_Remove fallx_Len fallx_Less fallx_Swap fallx_Pop i s1"
    using i k by (simp add: fallx_remove_def Let_def s1_def)
  obtain s' where s': "fallx_remove p s = fallx_Pop s'" "lru.same (fallx_Len s1) s1 s'"
      "fs_lru s' ! (fallx_Len s1 - 1) = p" "heap_ok (lru.arr s') (fallx_Len s1 - 1)"
    using lru.Remove_ok [OF ix, of i fallx_Pop] i ok(6) rm by (auto simp: s1)
  have m: "mset (fs_lru s') = mset (fs_lru s)" and ix': "fallx_indexed s'" and v1: "fallx_view s' = fallx_view s1"
    using s'(2) by (auto simp: lru.same_def s1)
  have len: "length (fs_lru s') = length (fs_lru s)" using m by (metis size_mset)
  have ne: "fs_lru s' \<noteq> []" using len i(1) by auto
  have last: "fs_lru s' = butlast (fs_lru s') @ [p]"
    using s'(3) ne len by (metis append_butlast_last_id last_conv_nth s1(5))
  have d': "distinct (fs_lru s')" using ix' by (simp add: fallx_indexed_def)
  note pop = fallx_Pop_ok [OF ix' ne, folded s'(1)]
  have hp: "heap_ok (lru.arr s') (length (fs_lru s') - 1)" using s'(4) len by (simp add: s1)
  note pop = pop [OF hp]
  have view: "fallx_view (fallx_remove p s) = fallx_view s1" using pop(4) v1 by simp
  note v = fallx_view_at [OF view]
  have ents: "fs_entries (fallx_remove p s) = AList.delete key (fs_entries s)" using v(1) by (simp add: s1_def)
  show "fs_entries (fallx_remove p s) = AList.delete key (fs_entries s)" by (rule ents)
  show "fe_expiresAt (fallx_at (fallx_remove p s) q) = fe_expiresAt (fallx_at s q)" using v(5) by (simp add: s1)
  have sub: "set (AList.delete key (fs_entries s)) = {(k, q) \<in> set (fs_entries s). k \<noteq> key}"
    by (auto simp: AList.delete_eq)
  have set: "set (fs_lru (fallx_remove p s)) = set (fs_lru s) - {p}"
  proof -
    have "set (fs_lru s) = set (fs_lru s')" using m by (metis set_mset_mset)
    also have "\<dots> = insert p (set (butlast (fs_lru s')))" using last by (metis Un_insert_right append_Nil2 list.simps(15) set_append)
    finally show ?thesis using last d' pop(3) by (metis Diff_insert_absorb distinct_append distinct.simps(2) disjoint_insert(1) list.simps(15))
  qed
  have img: "snd ` set (AList.delete key (fs_entries s)) = snd ` set (fs_entries s) - {p}"
  proof -
    have "q \<noteq> p" if "(k', q) \<in> set (fs_entries s)" "k' \<noteq> key" for k' q
      using that fallx_ptr_inj [OF assms(1) kp] by auto
    moreover have "k' \<noteq> key" if "(k', q) \<in> set (fs_entries s)" "q \<noteq> p" for k' q
      using that kp ok(1) by (auto dest: eq_key_imp_eq_value)
    ultimately show ?thesis unfolding sub by force
  qed
  show "fallx_shard_ok (fallx_remove p s)"
    unfolding fallx_shard_ok_def
  proof (intro conjI)
    show "distinct (map fst (fs_entries (fallx_remove p s)))" unfolding ents by (rule distinct_delete [OF ok(1)])
    show "set (fs_lru (fallx_remove p s)) = snd ` set (fs_entries (fallx_remove p s))" unfolding ents set img ok(2) ..
    show "\<forall>(k, q)\<in>set (fs_entries (fallx_remove p s)). fe_key (fallx_at (fallx_remove p s) q) = k \<and> q < fs_fresh (fallx_remove p s)"
      unfolding ents sub v(2,3) s1 using ok(3,4) by auto
  qed (rule pop(1), rule pop(2))
  have "fallx_lookup (fallx_remove p s) = fallx_lookup s1" by (rule v(7))
  also have "\<dots> = (fallx_lookup s)(key := None)"
    by (auto simp: fallx_lookup_def s1_def fun_eq_iff delete_conv')
  finally show "fallx_lookup (fallx_remove p s) = (fallx_lookup s)(key := None)" .
qed

text \<open>The root of a shard's heap is the entry used longest ago.\<close>

lemma fallx_peek_coldest:
  assumes "fallx_shard_ok s" and "fallx_peek s = Some p"
  shows "map_of (fs_entries s) (fe_key (fallx_at s p)) = Some p"
    and "fallx_lookup s k = Some e \<Longrightarrow> fe_lastAccess (fallx_at s p) \<le> fe_lastAccess e"
proof -
  note ok = fallx_shard_okD [OF assms(1)]
  have p: "p = fs_lru s ! 0" "fs_lru s \<noteq> []" using assms(2) by (auto simp: fallx_peek_def split: if_splits)
  then have "p \<in> set (fs_lru s)" by simp
  then obtain key where kp: "(key, p) \<in> set (fs_entries s)" using ok(2) by auto
  with ok(1,3) show "map_of (fs_entries s) (fe_key (fallx_at s p)) = Some p" by simp
  assume "fallx_lookup s k = Some e"
  then obtain q where q: "map_of (fs_entries s) k = Some q" "e = (fallx_at s q)\<lparr>fe_heapIndex := 0\<rparr>"
    by (auto simp: fallx_lookup_def)
  have "q \<in> set (fs_lru s)" using map_of_SomeD [OF q(1)] ok(2) by force
  from lru.root_least [OF _ this] ok(6) show "fe_lastAccess (fallx_at s p) \<le> fe_lastAccess e"
    by (simp add: p(1) q(2) fallx_Len_def)
qed

lemma fallx_peek_None: "fallx_shard_ok s \<Longrightarrow> fallx_peek s = None \<longleftrightarrow> fs_entries s = []"
  using fallx_shard_okD(2) [of s] by (auto simp: fallx_peek_def)

end
