(* ===== verification/Fallx_Cache.thy ===== *)
theory Fallx_Cache
  imports Fallx_Shard
begin

text \<open>
  Package \<open>fallx\<close>, part three: the sharded cache as one map from keys to entries, and eviction. \<open>fallx_find\<close> is
  that map; every operation is shown to update it and to keep the shards well formed and the size counter exact.
\<close>

section \<open>The cache as a map\<close>

definition fallx_cache_ok :: "'v fallx_Fallback \<Rightarrow> bool" where
  "fallx_cache_ok f \<longleftrightarrow>
     0 < length (ff_shards f) \<and> length (ff_shards f) < 2 ^ 32
     \<and> (\<forall>i<length (ff_shards f). fallx_shard_ok (ff_shards f ! i)
          \<and> (\<forall>k. fallx_lookup (ff_shards f ! i) k \<noteq> None \<longrightarrow> fallx_getShard k f = i))"

definition fallx_find :: "'v fallx_Fallback \<Rightarrow> string \<Rightarrow> 'v fallx_cacheEntry option" where
  "fallx_find f k = fallx_lookup (ff_shards f ! fallx_getShard k f) k"

definition fallx_total :: "'v fallx_Fallback \<Rightarrow> int" where
  "fallx_total f = sum_list (map (\<lambda>s. int (length (fs_entries s))) (ff_shards f))"

definition fallx_sized :: "'v fallx_Fallback \<Rightarrow> bool" where
  "fallx_sized f \<longleftrightarrow> ff_cacheSize f = fallx_total f \<and> fallx_total f < 2 ^ 63"

lemma fallx_getShard_cong: "length (ff_shards f') = length (ff_shards f) \<Longrightarrow> fallx_getShard k f' = fallx_getShard k f"
  by (simp add: fallx_getShard_def)

lemma fallx_getShard_less: "fallx_cache_ok f \<Longrightarrow> fallx_getShard k f < length (ff_shards f)"
proof -
  assume ok: "fallx_cache_ok f"
  let ?n = "length (ff_shards f)"
  have "unat (word_of_nat ?n :: 32 word) = ?n"
    using ok by (simp add: fallx_cache_ok_def unat_of_nat take_bit_nat_eq_self)
  then show ?thesis using ok by (simp add: fallx_getShard_def Let_def unat_mod fallx_cache_ok_def)
qed

lemma fallx_cache_okD:
  assumes "fallx_cache_ok f" and "i < length (ff_shards f)"
  shows "fallx_shard_ok (ff_shards f ! i)" and "fallx_lookup (ff_shards f ! i) k \<noteq> None \<Longrightarrow> fallx_getShard k f = i"
  using assms by (auto simp: fallx_cache_ok_def)

lemma fallx_total_nonneg: "0 \<le> fallx_total f"
  unfolding fallx_total_def by (rule sum_list_nonneg) auto

text \<open>What the fields outside the shards do not touch.\<close>

lemma fallx_cong:
  assumes "ff_shards f' = ff_shards f"
  shows "fallx_cache_ok f' = fallx_cache_ok f" "fallx_find f' = fallx_find f" "fallx_total f' = fallx_total f"
    "fallx_getShard k f' = fallx_getShard k f"
proof -
  have g: "fallx_getShard k f' = fallx_getShard k f" for k using assms by (simp add: fallx_getShard_def)
  show "fallx_cache_ok f' = fallx_cache_ok f" "fallx_find f' = fallx_find f" "fallx_total f' = fallx_total f"
    using g assms by (simp_all add: fallx_cache_ok_def fallx_find_def [abs_def] fallx_total_def)
  show "fallx_getShard k f' = fallx_getShard k f" by (rule g)
qed

text \<open>Replacing one shard.\<close>

lemma fallx_replace:
  assumes "fallx_cache_ok f" and "i < length (ff_shards f)" and "ff_shards f' = (ff_shards f)[i := s]" and "fallx_shard_ok s"
    and "\<And>k. fallx_lookup s k \<noteq> None \<Longrightarrow> fallx_getShard k f = i"
  shows "fallx_cache_ok f'"
    and "fallx_find f' k = (if fallx_getShard k f = i then fallx_lookup s k else fallx_find f k)"
    and "fallx_total f' = fallx_total f + int (length (fs_entries s)) - int (length (fs_entries (ff_shards f ! i)))"
proof -
  have g: "fallx_getShard k f' = fallx_getShard k f" for k using assms(3) by (intro fallx_getShard_cong) simp
  have "fallx_shard_ok (ff_shards f' ! j) \<and> (\<forall>k. fallx_lookup (ff_shards f' ! j) k \<noteq> None \<longrightarrow> fallx_getShard k f = j)"
    if "j < length (ff_shards f)" for j
    using fallx_cache_okD [OF assms(1) that] assms(2-5) that by (cases "j = i") auto
  then show "fallx_cache_ok f'" using assms(1,3) by (simp add: fallx_cache_ok_def g)
  show "fallx_find f' k = (if fallx_getShard k f = i then fallx_lookup s k else fallx_find f k)"
    using assms(2,3) by (auto simp: fallx_find_def g)
  show "fallx_total f' = fallx_total f + int (length (fs_entries s)) - int (length (fs_entries (ff_shards f ! i)))"
    using assms(2,3) by (simp add: fallx_total_def map_update sum_list_update_int)
qed

lemma fallx_same_frame [urx_frame, simp]:
  "ff_shards (fallx_add_size d f) = ff_shards f" "ff_shards (fallx_add_evictions f) = ff_shards f"
  "ff_cfg (fallx_add_size d f) = ff_cfg f" "ff_cfg (fallx_add_evictions f) = ff_cfg f"
  "ff_cacheSize (fallx_add_evictions f) = ff_cacheSize f" "ff_cacheSize (fallx_add_size d f) = wrap_i64 (ff_cacheSize f + d)"
  "ff_shards (fallx_set_shard i s f) = (ff_shards f)[i := s]" "ff_cfg (fallx_set_shard i s f) = ff_cfg f"
  "ff_cacheSize (fallx_set_shard i s f) = ff_cacheSize f"
  by (simp_all add: fallx_add_size_def fallx_add_evictions_def fallx_set_shard_def)

section \<open>Eviction\<close>

lemma fallx_drop_ok:
  assumes "fallx_cache_ok f" and "i < length (ff_shards f)" and "map_of (fs_entries (ff_shards f ! i)) key = Some p"
  shows "fallx_cache_ok (fallx_drop i p f)" and "fallx_find (fallx_drop i p f) = (fallx_find f)(key := None)"
    and "fallx_total (fallx_drop i p f) = fallx_total f - 1" and "fallx_sized f \<Longrightarrow> fallx_sized (fallx_drop i p f)"
    and "ff_cfg (fallx_drop i p f) = ff_cfg f"
    and "ff_shards (fallx_drop i p f) = (ff_shards f)[i := fallx_remove p (ff_shards f ! i)]"
proof -
  let ?s = "ff_shards f ! i"
  note ok = fallx_cache_okD [OF assms(1,2)]
  note r = fallx_remove_ok [OF ok(1) assms(3)]
  have sh: "ff_shards (fallx_drop i p f) = (ff_shards f)[i := fallx_remove p ?s]" by (simp add: fallx_drop_def)
  have key: "fallx_getShard key f = i" by (rule ok(2)) (simp add: fallx_lookup_def assms(3))
  note rep = fallx_replace [OF assms(1,2) sh r(1)]
  have place: "fallx_lookup (fallx_remove p ?s) k \<noteq> None \<Longrightarrow> fallx_getShard k f = i" for k
    using ok(2) [of k] by (cases "k = key") (simp_all add: r(2))
  show "fallx_cache_ok (fallx_drop i p f)" by (rule rep(1) [OF place])
  show "fallx_find (fallx_drop i p f) = (fallx_find f)(key := None)"
    using rep(2) [OF place] key by (auto simp: r(2) fun_eq_iff fallx_find_def)
  have kin: "key \<in> fst ` set (fs_entries ?s)" using map_of_SomeD [OF assms(3)] by force
  show t: "fallx_total (fallx_drop i p f) = fallx_total f - 1"
    using rep(3) [OF place] alist_length_delete [OF fallx_shard_okD(1) [OF ok(1)], of key] kin by (simp add: r(3))
  show "ff_cfg (fallx_drop i p f) = ff_cfg f" by (simp add: fallx_drop_def)
  show "ff_shards (fallx_drop i p f) = (ff_shards f)[i := fallx_remove p ?s]" by (rule sh)
  assume "fallx_sized f"
  then show "fallx_sized (fallx_drop i p f)"
    using t fallx_total_nonneg [of f] by (simp add: fallx_sized_def) (simp add: fallx_drop_def)
qed

text \<open>The removal of several entries of one shard.\<close>

lemma fallx_drops_ok:
  assumes "fallx_cache_ok f" and "i < length (ff_shards f)" and "distinct ps"
    and "\<And>p. p \<in> set ps \<Longrightarrow> map_of (fs_entries (ff_shards f ! i)) (key p) = Some p"
  shows "fallx_cache_ok (fold (fallx_drop i) ps f)
    \<and> fallx_find (fold (fallx_drop i) ps f) = (\<lambda>k. if k \<in> key ` set ps then None else fallx_find f k)
    \<and> fallx_total (fold (fallx_drop i) ps f) \<le> fallx_total f
    \<and> (fallx_sized f \<longrightarrow> fallx_sized (fold (fallx_drop i) ps f)) \<and> ff_cfg (fold (fallx_drop i) ps f) = ff_cfg f
    \<and> length (ff_shards (fold (fallx_drop i) ps f)) = length (ff_shards f)"
  using assms
proof (induction ps arbitrary: f)
  case (Cons p ps)
  have m: "map_of (fs_entries (ff_shards f ! i)) (key p) = Some p" by (rule Cons.prems(4)) simp
  note d = fallx_drop_ok [OF Cons.prems(1,2) m]
  note sok = fallx_cache_okD(1) [OF Cons.prems(1,2)]
  have l: "i < length (ff_shards (fallx_drop i p f))" using Cons.prems(2) by (simp add: d(6))
  have rest: "map_of (fs_entries (ff_shards (fallx_drop i p f) ! i)) (key q) = Some q" if "q \<in> set ps" for q
  proof -
    have mq: "map_of (fs_entries (ff_shards f ! i)) (key q) = Some q" using Cons.prems(4) that by simp
    have "q \<noteq> p" using Cons.prems(3) that by auto
    then have "key q \<noteq> key p" using m mq by auto
    then show ?thesis using mq Cons.prems(2) by (simp add: d(6) fallx_remove_ok(3) [OF sok m] delete_conv)
  qed
  have "distinct ps" using Cons.prems(3) by simp
  from Cons.IH [OF d(1) l this rest] show ?case
    by (auto simp: d fun_eq_iff)
qed (simp add: fun_eq_iff)

lemma fallx_evictExpired_ok:
  assumes "fallx_cache_ok f" and "i < length (ff_shards f)"
  shows "fallx_cache_ok (fallx_evictExpired now i f)
    \<and> fallx_find (fallx_evictExpired now i f)
        = (\<lambda>k. case fallx_find f k of None \<Rightarrow> None
             | Some e \<Rightarrow> if fallx_getShard k f = i \<and> fe_expiresAt e < now then None else Some e)
    \<and> fallx_total (fallx_evictExpired now i f) \<le> fallx_total f
    \<and> (fallx_sized f \<longrightarrow> fallx_sized (fallx_evictExpired now i f)) \<and> ff_cfg (fallx_evictExpired now i f) = ff_cfg f
    \<and> length (ff_shards (fallx_evictExpired now i f)) = length (ff_shards f)"
proof -
  let ?s = "ff_shards f ! i" let ?ps = "fallx_expired now ?s" let ?key = "\<lambda>p. fe_key (fallx_at ?s p)"
  note sok = fallx_cache_okD(1) [OF assms]
  note ok = fallx_shard_okD [OF sok]
  have dis: "distinct ?ps"
  proof -
    have "inj_on snd (set (fs_entries ?s))" using fallx_ptr_inj [OF sok] by (auto simp: inj_on_def)
    moreover have "distinct (fs_entries ?s)" using ok(1) by (simp add: distinct_map)
    ultimately show ?thesis by (simp add: fallx_expired_def distinct_map)
  qed
  have m: "map_of (fs_entries ?s) (?key p) = Some p" if "p \<in> set ?ps" for p
    using that ok(1,3) by (auto simp: fallx_expired_def)
  have hit: "k \<in> ?key ` set ?ps \<longleftrightarrow> (\<exists>e. fallx_getShard k f = i \<and> fallx_find f k = Some e \<and> fe_expiresAt e < now)" for k
  proof
    assume "k \<in> ?key ` set ?ps"
    then obtain p where p: "p \<in> set ?ps" "k = ?key p" by auto
    then have mk: "map_of (fs_entries ?s) k = Some p" using m by simp
    then have "fallx_lookup ?s k \<noteq> None" by (simp add: fallx_lookup_def)
    then have g: "fallx_getShard k f = i" by (rule fallx_cache_okD(2) [OF assms])
    moreover have "fe_expiresAt (fallx_at ?s p) < now" using p(1) by (simp add: fallx_expired_def)
    ultimately show "\<exists>e. fallx_getShard k f = i \<and> fallx_find f k = Some e \<and> fe_expiresAt e < now"
      using mk by (simp add: fallx_find_def fallx_lookup_def)
  next
    assume "\<exists>e. fallx_getShard k f = i \<and> fallx_find f k = Some e \<and> fe_expiresAt e < now"
    then obtain p where p: "map_of (fs_entries ?s) k = Some p" "fe_expiresAt (fallx_at ?s p) < now"
      by (auto simp: fallx_find_def fallx_lookup_def)
    note kp = map_of_SomeD [OF p(1)]
    have "p \<in> set ?ps" using kp p(2) by (force simp: fallx_expired_def)
    then show "k \<in> ?key ` set ?ps" using ok(3) [OF kp] by force
  qed
  have eq: "(\<lambda>k. if k \<in> ?key ` set ?ps then None else fallx_find f k)
      = (\<lambda>k. case fallx_find f k of None \<Rightarrow> None
             | Some e \<Rightarrow> if fallx_getShard k f = i \<and> fe_expiresAt e < now then None else Some e)"
    unfolding hit by (auto simp: fun_eq_iff split: option.split)
  show ?thesis
    using fallx_drops_ok [OF assms dis m] unfolding eq by (simp add: fallx_evictExpired_def)
qed

lemma fallx_sweep_ok:
  assumes "fallx_cache_ok f" and "n \<le> length (ff_shards f)"
  shows "fallx_cache_ok (fold (fallx_evictExpired now) [0..<n] f)
    \<and> fallx_find (fold (fallx_evictExpired now) [0..<n] f)
        = (\<lambda>k. case fallx_find f k of None \<Rightarrow> None
             | Some e \<Rightarrow> if fallx_getShard k f < n \<and> fe_expiresAt e < now then None else Some e)
    \<and> fallx_total (fold (fallx_evictExpired now) [0..<n] f) \<le> fallx_total f
    \<and> (fallx_sized f \<longrightarrow> fallx_sized (fold (fallx_evictExpired now) [0..<n] f))
    \<and> ff_cfg (fold (fallx_evictExpired now) [0..<n] f) = ff_cfg f
    \<and> length (ff_shards (fold (fallx_evictExpired now) [0..<n] f)) = length (ff_shards f)"
  using assms(2)
proof (induction n)
  case 0
  show ?case using assms(1) by (simp add: fun_eq_iff split: option.split)
next
  case (Suc n)
  let ?g = "fold (fallx_evictExpired now) [0..<n] f"
  have ih: "fallx_cache_ok ?g" "fallx_find ?g = (\<lambda>k. case fallx_find f k of None \<Rightarrow> None
             | Some e \<Rightarrow> if fallx_getShard k f < n \<and> fe_expiresAt e < now then None else Some e)"
      "fallx_total ?g \<le> fallx_total f" "fallx_sized f \<longrightarrow> fallx_sized ?g" "ff_cfg ?g = ff_cfg f"
      "length (ff_shards ?g) = length (ff_shards f)"
    using Suc.IH Suc.prems by simp_all
  have l: "n < length (ff_shards ?g)" using ih(6) Suc.prems by simp
  have g: "fallx_getShard k ?g = fallx_getShard k f" for k by (rule fallx_getShard_cong [OF ih(6)])
  have f: "fold (fallx_evictExpired now) [0..<Suc n] f = fallx_evictExpired now n ?g" by simp
  show ?case
    unfolding f using fallx_evictExpired_ok [OF ih(1) l, of now] ih(3-6)
    by (auto simp: ih(2) g fun_eq_iff less_Suc_eq split: option.split)
qed

text \<open>One tick of the cleanup goroutine drops exactly the expired entries.\<close>

lemma fallx_sweep_all:
  assumes "fallx_cache_ok f"
  shows "fallx_cache_ok (fallx_cleanup_tick now f)"
    and "fallx_find (fallx_cleanup_tick now f)
      = (\<lambda>k. case fallx_find f k of None \<Rightarrow> None | Some e \<Rightarrow> if fe_expiresAt e < now then None else Some e)"
    and "fallx_total (fallx_cleanup_tick now f) \<le> fallx_total f"
    and "fallx_sized f \<Longrightarrow> fallx_sized (fallx_cleanup_tick now f)"
    and "ff_cfg (fallx_cleanup_tick now f) = ff_cfg f"
  using fallx_sweep_ok [OF assms order_refl, of now] fallx_getShard_less [OF assms]
  by (auto simp: fallx_cleanup_tick_def fun_eq_iff split: option.split)

text \<open>The coldest of the roots is the coldest entry of the cache.\<close>

lemma fallx_coldest_loop_spec:
  "case fallx_coldest_loop ss i best of
     None \<Rightarrow> best = None \<and> (\<forall>s\<in>set ss. fallx_peek s = None)
   | Some (j, p, t) \<Rightarrow>
       (best = Some (j, p, t) \<or> (i \<le> j \<and> j < i + length ss \<and> fallx_peek (ss ! (j - i)) = Some p \<and> t = fe_lastAccess (fallx_at (ss ! (j - i)) p)))
       \<and> (\<forall>s\<in>set ss. \<forall>q. fallx_peek s = Some q \<longrightarrow> t \<le> fe_lastAccess (fallx_at s q))
       \<and> (\<forall>b. best = Some b \<longrightarrow> t \<le> snd (snd b))"
proof (induction ss i best rule: fallx_coldest_loop.induct)
  case (2 s ss i best)
  let ?best = "case fallx_peek s of
          None \<Rightarrow> best
        | Some p \<Rightarrow>
            (case best of
               None \<Rightarrow> Some (i, p, fe_lastAccess (fallx_at s p))
             | Some (j, q, t) \<Rightarrow>
                 if fe_lastAccess (fallx_at s p) < t then Some (i, p, fe_lastAccess (fallx_at s p)) else Some (j, q, t))"
  show ?case
  proof (cases "fallx_coldest_loop ss (Suc i) ?best")
    case None
    with 2 have "?best = None \<and> (\<forall>s\<in>set ss. fallx_peek s = None)" by simp
    with None show ?thesis by (auto split: option.splits if_splits)
  next
    case (Some r)
    obtain j p t where r: "r = (j, p, t)" by (cases r)
    have a: "?best = Some (j, p, t) \<or> (Suc i \<le> j \<and> j < Suc i + length ss \<and> fallx_peek (ss ! (j - Suc i)) = Some p
          \<and> t = fe_lastAccess (fallx_at (ss ! (j - Suc i)) p))"
      and b: "\<forall>s\<in>set ss. \<forall>q. fallx_peek s = Some q \<longrightarrow> t \<le> fe_lastAccess (fallx_at s q)"
      and c: "\<forall>b. ?best = Some b \<longrightarrow> t \<le> snd (snd b)"
      using 2 Some r by simp_all
    have nth: "(s # ss) ! (j - i) = ss ! (j - Suc i)" if "Suc i \<le> j"
      using that Suc_diff_le [of "Suc i" j] by (simp add: nth_Cons')
    have "best = Some (j, p, t) \<or> (i \<le> j \<and> j < i + length (s # ss) \<and> fallx_peek ((s # ss) ! (j - i)) = Some p
          \<and> t = fe_lastAccess (fallx_at ((s # ss) ! (j - i)) p))"
      using a nth by (auto split: option.splits if_splits)
    moreover have "t \<le> fe_lastAccess (fallx_at s q)" if "fallx_peek s = Some q" for q
      using c that by (auto split: option.splits if_splits)
    moreover have "t \<le> snd (snd b)" if "best = Some b" for b
      using c that by (cases b) (auto split: option.splits if_splits)
    ultimately show ?thesis using b Some r by auto
  qed
qed (auto split: option.split)

lemma fallx_coldest_spec:
  assumes "fallx_cache_ok f"
  shows "case fallx_coldestEntry f of
      None \<Rightarrow> fallx_total f = 0
    | Some (i, p) \<Rightarrow> i < length (ff_shards f)
        \<and> map_of (fs_entries (ff_shards f ! i)) (fe_key (fallx_at (ff_shards f ! i) p)) = Some p
        \<and> (\<forall>k e. fallx_find f k = Some e \<longrightarrow> fe_lastAccess (fallx_at (ff_shards f ! i) p) \<le> fe_lastAccess e)"
proof (cases "fallx_coldest_loop (ff_shards f) 0 None")
  case None
  have "fs_entries s = []" if ms: "s \<in> set (ff_shards f)" for s
  proof -
    from ms obtain j where j: "j < length (ff_shards f)" "ff_shards f ! j = s" unfolding in_set_conv_nth by blast
    have "fallx_peek s = None" using fallx_coldest_loop_spec [where ss = "ff_shards f" and i = 0 and best = None] None ms by simp
    then show ?thesis using fallx_peek_None [OF fallx_cache_okD(1) [OF assms j(1)]] j(2) by simp
  qed
  then have "map (\<lambda>s. int (length (fs_entries s))) (ff_shards f) = map (\<lambda>s. 0) (ff_shards f)" by simp
  then have "fallx_total f = 0" unfolding fallx_total_def by (simp only: sum_list_0)
  with None show ?thesis by (simp add: fallx_coldestEntry_def)
next
  case (Some r)
  obtain i p t where r: "r = (i, p, t)" by (cases r)
  have sp: "i < length (ff_shards f)" "fallx_peek (ff_shards f ! i) = Some p" "t = fe_lastAccess (fallx_at (ff_shards f ! i) p)"
      "\<forall>s\<in>set (ff_shards f). \<forall>q. fallx_peek s = Some q \<longrightarrow> t \<le> fe_lastAccess (fallx_at s q)"
    using fallx_coldest_loop_spec [where ss = "ff_shards f" and i = 0 and best = None] Some r by auto
  have "t \<le> fe_lastAccess e" if e: "fallx_find f k = Some e" for k e
  proof -
    let ?j = "fallx_getShard k f"
    have j: "?j < length (ff_shards f)" by (rule fallx_getShard_less [OF assms])
    note ok = fallx_cache_okD(1) [OF assms j]
    have lk: "fallx_lookup (ff_shards f ! ?j) k = Some e" using e by (simp add: fallx_find_def)
    then have "fs_entries (ff_shards f ! ?j) \<noteq> []" by (auto simp: fallx_lookup_def)
    then obtain q where q: "fallx_peek (ff_shards f ! ?j) = Some q" using fallx_peek_None [OF ok] by auto
    have "t \<le> fe_lastAccess (fallx_at (ff_shards f ! ?j) q)" using sp(4) j q by auto
    also have "\<dots> \<le> fe_lastAccess e" by (rule fallx_peek_coldest(2) [OF ok q lk])
    finally show ?thesis .
  qed
  with sp(1-3) fallx_peek_coldest(1) [OF fallx_cache_okD(1) [OF assms sp(1)] sp(2)] show ?thesis
    by (simp add: fallx_coldestEntry_def Some r)
qed

text \<open>The loop stops at the bound, and has dropped only entries colder than those it kept.\<close>

lemma fallx_evict_loop_ok:
  assumes "fallx_cache_ok f" and "fallx_sized f"
  shows "fallx_cache_ok (fallx_evict_loop f) \<and> fallx_sized (fallx_evict_loop f) \<and> ff_cfg (fallx_evict_loop f) = ff_cfg f
    \<and> fallx_find (fallx_evict_loop f) \<subseteq>\<^sub>m fallx_find f
    \<and> fallx_total (fallx_evict_loop f)
        = (if 0 < fc_maxCacheSize (ff_cfg f) then min (fc_maxCacheSize (ff_cfg f)) (fallx_total f) else fallx_total f)
    \<and> (\<forall>k e k' e'. fallx_find f k = Some e \<longrightarrow> fallx_find (fallx_evict_loop f) k = None
          \<longrightarrow> fallx_find (fallx_evict_loop f) k' = Some e' \<longrightarrow> fe_lastAccess e \<le> fe_lastAccess e')"
  using assms
proof (induction f rule: fallx_evict_loop.induct)
  case (1 f)
  let ?max = "fc_maxCacheSize (ff_cfg f)"
  show ?case
  proof (cases "0 < ?max \<and> ?max < ff_cacheSize f")
    case False
    then have "fallx_evict_loop f = f" by (subst fallx_evict_loop.simps) auto
    with 1 False show ?thesis by (auto simp: fallx_sized_def)
  next
    case True
    have pos: "?max < fallx_total f" using True 1(3) by (simp add: fallx_sized_def)
    obtain i p where c: "fallx_coldestEntry f = Some (i, p)"
      using fallx_coldest_spec [OF 1(2)] pos True by (cases "fallx_coldestEntry f") auto
    let ?key = "fe_key (fallx_at (ff_shards f ! i) p)" and ?g = "fallx_drop i p f"
    have sp: "i < length (ff_shards f)" "map_of (fs_entries (ff_shards f ! i)) ?key = Some p"
        "\<forall>k e. fallx_find f k = Some e \<longrightarrow> fe_lastAccess (fallx_at (ff_shards f ! i) p) \<le> fe_lastAccess e"
      using fallx_coldest_spec [OF 1(2)] c by simp_all
    note d = fallx_drop_ok [OF 1(2) sp(1,2)]
    have ev: "fallx_evict_loop f = fallx_evict_loop ?g" using True c sp(2) by (subst fallx_evict_loop.simps) simp
    let ?h = "fallx_evict_loop ?g" and ?m = "(fallx_find f)(?key := None)"
    have mx: "min ?max (fallx_total f - 1) = min ?max (fallx_total f)" using pos by simp
    have ih0: "fallx_cache_ok ?h \<and> fallx_sized ?h \<and> ff_cfg ?h = ff_cfg f \<and> fallx_find ?h \<subseteq>\<^sub>m ?m
        \<and> fallx_total ?h = (if 0 < ?max then min ?max (fallx_total f - 1) else fallx_total f - 1)
        \<and> (\<forall>k e k' e'. ?m k = Some e \<longrightarrow> fallx_find ?h k = None \<longrightarrow> fallx_find ?h k' = Some e' \<longrightarrow> fe_lastAccess e \<le> fe_lastAccess e')"
      using 1(1) [OF True c refl sp(2) d(1) d(4) [OF 1(3)]] unfolding d(2,3,5) .
    then have ih: "fallx_cache_ok ?h" "fallx_sized ?h" "ff_cfg ?h = ff_cfg f" "fallx_find ?h \<subseteq>\<^sub>m ?m" by blast+
    have ihc: "\<And>k e k' e'. ?m k = Some e \<Longrightarrow> fallx_find ?h k = None \<Longrightarrow> fallx_find ?h k' = Some e' \<Longrightarrow> fe_lastAccess e \<le> fe_lastAccess e'"
      using ih0 by blast
    have tot: "fallx_total ?h = min ?max (fallx_total f)" using ih0 True mx by simp
    have "?m \<subseteq>\<^sub>m fallx_find f" by (simp add: map_le_def)
    with ih(4) have sub: "fallx_find ?h \<subseteq>\<^sub>m fallx_find f" by (rule map_le_trans)
    have gk: "fallx_getShard ?key f = i"
      by (rule fallx_cache_okD(2) [OF 1(2) sp(1)]) (simp add: fallx_lookup_def sp(2))
    have cold: "fe_lastAccess e \<le> fe_lastAccess e'"
      if "fallx_find f k = Some e" "fallx_find ?h k = None" "fallx_find ?h k' = Some e'" for k e k' e'
    proof (cases "k = ?key")
      case True
      have "e = (fallx_at (ff_shards f ! i) p)\<lparr>fe_heapIndex := 0\<rparr>"
        using that(1) True gk sp(2) by (auto simp: fallx_find_def fallx_lookup_def)
      moreover have "fallx_find f k' = Some e'" using sub that(3) by (metis domI map_le_def)
      ultimately show ?thesis using sp(3) by simp
    next
      case False
      then have "?m k = Some e" using that(1) by simp
      from ihc [OF this that(2,3)] show ?thesis .
    qed
    have "fallx_total ?h = (if 0 < ?max then min ?max (fallx_total f) else fallx_total f)" using tot True by simp
    then show ?thesis unfolding ev using ih(1-3) sub cold by blast
  qed
qed

end
