(* ===== verification/Fallx_Props.thy ===== *)
theory Fallx_Props
  imports Fallx_Cache
begin

text \<open>
  Package \<open>fallx\<close>, part four: what the operations of the cache do to its map, the invariant that every call keeps, and the replay of
  \<open>StrategyCached\<close>.
\<close>

section \<open>Eviction and storing\<close>

lemma fallx_total_pos:
  assumes "fallx_cache_ok f" and "fallx_find f k = Some e"
  shows "0 < fallx_total f"
proof -
  let ?s = "ff_shards f ! fallx_getShard k f"
  have "?s \<in> set (ff_shards f)" using fallx_getShard_less [OF assms(1)] by simp
  then have "int (length (fs_entries ?s)) \<le> fallx_total f"
    unfolding fallx_total_def by (intro member_le_sum_list) auto
  moreover have "fs_entries ?s \<noteq> []" using assms(2) by (auto simp: fallx_find_def fallx_lookup_def)
  ultimately show ?thesis by (cases "fs_entries ?s") simp_all
qed

lemma fallx_total_find:
  assumes "fallx_cache_ok f" and "0 < fallx_total f"
  obtains k e where "fallx_find f k = Some e"
proof -
  have "\<exists>s\<in>set (ff_shards f). fs_entries s \<noteq> []"
  proof (rule ccontr)
    assume "\<not> (\<exists>s\<in>set (ff_shards f). fs_entries s \<noteq> [])"
    then have "map (\<lambda>s. int (length (fs_entries s))) (ff_shards f) = map (\<lambda>s. 0) (ff_shards f)" by simp
    then have "fallx_total f = 0" unfolding fallx_total_def by (simp only: sum_list_0)
    with assms(2) show False by simp
  qed
  then obtain i where i: "i < length (ff_shards f)" "fs_entries (ff_shards f ! i) \<noteq> []" by (auto simp: in_set_conv_nth)
  obtain k p where kp: "(k, p) \<in> set (fs_entries (ff_shards f ! i))" using i(2) by (cases "fs_entries (ff_shards f ! i)") auto
  then have "map_of (fs_entries (ff_shards f ! i)) k \<noteq> None" by (auto dest: weak_map_of_SomeI)
  then have lk: "fallx_lookup (ff_shards f ! i) k \<noteq> None" by (simp add: fallx_lookup_def)
  then have "fallx_find f k \<noteq> None" using fallx_cache_okD(2) [OF assms(1) i(1) lk] by (simp add: fallx_find_def)
  with that show thesis by blast
qed

text \<open>No operation of the cache opens or closes the fallback.\<close>

lemma fallx_drop_closed [simp]: "ff_closed (fallx_drop i p f) = ff_closed f"
  by (simp add: fallx_drop_def fallx_add_evictions_def fallx_add_size_def fallx_set_shard_def)

lemma fallx_sweep_closed [simp]: "ff_closed (fold (fallx_evictExpired now) is f) = ff_closed f"
proof -
  have "ff_closed (fold (fallx_drop i) ps f) = ff_closed f" for i ps f by (induction ps arbitrary: f) simp_all
  then have c: "ff_closed (fallx_evictExpired now i f) = ff_closed f" for i f by (simp only: fallx_evictExpired_def)
  show ?thesis by (induction "is" arbitrary: f) (simp_all add: c)
qed

lemma fallx_evict_loop_closed [simp]: "ff_closed (fallx_evict_loop f) = ff_closed f"
proof (induction f rule: fallx_evict_loop.induct)
  case (1 f)
  then show ?case by (subst fallx_evict_loop.simps) (simp add: fallx_syncCacheSize_def split: option.split)
qed

lemma fallx_cacheResult_closed [simp]: "ff_closed (fallx_cacheResult key v ttl now te f) = ff_closed f"
  by (simp add: fallx_cacheResult_def Let_def fallx_evictIfNeeded_def fallx_add_size_def fallx_set_shard_def split: prod.split bool.split)

lemma fallx_evictIfNeeded_ok:
  assumes "fallx_cache_ok f" and "fallx_sized f" and "g = fallx_evictIfNeeded now f"
  shows "fallx_cache_ok g" and "fallx_sized g" and "ff_cfg g = ff_cfg f" and "fallx_find g \<subseteq>\<^sub>m fallx_find f"
    and "0 < fc_maxCacheSize (ff_cfg f) \<Longrightarrow> fallx_total g \<le> fc_maxCacheSize (ff_cfg f)"
    and "fc_maxCacheSize (ff_cfg f) \<le> 0 \<or> fallx_total f \<le> fc_maxCacheSize (ff_cfg f) \<Longrightarrow> g = f"
    and "fallx_find f k = Some e \<Longrightarrow> fallx_find g k = None \<Longrightarrow> fallx_find g k' = Some e'
      \<Longrightarrow> fe_expiresAt e < now \<or> fe_lastAccess e \<le> fe_lastAccess e'"
    and "0 < fc_maxCacheSize (ff_cfg f) \<Longrightarrow> fc_maxCacheSize (ff_cfg f) < fallx_total f
      \<Longrightarrow> fallx_total g = min (fc_maxCacheSize (ff_cfg f)) (fallx_total (fallx_cleanup_tick now f))"
proof -
  let ?max = "fc_maxCacheSize (ff_cfg f)" and ?s = "fallx_cleanup_tick now f"
  have size: "ff_cacheSize f = fallx_total f" using assms(2) by (simp add: fallx_sized_def)
  note sw = fallx_sweep_all [OF assms(1), of now]
  note ev = fallx_evict_loop_ok [OF sw(1) sw(4) [OF assms(2)], unfolded sw(5)]
  have g: "g = (if ?max \<le> 0 \<or> fallx_total f \<le> ?max then f else fallx_evict_loop ?s)"
    by (simp add: assms(3) fallx_evictIfNeeded_def fallx_cleanup_tick_def size)
  have sub: "fallx_find ?s \<subseteq>\<^sub>m fallx_find f" by (auto simp: map_le_def sw(2) dom_def split: option.splits if_splits)
  show "fallx_cache_ok g" "fallx_sized g" "ff_cfg g = ff_cfg f" using assms(1,2) ev by (simp_all add: g)
  show "fallx_find g \<subseteq>\<^sub>m fallx_find f" using ev sub by (auto simp: g intro: map_le_trans)
  show "0 < ?max \<Longrightarrow> fallx_total g \<le> ?max" using ev by (auto simp: g)
  show "?max \<le> 0 \<or> fallx_total f \<le> ?max \<Longrightarrow> g = f" by (simp add: g)
  show "0 < ?max \<Longrightarrow> ?max < fallx_total f \<Longrightarrow> fallx_total g = min ?max (fallx_total ?s)" using ev by (auto simp: g)
  assume k: "fallx_find f k = Some e" "fallx_find g k = None" "fallx_find g k' = Some e'"
  show "fe_expiresAt e < now \<or> fe_lastAccess e \<le> fe_lastAccess e'"
  proof (cases "fe_expiresAt e < now")
    case False
    from k(1,2) have "g \<noteq> f" by auto
    then have gs: "g = fallx_evict_loop ?s" by (auto simp: g split: if_splits)
    have "fallx_find ?s k = Some e" using k(1) False by (simp add: sw(2))
    with ev k(2,3) show ?thesis unfolding gs by blast
  qed simp
qed

text \<open>The value the cache keeps, and hands out, is the clone of what it is given.\<close>

definition fallx_cloned :: "'v fallx_Fallback \<Rightarrow> 'v \<Rightarrow> 'v" where
  "fallx_cloned f v = (case fc_clone (ff_cfg f) of None \<Rightarrow> v | Some cl \<Rightarrow> cl v)"

lemma fallx_cacheResult_ok:
  assumes "fallx_cache_ok f" and "fallx_sized f" and "fallx_total f + 1 < 2 ^ 63"
    and "g = fallx_cacheResult key v ttl now te f" and "e = fallx_new_entry key (fallx_cloned f v) now ttl"
  shows "fallx_cache_ok g" and "fallx_sized g" and "ff_cfg g = ff_cfg f"
    and "fallx_find g \<subseteq>\<^sub>m (fallx_find f)(key \<mapsto> e)"
    and "0 < fc_maxCacheSize (ff_cfg f) \<Longrightarrow> fallx_total f \<le> fc_maxCacheSize (ff_cfg f) \<Longrightarrow> fallx_total g \<le> fc_maxCacheSize (ff_cfg f)"
    and "fallx_find f key \<noteq> None \<or> fallx_total f < fc_maxCacheSize (ff_cfg f) \<Longrightarrow> fallx_find g = (fallx_find f)(key \<mapsto> e)"
    and "((fallx_find f)(key \<mapsto> e)) k = Some d \<Longrightarrow> fallx_find g k = None \<Longrightarrow> fallx_find g k' = Some e'
      \<Longrightarrow> fe_expiresAt d < te \<or> fe_lastAccess d \<le> fe_lastAccess e'"
    and "te \<le> now + ttl \<Longrightarrow> 0 < fallx_total g"
proof -
  let ?max = "fc_maxCacheSize (ff_cfg f)"
  define i where "i = fallx_getShard key f"
  define s where "s = fst (fallx_store key (fallx_cloned f v) now ttl (ff_shards f ! i))"
  define h where "h = fallx_set_shard i s f"
  have i: "i < length (ff_shards f)" unfolding i_def by (rule fallx_getShard_less [OF assms(1)])
  note cok = fallx_cache_okD [OF assms(1) i]
  note st = fallx_store_ok [OF cok(1), of key "fallx_cloned f v" now ttl, folded s_def]
  have sh: "ff_shards h = (ff_shards f)[i := s]" by (simp add: h_def)
  have place: "fallx_getShard k f = i" if "fallx_lookup s k \<noteq> None" for k
    using that cok(2) [of k] by (cases "k = key") (simp_all add: st(2) i_def)
  note rep = fallx_replace [OF assms(1) i sh st(1) place]
  have find: "fallx_find h = (fallx_find f)(key \<mapsto> e)"
    using rep(2) by (auto simp: fun_eq_iff st(2) assms(5) i_def fallx_find_def)
  have new: "fallx_lookup (ff_shards f ! i) key = fallx_find f key" by (simp add: fallx_find_def i_def)
  have tot: "fallx_total h = fallx_total f + (if fallx_find f key = None then 1 else 0)"
    using rep(3) by (simp add: st(4) new)
  have cfg: "ff_cfg h = ff_cfg f" by (simp add: h_def)
  define h1 where "h1 = (if fallx_find f key = None then fallx_add_size 1 h else h)"
  have h1: "ff_shards h1 = ff_shards h" "ff_cfg h1 = ff_cfg f" by (simp_all add: h1_def cfg)
  note cg = fallx_cong [OF h1(1)]
  have ok1: "fallx_cache_ok h1" using rep(1) by (simp add: cg)
  have size: "ff_cacheSize f = fallx_total f" using assms(2) by (simp add: fallx_sized_def)
  have sz1: "fallx_sized h1"
    using assms(2,3) fallx_total_nonneg [of f] unfolding fallx_sized_def cg(3) tot by (simp add: h1_def h_def size)
  have g: "g = (if fallx_find f key = None then fallx_evictIfNeeded te h1 else h1)"
  proof (cases "fallx_find f key = None")
    case True
    then have "fallx_store key (fallx_cloned f v) now ttl (ff_shards f ! i) = (s, True)" using st(3) by (simp add: s_def new prod_eq_iff)
    with True show ?thesis
      by (auto simp: assms(4) fallx_cacheResult_def fallx_cloned_def Let_def i_def h_def h1_def fallx_evictIfNeeded_def)
  next
    case False
    then have "fallx_store key (fallx_cloned f v) now ttl (ff_shards f ! i) = (s, False)" using st(3) by (simp add: s_def new prod_eq_iff)
    with False show ?thesis by (auto simp: assms(4) fallx_cacheResult_def fallx_cloned_def Let_def i_def h_def h1_def)
  qed
  note ev = fallx_evictIfNeeded_ok [where now = te, OF ok1 sz1 refl, unfolded h1(2) cg(2,3) find]
  show "fallx_cache_ok g" "fallx_sized g" "ff_cfg g = ff_cfg f" using ok1 sz1 h1(2) ev(1-3) by (simp_all add: g)
  show "fallx_find g \<subseteq>\<^sub>m (fallx_find f)(key \<mapsto> e)" using ev(4) by (simp add: g cg(2) find)
  show "fallx_total g \<le> ?max" if "0 < ?max" "fallx_total f \<le> ?max" using ev(5) that tot by (simp add: g cg(3))
  show "fallx_find g = (fallx_find f)(key \<mapsto> e)" if "fallx_find f key \<noteq> None \<or> fallx_total f < ?max"
  proof (cases "fallx_find f key = None")
    case True
    with that have "fallx_total h \<le> ?max" by (simp add: tot)
    then have "g = h1" using True ev(6) by (simp add: g)
    then show ?thesis by (simp add: cg(2) find)
  qed (auto simp: g cg(2) find)
  show "0 < fallx_total g" if "te \<le> now + ttl"
  proof (cases "fallx_find f key = None \<and> 0 < ?max \<and> ?max < fallx_total h")
    case True
    have sw: "fallx_find (fallx_cleanup_tick te h1) key = Some e"
      using that by (simp add: fallx_sweep_all(2) [OF ok1] cg(2) find assms(5) fallx_new_entry_def)
    have "0 < fallx_total (fallx_cleanup_tick te h1)" by (rule fallx_total_pos [OF fallx_sweep_all(1) [OF ok1] sw])
    with ev(8) True show ?thesis by (simp add: g)
  next
    case False
    have "fallx_find h key = Some e" unfolding find by simp
    with rep(1) have "0 < fallx_total h" by (rule fallx_total_pos)
    moreover from False have "g = h1" using ev(6) by (auto simp: g)
    ultimately show ?thesis by (simp add: cg(3))
  qed
  assume d: "((fallx_find f)(key \<mapsto> e)) k = Some d" "fallx_find g k = None" "fallx_find g k' = Some e'"
  then have "fallx_find f key = None" by (cases "fallx_find f key = None") (auto simp: g cg(2) find split: if_splits)
  then show "fe_expiresAt d < te \<or> fe_lastAccess d \<le> fe_lastAccess e'" using ev(7) [OF d(1)] d(2,3) by (simp add: g)
qed

section \<open>Lookup\<close>

lemma fallx_getCachedResult_ok:
  assumes "fallx_cache_ok f" and "fallx_sized f" and "fallx_getCachedResult key now f = (g, r)"
  shows "fallx_cache_ok g" and "fallx_sized g" and "ff_cfg g = ff_cfg f" and "fallx_total g \<le> fallx_total f"
    and "case fallx_find f key of None \<Rightarrow> g = f \<and> r = None
       | Some e \<Rightarrow> if fe_expiresAt e < now then fallx_find g = (fallx_find f)(key := None) \<and> r = None
                   else fallx_find g = (fallx_find f)(key \<mapsto> e\<lparr>fe_lastAccess := now\<rparr>) \<and> r = Some (fallx_cloned f (fe_value e))"
proof -
  let ?i = "fallx_getShard key f" let ?s = "ff_shards f ! ?i"
  have i: "?i < length (ff_shards f)" by (rule fallx_getShard_less [OF assms(1)])
  note cok = fallx_cache_okD [OF assms(1) i]
  have "fallx_cache_ok g \<and> fallx_sized g \<and> ff_cfg g = ff_cfg f \<and> fallx_total g \<le> fallx_total f \<and>
    (case fallx_find f key of None \<Rightarrow> g = f \<and> r = None
       | Some e \<Rightarrow> if fe_expiresAt e < now then fallx_find g = (fallx_find f)(key := None) \<and> r = None
                   else fallx_find g = (fallx_find f)(key \<mapsto> e\<lparr>fe_lastAccess := now\<rparr>) \<and> r = Some (fallx_cloned f (fe_value e)))"
  proof (cases "map_of (fs_entries ?s) key")
    case None
    then have "fallx_find f key = None" by (simp add: fallx_find_def fallx_lookup_def)
    moreover have "g = f" "r = None" using assms(3) None by (simp_all add: fallx_getCachedResult_def Let_def)
    ultimately show ?thesis using assms(1,2) by simp
  next
    case (Some p)
    let ?e = "(fallx_at ?s p)\<lparr>fe_heapIndex := 0\<rparr>"
    have fd: "fallx_find f key = Some ?e" by (simp add: fallx_find_def fallx_lookup_def Some)
    show ?thesis
    proof (cases "fe_expiresAt ?e < now")
      case True
      then have "g = fallx_drop ?i p f" "r = None" using assms(3) Some by (simp_all add: fallx_getCachedResult_def Let_def)
      with fallx_drop_ok [OF assms(1) i Some] True fd assms(2) show ?thesis by simp
    next
      case False
      let ?t = "fallx_touch p now ?s"
      have gr: "g = fallx_set_shard ?i ?t f" "r = Some (fallx_cloned f (fe_value (fallx_at ?t p)))"
        using assms(3) Some False by (simp_all add: fallx_getCachedResult_def Let_def fallx_cloned_def)
      note t = fallx_touch_ok [OF cok(1) Some, of now]
      have sh: "ff_shards g = (ff_shards f)[?i := ?t]" by (simp add: gr)
      have place: "fallx_getShard k f = ?i" if "fallx_lookup ?t k \<noteq> None" for k
        using that cok(2) [of k] by (cases "k = key") (simp_all add: t(2))
      note rep = fallx_replace [OF assms(1) i sh t(1) place]
      have "fallx_find g = (fallx_find f)(key \<mapsto> ?e\<lparr>fe_lastAccess := now\<rparr>)"
        using rep(2) by (auto simp: fun_eq_iff t(2) fallx_find_def)
      then show ?thesis
        using rep(1,3) False fd assms(2) by (simp add: gr fallx_sized_def t)
    qed
  qed
  then show "fallx_cache_ok g" "fallx_sized g" "ff_cfg g = ff_cfg f" "fallx_total g \<le> fallx_total f"
    "case fallx_find f key of None \<Rightarrow> g = f \<and> r = None
       | Some e \<Rightarrow> if fe_expiresAt e < now then fallx_find g = (fallx_find f)(key := None) \<and> r = None
                   else fallx_find g = (fallx_find f)(key \<mapsto> e\<lparr>fe_lastAccess := now\<rparr>) \<and> r = Some (fallx_cloned f (fe_value e))"
    by blast+
qed

section \<open>The invariant of the calls\<close>

definition fallx_inv :: "'v fallx_Fallback \<Rightarrow> bool" where
  "fallx_inv f \<longleftrightarrow> fallx_cache_ok f \<and> fallx_sized f \<and> fallx_total f \<le> fc_maxCacheSize (ff_cfg f)
     \<and> 0 < fc_maxCacheSize (ff_cfg f) \<and> fc_maxCacheSize (ff_cfg f) + 1 < 2 ^ 63 \<and> fc_strategy (ff_cfg f) = fallx_StrategyCached"

lemma fallx_inv_cong:
  "ff_shards g = ff_shards f \<Longrightarrow> ff_cacheSize g = ff_cacheSize f \<Longrightarrow> ff_cfg g = ff_cfg f \<Longrightarrow> fallx_inv g = fallx_inv f"
  using fallx_cong(1,3) [of g f] by (simp add: fallx_inv_def fallx_sized_def)

lemma fallx_inv_keep:
  "fallx_inv f \<Longrightarrow> ff_shards g = ff_shards f \<Longrightarrow> ff_cacheSize g = ff_cacheSize f \<Longrightarrow> ff_cfg g = ff_cfg f \<Longrightarrow> fallx_inv g"
  using fallx_inv_cong [of g f] by blast

lemma fallx_inv_cacheResult: "fallx_inv f \<Longrightarrow> fallx_inv (fallx_cacheResult key v ttl now te f)"
proof -
  assume inv: "fallx_inv f"
  then have "fallx_cache_ok f" "fallx_sized f" "fallx_total f + 1 < 2 ^ 63" by (auto simp: fallx_inv_def)
  from fallx_cacheResult_ok(1,2,3,5) [OF this refl refl, of key v ttl now te] inv show ?thesis by (simp add: fallx_inv_def)
qed

lemma fallx_inv_getCachedResult: "fallx_inv f \<Longrightarrow> fallx_getCachedResult key now f = (g, r) \<Longrightarrow> fallx_inv g"
  using fallx_getCachedResult_ok(1-4) [of f key now g r] by (simp add: fallx_inv_def)

lemma fallx_inv_tick: "fallx_inv f \<Longrightarrow> fallx_inv (fallx_cleanup_tick now f)"
  using fallx_sweep_all(1,3,4,5) [of f now] by (simp add: fallx_inv_def)

lemma fallx_shard_ok_empty: "fs_entries s = [] \<Longrightarrow> fs_lru s = [] \<Longrightarrow> fallx_shard_ok s"
  by (simp add: fallx_shard_ok_def fallx_indexed_def heap_ok_def)

lemma fallx_empty_ok:
  assumes "0 < length (ff_shards f)" and "length (ff_shards f) < 2 ^ 32"
    and "\<And>s. s \<in> set (ff_shards f) \<Longrightarrow> fs_entries s = [] \<and> fs_lru s = []"
  shows "fallx_cache_ok f" and "fallx_find f = (\<lambda>_. None)" and "fallx_total f = 0"
proof -
  have e: "fs_entries (ff_shards f ! i) = [] \<and> fs_lru (ff_shards f ! i) = []" if "i < length (ff_shards f)" for i
    using assms(3) that by simp
  show ok: "fallx_cache_ok f" using assms(1,2) e by (simp add: fallx_cache_ok_def fallx_shard_ok_empty fallx_lookup_def)
  show "fallx_find f = (\<lambda>_. None)" using e [OF fallx_getShard_less [OF ok]] by (simp add: fallx_find_def fallx_lookup_def fun_eq_iff)
  have "map (\<lambda>s. int (length (fs_entries s))) (ff_shards f) = map (\<lambda>s. 0) (ff_shards f)" using assms(3) by simp
  then show "fallx_total f = 0" unfolding fallx_total_def by (simp only: sum_list_0)
qed

lemma fallx_clear_ok:
  assumes "fallx_cache_ok f" and "\<not> ff_closed f" and "fc_strategy (ff_cfg f) = fallx_StrategyCached" and "g = fallx_ClearCache f"
  shows "fallx_cache_ok g" and "fallx_find g = (\<lambda>_. None)" and "fallx_total g = 0" and "ff_cacheSize g = 0" and "ff_cfg g = ff_cfg f"
proof -
  have sh: "ff_shards g = map fallx_clear (ff_shards f)" and cfg: "ff_cfg g = ff_cfg f" and sz: "ff_cacheSize g = fallx_total g"
    using assms by (simp_all add: fallx_ClearCache_def fallx_syncCacheSize_def fallx_cache_ok_def fallx_total_def)
  have n: "0 < length (ff_shards g)" "length (ff_shards g) < 2 ^ 32" using assms(1) by (simp_all add: sh fallx_cache_ok_def)
  have "s \<in> set (ff_shards g) \<Longrightarrow> fs_entries s = [] \<and> fs_lru s = []" for s by (auto simp: sh fallx_clear_def)
  note e = fallx_empty_ok [OF n this]
  show "fallx_cache_ok g" "fallx_find g = (\<lambda>_. None)" "fallx_total g = 0" by (rule e, simp)+
  with sz cfg show "ff_cacheSize g = 0" "ff_cfg g = ff_cfg f" by simp_all
qed

lemma fallx_inv_clear: "fallx_inv f \<Longrightarrow> fallx_inv (fallx_ClearCache f)"
proof (cases "ff_closed f")
  case False
  assume "fallx_inv f"
  then show ?thesis using fallx_clear_ok [of f "fallx_ClearCache f"] False by (simp add: fallx_inv_def fallx_sized_def)
qed (simp add: fallx_ClearCache_def)

text \<open>The calls of a client and the ticks of the cleanup goroutine; a primary function is what it returns.\<close>

datatype 'v fallx_call =
  FC_Execute fallx_clock string "'v outcome"
| FC_Seed string 'v int int
| FC_SeedWithTTL string 'v int int int
| FC_Clear
| FC_Tick int
| FC_ResetStats
| FC_Close

fun fallx_step :: "'v \<Rightarrow> 'v fallx_call \<Rightarrow> 'v fallx_Fallback \<Rightarrow> 'v fallx_Fallback" where
  "fallx_step zero (FC_Execute ck key out) f = fst (fallx_ExecuteWithKey zero ck key (Some (\<lambda>_ f. (f, out))) f)"
| "fallx_step zero (FC_Seed key v now te) f = fallx_Seed key v now te f"
| "fallx_step zero (FC_SeedWithTTL key v ttl now te) f = fallx_SeedWithTTL key v ttl now te f"
| "fallx_step zero FC_Clear f = fallx_ClearCache f"
| "fallx_step zero (FC_Tick now) f = fallx_cleanup_tick now f"
| "fallx_step zero FC_ResetStats f = fallx_ResetStats f"
| "fallx_step zero FC_Close f = fallx_Close f"

lemma fallx_fire_frame [simp]:
  "ff_shards (fallx_fireOnFallback e f) = ff_shards f" "ff_cfg (fallx_fireOnFallback e f) = ff_cfg f"
  "ff_cacheSize (fallx_fireOnFallback e f) = ff_cacheSize f" "ff_closed (fallx_fireOnFallback e f) = ff_closed f"
  by (simp_all add: fallx_fireOnFallback_def split: option.split)

lemma fallx_counter_frame [simp]:
  "ff_shards (fallx_ok f) = ff_shards f" "ff_cfg (fallx_ok f) = ff_cfg f" "ff_cacheSize (fallx_ok f) = ff_cacheSize f"
  "ff_shards (fallx_failed f) = ff_shards f" "ff_cfg (fallx_failed f) = ff_cfg f" "ff_cacheSize (fallx_failed f) = ff_cacheSize f"
  by (simp_all add: fallx_ok_def fallx_failed_def)

text \<open>The fallback of \<open>StrategyCached\<close> is the lookup.\<close>

lemma fallx_fallback_cached:
  assumes "fc_strategy (ff_cfg f) = fallx_StrategyCached"
    and "fallx_getCachedResult (fx_key fc) now (fallx_fireOnFallback e (f\<lparr>ff_fallbackUsed := wrap_i64 (ff_fallbackUsed f + 1)\<rparr>)) = (g, r)"
  shows "fallx_fallback zero now fc e f =
    (case r of Some v \<Rightarrow> (fallx_ok (g\<lparr>ff_cacheHits := wrap_i64 (ff_cacheHits g + 1)\<rparr>), v, None)
     | None \<Rightarrow> (fallx_failed (g\<lparr>ff_cacheMisses := wrap_i64 (ff_cacheMisses g + 1)\<rparr>), zero, Some (fallx_errNoCached (fx_key fc))))"
  using assms by (simp add: fallx_fallback_def Let_def fallx_strategies split: option.split)

lemma fallx_inv_fallback:
  assumes "fallx_inv f"
  shows "fallx_inv (fst (fallx_fallback zero now fc e f))"
proof -
  let ?f = "fallx_fireOnFallback e (f\<lparr>ff_fallbackUsed := wrap_i64 (ff_fallbackUsed f + 1)\<rparr>)"
  have "fallx_inv ?f" by (rule fallx_inv_keep [OF assms]) simp_all
  moreover obtain g r where g: "fallx_getCachedResult (fx_key fc) now ?f = (g, r)" by (cases "fallx_getCachedResult (fx_key fc) now ?f")
  ultimately have inv: "fallx_inv g" by (rule fallx_inv_getCachedResult)
  have cached: "fc_strategy (ff_cfg f) = fallx_StrategyCached" using assms by (simp add: fallx_inv_def)
  show ?thesis
    unfolding fallx_fallback_cached [OF cached g] by (auto split: option.split intro: fallx_inv_keep [OF inv])
qed

lemma fallx_inv_step:
  assumes "fallx_inv f"
  shows "fallx_inv (fallx_step zero c f)"
proof (cases c)
  case (FC_Execute ck key out)
  let ?f = "f\<lparr>ff_calls := wrap_i64 (ff_calls f + 1)\<rparr>"
  let ?g = "?f\<lparr>ff_primarySuccess := wrap_i64 (ff_primarySuccess ?f + 1)\<rparr>"
  have f: "fallx_inv ?f" and g: "fallx_inv ?g"
    by (rule fallx_inv_keep [OF assms], simp_all)+
  show ?thesis
    using f fallx_inv_cacheResult [OF g] g fallx_inv_fallback [OF f] assms
    by (simp add: FC_Execute fallx_ExecuteWithKey_def Let_def split: prod.split option.split)
next
  case FC_ResetStats
  show ?thesis by (rule fallx_inv_keep [OF assms]) (simp_all add: FC_ResetStats fallx_ResetStats_def)
next
  case FC_Close
  show ?thesis by (rule fallx_inv_keep [OF assms]) (simp_all add: FC_Close fallx_Close_def)
qed (use assms in \<open>simp_all add: fallx_Seed_def fallx_SeedWithTTL_def Let_def fallx_inv_cacheResult fallx_inv_clear fallx_inv_tick\<close>)

lemma fallx_inv_New:
  assumes "fc_strategy (fallx_newConfig zero opts) = fallx_StrategyCached" and "0 < fc_maxCacheSize (fallx_newConfig zero opts)"
    and "fc_maxCacheSize (fallx_newConfig zero opts) + 1 < 2 ^ 63" and "fc_shardCount (fallx_newConfig zero opts) < 2 ^ 32"
  shows "fallx_inv (fallx_New zero opts)"
proof -
  let ?f = "fallx_New zero opts"
  have cfg: "ff_cfg ?f = fallx_newConfig zero opts" by (simp add: fallx_New_def Let_def fallx_initCache_def)
  have pos: "0 < fc_shardCount (fallx_newConfig zero opts)"
    by (auto simp: fallx_newConfig_def Let_def fallx_minShards_def)
  have sh: "ff_shards ?f = replicate (nat (fc_shardCount (fallx_newConfig zero opts))) fallx_newCacheShard"
    using assms(1) by (simp add: fallx_New_def Let_def fallx_initCache_def)
  have sz: "ff_cacheSize ?f = 0" by (simp add: fallx_New_def Let_def fallx_initCache_def)
  have n: "0 < length (ff_shards ?f)" "length (ff_shards ?f) < 2 ^ 32" using pos assms(4) by (simp_all add: sh)
  have "s \<in> set (ff_shards ?f) \<Longrightarrow> fs_entries s = [] \<and> fs_lru s = []" for s by (auto simp: sh fallx_newCacheShard_def)
  note e = fallx_empty_ok [OF n this]
  show ?thesis using e assms(1-3) by (simp add: fallx_inv_def cfg fallx_sized_def sz)
qed

lemma fallx_step_cfg:
  assumes "fallx_inv f"
  shows "ff_cfg (fallx_step zero c f) = ff_cfg f"
proof -
  have ok: "fallx_cache_ok f" "fallx_sized f" "fallx_total f + 1 < 2 ^ 63" "fc_strategy (ff_cfg f) = fallx_StrategyCached"
    using assms by (auto simp: fallx_inv_def)
  note store = fallx_cacheResult_ok(3) [OF ok(1-3) refl refl]
  show ?thesis
  proof (cases c)
    case (FC_Execute ck key out)
    let ?f = "f\<lparr>ff_calls := wrap_i64 (ff_calls f + 1)\<rparr>"
    let ?g = "?f\<lparr>ff_primarySuccess := wrap_i64 (ff_primarySuccess ?f + 1)\<rparr>"
    have f: "fallx_inv ?f" and g: "fallx_inv ?g" by (rule fallx_inv_keep [OF assms], simp_all)+
    have gk: "fallx_cache_ok ?g" "fallx_sized ?g" "fallx_total ?g + 1 < 2 ^ 63" using g by (auto simp: fallx_inv_def)
    have fb: "ff_cfg (fst (fallx_fallback zero (fk_lookup ck) fc e ?f)) = ff_cfg f" for fc e
    proof -
      let ?h = "fallx_fireOnFallback e (?f\<lparr>ff_fallbackUsed := wrap_i64 (ff_fallbackUsed ?f + 1)\<rparr>)"
      obtain h r where h: "fallx_getCachedResult (fx_key fc) (fk_lookup ck) ?h = (h, r)" by (cases "fallx_getCachedResult (fx_key fc) (fk_lookup ck) ?h")
      have "fallx_inv ?h" by (rule fallx_inv_keep [OF f]) simp_all
      then have "fallx_cache_ok ?h" "fallx_sized ?h" by (simp_all add: fallx_inv_def)
      from fallx_getCachedResult_ok(3) [OF this h] have "ff_cfg h = ff_cfg f" by simp
      moreover have "fc_strategy (ff_cfg ?f) = fallx_StrategyCached" using ok(4) by simp
      ultimately show ?thesis unfolding fallx_fallback_cached [OF \<open>fc_strategy (ff_cfg ?f) = fallx_StrategyCached\<close> h]
        by (auto split: option.split)
    qed
    show ?thesis
      using fallx_cacheResult_ok(3) [OF gk refl refl] fb
      by (simp add: FC_Execute fallx_ExecuteWithKey_def Let_def split: prod.split option.split)
  qed (simp_all add: fallx_Seed_def fallx_SeedWithTTL_def Let_def store fallx_ClearCache_def fallx_syncCacheSize_def
      fallx_sweep_all(5) [OF ok(1)] fallx_ResetStats_def fallx_Close_def)
qed

lemma fallx_inv_run: "fallx_inv f \<Longrightarrow> fallx_inv (fold (fallx_step zero) cs f) \<and> ff_cfg (fold (fallx_step zero) cs f) = ff_cfg f"
  by (induction cs arbitrary: f) (simp_all add: fallx_inv_step fallx_step_cfg)

section \<open>Replay\<close>

lemma fallx_Execute_success:
  assumes "fallx_inv f" and "\<not> ff_closed f"
  obtains h where "ff_shards h = ff_shards f" and "ff_cfg h = ff_cfg f" and "fallx_inv h" and "\<not> ff_closed h"
    and "fallx_ExecuteWithKey zero ck key (Some (\<lambda>_ s. (s, Returns v None))) f
      = (fallx_cacheResult key v (fc_cacheTTL (ff_cfg f)) (fk_store ck) (fk_evict ck) h, v, None)"
proof -
  let ?h = "f\<lparr>ff_calls := wrap_i64 (ff_calls f + 1), ff_primarySuccess := wrap_i64 (ff_primarySuccess f + 1)\<rparr>"
  have h: "fallx_inv ?h" by (rule fallx_inv_keep [OF assms(1)]) simp_all
  have c: "fc_strategy (ff_cfg f) = fallx_StrategyCached" using assms(1) by (simp add: fallx_inv_def)
  have "fallx_ExecuteWithKey zero ck key (Some (\<lambda>_ s. (s, Returns v None))) f
      = (fallx_cacheResult key v (fc_cacheTTL (ff_cfg f)) (fk_store ck) (fk_evict ck) ?h, v, None)"
    using assms(2) c by (simp add: fallx_ExecuteWithKey_def Let_def)
  from that [OF _ _ h _ this] assms(2) show thesis by simp
qed

lemma fallx_Execute_failure:
  assumes "fallx_inv f" and "\<not> ff_closed f" and "fc_fallbackIf (ff_cfg f) = None"
    and "panix_Safe zero (fallx_opOrDefault (ff_cfg f)) (Some out) = (r, Some err)"
  shows "snd (fallx_ExecuteWithKey zero ck key (Some (\<lambda>_ s. (s, out))) f) =
    (case fallx_find f key of
       None \<Rightarrow> (zero, Some (fallx_errNoCached key))
     | Some e \<Rightarrow> if fe_expiresAt e < fk_lookup ck then (zero, Some (fallx_errNoCached key))
                 else (fallx_cloned f (fe_value e), None))"
proof -
  let ?f = "f\<lparr>ff_calls := wrap_i64 (ff_calls f + 1)\<rparr>"
  let ?h = "fallx_fireOnFallback err (?f\<lparr>ff_fallbackUsed := wrap_i64 (ff_fallbackUsed ?f + 1)\<rparr>)"
  have inv: "fallx_inv ?h" by (rule fallx_inv_keep [OF assms(1)]) simp_all
  have c: "fc_strategy (ff_cfg ?f) = fallx_StrategyCached" using assms(1) by (simp add: fallx_inv_def)
  obtain h q where h: "fallx_getCachedResult key (fk_lookup ck) ?h = (h, q)" by (cases "fallx_getCachedResult key (fk_lookup ck) ?h")
  have ok: "fallx_cache_ok ?h" "fallx_sized ?h" using inv by (simp_all add: fallx_inv_def)
  have cl: "fallx_cloned ?h v = fallx_cloned f v" for v by (simp add: fallx_cloned_def)
  have fd: "fallx_find ?h = fallx_find f" by (rule fallx_cong) simp
  let ?fc = "\<lparr>fx_strategy = fc_strategy (ff_cfg ?f), fx_key = key, fx_err = None, fx_onFallback = False\<rparr>"
  have x: "fallx_ExecuteWithKey zero ck key (Some (\<lambda>_ s. (s, out))) f = fallx_fallback zero (fk_lookup ck) ?fc err ?f"
    using assms(2-4) by (simp add: fallx_ExecuteWithKey_def Let_def)
  have hk: "fallx_getCachedResult (fx_key ?fc) (fk_lookup ck) ?h = (h, q)" using h by simp
  show ?thesis
    unfolding x fallx_fallback_cached [OF c hk]
    using fallx_getCachedResult_ok(5) [OF ok h] unfolding fd cl by (auto split: option.splits if_splits)
qed

text \<open>A cache of two entries in one shard.\<close>

definition fallx_demo_opts :: "(int fallx_config \<Rightarrow> int fallx_config) option list" where
  "fallx_demo_opts = [Some (fallx_WithCached 100 2), Some (fallx_WithShards 1)]"

lemma fallx_demo_cfg:
  "fc_strategy (fallx_newConfig 0 fallx_demo_opts) = fallx_StrategyCached" "fc_maxCacheSize (fallx_newConfig 0 fallx_demo_opts) = 2"
  "fc_shardCount (fallx_newConfig 0 fallx_demo_opts) = 1" "fc_cacheTTL (fallx_newConfig 0 fallx_demo_opts) = 100"
  "fc_fallbackIf (fallx_newConfig 0 fallx_demo_opts) = None" "fc_clone (fallx_newConfig 0 fallx_demo_opts) = None"
  by (simp_all add: fallx_newConfig_def fallx_demo_opts_def Let_def fallx_WithCached_def fallx_WithShards_def fallx_minShards_def
      apply_opts_def)

lemma fallx_demo:
  "fallx_inv (fallx_New 0 fallx_demo_opts)" "\<not> ff_closed (fallx_New 0 fallx_demo_opts)"
  "ff_cfg (fallx_New 0 fallx_demo_opts) = fallx_newConfig 0 fallx_demo_opts" "fallx_find (fallx_New 0 fallx_demo_opts) k = None"
proof -
  show inv: "fallx_inv (fallx_New 0 fallx_demo_opts)" by (rule fallx_inv_New) (simp_all add: fallx_demo_cfg)
  show "\<not> ff_closed (fallx_New 0 fallx_demo_opts)" "ff_cfg (fallx_New 0 fallx_demo_opts) = fallx_newConfig 0 fallx_demo_opts"
    by (simp_all add: fallx_New_def Let_def fallx_initCache_def)
  have "ff_shards (fallx_New 0 fallx_demo_opts) = [fallx_newCacheShard]"
    by (simp add: fallx_New_def Let_def fallx_initCache_def fallx_demo_cfg)
  moreover have "fallx_getShard k (fallx_New 0 fallx_demo_opts) < length (ff_shards (fallx_New 0 fallx_demo_opts))"
    using inv by (intro fallx_getShard_less) (simp add: fallx_inv_def)
  ultimately show "fallx_find (fallx_New 0 fallx_demo_opts) k = None"
    by (simp add: fallx_find_def fallx_lookup_def fallx_newCacheShard_def)
qed

section \<open>Properties\<close>

text \<open> C15: After any sequence of calls and cleanup ticks on a cached fallback from \<open>New\<close>, \<open>Stats().CacheSize\<close> is exactly the number of
  entries in the shard maps and at most \<open>maxCacheSize\<close>, and in every shard the heap holds the map's entries in heap order with the
  index of each stored in it.\<close>

theorem fallx_calls_bounded:
  assumes "fc_strategy (fallx_newConfig zero opts) = fallx_StrategyCached" and "0 < fc_maxCacheSize (fallx_newConfig zero opts)"
    and "fc_maxCacheSize (fallx_newConfig zero opts) + 1 < 2 ^ 63" and "fc_shardCount (fallx_newConfig zero opts) < 2 ^ 32"
    and "f = fold (fallx_step zero) cs (fallx_New zero opts)"
  shows "ft_CacheSize (fallx_FallbackStats f) = sum_list (map (\<lambda>s. int (length (fs_entries s))) (ff_shards f))
    \<and> ft_CacheSize (fallx_FallbackStats f) \<le> fc_maxCacheSize (fallx_newConfig zero opts)
    \<and> (\<forall>s\<in>set (ff_shards f). set (fs_lru s) = snd ` set (fs_entries s) \<and> distinct (fs_lru s) \<and> distinct (map fst (fs_entries s))
         \<and> (\<forall>(k, p)\<in>set (fs_entries s). fe_key (fallx_at s p) = k)
         \<and> (\<forall>i<length (fs_lru s). fe_heapIndex (fallx_at s (fs_lru s ! i)) = int i
              \<and> (0 < i \<longrightarrow> \<not> fallx_Less i ((i - 1) div 2) s)))"
proof -
  note inv = fallx_inv_run [OF fallx_inv_New [OF assms(1-4)], of zero cs, folded assms(5)]
  have cfg: "ff_cfg f = fallx_newConfig zero opts" using inv by (simp add: fallx_New_def Let_def fallx_initCache_def)
  have shard: "set (fs_lru s) = snd ` set (fs_entries s) \<and> distinct (fs_lru s) \<and> distinct (map fst (fs_entries s))
         \<and> (\<forall>(k, p)\<in>set (fs_entries s). fe_key (fallx_at s p) = k)
         \<and> (\<forall>i<length (fs_lru s). fe_heapIndex (fallx_at s (fs_lru s ! i)) = int i
              \<and> (0 < i \<longrightarrow> \<not> fallx_Less i ((i - 1) div 2) s))" if s: "s \<in> set (ff_shards f)" for s
  proof -
    from s inv have "fallx_shard_ok s" by (auto simp: in_set_conv_nth fallx_inv_def fallx_cache_ok_def)
    note ok = fallx_shard_okD [OF this]
    have "\<not> fallx_Less i ((i - 1) div 2) s" if "i < length (fs_lru s)" "0 < i" for i
      using ok(6) that by (auto simp: heap_ok_def heap_par_def lru.arr_def fallx_Less_def)
    with ok show ?thesis by (auto simp: fallx_indexed_def)
  qed
  with inv cfg show ?thesis by (auto simp: fallx_inv_def fallx_sized_def fallx_total_def fallx_FallbackStats_def)
qed

lemma fallx_calls_bounded_witness:
  "ft_CacheSize (fallx_FallbackStats (fold (fallx_step 0) [FC_Seed ''a'' 1 10 10, FC_Seed ''b'' 2 11 11, FC_Seed ''c'' 3 12 12]
     (fallx_New 0 fallx_demo_opts))) \<le> 2"
  using fallx_calls_bounded [OF _ _ _ _ refl, of 0 fallx_demo_opts "[FC_Seed ''a'' 1 10 10, FC_Seed ''b'' 2 11 11, FC_Seed ''c'' 3 12 12]"]
  by (simp add: fallx_demo_cfg)

text \<open> Storing a result keeps the table a part of the old one with the new entry, within the bound; while there is room, or when the key is
  present, nothing else changes; and what is evicted had expired or was used no later than every entry that stays.\<close>

theorem fallx_eviction:
  assumes "fallx_inv f" and "g = fallx_cacheResult key v ttl now te f"
    and "table = (fallx_find f)(key \<mapsto> fallx_new_entry key (fallx_cloned f v) now ttl)"
  shows "fallx_find g \<subseteq>\<^sub>m table \<and> fallx_total g \<le> fc_maxCacheSize (ff_cfg f)
    \<and> (fallx_find f key \<noteq> None \<or> fallx_total f < fc_maxCacheSize (ff_cfg f) \<longrightarrow> fallx_find g = table)
    \<and> (\<forall>k e k' e'. table k = Some e \<longrightarrow> fallx_find g k = None \<longrightarrow> fallx_find g k' = Some e'
         \<longrightarrow> fe_expiresAt e < te \<or> fe_lastAccess e \<le> fe_lastAccess e')"
proof -
  have ok: "fallx_cache_ok f" "fallx_sized f" "fallx_total f + 1 < 2 ^ 63" using assms(1) by (auto simp: fallx_inv_def)
  note r = fallx_cacheResult_ok [OF ok assms(2) refl]
  show ?thesis unfolding assms(3) using r(4-7) assms(1) by (auto simp: fallx_inv_def simp del: fun_upd_apply)
qed

lemma fallx_eviction_witness:
  "fallx_find (fallx_cacheResult ''a'' 7 100 10 10 (fallx_New 0 fallx_demo_opts)) = [''a'' \<mapsto> fallx_new_entry ''a'' 7 10 100]"
proof -
  let ?f = "fallx_New 0 fallx_demo_opts"
  have "fallx_total ?f = 0" using fallx_total_find [of ?f] fallx_demo(1,4) fallx_total_nonneg [of ?f] by (fastforce simp: fallx_inv_def)
  moreover have "fallx_find ?f = Map.empty" using fallx_demo(4) by (simp add: fun_eq_iff)
  ultimately show ?thesis
    using fallx_eviction [OF fallx_demo(1) refl refl, of "''a''" 7 100 10 10]
    by (simp add: fallx_demo(3) fallx_demo_cfg fallx_cloned_def del: fun_upd_apply)
qed

text \<open> A cached success is replayed. After a successful \<open>ExecuteWithKey\<close> whose clock is ahead of every earlier access, a failed one for
  the same key returns that value (cloned in and out) and no error up to the TTL, and \<open>ErrNoCached\<close> after it.\<close>

theorem fallx_replay:
  assumes "fallx_inv f" and "\<not> ff_closed f" and "fc_fallbackIf (ff_cfg f) = None"
    and "\<forall>k e. fallx_find f k = Some e \<longrightarrow> fe_lastAccess e < fk_store ck"
    and "fk_evict ck \<le> fk_store ck + fc_cacheTTL (ff_cfg f)"
    and "fallx_ExecuteWithKey zero ck key (Some (\<lambda>_ s. (s, Returns v None))) f = (g, r)"
    and "panix_Safe zero (fallx_opOrDefault (ff_cfg f)) (Some out) = (r', Some err)"
  shows "r = (v, None) \<and> snd (fallx_ExecuteWithKey zero ck' key (Some (\<lambda>_ s. (s, out))) g) =
    (if fk_lookup ck' \<le> fk_store ck + fc_cacheTTL (ff_cfg f) then (fallx_cloned f (fallx_cloned f v), None)
     else (zero, Some (fallx_errNoCached key)))"
proof -
  let ?ttl = "fc_cacheTTL (ff_cfg f)"
  obtain h where h: "ff_shards h = ff_shards f" "ff_cfg h = ff_cfg f" "fallx_inv h" "\<not> ff_closed h"
      and x: "fallx_ExecuteWithKey zero ck key (Some (\<lambda>_ s. (s, Returns v None))) f
        = (fallx_cacheResult key v ?ttl (fk_store ck) (fk_evict ck) h, v, None)"
    by (rule fallx_Execute_success [OF assms(1,2), of zero ck key v])
  have g: "g = fallx_cacheResult key v ?ttl (fk_store ck) (fk_evict ck) h" and r: "r = (v, None)" using x assms(6) by simp_all
  have fd: "fallx_find h = fallx_find f" by (rule fallx_cong [OF h(1)])
  have cl: "fallx_cloned h v = fallx_cloned f v" for v by (simp add: fallx_cloned_def h)
  let ?e = "fallx_new_entry key (fallx_cloned f v) (fk_store ck) ?ttl"
  have ok: "fallx_cache_ok h" "fallx_sized h" "fallx_total h + 1 < 2 ^ 63" using h(3) by (auto simp: fallx_inv_def)
  note st = fallx_cacheResult_ok [OF ok g refl, unfolded fd cl h(2)]
  have e: "fe_lastAccess ?e = fk_store ck" "fe_expiresAt ?e = fk_store ck + ?ttl" "fe_value ?e = fallx_cloned f v"
    by (simp_all add: fallx_new_entry_def)
  have kept: "fallx_find g key = Some ?e"
  proof (cases "fallx_find g key")
    case None
    obtain k' e' where k': "fallx_find g k' = Some e'" by (rule fallx_total_find [OF st(1) st(8) [OF assms(5)]])
    have ne: "k' \<noteq> key" using k' None by auto
    have "((fallx_find f)(key \<mapsto> ?e)) k' = Some e'" using st(4) k' by (metis domI map_le_def)
    with ne assms(4) have "fe_lastAccess e' < fk_store ck" by simp
    moreover have "fe_expiresAt ?e < fk_evict ck \<or> fe_lastAccess ?e \<le> fe_lastAccess e'"
      by (rule st(7) [OF _ None k']) simp
    ultimately show ?thesis using assms(5) e by simp
  next
    case (Some d)
    then have "((fallx_find f)(key \<mapsto> ?e)) key = Some d" using st(4) by (metis domI map_le_def)
    with Some show ?thesis by simp
  qed
  have inv: "fallx_inv g" unfolding g by (rule fallx_inv_cacheResult [OF h(3)])
  have clg: "fallx_cloned g v = fallx_cloned f v" for v by (simp add: fallx_cloned_def st(3))
  have "\<not> ff_closed g" "fc_fallbackIf (ff_cfg g) = None"
      "panix_Safe zero (fallx_opOrDefault (ff_cfg g)) (Some out) = (r', Some err)"
    using h(4) assms(3,7) by (simp_all add: g st(3) [unfolded g])
  from fallx_Execute_failure [OF inv this, of ck' key] show ?thesis
    using r by (simp add: kept clg e linorder_not_less [symmetric] del: linorder_not_less)
qed

lemma fallx_replay_witness:
  "snd (fallx_ExecuteWithKey 0 \<lparr>fk_store = 0, fk_evict = 0, fk_lookup = 90\<rparr> ''a'' (Some (\<lambda>_ s. (s, Returns 0 (Some (Sentinel ''down'')))))
     (fst (fallx_ExecuteWithKey 0 \<lparr>fk_store = 10, fk_evict = 11, fk_lookup = 0\<rparr> ''a'' (Some (\<lambda>_ s. (s, Returns 7 None)))
        (fallx_New 0 fallx_demo_opts)))) = (7, None)"
proof -
  let ?ck = "\<lparr>fk_store = 10, fk_evict = 11, fk_lookup = 0\<rparr>" and ?ck' = "\<lparr>fk_store = 0, fk_evict = 0, fk_lookup = 90\<rparr>"
  obtain g r where g: "fallx_ExecuteWithKey 0 ?ck ''a'' (Some (\<lambda>_ s. (s, Returns 7 None))) (fallx_New 0 fallx_demo_opts) = (g, r)"
    by (cases "fallx_ExecuteWithKey 0 ?ck ''a'' (Some (\<lambda>_ s. (s, Returns 7 None))) (fallx_New 0 fallx_demo_opts)")
  show ?thesis
    using fallx_replay [OF fallx_demo(1,2) _ _ _ g, of "Returns 0 (Some (Sentinel ''down''))" 0 "Sentinel ''down''" ?ck']
    by (simp add: g fallx_demo(3,4) fallx_demo_cfg fallx_cloned_def)
qed

end
