(* ===== verification/Adaptx.thy ===== *)
theory Adaptx
  imports Panix F64 "HOL-Library.Signed_Division"
begin

text \<open>
  Package \<open>adaptx\<close>: the adaptive concurrency limiter. The permit channel \<open>sem\<close> is the number of its buffered values. A clock
  reading, the two random numbers of an adjustment and the latency of a call are arguments. This theory has the configuration and
  the operations, each run without contention; \<open>Adaptx_Window\<close> has the windows and the control laws, \<open>Adaptx_Conc\<close> the interleavings.
\<close>

subsection \<open>Errors and algorithms\<close>

definition adaptx_ErrClosed :: goerr where "adaptx_ErrClosed = Sentinel ''adaptx: limiter is closed''"
definition adaptx_ErrTimeout :: goerr where "adaptx_ErrTimeout = Sentinel ''adaptx: acquire timed out''"
definition adaptx_ErrCancelled :: goerr where "adaptx_ErrCancelled = Sentinel ''adaptx: acquire cancelled''"
definition adaptx_ErrNilFunc :: goerr where "adaptx_ErrNilFunc = Sentinel ''adaptx: nil function''"
definition adaptx_ErrDrainTimeout :: goerr where "adaptx_ErrDrainTimeout = Sentinel ''adaptx: drain timed out''"

definition adaptx_errTimeout :: "goerr \<Rightarrow> goerr" where
  "adaptx_errTimeout cause = Errorf ''%w: %w'' [adaptx_ErrTimeout, cause]"

definition adaptx_errCancelled :: "goerr \<Rightarrow> goerr" where
  "adaptx_errCancelled cause = Errorf ''%w: %w'' [adaptx_ErrCancelled, cause]"

type_synonym adaptx_Algorithm = "8 word"

definition adaptx_AIMD :: adaptx_Algorithm where "adaptx_AIMD = 0"
definition adaptx_Vegas :: adaptx_Algorithm where "adaptx_Vegas = 1"
definition adaptx_Gradient :: adaptx_Algorithm where "adaptx_Gradient = 2"

lemmas adaptx_algorithms = adaptx_AIMD_def adaptx_Vegas_def adaptx_Gradient_def

definition adaptx_labelAIMD :: string where "adaptx_labelAIMD = ''AIMD''"
definition adaptx_labelVegas :: string where "adaptx_labelVegas = ''Vegas''"
definition adaptx_labelGradient :: string where "adaptx_labelGradient = ''Gradient''"
definition adaptx_labelUnknown :: string where "adaptx_labelUnknown = ''unknown''"

definition adaptx_Algorithm_String :: "adaptx_Algorithm \<Rightarrow> string" where
  "adaptx_Algorithm_String a =
     (if a = adaptx_AIMD then adaptx_labelAIMD else if a = adaptx_Vegas then adaptx_labelVegas
      else if a = adaptx_Gradient then adaptx_labelGradient else adaptx_labelUnknown)"

subsection \<open>Configuration\<close>

text \<open>An untyped floating constant is rounded once, when it is converted to \<open>float64\<close>.\<close>

definition adaptx_DefaultInitialLimit :: int where "adaptx_DefaultInitialLimit = 10"
definition adaptx_DefaultMinLimit :: int where "adaptx_DefaultMinLimit = 1"
definition adaptx_DefaultMaxLimit :: int where "adaptx_DefaultMaxLimit = 1000"
definition adaptx_DefaultSmoothing :: f64 where "adaptx_DefaultSmoothing = f64_round (1 / 5)"
definition adaptx_DefaultIncreaseRate :: f64 where "adaptx_DefaultIncreaseRate = 1"
definition adaptx_DefaultDecreaseRatio :: f64 where "adaptx_DefaultDecreaseRatio = 1 / 2"
definition adaptx_DefaultUtilization :: f64 where "adaptx_DefaultUtilization = f64_round (9 / 10)"
definition adaptx_DefaultTargetLatency :: int where "adaptx_DefaultTargetLatency = 100 * 10 ^ 6"
definition adaptx_DefaultTolerance :: f64 where "adaptx_DefaultTolerance = f64_round (1 / 10)"
definition adaptx_DefaultSampleWindow :: int where "adaptx_DefaultSampleWindow = 10 ^ 9"
definition adaptx_DefaultWarmupSamples :: int where "adaptx_DefaultWarmupSamples = 10"
definition adaptx_DefaultMinLatencyDecay :: f64 where "adaptx_DefaultMinLatencyDecay = f64_round (1 / 1000)"
definition adaptx_DefaultJitter :: f64 where "adaptx_DefaultJitter = f64_round (1 / 10)"
definition adaptx_opExecute :: string where "adaptx_opExecute = ''adaptx.Execute''"
definition adaptx_opTryExecute :: string where "adaptx_opTryExecute = ''adaptx.TryExecute''"
definition adaptx_minLimitFloor :: int where "adaptx_minLimitFloor = 1"
definition adaptx_samplesPerWindowSecond :: f64 where "adaptx_samplesPerWindowSecond = 10000"
definition adaptx_minSamples :: int where "adaptx_minSamples = 100"
definition adaptx_maxSamples :: int where "adaptx_maxSamples = 10000"
definition adaptx_jitterCoinFlip :: f64 where "adaptx_jitterCoinFlip = 1 / 2"
definition adaptx_vegasBackoffBand :: f64 where "adaptx_vegasBackoffBand = 2"
definition adaptx_gradientFastStep :: int where "adaptx_gradientFastStep = 2"
definition adaptx_DefaultCloseTimeout :: int where "adaptx_DefaultCloseTimeout = 30 * 10 ^ 9"
definition adaptx_MaxFloat64 :: f64 where "adaptx_MaxFloat64 = (2 ^ 53 - 1) * 2 ^ 971"

text \<open>The hook may panic. The injected clock is the clock of the model, so it has no field.\<close>

record adaptx_config =
  ac_algorithm :: adaptx_Algorithm
  ac_initialLimit :: int
  ac_minLimit :: int
  ac_maxLimit :: int
  ac_warmupSamples :: int
  ac_smoothing :: f64
  ac_increaseRate :: f64
  ac_decreaseRatio :: f64
  ac_tolerance :: f64
  ac_minLatDecay :: f64
  ac_jitter :: f64
  ac_utilization :: f64
  ac_targetLatency :: int
  ac_sampleWindow :: int
  ac_op :: string
  ac_onLimitChange :: "(int \<Rightarrow> int \<Rightarrow> unit outcome) option"

definition adaptx_newConfig :: "(adaptx_config \<Rightarrow> adaptx_config) option list \<Rightarrow> adaptx_config" where
  "adaptx_newConfig opts =
     (let c0 = apply_opts opts
        \<lparr>ac_algorithm = adaptx_AIMD, ac_initialLimit = adaptx_DefaultInitialLimit, ac_minLimit = adaptx_DefaultMinLimit,
         ac_maxLimit = adaptx_DefaultMaxLimit, ac_warmupSamples = adaptx_DefaultWarmupSamples,
         ac_smoothing = adaptx_DefaultSmoothing, ac_increaseRate = adaptx_DefaultIncreaseRate,
         ac_decreaseRatio = adaptx_DefaultDecreaseRatio, ac_tolerance = adaptx_DefaultTolerance,
         ac_minLatDecay = adaptx_DefaultMinLatencyDecay, ac_jitter = adaptx_DefaultJitter,
         ac_utilization = adaptx_DefaultUtilization, ac_targetLatency = adaptx_DefaultTargetLatency,
         ac_sampleWindow = adaptx_DefaultSampleWindow, ac_op = [], ac_onLimitChange = None\<rparr>;
        c1 = (if ac_minLimit c0 < adaptx_minLimitFloor then c0\<lparr>ac_minLimit := adaptx_minLimitFloor\<rparr> else c0);
        c2 = (if ac_maxLimit c1 < ac_minLimit c1 then c1\<lparr>ac_maxLimit := ac_minLimit c1\<rparr> else c1);
        c3 = (if ac_initialLimit c2 < ac_minLimit c2 then c2\<lparr>ac_initialLimit := ac_minLimit c2\<rparr> else c2)
      in if ac_maxLimit c3 < ac_initialLimit c3 then c3\<lparr>ac_initialLimit := ac_maxLimit c3\<rparr> else c3)"

definition adaptx_opOrDefault :: "adaptx_config \<Rightarrow> string" where
  "adaptx_opOrDefault c = (if ac_op c \<noteq> [] then ac_op c else adaptx_opExecute)"

definition adaptx_opOrDefaultTry :: "adaptx_config \<Rightarrow> string" where
  "adaptx_opOrDefaultTry c = (if ac_op c \<noteq> [] then ac_op c else adaptx_opTryExecute)"

definition adaptx_ringCapacity :: "(f64 \<Rightarrow> int) \<Rightarrow> adaptx_config \<Rightarrow> int" where
  "adaptx_ringCapacity oob c =
     (let n = f64_to_i64 oob (f64_mul adaptx_samplesPerWindowSecond (f64_Seconds (ac_sampleWindow c)))
      in if n < adaptx_minSamples then adaptx_minSamples else if adaptx_maxSamples < n then adaptx_maxSamples else n)"

definition adaptx_WithAlgorithm :: "adaptx_Algorithm \<Rightarrow> adaptx_config \<Rightarrow> adaptx_config" where
  "adaptx_WithAlgorithm a c = c\<lparr>ac_algorithm := a\<rparr>"

definition adaptx_WithInitialLimit :: "int \<Rightarrow> adaptx_config \<Rightarrow> adaptx_config" where
  "adaptx_WithInitialLimit n c = (if 0 < n then c\<lparr>ac_initialLimit := n\<rparr> else c)"

definition adaptx_WithMinLimit :: "int \<Rightarrow> adaptx_config \<Rightarrow> adaptx_config" where
  "adaptx_WithMinLimit n c = (if 0 < n then c\<lparr>ac_minLimit := n\<rparr> else c)"

definition adaptx_WithMaxLimit :: "int \<Rightarrow> adaptx_config \<Rightarrow> adaptx_config" where
  "adaptx_WithMaxLimit n c = (if 0 < n then c\<lparr>ac_maxLimit := n\<rparr> else c)"

definition adaptx_WithSmoothing :: "f64 \<Rightarrow> adaptx_config \<Rightarrow> adaptx_config" where
  "adaptx_WithSmoothing f c = (if 0 < f \<and> f \<le> 1 then c\<lparr>ac_smoothing := f\<rparr> else c)"

definition adaptx_WithIncreaseRate :: "f64 \<Rightarrow> adaptx_config \<Rightarrow> adaptx_config" where
  "adaptx_WithIncreaseRate r c = (if 0 < r then c\<lparr>ac_increaseRate := r\<rparr> else c)"

definition adaptx_WithDecreaseRatio :: "f64 \<Rightarrow> adaptx_config \<Rightarrow> adaptx_config" where
  "adaptx_WithDecreaseRatio r c = (if 0 < r \<and> r < 1 then c\<lparr>ac_decreaseRatio := r\<rparr> else c)"

definition adaptx_WithUtilization :: "f64 \<Rightarrow> adaptx_config \<Rightarrow> adaptx_config" where
  "adaptx_WithUtilization f c = (if 0 < f \<and> f \<le> 1 then c\<lparr>ac_utilization := f\<rparr> else c)"

definition adaptx_WithTargetLatency :: "int \<Rightarrow> adaptx_config \<Rightarrow> adaptx_config" where
  "adaptx_WithTargetLatency d c = (if 0 < d then c\<lparr>ac_targetLatency := d\<rparr> else c)"

definition adaptx_WithTolerance :: "f64 \<Rightarrow> adaptx_config \<Rightarrow> adaptx_config" where
  "adaptx_WithTolerance f c = (if 0 < f \<and> f \<le> 1 then c\<lparr>ac_tolerance := f\<rparr> else c)"

definition adaptx_WithSampleWindow :: "int \<Rightarrow> adaptx_config \<Rightarrow> adaptx_config" where
  "adaptx_WithSampleWindow d c = (if 0 < d then c\<lparr>ac_sampleWindow := d\<rparr> else c)"

definition adaptx_WithWarmupSamples :: "int \<Rightarrow> adaptx_config \<Rightarrow> adaptx_config" where
  "adaptx_WithWarmupSamples n c = (if 0 \<le> n then c\<lparr>ac_warmupSamples := n\<rparr> else c)"

definition adaptx_WithMinLatencyDecay :: "f64 \<Rightarrow> adaptx_config \<Rightarrow> adaptx_config" where
  "adaptx_WithMinLatencyDecay f c = (if 0 \<le> f \<and> f \<le> 1 then c\<lparr>ac_minLatDecay := f\<rparr> else c)"

definition adaptx_WithJitter :: "f64 \<Rightarrow> adaptx_config \<Rightarrow> adaptx_config" where
  "adaptx_WithJitter f c = (if 0 \<le> f \<and> f \<le> 1 then c\<lparr>ac_jitter := f\<rparr> else c)"

definition adaptx_WithOp :: "string \<Rightarrow> adaptx_config \<Rightarrow> adaptx_config" where
  "adaptx_WithOp op c = (if op \<noteq> [] then c\<lparr>ac_op := op\<rparr> else c)"

definition adaptx_WithOnLimitChange :: "(int \<Rightarrow> int \<Rightarrow> unit outcome) option \<Rightarrow> adaptx_config \<Rightarrow> adaptx_config" where
  "adaptx_WithOnLimitChange fn c = c\<lparr>ac_onLimitChange := fn\<rparr>"

subsection \<open>State\<close>

record adaptx_sample =
  as_latency :: int
  as_ts :: int
  as_success :: bool

record adaptx_windowSnap =
  aw_n :: int
  aw_fails :: int
  aw_maxInFlight :: int
  aw_meanRTT :: f64
  aw_minRTT :: f64

text \<open>The list \<open>al_hooks\<close> is a ghost: the calls of the \<open>OnLimitChange\<close> hook.\<close>

record adaptx_Limiter =
  al_cfg :: adaptx_config
  al_sem :: int
  al_inFlight :: int
  al_closed :: bool
  al_closedCh :: bool
  al_drainCh :: bool
  al_total :: int
  al_success :: int
  al_fail :: int
  al_rejected :: int
  al_incr :: int
  al_decr :: int
  al_limit :: int
  al_debt :: int
  al_avgLat :: f64
  al_minLat :: f64
  al_increaseCredit :: f64
  al_windowRTTSum :: f64
  al_windowMinRTT :: f64
  al_windowStart :: int
  al_windowN :: int
  al_windowFails :: int
  al_windowMaxInFlight :: int
  al_samples :: "adaptx_sample list"
  al_head :: nat
  al_count :: nat
  al_seen :: int
  al_ringCap :: nat
  al_hooks :: "(int \<times> int) list"

definition adaptx_resetWindow :: "int \<Rightarrow> adaptx_Limiter \<Rightarrow> adaptx_Limiter" where
  "adaptx_resetWindow now l =
     l\<lparr>al_windowStart := now, al_windowN := 0, al_windowFails := 0, al_windowMaxInFlight := 0, al_windowRTTSum := 0,
       al_windowMinRTT := adaptx_MaxFloat64\<rparr>"

text \<open>A send to the permit channel that gives up when the buffer is full.\<close>

definition adaptx_send :: "adaptx_Limiter \<Rightarrow> adaptx_Limiter" where
  "adaptx_send l = (if al_sem l < ac_maxLimit (al_cfg l) then l\<lparr>al_sem := al_sem l + 1\<rparr> else l)"

definition adaptx_zeroSample :: adaptx_sample where "adaptx_zeroSample = \<lparr>as_latency = 0, as_ts = 0, as_success = False\<rparr>"

definition adaptx_New :: "(f64 \<Rightarrow> int) \<Rightarrow> int \<Rightarrow> (adaptx_config \<Rightarrow> adaptx_config) option list \<Rightarrow> adaptx_Limiter" where
  "adaptx_New oob now opts =
     (let cfg = adaptx_newConfig opts; ringCap = nat (adaptx_ringCapacity oob cfg);
          l = \<lparr>al_cfg = cfg, al_sem = 0, al_inFlight = 0, al_closed = False, al_closedCh = False, al_drainCh = False,
               al_total = 0, al_success = 0, al_fail = 0, al_rejected = 0, al_incr = 0, al_decr = 0,
               al_limit = ac_initialLimit cfg, al_debt = 0, al_avgLat = 0, al_minLat = adaptx_MaxFloat64, al_increaseCredit = 0,
               al_windowRTTSum = 0, al_windowMinRTT = 0, al_windowStart = 0, al_windowN = 0, al_windowFails = 0,
               al_windowMaxInFlight = 0, al_samples = replicate ringCap adaptx_zeroSample, al_head = 0, al_count = 0, al_seen = 0,
               al_ringCap = ringCap, al_hooks = []\<rparr>
      in (adaptx_send ^^ nat (ac_initialLimit cfg)) (adaptx_resetWindow now l))"

subsection \<open>Control laws\<close>

definition adaptx_windowSnapshot :: "adaptx_Limiter \<Rightarrow> adaptx_windowSnap" where
  "adaptx_windowSnapshot l =
     \<lparr>aw_n = al_windowN l, aw_fails = al_windowFails l, aw_maxInFlight = al_windowMaxInFlight l,
      aw_meanRTT = (if 0 < al_windowN l then f64_div (al_windowRTTSum l) (f64_of_int (al_windowN l)) else 0),
      aw_minRTT = al_windowMinRTT l\<rparr>"

definition adaptx_updateEstimators :: "adaptx_windowSnap \<Rightarrow> adaptx_Limiter \<Rightarrow> adaptx_Limiter" where
  "adaptx_updateEstimators snap l =
     (if aw_meanRTT snap \<le> 0 then l
      else let sm = ac_smoothing (al_cfg l);
               l1 = (if al_avgLat l \<le> 0 then l\<lparr>al_avgLat := aw_meanRTT snap\<rparr>
                     else l\<lparr>al_avgLat := f64_add (f64_mul sm (aw_meanRTT snap)) (f64_mul (f64_sub 1 sm) (al_avgLat l))\<rparr>)
           in if 0 < ac_minLatDecay (al_cfg l1) \<and> al_minLat l1 \<noteq> adaptx_MaxFloat64
              then l1\<lparr>al_minLat := f64_add (al_minLat l1)
                        (f64_mul (ac_minLatDecay (al_cfg l1)) (f64_sub (al_avgLat l1) (al_minLat l1)))\<rparr>
              else l1)"

definition adaptx_aimd :: "(f64 \<Rightarrow> int) \<Rightarrow> adaptx_windowSnap \<Rightarrow> adaptx_Limiter \<Rightarrow> adaptx_Limiter \<times> int" where
  "adaptx_aimd oob snap l =
     (if 0 < aw_fails snap
      then (l\<lparr>al_increaseCredit := 0\<rparr>, f64_to_i64 oob (f64_mul (f64_of_int (al_limit l)) (ac_decreaseRatio (al_cfg l))))
      else let need = f64_to_i64 oob (of_int \<lceil>f64_mul (f64_of_int (al_limit l)) (ac_utilization (al_cfg l))\<rceil>)
           in if aw_maxInFlight snap < need then (l, al_limit l)
              else let credit = f64_add (al_increaseCredit l) (ac_increaseRate (al_cfg l));
                       step = f64_to_i64 oob credit
                   in (l\<lparr>al_increaseCredit := f64_sub credit (f64_of_int step)\<rparr>, wrap_i64 (al_limit l + step)))"

definition adaptx_vegas :: "(f64 \<Rightarrow> int) \<Rightarrow> f64 \<Rightarrow> adaptx_Limiter \<Rightarrow> int" where
  "adaptx_vegas oob rtt l =
     (if al_minLat l = adaptx_MaxFloat64 then al_limit l
      else let minRTT = al_minLat l
           in if rtt \<le> 0 \<or> minRTT \<le> 0 then al_limit l
              else let lim = f64_of_int (al_limit l);
                       queue = f64_mul lim (f64_sub 1 (f64_div minRTT rtt));
                       targetNs = f64_of_int (ac_targetLatency (al_cfg l));
                       alpha = (if minRTT < targetNs
                                then f64_mul (f64_mul lim (ac_tolerance (al_cfg l))) (f64_sub 1 (f64_div minRTT targetNs))
                                else f64_mul lim (ac_tolerance (al_cfg l)));
                       beta = f64_mul alpha adaptx_vegasBackoffBand
                   in if queue < alpha then wrap_i64 (al_limit l + 1)
                      else if beta < queue then f64_to_i64 oob (f64_mul lim (ac_decreaseRatio (al_cfg l)))
                      else al_limit l)"

definition adaptx_gradient :: "(f64 \<Rightarrow> int) \<Rightarrow> adaptx_windowSnap \<Rightarrow> adaptx_Limiter \<Rightarrow> int" where
  "adaptx_gradient oob snap l =
     (let lim = f64_of_int (al_limit l); ratio = ac_decreaseRatio (al_cfg l); tol = ac_tolerance (al_cfg l)
      in if 0 < aw_fails snap then f64_to_i64 oob (f64_mul lim ratio)
         else if al_avgLat l \<le> 0 then al_limit l
         else let g = f64_div (f64_sub (aw_meanRTT snap) (al_avgLat l)) (al_avgLat l)
              in if g < - tol then wrap_i64 (al_limit l + adaptx_gradientFastStep)
                 else if g \<le> tol then wrap_i64 (al_limit l + 1)
                 else let f = max (f64_sub 1 (f64_mul g ratio)) ratio in f64_to_i64 oob (f64_mul lim f))"

text \<open>The loop of \<open>shrink\<close>, by the number of permits still to drop.\<close>

fun adaptx_shrink :: "nat \<Rightarrow> adaptx_Limiter \<Rightarrow> adaptx_Limiter" where
  "adaptx_shrink 0 l = l"
| "adaptx_shrink (Suc k) l =
     (if 0 < al_sem l then adaptx_shrink k (l\<lparr>al_sem := al_sem l - 1\<rparr>) else l\<lparr>al_debt := al_debt l + int (Suc k)\<rparr>)"

text \<open>The clock and the two random numbers one \<open>record\<close> reads.\<close>

record adaptx_env =
  ae_now :: int
  ae_rand1 :: f64
  ae_rand2 :: f64

definition adaptx_jitter :: "(f64 \<Rightarrow> int) \<Rightarrow> adaptx_env \<Rightarrow> int \<Rightarrow> int \<Rightarrow> adaptx_config \<Rightarrow> int" where
  "adaptx_jitter oob env old next1 c =
     (if old < next1 \<and> 0 < ac_jitter c
      then let withheld = f64_to_i64 oob (f64_mul (f64_mul (f64_of_int (next1 - old)) (ac_jitter c)) (ae_rand1 env))
           in if ae_rand2 env < adaptx_jitterCoinFlip then next1 - withheld else next1
      else next1)"

definition adaptx_clamp :: "adaptx_config \<Rightarrow> int \<Rightarrow> int" where
  "adaptx_clamp c n0 =
     (let n1 = (if n0 < ac_minLimit c then ac_minLimit c else n0) in if ac_maxLimit c < n1 then ac_maxLimit c else n1)"

text \<open>The new limit, and the permits moved with it.\<close>

definition adaptx_resize :: "int \<Rightarrow> adaptx_Limiter \<Rightarrow> adaptx_Limiter" where
  "adaptx_resize new l =
     (let old = al_limit l
      in if new = old then l
         else let l1 = l\<lparr>al_limit := new\<rparr>
              in if old < new
                 then let l2 = l1\<lparr>al_incr := wrap_i64 (al_incr l1 + 1)\<rparr>; grant = new - old;
                          paid = (if 0 < al_debt l2 then min (al_debt l2) grant else 0)
                      in (adaptx_send ^^ nat (grant - paid)) (l2\<lparr>al_debt := al_debt l2 - paid\<rparr>)
                 else adaptx_shrink (nat (old - new)) (l1\<lparr>al_decr := wrap_i64 (al_decr l1 + 1)\<rparr>))"

definition adaptx_law :: "(f64 \<Rightarrow> int) \<Rightarrow> adaptx_windowSnap \<Rightarrow> adaptx_Limiter \<Rightarrow> adaptx_Limiter \<times> int" where
  "adaptx_law oob snap l =
     (if ac_algorithm (al_cfg l) = adaptx_Vegas then (l, adaptx_vegas oob (aw_meanRTT snap) l)
      else if ac_algorithm (al_cfg l) = adaptx_Gradient then (l, adaptx_gradient oob snap l)
      else adaptx_aimd oob snap l)"

definition adaptx_adjust :: "(f64 \<Rightarrow> int) \<Rightarrow> adaptx_env \<Rightarrow> adaptx_windowSnap \<Rightarrow> adaptx_Limiter \<Rightarrow> adaptx_Limiter" where
  "adaptx_adjust oob env snap l =
     (case adaptx_law oob snap l of
        (l1, next1) \<Rightarrow> adaptx_resize (adaptx_clamp (al_cfg l1) (adaptx_jitter oob env (al_limit l) next1 (al_cfg l1))) l1)"

subsection \<open>Recording\<close>

text \<open>The part of \<open>recordLocked\<close> before the control law, with the latency positive as its caller checks.\<close>

definition adaptx_add_sample :: "int \<Rightarrow> bool \<Rightarrow> int \<Rightarrow> adaptx_Limiter \<Rightarrow> adaptx_Limiter" where
  "adaptx_add_sample now success latency l =
     (let l0 = (if al_windowMaxInFlight l < al_inFlight l then l\<lparr>al_windowMaxInFlight := al_inFlight l\<rparr> else l);
          ns = f64_of_int latency
      in l0\<lparr>al_samples := (al_samples l0)[al_head l0 := \<lparr>as_latency = latency, as_ts = now, as_success = success\<rparr>],
            al_head := (al_head l0 + 1) mod al_ringCap l0,
            al_count := (if al_count l0 < al_ringCap l0 then al_count l0 + 1 else al_count l0),
            al_seen := wrap_i64 (al_seen l0 + 1),
            al_windowN := wrap_i64 (al_windowN l0 + 1),
            al_windowFails := (if success then al_windowFails l0 else wrap_i64 (al_windowFails l0 + 1)),
            al_windowRTTSum := f64_add (al_windowRTTSum l0) ns,
            al_windowMinRTT := (if 0 < ns \<and> ns < al_windowMinRTT l0 then ns else al_windowMinRTT l0),
            al_minLat := (if 0 < ns \<and> ns < al_minLat l0 then ns else al_minLat l0)\<rparr>)"

definition adaptx_recordLocked :: "(f64 \<Rightarrow> int) \<Rightarrow> adaptx_env \<Rightarrow> bool \<Rightarrow> int \<Rightarrow> adaptx_Limiter \<Rightarrow> adaptx_Limiter \<times> (int \<times> int) option" where
  "adaptx_recordLocked oob env success latency l =
     (let l1 = adaptx_add_sample (ae_now env) success latency l
      in if ae_now env - al_windowStart l1 < ac_sampleWindow (al_cfg l1) \<or> al_seen l1 < ac_warmupSamples (al_cfg l1) then (l1, None)
         else if 0 < al_windowN l1
         then let snap = adaptx_windowSnapshot l1; l2 = adaptx_adjust oob env snap l1; l3 = adaptx_updateEstimators snap l2;
                  fire = (al_limit l2 \<noteq> al_limit l1 \<and> ac_onLimitChange (al_cfg l3) \<noteq> None)
              in (adaptx_resetWindow (ae_now env) l3, if fire then Some (al_limit l1, al_limit l2) else None)
         else (adaptx_resetWindow (ae_now env) l1, None))"

definition adaptx_invokeLimitChange :: "int \<times> int \<Rightarrow> adaptx_Limiter \<Rightarrow> adaptx_Limiter" where
  "adaptx_invokeLimitChange change l = l\<lparr>al_hooks := al_hooks l @ [change]\<rparr>"

definition adaptx_record :: "(f64 \<Rightarrow> int) \<Rightarrow> adaptx_env \<Rightarrow> bool \<Rightarrow> int \<Rightarrow> adaptx_Limiter \<Rightarrow> adaptx_Limiter" where
  "adaptx_record oob env success latency l =
     (let l1 = (if success then l\<lparr>al_success := wrap_i64 (al_success l + 1)\<rparr> else l\<lparr>al_fail := wrap_i64 (al_fail l + 1)\<rparr>)
      in if latency \<le> 0 then l1
         else case adaptx_recordLocked oob env success latency l1 of
                (l2, None) \<Rightarrow> l2
              | (l2, Some change) \<Rightarrow> adaptx_invokeLimitChange change l2)"

subsection \<open>Admission\<close>

text \<open>
  What a caller meets: \<open>ctx.Err()\<close> at the top, and the ready case the \<open>select\<close> picks (with the context's error where it has one).
\<close>

datatype adaptx_sel = ASem | ACtx goerr | AClosedCh

definition adaptx_ctxErr :: "goerr \<Rightarrow> goerr" where
  "adaptx_ctxErr err = (if err = CtxDeadlineExceeded then adaptx_errTimeout err else adaptx_errCancelled err)"

definition adaptx_reject :: "adaptx_Limiter \<Rightarrow> adaptx_Limiter" where
  "adaptx_reject l = l\<lparr>al_rejected := wrap_i64 (al_rejected l + 1)\<rparr>"

definition adaptx_take :: "adaptx_Limiter \<Rightarrow> adaptx_Limiter" where
  "adaptx_take l = l\<lparr>al_sem := al_sem l - 1\<rparr>"

definition adaptx_add_inFlight :: "int \<Rightarrow> adaptx_Limiter \<Rightarrow> adaptx_Limiter" where
  "adaptx_add_inFlight d l = l\<lparr>al_inFlight := wrap_i32 (al_inFlight l + d)\<rparr>"

definition adaptx_Allow :: "adaptx_Limiter \<Rightarrow> bool" where
  "adaptx_Allow l = (if al_closed l then False else 0 < al_limit l - al_inFlight l)"

definition adaptx_returnPermit :: "adaptx_Limiter \<Rightarrow> adaptx_Limiter" where
  "adaptx_returnPermit l = adaptx_send l"

definition adaptx_releasePermit :: "adaptx_Limiter \<Rightarrow> adaptx_Limiter" where
  "adaptx_releasePermit l = (if 0 < al_debt l then l\<lparr>al_debt := al_debt l - 1\<rparr> else adaptx_send l)"

definition adaptx_signalDrainIfIdle :: "adaptx_Limiter \<Rightarrow> adaptx_Limiter" where
  "adaptx_signalDrainIfIdle l = (if al_closed l \<and> al_inFlight l = 0 then l\<lparr>al_drainCh := True\<rparr> else l)"

text \<open>\<open>admit\<close> up to the closure it returns, and a call of that closure, which is its \<open>released\<close> flag.\<close>

definition adaptx_admit :: "adaptx_Limiter \<Rightarrow> adaptx_Limiter" where
  "adaptx_admit l = (let l1 = adaptx_add_inFlight 1 l in l1\<lparr>al_total := wrap_i64 (al_total l1 + 1)\<rparr>)"

definition adaptx_release ::
  "(f64 \<Rightarrow> int) \<Rightarrow> adaptx_env \<Rightarrow> bool \<Rightarrow> int \<Rightarrow> bool \<Rightarrow> adaptx_Limiter \<Rightarrow> adaptx_Limiter \<times> bool" where
  "adaptx_release oob env success latency released l =
     (if released then (l, True)
      else let l1 = adaptx_record oob env success latency l;
               l2 = adaptx_add_inFlight (- 1) l1; n = al_inFlight l2;
               l3 = adaptx_releasePermit l2
           in (if n = 0 then adaptx_signalDrainIfIdle l3 else l3, True))"

text \<open>\<open>None\<close>: the picked case is not ready, the caller stays blocked.\<close>

definition adaptx_Acquire :: "goerror \<Rightarrow> adaptx_sel \<Rightarrow> adaptx_Limiter \<Rightarrow> (adaptx_Limiter \<times> goerror) option" where
  "adaptx_Acquire e0 sel l =
     (if al_closed l then Some (l, Some adaptx_ErrClosed)
      else case e0 of
        Some e \<Rightarrow> Some (adaptx_reject l, Some (adaptx_ctxErr e))
      | None \<Rightarrow>
          (case sel of
             ACtx e \<Rightarrow> Some (adaptx_reject l, Some (adaptx_ctxErr e))
           | AClosedCh \<Rightarrow> if al_closedCh l then Some (adaptx_reject l, Some adaptx_ErrClosed) else None
           | ASem \<Rightarrow>
               if 0 < al_sem l
               then let l1 = adaptx_take l
                    in if al_closed l1 then Some (adaptx_reject (adaptx_returnPermit l1), Some adaptx_ErrClosed)
                       else Some (adaptx_admit l1, None)
               else None))"

definition adaptx_TryAcquire :: "adaptx_Limiter \<Rightarrow> adaptx_Limiter \<times> bool" where
  "adaptx_TryAcquire l =
     (if al_closed l then (l, False)
      else if 0 < al_sem l
      then let l1 = adaptx_take l
           in if al_closed l1 then (adaptx_reject (adaptx_returnPermit l1), False) else (adaptx_admit l1, True)
      else (adaptx_reject l, False))"

subsection \<open>Execution\<close>

record adaptx_execution =
  ax_limit :: int
  ax_inFlight :: int
  ax_algorithm :: adaptx_Algorithm
  ax_skipped :: bool

definition adaptx_Limit :: "adaptx_execution \<Rightarrow> int" where "adaptx_Limit e = ax_limit e"
definition adaptx_InFlight :: "adaptx_execution \<Rightarrow> int" where "adaptx_InFlight e = ax_inFlight e"
definition adaptx_execution_Algorithm :: "adaptx_execution \<Rightarrow> adaptx_Algorithm" where "adaptx_execution_Algorithm e = ax_algorithm e"
definition adaptx_SkipSample :: "adaptx_execution \<Rightarrow> adaptx_execution" where "adaptx_SkipSample e = e\<lparr>ax_skipped := True\<rparr>"
definition adaptx_isSkipped :: "adaptx_execution \<Rightarrow> bool" where "adaptx_isSkipped e = ax_skipped e"

definition adaptx_Limiter_Limit :: "adaptx_Limiter \<Rightarrow> int" where "adaptx_Limiter_Limit l = al_limit l"
definition adaptx_Limiter_InFlight :: "adaptx_Limiter \<Rightarrow> int" where "adaptx_Limiter_InFlight l = al_inFlight l"

text \<open>The callback may use its controller, and it and other goroutines the limiter, meanwhile.\<close>

type_synonym 'a adaptx_AdaptFunc =
  "adaptx_execution \<Rightarrow> adaptx_Limiter \<Rightarrow> adaptx_execution \<times> adaptx_Limiter \<times> 'a outcome"

definition adaptx_releaseAfterExecute ::
  "(f64 \<Rightarrow> int) \<Rightarrow> adaptx_env \<Rightarrow> int \<Rightarrow> adaptx_execution \<Rightarrow> goerror \<Rightarrow> adaptx_Limiter \<Rightarrow> adaptx_Limiter" where
  "adaptx_releaseAfterExecute oob env elapsed ac err l =
     (let ok = (err = None)
      in fst (adaptx_release oob env ok (if adaptx_isSkipped ac then 0 else elapsed) False l))"

definition adaptx_run ::
  "(f64 \<Rightarrow> int) \<Rightarrow> adaptx_env \<Rightarrow> int \<Rightarrow> 'a \<Rightarrow> string \<Rightarrow> 'a adaptx_AdaptFunc \<Rightarrow> adaptx_Limiter \<Rightarrow> adaptx_Limiter \<times> 'a \<times> goerror" where
  "adaptx_run oob env elapsed zero op fn l =
     (let ac = \<lparr>ax_limit = adaptx_Limiter_Limit l, ax_inFlight = adaptx_Limiter_InFlight l - 1,
                ax_algorithm = ac_algorithm (al_cfg l), ax_skipped = False\<rparr>
      in case fn ac l of
           (ac1, l1, out) \<Rightarrow>
             (case panix_Safe zero op (Some out) of
                (val, err) \<Rightarrow> (adaptx_releaseAfterExecute oob env elapsed ac1 err l1, val, err)))"

definition adaptx_Execute ::
  "(f64 \<Rightarrow> int) \<Rightarrow> adaptx_env \<Rightarrow> int \<Rightarrow> goerror \<Rightarrow> adaptx_sel \<Rightarrow> 'a \<Rightarrow> 'a adaptx_AdaptFunc option \<Rightarrow> adaptx_Limiter \<Rightarrow>
     (adaptx_Limiter \<times> 'a \<times> goerror) option" where
  "adaptx_Execute oob env elapsed e0 sel zero fn l =
     (case fn of
        None \<Rightarrow> Some (l, zero, Some adaptx_ErrNilFunc)
      | Some f \<Rightarrow>
          (case adaptx_Acquire e0 sel l of
             None \<Rightarrow> None
           | Some (l1, Some err) \<Rightarrow> Some (l1, zero, Some err)
           | Some (l1, None) \<Rightarrow> Some (adaptx_run oob env elapsed zero (adaptx_opOrDefault (al_cfg l1)) f l1)))"

definition adaptx_TryExecute ::
  "(f64 \<Rightarrow> int) \<Rightarrow> adaptx_env \<Rightarrow> int \<Rightarrow> goerror \<Rightarrow> 'a \<Rightarrow> 'a adaptx_AdaptFunc option \<Rightarrow> adaptx_Limiter \<Rightarrow>
     adaptx_Limiter \<times> bool \<times> 'a \<times> goerror" where
  "adaptx_TryExecute oob env elapsed e0 zero fn l =
     (if al_closed l then (l, False, zero, Some adaptx_ErrClosed)
      else case fn of
        None \<Rightarrow> (l, False, zero, Some adaptx_ErrNilFunc)
      | Some f \<Rightarrow>
          (case e0 of
             Some e \<Rightarrow> (l, False, zero, Some (adaptx_ctxErr e))
           | None \<Rightarrow>
               (case adaptx_TryAcquire l of
                  (l1, False) \<Rightarrow> if al_closed l1 then (l1, False, zero, Some adaptx_ErrClosed) else (l1, False, zero, None)
                | (l1, True) \<Rightarrow> (case adaptx_run oob env elapsed zero (adaptx_opOrDefaultTry (al_cfg l1)) f l1 of
                      (l2, val, err) \<Rightarrow> (l2, True, val, err)))))"

subsection \<open>Lifecycle\<close>

definition adaptx_drainSemaphore :: "adaptx_Limiter \<Rightarrow> adaptx_Limiter" where
  "adaptx_drainSemaphore l = l\<lparr>al_sem := 0\<rparr>"

text \<open>\<open>wait\<close> is what other goroutines do until \<open>drainCh\<close> is closed or the timer fires.\<close>

definition adaptx_waitForDrain :: "(adaptx_Limiter \<Rightarrow> adaptx_Limiter) \<Rightarrow> int \<Rightarrow> adaptx_Limiter \<Rightarrow> adaptx_Limiter" where
  "adaptx_waitForDrain wait timeout l = (if al_inFlight l = 0 \<or> timeout \<le> 0 then l else wait l)"

definition adaptx_CloseWithTimeout ::
  "(adaptx_Limiter \<Rightarrow> adaptx_Limiter) \<Rightarrow> int \<Rightarrow> adaptx_Limiter \<Rightarrow> adaptx_Limiter \<times> goerror" where
  "adaptx_CloseWithTimeout wait timeout l =
     (if al_closed l then (l, Some adaptx_ErrClosed)
      else let l1 = l\<lparr>al_closed := True\<rparr>;
               l2 = adaptx_signalDrainIfIdle (l1\<lparr>al_closedCh := True\<rparr>);
               l3 = adaptx_drainSemaphore (adaptx_waitForDrain wait timeout l2)
           in (l3, if 0 < al_inFlight l3 then Some adaptx_ErrDrainTimeout else None))"

definition adaptx_Close :: "adaptx_Limiter \<Rightarrow> adaptx_Limiter" where
  "adaptx_Close l = fst (adaptx_CloseWithTimeout id 0 l)"

definition adaptx_IsClosed :: "adaptx_Limiter \<Rightarrow> bool" where "adaptx_IsClosed l = al_closed l"

interpretation adaptx: closer adaptx_Close adaptx_IsClosed
  by unfold_locales
    (simp_all add: adaptx_Close_def adaptx_CloseWithTimeout_def adaptx_IsClosed_def Let_def adaptx_drainSemaphore_def
      adaptx_waitForDrain_def adaptx_signalDrainIfIdle_def)

subsection \<open>Statistics\<close>

record adaptx_Stats =
  at_Algorithm :: string
  at_Limit :: int
  at_MinLimit :: int
  at_MaxLimit :: int
  at_InFlight :: int
  at_Total :: int
  at_Success :: int
  at_Failures :: int
  at_Rejected :: int
  at_Increases :: int
  at_Decreases :: int
  at_AvgLat :: int
  at_MinLat :: int
  at_MaxLat :: int
  at_P50Lat :: int
  at_P99Lat :: int

definition adaptx_p50 :: f64 where "adaptx_p50 = 1 / 2"
definition adaptx_p99 :: f64 where "adaptx_p99 = f64_round (99 / 100)"

text \<open>The recorded samples, oldest first, as the loop of \<open>Stats\<close> visits the ring.\<close>

definition adaptx_ring :: "adaptx_Limiter \<Rightarrow> adaptx_sample list" where
  "adaptx_ring l =
     map (\<lambda>i. al_samples l ! nat ((int (al_head l) - int (al_count l) + int i + int (al_ringCap l)) mod int (al_ringCap l))) [0..<al_count l]"

definition adaptx_recent :: "int \<Rightarrow> adaptx_Limiter \<Rightarrow> int list" where
  "adaptx_recent now l = map as_latency (filter (\<lambda>s. now - ac_sampleWindow (al_cfg l) < as_ts s) (adaptx_ring l))"

definition adaptx_percentile :: "(f64 \<Rightarrow> int) \<Rightarrow> int list \<Rightarrow> f64 \<Rightarrow> int" where
  "adaptx_percentile oob lats p = sort lats ! nat (f64_to_i64 oob (f64_mul (f64_of_int (int (length lats) - 1)) p))"

definition adaptx_LimiterStats :: "(f64 \<Rightarrow> int) \<Rightarrow> int \<Rightarrow> adaptx_Limiter \<Rightarrow> adaptx_Stats" where
  "adaptx_LimiterStats oob now l =
     (let lats = adaptx_recent now l;
          total = fold (\<lambda>d t. wrap_i64 (t + d)) lats 0;
          minL = (if lats = [] then 0 else fold (\<lambda>d m. if d < m then d else m) lats (hd lats));
          maxL = (if lats = [] then 0 else fold (\<lambda>d m. if m < d then d else m) lats 0)
      in \<lparr>at_Algorithm = adaptx_Algorithm_String (ac_algorithm (al_cfg l)), at_Limit = al_limit l,
          at_MinLimit = ac_minLimit (al_cfg l), at_MaxLimit = ac_maxLimit (al_cfg l), at_InFlight = al_inFlight l,
          at_Total = al_total l, at_Success = al_success l, at_Failures = al_fail l, at_Rejected = al_rejected l,
          at_Increases = al_incr l, at_Decreases = al_decr l,
          at_AvgLat = (if lats = [] then 0 else total sdiv int (length lats)), at_MinLat = minL, at_MaxLat = maxL,
          at_P50Lat = (if lats = [] then 0 else adaptx_percentile oob lats adaptx_p50),
          at_P99Lat = (if lats = [] then 0 else adaptx_percentile oob lats adaptx_p99)\<rparr>)"

definition adaptx_reconcilePermitsLocked :: "adaptx_Limiter \<Rightarrow> adaptx_Limiter" where
  "adaptx_reconcilePermitsLocked l =
     (let l1 = l\<lparr>al_sem := 0\<rparr>; want = al_limit l1 - al_inFlight l1; want1 = (if want < 0 then 0 else want)
      in (adaptx_send ^^ nat want1) l1)"

definition adaptx_ResetStats :: "int \<Rightarrow> adaptx_Limiter \<Rightarrow> adaptx_Limiter" where
  "adaptx_ResetStats now l =
     (let resetLimit = (if ac_initialLimit (al_cfg l) < al_inFlight l then al_inFlight l else ac_initialLimit (al_cfg l));
          l1 = l\<lparr>al_limit := resetLimit, al_debt := 0, al_avgLat := 0, al_minLat := adaptx_MaxFloat64, al_increaseCredit := 0,
                 al_head := 0, al_count := 0, al_seen := 0\<rparr>;
          l2 = adaptx_resetWindow now l1;
          l3 = adaptx_reconcilePermitsLocked (l2\<lparr>al_samples := replicate (length (al_samples l2)) adaptx_zeroSample\<rparr>)
      in l3\<lparr>al_total := 0, al_success := 0, al_fail := 0, al_rejected := 0, al_incr := 0, al_decr := 0\<rparr>)"

end
