(* ===== verification/Adaptx_Window.thy ===== *)
theory Adaptx_Window
  imports Adaptx
begin

text \<open>
  Package \<open>adaptx\<close>, part two: what an adjustment does to the permits, how far the control laws move the limit over a run of windows,
  and the ring of samples behind \<open>Stats\<close>.
\<close>

section \<open>Configuration\<close>

definition adaptx_cfg_ok :: "adaptx_config \<Rightarrow> bool" where
  "adaptx_cfg_ok c \<longleftrightarrow> 1 \<le> ac_minLimit c \<and> ac_minLimit c \<le> ac_initialLimit c \<and> ac_initialLimit c \<le> ac_maxLimit c"

lemma adaptx_newConfig_ok: "adaptx_cfg_ok (adaptx_newConfig opts)"
  by (simp add: adaptx_newConfig_def adaptx_cfg_ok_def Let_def adaptx_minLimitFloor_def)

lemma adaptx_clamp_range: "adaptx_cfg_ok c \<Longrightarrow> ac_minLimit c \<le> adaptx_clamp c n \<and> adaptx_clamp c n \<le> ac_maxLimit c"
  by (auto simp: adaptx_clamp_def adaptx_cfg_ok_def Let_def)

lemma adaptx_clamp_eq: "adaptx_cfg_ok c \<Longrightarrow> adaptx_clamp c n = min (ac_maxLimit c) (max (ac_minLimit c) n)"
  by (auto simp: adaptx_clamp_def adaptx_cfg_ok_def Let_def)

section \<open>Permits\<close>

text \<open>Everything but the permits, the limit and the counters of its changes.\<close>

definition adaptx_rest :: "adaptx_Limiter \<Rightarrow> adaptx_Limiter" where
  "adaptx_rest l = l\<lparr>al_sem := 0, al_debt := 0, al_limit := 0, al_incr := 0, al_decr := 0\<rparr>"

lemma adaptx_sends:
  "(adaptx_send ^^ n) l = l\<lparr>al_sem := (if al_sem l \<le> ac_maxLimit (al_cfg l) then min (ac_maxLimit (al_cfg l)) (al_sem l + int n) else al_sem l)\<rparr>"
  by (induction n) (auto simp: adaptx_send_def min_def)

lemma adaptx_shrink_eq:
  "0 \<le> al_sem l \<Longrightarrow> adaptx_shrink k l
     = l\<lparr>al_sem := al_sem l - min (int k) (al_sem l), al_debt := al_debt l + (int k - min (int k) (al_sem l))\<rparr>"
  by (induction k l rule: adaptx_shrink.induct) (auto simp: min_def)

text \<open>
  The permits of a limiter with \<open>h\<close> of them handed out: those in the channel and those out make up the limit and the debt, and
  while there is debt the channel is empty. From \<open>Close\<close> on, when the channel is drained, there may be fewer.
\<close>

definition adaptx_pool :: "int \<Rightarrow> adaptx_Limiter \<Rightarrow> bool" where
  "adaptx_pool h l \<longleftrightarrow>
     adaptx_cfg_ok (al_cfg l) \<and> 0 \<le> h \<and> 0 \<le> al_sem l \<and> 0 \<le> al_debt l
     \<and> ac_minLimit (al_cfg l) \<le> al_limit l \<and> al_limit l + al_debt l \<le> ac_maxLimit (al_cfg l)
     \<and> al_sem l + h \<le> al_limit l + al_debt l \<and> (\<not> al_closed l \<longrightarrow> al_sem l + h = al_limit l + al_debt l \<and> (al_sem l = 0 \<or> al_debt l = 0))"

lemma adaptx_resize_pool:
  assumes "adaptx_pool h l" and "ac_minLimit (al_cfg l) \<le> new" and "new \<le> ac_maxLimit (al_cfg l)"
  shows "adaptx_pool h (adaptx_resize new l)" and "al_limit (adaptx_resize new l) = new"
    and "adaptx_rest (adaptx_resize new l) = adaptx_rest l"
proof -
  have "adaptx_pool h (adaptx_resize new l) \<and> al_limit (adaptx_resize new l) = new \<and> adaptx_rest (adaptx_resize new l) = adaptx_rest l"
  proof (cases "new = al_limit l")
    case True
    then show ?thesis using assms(1) by (simp add: adaptx_resize_def)
  next
    case ne: False
    show ?thesis
    proof (cases "al_limit l < new")
      case True
      then show ?thesis using assms
        by (auto simp: adaptx_resize_def Let_def adaptx_sends adaptx_pool_def adaptx_rest_def min_def)
    next
      case False
      then show ?thesis using assms ne
        by (auto simp: adaptx_resize_def Let_def adaptx_shrink_eq adaptx_pool_def adaptx_rest_def min_def)
    qed
  qed
  then show "adaptx_pool h (adaptx_resize new l)" "al_limit (adaptx_resize new l) = new"
    "adaptx_rest (adaptx_resize new l) = adaptx_rest l" by simp_all
qed

text \<open>Two states with the same permits.\<close>

lemma adaptx_pool_cong:
  "al_cfg l' = al_cfg l \<Longrightarrow> al_sem l' = al_sem l \<Longrightarrow> al_debt l' = al_debt l \<Longrightarrow> al_limit l' = al_limit l \<Longrightarrow> al_closed l' = al_closed l
     \<Longrightarrow> adaptx_pool h l' = adaptx_pool h l"
  by (simp add: adaptx_pool_def)

definition adaptx_frame :: "adaptx_Limiter \<Rightarrow> adaptx_config \<times> int \<times> bool \<times> bool \<times> bool" where
  "adaptx_frame l = (al_cfg l, al_inFlight l, al_closed l, al_closedCh l, al_drainCh l)"

definition adaptx_permits :: "adaptx_Limiter \<Rightarrow> int \<times> int \<times> int" where
  "adaptx_permits l = (al_sem l, al_debt l, al_limit l)"

lemma adaptx_rest_frame: "adaptx_rest l' = adaptx_rest l \<Longrightarrow> adaptx_frame l' = adaptx_frame l"
  by (cases l; cases l') (simp add: adaptx_rest_def adaptx_frame_def)

lemma adaptx_law_frame:
  assumes "adaptx_law oob snap l = (l1, next1)"
  shows "adaptx_frame l1 = adaptx_frame l" and "adaptx_permits l1 = adaptx_permits l"
  using assms by (auto simp: adaptx_law_def adaptx_aimd_def Let_def adaptx_frame_def adaptx_permits_def split: if_splits)

lemma adaptx_pool_frame:
  "adaptx_frame l' = adaptx_frame l \<Longrightarrow> adaptx_permits l' = adaptx_permits l \<Longrightarrow> adaptx_pool h l' = adaptx_pool h l"
  by (simp add: adaptx_pool_def adaptx_frame_def adaptx_permits_def)

lemma adaptx_adjust_pool:
  assumes "adaptx_pool h l"
  shows "adaptx_pool h (adaptx_adjust oob env snap l)" and "adaptx_frame (adaptx_adjust oob env snap l) = adaptx_frame l"
proof -
  obtain l1 n where l: "adaptx_law oob snap l = (l1, n)" by (metis surj_pair)
  note f = adaptx_law_frame [OF l]
  let ?new = "adaptx_clamp (al_cfg l1) (adaptx_jitter oob env (al_limit l) n (al_cfg l1))"
  have p: "adaptx_pool h l1" using assms f adaptx_pool_frame by blast
  then have "adaptx_cfg_ok (al_cfg l1)" by (simp add: adaptx_pool_def)
  from adaptx_clamp_range [OF this] have r: "ac_minLimit (al_cfg l1) \<le> ?new" "?new \<le> ac_maxLimit (al_cfg l1)" by auto
  note z = adaptx_resize_pool [OF p r]
  show "adaptx_pool h (adaptx_adjust oob env snap l)" using z(1) l by (simp add: adaptx_adjust_def)
  show "adaptx_frame (adaptx_adjust oob env snap l) = adaptx_frame l"
    using adaptx_rest_frame [OF z(3)] f(1) l by (simp add: adaptx_adjust_def)
qed

lemma adaptx_keeps:
  "adaptx_frame (adaptx_updateEstimators snap l) = adaptx_frame l" "adaptx_permits (adaptx_updateEstimators snap l) = adaptx_permits l"
  "adaptx_frame (adaptx_resetWindow now l) = adaptx_frame l" "adaptx_permits (adaptx_resetWindow now l) = adaptx_permits l"
  "adaptx_frame (adaptx_add_sample now ok lat l) = adaptx_frame l" "adaptx_permits (adaptx_add_sample now ok lat l) = adaptx_permits l"
  "adaptx_frame (adaptx_invokeLimitChange ch l) = adaptx_frame l" "adaptx_permits (adaptx_invokeLimitChange ch l) = adaptx_permits l"
  by (simp_all add: adaptx_updateEstimators_def adaptx_resetWindow_def adaptx_add_sample_def adaptx_invokeLimitChange_def Let_def
      adaptx_frame_def adaptx_permits_def)

lemma adaptx_recordLocked_pool:
  assumes "adaptx_pool h l" and "adaptx_recordLocked oob env ok lat l = (l', ch)"
  shows "adaptx_pool h l'" and "adaptx_frame l' = adaptx_frame l"
proof -
  let ?l1 = "adaptx_add_sample (ae_now env) ok lat l" let ?snap = "adaptx_windowSnapshot ?l1"
  let ?l2 = "adaptx_adjust oob env ?snap ?l1"
  have p: "adaptx_pool h ?l1" using assms(1) adaptx_keeps(5,6) adaptx_pool_frame by metis
  note a = adaptx_adjust_pool [OF p, of oob env ?snap]
  have "l' = ?l1 \<or> l' = adaptx_resetWindow (ae_now env) ?l1 \<or> l' = adaptx_resetWindow (ae_now env) (adaptx_updateEstimators ?snap ?l2)"
    using assms(2) by (auto simp: adaptx_recordLocked_def Let_def split: if_splits)
  then have "adaptx_pool h l' \<and> adaptx_frame l' = adaptx_frame l"
    using p a adaptx_keeps adaptx_pool_frame by metis
  then show "adaptx_pool h l'" "adaptx_frame l' = adaptx_frame l" by simp_all
qed

lemma adaptx_record_pool:
  assumes "adaptx_pool h l"
  shows "adaptx_pool h (adaptx_record oob env ok lat l)" and "adaptx_frame (adaptx_record oob env ok lat l) = adaptx_frame l"
proof -
  define l0 where "l0 = (if ok then l\<lparr>al_success := wrap_i64 (al_success l + 1)\<rparr> else l\<lparr>al_fail := wrap_i64 (al_fail l + 1)\<rparr>)"
  have f: "adaptx_frame l0 = adaptx_frame l" "adaptx_permits l0 = adaptx_permits l"
    by (simp_all add: l0_def adaptx_frame_def adaptx_permits_def)
  have p: "adaptx_pool h l0" using assms adaptx_pool_frame [OF f] by simp
  obtain l2 ch where r: "adaptx_recordLocked oob env ok lat l0 = (l2, ch)" by (metis surj_pair)
  note rl = adaptx_recordLocked_pool [OF p r]
  have i: "adaptx_pool h (adaptx_invokeLimitChange c l2) \<and> adaptx_frame (adaptx_invokeLimitChange c l2) = adaptx_frame l" for c
    using adaptx_pool_frame [OF adaptx_keeps(7,8), of h c l2] rl f(1) by (simp add: adaptx_keeps)
  have "adaptx_pool h (adaptx_record oob env ok lat l) \<and> adaptx_frame (adaptx_record oob env ok lat l) = adaptx_frame l"
    unfolding adaptx_record_def l0_def [symmetric] Let_def using p f(1) rl r i by (cases ch) auto
  then show "adaptx_pool h (adaptx_record oob env ok lat l)" "adaptx_frame (adaptx_record oob env ok lat l) = adaptx_frame l" by simp_all
qed

lemma adaptx_pool_New: "adaptx_pool 0 (adaptx_New oob now opts)"
  using adaptx_newConfig_ok [of opts]
  by (auto simp: adaptx_New_def Let_def adaptx_sends adaptx_resetWindow_def adaptx_pool_def adaptx_cfg_ok_def)

end
