(* ===== verification/Adaptx_Law.thy ===== *)
theory Adaptx_Law
  imports Adaptx_Window
begin

text \<open>
  Package \<open>adaptx\<close>, part three: the limit over a run of windows. AIMD's credit loses nothing to rounding when the rate is a dyadic
  number, so the growth after \<open>n\<close> windows is the floor of \<open>n\<close> times the rate; a failing window halves.
\<close>

section \<open>One adjustment\<close>

lemma adaptx_shrink_rest: "adaptx_rest (adaptx_shrink k l) = adaptx_rest l \<and> al_limit (adaptx_shrink k l) = al_limit l"
proof (induction k l rule: adaptx_shrink.induct)
  case (2 k l)
  then show ?case by (auto simp: adaptx_rest_def)
qed simp

lemma adaptx_resize_limit: "al_limit (adaptx_resize new l) = new" "adaptx_rest (adaptx_resize new l) = adaptx_rest l"
proof -
  have "al_limit (adaptx_resize new l) = new \<and> adaptx_rest (adaptx_resize new l) = adaptx_rest l"
    by (cases "new = al_limit l") (auto simp: adaptx_resize_def Let_def adaptx_shrink_rest adaptx_sends, auto simp: adaptx_rest_def)
  then show "al_limit (adaptx_resize new l) = new" "adaptx_rest (adaptx_resize new l) = adaptx_rest l" by simp_all
qed

lemma adaptx_rest_fields:
  assumes "adaptx_rest l' = adaptx_rest l"
  shows "al_cfg l' = al_cfg l" "al_increaseCredit l' = al_increaseCredit l" "al_avgLat l' = al_avgLat l" "al_minLat l' = al_minLat l"
  using assms by (cases l; cases l'; simp add: adaptx_rest_def)+

lemma adaptx_adjust_limit:
  assumes "adaptx_cfg_ok (al_cfg l)" and "ac_jitter (al_cfg l) = 0" and "adaptx_law oob snap l = (l1, n)"
  shows "al_limit (adaptx_adjust oob env snap l) = min (ac_maxLimit (al_cfg l)) (max (ac_minLimit (al_cfg l)) n)"
    and "al_cfg (adaptx_adjust oob env snap l) = al_cfg l"
    and "al_increaseCredit (adaptx_adjust oob env snap l) = al_increaseCredit l1"
proof -
  have c: "al_cfg l1 = al_cfg l" using adaptx_law_frame(1) [OF assms(3)] by (simp add: adaptx_frame_def)
  have e: "adaptx_adjust oob env snap l = adaptx_resize (adaptx_clamp (al_cfg l) n) l1"
    by (simp add: adaptx_adjust_def assms(2,3) adaptx_jitter_def c)
  show "al_limit (adaptx_adjust oob env snap l) = min (ac_maxLimit (al_cfg l)) (max (ac_minLimit (al_cfg l)) n)"
    by (simp add: e adaptx_resize_limit adaptx_clamp_eq [OF assms(1)])
  show "al_cfg (adaptx_adjust oob env snap l) = al_cfg l" "al_increaseCredit (adaptx_adjust oob env snap l) = al_increaseCredit l1"
    using adaptx_rest_fields [OF adaptx_resize_limit(2), of "adaptx_clamp (al_cfg l) n" l1] by (simp_all add: e c)
qed

section \<open>Additive increase\<close>

lemma f64_to_i64_trunc: "- (2 ^ 63) \<le> f64_trunc x \<Longrightarrow> f64_trunc x < 2 ^ 63 \<Longrightarrow> f64_to_i64 oob x = f64_trunc x"
  by (simp add: f64_to_i64_def Let_def)

text \<open>The utilisation gate asks for no more than the limit.\<close>

lemma adaptx_need_le:
  assumes "0 \<le> m" and "m < 2 ^ 53" and "0 \<le> util" and "util \<le> 1"
  shows "f64_to_i64 oob (of_int \<lceil>f64_mul (f64_of_int m) util\<rceil>) \<le> m"
proof -
  have x: "f64_of_int m = of_int m" using assms by (intro f64_of_int_exact) simp
  have "of_int m * util \<le> of_int m" using assms by (simp add: mult_left_le)
  then have "f64_round (of_int m * util) \<le> f64_round (of_int m)" by (rule f64_round_mono)
  also have "f64_round (of_int m) = of_int m" using x by (simp add: f64_of_int_def)
  finally have u: "\<lceil>f64_mul (f64_of_int m) util\<rceil> \<le> m" by (simp add: f64_mul_def x ceiling_le_iff)
  have "0 \<le> f64_mul (f64_of_int m) util" using assms by (intro f64_mul_nonneg f64_of_int_nonneg)
  then have "0 \<le> \<lceil>f64_mul (f64_of_int m) util\<rceil>" by (metis ceiling_mono ceiling_zero)
  then obtain z where z: "z = \<lceil>f64_mul (f64_of_int m) util\<rceil>" "0 \<le> z" by blast
  with u assms(2) show ?thesis unfolding z(1) [symmetric] by (simp add: f64_to_i64_def)
qed

text \<open>A window that passes the gate.\<close>

definition adaptx_busy :: "adaptx_config \<Rightarrow> adaptx_windowSnap \<Rightarrow> bool" where
  "adaptx_busy c snap \<longleftrightarrow> aw_fails snap = 0 \<and> ac_maxLimit c \<le> aw_maxInFlight snap"

lemma adaptx_aimd_busy:
  assumes "adaptx_busy (al_cfg l) snap" and "adaptx_cfg_ok (al_cfg l)" and "0 < ac_utilization (al_cfg l)" and "ac_utilization (al_cfg l) \<le> 1"
    and "ac_maxLimit (al_cfg l) < 2 ^ 53" and "0 \<le> al_limit l" and "al_limit l \<le> ac_maxLimit (al_cfg l)"
    and "ac_increaseRate (al_cfg l) = of_int a / 2 ^ k" and "0 \<le> a" and "a + 2 ^ k \<le> 2 ^ 53"
    and "al_increaseCredit l = of_int c / 2 ^ k" and "0 \<le> c" and "c < 2 ^ k"
  shows "adaptx_aimd oob snap l = (l\<lparr>al_increaseCredit := of_int ((c + a) mod 2 ^ k) / 2 ^ k\<rparr>, al_limit l + (c + a) div 2 ^ k)"
proof -
  let ?step = "(c + a) div 2 ^ k"
  have lim: "al_limit l < 2 ^ 53" using assms(5,7) by simp
  have need: "f64_to_i64 oob (of_int \<lceil>f64_mul (f64_of_int (al_limit l)) (ac_utilization (al_cfg l))\<rceil>) \<le> al_limit l"
    using assms(3,4,6) lim by (intro adaptx_need_le) simp_all
  have ca: "0 \<le> c + a" "c + a < 2 ^ 53" using assms(9,10,12,13) by simp_all
  have credit: "f64_add (al_increaseCredit l) (ac_increaseRate (al_cfg l)) = of_int (c + a) / 2 ^ k"
    using ca f64_round_dyadic [of "c + a" k] by (simp add: f64_add_def assms(8,11) add_divide_distrib)
  have fl: "\<lfloor>of_int (c + a) / (2 ^ k :: rat)\<rfloor> = ?step"
    using floor_divide_of_int_eq [of "c + a" "2 ^ k", where 'a = rat] by simp
  have st: "0 \<le> ?step" "?step \<le> c + a"
    using ca zdiv_mono2 [of "c + a" 1 "2 ^ k"] by (simp_all add: pos_imp_zdiv_nonneg_iff)
  have tr: "f64_trunc (of_int (c + a) / 2 ^ k) = ?step" using ca(1) fl by (simp add: f64_trunc_def)
  have step: "f64_to_i64 oob (of_int (c + a) / 2 ^ k) = ?step"
    using st ca tr by (subst f64_to_i64_trunc) simp_all
  have rest: "f64_sub (of_int (c + a) / 2 ^ k) (f64_of_int ?step) = of_int ((c + a) mod 2 ^ k) / 2 ^ k"
  proof -
    have "f64_of_int ?step = of_int ?step" using st ca by (intro f64_of_int_exact) simp
    moreover have "of_int (c + a) / 2 ^ k - of_int ?step = (of_int ((c + a) mod 2 ^ k) / 2 ^ k :: rat)"
    proof -
      have "of_int (c + a) = (of_int (?step * 2 ^ k + (c + a) mod 2 ^ k) :: rat)" by (simp only: div_mult_mod_eq)
      then have "of_int (c + a) = (of_int ?step * 2 ^ k + of_int ((c + a) mod 2 ^ k) :: rat)" by (simp only: of_int_add of_int_mult of_int_power of_int_numeral)
      then show ?thesis by (simp only: diff_divide_distrib [symmetric] add_divide_distrib) simp
    qed
    moreover have "(c + a) mod 2 ^ k \<le> c + a" using ca by (simp add: zmod_le_nonneg_dividend)
    ultimately show ?thesis using ca f64_round_dyadic [of "(c + a) mod 2 ^ k" k] by (simp add: f64_sub_def)
  qed
  have "wrap_i64 (al_limit l + ?step) = al_limit l + ?step" using st ca lim assms(6) by (intro wrap_i64_id) simp_all
  with need assms(1,7) show ?thesis by (simp add: adaptx_aimd_def adaptx_busy_def Let_def credit step rest del: of_int_add)
qed

text \<open>A run of windows, each with the clock and the random numbers its adjustment reads.\<close>

definition adaptx_windows :: "(f64 \<Rightarrow> int) \<Rightarrow> (adaptx_env \<times> adaptx_windowSnap) list \<Rightarrow> adaptx_Limiter \<Rightarrow> adaptx_Limiter" where
  "adaptx_windows oob ws = fold (\<lambda>(env, snap). adaptx_adjust oob env snap) ws"

lemma adaptx_windows_busy:
  assumes "\<forall>(env, snap)\<in>set ws. adaptx_busy (al_cfg l) snap" and "adaptx_cfg_ok (al_cfg l)"
    and "ac_algorithm (al_cfg l) = adaptx_AIMD" and "ac_jitter (al_cfg l) = 0"
    and "0 < ac_utilization (al_cfg l)" and "ac_utilization (al_cfg l) \<le> 1" and "ac_maxLimit (al_cfg l) < 2 ^ 53"
    and "ac_increaseRate (al_cfg l) = of_int a / 2 ^ k" and "0 \<le> a" and "a + 2 ^ k \<le> 2 ^ 53"
    and "ac_minLimit (al_cfg l) \<le> al_limit l" and "al_limit l \<le> ac_maxLimit (al_cfg l)"
    and "al_increaseCredit l = of_int c / 2 ^ k" and "0 \<le> c" and "c < 2 ^ k"
  shows "al_limit (adaptx_windows oob ws l) = min (ac_maxLimit (al_cfg l)) (al_limit l + (c + int (length ws) * a) div 2 ^ k)"
  using assms
proof (induction ws arbitrary: l c)
  case Nil
  then show ?case by (simp add: adaptx_windows_def)
next
  case (Cons w ws)
  obtain env snap where w: "w = (env, snap)" by (cases w)
  let ?l = "adaptx_adjust oob env snap l" and ?step = "(c + a) div 2 ^ k" and ?M = "ac_maxLimit (al_cfg l)"
  have b: "adaptx_busy (al_cfg l) snap" using Cons.prems(1) w by simp
  have nn: "0 \<le> al_limit l" using Cons.prems(2,11) by (simp add: adaptx_cfg_ok_def)
  have ai: "adaptx_aimd oob snap l = (l\<lparr>al_increaseCredit := of_int ((c + a) mod 2 ^ k) / 2 ^ k\<rparr>, al_limit l + ?step)"
    using Cons.prems b nn by (intro adaptx_aimd_busy) simp_all
  then have law: "adaptx_law oob snap l = (l\<lparr>al_increaseCredit := of_int ((c + a) mod 2 ^ k) / 2 ^ k\<rparr>, al_limit l + ?step)"
    using Cons.prems(3) by (simp add: adaptx_law_def adaptx_algorithms)
  note adj = adaptx_adjust_limit [OF Cons.prems(2,4) law, of env]
  have st: "0 \<le> ?step" using Cons.prems(9,14) by (simp add: pos_imp_zdiv_nonneg_iff)
  have lim: "al_limit ?l = min ?M (al_limit l + ?step)" using adj(1) st Cons.prems(11) by simp
  have "al_limit (adaptx_windows oob ws ?l)
      = min (ac_maxLimit (al_cfg ?l)) (al_limit ?l + ((c + a) mod 2 ^ k + int (length ws) * a) div 2 ^ k)"
    using Cons.prems st by (intro Cons.IH) (simp_all add: adj(2,3) lim)
  also have "\<dots> = min ?M (al_limit l + (?step + ((c + a) mod 2 ^ k + int (length ws) * a) div 2 ^ k))"
  proof -
    have "0 \<le> ((c + a) mod 2 ^ k + int (length ws) * a) div 2 ^ k" using Cons.prems(9) by (simp add: pos_imp_zdiv_nonneg_iff)
    with st show ?thesis by (auto simp: adj(2) lim min_def)
  qed
  also have "?step + ((c + a) mod 2 ^ k + int (length ws) * a) div 2 ^ k = (c + int (length (w # ws)) * a) div 2 ^ k"
  proof -
    have "c + int (length (w # ws)) * a = ((c + a) mod 2 ^ k + int (length ws) * a) + ?step * 2 ^ k"
      using div_mult_mod_eq [of "c + a" "2 ^ k"] by (simp add: algebra_simps)
    then show ?thesis by simp
  qed
  finally show ?case by (simp add: adaptx_windows_def w)
qed

section \<open>Multiplicative decrease\<close>

lemma adaptx_windows_failing:
  assumes "\<forall>(env, snap)\<in>set ws. 0 < aw_fails snap" and "adaptx_cfg_ok (al_cfg l)"
    and "ac_algorithm (al_cfg l) \<noteq> adaptx_Vegas" and "ac_jitter (al_cfg l) = 0" and "ac_decreaseRatio (al_cfg l) = 1 / 2"
    and "ac_maxLimit (al_cfg l) < 2 ^ 53" and "ac_minLimit (al_cfg l) \<le> al_limit l" and "al_limit l \<le> ac_maxLimit (al_cfg l)"
  shows "al_limit (adaptx_windows oob ws l) = max (ac_minLimit (al_cfg l)) (al_limit l div 2 ^ length ws)"
  using assms
proof (induction ws arbitrary: l)
  case Nil
  then show ?case by (simp add: adaptx_windows_def)
next
  case (Cons w ws)
  obtain env snap where w: "w = (env, snap)" by (cases w)
  let ?l = "adaptx_adjust oob env snap l"
  have pos: "1 \<le> al_limit l" "al_limit l < 2 ^ 53" using Cons.prems(2,6-8) by (simp_all add: adaptx_cfg_ok_def)
  have half: "f64_to_i64 oob (f64_mul (f64_of_int (al_limit l)) (ac_decreaseRatio (al_cfg l))) = al_limit l div 2"
  proof -
    have "f64_of_int (al_limit l) = of_int (al_limit l)" using pos by (intro f64_of_int_exact) simp
    then have "f64_mul (f64_of_int (al_limit l)) (ac_decreaseRatio (al_cfg l)) = of_int (al_limit l) / 2"
      using pos f64_round_dyadic [of "al_limit l" 1] by (simp add: f64_mul_def Cons.prems(5))
    then have m: "f64_mul (f64_of_int (al_limit l)) (ac_decreaseRatio (al_cfg l)) = of_int (al_limit l) / of_int 2" by simp
    have "f64_trunc (of_int (al_limit l) / of_int 2) = al_limit l div 2"
      unfolding f64_trunc_def floor_divide_of_int_eq using pos by simp
    moreover have "0 \<le> al_limit l div 2" "al_limit l div 2 \<le> al_limit l" using pos zdiv_mono2 [of "al_limit l" 1 2] by simp_all
    then have "- (2 ^ 63) \<le> al_limit l div 2" "al_limit l div 2 < 2 ^ 63" using pos by simp_all
    ultimately show ?thesis unfolding m by (simp add: f64_to_i64_def Let_def)
  qed
  have "snd (adaptx_law oob snap l) = al_limit l div 2"
    using Cons.prems(1,3) w half by (simp add: adaptx_law_def adaptx_aimd_def adaptx_gradient_def Let_def)
  then obtain l1 where law: "adaptx_law oob snap l = (l1, al_limit l div 2)" by (metis prod.collapse)
  note adj = adaptx_adjust_limit [OF Cons.prems(2,4) law, of env]
  have lim: "al_limit ?l = max (ac_minLimit (al_cfg l)) (al_limit l div 2)"
    using adj(1) Cons.prems(2,8) pos by (auto simp: adaptx_cfg_ok_def)
  have "al_limit (adaptx_windows oob ws ?l) = max (ac_minLimit (al_cfg ?l)) (al_limit ?l div 2 ^ length ws)"
    using Cons.prems pos by (intro Cons.IH) (auto simp: adj(2) lim adaptx_cfg_ok_def)
  also have "\<dots> = max (ac_minLimit (al_cfg l)) (al_limit l div 2 div 2 ^ length ws)"
  proof (cases "ac_minLimit (al_cfg l) \<le> al_limit l div 2")
    case False
    have "ac_minLimit (al_cfg l) div 2 ^ length ws \<le> ac_minLimit (al_cfg l)"
      using Cons.prems(2) zdiv_mono2 [of "ac_minLimit (al_cfg l)" 1 "2 ^ length ws"] by (simp add: adaptx_cfg_ok_def)
    moreover have "al_limit l div 2 div 2 ^ length ws \<le> ac_minLimit (al_cfg l) div 2 ^ length ws" using False by (intro zdiv_mono1) simp_all
    ultimately show ?thesis using False by (simp add: adj(2) lim max_def)
  qed (simp add: adj(2) lim)
  also have "al_limit l div 2 div 2 ^ length ws = al_limit l div 2 ^ length (w # ws)"
    by (simp add: zdiv_zmult2_eq)
  finally show ?case by (simp add: adaptx_windows_def w)
qed

section \<open>Properties\<close>

text \<open>
  Additive increase. Over \<open>n\<close> windows without failures that reach the utilisation gate, AIMD with the dyadic rate \<open>a / 2 ^ k\<close> (one
  half grows by one every two windows) raises the limit by exactly the floor of \<open>n\<close> times the rate, and stops at the maximum: the
  credit carries the remainder without a rounding error, whatever the clocks.
\<close>

theorem adaptx_additive_increase:
  assumes "\<forall>(env, snap)\<in>set ws. adaptx_busy (al_cfg l) snap" and "adaptx_cfg_ok (al_cfg l)"
    and "ac_algorithm (al_cfg l) = adaptx_AIMD" and "ac_jitter (al_cfg l) = 0"
    and "0 < ac_utilization (al_cfg l)" and "ac_utilization (al_cfg l) \<le> 1" and "ac_maxLimit (al_cfg l) < 2 ^ 53"
    and "ac_increaseRate (al_cfg l) = of_int a / 2 ^ k" and "0 \<le> a" and "a + 2 ^ k \<le> 2 ^ 53"
    and "ac_minLimit (al_cfg l) \<le> al_limit l" and "al_limit l \<le> ac_maxLimit (al_cfg l)" and "al_increaseCredit l = 0"
  shows "al_limit (adaptx_windows oob ws l)
    = min (ac_maxLimit (al_cfg l)) (al_limit l + \<lfloor>of_nat (length ws) * ac_increaseRate (al_cfg l)\<rfloor>)"
proof -
  have "\<lfloor>of_nat (length ws) * ac_increaseRate (al_cfg l)\<rfloor> = (int (length ws) * a) div 2 ^ k"
    using floor_divide_of_int_eq [of "int (length ws) * a" "2 ^ k", where 'a = rat] by (simp add: assms(8))
  then show ?thesis using adaptx_windows_busy [OF assms(1-12), of 0 oob] assms(13) by simp
qed

definition adaptx_demo_opts :: "(adaptx_config \<Rightarrow> adaptx_config) option list" where
  "adaptx_demo_opts = [Some (adaptx_WithJitter 0), Some (adaptx_WithIncreaseRate (1 / 2)), Some (adaptx_WithUtilization 1)]"

lemma adaptx_demo:
  "al_cfg (adaptx_New oob 0 opts) = adaptx_newConfig opts" "al_limit (adaptx_New oob 0 opts) = ac_initialLimit (adaptx_newConfig opts)"
  "al_increaseCredit (adaptx_New oob 0 opts) = 0" "ac_algorithm (adaptx_newConfig adaptx_demo_opts) = adaptx_AIMD"
  "ac_jitter (adaptx_newConfig adaptx_demo_opts) = 0" "ac_utilization (adaptx_newConfig adaptx_demo_opts) = 1"
  "ac_maxLimit (adaptx_newConfig adaptx_demo_opts) = 1000" "ac_minLimit (adaptx_newConfig adaptx_demo_opts) = 1"
  "ac_initialLimit (adaptx_newConfig adaptx_demo_opts) = 10" "ac_increaseRate (adaptx_newConfig adaptx_demo_opts) = 1 / 2"
  "ac_decreaseRatio (adaptx_newConfig adaptx_demo_opts) = 1 / 2"
  by (simp_all add: adaptx_New_def Let_def adaptx_sends adaptx_resetWindow_def adaptx_newConfig_def adaptx_demo_opts_def
      adaptx_WithJitter_def adaptx_WithIncreaseRate_def adaptx_WithUtilization_def adaptx_minLimitFloor_def adaptx_DefaultMaxLimit_def
      adaptx_DefaultMinLimit_def adaptx_DefaultInitialLimit_def adaptx_DefaultDecreaseRatio_def)

lemma adaptx_additive_increase_witness:
  "al_limit (adaptx_windows (\<lambda>_. 0) (replicate 5 (\<lparr>ae_now = 7, ae_rand1 = 0, ae_rand2 = 0\<rparr>, \<lparr>aw_n = 9, aw_fails = 0, aw_maxInFlight = 1000, aw_meanRTT = 5, aw_minRTT = 4\<rparr>))
     (adaptx_New (\<lambda>_. 0) 0 adaptx_demo_opts)) = 12"
proof -
  let ?ws = "replicate 5 (\<lparr>ae_now = 7, ae_rand1 = 0, ae_rand2 = 0\<rparr>, \<lparr>aw_n = 9, aw_fails = 0, aw_maxInFlight = 1000, aw_meanRTT = 5, aw_minRTT = 4\<rparr>)"
  have "\<lfloor>5 / (2 :: rat)\<rfloor> = 2" by (simp add: floor_eq_iff)
  then show ?thesis
    using adaptx_additive_increase [of ?ws "adaptx_New (\<lambda>_. 0) 0 adaptx_demo_opts" 1 1 "\<lambda>_. 0"] adaptx_newConfig_ok [of adaptx_demo_opts]
    by (simp add: adaptx_demo adaptx_busy_def)
qed

text \<open>
  Multiplicative decrease. Under AIMD and Gradient with the default ratio, \<open>n\<close> windows that saw a failure divide the limit by
  \<open>2 ^ n\<close>, down to the minimum, whatever the latencies and clocks.
\<close>

theorem adaptx_multiplicative_decrease:
  assumes "\<forall>(env, snap)\<in>set ws. 0 < aw_fails snap" and "adaptx_cfg_ok (al_cfg l)"
    and "ac_algorithm (al_cfg l) \<noteq> adaptx_Vegas" and "ac_jitter (al_cfg l) = 0" and "ac_decreaseRatio (al_cfg l) = 1 / 2"
    and "ac_maxLimit (al_cfg l) < 2 ^ 53" and "ac_minLimit (al_cfg l) \<le> al_limit l" and "al_limit l \<le> ac_maxLimit (al_cfg l)"
  shows "al_limit (adaptx_windows oob ws l) = max (ac_minLimit (al_cfg l)) (al_limit l div 2 ^ length ws)"
  by (rule adaptx_windows_failing [OF assms])

lemma adaptx_multiplicative_decrease_witness:
  "al_limit (adaptx_windows (\<lambda>_. 0) (replicate 2 (\<lparr>ae_now = 7, ae_rand1 = 0, ae_rand2 = 0\<rparr>, \<lparr>aw_n = 9, aw_fails = 1, aw_maxInFlight = 3, aw_meanRTT = 5, aw_minRTT = 4\<rparr>))
     (adaptx_New (\<lambda>_. 0) 0 adaptx_demo_opts)) = 2"
  using adaptx_multiplicative_decrease [of "replicate 2 (\<lparr>ae_now = 7, ae_rand1 = 0, ae_rand2 = 0\<rparr>, \<lparr>aw_n = 9, aw_fails = 1, aw_maxInFlight = 3, aw_meanRTT = 5, aw_minRTT = 4\<rparr>)"
      "adaptx_New (\<lambda>_. 0) 0 adaptx_demo_opts" "\<lambda>_. 0"] adaptx_newConfig_ok [of adaptx_demo_opts]
  by (simp add: adaptx_demo adaptx_algorithms)

end
