(* ===== verification/Adaptx_Stats.thy ===== *)
theory Adaptx_Stats
  imports Adaptx_Law
begin

text \<open>
  Package \<open>adaptx\<close>, part five: the ring of samples as the list of the last recorded ones, the latencies \<open>Stats\<close> computes from it, and
  the result table of \<open>Execute\<close>.
\<close>

section \<open>The ring\<close>

definition adaptx_ring_ok :: "adaptx_Limiter \<Rightarrow> bool" where
  "adaptx_ring_ok l \<longleftrightarrow> 0 < al_ringCap l \<and> length (al_samples l) = al_ringCap l \<and> al_head l < al_ringCap l \<and> al_count l \<le> al_ringCap l"

definition adaptx_ring_state :: "adaptx_Limiter \<Rightarrow> adaptx_sample list \<times> nat \<times> nat \<times> nat" where
  "adaptx_ring_state l = (al_samples l, al_head l, al_count l, al_ringCap l)"

lemma adaptx_ring_cong:
  "adaptx_ring_state l' = adaptx_ring_state l \<Longrightarrow> adaptx_ring l' = adaptx_ring l \<and> adaptx_ring_ok l' = adaptx_ring_ok l \<and> al_ringCap l' = al_ringCap l"
  by (simp add: adaptx_ring_state_def adaptx_ring_def adaptx_ring_ok_def)

lemma adaptx_ring_nat:
  assumes "adaptx_ring_ok l"
  shows "adaptx_ring l = map (\<lambda>i. al_samples l ! ((al_head l + al_ringCap l - al_count l + i) mod al_ringCap l)) [0..<al_count l]"
proof -
  have "nat ((int (al_head l) - int (al_count l) + int i + int (al_ringCap l)) mod int (al_ringCap l))
      = (al_head l + al_ringCap l - al_count l + i) mod al_ringCap l" for i
  proof -
    have "int (al_head l) - int (al_count l) + int i + int (al_ringCap l) = int (al_head l + al_ringCap l - al_count l + i)"
      using assms by (simp add: adaptx_ring_ok_def of_nat_diff)
    then show ?thesis by (simp only: zmod_int [symmetric] nat_int)
  qed
  then show ?thesis by (simp add: adaptx_ring_def)
qed

text \<open>The last \<open>n\<close> elements.\<close>

definition adaptx_last :: "nat \<Rightarrow> 'a list \<Rightarrow> 'a list" where
  "adaptx_last n xs = drop (length xs - n) xs"

lemma adaptx_last_snoc: "length xs \<le> n \<Longrightarrow> 0 < n \<Longrightarrow> adaptx_last n (xs @ [x]) = (if length xs < n then xs @ [x] else tl xs @ [x])"
  by (cases xs) (auto simp: adaptx_last_def)

lemma adaptx_last_last: "0 < n \<Longrightarrow> adaptx_last n (adaptx_last n xs @ [x]) = adaptx_last n (xs @ [x])"
  by (cases "n \<le> length xs") (simp_all add: adaptx_last_def Suc_diff_le)

lemma adaptx_ring_index:
  fixes h n i R :: nat
  assumes "h < R" and "n \<le> R" and "i < n" and "n < R \<or> 0 < i"
  shows "(h + R - n + i) mod R \<noteq> h"
proof
  assume e: "(h + R - n + i) mod R = h"
  show False
  proof (cases "h + R - n + i < R")
    case True
    then have "h + R - n + i = h" using e by simp
    then show ?thesis using assms by arith
  next
    case False
    then have "(h + R - n + i) mod R = h + i - n" using assms by (simp add: le_mod_geq)
    with e assms False show ?thesis by simp
  qed
qed

lemma adaptx_ring_add:
  assumes "adaptx_ring_ok l" and "s = \<lparr>as_latency = lat, as_ts = now, as_success = ok\<rparr>"
  shows "adaptx_ring (adaptx_add_sample now ok lat l) = adaptx_last (al_ringCap l) (adaptx_ring l @ [s])"
    and "adaptx_ring_ok (adaptx_add_sample now ok lat l)" and "al_ringCap (adaptx_add_sample now ok lat l) = al_ringCap l"
proof -
  let ?l = "adaptx_add_sample now ok lat l" let ?R = "al_ringCap l" let ?h = "al_head l" let ?n = "al_count l"
  have ok: "0 < ?R" "length (al_samples l) = ?R" "?h < ?R" "?n \<le> ?R" using assms(1) by (simp_all add: adaptx_ring_ok_def)
  have f: "al_samples ?l = (al_samples l)[?h := s]" "al_head ?l = (?h + 1) mod ?R" "al_ringCap ?l = ?R"
      "al_count ?l = (if ?n < ?R then ?n + 1 else ?n)"
    by (simp_all add: adaptx_add_sample_def Let_def assms(2))
  show rok: "adaptx_ring_ok ?l" using ok by (simp add: adaptx_ring_ok_def f)
  show "al_ringCap ?l = ?R" by (rule f(3))
  have len: "length (adaptx_ring l) = ?n" by (simp add: adaptx_ring_def)
  have hd: "((?h + 1) mod ?R + j) mod ?R = (?h + 1 + j) mod ?R" for j by (simp add: mod_add_left_eq)
  have old: "i < ?n \<Longrightarrow> adaptx_ring l ! i = al_samples l ! ((?h + ?R - ?n + i) mod ?R)" for i
    by (simp add: adaptx_ring_nat [OF assms(1)])
  show "adaptx_ring ?l = adaptx_last ?R (adaptx_ring l @ [s])"
  proof (rule nth_equalityI)
    show ll: "length (adaptx_ring ?l) = length (adaptx_last ?R (adaptx_ring l @ [s]))"
      using ok by (simp add: adaptx_ring_def adaptx_last_def f)
    fix i assume "i < length (adaptx_ring ?l)"
    then have i: "i < al_count ?l" by (simp add: adaptx_ring_def)
    have nw: "adaptx_ring ?l ! i = (al_samples l)[?h := s] ! (((?h + 1) mod ?R + ?R - al_count ?l + i) mod ?R)"
      using i by (simp add: adaptx_ring_nat [OF rok] f(1-3))
    show "adaptx_ring ?l ! i = adaptx_last ?R (adaptx_ring l @ [s]) ! i"
    proof (cases "?n < ?R")
      case True
      have "((?h + 1) mod ?R + ?R - al_count ?l + i) mod ?R = (?h + ?R - ?n + i) mod ?R"
      proof -
        have "(?h + 1) mod ?R + ?R - al_count ?l + i = (?h + 1) mod ?R + (?R - (?n + 1) + i)" using True by (simp add: f(4))
        moreover have "?h + 1 + (?R - (?n + 1) + i) = ?h + ?R - ?n + i" using True by simp
        ultimately show ?thesis by (simp only: hd)
      qed
      then have x: "adaptx_ring ?l ! i = (al_samples l)[?h := s] ! ((?h + ?R - ?n + i) mod ?R)" using nw by simp
      have y: "adaptx_last ?R (adaptx_ring l @ [s]) ! i = (adaptx_ring l @ [s]) ! i" using True by (simp add: adaptx_last_snoc len)
      show ?thesis
      proof (cases "i < ?n")
        case True
        then show ?thesis using x y old [OF True] adaptx_ring_index [of ?h ?R ?n i] ok \<open>?n < ?R\<close> by (simp add: nth_append len)
      next
        case False
        then have "i = ?n" using i True by (simp add: f(4))
        then show ?thesis using x y ok by (simp add: nth_append len)
      qed
    next
      case False
      then have nR: "?n = ?R" using ok by simp
      have "((?h + 1) mod ?R + ?R - al_count ?l + i) mod ?R = (?h + 1 + i) mod ?R" using hd [of i] by (simp add: f(4) nR)
      then have x: "adaptx_ring ?l ! i = (al_samples l)[?h := s] ! ((?h + 1 + i) mod ?R)" using nw by simp
      have y: "adaptx_last ?R (adaptx_ring l @ [s]) ! i = (tl (adaptx_ring l) @ [s]) ! i" using ok by (simp add: adaptx_last_snoc len nR)
      have iR: "i < ?R" using i nR by (simp add: f(4))
      show ?thesis
      proof (cases "i + 1 < ?R")
        case True
        then have "tl (adaptx_ring l) ! i = al_samples l ! ((?h + (i + 1)) mod ?R)" using old [of "i + 1"] by (simp add: nth_tl len nR)
        then show ?thesis using x y adaptx_ring_index [of ?h ?R ?n "i + 1"] ok True by (simp add: nth_append len nR)
      next
        case False
        then have "i = ?R - 1" using iR by simp
        then have "(?h + 1 + i) mod ?R = ?h" "i = length (tl (adaptx_ring l))" using ok by (simp_all add: len nR)
        then show ?thesis using x y ok by (simp add: nth_append)
      qed
    qed
  qed
qed

section \<open>A sequence of calls\<close>

lemma adaptx_rest_ring: "adaptx_rest l' = adaptx_rest l \<Longrightarrow> adaptx_ring_state l' = adaptx_ring_state l"
  by (cases l; cases l') (simp add: adaptx_rest_def adaptx_ring_state_def)

lemma adaptx_adjust_ring: "adaptx_ring_state (adaptx_adjust oob env snap l) = adaptx_ring_state l"
proof -
  obtain l1 n where l: "adaptx_law oob snap l = (l1, n)" by (metis surj_pair)
  then have "adaptx_ring_state l1 = adaptx_ring_state l"
    by (auto simp: adaptx_law_def adaptx_aimd_def Let_def adaptx_ring_state_def split: if_splits)
  with adaptx_rest_ring [OF adaptx_resize_limit(2)] l show ?thesis by (simp add: adaptx_adjust_def)
qed

lemma adaptx_record_ring:
  assumes "0 < lat"
  shows "adaptx_ring_state (adaptx_record oob env ok lat l) = adaptx_ring_state (adaptx_add_sample (ae_now env) ok lat l)"
proof -
  have add: "adaptx_ring_state (adaptx_add_sample now ok lat (l\<lparr>al_success := n, al_fail := m\<rparr>)) = adaptx_ring_state (adaptx_add_sample now ok lat l)"
    for now ok lat l n m by (simp add: adaptx_add_sample_def Let_def adaptx_ring_state_def)
  have keep: "adaptx_ring_state (adaptx_resetWindow now l) = adaptx_ring_state l" "adaptx_ring_state (adaptx_updateEstimators snap l) = adaptx_ring_state l"
    "adaptx_ring_state (adaptx_invokeLimitChange ch l) = adaptx_ring_state l" for now snap ch l
    by (simp_all add: adaptx_resetWindow_def adaptx_updateEstimators_def adaptx_invokeLimitChange_def adaptx_ring_state_def Let_def)
  have locked: "adaptx_ring_state (fst (adaptx_recordLocked oob env ok lat l)) = adaptx_ring_state (adaptx_add_sample (ae_now env) ok lat l)" for l
    by (simp add: adaptx_recordLocked_def Let_def keep adaptx_adjust_ring)
  define l0 where "l0 = (if ok then l\<lparr>al_success := wrap_i64 (al_success l + 1)\<rparr> else l\<lparr>al_fail := wrap_i64 (al_fail l + 1)\<rparr>)"
  have l0: "adaptx_ring_state (adaptx_add_sample (ae_now env) ok lat l0) = adaptx_ring_state (adaptx_add_sample (ae_now env) ok lat l)"
    by (simp add: l0_def adaptx_add_sample_def Let_def adaptx_ring_state_def)
  obtain l2 ch where r: "adaptx_recordLocked oob env ok lat l0 = (l2, ch)" by (metis surj_pair)
  have "adaptx_record oob env ok lat l = (case ch of None \<Rightarrow> l2 | Some c \<Rightarrow> adaptx_invokeLimitChange c l2)"
    using assms r unfolding adaptx_record_def l0_def [symmetric] Let_def by simp
  then have "adaptx_ring_state (adaptx_record oob env ok lat l) = adaptx_ring_state l2" by (simp add: keep split: option.split)
  with locked [of l0] r l0 show ?thesis by simp
qed

type_synonym adaptx_call = "adaptx_env \<times> bool \<times> int"

definition adaptx_records :: "(f64 \<Rightarrow> int) \<Rightarrow> adaptx_call list \<Rightarrow> adaptx_Limiter \<Rightarrow> adaptx_Limiter" where
  "adaptx_records oob rs = fold (\<lambda>(env, ok, lat). adaptx_record oob env ok lat) rs"

definition adaptx_sample_of :: "adaptx_call \<Rightarrow> adaptx_sample" where
  "adaptx_sample_of r = (case r of (env, ok, lat) \<Rightarrow> \<lparr>as_latency = lat, as_ts = ae_now env, as_success = ok\<rparr>)"

lemma adaptx_records_ring:
  assumes "adaptx_ring_ok l" and "\<forall>(env, ok, lat)\<in>set rs. 0 < lat"
  shows "adaptx_ring (adaptx_records oob rs l) = adaptx_last (al_ringCap l) (adaptx_ring l @ map adaptx_sample_of rs)
    \<and> al_ringCap (adaptx_records oob rs l) = al_ringCap l"
  using assms
proof (induction rs arbitrary: l)
  case Nil
  then show ?case by (simp add: adaptx_records_def adaptx_last_def adaptx_ring_def adaptx_ring_ok_def)
next
  case (Cons r rs)
  obtain env ok lat where r: "r = (env, ok, lat)" by (metis prod_cases3)
  let ?l = "adaptx_record oob env ok lat l" and ?s = "adaptx_sample_of r"
  have lat: "0 < lat" using Cons.prems(2) r by simp
  have s: "?s = \<lparr>as_latency = lat, as_ts = ae_now env, as_success = ok\<rparr>" by (simp add: adaptx_sample_of_def r)
  note add = adaptx_ring_add [OF Cons.prems(1) s]
  have l: "adaptx_ring ?l = adaptx_last (al_ringCap l) (adaptx_ring l @ [?s])" "adaptx_ring_ok ?l" "al_ringCap ?l = al_ringCap l"
    using adaptx_ring_cong [OF adaptx_record_ring [OF lat, of oob env ok l]] add by simp_all
  have R: "0 < al_ringCap l" using Cons.prems(1) by (simp add: adaptx_ring_ok_def)
  have app: "adaptx_last n (adaptx_last n xs @ ys) = adaptx_last n (xs @ ys)" if "0 < n" for n and xs ys :: "adaptx_sample list"
    by (cases "n \<le> length xs") (simp_all add: adaptx_last_def add.commute)
  have "\<forall>(env, ok, lat)\<in>set rs. 0 < lat" using Cons.prems(2) by simp
  from Cons.IH [OF l(2) this] show ?case
    using app [OF R, of "adaptx_ring l @ [?s]" "map adaptx_sample_of rs"] by (simp add: adaptx_records_def r l(1,3))
qed

lemma adaptx_records_pool:
  "adaptx_pool h l \<Longrightarrow> adaptx_pool h (adaptx_records oob rs l) \<and> adaptx_frame (adaptx_records oob rs l) = adaptx_frame l"
  by (induction rs arbitrary: l) (auto simp: adaptx_records_def adaptx_record_pool)

lemma adaptx_ringCapacity_range: "100 \<le> adaptx_ringCapacity oob c \<and> adaptx_ringCapacity oob c \<le> 10000"
  by (simp add: adaptx_ringCapacity_def Let_def adaptx_minSamples_def adaptx_maxSamples_def)

lemma adaptx_New_ring: "adaptx_ring_ok (adaptx_New oob now opts)" "adaptx_ring (adaptx_New oob now opts) = []"
  "al_cfg (adaptx_New oob now opts) = adaptx_newConfig opts"
  "al_ringCap (adaptx_New oob now opts) = nat (adaptx_ringCapacity oob (adaptx_newConfig opts))"
  using adaptx_ringCapacity_range [of oob "adaptx_newConfig opts"]
  by (simp_all add: adaptx_ring_ok_def adaptx_ring_def adaptx_New_def Let_def adaptx_sends adaptx_resetWindow_def)

section \<open>Percentiles\<close>

lemma adaptx_fold_min: "fold (\<lambda>d m. if d < m then d else m) xs m = Min (set (m # xs))" for m :: int
proof -
  have "(\<lambda>d m. if d < m then d else m) = (min :: int \<Rightarrow> int \<Rightarrow> int)" by (auto simp: fun_eq_iff min_def)
  then show ?thesis by (simp only: Min.set_eq_fold)
qed

lemma adaptx_fold_max: "fold (\<lambda>d m. if m < d then d else m) xs m = Max (set (m # xs))" for m :: int
proof -
  have "(\<lambda>d m. if m < d then d else m) = (max :: int \<Rightarrow> int \<Rightarrow> int)" by (auto simp: fun_eq_iff max_def)
  then show ?thesis by (simp only: Max.set_eq_fold)
qed

lemma adaptx_fold_sum:
  assumes "\<forall>x\<in>set xs. 0 \<le> x" and "0 \<le> t" and "t + sum_list xs < 2 ^ 63"
  shows "fold (\<lambda>d t. wrap_i64 (t + d)) xs t = t + sum_list xs"
  using assms
proof (induction xs arbitrary: t)
  case (Cons x xs)
  have "0 \<le> sum_list xs" using Cons.prems(1) by (intro sum_list_nonneg) simp
  then have "wrap_i64 (t + x) = t + x" using Cons.prems by (intro wrap_i64_id) simp_all
  then show ?case using Cons.IH [of "t + x"] Cons.prems by simp
qed simp

text \<open>The rank of a percentile is an index of the list.\<close>

lemma adaptx_rank:
  assumes "0 \<le> p" and "p \<le> 1" and "0 < n" and "n \<le> 10000"
  shows "0 \<le> f64_to_i64 oob (f64_mul (f64_of_int (int n - 1)) p)" and "f64_to_i64 oob (f64_mul (f64_of_int (int n - 1)) p) \<le> int n - 1"
    and "f64_to_i64 oob (f64_mul (f64_of_int (int n - 1)) p) = \<lfloor>f64_round ((of_nat n - 1) * p)\<rfloor>"
proof -
  let ?x = "f64_round ((of_nat n - 1) * p)"
  have e: "f64_of_int (int n - 1) = of_nat n - 1" using assms by (subst f64_of_int_exact) simp_all
  then have m: "f64_mul (f64_of_int (int n - 1)) p = ?x" by (simp add: f64_mul_def)
  have n: "0 \<le> (of_nat n - 1 :: rat)" using assms(3) by simp
  have fx: "f64_round (of_nat n - 1) = of_nat n - 1" using e by (simp add: f64_of_int_def)
  have x: "0 \<le> ?x" using n assms(1) by (intro f64.rnd_nonneg mult_nonneg_nonneg)
  have y: "?x \<le> of_nat n - 1" using n assms(2) by (intro f64.rnd_upper [OF _ fx]) (rule mult_left_le)
  have fl: "0 \<le> \<lfloor>?x\<rfloor>" "\<lfloor>?x\<rfloor> \<le> int n - 1" using x y by (simp, metis floor_mono floor_diff_one floor_of_nat)
  then show "f64_to_i64 oob (f64_mul (f64_of_int (int n - 1)) p) = \<lfloor>?x\<rfloor>"
  proof -
    obtain z where z: "\<lfloor>?x\<rfloor> = z" by simp
    then have "f64_trunc ?x = z" "0 \<le> z" "z < 2 ^ 63" using x fl assms(4) by (simp_all add: f64_trunc_def)
    then show ?thesis unfolding m z f64_to_i64_def Let_def by simp
  qed
  with fl show "0 \<le> f64_to_i64 oob (f64_mul (f64_of_int (int n - 1)) p)"
    "f64_to_i64 oob (f64_mul (f64_of_int (int n - 1)) p) \<le> int n - 1" by simp_all
qed

lemma adaptx_percentiles:
  assumes "lats \<noteq> []" and "length lats \<le> 10000"
  shows "adaptx_percentile oob lats adaptx_p50 = sort lats ! ((length lats - 1) div 2)"
    and "adaptx_percentile oob lats adaptx_p99 \<in> set lats"
    and "adaptx_percentile oob lats adaptx_p50 \<le> adaptx_percentile oob lats adaptx_p99"
proof -
  let ?n = "length lats"
  have n: "0 < ?n" using assms(1) by simp
  have p: "0 \<le> adaptx_p50" "adaptx_p50 \<le> 1" "0 \<le> adaptx_p99" "adaptx_p99 \<le> 1" "adaptx_p50 \<le> adaptx_p99"
  proof -
    have "f64_round (1 / 2) \<le> f64_round (99 / 100)" "f64_round (99 / 100) \<le> f64_round 1" by (rule f64_round_mono, simp)+
    moreover have "f64_round (1 / 2) = 1 / 2" using f64_round_dyadic [of 1 1] by simp
    ultimately show "0 \<le> adaptx_p50" "adaptx_p50 \<le> 1" "0 \<le> adaptx_p99" "adaptx_p99 \<le> 1" "adaptx_p50 \<le> adaptx_p99"
      by (simp_all add: adaptx_p50_def adaptx_p99_def)
  qed
  note r50 = adaptx_rank [OF p(1,2) n assms(2), of oob] and r99 = adaptx_rank [OF p(3,4) n assms(2), of oob]
  have half: "f64_to_i64 oob (f64_mul (f64_of_int (int ?n - 1)) adaptx_p50) = (int ?n - 1) div 2"
  proof -
    have "f64_round (of_int (int ?n - 1) / 2 ^ 1) = of_int (int ?n - 1) / 2 ^ 1" using assms(2) n by (intro f64_round_dyadic) simp
    then have "f64_round ((of_nat ?n - 1) * adaptx_p50) = of_int (int ?n - 1) / of_int 2" by (simp add: adaptx_p50_def)
    then show ?thesis unfolding r50(3) by (simp only: floor_divide_of_int_eq)
  qed
  have "nat ((int ?n - 1) div 2) = (?n - 1) div 2" using n by (simp add: nat_div_distrib)
  then show "adaptx_percentile oob lats adaptx_p50 = sort lats ! ((?n - 1) div 2)" by (simp add: adaptx_percentile_def half)
  have i: "nat (f64_to_i64 oob (f64_mul (f64_of_int (int ?n - 1)) adaptx_p99)) < length (sort lats)"
    using r99(1,2) n by (simp add: nat_less_iff)
  then have "adaptx_percentile oob lats adaptx_p99 \<in> set (sort lats)" unfolding adaptx_percentile_def by (rule nth_mem)
  then show "adaptx_percentile oob lats adaptx_p99 \<in> set lats" by simp
  have "(of_nat ?n - 1) * adaptx_p50 \<le> (of_nat ?n - 1) * adaptx_p99" using p(5) n by (intro mult_left_mono) (simp_all add: Suc_le_eq)
  then have "f64_to_i64 oob (f64_mul (f64_of_int (int ?n - 1)) adaptx_p50) \<le> f64_to_i64 oob (f64_mul (f64_of_int (int ?n - 1)) adaptx_p99)"
    unfolding r50(3) r99(3) by (intro floor_mono f64_round_mono)
  then show "adaptx_percentile oob lats adaptx_p50 \<le> adaptx_percentile oob lats adaptx_p99"
    unfolding adaptx_percentile_def using i by (intro sorted_nth_mono) simp_all
qed

lemma adaptx_sum_bounds:
  "\<forall>x\<in>set xs. lo \<le> x \<and> x \<le> hi \<Longrightarrow> lo * int (length xs) \<le> sum_list xs \<and> sum_list xs \<le> hi * int (length xs)" for lo hi :: int
  by (induction xs) (auto simp: algebra_simps)

lemma adaptx_mean:
  assumes "lats \<noteq> []" and "\<forall>x\<in>set lats. 0 < x" and "sum_list lats < 2 ^ 63"
  shows "Min (set lats) \<le> fold (\<lambda>d t. wrap_i64 (t + d)) lats 0 sdiv int (length lats)"
    and "fold (\<lambda>d t. wrap_i64 (t + d)) lats 0 sdiv int (length lats) \<le> Max (set lats)"
proof -
  have sum: "fold (\<lambda>d t. wrap_i64 (t + d)) lats 0 = sum_list lats"
    using adaptx_fold_sum [of lats 0] assms(2,3) by (simp add: less_imp_le)
  have n: "0 < int (length lats)" using assms(1) by simp
  have s: "0 \<le> sum_list lats" using assms(2) by (intro sum_list_nonneg) (simp add: less_imp_le)
  have b: "Min (set lats) * int (length lats) \<le> sum_list lats" "sum_list lats \<le> Max (set lats) * int (length lats)"
    using adaptx_sum_bounds [of lats "Min (set lats)" "Max (set lats)"] by simp_all
  have q: "sum_list lats sdiv int (length lats) = sum_list lats div int (length lats)"
    using s n by (simp add: signed_divide_int_def sgn_if)
  show "Min (set lats) \<le> fold (\<lambda>d t. wrap_i64 (t + d)) lats 0 sdiv int (length lats)"
    using zdiv_mono1 [OF b(1) n] n assms(1) by (simp add: sum q)
  show "fold (\<lambda>d t. wrap_i64 (t + d)) lats 0 sdiv int (length lats) \<le> Max (set lats)"
    using zdiv_mono1 [OF b(2) n] n assms(1) by (simp add: sum q)
qed

section \<open>Properties\<close>

text \<open>
  C17: the statistics are those of the samples recorded last. After any calls with positive latencies on a new limiter (at most as many
  as the ring holds are kept, the oldest dropped), \<open>Stats\<close> at any time reports for the samples of the last window: the exact minimum
  and maximum, the lower median as the 50th percentile, an actual sample at least that as the 99th, and a mean between the extremes.
\<close>

theorem adaptx_Stats_window:
  assumes "\<forall>(env, ok, lat)\<in>set rs. 0 < lat" and "l = adaptx_records oob rs (adaptx_New oob start opts)"
    and "c = adaptx_newConfig opts"
    and "lats = map as_latency (filter (\<lambda>s. now - ac_sampleWindow c < as_ts s) (adaptx_last (nat (adaptx_ringCapacity oob c)) (map adaptx_sample_of rs)))"
    and "lats \<noteq> []" and "sum_list lats < 2 ^ 63" and "st = adaptx_LimiterStats oob now l"
  shows "at_MinLat st = Min (set lats) \<and> at_MaxLat st = Max (set lats) \<and> at_P50Lat st = sort lats ! ((length lats - 1) div 2)
    \<and> at_P99Lat st \<in> set lats \<and> at_P50Lat st \<le> at_P99Lat st \<and> at_MinLat st \<le> at_AvgLat st \<and> at_AvgLat st \<le> at_MaxLat st"
proof -
  have cfg: "al_cfg l = c"
    using adaptx_records_pool [OF adaptx_pool_New, of oob rs oob start opts] by (simp add: assms(2,3) adaptx_New_ring adaptx_frame_def)
  have ring: "adaptx_ring l = adaptx_last (nat (adaptx_ringCapacity oob c)) (map adaptx_sample_of rs)"
    using adaptx_records_ring [OF adaptx_New_ring(1) assms(1), of oob oob start opts] by (simp add: assms(2,3) adaptx_New_ring)
  have recent: "adaptx_recent now l = lats" by (simp add: adaptx_recent_def ring cfg assms(4))
  have pos: "\<forall>x\<in>set lats. 0 < x"
    using assms(1) by (fastforce simp: assms(4) adaptx_last_def adaptx_sample_of_def dest!: in_set_dropD)
  have len: "length lats \<le> 10000"
  proof -
    have "length lats \<le> length (adaptx_last (nat (adaptx_ringCapacity oob c)) (map adaptx_sample_of rs))" by (simp add: assms(4))
    also have "\<dots> \<le> nat (adaptx_ringCapacity oob c)" by (simp add: adaptx_last_def)
    also have "\<dots> \<le> 10000" using adaptx_ringCapacity_range [of oob c] by (simp add: nat_le_iff)
    finally show ?thesis .
  qed
  obtain x xs where xs: "lats = x # xs" using assms(5) by (cases lats) auto
  have mn: "at_MinLat st = Min (set lats)" "at_MaxLat st = Max (set lats)"
    using pos by (simp_all add: assms(7) adaptx_LimiterStats_def Let_def recent adaptx_fold_min adaptx_fold_max xs)
  have st: "at_P50Lat st = adaptx_percentile oob lats adaptx_p50" "at_P99Lat st = adaptx_percentile oob lats adaptx_p99"
    "at_AvgLat st = fold (\<lambda>d t. wrap_i64 (t + d)) lats 0 sdiv int (length lats)"
    using assms(5) by (simp_all add: assms(7) adaptx_LimiterStats_def Let_def recent)
  from adaptx_percentiles [OF assms(5) len, of oob] adaptx_mean [OF assms(5) pos assms(6)] show ?thesis by (simp add: mn st)
qed

lemma adaptx_Stats_window_witness:
  "at_P50Lat (adaptx_LimiterStats (\<lambda>_. 0) 50 (adaptx_records (\<lambda>_. 0)
     [(\<lparr>ae_now = 10, ae_rand1 = 0, ae_rand2 = 0\<rparr>, True, 7), (\<lparr>ae_now = 20, ae_rand1 = 0, ae_rand2 = 0\<rparr>, True, 3)] (adaptx_New (\<lambda>_. 0) 0 []))) = 3"
proof -
  let ?e = "\<lambda>t. \<lparr>ae_now = t, ae_rand1 = 0, ae_rand2 = 0\<rparr>" let ?rs = "[(?e 10, True, 7), (?e 20, True, 3)]"
  have w: "ac_sampleWindow (adaptx_newConfig []) = 1000000000"
    by (simp add: adaptx_newConfig_def Let_def adaptx_DefaultSampleWindow_def adaptx_minLimitFloor_def)
  have "2 \<le> nat (adaptx_ringCapacity (\<lambda>_. 0) (adaptx_newConfig []))"
    using adaptx_ringCapacity_range [of "\<lambda>_. 0" "adaptx_newConfig []"] by linarith
  then have last: "adaptx_last (nat (adaptx_ringCapacity (\<lambda>_. 0) (adaptx_newConfig []))) (map adaptx_sample_of ?rs) = map adaptx_sample_of ?rs"
    by (simp add: adaptx_last_def)
  from adaptx_Stats_window [where rs = ?rs and oob = "\<lambda>_. 0" and start = 0 and opts = "[]" and now = 50, OF _ refl refl refl _ _ refl] show ?thesis
    unfolding last by (simp add: w adaptx_sample_of_def)
qed

section \<open>Execution\<close>

lemma adaptx_take_pool:
  assumes "adaptx_pool h l" and "0 < al_sem l"
  shows "adaptx_pool (h + 1) (adaptx_admit (adaptx_take l))"
  using assms by (simp add: adaptx_pool_def adaptx_admit_def adaptx_add_inFlight_def adaptx_take_def Let_def)

lemma adaptx_release_pool:
  assumes "adaptx_pool (h + 1) l" and "0 \<le> h" and "0 < al_inFlight l" and "al_inFlight l < 2 ^ 31" and "adaptx_release oob env ok lat False l = (l', r)"
  shows "adaptx_pool h l'" and "al_inFlight l' = al_inFlight l - 1" and "al_closed l' = al_closed l" and "al_cfg l' = al_cfg l"
proof -
  let ?r = "adaptx_record oob env ok lat l"
  note p = adaptx_record_pool [OF assms(1), of oob env ok lat]
  have f: "al_inFlight ?r = al_inFlight l" "al_closed ?r = al_closed l" "al_cfg ?r = al_cfg l" using p(2) by (simp_all add: adaptx_frame_def)
  have l': "l' = (let l2 = adaptx_add_inFlight (- 1) ?r; l3 = adaptx_releasePermit l2
      in if al_inFlight l2 = 0 then adaptx_signalDrainIfIdle l3 else l3)"
    using assms(5) by (simp add: adaptx_release_def Let_def)
  have i: "wrap_i32 (al_inFlight l - 1) = al_inFlight l - 1" using assms(3,4) by (intro wrap_i32_id) simp_all
  have free: "al_sem ?r < ac_maxLimit (al_cfg ?r)" using p(1) assms(2) by (auto simp: adaptx_pool_def)
  show "adaptx_pool h l'" "al_inFlight l' = al_inFlight l - 1" "al_closed l' = al_closed l" "al_cfg l' = al_cfg l"
    using p(1) free assms(2)
    by (auto simp: l' Let_def adaptx_add_inFlight_def adaptx_releasePermit_def adaptx_send_def adaptx_signalDrainIfIdle_def f i adaptx_pool_def)
qed

text \<open>
  \<open>Execute\<close> gives back what it takes. Whatever ends a call (closed, cancelled or timed out before or during the wait, the callback's
  result or its panic), the permits add up as before and \<open>InFlight\<close> is what it was; an admitted callback sees the limit and the
  number of the others in flight; and a skipped sample moves neither the limit nor the history.
\<close>

theorem adaptx_Execute_balanced:
  assumes "adaptx_pool h l" and "0 \<le> al_inFlight l" and "al_inFlight l < 2 ^ 31 - 1" and "\<forall>ac l. fst (snd (f ac l)) = l"
    and "adaptx_Execute oob env elapsed e0 sel zero (Some f) l = Some (l', val, err)"
    and "ac = \<lparr>ax_limit = al_limit l, ax_inFlight = al_inFlight l, ax_algorithm = ac_algorithm (al_cfg l), ax_skipped = False\<rparr>"
    and "f ac (adaptx_admit (adaptx_take l)) = (ac', l1, out)"
  shows "adaptx_pool h l' \<and> al_inFlight l' = al_inFlight l \<and> al_closed l' = al_closed l \<and>
    (if al_closed l then l' = l \<and> (val, err) = (zero, Some adaptx_ErrClosed)
     else case (e0, sel) of
       (Some e, _) \<Rightarrow> l' = adaptx_reject l \<and> (val, err) = (zero, Some (adaptx_ctxErr e))
     | (None, ACtx e) \<Rightarrow> l' = adaptx_reject l \<and> (val, err) = (zero, Some (adaptx_ctxErr e))
     | (None, AClosedCh) \<Rightarrow> l' = adaptx_reject l \<and> (val, err) = (zero, Some adaptx_ErrClosed)
     | (None, ASem) \<Rightarrow> (val, err) = panix_Safe zero (adaptx_opOrDefault (al_cfg l)) (Some out)
         \<and> (ax_skipped ac' \<longrightarrow> al_limit l' = al_limit l \<and> adaptx_ring l' = adaptx_ring l))"
proof (cases "al_closed l \<or> e0 \<noteq> None \<or> sel \<noteq> ASem")
  case True
  have rej: "adaptx_pool h (adaptx_reject l)" "al_inFlight (adaptx_reject l) = al_inFlight l" "al_closed (adaptx_reject l) = al_closed l"
    using assms(1) by (simp_all add: adaptx_reject_def adaptx_pool_def)
  from True assms(1,5) rej show ?thesis
    by (auto simp: adaptx_Execute_def adaptx_Acquire_def split: if_splits option.splits adaptx_sel.splits)
next
  case False
  let ?a = "adaptx_admit (adaptx_take l)"
  have sem: "0 < al_sem l" using False assms(5) by (auto simp: adaptx_Execute_def adaptx_Acquire_def split: if_splits)
  have acq: "adaptx_Acquire e0 sel l = Some (?a, None)" using False sem by (simp add: adaptx_Acquire_def Let_def adaptx_take_def)
  have a: "al_inFlight ?a = al_inFlight l + 1" "al_closed ?a = al_closed l" "al_cfg ?a = al_cfg l" "al_limit ?a = al_limit l"
    "adaptx_ring ?a = adaptx_ring l"
    using assms(2,3) by (simp_all add: adaptx_admit_def adaptx_add_inFlight_def adaptx_take_def Let_def adaptx_ring_def)
  have l1: "l1 = ?a" using assms(4,7) by (metis fst_conv snd_conv)
  obtain v e where out: "panix_Safe zero (adaptx_opOrDefault (al_cfg l)) (Some out) = (v, e)" by (metis surj_pair)
  have run: "adaptx_run oob env elapsed zero (adaptx_opOrDefault (al_cfg l)) f ?a = (adaptx_releaseAfterExecute oob env elapsed ac' e ?a, v, e)"
    using assms(6,7) out by (simp add: adaptx_run_def adaptx_Limiter_Limit_def adaptx_Limiter_InFlight_def a l1)
  then have l': "l' = adaptx_releaseAfterExecute oob env elapsed ac' e ?a" "val = v" "err = e"
    using assms(5) by (auto simp: adaptx_Execute_def acq a)
  let ?lat = "if adaptx_isSkipped ac' then 0 else elapsed"
  obtain r where r: "adaptx_release oob env (e = None) ?lat False ?a = (l', r)"
    using l'(1) by (simp add: adaptx_releaseAfterExecute_def) (metis prod.collapse)
  have h: "0 \<le> h" using assms(1) by (simp add: adaptx_pool_def)
  have n: "0 < al_inFlight ?a" "al_inFlight ?a < 2 ^ 31" using a(1) assms(2,3) by simp_all
  note rp = adaptx_release_pool [OF adaptx_take_pool [OF assms(1) sem] h n r]
  have skip: "al_limit l' = al_limit l \<and> adaptx_ring l' = adaptx_ring l" if "ax_skipped ac'"
    using r that a(4,5)
    by (auto simp: adaptx_isSkipped_def adaptx_release_def adaptx_record_def Let_def adaptx_releasePermit_def adaptx_send_def
        adaptx_add_inFlight_def adaptx_signalDrainIfIdle_def adaptx_ring_def split: if_splits)
  from False rp a skip out l' show ?thesis by simp
qed

lemma adaptx_Execute_balanced_witness:
  "\<exists>l'. adaptx_Execute (\<lambda>_. 0) \<lparr>ae_now = 7, ae_rand1 = 0, ae_rand2 = 0\<rparr> 5 None ASem (0 :: int) (Some (\<lambda>ac l. (ac, l, Panics (PvOther 1)))) (adaptx_New (\<lambda>_. 0) 0 [])
     = Some (l', 0, Some (PanicError ''adaptx.Execute'' (PvOther 1))) \<and> al_inFlight l' = 0"
proof -
  let ?l = "adaptx_New (\<lambda>_. 0) 0 []" and ?f = "\<lambda>ac l. (ac, l, Panics (PvOther 1) :: int outcome)"
  have l: "al_closed ?l = False" "al_sem ?l = 10" "al_inFlight ?l = 0" "al_cfg ?l = adaptx_newConfig []" "ac_op (adaptx_newConfig []) = []"
    by (simp_all add: adaptx_New_def Let_def adaptx_sends adaptx_resetWindow_def adaptx_newConfig_def adaptx_minLimitFloor_def
        adaptx_DefaultMaxLimit_def adaptx_DefaultMinLimit_def adaptx_DefaultInitialLimit_def)
  obtain l' val err where e: "adaptx_Execute (\<lambda>_. 0) \<lparr>ae_now = 7, ae_rand1 = 0, ae_rand2 = 0\<rparr> 5 None ASem 0 (Some ?f) ?l = Some (l', val, err)"
    by (cases "adaptx_run (\<lambda>_. 0) \<lparr>ae_now = 7, ae_rand1 = 0, ae_rand2 = 0\<rparr> 5 0 (adaptx_opOrDefault (al_cfg (adaptx_admit (adaptx_take ?l)))) ?f (adaptx_admit (adaptx_take ?l))")
      (simp add: adaptx_Execute_def adaptx_Acquire_def Let_def l adaptx_take_def)
  from adaptx_Execute_balanced [OF adaptx_pool_New _ _ _ e refl refl] e show ?thesis
    by (simp add: l adaptx_opOrDefault_def adaptx_opExecute_def)
qed

end
