(* ===== verification/Adaptx_Conc.thy ===== *)
theory Adaptx_Conc
  imports Adaptx_Window
begin

text \<open>
  Package \<open>adaptx\<close>, part four: any number of goroutines that acquire and release permits, one atomic access, channel operation or
  locked section at a time. A goroutine is its program counter; what a step reads from outside is its \<open>choice\<close>. A counter of the
  statistics is bumped together with the access before it, and the hook of a limit change runs with the section that found the change.
\<close>

subsection \<open>Program counters\<close>

datatype adaptx_pc =
    AStart bool
  | ACheckCtx
  | ASelect
  | ATryTake
  | ARecheck
  | AReturn
  | AAdmit
  | ARun
  | ADec
  | APermit bool
  | ASignal
  | AEnd

record adaptx_choice =
  ah_ctx :: goerror
  ah_sel :: adaptx_sel
  ah_env :: adaptx_env
  ah_success :: bool
  ah_latency :: int

text \<open>\<open>AStart\<close> is at the top of \<open>Acquire\<close> (\<open>True\<close>) or \<open>TryAcquire\<close>; \<open>ARun\<close> is before the call of the release closure.\<close>

fun adaptx_micro :: "(f64 \<Rightarrow> int) \<Rightarrow> adaptx_choice \<Rightarrow> adaptx_Limiter \<Rightarrow> adaptx_pc \<Rightarrow> adaptx_Limiter \<times> adaptx_pc" where
  "adaptx_micro oob ch l (AStart block) = (l, if al_closed l then AEnd else if block then ACheckCtx else ATryTake)"
| "adaptx_micro oob ch l ACheckCtx = (case ah_ctx ch of Some e \<Rightarrow> (adaptx_reject l, AEnd) | None \<Rightarrow> (l, ASelect))"
| "adaptx_micro oob ch l ASelect =
     (case ah_sel ch of
        ASem \<Rightarrow> if 0 < al_sem l then (adaptx_take l, ARecheck) else (l, ASelect)
      | ACtx e \<Rightarrow> (adaptx_reject l, AEnd)
      | AClosedCh \<Rightarrow> if al_closedCh l then (adaptx_reject l, AEnd) else (l, ASelect))"
| "adaptx_micro oob ch l ATryTake = (if 0 < al_sem l then (adaptx_take l, ARecheck) else (adaptx_reject l, AEnd))"
| "adaptx_micro oob ch l ARecheck = (l, if al_closed l then AReturn else AAdmit)"
| "adaptx_micro oob ch l AReturn = (adaptx_reject (adaptx_returnPermit l), AEnd)"
| "adaptx_micro oob ch l AAdmit = (adaptx_admit l, ARun)"
| "adaptx_micro oob ch l ARun = (adaptx_record oob (ah_env ch) (ah_success ch) (ah_latency ch) l, ADec)"
| "adaptx_micro oob ch l ADec = (let l1 = adaptx_add_inFlight (- 1) l in (l1, APermit (al_inFlight l1 = 0)))"
| "adaptx_micro oob ch l (APermit idle) = (adaptx_releasePermit l, if idle then ASignal else AEnd)"
| "adaptx_micro oob ch l ASignal = (adaptx_signalDrainIfIdle l, AEnd)"
| "adaptx_micro oob ch l AEnd = (l, AEnd)"

subsection \<open>Goroutines\<close>

type_synonym adaptx_sys = "adaptx_Limiter \<times> adaptx_pc list"

text \<open>The steps of \<open>CloseWithTimeout\<close> are single accesses, too. \<open>ResetStats\<close> is one step, taken only where \<open>resets\<close> allows it.\<close>

inductive adaptx_step :: "(f64 \<Rightarrow> int) \<Rightarrow> bool \<Rightarrow> adaptx_sys \<Rightarrow> adaptx_sys \<Rightarrow> bool" for oob resets where
  run: "i < length ts \<Longrightarrow> adaptx_micro oob ch l (ts ! i) = (l', pc) \<Longrightarrow> adaptx_step oob resets (l, ts) (l', ts[i := pc])"
| call: "adaptx_step oob resets (l, ts) (l, ts @ [AStart block])"
| close_flag: "adaptx_step oob resets (l, ts) (l\<lparr>al_closed := True\<rparr>, ts)"
| close_chan: "al_closed l \<Longrightarrow> adaptx_step oob resets (l, ts) (l\<lparr>al_closedCh := True\<rparr>, ts)"
| close_signal: "adaptx_step oob resets (l, ts) (adaptx_signalDrainIfIdle l, ts)"
| close_drain: "al_closed l \<Longrightarrow> 0 < al_sem l \<Longrightarrow> adaptx_step oob resets (l, ts) (adaptx_take l, ts)"
| reset: "resets \<Longrightarrow> adaptx_step oob resets (l, ts) (adaptx_ResetStats now l, ts)"

inductive_cases adaptx_stepE: "adaptx_step oob resets (l, ts) (l', ts')"

inductive adaptx_steps :: "(f64 \<Rightarrow> int) \<Rightarrow> bool \<Rightarrow> adaptx_sys \<Rightarrow> adaptx_sys \<Rightarrow> bool" for oob resets where
  refl: "adaptx_steps oob resets x x"
| step: "adaptx_steps oob resets x y \<Longrightarrow> adaptx_step oob resets y z \<Longrightarrow> adaptx_steps oob resets x z"

text \<open>Who has a permit in hand, and who is counted in \<open>inFlight\<close>.\<close>

fun adaptx_holds :: "adaptx_pc \<Rightarrow> bool" where
  "adaptx_holds ARecheck = True"
| "adaptx_holds AReturn = True"
| "adaptx_holds AAdmit = True"
| "adaptx_holds ARun = True"
| "adaptx_holds ADec = True"
| "adaptx_holds (APermit idle) = True"
| "adaptx_holds pc = False"

fun adaptx_running :: "adaptx_pc \<Rightarrow> bool" where
  "adaptx_running ARun = True"
| "adaptx_running ADec = True"
| "adaptx_running pc = False"

subsection \<open>One step\<close>

lemma adaptx_micro_frame:
  assumes "adaptx_pool h l" and "adaptx_micro oob ch l pc = (l', pc')"
  shows "al_cfg l' = al_cfg l" and "al_closed l' = al_closed l"
    and "0 \<le> al_inFlight l \<Longrightarrow> al_inFlight l < 2 ^ 31 - 1 \<Longrightarrow>
      al_inFlight l' = al_inFlight l - of_bool (adaptx_running pc) + of_bool (adaptx_running pc')"
proof -
  note d = adaptx_reject_def adaptx_take_def adaptx_returnPermit_def adaptx_send_def adaptx_admit_def adaptx_add_inFlight_def
    adaptx_releasePermit_def adaptx_signalDrainIfIdle_def Let_def
  have r: "al_cfg (adaptx_record oob env ok lat l) = al_cfg l" "al_closed (adaptx_record oob env ok lat l) = al_closed l"
    "al_inFlight (adaptx_record oob env ok lat l) = al_inFlight l" for env ok lat
    using adaptx_record_pool(2) [OF assms(1), of oob env ok lat] by (simp_all add: adaptx_frame_def)
  show "al_cfg l' = al_cfg l" "al_closed l' = al_closed l"
    using assms(2) by (cases pc; auto simp: d r split: if_splits option.splits adaptx_sel.splits)+
  show "al_inFlight l' = al_inFlight l - of_bool (adaptx_running pc) + of_bool (adaptx_running pc')"
    if "0 \<le> al_inFlight l" "al_inFlight l < 2 ^ 31 - 1"
    using assms(2) that by (cases pc; auto simp: d r split: if_splits option.splits adaptx_sel.splits)
qed

lemma adaptx_micro_return: "adaptx_micro oob ch l pc = (l', AReturn) \<Longrightarrow> al_closed l"
  by (cases pc) (auto simp: Let_def split: if_splits option.splits adaptx_sel.splits)

lemma adaptx_pool_pos: "adaptx_pool h l \<Longrightarrow> 0 < h \<Longrightarrow> al_sem l < ac_maxLimit (al_cfg l)"
  by (auto simp: adaptx_pool_def)

lemma adaptx_micro_pool:
  assumes "adaptx_pool h l" and "adaptx_micro oob ch l pc = (l', pc')" and "adaptx_holds pc \<Longrightarrow> 0 < h" and "pc = AReturn \<Longrightarrow> al_closed l"
  shows "adaptx_pool (h - of_bool (adaptx_holds pc) + of_bool (adaptx_holds pc')) l'"
proof -
  note d = adaptx_reject_def adaptx_take_def adaptx_returnPermit_def adaptx_send_def adaptx_admit_def adaptx_add_inFlight_def
    adaptx_releasePermit_def adaptx_signalDrainIfIdle_def adaptx_pool_def Let_def
  show ?thesis
  proof (cases pc)
    case ARun
    then show ?thesis using assms(2) adaptx_record_pool(1) [OF assms(1)] by auto
  next
    case AReturn
    with assms(3) have h: "0 < h" by simp
    from AReturn assms(1,2,4) adaptx_pool_pos [OF assms(1) h] h show ?thesis by (auto simp: d)
  next
    case (APermit idle)
    with assms(3) have h: "0 < h" by simp
    from APermit assms(1,2) adaptx_pool_pos [OF assms(1) h] h show ?thesis by (cases idle) (auto simp: d)
  qed (use assms in \<open>auto simp: d split: if_splits option.splits adaptx_sel.splits\<close>)
qed

subsection \<open>The invariant\<close>

definition adaptx_inv :: "adaptx_sys \<Rightarrow> bool" where
  "adaptx_inv x \<longleftrightarrow>
     (case x of (l, ts) \<Rightarrow>
        adaptx_pool (how_many adaptx_holds ts) l \<and> (AReturn \<in> set ts \<longrightarrow> al_closed l)
        \<and> (int (length ts) < 2 ^ 31 - 1 \<longrightarrow> al_inFlight l = how_many adaptx_running ts))"

lemma adaptx_run_inv:
  assumes "adaptx_inv (l, ts)" and "i < length ts" and "adaptx_micro oob ch l (ts ! i) = (l', pc)"
  shows "adaptx_inv (l', ts[i := pc])"
proof -
  have p: "adaptx_pool (how_many adaptx_holds ts) l" using assms(1) by (simp add: adaptx_inv_def)
  have h: "adaptx_holds (ts ! i) \<Longrightarrow> 0 < how_many adaptx_holds ts" by (rule how_many_pos [OF assms(2)])
  have fl: "al_inFlight l' = how_many adaptx_running (ts[i := pc])" if n: "int (length ts) < 2 ^ 31 - 1"
  proof -
    have f: "al_inFlight l = how_many adaptx_running ts" using assms(1) n by (simp add: adaptx_inv_def)
    moreover have "how_many adaptx_running ts < 2 ^ 31 - 1" using n how_many_simps(4) [of adaptx_running ts] by linarith
    ultimately show ?thesis using adaptx_micro_frame(3) [OF p assms(3)] assms(2) by (simp add: how_many_update)
  qed
  have c: "AReturn \<in> set ts \<Longrightarrow> al_closed l" using assms(1) by (simp add: adaptx_inv_def)
  have c1: "ts ! i = AReturn \<Longrightarrow> al_closed l" using c nth_mem [OF assms(2)] by simp
  have "AReturn \<in> set (ts[i := pc]) \<longrightarrow> al_closed l'"
  proof
    assume "AReturn \<in> set (ts[i := pc])"
    then have "pc = AReturn \<or> AReturn \<in> set ts" using set_update_subset_insert [of ts i pc] by auto
    then show "al_closed l'" unfolding adaptx_micro_frame(2) [OF p assms(3)] using c assms(3) adaptx_micro_return by blast
  qed
  with adaptx_micro_pool [OF p assms(3) h c1] assms(2) fl show ?thesis by (simp add: adaptx_inv_def how_many_update)
qed

lemma adaptx_step_inv: "adaptx_step oob False (l, ts) (l', ts') \<Longrightarrow> adaptx_inv (l, ts) \<Longrightarrow> adaptx_inv (l', ts')"
proof (elim adaptx_stepE)
  fix i ch pc
  assume "adaptx_inv (l, ts)" "ts' = ts[i := pc]" "i < length ts" "adaptx_micro oob ch l (ts ! i) = (l', pc)"
  then show ?thesis by (simp add: adaptx_run_inv)
qed (auto simp: adaptx_inv_def adaptx_pool_def adaptx_signalDrainIfIdle_def adaptx_take_def)

lemma adaptx_steps_inv: "adaptx_steps oob False x y \<Longrightarrow> adaptx_inv x \<Longrightarrow> adaptx_inv y"
proof (induction rule: adaptx_steps.induct)
  case (step x y z)
  then show ?case by (cases y; cases z) (simp add: adaptx_step_inv)
qed

lemma adaptx_inv_New: "adaptx_inv (adaptx_New oob now opts, [])"
  using adaptx_pool_New [of oob now opts]
  by (simp add: adaptx_inv_def) (simp add: adaptx_New_def Let_def adaptx_sends adaptx_resetWindow_def)

lemma adaptx_steps_cfg: "adaptx_steps oob False x y \<Longrightarrow> adaptx_inv x \<Longrightarrow> al_cfg (fst y) = al_cfg (fst x)"
proof (induction rule: adaptx_steps.induct)
  case (step x y z)
  obtain l ts where y: "y = (l, ts)" by (cases y)
  have "adaptx_inv y" by (rule adaptx_steps_inv [OF step.hyps(1) step.prems])
  then have p: "adaptx_pool (how_many adaptx_holds ts) l" by (simp add: y adaptx_inv_def)
  have "al_cfg (fst z) = al_cfg (fst y)"
    using step.hyps(2) unfolding y
    by (cases rule: adaptx_step.cases) (auto simp: adaptx_micro_frame(1) [OF p] adaptx_signalDrainIfIdle_def adaptx_take_def)
  with step.IH [OF step.prems] show ?case by simp
qed simp

section \<open>Properties\<close>

text \<open>
  C16: permits are neither lost nor made. However the accesses of any number of goroutines (fewer than \<open>2 ^ 31 - 1\<close>), the adjustments
  inside them and the steps of \<open>Close\<close> interleave, \<open>InFlight\<close> is exactly the number of admitted operations and at most \<open>WithMaxLimit\<close>;
  the limit stays within its bounds; and until \<open>Close\<close> the free permits and those in hand make up exactly the limit and the debt of
  a shrink, and no permit is free while there is debt: nobody is admitted until enough operations have ended.
\<close>

theorem adaptx_permit_accounting:
  assumes "adaptx_steps oob False (adaptx_New oob now opts, []) (l, ts)" and "int (length ts) < 2 ^ 31 - 1"
    and "c = adaptx_newConfig opts"
  shows "al_inFlight l = how_many adaptx_running ts \<and> al_inFlight l \<le> ac_maxLimit c
    \<and> ac_minLimit c \<le> al_limit l \<and> al_limit l \<le> ac_maxLimit c \<and> 0 \<le> al_debt l \<and> al_inFlight l \<le> al_limit l + al_debt l
    \<and> (\<not> al_closed l \<longrightarrow> al_sem l + how_many adaptx_holds ts = al_limit l + al_debt l \<and> (0 < al_debt l \<longrightarrow> al_sem l = 0))"
proof -
  have i: "adaptx_inv (l, ts)" by (rule adaptx_steps_inv [OF assms(1) adaptx_inv_New])
  have cfg: "al_cfg l = c"
    using adaptx_steps_cfg [OF assms(1) adaptx_inv_New] assms(3) by (simp add: adaptx_New_def Let_def adaptx_sends adaptx_resetWindow_def)
  have "adaptx_running pc \<Longrightarrow> adaptx_holds pc" for pc by (cases pc) auto
  then have "how_many adaptx_running ts \<le> how_many adaptx_holds ts" by (rule how_many_mono)
  with i assms(2) show ?thesis unfolding cfg [symmetric] by (auto simp: adaptx_inv_def adaptx_pool_def)
qed

lemma adaptx_run0:
  "adaptx_steps oob r x (l, ts) \<Longrightarrow> i < length ts \<Longrightarrow>
     adaptx_micro oob \<lparr>ah_ctx = None, ah_sel = ASem, ah_env = \<lparr>ae_now = 0, ae_rand1 = 0, ae_rand2 = 0\<rparr>, ah_success = True, ah_latency = 0\<rparr> l (ts ! i) = (l', pc)
     \<Longrightarrow> ts' = ts[i := pc] \<Longrightarrow> adaptx_steps oob r x (l', ts')"
  using adaptx_steps.step adaptx_step.run by blast

lemma adaptx_permit_accounting_witness:
  "\<exists>l. adaptx_steps (\<lambda>_. 0) False (adaptx_New (\<lambda>_. 0) 0 [], []) (l, [ARun]) \<and> al_inFlight l = 1 \<and> al_sem l = 9 \<and> al_limit l = 10"
proof -
  let ?l = "adaptx_New (\<lambda>_. 0) 0 []"
  note d = adaptx_New_def Let_def adaptx_sends adaptx_resetWindow_def adaptx_newConfig_def adaptx_minLimitFloor_def
    adaptx_DefaultMinLimit_def adaptx_DefaultInitialLimit_def adaptx_DefaultMaxLimit_def
  have l: "al_sem ?l = 10" "al_closed ?l = False" "al_inFlight ?l = 0" "al_limit ?l = 10" "al_debt ?l = 0" by (simp_all add: d)
  have "adaptx_steps (\<lambda>_. 0) False (?l, []) (?l, [AStart False])"
    using adaptx_steps.step [OF adaptx_steps.refl adaptx_step.call, of "\<lambda>_. 0" False ?l "[]" False] by simp
  then have "adaptx_steps (\<lambda>_. 0) False (?l, []) (?l, [ATryTake])" by (rule adaptx_run0 [where i = 0]) (simp_all add: l)
  then have "adaptx_steps (\<lambda>_. 0) False (?l, []) (adaptx_take ?l, [ARecheck])" by (rule adaptx_run0 [where i = 0]) (simp_all add: l)
  then have "adaptx_steps (\<lambda>_. 0) False (?l, []) (adaptx_take ?l, [AAdmit])"
    by (rule adaptx_run0 [where i = 0]) (simp_all add: l adaptx_take_def)
  then have s: "adaptx_steps (\<lambda>_. 0) False (?l, []) (adaptx_admit (adaptx_take ?l), [ARun])" by (rule adaptx_run0 [where i = 0]) simp_all
  have "\<not> al_closed (adaptx_admit (adaptx_take ?l))" "al_limit (adaptx_admit (adaptx_take ?l)) = 10" "al_debt (adaptx_admit (adaptx_take ?l)) = 0"
    by (simp_all add: adaptx_admit_def adaptx_add_inFlight_def adaptx_take_def Let_def l)
  with adaptx_permit_accounting [OF s _ HOL.refl] s show ?thesis
    by (intro exI [of _ "adaptx_admit (adaptx_take ?l)"]) (simp add: how_many_def)
qed

text \<open>
  \<open>ResetStats\<close> breaks the bound. It refills the channel to the limit minus \<open>InFlight\<close>, and a goroutine that has taken a permit but
  not yet counted itself is not in \<open>InFlight\<close>: with \<open>WithMaxLimit(1)\<close> there is a schedule in which two operations run at once.
\<close>

theorem adaptx_ResetStats_overadmits:
  "\<exists>l ts. adaptx_steps oob True (adaptx_New oob 0 [Some (adaptx_WithMaxLimit 1)], []) (l, ts)
     \<and> ac_maxLimit (al_cfg l) = 1 \<and> how_many adaptx_running ts = 2 \<and> al_inFlight l = 2"
proof -
  let ?l = "adaptx_New oob 0 [Some (adaptx_WithMaxLimit 1)]"
  note d = adaptx_New_def Let_def adaptx_sends adaptx_resetWindow_def adaptx_newConfig_def adaptx_WithMaxLimit_def adaptx_minLimitFloor_def
    adaptx_DefaultMinLimit_def adaptx_DefaultInitialLimit_def
  have l: "al_sem ?l = 1" "al_closed ?l = False" "al_inFlight ?l = 0" "ac_maxLimit (al_cfg ?l) = 1" "ac_initialLimit (al_cfg ?l) = 1"
    by (simp_all add: d)
  define a where "a = adaptx_take ?l"
  define b where "b = adaptx_ResetStats 0 a"
  have a: "al_sem a = 0" "al_closed a = False" "al_inFlight a = 0" "al_cfg a = al_cfg ?l" by (simp_all add: a_def adaptx_take_def l)
  have b: "al_sem b = 1" "al_closed b = False" "al_inFlight b = 0" "al_cfg b = al_cfg ?l"
    by (simp_all add: b_def adaptx_ResetStats_def adaptx_reconcilePermitsLocked_def adaptx_resetWindow_def Let_def adaptx_sends a l)
  have "adaptx_steps oob True (?l, []) (?l, [AStart False])"
    using adaptx_steps.step [OF adaptx_steps.refl adaptx_step.call, of oob True ?l "[]" False] by simp
  then have "adaptx_steps oob True (?l, []) (?l, [ATryTake])" by (rule adaptx_run0 [where i = 0]) (simp_all add: l)
  then have "adaptx_steps oob True (?l, []) (a, [ARecheck])" by (rule adaptx_run0 [where i = 0]) (simp_all add: l a_def)
  then have "adaptx_steps oob True (?l, []) (a, [AAdmit])" by (rule adaptx_run0 [where i = 0]) (simp_all add: a)
  then have "adaptx_steps oob True (?l, []) (b, [AAdmit])"
    unfolding b_def by (rule adaptx_steps.step) (rule adaptx_step.reset, simp)
  then have "adaptx_steps oob True (?l, []) (b, [AAdmit] @ [AStart False])"
    by (rule adaptx_steps.step) (rule adaptx_step.call)
  then have "adaptx_steps oob True (?l, []) (b, [AAdmit, ATryTake])" by (rule adaptx_run0 [where i = 1]) (simp_all add: b)
  then have "adaptx_steps oob True (?l, []) (adaptx_take b, [AAdmit, ARecheck])" by (rule adaptx_run0 [where i = 1]) (simp_all add: b)
  then have "adaptx_steps oob True (?l, []) (adaptx_take b, [AAdmit, AAdmit])"
    by (rule adaptx_run0 [where i = 1]) (simp_all add: b adaptx_take_def)
  then have "adaptx_steps oob True (?l, []) (adaptx_admit (adaptx_take b), [ARun, AAdmit])" by (rule adaptx_run0 [where i = 0]) simp_all
  then have s: "adaptx_steps oob True (?l, []) (adaptx_admit (adaptx_admit (adaptx_take b)), [ARun, ARun])"
    by (rule adaptx_run0 [where i = 1]) simp_all
  have "al_inFlight (adaptx_admit (adaptx_admit (adaptx_take b))) = 2" "al_cfg (adaptx_admit (adaptx_admit (adaptx_take b))) = al_cfg ?l"
    by (simp_all add: adaptx_admit_def adaptx_add_inFlight_def adaptx_take_def Let_def b)
  with s show ?thesis by (intro exI conjI) (assumption | simp add: how_many_def l)+
qed

end
