(* ===== verification/Warmupx.thy ===== *)
theory Warmupx
  imports Panix F64
begin

text \<open>
  Package \<open>warmupx\<close>: the gradual ramp of an admission capacity. The clock and the random number of an admission are arguments;
  \<open>math.Exp\<close> and \<open>math.Log\<close>, whose last bit the platform decides, are parameters. A channel is a number, and a warmer knows the set
  of its closed ones. This theory has the configuration and the operations, \<open>Warmupx_Ramp\<close> the curves and the states of a ramp,
  \<open>Warmupx_Conc\<close> the ticking goroutines and the callers that wait.
\<close>

subsection \<open>Errors and strategies\<close>

definition warmupx_ErrRejected :: goerr where "warmupx_ErrRejected = Sentinel ''warmupx: request rejected during warmup''"
definition warmupx_ErrNilFunc :: goerr where "warmupx_ErrNilFunc = Sentinel ''warmupx: nil function''"
definition warmupx_ErrCancelled :: goerr where "warmupx_ErrCancelled = Sentinel ''warmupx: context cancelled''"
definition warmupx_ErrClosed :: goerr where "warmupx_ErrClosed = Sentinel ''warmupx: warmer closed''"

text \<open>The text of \<open>%.2f\<close> is the argument \<open>fmt\<close>.\<close>

definition warmupx_errRejected :: "(f64 \<Rightarrow> string) \<Rightarrow> f64 \<Rightarrow> f64 \<Rightarrow> goerr" where
  "warmupx_errRejected fmt capacity progress =
     Errorf (''%w (capacity='' @ fmt capacity @ '', progress='' @ fmt progress @ '')'') [warmupx_ErrRejected]"

definition warmupx_errCancelled :: "goerr \<Rightarrow> goerr" where
  "warmupx_errCancelled cause = Errorf ''%w: %w'' [warmupx_ErrCancelled, cause]"

type_synonym warmupx_Strategy = "8 word"

definition warmupx_Linear :: warmupx_Strategy where "warmupx_Linear = 0"
definition warmupx_Exponential :: warmupx_Strategy where "warmupx_Exponential = 1"
definition warmupx_Logarithmic :: warmupx_Strategy where "warmupx_Logarithmic = 2"
definition warmupx_Step :: warmupx_Strategy where "warmupx_Step = 3"

lemmas warmupx_strategies = warmupx_Linear_def warmupx_Exponential_def warmupx_Logarithmic_def warmupx_Step_def

definition warmupx_labelLinear :: string where "warmupx_labelLinear = ''linear''"
definition warmupx_labelExponential :: string where "warmupx_labelExponential = ''exponential''"
definition warmupx_labelLogarithmic :: string where "warmupx_labelLogarithmic = ''logarithmic''"
definition warmupx_labelStep :: string where "warmupx_labelStep = ''step''"
definition warmupx_labelUnknown :: string where "warmupx_labelUnknown = ''unknown''"

definition warmupx_Strategy_String :: "warmupx_Strategy \<Rightarrow> string" where
  "warmupx_Strategy_String s =
     (if s = warmupx_Linear then warmupx_labelLinear else if s = warmupx_Exponential then warmupx_labelExponential
      else if s = warmupx_Logarithmic then warmupx_labelLogarithmic else if s = warmupx_Step then warmupx_labelStep
      else warmupx_labelUnknown)"

subsection \<open>Configuration\<close>

definition warmupx_DefaultStrategy :: warmupx_Strategy where "warmupx_DefaultStrategy = warmupx_Linear"
definition warmupx_DefaultMinCapacity :: f64 where "warmupx_DefaultMinCapacity = f64_round (1 / 10)"
definition warmupx_DefaultMaxCapacity :: f64 where "warmupx_DefaultMaxCapacity = 1"
definition warmupx_DefaultDuration :: int where "warmupx_DefaultDuration = 60 * 10 ^ 9"
definition warmupx_DefaultStepCount :: int where "warmupx_DefaultStepCount = 10"
definition warmupx_DefaultExpFactor :: f64 where "warmupx_DefaultExpFactor = 3"
definition warmupx_minCapacity :: f64 where "warmupx_minCapacity = 0"
definition warmupx_maxCapacity :: f64 where "warmupx_maxCapacity = 1"
definition warmupx_minInterval :: int where "warmupx_minInterval = 10 * 10 ^ 6"
definition warmupx_maxInterval :: int where "warmupx_maxInterval = 10 ^ 9"
definition warmupx_intervalDivisor :: int where "warmupx_intervalDivisor = 100"
definition warmupx_capacityEpsilon :: f64 where "warmupx_capacityEpsilon = f64_round (1 / 100)"
definition warmupx_opExecute :: string where "warmupx_opExecute = ''warmupx.Execute''"
definition warmupx_opTryExecute :: string where "warmupx_opTryExecute = ''warmupx.TryExecute''"

text \<open>The injected clock is the clock of the model, so it has no field. A hook may panic.\<close>

record warmupx_config =
  wc_strategy :: warmupx_Strategy
  wc_minCap :: f64
  wc_maxCap :: f64
  wc_duration :: int
  wc_interval :: int
  wc_stepCount :: int
  wc_expFactor :: f64
  wc_onCapChange :: "(f64 \<Rightarrow> f64 \<Rightarrow> unit outcome) option"
  wc_onComplete :: "unit outcome option"
  wc_op :: string

definition warmupx_newConfig :: "(warmupx_config \<Rightarrow> warmupx_config) option list \<Rightarrow> warmupx_config" where
  "warmupx_newConfig opts =
     (let c0 = apply_opts opts
        \<lparr>wc_strategy = warmupx_DefaultStrategy, wc_minCap = warmupx_DefaultMinCapacity, wc_maxCap = warmupx_DefaultMaxCapacity,
         wc_duration = warmupx_DefaultDuration, wc_interval = 0, wc_stepCount = warmupx_DefaultStepCount,
         wc_expFactor = warmupx_DefaultExpFactor, wc_onCapChange = None, wc_onComplete = None, wc_op = []\<rparr>;
        c1 = (if wc_maxCap c0 < wc_minCap c0 then c0\<lparr>wc_maxCap := wc_minCap c0\<rparr> else c0);
        c2 = (if wc_interval c1 \<le> 0 then c1\<lparr>wc_interval := wc_duration c1 div warmupx_intervalDivisor\<rparr> else c1);
        c3 = (if wc_interval c2 < warmupx_minInterval then c2\<lparr>wc_interval := warmupx_minInterval\<rparr> else c2)
      in if warmupx_maxInterval < wc_interval c3 then c3\<lparr>wc_interval := warmupx_maxInterval\<rparr> else c3)"

definition warmupx_opOrDefault :: "warmupx_config \<Rightarrow> string" where
  "warmupx_opOrDefault c = (if wc_op c \<noteq> [] then wc_op c else warmupx_opExecute)"

definition warmupx_opOrDefaultTry :: "warmupx_config \<Rightarrow> string" where
  "warmupx_opOrDefaultTry c = (if wc_op c \<noteq> [] then wc_op c else warmupx_opTryExecute)"

definition warmupx_WithStrategy :: "warmupx_Strategy \<Rightarrow> warmupx_config \<Rightarrow> warmupx_config" where
  "warmupx_WithStrategy s c = c\<lparr>wc_strategy := s\<rparr>"

definition warmupx_WithMinCapacity :: "f64 \<Rightarrow> warmupx_config \<Rightarrow> warmupx_config" where
  "warmupx_WithMinCapacity v c = (if warmupx_minCapacity \<le> v \<and> v \<le> warmupx_maxCapacity then c\<lparr>wc_minCap := v\<rparr> else c)"

definition warmupx_WithMaxCapacity :: "f64 \<Rightarrow> warmupx_config \<Rightarrow> warmupx_config" where
  "warmupx_WithMaxCapacity v c = (if warmupx_minCapacity < v \<and> v \<le> warmupx_maxCapacity then c\<lparr>wc_maxCap := v\<rparr> else c)"

definition warmupx_WithDuration :: "int \<Rightarrow> warmupx_config \<Rightarrow> warmupx_config" where
  "warmupx_WithDuration d c = (if 0 < d then c\<lparr>wc_duration := d\<rparr> else c)"

definition warmupx_WithInterval :: "int \<Rightarrow> warmupx_config \<Rightarrow> warmupx_config" where
  "warmupx_WithInterval d c = (if 0 < d then c\<lparr>wc_interval := d\<rparr> else c)"

definition warmupx_WithStepCount :: "int \<Rightarrow> warmupx_config \<Rightarrow> warmupx_config" where
  "warmupx_WithStepCount n c = (if 0 < n then c\<lparr>wc_stepCount := n\<rparr> else c)"

definition warmupx_WithExpFactor :: "f64 \<Rightarrow> warmupx_config \<Rightarrow> warmupx_config" where
  "warmupx_WithExpFactor f c = (if 0 < f then c\<lparr>wc_expFactor := f\<rparr> else c)"

definition warmupx_WithOnCapacityChange :: "(f64 \<Rightarrow> f64 \<Rightarrow> unit outcome) option \<Rightarrow> warmupx_config \<Rightarrow> warmupx_config" where
  "warmupx_WithOnCapacityChange fn c = c\<lparr>wc_onCapChange := fn\<rparr>"

definition warmupx_WithOnComplete :: "unit outcome option \<Rightarrow> warmupx_config \<Rightarrow> warmupx_config" where
  "warmupx_WithOnComplete fn c = c\<lparr>wc_onComplete := fn\<rparr>"

definition warmupx_WithOp :: "string \<Rightarrow> warmupx_config \<Rightarrow> warmupx_config" where
  "warmupx_WithOp op c = (if op \<noteq> [] then c\<lparr>wc_op := op\<rparr> else c)"

text \<open>What every option list leads to, when the numbers given to the options are floats.\<close>

definition warmupx_cfg_ok :: "warmupx_config \<Rightarrow> bool" where
  "warmupx_cfg_ok c \<longleftrightarrow> 0 \<le> wc_minCap c \<and> wc_minCap c \<le> wc_maxCap c \<and> wc_maxCap c \<le> 1 \<and> 0 < wc_duration c
     \<and> 0 < wc_stepCount c \<and> 0 < wc_expFactor c \<and> warmupx_minInterval \<le> wc_interval c \<and> wc_interval c \<le> warmupx_maxInterval
     \<and> f64_round (wc_minCap c) = wc_minCap c \<and> f64_round (wc_maxCap c) = wc_maxCap c"

subsection \<open>State\<close>

text \<open>
  The calls of the hooks are logged in the ghost \<open>ww_hooks\<close>. The zero time is \<open>None\<close>. The ghosts \<open>ww_made\<close> and \<open>ww_shut\<close> are the number of
  channels made and the closed ones, and \<open>ww_crashed\<close> is set by a close of a closed channel, which panics.
\<close>

datatype warmupx_hook = WCapacity f64 f64 | WComplete

record warmupx_Warmer =
  ww_cfg :: warmupx_config
  ww_start :: "int option"
  ww_capacity :: f64
  ww_progress :: f64
  ww_warming :: bool
  ww_complete :: bool
  ww_gen :: u64
  ww_stopCh :: "nat option"
  ww_completeCh :: "nat option"
  ww_allowed :: int
  ww_rejected :: int
  ww_closed :: bool
  ww_made :: nat
  ww_shut :: "nat set"
  ww_crashed :: bool
  ww_hooks :: "warmupx_hook list"

text \<open>The parts of package \<open>math\<close> and of the platform the ramp depends on.\<close>

record warmupx_math =
  wm_Exp :: "f64 \<Rightarrow> f64"
  wm_Log :: "f64 \<Rightarrow> f64"
  wm_oob :: "f64 \<Rightarrow> int"

definition warmupx_close_ch :: "nat option \<Rightarrow> warmupx_Warmer \<Rightarrow> warmupx_Warmer" where
  "warmupx_close_ch ch w =
     (case ch of
        None \<Rightarrow> w\<lparr>ww_crashed := True\<rparr>
      | Some k \<Rightarrow> if k \<in> ww_shut w then w\<lparr>ww_crashed := True\<rparr> else w\<lparr>ww_shut := insert k (ww_shut w)\<rparr>)"

definition warmupx_New :: "(warmupx_config \<Rightarrow> warmupx_config) option list \<Rightarrow> warmupx_Warmer" where
  "warmupx_New opts =
     (let cfg = warmupx_newConfig opts
      in \<lparr>ww_cfg = cfg, ww_start = None, ww_capacity = wc_minCap cfg, ww_progress = 0, ww_warming = False, ww_complete = False,
          ww_gen = 0, ww_stopCh = None, ww_completeCh = Some 0, ww_allowed = 0, ww_rejected = 0, ww_closed = False,
          ww_made = 1, ww_shut = {}, ww_crashed = False, ww_hooks = []\<rparr>)"

subsection \<open>Curves\<close>

text \<open>The constant \<open>math.E\<close> as package \<open>math\<close> writes it, and the integer roundings of a float.\<close>

definition warmupx_E :: rat where
  "warmupx_E = 271828182845904523536028747135266249775724709369995957496696763 / 10 ^ 62"

definition f64_Floor :: "f64 \<Rightarrow> f64" where "f64_Floor x = of_int \<lfloor>x\<rfloor>"
definition f64_Ceil :: "f64 \<Rightarrow> f64" where "f64_Ceil x = of_int \<lceil>x\<rceil>"

definition f64_Round :: "f64 \<Rightarrow> f64" where
  "f64_Round x = (if 0 \<le> x then of_int \<lfloor>x + 1 / 2\<rfloor> else - of_int \<lfloor>- x + 1 / 2\<rfloor>)"

definition warmupx_linear :: "f64 \<Rightarrow> f64 \<Rightarrow> f64 \<Rightarrow> f64" where
  "warmupx_linear base delta t = f64_add base (f64_mul delta t)"

definition warmupx_curve :: "warmupx_math \<Rightarrow> warmupx_config \<Rightarrow> f64 \<Rightarrow> f64" where
  "warmupx_curve m c t =
     (let base = wc_minCap c; delta = f64_sub (wc_maxCap c) base
      in if wc_strategy c = warmupx_Linear then warmupx_linear base delta t
         else if wc_strategy c = warmupx_Exponential
         then let k = wc_expFactor c; denom = f64_sub 1 (wm_Exp m (- k))
              in if denom = 0 then warmupx_linear base delta t
                 else f64_add base (f64_div (f64_mul delta (f64_sub 1 (wm_Exp m (f64_mul (- k) t)))) denom)
         else if wc_strategy c = warmupx_Logarithmic
         then f64_add base (f64_div (f64_mul delta (wm_Log m (f64_add 1 (f64_mul t (f64_round warmupx_E)))))
                (wm_Log m (f64_round (1 + warmupx_E))))
         else if wc_strategy c = warmupx_Step
         then let steps = f64_Floor (f64_mul t (f64_of_int (wc_stepCount c)))
              in f64_add base (f64_mul (f64_div delta (f64_of_int (wc_stepCount c))) steps)
         else warmupx_linear base delta t)"

definition warmupx_calculate :: "warmupx_math \<Rightarrow> warmupx_config \<Rightarrow> f64 \<Rightarrow> f64" where
  "warmupx_calculate m c t0 =
     (let t = (if t0 < 0 then 0 else if 1 < t0 then 1 else t0); value = warmupx_curve m c t
      in if wc_maxCap c < value then wc_maxCap c else value)"

definition warmupx_invert :: "warmupx_math \<Rightarrow> warmupx_config \<Rightarrow> f64 \<Rightarrow> f64" where
  "warmupx_invert m c capacity =
     (let delta = f64_sub (wc_maxCap c) (wc_minCap c)
      in if delta \<le> 0 then 1
         else let frac = f64_div (f64_sub capacity (wc_minCap c)) delta
              in if frac \<le> 0 then 0
                 else if 1 \<le> frac then 1
                 else if wc_strategy c = warmupx_Linear then frac
                 else if wc_strategy c = warmupx_Exponential
                 then let k = wc_expFactor c; denom = f64_sub 1 (wm_Exp m (- k))
                      in f64_div (- wm_Log m (f64_sub 1 (f64_mul frac denom))) k
                 else if wc_strategy c = warmupx_Logarithmic
                 then f64_div (f64_sub (wm_Exp m (f64_mul frac (wm_Log m (f64_round (1 + warmupx_E))))) 1) (f64_round warmupx_E)
                 else if wc_strategy c = warmupx_Step
                 then let n = f64_of_int (wc_stepCount c) in if n \<le> 0 then frac else f64_div (f64_Round (f64_mul frac n)) n
                 else frac)"

subsection \<open>Time\<close>

definition warmupx_sinceStartLocked :: "int \<Rightarrow> warmupx_Warmer \<Rightarrow> int" where
  "warmupx_sinceStartLocked now w =
     (case ww_start w of None \<Rightarrow> 0 | Some s \<Rightarrow> let d = now - s in if d < 0 then 0 else d)"

definition warmupx_fraction :: "int \<Rightarrow> warmupx_Warmer \<Rightarrow> f64" where
  "warmupx_fraction now w =
     (let p = f64_div (f64_of_int (warmupx_sinceStartLocked now w)) (f64_of_int (wc_duration (ww_cfg w))) in if 1 < p then 1 else p)"

definition warmupx_freezeProgressLocked :: "int \<Rightarrow> warmupx_Warmer \<Rightarrow> warmupx_Warmer" where
  "warmupx_freezeProgressLocked now w =
     (if \<not> ww_warming w \<or> ww_start w = None then w else w\<lparr>ww_progress := warmupx_fraction now w\<rparr>)"

definition warmupx_progressLocked :: "int \<Rightarrow> warmupx_Warmer \<Rightarrow> f64" where
  "warmupx_progressLocked now w =
     (if ww_complete w then 1
      else if ww_start w = None then 0
      else if ww_warming w then warmupx_fraction now w
      else ww_progress w)"

subsection \<open>Ramp\<close>

definition warmupx_invokeOnCapacityChange :: "f64 \<Rightarrow> f64 \<Rightarrow> warmupx_Warmer \<Rightarrow> warmupx_Warmer" where
  "warmupx_invokeOnCapacityChange old new w =
     (if wc_onCapChange (ww_cfg w) = None then w else w\<lparr>ww_hooks := ww_hooks w @ [WCapacity old new]\<rparr>)"

definition warmupx_invokeOnComplete :: "warmupx_Warmer \<Rightarrow> warmupx_Warmer" where
  "warmupx_invokeOnComplete w =
     (if wc_onComplete (ww_cfg w) = None then w else w\<lparr>ww_hooks := ww_hooks w @ [WComplete]\<rparr>)"

fun warmupx_invoke :: "warmupx_hook \<Rightarrow> warmupx_Warmer \<Rightarrow> warmupx_Warmer" where
  "warmupx_invoke (WCapacity old new) w = warmupx_invokeOnCapacityChange old new w"
| "warmupx_invoke WComplete w = warmupx_invokeOnComplete w"

definition warmupx_stopLocked :: "warmupx_Warmer \<Rightarrow> warmupx_Warmer" where
  "warmupx_stopLocked w =
     (case ww_stopCh w of None \<Rightarrow> w | Some k \<Rightarrow> (warmupx_close_ch (Some k) w)\<lparr>ww_stopCh := None\<rparr>)"

definition warmupx_make_completeCh :: "warmupx_Warmer \<Rightarrow> warmupx_Warmer" where
  "warmupx_make_completeCh w = w\<lparr>ww_completeCh := Some (ww_made w), ww_made := ww_made w + 1\<rparr>"

definition warmupx_make_stopCh :: "warmupx_Warmer \<Rightarrow> warmupx_Warmer" where
  "warmupx_make_stopCh w = w\<lparr>ww_stopCh := Some (ww_made w), ww_made := ww_made w + 1\<rparr>"

text \<open>
  The locked section of \<open>StartAt\<close>: the new state, the hooks to call once the lock is free, and the generation and stop channel of the
  goroutine to start.
\<close>

definition warmupx_clamp :: "warmupx_config \<Rightarrow> f64 \<Rightarrow> f64" where
  "warmupx_clamp c x =
     (let y = (if x < wc_minCap c then wc_minCap c else x) in if wc_maxCap c < y then wc_maxCap c else y)"

definition warmupx_rearm :: "warmupx_Warmer \<Rightarrow> warmupx_Warmer" where
  "warmupx_rearm w =
     (let w1 = warmupx_stopLocked w;
          w2 = (if ww_completeCh w1 \<noteq> None \<and> \<not> ww_complete w1 then warmupx_close_ch (ww_completeCh w1) w1 else w1);
          w3 = warmupx_make_completeCh w2
      in w3\<lparr>ww_gen := ww_gen w3 + 1\<rparr>)"

definition warmupx_StartAt_locked ::
  "warmupx_math \<Rightarrow> int \<Rightarrow> f64 \<Rightarrow> warmupx_Warmer \<Rightarrow> warmupx_Warmer \<times> warmupx_hook list \<times> (u64 \<times> nat) option" where
  "warmupx_StartAt_locked m now x w =
     (let capacity = warmupx_clamp (ww_cfg w) x
      in if ww_closed w then (w, [], None)
         else let w1 = warmupx_rearm w
              in if wc_maxCap (ww_cfg w1) \<le> capacity
                 then let old = ww_capacity w1;
                          w2 = w1\<lparr>ww_capacity := wc_maxCap (ww_cfg w1), ww_progress := 1, ww_start := Some now, ww_warming := False,
                                  ww_complete := True\<rparr>;
                          w3 = warmupx_close_ch (ww_completeCh w2) w2; new = ww_capacity w3
                      in (w3, (if wc_onCapChange (ww_cfg w3) \<noteq> None \<and> old \<noteq> new then [WCapacity old new] else []) @ [WComplete], None)
                 else let t0 = warmupx_invert m (ww_cfg w1) capacity;
                          back = f64_to_i64 (wm_oob m) (f64_mul t0 (f64_of_int (wc_duration (ww_cfg w1))));
                          w2 = warmupx_make_stopCh
                                 (w1\<lparr>ww_start := Some (now - back), ww_capacity := capacity, ww_progress := t0, ww_warming := True,
                                     ww_complete := False\<rparr>)
                      in (w2, [], map_option (Pair (ww_gen w2)) (ww_stopCh w2)))"

definition warmupx_StartAt :: "warmupx_math \<Rightarrow> int \<Rightarrow> f64 \<Rightarrow> warmupx_Warmer \<Rightarrow> warmupx_Warmer \<times> (u64 \<times> nat) option" where
  "warmupx_StartAt m now x w =
     (case warmupx_StartAt_locked m now x w of (w1, hooks, loop) \<Rightarrow> (fold warmupx_invoke hooks w1, loop))"

definition warmupx_Start :: "warmupx_math \<Rightarrow> int \<Rightarrow> warmupx_Warmer \<Rightarrow> warmupx_Warmer \<times> (u64 \<times> nat) option" where
  "warmupx_Start m now w = warmupx_StartAt m now (wc_minCap (ww_cfg w)) w"

definition warmupx_Reset :: "warmupx_math \<Rightarrow> int \<Rightarrow> warmupx_Warmer \<Rightarrow> warmupx_Warmer \<times> (u64 \<times> nat) option" where
  "warmupx_Reset m now w = warmupx_StartAt m now (wc_minCap (ww_cfg w)) w"

definition warmupx_Stop :: "int \<Rightarrow> warmupx_Warmer \<Rightarrow> warmupx_Warmer" where
  "warmupx_Stop now w = (warmupx_stopLocked (warmupx_freezeProgressLocked now w))\<lparr>ww_warming := False\<rparr>"

definition warmupx_Close :: "int \<Rightarrow> warmupx_Warmer \<Rightarrow> warmupx_Warmer" where
  "warmupx_Close now w =
     (if ww_closed w then w
      else let w1 = warmupx_Stop now (w\<lparr>ww_closed := True\<rparr>)
           in if ww_completeCh w1 \<noteq> None \<and> \<not> ww_complete w1 then warmupx_close_ch (ww_completeCh w1) w1 else w1)"

definition warmupx_IsClosed :: "warmupx_Warmer \<Rightarrow> bool" where "warmupx_IsClosed w = ww_closed w"

text \<open>The locked section of \<open>tick\<close>, with the hooks to call after it, and whether the loop ends.\<close>

definition warmupx_tick_locked ::
  "warmupx_math \<Rightarrow> int \<Rightarrow> u64 \<Rightarrow> warmupx_Warmer \<Rightarrow> warmupx_Warmer \<times> warmupx_hook list \<times> bool" where
  "warmupx_tick_locked m now gen w =
     (if ww_gen w \<noteq> gen \<or> \<not> ww_warming w \<or> ww_complete w then (w, [], True)
      else let elapsed = warmupx_sinceStartLocked now w; old = ww_capacity w
           in if wc_duration (ww_cfg w) \<le> elapsed
              then let w1 = w\<lparr>ww_capacity := wc_maxCap (ww_cfg w), ww_warming := False, ww_complete := True\<rparr>;
                       w2 = warmupx_close_ch (ww_completeCh w1) w1; new = ww_capacity w2
                   in (w2, (if wc_onCapChange (ww_cfg w2) \<noteq> None \<and> old \<noteq> new then [WCapacity old new] else []) @ [WComplete], True)
              else let t = f64_div (f64_of_int elapsed) (f64_of_int (wc_duration (ww_cfg w)));
                       w1 = w\<lparr>ww_capacity := warmupx_calculate m (ww_cfg w) t\<rparr>; new = ww_capacity w1
                   in (w1, (if wc_onCapChange (ww_cfg w1) \<noteq> None \<and> warmupx_capacityEpsilon < \<bar>f64_sub new old\<bar>
                            then [WCapacity old new] else []), False))"

definition warmupx_tick :: "warmupx_math \<Rightarrow> int \<Rightarrow> u64 \<Rightarrow> warmupx_Warmer \<Rightarrow> warmupx_Warmer \<times> bool" where
  "warmupx_tick m now gen w =
     (case warmupx_tick_locked m now gen w of (w1, hooks, done_) \<Rightarrow> (fold warmupx_invoke hooks w1, done_))"

subsection \<open>Queries and admission\<close>

definition warmupx_Warmer_Capacity :: "warmupx_Warmer \<Rightarrow> f64" where "warmupx_Warmer_Capacity w = ww_capacity w"
definition warmupx_Warmer_Strategy :: "warmupx_Warmer \<Rightarrow> warmupx_Strategy" where "warmupx_Warmer_Strategy w = wc_strategy (ww_cfg w)"
definition warmupx_IsWarming :: "warmupx_Warmer \<Rightarrow> bool" where "warmupx_IsWarming w = ww_warming w"
definition warmupx_IsComplete :: "warmupx_Warmer \<Rightarrow> bool" where "warmupx_IsComplete w = ww_complete w"
definition warmupx_Warmer_Progress :: "int \<Rightarrow> warmupx_Warmer \<Rightarrow> f64" where "warmupx_Warmer_Progress now w = warmupx_progressLocked now w"

definition warmupx_add_allowed :: "warmupx_Warmer \<Rightarrow> warmupx_Warmer" where
  "warmupx_add_allowed w = w\<lparr>ww_allowed := wrap_i64 (ww_allowed w + 1)\<rparr>"

definition warmupx_add_rejected :: "warmupx_Warmer \<Rightarrow> warmupx_Warmer" where
  "warmupx_add_rejected w = w\<lparr>ww_rejected := wrap_i64 (ww_rejected w + 1)\<rparr>"

text \<open>\<open>r\<close> is what \<open>rand.Float64\<close> returns.\<close>

definition warmupx_Allow :: "f64 \<Rightarrow> warmupx_Warmer \<Rightarrow> warmupx_Warmer \<times> bool" where
  "warmupx_Allow r w =
     (if ww_closed w then (w, False)
      else let capacity = ww_capacity w in if r < capacity then (warmupx_add_allowed w, True) else (warmupx_add_rejected w, False))"

definition warmupx_AllowOrError :: "(f64 \<Rightarrow> string) \<Rightarrow> int \<Rightarrow> f64 \<Rightarrow> warmupx_Warmer \<Rightarrow> warmupx_Warmer \<times> goerror" where
  "warmupx_AllowOrError fmt now r w =
     (if ww_closed w then (w, Some warmupx_ErrClosed)
      else let capacity = ww_capacity w; progress = warmupx_progressLocked now w
           in if r < capacity then (warmupx_add_allowed w, None)
              else (warmupx_add_rejected w, Some (warmupx_errRejected fmt capacity progress)))"

definition warmupx_MaxRequests :: "(f64 \<Rightarrow> int) \<Rightarrow> int \<Rightarrow> warmupx_Warmer \<Rightarrow> int" where
  "warmupx_MaxRequests oob baseLimit w =
     (if baseLimit \<le> 0 then 0
      else let capacity = warmupx_Warmer_Capacity w
           in if capacity \<le> 0 then 0 else f64_to_i64 oob (f64_Ceil (f64_mul (f64_of_int baseLimit) capacity)))"

text \<open>One round of \<open>WaitForCompletion\<close>: it returns, or it blocks on a channel.\<close>

datatype warmupx_wait = WReturn goerror | WBlock nat

definition warmupx_wait_round :: "warmupx_Warmer \<Rightarrow> warmupx_wait" where
  "warmupx_wait_round w =
     (if ww_closed w then WReturn (Some warmupx_ErrClosed)
      else if ww_complete w then WReturn None
      else if \<not> ww_warming w \<and> ww_start w = None then WReturn None
      else case ww_completeCh w of None \<Rightarrow> WReturn None | Some ch \<Rightarrow> WBlock ch)"

subsection \<open>Execution\<close>

record warmupx_execution =
  wx_capacity :: f64
  wx_progress :: f64
  wx_strategy :: warmupx_Strategy
  wx_rejected :: bool

definition warmupx_Capacity :: "warmupx_execution \<Rightarrow> f64" where "warmupx_Capacity e = wx_capacity e"
definition warmupx_Progress :: "warmupx_execution \<Rightarrow> f64" where "warmupx_Progress e = wx_progress e"
definition warmupx_execution_Strategy :: "warmupx_execution \<Rightarrow> warmupx_Strategy" where "warmupx_execution_Strategy e = wx_strategy e"
definition warmupx_Reject :: "warmupx_execution \<Rightarrow> warmupx_execution" where "warmupx_Reject e = e\<lparr>wx_rejected := True\<rparr>"

text \<open>The callback may use its controller, and it and other goroutines the warmer, meanwhile.\<close>

type_synonym 'a warmupx_WarmupFunc =
  "warmupx_execution \<Rightarrow> warmupx_Warmer \<Rightarrow> warmupx_execution \<times> warmupx_Warmer \<times> 'a outcome"

record warmupx_admission =
  wd_capacity :: f64
  wd_progress :: f64
  wd_strategy :: warmupx_Strategy
  wd_ok :: bool
  wd_closed :: bool

definition warmupx_tryAdmit :: "int \<Rightarrow> f64 \<Rightarrow> warmupx_Warmer \<Rightarrow> warmupx_Warmer \<times> warmupx_admission" where
  "warmupx_tryAdmit now r w =
     (if ww_closed w then (w, \<lparr>wd_capacity = 0, wd_progress = 0, wd_strategy = 0, wd_ok = False, wd_closed = True\<rparr>)
      else let capacity = ww_capacity w;
               d = \<lparr>wd_capacity = capacity, wd_progress = warmupx_progressLocked now w, wd_strategy = wc_strategy (ww_cfg w),
                    wd_ok = True, wd_closed = False\<rparr>
           in if capacity \<le> r then (warmupx_add_rejected w, d\<lparr>wd_ok := False\<rparr>) else (w, d))"

definition warmupx_executeRun ::
  "(f64 \<Rightarrow> string) \<Rightarrow> 'a \<Rightarrow> string \<Rightarrow> warmupx_admission \<Rightarrow> 'a warmupx_WarmupFunc \<Rightarrow> warmupx_Warmer \<Rightarrow> warmupx_Warmer \<times> 'a \<times> goerror" where
  "warmupx_executeRun fmt zero op d fn w =
     (let wc = \<lparr>wx_capacity = wd_capacity d, wx_progress = wd_progress d, wx_strategy = wd_strategy d, wx_rejected = False\<rparr>
      in case fn wc w of
           (wc1, w1, out) \<Rightarrow>
             (case panix_Safe zero op (Some out) of
                (val, Some err) \<Rightarrow> (w1, zero, Some err)
              | (val, None) \<Rightarrow>
                  if wx_rejected wc1 then (warmupx_add_rejected w1, zero, Some (warmupx_errRejected fmt (wd_capacity d) (wd_progress d)))
                  else (warmupx_add_allowed w1, val, None)))"

text \<open>\<open>e0\<close> is \<open>ctx.Err()\<close> at the top.\<close>

definition warmupx_Execute ::
  "(f64 \<Rightarrow> string) \<Rightarrow> int \<Rightarrow> f64 \<Rightarrow> goerror \<Rightarrow> 'a \<Rightarrow> 'a warmupx_WarmupFunc option \<Rightarrow> warmupx_Warmer \<Rightarrow> warmupx_Warmer \<times> 'a \<times> goerror" where
  "warmupx_Execute fmt now r e0 zero fn w =
     (case fn of
        None \<Rightarrow> (w, zero, Some warmupx_ErrNilFunc)
      | Some f \<Rightarrow>
          (case e0 of
             Some e \<Rightarrow> (w, zero, Some (warmupx_errCancelled e))
           | None \<Rightarrow>
               (case warmupx_tryAdmit now r w of
                  (w1, d) \<Rightarrow>
                    if wd_closed d then (w1, zero, Some warmupx_ErrClosed)
                    else if \<not> wd_ok d then (w1, zero, Some (warmupx_errRejected fmt (wd_capacity d) (wd_progress d)))
                    else warmupx_executeRun fmt zero (warmupx_opOrDefault (ww_cfg w1)) d f w1)))"

definition warmupx_TryExecute ::
  "(f64 \<Rightarrow> string) \<Rightarrow> int \<Rightarrow> f64 \<Rightarrow> goerror \<Rightarrow> 'a \<Rightarrow> 'a warmupx_WarmupFunc option \<Rightarrow> warmupx_Warmer \<Rightarrow> warmupx_Warmer \<times> bool \<times> 'a \<times> goerror" where
  "warmupx_TryExecute fmt now r e0 zero fn w =
     (case fn of
        None \<Rightarrow> (w, False, zero, Some warmupx_ErrNilFunc)
      | Some f \<Rightarrow>
          (case e0 of
             Some e \<Rightarrow> (w, False, zero, Some (warmupx_errCancelled e))
           | None \<Rightarrow>
               (case warmupx_tryAdmit now r w of
                  (w1, d) \<Rightarrow>
                    if wd_closed d then (w1, False, zero, Some warmupx_ErrClosed)
                    else if \<not> wd_ok d then (w1, False, zero, None)
                    else (case warmupx_executeRun fmt zero (warmupx_opOrDefaultTry (ww_cfg w1)) d f w1 of
                            (w2, val, err) \<Rightarrow> (w2, True, val, err)))))"

subsection \<open>Statistics\<close>

record warmupx_Stats =
  wt_Strategy :: string
  wt_Capacity :: f64
  wt_MinCapacity :: f64
  wt_MaxCapacity :: f64
  wt_Progress :: f64
  wt_IsWarming :: bool
  wt_IsComplete :: bool
  wt_Duration :: int
  wt_Elapsed :: int
  wt_Remaining :: int
  wt_Allowed :: int
  wt_Rejected :: int

definition warmupx_WarmerStats :: "int \<Rightarrow> int \<Rightarrow> warmupx_Warmer \<Rightarrow> warmupx_Stats" where
  "warmupx_WarmerStats now1 now2 w =
     (let dur = wc_duration (ww_cfg w);
          e = warmupx_sinceStartLocked now1 w;
          elapsed = (if ww_start w = None then 0 else if dur < e then dur else e);
          remaining = (if ww_start w = None then 0 else dur - elapsed)
      in \<lparr>wt_Strategy = warmupx_Strategy_String (wc_strategy (ww_cfg w)), wt_Capacity = ww_capacity w,
          wt_MinCapacity = wc_minCap (ww_cfg w), wt_MaxCapacity = wc_maxCap (ww_cfg w), wt_Progress = warmupx_progressLocked now2 w,
          wt_IsWarming = ww_warming w, wt_IsComplete = ww_complete w, wt_Duration = dur, wt_Elapsed = elapsed, wt_Remaining = remaining,
          wt_Allowed = ww_allowed w, wt_Rejected = ww_rejected w\<rparr>)"

definition warmupx_ResetStats :: "warmupx_Warmer \<Rightarrow> warmupx_Warmer" where
  "warmupx_ResetStats w = w\<lparr>ww_allowed := 0, ww_rejected := 0\<rparr>"

text \<open>\<open>Close\<close> with the clock of a moment; later calls do not read it.\<close>

interpretation warmupx: closer "warmupx_Close now" warmupx_IsClosed
  by unfold_locales
    (auto simp: warmupx_Close_def warmupx_IsClosed_def Let_def warmupx_Stop_def warmupx_freezeProgressLocked_def
      warmupx_stopLocked_def warmupx_close_ch_def split: option.splits)

end
