(* ===== verification/Warmupx_Ramp.thy ===== *)
theory Warmupx_Ramp
  imports Warmupx
begin

text \<open>
  Package \<open>warmupx\<close>, part two: the curves and the ticks of a ramp. What the ramp needs of \<open>math.Exp\<close> and \<open>math.Log\<close> is their sign
  (\<open>warmupx_math_ok\<close>) and, for a ramp that never falls, that they are monotone (\<open>warmupx_math_mono\<close>).
\<close>

definition warmupx_math_ok :: "warmupx_math \<Rightarrow> bool" where
  "warmupx_math_ok m \<longleftrightarrow> (\<forall>x\<le>0. wm_Exp m x \<le> 1) \<and> (\<forall>x\<ge>1. 0 \<le> wm_Log m x)"

definition warmupx_math_mono :: "warmupx_math \<Rightarrow> bool" where
  "warmupx_math_mono m \<longleftrightarrow> (\<forall>x y. x \<le> y \<longrightarrow> wm_Exp m x \<le> wm_Exp m y) \<and> (\<forall>x y. 1 \<le> x \<and> x \<le> y \<longrightarrow> wm_Log m x \<le> wm_Log m y)"

subsection \<open>Configuration\<close>

text \<open>Every option keeps the configuration in order, when the floats it is given are floats.\<close>

definition warmupx_opt_ok :: "(warmupx_config \<Rightarrow> warmupx_config) \<Rightarrow> bool" where
  "warmupx_opt_ok f \<longleftrightarrow>
     (\<exists>s. f = warmupx_WithStrategy s) \<or> (\<exists>v. f64_round v = v \<and> f = warmupx_WithMinCapacity v)
     \<or> (\<exists>v. f64_round v = v \<and> f = warmupx_WithMaxCapacity v) \<or> (\<exists>d. f = warmupx_WithDuration d) \<or> (\<exists>d. f = warmupx_WithInterval d)
     \<or> (\<exists>n. f = warmupx_WithStepCount n) \<or> (\<exists>k. f = warmupx_WithExpFactor k) \<or> (\<exists>h. f = warmupx_WithOnCapacityChange h)
     \<or> (\<exists>h. f = warmupx_WithOnComplete h) \<or> (\<exists>op. f = warmupx_WithOp op)"

lemmas warmupx_options = warmupx_WithStrategy_def warmupx_WithMinCapacity_def warmupx_WithMaxCapacity_def warmupx_WithDuration_def
  warmupx_WithInterval_def warmupx_WithStepCount_def warmupx_WithExpFactor_def warmupx_WithOnCapacityChange_def
  warmupx_WithOnComplete_def warmupx_WithOp_def warmupx_minCapacity_def warmupx_maxCapacity_def

lemmas warmupx_defaults = warmupx_DefaultStrategy_def warmupx_DefaultMinCapacity_def warmupx_DefaultMaxCapacity_def
  warmupx_DefaultDuration_def warmupx_DefaultStepCount_def warmupx_DefaultExpFactor_def warmupx_intervalDivisor_def
  warmupx_minInterval_def warmupx_maxInterval_def

definition warmupx_pre_ok :: "warmupx_config \<Rightarrow> bool" where
  "warmupx_pre_ok c \<longleftrightarrow> 0 \<le> wc_minCap c \<and> wc_minCap c \<le> 1 \<and> wc_maxCap c \<le> 1 \<and> 0 < wc_duration c \<and> 0 < wc_stepCount c
     \<and> 0 < wc_expFactor c \<and> f64_round (wc_minCap c) = wc_minCap c \<and> f64_round (wc_maxCap c) = wc_maxCap c"

lemma warmupx_opt_pre: "warmupx_opt_ok f \<Longrightarrow> warmupx_pre_ok c \<Longrightarrow> warmupx_pre_ok (f c)"
  by (auto simp: warmupx_opt_ok_def warmupx_pre_ok_def warmupx_options)

lemma f64_tenth: "0 \<le> f64_round (1 / 10) \<and> f64_round (1 / 10) \<le> 1"
  using f64.rnd_nonneg [of "1 / 10"] f64.rnd_upper [of "1 / 10" 1] by simp

lemma warmupx_newConfig_ok:
  assumes "\<And>f. Some f \<in> set opts \<Longrightarrow> warmupx_opt_ok f"
  shows "warmupx_cfg_ok (warmupx_newConfig opts)"
proof -
  let ?c = "\<lparr>wc_strategy = warmupx_DefaultStrategy, wc_minCap = warmupx_DefaultMinCapacity, wc_maxCap = warmupx_DefaultMaxCapacity,
    wc_duration = warmupx_DefaultDuration, wc_interval = 0, wc_stepCount = warmupx_DefaultStepCount,
    wc_expFactor = warmupx_DefaultExpFactor, wc_onCapChange = None, wc_onComplete = None, wc_op = []\<rparr>"
  have "warmupx_pre_ok ?c" using f64_tenth by (simp add: warmupx_pre_ok_def warmupx_defaults f64.rnd_idem)
  then have "warmupx_pre_ok (apply_opts opts ?c)"
    by (rule apply_opts_inv) (use assms warmupx_opt_pre in blast)
  then show ?thesis
    unfolding warmupx_newConfig_def Let_def
    by (auto simp: warmupx_cfg_ok_def warmupx_pre_ok_def warmupx_minInterval_def warmupx_maxInterval_def)
qed

subsection \<open>The curves\<close>

lemma f64_add_mono: "x \<le> x' \<Longrightarrow> y \<le> y' \<Longrightarrow> f64_add x y \<le> f64_add x' y'"
  by (simp add: f64_add_def f64.rnd_mono)

lemma f64_sub_mono: "x \<le> x' \<Longrightarrow> y' \<le> y \<Longrightarrow> f64_sub x y \<le> f64_sub x' y'"
  by (simp add: f64_sub_def f64.rnd_mono)

lemma f64_mul_mono: "0 \<le> x \<Longrightarrow> y \<le> y' \<Longrightarrow> f64_mul x y \<le> f64_mul x y'"
  by (simp add: f64_mul_def f64.rnd_mono mult_left_mono)

lemma f64_div_mono: "0 < d \<Longrightarrow> y \<le> y' \<Longrightarrow> f64_div y d \<le> f64_div y' d"
  by (simp add: f64_div_def f64.rnd_mono divide_right_mono)

lemma f64_sub_nonneg: "y \<le> x \<Longrightarrow> 0 \<le> f64_sub x y"
  by (simp add: f64_sub_def f64.rnd_nonneg)

lemma f64_add_lower: "f64_round x = x \<Longrightarrow> 0 \<le> y \<Longrightarrow> x \<le> f64_add x y"
  by (simp add: f64_add_def f64.rnd_add_lower)

lemma f64_add_one: "0 \<le> y \<Longrightarrow> 1 \<le> f64_add 1 y"
  by (rule f64_add_lower) simp_all

lemma warmupx_E_pos: "0 \<le> f64_round warmupx_E" "1 \<le> f64_round (1 + warmupx_E)"
  using f64.rnd_nonneg [of warmupx_E] f64.rnd_lower [of 1 "1 + warmupx_E"] by (simp_all add: warmupx_E_def)

lemma warmupx_denom:
  assumes "warmupx_math_ok m" and "0 < k" and "f64_sub 1 (wm_Exp m (- k)) \<noteq> 0"
  shows "0 < f64_sub 1 (wm_Exp m (- k))"
  using f64_sub_nonneg [of "wm_Exp m (- k)" 1] assms by (simp add: warmupx_math_ok_def)

lemma warmupx_exponent: "0 < k \<Longrightarrow> 0 \<le> t \<Longrightarrow> f64_mul (- k) t \<le> 0"
  by (simp add: f64_mul_def f64.rnd_nonpos mult_nonneg_nonneg)

lemma warmupx_curve_lower:
  assumes "warmupx_cfg_ok c" and "warmupx_math_ok m" and "0 \<le> t"
  shows "wc_minCap c \<le> warmupx_curve m c t"
proof -
  let ?d = "f64_sub (wc_maxCap c) (wc_minCap c)"
  have c: "wc_minCap c \<le> wc_maxCap c" "f64_round (wc_minCap c) = wc_minCap c" "0 < wc_expFactor c" "0 < wc_stepCount c"
    using assms(1) by (simp_all add: warmupx_cfg_ok_def)
  have d: "0 \<le> ?d" using f64_sub_nonneg [OF c(1)] .
  have exp: "0 \<le> f64_sub 1 (wm_Exp m (f64_mul (- wc_expFactor c) t))"
    using assms(2) warmupx_exponent [OF c(3) assms(3)] by (intro f64_sub_nonneg) (simp add: warmupx_math_ok_def)
  have log: "0 \<le> wm_Log m (f64_add 1 (f64_mul t (f64_round warmupx_E)))" "0 \<le> wm_Log m (f64_round (1 + warmupx_E))"
    using assms(2) f64_add_one [of "f64_mul t (f64_round warmupx_E)"] f64_mul_nonneg [OF assms(3) warmupx_E_pos(1)] warmupx_E_pos(2)
    by (simp_all add: warmupx_math_ok_def)
  have step: "0 \<le> f64_Floor (f64_mul t (f64_of_int (wc_stepCount c)))" "0 \<le> f64_div ?d (f64_of_int (wc_stepCount c))"
    using f64_mul_nonneg [OF assms(3)] f64_of_int_nonneg [of "wc_stepCount c"] c(4) d by (simp_all add: f64_Floor_def f64_div_nonneg)
  have lin: "wc_minCap c \<le> warmupx_linear (wc_minCap c) ?d t"
    unfolding warmupx_linear_def using c(2) d assms(3) by (intro f64_add_lower f64_mul_nonneg)
  show ?thesis
    unfolding warmupx_curve_def Let_def
    using lin c(2) d exp log step warmupx_denom [OF assms(2) c(3)]
    by (auto intro!: f64_add_lower f64_mul_nonneg f64_div_nonneg)
qed

lemma warmupx_calculate_range:
  assumes "warmupx_cfg_ok c" and "warmupx_math_ok m"
  shows "wc_minCap c \<le> warmupx_calculate m c t" and "warmupx_calculate m c t \<le> wc_maxCap c"
  using warmupx_curve_lower [OF assms] assms(1) by (auto simp: warmupx_calculate_def Let_def warmupx_cfg_ok_def)

lemma f64_Floor_mono: "x \<le> y \<Longrightarrow> f64_Floor x \<le> f64_Floor y"
  by (simp add: f64_Floor_def floor_mono)

lemma warmupx_curve_mono:
  assumes "warmupx_cfg_ok c" and "warmupx_math_ok m" and "warmupx_math_mono m" and "0 \<le> t" and "t \<le> t'"
  shows "warmupx_curve m c t \<le> warmupx_curve m c t'"
proof -
  let ?d = "f64_sub (wc_maxCap c) (wc_minCap c)" and ?n = "f64_of_int (wc_stepCount c)" and ?l = "\<lambda>t. f64_add 1 (f64_mul t (f64_round warmupx_E))"
  have c: "wc_minCap c \<le> wc_maxCap c" "0 < wc_expFactor c" "0 < wc_stepCount c"
    using assms(1) by (simp_all add: warmupx_cfg_ok_def)
  have d: "0 \<le> ?d" using f64_sub_nonneg [OF c(1)] .
  have n: "0 \<le> ?n" using c(3) by (simp add: f64_of_int_nonneg)
  have mr: "f64_mul t x \<le> f64_mul t' x" if "0 \<le> x" for x
    using assms(5) that by (simp add: f64_mul_def f64.rnd_mono mult_right_mono)
  have lin: "warmupx_linear (wc_minCap c) ?d t \<le> warmupx_linear (wc_minCap c) ?d t'"
    unfolding warmupx_linear_def using d assms(5) by (intro f64_add_mono f64_mul_mono) simp_all
  have exp: "wm_Exp m (f64_mul (- wc_expFactor c) t') \<le> wm_Exp m (f64_mul (- wc_expFactor c) t)"
    using assms(3,5) c(2) by (simp add: warmupx_math_mono_def f64_mul_def f64.rnd_mono)
  have "1 \<le> ?l t" using f64_add_one [OF f64_mul_nonneg [OF assms(4) warmupx_E_pos(1)]] .
  moreover have "?l t \<le> ?l t'" using mr [OF warmupx_E_pos(1)] by (simp add: f64_add_mono)
  ultimately have log: "wm_Log m (?l t) \<le> wm_Log m (?l t')" using assms(3) by (simp add: warmupx_math_mono_def)
  have logd: "0 \<le> wm_Log m (f64_round (1 + warmupx_E))" using assms(2) warmupx_E_pos(2) by (simp add: warmupx_math_ok_def)
  have dm: "f64_div x q \<le> f64_div y q" if "0 \<le> q" "x \<le> y" for q x y
    using that by (simp add: f64_div_def f64.rnd_mono divide_right_mono)
  have step: "f64_Floor (f64_mul t ?n) \<le> f64_Floor (f64_mul t' ?n)" "0 \<le> f64_div ?d ?n"
    using mr [OF n] d n by (simp_all add: f64_Floor_mono f64_div_nonneg)
  show ?thesis
    unfolding warmupx_curve_def Let_def
    using lin d exp log logd step warmupx_denom [OF assms(2) c(2)]
    by (auto intro!: f64_add_mono dm f64_mul_mono f64_sub_mono)
qed

lemma warmupx_calculate_mono:
  assumes "warmupx_cfg_ok c" and "warmupx_math_ok m" and "warmupx_math_mono m" and "t \<le> t'"
  shows "warmupx_calculate m c t \<le> warmupx_calculate m c t'"
proof -
  let ?k = "\<lambda>t::rat. if t < 0 then 0 else if 1 < t then 1 else t"
  have "warmupx_curve m c (?k t) \<le> warmupx_curve m c (?k t')"
    by (rule warmupx_curve_mono [OF assms(1-3)]) (use assms(4) in auto)
  then show ?thesis by (auto simp: warmupx_calculate_def Let_def)
qed

subsection \<open>Ticks\<close>

lemma warmupx_invoke_frame [simp]:
  "ww_cfg (warmupx_invoke h w) = ww_cfg w" "ww_start (warmupx_invoke h w) = ww_start w"
  "ww_capacity (warmupx_invoke h w) = ww_capacity w" "ww_progress (warmupx_invoke h w) = ww_progress w"
  "ww_warming (warmupx_invoke h w) = ww_warming w" "ww_complete (warmupx_invoke h w) = ww_complete w"
  "ww_gen (warmupx_invoke h w) = ww_gen w" "ww_stopCh (warmupx_invoke h w) = ww_stopCh w"
  "ww_completeCh (warmupx_invoke h w) = ww_completeCh w" "ww_closed (warmupx_invoke h w) = ww_closed w"
  "ww_made (warmupx_invoke h w) = ww_made w" "ww_shut (warmupx_invoke h w) = ww_shut w"
  "ww_crashed (warmupx_invoke h w) = ww_crashed w" "ww_allowed (warmupx_invoke h w) = ww_allowed w"
  "ww_rejected (warmupx_invoke h w) = ww_rejected w"
  by (cases h; simp add: warmupx_invokeOnCapacityChange_def warmupx_invokeOnComplete_def)+

lemma warmupx_invokes_frame [simp]:
  "ww_cfg (fold warmupx_invoke hs w) = ww_cfg w" "ww_start (fold warmupx_invoke hs w) = ww_start w"
  "ww_capacity (fold warmupx_invoke hs w) = ww_capacity w" "ww_progress (fold warmupx_invoke hs w) = ww_progress w"
  "ww_warming (fold warmupx_invoke hs w) = ww_warming w" "ww_complete (fold warmupx_invoke hs w) = ww_complete w"
  "ww_gen (fold warmupx_invoke hs w) = ww_gen w"
  by (induction hs arbitrary: w) simp_all

lemma warmupx_close_ch_frame [simp]:
  "ww_cfg (warmupx_close_ch ch w) = ww_cfg w" "ww_start (warmupx_close_ch ch w) = ww_start w"
  "ww_capacity (warmupx_close_ch ch w) = ww_capacity w" "ww_progress (warmupx_close_ch ch w) = ww_progress w"
  "ww_warming (warmupx_close_ch ch w) = ww_warming w" "ww_complete (warmupx_close_ch ch w) = ww_complete w"
  "ww_gen (warmupx_close_ch ch w) = ww_gen w" "ww_stopCh (warmupx_close_ch ch w) = ww_stopCh w"
  "ww_completeCh (warmupx_close_ch ch w) = ww_completeCh w" "ww_closed (warmupx_close_ch ch w) = ww_closed w"
  "ww_made (warmupx_close_ch ch w) = ww_made w" "ww_hooks (warmupx_close_ch ch w) = ww_hooks w"
  by (simp_all add: warmupx_close_ch_def split: option.splits)

text \<open>What a tick of the active run does, by the clock.\<close>

lemma warmupx_tick_split:
  assumes "warmupx_tick m now gen w = (w', ends)"
  obtains w0 hs where "warmupx_tick_locked m now gen w = (w0, hs, ends)" and "w' = fold warmupx_invoke hs w0"
  using assms by (cases "warmupx_tick_locked m now gen w") (auto simp: warmupx_tick_def)

lemma warmupx_tick_active:
  assumes "ww_gen w = gen" and "ww_warming w" and "\<not> ww_complete w" and "ww_start w = Some s" and "s \<le> now"
    and "warmupx_tick m now gen w = (w', ends)"
  shows "ww_cfg w' = ww_cfg w \<and> ww_start w' = Some s \<and> ww_gen w' = gen \<and> ends = ww_complete w' \<and> ww_warming w' = (\<not> ww_complete w')
    \<and> ww_complete w' = (s + wc_duration (ww_cfg w) \<le> now)
    \<and> ww_capacity w' = (if s + wc_duration (ww_cfg w) \<le> now then wc_maxCap (ww_cfg w)
        else warmupx_calculate m (ww_cfg w) (f64_div (f64_of_int (now - s)) (f64_of_int (wc_duration (ww_cfg w)))))"
proof -
  obtain w0 hs where t: "warmupx_tick_locked m now gen w = (w0, hs, ends)" and w': "w' = fold warmupx_invoke hs w0"
    by (rule warmupx_tick_split [OF assms(6)])
  from t assms(1-5) show ?thesis unfolding w' warmupx_invokes_frame
    by (auto simp: warmupx_tick_locked_def warmupx_sinceStartLocked_def Let_def split: if_splits)
qed

section \<open>Properties\<close>

text \<open>
  A ramp never falls and ends at its maximum. For every strategy, two ticks of the active run with the clock not going back leave
  the capacity between the configured bounds and not lower after the second; the run is complete, with exactly the maximum, as soon as
  a tick finds the duration elapsed, and not before; a tick of another generation changes nothing and ends its loop.
\<close>

theorem warmupx_ramp_rises:
  assumes "warmupx_cfg_ok (ww_cfg w)" and "warmupx_math_ok m" and "warmupx_math_mono m"
    and "ww_warming w" and "\<not> ww_complete w" and "ww_start w = Some s" and "s \<le> now1" and "now1 \<le> now2"
    and "warmupx_tick m now1 (ww_gen w) w = (w1, end1)" and "warmupx_tick m now2 (ww_gen w) w1 = (w2, end2)"
  shows "wc_minCap (ww_cfg w) \<le> ww_capacity w1 \<and> ww_capacity w1 \<le> ww_capacity w2 \<and> ww_capacity w2 \<le> wc_maxCap (ww_cfg w)
    \<and> (ww_complete w2 \<longleftrightarrow> s + wc_duration (ww_cfg w) \<le> now2) \<and> (ww_complete w2 \<longrightarrow> ww_capacity w2 = wc_maxCap (ww_cfg w))
    \<and> end2 = ww_complete w2 \<and> ww_warming w2 = (\<not> ww_complete w2)
    \<and> (\<forall>gen. gen \<noteq> ww_gen w \<longrightarrow> warmupx_tick m now1 gen w = (w, True))"
proof -
  let ?c = "ww_cfg w" and ?t = "\<lambda>now. f64_div (f64_of_int (now - s)) (f64_of_int (wc_duration (ww_cfg w)))"
  note range = warmupx_calculate_range [OF assms(1,2)]
  have c: "wc_minCap ?c \<le> wc_maxCap ?c" "0 < wc_duration ?c" using assms(1) by (simp_all add: warmupx_cfg_ok_def)
  note one = warmupx_tick_active [OF HOL.refl assms(4-7,9)]
  have stale: "\<forall>gen. gen \<noteq> ww_gen w \<longrightarrow> warmupx_tick m now1 gen w = (w, True)"
    by (simp add: warmupx_tick_def warmupx_tick_locked_def)
  show ?thesis
  proof (cases "ww_complete w1")
    case True
    then have "w2 = w1 \<and> end2" using assms(10) by (auto simp: warmupx_tick_def warmupx_tick_locked_def)
    with True one c assms(8) stale show ?thesis by auto
  next
    case False
    with one have "ww_gen w1 = ww_gen w" "ww_warming w1" "ww_start w1 = Some s" "ww_cfg w1 = ?c" by simp_all
    note two = warmupx_tick_active [OF this(1,2) False this(3) order_trans [OF assms(7,8)] assms(10), unfolded this(4)]
    have "?t now1 \<le> ?t now2"
      unfolding f64_div_def using assms(8) c(2)
      by (intro f64.rnd_mono divide_right_mono f64_of_int_mono f64_of_int_nonneg) simp_all
    from warmupx_calculate_mono [OF assms(1-3) this] range one two False stale c show ?thesis by auto
  qed
qed

text \<open>Executable stand-ins for \<open>math.Exp\<close> and \<open>math.Log\<close> with the right signs.\<close>

definition warmupx_demo_math :: warmupx_math where
  "warmupx_demo_math = \<lparr>wm_Exp = (\<lambda>x. if x \<le> 0 then 1 / (1 - x) else 1 + x), wm_Log = (\<lambda>x. x - 1), wm_oob = (\<lambda>_. 0)\<rparr>"

lemma warmupx_demo_math_ok: "warmupx_math_ok warmupx_demo_math"
  by (simp add: warmupx_math_ok_def warmupx_demo_math_def divide_le_eq)

lemma warmupx_demo_math_mono: "warmupx_math_mono warmupx_demo_math"
proof -
  have "wm_Exp warmupx_demo_math x \<le> wm_Exp warmupx_demo_math y" if xy: "x \<le> y" for x y
  proof -
    have "1 / (1 - x) \<le> 1 / (1 - y)" if "y \<le> 0" using xy that by (intro divide_left_mono) auto
    moreover have "1 / (1 - x) \<le> 1 + y" if x: "x \<le> 0" "0 < y"
    proof -
      have "1 / (1 - x) \<le> 1" using x by (simp add: divide_le_eq)
      with x show ?thesis by linarith
    qed
    ultimately show ?thesis using xy by (auto simp: warmupx_demo_math_def)
  qed
  then show ?thesis by (simp add: warmupx_math_mono_def) (simp add: warmupx_demo_math_def)
qed

text \<open>A linear ramp from 0 to 1 in eight nanoseconds.\<close>

definition warmupx_demo_opts :: "(warmupx_config \<Rightarrow> warmupx_config) option list" where
  "warmupx_demo_opts = [Some (warmupx_WithMinCapacity 0), Some (warmupx_WithDuration 8), Some (warmupx_WithOnComplete (Some (Returns () None)))]"

lemma warmupx_demo_cfg:
  "warmupx_newConfig warmupx_demo_opts = \<lparr>wc_strategy = 0, wc_minCap = 0, wc_maxCap = 1, wc_duration = 8, wc_interval = 10 ^ 7,
     wc_stepCount = 10, wc_expFactor = 3, wc_onCapChange = None, wc_onComplete = Some (Returns () None), wc_op = []\<rparr>"
  by (simp add: warmupx_newConfig_def warmupx_demo_opts_def warmupx_options warmupx_defaults Let_def warmupx_strategies)

lemma warmupx_demo_start:
  "fst (warmupx_Start warmupx_demo_math 100 (warmupx_New warmupx_demo_opts)) =
     (warmupx_New warmupx_demo_opts)\<lparr>ww_start := Some 100, ww_warming := True, ww_gen := 1, ww_stopCh := Some 2,
        ww_completeCh := Some 1, ww_made := 3, ww_shut := {0}\<rparr>"
  by (simp add: warmupx_Start_def warmupx_StartAt_def warmupx_StartAt_locked_def warmupx_New_def warmupx_demo_cfg Let_def
      warmupx_clamp_def warmupx_rearm_def warmupx_stopLocked_def warmupx_close_ch_def warmupx_make_completeCh_def
      warmupx_make_stopCh_def warmupx_invert_def f64_sub_def f64_div_def f64_mul_def f64_to_i64_def f64_trunc_def)

lemma warmupx_demo_tick:
  assumes "ww_gen w = 1" and "ww_warming w" and "\<not> ww_complete w" and "ww_start w = Some 100"
    and "ww_cfg w = warmupx_newConfig warmupx_demo_opts" and "100 \<le> now"
  shows "ww_capacity (fst (warmupx_tick warmupx_demo_math now 1 w)) = (if 108 \<le> now then 1
    else warmupx_calculate warmupx_demo_math (warmupx_newConfig warmupx_demo_opts) (f64_div (f64_of_int (now - 100)) 8))"
  using warmupx_tick_active [OF assms(1-4,6) prod.collapse [symmetric]] assms(5) by (simp add: warmupx_demo_cfg f64_of_int_exact)

lemma warmupx_ramp_rises_witness:
  "let m = warmupx_demo_math; w = fst (warmupx_Start m 100 (warmupx_New warmupx_demo_opts));
       w1 = fst (warmupx_tick m 104 1 w); w2 = fst (warmupx_tick m 109 1 w1)
   in ww_capacity w = 0 \<and> ww_capacity w1 = 1 / 2 \<and> ww_capacity w1 \<le> ww_capacity w2 \<and> ww_complete w2 \<and> ww_capacity w2 = 1"
proof -
  let ?m = warmupx_demo_math
  define w where "w = fst (warmupx_Start ?m 100 (warmupx_New warmupx_demo_opts))"
  define w1 where "w1 = fst (warmupx_tick ?m 104 1 w)"
  define w2 where "w2 = fst (warmupx_tick ?m 109 1 w1)"
  have w: "ww_gen w = 1" "ww_warming w" "\<not> ww_complete w" "ww_start w = Some 100" "ww_cfg w = warmupx_newConfig warmupx_demo_opts"
    "ww_capacity w = 0"
    unfolding w_def warmupx_demo_start by (simp_all add: warmupx_New_def warmupx_demo_cfg)
  have h: "f64_round (1 / 2) = 1 / 2" using f64_round_dyadic [of 1 1] by simp
  have w1: "ww_capacity w1 = 1 / 2"
    unfolding w1_def warmupx_demo_tick [OF w(1-5), of 104, simplified]
    by (simp add: f64_of_int_exact warmupx_calculate_def warmupx_curve_def warmupx_demo_cfg Let_def warmupx_strategies warmupx_linear_def
        f64_div_def f64_mul_def f64_add_def f64_sub_def h)
  have ok: "warmupx_cfg_ok (ww_cfg w)" unfolding w(5)
    by (rule warmupx_newConfig_ok) (auto simp: warmupx_demo_opts_def warmupx_opt_ok_def intro: f64.rnd_0)
  have t1: "warmupx_tick ?m 104 (ww_gen w) w = (w1, snd (warmupx_tick ?m 104 1 w))"
    and t2: "warmupx_tick ?m 109 (ww_gen w) w1 = (w2, snd (warmupx_tick ?m 109 1 w1))"
    by (simp_all add: w1_def w2_def w(1))
  from warmupx_ramp_rises [OF ok warmupx_demo_math_ok warmupx_demo_math_mono w(2-4) _ _ t1 t2] w w1
  have "ww_capacity w1 \<le> ww_capacity w2 \<and> ww_complete w2 \<and> ww_capacity w2 = 1" by (simp add: warmupx_demo_cfg)
  with w w1 show ?thesis unfolding Let_def w_def [symmetric] w1_def [symmetric] w2_def [symmetric] by simp
qed

end
