(* ===== verification/Warmupx_Resume.thy ===== *)
theory Warmupx_Resume
  imports Warmupx_Ramp
begin

text \<open>
  Package \<open>warmupx\<close>, part three: where \<open>StartAt\<close> puts a ramp on its curve, and which changes of the capacity its hook sees, with the
  rounding of every operation counted (\<open>f64_u\<close> is half a unit in the last place at 1).
\<close>

subsection \<open>One rounding\<close>

lemma f64_err: "\<bar>q\<bar> \<le> b \<Longrightarrow> \<bar>f64_round q - q\<bar> \<le> b * f64_u"
  using f64_round_error [of q] mult_right_mono [of "\<bar>q\<bar>" b f64_u] f64_u_pos by linarith

lemma f64_err1: "0 \<le> q \<Longrightarrow> q \<le> 1 \<Longrightarrow> \<bar>f64_round q - q\<bar> \<le> f64_u"
  using f64_err [of q 1] by simp

lemma f64_unit: "0 \<le> q \<Longrightarrow> q \<le> 1 \<Longrightarrow> 0 \<le> f64_round q \<and> f64_round q \<le> 1"
  using f64.rnd_nonneg [of q] f64.rnd_upper [of q 1] by simp

text \<open>The linear curve, rounded, against the exact line.\<close>

lemma warmupx_linear_err:
  assumes "0 \<le> b" and "b \<le> 1" and "0 \<le> d" and "d \<le> 1" and "0 \<le> t" and "t \<le> 1"
  shows "\<bar>warmupx_linear b d t - (b + d * t)\<bar> \<le> 4 * f64_u"
proof -
  have dt: "0 \<le> d * t" "d * t \<le> 1" using assms(3-6) by (simp_all add: mult_le_one)
  define p where "p = f64_round (d * t)"
  have p: "\<bar>p - d * t\<bar> \<le> f64_u" "0 \<le> p" "p \<le> 1" unfolding p_def using f64_err1 [OF dt] f64_unit [OF dt] by simp_all
  have "\<bar>f64_round (b + p) - (b + p)\<bar> \<le> 2 * f64_u" using p assms(1,2) by (intro f64_err) simp
  with p show ?thesis by (simp add: warmupx_linear_def f64_add_def f64_mul_def p_def [symmetric])
qed

subsection \<open>Resuming\<close>

lemma warmupx_invert_linear:
  assumes "warmupx_cfg_ok c" and "wc_strategy c = warmupx_Linear" and "wc_minCap c \<le> x" and "x < wc_maxCap c"
    and "d = f64_sub (wc_maxCap c) (wc_minCap c)" and "t = warmupx_invert m c x"
  shows "0 \<le> t \<and> t \<le> 1 \<and> 0 < d \<and> d \<le> 1 \<and> \<bar>d - (wc_maxCap c - wc_minCap c)\<bar> \<le> f64_u \<and> \<bar>d * t - (x - wc_minCap c)\<bar> \<le> 2 * f64_u"
proof -
  have c: "0 \<le> wc_minCap c" "wc_maxCap c \<le> 1" using assms(1) by (simp_all add: warmupx_cfg_ok_def)
  have m: "0 \<le> wc_maxCap c - wc_minCap c" "wc_maxCap c - wc_minCap c \<le> 1" using c assms(3,4) by linarith+
  have d: "0 < d" "d \<le> 1" "\<bar>d - (wc_maxCap c - wc_minCap c)\<bar> \<le> f64_u"
    unfolding assms(5) f64_sub_def using f64_round_pos [of "wc_maxCap c - wc_minCap c"] f64_unit [OF m] f64_err1 [OF m] assms(3,4) by simp_all
  define r where "r = f64_round (x - wc_minCap c)"
  have x: "0 \<le> x - wc_minCap c" "x - wc_minCap c \<le> 1" using c assms(3,4) by linarith+
  have r: "0 \<le> r" "r \<le> d" "\<bar>r - (x - wc_minCap c)\<bar> \<le> f64_u"
    unfolding r_def assms(5) f64_sub_def using f64_unit [OF x] f64_err1 [OF x] f64.rnd_mono [of "x - wc_minCap c" "wc_maxCap c - wc_minCap c"] assms(4)
    by simp_all
  have q: "0 \<le> r / d" "r / d \<le> 1" using r d by simp_all
  have t: "t = f64_round (r / d)"
    unfolding assms(6) warmupx_invert_def Let_def assms(2) assms(5) [symmetric] using d(1) f64_unit [OF q]
    by (auto simp: f64_div_def f64_sub_def r_def)
  have "d * t - r = d * (t - r / d)" using d(1) by (simp add: right_diff_distrib)
  then have "\<bar>d * t - r\<bar> = d * \<bar>t - r / d\<bar>" using d(1) by (simp add: abs_mult)
  also have "\<dots> \<le> 1 * f64_u" unfolding t using f64_err1 [OF q] d f64_u_pos by (intro mult_mono) simp_all
  finally have "\<bar>d * t - r\<bar> \<le> f64_u" by simp
  then have "\<bar>d * t - (x - wc_minCap c)\<bar> \<le> 2 * f64_u" using r(3) by linarith
  with d f64_unit [OF q] show ?thesis by (simp add: t)
qed

text \<open>The start time is moved back by the fraction of the duration, to a nanosecond.\<close>

lemma warmupx_back:
  assumes "0 \<le> t" and "t \<le> 1" and "0 < D" and "D < 2 ^ 53" and "k = f64_to_i64 oob (f64_mul t (f64_of_int D))"
  shows "0 \<le> k \<and> k \<le> D \<and> \<bar>of_int k / of_int D - t\<bar> \<le> 1 / of_int D + f64_u"
proof -
  have D: "f64_of_int D = of_int D" using assms(3,4) by (simp add: f64_of_int_exact)
  define y where "y = f64_round (t * of_int D)"
  have tD: "0 \<le> t * of_int D" "t * of_int D \<le> of_int D"
    using assms(1-3) mult_right_mono [OF assms(2), of "of_int D"] by simp_all
  have y: "0 \<le> y" "y \<le> of_int D" "\<bar>y - t * of_int D\<bar> \<le> of_int D * f64_u"
    unfolding y_def
    using f64.rnd_nonneg [OF tD(1)] f64.rnd_upper [OF tD(2)] f64_err [of "t * of_int D" "of_int D"] tD f64.rnd_int [of D] assms(3,4)
    by simp_all
  obtain z where z: "z = \<lfloor>y\<rfloor>" by blast
  have zb: "of_int z \<le> y" "y < of_int z + 1" unfolding z by linarith+
  have z0: "0 \<le> z" "z \<le> D" using y(1) floor_mono [OF y(2)] z by simp_all
  have k: "k = z"
    unfolding assms(5) f64_mul_def D y_def [symmetric] using z0 assms(4) y(1) by (simp add: f64_to_i64_def f64_trunc_def z [symmetric])
  have Dr: "0 < (of_int D :: rat)" using assms(3) by simp
  have "\<bar>of_int z - t * of_int D\<bar> \<le> 1 + of_int D * f64_u" using zb y(3) by linarith
  then have "\<bar>of_int z - t * of_int D\<bar> / of_int D \<le> (1 + of_int D * f64_u) / of_int D" using Dr by (intro divide_right_mono) simp_all
  moreover have "of_int z / of_int D - t = (of_int z - t * of_int D) / of_int D" using Dr by (simp add: diff_divide_distrib)
  then have "\<bar>of_int z / of_int D - t\<bar> = \<bar>of_int z - t * of_int D\<bar> / of_int D" using Dr by (simp add: abs_divide)
  moreover have "(1 + of_int D * f64_u) / of_int D = 1 / of_int D + f64_u" using Dr by (simp add: add_divide_distrib)
  ultimately show ?thesis using z0 k by simp
qed

text \<open>The capacity the first tick finds on the curve.\<close>

lemma warmupx_resume_value:
  assumes "warmupx_cfg_ok c" and "wc_strategy c = warmupx_Linear" and "wc_minCap c \<le> x" and "x < wc_maxCap c"
    and "wc_duration c < 2 ^ 53"
    and "k = f64_to_i64 oob (f64_mul (warmupx_invert m c x) (f64_of_int (wc_duration c)))"
    and "v = (if wc_duration c \<le> k then wc_maxCap c else warmupx_calculate m c (f64_div (f64_of_int k) (f64_of_int (wc_duration c))))"
  shows "\<bar>v - x\<bar> \<le> 1 / of_int (wc_duration c) + 8 * f64_u"
proof -
  define t where "t = warmupx_invert m c x"
  define d where "d = f64_sub (wc_maxCap c) (wc_minCap c)"
  define D where "D = wc_duration c"
  have D: "0 < D" "D < 2 ^ 53" using assms(1,5) by (simp_all add: warmupx_cfg_ok_def D_def)
  have Dr: "0 < (of_int D :: rat)" using D by simp
  have c: "0 \<le> wc_minCap c" "wc_maxCap c \<le> 1" "wc_minCap c \<le> 1" using assms(1,3,4) by (simp_all add: warmupx_cfg_ok_def)
  have i: "0 \<le> t" "t \<le> 1" "0 < d" "d \<le> 1" "\<bar>d - (wc_maxCap c - wc_minCap c)\<bar> \<le> f64_u" "\<bar>d * t - (x - wc_minCap c)\<bar> \<le> 2 * f64_u"
    using warmupx_invert_linear [OF assms(1-4) d_def t_def] by simp_all
  have k: "0 \<le> k" "k \<le> D" "\<bar>of_int k / of_int D - t\<bar> \<le> 1 / of_int D + f64_u"
    using warmupx_back [OF i(1,2) D] assms(6) by (simp_all add: t_def D_def)
  have scale: "\<bar>d * s - d * t\<bar> \<le> e" if "\<bar>s - t\<bar> \<le> e" for s e
  proof -
    have "\<bar>d * s - d * t\<bar> = d * \<bar>s - t\<bar>" using i(3) by (simp add: abs_mult right_diff_distrib [symmetric])
    also have "\<dots> \<le> 1 * e" using that i(3,4) by (intro mult_mono) simp_all
    finally show ?thesis by simp
  qed
  show ?thesis
  proof (cases "D \<le> k")
    case True
    then have "k = D" using k(2) by simp
    then have "\<bar>1 - t\<bar> \<le> 1 / of_int D + f64_u" using k(3) Dr by simp
    from scale [OF this] i(5,6) have "\<bar>wc_maxCap c - x\<bar> \<le> 1 / of_int D + 4 * f64_u" by linarith
    with True assms(7) f64_u_pos show ?thesis by (simp add: D_def)
  next
    case False
    define q where "q = (of_int k / of_int D :: rat)"
    have q: "0 \<le> q" "q \<le> 1" unfolding q_def using k D by simp_all
    define s where "s = f64_round q"
    have kd: "f64_of_int k = of_int k" "f64_of_int D = of_int D" using k(1,2) D by (simp_all add: f64_of_int_exact)
    have s: "0 \<le> s" "s \<le> 1" "\<bar>s - q\<bar> \<le> f64_u" unfolding s_def using f64_unit [OF q] f64_err1 [OF q] by simp_all
    have "\<bar>s - t\<bar> \<le> 1 / of_int D + 2 * f64_u" using s(3) k(3) unfolding q_def by linarith
    note st = scale [OF this]
    have v: "v = min (wc_maxCap c) (warmupx_linear (wc_minCap c) d s)"
      using False assms(7) s(1,2)
      by (simp add: D_def [symmetric] kd f64_div_def q_def [symmetric] s_def [symmetric] warmupx_calculate_def warmupx_curve_def Let_def
          assms(2) d_def [symmetric] min_def)
    have "\<bar>warmupx_linear (wc_minCap c) d s - (wc_minCap c + d * s)\<bar> \<le> 4 * f64_u"
      using warmupx_linear_err c i(3,4) s by simp
    with st i(6) have "\<bar>warmupx_linear (wc_minCap c) d s - x\<bar> \<le> 1 / of_int D + 8 * f64_u" by linarith
    then show ?thesis unfolding v D_def [symmetric] using assms(4) by (simp add: min_def split: if_splits) linarith
  qed
qed

lemma warmupx_StartAt_ramp:
  assumes "\<not> ww_closed w" and "warmupx_clamp (ww_cfg w) x < wc_maxCap (ww_cfg w)" and "warmupx_StartAt m now x w = (w1, loop)"
  shows "ww_cfg w1 = ww_cfg w \<and> ww_hooks w1 = ww_hooks w \<and> ww_capacity w1 = warmupx_clamp (ww_cfg w) x \<and> ww_warming w1 \<and> \<not> ww_complete w1
    \<and> ww_gen w1 = ww_gen w + 1 \<and> (\<exists>ch. loop = Some (ww_gen w1, ch))
    \<and> ww_start w1 = Some (now - f64_to_i64 (wm_oob m)
         (f64_mul (warmupx_invert m (ww_cfg w) (warmupx_clamp (ww_cfg w) x)) (f64_of_int (wc_duration (ww_cfg w)))))"
proof -
  have r: "ww_cfg (warmupx_rearm w) = ww_cfg w" "ww_hooks (warmupx_rearm w) = ww_hooks w" "ww_gen (warmupx_rearm w) = ww_gen w + 1"
    by (simp_all add: warmupx_rearm_def Let_def warmupx_stopLocked_def warmupx_make_completeCh_def split: option.splits)
  show ?thesis
    using assms by (auto simp: warmupx_StartAt_def warmupx_StartAt_locked_def Let_def r warmupx_make_stopCh_def)
qed

lemma warmupx_clamp_lower: "warmupx_cfg_ok c \<Longrightarrow> wc_minCap c \<le> warmupx_clamp c x"
  by (auto simp: warmupx_clamp_def Let_def warmupx_cfg_ok_def)

section \<open>Properties\<close>

text \<open>
  C21: \<open>StartAt(x)\<close> continues the linear curve from \<open>x\<close>. It sets the capacity to \<open>x\<close> within the bounds and starts a new run, and a tick
  at that very moment, which recomputes the capacity from the backdated start, agrees with \<open>x\<close> up to one nanosecond of the ramp and
  \<open>2 ^ -50\<close>; a later tick is at most that much below.
\<close>

theorem warmupx_StartAt_resumes:
  assumes "warmupx_cfg_ok (ww_cfg w)" and "warmupx_math_ok m" and "warmupx_math_mono m" and "wc_strategy (ww_cfg w) = warmupx_Linear"
    and "wc_duration (ww_cfg w) < 2 ^ 53" and "\<not> ww_closed w" and "warmupx_clamp (ww_cfg w) x < wc_maxCap (ww_cfg w)" and "now \<le> later"
    and "warmupx_StartAt m now x w = (w1, Some (gen, ch))"
    and "err = 1 / of_int (wc_duration (ww_cfg w)) + 1 / 2 ^ 50"
  shows "ww_capacity w1 = warmupx_clamp (ww_cfg w) x \<and> gen = ww_gen w + 1
    \<and> \<bar>ww_capacity (fst (warmupx_tick m now gen w1)) - warmupx_clamp (ww_cfg w) x\<bar> \<le> err
    \<and> warmupx_clamp (ww_cfg w) x - err \<le> ww_capacity (fst (warmupx_tick m later gen w1))"
proof -
  let ?c = "ww_cfg w" and ?x = "warmupx_clamp (ww_cfg w) x"
  define k where "k = f64_to_i64 (wm_oob m) (f64_mul (warmupx_invert m ?c ?x) (f64_of_int (wc_duration ?c)))"
  note s = warmupx_StartAt_ramp [OF assms(6,7,9), folded k_def]
  from s have s1: "ww_gen w1 = gen" "ww_warming w1" "\<not> ww_complete w1" "ww_start w1 = Some (now - k)" "ww_cfg w1 = ?c" by auto
  have err: "err = 1 / of_int (wc_duration ?c) + 8 * f64_u" by (simp add: assms(10) f64_u_def)
  let ?v = "\<lambda>t. if now - k + wc_duration ?c \<le> t then wc_maxCap ?c
    else warmupx_calculate m ?c (f64_div (f64_of_int (t - (now - k))) (f64_of_int (wc_duration ?c)))"
  have D: "0 < wc_duration ?c" using assms(1) by (simp add: warmupx_cfg_ok_def)
  have i: "0 \<le> warmupx_invert m ?c ?x" "warmupx_invert m ?c ?x \<le> 1"
    using warmupx_invert_linear [OF assms(1,4) warmupx_clamp_lower [OF assms(1)] assms(7) HOL.refl HOL.refl] by auto
  have k: "0 \<le> k" using warmupx_back [OF i D assms(5)] by (simp add: k_def)
  have v: "ww_capacity (fst (warmupx_tick m t gen w1)) = ?v t" if "now \<le> t" for t
    using warmupx_tick_active [OF s1(1-4) _ prod.collapse [symmetric], of t m] that k by (simp add: s1(5))
  have a: "\<bar>?v now - ?x\<bar> \<le> err"
    using warmupx_resume_value [OF assms(1,4) warmupx_clamp_lower [OF assms(1)] assms(7,5) k_def HOL.refl] by (auto simp: err split: if_splits)
  have "f64_div (f64_of_int (now - (now - k))) (f64_of_int (wc_duration ?c)) \<le> f64_div (f64_of_int (later - (now - k))) (f64_of_int (wc_duration ?c))"
    unfolding f64_div_def using assms(8) D by (intro f64.rnd_mono divide_right_mono f64_of_int_mono f64_of_int_nonneg) simp_all
  then have "?v now \<le> ?v later"
    using warmupx_calculate_mono [OF assms(1-3)] warmupx_calculate_range [OF assms(1,2)] assms(8) by auto
  with a v assms(8) s show ?thesis by auto
qed

lemma warmupx_StartAt_resumes_witness:
  "let m = warmupx_demo_math; r = warmupx_StartAt m 100 (1 / 2) (warmupx_New warmupx_demo_opts)
   in ww_capacity (fst r) = 1 / 2 \<and> snd r = Some (1, 2) \<and> \<bar>ww_capacity (fst (warmupx_tick m 100 1 (fst r))) - 1 / 2\<bar> \<le> 1 / 8 + 1 / 2 ^ 50"
proof -
  let ?w = "warmupx_New warmupx_demo_opts" and ?m = warmupx_demo_math
  have c: "ww_cfg ?w = warmupx_newConfig warmupx_demo_opts" by (simp add: warmupx_New_def Let_def)
  have ok: "warmupx_cfg_ok (ww_cfg ?w)" unfolding c
    by (rule warmupx_newConfig_ok) (auto simp: warmupx_demo_opts_def warmupx_opt_ok_def intro: f64.rnd_0)
  have cl: "warmupx_clamp (ww_cfg ?w) (1 / 2) = 1 / 2" by (simp add: c warmupx_demo_cfg warmupx_clamp_def)
  obtain w1 where r: "warmupx_StartAt ?m 100 (1 / 2) ?w = (w1, Some (1, 2))"
    by (simp add: warmupx_StartAt_def warmupx_StartAt_locked_def warmupx_New_def warmupx_demo_cfg Let_def warmupx_clamp_def
        warmupx_rearm_def warmupx_stopLocked_def warmupx_close_ch_def warmupx_make_completeCh_def warmupx_make_stopCh_def)
  have "wc_strategy (ww_cfg ?w) = warmupx_Linear" "\<not> ww_closed ?w" "wc_duration (ww_cfg ?w) = 8" "wc_maxCap (ww_cfg ?w) = 1"
    by (simp_all add: warmupx_New_def warmupx_demo_cfg warmupx_Linear_def)
  with warmupx_StartAt_resumes [OF ok warmupx_demo_math_ok warmupx_demo_math_mono _ _ _ _ order_refl r HOL.refl] cl r
  show ?thesis by (simp add: Let_def)
qed

text \<open>
  \<open>StartAt\<close> does not continue every exponential curve. \<open>calculate\<close> falls back to a line when \<open>1 - Exp(-k)\<close> rounds to 0, \<open>invert\<close> has
  no such case: with \<open>WithExpFactor\<close> at \<open>2 ^ -60\<close> a ramp started at one half is not backdated at all, and its first tick, after one
  hundredth of the duration, drops the capacity to one hundredth.
\<close>

theorem warmupx_StartAt_slams:
  assumes "wm_Exp m (- (1 / 2 ^ 60)) = 1" and "wm_Log m 1 = 0"
    and "w = warmupx_New [Some (warmupx_WithStrategy warmupx_Exponential), Some (warmupx_WithMinCapacity 0), Some (warmupx_WithExpFactor (1 / 2 ^ 60))]"
    and "warmupx_StartAt m now (1 / 2) w = (w1, loop)"
  shows "ww_capacity w1 = 1 / 2 \<and> ww_capacity (fst (warmupx_tick m (now + 600 * 10 ^ 6) 1 w1)) = f64_round (1 / 100)"
proof -
  have w: "ww_cfg w = \<lparr>wc_strategy = 1, wc_minCap = 0, wc_maxCap = 1, wc_duration = 60 * 10 ^ 9, wc_interval = 600 * 10 ^ 6,
     wc_stepCount = 10, wc_expFactor = 1 / 2 ^ 60, wc_onCapChange = None, wc_onComplete = None, wc_op = []\<rparr>" "\<not> ww_closed w" "ww_gen w = 0"
    unfolding assms(3) warmupx_New_def by (simp_all add: warmupx_newConfig_def warmupx_options warmupx_defaults Let_def warmupx_strategies)
  have h: "f64_round (1 / 2) = 1 / 2" using f64_round_dyadic [of 1 1] by simp
  have i: "warmupx_invert m (ww_cfg w) (1 / 2) = 0"
    using assms(1,2) by (simp add: w warmupx_invert_def Let_def warmupx_strategies f64_sub_def f64_div_def f64_mul_def h)
  have c: "warmupx_clamp (ww_cfg w) (1 / 2) = 1 / 2" by (simp add: warmupx_clamp_def w)
  note s = warmupx_StartAt_ramp [OF w(2) _ assms(4), unfolded c i]
  have s1: "ww_capacity w1 = 1 / 2" "ww_gen w1 = 1" "ww_warming w1" "\<not> ww_complete w1" "ww_start w1 = Some now" "ww_cfg w1 = ww_cfg w"
    using s by (simp_all add: w f64_mul_def f64_to_i64_def f64_trunc_def Let_def)
  have q: "0 \<le> f64_round (1 / 100)" "f64_round (1 / 100) \<le> 1" using f64_unit [of "1 / 100"] by simp_all
  have "ww_capacity (fst (warmupx_tick m (now + 600 * 10 ^ 6) 1 w1)) = f64_round (1 / 100)"
    using warmupx_tick_active [OF s1(2-5) _ prod.collapse [symmetric], of "now + 600 * 10 ^ 6" m] assms(1) q
    by (simp add: s1(6) w f64_of_int_exact warmupx_calculate_def warmupx_curve_def Let_def warmupx_strategies warmupx_linear_def f64_div_def
        f64_sub_def f64_add_def f64_mul_def f64.rnd_idem)
  with s1(1) show ?thesis by simp
qed

text \<open>An exponential that is flat near 0, as rounding makes it.\<close>

definition warmupx_flat_math :: warmupx_math where
  "warmupx_flat_math = \<lparr>wm_Exp = (\<lambda>x. if \<bar>x\<bar> < 1 / 2 ^ 54 then 1 else if x \<le> 0 then 1 / (1 - x) else 1 + x), wm_Log = (\<lambda>x. x - 1), wm_oob = (\<lambda>_. 0)\<rparr>"

lemma warmupx_StartAt_slams_witness:
  "let w = warmupx_New [Some (warmupx_WithStrategy warmupx_Exponential), Some (warmupx_WithMinCapacity 0), Some (warmupx_WithExpFactor (1 / 2 ^ 60))];
       w1 = fst (warmupx_StartAt warmupx_flat_math 7 (1 / 2) w)
   in ww_capacity w1 = 1 / 2 \<and> ww_capacity (fst (warmupx_tick warmupx_flat_math (7 + 600 * 10 ^ 6) 1 w1)) = f64_round (1 / 100)"
  unfolding Let_def
  by (rule warmupx_StartAt_slams [OF _ _ HOL.refl prod.collapse [symmetric]]) (simp_all add: warmupx_flat_math_def)

subsection \<open>The hook of a capacity change\<close>

fun warmupx_paced :: "int \<Rightarrow> int \<Rightarrow> int list \<Rightarrow> bool" where
  "warmupx_paced gap t [] = True"
| "warmupx_paced gap t (x # xs) = (t \<le> x \<and> x \<le> t + gap \<and> warmupx_paced gap x xs)"

definition warmupx_hook_opts :: "(f64 \<Rightarrow> f64 \<Rightarrow> unit outcome) \<Rightarrow> (warmupx_config \<Rightarrow> warmupx_config) option list" where
  "warmupx_hook_opts h = [Some (warmupx_WithOnCapacityChange (Some h))]"

lemma warmupx_hook_cfg:
  "warmupx_newConfig (warmupx_hook_opts h) = \<lparr>wc_strategy = 0, wc_minCap = f64_round (1 / 10), wc_maxCap = 1, wc_duration = 60 * 10 ^ 9,
     wc_interval = 600 * 10 ^ 6, wc_stepCount = 10, wc_expFactor = 3, wc_onCapChange = Some h, wc_onComplete = None, wc_op = []\<rparr>"
proof -
  have "\<not> 1 < f64_round (1 / 10)" using f64_tenth by simp
  then show ?thesis
    by (simp add: warmupx_newConfig_def warmupx_hook_opts_def warmupx_options warmupx_defaults Let_def warmupx_strategies)
qed

text \<open>The default ramp at \<open>e\<close> nanoseconds, exactly.\<close>

definition warmupx_line :: "int \<Rightarrow> rat" where
  "warmupx_line e = 1 / 10 + 9 / 10 * (of_int e / (60 * 10 ^ 9))"

lemma warmupx_default_value:
  assumes "0 \<le> e" and "e < 60 * 10 ^ 9"
  shows "\<bar>warmupx_calculate m (warmupx_newConfig (warmupx_hook_opts h)) (f64_div (f64_of_int e) (f64_of_int (60 * 10 ^ 9))) - warmupx_line e\<bar> \<le> 9 * f64_u"
proof -
  let ?b = "f64_round (1 / 10)" and ?q = "of_int e / (60 * 10 ^ 9) :: rat"
  define d where "d = f64_round (1 - ?b)"
  have q: "0 \<le> ?q" "?q \<le> 1" using assms by simp_all
  define s where "s = f64_round ?q"
  have s: "0 \<le> s" "s \<le> 1" "\<bar>s - ?q\<bar> \<le> f64_u" unfolding s_def using f64_unit [OF q] f64_err1 [OF q] by simp_all
  have b: "0 \<le> ?b" "?b \<le> 1" "\<bar>?b - 1 / 10\<bar> \<le> f64_u" using f64_tenth f64_err1 [of "1 / 10"] by simp_all
  have d: "0 \<le> d" "d \<le> 1" "\<bar>d - (1 - ?b)\<bar> \<le> f64_u" unfolding d_def using f64_unit [of "1 - ?b"] f64_err1 [of "1 - ?b"] b by simp_all
  have d9: "\<bar>d - 9 / 10\<bar> \<le> 2 * f64_u" using d(3) b(3) by linarith
  have "d * s - 9 / 10 * ?q = (d - 9 / 10) * s + 9 / 10 * (s - ?q)" by algebra
  moreover have "\<bar>(d - 9 / 10) * s\<bar> \<le> 2 * f64_u * 1" unfolding abs_mult using d9 s f64_u_pos by (intro mult_mono) simp_all
  moreover have "\<bar>9 / 10 * (s - ?q)\<bar> \<le> 1 * f64_u" unfolding abs_mult using s(3) f64_u_pos by (intro mult_mono) simp_all
  ultimately have ds: "\<bar>d * s - 9 / 10 * ?q\<bar> \<le> 3 * f64_u" by linarith
  have l: "\<bar>warmupx_linear ?b d s - (?b + d * s)\<bar> \<le> 4 * f64_u" by (rule warmupx_linear_err [OF b(1,2) d(1,2) s(1,2)])
  have e: "f64_of_int e = of_int e" "f64_of_int (60 * 10 ^ 9) = 60 * 10 ^ 9" using assms by (simp_all add: f64_of_int_exact)
  have "warmupx_line e \<le> 1" using q by (simp add: warmupx_line_def)
  moreover have "warmupx_calculate m (warmupx_newConfig (warmupx_hook_opts h)) (f64_div (f64_of_int e) (f64_of_int (60 * 10 ^ 9)))
    = min 1 (warmupx_linear ?b d s)"
    using s(1,2) unfolding e
    by (simp add: f64_div_def s_def [simplified] warmupx_calculate_def warmupx_curve_def Let_def warmupx_hook_cfg warmupx_strategies f64_sub_def
        d_def min_def)
  moreover have "\<bar>warmupx_linear ?b d s - warmupx_line e\<bar> \<le> 8 * f64_u" unfolding warmupx_line_def using l ds b(3) by linarith
  ultimately show ?thesis using f64_u_pos by (simp add: min_def) linarith
qed

lemma warmupx_tick_quiet:
  assumes "ww_gen w = gen" and "ww_warming w" and "\<not> ww_complete w" and "ww_start w = Some s" and "s \<le> now"
    and "now < s + wc_duration (ww_cfg w)"
    and "\<bar>f64_sub (ww_capacity (fst (warmupx_tick m now gen w))) (ww_capacity w)\<bar> \<le> warmupx_capacityEpsilon"
  shows "ww_hooks (fst (warmupx_tick m now gen w)) = ww_hooks w"
  using assms by (auto simp: warmupx_tick_def warmupx_tick_locked_def warmupx_sinceStartLocked_def Let_def)

lemma warmupx_small_change:
  assumes "\<bar>x - warmupx_line e\<bar> \<le> 9 * f64_u" and "\<bar>y - warmupx_line e'\<bar> \<le> 9 * f64_u" and "e \<le> e'" and "e' \<le> e + 650 * 10 ^ 6"
  shows "\<bar>f64_sub y x\<bar> \<le> warmupx_capacityEpsilon"
proof -
  have "warmupx_line e' - warmupx_line e = 9 / 10 * (of_int (e' - e) / (60 * 10 ^ 9))" by (simp add: warmupx_line_def diff_divide_distrib)
  moreover have "(of_int (e' - e) :: rat) \<le> of_int (650 * 10 ^ 6)" using assms(4) by (simp only: of_int_le_iff)
  moreover have "(0::rat) \<le> of_int (e' - e)" using assms(3) by simp
  ultimately have "0 \<le> warmupx_line e' - warmupx_line e" "warmupx_line e' - warmupx_line e \<le> 975 / 100000" by simp_all
  moreover have u: "f64_u \<le> 1 / 1000000000" by (simp add: f64_u_def)
  ultimately have "\<bar>y - x\<bar> \<le> 976 / 100000" using assms(1,2) by linarith
  then have "\<bar>f64_sub y x\<bar> \<le> 977 / 100000"
    using f64_err [of "y - x" 1] u unfolding f64_sub_def by linarith
  moreover have "\<bar>f64_round (1 / 100) - 1 / 100\<bar> \<le> f64_u" by (rule f64_err1) simp_all
  ultimately show ?thesis unfolding warmupx_capacityEpsilon_def using u by linarith
qed

definition warmupx_ramping :: "warmupx_config \<Rightarrow> int \<Rightarrow> int \<Rightarrow> warmupx_Warmer \<Rightarrow> bool" where
  "warmupx_ramping c s now w \<longleftrightarrow> ww_cfg w = c \<and> ww_start w = Some s \<and> ww_gen w = 1 \<and> ww_warming w \<and> \<not> ww_complete w \<and> ww_hooks w = []
     \<and> \<bar>ww_capacity w - warmupx_line (now - s)\<bar> \<le> 9 * f64_u"

lemma warmupx_ramping_tick:
  assumes "warmupx_ramping (warmupx_newConfig (warmupx_hook_opts h)) s t w" and "s \<le> t" and "t \<le> now" and "now \<le> t + 650 * 10 ^ 6"
    and "now < s + 60 * 10 ^ 9"
  shows "warmupx_ramping (warmupx_newConfig (warmupx_hook_opts h)) s now (fst (warmupx_tick m now 1 w))"
proof -
  have w: "ww_cfg w = warmupx_newConfig (warmupx_hook_opts h)" "ww_start w = Some s" "ww_gen w = 1" "ww_warming w" "\<not> ww_complete w"
    "ww_hooks w = []" "\<bar>ww_capacity w - warmupx_line (t - s)\<bar> \<le> 9 * f64_u" using assms(1) by (simp_all add: warmupx_ramping_def)
  have d: "wc_duration (ww_cfg w) = 60 * 10 ^ 9" by (simp add: w(1) warmupx_hook_cfg)
  have sn: "s \<le> now" using assms(2,3) by simp
  note k = warmupx_tick_active [OF w(3-5,2) sn prod.collapse [symmetric], of m]
  have v: "\<bar>ww_capacity (fst (warmupx_tick m now 1 w)) - warmupx_line (now - s)\<bar> \<le> 9 * f64_u"
    using warmupx_default_value [of "now - s" m h] k assms(5) sn by (simp add: d w(1) [symmetric])
  have "ww_hooks (fst (warmupx_tick m now 1 w)) = ww_hooks w"
    by (rule warmupx_tick_quiet [OF w(3-5,2) sn])
      (use assms(3-5) d warmupx_small_change [OF w(7) v] in simp_all)
  with k v w d assms(5) show ?thesis by (simp add: warmupx_ramping_def)
qed

lemma warmupx_ramping_ticks:
  "warmupx_ramping (warmupx_newConfig (warmupx_hook_opts h)) s t w \<Longrightarrow> s \<le> t \<Longrightarrow> warmupx_paced (650 * 10 ^ 6) t ts
     \<Longrightarrow> \<forall>x\<in>set ts. x < s + 60 * 10 ^ 9
     \<Longrightarrow> warmupx_ramping (warmupx_newConfig (warmupx_hook_opts h)) s (last (t # ts)) (fold (\<lambda>now w. fst (warmupx_tick m now 1 w)) ts w)"
proof (induction ts arbitrary: t w)
  case (Cons x ts)
  have "warmupx_ramping (warmupx_newConfig (warmupx_hook_opts h)) s x (fst (warmupx_tick m x 1 w))"
    using Cons.prems by (intro warmupx_ramping_tick [OF Cons.prems(1,2)]) simp_all
  then show ?case using Cons.IH [of x "fst (warmupx_tick m x 1 w)"] Cons.prems by simp
qed simp

lemma warmupx_Start_default:
  "warmupx_ramping (warmupx_newConfig (warmupx_hook_opts h)) s s (fst (warmupx_Start m s (warmupx_New (warmupx_hook_opts h))))"
proof -
  let ?b = "f64_round (1 / 10)"
  have b: "0 \<le> ?b" "\<bar>?b - 1 / 10\<bar> \<le> f64_u" using f64_tenth f64_err1 [of "1 / 10"] by simp_all
  have "f64_u < 1 / 2" by (simp add: f64_u_def)
  with b(2) have b1: "?b < 1" by linarith
  have i: "warmupx_invert m (warmupx_newConfig (warmupx_hook_opts h)) ?b = 0"
    using b1 f64_round_pos [of "1 - ?b"]
    by (simp add: warmupx_invert_def Let_def warmupx_hook_cfg f64_sub_def f64_div_def)
  have c: "warmupx_clamp (warmupx_newConfig (warmupx_hook_opts h)) ?b = ?b" using b1 by (simp add: warmupx_clamp_def warmupx_hook_cfg)
  let ?w = "warmupx_New (warmupx_hook_opts h)"
  have w: "ww_cfg ?w = warmupx_newConfig (warmupx_hook_opts h)" "ww_gen ?w = 0" "ww_hooks ?w = []" "\<not> ww_closed ?w"
    by (simp_all add: warmupx_New_def Let_def)
  have m: "wc_minCap (ww_cfg ?w) = ?b" "wc_maxCap (ww_cfg ?w) = 1" by (simp_all add: w(1) warmupx_hook_cfg)
  note mm = m(1) [unfolded w(1)]
  have "warmupx_clamp (ww_cfg ?w) ?b < wc_maxCap (ww_cfg ?w)" using b1 c by (simp add: w(1) m(2) [unfolded w(1)])
  from warmupx_StartAt_ramp [OF w(4) this prod.collapse [symmetric], of m s, unfolded w(1) c i] show ?thesis
    using b by (simp add: warmupx_ramping_def warmupx_Start_def mm w warmupx_line_def f64_mul_def f64_to_i64_def f64_trunc_def Let_def)
qed

text \<open>
  The hook of a change misses a whole default ramp. A tick compares the capacity with that of the tick before, and the default ramp
  moves by nine thousandths between two ticks, below the threshold of one hundredth: whatever the ticks, as long as they are at
  most 650 ms apart (the ticker of a default warmer fires every 600 ms), no call of the hook reports any of the way from 0.1 to (nearly) 1.
\<close>

theorem warmupx_hook_misses_ramp:
  assumes "warmupx_paced (650 * 10 ^ 6) s ts" and "\<forall>x\<in>set ts. x < s + 60 * 10 ^ 9"
    and "w = fold (\<lambda>now w. fst (warmupx_tick m now 1 w)) ts (fst (warmupx_Start m s (warmupx_New (warmupx_hook_opts h))))"
  shows "ww_hooks w = [] \<and> wc_interval (ww_cfg w) = 600 * 10 ^ 6
    \<and> \<bar>ww_capacity w - (1 / 10 + 9 / 10 * (of_int (last (s # ts) - s) / (60 * 10 ^ 9)))\<bar> \<le> 1 / 2 ^ 49"
proof -
  have "warmupx_ramping (warmupx_newConfig (warmupx_hook_opts h)) s (last (s # ts)) w"
    unfolding assms(3) by (rule warmupx_ramping_ticks [OF warmupx_Start_default order_refl assms(1,2)])
  moreover have "9 * f64_u \<le> 1 / 2 ^ 49" by (simp add: f64_u_def)
  ultimately show ?thesis by (auto simp: warmupx_ramping_def warmupx_line_def warmupx_hook_cfg)
qed

lemma warmupx_hook_misses_ramp_witness:
  "let m = warmupx_demo_math;
       w = fold (\<lambda>now w. fst (warmupx_tick m now 1 w)) [600 * 10 ^ 6, 1200 * 10 ^ 6] (fst (warmupx_Start m 0 (warmupx_New (warmupx_hook_opts (\<lambda>a b. Returns () None)))))
   in ww_hooks w = [] \<and> \<bar>ww_capacity w - 118 / 1000\<bar> \<le> 1 / 2 ^ 49"
  using warmupx_hook_misses_ramp [of 0 "[600 * 10 ^ 6, 1200 * 10 ^ 6]" _ warmupx_demo_math "\<lambda>a b. Returns () None", OF _ _ HOL.refl]
  by (simp add: Let_def)

end
