(* ===== verification/Warmupx_Conc.thy ===== *)
theory Warmupx_Conc
  imports Warmupx_Ramp
begin

text \<open>
  Package \<open>warmupx\<close>, part four: any number of goroutines on one warmer. A locked section, a receive, one call of a hook and one update of
  a counter are one step each; a goroutine is its program counter, and what a step reads from outside is its \<open>choice\<close>.
\<close>

subsection \<open>Program counters\<close>

text \<open>
  \<open>WLoop\<close> is a ramp goroutine at its \<open>select\<close>; \<open>WHooks\<close> calls the hooks left over from a locked section and is then a ramp goroutine
  again, or done. \<open>WRun\<close> is inside the callback of an admitted call.
\<close>

datatype warmupx_pc =
    WStartAt f64
  | WStop
  | WClose
  | WLoop u64 nat
  | WHooks "warmupx_hook list" "(u64 \<times> nat) option"
  | WWait
  | WBlocked nat
  | WReturned goerror
  | WAllow
  | WCall
  | WRun
  | WReset
  | WEnd

record warmupx_choice =
  wh_now :: int
  wh_rand :: f64
  wh_stop :: bool
  wh_ctx :: goerror
  wh_failed :: bool
  wh_rejects :: bool

fun warmupx_micro ::
  "warmupx_math \<Rightarrow> warmupx_choice \<Rightarrow> warmupx_Warmer \<Rightarrow> warmupx_pc \<Rightarrow> warmupx_Warmer \<times> warmupx_pc \<times> warmupx_pc list" where
  "warmupx_micro m ch w (WStartAt x) =
     (case warmupx_StartAt_locked m (wh_now ch) x w of
        (w1, hooks, loop) \<Rightarrow> (w1, WHooks hooks None, case loop of None \<Rightarrow> [] | Some (gen, stop) \<Rightarrow> [WLoop gen stop]))"
| "warmupx_micro m ch w WStop = (warmupx_Stop (wh_now ch) w, WEnd, [])"
| "warmupx_micro m ch w WClose = (warmupx_Close (wh_now ch) w, WEnd, [])"
| "warmupx_micro m ch w (WLoop gen stop) =
     (if wh_stop ch then (w, if stop \<in> ww_shut w then WEnd else WLoop gen stop, [])
      else case warmupx_tick_locked m (wh_now ch) gen w of
             (w1, hooks, ends) \<Rightarrow> (w1, WHooks hooks (if ends then None else Some (gen, stop)), []))"
| "warmupx_micro m ch w (WHooks (h # hs) k) = (warmupx_invoke h w, WHooks hs k, [])"
| "warmupx_micro m ch w (WHooks [] k) = (w, case k of None \<Rightarrow> WEnd | Some (gen, stop) \<Rightarrow> WLoop gen stop, [])"
| "warmupx_micro m ch w WWait =
     (w, case warmupx_wait_round w of WReturn e \<Rightarrow> WReturned e | WBlock k \<Rightarrow> WBlocked k, [])"
| "warmupx_micro m ch w (WBlocked k) =
     (w, case wh_ctx ch of Some e \<Rightarrow> WReturned (Some e) | None \<Rightarrow> if k \<in> ww_shut w then WWait else WBlocked k, [])"
| "warmupx_micro m ch w WAllow = (fst (warmupx_Allow (wh_rand ch) w), WEnd, [])"
| "warmupx_micro m ch w WCall =
     (case warmupx_tryAdmit (wh_now ch) (wh_rand ch) w of (w1, d) \<Rightarrow> (w1, if wd_ok d then WRun else WEnd, []))"
| "warmupx_micro m ch w WRun =
     (if wh_failed ch then w else if wh_rejects ch then warmupx_add_rejected w else warmupx_add_allowed w, WEnd, [])"
| "warmupx_micro m ch w WReset = (warmupx_ResetStats w, WEnd, [])"
| "warmupx_micro m ch w (WReturned e) = (w, WReturned e, [])"
| "warmupx_micro m ch w WEnd = (w, WEnd, [])"

subsection \<open>Goroutines\<close>

type_synonym warmupx_sys = "warmupx_Warmer \<times> warmupx_pc list"

text \<open>A client may call any operation at any time; only \<open>StartAt\<close> makes a ramp goroutine.\<close>

fun warmupx_entry :: "warmupx_pc \<Rightarrow> bool" where
  "warmupx_entry (WLoop gen stop) = False"
| "warmupx_entry (WHooks hs k) = False"
| "warmupx_entry (WBlocked k) = False"
| "warmupx_entry WRun = False"
| "warmupx_entry pc = True"

inductive warmupx_step :: "warmupx_math \<Rightarrow> warmupx_sys \<Rightarrow> warmupx_sys \<Rightarrow> bool" for m where
  run: "i < length ts \<Longrightarrow> warmupx_micro m ch w (ts ! i) = (w', pc, new) \<Longrightarrow> warmupx_step m (w, ts) (w', ts[i := pc] @ new)"
| call: "warmupx_entry pc \<Longrightarrow> warmupx_step m (w, ts) (w, ts @ [pc])"

inductive_cases warmupx_stepE: "warmupx_step m (w, ts) (w', ts')"

text \<open>A run, with the number of \<open>StartAt\<close> calls that began one of its ramps.\<close>

inductive warmupx_steps :: "warmupx_math \<Rightarrow> warmupx_sys \<Rightarrow> warmupx_sys \<Rightarrow> bool" for m where
  refl: "warmupx_steps m x x"
| step: "warmupx_steps m x y \<Longrightarrow> warmupx_step m y z \<Longrightarrow> warmupx_steps m x z"

subsection \<open>The invariant of a warmer\<close>

definition warmupx_inv :: "warmupx_Warmer \<Rightarrow> bool" where
  "warmupx_inv w \<longleftrightarrow>
     warmupx_cfg_ok (ww_cfg w) \<and> wc_minCap (ww_cfg w) \<le> ww_capacity w \<and> ww_capacity w \<le> wc_maxCap (ww_cfg w)
     \<and> (\<not> ww_warming w \<and> \<not> ww_complete w \<longrightarrow> 0 \<le> ww_progress w \<and> ww_progress w \<le> 1)
     \<and> (ww_complete w \<longrightarrow> \<not> ww_warming w \<and> ww_capacity w = wc_maxCap (ww_cfg w))
     \<and> (ww_warming w \<longrightarrow> ww_start w \<noteq> None \<and> ww_stopCh w \<noteq> None \<and> \<not> ww_closed w)
     \<and> ww_shut w \<subseteq> {..<ww_made w} \<and> \<not> ww_crashed w
     \<and> (\<exists>k. ww_completeCh w = Some k \<and> k < ww_made w \<and> (k \<in> ww_shut w \<longleftrightarrow> ww_complete w \<or> ww_closed w) \<and> ww_stopCh w \<noteq> Some k)
     \<and> (\<forall>j. ww_stopCh w = Some j \<longrightarrow> j < ww_made w \<and> j \<notin> ww_shut w)"

lemma warmupx_inv_New: "(\<And>f. Some f \<in> set opts \<Longrightarrow> warmupx_opt_ok f) \<Longrightarrow> warmupx_inv (warmupx_New opts)"
  using warmupx_newConfig_ok [of opts] by (auto simp: warmupx_inv_def warmupx_New_def Let_def warmupx_cfg_ok_def)

lemma warmupx_fraction_unit: "warmupx_inv w \<Longrightarrow> 0 \<le> warmupx_fraction now w \<and> warmupx_fraction now w \<le> 1"
  by (auto simp: warmupx_fraction_def Let_def warmupx_inv_def warmupx_cfg_ok_def warmupx_sinceStartLocked_def
      intro!: f64_div_nonneg f64_of_int_nonneg split: option.splits)

lemma warmupx_progress_unit: "warmupx_inv w \<Longrightarrow> 0 \<le> warmupx_progressLocked now w \<and> warmupx_progressLocked now w \<le> 1"
  using warmupx_fraction_unit [of w now] by (auto simp: warmupx_progressLocked_def warmupx_inv_def)

text \<open>\<open>Stop\<close>, also as the first half of \<open>Close\<close>.\<close>

lemma warmupx_Stop_inv: "warmupx_inv w \<Longrightarrow> warmupx_inv (warmupx_Stop now w)"
  using warmupx_fraction_unit [of w now]
  by (auto simp: warmupx_inv_def warmupx_Stop_def warmupx_freezeProgressLocked_def warmupx_stopLocked_def warmupx_close_ch_def split: option.splits)

lemma warmupx_Close_inv: "warmupx_inv w \<Longrightarrow> warmupx_inv (warmupx_Close now w)"
  using warmupx_fraction_unit [of w now]
  by (auto simp: warmupx_inv_def warmupx_Close_def Let_def warmupx_Stop_def warmupx_freezeProgressLocked_def warmupx_stopLocked_def
      warmupx_close_ch_def warmupx_fraction_def warmupx_sinceStartLocked_def split: option.splits)

text \<open>After \<open>rearm\<close> the completion channel is new and open, and no stop channel is left.\<close>

lemma warmupx_rearm_state:
  assumes "warmupx_inv w" and "\<not> ww_closed w" and "w1 = warmupx_rearm w"
  shows "ww_cfg w1 = ww_cfg w \<and> ww_capacity w1 = ww_capacity w \<and> ww_gen w1 = ww_gen w + 1 \<and> ww_closed w1 = ww_closed w
    \<and> ww_stopCh w1 = None \<and> \<not> ww_crashed w1 \<and> ww_shut w1 \<subseteq> {..<ww_made w} \<and> ww_made w1 = ww_made w + 1
    \<and> ww_completeCh w1 = Some (ww_made w) \<and> ww_shut w \<subseteq> ww_shut w1 \<and> (\<forall>k. ww_completeCh w = Some k \<longrightarrow> k \<in> ww_shut w1)
    \<and> (\<forall>j. ww_stopCh w = Some j \<longrightarrow> j \<in> ww_shut w1)"
  using assms
  by (auto simp: warmupx_inv_def warmupx_rearm_def Let_def warmupx_stopLocked_def warmupx_make_completeCh_def warmupx_close_ch_def
      split: option.splits)

lemma warmupx_StartAt_inv:
  assumes "warmupx_inv w" and "warmupx_StartAt_locked m now x w = (w', hooks, loop)"
  shows "warmupx_inv w'"
proof (cases "ww_closed w")
  case False
  define w1 where "w1 = warmupx_rearm w"
  note r = warmupx_rearm_state [OF assms(1) False w1_def]
  have c: "warmupx_cfg_ok (ww_cfg w)" using assms(1) by (simp add: warmupx_inv_def)
  then have x: "wc_minCap (ww_cfg w) \<le> warmupx_clamp (ww_cfg w) x" "warmupx_clamp (ww_cfg w) x \<le> wc_maxCap (ww_cfg w)"
    by (auto simp: warmupx_clamp_def Let_def warmupx_cfg_ok_def)
  have fresh: "ww_made w \<notin> ww_shut w1" using r by auto
  show ?thesis
  proof (cases "wc_maxCap (ww_cfg w) \<le> warmupx_clamp (ww_cfg w) x")
    case True
    with assms(2) False r fresh
    have "w' = w1\<lparr>ww_capacity := wc_maxCap (ww_cfg w), ww_progress := 1, ww_start := Some now, ww_warming := False, ww_complete := True,
      ww_shut := insert (ww_made w) (ww_shut w1)\<rparr>"
      by (simp add: warmupx_StartAt_locked_def w1_def [symmetric] Let_def warmupx_close_ch_def)
    with r c False show ?thesis by (auto simp: warmupx_inv_def warmupx_cfg_ok_def)
  next
    case low: False
    define t where "t = warmupx_invert m (ww_cfg w) (warmupx_clamp (ww_cfg w) x)"
    define b where "b = f64_to_i64 (wm_oob m) (f64_mul t (f64_of_int (wc_duration (ww_cfg w))))"
    from low assms(2) False r
    have "w' = w1\<lparr>ww_start := Some (now - b), ww_capacity := warmupx_clamp (ww_cfg w) x, ww_progress := t, ww_warming := True,
      ww_complete := False, ww_stopCh := Some (ww_made w1), ww_made := ww_made w1 + 1\<rparr>"
      by (simp add: warmupx_StartAt_locked_def w1_def [symmetric] Let_def warmupx_make_stopCh_def t_def [symmetric] b_def [symmetric])
    with r c x False fresh show ?thesis by (auto simp: warmupx_inv_def)
  qed
qed (use assms in \<open>auto simp: warmupx_StartAt_locked_def Let_def\<close>)

text \<open>What a tick does to the state, whatever its hooks.\<close>

lemma warmupx_tick_state:
  assumes "warmupx_tick_locked m now gen w = (w', hooks, ends)"
  shows "(w' = w \<and> ends \<and> (ww_gen w \<noteq> gen \<or> \<not> ww_warming w \<or> ww_complete w))
    \<or> (ww_gen w = gen \<and> ww_warming w \<and> \<not> ww_complete w \<and> ends
        \<and> w' = warmupx_close_ch (ww_completeCh w) (w\<lparr>ww_capacity := wc_maxCap (ww_cfg w), ww_warming := False, ww_complete := True\<rparr>))
    \<or> (ww_gen w = gen \<and> ww_warming w \<and> \<not> ww_complete w \<and> \<not> ends \<and> (\<exists>t. w' = w\<lparr>ww_capacity := warmupx_calculate m (ww_cfg w) t\<rparr>))"
  using assms by (auto simp: warmupx_tick_locked_def Let_def split: if_splits)

lemma warmupx_tick_inv:
  assumes "warmupx_inv w" and "warmupx_math_ok m" and "warmupx_tick_locked m now gen w = (w', hooks, ends)"
  shows "warmupx_inv w'"
proof -
  have c: "warmupx_cfg_ok (ww_cfg w)" using assms(1) by (simp add: warmupx_inv_def)
  note range = warmupx_calculate_range [OF c assms(2)]
  from warmupx_tick_state [OF assms(3)] consider (same) "w' = w"
    | (ended) "ww_warming w" "\<not> ww_complete w" "w' = warmupx_close_ch (ww_completeCh w) (w\<lparr>ww_capacity := wc_maxCap (ww_cfg w), ww_warming := False, ww_complete := True\<rparr>)"
    | (moved) t where "\<not> ww_complete w" "w' = w\<lparr>ww_capacity := warmupx_calculate m (ww_cfg w) t\<rparr>" by blast
  then show ?thesis
  proof cases
    case ended
    from assms(1) ended(1,2) obtain k where k: "ww_completeCh w = Some k" "k \<notin> ww_shut w"
      by (auto simp: warmupx_inv_def)
    have "w' = w\<lparr>ww_capacity := wc_maxCap (ww_cfg w), ww_warming := False, ww_complete := True, ww_shut := insert k (ww_shut w)\<rparr>"
      using ended(3) k by (simp add: warmupx_close_ch_def)
    with assms(1) k ended(1,2) show ?thesis by (auto simp: warmupx_inv_def warmupx_cfg_ok_def)
  next
    case moved
    with assms(1) range show ?thesis by (auto simp: warmupx_inv_def)
  qed (use assms(1) in simp)
qed

lemma warmupx_invoke_inv: "warmupx_inv w \<Longrightarrow> warmupx_inv (warmupx_invoke h w)"
  by (simp add: warmupx_inv_def)

lemma warmupx_counter_inv:
  "warmupx_inv w \<Longrightarrow> warmupx_inv (warmupx_add_allowed w)" "warmupx_inv w \<Longrightarrow> warmupx_inv (warmupx_add_rejected w)"
  "warmupx_inv w \<Longrightarrow> warmupx_inv (warmupx_ResetStats w)"
  by (simp_all add: warmupx_inv_def warmupx_add_allowed_def warmupx_add_rejected_def warmupx_ResetStats_def)

lemma warmupx_micro_inv:
  assumes "warmupx_inv w" and "warmupx_math_ok m" and "warmupx_micro m ch w pc = (w', pc', new)"
  shows "warmupx_inv w'"
proof (cases pc)
  case (WStartAt x)
  then show ?thesis using assms(3) warmupx_StartAt_inv [OF assms(1)] by (auto split: prod.splits)
next
  case (WLoop gen stop)
  then show ?thesis using assms(1,3) warmupx_tick_inv [OF assms(1,2)] by (auto split: prod.splits if_splits)
next
  case (WHooks hs k)
  then show ?thesis using assms(1,3) warmupx_invoke_inv [OF assms(1)] by (cases hs) (auto split: option.splits prod.splits)
qed (use assms warmupx_Stop_inv warmupx_Close_inv warmupx_counter_inv in
     \<open>auto simp: warmupx_Allow_def warmupx_tryAdmit_def Let_def split: prod.splits if_splits\<close>)

subsection \<open>The invariant of a system\<close>

text \<open>The generation and the stop channel of a ramp goroutine.\<close>

fun warmupx_driver :: "warmupx_pc \<Rightarrow> (u64 \<times> nat) option" where
  "warmupx_driver (WLoop gen stop) = Some (gen, stop)"
| "warmupx_driver (WHooks hs k) = k"
| "warmupx_driver pc = None"

definition warmupx_grows :: "warmupx_Warmer \<Rightarrow> warmupx_Warmer \<Rightarrow> bool" where
  "warmupx_grows w w' \<longleftrightarrow> ww_shut w \<subseteq> ww_shut w' \<and> ww_made w \<le> ww_made w'
     \<and> (\<forall>k. ww_completeCh w = Some k \<longrightarrow> ww_completeCh w' = Some k \<or> k \<in> ww_shut w')
     \<and> (\<forall>j. ww_stopCh w = Some j \<longrightarrow> ww_stopCh w' = Some j \<or> j \<in> ww_shut w')"

definition warmupx_same_run :: "warmupx_Warmer \<Rightarrow> warmupx_Warmer \<Rightarrow> bool" where
  "warmupx_same_run w w' \<longleftrightarrow> ww_gen w' = ww_gen w \<and> ww_made w' = ww_made w \<and> (ww_warming w' \<longrightarrow> ww_warming w \<and> ww_stopCh w' = ww_stopCh w)"

lemma warmupx_grows_refl [simp]: "warmupx_grows w w" "warmupx_same_run w w"
  by (simp_all add: warmupx_grows_def warmupx_same_run_def)

lemma warmupx_close_ch_grows:
  "warmupx_grows w (warmupx_close_ch ch w)" "ww_made (warmupx_close_ch ch w) = ww_made w"
  by (auto simp: warmupx_grows_def warmupx_close_ch_def split: option.splits)

lemma warmupx_Stop_run: "warmupx_grows w (warmupx_Stop now w) \<and> warmupx_same_run w (warmupx_Stop now w)"
  by (auto simp: warmupx_grows_def warmupx_same_run_def warmupx_Stop_def warmupx_freezeProgressLocked_def warmupx_stopLocked_def
      warmupx_close_ch_def split: option.splits)

lemma warmupx_Close_run: "warmupx_grows w (warmupx_Close now w) \<and> warmupx_same_run w (warmupx_Close now w)"
  by (auto simp: warmupx_grows_def warmupx_same_run_def warmupx_Close_def Let_def warmupx_Stop_def warmupx_freezeProgressLocked_def
      warmupx_stopLocked_def warmupx_close_ch_def split: option.splits)

lemma warmupx_tick_run:
  assumes "warmupx_inv w" and "warmupx_tick_locked m now gen w = (w', hooks, ends)"
  shows "warmupx_grows w w' \<and> warmupx_same_run w w' \<and> (ends \<longrightarrow> ww_gen w \<noteq> gen \<or> \<not> ww_warming w')"
proof -
  have "ww_complete w \<Longrightarrow> \<not> ww_warming w" using assms(1) by (simp add: warmupx_inv_def)
  with warmupx_tick_state [OF assms(2)] show ?thesis
    by (auto simp: warmupx_grows_def warmupx_same_run_def warmupx_close_ch_def split: option.splits if_splits)
qed

lemma warmupx_StartAt_run:
  assumes "warmupx_inv w" and "warmupx_StartAt_locked m now x w = (w', hooks, loop)"
  shows "warmupx_grows w w'
    \<and> (loop = None \<and> (w' = w \<or> \<not> ww_warming w' \<and> ww_gen w' = ww_gen w + 1 \<and> ww_made w < ww_made w')
       \<or> (\<exists>c. loop = Some (ww_gen w', c) \<and> ww_gen w' = ww_gen w + 1 \<and> ww_stopCh w' = Some c \<and> ww_made w \<le> c \<and> c < ww_made w'))"
proof (cases "ww_closed w")
  case False
  note r = warmupx_rearm_state [OF assms(1) False HOL.refl]
  show ?thesis
  proof (cases "wc_maxCap (ww_cfg w) \<le> warmupx_clamp (ww_cfg w) x")
    case True
    with assms(2) False r have "loop = None" and "w' = warmupx_close_ch (Some (ww_made w)) ((warmupx_rearm w)\<lparr>ww_capacity := wc_maxCap (ww_cfg w),
      ww_progress := 1, ww_start := Some now, ww_warming := False, ww_complete := True\<rparr>)"
      by (simp_all add: warmupx_StartAt_locked_def Let_def)
    with r show ?thesis by (auto simp: warmupx_grows_def warmupx_close_ch_def)
  next
    case low: False
    with assms(2) False r show ?thesis
      by (auto simp: warmupx_StartAt_locked_def Let_def warmupx_make_stopCh_def warmupx_grows_def)
  qed
qed (use assms in \<open>auto simp: warmupx_StartAt_locked_def Let_def\<close>)

text \<open>What one step does to the channels, to the run and to the list of ramp goroutines.\<close>

definition warmupx_effect :: "warmupx_Warmer \<Rightarrow> warmupx_pc \<Rightarrow> warmupx_Warmer \<Rightarrow> warmupx_pc \<Rightarrow> warmupx_pc list \<Rightarrow> bool" where
  "warmupx_effect w pc w' pc' new \<longleftrightarrow>
     (warmupx_same_run w w' \<and> new = []
        \<and> (warmupx_driver pc' = warmupx_driver pc
           \<or> warmupx_driver pc' = None \<and> (\<exists>g c. warmupx_driver pc = Some (g, c) \<and> (c \<in> ww_shut w \<or> g \<noteq> ww_gen w \<or> \<not> ww_warming w'))))
      \<or> (warmupx_driver pc = None \<and> warmupx_driver pc' = None \<and> ww_gen w' = ww_gen w + 1 \<and> ww_made w < ww_made w'
        \<and> (\<not> ww_warming w' \<and> new = []
           \<or> (\<exists>c. new = [WLoop (ww_gen w') c] \<and> ww_stopCh w' = Some c \<and> ww_made w \<le> c \<and> c < ww_made w')))"

lemma warmupx_micro_run:
  assumes "warmupx_inv w" and "warmupx_micro m ch w pc = (w', pc', new)"
  shows "warmupx_grows w w' \<and> warmupx_effect w pc w' pc' new"
proof -
  have cnt: "warmupx_grows w (warmupx_add_allowed w)" "warmupx_grows w (warmupx_add_rejected w)" "warmupx_grows w (warmupx_ResetStats w)"
    "warmupx_same_run w (warmupx_add_allowed w)" "warmupx_same_run w (warmupx_add_rejected w)" "warmupx_same_run w (warmupx_ResetStats w)"
    by (simp_all add: warmupx_grows_def warmupx_same_run_def warmupx_add_allowed_def warmupx_add_rejected_def warmupx_ResetStats_def)
  have inv: "warmupx_grows w (warmupx_invoke h w)" "warmupx_same_run w (warmupx_invoke h w)" for h
    by (simp_all add: warmupx_grows_def warmupx_same_run_def)
  show ?thesis
  proof (cases pc)
    case (WStartAt x)
    then show ?thesis using assms(2) warmupx_StartAt_run [OF assms(1)] by (auto simp: warmupx_effect_def split: prod.splits option.splits) fastforce+
  next
    case (WLoop gen stop)
    then show ?thesis using assms(2) warmupx_tick_run [OF assms(1)] by (auto simp: warmupx_effect_def split: prod.splits if_splits)
  next
    case (WHooks hs k)
    then show ?thesis using assms(2) inv by (cases hs) (auto simp: warmupx_effect_def split: option.splits prod.splits)
  qed (use assms(2) cnt warmupx_Stop_run warmupx_Close_run in
       \<open>auto simp: warmupx_effect_def warmupx_Allow_def warmupx_tryAdmit_def Let_def split: prod.splits if_splits warmupx_wait.splits option.splits\<close>)
qed

definition warmupx_drives :: "warmupx_Warmer \<Rightarrow> warmupx_pc \<Rightarrow> bool" where
  "warmupx_drives w pc \<longleftrightarrow> (case warmupx_driver pc of None \<Rightarrow> False | Some (gen, stop) \<Rightarrow> gen = ww_gen w \<and> ww_stopCh w = Some stop)"

definition warmupx_sys_inv :: "warmupx_sys \<Rightarrow> bool" where
  "warmupx_sys_inv x \<longleftrightarrow>
     (case x of (w, ts) \<Rightarrow>
        warmupx_inv w
        \<and> (\<forall>k. WBlocked k \<in> set ts \<longrightarrow> k \<in> ww_shut w \<or> ww_completeCh w = Some k)
        \<and> (\<forall>pc\<in>set ts. \<forall>g c. warmupx_driver pc = Some (g, c) \<longrightarrow> c < ww_made w \<and> (c \<in> ww_shut w \<or> ww_stopCh w = Some c))
        \<and> (ww_warming w \<longrightarrow> how_many (warmupx_drives w) ts = 1)
        \<and> (ww_made w \<le> 2 ^ 64 \<longrightarrow> unat (ww_gen w) < ww_made w
             \<and> (\<forall>pc\<in>set ts. \<forall>g c. warmupx_driver pc = Some (g, c) \<longrightarrow>
                  unat g \<le> unat (ww_gen w) \<and> (ww_warming w \<and> g = ww_gen w \<longrightarrow> ww_stopCh w = Some c))))"

lemma warmupx_how_many_eq: "(\<And>pc. pc \<in> set ts \<Longrightarrow> P pc = Q pc) \<Longrightarrow> how_many P ts = how_many Q ts"
  unfolding how_many_def by (metis filter_cong)

lemma warmupx_block_new:
  "warmupx_micro m ch w pc = (w', WBlocked k, new) \<Longrightarrow> (ww_completeCh w = Some k \<or> pc = WBlocked k) \<and> w' = w"
  by (cases "(m, ch, w, pc)" rule: warmupx_micro.cases)
    (auto simp: warmupx_wait_round_def split: if_splits option.splits prod.splits warmupx_wait.splits)

lemma warmupx_gen_next: "unat g < n \<Longrightarrow> n < 2 ^ 64 \<Longrightarrow> unat (g + 1) = unat g + 1" for g :: u64
  by (simp add: unat_word_ariths)

lemma warmupx_run_waiters:
  assumes "warmupx_sys_inv (w, ts)" and "i < length ts" and "warmupx_micro m ch w (ts ! i) = (w', pc, new)"
    and "WBlocked k \<in> set (ts[i := pc] @ new)"
  shows "k \<in> ww_shut w' \<or> ww_completeCh w' = Some k"
proof -
  have inv: "warmupx_inv w" and old: "\<And>k. WBlocked k \<in> set ts \<Longrightarrow> k \<in> ww_shut w \<or> ww_completeCh w = Some k"
    using assms(1) by (simp_all add: warmupx_sys_inv_def)
  note r = warmupx_micro_run [OF inv assms(3)]
  have "WBlocked k \<notin> set new" using r by (auto simp: warmupx_effect_def)
  with assms(4) consider (was) "WBlocked k \<in> set ts" | (now) "pc = WBlocked k"
    using set_update_subset_insert [of ts i pc] by auto
  then show ?thesis
  proof cases
    case was
    with old r show ?thesis by (auto simp: warmupx_grows_def)
  next
    case now
    from warmupx_block_new [OF assms(3) [unfolded now]] old [of k] nth_mem [OF assms(2)] show ?thesis by auto
  qed
qed

text \<open>The ramp goroutines after a step are those before it, less the one that ended, and the new one.\<close>

lemma warmupx_run_drivers:
  assumes "warmupx_inv w" and "i < length ts" and "warmupx_micro m ch w (ts ! i) = (w', pc, new)"
    and "pc1 \<in> set (ts[i := pc] @ new)" and "warmupx_driver pc1 = Some (g, c)"
  shows "(\<exists>pc0\<in>set ts. warmupx_driver pc0 = Some (g, c)) \<or> new = [pc1] \<and> pc1 = WLoop (ww_gen w') c \<and> g = ww_gen w'
    \<and> ww_gen w' = ww_gen w + 1 \<and> ww_stopCh w' = Some c \<and> ww_made w \<le> c \<and> c < ww_made w'"
proof -
  note r = warmupx_micro_run [OF assms(1,3)]
  from assms(4) consider "pc1 \<in> set new" | "pc1 = pc" | "pc1 \<in> set ts" using set_update_subset_insert [of ts i pc] by auto
  then show ?thesis
  proof cases
    case 1
    with r assms(5) show ?thesis by (auto simp: warmupx_effect_def)
  next
    case 2
    with r assms(5) have "warmupx_driver (ts ! i) = Some (g, c)" by (auto simp: warmupx_effect_def)
    then show ?thesis using nth_mem [OF assms(2)] by blast
  qed (use assms(5) in blast)
qed

lemma warmupx_run_count:
  assumes "warmupx_sys_inv (w, ts)" and "i < length ts" and "warmupx_micro m ch w (ts ! i) = (w', pc, new)" and "ww_warming w'"
  shows "how_many (warmupx_drives w') (ts[i := pc] @ new) = 1"
proof -
  have inv: "warmupx_inv w" and cnt: "ww_warming w \<Longrightarrow> how_many (warmupx_drives w) ts = 1"
    and old: "\<And>pc g c. pc \<in> set ts \<Longrightarrow> warmupx_driver pc = Some (g, c) \<Longrightarrow> c < ww_made w"
    using assms(1) by (auto simp: warmupx_sys_inv_def)
  have op: "\<And>c. ww_stopCh w = Some c \<Longrightarrow> c \<notin> ww_shut w" using inv by (simp add: warmupx_inv_def)
  note r = warmupx_micro_run [OF inv assms(3)]
  from r consider (same) "warmupx_same_run w w'" "new = []"
      "warmupx_driver pc = warmupx_driver (ts ! i) \<or> warmupx_driver pc = None \<and> (\<exists>g c. warmupx_driver (ts ! i) = Some (g, c) \<and> (c \<in> ww_shut w \<or> g \<noteq> ww_gen w))"
    | (fresh) c where "warmupx_driver pc = None" "new = [WLoop (ww_gen w') c]" "ww_stopCh w' = Some c" "ww_made w \<le> c"
    using assms(4) by (auto simp: warmupx_effect_def)
  then show ?thesis
  proof cases
    case same
    from same(1) assms(4) have g: "ww_gen w' = ww_gen w" "ww_stopCh w' = ww_stopCh w" "ww_warming w" by (simp_all add: warmupx_same_run_def)
    have d: "warmupx_drives w' = warmupx_drives w" by (rule ext) (auto simp: warmupx_drives_def g split: option.splits)
    have "warmupx_drives w pc = warmupx_drives w (ts ! i)"
      using same(3) op by (auto simp: warmupx_drives_def split: option.splits)
    with cnt [OF g(3)] assms(2) same(2) show ?thesis by (simp add: d how_many_update)
  next
    case fresh
    have "\<not> warmupx_drives w' pc1" if pc1: "pc1 \<in> set (ts[i := pc])" for pc1
    proof
      assume "warmupx_drives w' pc1"
      then have "warmupx_driver pc1 = Some (ww_gen w', c)" using fresh(3) by (auto simp: warmupx_drives_def split: option.splits)
      moreover from this have "pc1 \<noteq> pc" using fresh(1) by auto
      ultimately show False using pc1 set_update_subset_insert [of ts i pc] old [of pc1] fresh(4) by fastforce
    qed
    then have "how_many (warmupx_drives w') (ts[i := pc]) = 0" by (simp add: how_many_def filter_empty_conv)
    then show ?thesis using fresh(2,3) by (simp add: warmupx_drives_def)
  qed
qed

lemma warmupx_run_gens:
  assumes "warmupx_sys_inv (w, ts)" and "i < length ts" and "warmupx_micro m ch w (ts ! i) = (w', pc, new)" and "ww_made w' \<le> 2 ^ 64"
  shows "unat (ww_gen w') < ww_made w'"
    and "pc1 \<in> set (ts[i := pc] @ new) \<Longrightarrow> warmupx_driver pc1 = Some (g, c) \<Longrightarrow>
      unat g \<le> unat (ww_gen w') \<and> (ww_warming w' \<and> g = ww_gen w' \<longrightarrow> ww_stopCh w' = Some c)"
proof -
  have inv: "warmupx_inv w" using assms(1) by (simp add: warmupx_sys_inv_def)
  note r = warmupx_micro_run [OF inv assms(3)]
  have made: "ww_made w \<le> 2 ^ 64" using r assms(4) by (simp add: warmupx_grows_def)
  with assms(1) have g: "unat (ww_gen w) < ww_made w"
    and old: "\<And>pc g c. pc \<in> set ts \<Longrightarrow> warmupx_driver pc = Some (g, c) \<Longrightarrow> unat g \<le> unat (ww_gen w) \<and> (ww_warming w \<and> g = ww_gen w \<longrightarrow> ww_stopCh w = Some c)"
    by (auto simp: warmupx_sys_inv_def)
  from r consider (same) "warmupx_same_run w w'" "new = []" | (fresh) "ww_gen w' = ww_gen w + 1" "ww_made w < ww_made w'"
    by (auto simp: warmupx_effect_def)
  note cases = this
  have n: "unat (ww_gen w') = unat (ww_gen w) + 1" if "ww_gen w' = ww_gen w + 1" "ww_made w < ww_made w'"
    using warmupx_gen_next [OF g] that assms(4) by simp
  show "unat (ww_gen w') < ww_made w'" using cases
  proof cases
    case same
    with g show ?thesis by (simp add: warmupx_same_run_def)
  next
    case fresh
    with n g show ?thesis by simp
  qed
  show "unat g \<le> unat (ww_gen w') \<and> (ww_warming w' \<and> g = ww_gen w' \<longrightarrow> ww_stopCh w' = Some c)"
    if pc1: "pc1 \<in> set (ts[i := pc] @ new)" "warmupx_driver pc1 = Some (g, c)"
  proof -
    from warmupx_run_drivers [OF inv assms(2,3) pc1] consider (was) pc0 where "pc0 \<in> set ts" "warmupx_driver pc0 = Some (g, c)"
      | (now) "g = ww_gen w'" "ww_stopCh w' = Some c" by blast
    then show ?thesis
    proof cases
      case was
      note o = old [OF was]
      from cases show ?thesis
      proof cases
        case same
        with o show ?thesis by (auto simp: warmupx_same_run_def)
      next
        case fresh
        with o n have "unat g < unat (ww_gen w')" by simp
        then show ?thesis by auto
      qed
    qed simp
  qed
qed

lemma warmupx_step_inv:
  assumes "warmupx_step m (w, ts) (w', ts')" and "warmupx_math_ok m" and "warmupx_sys_inv (w, ts)"
  shows "warmupx_sys_inv (w', ts')"
  using assms(1)
proof (cases rule: warmupx_step.cases)
  case (run i ch pc new)
  have inv: "warmupx_inv w" using assms(3) by (simp add: warmupx_sys_inv_def)
  have "c < ww_made w' \<and> (c \<in> ww_shut w' \<or> ww_stopCh w' = Some c)"
    if pc1: "pc1 \<in> set (ts[i := pc] @ new)" "warmupx_driver pc1 = Some (g, c)" for pc1 g c
  proof -
    have old: "\<And>pc0. pc0 \<in> set ts \<Longrightarrow> warmupx_driver pc0 = Some (g, c) \<Longrightarrow> c < ww_made w \<and> (c \<in> ww_shut w \<or> ww_stopCh w = Some c)"
      using assms(3) by (auto simp: warmupx_sys_inv_def)
    from warmupx_run_drivers [OF inv run(2,3) pc1] warmupx_micro_run [OF inv run(3)] show ?thesis
      by (auto simp: warmupx_grows_def dest!: old)
  qed
  moreover have "warmupx_inv w'" by (rule warmupx_micro_inv [OF inv assms(2) run(3)])
  ultimately show ?thesis
    using warmupx_run_waiters [OF assms(3) run(2,3)] warmupx_run_count [OF assms(3) run(2,3)] warmupx_run_gens [OF assms(3) run(2,3)]
    unfolding warmupx_sys_inv_def run(1) by (simp only: prod.case) blast
next
  case (call pc)
  then have n: "warmupx_driver pc = None" and k: "\<And>k. pc \<noteq> WBlocked k" by (cases pc; simp)+
  then have "\<not> warmupx_drives w pc" by (simp add: warmupx_drives_def)
  with assms(3) call n k show ?thesis by (auto simp: warmupx_sys_inv_def)
qed

lemma warmupx_steps_inv: "warmupx_steps m x y \<Longrightarrow> warmupx_math_ok m \<Longrightarrow> warmupx_sys_inv x \<Longrightarrow> warmupx_sys_inv y"
proof (induction rule: warmupx_steps.induct)
  case (step x y z)
  then show ?case by (cases y; cases z) (simp add: warmupx_step_inv)
qed

lemma warmupx_sys_inv_New:
  assumes "\<And>f. Some f \<in> set opts \<Longrightarrow> warmupx_opt_ok f"
  shows "warmupx_sys_inv (warmupx_New opts, [])"
  using warmupx_inv_New [OF assms] by (simp add: warmupx_sys_inv_def) (simp add: warmupx_New_def Let_def)

lemma warmupx_reachable_inv:
  assumes "warmupx_steps m (warmupx_New opts, []) (w, ts)" and "warmupx_math_ok m" and "\<forall>f. Some f \<in> set opts \<longrightarrow> warmupx_opt_ok f"
  shows "warmupx_sys_inv (w, ts)"
  using warmupx_steps_inv [OF assms(1,2) warmupx_sys_inv_New] assms(3) by blast

section \<open>Properties\<close>

text \<open>
  C18: every number a warmer shows is in its documented range. For any options and any interleaving of calls, ramp goroutines and hooks
  the capacity is between the two configured bounds, which are in \<open>[0, 1]\<close>; the progress is in \<open>[0, 1]\<close> whatever the clock says; a complete
  ramp is not warming and is at its maximum; and \<open>Stats\<close> splits the duration into elapsed and remaining time.
\<close>

theorem warmupx_numbers_in_range:
  assumes "warmupx_steps m (warmupx_New opts, []) (w, ts)" and "warmupx_math_ok m" and "\<forall>f. Some f \<in> set opts \<longrightarrow> warmupx_opt_ok f"
    and "s = warmupx_WarmerStats now1 now2 w"
  shows "0 \<le> wt_MinCapacity s \<and> wt_MinCapacity s \<le> wt_Capacity s \<and> wt_Capacity s \<le> wt_MaxCapacity s \<and> wt_MaxCapacity s \<le> 1
    \<and> 0 \<le> wt_Progress s \<and> wt_Progress s \<le> 1 \<and> \<not> (wt_IsWarming s \<and> wt_IsComplete s)
    \<and> (wt_IsComplete s \<longrightarrow> wt_Capacity s = wt_MaxCapacity s \<and> wt_Progress s = 1)
    \<and> 0 \<le> wt_Elapsed s \<and> 0 \<le> wt_Remaining s \<and> (ww_start w \<noteq> None \<longrightarrow> wt_Elapsed s + wt_Remaining s = wt_Duration s)"
proof -
  have i: "warmupx_inv w" using warmupx_reachable_inv [OF assms(1-3)] by (simp add: warmupx_sys_inv_def)
  then have "warmupx_cfg_ok (ww_cfg w)" by (simp add: warmupx_inv_def)
  with i warmupx_progress_unit [OF i, of now2] show ?thesis
    unfolding assms(4)
    by (auto simp: warmupx_WarmerStats_def Let_def warmupx_inv_def warmupx_cfg_ok_def warmupx_progressLocked_def warmupx_sinceStartLocked_def
        split: option.splits)
qed

text \<open>
  C19: one goroutine drives a ramp. In every reachable state that is warming there is exactly one ramp goroutine with the current
  generation and an open stop channel; every other one has been told to stop, and (before \<open>2 ^ 64\<close> channels have been made) is of an older
  generation, so that a tick it may still take changes nothing. No channel is ever closed twice.
\<close>

theorem warmupx_one_ramp_goroutine:
  assumes "warmupx_steps m (warmupx_New opts, []) (w, ts)" and "warmupx_math_ok m" and "\<forall>f. Some f \<in> set opts \<longrightarrow> warmupx_opt_ok f"
  shows "\<not> ww_crashed w
    \<and> (ww_warming w \<longrightarrow> how_many (warmupx_drives w) ts = 1)
    \<and> (\<forall>pc\<in>set ts. \<forall>gen stop. warmupx_driver pc = Some (gen, stop) \<and> ww_stopCh w \<noteq> Some stop \<longrightarrow>
         stop \<in> ww_shut w \<and> (ww_made w \<le> 2 ^ 64 \<longrightarrow> (\<forall>now. warmupx_tick_locked m now gen w = (w, [], True))))"
proof -
  have i: "warmupx_sys_inv (w, ts)" by (rule warmupx_reachable_inv [OF assms])
  then have "\<not> ww_crashed w" "ww_warming w \<longrightarrow> how_many (warmupx_drives w) ts = 1" by (simp_all add: warmupx_sys_inv_def warmupx_inv_def)
  moreover have "stop \<in> ww_shut w \<and> (ww_made w \<le> 2 ^ 64 \<longrightarrow> (\<forall>now. warmupx_tick_locked m now gen w = (w, [], True)))"
    if "pc \<in> set ts" "warmupx_driver pc = Some (gen, stop)" "ww_stopCh w \<noteq> Some stop" for pc gen stop
    using i that by (fastforce simp: warmupx_sys_inv_def warmupx_tick_locked_def)
  ultimately show ?thesis by blast
qed

text \<open>
  C20: no caller of \<open>WaitForCompletion\<close> sleeps through its signal. In every reachable state a caller whose channel is still open waits on
  the current completion channel of a warmer that is neither complete nor closed; one whose channel was closed, by completion, \<open>Close\<close> or
  a restart, wakes at its next step, and then returns nil or \<open>ErrClosed\<close> if the warmer is complete or closed.
\<close>

theorem warmupx_waiters_wake:
  assumes "warmupx_steps m (warmupx_New opts, []) (w, ts)" and "warmupx_math_ok m" and "\<forall>f. Some f \<in> set opts \<longrightarrow> warmupx_opt_ok f"
    and "WBlocked k \<in> set ts" and "wh_ctx ch = None"
  shows "(k \<notin> ww_shut w \<longrightarrow> ww_completeCh w = Some k \<and> \<not> ww_complete w \<and> \<not> ww_closed w)
    \<and> (k \<in> ww_shut w \<longrightarrow> warmupx_micro m ch w (WBlocked k) = (w, WWait, []))
    \<and> (ww_closed w \<longrightarrow> warmupx_micro m ch w WWait = (w, WReturned (Some warmupx_ErrClosed), []))
    \<and> (\<not> ww_closed w \<and> ww_complete w \<longrightarrow> warmupx_micro m ch w WWait = (w, WReturned None, []))"
proof -
  have i: "warmupx_sys_inv (w, ts)" by (rule warmupx_reachable_inv [OF assms(1-3)])
  then have "k \<in> ww_shut w \<or> ww_completeCh w = Some k" using assms(4) by (auto simp: warmupx_sys_inv_def)
  with i assms(5) show ?thesis
    by (auto simp: warmupx_sys_inv_def warmupx_inv_def warmupx_wait_round_def)
qed

subsection \<open>A run\<close>

definition warmupx_demo_choice :: warmupx_choice where
  "warmupx_demo_choice = \<lparr>wh_now = 100, wh_rand = 0, wh_stop = False, wh_ctx = None, wh_failed = False, wh_rejects = False\<rparr>"

definition warmupx_demo_ramp :: warmupx_Warmer where
  "warmupx_demo_ramp = (warmupx_New warmupx_demo_opts)\<lparr>ww_start := Some 100, ww_warming := True, ww_gen := 1, ww_stopCh := Some 2,
     ww_completeCh := Some 1, ww_made := 3, ww_shut := {0}\<rparr>"

lemma warmupx_demo_locked:
  "warmupx_StartAt_locked warmupx_demo_math 100 0 (warmupx_New warmupx_demo_opts) = (warmupx_demo_ramp, [], Some (1, 2))"
  by (simp add: warmupx_demo_ramp_def warmupx_StartAt_locked_def warmupx_New_def warmupx_demo_cfg Let_def warmupx_clamp_def warmupx_rearm_def
      warmupx_stopLocked_def warmupx_close_ch_def warmupx_make_completeCh_def warmupx_make_stopCh_def warmupx_invert_def f64_sub_def
      f64_div_def f64_mul_def f64_to_i64_def f64_trunc_def)

lemma warmupx_demo_ramp_simps [simp]:
  "ww_closed warmupx_demo_ramp = False" "ww_complete warmupx_demo_ramp = False" "ww_warming warmupx_demo_ramp = True"
  "ww_completeCh warmupx_demo_ramp = Some 1" "ww_stopCh warmupx_demo_ramp = Some 2" "ww_shut warmupx_demo_ramp = {0}"
  "ww_gen warmupx_demo_ramp = 1" "ww_start warmupx_demo_ramp = Some 100" "ww_cfg warmupx_demo_ramp = warmupx_newConfig warmupx_demo_opts"
  by (simp_all add: warmupx_demo_ramp_def warmupx_New_def Let_def)

lemma warmupx_run_at:
  "warmupx_steps m x (w, ts) \<Longrightarrow> i < length ts \<Longrightarrow> warmupx_micro m ch w (ts ! i) = (w', pc, new) \<Longrightarrow> ts' = ts[i := pc] @ new
     \<Longrightarrow> warmupx_steps m x (w', ts')"
  using warmupx_steps.step warmupx_step.run by blast

lemma warmupx_call_at: "warmupx_steps m x (w, ts) \<Longrightarrow> warmupx_entry pc \<Longrightarrow> warmupx_steps m x (w, ts @ [pc])"
  using warmupx_steps.step warmupx_step.call by blast

lemma warmupx_demo_run:
  "warmupx_steps warmupx_demo_math (warmupx_New warmupx_demo_opts, []) (warmupx_demo_ramp, [WHooks [] None, WLoop 1 2, WBlocked 1])"
proof -
  have "warmupx_steps warmupx_demo_math (warmupx_New warmupx_demo_opts, []) (warmupx_New warmupx_demo_opts, [WStartAt 0])"
    using warmupx_call_at [OF warmupx_steps.refl, of "WStartAt 0" warmupx_demo_math "warmupx_New warmupx_demo_opts" "[]"] by simp
  then have "warmupx_steps warmupx_demo_math (warmupx_New warmupx_demo_opts, []) (warmupx_demo_ramp, [WHooks [] None, WLoop 1 2])"
    by (rule warmupx_run_at [where i = 0 and ch = warmupx_demo_choice])
      (simp_all add: warmupx_demo_choice_def warmupx_demo_locked)
  then have "warmupx_steps warmupx_demo_math (warmupx_New warmupx_demo_opts, []) (warmupx_demo_ramp, [WHooks [] None, WLoop 1 2] @ [WWait])"
    by (rule warmupx_call_at) simp
  then show ?thesis
    by (rule warmupx_run_at [where i = 2 and ch = warmupx_demo_choice]) (simp_all add: warmupx_wait_round_def)
qed

lemma warmupx_demo_opts_ok: "\<forall>f. Some f \<in> set warmupx_demo_opts \<longrightarrow> warmupx_opt_ok f"
  by (auto simp: warmupx_demo_opts_def warmupx_opt_ok_def intro: f64.rnd_0)

lemma warmupx_numbers_in_range_witness:
  "let s = warmupx_WarmerStats 103 104 warmupx_demo_ramp in wt_Elapsed s = 3 \<and> wt_Elapsed s + wt_Remaining s = 8 \<and> wt_Progress s \<le> 1"
  using warmupx_numbers_in_range [OF warmupx_demo_run warmupx_demo_math_ok warmupx_demo_opts_ok HOL.refl, of 103 104]
  by (simp add: Let_def warmupx_WarmerStats_def warmupx_demo_cfg warmupx_sinceStartLocked_def)

lemma warmupx_one_ramp_goroutine_witness:
  "ww_warming warmupx_demo_ramp \<and> how_many (warmupx_drives warmupx_demo_ramp) [WHooks [] None, WLoop 1 2, WBlocked 1] = 1
    \<and> \<not> ww_crashed warmupx_demo_ramp"
  using warmupx_one_ramp_goroutine [OF warmupx_demo_run warmupx_demo_math_ok warmupx_demo_opts_ok] by simp

lemma warmupx_waiters_wake_witness:
  "ww_completeCh warmupx_demo_ramp = Some 1 \<and> 1 \<notin> ww_shut warmupx_demo_ramp \<and> \<not> ww_complete warmupx_demo_ramp"
  using warmupx_waiters_wake [OF warmupx_demo_run warmupx_demo_math_ok warmupx_demo_opts_ok, of 1 warmupx_demo_choice]
  by (simp add: warmupx_demo_choice_def)

subsection \<open>Admission\<close>

text \<open>A number below the capacity admits.\<close>

lemma warmupx_MaxRequests_bounds:
  assumes "warmupx_inv w" and "0 < ww_capacity w" and "0 < n" and "n < 2 ^ 53"
  shows "1 \<le> warmupx_MaxRequests oob n w \<and> warmupx_MaxRequests oob n w \<le> n"
proof -
  have c: "ww_capacity w \<le> 1" using assms(1) by (simp add: warmupx_inv_def warmupx_cfg_ok_def)
  have n: "f64_of_int n = of_int n" using assms(3,4) by (simp add: f64_of_int_exact)
  define q where "q = f64_round (of_int n * ww_capacity w)"
  have "0 < of_int n * ww_capacity w" using assms(2,3) by simp
  then have q: "0 < q" unfolding q_def by (rule f64_round_pos)
  have "of_int n * ww_capacity w \<le> of_int n" using c assms(3) by (simp add: mult_left_le)
  then have "q \<le> of_int n" unfolding q_def using f64.rnd_int [of n] assms(3,4) by (intro f64.rnd_upper) simp_all
  moreover obtain z where z: "\<lceil>q\<rceil> = z" by blast
  ultimately have "1 \<le> z" "z \<le> n" using q by (simp_all add: z [symmetric] ceiling_le_iff)
  with assms(2-4) show ?thesis
    by (simp add: warmupx_MaxRequests_def warmupx_Warmer_Capacity_def Let_def f64_mul_def n q_def [symmetric] f64_Ceil_def f64_to_i64_def z)
qed

text \<open>
  What a call of \<open>Execute\<close> does. A nil function, a done context and a closed warmer are refused without a trace; a random number at or
  above the capacity is counted as rejected and the callback does not run; otherwise the callback sees the capacity and the progress of the
  decision, and the result is its error (a panic as \<open>PanicError\<close>), whether or not it called \<open>Reject\<close>, with nothing counted; or \<open>ErrRejected\<close>,
  counted as rejected; or its value, counted as allowed. \<open>TryExecute\<close> differs in the refusal by the random number, which has no error.
\<close>

theorem warmupx_Execute_outcome:
  assumes "\<not> ww_closed w" and "wd = \<lparr>wx_capacity = ww_capacity w, wx_progress = warmupx_progressLocked now w,
      wx_strategy = wc_strategy (ww_cfg w), wx_rejected = False\<rparr>"
    and "f wd w = (wd1, w1, out)"
    and "rej = Some (warmupx_errRejected fmt (ww_capacity w) (warmupx_progressLocked now w))"
  shows "warmupx_Execute fmt now r None zero (Some f) w =
      (if ww_capacity w \<le> r then (warmupx_add_rejected w, zero, rej)
       else case out of
              Panics p \<Rightarrow> (w1, zero, Some (PanicError (warmupx_opOrDefault (ww_cfg w)) p))
            | Returns v (Some e) \<Rightarrow> (w1, zero, Some e)
            | Returns v None \<Rightarrow> if wx_rejected wd1 then (warmupx_add_rejected w1, zero, rej) else (warmupx_add_allowed w1, v, None))
    \<and> warmupx_TryExecute fmt now r None zero (Some f) w =
      (if ww_capacity w \<le> r then (warmupx_add_rejected w, False, zero, None)
       else case out of
              Panics p \<Rightarrow> (w1, True, zero, Some (PanicError (warmupx_opOrDefaultTry (ww_cfg w)) p))
            | Returns v (Some e) \<Rightarrow> (w1, True, zero, Some e)
            | Returns v None \<Rightarrow> if wx_rejected wd1 then (warmupx_add_rejected w1, True, zero, rej) else (warmupx_add_allowed w1, True, v, None))
    \<and> (\<forall>e0 g w2. warmupx_Execute fmt now r e0 zero None w2 = (w2, zero, Some warmupx_ErrNilFunc)
        \<and> (e0 \<noteq> None \<longrightarrow> (\<exists>e. warmupx_Execute fmt now r e0 zero (Some g) w2 = (w2, zero, Some e) \<and> errors_Is e warmupx_ErrCancelled))
        \<and> (e0 = None \<and> ww_closed w2 \<longrightarrow> warmupx_Execute fmt now r e0 zero (Some g) w2 = (w2, zero, Some warmupx_ErrClosed)))"
  using assms
  by (auto simp: warmupx_Execute_def warmupx_TryExecute_def warmupx_tryAdmit_def warmupx_executeRun_def Let_def warmupx_errCancelled_def
      split: outcome.splits option.splits)

text \<open>An admitted call that fails after it has called \<open>Reject\<close>.\<close>

lemma warmupx_Execute_outcome_witness:
  "warmupx_Execute (\<lambda>_. []) 100 (-1) None (0::nat) (Some (\<lambda>e w. (warmupx_Reject e, w, Returns 7 (Some (UserError 1))))) warmupx_demo_ramp
     = (warmupx_demo_ramp, 0, Some (UserError 1))"
proof -
  have c: "\<not> ww_capacity warmupx_demo_ramp \<le> - 1" by (simp add: warmupx_demo_ramp_def warmupx_New_def Let_def warmupx_demo_cfg)
  show ?thesis
    using warmupx_Execute_outcome [of warmupx_demo_ramp _ 100 "\<lambda>e w. (warmupx_Reject e, w, Returns 7 (Some (UserError 1)))" _ _ _ _ "\<lambda>_. []" "-1" "0::nat",
        OF _ HOL.refl HOL.refl HOL.refl] c by simp
qed

end
