(* ===== verification/Poolx.thy ===== *)
theory Poolx
  imports Panix
begin

text \<open>
  Package \<open>poolx\<close>: the worker pool, the object pool and the batch processor. This theory has the errors, the options, the state and the
  operations of the three, as functions of what they read; \<open>Poolx_Worker\<close> and \<open>Poolx_Batch\<close> interleave the goroutines. A slice of items
  is a list. A channel of tasks is the list of its buffered tasks, and a task is a number: what it does is decided when it runs.
\<close>

subsection \<open>Errors\<close>

definition poolx_ErrClosed :: goerr where "poolx_ErrClosed = Sentinel ''poolx: closed''"
definition poolx_ErrQueueFull :: goerr where "poolx_ErrQueueFull = Sentinel ''poolx: worker pool queue is full''"
definition poolx_ErrCancelled :: goerr where "poolx_ErrCancelled = Sentinel ''poolx: context cancelled''"
definition poolx_ErrNilFunc :: goerr where "poolx_ErrNilFunc = Sentinel ''poolx: nil function''"
definition poolx_ErrNilFactory :: goerr where "poolx_ErrNilFactory = Sentinel ''poolx: nil factory''"
definition poolx_ErrNilFlush :: goerr where "poolx_ErrNilFlush = Sentinel ''poolx: nil flush function''"
definition poolx_ErrFlushFailed :: goerr where "poolx_ErrFlushFailed = Sentinel ''poolx: batch flush failed''"

definition poolx_errClosed :: "string \<Rightarrow> goerr" where
  "poolx_errClosed component = Errorf (''%w: '' @ component) [poolx_ErrClosed]"

definition poolx_errCancelled :: "goerr \<Rightarrow> goerr" where
  "poolx_errCancelled cause = Errorf ''%w: %w'' [poolx_ErrCancelled, cause]"

definition poolx_errFlushFailed :: "goerr \<Rightarrow> goerr" where
  "poolx_errFlushFailed cause = Errorf ''%w: %w'' [poolx_ErrFlushFailed, cause]"

definition poolx_isPanic :: "goerr \<Rightarrow> bool" where "poolx_isPanic err = errors_As_PanicError err"

subsection \<open>Options\<close>

definition poolx_DefaultWorkers :: int where "poolx_DefaultWorkers = 4"
definition poolx_DefaultQueueSize :: int where "poolx_DefaultQueueSize = 64"
definition poolx_DefaultBatchSize :: int where "poolx_DefaultBatchSize = 100"
definition poolx_DefaultFlushInterval :: int where "poolx_DefaultFlushInterval = 10 ^ 9"
definition poolx_opWorker :: string where "poolx_opWorker = ''poolx.WorkerPool''"
definition poolx_opBatchFlush :: string where "poolx_opBatchFlush = ''poolx.Batch.Flush''"
definition poolx_componentWorkerPool :: string where "poolx_componentWorkerPool = ''worker pool''"
definition poolx_componentBatch :: string where "poolx_componentBatch = ''batch processor''"

record poolx_workerConfig =
  pw_workers :: int
  pw_queueSize :: int
  pw_op :: string

record poolx_batchConfig =
  pb_batchSize :: int
  pb_flushInterval :: int
  pb_onError :: "(goerr \<Rightarrow> unit outcome) option"
  pb_op :: string

text \<open>These constructors call every option, so a nil option panics: options are plain functions here.\<close>

definition poolx_newWorkerConfig :: "(poolx_workerConfig \<Rightarrow> poolx_workerConfig) list \<Rightarrow> poolx_workerConfig" where
  "poolx_newWorkerConfig opts =
     fold (\<lambda>opt c. opt c) opts \<lparr>pw_workers = poolx_DefaultWorkers, pw_queueSize = poolx_DefaultQueueSize, pw_op = []\<rparr>"

definition poolx_worker_opOrDefault :: "poolx_workerConfig \<Rightarrow> string" where
  "poolx_worker_opOrDefault c = (if pw_op c \<noteq> [] then pw_op c else poolx_opWorker)"

definition poolx_WithWorkers :: "int \<Rightarrow> poolx_workerConfig \<Rightarrow> poolx_workerConfig" where
  "poolx_WithWorkers n c = (if 0 < n then c\<lparr>pw_workers := n\<rparr> else c)"

definition poolx_WithQueueSize :: "int \<Rightarrow> poolx_workerConfig \<Rightarrow> poolx_workerConfig" where
  "poolx_WithQueueSize n c = (if 0 < n then c\<lparr>pw_queueSize := n\<rparr> else c)"

definition poolx_WithWorkerOp :: "string \<Rightarrow> poolx_workerConfig \<Rightarrow> poolx_workerConfig" where
  "poolx_WithWorkerOp op c = (if op \<noteq> [] then c\<lparr>pw_op := op\<rparr> else c)"

definition poolx_newBatchConfig :: "(poolx_batchConfig \<Rightarrow> poolx_batchConfig) list \<Rightarrow> poolx_batchConfig" where
  "poolx_newBatchConfig opts =
     fold (\<lambda>opt c. opt c) opts
       \<lparr>pb_batchSize = poolx_DefaultBatchSize, pb_flushInterval = poolx_DefaultFlushInterval, pb_onError = None, pb_op = []\<rparr>"

definition poolx_batch_opOrDefault :: "poolx_batchConfig \<Rightarrow> string" where
  "poolx_batch_opOrDefault c = (if pb_op c \<noteq> [] then pb_op c else poolx_opBatchFlush)"

definition poolx_WithBatchSize :: "int \<Rightarrow> poolx_batchConfig \<Rightarrow> poolx_batchConfig" where
  "poolx_WithBatchSize n c = (if 0 < n then c\<lparr>pb_batchSize := n\<rparr> else c)"

definition poolx_WithFlushInterval :: "int \<Rightarrow> poolx_batchConfig \<Rightarrow> poolx_batchConfig" where
  "poolx_WithFlushInterval d c = (if 0 < d then c\<lparr>pb_flushInterval := d\<rparr> else c)"

definition poolx_WithErrorHandler :: "(goerr \<Rightarrow> unit outcome) option \<Rightarrow> poolx_batchConfig \<Rightarrow> poolx_batchConfig" where
  "poolx_WithErrorHandler fn c = c\<lparr>pb_onError := fn\<rparr>"

definition poolx_WithBatchOp :: "string \<Rightarrow> poolx_batchConfig \<Rightarrow> poolx_batchConfig" where
  "poolx_WithBatchOp op c = (if op \<noteq> [] then c\<lparr>pb_op := op\<rparr> else c)"

subsection \<open>Worker pool\<close>

text \<open>
  \<open>po_wg\<close> is the counter of the wait group. \<open>po_once\<close> is \<open>closeOnce\<close>: not begun, running, over. The ghosts: \<open>po_made\<close> counts the tasks
  accepted, which number them; \<open>po_started\<close> those taken from the channel; \<open>po_early\<close> is the number of tasks accepted when \<open>done\<close> was
  closed; \<open>po_ended\<close> has the result of each task that has run, in the order they ended. \<open>po_result\<close> is the result channel of a task.
\<close>

datatype poolx_once = OnceNew | OnceRunning | OnceOver

record poolx_WorkerPool =
  po_cfg :: poolx_workerConfig
  po_tasks :: "nat list"
  po_done :: bool
  po_wg :: int
  po_once :: poolx_once
  po_closed :: bool
  po_submitted :: u64
  po_completed :: u64
  po_failed :: u64
  po_panics :: u64
  po_result :: "nat \<Rightarrow> goerror option"
  po_made :: nat
  po_started :: nat
  po_early :: nat
  po_ended :: "(nat \<times> goerror) list"

definition poolx_NewWorkerPool :: "(poolx_workerConfig \<Rightarrow> poolx_workerConfig) list \<Rightarrow> poolx_WorkerPool" where
  "poolx_NewWorkerPool opts =
     (let cfg = poolx_newWorkerConfig opts
      in \<lparr>po_cfg = cfg, po_tasks = [], po_done = False, po_wg = pw_workers cfg, po_once = OnceNew, po_closed = False,
          po_submitted = 0, po_completed = 0, po_failed = 0, po_panics = 0, po_result = (\<lambda>_. None), po_made = 0, po_started = 0,
          po_early = 0, po_ended = []\<rparr>)"

definition poolx_rejectIfClosed :: "poolx_WorkerPool \<Rightarrow> goerror" where
  "poolx_rejectIfClosed p = (if po_closed p then Some (poolx_errClosed poolx_componentWorkerPool) else None)"

text \<open>\<open>isnil\<close>: is the function nil; \<open>e0\<close>: \<open>ctx.Err()\<close>.\<close>

definition poolx_validateSubmit :: "bool \<Rightarrow> goerror \<Rightarrow> poolx_WorkerPool \<Rightarrow> goerror" where
  "poolx_validateSubmit isnil e0 p =
     (if isnil then Some poolx_ErrNilFunc
      else case e0 of Some e \<Rightarrow> Some (poolx_errCancelled e) | None \<Rightarrow> poolx_rejectIfClosed p)"

text \<open>\<open>runTask\<close> of a task that returns or panics as \<open>out\<close> says.\<close>

definition poolx_runTask :: "unit outcome \<Rightarrow> poolx_WorkerPool \<Rightarrow> poolx_WorkerPool \<times> goerror" where
  "poolx_runTask out p =
     (let err = panix_SafeVoid (poolx_worker_opOrDefault (po_cfg p)) (Some out)
      in (case err of
            None \<Rightarrow> p\<lparr>po_completed := po_completed p + 1\<rparr>
          | Some e \<Rightarrow> if poolx_isPanic e then p\<lparr>po_panics := po_panics p + 1, po_failed := po_failed p + 1\<rparr>
                      else p\<lparr>po_failed := po_failed p + 1\<rparr>, err))"

text \<open>A send to and a receive from the channel of tasks.\<close>

definition poolx_enqueue :: "poolx_WorkerPool \<Rightarrow> (poolx_WorkerPool \<times> nat) option" where
  "poolx_enqueue p =
     (if int (length (po_tasks p)) < pw_queueSize (po_cfg p)
      then Some (p\<lparr>po_tasks := po_tasks p @ [po_made p], po_made := po_made p + 1\<rparr>, po_made p) else None)"

definition poolx_dequeue :: "poolx_WorkerPool \<Rightarrow> (poolx_WorkerPool \<times> nat) option" where
  "poolx_dequeue p =
     (case po_tasks p of [] \<Rightarrow> None | t # ts \<Rightarrow> Some (p\<lparr>po_tasks := ts, po_started := po_started p + 1\<rparr>, t))"

text \<open>The body of the queued function: run the task, deliver its result.\<close>

definition poolx_finish :: "nat \<Rightarrow> unit outcome \<Rightarrow> poolx_WorkerPool \<Rightarrow> poolx_WorkerPool" where
  "poolx_finish t out p =
     (case poolx_runTask out p of
        (p1, err) \<Rightarrow> p1\<lparr>po_result := (po_result p1)(t := Some err), po_ended := po_ended p1 @ [(t, err)]\<rparr>)"

definition poolx_add_submitted :: "poolx_WorkerPool \<Rightarrow> poolx_WorkerPool" where
  "poolx_add_submitted p = p\<lparr>po_submitted := po_submitted p + 1\<rparr>"

record poolx_WorkerStats =
  ps_Workers :: int
  ps_QueueSize :: int
  ps_Pending :: int
  ps_Submitted :: u64
  ps_Completed :: u64
  ps_Failed :: u64
  ps_Panics :: u64

definition poolx_WorkerPoolStats :: "poolx_WorkerPool \<Rightarrow> poolx_WorkerStats" where
  "poolx_WorkerPoolStats p =
     \<lparr>ps_Workers = pw_workers (po_cfg p), ps_QueueSize = pw_queueSize (po_cfg p), ps_Pending = int (length (po_tasks p)),
      ps_Submitted = po_submitted p, ps_Completed = po_completed p, ps_Failed = po_failed p, ps_Panics = po_panics p\<rparr>"

definition poolx_worker_ResetStats :: "poolx_WorkerPool \<Rightarrow> poolx_WorkerPool" where
  "poolx_worker_ResetStats p = p\<lparr>po_submitted := 0, po_completed := 0, po_failed := 0, po_panics := 0\<rparr>"

definition poolx_worker_IsClosed :: "poolx_WorkerPool \<Rightarrow> bool" where "poolx_worker_IsClosed p = po_closed p"

subsection \<open>Batch processor\<close>

text \<open>
  Ghosts: the items ever added, the batches flushed in the order their flushes returned, and the errors the handler was called with.
\<close>

record 'a poolx_Batch =
  pa_cfg :: poolx_batchConfig
  pa_buf :: "'a list"
  pa_once :: poolx_once
  pa_closed :: bool
  pa_done :: bool
  pa_flushed :: u64
  pa_items :: u64
  pa_errors :: u64
  pa_added :: "'a list"
  pa_out :: "'a list list"
  pa_handled :: "goerr list"

definition poolx_NewBatch :: "bool \<Rightarrow> (poolx_batchConfig \<Rightarrow> poolx_batchConfig) list \<Rightarrow> goerr + 'a poolx_Batch" where
  "poolx_NewBatch isnil opts =
     (if isnil then Inl poolx_ErrNilFlush
      else Inr \<lparr>pa_cfg = poolx_newBatchConfig opts, pa_buf = [], pa_once = OnceNew, pa_closed = False, pa_done = False, pa_flushed = 0,
                pa_items = 0, pa_errors = 0, pa_added = [], pa_out = [], pa_handled = []\<rparr>)"

text \<open>The error of the context automatic flushes get.\<close>

definition poolx_lifecycle_Err :: "'a poolx_Batch \<Rightarrow> goerror" where
  "poolx_lifecycle_Err b = (if pa_done b then Some CtxCanceled else None)"

text \<open>The locked section of \<open>Add\<close>: an error, or whether to flush.\<close>

definition poolx_append :: "'a \<Rightarrow> 'a poolx_Batch \<Rightarrow> 'a poolx_Batch \<times> (goerr + bool)" where
  "poolx_append item b =
     (if pa_closed b then (b, Inl (poolx_errClosed poolx_componentBatch))
      else let b1 = b\<lparr>pa_buf := pa_buf b @ [item], pa_added := pa_added b @ [item]\<rparr>
           in (b1, Inr (pb_batchSize (pa_cfg b1) \<le> int (length (pa_buf b1)))))"

definition poolx_takeBuffer :: "'a poolx_Batch \<Rightarrow> 'a poolx_Batch \<times> 'a list option" where
  "poolx_takeBuffer b = (if pa_buf b = [] then (b, None) else (b\<lparr>pa_buf := []\<rparr>, Some (pa_buf b)))"

definition poolx_requeue :: "'a list \<Rightarrow> 'a poolx_Batch \<Rightarrow> 'a poolx_Batch" where
  "poolx_requeue batch b = b\<lparr>pa_buf := batch @ pa_buf b\<rparr>"

text \<open>\<open>flushBatch\<close> in two parts: the counter of errors before the lock of \<open>requeue\<close>, and the rest.\<close>

definition poolx_flushBatch :: "'a list \<Rightarrow> unit outcome \<Rightarrow> 'a poolx_Batch \<Rightarrow> 'a poolx_Batch \<times> goerror" where
  "poolx_flushBatch batch out b =
     (case panix_SafeVoid (poolx_batch_opOrDefault (pa_cfg b)) (Some out) of
        Some e \<Rightarrow> (let b1 = b\<lparr>pa_errors := pa_errors b + 1\<rparr> in (poolx_requeue batch b1, Some (poolx_errFlushFailed e)))
      | None \<Rightarrow> (b\<lparr>pa_items := pa_items b + of_nat (length batch), pa_flushed := pa_flushed b + 1, pa_out := pa_out b @ [batch]\<rparr>, None))"

text \<open>\<open>Flush\<close> and \<open>Add\<close> without interference, with the outcome the flush function has if it is called.\<close>

definition poolx_Flush :: "unit outcome \<Rightarrow> 'a poolx_Batch \<Rightarrow> 'a poolx_Batch \<times> goerror" where
  "poolx_Flush out b =
     (if pa_closed b then (b, Some (poolx_errClosed poolx_componentBatch))
      else case poolx_takeBuffer b of
             (b1, None) \<Rightarrow> (b1, None)
           | (b1, Some batch) \<Rightarrow> poolx_flushBatch batch out b1)"

definition poolx_Add :: "unit outcome \<Rightarrow> 'a \<Rightarrow> 'a poolx_Batch \<Rightarrow> 'a poolx_Batch \<times> goerror" where
  "poolx_Add out item b =
     (case poolx_append item b of
        (b1, Inl e) \<Rightarrow> (b1, Some e)
      | (b1, Inr full) \<Rightarrow> if full then poolx_Flush out b1 else (b1, None))"

text \<open>The locked section of \<open>Close\<close>, and \<open>Close\<close> without interference.\<close>

definition poolx_close_locked :: "'a poolx_Batch \<Rightarrow> 'a poolx_Batch \<times> 'a list" where
  "poolx_close_locked b = (b\<lparr>pa_closed := True, pa_buf := []\<rparr>, pa_buf b)"

definition poolx_CloseErr :: "unit outcome \<Rightarrow> 'a poolx_Batch \<Rightarrow> 'a poolx_Batch \<times> goerror" where
  "poolx_CloseErr out b =
     (if pa_once b \<noteq> OnceNew then (b, None)
      else case poolx_close_locked b of
             (b1, batch) \<Rightarrow>
               let b2 = b1\<lparr>pa_done := True, pa_once := OnceOver\<rparr>
               in if batch = [] then (b2, None) else poolx_flushBatch batch out b2)"

definition poolx_batch_Close :: "unit outcome \<Rightarrow> 'a poolx_Batch \<Rightarrow> 'a poolx_Batch" where
  "poolx_batch_Close out b = fst (poolx_CloseErr out b)"

definition poolx_batch_IsClosed :: "'a poolx_Batch \<Rightarrow> bool" where "poolx_batch_IsClosed b = pa_closed b"

record poolx_BatchStats =
  pt_BatchSize :: int
  pt_FlushInterval :: int
  pt_Buffered :: int
  pt_Flushed :: u64
  pt_Items :: u64
  pt_Errors :: u64

definition poolx_BatchStatsOf :: "'a poolx_Batch \<Rightarrow> poolx_BatchStats" where
  "poolx_BatchStatsOf b =
     \<lparr>pt_BatchSize = pb_batchSize (pa_cfg b), pt_FlushInterval = pb_flushInterval (pa_cfg b), pt_Buffered = int (length (pa_buf b)),
      pt_Flushed = pa_flushed b, pt_Items = pa_items b, pt_Errors = pa_errors b\<rparr>"

definition poolx_batch_ResetStats :: "'a poolx_Batch \<Rightarrow> 'a poolx_Batch" where
  "poolx_batch_ResetStats b = b\<lparr>pa_flushed := 0, pa_items := 0, pa_errors := 0\<rparr>"

subsection \<open>Object pool\<close>

text \<open>
  The \<open>sync.Pool\<close> underneath is the list of objects it holds: it may drop any of them at any time, and \<open>Get\<close> takes one of them, which is
  the argument, or calls \<open>New\<close> when it holds none it wants to give.
\<close>

record 'a poolx_ObjectPool =
  pj_pool :: "'a list"
  pj_reset :: "('a \<Rightarrow> 'a) option"
  pj_gets :: u64
  pj_puts :: u64
  pj_creates :: u64

definition poolx_newObjectConfig :: "(('a \<Rightarrow> 'a) option \<Rightarrow> ('a \<Rightarrow> 'a) option) list \<Rightarrow> ('a \<Rightarrow> 'a) option" where
  "poolx_newObjectConfig opts = fold (\<lambda>opt c. opt c) opts None"

definition poolx_WithReset :: "('a \<Rightarrow> 'a) option \<Rightarrow> ('a \<Rightarrow> 'a) option \<Rightarrow> ('a \<Rightarrow> 'a) option" where
  "poolx_WithReset fn c = fn"

definition poolx_NewObjectPool :: "bool \<Rightarrow> (('a \<Rightarrow> 'a) option \<Rightarrow> ('a \<Rightarrow> 'a) option) list \<Rightarrow> goerr + 'a poolx_ObjectPool" where
  "poolx_NewObjectPool isnil opts =
     (if isnil then Inl poolx_ErrNilFactory
      else Inr \<lparr>pj_pool = [], pj_reset = poolx_newObjectConfig opts, pj_gets = 0, pj_puts = 0, pj_creates = 0\<rparr>)"

definition poolx_Get :: "'a \<Rightarrow> nat option \<Rightarrow> 'a poolx_ObjectPool \<Rightarrow> 'a poolx_ObjectPool \<times> 'a" where
  "poolx_Get new pick op =
     (let op1 = op\<lparr>pj_gets := pj_gets op + 1\<rparr>
      in case pick of
           Some i \<Rightarrow>
             if i < length (pj_pool op1)
             then (op1\<lparr>pj_pool := take i (pj_pool op1) @ drop (i + 1) (pj_pool op1)\<rparr>, pj_pool op1 ! i)
             else (op1\<lparr>pj_creates := pj_creates op1 + 1\<rparr>, new)
         | None \<Rightarrow> (op1\<lparr>pj_creates := pj_creates op1 + 1\<rparr>, new))"

definition poolx_Put :: "'a \<Rightarrow> 'a poolx_ObjectPool \<Rightarrow> 'a poolx_ObjectPool" where
  "poolx_Put v op =
     (let op1 = op\<lparr>pj_puts := pj_puts op + 1\<rparr>;
          v1 = (case pj_reset op1 of None \<Rightarrow> v | Some f \<Rightarrow> f v)
      in op1\<lparr>pj_pool := pj_pool op1 @ [v1]\<rparr>)"

record poolx_ObjectStats =
  pg_Gets :: u64
  pg_Puts :: u64
  pg_Creates :: u64

definition poolx_ObjectPoolStats :: "'a poolx_ObjectPool \<Rightarrow> poolx_ObjectStats" where
  "poolx_ObjectPoolStats op = \<lparr>pg_Gets = pj_gets op, pg_Puts = pj_puts op, pg_Creates = pj_creates op\<rparr>"

definition poolx_object_ResetStats :: "'a poolx_ObjectPool \<Rightarrow> 'a poolx_ObjectPool" where
  "poolx_object_ResetStats op = op\<lparr>pj_gets := 0, pj_puts := 0, pj_creates := 0\<rparr>"

end
