(* ===== verification/Poolx_Worker.thy ===== *)
theory Poolx_Worker
  imports Poolx
begin

text \<open>
  Package \<open>poolx\<close>, part two: any number of submitters, the workers and the callers of \<open>Close\<close>, one atomic access, channel operation or
  task end at a time. A goroutine is its program counter; what a step reads from outside is its \<open>choice\<close>.
\<close>

subsection \<open>Program counters\<close>

datatype poolx_mode = MSubmit | MTry | MWait

datatype poolx_pc =
    SValidate poolx_mode bool
  | SSend poolx_mode
  | SCount poolx_mode nat
  | SAwait nat
  | SReturned goerror
  | KSelect
  | KDrain
  | KRun nat bool
  | KExit
  | KGone
  | COnce
  | CFlag
  | CDone
  | CWait
  | CDrain
  | CRun nat
  | COver
  | CReturned
  | SReset

datatype poolx_sel = PSend | PDone | PCtx goerr

record poolx_choice =
  pc_ctx :: goerror
  pc_sel :: poolx_sel
  pc_out :: "unit outcome"

text \<open>
  \<open>SValidate\<close> carries whether the function is nil. A worker is at its first \<open>select\<close> (\<open>KSelect\<close>) or at the one of its drain loop
  (\<open>KDrain\<close>); \<open>KExit\<close> is before the deferred \<open>wg.Done\<close>. A step that leaves the program counter where it is means that the goroutine is
  blocked for that choice.
\<close>

fun poolx_micro :: "poolx_choice \<Rightarrow> poolx_WorkerPool \<Rightarrow> poolx_pc \<Rightarrow> poolx_WorkerPool \<times> poolx_pc" where
  "poolx_micro ch p (SValidate mode isnil) =
     (p, case poolx_validateSubmit isnil (pc_ctx ch) p of Some e \<Rightarrow> SReturned (Some e) | None \<Rightarrow> SSend mode)"
| "poolx_micro ch p (SSend mode) =
     (case pc_sel ch of
        PSend \<Rightarrow>
          (case poolx_enqueue p of
             Some (p1, t) \<Rightarrow> (p1, SCount mode t)
           | None \<Rightarrow> if mode = MTry \<and> \<not> po_done p then (p, SReturned (Some poolx_ErrQueueFull)) else (p, SSend mode))
      | PDone \<Rightarrow> if po_done p then (p, SReturned (Some (poolx_errClosed poolx_componentWorkerPool))) else (p, SSend mode)
      | PCtx e \<Rightarrow> if mode = MTry then (p, SSend mode) else (p, SReturned (Some (poolx_errCancelled e))))"
| "poolx_micro ch p (SCount mode t) = (poolx_add_submitted p, if mode = MWait then SAwait t else SReturned None)"
| "poolx_micro ch p (SAwait t) =
     (case pc_sel ch of
        PCtx e \<Rightarrow> (p, SReturned (Some (poolx_errCancelled e)))
      | sel \<Rightarrow> (case po_result p t of Some err \<Rightarrow> (p, SReturned err) | None \<Rightarrow> (p, SAwait t)))"
| "poolx_micro ch p KSelect =
     (if pc_sel ch = PDone then (p, if po_done p then KDrain else KSelect)
      else case poolx_dequeue p of Some (p1, t) \<Rightarrow> (p1, KRun t False) | None \<Rightarrow> (p, KSelect))"
| "poolx_micro ch p KDrain = (case poolx_dequeue p of Some (p1, t) \<Rightarrow> (p1, KRun t True) | None \<Rightarrow> (p, KExit))"
| "poolx_micro ch p (KRun t drain) = (poolx_finish t (pc_out ch) p, if drain then KDrain else KSelect)"
| "poolx_micro ch p KExit = (p\<lparr>po_wg := po_wg p - 1\<rparr>, KGone)"
| "poolx_micro ch p COnce =
     (case po_once p of
        OnceNew \<Rightarrow> (p\<lparr>po_once := OnceRunning\<rparr>, CFlag)
      | OnceRunning \<Rightarrow> (p, COnce)
      | OnceOver \<Rightarrow> (p, CReturned))"
| "poolx_micro ch p CFlag = (p\<lparr>po_closed := True\<rparr>, CDone)"
| "poolx_micro ch p CDone = (p\<lparr>po_done := True, po_early := po_made p\<rparr>, CWait)"
| "poolx_micro ch p CWait = (p, if po_wg p = 0 then CDrain else CWait)"
| "poolx_micro ch p CDrain = (case poolx_dequeue p of Some (p1, t) \<Rightarrow> (p1, CRun t) | None \<Rightarrow> (p, COver))"
| "poolx_micro ch p (CRun t) = (poolx_finish t (pc_out ch) p, CDrain)"
| "poolx_micro ch p COver = (p\<lparr>po_once := OnceOver\<rparr>, CReturned)"
| "poolx_micro ch p SReset = (poolx_worker_ResetStats p, SReturned None)"
| "poolx_micro ch p (SReturned e) = (p, SReturned e)"
| "poolx_micro ch p KGone = (p, KGone)"
| "poolx_micro ch p CReturned = (p, CReturned)"

subsection \<open>Goroutines\<close>

type_synonym poolx_sys = "poolx_WorkerPool \<times> poolx_pc list"

text \<open>\<open>NewWorkerPool\<close> starts the workers.\<close>

definition poolx_start :: "(poolx_workerConfig \<Rightarrow> poolx_workerConfig) list \<Rightarrow> poolx_sys" where
  "poolx_start opts = (let p = poolx_NewWorkerPool opts in (p, replicate (nat (pw_workers (po_cfg p))) KSelect))"

fun poolx_entry :: "poolx_pc \<Rightarrow> bool" where
  "poolx_entry (SValidate mode isnil) = True"
| "poolx_entry COnce = True"
| "poolx_entry pc = False"

text \<open>\<open>resets\<close> says whether the run may contain a \<open>ResetStats\<close>.\<close>

inductive poolx_step :: "bool \<Rightarrow> poolx_sys \<Rightarrow> poolx_sys \<Rightarrow> bool" for resets where
  run: "i < length ts \<Longrightarrow> poolx_micro ch p (ts ! i) = (p', pc) \<Longrightarrow> poolx_step resets (p, ts) (p', ts[i := pc])"
| call: "poolx_entry pc \<or> resets \<and> pc = SReset \<Longrightarrow> poolx_step resets (p, ts) (p, ts @ [pc])"

inductive poolx_steps :: "bool \<Rightarrow> poolx_sys \<Rightarrow> poolx_sys \<Rightarrow> bool" for resets where
  refl: "poolx_steps resets x x"
| step: "poolx_steps resets x y \<Longrightarrow> poolx_step resets y z \<Longrightarrow> poolx_steps resets x z"

subsection \<open>Roles\<close>

fun poolx_running :: "poolx_pc \<Rightarrow> nat option" where
  "poolx_running (KRun t drain) = Some t"
| "poolx_running (CRun t) = Some t"
| "poolx_running pc = None"

fun poolx_worker :: "poolx_pc \<Rightarrow> bool" where
  "poolx_worker KSelect = True"
| "poolx_worker KDrain = True"
| "poolx_worker (KRun t drain) = True"
| "poolx_worker KExit = True"
| "poolx_worker pc = False"

text \<open>The one caller inside \<open>closeOnce.Do\<close>, and that part of it in which \<open>wg.Wait\<close> has returned.\<close>

fun poolx_closing :: "poolx_pc \<Rightarrow> bool" where
  "poolx_closing CFlag = True"
| "poolx_closing CDone = True"
| "poolx_closing CWait = True"
| "poolx_closing CDrain = True"
| "poolx_closing (CRun t) = True"
| "poolx_closing COver = True"
| "poolx_closing pc = False"

fun poolx_draining :: "poolx_pc \<Rightarrow> bool" where
  "poolx_draining CDrain = True"
| "poolx_draining (CRun t) = True"
| "poolx_draining COver = True"
| "poolx_draining pc = False"

fun poolx_counting :: "poolx_pc \<Rightarrow> bool" where
  "poolx_counting (SCount mode t) = True"
| "poolx_counting pc = False"

text \<open>A worker that has seen the queue empty after \<open>done\<close> was closed.\<close>

fun poolx_leaving :: "poolx_pc \<Rightarrow> bool" where
  "poolx_leaving KExit = True"
| "poolx_leaving KGone = True"
| "poolx_leaving pc = False"

fun poolx_after_done :: "poolx_pc \<Rightarrow> bool" where
  "poolx_after_done KDrain = True"
| "poolx_after_done (KRun t drain) = drain"
| "poolx_after_done KExit = True"
| "poolx_after_done KGone = True"
| "poolx_after_done CWait = True"
| "poolx_after_done CDrain = True"
| "poolx_after_done (CRun t) = True"
| "poolx_after_done COver = True"
| "poolx_after_done CReturned = True"
| "poolx_after_done pc = False"

subsection \<open>One step\<close>

lemmas poolx_ops = poolx_enqueue_def poolx_dequeue_def poolx_finish_def poolx_add_submitted_def poolx_worker_ResetStats_def poolx_runTask_def Let_def

text \<open>The queue holds the accepted tasks that have not been started, in order.\<close>

definition poolx_queue_ok :: "poolx_WorkerPool \<Rightarrow> bool" where
  "poolx_queue_ok p \<longleftrightarrow> po_tasks p = [po_started p..<po_made p] \<and> po_started p \<le> po_made p
     \<and> int (po_made p) \<le> int (po_started p) + pw_queueSize (po_cfg p) \<and> (po_done p \<longrightarrow> po_early p \<le> po_made p)"

definition poolx_same :: "poolx_WorkerPool \<Rightarrow> poolx_WorkerPool \<Rightarrow> bool" where
  "poolx_same p p' \<longleftrightarrow> po_cfg p' = po_cfg p \<and> po_done p' = po_done p \<and> po_wg p' = po_wg p \<and> po_once p' = po_once p \<and> po_closed p' = po_closed p
     \<and> po_submitted p' = po_submitted p \<and> po_completed p' = po_completed p \<and> po_failed p' = po_failed p \<and> po_panics p' = po_panics p
     \<and> po_result p' = po_result p \<and> po_early p' = po_early p \<and> po_ended p' = po_ended p"

lemma poolx_enqueue_queue:
  "poolx_queue_ok p \<Longrightarrow> poolx_enqueue p = Some (p', t) \<Longrightarrow>
     poolx_queue_ok p' \<and> t = po_made p \<and> po_made p' = po_made p + 1 \<and> po_started p' = po_started p \<and> poolx_same p p'"
  by (auto simp: poolx_queue_ok_def poolx_enqueue_def poolx_same_def split: if_splits)

lemma poolx_dequeue_queue:
  assumes "poolx_queue_ok p" and "poolx_dequeue p = Some (p', t)"
  shows "poolx_queue_ok p' \<and> t = po_started p \<and> t < po_made p \<and> po_made p' = po_made p \<and> po_started p' = po_started p + 1 \<and> poolx_same p p'"
proof -
  obtain ts where ts: "po_tasks p = t # ts" "p' = p\<lparr>po_tasks := ts, po_started := po_started p + 1\<rparr>"
    using assms(2) by (auto simp: poolx_dequeue_def split: list.splits)
  with assms(1) have "[po_started p..<po_made p] = t # ts" by (simp add: poolx_queue_ok_def)
  then have "po_started p < po_made p" "t = po_started p" "ts = [po_started p + 1..<po_made p]" by (auto simp: upt_eq_Cons_conv)
  with assms(1) ts show ?thesis by (auto simp: poolx_queue_ok_def poolx_same_def)
qed

lemma poolx_dequeue_none: "poolx_queue_ok p \<Longrightarrow> poolx_dequeue p = None \<Longrightarrow> po_started p = po_made p"
  by (auto simp: poolx_queue_ok_def poolx_dequeue_def split: list.splits)

lemma poolx_finish_frame [simp]:
  "po_cfg (poolx_finish t out p) = po_cfg p" "po_tasks (poolx_finish t out p) = po_tasks p" "po_done (poolx_finish t out p) = po_done p"
  "po_wg (poolx_finish t out p) = po_wg p" "po_once (poolx_finish t out p) = po_once p" "po_closed (poolx_finish t out p) = po_closed p"
  "po_made (poolx_finish t out p) = po_made p" "po_started (poolx_finish t out p) = po_started p" "po_early (poolx_finish t out p) = po_early p"
  "po_submitted (poolx_finish t out p) = po_submitted p"
  by (simp_all add: poolx_finish_def poolx_runTask_def Let_def split: option.splits)

lemma poolx_queue_frame [simp]:
  "poolx_queue_ok (p\<lparr>po_once := x\<rparr>) = poolx_queue_ok p" "poolx_queue_ok (p\<lparr>po_closed := b\<rparr>) = poolx_queue_ok p"
  "poolx_queue_ok (p\<lparr>po_wg := n\<rparr>) = poolx_queue_ok p" "poolx_queue_ok (poolx_finish t out p) = poolx_queue_ok p"
  "poolx_queue_ok (poolx_add_submitted p) = poolx_queue_ok p" "poolx_queue_ok (poolx_worker_ResetStats p) = poolx_queue_ok p"
  by (simp_all add: poolx_queue_ok_def poolx_add_submitted_def poolx_worker_ResetStats_def)

lemma poolx_queue_done: "poolx_queue_ok p \<Longrightarrow> poolx_queue_ok (p\<lparr>po_done := True, po_early := po_made p\<rparr>)"
  by (simp add: poolx_queue_ok_def)

lemma poolx_micro_queue:
  assumes "poolx_queue_ok p" and "poolx_micro ch p pc = (p', pc')"
  shows "poolx_queue_ok p'"
  using assms poolx_queue_done [OF assms(1)]
  by (cases pc)
    (auto split: option.splits poolx_sel.splits if_splits prod.splits poolx_once.splits
      dest: poolx_enqueue_queue [OF assms(1)] poolx_dequeue_queue [OF assms(1)])

subsection \<open>Every task runs once\<close>

definition poolx_count_ended :: "nat \<Rightarrow> poolx_WorkerPool \<Rightarrow> int" where
  "poolx_count_ended t p = int (count_list (map fst (po_ended p)) t)"

definition poolx_tasks_ok :: "poolx_sys \<Rightarrow> bool" where
  "poolx_tasks_ok x \<longleftrightarrow>
     (case x of (p, ts) \<Rightarrow>
        (\<forall>t. poolx_count_ended t p + how_many (\<lambda>pc. poolx_running pc = Some t) ts = of_bool (t < po_started p))
        \<and> (\<forall>t err. po_result p t = Some err \<longleftrightarrow> (t, err) \<in> set (po_ended p)))"

lemma poolx_finish_ended:
  "po_ended (poolx_finish t out p) = po_ended p @ [(t, snd (poolx_runTask out p))]"
  "po_result (poolx_finish t out p) = (po_result p)(t := Some (snd (poolx_runTask out p)))"
  by (simp_all add: poolx_finish_def poolx_runTask_def Let_def split: option.splits)

text \<open>A step starts at most one task, and ends at most the one it was running.\<close>

lemma poolx_micro_tasks:
  assumes "poolx_queue_ok p" and "poolx_micro ch p pc = (p', pc')"
  shows "(po_started p' = po_started p \<and> po_ended p' = po_ended p \<and> po_result p' = po_result p \<and> poolx_running pc' = poolx_running pc)
    \<or> (po_started p' = po_started p + 1 \<and> po_ended p' = po_ended p \<and> po_result p' = po_result p \<and> poolx_running pc = None
        \<and> poolx_running pc' = Some (po_started p))
    \<or> (po_started p' = po_started p \<and> poolx_running pc' = None
        \<and> (\<exists>t err. poolx_running pc = Some t \<and> po_ended p' = po_ended p @ [(t, err)] \<and> po_result p' = (po_result p)(t := Some err)))"
  using assms(2) poolx_dequeue_queue [OF assms(1)]
  by (cases pc)
    (auto simp: poolx_same_def poolx_finish_ended poolx_enqueue_def poolx_add_submitted_def poolx_worker_ResetStats_def
      split: option.splits poolx_sel.splits if_splits prod.splits poolx_once.splits)

lemma poolx_run_tasks:
  assumes "poolx_queue_ok p" and "poolx_tasks_ok (p, ts)" and "i < length ts" and "poolx_micro ch p (ts ! i) = (p', pc)"
  shows "poolx_tasks_ok (p', ts[i := pc])"
proof -
  let ?n = "\<lambda>t ts. how_many (\<lambda>pc. poolx_running pc = Some t) ts"
  have c: "\<And>t. poolx_count_ended t p + ?n t ts = of_bool (t < po_started p)"
    and r: "\<And>t err. po_result p t = Some err \<longleftrightarrow> (t, err) \<in> set (po_ended p)"
    using assms(2) by (simp_all add: poolx_tasks_ok_def)
  have n: "?n t (ts[i := pc]) = ?n t ts - of_bool (poolx_running (ts ! i) = Some t) + of_bool (poolx_running pc = Some t)" for t
    by (rule how_many_update [OF assms(3)])
  from poolx_micro_tasks [OF assms(1,4)] show ?thesis
  proof (elim disjE conjE exE)
    assume "po_started p' = po_started p + 1" "po_ended p' = po_ended p" "po_result p' = po_result p" "poolx_running (ts ! i) = None"
      "poolx_running pc = Some (po_started p)"
    with c r show ?thesis by (auto simp: poolx_tasks_ok_def n poolx_count_ended_def less_Suc_eq)
  next
    fix t err
    assume a: "po_started p' = po_started p" "poolx_running pc = None" "poolx_running (ts ! i) = Some t" "po_ended p' = po_ended p @ [(t, err)]"
      "po_result p' = (po_result p)(t := Some err)"
    have "poolx_count_ended t p + ?n t ts \<le> 1" using c [of t] by simp
    moreover have "0 < ?n t ts" by (rule how_many_pos [OF assms(3)]) (simp add: a)
    ultimately have "poolx_count_ended t p = 0" using how_many_simps(3) [of "\<lambda>pc. poolx_running pc = Some t" ts]
      by (simp add: poolx_count_ended_def)
    then have "t \<notin> fst ` set (po_ended p)" by (simp add: poolx_count_ended_def count_list_0_iff)
    then have "(t, e) \<notin> set (po_ended p)" for e by force
    with c r a show ?thesis by (auto simp: poolx_tasks_ok_def n poolx_count_ended_def)
  qed (use c r in \<open>simp add: poolx_tasks_ok_def n poolx_count_ended_def\<close>)
qed

subsection \<open>Closing\<close>

text \<open>What a goroutine may rely on where it is.\<close>

definition poolx_pc_ok :: "poolx_WorkerPool \<Rightarrow> poolx_pc \<Rightarrow> bool" where
  "poolx_pc_ok p pc \<longleftrightarrow> (poolx_after_done pc \<longrightarrow> po_done p) \<and> (poolx_leaving pc \<longrightarrow> po_early p \<le> po_started p)
     \<and> (poolx_draining pc \<longrightarrow> po_wg p = 0) \<and> (pc = CReturned \<longrightarrow> po_once p = OnceOver) \<and> (pc = CFlag \<or> pc = CDone \<longrightarrow> \<not> po_done p)
     \<and> (pc = CDone \<longrightarrow> po_closed p)"

definition poolx_close_ok :: "poolx_sys \<Rightarrow> bool" where
  "poolx_close_ok x \<longleftrightarrow>
     (case x of (p, ts) \<Rightarrow>
        po_wg p = how_many poolx_worker ts
        \<and> how_many poolx_worker ts + how_many (\<lambda>pc. pc = KGone) ts = pw_workers (po_cfg p) \<and> 1 \<le> pw_workers (po_cfg p)
        \<and> how_many poolx_closing ts = of_bool (po_once p = OnceRunning)
        \<and> (po_once p = OnceNew \<longrightarrow> \<not> po_done p) \<and> (po_once p = OnceOver \<longrightarrow> po_done p \<and> po_wg p = 0) \<and> (po_done p \<longrightarrow> po_closed p)
        \<and> (\<forall>i<length ts. poolx_pc_ok p (ts ! i)))"

lemma poolx_micro_roles:
  assumes "poolx_micro ch p pc = (p', pc')"
  shows "po_wg p' = po_wg p - of_bool (poolx_worker pc) + of_bool (poolx_worker pc')"
    and "(of_bool (poolx_worker pc') + of_bool (pc' = KGone) :: int) = of_bool (poolx_worker pc) + of_bool (pc = KGone)"
    and "po_cfg p' = po_cfg p" and "poolx_worker pc' \<Longrightarrow> poolx_worker pc"
  using assms
  by (cases pc; auto simp: poolx_enqueue_def poolx_dequeue_def poolx_add_submitted_def poolx_worker_ResetStats_def
      split: option.splits poolx_sel.splits if_splits prod.splits poolx_once.splits list.splits)+

lemma poolx_micro_once:
  assumes "poolx_micro ch p pc = (p', pc')" and "poolx_closing pc \<Longrightarrow> po_once p = OnceRunning"
  shows "(of_bool (poolx_closing pc') - of_bool (poolx_closing pc) :: int) = of_bool (po_once p' = OnceRunning) - of_bool (po_once p = OnceRunning)"
    and "po_once p = OnceOver \<Longrightarrow> po_once p' = OnceOver" and "po_once p' = OnceNew \<Longrightarrow> po_once p = OnceNew \<and> po_done p' = po_done p"
    and "po_once p' = OnceOver \<Longrightarrow> po_once p = OnceOver \<or> pc = COver"
  using assms
  by (cases pc; auto simp: poolx_enqueue_def poolx_dequeue_def poolx_add_submitted_def poolx_worker_ResetStats_def
      split: option.splits poolx_sel.splits if_splits prod.splits poolx_once.splits list.splits)+

text \<open>What a step changes of the fields \<open>Close\<close> uses.\<close>

lemma poolx_dequeue_fields:
  "poolx_dequeue p = Some (p', t) \<Longrightarrow> po_started p' = Suc (po_started p) \<and> po_closed p' = po_closed p \<and> po_done p' = po_done p
     \<and> po_early p' = po_early p \<and> po_wg p' = po_wg p \<and> po_once p' = po_once p"
  by (auto simp: poolx_dequeue_def split: list.splits)

lemma poolx_enqueue_fields:
  "poolx_enqueue p = Some (p', t) \<Longrightarrow> po_started p' = po_started p \<and> po_closed p' = po_closed p \<and> po_done p' = po_done p
     \<and> po_early p' = po_early p \<and> po_wg p' = po_wg p \<and> po_once p' = po_once p"
  by (auto simp: poolx_enqueue_def split: if_splits)

lemma poolx_micro_close:
  assumes "poolx_micro ch p pc = (p', pc')"
  shows "po_started p \<le> po_started p'" and "po_closed p' = (po_closed p \<or> pc = CFlag)" and "po_done p' = (po_done p \<or> pc = CDone)"
    and "pc \<noteq> CDone \<Longrightarrow> po_early p' = po_early p"
  using assms
  by (cases pc; auto simp: poolx_add_submitted_def poolx_worker_ResetStats_def dest!: poolx_dequeue_fields poolx_enqueue_fields
      split: option.splits poolx_sel.splits if_splits prod.splits poolx_once.splits)+

text \<open>The goroutine that takes the step.\<close>

lemma poolx_drained: "poolx_queue_ok p \<Longrightarrow> poolx_dequeue p = None \<Longrightarrow> po_done p \<Longrightarrow> po_early p \<le> po_started p"
  by (metis poolx_dequeue_none poolx_queue_ok_def)

lemma poolx_micro_self:
  assumes "poolx_queue_ok p" and "poolx_micro ch p pc = (p', pc')" and "poolx_pc_ok p pc" and "po_once p = OnceNew \<longrightarrow> \<not> po_done p"
    and "po_once p = OnceOver \<longrightarrow> po_done p \<and> po_wg p = 0"
  shows "poolx_pc_ok p' pc'"
  using assms(2-5) poolx_drained [OF assms(1)]
  by (cases pc)
    (auto simp: poolx_pc_ok_def poolx_add_submitted_def poolx_worker_ResetStats_def
      dest: poolx_dequeue_fields poolx_enqueue_fields
      split: option.splits poolx_sel.splits if_splits prod.splits poolx_once.splits)

text \<open>The others: \<open>done\<close> is closed, and the counter of the wait group falls, only while nobody relies on the contrary.\<close>

lemma poolx_micro_other:
  assumes "poolx_micro ch p pc = (p', pc')" and "poolx_pc_ok p pc" and "poolx_pc_ok p other"
    and "poolx_closing pc \<Longrightarrow> \<not> poolx_closing other" and "poolx_worker pc \<Longrightarrow> po_wg p \<noteq> 0"
    and "po_once p = OnceOver \<Longrightarrow> po_once p' = OnceOver"
  shows "poolx_pc_ok p' other"
proof -
  note c = poolx_micro_close [OF assms(1)]
  have wg: "po_wg p = 0 \<Longrightarrow> po_wg p' = 0"
    using assms(5) poolx_micro_roles(1,4) [OF assms(1)] by (auto split: if_splits simp: of_bool_def)
  show ?thesis
  proof (cases "pc = CDone")
    case True
    then have "\<not> po_done p" "\<not> poolx_closing other" using assms(2,4) by (simp_all add: poolx_pc_ok_def)
    moreover have "\<not> poolx_leaving other" using assms(3) \<open>\<not> po_done p\<close> by (cases other) (auto simp: poolx_pc_ok_def)
    ultimately show ?thesis using assms(3,6) c(2,3) wg by (cases other) (auto simp: poolx_pc_ok_def)
  next
    case False
    with assms(3,6) c wg show ?thesis by (auto simp: poolx_pc_ok_def)
  qed
qed

lemma poolx_run_close:
  assumes "poolx_queue_ok p" and "poolx_close_ok (p, ts)" and "i < length ts" and "poolx_micro ch p (ts ! i) = (p', pc)"
  shows "poolx_close_ok (p', ts[i := pc])"
proof -
  have wg: "po_wg p = how_many poolx_worker ts" and all: "how_many poolx_worker ts + how_many (\<lambda>pc. pc = KGone) ts = pw_workers (po_cfg p)"
    and n: "1 \<le> pw_workers (po_cfg p)" and cl: "how_many poolx_closing ts = of_bool (po_once p = OnceRunning)"
    and new: "po_once p = OnceNew \<longrightarrow> \<not> po_done p" and over: "po_once p = OnceOver \<longrightarrow> po_done p \<and> po_wg p = 0" and dc: "po_done p \<longrightarrow> po_closed p"
    and pcs: "\<And>j. j < length ts \<Longrightarrow> poolx_pc_ok p (ts ! j)"
    using assms(2) by (auto simp: poolx_close_ok_def)
  note u = how_many_update [OF assms(3)]
  have self: "poolx_pc_ok p (ts ! i)" by (rule pcs [OF assms(3)])
  have run: "po_once p = OnceRunning" if "poolx_closing (ts ! i)"
    using how_many_pos [of i ts poolx_closing, OF assms(3) that] cl by (simp split: if_splits)
  have one: "\<not> poolx_closing (ts ! j)" if "poolx_closing (ts ! i)" "j < length ts" "j \<noteq> i" for j
    using how_many_unique [OF _ assms(3), of poolx_closing j] that cl run by simp
  have w: "po_wg p \<noteq> 0" if "poolx_worker (ts ! i)"
    using how_many_pos [of i ts poolx_worker, OF assms(3) that] wg by simp
  note r = poolx_micro_roles [OF assms(4)] and o = poolx_micro_once [OF assms(4) run] and c = poolx_micro_close [OF assms(4)]
  have "poolx_pc_ok p' (ts[i := pc] ! j)" if j: "j < length ts" for j
  proof (cases "j = i")
    case True
    then show ?thesis using poolx_micro_self [OF assms(1,4) self new over] j by simp
  next
    case False
    have "poolx_pc_ok p' (ts ! j)" by (rule poolx_micro_other [OF assms(4) self pcs [OF j] one [OF _ j False] w o(2)])
    with False show ?thesis by simp
  qed
  moreover have "po_wg p' = how_many poolx_worker (ts[i := pc])" using r(1) wg by (simp add: u)
  moreover have "how_many poolx_worker (ts[i := pc]) + how_many (\<lambda>pc. pc = KGone) (ts[i := pc]) = pw_workers (po_cfg p')"
    using all r(2,3) by (simp add: u)
  moreover have "how_many poolx_closing (ts[i := pc]) = of_bool (po_once p' = OnceRunning)" using cl o(1) by (simp add: u)
  moreover have "po_once p' = OnceNew \<longrightarrow> \<not> po_done p'" using o(3) new by auto
  moreover have "po_once p' = OnceOver \<longrightarrow> po_done p' \<and> po_wg p' = 0"
    using o(4) over self c(3) r(1,4) w by (auto simp: poolx_pc_ok_def split: if_splits)
  moreover have "po_done p' \<longrightarrow> po_closed p'" using c(2,3) dc self by (auto simp: poolx_pc_ok_def)
  ultimately show ?thesis using n r(3) by (simp add: poolx_close_ok_def)
qed

subsection \<open>Counters\<close>

definition poolx_tally :: "(goerror \<Rightarrow> bool) \<Rightarrow> poolx_WorkerPool \<Rightarrow> u64" where
  "poolx_tally P p = of_nat (length (filter (\<lambda>x. P (snd x)) (po_ended p)))"

definition poolx_panicked :: "goerror \<Rightarrow> bool" where
  "poolx_panicked err = (case err of None \<Rightarrow> False | Some e \<Rightarrow> poolx_isPanic e)"

definition poolx_counts_ok :: "poolx_sys \<Rightarrow> bool" where
  "poolx_counts_ok x \<longleftrightarrow>
     (case x of (p, ts) \<Rightarrow>
        po_submitted p + of_int (how_many poolx_counting ts) = of_nat (po_made p)
        \<and> po_completed p = poolx_tally (\<lambda>e. e = None) p \<and> po_failed p = poolx_tally (\<lambda>e. e \<noteq> None) p
        \<and> po_panics p = poolx_tally poolx_panicked p)"

lemma poolx_finish_counts:
  assumes "po_completed p = poolx_tally (\<lambda>e. e = None) p" and "po_failed p = poolx_tally (\<lambda>e. e \<noteq> None) p" and "po_panics p = poolx_tally poolx_panicked p"
    and "p' = poolx_finish t out p"
  shows "po_completed p' = poolx_tally (\<lambda>e. e = None) p' \<and> po_failed p' = poolx_tally (\<lambda>e. e \<noteq> None) p' \<and> po_panics p' = poolx_tally poolx_panicked p'"
proof -
  define err where "err = panix_SafeVoid (poolx_worker_opOrDefault (po_cfg p)) (Some out)"
  have ended: "po_ended p' = po_ended p @ [(t, err)]"
    using assms(4) by (simp add: poolx_finish_ended poolx_runTask_def err_def Let_def)
  have c: "po_completed p' = po_completed p + of_bool (err = None)" "po_failed p' = po_failed p + of_bool (err \<noteq> None)"
    "po_panics p' = po_panics p + of_bool (poolx_panicked err)"
    using assms(4)
    by (simp_all add: poolx_finish_def poolx_runTask_def err_def [symmetric] Let_def poolx_panicked_def split: option.splits)
  show ?thesis using assms(1-3) unfolding c poolx_tally_def ended by (cases "poolx_panicked err") auto
qed

lemma poolx_micro_counts:
  assumes "poolx_micro ch p pc = (p', pc')" and "pc \<noteq> SReset"
  shows "(po_submitted p' = po_submitted p + of_bool (poolx_counting pc) \<and> po_made p' = po_made p + of_bool (poolx_counting pc'))
    \<and> (po_completed p' = po_completed p \<and> po_failed p' = po_failed p \<and> po_panics p' = po_panics p \<and> po_ended p' = po_ended p
       \<or> (\<exists>t. p' = poolx_finish t (pc_out ch) p))"
  using assms
  by (cases pc; auto simp: poolx_enqueue_def poolx_dequeue_def poolx_add_submitted_def
      split: option.splits poolx_sel.splits if_splits prod.splits poolx_once.splits list.splits)

lemma poolx_run_counts:
  assumes "poolx_counts_ok (p, ts)" and "i < length ts" and "poolx_micro ch p (ts ! i) = (p', pc)" and "ts ! i \<noteq> SReset"
  shows "poolx_counts_ok (p', ts[i := pc])"
proof -
  have s: "po_submitted p + of_int (how_many poolx_counting ts) = of_nat (po_made p)"
    and t: "po_completed p = poolx_tally (\<lambda>e. e = None) p" "po_failed p = poolx_tally (\<lambda>e. e \<noteq> None) p" "po_panics p = poolx_tally poolx_panicked p"
    using assms(1) by (simp_all add: poolx_counts_ok_def)
  have m: "po_submitted p' = po_submitted p + of_bool (poolx_counting (ts ! i))" "po_made p' = po_made p + of_bool (poolx_counting pc)"
    and e: "po_completed p' = po_completed p \<and> po_failed p' = po_failed p \<and> po_panics p' = po_panics p \<and> po_ended p' = po_ended p
       \<or> (\<exists>t. p' = poolx_finish t (pc_out ch) p)"
    using poolx_micro_counts [OF assms(3,4)] by simp_all
  have "po_submitted p' + of_int (how_many poolx_counting (ts[i := pc])) = of_nat (po_made p')"
    unfolding m how_many_update [OF assms(2)] using s by (simp add: algebra_simps)
  moreover have "po_completed p' = poolx_tally (\<lambda>e. e = None) p' \<and> po_failed p' = poolx_tally (\<lambda>e. e \<noteq> None) p' \<and> po_panics p' = poolx_tally poolx_panicked p'"
    using e
  proof
    assume "po_completed p' = po_completed p \<and> po_failed p' = po_failed p \<and> po_panics p' = po_panics p \<and> po_ended p' = po_ended p"
    with t show ?thesis by (simp add: poolx_tally_def)
  qed (use poolx_finish_counts [OF t] in blast)
  ultimately show ?thesis by (simp add: poolx_counts_ok_def)
qed

subsection \<open>Runs\<close>

definition poolx_inv :: "bool \<Rightarrow> poolx_sys \<Rightarrow> bool" where
  "poolx_inv resets x \<longleftrightarrow> poolx_queue_ok (fst x) \<and> poolx_tasks_ok x \<and> poolx_close_ok x
     \<and> (\<not> resets \<longrightarrow> poolx_counts_ok x \<and> SReset \<notin> set (snd x))"

lemma poolx_entry_roles:
  "poolx_entry pc \<or> pc = SReset \<Longrightarrow> \<not> poolx_worker pc \<and> \<not> poolx_closing pc \<and> poolx_running pc = None \<and> \<not> poolx_counting pc \<and> pc \<noteq> KGone
     \<and> poolx_pc_ok p pc"
  by (cases pc) (auto simp: poolx_pc_ok_def)

lemma poolx_micro_reset: "poolx_micro ch p pc = (p', SReset) \<Longrightarrow> False"
  by (cases pc) (auto split: option.splits poolx_sel.splits if_splits prod.splits poolx_once.splits)

lemma poolx_step_inv: "poolx_step resets x y \<Longrightarrow> poolx_inv resets x \<Longrightarrow> poolx_inv resets y"
proof (induction rule: poolx_step.induct)
  case (run i ts ch p p' pc)
  have q: "poolx_queue_ok p" and t: "poolx_tasks_ok (p, ts)" and c: "poolx_close_ok (p, ts)"
    and n: "\<not> resets \<longrightarrow> poolx_counts_ok (p, ts) \<and> SReset \<notin> set ts" using run(3) by (simp_all add: poolx_inv_def)
  have "\<not> resets \<longrightarrow> poolx_counts_ok (p', ts[i := pc]) \<and> SReset \<notin> set (ts[i := pc])"
  proof
    assume r: "\<not> resets"
    then have "ts ! i \<noteq> SReset" using n nth_mem [OF run(1)] by auto
    moreover have "pc \<noteq> SReset" using poolx_micro_reset run(2) by blast
    ultimately show "poolx_counts_ok (p', ts[i := pc]) \<and> SReset \<notin> set (ts[i := pc])"
      using poolx_run_counts [OF _ run(1,2)] n r set_update_subset_insert [of ts i pc] by auto
  qed
  with poolx_micro_queue [OF q run(2)] poolx_run_tasks [OF q t run(1,2)] poolx_run_close [OF q c run(1,2)] show ?case
    by (simp add: poolx_inv_def)
next
  case (call pc p ts)
  then have r: "\<not> poolx_worker pc" "\<not> poolx_closing pc" "poolx_running pc = None" "\<not> poolx_counting pc" "pc \<noteq> KGone" "poolx_pc_ok p pc"
    using poolx_entry_roles [of pc p] by auto
  have "SReset \<noteq> pc" if "\<not> resets" using call(1) that by auto
  with call(2) r show ?case
    by (auto simp: poolx_inv_def poolx_tasks_ok_def poolx_close_ok_def poolx_counts_ok_def nth_append less_Suc_eq)
qed

lemma poolx_steps_inv: "poolx_steps resets x y \<Longrightarrow> poolx_inv resets x \<Longrightarrow> poolx_inv resets y"
  by (induction rule: poolx_steps.induct) (simp_all add: poolx_step_inv)

lemma poolx_workers_pos: "1 \<le> pw_workers c \<and> 1 \<le> pw_queueSize c \<Longrightarrow> \<forall>f\<in>set opts. (\<exists>n. f = poolx_WithWorkers n) \<or> (\<exists>n. f = poolx_WithQueueSize n) \<or> (\<exists>op. f = poolx_WithWorkerOp op)
    \<Longrightarrow> 1 \<le> pw_workers (fold (\<lambda>opt c. opt c) opts c) \<and> 1 \<le> pw_queueSize (fold (\<lambda>opt c. opt c) opts c)"
proof (induction opts arbitrary: c)
  case (Cons f opts)
  then show ?case by (auto simp: poolx_WithWorkers_def poolx_WithQueueSize_def poolx_WithWorkerOp_def)
qed simp

definition poolx_opts_ok :: "(poolx_workerConfig \<Rightarrow> poolx_workerConfig) list \<Rightarrow> bool" where
  "poolx_opts_ok opts \<longleftrightarrow> (\<forall>f\<in>set opts. (\<exists>n. f = poolx_WithWorkers n) \<or> (\<exists>n. f = poolx_WithQueueSize n) \<or> (\<exists>op. f = poolx_WithWorkerOp op))"

lemma how_many_replicate: "how_many P (replicate n x) = (if P x then int n else 0)"
  by (simp add: how_many_def)

lemma poolx_inv_start:
  assumes "poolx_opts_ok opts"
  shows "poolx_inv resets (poolx_start opts)"
proof -
  have "1 \<le> pw_workers (poolx_newWorkerConfig opts) \<and> 1 \<le> pw_queueSize (poolx_newWorkerConfig opts)"
    unfolding poolx_newWorkerConfig_def using assms
    by (intro poolx_workers_pos) (simp_all add: poolx_opts_ok_def poolx_DefaultWorkers_def poolx_DefaultQueueSize_def)
  then show ?thesis
    by (simp add: poolx_inv_def poolx_start_def poolx_NewWorkerPool_def Let_def poolx_queue_ok_def poolx_tasks_ok_def poolx_count_ended_def
        poolx_close_ok_def poolx_counts_ok_def how_many_replicate poolx_pc_ok_def poolx_tally_def)
qed

lemma poolx_running_who: "poolx_running pc = Some t \<Longrightarrow> poolx_worker pc \<or> poolx_closing pc"
  by (cases pc) auto

lemma poolx_run_bound:
  assumes "poolx_close_ok (p, ts)"
  shows "how_many (\<lambda>pc. poolx_running pc \<noteq> None) ts \<le> pw_workers (po_cfg p)"
proof -
  have c: "po_wg p = how_many poolx_worker ts" "how_many poolx_worker ts + how_many (\<lambda>pc. pc = KGone) ts = pw_workers (po_cfg p)"
    "1 \<le> pw_workers (po_cfg p)" "how_many poolx_closing ts = of_bool (po_once p = OnceRunning)" "\<forall>i<length ts. poolx_pc_ok p (ts ! i)"
    using assms by (auto simp: poolx_close_ok_def)
  have k: "how_many poolx_worker ts \<le> pw_workers (po_cfg p)" using c(2) how_many_simps(3) [of "\<lambda>pc. pc = KGone" ts] by linarith
  show ?thesis
  proof (cases "po_wg p = 0")
    case True
    have "\<not> poolx_worker pc" if pc: "pc \<in> set ts" for pc
    proof
      assume w: "poolx_worker pc"
      obtain i where "i < length ts" "ts ! i = pc" using pc by (auto simp: in_set_conv_nth)
      with how_many_pos [of i ts poolx_worker] w True c(1) show False by simp
    qed
    then have "how_many (\<lambda>pc. poolx_running pc \<noteq> None) ts \<le> how_many poolx_closing ts"
      unfolding how_many_def of_nat_le_iff
      using poolx_running_who by (induction ts) (auto simp: le_Suc_eq)
    also have "\<dots> \<le> 1" using c(4) by simp
    finally show ?thesis using c(3) by linarith
  next
    case False
    have "poolx_worker pc" if pc: "pc \<in> set ts" and r: "poolx_running pc \<noteq> None" for pc
    proof -
      obtain i where "i < length ts" "ts ! i = pc" using pc by (auto simp: in_set_conv_nth)
      with c(5) False r show ?thesis by (cases pc) (auto simp: poolx_pc_ok_def)
    qed
    then have "how_many (\<lambda>pc. poolx_running pc \<noteq> None) ts \<le> how_many poolx_worker ts"
      unfolding how_many_def of_nat_le_iff by (induction ts) (auto simp: le_Suc_eq)
    with k show ?thesis by linarith
  qed
qed

text \<open>Once \<open>Close\<close> is over no worker and no drain loop is left, so nothing is started or ended any more.\<close>

lemma poolx_over:
  assumes "poolx_inv resets (p, ts)" and "po_once p = OnceOver"
  shows "po_done p \<and> po_closed p \<and> po_early p \<le> po_started p \<and> (\<forall>pc\<in>set ts. \<not> poolx_worker pc \<and> \<not> poolx_closing pc \<and> poolx_running pc = None)"
proof -
  have c: "po_wg p = how_many poolx_worker ts" "how_many poolx_worker ts + how_many (\<lambda>pc. pc = KGone) ts = pw_workers (po_cfg p)"
    "1 \<le> pw_workers (po_cfg p)" "how_many poolx_closing ts = 0" "\<And>i. i < length ts \<Longrightarrow> poolx_pc_ok p (ts ! i)" "po_done p" "po_closed p" "po_wg p = 0"
    using assms by (auto simp: poolx_inv_def poolx_close_ok_def)
  have none: "\<not> poolx_worker pc \<and> \<not> poolx_closing pc" if pc: "pc \<in> set ts" for pc
  proof -
    obtain i where "i < length ts" "ts ! i = pc" using pc by (auto simp: in_set_conv_nth)
    with how_many_pos [of i ts poolx_worker] how_many_pos [of i ts poolx_closing] c(1,4,8) show ?thesis by auto
  qed
  have "0 < how_many (\<lambda>pc. pc = KGone) ts" using c(1-3,8) by linarith
  then have "KGone \<in> set ts" by (auto simp: how_many_def filter_empty_conv)
  then have "po_early p \<le> po_started p" using c(5) by (auto simp: in_set_conv_nth poolx_pc_ok_def)
  moreover have "poolx_running pc = None" if "pc \<in> set ts" for pc using none [OF that] by (cases pc) auto
  ultimately show ?thesis using none c(6,7) by blast
qed

lemma poolx_over_step:
  assumes "poolx_step resets (p, ts) (p', ts')" and "poolx_inv resets (p, ts)" and "po_once p = OnceOver"
  shows "po_once p' = OnceOver \<and> po_started p' = po_started p \<and> po_result p' = po_result p \<and> po_made p \<le> po_made p'"
  using assms(1)
proof (cases rule: poolx_step.cases)
  case (run i ch pc)
  then have "\<not> poolx_worker (ts ! i) \<and> \<not> poolx_closing (ts ! i)" using poolx_over [OF assms(2,3)] nth_mem by blast
  with run(3) assms(3) show ?thesis
    by (cases "ts ! i"; auto simp: poolx_enqueue_def poolx_add_submitted_def poolx_worker_ResetStats_def
        split: option.splits poolx_sel.splits if_splits prod.splits)
qed (use assms(3) in simp)

lemma poolx_over_steps:
  "poolx_steps resets x y \<Longrightarrow> poolx_inv resets x \<Longrightarrow> po_once (fst x) = OnceOver \<Longrightarrow>
     po_once (fst y) = OnceOver \<and> po_started (fst y) = po_started (fst x) \<and> po_result (fst y) = po_result (fst x) \<and> po_made (fst x) \<le> po_made (fst y)"
proof (induction rule: poolx_steps.induct)
  case (step x y z)
  then have "poolx_inv resets y" using poolx_steps_inv by blast
  with step show ?case using poolx_over_step [of resets "fst y" "snd y" "fst z" "snd z"] by simp
qed simp

section \<open>Properties\<close>


text \<open>
  C23: \<open>Close\<close> drains. In every reachable state in which some call of \<open>Close\<close> has returned, the workers are gone, no task is running, every
  task accepted before \<open>Close\<close> closed the \<open>done\<close> channel has run to its end, and a caller of \<open>SubmitWait\<close> for such a task gets its result at the
  next step (unless it prefers its cancelled context).
\<close>

theorem poolx_Close_drains:
  assumes "poolx_steps resets (poolx_start opts) (p, ts)" and "poolx_opts_ok opts" and "CReturned \<in> set ts"
  shows "po_closed p \<and> (\<forall>pc\<in>set ts. \<not> poolx_worker pc \<and> poolx_running pc = None)
    \<and> (\<forall>t<po_early p. \<exists>err. (t, err) \<in> set (po_ended p) \<and> (\<forall>ch. pc_sel ch = PSend \<longrightarrow> poolx_micro ch p (SAwait t) = (p, SReturned err)))"
proof -
  have i: "poolx_inv resets (p, ts)" by (rule poolx_steps_inv [OF assms(1) poolx_inv_start [OF assms(2)]])
  obtain k where "k < length ts" "ts ! k = CReturned" using assms(3) by (auto simp: in_set_conv_nth)
  with i have once: "po_once p = OnceOver" by (auto simp: poolx_inv_def poolx_close_ok_def poolx_pc_ok_def dest!: spec)
  note o = poolx_over [OF i once]
  have t: "\<And>t. int (count_list (map fst (po_ended p)) t) + how_many (\<lambda>pc. poolx_running pc = Some t) ts = of_bool (t < po_started p)"
    and r: "\<And>t err. po_result p t = Some err \<longleftrightarrow> (t, err) \<in> set (po_ended p)"
    using i by (simp_all add: poolx_inv_def poolx_tasks_ok_def poolx_count_ended_def)
  have "\<exists>err. (t, err) \<in> set (po_ended p) \<and> (\<forall>ch. pc_sel ch = PSend \<longrightarrow> poolx_micro ch p (SAwait t) = (p, SReturned err))" if e: "t < po_early p" for t
  proof -
    have "how_many (\<lambda>pc. poolx_running pc = Some t) ts = 0" using o by (auto simp: how_many_def filter_empty_conv)
    then have "count_list (map fst (po_ended p)) t \<noteq> 0" using t [of t] o e by simp
    then have "t \<in> fst ` set (po_ended p)" by (simp add: count_list_0_iff)
    then obtain err where e: "(t, err) \<in> set (po_ended p)" by force
    then have "po_result p t = Some err" using r by blast
    with e show ?thesis by (intro exI [of _ err]) simp
  qed
  with o show ?thesis by blast
qed

subsection \<open>The late task\<close>

definition poolx_choose :: "poolx_sel \<Rightarrow> poolx_choice" where
  "poolx_choose sel = \<lparr>pc_ctx = None, pc_sel = sel, pc_out = Returns () None\<rparr>"

lemma poolx_choose_simps [simp]: "pc_ctx (poolx_choose sel) = None" "pc_sel (poolx_choose sel) = sel" "pc_out (poolx_choose sel) = Returns () None"
  by (simp_all add: poolx_choose_def)

lemma poolx_run_at:
  "poolx_steps r x (p, ts) \<Longrightarrow> i < length ts \<Longrightarrow> poolx_micro (poolx_choose sel) p (ts ! i) = (p', pc) \<Longrightarrow> ts' = ts[i := pc] \<Longrightarrow> poolx_steps r x (p', ts')"
  using poolx_steps.step poolx_step.run by blast

lemma poolx_call_at: "poolx_steps r x (p, ts) \<Longrightarrow> poolx_entry pc \<Longrightarrow> poolx_steps r x (p, ts @ [pc])"
  using poolx_steps.step poolx_step.call by blast

text \<open>A submitter is past its check when \<open>Close\<close> begins, and sends when \<open>Close\<close> is over.\<close>

lemma poolx_late_run:
  assumes "p0 = poolx_NewWorkerPool [poolx_WithWorkers 1]"
  shows "poolx_steps False (poolx_start [poolx_WithWorkers 1])
    (p0\<lparr>po_once := OnceOver, po_closed := True, po_done := True, po_wg := 0, po_tasks := [0], po_made := 1, po_submitted := 1\<rparr>,
     [KGone, if mode = MWait then SAwait 0 else SReturned None, CReturned])"
proof -
  let ?x = "poolx_start [poolx_WithWorkers 1]"
  have f: "po_once p0 = OnceNew" "po_closed p0 = False" "po_done p0 = False" "po_wg p0 = 1" "po_tasks p0 = []" "po_made p0 = 0"
    "po_early p0 = 0" "po_submitted p0 = 0" "pw_queueSize (po_cfg p0) = 64"
    by (simp_all add: assms poolx_NewWorkerPool_def Let_def poolx_newWorkerConfig_def poolx_WithWorkers_def poolx_DefaultQueueSize_def)
  define p1 where "p1 = p0\<lparr>po_once := OnceRunning\<rparr>"
  define p2 where "p2 = p1\<lparr>po_closed := True\<rparr>"
  define p3 where "p3 = p2\<lparr>po_done := True\<rparr>"
  define p4 where "p4 = p3\<lparr>po_wg := 0\<rparr>"
  define p5 where "p5 = p4\<lparr>po_once := OnceOver\<rparr>"
  define p6 where "p6 = p5\<lparr>po_tasks := [0], po_made := 1\<rparr>"
  note d = p1_def p2_def p3_def p4_def p5_def p6_def poolx_validateSubmit_def poolx_rejectIfClosed_def poolx_dequeue_def poolx_enqueue_def f
  have "?x = (p0, [KSelect])" by (simp add: poolx_start_def assms Let_def) (simp add: poolx_NewWorkerPool_def Let_def poolx_newWorkerConfig_def poolx_WithWorkers_def)
  then have "poolx_steps False ?x (p0, [KSelect])" using poolx_steps.refl [of False ?x] by simp
  then have "poolx_steps False ?x (p0, [KSelect] @ [SValidate mode False])" by (rule poolx_call_at) simp
  then have "poolx_steps False ?x (p0, [KSelect, SSend mode])"
    by (rule poolx_run_at [where i = 1 and sel = PSend]) (simp_all add: d)
  then have "poolx_steps False ?x (p0, [KSelect, SSend mode] @ [COnce])" by (rule poolx_call_at) simp
  then have "poolx_steps False ?x (p1, [KSelect, SSend mode, CFlag])" by (rule poolx_run_at [where i = 2 and sel = PSend]) (simp_all add: d)
  then have "poolx_steps False ?x (p2, [KSelect, SSend mode, CDone])" by (rule poolx_run_at [where i = 2 and sel = PSend]) (simp_all add: d)
  then have "poolx_steps False ?x (p3, [KSelect, SSend mode, CWait])" by (rule poolx_run_at [where i = 2 and sel = PSend]) (simp_all add: d)
  then have "poolx_steps False ?x (p3, [KDrain, SSend mode, CWait])" by (rule poolx_run_at [where i = 0 and sel = PDone]) (simp_all add: d)
  then have "poolx_steps False ?x (p3, [KExit, SSend mode, CWait])" by (rule poolx_run_at [where i = 0 and sel = PSend]) (simp_all add: d)
  then have "poolx_steps False ?x (p4, [KGone, SSend mode, CWait])" by (rule poolx_run_at [where i = 0 and sel = PSend]) (simp_all add: d)
  then have "poolx_steps False ?x (p4, [KGone, SSend mode, CDrain])" by (rule poolx_run_at [where i = 2 and sel = PSend]) (simp_all add: d)
  then have "poolx_steps False ?x (p4, [KGone, SSend mode, COver])" by (rule poolx_run_at [where i = 2 and sel = PSend]) (simp_all add: d)
  then have "poolx_steps False ?x (p5, [KGone, SSend mode, CReturned])" by (rule poolx_run_at [where i = 2 and sel = PSend]) (simp_all add: d)
  then have "poolx_steps False ?x (p6, [KGone, SCount mode 0, CReturned])" by (rule poolx_run_at [where i = 1 and sel = PSend]) (simp_all add: d)
  then have "poolx_steps False ?x (poolx_add_submitted p6, [KGone, if mode = MWait then SAwait 0 else SReturned None, CReturned])"
    by (rule poolx_run_at [where i = 1 and sel = PSend]) simp_all
  moreover have "poolx_add_submitted p6 = p0\<lparr>po_once := OnceOver, po_closed := True, po_done := True, po_wg := 0, po_tasks := [0], po_made := 1, po_submitted := 1\<rparr>"
    by (rule poolx_WorkerPool.equality) (simp_all add: poolx_add_submitted_def d)
  ultimately show ?thesis by simp
qed

text \<open>
  Not every accepted task runs. There is a schedule, with one worker and any of the three ways to submit, in which \<open>Close\<close> has returned and
  the submission is accepted: \<open>Submit\<close> and \<open>TrySubmit\<close> have returned nil, \<open>SubmitWait\<close> waits for its result; and whatever happens from there
  on, the task stays in the queue, so that its result is never delivered.
\<close>

theorem poolx_orphaned_task:
  "\<exists>p ts. poolx_steps False (poolx_start [poolx_WithWorkers 1]) (p, ts) \<and> CReturned \<in> set ts
     \<and> (if mode = MWait then SAwait 0 else SReturned None) \<in> set ts \<and> po_submitted p = 1
     \<and> (\<forall>p' ts'. poolx_steps False (p, ts) (p', ts') \<longrightarrow> 0 \<in> set (po_tasks p') \<and> po_result p' 0 = None)"
proof -
  let ?p0 = "poolx_NewWorkerPool [poolx_WithWorkers 1]"
  let ?p = "?p0\<lparr>po_once := OnceOver, po_closed := True, po_done := True, po_wg := 0, po_tasks := [0], po_made := 1, po_submitted := 1\<rparr>"
  let ?ts = "[KGone, if mode = MWait then SAwait 0 else SReturned None, CReturned]"
  note run = poolx_late_run [OF HOL.refl, of mode]
  have "poolx_opts_ok [poolx_WithWorkers 1]" by (auto simp: poolx_opts_ok_def)
  note i = poolx_steps_inv [OF run poolx_inv_start [OF this]]
  have f: "po_started ?p = 0" "po_result ?p 0 = None" "po_made ?p = 1" "po_once ?p = OnceOver" "po_submitted ?p = 1" by (simp_all add: poolx_NewWorkerPool_def Let_def)
  have "0 \<in> set (po_tasks p') \<and> po_result p' 0 = None" if s: "poolx_steps False (?p, ?ts) (p', ts')" for p' ts'
  proof -
    have q: "poolx_queue_ok p'" using poolx_steps_inv [OF s i] by (simp add: poolx_inv_def)
    have o: "po_started p' = 0" "po_result p' 0 = None" "1 \<le> po_made p'" using poolx_over_steps [OF s i] f by simp_all
    have "po_tasks p' = [0..<po_made p']" using q o(1) unfolding poolx_queue_ok_def by simp
    then have "set (po_tasks p') = {0..<po_made p'}" by (simp only: set_upt)
    with o show ?thesis by simp
  qed
  with run f(5) show ?thesis by (intro exI [of _ ?p] exI [of _ ?ts]) simp
qed

lemma poolx_orphaned_task_witness:
  "\<exists>p ts. poolx_steps False (poolx_start [poolx_WithWorkers 1]) (p, ts) \<and> SAwait 0 \<in> set ts \<and> CReturned \<in> set ts \<and> po_result p 0 = None"
  using poolx_orphaned_task [of MWait] poolx_steps.refl by fastforce


lemma poolx_Close_drains_witness:
  "\<exists>p. poolx_steps False (poolx_start [poolx_WithWorkers 1]) (p, [KGone, SAwait 0, CReturned]) \<and> po_early p = 1
     \<and> (\<exists>err. (0, err) \<in> set (po_ended p) \<and> poolx_micro (poolx_choose PSend) p (SAwait 0) = (p, SReturned err))"
proof -
  let ?x = "poolx_start [poolx_WithWorkers 1]"
  define p0 where "p0 = poolx_NewWorkerPool [poolx_WithWorkers 1]"
  have f: "po_once p0 = OnceNew" "po_closed p0 = False" "po_done p0 = False" "po_wg p0 = 1" "po_tasks p0 = []" "po_made p0 = 0"
    "po_started p0 = 0" "pw_queueSize (po_cfg p0) = 64"
    by (simp_all add: p0_def poolx_NewWorkerPool_def Let_def poolx_newWorkerConfig_def poolx_WithWorkers_def poolx_DefaultQueueSize_def)
  define p1 where "p1 = poolx_add_submitted (p0\<lparr>po_tasks := [0], po_made := 1\<rparr>)"
  define p2 where "p2 = p1\<lparr>po_tasks := [], po_started := 1\<rparr>"
  define p3 where "p3 = poolx_finish 0 (Returns () None) p2"
  define p4 where "p4 = p3\<lparr>po_once := OnceRunning, po_closed := True\<rparr>"
  define p5 where "p5 = p4\<lparr>po_done := True, po_early := 1\<rparr>"
  define p6 where "p6 = p5\<lparr>po_wg := 0\<rparr>"
  note d = p1_def p2_def p3_def p4_def p5_def p6_def poolx_validateSubmit_def poolx_rejectIfClosed_def poolx_dequeue_def poolx_enqueue_def
    poolx_add_submitted_def f
  have "?x = (p0, [KSelect])" by (simp add: poolx_start_def p0_def Let_def) (simp add: poolx_NewWorkerPool_def Let_def poolx_newWorkerConfig_def poolx_WithWorkers_def)
  then have "poolx_steps False ?x (p0, [KSelect])" using poolx_steps.refl [of False ?x] by simp
  then have "poolx_steps False ?x (p0, [KSelect] @ [SValidate MWait False])" by (rule poolx_call_at) simp
  then have "poolx_steps False ?x (p0, [KSelect, SSend MWait])" by (rule poolx_run_at [where i = 1 and sel = PSend]) (simp_all add: d)
  then have "poolx_steps False ?x (p0\<lparr>po_tasks := [0], po_made := 1\<rparr>, [KSelect, SCount MWait 0])"
    by (rule poolx_run_at [where i = 1 and sel = PSend]) (simp_all add: d)
  then have "poolx_steps False ?x (p1, [KSelect, SAwait 0])" by (rule poolx_run_at [where i = 1 and sel = PSend]) (simp_all add: p1_def)
  then have "poolx_steps False ?x (p2, [KRun 0 False, SAwait 0])" by (rule poolx_run_at [where i = 0 and sel = PSend]) (simp_all add: d)
  then have "poolx_steps False ?x (p3, [KSelect, SAwait 0])" by (rule poolx_run_at [where i = 0 and sel = PSend]) (simp_all add: p3_def)
  then have "poolx_steps False ?x (p3, [KSelect, SAwait 0] @ [COnce])" by (rule poolx_call_at) simp
  then have "poolx_steps False ?x (p3\<lparr>po_once := OnceRunning\<rparr>, [KSelect, SAwait 0, CFlag])" by (rule poolx_run_at [where i = 2 and sel = PSend]) (simp_all add: d)
  then have "poolx_steps False ?x (p4, [KSelect, SAwait 0, CDone])" by (rule poolx_run_at [where i = 2 and sel = PSend]) (simp_all add: d)
  then have "poolx_steps False ?x (p5, [KSelect, SAwait 0, CWait])" by (rule poolx_run_at [where i = 2 and sel = PSend]) (simp_all add: d)
  then have "poolx_steps False ?x (p5, [KDrain, SAwait 0, CWait])" by (rule poolx_run_at [where i = 0 and sel = PDone]) (simp_all add: d)
  then have "poolx_steps False ?x (p5, [KExit, SAwait 0, CWait])" by (rule poolx_run_at [where i = 0 and sel = PSend]) (simp_all add: d)
  then have "poolx_steps False ?x (p6, [KGone, SAwait 0, CWait])" by (rule poolx_run_at [where i = 0 and sel = PSend]) (simp_all add: d)
  then have "poolx_steps False ?x (p6, [KGone, SAwait 0, CDrain])" by (rule poolx_run_at [where i = 2 and sel = PSend]) (simp_all add: d)
  then have "poolx_steps False ?x (p6, [KGone, SAwait 0, COver])" by (rule poolx_run_at [where i = 2 and sel = PSend]) (simp_all add: d)
  then have s: "poolx_steps False ?x (p6\<lparr>po_once := OnceOver\<rparr>, [KGone, SAwait 0, CReturned])"
    by (rule poolx_run_at [where i = 2 and sel = PSend]) simp_all
  obtain p where p: "p = p6\<lparr>po_once := OnceOver\<rparr>" by blast
  have e: "po_early p = 1" unfolding p by (simp add: p6_def p5_def)
  have o: "poolx_opts_ok [poolx_WithWorkers 1]" by (auto simp: poolx_opts_ok_def)
  have "CReturned \<in> set [KGone, SAwait 0, CReturned]" by simp
  note conjunct2 [OF conjunct2 [OF poolx_Close_drains [OF s o this]], folded p, rule_format, of 0, unfolded e, OF zero_less_one]
  then obtain err where "(0, err) \<in> set (po_ended p)" "\<And>ch. pc_sel ch = PSend \<Longrightarrow> poolx_micro ch p (SAwait 0) = (p, SReturned err)" by blast
  with s e show ?thesis unfolding p [symmetric] by (intro exI [of _ p]) (simp only: poolx_choose_simps, blast)
qed

end
