(* ===== verification/Poolx_Batch.thy ===== *)
theory Poolx_Batch
  imports Poolx "HOL-Library.Multiset"
begin

text \<open>
  Package \<open>poolx\<close>, part three: the batch processor, first for one caller, then with any number of callers, the ticker and \<open>Close\<close>
  interleaved, one locked section, atomic access or call of the flush function at a time. The object pool is at the end.
\<close>

subsection \<open>One caller\<close>

lemma poolx_Flush_outcome:
  assumes "\<not> pa_closed b"
  shows "poolx_Flush (Returns () None) b =
      (if pa_buf b = [] then (b, None)
       else (b\<lparr>pa_buf := [], pa_items := pa_items b + of_nat (length (pa_buf b)), pa_flushed := pa_flushed b + 1, pa_out := pa_out b @ [pa_buf b]\<rparr>, None))"
    and "pa_buf b \<noteq> [] \<Longrightarrow> poolx_Flush (Returns () (Some e)) b = (b\<lparr>pa_errors := pa_errors b + 1\<rparr>, Some (poolx_errFlushFailed e))"
  using assms by (simp_all add: poolx_Flush_def poolx_takeBuffer_def poolx_flushBatch_def poolx_requeue_def Let_def)

lemma poolx_errors: "errors_Is (poolx_errFlushFailed e) poolx_ErrFlushFailed" "errors_Is (poolx_errFlushFailed e) e"
  by (simp_all add: poolx_errFlushFailed_def)

text \<open>Successful additions, one after the other.\<close>

lemma poolx_Add_good:
  assumes "\<not> pa_closed b" and "int (length (pa_buf b)) < pb_batchSize (pa_cfg b)" and "poolx_Add (Returns () None) x b = (b', err)"
  shows "err = None \<and> \<not> pa_closed b' \<and> pa_cfg b' = pa_cfg b
    \<and> (if int (length (pa_buf b)) + 1 = pb_batchSize (pa_cfg b) then pa_buf b' = [] \<and> pa_out b' = pa_out b @ [pa_buf b @ [x]]
       else pa_buf b' = pa_buf b @ [x] \<and> pa_out b' = pa_out b)"
  using assms by (auto simp: poolx_Add_def poolx_append_def Let_def poolx_Flush_outcome)

lemma poolx_Adds_good:
  assumes "\<not> pa_closed b" and "int (length (pa_buf b)) < pb_batchSize (pa_cfg b)"
    and "\<forall>batch\<in>set (pa_out b). int (length batch) = pb_batchSize (pa_cfg b)"
    and "b' = fold (\<lambda>x b. fst (poolx_Add (Returns () None) x b)) xs b"
  shows "\<not> pa_closed b' \<and> pa_cfg b' = pa_cfg b \<and> int (length (pa_buf b')) < pb_batchSize (pa_cfg b)
    \<and> concat (pa_out b') @ pa_buf b' = concat (pa_out b) @ pa_buf b @ xs \<and> (\<forall>batch\<in>set (pa_out b'). int (length batch) = pb_batchSize (pa_cfg b))"
  using assms
proof (induction xs arbitrary: b)
  case (Cons x xs)
  define b1 where "b1 = fst (poolx_Add (Returns () None) x b)"
  have a: "\<not> pa_closed b1" "pa_cfg b1 = pa_cfg b"
    "if int (length (pa_buf b)) + 1 = pb_batchSize (pa_cfg b) then pa_buf b1 = [] \<and> pa_out b1 = pa_out b @ [pa_buf b @ [x]]
       else pa_buf b1 = pa_buf b @ [x] \<and> pa_out b1 = pa_out b"
    using poolx_Add_good [OF Cons.prems(1,2) prod.collapse [symmetric], of x] by (simp_all add: b1_def)
  have size: "int (length (pa_buf b1)) < pb_batchSize (pa_cfg b1)" and all: "\<forall>batch\<in>set (pa_out b1). int (length batch) = pb_batchSize (pa_cfg b1)"
    and items: "concat (pa_out b1) @ pa_buf b1 = concat (pa_out b) @ pa_buf b @ [x]"
    using a Cons.prems(2,3) by (auto split: if_splits)
  have "b' = fold (\<lambda>x b. fst (poolx_Add (Returns () None) x b)) xs b1" using Cons.prems(4) by (simp add: b1_def)
  from Cons.IH [OF a(1) size all this] show ?case unfolding a(2) using items by (metis append.assoc append_Cons append_Nil)
qed simp

subsection \<open>Goroutines\<close>

datatype poolx_flusher = FCall | FTicker | FClose

datatype 'a poolx_bpc =
    BAdd 'a
  | BFlush poolx_flusher
  | BTake poolx_flusher
  | BCall poolx_flusher "'a list"
  | BRequeue poolx_flusher "'a list" goerr
  | BTick
  | BHandle goerr
  | BGone
  | BOnce
  | BLock
  | BSignal "'a list"
  | BOver goerror
  | BReturned goerror

record poolx_bchoice =
  px_tick :: bool
  px_out :: "unit outcome"

text \<open>Where a flush goes on: back to its caller, to the ticker's test of the error, or to the end of \<open>closeOnce.Do\<close>.\<close>

fun poolx_after :: "poolx_flusher \<Rightarrow> goerror \<Rightarrow> 'a poolx_bpc" where
  "poolx_after FCall err = BReturned err"
| "poolx_after FTicker err = (case err of None \<Rightarrow> BTick | Some e \<Rightarrow> BHandle e)"
| "poolx_after FClose err = BOver err"

fun poolx_bmicro :: "poolx_bchoice \<Rightarrow> 'a poolx_Batch \<Rightarrow> 'a poolx_bpc \<Rightarrow> 'a poolx_Batch \<times> 'a poolx_bpc" where
  "poolx_bmicro ch b (BAdd x) =
     (case poolx_append x b of
        (b1, Inl e) \<Rightarrow> (b1, BReturned (Some e))
      | (b1, Inr full) \<Rightarrow> (b1, if full then BFlush FCall else BReturned None))"
| "poolx_bmicro ch b (BFlush k) =
     (b, if pa_closed b then poolx_after k (Some (poolx_errClosed poolx_componentBatch)) else BTake k)"
| "poolx_bmicro ch b (BTake k) =
     (case poolx_takeBuffer b of (b1, None) \<Rightarrow> (b1, poolx_after k None) | (b1, Some batch) \<Rightarrow> (b1, BCall k batch))"
| "poolx_bmicro ch b (BCall k batch) =
     (case panix_SafeVoid (poolx_batch_opOrDefault (pa_cfg b)) (Some (px_out ch)) of
        Some e \<Rightarrow> (b\<lparr>pa_errors := pa_errors b + 1\<rparr>, BRequeue k batch (poolx_errFlushFailed e))
      | None \<Rightarrow> (fst (poolx_flushBatch batch (px_out ch) b), poolx_after k None))"
| "poolx_bmicro ch b (BRequeue k batch e) = (poolx_requeue batch b, poolx_after k (Some e))"
| "poolx_bmicro ch b BTick =
     (b, if px_tick ch then BFlush FTicker else if pa_done b then BGone else BTick)"
| "poolx_bmicro ch b (BHandle e) =
     (if pb_onError (pa_cfg b) = None then b else b\<lparr>pa_handled := pa_handled b @ [e]\<rparr>, BTick)"
| "poolx_bmicro ch b BOnce =
     (case pa_once b of
        OnceNew \<Rightarrow> (b\<lparr>pa_once := OnceRunning\<rparr>, BLock)
      | OnceRunning \<Rightarrow> (b, BOnce)
      | OnceOver \<Rightarrow> (b, BReturned None))"
| "poolx_bmicro ch b BLock = (case poolx_close_locked b of (b1, batch) \<Rightarrow> (b1, BSignal batch))"
| "poolx_bmicro ch b (BSignal batch) = (b\<lparr>pa_done := True\<rparr>, if batch = [] then BOver None else BCall FClose batch)"
| "poolx_bmicro ch b (BOver err) = (b\<lparr>pa_once := OnceOver\<rparr>, BReturned err)"
| "poolx_bmicro ch b (BReturned e) = (b, BReturned e)"
| "poolx_bmicro ch b BGone = (b, BGone)"

type_synonym 'a poolx_bsys = "'a poolx_Batch \<times> 'a poolx_bpc list"

fun poolx_bentry :: "'a poolx_bpc \<Rightarrow> bool" where
  "poolx_bentry (BAdd x) = True"
| "poolx_bentry (BFlush k) = (k = FCall)"
| "poolx_bentry BOnce = True"
| "poolx_bentry pc = False"

inductive poolx_bstep :: "'a poolx_bsys \<Rightarrow> 'a poolx_bsys \<Rightarrow> bool" where
  run: "i < length ts \<Longrightarrow> poolx_bmicro ch b (ts ! i) = (b', pc) \<Longrightarrow> poolx_bstep (b, ts) (b', ts[i := pc])"
| call: "poolx_bentry pc \<Longrightarrow> poolx_bstep (b, ts) (b, ts @ [pc])"

inductive poolx_bsteps :: "'a poolx_bsys \<Rightarrow> 'a poolx_bsys \<Rightarrow> bool" where
  refl: "poolx_bsteps x x"
| step: "poolx_bsteps x y \<Longrightarrow> poolx_bstep y z \<Longrightarrow> poolx_bsteps x z"

text \<open>\<open>NewBatch\<close> of a flush function starts the ticker.\<close>

definition poolx_bstart :: "(poolx_batchConfig \<Rightarrow> poolx_batchConfig) list \<Rightarrow> 'a poolx_bsys" where
  "poolx_bstart opts = (projr (poolx_NewBatch False opts), [BTick])"

text \<open>The steps of a flush, run without interference, are \<open>flushBatch\<close>.\<close>

lemma poolx_flush_micros:
  assumes "px_out ch = out"
  shows "(case poolx_bmicro ch b (BCall k batch) of
       (b1, BRequeue k' batch' e) \<Rightarrow> poolx_bmicro ch b1 (BRequeue k' batch' e)
     | (b1, pc) \<Rightarrow> (b1, pc)) = (case poolx_flushBatch batch out b of (b', err) \<Rightarrow> (b', poolx_after k err))"
  using assms by (cases k) (auto simp: poolx_flushBatch_def Let_def split: option.splits)

subsection \<open>Nothing is lost\<close>

text \<open>The items a goroutine holds.\<close>

fun poolx_holding :: "'a poolx_bpc \<Rightarrow> 'a list" where
  "poolx_holding (BCall k batch) = batch"
| "poolx_holding (BRequeue k batch e) = batch"
| "poolx_holding (BSignal batch) = batch"
| "poolx_holding pc = []"

lemma poolx_holding_after [simp]: "poolx_holding (poolx_after k err) = []"
  by (cases k) (auto split: option.splits)

lemma mset_concat_update:
  "i < length ts \<Longrightarrow> mset (concat (map f (ts[i := pc]))) + mset (f (ts ! i)) = mset (concat (map f ts)) + mset (f pc)"
proof (induction ts arbitrary: i)
  case (Cons t ts)
  then show ?case by (cases i) (simp_all add: ac_simps)
qed simp

definition poolx_binv :: "'a poolx_bsys \<Rightarrow> bool" where
  "poolx_binv x \<longleftrightarrow>
     (case x of (b, ts) \<Rightarrow>
        mset (pa_added b) = mset (concat (pa_out b)) + mset (pa_buf b) + mset (concat (map poolx_holding ts))
        \<and> pa_items b = of_nat (length (concat (pa_out b))) \<and> pa_flushed b = of_nat (length (pa_out b)))"

lemma poolx_bmicro_conserves:
  assumes "poolx_bmicro ch b pc = (b', pc')"
  shows "mset (pa_added b') + mset (concat (pa_out b)) + mset (pa_buf b) + mset (poolx_holding pc)
    = mset (pa_added b) + mset (concat (pa_out b')) + mset (pa_buf b') + mset (poolx_holding pc')"
    and "pa_items b' + of_nat (length (concat (pa_out b))) = pa_items b + of_nat (length (concat (pa_out b')))"
    and "pa_flushed b' + of_nat (length (pa_out b)) = pa_flushed b + of_nat (length (pa_out b'))"
  using assms
  by (cases pc; auto simp: poolx_append_def poolx_takeBuffer_def poolx_flushBatch_def poolx_requeue_def poolx_close_locked_def Let_def ac_simps
      split: option.splits prod.splits sum.splits poolx_once.splits if_splits)+

lemma poolx_bstep_inv: "poolx_bstep x y \<Longrightarrow> poolx_binv x \<Longrightarrow> poolx_binv y"
proof (induction rule: poolx_bstep.induct)
  case (run i ts ch b b' pc)
  have v: "mset (pa_added b) = mset (concat (pa_out b)) + mset (pa_buf b) + mset (concat (map poolx_holding ts))"
    "pa_items b = of_nat (length (concat (pa_out b)))" "pa_flushed b = of_nat (length (pa_out b))" using run(3) by (simp_all add: poolx_binv_def)
  note c = poolx_bmicro_conserves [OF run(2)] and u = mset_concat_update [OF run(1), of poolx_holding pc]
  have "mset (pa_added b') = mset (concat (pa_out b')) + mset (pa_buf b') + mset (concat (map poolx_holding (ts[i := pc])))"
  proof -
    define added' added out' out buf' buf h' h H' H where n: "added' = mset (pa_added b')" "added = mset (pa_added b)"
      "out' = mset (concat (pa_out b'))" "out = mset (concat (pa_out b))" "buf' = mset (pa_buf b')" "buf = mset (pa_buf b)"
      "h' = mset (poolx_holding pc)" "h = mset (poolx_holding (ts ! i))" "H' = mset (concat (map poolx_holding (ts[i := pc])))"
      "H = mset (concat (map poolx_holding ts))"
    from c(1) v(1) u have e: "added' + out + buf + h = added + out' + buf' + h'" "added = out + buf + H" "H' + h = H + h'" unfolding n .
    from e(1,2) have "added' + h = (H + h') + (buf' + out')" by (simp add: ac_simps)
    then have "added' + h = (H' + h) + (buf' + out')" by (simp only: e(3))
    then have "added' = out' + buf' + H'" by (simp add: ac_simps)
    then show ?thesis unfolding n .
  qed
  with c(2,3) v(2,3) show ?case by (simp add: poolx_binv_def)
qed (auto simp: poolx_binv_def elim: poolx_bentry.elims)

lemma poolx_bsteps_inv: "poolx_bsteps x y \<Longrightarrow> poolx_binv x \<Longrightarrow> poolx_binv y"
  by (induction rule: poolx_bsteps.induct) (simp_all add: poolx_bstep_inv)

lemma poolx_binv_start: "poolx_binv (poolx_bstart opts)"
  by (simp add: poolx_binv_def poolx_bstart_def poolx_NewBatch_def)

subsection \<open>After the close\<close>

text \<open>The goroutines that cannot touch the buffer of a closed batch any more.\<close>

fun poolx_quiet :: "'a poolx_bpc \<Rightarrow> bool" where
  "poolx_quiet (BFlush k) = (k \<noteq> FClose)"
| "poolx_quiet (BTake k) = False"
| "poolx_quiet (BCall k batch) = False"
| "poolx_quiet (BRequeue k batch e) = False"
| "poolx_quiet BLock = False"
| "poolx_quiet (BSignal batch) = False"
| "poolx_quiet (BOver err) = False"
| "poolx_quiet pc = True"

lemma poolx_quiet_after: "k \<noteq> FClose \<Longrightarrow> poolx_quiet (poolx_after k err)"
  by (cases k) (auto split: option.splits)

definition poolx_stranded :: "'a list \<Rightarrow> 'a list list \<Rightarrow> 'a poolx_bsys \<Rightarrow> bool" where
  "poolx_stranded buf out x \<longleftrightarrow>
     (case x of (b, ts) \<Rightarrow> pa_closed b \<and> pa_once b = OnceOver \<and> pa_buf b = buf \<and> pa_out b = out \<and> (\<forall>pc\<in>set ts. poolx_quiet pc))"

lemma poolx_stranded_step: "poolx_bstep x y \<Longrightarrow> poolx_stranded buf out x \<Longrightarrow> poolx_stranded buf out y"
proof (induction rule: poolx_bstep.induct)
  case (run i ts ch b b' pc)
  have "poolx_quiet (ts ! i)" using run(1,3) by (simp add: poolx_stranded_def)
  with run(2,3) have "pa_closed b' \<and> pa_once b' = OnceOver \<and> pa_buf b' = buf \<and> pa_out b' = out \<and> poolx_quiet pc"
    by (cases "ts ! i") (auto simp: poolx_stranded_def poolx_append_def poolx_quiet_after split: if_splits)
  with run(3) show ?case using set_update_subset_insert [of ts i pc] by (auto simp: poolx_stranded_def)
next
  case (call pc b ts)
  then show ?case by (cases pc) (auto simp: poolx_stranded_def)
qed

lemma poolx_stranded_steps: "poolx_bsteps x y \<Longrightarrow> poolx_stranded buf out x \<Longrightarrow> poolx_stranded buf out y"
  by (induction rule: poolx_bsteps.induct) (simp_all add: poolx_stranded_step)

section \<open>Properties\<close>

text \<open>
  C24: no item is lost or flushed twice. However additions, flushes that succeed, fail or panic, the ticker and \<open>Close\<close> interleave, the
  items added so far are, with their multiplicity, those of the batches flushed, those in the buffer and those a goroutine is flushing or
  putting back; \<open>Items\<close> and \<open>Flushed\<close> are, modulo \<open>2 ^ 64\<close>, the numbers of items and batches flushed.
\<close>

theorem poolx_batch_conserves:
  assumes "poolx_bsteps (poolx_bstart opts) (b, ts)"
  shows "mset (pa_added b) = mset (concat (pa_out b)) + mset (pa_buf b) + mset (concat (map poolx_holding ts))
    \<and> pt_Items (poolx_BatchStatsOf b) = of_nat (length (concat (pa_out b))) \<and> pt_Flushed (poolx_BatchStatsOf b) = of_nat (length (pa_out b))"
  using poolx_bsteps_inv [OF assms poolx_binv_start] by (simp add: poolx_binv_def poolx_BatchStatsOf_def)

lemma poolx_brun_at:
  "poolx_bsteps x (b, ts) \<Longrightarrow> i < length ts \<Longrightarrow> poolx_bmicro ch b (ts ! i) = (b', pc) \<Longrightarrow> ts' = ts[i := pc] \<Longrightarrow> poolx_bsteps x (b', ts')"
  using poolx_bsteps.step poolx_bstep.run by blast

lemma poolx_bcall_at: "poolx_bsteps x (b, ts) \<Longrightarrow> poolx_bentry pc \<Longrightarrow> poolx_bsteps x (b, ts @ [pc])"
  using poolx_bsteps.step poolx_bstep.call by blast

text \<open>A flush is under way when \<open>Close\<close> finds the buffer empty, and fails when \<open>Close\<close> is over.\<close>

lemma poolx_strand_run:
  assumes "b0 = projr (poolx_NewBatch False [])"
  shows "poolx_bsteps (poolx_bstart []) (b0\<lparr>pa_buf := [x], pa_added := [x], pa_closed := True, pa_done := True, pa_once := OnceOver, pa_errors := 1\<rparr>,
    [BTick, BReturned None, BReturned (Some (poolx_errFlushFailed e)), BReturned None])"
proof -
  let ?x = "poolx_bstart []"
  let ?ch = "\<lparr>px_tick = False, px_out = Returns () (Some e)\<rparr>"
  have f: "pa_once b0 = OnceNew" "pa_closed b0 = False" "pa_buf b0 = []" "pa_added b0 = []" "pa_errors b0 = 0" "pb_batchSize (pa_cfg b0) = 100"
    by (simp_all add: assms poolx_NewBatch_def poolx_newBatchConfig_def poolx_DefaultBatchSize_def)
  define b1 where "b1 = b0\<lparr>pa_buf := [x], pa_added := [x]\<rparr>"
  define b2 where "b2 = b1\<lparr>pa_buf := []\<rparr>"
  define b3 where "b3 = b2\<lparr>pa_once := OnceRunning\<rparr>"
  define b4 where "b4 = b3\<lparr>pa_closed := True, pa_buf := []\<rparr>"
  define b5 where "b5 = b4\<lparr>pa_done := True\<rparr>"
  define b6 where "b6 = b5\<lparr>pa_once := OnceOver\<rparr>"
  define b7 where "b7 = b6\<lparr>pa_errors := 1\<rparr>"
  note d = b1_def b2_def b3_def b4_def b5_def b6_def b7_def f poolx_append_def poolx_takeBuffer_def poolx_close_locked_def Let_def
  have "poolx_bsteps ?x (b0, [BTick])" using poolx_bsteps.refl [of ?x] by (simp add: poolx_bstart_def assms)
  then have "poolx_bsteps ?x (b0, [BTick] @ [BAdd x])" by (rule poolx_bcall_at) simp
  then have "poolx_bsteps ?x (b1, [BTick, BReturned None])" by (rule poolx_brun_at [where i = 1 and ch = ?ch]) (simp_all add: d)
  then have "poolx_bsteps ?x (b1, [BTick, BReturned None] @ [BFlush FCall])" by (rule poolx_bcall_at) simp
  then have "poolx_bsteps ?x (b1, [BTick, BReturned None, BTake FCall])" by (rule poolx_brun_at [where i = 2 and ch = ?ch]) (simp_all add: d)
  then have "poolx_bsteps ?x (b2, [BTick, BReturned None, BCall FCall [x]])" by (rule poolx_brun_at [where i = 2 and ch = ?ch]) (simp_all add: d)
  then have "poolx_bsteps ?x (b2, [BTick, BReturned None, BCall FCall [x]] @ [BOnce])" by (rule poolx_bcall_at) simp
  then have "poolx_bsteps ?x (b3, [BTick, BReturned None, BCall FCall [x], BLock])" by (rule poolx_brun_at [where i = 3 and ch = ?ch]) (simp_all add: d)
  then have "poolx_bsteps ?x (b4, [BTick, BReturned None, BCall FCall [x], BSignal []])"
    by (rule poolx_brun_at [where i = 3 and ch = ?ch]) (simp_all add: d)
  then have "poolx_bsteps ?x (b5, [BTick, BReturned None, BCall FCall [x], BOver None])" by (rule poolx_brun_at [where i = 3 and ch = ?ch]) (simp_all add: d)
  then have "poolx_bsteps ?x (b6, [BTick, BReturned None, BCall FCall [x], BReturned None])"
    by (rule poolx_brun_at [where i = 3 and ch = ?ch]) (simp_all add: d)
  then have "poolx_bsteps ?x (b7, [BTick, BReturned None, BRequeue FCall [x] (poolx_errFlushFailed e), BReturned None])"
    by (rule poolx_brun_at [where i = 2 and ch = ?ch]) (simp_all add: d)
  then have "poolx_bsteps ?x (poolx_requeue [x] b7, [BTick, BReturned None, BReturned (Some (poolx_errFlushFailed e)), BReturned None])"
    by (rule poolx_brun_at [where i = 2 and ch = ?ch]) simp_all
  moreover have "poolx_requeue [x] b7 = b0\<lparr>pa_buf := [x], pa_added := [x], pa_closed := True, pa_done := True, pa_once := OnceOver, pa_errors := 1\<rparr>"
    by (rule poolx_Batch.equality) (simp_all add: poolx_requeue_def d)
  ultimately show ?thesis by simp
qed

text \<open>
  An item can be left in a closed batch. There is a schedule in which \<open>Add\<close> accepted an item, \<open>Close\<close> returned nil, and a flush that was
  under way has failed and put the item back; from then on, whatever is called, the item stays in the buffer: every \<open>Flush\<close> and every
  \<open>Add\<close> returns \<open>ErrClosed\<close>, and nothing is flushed any more.
\<close>

theorem poolx_batch_strands:
  fixes x :: 'a
  shows "\<exists>b ts. poolx_bsteps (poolx_bstart []) (b, ts) \<and> pa_added b = [x] \<and> ts = [BTick, BReturned None, BReturned (Some (poolx_errFlushFailed e)), BReturned None]
    \<and> (\<forall>b' ts'. poolx_bsteps (b, ts) (b', ts') \<longrightarrow> pa_buf b' = [x] \<and> pa_out b' = []
        \<and> (\<forall>out y. poolx_Flush out b' = (b', Some (poolx_errClosed poolx_componentBatch)) \<and> poolx_Add out y b' = (b', Some (poolx_errClosed poolx_componentBatch))))"
proof -
  let ?b = "(projr (poolx_NewBatch False []) :: 'a poolx_Batch)\<lparr>pa_buf := [x], pa_added := [x], pa_closed := True, pa_done := True, pa_once := OnceOver, pa_errors := 1\<rparr>"
  let ?ts = "[BTick, BReturned None, BReturned (Some (poolx_errFlushFailed e)), BReturned None]"
  note run = poolx_strand_run [OF HOL.refl, of x e]
  have "poolx_stranded [x] [] (?b, ?ts)" by (simp add: poolx_stranded_def poolx_NewBatch_def)
  then have s: "poolx_stranded [x] [] (b', ts')" if "poolx_bsteps (?b, ?ts) (b', ts')" for b' ts' by (rule poolx_stranded_steps [OF that])
  have "pa_buf b' = [x] \<and> pa_out b' = []
      \<and> (\<forall>out y. poolx_Flush out b' = (b', Some (poolx_errClosed poolx_componentBatch)) \<and> poolx_Add out y b' = (b', Some (poolx_errClosed poolx_componentBatch)))"
    if "poolx_bsteps (?b, ?ts) (b', ts')" for b' ts'
    using s [OF that] by (simp add: poolx_stranded_def poolx_Flush_def poolx_Add_def poolx_append_def)
  with run show ?thesis by (intro exI [of _ ?b] exI [of _ ?ts]) simp
qed

lemma poolx_batch_strands_witness:
  "\<exists>b ts. poolx_bsteps (poolx_bstart []) (b, ts) \<and> pa_added b = [7::nat] \<and> pa_buf b = [7]
     \<and> poolx_Flush (Returns () None) b = (b, Some (poolx_errClosed poolx_componentBatch))"
proof -
  obtain b ts where b: "poolx_bsteps (poolx_bstart []) (b, ts)" "pa_added b = [7::nat]"
    and later: "\<And>b' ts'. poolx_bsteps (b, ts) (b', ts') \<Longrightarrow> pa_buf b' = [7] \<and> (\<forall>out. poolx_Flush out b' = (b', Some (poolx_errClosed poolx_componentBatch)))"
    using poolx_batch_strands [of "7::nat" "UserError 1"] by blast
  from later [OF poolx_bsteps.refl] b show ?thesis by blast
qed

lemma poolx_batch_conserves_witness:
  "mset [7::nat] = mset (concat []) + mset [7] + mset (concat (map poolx_holding [BTick, BReturned None, BReturned (Some (UserError 1)), BReturned None]))
     \<and> poolx_bsteps (poolx_bstart []) ((projr (poolx_NewBatch False []))\<lparr>pa_buf := [7::nat], pa_added := [7], pa_closed := True, pa_done := True,
          pa_once := OnceOver, pa_errors := 1\<rparr>, [BTick, BReturned None, BReturned (Some (poolx_errFlushFailed (UserError 1))), BReturned None])"
  using poolx_batch_conserves [OF poolx_strand_run [OF HOL.refl, of "7::nat" "UserError 1"]] poolx_strand_run [OF HOL.refl, of "7::nat" "UserError 1"]
  by (simp add: poolx_NewBatch_def)

text \<open>
  Without failures the batches are the items in order, cut to size. Adding any items one after the other to an open batch with room
  flushes them, in the order they were added, in batches of exactly \<open>WithBatchSize\<close> items, and keeps fewer than that in the buffer.
\<close>

theorem poolx_batches_in_order:
  assumes "projr (poolx_NewBatch False opts) = b0" and "0 < pb_batchSize (pa_cfg b0)"
    and "b = fold (\<lambda>x b. fst (poolx_Add (Returns () None) x b)) xs b0"
  shows "concat (pa_out b) @ pa_buf b = xs \<and> (\<forall>batch\<in>set (pa_out b). int (length batch) = pb_batchSize (pa_cfg b0))
    \<and> int (length (pa_buf b)) < pb_batchSize (pa_cfg b0)"
proof -
  have "\<not> pa_closed b0" "pa_buf b0 = []" "pa_out b0 = []" using assms(1) by (auto simp: poolx_NewBatch_def)
  with poolx_Adds_good [OF _ _ _ assms(3)] assms(2) show ?thesis by simp
qed

lemma poolx_batches_in_order_witness:
  "let b = fold (\<lambda>x b. fst (poolx_Add (Returns () None) x b)) [1, 2, 3, 4, 5::nat] (projr (poolx_NewBatch False [poolx_WithBatchSize 2]))
   in concat (pa_out b) @ pa_buf b = [1, 2, 3, 4, 5] \<and> (\<forall>batch\<in>set (pa_out b). length batch = 2)"
  using poolx_batches_in_order [OF HOL.refl _ HOL.refl, of "[poolx_WithBatchSize 2]" "[1, 2, 3, 4, 5::nat]"]
  by (simp add: Let_def poolx_NewBatch_def poolx_newBatchConfig_def poolx_WithBatchSize_def poolx_DefaultBatchSize_def)

subsection \<open>Close again\<close>

interpretation poolx_batch: closer "poolx_batch_Close out" "\<lambda>b. pa_once b \<noteq> OnceNew"
  by unfold_locales
    (auto simp: poolx_batch_Close_def poolx_CloseErr_def poolx_close_locked_def poolx_flushBatch_def poolx_requeue_def Let_def split: option.splits)

subsection \<open>Object pool\<close>

text \<open>An object is new or one that was put back, after its reset, and leaves the pool when it is handed out.\<close>

lemma mset_take_drop: "i < length xs \<Longrightarrow> mset xs = add_mset (xs ! i) (mset (take i xs) + mset (drop (Suc i) xs))"
  by (subst id_take_nth_drop [of i xs]) simp_all

lemma poolx_Get_fresh:
  "poolx_Get new pick op = (op', v) \<Longrightarrow>
     (v = new \<and> pj_pool op' = pj_pool op \<and> pj_creates op' = pj_creates op + 1)
     \<or> (mset (pj_pool op) = mset (pj_pool op') + {#v#} \<and> pj_creates op' = pj_creates op)"
  using mset_take_drop [of _ "pj_pool op"] by (auto simp: poolx_Get_def Let_def split: option.splits if_splits)

end
