(* ===== verification/Clix.thy ===== *)
theory Clix
  imports URX_Prelude
begin

text \<open>
  Package \<open>clix\<close> (\<open>src/clix/\<close>): a command-line parser over a tree of commands. This theory holds the data and the construction of the
  tree by options (\<open>types.go\<close>, \<open>options.go\<close>, \<open>help_labels.go\<close>, the sentinels of \<open>errors.go\<close>); \<open>Clix_Parse\<close> has the parser and \<open>Clix_Help\<close>
  the help text.

  A command is a node and its children. The parts a parse writes (positional arguments, the set marks of flags, the bound variables)
  belong to the parser's state, so the tree is a value that no parse changes; the pointer \<open>parent\<close> is the list of the ancestors that every
  operation walking up is given. A bound variable is a number. Strings are lists of bytes. Values of type \<open>float64\<close> and \<open>time.Time\<close> are
  of any types \<open>'f\<close> and \<open>'t\<close>, and an action of any type \<open>'a\<close>.
\<close>

subsection \<open>Values and the standard library\<close>

datatype ('f, 't) clix_value =
    VString string
  | VInt int
  | VBool bool
  | VFloat64 'f
  | VDuration int
  | VTime 't
  | VOther nat

text \<open>The type of a Go value, as \<open>reflect.TypeOf\<close> gives it; \<open>TOther\<close> stands for all the types a flag cannot have.\<close>

datatype clix_type = TString | TInt | TBool | TFloat64 | TDuration | TTime | TOther nat

fun clix_TypeOf :: "('f, 't) clix_value \<Rightarrow> clix_type" where
  "clix_TypeOf (VString _) = TString"
| "clix_TypeOf (VInt _) = TInt"
| "clix_TypeOf (VBool _) = TBool"
| "clix_TypeOf (VFloat64 _) = TFloat64"
| "clix_TypeOf (VDuration _) = TDuration"
| "clix_TypeOf (VTime _) = TTime"
| "clix_TypeOf (VOther n) = TOther n"

text \<open>
  The functions of the standard library on floats, durations and times that the package calls: their parsers, the comparison of
  \<open>float64\<close> and \<open>time.Time\<close> values with \<open>==\<close>, and their formats.
\<close>

record ('f, 't) clix_std =
  sd_ParseFloat :: "string \<Rightarrow> goerr + 'f"
  sd_ParseDuration :: "string \<Rightarrow> goerr + int"
  sd_ParseTime :: "string \<Rightarrow> goerr + 't"
  sd_float_eq :: "'f \<Rightarrow> 'f \<Rightarrow> bool"
  sd_time_eq :: "'t \<Rightarrow> 't \<Rightarrow> bool"
  sd_Sprint_float :: "'f \<Rightarrow> string"
  sd_Duration_String :: "int \<Rightarrow> string"
  sd_Sprint_time :: "'t \<Rightarrow> string"
  sd_Time_Format :: "'t \<Rightarrow> string"

definition strconv_ErrSyntax :: goerr where "strconv_ErrSyntax = Sentinel ''invalid syntax''"
definition strconv_ErrRange :: goerr where "strconv_ErrRange = Sentinel ''value out of range''"

definition go_isDigit :: "char \<Rightarrow> bool" where
  "go_isDigit c = (48 \<le> (of_char c :: nat) \<and> (of_char c :: nat) \<le> 57)"

text \<open>\<open>strconv.ParseUint\<close> in base 10: the accumulator is checked after every digit.\<close>

fun strconv_ParseUint :: "nat \<Rightarrow> string \<Rightarrow> goerr + nat" where
  "strconv_ParseUint n [] = Inr n"
| "strconv_ParseUint n (c # cs) =
     (if \<not> go_isDigit c then Inl strconv_ErrSyntax
      else let n' = 10 * n + (of_char c - 48)
        in if 2 ^ 64 \<le> n' then Inl strconv_ErrRange else strconv_ParseUint n' cs)"

definition strconv_Atoi :: "string \<Rightarrow> goerr + int" where
  "strconv_Atoi s =
     (let neg = (case s of c # _ \<Rightarrow> c = CHR ''-'' | [] \<Rightarrow> False);
          ds = (case s of c # cs \<Rightarrow> if c = CHR ''-'' \<or> c = CHR ''+'' then cs else s | [] \<Rightarrow> s);
          fail = (\<lambda>e. Inl (Errorf ''strconv.Atoi'' [e]))
      in if ds = [] then fail strconv_ErrSyntax
         else case strconv_ParseUint 0 ds of
           Inl e \<Rightarrow> fail e
         | Inr n \<Rightarrow>
             if \<not> neg \<and> 2 ^ 63 \<le> n \<or> neg \<and> 2 ^ 63 < n then fail strconv_ErrRange
             else Inr (if neg then - int n else int n))"

definition strconv_ParseBool :: "string \<Rightarrow> goerr + bool" where
  "strconv_ParseBool s =
     (if s \<in> set [''1'', ''t'', ''T'', ''true'', ''TRUE'', ''True''] then Inr True
      else if s \<in> set [''0'', ''f'', ''F'', ''false'', ''FALSE'', ''False''] then Inr False
      else Inl (Errorf ''strconv.ParseBool'' [strconv_ErrSyntax]))"

definition strings_HasPrefix :: "string \<Rightarrow> string \<Rightarrow> bool" where
  "strings_HasPrefix s p = (take (length p) s = p)"

fun strings_Join :: "string list \<Rightarrow> string \<Rightarrow> string" where
  "strings_Join [] sep = []"
| "strings_Join [s] sep = s"
| "strings_Join (s # ss) sep = s @ sep @ strings_Join ss sep"

text \<open>\<open>string(b)\<close> of a byte is the UTF-8 encoding of the code point, two bytes from 128 on.\<close>

definition go_string_of_byte :: "char \<Rightarrow> string" where
  "go_string_of_byte c =
     (let n = of_char c :: nat in if n < 128 then [c] else [char_of (192 + n div 64), char_of (128 + n mod 64)])"

subsection \<open>Sentinels (\<open>errors.go\<close>)\<close>

definition clix_ErrHelp :: goerr where "clix_ErrHelp = Sentinel ''clix: help requested''"
definition clix_ErrVersion :: goerr where "clix_ErrVersion = Sentinel ''clix: version requested''"
definition clix_ErrUnknownFlag :: goerr where "clix_ErrUnknownFlag = Sentinel ''clix: unknown flag''"
definition clix_ErrUnknownCommand :: goerr where "clix_ErrUnknownCommand = Sentinel ''clix: unknown command''"
definition clix_ErrMissingValue :: goerr where "clix_ErrMissingValue = Sentinel ''clix: missing value for flag''"
definition clix_ErrInvalidValue :: goerr where "clix_ErrInvalidValue = Sentinel ''clix: invalid value for flag''"
definition clix_ErrRequired :: goerr where "clix_ErrRequired = Sentinel ''clix: required flag not provided''"
definition clix_ErrEnumViolated :: goerr where "clix_ErrEnumViolated = Sentinel ''clix: value not in allowed enum set''"

definition clix_errUnknownCommand :: "string \<Rightarrow> string list \<Rightarrow> goerr" where
  "clix_errUnknownCommand cmd available =
     Errorf (''%w: '' @ cmd @ ''; available: '' @ strings_Join available '', '') [clix_ErrUnknownCommand]"

definition clix_errUnknownFlag :: "string \<Rightarrow> goerr" where
  "clix_errUnknownFlag flag = Errorf (''%w: '' @ flag) [clix_ErrUnknownFlag]"

definition clix_errMissingValue :: "string \<Rightarrow> goerr" where
  "clix_errMissingValue flag = Errorf (''%w: '' @ flag) [clix_ErrMissingValue]"

definition clix_errInvalidValue :: "string \<Rightarrow> string \<Rightarrow> goerr \<Rightarrow> goerr" where
  "clix_errInvalidValue flag raw cause =
     Errorf (''%w: --'' @ flag @ '' (raw='' @ raw @ ''): %w'') [clix_ErrInvalidValue, cause]"

definition clix_errRequired :: "string \<Rightarrow> goerr" where
  "clix_errRequired flag = Errorf (''%w: --'' @ flag) [clix_ErrRequired]"

text \<open>\<open>%v\<close> of a slice prints its elements between brackets, separated by spaces.\<close>

fun clix_Sprint :: "('f, 't) clix_std \<Rightarrow> ('f, 't) clix_value \<Rightarrow> string" where
  "clix_Sprint std (VString s) = s"
| "clix_Sprint std (VInt i) = FormatInt i"
| "clix_Sprint std (VBool b) = (if b then ''true'' else ''false'')"
| "clix_Sprint std (VFloat64 x) = sd_Sprint_float std x"
| "clix_Sprint std (VDuration d) = sd_Duration_String std d"
| "clix_Sprint std (VTime t) = sd_Sprint_time std t"
| "clix_Sprint std (VOther n) = []"

definition clix_errEnumViolated :: "('f, 't) clix_std \<Rightarrow> string \<Rightarrow> string \<Rightarrow> ('f, 't) clix_value list \<Rightarrow> goerr" where
  "clix_errEnumViolated std flag raw allowed =
     Errorf (''%w: --'' @ flag @ '' (raw='' @ raw @ '', allowed=['' @ strings_Join (map (clix_Sprint std) allowed) '' '' @ ''])'')
       [clix_ErrEnumViolated]"

subsection \<open>Help labels (\<open>help_labels.go\<close>)\<close>

record clix_HelpLabels =
  hl_Usage :: string
  hl_Commands :: string
  hl_Flags :: string
  hl_GlobalFlags :: string
  hl_FlagsMetavar :: string
  hl_CommandMetavar :: string
  hl_HelpFlag :: string
  hl_VersionFlag :: string
  hl_Required :: string
  hl_OneOf :: string
  hl_EmptyString :: string

definition clix_defaultHelpLabels :: clix_HelpLabels where
  "clix_defaultHelpLabels = \<lparr>
     hl_Usage = ''USAGE'', hl_Commands = ''COMMANDS'', hl_Flags = ''FLAGS'', hl_GlobalFlags = ''GLOBAL FLAGS'',
     hl_FlagsMetavar = ''[flags]'', hl_CommandMetavar = ''[command]'', hl_HelpFlag = ''show help'',
     hl_VersionFlag = ''print version'', hl_Required = ''required'', hl_OneOf = ''one of: %s'', hl_EmptyString = ''<string>''\<rparr>"

definition clix_withDefaults :: "clix_HelpLabels \<Rightarrow> clix_HelpLabels" where
  "clix_withDefaults l =
     (let d = clix_defaultHelpLabels;
          pick = (\<lambda>f. if f l = [] then f d else f l)
      in \<lparr>hl_Usage = pick hl_Usage, hl_Commands = pick hl_Commands, hl_Flags = pick hl_Flags,
          hl_GlobalFlags = pick hl_GlobalFlags, hl_FlagsMetavar = pick hl_FlagsMetavar,
          hl_CommandMetavar = pick hl_CommandMetavar, hl_HelpFlag = pick hl_HelpFlag,
          hl_VersionFlag = pick hl_VersionFlag, hl_Required = pick hl_Required, hl_OneOf = pick hl_OneOf,
          hl_EmptyString = pick hl_EmptyString\<rparr>)"

subsection \<open>Commands and flags (\<open>types.go\<close>)\<close>

text \<open>
  \<open>setFunc\<close> and \<open>resetFunc\<close> of a flag are closures over its name, its target, its default and the slice of its enum values: they are
  functions of the flag (\<open>clix_setFunc\<close>, \<open>clix_resetFunc\<close>).
\<close>

record ('f, 't) clix_flagMeta =
  fm_name :: string
  fm_short :: string
  fm_usage :: string
  fm_isBool :: bool
  fm_required :: bool
  fm_defValue :: "('f, 't) clix_value"
  fm_enumValues :: "('f, 't) clix_value list"
  fm_target :: nat

text \<open>
  The map \<open>subcommands\<close> sends names and aliases to children; \<open>cm_keys\<close> gives the child's own name, and the children are listed under it
  in the order of \<open>subOrder\<close>.
\<close>

record ('f, 't, 'a) clix_node =
  cm_name :: string
  cm_description :: string
  cm_flags :: "('f, 't) clix_flagMeta list"
  cm_keys :: "(string \<times> string) list"
  cm_aliases :: "string list"
  cm_action :: "'a option"
  cm_hasAction :: bool
  cm_version :: string
  cm_helpLabels :: "clix_HelpLabels option"
  cm_flagMap :: "(string \<times> ('f, 't) clix_flagMeta) list"
  cm_shortMap :: "(string \<times> string) list"

datatype ('f, 't, 'a) clix_Command =
  Command (cm_node: "('f, 't, 'a) clix_node") (cm_subs: "(string \<times> ('f, 't, 'a) clix_Command) list")

definition clix_newCommand :: "string \<Rightarrow> string \<Rightarrow> ('f, 't, 'a) clix_Command" where
  "clix_newCommand name desc = Command \<lparr>
     cm_name = name, cm_description = desc, cm_flags = [], cm_keys = [], cm_aliases = [], cm_action = None, cm_hasAction = False,
     cm_version = [], cm_helpLabels = None, cm_flagMap = [], cm_shortMap = []\<rparr> []"

definition clix_flag :: "('f, 't, 'a) clix_Command \<Rightarrow> string \<Rightarrow> ('f, 't) clix_flagMeta option" where
  "clix_flag c = map_of (cm_flagMap (cm_node c))"

definition clix_short :: "('f, 't, 'a) clix_Command \<Rightarrow> string \<Rightarrow> string option" where
  "clix_short c = map_of (cm_shortMap (cm_node c))"

definition clix_subcommand :: "('f, 't, 'a) clix_Command \<Rightarrow> string \<Rightarrow> (string \<times> ('f, 't, 'a) clix_Command) option" where
  "clix_subcommand c key =
     (case map_of (cm_keys (cm_node c)) key of
        None \<Rightarrow> None
      | Some name \<Rightarrow> map_option (Pair name) (map_of (cm_subs c) name))"

definition clix_subOrder :: "('f, 't, 'a) clix_Command \<Rightarrow> string list" where
  "clix_subOrder c = map fst (cm_subs c)"

definition clix_node_upd ::
    "(('f, 't, 'a) clix_node \<Rightarrow> ('f, 't, 'a) clix_node) \<Rightarrow> ('f, 't, 'a) clix_Command \<Rightarrow> ('f, 't, 'a) clix_Command" where
  "clix_node_upd g c = Command (g (cm_node c)) (cm_subs c)"

text \<open>\<open>root\<close> walks to the top: the last of the command and its ancestors.\<close>

definition clix_root :: "('f, 't, 'a) clix_Command list \<Rightarrow> ('f, 't, 'a) clix_Command" where
  "clix_root chain = last chain"

subsection \<open>Options (\<open>options.go\<close>)\<close>

text \<open>The programming mistakes that panic while the tree is built.\<close>

datatype clix_panic =
    PEmptyCommand
  | PEmptySubcommand
  | PDuplicateSubcommand string
  | PDuplicateAlias string
  | PDuplicateRun string
  | PEmptyAlias
  | PVersionOnSubCommand
  | PDuplicateVersion
  | PLabelsOnSubCommand
  | PUnsupportedType clix_type
  | PEmptyFlag
  | PShortLength string
  | PNilTarget string
  | PReservedHelp
  | PReservedVersion
  | PDuplicateFlag string
  | PDuplicateShort string
  | PShadowFlag string string string
  | PShadowShort string string string
  | PEnumType clix_type clix_type

text \<open>\<open>FlagOption\<close> and \<open>Option\<close> values, with the arguments of the function that makes them; \<open>FNil\<close> and \<open>ONil\<close> are nil.\<close>

datatype ('f, 't) clix_FlagOption = FNil | FRequired | FEnum "('f, 't) clix_value list"

datatype ('f, 't, 'a) clix_Option =
    ONil
  | OAddFlag "nat option" string string "('f, 't) clix_value" string "('f, 't) clix_FlagOption list"
  | OSubCommand string string "('f, 't, 'a) clix_Option list"
  | ORun "'a option"
  | OAlias "string list"
  | OVersion string
  | OWithHelpLabels clix_HelpLabels

fun clix_FlagOption_apply :: "('f, 't) clix_FlagOption \<Rightarrow> ('f, 't) clix_flagMeta \<Rightarrow> ('f, 't) clix_flagMeta" where
  "clix_FlagOption_apply FNil m = m"
| "clix_FlagOption_apply FRequired m = m\<lparr>fm_required := True\<rparr>"
| "clix_FlagOption_apply (FEnum vals) m = m\<lparr>fm_enumValues := vals\<rparr>"

definition clix_assertSupportedType :: "('f, 't) clix_value \<Rightarrow> bool" where
  "clix_assertSupportedType v = (case clix_TypeOf v of TOther _ \<Rightarrow> False | _ \<Rightarrow> True)"

definition clix_assertNotReserved ::
    "('f, 't, 'a) clix_Command list \<Rightarrow> string \<Rightarrow> string \<Rightarrow> clix_panic option" where
  "clix_assertNotReserved chain name short =
     (if name = ''help'' \<or> short = ''h'' then Some PReservedHelp
      else if cm_version (cm_node (clix_root chain)) \<noteq> [] \<and> (name = ''version'' \<or> short = ''V'') then Some PReservedVersion
      else None)"

text \<open>The argument lists the ancestors of the command \<open>cname\<close>, its parent first.\<close>

fun clix_assertNoShadowFlag :: "('f, 't, 'a) clix_Command list \<Rightarrow> string \<Rightarrow> string \<Rightarrow> string \<Rightarrow> clix_panic option" where
  "clix_assertNoShadowFlag [] cname name short = None"
| "clix_assertNoShadowFlag (p # up) cname name short =
     (if clix_flag p name \<noteq> None then Some (PShadowFlag name cname (cm_name (cm_node p)))
      else if short \<noteq> [] \<and> clix_short p short \<noteq> None then Some (PShadowShort short cname (cm_name (cm_node p)))
      else clix_assertNoShadowFlag up cname name short)"

fun clix_assertNoVersionCollision :: "('f, 't, 'a) clix_Command \<Rightarrow> bool" where
  "clix_assertNoVersionCollision (Command n subs) =
     (map_of (cm_flagMap n) ''version'' = None \<and> map_of (cm_shortMap n) ''V'' = None \<and>
      list_all (\<lambda>s. clix_assertNoVersionCollision (snd s)) subs)"

text \<open>
  An option changes the command it is applied to and, for \<open>AddFlag\<close>, writes the default to the bound variable. \<open>anc\<close> are the ancestors
  of the command.
\<close>

type_synonym ('f, 't) clix_vars = "nat \<Rightarrow> ('f, 't) clix_value"
type_synonym ('f, 't, 'a) clix_build = "('f, 't, 'a) clix_Command \<times> ('f, 't) clix_vars"

definition clix_new_flag ::
    "nat \<Rightarrow> string \<Rightarrow> string \<Rightarrow> ('f, 't) clix_value \<Rightarrow> string \<Rightarrow> ('f, 't) clix_FlagOption list \<Rightarrow> ('f, 't) clix_flagMeta" where
  "clix_new_flag target name short def usage extras =
     fold clix_FlagOption_apply extras
       \<lparr>fm_name = name, fm_short = short, fm_usage = usage, fm_isBool = (clix_TypeOf def = TBool), fm_required = False,
        fm_defValue = def, fm_enumValues = [], fm_target = target\<rparr>"

definition clix_node_add :: "('f, 't) clix_flagMeta \<Rightarrow> ('f, 't, 'a) clix_node \<Rightarrow> ('f, 't, 'a) clix_node" where
  "clix_node_add m n =
     n\<lparr>cm_flags := cm_flags n @ [m], cm_flagMap := (fm_name m, m) # cm_flagMap n,
       cm_shortMap := (if fm_short m \<noteq> [] then (fm_short m, fm_name m) # cm_shortMap n else cm_shortMap n)\<rparr>"

definition clix_register :: "('f, 't) clix_flagMeta \<Rightarrow> ('f, 't, 'a) clix_build \<Rightarrow> ('f, 't, 'a) clix_build" where
  "clix_register m b = (clix_node_upd (clix_node_add m) (fst b), (snd b)(fm_target m := fm_defValue m))"

definition clix_AddFlag ::
    "('f, 't, 'a) clix_Command list \<Rightarrow> nat option \<Rightarrow> string \<Rightarrow> string \<Rightarrow> ('f, 't) clix_value \<Rightarrow> string \<Rightarrow>
     ('f, 't) clix_FlagOption list \<Rightarrow> ('f, 't, 'a) clix_build \<Rightarrow> clix_panic + ('f, 't, 'a) clix_build" where
  "clix_AddFlag anc target name short def usage extras b =
     (let c = fst b in
      if name = [] then Inl PEmptyFlag
      else if short \<noteq> [] \<and> length short \<noteq> 1 then Inl (PShortLength short)
      else case target of
        None \<Rightarrow> Inl (PNilTarget name)
      | Some t \<Rightarrow>
          (case clix_assertNotReserved (c # anc) name short of
             Some e \<Rightarrow> Inl e
           | None \<Rightarrow>
               if clix_flag c name \<noteq> None then Inl (PDuplicateFlag name)
               else if short \<noteq> [] \<and> clix_short c short \<noteq> None then Inl (PDuplicateShort short)
               else case clix_assertNoShadowFlag anc (cm_name (cm_node c)) name short of
                 Some e \<Rightarrow> Inl e
               | None \<Rightarrow>
                   (let m = clix_new_flag t name short def usage extras in
                    case find (\<lambda>ev. clix_TypeOf ev \<noteq> clix_TypeOf def) (fm_enumValues m) of
                      Some ev \<Rightarrow> Inl (PEnumType (clix_TypeOf ev) (clix_TypeOf def))
                    | None \<Rightarrow> Inr (clix_register m b))))"

definition clix_Run :: "'a option \<Rightarrow> ('f, 't, 'a) clix_Command \<Rightarrow> clix_panic + ('f, 't, 'a) clix_Command" where
  "clix_Run fn c =
     (if cm_hasAction (cm_node c) then Inl (PDuplicateRun (cm_name (cm_node c)))
      else Inr (clix_node_upd (\<lambda>n. n\<lparr>cm_action := fn, cm_hasAction := True\<rparr>) c))"

definition clix_Alias :: "string list \<Rightarrow> ('f, 't, 'a) clix_Command \<Rightarrow> clix_panic + ('f, 't, 'a) clix_Command" where
  "clix_Alias names c =
     (if [] \<in> set names then Inl PEmptyAlias
      else Inr (clix_node_upd (\<lambda>n. n\<lparr>cm_aliases := cm_aliases n @ names\<rparr>) c))"

definition clix_Version ::
    "('f, 't, 'a) clix_Command list \<Rightarrow> string \<Rightarrow> ('f, 't, 'a) clix_Command \<Rightarrow> clix_panic + ('f, 't, 'a) clix_Command" where
  "clix_Version anc v c =
     (if anc \<noteq> [] then Inl PVersionOnSubCommand
      else if cm_version (cm_node c) \<noteq> [] then Inl PDuplicateVersion
      else if v = [] then Inr c
      else if \<not> clix_assertNoVersionCollision c then Inl PReservedVersion
      else Inr (clix_node_upd (\<lambda>n. n\<lparr>cm_version := v\<rparr>) c))"

definition clix_WithHelpLabels ::
    "('f, 't, 'a) clix_Command list \<Rightarrow> clix_HelpLabels \<Rightarrow> ('f, 't, 'a) clix_Command \<Rightarrow> clix_panic + ('f, 't, 'a) clix_Command" where
  "clix_WithHelpLabels anc l c =
     (if anc \<noteq> [] then Inl PLabelsOnSubCommand
      else Inr (clix_node_upd (\<lambda>n. n\<lparr>cm_helpLabels := Some (clix_withDefaults l)\<rparr>) c))"

text \<open>The last part of \<open>SubCommand\<close>: the child is entered under its name, then under each of its aliases.\<close>

definition clix_attach :: "string \<Rightarrow> ('f, 't, 'a) clix_Command \<Rightarrow> ('f, 't, 'a) clix_Command \<Rightarrow> ('f, 't, 'a) clix_Command" where
  "clix_attach name child parent =
     Command ((cm_node parent)\<lparr>cm_keys := (name, name) # cm_keys (cm_node parent)\<rparr>) (cm_subs parent @ [(name, child)])"

fun clix_attach_aliases ::
    "string \<Rightarrow> string list \<Rightarrow> ('f, 't, 'a) clix_Command \<Rightarrow> clix_panic + ('f, 't, 'a) clix_Command" where
  "clix_attach_aliases name [] parent = Inr parent"
| "clix_attach_aliases name (alias # names) parent =
     (if clix_subcommand parent alias \<noteq> None then Inl (PDuplicateAlias alias)
      else clix_attach_aliases name names (clix_node_upd (\<lambda>n. n\<lparr>cm_keys := (alias, name) # cm_keys n\<rparr>) parent))"

definition clix_with_vars ::
    "('f, 't) clix_vars \<Rightarrow> clix_panic + ('f, 't, 'a) clix_Command \<Rightarrow> clix_panic + ('f, 't, 'a) clix_build" where
  "clix_with_vars vars r = (case r of Inl e \<Rightarrow> Inl e | Inr c \<Rightarrow> Inr (c, vars))"

fun clix_Option_apply ::
    "('f, 't, 'a) clix_Command list \<Rightarrow> ('f, 't, 'a) clix_Option \<Rightarrow> ('f, 't, 'a) clix_build \<Rightarrow> clix_panic + ('f, 't, 'a) clix_build"
  and clix_options ::
    "('f, 't, 'a) clix_Command list \<Rightarrow> ('f, 't, 'a) clix_Option list \<Rightarrow> ('f, 't, 'a) clix_build \<Rightarrow> clix_panic + ('f, 't, 'a) clix_build"
where
  "clix_Option_apply anc ONil b = Inr b"
| "clix_Option_apply anc (OAddFlag target name short def usage extras) b = clix_AddFlag anc target name short def usage extras b"
| "clix_Option_apply anc (ORun fn) b = clix_with_vars (snd b) (clix_Run fn (fst b))"
| "clix_Option_apply anc (OAlias names) b = clix_with_vars (snd b) (clix_Alias names (fst b))"
| "clix_Option_apply anc (OVersion v) b = clix_with_vars (snd b) (clix_Version anc v (fst b))"
| "clix_Option_apply anc (OWithHelpLabels l) b = clix_with_vars (snd b) (clix_WithHelpLabels anc l (fst b))"
| "clix_Option_apply anc (OSubCommand name desc opts) b =
     (if name = [] then Inl PEmptySubcommand
      else if clix_subcommand (fst b) name \<noteq> None then Inl (PDuplicateSubcommand name)
      else case clix_options (fst b # anc) opts (clix_newCommand name desc, snd b) of
        Inl e \<Rightarrow> Inl e
      | Inr (child, vars) \<Rightarrow>
          clix_with_vars vars (clix_attach_aliases name (cm_aliases (cm_node child)) (clix_attach name child (fst b))))"
| "clix_options anc [] b = Inr b"
| "clix_options anc (opt # opts) b =
     (case clix_Option_apply anc opt b of Inl e \<Rightarrow> Inl e | Inr b' \<Rightarrow> clix_options anc opts b')"

text \<open>\<open>AddFlag\<close> checks the type of its default when it is called, so before any option is applied: all calls are arguments of \<open>New\<close>.\<close>

fun clix_unsupported :: "('f, 't, 'a) clix_Option \<Rightarrow> clix_type list" where
  "clix_unsupported (OAddFlag _ _ _ def _ _) = (if clix_assertSupportedType def then [] else [clix_TypeOf def])"
| "clix_unsupported (OSubCommand _ _ opts) = concat (map clix_unsupported opts)"
| "clix_unsupported _ = []"

definition clix_build_tree ::
    "string \<Rightarrow> string \<Rightarrow> ('f, 't, 'a) clix_Option list \<Rightarrow> ('f, 't) clix_vars \<Rightarrow> clix_panic + ('f, 't, 'a) clix_build" where
  "clix_build_tree name desc opts vars =
     (case concat (map clix_unsupported opts) of
        t # _ \<Rightarrow> Inl (PUnsupportedType t)
      | [] \<Rightarrow>
          if name = [] then Inl PEmptyCommand
          else clix_options [] opts (clix_newCommand name desc, vars))"

end
