(* ===== verification/Clix_Parse.thy ===== *)
theory Clix_Parse
  imports Clix
begin

text \<open>
  The parser of \<open>clix\<close> (\<open>parse.go\<close>, \<open>clix.go\<close>): tokens are walked once, flags are resolved along the chain of commands, values are parsed,
  checked and stored. A command is identified by its path, the names from it up to the root. The chain that the code follows through
  \<open>parent\<close> pointers is the list of the matched command and its ancestors, each with its path. \<open>args[*i]\<close> and what follows it are a list of
  tokens; a function that advances \<open>i\<close> returns the rest.
\<close>

subsection \<open>State\<close>

type_synonym clix_path = "string list"
type_synonym ('f, 't, 'a) clix_chain = "(clix_path \<times> ('f, 't, 'a) clix_Command) list"

text \<open>\<open>pr_set\<close> and \<open>pr_args\<close> are the fields \<open>set\<close> of every flag and \<open>args\<close> of every command, \<open>pr_vars\<close> the variables bound to flags.\<close>

record ('f, 't, 'a) clix_Parser =
  pr_root :: "('f, 't, 'a) clix_Command"
  pr_matched :: clix_path
  pr_version :: string
  pr_parseErr :: goerror
  pr_set :: "clix_path \<Rightarrow> string \<Rightarrow> bool"
  pr_args :: "clix_path \<Rightarrow> string list"
  pr_vars :: "('f, 't) clix_vars"

definition clix_put_args :: "clix_path \<Rightarrow> string list \<Rightarrow> ('f, 't, 'a) clix_Parser \<Rightarrow> ('f, 't, 'a) clix_Parser" where
  "clix_put_args path toks p = p\<lparr>pr_args := (pr_args p)(path := pr_args p path @ toks)\<rparr>"

subsection \<open>Tokens\<close>

definition clix_tokenIs :: "string \<Rightarrow> string \<Rightarrow> string \<Rightarrow> bool" where
  "clix_tokenIs arg long short =
     (arg = long \<or> arg = short \<or> strings_HasPrefix arg (long @ ''='') \<or> strings_HasPrefix arg (short @ ''=''))"

definition clix_isHelpToken :: "string \<Rightarrow> bool" where
  "clix_isHelpToken arg = clix_tokenIs arg ''--help'' ''-h''"

definition clix_isVersionToken :: "string \<Rightarrow> bool" where
  "clix_isVersionToken arg = clix_tokenIs arg ''--version'' ''-V''"

definition clix_isASCIIDigit :: "char \<Rightarrow> bool" where
  "clix_isASCIIDigit b = (48 \<le> (of_char b :: nat) \<and> (of_char b :: nat) \<le> 57)"

definition clix_nextTokenLooksLikeFlag :: "string \<Rightarrow> bool" where
  "clix_nextTokenLooksLikeFlag arg =
     (if arg = [] \<or> arg = ''-'' then False
      else if strings_HasPrefix arg ''--'' then True
      else if hd arg \<noteq> CHR ''-'' \<or> length arg < 2 then False
      else \<not> clix_isASCIIDigit (arg ! 1))"

text \<open>\<open>strings.IndexByte\<close> finds the first \<open>=\<close>.\<close>

definition clix_splitFlag :: "string \<Rightarrow> string \<times> string \<times> bool" where
  "clix_splitFlag arg =
     (let raw = (if strings_HasPrefix arg ''--'' then drop 2 arg
                 else if strings_HasPrefix arg ''-'' then drop 1 arg else arg)
      in if CHR ''='' \<in> set raw
         then (takeWhile (\<lambda>c. c \<noteq> CHR ''='') raw, tl (dropWhile (\<lambda>c. c \<noteq> CHR ''='') raw), True)
         else (raw, [], False))"

definition clix_takeNextFlagValue :: "string list \<Rightarrow> string \<Rightarrow> goerr + string \<times> string list" where
  "clix_takeNextFlagValue rest flagTok =
     (case rest of
        [] \<Rightarrow> Inl (clix_errMissingValue flagTok)
      | next' # rest' \<Rightarrow>
          if clix_nextTokenLooksLikeFlag next' then Inl (clix_errMissingValue flagTok) else Inr (next', rest'))"

subsection \<open>Resolving flags\<close>

fun clix_resolveFlag :: "('f, 't, 'a) clix_chain \<Rightarrow> string \<Rightarrow> (clix_path \<times> ('f, 't) clix_flagMeta) option" where
  "clix_resolveFlag [] name = None"
| "clix_resolveFlag ((path, c) # up) name =
     (case clix_flag c name of Some m \<Rightarrow> Some (path, m) | None \<Rightarrow> clix_resolveFlag up name)"

fun clix_resolveShort :: "('f, 't, 'a) clix_chain \<Rightarrow> string \<Rightarrow> string option" where
  "clix_resolveShort [] short = None"
| "clix_resolveShort ((path, c) # up) short =
     (case clix_short c short of Some name \<Rightarrow> Some name | None \<Rightarrow> clix_resolveShort up short)"

subsection \<open>Values\<close>

definition clix_parseValue :: "('f, 't) clix_std \<Rightarrow> clix_type \<Rightarrow> string \<Rightarrow> goerr + ('f, 't) clix_value" where
  "clix_parseValue std T s =
     (case T of
        TString \<Rightarrow> Inr (VString s)
      | TInt \<Rightarrow> map_sum id VInt (strconv_Atoi s)
      | TBool \<Rightarrow> map_sum id VBool (strconv_ParseBool s)
      | TFloat64 \<Rightarrow> map_sum id VFloat64 (sd_ParseFloat std s)
      | TDuration \<Rightarrow> map_sum id VDuration (sd_ParseDuration std s)
      | TTime \<Rightarrow> map_sum id VTime (sd_ParseTime std s)
      | TOther n \<Rightarrow> Inl (Errorf ''unsupported flag type'' []))"

text \<open>\<open>==\<close> on interface values: the same type and equal values.\<close>

fun clix_eq :: "('f, 't) clix_std \<Rightarrow> ('f, 't) clix_value \<Rightarrow> ('f, 't) clix_value \<Rightarrow> bool" where
  "clix_eq std (VFloat64 x) (VFloat64 y) = sd_float_eq std x y"
| "clix_eq std (VTime x) (VTime y) = sd_time_eq std x y"
| "clix_eq std (VString x) (VString y) = (x = y)"
| "clix_eq std (VInt x) (VInt y) = (x = y)"
| "clix_eq std (VBool x) (VBool y) = (x = y)"
| "clix_eq std (VDuration x) (VDuration y) = (x = y)"
| "clix_eq std v w = False"

definition clix_enumAllowed :: "('f, 't) clix_std \<Rightarrow> ('f, 't) clix_value \<Rightarrow> ('f, 't) clix_value list \<Rightarrow> bool" where
  "clix_enumAllowed std v vals = list_ex (clix_eq std v) vals"

text \<open>The closures \<open>setFunc\<close> and \<open>resetFunc\<close> that \<open>AddFlag\<close> stores in a flag; \<open>path\<close> is the command that owns it.\<close>

definition clix_store ::
    "clix_path \<times> ('f, 't) clix_flagMeta \<Rightarrow> ('f, 't) clix_value \<Rightarrow> ('f, 't, 'a) clix_Parser \<Rightarrow> ('f, 't, 'a) clix_Parser" where
  "clix_store f v p =
     p\<lparr>pr_vars := (pr_vars p)(fm_target (snd f) := v),
       pr_set := (pr_set p)(fst f := (pr_set p (fst f))(fm_name (snd f) := True))\<rparr>"

definition clix_check :: "('f, 't) clix_std \<Rightarrow> ('f, 't) clix_flagMeta \<Rightarrow> string \<Rightarrow> goerr + ('f, 't) clix_value" where
  "clix_check std m s =
     (case clix_parseValue std (clix_TypeOf (fm_defValue m)) s of
        Inl e \<Rightarrow> Inl (clix_errInvalidValue (fm_name m) s e)
      | Inr v \<Rightarrow>
          if fm_enumValues m \<noteq> [] \<and> \<not> clix_enumAllowed std v (fm_enumValues m)
          then Inl (clix_errEnumViolated std (fm_name m) s (fm_enumValues m)) else Inr v)"

definition clix_setFunc ::
    "('f, 't) clix_std \<Rightarrow> clix_path \<times> ('f, 't) clix_flagMeta \<Rightarrow> string \<Rightarrow> ('f, 't, 'a) clix_Parser \<Rightarrow>
     ('f, 't, 'a) clix_Parser \<times> goerror" where
  "clix_setFunc std f s p =
     (case clix_check std (snd f) s of Inl e \<Rightarrow> (p, Some e) | Inr v \<Rightarrow> (clix_store f v p, None))"

definition clix_resetFunc :: "('f, 't) clix_flagMeta \<Rightarrow> ('f, 't) clix_vars \<Rightarrow> ('f, 't) clix_vars" where
  "clix_resetFunc m vars = vars(fm_target m := fm_defValue m)"

definition clix_applyBoolNegation ::
    "('f, 't) clix_std \<Rightarrow> clix_path \<times> ('f, 't) clix_flagMeta \<Rightarrow> string \<Rightarrow> string \<Rightarrow> bool \<Rightarrow> ('f, 't, 'a) clix_Parser \<Rightarrow>
     ('f, 't, 'a) clix_Parser \<times> goerror" where
  "clix_applyBoolNegation std f name inlineVal hasEq p =
     (if \<not> hasEq then clix_setFunc std f ''false'' p
      else case strconv_ParseBool inlineVal of
        Inl e \<Rightarrow> (p, Some (clix_errInvalidValue name inlineVal e))
      | Inr parsed \<Rightarrow> clix_setFunc std f (if parsed then ''false'' else ''true'') p)"

subsection \<open>The walk over the tokens\<close>

text \<open>\<open>chars\<close> are the characters of the group still to be read, \<open>rest\<close> the tokens after it.\<close>

fun clix_parseShortGroup ::
    "('f, 't) clix_std \<Rightarrow> ('f, 't, 'a) clix_chain \<Rightarrow> string \<Rightarrow> string list \<Rightarrow> ('f, 't, 'a) clix_Parser \<Rightarrow>
     ('f, 't, 'a) clix_Parser \<times> goerror \<times> string list" where
  "clix_parseShortGroup std chain [] rest p = (p, None, rest)"
| "clix_parseShortGroup std chain (c # chars) rest p =
     (let short = go_string_of_byte c; path = fst (hd chain) in
      if short = ''h'' then (p\<lparr>pr_matched := path\<rparr>, Some clix_ErrHelp, rest)
      else if pr_version p \<noteq> [] \<and> short = ''V'' then (p\<lparr>pr_matched := path\<rparr>, Some clix_ErrVersion, rest)
      else case clix_resolveShort chain short of
        None \<Rightarrow> (p, Some (clix_errUnknownFlag (''-'' @ short)), rest)
      | Some canonical \<Rightarrow>
          (case clix_resolveFlag chain canonical of
             None \<Rightarrow> (p, Some (clix_errUnknownFlag (''-'' @ short)), rest)
           | Some f \<Rightarrow>
               if fm_isBool (snd f) then
                 (case clix_setFunc std f ''true'' p of
                    (p1, Some e) \<Rightarrow> (p1, Some e, rest)
                  | (p1, None) \<Rightarrow> clix_parseShortGroup std chain chars rest p1)
               else if chars \<noteq> [] then (case clix_setFunc std f chars p of (p1, e) \<Rightarrow> (p1, e, rest))
               else case clix_takeNextFlagValue rest (''-'' @ short) of
                 Inl e \<Rightarrow> (p, Some e, rest)
               | Inr (val, rest1) \<Rightarrow> (case clix_setFunc std f val p of (p1, e) \<Rightarrow> (p1, e, rest1))))"

text \<open>The tail of \<open>parseLongOrShort\<close>, once the flag is known.\<close>

definition clix_setFlag ::
    "('f, 't) clix_std \<Rightarrow> clix_path \<times> ('f, 't) clix_flagMeta \<Rightarrow> string \<Rightarrow> string \<Rightarrow> bool \<Rightarrow> string list \<Rightarrow> ('f, 't, 'a) clix_Parser \<Rightarrow>
     ('f, 't, 'a) clix_Parser \<times> goerror \<times> string list" where
  "clix_setFlag std f arg inlineVal hasEq rest p =
     (if fm_isBool (snd f) then
        (case clix_setFunc std f (if hasEq then inlineVal else ''true'') p of (p1, e) \<Rightarrow> (p1, e, rest))
      else if hasEq then (case clix_setFunc std f inlineVal p of (p1, e) \<Rightarrow> (p1, e, rest))
      else case clix_takeNextFlagValue rest arg of
        Inl e \<Rightarrow> (p, Some e, rest)
      | Inr (val, rest1) \<Rightarrow> (case clix_setFunc std f val p of (p1, e) \<Rightarrow> (p1, e, rest1)))"

definition clix_parseLongOrShort ::
    "('f, 't) clix_std \<Rightarrow> ('f, 't, 'a) clix_chain \<Rightarrow> string \<Rightarrow> string list \<Rightarrow> ('f, 't, 'a) clix_Parser \<Rightarrow>
     ('f, 't, 'a) clix_Parser \<times> goerror \<times> string list" where
  "clix_parseLongOrShort std chain arg rest p =
     (case clix_splitFlag arg of (name0, inlineVal, hasEq) \<Rightarrow>
        let long = strings_HasPrefix arg ''--''
        in case (if long then Some name0 else clix_resolveShort chain name0) of
          None \<Rightarrow> (p, Some (clix_errUnknownFlag arg), rest)
        | Some name \<Rightarrow>
            (case clix_resolveFlag chain name of
               Some f \<Rightarrow> clix_setFlag std f arg inlineVal hasEq rest p
             | None \<Rightarrow>
                 (case (if long \<and> strings_HasPrefix name ''no-'' then clix_resolveFlag chain (drop 3 name) else None) of
                    Some f \<Rightarrow>
                      if fm_isBool (snd f)
                      then (case clix_applyBoolNegation std f name inlineVal hasEq p of (p1, e) \<Rightarrow> (p1, e, rest))
                      else (p, Some (clix_errUnknownFlag arg), rest)
                  | None \<Rightarrow> (p, Some (clix_errUnknownFlag arg), rest))))"

fun clix_checkRequired :: "('f, 't, 'a) clix_chain \<Rightarrow> (clix_path \<Rightarrow> string \<Rightarrow> bool) \<Rightarrow> goerror" where
  "clix_checkRequired [] marks = None"
| "clix_checkRequired ((path, c) # up) marks =
     (case find (\<lambda>m. fm_required m \<and> \<not> marks path (fm_name m)) (cm_flags (cm_node c)) of
        Some m \<Rightarrow> Some (clix_errRequired (fm_name m))
      | None \<Rightarrow> clix_checkRequired up marks)"

text \<open>A command that only routes to its subcommands takes no positional arguments.\<close>

definition clix_routing :: "('f, 't, 'a) clix_Command \<Rightarrow> bool" where
  "clix_routing c = (cm_keys (cm_node c) \<noteq> [] \<and> cm_action (cm_node c) = None)"

lemma clix_takeNext_rest: "clix_takeNextFlagValue rest tok = Inr (v, rest') \<Longrightarrow> length rest' \<le> length rest"
  by (auto simp: clix_takeNextFlagValue_def split: list.splits if_splits)

lemma clix_parseShortGroup_rest: "clix_parseShortGroup std chain chars rest p = (p', e, rest') \<Longrightarrow> length rest' \<le> length rest"
  by (induction std chain chars rest p rule: clix_parseShortGroup.induct)
    (auto simp: Let_def dest: clix_takeNext_rest split: if_splits option.splits sum.splits prod.splits)

lemma clix_setFlag_rest: "clix_setFlag std f arg v eq rest p = (p', e, rest') \<Longrightarrow> length rest' \<le> length rest"
  by (auto simp: clix_setFlag_def dest: clix_takeNext_rest split: if_splits sum.splits prod.splits)

lemma clix_parseLongOrShort_rest: "clix_parseLongOrShort std chain arg rest p = (p', e, rest') \<Longrightarrow> length rest' \<le> length rest"
  by (auto simp: clix_parseLongOrShort_def Let_def dest: clix_setFlag_rest split: if_splits option.splits prod.splits)

text \<open>The dispatch at the end of the loop body, for a token that starts with a dash: a group of short flags or a single flag.\<close>

definition clix_flagToken ::
    "('f, 't) clix_std \<Rightarrow> ('f, 't, 'a) clix_chain \<Rightarrow> string \<Rightarrow> string list \<Rightarrow> ('f, 't, 'a) clix_Parser \<Rightarrow>
     ('f, 't, 'a) clix_Parser \<times> goerror \<times> string list" where
  "clix_flagToken std chain arg rest p =
     (if \<not> strings_HasPrefix arg ''--'' \<and> CHR ''='' \<notin> set arg \<and> 2 < length arg
      then clix_parseShortGroup std chain (tl arg) rest p
      else clix_parseLongOrShort std chain arg rest p)"

lemma clix_flagToken_rest: "(p', e, rest') = clix_flagToken std chain arg rest p \<Longrightarrow> length rest' \<le> length rest"
  by (auto simp: clix_flagToken_def dest: HOL.sym [THEN clix_parseShortGroup_rest] HOL.sym [THEN clix_parseLongOrShort_rest]
      split: if_splits)

function clix_parseArgs ::
    "('f, 't) clix_std \<Rightarrow> ('f, 't, 'a) clix_chain \<Rightarrow> string list \<Rightarrow> ('f, 't, 'a) clix_Parser \<Rightarrow>
     ('f, 't, 'a) clix_Parser \<times> goerror" where
  "clix_parseArgs std chain [] p = (p, clix_checkRequired chain (pr_set p))"
| "clix_parseArgs std chain (arg # rest) p =
     (let path = fst (hd chain); cmd = snd (hd chain) in
      if arg = ''--'' then
        (let p1 = clix_put_args path rest p in (p1, clix_checkRequired chain (pr_set p1)))
      else if clix_isHelpToken arg then (p\<lparr>pr_matched := path\<rparr>, Some clix_ErrHelp)
      else if pr_version p \<noteq> [] \<and> clix_isVersionToken arg then (p\<lparr>pr_matched := path\<rparr>, Some clix_ErrVersion)
      else if arg = ''-'' then
        if clix_routing cmd then (p, Some (clix_errUnknownCommand arg (clix_subOrder cmd)))
        else clix_parseArgs std chain rest (clix_put_args path [arg] p)
      else if \<not> strings_HasPrefix arg ''-'' then
        (case clix_subcommand cmd arg of
           Some (name, sub) \<Rightarrow>
             clix_parseArgs std ((name # path, sub) # chain) rest (p\<lparr>pr_matched := name # path\<rparr>)
         | None \<Rightarrow>
             if clix_routing cmd then (p, Some (clix_errUnknownCommand arg (clix_subOrder cmd)))
             else clix_parseArgs std chain rest (clix_put_args path [arg] p))
      else case clix_flagToken std chain arg rest p of
        (p1, Some e, rest1) \<Rightarrow> (p1, Some e)
      | (p1, None, rest1) \<Rightarrow> clix_parseArgs std chain rest1 p1)"
  by pat_completeness auto
termination
  by (relation "measure (\<lambda>(std, chain, args, p). length args)") (auto dest: clix_flagToken_rest)

declare clix_parseArgs.simps(2) [simp del]

subsection \<open>The operations of a parser (\<open>clix.go\<close>)\<close>

definition clix_New ::
    "('f, 't) clix_std \<Rightarrow> string list \<Rightarrow> string \<Rightarrow> string \<Rightarrow> ('f, 't, 'a) clix_Option list \<Rightarrow> ('f, 't) clix_vars \<Rightarrow>
     clix_panic + ('f, 't, 'a) clix_Parser" where
  "clix_New std osArgs name desc opts vars =
     (case clix_build_tree name desc opts vars of
        Inl e \<Rightarrow> Inl e
      | Inr (root, vars1) \<Rightarrow>
          (case clix_parseArgs std [([], root)] osArgs
             \<lparr>pr_root = root, pr_matched = [], pr_version = cm_version (cm_node root), pr_parseErr = None,
              pr_set = (\<lambda>path name. False), pr_args = (\<lambda>path. []), pr_vars = vars1\<rparr> of
             (p, e) \<Rightarrow> Inr (p\<lparr>pr_parseErr := e\<rparr>)))"

text \<open>The matched command and its ancestors; the path of a matched command always leads somewhere.\<close>

fun clix_chain_at :: "('f, 't, 'a) clix_Command \<Rightarrow> clix_path \<Rightarrow> ('f, 't, 'a) clix_chain" where
  "clix_chain_at root [] = [([], root)]"
| "clix_chain_at root (name # path) =
     (case clix_chain_at root path of
        [] \<Rightarrow> []
      | (q, c) # up \<Rightarrow> (case map_of (cm_subs c) name of Some sub \<Rightarrow> (name # path, sub) # (q, c) # up | None \<Rightarrow> []))"

definition clix_matched :: "('f, 't, 'a) clix_Parser \<Rightarrow> ('f, 't, 'a) clix_chain" where
  "clix_matched p = clix_chain_at (pr_root p) (pr_matched p)"

definition clix_IsSet :: "string \<Rightarrow> ('f, 't, 'a) clix_Parser \<Rightarrow> bool" where
  "clix_IsSet name p =
     (let chain = clix_matched p;
          f = (case clix_resolveFlag chain name of
                 Some f \<Rightarrow> Some f
               | None \<Rightarrow> (case clix_resolveShort chain name of
                   Some canonical \<Rightarrow> clix_resolveFlag chain canonical
                 | None \<Rightarrow> None))
      in case f of None \<Rightarrow> False | Some (path, m) \<Rightarrow> pr_set p path (fm_name m))"

text \<open>An action is called with the matched command and the parser; what it does to the parser, and to the variables, is a parameter.\<close>

definition clix_Parser_Run ::
    "('a \<Rightarrow> clix_path \<Rightarrow> ('f, 't, 'a) clix_Parser \<Rightarrow> ('f, 't, 'a) clix_Parser \<times> unit outcome) \<Rightarrow> ('f, 't, 'a) clix_Parser \<Rightarrow>
     ('f, 't, 'a) clix_Parser \<times> unit outcome" where
  "clix_Parser_Run call p =
     (if pr_parseErr p \<noteq> None then (p, Returns () None)
      else case cm_action (cm_node (snd (hd (clix_matched p)))) of
        Some fn \<Rightarrow> call fn (pr_matched p) p
      | None \<Rightarrow> (p, Returns () None))"

definition clix_reset_flag :: "clix_path \<Rightarrow> ('f, 't) clix_flagMeta \<Rightarrow> ('f, 't, 'a) clix_Parser \<Rightarrow> ('f, 't, 'a) clix_Parser" where
  "clix_reset_flag path m p =
     p\<lparr>pr_set := (pr_set p)(path := (pr_set p path)(fm_name m := False)), pr_vars := clix_resetFunc m (pr_vars p)\<rparr>"

fun clix_resetCommand :: "clix_path \<Rightarrow> ('f, 't, 'a) clix_Command \<Rightarrow> ('f, 't, 'a) clix_Parser \<Rightarrow> ('f, 't, 'a) clix_Parser"
  and clix_reset_subs ::
    "clix_path \<Rightarrow> (string \<times> ('f, 't, 'a) clix_Command) list \<Rightarrow> ('f, 't, 'a) clix_Parser \<Rightarrow> ('f, 't, 'a) clix_Parser" where
  "clix_resetCommand path (Command n subs) p =
     clix_reset_subs path subs (fold (clix_reset_flag path) (cm_flags n) (p\<lparr>pr_args := (pr_args p)(path := [])\<rparr>))"
| "clix_reset_subs path [] p = p"
| "clix_reset_subs path ((name, sub) # subs) p = clix_reset_subs path subs (clix_resetCommand (name # path) sub p)"

definition clix_Reset :: "('f, 't) clix_std \<Rightarrow> string list \<Rightarrow> ('f, 't, 'a) clix_Parser \<Rightarrow> ('f, 't, 'a) clix_Parser" where
  "clix_Reset std osArgs p =
     (case clix_parseArgs std [([], pr_root p)] osArgs ((clix_resetCommand [] (pr_root p) p)\<lparr>pr_matched := []\<rparr>) of
        (p1, e) \<Rightarrow> p1\<lparr>pr_parseErr := e\<rparr>)"

end
