(* ===== verification/Clix_Spell.thy ===== *)
theory Clix_Spell
  imports Clix_Parse
begin

text \<open>
  What a command line means: every documented spelling of a flag (\<open>--name=v\<close>, \<open>--name v\<close>, \<open>-s=v\<close>, \<open>-s v\<close>, \<open>-sv\<close>, grouped short flags,
  \<open>--no-name\<close>) is one or more assignments of a raw value to a flag, and the parser does exactly these assignments, in order, up to the first that
  fails.
\<close>

subsection \<open>Strings\<close>

lemma HasPrefix_simps [simp]:
  "strings_HasPrefix s []"
  "strings_HasPrefix (c # s) (d # t) = (c = d \<and> strings_HasPrefix s t)"
  "\<not> strings_HasPrefix [] (d # t)"
  by (auto simp: strings_HasPrefix_def)

lemma HasPrefix_append: "strings_HasPrefix s t \<longleftrightarrow> (\<exists>u. s = t @ u)"
  unfolding strings_HasPrefix_def by (metis append_eq_conv_conj)

lemma before_sep: "x \<notin> set xs \<Longrightarrow> takeWhile (\<lambda>c. c \<noteq> x) (xs @ x # ys) = xs \<and> dropWhile (\<lambda>c. c \<noteq> x) (xs @ x # ys) = x # ys"
  by (induction xs) auto

text \<open>A token made of dashes, a name and perhaps an inline value, taken apart by \<open>splitFlag\<close>.\<close>

lemma splitFlag_long:
  "CHR ''='' \<notin> set name \<Longrightarrow> clix_splitFlag (''--'' @ name @ ''='' @ v) = (name, v, True)"
  "CHR ''='' \<notin> set name \<Longrightarrow> clix_splitFlag (''--'' @ name) = (name, [], False)"
  by (auto simp: clix_splitFlag_def Let_def before_sep)

lemma splitFlag_short:
  "c \<noteq> CHR ''='' \<Longrightarrow> c \<noteq> CHR ''-'' \<Longrightarrow> clix_splitFlag (CHR ''-'' # c # CHR ''='' # v) = ([c], v, True)"
  "c \<noteq> CHR ''='' \<Longrightarrow> c \<noteq> CHR ''-'' \<Longrightarrow> clix_splitFlag [CHR ''-'', c] = ([c], [], False)"
  by (auto simp: clix_splitFlag_def Let_def)

subsection \<open>Assignments\<close>

type_synonym ('f, 't) clix_assignment = "(clix_path \<times> ('f, 't) clix_flagMeta) \<times> string"

text \<open>The assignments are done in order; the first that fails ends them.\<close>

fun clix_assign ::
    "('f, 't) clix_std \<Rightarrow> ('f, 't) clix_assignment list \<Rightarrow> ('f, 't, 'a) clix_Parser \<Rightarrow> ('f, 't, 'a) clix_Parser \<times> goerror" where
  "clix_assign std [] p = (p, None)"
| "clix_assign std ((f, v) # fs) p =
     (case clix_setFunc std f v p of (p1, Some e) \<Rightarrow> (p1, Some e) | (p1, None) \<Rightarrow> clix_assign std fs p1)"

lemma clix_assign_append:
  "clix_assign std (xs @ ys) p =
     (case clix_assign std xs p of (p1, Some e) \<Rightarrow> (p1, Some e) | (p1, None) \<Rightarrow> clix_assign std ys p1)"
  by (induction std xs p rule: clix_assign.induct) (auto split: prod.splits option.splits)

lemma assign_result [simp]: "(case r of (p, None) \<Rightarrow> (p, None) | (p, Some e) \<Rightarrow> (p, Some e)) = r"
  by (auto split: prod.splits option.splits)

lemma clix_setFunc_frame:
  "clix_setFunc std f v p = (p', e) \<Longrightarrow> pr_version p' = pr_version p \<and> pr_root p' = pr_root p \<and> pr_matched p' = pr_matched p \<and>
     pr_args p' = pr_args p \<and> pr_parseErr p' = pr_parseErr p"
  by (auto simp: clix_setFunc_def clix_store_def split: sum.splits)

lemma clix_assign_frame:
  "clix_assign std fs p = (p', e) \<Longrightarrow> pr_version p' = pr_version p \<and> pr_root p' = pr_root p \<and> pr_matched p' = pr_matched p \<and>
     pr_args p' = pr_args p \<and> pr_parseErr p' = pr_parseErr p"
  by (induction std fs p rule: clix_assign.induct)
    (fastforce split: prod.splits option.splits dest: clix_setFunc_frame)+

text \<open>The part of a short group that is only switches.\<close>

definition clix_names_flag :: "('f, 't, 'a) clix_chain \<Rightarrow> bool \<Rightarrow> char \<Rightarrow> clix_path \<times> ('f, 't) clix_flagMeta \<Rightarrow> bool" where
  "clix_names_flag chain ver c f =
     (c \<notin> set ''=-h'' \<and> (ver \<longrightarrow> c \<noteq> CHR ''V'') \<and>
      (\<exists>name. clix_resolveShort chain [c] = Some name \<and> clix_resolveFlag chain name = Some f))"

definition clix_switch :: "('f, 't, 'a) clix_chain \<Rightarrow> bool \<Rightarrow> char \<Rightarrow> clix_path \<times> ('f, 't) clix_flagMeta \<Rightarrow> bool" where
  "clix_switch chain ver c f = (clix_names_flag chain ver c f \<and> (of_char c :: nat) < 128 \<and> fm_isBool (snd f))"

lemma go_string_of_ascii [simp]: "(of_char c :: nat) < 128 \<Longrightarrow> go_string_of_byte c = [c]"
  by (simp add: go_string_of_byte_def)

text \<open>
  \<open>clix_spells chain ver toks fs\<close>: the tokens \<open>toks\<close> are a spelling of the assignments \<open>fs\<close> for a command with this chain; \<open>ver\<close> says whether
  \<open>--version\<close> and \<open>-V\<close> are reserved.
\<close>

inductive clix_spells ::
    "('f, 't, 'a) clix_chain \<Rightarrow> bool \<Rightarrow> string list \<Rightarrow> ('f, 't) clix_assignment list \<Rightarrow> bool" for chain ver where
  nothing: "clix_spells chain ver [] []"
| both: "clix_spells chain ver ts fs \<Longrightarrow> clix_spells chain ver ts' fs' \<Longrightarrow> clix_spells chain ver (ts @ ts') (fs @ fs')"
| long_inline: "clix_resolveFlag chain name = Some f \<Longrightarrow> CHR ''='' \<notin> set name \<Longrightarrow> name \<noteq> ''help'' \<Longrightarrow> (ver \<longrightarrow> name \<noteq> ''version'') \<Longrightarrow>
    clix_spells chain ver [''--'' @ name @ ''='' @ v] [(f, v)]"
| long_value: "clix_resolveFlag chain name = Some f \<Longrightarrow> CHR ''='' \<notin> set name \<Longrightarrow> name \<noteq> ''help'' \<Longrightarrow> (ver \<longrightarrow> name \<noteq> ''version'') \<Longrightarrow>
    name \<noteq> [] \<Longrightarrow> \<not> fm_isBool (snd f) \<Longrightarrow> \<not> clix_nextTokenLooksLikeFlag v \<Longrightarrow>
    clix_spells chain ver [''--'' @ name, v] [(f, v)]"
| long_switch: "clix_resolveFlag chain name = Some f \<Longrightarrow> CHR ''='' \<notin> set name \<Longrightarrow> name \<noteq> ''help'' \<Longrightarrow> (ver \<longrightarrow> name \<noteq> ''version'') \<Longrightarrow>
    name \<noteq> [] \<Longrightarrow> fm_isBool (snd f) \<Longrightarrow>
    clix_spells chain ver [''--'' @ name] [(f, ''true'')]"
| negation: "clix_resolveFlag chain (''no-'' @ name) = None \<Longrightarrow> clix_resolveFlag chain name = Some f \<Longrightarrow> CHR ''='' \<notin> set name \<Longrightarrow>
    fm_isBool (snd f) \<Longrightarrow>
    clix_spells chain ver [''--no-'' @ name] [(f, ''false'')]"
| short_inline: "clix_names_flag chain ver c f \<Longrightarrow> clix_spells chain ver [CHR ''-'' # c # CHR ''='' # v] [(f, v)]"
| short_value: "clix_names_flag chain ver c f \<Longrightarrow> \<not> fm_isBool (snd f) \<Longrightarrow> \<not> clix_nextTokenLooksLikeFlag v \<Longrightarrow>
    clix_spells chain ver [[CHR ''-'', c], v] [(f, v)]"
| short_switch: "clix_names_flag chain ver c f \<Longrightarrow> fm_isBool (snd f) \<Longrightarrow> clix_spells chain ver [[CHR ''-'', c]] [(f, ''true'')]"
| group: "list_all2 (clix_switch chain ver) cs fs \<Longrightarrow> 2 \<le> length cs \<Longrightarrow>
    clix_spells chain ver [CHR ''-'' # cs] (map (\<lambda>f. (f, ''true'')) fs)"
| group_attached: "list_all2 (clix_switch chain ver) cs fs \<Longrightarrow> clix_names_flag chain ver c f \<Longrightarrow> (of_char c :: nat) < 128 \<Longrightarrow>
    \<not> fm_isBool (snd f) \<Longrightarrow> v \<noteq> [] \<Longrightarrow> CHR ''='' \<notin> set v \<Longrightarrow>
    clix_spells chain ver [CHR ''-'' # cs @ c # v] (map (\<lambda>f. (f, ''true'')) fs @ [(f, v)])"
| group_value: "list_all2 (clix_switch chain ver) cs fs \<Longrightarrow> cs \<noteq> [] \<Longrightarrow> clix_names_flag chain ver c f \<Longrightarrow> (of_char c :: nat) < 128 \<Longrightarrow>
    \<not> fm_isBool (snd f) \<Longrightarrow> \<not> clix_nextTokenLooksLikeFlag v \<Longrightarrow>
    clix_spells chain ver [CHR ''-'' # cs @ [c], v] (map (\<lambda>f. (f, ''true'')) fs @ [(f, v)])"

subsection \<open>Each spelling does its assignments\<close>

text \<open>What a token that starts with a dash does to a parser that goes on afterwards.\<close>

definition clix_then ::
    "('f, 't) clix_std \<Rightarrow> ('f, 't, 'a) clix_chain \<Rightarrow> string list \<Rightarrow> ('f, 't, 'a) clix_Parser \<times> goerror \<Rightarrow> ('f, 't, 'a) clix_Parser \<times> goerror" where
  "clix_then std chain rest r = (case r of (p, Some e) \<Rightarrow> (p, Some e) | (p, None) \<Rightarrow> clix_parseArgs std chain rest p)"

lemma clix_then_simps [simp]:
  "clix_then std chain rest (p, Some e) = (p, Some e)"
  "clix_then std chain rest (p, None) = clix_parseArgs std chain rest p"
  by (simp_all add: clix_then_def)

text \<open>The tokens with a meaning of their own.\<close>

definition clix_control :: "bool \<Rightarrow> string \<Rightarrow> bool" where
  "clix_control ver arg = (arg = ''--'' \<or> arg = ''-'' \<or> clix_isHelpToken arg \<or> ver \<and> clix_isVersionToken arg)"

lemma parseArgs_flag:
  assumes "strings_HasPrefix arg ''-''" and "\<not> clix_control (pr_version p \<noteq> []) arg"
    and "clix_flagToken std chain arg rest p = (fst r, snd r, rest')"
  shows "clix_parseArgs std chain (arg # rest) p = clix_then std chain rest' r"
  using assms by (cases r) (auto simp: clix_parseArgs.simps(2) clix_control_def clix_then_def Let_def split: option.splits)

lemma control_long:
  assumes "CHR ''='' \<notin> set name" and "name \<noteq> ''help''" and "ver \<longrightarrow> name \<noteq> ''version''"
  shows "\<not> clix_control ver (''--'' @ name @ ''='' @ v)" and "name \<noteq> [] \<Longrightarrow> \<not> clix_control ver (''--'' @ name)"
proof -
  have split: "name @ CHR ''='' # v = long @ CHR ''='' # w \<longleftrightarrow> name = long \<and> v = w" if "CHR ''='' \<notin> set long" for long w
    using assms(1) that by (auto simp: append_eq_append_conv2 Cons_eq_append_conv append_eq_Cons_conv)
  have word: "name @ CHR ''='' # v \<noteq> w" if "CHR ''='' \<notin> set w" for w using that by (metis in_set_conv_decomp)
  have no: "name \<noteq> long @ CHR ''='' # w" for long w using assms(1) by auto
  show "\<not> clix_control ver (''--'' @ name @ ''='' @ v)"
    using assms split [of "''help''"] split [of "''version''"] no word [of "''help''"] word [of "''version''"]
    by (auto simp: clix_control_def clix_isHelpToken_def clix_isVersionToken_def clix_tokenIs_def HasPrefix_append)
  show "\<not> clix_control ver (''--'' @ name)" if "name \<noteq> []"
    using assms that no [of "''help''"] no [of "''version''"]
    by (auto simp: clix_control_def clix_isHelpToken_def clix_isVersionToken_def clix_tokenIs_def HasPrefix_append)
qed

lemma control_short:
  assumes "c \<noteq> CHR ''-''" and "c \<noteq> CHR ''h''" and "ver \<longrightarrow> c \<noteq> CHR ''V''"
  shows "\<not> clix_control ver (CHR ''-'' # c # cs)"
  using assms by (auto simp: clix_control_def clix_isHelpToken_def clix_isVersionToken_def clix_tokenIs_def)

lemma flagToken_long:
  assumes "strings_HasPrefix arg ''--''" and "clix_splitFlag arg = (name, v, eq)" and "clix_resolveFlag chain name = Some f"
  shows "clix_flagToken std chain arg rest p = clix_setFlag std f arg v eq rest p"
  using assms by (simp add: clix_flagToken_def clix_parseLongOrShort_def Let_def)

lemma flagToken_short:
  assumes "arg = CHR ''-'' # c # cs" and "CHR ''='' \<in> set cs \<or> cs = []" and "clix_names_flag chain ver c f"
    and "clix_splitFlag arg = ([c], v, eq)"
  shows "clix_flagToken std chain arg rest p = clix_setFlag std f arg v eq rest p"
  using assms by (auto simp: clix_flagToken_def clix_parseLongOrShort_def clix_names_flag_def Let_def split: option.splits)

lemma setFlag_results:
  "eq \<or> fm_isBool (snd f) \<Longrightarrow> r = clix_setFunc std f (if eq then v else ''true'') p \<Longrightarrow>
     clix_setFlag std f arg v eq rest p = (fst r, snd r, rest)"
  "\<not> fm_isBool (snd f) \<Longrightarrow> \<not> clix_nextTokenLooksLikeFlag w \<Longrightarrow> r = clix_setFunc std f w p \<Longrightarrow>
     clix_setFlag std f arg v False (w # rest) p = (fst r, snd r, rest)"
  by (auto simp: clix_setFlag_def clix_takeNextFlagValue_def split: prod.splits)

lemma shortGroup_step:
  assumes "clix_names_flag chain (pr_version p \<noteq> []) c f" and "(of_char c :: nat) < 128"
  shows "fm_isBool (snd f) \<Longrightarrow> clix_parseShortGroup std chain (c # cs) rest p =
      (case clix_setFunc std f ''true'' p of (p1, Some e) \<Rightarrow> (p1, Some e, rest) | (p1, None) \<Rightarrow> clix_parseShortGroup std chain cs rest p1)"
    and "\<not> fm_isBool (snd f) \<Longrightarrow> cs \<noteq> [] \<Longrightarrow> r = clix_setFunc std f cs p \<Longrightarrow>
      clix_parseShortGroup std chain (c # cs) rest p = (fst r, snd r, rest)"
    and "\<not> fm_isBool (snd f) \<Longrightarrow> \<not> clix_nextTokenLooksLikeFlag v \<Longrightarrow> r = clix_setFunc std f v p \<Longrightarrow>
      clix_parseShortGroup std chain [c] (v # rest) p = (fst r, snd r, rest)"
  using assms
  by (auto simp: clix_names_flag_def clix_takeNextFlagValue_def Let_def split: prod.splits option.splits)

declare clix_parseShortGroup.simps(2) [simp del]

lemma shortGroup_switches:
  "list_all2 (clix_switch chain ver) cs fs \<Longrightarrow> ver = (pr_version p \<noteq> []) \<Longrightarrow>
     clix_parseShortGroup std chain (cs @ post) rest p =
       (case clix_assign std (map (\<lambda>f. (f, ''true'')) fs) p of
          (p1, Some e) \<Rightarrow> (p1, Some e, rest) | (p1, None) \<Rightarrow> clix_parseShortGroup std chain post rest p1)"
proof (induction cs fs arbitrary: p rule: list_all2_induct)
  case (Cons c cs f fs p)
  have step: "clix_names_flag chain (pr_version p \<noteq> []) c f" "(of_char c :: nat) < 128" "fm_isBool (snd f)"
    using Cons.hyps(1) Cons.prems by (simp_all add: clix_switch_def)
  show ?case
  proof (cases "clix_setFunc std f ''true'' p")
    case (Pair p1 e)
    then have "pr_version p1 = pr_version p" by (auto dest: clix_setFunc_frame)
    then show ?thesis
      using Cons.IH [of p1] Cons.prems Pair by (cases e) (simp_all add: shortGroup_step(1) [OF step])
  qed
qed simp

lemma group_token:
  assumes "list_all2 (clix_switch chain ver) cs fs" and "cs @ post = c # d # ds" and "c \<notin> set ''=-h''" and "ver \<longrightarrow> c \<noteq> CHR ''V''"
    and "CHR ''='' \<notin> set (cs @ post)"
  shows "clix_flagToken std chain (CHR ''-'' # cs @ post) rest p = clix_parseShortGroup std chain (cs @ post) rest p"
    and "\<not> clix_control ver (CHR ''-'' # cs @ post)"
proof -
  show "clix_flagToken std chain (CHR ''-'' # cs @ post) rest p = clix_parseShortGroup std chain (cs @ post) rest p"
    using assms(2,3,5) by (simp add: clix_flagToken_def)
  show "\<not> clix_control ver (CHR ''-'' # cs @ post)"
    unfolding assms(2) using assms(3,4) by (intro control_short) auto
qed

lemma two_chars: "2 \<le> length cs \<Longrightarrow> \<exists>c d ds. cs = c # d # ds"
  by (cases cs; cases "tl cs") auto

lemma switches_chars:
  "list_all2 (clix_switch chain ver) cs fs \<Longrightarrow> \<forall>c\<in>set cs. c \<notin> set ''=-h'' \<and> (ver \<longrightarrow> c \<noteq> CHR ''V'')"
  by (induction cs fs rule: list_all2_induct) (auto simp: clix_switch_def clix_names_flag_def)

subsection \<open>The parser reads spellings\<close>

lemma spells_group:
  assumes sw: "list_all2 (clix_switch chain ver) cs fs" and ver: "ver = (pr_version p \<noteq> [])"
    and tok: "cs @ post = c # d # ds" "c \<notin> set ''=-h''" "ver \<longrightarrow> c \<noteq> CHR ''V''" "CHR ''='' \<notin> set (cs @ post)"
    and ends: "\<And>p1. pr_version p1 = pr_version p \<Longrightarrow>
      clix_parseShortGroup std chain post rest p1 = (fst (clix_assign std as p1), snd (clix_assign std as p1), rest')"
  shows "clix_parseArgs std chain ((CHR ''-'' # cs @ post) # rest) p
    = clix_then std chain rest' (clix_assign std (map (\<lambda>f. (f, ''true'')) fs @ as) p)"
proof -
  obtain p1 e where r: "clix_assign std (map (\<lambda>f. (f, ''true'')) fs) p = (p1, e)" by fastforce
  note sw' = shortGroup_switches [OF sw ver, of std post rest]
  note tok' = group_token [OF sw tok]
  show ?thesis
  proof (cases e)
    case None
    have "pr_version p1 = pr_version p" using clix_assign_frame [OF r] by simp
    then have "clix_flagToken std chain (CHR ''-'' # cs @ post) rest p = (fst (clix_assign std as p1), snd (clix_assign std as p1), rest')"
      using sw' r None ends tok'(1) by simp
    then show ?thesis
      using parseArgs_flag [of "CHR ''-'' # cs @ post" p std chain rest "clix_assign std as p1" rest'] tok'(2) ver r None
      by (simp add: clix_assign_append)
  next
    case (Some e')
    have "clix_flagToken std chain (CHR ''-'' # cs @ post) rest p = (p1, Some e', rest)"
      using sw' r Some tok'(1) by simp
    then show ?thesis
      using parseArgs_flag [of "CHR ''-'' # cs @ post" p std chain rest "(p1, Some e')" rest] tok'(2) ver r Some
      by (simp add: clix_assign_append)
  qed
qed

lemma parse_setFlag:
  assumes "strings_HasPrefix arg ''-''" and "\<not> clix_control (pr_version p \<noteq> []) arg"
    and "\<And>rest. clix_flagToken std chain arg rest p = clix_setFlag std f arg v eq rest p"
  shows "eq \<or> fm_isBool (snd f) \<Longrightarrow>
      clix_parseArgs std chain (arg # rest) p = clix_then std chain rest (clix_setFunc std f (if eq then v else ''true'') p)"
    and "\<not> eq \<Longrightarrow> \<not> fm_isBool (snd f) \<Longrightarrow> \<not> clix_nextTokenLooksLikeFlag w \<Longrightarrow>
      clix_parseArgs std chain (arg # w # rest) p = clix_then std chain rest (clix_setFunc std f w p)"
  using assms(3) by (auto intro!: parseArgs_flag [OF assms(1,2)] simp: setFlag_results)

lemma parse_negation:
  assumes "clix_resolveFlag chain (''no-'' @ name) = None" and "clix_resolveFlag chain name = Some f" and "CHR ''='' \<notin> set name"
    and "fm_isBool (snd f)"
  shows "clix_parseArgs std chain ((''--no-'' @ name) # rest) p = clix_then std chain rest (clix_setFunc std f ''false'' p)"
proof (rule parseArgs_flag)
  show "\<not> clix_control (pr_version p \<noteq> []) (''--no-'' @ name)"
    using control_long(2) [of "''no-'' @ name"] assms(3) by simp
  show "clix_flagToken std chain (''--no-'' @ name) rest p =
      (fst (clix_setFunc std f ''false'' p), snd (clix_setFunc std f ''false'' p), rest)"
    using assms splitFlag_long(2) [of "''no-'' @ name"]
    by (simp add: clix_flagToken_def clix_parseLongOrShort_def clix_applyBoolNegation_def Let_def split: prod.splits)
qed simp

lemma clix_parse_spelling:
  assumes "clix_spells chain ver toks fs" and "ver = (pr_version p \<noteq> [])"
  shows "clix_parseArgs std chain (toks @ rest) p = clix_then std chain rest (clix_assign std fs p)"
  using assms
proof (induction arbitrary: p rest)
  case nothing
  then show ?case by simp
next
  case (both ts fs ts' fs')
  obtain p1 e where r: "clix_assign std fs p = (p1, e)" by fastforce
  have "pr_version p1 = pr_version p" using clix_assign_frame [OF r] by simp
  then show ?case
    using both.IH(1) [of p "ts' @ rest"] both.IH(2) [of p1 rest] both.prems r
    by (cases e) (simp_all add: clix_assign_append)
next
  case (long_inline name f v)
  then show ?case
    using parse_setFlag(1) [OF _ _ flagToken_long [OF _ splitFlag_long(1)], of name v p chain f std rest] control_long(1) [OF long_inline.hyps(2-4)]
    by simp
next
  case (long_value name f v)
  then show ?case
    using parse_setFlag(2) [OF _ _ flagToken_long [OF _ splitFlag_long(2)]] control_long(2) [OF long_value.hyps(2-4)]
    by simp
next
  case (long_switch name f)
  then show ?case
    using parse_setFlag(1) [OF _ _ flagToken_long [OF _ splitFlag_long(2)], of name p chain f std rest]
      control_long(2) [OF long_switch.hyps(2-4)]
    by simp
next
  case (negation name f)
  then show ?case
    using parse_negation [of chain name f std rest p] by simp
next
  case (short_inline c f v)
  then show ?case
    using parse_setFlag(1) [OF _ _ flagToken_short [OF HOL.refl _ short_inline.hyps splitFlag_short(1)]]
      control_short [of c ver "CHR ''='' # v"]
    by (simp add: clix_names_flag_def)
next
  case (short_value c f v)
  then show ?case
    using parse_setFlag(2) [OF _ _ flagToken_short [OF HOL.refl _ short_value.hyps(1) splitFlag_short(2)]]
      control_short [of c ver "[]"]
    by (simp add: clix_names_flag_def)
next
  case (short_switch c f)
  then show ?case
    using parse_setFlag(1) [OF _ _ flagToken_short [OF HOL.refl _ short_switch.hyps(1) splitFlag_short(2)], of p std rest]
      control_short [of c ver "[]"]
    by (simp add: clix_names_flag_def)
next
  case (group cs fs)
  then obtain c d ds where cs: "cs = c # d # ds" using two_chars by blast
  have "clix_parseArgs std chain ((CHR ''-'' # cs @ []) # rest) p
      = clix_then std chain rest (clix_assign std (map (\<lambda>f. (f, ''true'')) fs @ []) p)"
    using switches_chars [OF group.hyps(1)] cs by (intro spells_group [OF group.hyps(1) group.prems]) auto
  then show ?case by simp
next
  case (group_attached cs fs c f v)
  have "2 \<le> length (cs @ c # v)" using group_attached.hyps(5) by (cases v) simp_all
  then obtain c' d ds where cs: "cs @ c # v = c' # d # ds" using two_chars by blast
  then have mem: "c' \<in> set (cs @ [c])" by (cases cs) simp_all
  note sw = switches_chars [OF group_attached.hyps(1)]
  have names: "c \<notin> set ''=-h'' \<and> (ver \<longrightarrow> c \<noteq> CHR ''V'')" using group_attached.hyps(2) by (simp add: clix_names_flag_def)
  have "clix_parseArgs std chain ((CHR ''-'' # cs @ c # v) # rest) p
      = clix_then std chain rest (clix_assign std (map (\<lambda>f. (f, ''true'')) fs @ [(f, v)]) p)"
  proof (rule spells_group [OF group_attached.hyps(1) group_attached.prems cs])
    show "c' \<notin> set ''=-h''" "ver \<longrightarrow> c' \<noteq> CHR ''V''" "CHR ''='' \<notin> set (cs @ c # v)"
      using names sw mem group_attached.hyps(6) by auto
    show "clix_parseShortGroup std chain (c # v) rest p1 = (fst (clix_assign std [(f, v)] p1), snd (clix_assign std [(f, v)] p1), rest)"
      if "pr_version p1 = pr_version p" for p1
      using group_attached that by (intro shortGroup_step(2)) simp_all
  qed
  then show ?case by simp
next
  case (group_value cs fs c f v)
  have "2 \<le> length (cs @ [c])" using group_value.hyps(2) by (cases cs) simp_all
  then obtain c' d ds where cs: "cs @ [c] = c' # d # ds" using two_chars by blast
  then have mem: "c' \<in> set (cs @ [c])" by (cases cs) simp_all
  note sw = switches_chars [OF group_value.hyps(1)]
  have names: "c \<notin> set ''=-h'' \<and> (ver \<longrightarrow> c \<noteq> CHR ''V'')" using group_value.hyps(3) by (simp add: clix_names_flag_def)
  have "clix_parseArgs std chain ((CHR ''-'' # cs @ [c]) # v # rest) p
      = clix_then std chain rest (clix_assign std (map (\<lambda>f. (f, ''true'')) fs @ [(f, v)]) p)"
  proof (rule spells_group [OF group_value.hyps(1) group_value.prems cs])
    show "c' \<notin> set ''=-h''" "ver \<longrightarrow> c' \<noteq> CHR ''V''" "CHR ''='' \<notin> set (cs @ [c])"
      using names sw mem by auto
    show "clix_parseShortGroup std chain [c] (v # rest) p1 = (fst (clix_assign std [(f, v)] p1), snd (clix_assign std [(f, v)] p1), rest)"
      if "pr_version p1 = pr_version p" for p1
      using group_value that by (intro shortGroup_step(3)) simp_all
  qed
  then show ?case by simp
qed

end
