(* ===== verification/Clix_Tree.thy ===== *)
theory Clix_Tree
  imports Clix_Parse
begin

text \<open>
  What the options of \<open>clix\<close> guarantee of a command tree that was built without a panic: the lookup maps of every command are its list of
  flags and its children, names are unique and not reserved, and every key leads to a child.
\<close>

subsection \<open>Well-formed trees\<close>

definition clix_flag_ok :: "bool \<Rightarrow> ('f, 't) clix_flagMeta \<Rightarrow> bool" where
  "clix_flag_ok ver m =
     (fm_name m \<noteq> [] \<and> fm_name m \<noteq> ''help'' \<and> (ver \<longrightarrow> fm_name m \<noteq> ''version'') \<and>
      length (fm_short m) \<le> 1 \<and> fm_short m \<noteq> ''h'' \<and> (ver \<longrightarrow> fm_short m \<noteq> ''V'') \<and>
      fm_isBool m = (clix_TypeOf (fm_defValue m) = TBool) \<and>
      (\<forall>v\<in>set (fm_enumValues m). clix_TypeOf v = clix_TypeOf (fm_defValue m)))"

definition clix_shorts :: "('f, 't) clix_flagMeta list \<Rightarrow> (string \<times> string) list" where
  "clix_shorts flags = map (\<lambda>m. (fm_short m, fm_name m)) (filter (\<lambda>m. fm_short m \<noteq> []) flags)"

text \<open>\<open>flagMap\<close> and \<open>shortMap\<close> hold exactly the flags of the command, each under one name and at most one letter.\<close>

definition clix_flags_ok :: "bool \<Rightarrow> ('f, 't, 'a) clix_node \<Rightarrow> bool" where
  "clix_flags_ok ver n =
     ((\<forall>m\<in>set (cm_flags n). clix_flag_ok ver m) \<and>
      cm_flagMap n = rev (map (\<lambda>m. (fm_name m, m)) (cm_flags n)) \<and> distinct (map fm_name (cm_flags n)) \<and>
      cm_shortMap n = rev (clix_shorts (cm_flags n)) \<and> distinct (map fst (clix_shorts (cm_flags n))))"

text \<open>Every key leads to a child, every child is under its name and its aliases, and no key is there twice.\<close>

definition clix_subs_ok :: "('f, 't, 'a) clix_node \<Rightarrow> (string \<times> ('f, 't, 'a) clix_Command) list \<Rightarrow> bool" where
  "clix_subs_ok n subs =
     (distinct (map fst subs) \<and> distinct (map fst (cm_keys n)) \<and>
      (\<forall>(key, name)\<in>set (cm_keys n). name \<in> fst ` set subs) \<and>
      (\<forall>(name, sub)\<in>set subs. name \<noteq> [] \<and> cm_name (cm_node sub) = name \<and> (name, name) \<in> set (cm_keys n) \<and>
         (\<forall>alias\<in>set (cm_aliases (cm_node sub)). (alias, name) \<in> set (cm_keys n))))"

fun clix_wf :: "bool \<Rightarrow> ('f, 't, 'a) clix_Command \<Rightarrow> bool" where
  "clix_wf ver (Command n subs) =
     (clix_flags_ok ver n \<and> clix_subs_ok n subs \<and> list_all (\<lambda>s. clix_wf ver (snd s)) subs)"

lemma clix_wf_iff:
  "clix_wf ver c \<longleftrightarrow> clix_flags_ok ver (cm_node c) \<and> clix_subs_ok (cm_node c) (cm_subs c) \<and> (\<forall>s\<in>set (cm_subs c). clix_wf ver (snd s))"
  by (cases c) (simp add: list_all_iff)

lemma clix_wf_new [simp]: "clix_wf ver (clix_newCommand name desc)"
  by (simp add: clix_newCommand_def clix_flags_ok_def clix_subs_ok_def clix_shorts_def)

subsection \<open>Options keep trees well formed\<close>

definition clix_versioned :: "('f, 't, 'a) clix_Command list \<Rightarrow> bool" where
  "clix_versioned chain = (cm_version (cm_node (clix_root chain)) \<noteq> [])"

lemma clix_versioned_child [simp]: "anc \<noteq> [] \<Longrightarrow> clix_versioned (c # anc) = clix_versioned anc"
  by (simp add: clix_versioned_def clix_root_def)

lemma clix_extras_frame:
  "fm_name (fold clix_FlagOption_apply extras m) = fm_name m"
  "fm_short (fold clix_FlagOption_apply extras m) = fm_short m"
  "fm_defValue (fold clix_FlagOption_apply extras m) = fm_defValue m"
  "fm_target (fold clix_FlagOption_apply extras m) = fm_target m"
  "fm_isBool (fold clix_FlagOption_apply extras m) = fm_isBool m"
proof (induction extras arbitrary: m)
  case (Cons x extras)
  { case 1 then show ?case using Cons.IH by (cases x) simp_all }
  { case 2 then show ?case using Cons.IH by (cases x) simp_all }
  { case 3 then show ?case using Cons.IH by (cases x) simp_all }
  { case 4 then show ?case using Cons.IH by (cases x) simp_all }
  { case 5 then show ?case using Cons.IH by (cases x) simp_all }
qed simp_all

lemma clix_new_flag_fields [simp]:
  "fm_name (clix_new_flag t name short def usage extras) = name"
  "fm_short (clix_new_flag t name short def usage extras) = short"
  "fm_defValue (clix_new_flag t name short def usage extras) = def"
  "fm_target (clix_new_flag t name short def usage extras) = t"
  "fm_isBool (clix_new_flag t name short def usage extras) = (clix_TypeOf def = TBool)"
  by (simp_all add: clix_new_flag_def clix_extras_frame)

text \<open>A successful \<open>AddFlag\<close>, taken apart.\<close>

lemma clix_AddFlag_Inr:
  assumes "clix_AddFlag anc target name short def usage extras b = Inr b'"
  obtains t where "target = Some t" and "b' = clix_register (clix_new_flag t name short def usage extras) b"
    and "clix_flag_ok (clix_versioned (fst b # anc)) (clix_new_flag t name short def usage extras)"
    and "clix_flag (fst b) name = None" and "short \<noteq> [] \<Longrightarrow> clix_short (fst b) short = None"
    and "clix_assertNoShadowFlag anc (cm_name (cm_node (fst b))) name short = None"
proof -
  from assms obtain t where "target = Some t" by (cases target) (simp_all add: clix_AddFlag_def Let_def split: if_splits)
  with assms have t: "target = Some t" "name \<noteq> []" "short = [] \<or> length short = 1"
    "clix_assertNotReserved (fst b # anc) name short = None" "clix_flag (fst b) name = None"
    "short \<noteq> [] \<longrightarrow> clix_short (fst b) short = None"
    "clix_assertNoShadowFlag anc (cm_name (cm_node (fst b))) name short = None"
    "find (\<lambda>ev. clix_TypeOf ev \<noteq> clix_TypeOf def) (fm_enumValues (clix_new_flag t name short def usage extras)) = None"
    "b' = clix_register (clix_new_flag t name short def usage extras) b"
    unfolding clix_AddFlag_def Let_def by (simp_all split: if_splits option.splits) blast
  have "clix_flag_ok (clix_versioned (fst b # anc)) (clix_new_flag t name short def usage extras)"
    using t(2,3,4,8)
    by (auto simp: clix_flag_ok_def clix_assertNotReserved_def clix_versioned_def find_None_iff split: if_splits)
  then show thesis using t(1,5,6,7,9) by (intro that) simp_all
qed

lemma clix_flags_ok_add:
  assumes ok: "clix_flags_ok ver n" and new: "clix_flag_ok ver m" and free: "map_of (cm_flagMap n) (fm_name m) = None"
    and short: "fm_short m \<noteq> [] \<Longrightarrow> map_of (cm_shortMap n) (fm_short m) = None"
  shows "clix_flags_ok ver (clix_node_add m n)"
proof -
  have "fm_name m \<notin> set (map fm_name (cm_flags n))"
    using free ok by (force simp: clix_flags_ok_def map_of_eq_None_iff)
  moreover have "fm_short m \<notin> set (map fst (clix_shorts (cm_flags n)))" if "fm_short m \<noteq> []"
    using short [OF that] ok by (force simp: clix_flags_ok_def map_of_eq_None_iff)
  ultimately show ?thesis
    using ok new by (simp add: clix_flags_ok_def clix_shorts_def clix_node_add_def)
qed

lemma clix_node_add_frame [simp]:
  "cm_keys (clix_node_add m n) = cm_keys n" "cm_version (clix_node_add m n) = cm_version n" "cm_name (clix_node_add m n) = cm_name n"
  "cm_aliases (clix_node_add m n) = cm_aliases n"
  by (simp_all add: clix_node_add_def)

lemma clix_AddFlag_wf:
  assumes "clix_AddFlag anc target name short def usage extras b = Inr b'" and "clix_wf (clix_versioned (fst b # anc)) (fst b)"
  shows "clix_wf (clix_versioned (fst b # anc)) (fst b') \<and> cm_version (cm_node (fst b')) = cm_version (cm_node (fst b)) \<and>
    cm_name (cm_node (fst b')) = cm_name (cm_node (fst b))"
  using assms(1)
proof (rule clix_AddFlag_Inr)
  fix t
  assume "b' = clix_register (clix_new_flag t name short def usage extras) b"
    and "clix_flag_ok (clix_versioned (fst b # anc)) (clix_new_flag t name short def usage extras)"
    and "clix_flag (fst b) name = None" and "short \<noteq> [] \<Longrightarrow> clix_short (fst b) short = None"
  then show ?thesis
    using assms(2) clix_flags_ok_add [of "clix_versioned (fst b # anc)" "cm_node (fst b)" "clix_new_flag t name short def usage extras"]
    by (cases "fst b") (simp add: clix_register_def clix_node_upd_def clix_flag_def clix_short_def clix_subs_ok_def)
qed

lemma clix_wf_frame:
  assumes "clix_wf ver c" and "cm_flags (g (cm_node c)) = cm_flags (cm_node c)" and "cm_flagMap (g (cm_node c)) = cm_flagMap (cm_node c)"
    and "cm_shortMap (g (cm_node c)) = cm_shortMap (cm_node c)" and "cm_keys (g (cm_node c)) = cm_keys (cm_node c)"
  shows "clix_wf ver (clix_node_upd g c)"
  using assms by (cases c) (simp add: clix_node_upd_def clix_flags_ok_def clix_subs_ok_def)

lemma clix_wf_version: "clix_wf False c \<Longrightarrow> clix_assertNoVersionCollision c \<Longrightarrow> clix_wf True c"
proof (induction c)
  case (Command n subs)
  have free: "fm_name m \<noteq> ''version'' \<and> fm_short m \<noteq> ''V''" if "m \<in> set (cm_flags n)" for m
  proof -
    have "(fm_name m, m) \<in> set (cm_flagMap n)" and "fm_short m \<noteq> [] \<Longrightarrow> (fm_short m, fm_name m) \<in> set (cm_shortMap n)"
      using Command.prems(1) that by (auto simp: clix_flags_ok_def clix_shorts_def)
    then show ?thesis using Command.prems(2) by (force simp: map_of_eq_None_iff)
  qed
  have "clix_flags_ok True n" using Command.prems(1) free by (auto simp: clix_flags_ok_def clix_flag_ok_def)
  moreover have "clix_wf True (snd s)" if "s \<in> set subs" for s
    using Command.prems that by (intro Command.IH [of s]) (auto simp: list_all_iff snds.simps)
  ultimately show ?case using Command.prems(1) by (simp add: list_all_iff)
qed

lemma clix_subcommand_None:
  assumes "\<forall>(key, name)\<in>set (cm_keys (cm_node c)). name \<in> fst ` set (cm_subs c)"
  shows "clix_subcommand c key = None \<longleftrightarrow> key \<notin> set (map fst (cm_keys (cm_node c)))"
proof (cases "map_of (cm_keys (cm_node c)) key")
  case None
  then have "clix_subcommand c key = None" by (simp add: clix_subcommand_def)
  moreover have "key \<notin> set (map fst (cm_keys (cm_node c)))" using None by (simp add: map_of_eq_None_iff)
  ultimately show ?thesis by simp
next
  case (Some name)
  then have mem: "(key, name) \<in> set (cm_keys (cm_node c))" by (rule map_of_SomeD)
  then have "map_of (cm_subs c) name \<noteq> None" using assms by (auto simp: map_of_eq_None_iff)
  then show ?thesis using Some mem by (force simp: clix_subcommand_def)
qed

lemma clix_attach_aliases_Inr:
  assumes "clix_attach_aliases name al c = Inr c'" and "\<forall>(key, name)\<in>set (cm_keys (cm_node c)). name \<in> fst ` set (cm_subs c)"
    and "distinct (map fst (cm_keys (cm_node c)))" and "name \<in> fst ` set (cm_subs c)"
  shows "\<exists>ks. c' = Command ((cm_node c)\<lparr>cm_keys := ks\<rparr>) (cm_subs c) \<and>
    set ks = set (cm_keys (cm_node c)) \<union> (\<lambda>a. (a, name)) ` set al \<and> distinct (map fst ks)"
  using assms
proof (induction name al c rule: clix_attach_aliases.induct)
  case (2 name a names parent)
  then have free: "a \<notin> set (map fst (cm_keys (cm_node parent)))" and none: "clix_subcommand parent a = None"
    using clix_subcommand_None [of parent a] by (auto split: if_splits)
  have ok: "clix_attach_aliases name names (clix_node_upd (\<lambda>n. n\<lparr>cm_keys := (a, name) # cm_keys n\<rparr>) parent) = Inr c'"
    using "2.prems"(1) none by simp
  obtain ks where "c' = Command ((cm_node parent)\<lparr>cm_keys := ks\<rparr>) (cm_subs parent)"
      "set ks = insert (a, name) (set (cm_keys (cm_node parent))) \<union> (\<lambda>a. (a, name)) ` set names" "distinct (map fst ks)"
    using "2.IH" [OF _ ok] "2.prems"(2-4) free none by (auto simp: clix_node_upd_def)
  then show ?case by (intro exI [of _ ks]) auto
next
  case (1 name parent)
  then show ?case by (intro exI [of _ "cm_keys (cm_node parent)"]) simp
qed

lemma clix_subs_okD:
  assumes "clix_subs_ok n subs" and "(name, sub) \<in> set subs"
  shows "name \<noteq> []" and "cm_name (cm_node sub) = name" and "(name, name) \<in> set (cm_keys n)"
    and "alias \<in> set (cm_aliases (cm_node sub)) \<Longrightarrow> (alias, name) \<in> set (cm_keys n)"
  using assms unfolding clix_subs_ok_def by auto

lemma clix_attach_wf:
  assumes wf: "clix_wf ver c" and child: "clix_wf ver sub" and sub: "name \<noteq> []" "cm_name (cm_node sub) = name"
    and free: "clix_subcommand c name = None"
    and ok: "clix_attach_aliases name (cm_aliases (cm_node sub)) (clix_attach name sub c) = Inr c'"
  shows "clix_wf ver c' \<and> cm_version (cm_node c') = cm_version (cm_node c) \<and> cm_name (cm_node c') = cm_name (cm_node c)"
proof -
  have so: "clix_subs_ok (cm_node c) (cm_subs c)" using wf clix_wf_iff by blast
  have key: "name \<notin> set (map fst (cm_keys (cm_node c)))"
    using free so clix_subcommand_None [of c name] by (simp add: clix_subs_ok_def)
  have name: "name \<notin> fst ` set (cm_subs c)"
  proof
    assume "name \<in> fst ` set (cm_subs c)"
    then obtain sub' where "(name, sub') \<in> set (cm_subs c)" by auto
    then have "(name, name) \<in> set (cm_keys (cm_node c))" using clix_subs_okD [OF so] by blast
    with key show False by (force simp: image_iff)
  qed
  have at: "\<forall>(key, n)\<in>set (cm_keys (cm_node (clix_attach name sub c))). n \<in> fst ` set (cm_subs (clix_attach name sub c))"
      "distinct (map fst (cm_keys (cm_node (clix_attach name sub c))))" "name \<in> fst ` set (cm_subs (clix_attach name sub c))"
    using so key by (auto simp: clix_attach_def clix_subs_ok_def)
  obtain ks where c': "c' = Command ((cm_node c)\<lparr>cm_keys := ks\<rparr>) (cm_subs c @ [(name, sub)])"
      and ks: "set ks = insert (name, name) (set (cm_keys (cm_node c))) \<union> (\<lambda>a. (a, name)) ` set (cm_aliases (cm_node sub))"
      "distinct (map fst ks)"
    using clix_attach_aliases_Inr [OF ok at] unfolding clix_attach_def by auto
  have "clix_subs_ok ((cm_node c)\<lparr>cm_keys := ks\<rparr>) (cm_subs c @ [(name, sub)])"
    unfolding clix_subs_ok_def
  proof (intro conjI)
    show "distinct (map fst (cm_subs c @ [(name, sub)]))" using so name by (auto simp: clix_subs_ok_def)
    show "distinct (map fst (cm_keys ((cm_node c)\<lparr>cm_keys := ks\<rparr>)))" using ks(2) by simp
    show "\<forall>(key, name')\<in>set (cm_keys ((cm_node c)\<lparr>cm_keys := ks\<rparr>)). name' \<in> fst ` set (cm_subs c @ [(name, sub)])"
      using so ks(1) by (auto simp: clix_subs_ok_def)
    show "\<forall>(name', sub')\<in>set (cm_subs c @ [(name, sub)]). name' \<noteq> [] \<and> cm_name (cm_node sub') = name' \<and>
        (name', name') \<in> set (cm_keys ((cm_node c)\<lparr>cm_keys := ks\<rparr>)) \<and>
        (\<forall>alias\<in>set (cm_aliases (cm_node sub')). (alias, name') \<in> set (cm_keys ((cm_node c)\<lparr>cm_keys := ks\<rparr>)))"
      using so sub ks(1) by (auto simp: clix_subs_ok_def)
  qed
  then show ?thesis
    using wf child unfolding c' by (cases c) (simp add: clix_flags_ok_def)
qed

text \<open>What an option that did not panic leaves: a well-formed command under the same name.\<close>

definition clix_keeps :: "('f, 't, 'a) clix_Command list \<Rightarrow> ('f, 't, 'a) clix_Command \<Rightarrow> ('f, 't, 'a) clix_Command \<Rightarrow> bool" where
  "clix_keeps anc c c' =
     (clix_wf (clix_versioned (c # anc)) c \<longrightarrow> clix_wf (clix_versioned (c' # anc)) c' \<and> cm_name (cm_node c') = cm_name (cm_node c))"

lemma clix_versioned_same: "cm_version (cm_node c) = cm_version (cm_node c') \<Longrightarrow> clix_versioned (c # anc) = clix_versioned (c' # anc)"
  by (simp add: clix_versioned_def clix_root_def)

lemma clix_keeps_node:
  assumes "cm_flags (g (cm_node c)) = cm_flags (cm_node c)" and "cm_flagMap (g (cm_node c)) = cm_flagMap (cm_node c)"
    and "cm_shortMap (g (cm_node c)) = cm_shortMap (cm_node c)" and "cm_keys (g (cm_node c)) = cm_keys (cm_node c)"
    and "cm_version (g (cm_node c)) = cm_version (cm_node c)" and "cm_name (g (cm_node c)) = cm_name (cm_node c)"
  shows "clix_keeps anc c (clix_node_upd g c)"
  using clix_wf_frame [of "clix_versioned (c # anc)" c g] assms clix_versioned_same [of c "clix_node_upd g c" anc]
  by (simp add: clix_keeps_def clix_node_upd_def)

lemma clix_Version_keeps: "clix_Version anc v c = Inr c' \<Longrightarrow> clix_keeps anc c c'"
proof (cases "v = []")
  case False
  assume "clix_Version anc v c = Inr c'"
  with False have c: "anc = []" "cm_version (cm_node c) = []" "clix_assertNoVersionCollision c"
      "c' = clix_node_upd (\<lambda>n. n\<lparr>cm_version := v\<rparr>) c"
    by (auto simp: clix_Version_def split: if_splits)
  then show ?thesis
    using clix_wf_version [of c] clix_wf_frame [of True c "\<lambda>n. n\<lparr>cm_version := v\<rparr>"] False
    by (simp add: clix_keeps_def clix_versioned_def clix_root_def clix_node_upd_def)
qed (auto simp: clix_Version_def clix_keeps_def split: if_splits)

theorem clix_options_keep:
  "clix_Option_apply anc opt b = Inr b' \<Longrightarrow> clix_keeps anc (fst b) (fst b')"
  "clix_options anc opts b = Inr b' \<Longrightarrow> clix_keeps anc (fst b) (fst b')"
proof (induction anc opt b and anc opts b arbitrary: b' and b' rule: clix_Option_apply_clix_options.induct)
  case (1 anc b)
  then show ?case by (simp add: clix_keeps_def)
next
  case (2 anc target name short def usage extras b)
  then show ?case
    using clix_AddFlag_wf [of anc target name short "def" usage extras b b'] clix_versioned_same [of "fst b" "fst b'" anc]
    by (auto simp: clix_keeps_def)
next
  case (3 anc fn b)
  then show ?case
    by (auto simp: clix_with_vars_def clix_Run_def split: if_splits intro!: clix_keeps_node)
next
  case (4 anc names b)
  then show ?case
    by (auto simp: clix_with_vars_def clix_Alias_def split: if_splits intro!: clix_keeps_node)
next
  case (5 anc v b)
  then show ?case by (auto simp: clix_with_vars_def split: sum.splits intro: clix_Version_keeps)
next
  case (6 anc l b)
  then show ?case
    by (auto simp: clix_with_vars_def clix_WithHelpLabels_def split: if_splits intro!: clix_keeps_node)
next
  case (7 anc name desc opts b)
  from "7.prems" obtain child vars c' where ok: "name \<noteq> []" "clix_subcommand (fst b) name = None"
      "clix_options (fst b # anc) opts (clix_newCommand name desc, snd b) = Inr (child, vars)"
      "clix_attach_aliases name (cm_aliases (cm_node child)) (clix_attach name child (fst b)) = Inr c'" "b' = (c', vars)"
    by (cases "clix_subcommand (fst b) name") (auto simp: clix_with_vars_def split: if_splits sum.splits prod.splits)
  have "clix_keeps (fst b # anc) (clix_newCommand name desc) child"
    using "7.IH" [OF ok(1) _ ok(3)] ok(2) by simp
  then have "clix_wf (clix_versioned (fst b # anc)) child" "cm_name (cm_node child) = name"
    by (simp_all add: clix_keeps_def) (simp add: clix_newCommand_def)
  then show ?case
    using clix_attach_wf [OF _ _ ok(1) _ ok(2,4)] clix_versioned_same [of "fst b" c' anc] ok(5)
    by (auto simp: clix_keeps_def)
next
  case (8 anc b)
  then show ?case by (simp add: clix_keeps_def)
next
  case (9 anc opt opts b)
  then obtain b1 where "clix_Option_apply anc opt b = Inr b1" "clix_options anc opts b1 = Inr b'"
    by (auto split: sum.splits)
  then show ?case using "9.IH"(1) [of b1] "9.IH"(2) [of b1 b'] by (auto simp: clix_keeps_def)
qed

end
