(* ===== verification/Clix_State.thy ===== *)
theory Clix_State
  imports Clix_Tree "HOL-Library.Multiset"
begin

text \<open>
  What a parse does to the state of a \<open>clix\<close> parser: it writes only to the flags and the commands of its tree, keeps bound variables at
  their default or at a checked value, and starts from the same state after \<open>New\<close> and after \<open>Reset\<close>.
\<close>

subsection \<open>The places of a tree\<close>

text \<open>The paths of all commands, all flags with the path of their owner, and the bound variables with their defaults.\<close>

fun clix_paths :: "clix_path \<Rightarrow> ('f, 't, 'a) clix_Command \<Rightarrow> clix_path list" where
  "clix_paths path (Command n subs) = path # concat (map (\<lambda>s. clix_paths (fst s # path) (snd s)) subs)"

fun clix_flags_at :: "clix_path \<Rightarrow> ('f, 't, 'a) clix_Command \<Rightarrow> (clix_path \<times> ('f, 't) clix_flagMeta) list" where
  "clix_flags_at path (Command n subs) =
     map (Pair path) (cm_flags n) @ concat (map (\<lambda>s. clix_flags_at (fst s # path) (snd s)) subs)"

fun clix_defaults :: "('f, 't, 'a) clix_Command \<Rightarrow> (nat \<times> ('f, 't) clix_value) list" where
  "clix_defaults (Command n subs) =
     map (\<lambda>m. (fm_target m, fm_defValue m)) (cm_flags n) @ concat (map (\<lambda>s. clix_defaults (snd s)) subs)"

text \<open>No variable is bound to two flags.\<close>

definition clix_targets_distinct :: "('f, 't, 'a) clix_Command \<Rightarrow> bool" where
  "clix_targets_distinct c = distinct (map fst (clix_defaults c))"

lemma clix_defaults_flags: "clix_defaults c = map (\<lambda>f. (fm_target (snd f), fm_defValue (snd f))) (clix_flags_at path c)"
proof (induction c arbitrary: path)
  case (Command n subs)
  have "map (\<lambda>s. clix_defaults (snd s)) subs =
      map (\<lambda>s. map (\<lambda>f. (fm_target (snd f), fm_defValue (snd f))) (clix_flags_at (fst s # path) (snd s))) subs"
    by (rule map_cong [OF HOL.refl], rule Command.IH) (auto simp: snds.simps)
  then show ?case by (simp add: map_concat comp_def cong: map_cong)
qed

lemma clix_target_unique:
  assumes "clix_targets_distinct c" and "f \<in> set (clix_flags_at path c)" and "g \<in> set (clix_flags_at path c)"
    and "fm_target (snd f) = fm_target (snd g)"
  shows "f = g"
  using assms inj_onD [of "\<lambda>f. fm_target (snd f)" "set (clix_flags_at path c)" f g]
  by (simp add: clix_targets_distinct_def clix_defaults_flags [of c path] comp_def distinct_map)

text \<open>A command that stands at a path of the tree.\<close>

definition clix_stands :: "('f, 't, 'a) clix_Command \<Rightarrow> clix_path \<times> ('f, 't, 'a) clix_Command \<Rightarrow> bool" where
  "clix_stands root pc =
     (set (clix_paths (fst pc) (snd pc)) \<subseteq> set (clix_paths [] root) \<and>
      set (clix_flags_at (fst pc) (snd pc)) \<subseteq> set (clix_flags_at [] root))"

lemma clix_stands_root [simp]: "clix_stands root ([], root)"
  by (simp add: clix_stands_def)

lemma clix_stands_own:
  assumes "clix_stands root (path, c)"
  shows "path \<in> set (clix_paths [] root)" and "m \<in> set (cm_flags (cm_node c)) \<Longrightarrow> (path, m) \<in> set (clix_flags_at [] root)"
  using assms by (cases c; auto simp: clix_stands_def)+

lemma clix_stands_child:
  "clix_stands root (path, c) \<Longrightarrow> (name, sub) \<in> set (cm_subs c) \<Longrightarrow> clix_stands root (name # path, sub)"
  by (cases c) (force simp: clix_stands_def)

lemma clix_wf_child: "clix_wf ver c \<Longrightarrow> (name, sub) \<in> set (cm_subs c) \<Longrightarrow> clix_wf ver sub"
  by (cases c) (force simp: list_all_iff)

lemma clix_subcommand_SomeD: "clix_subcommand c key = Some (name, sub) \<Longrightarrow> map_of (cm_subs c) name = Some sub"
  by (auto simp: clix_subcommand_def split: option.splits)

lemma clix_flag_SomeD: "clix_wf ver c \<Longrightarrow> clix_flag c name = Some m \<Longrightarrow> m \<in> set (cm_flags (cm_node c)) \<and> fm_name m = name"
  by (cases c) (auto simp: clix_flag_def clix_flags_ok_def dest!: map_of_SomeD)

subsection \<open>Runs of the parser\<close>

text \<open>The chain at the matched command, root last; every command of it stands at its path.\<close>

definition clix_chain_ok :: "('f, 't, 'a) clix_Command \<Rightarrow> ('f, 't, 'a) clix_chain \<Rightarrow> bool" where
  "clix_chain_ok root chain =
     (chain \<noteq> [] \<and> clix_chain_at root (fst (hd chain)) = chain \<and>
      (\<forall>pc\<in>set chain. clix_stands root pc \<and> (\<exists>ver. clix_wf ver (snd pc))))"

lemma clix_chain_ok_root: "clix_wf ver root \<Longrightarrow> clix_chain_ok root [([], root)]"
  by (auto simp: clix_chain_ok_def)

lemma clix_chain_ok_child:
  assumes ok: "clix_chain_ok root chain" and sub: "clix_subcommand (snd (hd chain)) key = Some (name, sub)"
  shows "clix_chain_ok root ((name # fst (hd chain), sub) # chain)"
proof -
  obtain path c up where chain: "chain = (path, c) # up" using ok by (cases chain) (auto simp: clix_chain_ok_def)
  have m: "map_of (cm_subs c) name = Some sub" using clix_subcommand_SomeD [OF sub] chain by simp
  then have mem: "(name, sub) \<in> set (cm_subs c)" by (rule map_of_SomeD)
  have "clix_chain_at root path = chain" using ok chain by (simp add: clix_chain_ok_def)
  then have "clix_chain_at root (name # path) = (name # path, sub) # chain" using m chain by simp
  moreover have "clix_stands root (name # path, sub)" "\<exists>ver. clix_wf ver sub"
    using ok chain mem by (auto simp: clix_chain_ok_def intro: clix_stands_child clix_wf_child)
  ultimately show ?thesis using ok chain by (simp add: clix_chain_ok_def)
qed

lemma clix_resolveFlag_SomeD:
  assumes "clix_resolveFlag chain name = Some f" and "\<forall>pc\<in>set chain. clix_stands root pc \<and> (\<exists>ver. clix_wf ver (snd pc))"
  shows "f \<in> set (clix_flags_at [] root)"
  using assms
proof (induction chain name rule: clix_resolveFlag.induct)
  case (2 path c up name)
  show ?case
  proof (cases "clix_flag c name")
    case (Some m)
    then show ?thesis
      using "2.prems" clix_flag_SomeD [OF _ Some] clix_stands_own(2) [of root path c m] by auto
  qed (use 2 in auto)
qed simp

text \<open>The runs of the parser, as an induction rule: one case for each way a token is handled.\<close>

lemma clix_parse_run [case_names ended rest control unknown operand into failed flag]:
  assumes "\<And>chain p. Q chain [] p (p, clix_checkRequired chain (pr_set p))"
    and "\<And>chain toks p. Q chain (''--'' # toks) p
      (clix_put_args (fst (hd chain)) toks p, clix_checkRequired chain (pr_set (clix_put_args (fst (hd chain)) toks p)))"
    and "\<And>chain arg toks p e. clix_isHelpToken arg \<and> e = clix_ErrHelp \<or> pr_version p \<noteq> [] \<and> clix_isVersionToken arg \<and> e = clix_ErrVersion \<Longrightarrow>
      Q chain (arg # toks) p (p\<lparr>pr_matched := fst (hd chain)\<rparr>, Some e)"
    and "\<And>chain arg toks p. clix_routing (snd (hd chain)) \<Longrightarrow>
      Q chain (arg # toks) p (p, Some (clix_errUnknownCommand arg (clix_subOrder (snd (hd chain)))))"
    and "\<And>chain arg toks p r. Q chain toks (clix_put_args (fst (hd chain)) [arg] p) r \<Longrightarrow> Q chain (arg # toks) p r"
    and "\<And>chain arg toks p name sub r. clix_subcommand (snd (hd chain)) arg = Some (name, sub) \<Longrightarrow>
      Q ((name # fst (hd chain), sub) # chain) toks (p\<lparr>pr_matched := name # fst (hd chain)\<rparr>) r \<Longrightarrow> Q chain (arg # toks) p r"
    and "\<And>chain arg toks p p1 e toks1. clix_flagToken std chain arg toks p = (p1, Some e, toks1) \<Longrightarrow> Q chain (arg # toks) p (p1, Some e)"
    and "\<And>chain arg toks p p1 toks1 r. clix_flagToken std chain arg toks p = (p1, None, toks1) \<Longrightarrow> Q chain toks1 p1 r \<Longrightarrow>
      Q chain (arg # toks) p r"
  shows "Q chain toks p (clix_parseArgs std chain toks p)"
proof (induction "length toks" arbitrary: chain toks p rule: less_induct)
  case less
  show ?case
  proof (cases toks)
    case Nil
    then show ?thesis using assms(1) by simp
  next
    case (Cons arg rest)
    have IH: "Q chain1 rest1 p1 (clix_parseArgs std chain1 rest1 p1)" if "length rest1 \<le> length rest" for chain1 rest1 p1
      using less.hyps that Cons by simp
    obtain p1 e rest1 where r: "clix_flagToken std chain arg rest p = (p1, e, rest1)" by (metis prod_cases3)
    have len: "length rest1 \<le> length rest" using clix_flagToken_rest [OF r [symmetric]] .
    have fl: "Q chain (arg # rest) p (p1, Some e')" if "e = Some e'" for e' using assms(7) r that by simp
    have go: "Q chain (arg # rest) p (clix_parseArgs std chain rest1 p1)" if "e = None" using assms(8) r that IH [OF len] by simp
    show ?thesis
      unfolding Cons clix_parseArgs.simps(2) Let_def r
      by (auto intro: assms(1-6) IH fl go split: option.splits)
  qed
qed

text \<open>
  Whatever holds of a parser and is kept by storing a checked value in a flag of the tree, by collecting arguments for a command of the
  tree and by matching one, holds after a parse.
\<close>

locale clix_kept =
  fixes std :: "('f, 't) clix_std" and root :: "('f, 't, 'a) clix_Command" and P :: "('f, 't, 'a) clix_Parser \<Rightarrow> bool"
  assumes store: "f \<in> set (clix_flags_at [] root) \<Longrightarrow> clix_check std (snd f) s = Inr v \<Longrightarrow> P p \<Longrightarrow> P (clix_store f v p)"
    and args: "path \<in> set (clix_paths [] root) \<Longrightarrow> P p \<Longrightarrow> P (clix_put_args path toks p)"
    and matched: "path \<in> set (clix_paths [] root) \<Longrightarrow> P p \<Longrightarrow> P (p\<lparr>pr_matched := path\<rparr>)"
begin

lemma setFunc: "f \<in> set (clix_flags_at [] root) \<Longrightarrow> P p \<Longrightarrow> clix_setFunc std f s p = (p', e) \<Longrightarrow> P p'"
  by (auto simp: clix_setFunc_def split: sum.splits intro: store)

lemma chain_flag: "clix_chain_ok root chain \<Longrightarrow> clix_resolveFlag chain name = Some f \<Longrightarrow> f \<in> set (clix_flags_at [] root)"
  using clix_resolveFlag_SomeD unfolding clix_chain_ok_def by blast

lemma chain_path: "clix_chain_ok root chain \<Longrightarrow> fst (hd chain) \<in> set (clix_paths [] root)"
  using clix_stands_own(1) [of root "fst (hd chain)" "snd (hd chain)"] by (cases chain) (auto simp: clix_chain_ok_def)

lemma shortGroup:
  "clix_chain_ok root chain \<Longrightarrow> P p \<Longrightarrow> clix_parseShortGroup std chain chars rest p = (p', e, rest') \<Longrightarrow> P p'"
proof (induction chars arbitrary: p)
  case (Cons c chars)
  note F = setFunc [OF chain_flag [OF Cons.prems(1)]]
  show ?case
    using Cons.prems(2,3) matched [OF chain_path [OF Cons.prems(1)], of p]
    by (auto simp: Let_def split: if_splits option.splits sum.splits prod.splits intro: F Cons.IH [OF Cons.prems(1)])
qed simp

lemma setFlag: "f \<in> set (clix_flags_at [] root) \<Longrightarrow> P p \<Longrightarrow> clix_setFlag std f arg v eq rest p = (p', e, rest') \<Longrightarrow> P p'"
  by (auto simp: clix_setFlag_def split: if_splits sum.splits prod.splits intro: setFunc)

lemma flagToken:
  assumes "clix_chain_ok root chain" and "P p" and "clix_flagToken std chain arg rest p = (p', e, rest')"
  shows "P p'"
proof -
  have "P p'" if "clix_parseLongOrShort std chain arg rest p = (p', e, rest')"
    using that assms(2)
    by (auto simp: clix_parseLongOrShort_def clix_applyBoolNegation_def Let_def split: if_splits option.splits sum.splits prod.splits
        intro: setFlag [OF chain_flag [OF assms(1)]] setFunc [OF chain_flag [OF assms(1)]])
  then show ?thesis
    using assms shortGroup by (auto simp: clix_flagToken_def split: if_splits)
qed

theorem parseArgs: "clix_chain_ok root chain \<Longrightarrow> P p \<Longrightarrow> P (fst (clix_parseArgs std chain toks p))"
proof -
  have "clix_chain_ok root chain \<longrightarrow> P p \<longrightarrow> P (fst (clix_parseArgs std chain toks p))"
  proof (rule clix_parse_run [where Q = "\<lambda>chain toks p r. clix_chain_ok root chain \<longrightarrow> P p \<longrightarrow> P (fst r)"])
    fix chain arg toks p name sub r
    assume "clix_subcommand (snd (hd chain)) arg = Some (name, sub)"
      and "clix_chain_ok root ((name # fst (hd chain), sub) # chain) \<longrightarrow> P (p\<lparr>pr_matched := name # fst (hd chain)\<rparr>) \<longrightarrow> P (fst r)"
    then show "clix_chain_ok root chain \<longrightarrow> P p \<longrightarrow> P (fst r)"
      using clix_chain_ok_child chain_path matched by fastforce
  qed (auto intro: matched args chain_path dest: flagToken)
  then show "clix_chain_ok root chain \<Longrightarrow> P p \<Longrightarrow> P (fst (clix_parseArgs std chain toks p))" by blast
qed

end

subsection \<open>\<open>Reset\<close> and the state it starts from\<close>

text \<open>A parse does not look at the error of the one before.\<close>

abbreviation clix_stale :: "goerror \<Rightarrow> ('f, 't, 'a) clix_Parser \<Rightarrow> ('f, 't, 'a) clix_Parser" where
  "clix_stale x p \<equiv> p\<lparr>pr_parseErr := x\<rparr>"

lemma clix_setFunc_stale: "clix_setFunc std f s (clix_stale x p) = map_prod (clix_stale x) id (clix_setFunc std f s p)"
  by (simp add: clix_setFunc_def clix_store_def split: sum.split)

lemma clix_shortGroup_stale:
  "clix_parseShortGroup std chain chars rest (clix_stale x p) = map_prod (clix_stale x) id (clix_parseShortGroup std chain chars rest p)"
proof (induction chars arbitrary: p)
  case (Cons c chars)
  then show ?case
    by (auto simp: Let_def clix_setFunc_stale split: option.splits sum.splits prod.splits)
qed simp

lemma clix_setFlag_stale:
  "clix_setFlag std f arg v eq rest (clix_stale x p) = map_prod (clix_stale x) id (clix_setFlag std f arg v eq rest p)"
  by (auto simp: clix_setFlag_def clix_setFunc_stale split: sum.splits prod.splits)

lemma clix_flagToken_stale:
  "clix_flagToken std chain arg rest (clix_stale x p) = map_prod (clix_stale x) id (clix_flagToken std chain arg rest p)"
proof -
  have "clix_parseLongOrShort std chain arg rest (clix_stale x p) = map_prod (clix_stale x) id (clix_parseLongOrShort std chain arg rest p)"
    by (auto simp: clix_parseLongOrShort_def clix_applyBoolNegation_def Let_def clix_setFunc_stale clix_setFlag_stale
        split: option.splits sum.splits prod.splits)
  then show ?thesis by (simp add: clix_flagToken_def clix_shortGroup_stale)
qed

lemma clix_parseArgs_stale:
  fixes chain :: "('f, 't, 'a) clix_chain"
  shows "clix_parseArgs std chain toks (clix_stale x p) = map_prod (clix_stale x) id (clix_parseArgs std chain toks p)"
proof (induction "length toks" arbitrary: chain toks p rule: less_induct)
  case less
  show ?case
  proof (cases toks)
    case Nil
    then show ?thesis by simp
  next
    case (Cons arg rest)
    have IH: "clix_parseArgs std chain1 rest1 (clix_stale x p1) = map_prod (clix_stale x) id (clix_parseArgs std chain1 rest1 p1)"
      if "length rest1 \<le> length rest" for chain1 :: "('f, 't, 'a) clix_chain" and rest1 p1
      using less.hyps that Cons by simp
    have put: "clix_put_args path ts (clix_stale x p1) = clix_stale x (clix_put_args path ts p1)" for path ts p1
      by (simp add: clix_put_args_def)
    have mat: "clix_stale x p1\<lparr>pr_matched := path\<rparr> = clix_stale x (p1\<lparr>pr_matched := path\<rparr>)" for path p1 by simp
    obtain p1 e rest1 where r: "clix_flagToken std chain arg rest p = (p1, e, rest1)" by (metis prod_cases3)
    have len: "length rest1 \<le> length rest" using clix_flagToken_rest [OF r [symmetric]] .
    show ?thesis
      unfolding Cons clix_parseArgs.simps(2) Let_def clix_flagToken_stale r
      by (auto simp: put mat IH len split: option.splits)
  qed
qed

text \<open>What \<open>resetCommand\<close> leaves: cleared marks and arguments everywhere in the tree, and the defaults in the bound variables.\<close>

definition clix_write :: "nat \<times> ('f, 't) clix_value \<Rightarrow> ('f, 't) clix_vars \<Rightarrow> ('f, 't) clix_vars" where
  "clix_write d vars = vars(fst d := snd d)"

definition clix_mark :: "clix_path \<times> ('f, 't) clix_flagMeta \<Rightarrow> clix_path \<times> string" where
  "clix_mark f = (fst f, fm_name (snd f))"

lemma clix_reset_flags:
  "pr_vars (fold (clix_reset_flag path) ms p) = fold clix_write (map (\<lambda>m. (fm_target m, fm_defValue m)) ms) (pr_vars p)"
  "pr_set (fold (clix_reset_flag path) ms p) a b \<longleftrightarrow> pr_set p a b \<and> (a, b) \<notin> clix_mark ` Pair path ` set ms"
  "pr_args (fold (clix_reset_flag path) ms p) = pr_args p"
  "pr_root (fold (clix_reset_flag path) ms p) = pr_root p" "pr_version (fold (clix_reset_flag path) ms p) = pr_version p"
  "pr_parseErr (fold (clix_reset_flag path) ms p) = pr_parseErr p"
  by (induction ms arbitrary: p) (auto simp: clix_reset_flag_def clix_resetFunc_def clix_mark_def clix_write_def)

lemma clix_resetCommand_effect:
  "pr_vars (clix_resetCommand path c p) = fold clix_write (clix_defaults c) (pr_vars p) \<and>
   (\<forall>a b. pr_set (clix_resetCommand path c p) a b \<longleftrightarrow> pr_set p a b \<and> (a, b) \<notin> clix_mark ` set (clix_flags_at path c)) \<and>
   (\<forall>a. pr_args (clix_resetCommand path c p) a = (if a \<in> set (clix_paths path c) then [] else pr_args p a)) \<and>
   pr_root (clix_resetCommand path c p) = pr_root p \<and> pr_version (clix_resetCommand path c p) = pr_version p \<and>
   pr_parseErr (clix_resetCommand path c p) = pr_parseErr p"
  "pr_vars (clix_reset_subs path subs p) =
     fold clix_write (concat (map (\<lambda>s. clix_defaults (snd s)) subs)) (pr_vars p) \<and>
   (\<forall>a b. pr_set (clix_reset_subs path subs p) a b \<longleftrightarrow>
      pr_set p a b \<and> (a, b) \<notin> clix_mark ` set (concat (map (\<lambda>s. clix_flags_at (fst s # path) (snd s)) subs))) \<and>
   (\<forall>a. pr_args (clix_reset_subs path subs p) a =
      (if a \<in> set (concat (map (\<lambda>s. clix_paths (fst s # path) (snd s)) subs)) then [] else pr_args p a)) \<and>
   pr_root (clix_reset_subs path subs p) = pr_root p \<and> pr_version (clix_reset_subs path subs p) = pr_version p \<and>
   pr_parseErr (clix_reset_subs path subs p) = pr_parseErr p"
proof (induction path c p and path subs p rule: clix_resetCommand_clix_reset_subs.induct)
  case (1 path n subs p)
  then show ?case by (auto simp: clix_reset_flags)
next
  case (2 path p)
  then show ?case by simp
next
  case (3 path name sub subs p)
  then show ?case by auto
qed

text \<open>Distinct keys: the order of the writes does not matter.\<close>

lemma fold_writes:
  "distinct (map fst ds) \<Longrightarrow> fold clix_write ds vars x = (case map_of ds x of Some v \<Rightarrow> v | None \<Rightarrow> vars x)"
proof (induction ds arbitrary: vars)
  case (Cons d ds)
  have "map_of ds (fst d) = None" using Cons.prems by (simp add: map_of_eq_None_iff)
  then show ?case using Cons by (cases "x = fst d"; cases d) (simp_all add: clix_write_def split: option.split)
qed simp

subsection \<open>\<open>New\<close>\<close>

text \<open>Building the tree writes each flag's default to its variable, in the order of the options, and nothing else.\<close>

definition clix_built :: "('f, 't, 'a) clix_build \<Rightarrow> ('f, 't, 'a) clix_build \<Rightarrow> bool" where
  "clix_built b b' = (\<exists>ws. snd b' = fold clix_write ws (snd b) \<and> mset (clix_defaults (fst b')) = mset (clix_defaults (fst b)) + mset ws)"

lemma clix_built_refl: "clix_defaults c' = clix_defaults c \<Longrightarrow> clix_built (c, vars) (c', vars)"
  by (auto simp: clix_built_def intro: exI [of _ "[]"])

lemma clix_built_trans: "clix_built b b1 \<Longrightarrow> clix_built b1 b2 \<Longrightarrow> clix_built b b2"
  unfolding clix_built_def
proof (elim exE conjE)
  fix ws ws'
  assume "snd b1 = fold clix_write ws (snd b)" "mset (clix_defaults (fst b1)) = mset (clix_defaults (fst b)) + mset ws"
    "snd b2 = fold clix_write ws' (snd b1)" "mset (clix_defaults (fst b2)) = mset (clix_defaults (fst b1)) + mset ws'"
  then show "\<exists>ws. snd b2 = fold clix_write ws (snd b) \<and> mset (clix_defaults (fst b2)) = mset (clix_defaults (fst b)) + mset ws"
    by (intro exI [of _ "ws @ ws'"]) simp
qed

lemma clix_defaults_node: "cm_flags (g (cm_node c)) = cm_flags (cm_node c) \<Longrightarrow> clix_defaults (clix_node_upd g c) = clix_defaults c"
  by (cases c) (simp add: clix_node_upd_def)

lemma clix_attach_aliases_defaults: "clix_attach_aliases name al c = Inr c' \<Longrightarrow> clix_defaults c' = clix_defaults c"
  by (induction name al c rule: clix_attach_aliases.induct) (auto simp: clix_defaults_node split: if_splits)

lemma clix_build_writes:
  "clix_Option_apply anc opt b = Inr b' \<Longrightarrow> clix_built b b'"
  "clix_options anc opts b = Inr b' \<Longrightarrow> clix_built b b'"
proof (induction anc opt b and anc opts b arbitrary: b' and b' rule: clix_Option_apply_clix_options.induct)
  case (1 anc b)
  then show ?case using clix_built_refl [of "fst b" "fst b" "snd b"] by simp
next
  case (2 anc target name short def usage extras b)
  then obtain t where b': "b' = clix_register (clix_new_flag t name short def usage extras) b"
    by (auto elim: clix_AddFlag_Inr)
  show ?case
    unfolding b' clix_built_def
    by (rule exI [of _ "[(t, def)]"], cases "fst b") (simp add: clix_register_def clix_node_upd_def clix_node_add_def clix_write_def)
next
  case (3 anc fn b)
  then show ?case
    by (cases b) (auto simp: clix_with_vars_def clix_Run_def split: if_splits intro!: clix_built_refl clix_defaults_node)
next
  case (4 anc names b)
  then show ?case
    by (cases b) (auto simp: clix_with_vars_def clix_Alias_def split: if_splits intro!: clix_built_refl clix_defaults_node)
next
  case (5 anc v b)
  then show ?case
    by (cases b) (auto simp: clix_with_vars_def clix_Version_def split: if_splits intro!: clix_built_refl clix_defaults_node)
next
  case (6 anc l b)
  then show ?case
    by (cases b) (auto simp: clix_with_vars_def clix_WithHelpLabels_def split: if_splits intro!: clix_built_refl clix_defaults_node)
next
  case (7 anc name desc opts b)
  from "7.prems" obtain child vars c' where ok: "name \<noteq> []" "clix_subcommand (fst b) name = None"
      "clix_options (fst b # anc) opts (clix_newCommand name desc, snd b) = Inr (child, vars)"
      "clix_attach_aliases name (cm_aliases (cm_node child)) (clix_attach name child (fst b)) = Inr c'" "b' = (c', vars)"
    by (cases "clix_subcommand (fst b) name") (auto simp: clix_with_vars_def split: if_splits sum.splits prod.splits)
  have "clix_built (clix_newCommand name desc, snd b) (child, vars)"
    using "7.IH" [OF ok(1) _ ok(3)] ok(2) by simp
  then obtain ws where "vars = fold clix_write ws (snd b)" "mset (clix_defaults child) = mset ws"
    by (auto simp: clix_built_def clix_newCommand_def)
  moreover have "mset (clix_defaults c') = mset (clix_defaults (fst b)) + mset (clix_defaults child)"
    using clix_attach_aliases_defaults [OF ok(4)] by (cases "fst b") (simp add: clix_attach_def)
  ultimately show ?case using ok(5) by (auto simp: clix_built_def)
next
  case (8 anc b)
  then show ?case using clix_built_refl [of "fst b" "fst b" "snd b"] by simp
next
  case (9 anc opt opts b)
  then obtain b1 where "clix_Option_apply anc opt b = Inr b1" "clix_options anc opts b1 = Inr b'"
    by (auto split: sum.splits)
  then show ?case using "9.IH"(1) [of b1] "9.IH"(2) [of b1 b'] clix_built_trans by blast
qed

text \<open>The parser that \<open>New\<close> and \<open>Reset\<close> hand to \<open>parseArgs\<close>.\<close>

definition clix_fresh ::
    "('f, 't, 'a) clix_Command \<Rightarrow> ('f, 't) clix_vars \<Rightarrow> ('f, 't, 'a) clix_Parser" where
  "clix_fresh root vars =
     \<lparr>pr_root = root, pr_matched = [], pr_version = cm_version (cm_node root), pr_parseErr = None,
      pr_set = (\<lambda>path name. False), pr_args = (\<lambda>path. []),
      pr_vars = (\<lambda>x. case map_of (clix_defaults root) x of Some v \<Rightarrow> v | None \<Rightarrow> vars x)\<rparr>"

lemma clix_built_vars:
  assumes "clix_build_tree name desc opts vars = Inr (root, vars1)" and "clix_targets_distinct root"
  shows "vars1 = (\<lambda>x. case map_of (clix_defaults root) x of Some v \<Rightarrow> v | None \<Rightarrow> vars x)"
proof -
  have "clix_built (clix_newCommand name desc, vars) (root, vars1)"
    using assms(1) by (intro clix_build_writes(2)) (auto simp: clix_build_tree_def split: list.splits if_splits)
  then obtain ws where ws: "vars1 = fold clix_write ws vars" "mset (clix_defaults root) = mset ws"
    by (auto simp: clix_built_def clix_newCommand_def)
  then have "mset (map fst (clix_defaults root)) = mset (map fst ws)" by simp
  note mset_eq_imp_distinct_iff [OF this]
  then have d: "distinct (map fst ws)" "distinct (map fst (clix_defaults root))"
    using assms(2) by (simp_all add: clix_targets_distinct_def)
  have "map_of ws = map_of (clix_defaults root)"
    using map_of_inject_set [OF d] mset_eq_setD [OF ws(2)] by simp
  then show ?thesis using fold_writes [OF d(1)] ws(1) by auto
qed

lemma clix_built_wf:
  assumes "clix_build_tree name desc opts vars = Inr (root, vars1)"
  shows "clix_wf (cm_version (cm_node root) \<noteq> []) root" and "cm_name (cm_node root) = name"
proof -
  have "clix_keeps [] (clix_newCommand name desc) root"
    using clix_options_keep(2) [of "[]" opts "(clix_newCommand name desc, vars)" "(root, vars1)"] assms
    by (auto simp: clix_build_tree_def split: list.splits if_splits)
  then show "clix_wf (cm_version (cm_node root) \<noteq> []) root" and "cm_name (cm_node root) = name"
    by (simp_all add: clix_keeps_def clix_versioned_def clix_root_def) (simp add: clix_newCommand_def)
qed

text \<open>What no parse changes: the tree, the version, everything outside the tree.\<close>

definition clix_confined :: "('f, 't, 'a) clix_Command \<Rightarrow> ('f, 't) clix_vars \<Rightarrow> ('f, 't, 'a) clix_Parser \<Rightarrow> bool" where
  "clix_confined root vars p =
     (pr_root p = root \<and> pr_version p = cm_version (cm_node root) \<and> pr_parseErr p = None \<and>
      (\<forall>a b. pr_set p a b \<longrightarrow> (a, b) \<in> clix_mark ` set (clix_flags_at [] root)) \<and>
      (\<forall>a. pr_args p a \<noteq> [] \<longrightarrow> a \<in> set (clix_paths [] root)) \<and>
      (\<forall>x. x \<notin> fst ` set (clix_defaults root) \<longrightarrow> pr_vars p x = vars x))"

lemma clix_kept_confined: "clix_kept std root (clix_confined root vars)"
proof unfold_locales
  fix f v p
  assume f: "f \<in> set (clix_flags_at [] root)" and "clix_confined root vars p"
  moreover have "fm_target (snd f) \<in> fst ` set (clix_defaults root)"
    using f by (force simp: clix_defaults_flags [of root "[]"])
  ultimately show "clix_confined root vars (clix_store f v p)"
    by (auto simp: clix_confined_def clix_store_def clix_mark_def)
qed (auto simp: clix_confined_def clix_put_args_def)

lemma clix_fresh_confined: "clix_confined root vars (clix_fresh root vars)"
  by (auto simp: clix_confined_def clix_fresh_def map_of_eq_None_iff split: option.splits) (force dest: map_of_SomeD)

lemma clix_New_Inr:
  assumes new: "clix_New std osArgs name desc opts vars = Inr p" and dist: "clix_targets_distinct (pr_root p)"
  obtains root p1 e where "clix_wf (cm_version (cm_node root) \<noteq> []) root"
    and "clix_targets_distinct root" and "\<And>osArgs. clix_New std osArgs name desc opts vars =
      (case clix_parseArgs std [([], root)] osArgs (clix_fresh root vars) of (p1, e) \<Rightarrow> Inr (clix_stale e p1))"
    and "clix_parseArgs std [([], root)] osArgs (clix_fresh root vars) = (p1, e)" and "p = clix_stale e p1"
    and "clix_confined root vars p1"
proof -
  obtain root vars1 where tree: "clix_build_tree name desc opts vars = Inr (root, vars1)"
    using new by (cases "clix_build_tree name desc opts vars") (auto simp: clix_New_def)
  define p0 :: "('a, 'b, 'c) clix_Parser" where
    "p0 = \<lparr>pr_root = root, pr_matched = [], pr_version = cm_version (cm_node root), pr_parseErr = None,
      pr_set = (\<lambda>path name. False), pr_args = (\<lambda>path. []), pr_vars = vars1\<rparr>"
  have N: "clix_New std osArgs name desc opts vars =
      (case clix_parseArgs std [([], root)] osArgs p0 of (p1, e) \<Rightarrow> Inr (clix_stale e p1))" for osArgs
    by (simp add: clix_New_def tree p0_def)
  note wf = clix_built_wf(1) [OF tree]
  obtain p1 e where run: "clix_parseArgs std [([], root)] osArgs p0 = (p1, e)" by fastforce
  have p: "p = clix_stale e p1" using new run by (simp add: N)
  have "clix_kept std root (\<lambda>p. pr_root p = root)"
    by unfold_locales (simp_all add: clix_store_def clix_put_args_def)
  from clix_kept.parseArgs [OF this clix_chain_ok_root [OF wf], of p0 osArgs]
  have "pr_root p1 = root" using run by (simp add: p0_def)
  then have d: "clix_targets_distinct root" using dist p by simp
  have p0: "p0 = clix_fresh root vars"
    unfolding p0_def clix_fresh_def clix_built_vars [OF tree d] by simp
  have "clix_confined root vars p1"
    using clix_kept.parseArgs [OF clix_kept_confined clix_chain_ok_root [OF wf] clix_fresh_confined, of vars std osArgs] run p0 by simp
  then show thesis by (rule that [OF wf d N [unfolded p0] run [unfolded p0] p])
qed

text \<open>After a reset the state is that of a new parser.\<close>

lemma clix_reset_fresh:
  assumes "clix_confined root vars p1" and "clix_targets_distinct root"
  shows "(clix_resetCommand [] root (clix_stale e p1))\<lparr>pr_matched := []\<rparr> = clix_stale e (clix_fresh root vars)"
proof (rule clix_Parser.equality)
  note eff = clix_resetCommand_effect(1) [of "[]" root "clix_stale e p1"]
  have "fold clix_write (clix_defaults root) (pr_vars p1) x = (case map_of (clix_defaults root) x of Some v \<Rightarrow> v | None \<Rightarrow> vars x)" for x
  proof (cases "map_of (clix_defaults root) x")
    case None
    then have "pr_vars p1 x = vars x" using assms(1) by (simp add: clix_confined_def map_of_eq_None_iff)
    then show ?thesis using assms(2) None by (simp add: clix_targets_distinct_def fold_writes)
  qed (use assms(2) in \<open>simp add: clix_targets_distinct_def fold_writes\<close>)
  then show "pr_vars ((clix_resetCommand [] root (clix_stale e p1))\<lparr>pr_matched := []\<rparr>) = pr_vars (clix_stale e (clix_fresh root vars))"
    using eff by (auto simp: clix_fresh_def)
  show "pr_set ((clix_resetCommand [] root (clix_stale e p1))\<lparr>pr_matched := []\<rparr>) = pr_set (clix_stale e (clix_fresh root vars))"
    using eff assms(1) by (intro ext) (auto simp: clix_fresh_def clix_confined_def)
  show "pr_args ((clix_resetCommand [] root (clix_stale e p1))\<lparr>pr_matched := []\<rparr>) = pr_args (clix_stale e (clix_fresh root vars))"
    using eff assms(1) by (intro ext) (auto simp: clix_fresh_def clix_confined_def)
qed (use clix_resetCommand_effect(1) [of "[]" root "clix_stale e p1"] assms(1) in \<open>auto simp: clix_fresh_def clix_confined_def\<close>)

end
