(* ===== verification/Clix_Help.thy ===== *)
theory Clix_Help
  imports Clix_Parse
begin

text \<open>
  The help text of \<open>clix\<close> (\<open>help.go\<close>, \<open>help_labels.go\<close>). The writes to the \<open>strings.Builder\<close> are the string that a function returns. Every
  function is given the command and its ancestors, as in \<open>Clix_Parse\<close>; \<open>len\<close> counts bytes.
\<close>

definition clix_labels :: "('f, 't, 'a) clix_Command list \<Rightarrow> clix_HelpLabels" where
  "clix_labels chain =
     (case cm_helpLabels (cm_node (clix_root chain)) of Some l \<Rightarrow> l | None \<Rightarrow> clix_defaultHelpLabels)"

text \<open>\<open>strings.Contains\<close> and \<open>strings.Replace(\<dots>, 1)\<close> with the verb \<open>%s\<close>.\<close>

fun strings_Contains_verb :: "string \<Rightarrow> bool" where
  "strings_Contains_verb (c # d # cs) = (c = CHR ''%'' \<and> d = CHR ''s'' \<or> strings_Contains_verb (d # cs))"
| "strings_Contains_verb cs = False"

fun strings_Replace_verb :: "string \<Rightarrow> string \<Rightarrow> string" where
  "strings_Replace_verb (c # d # cs) values =
     (if c = CHR ''%'' \<and> d = CHR ''s'' then values @ cs else c # strings_Replace_verb (d # cs) values)"
| "strings_Replace_verb cs values = cs"

definition clix_formatOneOf :: "string \<Rightarrow> string \<Rightarrow> string" where
  "clix_formatOneOf tmpl values =
     (if strings_Contains_verb tmpl then strings_Replace_verb tmpl values
      else if tmpl = [] then values
      else tmpl @ '' '' @ values)"

definition go_newline :: string where "go_newline = [char_of (10::nat)]"

definition clix_commandPath :: "('f, 't, 'a) clix_Command list \<Rightarrow> string" where
  "clix_commandPath chain = strings_Join (rev (map (\<lambda>c. cm_name (cm_node c)) chain)) '' ''"

definition clix_builtinFlagMetas :: "('f, 't, 'a) clix_Command list \<Rightarrow> clix_HelpLabels \<Rightarrow> ('f, 't) clix_flagMeta list" where
  "clix_builtinFlagMetas chain lb =
     (let builtin = (\<lambda>name short usage. \<lparr>fm_name = name, fm_short = short, fm_usage = usage, fm_isBool = True, fm_required = False,
            fm_defValue = VBool False, fm_enumValues = [], fm_target = 0\<rparr>)
      in builtin ''help'' ''h'' (hl_HelpFlag lb)
         # (if cm_version (cm_node (clix_root chain)) \<noteq> [] then [builtin ''version'' ''V'' (hl_VersionFlag lb)] else []))"

definition clix_formatDefault :: "('f, 't) clix_std \<Rightarrow> ('f, 't) clix_value \<Rightarrow> string \<Rightarrow> string" where
  "clix_formatDefault std v emptyString =
     (case v of
        VBool _ \<Rightarrow> []
      | VString d \<Rightarrow> if d = [] then emptyString else ''['' @ d @ '']''
      | VDuration d \<Rightarrow> ''['' @ sd_Duration_String std d @ '']''
      | VTime d \<Rightarrow> ''['' @ sd_Time_Format std d @ '']''
      | _ \<Rightarrow> ''['' @ clix_Sprint std v @ '']'')"

definition clix_formatEnum :: "('f, 't) clix_std \<Rightarrow> ('f, 't) clix_value list \<Rightarrow> string" where
  "clix_formatEnum std vals = strings_Join (map (clix_Sprint std) vals) '', ''"

definition clix_maxLen :: "string list \<Rightarrow> nat" where
  "clix_maxLen ss = fold (\<lambda>s m. if m < length s then length s else m) ss 0"

definition clix_flagDisplayWidth :: "('f, 't) clix_flagMeta \<Rightarrow> nat" where
  "clix_flagDisplayWidth f =
     length ''--'' + length (fm_name f) + (if fm_short f \<noteq> [] then length '', -'' + length (fm_short f) else 0)"

definition clix_pad :: "string \<Rightarrow> nat \<Rightarrow> string" where
  "clix_pad s width = s @ replicate (width - length s) (CHR '' '')"

definition clix_writeAligned :: "string \<Rightarrow> string \<Rightarrow> nat \<Rightarrow> string" where
  "clix_writeAligned left right width = ''  '' @ clix_pad left width @ '' '' @ right @ go_newline"

definition clix_writePadded :: "string \<Rightarrow> string \<Rightarrow> string \<Rightarrow> nat \<Rightarrow> nat \<Rightarrow> string" where
  "clix_writePadded col1 col2 col3 w1 w2 = ''  '' @ clix_pad col1 w1 @ '' '' @ clix_pad col2 w2 @ '' '' @ col3 @ go_newline"

definition clix_subLabel :: "string \<times> ('f, 't, 'a) clix_Command \<Rightarrow> string" where
  "clix_subLabel s =
     (let al = cm_aliases (cm_node (snd s)) in fst s @ (if al \<noteq> [] then '', '' @ strings_Join al '', '' else []))"

definition clix_writeCommandBlock :: "('f, 't, 'a) clix_Command \<Rightarrow> clix_HelpLabels \<Rightarrow> string" where
  "clix_writeCommandBlock c lb =
     (let cmdWidth = max 14 (clix_maxLen (map clix_subLabel (cm_subs c)) + 2)
      in go_newline @ hl_Commands lb @ '':'' @ go_newline
         @ concat (map (\<lambda>s. clix_writeAligned (clix_subLabel s) (cm_description (cm_node (snd s))) cmdWidth) (cm_subs c)))"

definition clix_flagLabel :: "('f, 't) clix_flagMeta \<Rightarrow> string" where
  "clix_flagLabel f = ''--'' @ fm_name f @ (if fm_short f \<noteq> [] then '', -'' @ fm_short f else [])"

definition clix_flagComment :: "('f, 't) clix_std \<Rightarrow> clix_HelpLabels \<Rightarrow> ('f, 't) clix_flagMeta \<Rightarrow> string" where
  "clix_flagComment std lb f =
     fm_usage f @ (if fm_required f then '' ('' @ hl_Required lb @ '')'' else [])
     @ (if fm_enumValues f \<noteq> [] then '' ('' @ clix_formatOneOf (hl_OneOf lb) (clix_formatEnum std (fm_enumValues f)) @ '')'' else [])"

text \<open>The widths of the two padded columns: the longest entry and the padding, or the minimum.\<close>

definition clix_flagCols :: "('f, 't) clix_std \<Rightarrow> ('f, 't) clix_flagMeta list \<Rightarrow> clix_HelpLabels \<Rightarrow> nat \<times> nat" where
  "clix_flagCols std flags lb =
     (let (w1, w2) = fold (\<lambda>f (w1, w2).
            (if w1 < clix_flagDisplayWidth f then clix_flagDisplayWidth f else w1,
             let d = length (clix_formatDefault std (fm_defValue f) (hl_EmptyString lb)) in if w2 < d then d else w2)) flags (0, 0)
      in (max 22 (w1 + 2), max 10 (w2 + 2)))"

definition clix_flagRow ::
    "('f, 't) clix_std \<Rightarrow> clix_HelpLabels \<Rightarrow> nat \<times> nat \<Rightarrow> ('f, 't) clix_flagMeta \<Rightarrow> string" where
  "clix_flagRow std lb cols f =
     clix_writePadded (clix_flagLabel f) (clix_formatDefault std (fm_defValue f) (hl_EmptyString lb)) (clix_flagComment std lb f)
       (fst cols) (snd cols)"

definition clix_writeFlagBlock :: "('f, 't) clix_std \<Rightarrow> ('f, 't) clix_flagMeta list \<Rightarrow> clix_HelpLabels \<Rightarrow> string" where
  "clix_writeFlagBlock std flags lb = concat (map (clix_flagRow std lb (clix_flagCols std flags lb)) flags)"

definition clix_collectInheritedFlags :: "('f, 't, 'a) clix_Command list \<Rightarrow> ('f, 't) clix_flagMeta list" where
  "clix_collectInheritedFlags chain =
     (let layers = filter (\<lambda>fs. fs \<noteq> []) (map (\<lambda>c. cm_flags (cm_node c)) (tl chain)) in concat (rev layers))"

definition clix_localFlags :: "('f, 't, 'a) clix_Command list \<Rightarrow> ('f, 't) clix_flagMeta list" where
  "clix_localFlags chain = cm_flags (cm_node (hd chain)) @ clix_builtinFlagMetas chain (clix_labels chain)"

text \<open>The USAGE line, the description and the commands; then the blocks of flags.\<close>

definition clix_help_head :: "('f, 't, 'a) clix_Command list \<Rightarrow> string" where
  "clix_help_head chain =
     (let lb = clix_labels chain; c = hd chain; subs = cm_keys (cm_node c) \<noteq> []
      in hl_Usage lb @ '': '' @ clix_commandPath chain @ '' '' @ hl_FlagsMetavar lb
         @ (if subs then '' '' @ hl_CommandMetavar lb else []) @ go_newline
         @ (if cm_description (cm_node c) \<noteq> [] then go_newline @ cm_description (cm_node c) @ go_newline else [])
         @ (if subs then clix_writeCommandBlock c lb else []))"

definition clix_help :: "('f, 't) clix_std \<Rightarrow> ('f, 't, 'a) clix_Command list \<Rightarrow> string" where
  "clix_help std chain =
     (let lb = clix_labels chain; inherited = clix_collectInheritedFlags chain
      in clix_help_head chain @ go_newline @ hl_Flags lb @ '':'' @ go_newline @ clix_writeFlagBlock std (clix_localFlags chain) lb
         @ (if inherited \<noteq> []
            then go_newline @ hl_GlobalFlags lb @ '':'' @ go_newline @ clix_writeFlagBlock std inherited lb else []))"

definition clix_Help :: "('f, 't) clix_std \<Rightarrow> ('f, 't, 'a) clix_Parser \<Rightarrow> string" where
  "clix_Help std p = clix_help std (map snd (clix_matched p))"

end
