(* ===== verification/Clix_Props.thy ===== *)
theory Clix_Props
  imports Clix_Spell Clix_State Clix_Help
begin

text \<open>
  The properties of the command-line parser \<open>clix\<close>, on the lemmas of the theories before: the meaning of a command line, round trips,
  the tree, \<open>Reset\<close>, the bound variables, the outcome of a parse and the help text.
\<close>

subsection \<open>A concrete program\<close>

text \<open>\<open>app\<close> with a switch and a required port, and a subcommand \<open>serve\<close> (alias \<open>s\<close>) with a level out of two.\<close>

definition clix_demo_std :: "(unit, unit) clix_std" where
  "clix_demo_std = \<lparr>sd_ParseFloat = (\<lambda>s. Inr ()), sd_ParseDuration = (\<lambda>s. Inr 0), sd_ParseTime = (\<lambda>s. Inr ()),
     sd_float_eq = (\<lambda>x y. True), sd_time_eq = (\<lambda>x y. True), sd_Sprint_float = (\<lambda>x. []), sd_Duration_String = FormatInt,
     sd_Sprint_time = (\<lambda>x. []), sd_Time_Format = (\<lambda>x. [])\<rparr>"

definition clix_demo_opts :: "(unit, unit, nat) clix_Option list" where
  "clix_demo_opts =
     [OVersion ''1'', OAddFlag (Some 0) ''verbose'' ''v'' (VBool False) [] [], OAddFlag (Some 1) ''port'' ''p'' (VInt 80) [] [FRequired],
      OSubCommand ''serve'' [] [OAlias [''s''], ORun (Some 0),
        OAddFlag (Some 2) ''level'' ''l'' (VString ''lo'') [] [FEnum [VString ''lo'', VString ''hi'']]]]"

definition clix_demo_vars :: "(unit, unit) clix_vars" where "clix_demo_vars x = VBool True"

definition clix_demo_run :: "string list \<Rightarrow> clix_panic + (unit, unit, nat) clix_Parser" where
  "clix_demo_run toks = clix_New clix_demo_std toks ''app'' [] clix_demo_opts clix_demo_vars"

definition clix_demo_root :: "(unit, unit, nat) clix_Command" where
  "clix_demo_root = (case clix_build_tree ''app'' [] clix_demo_opts clix_demo_vars of Inr (root, _) \<Rightarrow> root | Inl _ \<Rightarrow> clix_newCommand [] [])"

definition clix_port :: "(unit, unit) clix_flagMeta" where
  "clix_port = \<lparr>fm_name = ''port'', fm_short = ''p'', fm_usage = [], fm_isBool = False, fm_required = True, fm_defValue = VInt 80,
     fm_enumValues = [], fm_target = 1\<rparr>"

definition clix_verbose :: "(unit, unit) clix_flagMeta" where
  "clix_verbose = \<lparr>fm_name = ''verbose'', fm_short = ''v'', fm_usage = [], fm_isBool = True, fm_required = False, fm_defValue = VBool False,
     fm_enumValues = [], fm_target = 0\<rparr>"

definition clix_demo_chain :: "(unit, unit, nat) clix_chain" where "clix_demo_chain = [([], clix_demo_root)]"

lemma clix_demo_resolves:
  "clix_resolveFlag clix_demo_chain ''port'' = Some ([], clix_port)"
  "clix_resolveFlag clix_demo_chain ''verbose'' = Some ([], clix_verbose)"
  "clix_resolveShort clix_demo_chain ''p'' = Some ''port''"
  "clix_resolveShort clix_demo_chain ''v'' = Some ''verbose''"
  "clix_resolveFlag clix_demo_chain ''no-verbose'' = None"
  by code_simp+

lemma clix_demo_spells:
  "clix_spells clix_demo_chain True [''-vp80''] [(([], clix_verbose), ''true''), (([], clix_port), ''80'')]"
  "clix_spells clix_demo_chain True [''-vp80'', ''--no-verbose'', ''--port'', ''-5'']
    [(([], clix_verbose), ''true''), (([], clix_port), ''80''), (([], clix_verbose), ''false''), (([], clix_port), ''-5'')]"
proof -
  have v: "clix_names_flag clix_demo_chain True (CHR ''v'') ([], clix_verbose)"
    and p: "clix_names_flag clix_demo_chain True (CHR ''p'') ([], clix_port)"
    using clix_demo_resolves by (simp_all add: clix_names_flag_def)
  show 1: "clix_spells clix_demo_chain True [''-vp80''] [(([], clix_verbose), ''true''), (([], clix_port), ''80'')]"
    using clix_spells.group_attached [of _ True "''v''" "[([], clix_verbose)]", OF _ p] v
    by (simp add: clix_switch_def clix_verbose_def clix_port_def)
  have 2: "clix_spells clix_demo_chain True [''--no-verbose''] [(([], clix_verbose), ''false'')]"
    using clix_spells.negation [of _ "''verbose''", OF _ clix_demo_resolves(2), of True] clix_demo_resolves(5) by (simp add: clix_verbose_def)
  have 3: "clix_spells clix_demo_chain True [''--port'', ''-5''] [(([], clix_port), ''-5'')]"
    using clix_spells.long_value [OF clix_demo_resolves(1), of True "''-5''"]
    by (simp add: clix_port_def clix_nextTokenLooksLikeFlag_def clix_isASCIIDigit_def)
  show "clix_spells clix_demo_chain True [''-vp80'', ''--no-verbose'', ''--port'', ''-5'']
    [(([], clix_verbose), ''true''), (([], clix_port), ''80''), (([], clix_verbose), ''false''), (([], clix_port), ''-5'')]"
    using clix_spells.both [OF 1 clix_spells.both [OF 2 3]] by simp
qed

lemma clix_demo_flags: "cm_flags (cm_node clix_demo_root) = [clix_verbose, clix_port]"
  by code_simp

lemma clix_demo_version: "(pr_version (clix_fresh clix_demo_root clix_demo_vars) \<noteq> []) = True"
  by code_simp

subsection \<open>The meaning of a command line\<close>

text \<open>
  C25: spellings agree. Whatever mix of \<open>--name=v\<close>, \<open>--name v\<close>, \<open>--name\<close> and \<open>--no-name\<close> for a switch, \<open>-s=v\<close>, \<open>-s v\<close>, \<open>-s\<close> for a switch, and
  groups \<open>-abc\<close> of switches, the last of which may be a flag with its value attached or in the next token, a command line starts with, the
  parser performs exactly the assignments that it spells, in order, stops at the first value that is refused, and otherwise goes on with the
  tokens after it. The letters of a group are ASCII, and a value attached to a group has no \<open>=\<close>: a token with one is never read as a group.
\<close>

theorem clix_spellings:
  assumes "clix_spells chain (pr_version p \<noteq> []) toks fs"
  shows "clix_parseArgs std chain (toks @ rest) p =
    (case clix_assign std fs p of (p1, Some e) \<Rightarrow> (p1, Some e) | (p1, None) \<Rightarrow> clix_parseArgs std chain rest p1)"
  using clix_parse_spelling [OF assms HOL.refl] by (simp add: clix_then_def)

theorem clix_spellings_witness:
  "clix_parseArgs clix_demo_std clix_demo_chain [''-vp80'', ''--no-verbose'', ''--port'', ''-5'', ''x''] (clix_fresh clix_demo_root clix_demo_vars) =
    (case clix_assign clix_demo_std
        [(([], clix_verbose), ''true''), (([], clix_port), ''80''), (([], clix_verbose), ''false''), (([], clix_port), ''-5'')]
        (clix_fresh clix_demo_root clix_demo_vars) of
      (p1, Some e) \<Rightarrow> (p1, Some e) | (p1, None) \<Rightarrow> clix_parseArgs clix_demo_std clix_demo_chain [''x''] p1)"
proof -
  from clix_spellings [of clix_demo_chain "clix_fresh clix_demo_root clix_demo_vars", unfolded clix_demo_version, OF clix_demo_spells(2), of clix_demo_std "[''x'']"]
  show ?thesis by (simp only: append.simps)
qed

lemma clix_assign_store:
  assumes "list_all (\<lambda>(f, s). \<exists>v. clix_check std (snd f) s = Inr v) fs" and "distinct (map (\<lambda>(f, s). fm_target (snd f)) fs)"
  shows "\<exists>p1. clix_assign std fs p = (p1, None) \<and>
    (\<forall>(f, s)\<in>set fs. clix_check std (snd f) s = Inr (pr_vars p1 (fm_target (snd f))) \<and> pr_set p1 (fst f) (fm_name (snd f))) \<and>
    (\<forall>x. x \<notin> (\<lambda>(f, s). fm_target (snd f)) ` set fs \<longrightarrow> pr_vars p1 x = pr_vars p x) \<and> (\<forall>a b. pr_set p a b \<longrightarrow> pr_set p1 a b)"
  using assms
proof (induction fs arbitrary: p)
  case (Cons fs1 fs)
  obtain f s where f: "fs1 = (f, s)" by fastforce
  then obtain v where v: "clix_check std (snd f) s = Inr v" using Cons.prems by auto
  obtain p1 where p1: "clix_assign std fs (clix_store f v p) = (p1, None)"
    "\<forall>(g, t)\<in>set fs. clix_check std (snd g) t = Inr (pr_vars p1 (fm_target (snd g))) \<and> pr_set p1 (fst g) (fm_name (snd g))"
    "\<forall>x. x \<notin> (\<lambda>(f, s). fm_target (snd f)) ` set fs \<longrightarrow> pr_vars p1 x = pr_vars (clix_store f v p) x"
    "\<forall>a b. pr_set (clix_store f v p) a b \<longrightarrow> pr_set p1 a b"
    using Cons.IH [of "clix_store f v p"] Cons.prems by auto
  have "fm_target (snd f) \<notin> (\<lambda>(f, s). fm_target (snd f)) ` set fs" using Cons.prems(2) f by simp
  then have "pr_vars p1 (fm_target (snd f)) = v" "pr_set p1 (fst f) (fm_name (snd f))"
    using p1(3,4) by (simp_all add: clix_store_def)
  then show ?case
    using p1 v f by (intro exI [of _ p1]) (auto simp: clix_setFunc_def clix_store_def split: if_splits)
qed simp

text \<open>
  C26: round trip. When a command line spells a list of bindings of different variables, each with a value its flag accepts, then followed
  by \<open>--\<close> and operands, the parser gives back exactly these: every bound variable has the value of its text, its flag counts as set, no other
  variable changed, and the operands are the arguments of the command, dashes and all.
\<close>

theorem clix_roundtrip:
  assumes "clix_spells chain (pr_version p \<noteq> []) toks fs" and "distinct (map (\<lambda>(f, s). fm_target (snd f)) fs)"
    and "list_all (\<lambda>(f, s). \<exists>v. clix_check std (snd f) s = Inr v) fs"
  shows "\<exists>p1. clix_parseArgs std chain (toks @ ''--'' # operands) p = (p1, clix_checkRequired chain (pr_set p1)) \<and>
    (\<forall>(f, s)\<in>set fs. clix_check std (snd f) s = Inr (pr_vars p1 (fm_target (snd f))) \<and> pr_set p1 (fst f) (fm_name (snd f))) \<and>
    (\<forall>x. x \<notin> (\<lambda>(f, s). fm_target (snd f)) ` set fs \<longrightarrow> pr_vars p1 x = pr_vars p x) \<and>
    pr_args p1 = (pr_args p)(fst (hd chain) := pr_args p (fst (hd chain)) @ operands)"
proof -
  obtain p1 where p1: "clix_assign std fs p = (p1, None)"
    "\<forall>(f, s)\<in>set fs. clix_check std (snd f) s = Inr (pr_vars p1 (fm_target (snd f))) \<and> pr_set p1 (fst f) (fm_name (snd f))"
    "\<forall>x. x \<notin> (\<lambda>(f, s). fm_target (snd f)) ` set fs \<longrightarrow> pr_vars p1 x = pr_vars p x"
    using clix_assign_store [OF assms(3,2)] by blast
  have "clix_parseArgs std chain (toks @ ''--'' # operands) p
      = (clix_put_args (fst (hd chain)) operands p1, clix_checkRequired chain (pr_set p1))"
    using clix_parse_spelling [OF assms(1) HOL.refl] p1(1) by (simp add: clix_parseArgs.simps(2) Let_def clix_put_args_def)
  then show ?thesis
    using p1 clix_assign_frame [OF p1(1)]
    by (intro exI [of _ "clix_put_args (fst (hd chain)) operands p1"]) (simp add: clix_put_args_def)
qed

theorem clix_roundtrip_witness:
  "\<exists>p1. clix_parseArgs clix_demo_std clix_demo_chain [''-vp80'', ''--'', ''-x''] (clix_fresh clix_demo_root clix_demo_vars) = (p1, None) \<and>
    pr_vars p1 0 = VBool True \<and> pr_vars p1 1 = VInt 80 \<and> pr_vars p1 2 = VString ''lo'' \<and> pr_args p1 [] = [''-x'']"
proof -
  have vals: "clix_check clix_demo_std clix_verbose ''true'' = Inr (VBool True)" "clix_check clix_demo_std clix_port ''80'' = Inr (VInt 80)"
    by (simp_all add: clix_check_def clix_parseValue_def strconv_Atoi_def strconv_ParseBool_def go_isDigit_def Let_def
        clix_verbose_def clix_port_def)
  have checks: "list_all (\<lambda>(f, s). \<exists>v. clix_check clix_demo_std (snd f) s = Inr v)
      [(([], clix_verbose), ''true''), (([], clix_port), ''80'')]"
    using vals by simp
  have targets: "distinct (map (\<lambda>(f :: clix_path \<times> (unit, unit) clix_flagMeta, s :: string). fm_target (snd f))
      [(([], clix_verbose), ''true''), (([], clix_port), ''80'')])"
    by (simp add: clix_verbose_def clix_port_def)
  have required: "clix_checkRequired clix_demo_chain marks = None" if "marks [] ''port''" for marks
    using that by (simp add: clix_demo_chain_def clix_demo_flags clix_verbose_def clix_port_def)
  have init: "pr_args (clix_fresh clix_demo_root clix_demo_vars) [] = []" "pr_vars (clix_fresh clix_demo_root clix_demo_vars) 2 = VString ''lo''"
    by code_simp+
  obtain p1 where p1: "clix_parseArgs clix_demo_std clix_demo_chain ([''-vp80''] @ ''--'' # [''-x'']) (clix_fresh clix_demo_root clix_demo_vars)
        = (p1, clix_checkRequired clix_demo_chain (pr_set p1))"
    "\<forall>(f, s)\<in>set [(([], clix_verbose), ''true''), (([], clix_port), ''80'')].
        clix_check clix_demo_std (snd f) s = Inr (pr_vars p1 (fm_target (snd f))) \<and> pr_set p1 (fst f) (fm_name (snd f))"
    "\<forall>x. x \<notin> (\<lambda>(f :: clix_path \<times> (unit, unit) clix_flagMeta, s :: string). fm_target (snd f)) `
        set [(([], clix_verbose), ''true''), (([], clix_port), ''80'')] \<longrightarrow>
        pr_vars p1 x = pr_vars (clix_fresh clix_demo_root clix_demo_vars) x"
    "pr_args p1 = (pr_args (clix_fresh clix_demo_root clix_demo_vars))
      (fst (hd clix_demo_chain) := pr_args (clix_fresh clix_demo_root clix_demo_vars) (fst (hd clix_demo_chain)) @ [''-x''])"
    using clix_roundtrip [of clix_demo_chain "clix_fresh clix_demo_root clix_demo_vars" "[''-vp80'']", unfolded clix_demo_version,
        OF clix_demo_spells(1) targets checks, of "[''-x'']"] by blast
  have "pr_vars p1 0 = VBool True" "pr_vars p1 1 = VInt 80" "pr_set p1 [] ''port''"
    using p1(2) vals by (simp_all add: clix_verbose_def clix_port_def)
  moreover have "pr_vars p1 2 = VString ''lo''" "pr_args p1 [] = [''-x'']"
    using p1(3,4) init by (simp_all add: clix_verbose_def clix_port_def clix_demo_chain_def)
  ultimately show ?thesis using p1(1) required by auto
qed

subsection \<open>The outcome of a parse\<close>

definition clix_sentinels :: "goerr list" where
  "clix_sentinels = [clix_ErrHelp, clix_ErrVersion, clix_ErrUnknownFlag, clix_ErrUnknownCommand, clix_ErrMissingValue,
     clix_ErrInvalidValue, clix_ErrRequired, clix_ErrEnumViolated]"

definition clix_documented :: "goerr \<Rightarrow> bool" where
  "clix_documented e = list_ex (errors_Is e) clix_sentinels"

lemma clix_documented_errors [simp]:
  "clix_documented clix_ErrHelp" "clix_documented clix_ErrVersion" "clix_documented (clix_errUnknownFlag f)"
  "clix_documented (clix_errUnknownCommand c av)" "clix_documented (clix_errMissingValue f)" "clix_documented (clix_errInvalidValue f r e)"
  "clix_documented (clix_errRequired f)" "clix_documented (clix_errEnumViolated std f r vs)"
  by (simp_all add: clix_documented_def clix_sentinels_def clix_errUnknownFlag_def clix_errUnknownCommand_def clix_errMissingValue_def
      clix_errInvalidValue_def clix_errRequired_def clix_errEnumViolated_def)

lemma clix_setFunc_error: "clix_setFunc std f s p = (p', Some e) \<Longrightarrow> clix_documented e"
  by (auto simp: clix_setFunc_def clix_check_def split: sum.splits if_splits)

lemma clix_takeNext_error: "clix_takeNextFlagValue rest tok = Inl e \<Longrightarrow> clix_documented e"
  by (auto simp: clix_takeNextFlagValue_def split: list.splits if_splits)

text \<open>A flag token changes the match only to ask for help or the version, and fails with a documented error.\<close>

definition clix_token_ok :: "('f, 't, 'a) clix_chain \<Rightarrow> ('f, 't, 'a) clix_Parser \<Rightarrow> ('f, 't, 'a) clix_Parser \<Rightarrow> goerror \<Rightarrow> bool" where
  "clix_token_ok chain p p' e =
     (pr_root p' = pr_root p \<and> (pr_matched p' = pr_matched p \<or> e \<noteq> None \<and> pr_matched p' = fst (hd chain)) \<and> pred_option clix_documented e)"

lemma clix_setFunc_token: "clix_setFunc std f s p = (p', e) \<Longrightarrow> clix_token_ok chain p p' e"
  using clix_setFunc_frame [of std f s p p' e] clix_setFunc_error [of std f s p p']
  by (cases e) (auto simp: clix_token_ok_def)

lemma clix_shortGroup_token: "clix_parseShortGroup std chain chars rest p = (p', e, rest') \<Longrightarrow> clix_token_ok chain p p' e"
proof (induction chars arbitrary: p)
  case Nil
  then show ?case by (simp add: clix_token_ok_def)
next
  case (Cons c chars)
  have go: "clix_token_ok chain p p' e" if "clix_setFunc std f s p = (p1, None)" "clix_parseShortGroup std chain chars rest p1 = (p', e, rest')"
    for f s p1
    using clix_setFunc_token [OF that(1), of chain] Cons.IH [OF that(2)] by (auto simp: clix_token_ok_def)
  show ?case
    using Cons.prems
    by (auto simp: clix_parseShortGroup.simps(2) Let_def split: if_splits option.splits sum.splits prod.splits
        intro: clix_setFunc_token go) (auto simp: clix_token_ok_def dest: clix_takeNext_error)
qed

lemma clix_setFlag_token: "clix_setFlag std f arg v eq rest p = (p', e, rest') \<Longrightarrow> clix_token_ok chain p p' e"
  by (auto simp: clix_setFlag_def split: if_splits sum.splits prod.splits intro: clix_setFunc_token)
    (auto simp: clix_token_ok_def dest: clix_takeNext_error)

lemma clix_flagToken_token:
  assumes "clix_flagToken std chain arg rest p = (p', e, rest')"
  shows "clix_token_ok chain p p' e"
proof -
  have "clix_token_ok chain p p' e" if "clix_parseLongOrShort std chain arg rest p = (p', e, rest')"
    using that
    by (auto simp: clix_parseLongOrShort_def clix_applyBoolNegation_def Let_def split: if_splits option.splits sum.splits prod.splits
        intro: clix_setFlag_token clix_setFunc_token) (auto simp: clix_token_ok_def)
  then show ?thesis using assms clix_shortGroup_token by (auto simp: clix_flagToken_def split: if_splits)
qed

lemma clix_checkRequired_None:
  "clix_checkRequired chain marks = None \<longleftrightarrow>
     (\<forall>(path, c)\<in>set chain. \<forall>m\<in>set (cm_flags (cm_node c)). fm_required m \<longrightarrow> marks path (fm_name m))"
  by (induction chain marks rule: clix_checkRequired.induct) (auto simp: find_None_iff find_Some_iff split: option.splits)

lemma clix_checkRequired_error: "clix_checkRequired chain marks = Some e \<Longrightarrow> clix_documented e"
  by (induction chain marks rule: clix_checkRequired.induct) (auto split: option.splits)

definition clix_outcome_ok :: "('f, 't, 'a) clix_Command \<Rightarrow> ('f, 't, 'a) clix_Parser \<times> goerror \<Rightarrow> bool" where
  "clix_outcome_ok root r =
     (pr_root (fst r) = root \<and> clix_matched (fst r) \<noteq> [] \<and> pred_option clix_documented (snd r) \<and>
      (snd r = None \<longrightarrow> (\<forall>(path, c)\<in>set (clix_matched (fst r)). \<forall>m\<in>set (cm_flags (cm_node c)).
         fm_required m \<longrightarrow> pr_set (fst r) path (fm_name m))))"

lemma clix_ended_ok:
  assumes "clix_chain_ok root chain" and "pr_matched p = fst (hd chain)" and "pr_root p = root"
  shows "clix_outcome_ok root (p, clix_checkRequired chain (pr_set p))"
  using assms clix_checkRequired_None [of chain "pr_set p"] clix_checkRequired_error [of chain "pr_set p"]
  by (cases "clix_checkRequired chain (pr_set p)") (auto simp: clix_outcome_ok_def clix_matched_def clix_chain_ok_def)

lemma clix_outcome:
  fixes chain :: "('f, 't, 'a) clix_chain"
  shows "clix_chain_ok root chain \<longrightarrow> pr_matched p = fst (hd chain) \<longrightarrow> pr_root p = root \<longrightarrow> clix_outcome_ok root (clix_parseArgs std chain toks p)"
proof (rule clix_parse_run [where
      Q = "\<lambda>chain toks p r. clix_chain_ok root chain \<longrightarrow> pr_matched p = fst (hd chain) \<longrightarrow> pr_root p = root \<longrightarrow> clix_outcome_ok root r"])
  fix chain :: "('f, 't, 'a) clix_chain" and arg toks p name sub r
  assume "clix_subcommand (snd (hd chain)) arg = Some (name, sub)"
    and "clix_chain_ok root ((name # fst (hd chain), sub) # chain) \<longrightarrow>
      pr_matched (p\<lparr>pr_matched := name # fst (hd chain)\<rparr>) = fst (hd ((name # fst (hd chain), sub) # chain)) \<longrightarrow>
      pr_root (p\<lparr>pr_matched := name # fst (hd chain)\<rparr>) = root \<longrightarrow> clix_outcome_ok root r"
  then show "clix_chain_ok root chain \<longrightarrow> pr_matched p = fst (hd chain) \<longrightarrow> pr_root p = root \<longrightarrow> clix_outcome_ok root r"
    using clix_chain_ok_child by fastforce
next
  fix chain :: "('f, 't, 'a) clix_chain" and arg toks p p1 toks1 r
  assume "clix_flagToken std chain arg toks p = (p1, None, toks1)"
    and "clix_chain_ok root chain \<longrightarrow> pr_matched p1 = fst (hd chain) \<longrightarrow> pr_root p1 = root \<longrightarrow> clix_outcome_ok root r"
  then show "clix_chain_ok root chain \<longrightarrow> pr_matched p = fst (hd chain) \<longrightarrow> pr_root p = root \<longrightarrow> clix_outcome_ok root r"
    using clix_flagToken_token by (fastforce simp: clix_token_ok_def)
next
  fix chain :: "('f, 't, 'a) clix_chain" and arg toks p p1 e toks1
  assume "clix_flagToken std chain arg toks p = (p1, Some e, toks1)"
  from clix_flagToken_token [OF this]
  show "clix_chain_ok root chain \<longrightarrow> pr_matched p = fst (hd chain) \<longrightarrow> pr_root p = root \<longrightarrow> clix_outcome_ok root (p1, Some e)"
    by (auto simp: clix_token_ok_def clix_outcome_ok_def clix_matched_def clix_chain_ok_def)
next
  fix chain :: "('f, 't, 'a) clix_chain" and p
  show "clix_chain_ok root chain \<longrightarrow> pr_matched p = fst (hd chain) \<longrightarrow> pr_root p = root \<longrightarrow>
      clix_outcome_ok root (p, clix_checkRequired chain (pr_set p))"
    by (intro impI clix_ended_ok)
next
  fix chain :: "('f, 't, 'a) clix_chain" and toks p
  show "clix_chain_ok root chain \<longrightarrow> pr_matched p = fst (hd chain) \<longrightarrow> pr_root p = root \<longrightarrow>
      clix_outcome_ok root
        (clix_put_args (fst (hd chain)) toks p, clix_checkRequired chain (pr_set (clix_put_args (fst (hd chain)) toks p)))"
    by (intro impI clix_ended_ok) (simp_all add: clix_put_args_def)
qed (auto simp: clix_put_args_def, auto simp: clix_outcome_ok_def clix_matched_def clix_chain_ok_def)

text \<open>
  C27: the outcome of building and parsing. The tree of a parser made by \<open>New\<close> is well formed: in every command the maps of names and letters
  hold exactly its flags, names and letters are unique, non-empty and none of the reserved ones, enum values have the type of the flag, and
  every subcommand is found under its name and its aliases. \<open>Command()\<close> is a command of the tree. The error is nil, and then every required
  flag of the matched command and of its ancestors was set, or it wraps one of the documented sentinels.
\<close>

theorem clix_New_outcome:
  assumes "clix_New std osArgs name desc opts vars = Inr p"
  shows "clix_wf (cm_version (cm_node (pr_root p)) \<noteq> []) (pr_root p) \<and> cm_name (cm_node (pr_root p)) = name \<and> clix_matched p \<noteq> [] \<and>
    (case pr_parseErr p of
       None \<Rightarrow> \<forall>(path, c)\<in>set (clix_matched p). \<forall>m\<in>set (cm_flags (cm_node c)). fm_required m \<longrightarrow> pr_set p path (fm_name m)
     | Some e \<Rightarrow> \<exists>s\<in>set clix_sentinels. errors_Is e s)"
proof -
  obtain root vars1 where tree: "clix_build_tree name desc opts vars = Inr (root, vars1)"
    using assms by (cases "clix_build_tree name desc opts vars") (auto simp: clix_New_def)
  define p0 :: "('a, 'b, 'c) clix_Parser" where
    "p0 = \<lparr>pr_root = root, pr_matched = [], pr_version = cm_version (cm_node root), pr_parseErr = None,
      pr_set = (\<lambda>path name. False), pr_args = (\<lambda>path. []), pr_vars = vars1\<rparr>"
  obtain p1 e where run: "clix_parseArgs std [([], root)] osArgs p0 = (p1, e)" by fastforce
  have p: "p = clix_stale e p1" using assms run by (simp add: clix_New_def tree p0_def)
  have out: "clix_outcome_ok root (p1, e)"
    using clix_outcome [of root "[([], root)]" p0 std osArgs] clix_chain_ok_root [OF clix_built_wf(1) [OF tree]] run
    by (simp add: p0_def)
  then have "pr_root p = root" "clix_matched p = clix_matched p1"
    by (simp_all add: p clix_outcome_ok_def clix_matched_def)
  then show ?thesis
    using clix_built_wf [OF tree] out
    by (cases e) (auto simp: p clix_outcome_ok_def clix_documented_def list_ex_iff)
qed

theorem clix_New_outcome_witness:
  "case clix_demo_run [''s''] of
     Inr p \<Rightarrow> clix_wf True (pr_root p) \<and> pr_matched p = [''serve''] \<and> errors_Is (the (pr_parseErr p)) clix_ErrRequired \<and>
       (\<exists>s\<in>set clix_sentinels. errors_Is (the (pr_parseErr p)) s)
   | Inl _ \<Rightarrow> False"
proof -
  have run: "case clix_demo_run [''s''] of
      Inr p \<Rightarrow> pr_matched p = [''serve''] \<and> pr_parseErr p = Some (clix_errRequired ''port'') \<and> cm_version (cm_node (pr_root p)) = ''1''
    | Inl _ \<Rightarrow> False"
    by code_simp
  then obtain p where p: "clix_demo_run [''s''] = Inr p" by (cases "clix_demo_run [''s'']") auto
  show ?thesis
    using clix_New_outcome [OF p [unfolded clix_demo_run_def]] run by (simp add: p clix_errRequired_def)
qed

subsection \<open>\<open>Reset\<close>\<close>

text \<open>
  C28: \<open>Reset\<close> forgets. When all flags of the tree are bound to different variables, resetting a parser to new arguments gives exactly the
  parser that \<open>New\<close> builds from these arguments, whatever was parsed before: the same match, error, arguments, set marks and variables.
\<close>

theorem clix_Reset_is_New:
  assumes "clix_New std osArgs0 name desc opts vars = Inr p" and "clix_targets_distinct (pr_root p)"
  shows "clix_New std osArgs name desc opts vars = Inr (clix_Reset std osArgs p)"
proof (rule clix_New_Inr [OF assms])
  fix root p1 e
  assume dist: "clix_targets_distinct root" and p: "p = clix_stale e p1" and con: "clix_confined root vars p1"
    and new: "\<And>osArgs. clix_New std osArgs name desc opts vars =
      (case clix_parseArgs std [([], root)] osArgs (clix_fresh root vars) of (p1, e) \<Rightarrow> Inr (clix_stale e p1))"
  have "pr_root p = root" using con p by (simp add: clix_confined_def)
  then show ?thesis
    using clix_reset_fresh [OF con dist, of e] new [of osArgs]
    by (simp add: clix_Reset_def p clix_parseArgs_stale split: prod.split)
qed

theorem clix_Reset_is_New_witness:
  "case clix_demo_run [''s'', ''-vl'', ''hi'', ''x''] of
     Inr p \<Rightarrow> pr_vars p 2 = VString ''hi'' \<and> clix_demo_run [''-p=1''] = Inr (clix_Reset clix_demo_std [''-p=1''] p)
   | Inl _ \<Rightarrow> False"
proof -
  have run: "case clix_demo_run [''s'', ''-vl'', ''hi'', ''x''] of
      Inr p \<Rightarrow> pr_vars p 2 = VString ''hi'' \<and> clix_targets_distinct (pr_root p) | Inl _ \<Rightarrow> False"
    by code_simp
  then obtain p where p: "clix_demo_run [''s'', ''-vl'', ''hi'', ''x''] = Inr p" "pr_vars p 2 = VString ''hi''" "clix_targets_distinct (pr_root p)"
    by (cases "clix_demo_run [''s'', ''-vl'', ''hi'', ''x'']") auto
  have "clix_demo_run [''-p=1''] = Inr (clix_Reset clix_demo_std [''-p=1''] p)"
    using clix_Reset_is_New [OF p(1) [unfolded clix_demo_run_def] p(3)] by (simp add: clix_demo_run_def)
  then show ?thesis using p by simp
qed

subsection \<open>Bound variables\<close>

lemma clix_flags_at_path: "f \<in> set (clix_flags_at path c) \<Longrightarrow> \<exists>q. fst f = q @ path"
proof (induction c arbitrary: path)
  case (Command n subs)
  then consider m where "f = (path, m)" | s where "s \<in> set subs" "f \<in> set (clix_flags_at (fst s # path) (snd s))" by auto
  then show ?case
  proof cases
    case 2
    then obtain q where "fst f = q @ fst s # path" using Command.IH [of s "snd s"] by (auto simp: snds.simps)
    then show ?thesis by (intro exI [of _ "q @ [fst s]"]) simp
  qed simp
qed

text \<open>No two flags of a well-formed tree share a mark.\<close>

lemma clix_mark_unique:
  "clix_wf ver c \<Longrightarrow> f \<in> set (clix_flags_at path c) \<Longrightarrow> g \<in> set (clix_flags_at path c) \<Longrightarrow> clix_mark f = clix_mark g \<Longrightarrow> f = g"
proof (induction c arbitrary: path f g)
  case (Command n subs)
  have below: "\<exists>q. fst h = q @ fst s # path" if "h \<in> set (clix_flags_at (fst s # path) (snd s))" for h s
    using clix_flags_at_path [OF that] .
  have names: "distinct (map fm_name (cm_flags n))" and keys: "distinct (map fst subs)"
    using Command.prems(1) by (simp_all add: clix_flags_ok_def clix_subs_ok_def)
  have paths: "fst f = fst g" using Command.prems(4) by (simp add: clix_mark_def)
  consider (own) m m' where "f = (path, m)" "g = (path, m')" "m \<in> set (cm_flags n)" "m' \<in> set (cm_flags n)"
    | (left) s m where "s \<in> set subs" "g \<in> set (clix_flags_at (fst s # path) (snd s))" "f = (path, m)"
    | (right) s m where "s \<in> set subs" "f \<in> set (clix_flags_at (fst s # path) (snd s))" "g = (path, m)"
    | (sub) s t where "s \<in> set subs" "t \<in> set subs" "f \<in> set (clix_flags_at (fst s # path) (snd s))" "g \<in> set (clix_flags_at (fst t # path) (snd t))"
  proof -
    have "(\<exists>m\<in>set (cm_flags n). h = (path, m)) \<or> (\<exists>s\<in>set subs. h \<in> set (clix_flags_at (fst s # path) (snd s)))"
      if "h \<in> set (clix_flags_at path (Command n subs))" for h
      using that by auto
    from this [OF Command.prems(2)] this [OF Command.prems(3)] show thesis using own left right sub by (elim disjE bexE) blast+
  qed
  then show ?case
  proof cases
    case own
    then have "fm_name m = fm_name m'" using Command.prems(4) by (simp add: clix_mark_def)
    then show ?thesis using own names by (auto simp: distinct_map dest: inj_onD)
  next
    case left
    then show ?thesis using below [OF left(2)] paths by (auto simp: left(3))
  next
    case right
    then show ?thesis using below [OF right(2)] paths by (auto simp: right(3))
  next
    case sub
    obtain q r where qr: "fst f = q @ fst s # path" "fst g = r @ fst t # path" using below sub(3,4) by blast
    have "length (q @ fst s # path) = length (r @ fst t # path)" using paths qr by metis
    then have "fst s = fst t" using paths qr by (simp add: append_eq_append_conv)
    then have "s = t" using keys sub(1,2) by (auto simp: distinct_map dest: inj_onD)
    moreover have "clix_wf ver (snd s)" using Command.prems(1) sub(1) by (simp add: list_all_iff)
    ultimately show ?thesis using Command.IH [of s "snd s" f "fst s # path" g] sub Command.prems(4) by (auto simp: snds.simps)
  qed
qed

lemma clix_check_typed:
  assumes "clix_check std m s = Inr v"
  shows "clix_TypeOf v = clix_TypeOf (fm_defValue m)" and "fm_enumValues m \<noteq> [] \<Longrightarrow> clix_enumAllowed std v (fm_enumValues m)"
proof -
  have v: "clix_parseValue std (clix_TypeOf (fm_defValue m)) s = Inr v" and "fm_enumValues m \<noteq> [] \<longrightarrow> clix_enumAllowed std v (fm_enumValues m)"
    using assms by (auto simp: clix_check_def split: sum.splits if_splits)
  then show "fm_enumValues m \<noteq> [] \<Longrightarrow> clix_enumAllowed std v (fm_enumValues m)" by simp
  have typed: "map_sum id h r = Inr v \<Longrightarrow> (\<And>x. clix_TypeOf (h x) = T) \<Longrightarrow> clix_TypeOf v = T" for h T and r :: "goerr + 'x"
    by (cases r) auto
  show "clix_TypeOf v = clix_TypeOf (fm_defValue m)"
    using v by (cases "fm_defValue m") (auto simp: clix_parseValue_def elim!: typed)
qed

text \<open>\<open>==\<close> between values of flags, written out.\<close>

lemma clix_eq_values:
  assumes "clix_eq std v w"
  shows "w = v \<or> (\<exists>x y. v = VFloat64 x \<and> w = VFloat64 y \<and> sd_float_eq std x y) \<or> (\<exists>x y. v = VTime x \<and> w = VTime y \<and> sd_time_eq std x y)"
  using assms by (cases "(std, v, w)" rule: clix_eq.cases) auto

lemma clix_enum_member:
  assumes "clix_enumAllowed std v vals"
  shows "\<exists>w\<in>set vals. w = v \<or> (\<exists>x y. v = VFloat64 x \<and> w = VFloat64 y \<and> sd_float_eq std x y) \<or>
    (\<exists>x y. v = VTime x \<and> w = VTime y \<and> sd_time_eq std x y)"
  using assms clix_eq_values [of std v] unfolding clix_enumAllowed_def list_ex_iff by blast

definition clix_values_ok :: "('f, 't) clix_std \<Rightarrow> ('f, 't, 'a) clix_Parser \<Rightarrow> clix_path \<times> ('f, 't) clix_flagMeta \<Rightarrow> bool" where
  "clix_values_ok std p f =
     (if pr_set p (fst f) (fm_name (snd f)) then \<exists>s. clix_check std (snd f) s = Inr (pr_vars p (fm_target (snd f)))
      else pr_vars p (fm_target (snd f)) = fm_defValue (snd f))"

lemma clix_kept_values:
  assumes wf: "clix_wf ver root" and dist: "clix_targets_distinct root"
  shows "clix_kept std root (\<lambda>p. \<forall>f\<in>set (clix_flags_at [] root). clix_values_ok std p f)"
proof unfold_locales
  fix f v s p
  assume f: "f \<in> set (clix_flags_at [] root)" and v: "clix_check std (snd f) s = Inr v"
    and ok: "\<forall>g\<in>set (clix_flags_at [] root). clix_values_ok std p g"
  show "\<forall>g\<in>set (clix_flags_at [] root). clix_values_ok std (clix_store f v p) g"
  proof
    fix g
    assume g: "g \<in> set (clix_flags_at [] root)"
    show "clix_values_ok std (clix_store f v p) g"
    proof (cases "g = f")
      case True
      then show ?thesis using v by (auto simp: clix_values_ok_def clix_store_def)
    next
      case False
      then have "fm_target (snd g) \<noteq> fm_target (snd f)" "clix_mark g \<noteq> clix_mark f"
        using clix_target_unique [OF dist g f] clix_mark_unique [OF wf g f] by blast+
      then show ?thesis using ok g by (auto simp: clix_values_ok_def clix_store_def clix_mark_def)
    qed
  qed
qed (auto simp: clix_values_ok_def clix_put_args_def)

text \<open>
  C29: bound variables keep their type. When all flags of the tree are bound to different variables, then after \<open>New\<close>, whether parsing succeeded
  or not, the variable of every flag holds a value of the flag's type. If the flag does not count as set that is the default. If it does, it is
  the value of some text, and when the flag has an \<open>Enum\<close> set it is one of its values: the same string, integer, boolean or duration, or a
  \<open>float64\<close> or a time that Go's \<open>==\<close> finds equal to one.
\<close>

theorem clix_values_typed:
  assumes "clix_New std osArgs name desc opts vars = Inr p" and "clix_targets_distinct (pr_root p)"
    and "(path, m) \<in> set (clix_flags_at [] (pr_root p))"
  shows "clix_TypeOf (pr_vars p (fm_target m)) = clix_TypeOf (fm_defValue m) \<and>
    (if pr_set p path (fm_name m)
     then (\<exists>s. clix_parseValue std (clix_TypeOf (fm_defValue m)) s = Inr (pr_vars p (fm_target m))) \<and>
       (fm_enumValues m = [] \<or>
        (\<exists>w\<in>set (fm_enumValues m). w = pr_vars p (fm_target m) \<or>
          (\<exists>x y. pr_vars p (fm_target m) = VFloat64 x \<and> w = VFloat64 y \<and> sd_float_eq std x y) \<or>
          (\<exists>x y. pr_vars p (fm_target m) = VTime x \<and> w = VTime y \<and> sd_time_eq std x y)))
     else pr_vars p (fm_target m) = fm_defValue m)"
proof (rule clix_New_Inr [OF assms(1,2)])
  fix root p1 e
  assume wf: "clix_wf (cm_version (cm_node root) \<noteq> []) root" and dist: "clix_targets_distinct root"
    and run: "clix_parseArgs std [([], root)] osArgs (clix_fresh root vars) = (p1, e)" and p: "p = clix_stale e p1"
    and con: "clix_confined root vars p1"
  have "map_of (clix_defaults root) (fm_target (snd f)) = Some (fm_defValue (snd f))" if "f \<in> set (clix_flags_at [] root)" for f
    using that dist by (intro map_of_is_SomeI) (auto simp: clix_targets_distinct_def clix_defaults_flags [of root "[]"])
  then have init: "\<forall>f\<in>set (clix_flags_at [] root). clix_values_ok std (clix_fresh root vars) f"
    by (simp add: clix_values_ok_def clix_fresh_def)
  have "\<forall>f\<in>set (clix_flags_at [] root). clix_values_ok std p1 f"
    using clix_kept.parseArgs [OF clix_kept_values [OF wf dist] clix_chain_ok_root [OF wf] init, of osArgs] run by simp
  moreover have "pr_root p = root" using p con by (simp add: clix_confined_def)
  ultimately have "clix_values_ok std p1 (path, m)" using assms(3) by simp
  then have ok: "clix_values_ok std p (path, m)" unfolding p by (auto simp: clix_values_ok_def split: if_splits)
  show ?thesis
  proof (cases "pr_set p path (fm_name m)")
    case True
    then obtain s where s: "clix_check std m s = Inr (pr_vars p (fm_target m))" using ok by (auto simp: clix_values_ok_def)
    then have "clix_parseValue std (clix_TypeOf (fm_defValue m)) s = Inr (pr_vars p (fm_target m))"
      by (auto simp: clix_check_def split: sum.splits if_splits)
    then show ?thesis using clix_check_typed [OF s] clix_enum_member [of std "pr_vars p (fm_target m)" "fm_enumValues m"] True by (cases "fm_enumValues m = []") (simp only: if_True; blast)+
  next
    case False
    then show ?thesis using ok by (simp add: clix_values_ok_def)
  qed
qed

theorem clix_values_typed_witness:
  "case clix_demo_run [''s'', ''-lhi'', ''-l'', ''mid''] of
     Inr p \<Rightarrow> pr_set p [''serve''] ''level'' \<and> clix_TypeOf (pr_vars p 2) = TString \<and>
       pr_vars p 2 \<in> {VString ''lo'', VString ''hi''}
   | Inl _ \<Rightarrow> False"
proof -
  define lv :: "(unit, unit) clix_flagMeta" where "lv = \<lparr>fm_name = ''level'', fm_short = ''l'', fm_usage = [], fm_isBool = False,
    fm_required = False, fm_defValue = VString ''lo'', fm_enumValues = [VString ''lo'', VString ''hi''], fm_target = 2\<rparr>"
  have run: "case clix_demo_run [''s'', ''-lhi'', ''-l'', ''mid''] of
      Inr p \<Rightarrow> pr_set p [''serve''] ''level'' \<and> clix_targets_distinct (pr_root p) \<and> ([''serve''], lv) \<in> set (clix_flags_at [] (pr_root p))
    | Inl _ \<Rightarrow> False"
    unfolding lv_def by code_simp
  then obtain p where p: "clix_demo_run [''s'', ''-lhi'', ''-l'', ''mid''] = Inr p" "pr_set p [''serve''] ''level''"
      "clix_targets_distinct (pr_root p)" "([''serve''], lv) \<in> set (clix_flags_at [] (pr_root p))"
    by (cases "clix_demo_run [''s'', ''-lhi'', ''-l'', ''mid'']") auto
  show ?thesis
    using clix_values_typed [OF p(1) [unfolded clix_demo_run_def] p(3,4)] p(1,2) by (auto simp: lv_def)
qed

subsection \<open>Shadowing\<close>

definition clix_shadow_flag :: "nat \<Rightarrow> string \<Rightarrow> (unit, unit, nat) clix_Option" where
  "clix_shadow_flag target short = OAddFlag (Some target) ''port'' short (VString ''80'') [] []"

definition clix_shadow_run :: "(unit, unit, nat) clix_Option list \<Rightarrow> clix_panic + (unit, unit, nat) clix_Parser" where
  "clix_shadow_run opts = clix_New clix_demo_std [''serve'', ''-p'', ''81''] ''app'' [] opts clix_demo_vars"

text \<open>
  The check against shadowing depends on the order of the options. With the flag of the root first, a subcommand that defines the same
  flag again panics, as documented; with the subcommand first the same two options build a tree, in which \<open>-p\<close>, a letter that only the root
  defines, sets the variable of the subcommand and leaves the root's at its default.
\<close>

theorem clix_shadow_order:
  "(case clix_shadow_run [clix_shadow_flag 0 ''p'', OSubCommand ''serve'' [] [ORun (Some 0), clix_shadow_flag 1 []]] of
      Inl e \<Rightarrow> e = PShadowFlag ''port'' ''serve'' ''app'' | Inr p \<Rightarrow> False) \<and>
   (case clix_shadow_run [OSubCommand ''serve'' [] [ORun (Some 0), clix_shadow_flag 1 []], clix_shadow_flag 0 ''p''] of
      Inr p \<Rightarrow> pr_parseErr p = None \<and> pr_vars p 1 = VString ''81'' \<and> pr_vars p 0 = VString ''80''
    | Inl _ \<Rightarrow> False)"
  by (rule conjI) code_simp+

subsection \<open>The help text\<close>

lemma fold_max:
  assumes "fold (\<lambda>f (w1, w2). (if w1 < (g f :: nat) then g f else w1, let d = (h f :: nat) in if w2 < d then d else w2)) fs (a, b) = (w1, w2)"
  shows "a \<le> w1 \<and> b \<le> w2 \<and> (\<forall>f\<in>set fs. g f \<le> w1 \<and> h f \<le> w2)"
  using assms
proof (induction fs arbitrary: a b)
  case (Cons f fs)
  then show ?case by (fastforce simp: Let_def split: if_splits)
qed simp

lemma clix_flagCols_bounds:
  assumes "f \<in> set flags"
  shows "clix_flagDisplayWidth f \<le> fst (clix_flagCols std flags lb)"
    and "length (clix_formatDefault std (fm_defValue f) (hl_EmptyString lb)) \<le> snd (clix_flagCols std flags lb)"
  using assms fold_max [of clix_flagDisplayWidth "\<lambda>f. length (clix_formatDefault std (fm_defValue f) (hl_EmptyString lb))" flags 0 0]
  by (auto simp: clix_flagCols_def split: prod.split intro!: max.coboundedI2 le_SucI)

lemma clix_flagLabel_width: "length (clix_flagLabel f) = clix_flagDisplayWidth f"
  by (simp add: clix_flagLabel_def clix_flagDisplayWidth_def)

text \<open>
  The row that a flag has in the help text, in columns of widths \<open>w1\<close> and \<open>w2\<close>: its names, its default and its comment, which names every
  allowed value.
\<close>

definition clix_default_text :: "('f, 't) clix_std \<Rightarrow> clix_HelpLabels \<Rightarrow> ('f, 't) clix_value \<Rightarrow> string" where
  "clix_default_text std lb v =
     (if v \<in> range VBool then [] else if v = VString [] then hl_EmptyString lb
      else ''['' @ (case v of VString d \<Rightarrow> d | VDuration d \<Rightarrow> sd_Duration_String std d | VTime d \<Rightarrow> sd_Time_Format std d | _ \<Rightarrow> clix_Sprint std v) @ '']'')"

definition clix_row_text :: "('f, 't) clix_std \<Rightarrow> clix_HelpLabels \<Rightarrow> nat \<Rightarrow> nat \<Rightarrow> ('f, 't) clix_flagMeta \<Rightarrow> string \<Rightarrow> bool" where
  "clix_row_text std lb w1 w2 f row =
     (\<exists>names def enum.
        row = ''  '' @ names @ replicate (w1 - length names) (CHR '' '') @ '' '' @ def @ replicate (w2 - length def) (CHR '' '') @ '' ''
          @ fm_usage f @ (if fm_required f then '' ('' @ hl_Required lb @ '')'' else []) @ enum @ go_newline \<and>
        length names \<le> w1 \<and> length def \<le> w2 \<and>
        names = ''--'' @ fm_name f @ (if fm_short f = [] then [] else '', -'' @ fm_short f) \<and>
        def = clix_default_text std lb (fm_defValue f) \<and>
        (if fm_enumValues f = [] then enum = []
         else \<exists>a b. enum = '' ('' @ a @ strings_Join (map (clix_Sprint std) (fm_enumValues f)) '', '' @ b @ '')''))"

lemma clix_default_text: "clix_formatDefault std v (hl_EmptyString lb) = clix_default_text std lb v"
  by (cases v) (auto simp: clix_default_text_def clix_formatDefault_def)

lemma strings_Replace_verb_keeps: "strings_Contains_verb t \<Longrightarrow> \<exists>a b. strings_Replace_verb t vs = a @ vs @ b"
proof (induction t vs rule: strings_Replace_verb.induct)
  case (1 c d cs vs)
  show ?case
  proof (cases "c = CHR ''%'' \<and> d = CHR ''s''")
    case True
    then show ?thesis by (intro exI [of _ "[]"] exI [of _ cs]) simp
  next
    case False
    then obtain a b where "strings_Replace_verb (d # cs) vs = a @ vs @ b" using 1 by auto
    then show ?thesis using False by (intro exI [of _ "c # a"] exI [of _ b]) auto
  qed
qed simp_all

lemma clix_formatOneOf_keeps: "\<exists>a b. clix_formatOneOf t vs = a @ vs @ b"
proof (cases "strings_Contains_verb t \<or> t = []")
  case True
  then show ?thesis
    using strings_Replace_verb_keeps [of t vs] by (auto simp: clix_formatOneOf_def intro: exI [of _ "[]"])
next
  case False
  then show ?thesis by (intro exI [of _ "t @ '' ''"] exI [of _ "[]"]) (simp add: clix_formatOneOf_def)
qed

lemma clix_flagRow_text:
  assumes "f \<in> set flags"
  shows "clix_row_text std lb (fst (clix_flagCols std flags lb)) (snd (clix_flagCols std flags lb)) f
    (clix_flagRow std lb (clix_flagCols std flags lb) f)"
proof -
  obtain a b where ab: "clix_formatOneOf (hl_OneOf lb) (clix_formatEnum std (fm_enumValues f)) = a @ clix_formatEnum std (fm_enumValues f) @ b"
    using clix_formatOneOf_keeps by blast
  show ?thesis
    unfolding clix_row_text_def
    using clix_flagCols_bounds [OF assms, of std lb] ab
    by (intro exI [of _ "clix_flagLabel f"] exI [of _ "clix_default_text std lb (fm_defValue f)"]
        exI [of _ "if fm_enumValues f \<noteq> [] then '' ('' @ clix_formatOneOf (hl_OneOf lb) (clix_formatEnum std (fm_enumValues f)) @ '')'' else []"] conjI)
      (auto simp: clix_flagRow_def clix_writePadded_def clix_pad_def clix_flagLabel_width [symmetric] clix_default_text clix_flagComment_def
        clix_formatEnum_def clix_flagLabel_def)
qed

lemma clix_chain_at_path: "pc \<in> set (clix_chain_at root path) \<Longrightarrow> length (fst pc) \<le> length path"
proof (induction path)
  case (Cons a path)
  then have "fst pc = a # path \<or> pc \<in> set (clix_chain_at root path)"
    by (cases "clix_chain_at root path") (auto split: option.splits)
  then show ?case using Cons.IH by (auto intro: le_SucI)
qed simp

lemma clix_chain_at_paths: "pc \<in> set (tl (clix_chain_at root path)) \<Longrightarrow> length (fst pc) < length path"
  using clix_chain_at_path [of pc root "tl path"] by (cases path; cases "clix_chain_at root (tl path)") (auto split: option.splits)

lemma clix_inherited_flags:
  "set (clix_collectInheritedFlags (map snd chain)) = (\<Union>pc\<in>set (tl chain). set (cm_flags (cm_node (snd pc))))"
  by (auto simp: clix_collectInheritedFlags_def map_tl [symmetric])

lemma clix_resolveFlag_owner:
  assumes "clix_resolveFlag chain name = Some (path, m)" and "\<forall>pc\<in>set chain. \<exists>ver. clix_wf ver (snd pc)"
  shows "\<exists>c. (path, c) \<in> set chain \<and> m \<in> set (cm_flags (cm_node c))"
  using assms
proof (induction chain name rule: clix_resolveFlag.induct)
  case (2 path' c up name)
  then show ?case
    by (cases "clix_flag c name") (auto dest: clix_flag_SomeD)
qed simp

text \<open>
  C30: the help text is complete and aligned. Every flag that the parser would find at the matched command has a row in a block of its help
  text, its own under the heading for flags and an inherited one under the heading for global flags. A row consists of the names of the flag,
  its default and its comment (the usage, the mark of a required flag and the allowed values), and in a block all defaults start in one column
  and all comments in another, past the longest names and defaults.
\<close>

theorem clix_help_lists:
  assumes "clix_chain_ok root chain" and "clix_resolveFlag chain name = Some (path, m)" and "lb = clix_labels (map snd chain)"
  shows "\<exists>pre flags row post w1 w2. m \<in> set flags \<and>
    clix_help std (map snd chain) = pre @ go_newline @ (if path = fst (hd chain) then hl_Flags lb else hl_GlobalFlags lb) @ '':'' @ go_newline
      @ concat (map row flags) @ post \<and>
    (\<forall>f\<in>set flags. clix_row_text std lb w1 w2 f (row f))"
proof -
  have own: "\<exists>c. (path, c) \<in> set chain \<and> m \<in> set (cm_flags (cm_node c))"
    using assms(1,2) by (intro clix_resolveFlag_owner) (auto simp: clix_chain_ok_def)
  obtain q c0 up where chain: "chain = (q, c0) # up" using assms(1) by (cases chain) (auto simp: clix_chain_ok_def)
  have up: "length (fst pc) < length q" if "pc \<in> set up" for pc
    using clix_chain_at_paths [of pc root q] assms(1) that by (simp add: clix_chain_ok_def chain)
  have block: ?thesis
    if "m \<in> set flags" "clix_help std (map snd chain) = pre @ go_newline @ (if path = fst (hd chain) then hl_Flags lb else hl_GlobalFlags lb)
        @ '':'' @ go_newline @ clix_writeFlagBlock std flags lb @ post" for pre flags post
    using that clix_flagRow_text unfolding clix_writeFlagBlock_def by blast
  show ?thesis
  proof (cases "path = q")
    case True
    then have "m \<in> set (cm_flags (cm_node c0))" using own up by (fastforce simp: chain)
    then have "m \<in> set (clix_localFlags (map snd chain))" by (simp add: clix_localFlags_def chain)
    then show ?thesis
      using True by (rule_tac block) (simp_all add: clix_help_def Let_def assms(3) chain)
  next
    case False
    then have m: "m \<in> set (clix_collectInheritedFlags (map snd chain))"
      using own unfolding clix_inherited_flags by (force simp: chain)
    then have "clix_collectInheritedFlags (map snd chain) \<noteq> []" by auto
    then show ?thesis
      using False m
      by (intro block [of "clix_collectInheritedFlags (map snd chain)" "clix_help_head (map snd chain) @ go_newline @ hl_Flags lb @ '':'' @ go_newline
            @ clix_writeFlagBlock std (clix_localFlags (map snd chain)) lb" "[]"])
        (simp_all add: clix_help_def Let_def assms(3) chain)
  qed
qed

theorem clix_help_lists_witness:
  "\<exists>pre flags row post w1 w2. clix_verbose \<in> set flags \<and>
    clix_help clix_demo_std (map snd clix_demo_chain) = pre @ go_newline @ ''FLAGS'' @ '':'' @ go_newline @ concat (map row flags) @ post \<and>
    (\<forall>f\<in>set flags. clix_row_text clix_demo_std clix_defaultHelpLabels w1 w2 f (row f))"
proof -
  have "case clix_build_tree ''app'' [] clix_demo_opts clix_demo_vars of Inr _ \<Rightarrow> True | Inl _ \<Rightarrow> False"
    by code_simp
  then obtain v where "clix_build_tree ''app'' [] clix_demo_opts clix_demo_vars = Inr (clix_demo_root, v)"
    by (auto simp: clix_demo_root_def split: sum.splits)
  then have "clix_chain_ok clix_demo_root clix_demo_chain"
    unfolding clix_demo_chain_def by (rule clix_chain_ok_root [OF clix_built_wf(1)])
  moreover have lb: "clix_defaultHelpLabels = clix_labels (map snd clix_demo_chain)" by code_simp
  moreover have "[] = fst (hd clix_demo_chain)" "hl_Flags clix_defaultHelpLabels = ''FLAGS''" 
    by (simp_all add: clix_demo_chain_def clix_defaultHelpLabels_def)
  ultimately show ?thesis
    using clix_help_lists [OF _ clix_demo_resolves(2) lb, of clix_demo_root clix_demo_std] by (simp only: if_True refl)
qed

end
