(* ===== verification/Healthx.thy ===== *)
theory Healthx
  imports Panix
begin

text \<open>
  Package \<open>healthx\<close> (\<open>src/healthx/\<close>): a registry of health checks behind liveness and readiness probes. This theory holds the registry, the
  outcome of one check, the reports and their HTTP status (\<open>healthx.go\<close>, \<open>options.go\<close>, \<open>types.go\<close>, \<open>errors.go\<close>, \<open>handler.go\<close>);
  \<open>Healthx_Probe\<close> has the collection of concurrent checks. A check function is its outcome, chosen when it runs; the text of an error and of a
  duration are the functions of \<open>healthx_text\<close>.
\<close>

subsection \<open>Configuration and data\<close>

record healthx_config =
  xc_checkTimeout :: int

definition healthx_defaultCheckTimeout :: int where "healthx_defaultCheckTimeout = 5000000000"

definition healthx_newConfig :: "(healthx_config \<Rightarrow> healthx_config) list \<Rightarrow> healthx_config" where
  "healthx_newConfig opts = fold (\<lambda>opt c. opt c) opts \<lparr>xc_checkTimeout = healthx_defaultCheckTimeout\<rparr>"

definition healthx_WithTimeout :: "int \<Rightarrow> healthx_config \<Rightarrow> healthx_config" where
  "healthx_WithTimeout d c = (if 0 < d then c\<lparr>xc_checkTimeout := d\<rparr> else c)"

definition healthx_collectGrace :: int where "healthx_collectGrace = 100000000"

record healthx_text =
  xt_error :: "goerr \<Rightarrow> string"
  xt_duration :: "int \<Rightarrow> string"

datatype healthx_Status = StatusUp | StatusDown

record healthx_ComponentStatus =
  xs_Status :: healthx_Status
  xs_Error :: string
  xs_Duration :: string

type_synonym healthx_components = "(string \<times> healthx_ComponentStatus) list"

record healthx_Report =
  xr_Status :: healthx_Status
  xr_Components :: "healthx_components option"
  xr_Duration :: string

text \<open>The registered checks are their names, in the order of registration.\<close>

record healthx_Checker =
  xh_cfg :: healthx_config
  xh_checks :: "string list"
  xh_down :: bool
  xh_readinessChecks :: u64
  xh_readinessFailures :: u64

record healthx_CheckerStats =
  xk_Registered :: int
  xk_Down :: bool
  xk_ReadinessChecks :: u64
  xk_ReadinessFailures :: u64

subsection \<open>Errors\<close>

definition healthx_ErrUnhealthy :: goerr where "healthx_ErrUnhealthy = Sentinel ''healthx: component unhealthy''"
definition healthx_ErrTimeout :: goerr where "healthx_ErrTimeout = Sentinel ''healthx: health check timed out''"

definition healthx_errUnhealthy :: "string \<Rightarrow> goerr \<Rightarrow> goerr" where
  "healthx_errUnhealthy name cause = Errorf (''%w: '' @ name @ '': %w'') [healthx_ErrUnhealthy, cause]"

definition healthx_errTimeout :: "string \<Rightarrow> goerr" where
  "healthx_errTimeout name = Errorf (''%w: '' @ name) [healthx_ErrTimeout]"

subsection \<open>The registry\<close>

definition healthx_New :: "(healthx_config \<Rightarrow> healthx_config) list \<Rightarrow> healthx_Checker" where
  "healthx_New opts = \<lparr>xh_cfg = healthx_newConfig opts, xh_checks = [], xh_down = False, xh_readinessChecks = 0, xh_readinessFailures = 0\<rparr>"

text \<open>\<open>Register\<close> panics for an empty name or a nil check; \<open>None\<close> stands for the panic.\<close>

definition healthx_Register :: "string \<Rightarrow> bool \<Rightarrow> healthx_Checker \<Rightarrow> healthx_Checker option" where
  "healthx_Register name nil_check c =
     (if name = [] \<or> nil_check then None else Some (c\<lparr>xh_checks := xh_checks c @ [name]\<rparr>))"

definition healthx_MarkDown :: "healthx_Checker \<Rightarrow> healthx_Checker" where "healthx_MarkDown c = c\<lparr>xh_down := True\<rparr>"
definition healthx_MarkUp :: "healthx_Checker \<Rightarrow> healthx_Checker" where "healthx_MarkUp c = c\<lparr>xh_down := False\<rparr>"
definition healthx_IsDown :: "healthx_Checker \<Rightarrow> bool" where "healthx_IsDown c = xh_down c"

definition healthx_Liveness :: "healthx_Checker \<Rightarrow> healthx_Report" where
  "healthx_Liveness c =
     \<lparr>xr_Status = (if xh_down c then StatusDown else StatusUp), xr_Components = None, xr_Duration = ''0s''\<rparr>"

definition healthx_Stats :: "healthx_Checker \<Rightarrow> healthx_CheckerStats" where
  "healthx_Stats c = \<lparr>xk_Registered = int (length (xh_checks c)), xk_Down = xh_down c, xk_ReadinessChecks = xh_readinessChecks c,
     xk_ReadinessFailures = xh_readinessFailures c\<rparr>"

definition healthx_ResetStats :: "healthx_Checker \<Rightarrow> healthx_Checker" where
  "healthx_ResetStats c = c\<lparr>xh_readinessChecks := 0, xh_readinessFailures := 0\<rparr>"

subsection \<open>One check\<close>

text \<open>
  \<open>fn\<close> is what the check function does under \<open>panix.SafeVoid\<close>, \<open>ctxErr\<close> the error of its context when it has returned, \<open>took\<close> the time in
  between.
\<close>

definition healthx_runOne ::
    "healthx_text \<Rightarrow> string \<Rightarrow> unit outcome \<Rightarrow> goerror \<Rightarrow> int \<Rightarrow> healthx_ComponentStatus" where
  "healthx_runOne t name fn ctxErr took =
     (case panix_SafeVoid ''healthx.Checker.check'' (Some fn) of
        None \<Rightarrow> \<lparr>xs_Status = StatusUp, xs_Error = [], xs_Duration = xt_duration t took\<rparr>
      | Some e \<Rightarrow>
          \<lparr>xs_Status = StatusDown,
           xs_Error = xt_error t
             (if (case ctxErr of Some ce \<Rightarrow> errors_Is ce CtxDeadlineExceeded | None \<Rightarrow> False)
              then healthx_errTimeout name else healthx_errUnhealthy name e),
           xs_Duration = xt_duration t took\<rparr>)"

definition healthx_timedOut :: "healthx_text \<Rightarrow> healthx_config \<Rightarrow> string \<Rightarrow> healthx_ComponentStatus" where
  "healthx_timedOut t cfg name =
     \<lparr>xs_Status = StatusDown, xs_Error = xt_error t (healthx_errTimeout name), xs_Duration = xt_duration t (xc_checkTimeout cfg)\<rparr>"

fun healthx_fillTimedOut :: "healthx_text \<Rightarrow> healthx_config \<Rightarrow> string list \<Rightarrow> healthx_components \<Rightarrow> healthx_components" where
  "healthx_fillTimedOut t cfg [] comps = comps"
| "healthx_fillTimedOut t cfg (name # names) comps =
     healthx_fillTimedOut t cfg names
       (if map_of comps name \<noteq> None then comps else AList.update name (healthx_timedOut t cfg name) comps)"

subsection \<open>Readiness\<close>

text \<open>
  \<open>Readiness\<close> up to the call of \<open>runChecks\<close>, which gives a report at once or the checks to run, and from there. \<open>took\<close> is the time since its
  start.
\<close>

definition healthx_Readiness_begin ::
    "healthx_text \<Rightarrow> int \<Rightarrow> healthx_Checker \<Rightarrow> healthx_Checker \<times> (healthx_Report + string list)" where
  "healthx_Readiness_begin t took c =
     (let c1 = c\<lparr>xh_readinessChecks := xh_readinessChecks c + 1\<rparr> in
      if xh_down c1 then
        (c1\<lparr>xh_readinessFailures := xh_readinessFailures c1 + 1\<rparr>,
         Inl \<lparr>xr_Status = StatusDown, xr_Components = None, xr_Duration = xt_duration t took\<rparr>)
      else if xh_checks c1 = [] then
        (c1, Inl \<lparr>xr_Status = StatusUp, xr_Components = None, xr_Duration = xt_duration t took\<rparr>)
      else (c1, Inr (xh_checks c1)))"

definition healthx_overall :: "healthx_components \<Rightarrow> healthx_Status" where
  "healthx_overall comps = (if list_ex (\<lambda>(name, cs). xs_Status cs = StatusDown) comps then StatusDown else StatusUp)"

definition healthx_Readiness_end ::
    "healthx_text \<Rightarrow> int \<Rightarrow> healthx_components \<Rightarrow> healthx_Checker \<Rightarrow> healthx_Checker \<times> healthx_Report" where
  "healthx_Readiness_end t took comps c =
     (let overall = healthx_overall comps in
      (if overall = StatusDown then c\<lparr>xh_readinessFailures := xh_readinessFailures c + 1\<rparr> else c,
       \<lparr>xr_Status = overall, xr_Components = Some comps, xr_Duration = xt_duration t took\<rparr>))"

subsection \<open>Handlers\<close>

text \<open>The response is its status code, the content type and the report that is encoded.\<close>

definition healthx_writeReport :: "healthx_Report \<Rightarrow> int \<times> string \<times> healthx_Report" where
  "healthx_writeReport report =
     (if xr_Status report = StatusDown then 503 else 200, ''application/json'', report)"

datatype healthx_handler = LiveHandler | ReadyHandler

definition healthx_RegisterHandlers :: "bool \<Rightarrow> (string \<times> healthx_handler) list option" where
  "healthx_RegisterHandlers nil_mux =
     (if nil_mux then None
      else Some [(''/healthz'', LiveHandler), (''/livez'', LiveHandler), (''/readyz'', ReadyHandler)])"

definition healthx_LiveHandler :: "healthx_Checker \<Rightarrow> int \<times> string \<times> healthx_Report" where
  "healthx_LiveHandler c = healthx_writeReport (healthx_Liveness c)"

end
