(* ===== verification/Healthx_Probe.thy ===== *)
theory Healthx_Probe
  imports Healthx
begin

text \<open>
  Package \<open>healthx\<close>, part two: \<open>runChecks\<close> with its goroutines. A probe starts one goroutine for each check, which sends its result on a
  buffered channel; the collector receives as many results, or gives up when its timer fires, drains what is waiting and marks the rest as timed
  out. One step is one channel operation. A check returns when it likes with any outcome, or never.
\<close>

subsection \<open>A probe and its steps\<close>

datatype healthx_pc = XRunning | XSent healthx_ComponentStatus

datatype healthx_phase = XCollect nat | XDrain | XDone

text \<open>\<open>pb_checks\<close> is the snapshot of the registry; the channel has room for one result of each check.
  Two fields are ghosts: \<open>pb_received\<close> has the results the collector took, in order, and \<open>pb_ran\<close> what each check function did when it ran.\<close>

record healthx_probe =
  pb_checks :: "string list"
  pb_pcs :: "healthx_pc list"
  pb_queue :: "(nat \<times> healthx_ComponentStatus) list"
  pb_fired :: bool
  pb_comps :: healthx_components
  pb_phase :: healthx_phase
  pb_received :: "(nat \<times> healthx_ComponentStatus) list"
  pb_ran :: "nat \<rightharpoonup> unit outcome"

definition healthx_start :: "string list \<Rightarrow> healthx_probe" where
  "healthx_start checks = \<lparr>pb_checks = checks, pb_pcs = replicate (length checks) XRunning, pb_queue = [], pb_fired = False,
     pb_comps = [], pb_phase = XCollect (length checks), pb_received = [], pb_ran = Map.empty\<rparr>"

text \<open>The result of check \<open>i\<close> is sent; \<open>None\<close> when the channel is full and the goroutine blocks.\<close>

definition healthx_finish :: "healthx_text \<Rightarrow> nat \<Rightarrow> unit outcome \<Rightarrow> goerror \<Rightarrow> int \<Rightarrow> healthx_probe \<Rightarrow> healthx_probe option" where
  "healthx_finish t i fn ctxErr took p =
     (let cs = healthx_runOne t (pb_checks p ! i) fn ctxErr took in
      if length (pb_queue p) < length (pb_checks p)
      then Some (p\<lparr>pb_pcs := (pb_pcs p)[i := XSent cs], pb_queue := pb_queue p @ [(i, cs)], pb_ran := (pb_ran p)(i \<mapsto> fn)\<rparr>) else None)"

text \<open>A receive records the result under the name of its check, over any result already there.\<close>

definition healthx_record :: "nat \<times> healthx_ComponentStatus \<Rightarrow> healthx_probe \<Rightarrow> healthx_probe" where
  "healthx_record r p =
     p\<lparr>pb_queue := tl (pb_queue p), pb_comps := AList.update (pb_checks p ! fst r) (snd r) (pb_comps p), pb_received := pb_received p @ [r]\<rparr>"

text \<open>One step of the collector. \<open>timer\<close> says which case a \<open>select\<close> takes; \<open>None\<close> when the case is not ready.\<close>

definition healthx_collect :: "healthx_text \<Rightarrow> healthx_config \<Rightarrow> bool \<Rightarrow> healthx_probe \<Rightarrow> healthx_probe option" where
  "healthx_collect t cfg timer p =
     (case pb_phase p of
        XCollect 0 \<Rightarrow> Some (p\<lparr>pb_phase := XDone\<rparr>)
      | XCollect (Suc k) \<Rightarrow>
          if timer then (if pb_fired p then Some (p\<lparr>pb_phase := XDrain\<rparr>) else None)
          else (case pb_queue p of r # _ \<Rightarrow> Some ((healthx_record r p)\<lparr>pb_phase := XCollect k\<rparr>) | [] \<Rightarrow> None)
      | XDrain \<Rightarrow>
          (case pb_queue p of
             r # _ \<Rightarrow> Some (healthx_record r p)
           | [] \<Rightarrow> Some (p\<lparr>pb_comps := healthx_fillTimedOut t cfg (pb_checks p) (pb_comps p), pb_phase := XDone\<rparr>))
      | XDone \<Rightarrow> None)"

text \<open>A run counts the steps of the collector.\<close>

inductive healthx_reach :: "healthx_text \<Rightarrow> healthx_config \<Rightarrow> string list \<Rightarrow> nat \<Rightarrow> healthx_probe \<Rightarrow> bool" for t cfg checks where
  start: "healthx_reach t cfg checks 0 (healthx_start checks)"
| check: "healthx_reach t cfg checks k p \<Longrightarrow> i < length checks \<Longrightarrow> pb_pcs p ! i = XRunning \<Longrightarrow>
    healthx_finish t i fn ctxErr took p = Some p' \<Longrightarrow> healthx_reach t cfg checks k p'"
| fire: "healthx_reach t cfg checks k p \<Longrightarrow> healthx_reach t cfg checks k (p\<lparr>pb_fired := True\<rparr>)"
| collect: "healthx_reach t cfg checks k p \<Longrightarrow> healthx_collect t cfg timer p = Some p' \<Longrightarrow> healthx_reach t cfg checks (Suc k) p'"

subsection \<open>Invariant\<close>

text \<open>What the results received so far leave in the map.\<close>

definition healthx_gathered :: "string list \<Rightarrow> (nat \<times> healthx_ComponentStatus) list \<Rightarrow> healthx_components" where
  "healthx_gathered checks rs = fold (\<lambda>r. AList.update (checks ! fst r) (snd r)) rs []"

text \<open>Every sent result is waiting or received, once.\<close>

definition healthx_sent :: "healthx_probe \<Rightarrow> (nat \<times> healthx_ComponentStatus) list" where
  "healthx_sent p = pb_received p @ pb_queue p"

definition healthx_flow :: "healthx_text \<Rightarrow> string list \<Rightarrow> healthx_probe \<Rightarrow> bool" where
  "healthx_flow t checks p =
     (pb_checks p = checks \<and> length (pb_pcs p) = length checks \<and>
      distinct (map fst (healthx_sent p)) \<and>
      (\<forall>i cs. (i, cs) \<in> set (healthx_sent p) \<longleftrightarrow> i < length checks \<and> pb_pcs p ! i = XSent cs) \<and>
      (\<forall>i cs. i < length checks \<longrightarrow> pb_pcs p ! i = XSent cs \<longrightarrow> (\<exists>fn e took. pb_ran p i = Some fn \<and> cs = healthx_runOne t (checks ! i) fn e took)))"

definition healthx_collected :: "healthx_text \<Rightarrow> healthx_config \<Rightarrow> string list \<Rightarrow> healthx_probe \<Rightarrow> bool" where
  "healthx_collected t cfg checks p =
     (case pb_phase p of
        XCollect k \<Rightarrow> k + length (pb_received p) = length checks \<and> pb_comps p = healthx_gathered checks (pb_received p)
      | XDrain \<Rightarrow> pb_fired p \<and> pb_comps p = healthx_gathered checks (pb_received p)
      | XDone \<Rightarrow>
          length (pb_received p) = length checks \<and> pb_comps p = healthx_gathered checks (pb_received p) \<or>
          pb_fired p \<and> pb_comps p = healthx_fillTimedOut t cfg checks (healthx_gathered checks (pb_received p)))"

text \<open>How many steps the collector can still take.\<close>

definition healthx_left :: "string list \<Rightarrow> healthx_probe \<Rightarrow> nat" where
  "healthx_left checks p =
     2 * (length checks - length (pb_received p)) + (case pb_phase p of XCollect _ \<Rightarrow> 2 | XDrain \<Rightarrow> 1 | XDone \<Rightarrow> 0)"

lemma healthx_flow_lengths:
  assumes "healthx_flow t checks p"
  shows "length (pb_received p) + length (pb_queue p) \<le> length checks"
    and "i < length checks \<Longrightarrow> pb_pcs p ! i = XRunning \<Longrightarrow> length (pb_received p) + length (pb_queue p) < length checks"
proof -
  let ?is = "map fst (healthx_sent p)"
  have d: "distinct ?is" and sub: "set ?is \<subseteq> {..<length checks}" using assms by (auto simp: healthx_flow_def)
  have len: "length ?is = card (set ?is)" using distinct_card [OF d] by simp
  then show "length (pb_received p) + length (pb_queue p) \<le> length checks"
    using card_mono [OF _ sub] by (simp add: healthx_sent_def)
  assume "i < length checks" and "pb_pcs p ! i = XRunning"
  then have "i \<in> {..<length checks}" "i \<notin> set ?is" using assms by (force simp: healthx_flow_def)+
  then have "set ?is \<subset> {..<length checks}" using sub by blast
  then show "length (pb_received p) + length (pb_queue p) < length checks"
    using psubset_card_mono [of "{..<length checks}" "set ?is"] len by (simp add: healthx_sent_def)
qed

lemma healthx_received:
  assumes "healthx_flow t checks p" and "r \<in> set (pb_received p)"
  shows "fst r < length checks" and "pb_pcs p ! fst r = XSent (snd r)" and "\<exists>fn e took. pb_ran p (fst r) = Some fn \<and> snd r = healthx_runOne t (checks ! fst r) fn e took"
proof -
  have "(fst r, snd r) \<in> set (healthx_sent p)" using assms(2) by (simp add: healthx_sent_def)
  then show "fst r < length checks" "pb_pcs p ! fst r = XSent (snd r)" using assms(1) unfolding healthx_flow_def by blast+
  then show "\<exists>fn e took. pb_ran p (fst r) = Some fn \<and> snd r = healthx_runOne t (checks ! fst r) fn e took" using assms(1) by (simp add: healthx_flow_def)
qed

lemma healthx_flow_record:
  assumes "healthx_flow t checks p" and "pb_queue p = r # rs"
  shows "healthx_flow t checks (healthx_record r p\<lparr>pb_phase := ph\<rparr>)" and "healthx_flow t checks (healthx_record r p)"
  using assms by (simp_all add: healthx_flow_def healthx_record_def healthx_sent_def)

lemma healthx_flow_frame [simp]:
  "healthx_flow t checks (p\<lparr>pb_phase := ph\<rparr>) = healthx_flow t checks p" "healthx_flow t checks (p\<lparr>pb_fired := b\<rparr>) = healthx_flow t checks p"
  "healthx_flow t checks (p\<lparr>pb_comps := cs\<rparr>) = healthx_flow t checks p"
  by (simp_all add: healthx_flow_def healthx_sent_def)

lemma healthx_flow_finish:
  assumes "healthx_flow t checks p" and "i < length checks" and "pb_pcs p ! i = XRunning"
    and "healthx_finish t i fn ctxErr took p = Some p'"
  shows "healthx_flow t checks p'"
proof -
  obtain cs where cs: "cs = healthx_runOne t (checks ! i) fn ctxErr took" by simp
  have p': "pb_checks p' = checks" "pb_pcs p' = (pb_pcs p)[i := XSent cs]" "healthx_sent p' = healthx_sent p @ [(i, cs)]"
      "pb_ran p' = (pb_ran p)(i \<mapsto> fn)"
    using assms(1,4) by (auto simp: healthx_flow_def healthx_finish_def Let_def healthx_sent_def cs split: if_splits)
  have flow: "length (pb_pcs p) = length checks" "distinct (map fst (healthx_sent p))"
      "\<And>j c. (j, c) \<in> set (healthx_sent p) \<longleftrightarrow> j < length checks \<and> pb_pcs p ! j = XSent c"
      "\<And>j c. j < length checks \<Longrightarrow> pb_pcs p ! j = XSent c \<Longrightarrow> \<exists>fn e took. pb_ran p j = Some fn \<and> c = healthx_runOne t (checks ! j) fn e took"
    using assms(1) by (simp_all add: healthx_flow_def)
  have "i \<notin> fst ` set (healthx_sent p)" using flow(3) assms(3) by force
  moreover have "(j, c) \<in> set (healthx_sent p') \<longleftrightarrow> j < length checks \<and> pb_pcs p' ! j = XSent c" for j c
    using flow(1,3) assms(2,3) p' by (cases "j = i") auto
  moreover have "\<exists>fn e took. pb_ran p' j = Some fn \<and> c = healthx_runOne t (checks ! j) fn e took" if "j < length checks" "pb_pcs p' ! j = XSent c" for j c
    using that flow(1,4) cs p'(2,4) by (cases "j = i") auto
  ultimately show ?thesis using p' flow(1,2) by (simp add: healthx_flow_def)
qed

lemma healthx_gathered_snoc: "healthx_gathered checks (rs @ [r]) = AList.update (checks ! fst r) (snd r) (healthx_gathered checks rs)"
  by (simp add: healthx_gathered_def)

lemma healthx_record_fields [simp]:
  "pb_phase (healthx_record r p) = pb_phase p" "pb_fired (healthx_record r p) = pb_fired p"
  "pb_received (healthx_record r p) = pb_received p @ [r]"
  "pb_comps (healthx_record r p) = AList.update (pb_checks p ! fst r) (snd r) (pb_comps p)"
  by (simp_all add: healthx_record_def)

lemma healthx_collect_step:
  assumes flow: "healthx_flow t checks p" and col: "healthx_collected t cfg checks p" and step: "healthx_collect t cfg timer p = Some p'"
  shows "healthx_flow t checks p' \<and> healthx_collected t cfg checks p' \<and> healthx_left checks p' < healthx_left checks p"
proof -
  have names: "pb_checks p = checks" using flow by (simp add: healthx_flow_def)
  have room: "pb_queue p = r # rs \<Longrightarrow> length (pb_received p) < length checks" for r rs
    using healthx_flow_lengths(1) [OF flow] by simp
  consider (all) "pb_phase p = XCollect 0" "p' = p\<lparr>pb_phase := XDone\<rparr>"
    | (late) k where "pb_phase p = XCollect (Suc k)" "pb_fired p" "p' = p\<lparr>pb_phase := XDrain\<rparr>"
    | (one) k r rs where "pb_phase p = XCollect (Suc k)" "pb_queue p = r # rs" "p' = healthx_record r p\<lparr>pb_phase := XCollect k\<rparr>"
    | (drain) r rs where "pb_phase p = XDrain" "pb_queue p = r # rs" "p' = healthx_record r p"
    | (fill) "pb_phase p = XDrain" "p' = p\<lparr>pb_comps := healthx_fillTimedOut t cfg (pb_checks p) (pb_comps p), pb_phase := XDone\<rparr>"
    using step by (auto simp: healthx_collect_def split: healthx_phase.splits nat.splits if_splits list.splits)
  then show ?thesis
  proof cases
    case one
    then show ?thesis
      using flow col room [OF one(2)] healthx_flow_record(1) [OF flow one(2)]
      by (simp add: healthx_collected_def healthx_left_def healthx_gathered_snoc names) linarith
  next
    case drain
    then show ?thesis
      using flow col room [OF drain(2)] healthx_flow_record(2) [OF flow drain(2)]
      by (simp add: healthx_collected_def healthx_left_def healthx_gathered_snoc names)
  qed (use flow col names in \<open>simp_all add: healthx_collected_def healthx_left_def\<close>)
qed

lemma healthx_reach_inv:
  "healthx_reach t cfg checks k p \<Longrightarrow>
     healthx_flow t checks p \<and> healthx_collected t cfg checks p \<and> k + healthx_left checks p \<le> 2 * length checks + 2"
proof (induction rule: healthx_reach.induct)
  case start
  then show ?case
    by (auto simp: healthx_start_def healthx_sent_def healthx_flow_def healthx_collected_def healthx_left_def healthx_gathered_def)
next
  case (check k p i fn ctxErr took p')
  then show ?case
    using healthx_flow_finish [of t checks p i fn ctxErr took p']
    by (auto simp: healthx_finish_def healthx_collected_def healthx_left_def Let_def split: if_splits healthx_phase.splits)
next
  case (fire k p)
  then show ?case by (auto simp: healthx_collected_def healthx_left_def split: healthx_phase.splits)
next
  case (collect k p timer p')
  then show ?case using healthx_collect_step [of t checks p cfg timer p'] by fastforce
qed

subsection \<open>What a probe reports\<close>

lemma healthx_gathered_lookup:
  "map_of (healthx_gathered checks rs) name =
     (case find (\<lambda>r. checks ! fst r = name) (rev rs) of Some r \<Rightarrow> Some (snd r) | None \<Rightarrow> None)"
proof (induction rs rule: rev_induct)
  case (snoc r rs)
  then show ?case by (auto simp: healthx_gathered_snoc update_conv)
qed (simp add: healthx_gathered_def)

lemma healthx_gathered_keys:
  "distinct (map fst (healthx_gathered checks rs)) \<and>
   fst ` set (healthx_gathered checks rs) = (\<lambda>r. checks ! fst r) ` set rs"
proof (induction rs rule: rev_induct)
  case (snoc r rs)
  then show ?case by (auto simp: healthx_gathered_snoc distinct_update dom_update)
qed (simp add: healthx_gathered_def)

lemma healthx_fill_lookup:
  "map_of (healthx_fillTimedOut t cfg names comps) name =
     (case map_of comps name of
        Some cs \<Rightarrow> Some cs
      | None \<Rightarrow> if name \<in> set names then Some (healthx_timedOut t cfg name) else None)"
  by (induction t cfg names comps rule: healthx_fillTimedOut.induct) (auto simp: update_conv split: option.splits)

lemma healthx_fill_keys:
  "distinct (map fst comps) \<Longrightarrow> distinct (map fst (healthx_fillTimedOut t cfg names comps)) \<and>
   fst ` set (healthx_fillTimedOut t cfg names comps) = fst ` set comps \<union> set names"
proof (induction t cfg names comps rule: healthx_fillTimedOut.induct)
  case (2 t cfg name names comps)
  then show ?case
    by (auto simp: distinct_update dom_update map_of_eq_None_iff split: if_splits)
qed simp

text \<open>The entry of a name when the probe is over: the last result received under it, or a time out.\<close>

lemma healthx_done_comps:
  assumes "healthx_reach t cfg checks k p" and "pb_phase p = XDone"
  shows "distinct (map fst (pb_comps p)) \<and> fst ` set (pb_comps p) = set checks" (is ?keys)
    and "name \<in> set checks \<Longrightarrow> map_of (pb_comps p) name =
      Some (case find (\<lambda>r. checks ! fst r = name) (rev (pb_received p)) of Some r \<Rightarrow> snd r | None \<Rightarrow> healthx_timedOut t cfg name)"
    and "(\<forall>r\<in>set (pb_received p). checks ! fst r \<noteq> name) \<Longrightarrow> name \<in> set checks \<Longrightarrow> pb_fired p"
proof -
  have flow: "healthx_flow t checks p" and col: "healthx_collected t cfg checks p"
    using healthx_reach_inv [OF assms(1)] by simp_all
  have bound: "\<forall>r\<in>set (pb_received p). fst r < length checks"
    using healthx_received(1) [OF flow] by blast
  have dist: "distinct (map fst (pb_received p))" using flow by (simp add: healthx_flow_def healthx_sent_def)
  have all: "(\<lambda>r. checks ! fst r) ` set (pb_received p) = set checks" if "length (pb_received p) = length checks"
  proof -
    have "fst ` set (pb_received p) = {..<length checks}"
      using bound dist that distinct_card [OF dist] by (intro card_subset_eq) auto
    then show ?thesis by (auto simp: set_conv_nth image_image [symmetric, of "\<lambda>i. checks ! i" fst])
  qed
  have sub: "(\<lambda>r. checks ! fst r) ` set (pb_received p) \<subseteq> set checks" using bound by auto
  have "length (pb_received p) = length checks \<and> pb_comps p = healthx_gathered checks (pb_received p) \<or>
      pb_comps p = healthx_fillTimedOut t cfg checks (healthx_gathered checks (pb_received p))"
    using col assms(2) by (auto simp: healthx_collected_def)
  then show ?keys
    using healthx_gathered_keys [of checks "pb_received p"] all Un_absorb1 [OF sub]
      healthx_fill_keys [of "healthx_gathered checks (pb_received p)" t cfg checks]
    by (elim disjE conjE) simp_all
  have some: "\<exists>r\<in>set (pb_received p). checks ! fst r = name" if "length (pb_received p) = length checks" "name \<in> set checks"
  proof -
    have "name \<in> (\<lambda>r. checks ! fst r) ` set (pb_received p)" using all that by simp
    then show ?thesis by blast
  qed
  then have known: "find (\<lambda>r. checks ! fst r = name) (rev (pb_received p)) \<noteq> None"
    if "length (pb_received p) = length checks" "name \<in> set checks"
    using that by (auto simp: find_None_iff)
  show "name \<in> set checks \<Longrightarrow> map_of (pb_comps p) name =
      Some (case find (\<lambda>r. checks ! fst r = name) (rev (pb_received p)) of Some r \<Rightarrow> snd r | None \<Rightarrow> healthx_timedOut t cfg name)"
    using col assms(2) known
    by (auto simp: healthx_collected_def healthx_gathered_lookup healthx_fill_lookup split: option.splits)
  show "(\<forall>r\<in>set (pb_received p). checks ! fst r \<noteq> name) \<Longrightarrow> name \<in> set checks \<Longrightarrow> pb_fired p"
    using col assms(2) some by (auto simp: healthx_collected_def)
qed

text \<open>
  C31: a readiness report is complete. When the collector of a probe is done, its map has exactly the registered names as keys. The entry of a
  name is the last result received from a check of this name, and that result is what \<open>runOne\<close> made of the check's own outcome; only a name
  none of whose results was received in time is reported as timed out, and only after the collection deadline.
\<close>

theorem healthx_report_complete:
  assumes "healthx_reach t cfg checks k p" and "pb_phase p = XDone"
  shows "distinct (map fst (pb_comps p)) \<and> fst ` set (pb_comps p) = set checks \<and>
    (\<forall>name\<in>set checks.
       case find (\<lambda>r. checks ! fst r = name) (rev (pb_received p)) of
         Some r \<Rightarrow> map_of (pb_comps p) name = Some (snd r) \<and> pb_pcs p ! fst r = XSent (snd r) \<and>
           (\<exists>fn e took. pb_ran p (fst r) = Some fn \<and> snd r = healthx_runOne t name fn e took)
       | None \<Rightarrow> map_of (pb_comps p) name = Some (healthx_timedOut t cfg name) \<and> pb_fired p)"
proof -
  have flow: "healthx_flow t checks p" using healthx_reach_inv [OF assms(1)] by simp
  have "case find (\<lambda>r. checks ! fst r = name) (rev (pb_received p)) of
         Some r \<Rightarrow> map_of (pb_comps p) name = Some (snd r) \<and> pb_pcs p ! fst r = XSent (snd r) \<and>
           (\<exists>fn e took. pb_ran p (fst r) = Some fn \<and> snd r = healthx_runOne t name fn e took)
       | None \<Rightarrow> map_of (pb_comps p) name = Some (healthx_timedOut t cfg name) \<and> pb_fired p" if name: "name \<in> set checks" for name
  proof (cases "find (\<lambda>r. checks ! fst r = name) (rev (pb_received p))")
    case None
    then have "\<forall>r\<in>set (pb_received p). checks ! fst r \<noteq> name" by (auto simp: find_None_iff)
    then show ?thesis using healthx_done_comps(2,3) [OF assms] None name by simp
  next
    case (Some r)
    then have "r \<in> set (rev (pb_received p)) \<and> checks ! fst r = name" unfolding find_Some_iff by (metis nth_mem)
    then have r: "r \<in> set (pb_received p)" "checks ! fst r = name" by simp_all
    then show ?thesis
      using healthx_done_comps(2) [OF assms name] healthx_received [OF flow r(1)] Some by simp
  qed
  then show ?thesis using healthx_done_comps(1) [OF assms] by blast
qed

subsection \<open>The verdict\<close>

lemma healthx_runOne_up: "xs_Status (healthx_runOne t name fn e took) = StatusUp \<longleftrightarrow> (\<exists>u. fn = Returns u None)"
  by (cases fn) (auto simp: healthx_runOne_def panix_SafeVoid_def panix_Safe_def call_fn_def split: option.splits)

text \<open>
  One check. It is up exactly if its function returned nil, whatever became of its context. Otherwise it is down, and the recorded message is
  that of a time out if the context of the check is past its deadline, and of an unhealthy component with its cause if not; a panic is a cause of
  its own kind.
\<close>

lemma healthx_runOne_table:
  "healthx_runOne t name fn ctxErr took =
     (case fn of
        Returns u None \<Rightarrow> \<lparr>xs_Status = StatusUp, xs_Error = [], xs_Duration = xt_duration t took\<rparr>
      | _ \<Rightarrow> \<lparr>xs_Status = StatusDown,
          xs_Error = xt_error t (if ctxErr = Some CtxDeadlineExceeded then Errorf (''%w: '' @ name) [healthx_ErrTimeout]
            else Errorf (''%w: '' @ name @ '': %w'') [healthx_ErrUnhealthy,
              case fn of Returns u (Some e) \<Rightarrow> e | Panics v \<Rightarrow> PanicError ''healthx.Checker.check'' v]),
          xs_Duration = xt_duration t took\<rparr>)"
  if "ctxErr \<in> {None, Some CtxCanceled, Some CtxDeadlineExceeded}"
  using that
  by (cases fn) (auto simp: healthx_runOne_def panix_SafeVoid_def panix_Safe_def call_fn_def healthx_errTimeout_def healthx_errUnhealthy_def
      split: option.splits)

lemma healthx_overall_up:
  "distinct (map fst comps) \<Longrightarrow> healthx_overall comps = StatusUp \<longleftrightarrow> (\<forall>name cs. map_of comps name = Some cs \<longrightarrow> xs_Status cs = StatusUp)"
proof -
  have up: "s \<noteq> StatusDown \<longleftrightarrow> s = StatusUp" for s by (cases s) simp_all
  assume "distinct (map fst comps)"
  then have "(\<forall>name cs. map_of comps name = Some cs \<longrightarrow> xs_Status cs = StatusUp) \<longleftrightarrow> \<not> list_ex (\<lambda>(name, cs). xs_Status cs = StatusDown) comps"
    unfolding list_ex_iff by (auto simp: up [symmetric] split: prod.splits)
  then show ?thesis by (simp add: healthx_overall_def)
qed

text \<open>
  C32: readiness. When the registered names are distinct, the probe answers 200 exactly if every check function returned nil and its result was
  received before the collection gave up; otherwise, if any check returned an error, panicked or was too late, it answers 503, and exactly then
  the failure counter grows.
\<close>

theorem healthx_ready_iff:
  assumes "healthx_reach t cfg checks k p" and "pb_phase p = XDone" and "distinct checks"
    and "healthx_Readiness_end t took (pb_comps p) c = (c', report)"
  shows "fst (healthx_writeReport report) =
      (if \<forall>i<length checks. i \<in> fst ` set (pb_received p) \<and> pb_ran p i = Some (Returns () None) then 200 else 503) \<and>
    xh_readinessFailures c' = (if fst (healthx_writeReport report) = 503 then xh_readinessFailures c + 1 else xh_readinessFailures c)"
proof -
  have flow: "healthx_flow t checks p" using healthx_reach_inv [OF assms(1)] by simp
  have dist: "distinct (map fst (pb_received p))" using flow by (simp add: healthx_flow_def healthx_sent_def)
  have keys: "distinct (map fst (pb_comps p))" "fst ` set (pb_comps p) = set checks"
    using healthx_done_comps(1) [OF assms(1,2)] by simp_all
  have look: "map_of (pb_comps p) (checks ! i) =
      Some (case map_of (pb_received p) i of Some cs \<Rightarrow> cs | None \<Rightarrow> healthx_timedOut t cfg (checks ! i))" if i: "i < length checks" for i
  proof -
    have mem: "checks ! i \<in> set checks" using i by simp
    have only: "fst r = i" if "r \<in> set (pb_received p)" "checks ! fst r = checks ! i" for r
      using that healthx_received(1) [OF flow that(1)] assms(3) i by (simp add: nth_eq_iff_index_eq)
    show ?thesis
    proof (cases "find (\<lambda>r. checks ! fst r = checks ! i) (rev (pb_received p))")
      case None
      then have "map_of (pb_received p) i = None" by (force simp: find_None_iff map_of_eq_None_iff)
      then show ?thesis using healthx_done_comps(2) [OF assms(1,2) mem] None by simp
    next
      case (Some r)
      then have "r \<in> set (rev (pb_received p)) \<and> checks ! fst r = checks ! i" unfolding find_Some_iff by (metis nth_mem)
      then have "r \<in> set (pb_received p)" "fst r = i" using only by simp_all
      then have "(i, snd r) \<in> set (pb_received p)" by (metis prod.collapse)
      then have "map_of (pb_received p) i = Some (snd r)" by (rule map_of_is_SomeI [OF dist])
      then show ?thesis using healthx_done_comps(2) [OF assms(1,2) mem] Some by simp
    qed
  qed
  have up: "xs_Status cs = StatusUp \<longleftrightarrow> pb_ran p i = Some (Returns () None)" if got: "(i, cs) \<in> set (pb_received p)" for i cs
  proof -
    obtain fn e took where "pb_ran p i = Some fn" "cs = healthx_runOne t (checks ! i) fn e took"
      using healthx_received(3) [OF flow got] by (simp only: fst_conv snd_conv) blast
    then show ?thesis by (simp add: healthx_runOne_up)
  qed
  have "healthx_overall (pb_comps p) = StatusUp \<longleftrightarrow> (\<forall>i<length checks. \<exists>cs. map_of (pb_received p) i = Some cs \<and> xs_Status cs = StatusUp)"
  proof
    assume "healthx_overall (pb_comps p) = StatusUp"
    then have every: "xs_Status cs = StatusUp" if "map_of (pb_comps p) name = Some cs" for name cs
      using that healthx_overall_up [OF keys(1)] by simp
    show "\<forall>i<length checks. \<exists>cs. map_of (pb_received p) i = Some cs \<and> xs_Status cs = StatusUp"
    proof (intro allI impI)
      fix i
      assume i: "i < length checks"
      show "\<exists>cs. map_of (pb_received p) i = Some cs \<and> xs_Status cs = StatusUp"
        using every [OF look [OF i]] by (cases "map_of (pb_received p) i") (simp_all add: healthx_timedOut_def)
    qed
  next
    assume got: "\<forall>i<length checks. \<exists>cs. map_of (pb_received p) i = Some cs \<and> xs_Status cs = StatusUp"
    show "healthx_overall (pb_comps p) = StatusUp"
      unfolding healthx_overall_up [OF keys(1)]
    proof (intro allI impI)
      fix name cs
      assume cs: "map_of (pb_comps p) name = Some cs"
      then have "name \<in> fst ` set (pb_comps p)" by (force dest: map_of_SomeD)
      then obtain i where "i < length checks" "checks ! i = name" unfolding keys(2) by (auto simp: in_set_conv_nth)
      then show "xs_Status cs = StatusUp" using look [of i] got cs by fastforce
    qed
  qed
  moreover have "(\<exists>cs. map_of (pb_received p) i = Some cs \<and> xs_Status cs = StatusUp) \<longleftrightarrow>
      i \<in> fst ` set (pb_received p) \<and> pb_ran p i = Some (Returns () None)" for i
  proof -
    have "i \<in> fst ` set (pb_received p) \<longleftrightarrow> (\<exists>cs. (i, cs) \<in> set (pb_received p))" by force
    then show ?thesis unfolding map_of_eq_Some_iff [OF dist] using up [of i] by metis
  qed
  ultimately have "healthx_overall (pb_comps p) = StatusUp \<longleftrightarrow>
      (\<forall>i<length checks. i \<in> fst ` set (pb_received p) \<and> pb_ran p i = Some (Returns () None))"
    by simp
  then show ?thesis
    using assms(4) by (cases "healthx_overall (pb_comps p)") (auto simp: healthx_Readiness_end_def healthx_writeReport_def Let_def)
qed

subsection \<open>The end of a probe\<close>

text \<open>
  A probe ends. In any run the collector makes at most twice as many steps as there are checks, and two; once its timer has fired it can
  always make one until it is done; and a check that finishes, at any time, can always send its result, so that no goroutine is left blocked.
\<close>

theorem healthx_probe_ends:
  assumes "healthx_reach t cfg checks k p"
  shows "k \<le> 2 * length checks + 2 \<and>
    (pb_fired p \<and> pb_phase p \<noteq> XDone \<longrightarrow> (\<exists>timer p'. healthx_collect t cfg timer p = Some p')) \<and>
    (\<forall>i<length checks. pb_pcs p ! i = XRunning \<longrightarrow> (\<forall>fn e took. healthx_finish t i fn e took p \<noteq> None))"
proof -
  have flow: "healthx_flow t checks p" and k: "k + healthx_left checks p \<le> 2 * length checks + 2"
    using healthx_reach_inv [OF assms] by simp_all
  have "\<exists>timer p'. healthx_collect t cfg timer p = Some p'" if "pb_fired p" "pb_phase p \<noteq> XDone"
    using that by (auto simp: healthx_collect_def split: healthx_phase.splits nat.splits list.splits intro: exI [of _ True])
  moreover have "healthx_finish t i fn e took p \<noteq> None" if "i < length checks" "pb_pcs p ! i = XRunning" for i fn e took
    using healthx_flow_lengths(2) [OF flow that] flow by (simp add: healthx_finish_def Let_def healthx_flow_def)
  ultimately show ?thesis using k by simp
qed

subsection \<open>Two checks of one name\<close>

text \<open>
  A failing check can be hidden by its name. With two checks registered under one name, of which the second returns an error and the first,
  later, nil, the probe answers 200 when its collector receives the results in this order: the result of the later registration is
  overwritten, and no report has the error.
\<close>

lemma healthx_duplicate_hides:
  "\<exists>k p. healthx_reach t cfg [''db'', ''db''] k p \<and> pb_phase p = XDone \<and>
    pb_pcs p ! 1 = XSent (healthx_runOne t ''db'' (Returns () (Some (UserError 1))) None 5) \<and> length (pb_received p) = 2 \<and>
    fst (healthx_writeReport (snd (healthx_Readiness_end t took (pb_comps p) c))) = 200"
proof -
  define bad where "bad = healthx_runOne t ''db'' (Returns () (Some (UserError 1))) None 5"
  define good where "good = healthx_runOne t ''db'' (Returns () None) None 6"
  let ?cs = "[''db'', ''db'']"
  define p1 where "p1 = (healthx_start ?cs)\<lparr>pb_pcs := [XRunning, XSent bad], pb_queue := [(1, bad)], pb_ran := [1 \<mapsto> Returns () (Some (UserError 1))]\<rparr>"
  define p2 where "p2 = p1\<lparr>pb_pcs := [XSent good, XSent bad], pb_queue := [(1, bad), (0, good)],
    pb_ran := [1 \<mapsto> Returns () (Some (UserError 1)), 0 \<mapsto> Returns () None]\<rparr>"
  define p3 where "p3 = p2\<lparr>pb_queue := [(0, good)], pb_comps := [(''db'', bad)], pb_phase := XCollect 1, pb_received := [(1, bad)]\<rparr>"
  define p4 where "p4 = p3\<lparr>pb_queue := [], pb_comps := [(''db'', good)], pb_phase := XCollect 0, pb_received := [(1, bad), (0, good)]\<rparr>"
  note defs = p1_def p2_def p3_def p4_def healthx_start_def
  have 1: "healthx_reach t cfg ?cs 0 p1"
    by (rule healthx_reach.check [OF healthx_reach.start, where i = 1 and fn = "Returns () (Some (UserError 1))" and ctxErr = None and took = 5])
      (simp_all add: defs healthx_finish_def bad_def Let_def)
  have 2: "healthx_reach t cfg ?cs 0 p2"
    by (rule healthx_reach.check [OF 1, where i = 0 and fn = "Returns () None" and ctxErr = None and took = 6]) (simp_all add: defs healthx_finish_def good_def Let_def)
  have 3: "healthx_reach t cfg ?cs (Suc 0) p3"
    by (rule healthx_reach.collect [OF 2, of False]) (simp add: defs healthx_collect_def healthx_record_def)
  have 4: "healthx_reach t cfg ?cs (Suc (Suc 0)) p4"
    by (rule healthx_reach.collect [OF 3, of False]) (simp add: defs healthx_collect_def healthx_record_def)
  have 5: "healthx_reach t cfg ?cs (Suc (Suc (Suc 0))) (p4\<lparr>pb_phase := XDone\<rparr>)"
    by (rule healthx_reach.collect [OF 4, of False]) (simp add: defs healthx_collect_def)
  have "xs_Status good = StatusUp" unfolding good_def healthx_runOne_up by simp
  then show ?thesis
    using 5 by (intro exI [of _ "Suc (Suc (Suc 0))"] exI [of _ "p4\<lparr>pb_phase := XDone\<rparr>"])
      (simp add: defs bad_def healthx_Readiness_end_def healthx_overall_def healthx_writeReport_def)
qed

subsection \<open>Witnesses\<close>

text \<open>A probe of two checks: the first returns nil, the second panics when the collector has given up and before it drains the channel.\<close>

definition healthx_demo_text :: healthx_text where
  "healthx_demo_text = \<lparr>xt_error = (\<lambda>_. ''failed''), xt_duration = (\<lambda>_. ''1s'')\<rparr>"

abbreviation "healthx_demo_good \<equiv> healthx_runOne healthx_demo_text ''db'' (Returns () None) None 6"
abbreviation "healthx_demo_bad \<equiv> healthx_runOne healthx_demo_text ''mq'' (Panics (PvOther 3)) None 7"

lemma healthx_demo_run:
  fixes cfg :: healthx_config
  defines "p \<equiv> \<lparr>pb_checks = [''db'', ''mq''], pb_pcs = [XSent healthx_demo_good, XSent healthx_demo_bad], pb_queue = [], pb_fired = True,
     pb_comps = [(''db'', healthx_demo_good), (''mq'', healthx_demo_bad)], pb_phase = XDone, pb_received = [(0, healthx_demo_good), (1, healthx_demo_bad)],
     pb_ran = [0 \<mapsto> Returns () None, 1 \<mapsto> Panics (PvOther 3)]\<rparr>"
  shows "healthx_reach healthx_demo_text cfg [''db'', ''mq''] 4 p"
proof -
  let ?cs = "[''db'', ''mq'']" and ?t = healthx_demo_text
  define p1 where "p1 = (healthx_start ?cs)\<lparr>pb_pcs := [XSent healthx_demo_good, XRunning], pb_queue := [(0, healthx_demo_good)],
    pb_ran := [0 \<mapsto> Returns () None]\<rparr>"
  define p2 where "p2 = p1\<lparr>pb_queue := [], pb_comps := [(''db'', healthx_demo_good)], pb_phase := XCollect 1, pb_received := [(0, healthx_demo_good)]\<rparr>"
  define p3 where "p3 = p2\<lparr>pb_fired := True, pb_phase := XDrain\<rparr>"
  define p4 where "p4 = p3\<lparr>pb_pcs := [XSent healthx_demo_good, XSent healthx_demo_bad], pb_queue := [(1, healthx_demo_bad)],
    pb_ran := [0 \<mapsto> Returns () None, 1 \<mapsto> Panics (PvOther 3)]\<rparr>"
  define p5 where "p5 = p\<lparr>pb_phase := XDrain\<rparr>"
  note defs = p1_def p2_def p3_def p4_def p5_def healthx_start_def
  have 1: "healthx_reach ?t cfg ?cs 0 p1"
    by (rule healthx_reach.check [OF healthx_reach.start, where i = 0 and fn = "Returns () None" and ctxErr = None and took = 6])
      (simp_all add: defs healthx_finish_def Let_def)
  have 2: "healthx_reach ?t cfg ?cs (Suc 0) p2"
    by (rule healthx_reach.collect [OF 1, of False]) (simp add: defs healthx_collect_def healthx_record_def)
  have 3: "healthx_reach ?t cfg ?cs (Suc (Suc 0)) p3"
    by (rule healthx_reach.collect [OF healthx_reach.fire [OF 2], of True]) (simp add: defs healthx_collect_def)
  have 4: "healthx_reach ?t cfg ?cs (Suc (Suc 0)) p4"
    by (rule healthx_reach.check [OF 3, where i = 1 and fn = "Panics (PvOther 3)" and ctxErr = None and took = 7])
      (simp_all add: defs healthx_finish_def Let_def)
  have 5: "healthx_reach ?t cfg ?cs (Suc (Suc (Suc 0))) p5"
    by (rule healthx_reach.collect [OF 4, of False]) (simp add: defs p_def healthx_collect_def healthx_record_def)
  have "healthx_reach ?t cfg ?cs (Suc (Suc (Suc (Suc 0)))) p"
    by (rule healthx_reach.collect [OF 5, of False]) (simp add: defs p_def healthx_collect_def)
  then show ?thesis by (simp add: eval_nat_numeral)
qed

definition healthx_demo_config :: healthx_config where "healthx_demo_config = healthx_newConfig []"

theorem healthx_report_complete_witness:
  "\<exists>p. healthx_reach healthx_demo_text healthx_demo_config [''db'', ''mq''] 4 p \<and> pb_phase p = XDone \<and> fst ` set (pb_comps p) = {''db'', ''mq''}"
proof (intro exI conjI)
  show run: "healthx_reach healthx_demo_text healthx_demo_config [''db'', ''mq''] 4 \<lparr>pb_checks = [''db'', ''mq''],
      pb_pcs = [XSent healthx_demo_good, XSent healthx_demo_bad], pb_queue = [], pb_fired = True,
      pb_comps = [(''db'', healthx_demo_good), (''mq'', healthx_demo_bad)], pb_phase = XDone,
      pb_received = [(0, healthx_demo_good), (1, healthx_demo_bad)],
     pb_ran = [0 \<mapsto> Returns () None, 1 \<mapsto> Panics (PvOther 3)]\<rparr>"
    by (rule healthx_demo_run)
  show "fst ` set (pb_comps \<lparr>pb_checks = [''db'', ''mq''],
      pb_pcs = [XSent healthx_demo_good, XSent healthx_demo_bad], pb_queue = [], pb_fired = True,
      pb_comps = [(''db'', healthx_demo_good), (''mq'', healthx_demo_bad)], pb_phase = XDone,
      pb_received = [(0, healthx_demo_good), (1, healthx_demo_bad)],
     pb_ran = [0 \<mapsto> Returns () None, 1 \<mapsto> Panics (PvOther 3)]\<rparr>) = {''db'', ''mq''}"
    using healthx_report_complete [OF run] by simp
qed simp

theorem healthx_probe_ends_witness:
  "\<exists>p. healthx_reach healthx_demo_text healthx_demo_config [''db'', ''mq''] 4 p \<and> (4::nat) \<le> 2 * length [''db'', ''mq''] + 2"
  using healthx_probe_ends [OF healthx_demo_run [of healthx_demo_config]] healthx_demo_run [of healthx_demo_config] by blast

theorem healthx_ready_iff_witness:
  "\<exists>p. healthx_reach healthx_demo_text healthx_demo_config [''db'', ''mq''] 4 p \<and>
     fst (healthx_writeReport (snd (healthx_Readiness_end healthx_demo_text 9 (pb_comps p) (healthx_New [])))) = 503 \<and>
     xh_readinessFailures (fst (healthx_Readiness_end healthx_demo_text 9 (pb_comps p) (healthx_New []))) = 1"
proof -
  have code: "fst (healthx_writeReport (snd (healthx_Readiness_end healthx_demo_text 9
      [(''db'', healthx_demo_good), (''mq'', healthx_demo_bad)] (healthx_New [])))) = 503"
    by (simp add: healthx_runOne_def panix_SafeVoid_def panix_Safe_def call_fn_def healthx_overall_def healthx_Readiness_end_def
        healthx_writeReport_def Let_def)
  show ?thesis
    using healthx_ready_iff [OF healthx_demo_run [of healthx_demo_config] _ _ prod.collapse [symmetric], of 9 "healthx_New []"] code
      healthx_demo_run [of healthx_demo_config]
    by (intro exI conjI) (assumption | simp add: healthx_New_def)+
qed

end
