(* ===== verification/Toutx.thy ===== *)
theory Toutx
  imports Panix
begin

text \<open>
  Package \<open>toutx\<close> (\<open>src/toutx/\<close>): a function run under a deadline. A call of \<open>Execute\<close> is three parties: the caller, who waits in
  \<open>awaitResult\<close> and classifies what it gets in \<open>normalizeResult\<close>; the goroutine that runs the function and sends its result on a channel of
  room one; and the contexts, which end when they like. One step is one channel operation or one look at a context, so the contexts may change
  between any two looks.
\<close>

subsection \<open>Configuration and errors\<close>

definition toutx_DefaultTimeout :: int where "toutx_DefaultTimeout = 30 * 10 ^ 9"
definition toutx_opExecute :: string where "toutx_opExecute = ''toutx.Execute''"

record toutx_config =
  tc_timeout :: int
  tc_op :: string

record toutx_Timer =
  tt_cfg :: toutx_config

definition toutx_newConfig :: "int \<Rightarrow> (toutx_config \<Rightarrow> toutx_config) option list \<Rightarrow> toutx_config" where
  "toutx_newConfig timeout opts =
     (let c = apply_opts opts \<lparr>tc_timeout = toutx_DefaultTimeout, tc_op = []\<rparr>
      in if 0 < timeout then c\<lparr>tc_timeout := timeout\<rparr> else c)"

definition toutx_opOrDefault :: "toutx_config \<Rightarrow> string" where
  "toutx_opOrDefault c = (if tc_op c \<noteq> [] then tc_op c else toutx_opExecute)"

definition toutx_WithTimeout :: "int \<Rightarrow> toutx_config \<Rightarrow> toutx_config" where
  "toutx_WithTimeout d c = (if 0 < d then c\<lparr>tc_timeout := d\<rparr> else c)"

definition toutx_WithOp :: "string \<Rightarrow> toutx_config \<Rightarrow> toutx_config" where
  "toutx_WithOp op c = (if op \<noteq> [] then c\<lparr>tc_op := op\<rparr> else c)"

definition toutx_New :: "(toutx_config \<Rightarrow> toutx_config) option list \<Rightarrow> toutx_Timer" where
  "toutx_New opts = \<lparr>tt_cfg = toutx_newConfig 0 opts\<rparr>"

definition toutx_Timer_Timeout :: "toutx_Timer \<Rightarrow> int" where "toutx_Timer_Timeout t = tc_timeout (tt_cfg t)"
definition toutx_Timer_Op :: "toutx_Timer \<Rightarrow> string" where "toutx_Timer_Op t = tc_op (tt_cfg t)"

definition toutx_WithTimer :: "toutx_Timer option \<Rightarrow> toutx_config \<Rightarrow> toutx_config" where
  "toutx_WithTimer t c = (case t of None \<Rightarrow> c | Some t \<Rightarrow> tt_cfg t)"

definition toutx_ErrDeadlineExceeded :: goerr where "toutx_ErrDeadlineExceeded = Sentinel ''toutx: deadline exceeded''"
definition toutx_ErrCancelled :: goerr where "toutx_ErrCancelled = Sentinel ''toutx: context cancelled''"
definition toutx_ErrNilFunc :: goerr where "toutx_ErrNilFunc = Sentinel ''toutx: nil function''"

text \<open>\<open>dur\<close> is the text of a duration.\<close>

definition toutx_errDeadlineExceeded :: "(int \<Rightarrow> string) \<Rightarrow> string \<Rightarrow> int \<Rightarrow> goerr" where
  "toutx_errDeadlineExceeded dur op timeout = Errorf (''%w (op='' @ op @ '', timeout='' @ dur timeout @ '')'') [toutx_ErrDeadlineExceeded]"

definition toutx_errCancelled :: "string \<Rightarrow> goerr \<Rightarrow> goerr" where
  "toutx_errCancelled op cause = Errorf (''%w (op='' @ op @ ''): %w'') [toutx_ErrCancelled, cause]"

definition toutx_errNilFunc :: "string \<Rightarrow> goerr" where
  "toutx_errNilFunc op = Errorf (''%w (op='' @ op @ '')'') [toutx_ErrNilFunc]"

subsection \<open>The controller\<close>

text \<open>Instants are nanoseconds; \<open>now\<close> is the reading of the clock.\<close>

record toutx_execution =
  te_op :: string
  te_timeout :: int
  te_startUnix :: int
  te_deadlineUnix :: int

definition toutx_Op :: "toutx_execution \<Rightarrow> string" where "toutx_Op e = te_op e"
definition toutx_Timeout :: "toutx_execution \<Rightarrow> int" where "toutx_Timeout e = te_timeout e"
definition toutx_Deadline :: "toutx_execution \<Rightarrow> int" where "toutx_Deadline e = te_deadlineUnix e"
definition toutx_Elapsed :: "int \<Rightarrow> toutx_execution \<Rightarrow> int" where "toutx_Elapsed now e = now - te_startUnix e"

definition toutx_Remaining :: "int \<Rightarrow> toutx_execution \<Rightarrow> int" where
  "toutx_Remaining now e = (let d = toutx_Deadline e - now in if 0 < d then d else 0)"

definition toutx_resolveDeadline :: "int option \<Rightarrow> int \<Rightarrow> int \<Rightarrow> int" where
  "toutx_resolveDeadline ctxDeadline start timeout = (case ctxDeadline of Some d \<Rightarrow> d | None \<Rightarrow> start + timeout)"

text \<open>
  \<open>context.WithTimeoutCause\<close>: the derived context has a timer of its own, unless the deadline of the parent is earlier; then it ends with the
  parent.
\<close>

definition context_WithTimeout :: "int option \<Rightarrow> int \<Rightarrow> int \<Rightarrow> bool \<times> int" where
  "context_WithTimeout parentDeadline now timeout =
     (case parentDeadline of
        Some d \<Rightarrow> if d < now + timeout then (False, d) else (True, now + timeout)
      | None \<Rightarrow> (True, now + timeout))"

subsection \<open>One call\<close>

text \<open>
  \<open>tr_parent\<close> is \<open>Err()\<close> and \<open>context.Cause\<close> of the parent context when it is done, \<open>tr_tctx\<close> is \<open>Err()\<close> of the derived one. \<open>tr_own\<close> says that the
  derived context has its own timer. \<open>tr_done\<close> is the channel. \<open>tr_fired\<close> and \<open>tr_result\<close> are ghosts: the own timer has fired, and what the
  function came to under \<open>panix.Safe\<close>.
\<close>

datatype 'v toutx_pc =
    TSelect
  | TRecheck
  | TCause
  | TGot 'v goerror
  | TCanceled 'v goerr
  | TNotBoth
  | TParentCause
  | TDeadline 'v goerr
  | TDeadlineCause
  | TReturned 'v goerror

record 'v toutx_call =
  tr_ctl :: toutx_execution
  tr_parent :: "(goerr \<times> goerr) option"
  tr_tctx :: "goerr option"
  tr_own :: bool
  tr_done :: "('v \<times> goerror) option"
  tr_pc :: "'v toutx_pc"
  tr_fired :: bool
  tr_result :: "('v \<times> goerror) option"

text \<open>
  \<open>Execute\<close> up to the start of the goroutine: an early return, or the call that awaits its result. \<open>parent\<close> and \<open>parentDeadline\<close> describe the
  parent context at the entry, \<open>start\<close> and \<open>now\<close> are the two readings of the clock.
\<close>

definition toutx_Execute ::
    "'v \<Rightarrow> toutx_config \<Rightarrow> bool \<Rightarrow> (goerr \<times> goerr) option \<Rightarrow> int option \<Rightarrow> int \<Rightarrow> int \<Rightarrow> ('v \<times> goerror) + 'v toutx_call" where
  "toutx_Execute zero cfg nil_fn parent parentDeadline start now =
     (let op = toutx_opOrDefault cfg in
      if nil_fn then Inl (zero, Some (toutx_errNilFunc op))
      else case parent of
        Some (e, c) \<Rightarrow> Inl (zero, Some (toutx_errCancelled op e))
      | None \<Rightarrow>
          (let (own, deadline) = context_WithTimeout parentDeadline now (tc_timeout cfg) in
           Inr \<lparr>tr_ctl = \<lparr>te_op = op, te_timeout = tc_timeout cfg, te_startUnix = start,
                  te_deadlineUnix = toutx_resolveDeadline (Some deadline) start (tc_timeout cfg)\<rparr>,
                tr_parent = None, tr_tctx = None, tr_own = own, tr_done = None, tr_pc = TSelect, tr_fired = False, tr_result = None\<rparr>))"

text \<open>The goroutine ends with the outcome of the function.\<close>

definition toutx_finish :: "'v \<Rightarrow> 'v outcome \<Rightarrow> 'v toutx_call \<Rightarrow> 'v toutx_call option" where
  "toutx_finish zero out s =
     (let r = panix_Safe zero (te_op (tr_ctl s)) (Some out) in
      if tr_done s = None then Some (s\<lparr>tr_done := Some r, tr_result := Some r\<rparr>) else None)"

text \<open>\<open>normalizeResult\<close>, from the result received.\<close>

definition toutx_normalizeResult :: "'v \<Rightarrow> (int \<Rightarrow> string) \<Rightarrow> 'v toutx_call \<Rightarrow> 'v toutx_pc \<Rightarrow> 'v toutx_pc" where
  "toutx_normalizeResult zero dur s pc =
     (let op = te_op (tr_ctl s); timeout = te_timeout (tr_ctl s) in
      case pc of
        TGot v None \<Rightarrow> TReturned v None
      | TGot v (Some e) \<Rightarrow>
          if errors_Is e CtxCanceled then (if tr_parent s = None then TCanceled v e else TNotBoth)
          else if errors_Is e CtxDeadlineExceeded then TDeadline v e
          else TReturned v (Some e)
      | TCanceled v e \<Rightarrow> if tr_tctx s = None then TReturned v (Some e) else TNotBoth
      | TNotBoth \<Rightarrow> if tr_parent s \<noteq> None then TParentCause else TReturned zero (Some (toutx_errDeadlineExceeded dur op timeout))
      | TParentCause \<Rightarrow>
          TReturned zero (Some (toutx_errCancelled op (case tr_parent s of Some (e, c) \<Rightarrow> c | None \<Rightarrow> CtxCanceled)))
      | TDeadline v e \<Rightarrow> if tr_tctx s = None then TReturned v (Some e) else TDeadlineCause
      | TDeadlineCause \<Rightarrow>
          (case tr_parent s of
             Some (e, c) \<Rightarrow>
               if \<not> errors_Is c CtxDeadlineExceeded then TReturned zero (Some (toutx_errCancelled op c))
               else TReturned zero (Some (toutx_errDeadlineExceeded dur op timeout))
           | None \<Rightarrow> TReturned zero (Some (toutx_errDeadlineExceeded dur op timeout)))
      | _ \<Rightarrow> pc)"

text \<open>
  A step of the caller: \<open>awaitResult\<close>, and \<open>normalizeResult\<close> once a result is received. \<open>expired\<close> says which case the \<open>select\<close> takes; \<open>None\<close> when
  that case is not ready or the call has returned.
\<close>

definition toutx_awaitResult :: "'v \<Rightarrow> (int \<Rightarrow> string) \<Rightarrow> bool \<Rightarrow> 'v toutx_call \<Rightarrow> 'v toutx_call option" where
  "toutx_awaitResult zero dur expired s =
     (let op = te_op (tr_ctl s); timeout = te_timeout (tr_ctl s) in
      case tr_pc s of
        TSelect \<Rightarrow>
          if expired then (if tr_tctx s \<noteq> None then Some (s\<lparr>tr_pc := TRecheck\<rparr>) else None)
          else (case tr_done s of Some (v, e) \<Rightarrow> Some (s\<lparr>tr_done := None, tr_pc := TGot v e\<rparr>) | None \<Rightarrow> None)
      | TRecheck \<Rightarrow>
          (case tr_done s of
             Some (v, e) \<Rightarrow> Some (s\<lparr>tr_done := None, tr_pc := TGot v e\<rparr>)
           | None \<Rightarrow> Some (s\<lparr>tr_pc := TCause\<rparr>))
      | TCause \<Rightarrow>
          Some (s\<lparr>tr_pc := TReturned zero (Some (case tr_parent s of
             Some (e, c) \<Rightarrow> toutx_errCancelled op c
           | None \<Rightarrow> toutx_errDeadlineExceeded dur op timeout))\<rparr>)
      | TReturned v e \<Rightarrow> None
      | pc \<Rightarrow> Some (s\<lparr>tr_pc := toutx_normalizeResult zero dur s pc\<rparr>))"

text \<open>
  A run counts the steps of the caller. The parent context ends at any time, with any error and cause, and is followed by the derived context; the
  timer of the derived context fires at any time, if it has one; and the deferred \<open>cancel\<close> ends the derived context after the return.
\<close>

inductive toutx_reach :: "'v \<Rightarrow> (int \<Rightarrow> string) \<Rightarrow> 'v toutx_call \<Rightarrow> nat \<Rightarrow> 'v toutx_call \<Rightarrow> bool" for zero dur s0 where
  start: "toutx_reach zero dur s0 0 s0"
| finish: "toutx_reach zero dur s0 k s \<Longrightarrow> tr_result s = None \<Longrightarrow> toutx_finish zero out s = Some s' \<Longrightarrow> toutx_reach zero dur s0 k s'"
| parent: "toutx_reach zero dur s0 k s \<Longrightarrow> tr_parent s = None \<Longrightarrow> toutx_reach zero dur s0 k (s\<lparr>tr_parent := Some (e, c)\<rparr>)"
| propagate: "toutx_reach zero dur s0 k s \<Longrightarrow> tr_parent s = Some (e, c) \<Longrightarrow> tr_tctx s = None \<Longrightarrow>
    toutx_reach zero dur s0 k (s\<lparr>tr_tctx := Some e\<rparr>)"
| timer: "toutx_reach zero dur s0 k s \<Longrightarrow> tr_own s \<Longrightarrow> tr_tctx s = None \<Longrightarrow>
    toutx_reach zero dur s0 k (s\<lparr>tr_tctx := Some CtxDeadlineExceeded, tr_fired := True\<rparr>)"
| cancel: "toutx_reach zero dur s0 k s \<Longrightarrow> tr_pc s = TReturned v e \<Longrightarrow> tr_tctx s = None \<Longrightarrow>
    toutx_reach zero dur s0 k (s\<lparr>tr_tctx := Some CtxCanceled\<rparr>)"
| caller: "toutx_reach zero dur s0 k s \<Longrightarrow> toutx_awaitResult zero dur expired s = Some s' \<Longrightarrow> toutx_reach zero dur s0 (Suc k) s'"

subsection \<open>Invariant\<close>

text \<open>A context of the call is over; the error of a result is one of those that are classified again.\<close>

definition toutx_over :: "'v toutx_call \<Rightarrow> bool" where
  "toutx_over s \<longleftrightarrow> tr_fired s \<or> tr_parent s \<noteq> None"

definition toutx_contextual :: "goerror \<Rightarrow> bool" where
  "toutx_contextual e = (case e of Some e \<Rightarrow> errors_Is e CtxCanceled \<or> errors_Is e CtxDeadlineExceeded | None \<Rightarrow> False)"

text \<open>
  The schedule in which a deadline of the parent is taken for the timeout of the call: the function's result was received, its error is a deadline
  error, and so is the cause with which the parent ended.
\<close>

definition toutx_misread :: "'v toutx_call \<Rightarrow> bool" where
  "toutx_misread s \<longleftrightarrow> tr_done s = None \<and>
     (\<exists>w e. tr_result s = Some (w, Some e) \<and> errors_Is e CtxDeadlineExceeded \<and> \<not> errors_Is e CtxCanceled) \<and>
     (\<exists>e c. tr_parent s = Some (e, c) \<and> errors_Is c CtxDeadlineExceeded)"

text \<open>What may be returned.\<close>

definition toutx_own_result :: "'v toutx_call \<Rightarrow> 'v \<Rightarrow> goerror \<Rightarrow> bool" where
  "toutx_own_result s v err \<longleftrightarrow> tr_result s = Some (v, err)"

definition toutx_deadline_result :: "'v \<Rightarrow> (int \<Rightarrow> string) \<Rightarrow> 'v toutx_call \<Rightarrow> 'v \<Rightarrow> goerror \<Rightarrow> bool" where
  "toutx_deadline_result zero dur s v err \<longleftrightarrow>
     v = zero \<and> err = Some (toutx_errDeadlineExceeded dur (te_op (tr_ctl s)) (te_timeout (tr_ctl s))) \<and>
     (tr_fired s \<or> toutx_misread s)"

definition toutx_cancel_result :: "'v \<Rightarrow> 'v toutx_call \<Rightarrow> 'v \<Rightarrow> goerror \<Rightarrow> bool" where
  "toutx_cancel_result zero s v err \<longleftrightarrow>
     v = zero \<and> (\<exists>e c. tr_parent s = Some (e, c) \<and> err = Some (toutx_errCancelled (te_op (tr_ctl s)) c))"

definition toutx_returns :: "'v \<Rightarrow> (int \<Rightarrow> string) \<Rightarrow> 'v toutx_call \<Rightarrow> 'v \<Rightarrow> goerror \<Rightarrow> bool" where
  "toutx_returns zero dur s v err \<longleftrightarrow>
     (toutx_own_result s v err \<or> toutx_deadline_result zero dur s v err \<or> toutx_cancel_result zero s v err) \<and>
     (\<forall>w e. tr_done s = None \<longrightarrow> tr_result s = Some (w, e) \<longrightarrow> \<not> toutx_contextual e \<longrightarrow> v = w \<and> err = e)"

definition toutx_pc_inv :: "'v \<Rightarrow> (int \<Rightarrow> string) \<Rightarrow> 'v toutx_call \<Rightarrow> bool" where
  "toutx_pc_inv zero dur s =
     (case tr_pc s of
        TSelect \<Rightarrow> tr_result s = tr_done s
      | TRecheck \<Rightarrow> tr_result s = tr_done s \<and> toutx_over s
      | TCause \<Rightarrow> tr_result s = tr_done s \<and> toutx_over s
      | TGot v e \<Rightarrow> tr_done s = None \<and> tr_result s = Some (v, e)
      | TCanceled v e \<Rightarrow> tr_done s = None \<and> tr_result s = Some (v, Some e) \<and> errors_Is e CtxCanceled
      | TDeadline v e \<Rightarrow> tr_done s = None \<and> tr_result s = Some (v, Some e) \<and> errors_Is e CtxDeadlineExceeded \<and> \<not> errors_Is e CtxCanceled
      | TNotBoth \<Rightarrow> tr_done s = None \<and> (\<exists>w e. tr_result s = Some (w, e) \<and> toutx_contextual e) \<and> toutx_over s
      | TParentCause \<Rightarrow> tr_done s = None \<and> (\<exists>w e. tr_result s = Some (w, e) \<and> toutx_contextual e) \<and> tr_parent s \<noteq> None
      | TDeadlineCause \<Rightarrow> tr_done s = None \<and> toutx_over s \<and>
          (\<exists>w e. tr_result s = Some (w, Some e) \<and> errors_Is e CtxDeadlineExceeded \<and> \<not> errors_Is e CtxCanceled)
      | TReturned v e \<Rightarrow> toutx_returns zero dur s v e)"

definition toutx_inv :: "'v \<Rightarrow> (int \<Rightarrow> string) \<Rightarrow> 'v toutx_call \<Rightarrow> bool" where
  "toutx_inv zero dur s \<longleftrightarrow>
     toutx_pc_inv zero dur s \<and> (\<forall>r. tr_done s = Some r \<longrightarrow> tr_result s = Some r) \<and>
     (tr_tctx s \<noteq> None \<longrightarrow> toutx_over s \<or> (\<exists>v e. tr_pc s = TReturned v e))"

text \<open>How many steps the caller can still take.\<close>

definition toutx_left :: "'v toutx_pc \<Rightarrow> nat" where
  "toutx_left pc =
     (case pc of TSelect \<Rightarrow> 6 | TRecheck \<Rightarrow> 5 | TGot _ _ \<Rightarrow> 4 | TCanceled _ _ \<Rightarrow> 3 | TNotBoth \<Rightarrow> 2 | TDeadline _ _ \<Rightarrow> 2
      | TParentCause \<Rightarrow> 1 | TDeadlineCause \<Rightarrow> 1 | TCause \<Rightarrow> 1 | TReturned _ _ \<Rightarrow> 0)"

lemmas toutx_inv_defs = toutx_inv_def toutx_pc_inv_def toutx_over_def toutx_returns_def toutx_own_result_def toutx_deadline_result_def
  toutx_cancel_result_def toutx_misread_def

lemma toutx_normalize_step:
  assumes "toutx_inv zero dur s" and "tr_pc s \<notin> {TSelect, TRecheck, TCause}"
  shows "toutx_pc_inv zero dur (s\<lparr>tr_pc := toutx_normalizeResult zero dur s (tr_pc s)\<rparr>)"
    and "toutx_left (toutx_normalizeResult zero dur s (tr_pc s)) < toutx_left (tr_pc s) \<or> (\<exists>v e. tr_pc s = TReturned v e)"
proof -
  show "toutx_left (toutx_normalizeResult zero dur s (tr_pc s)) < toutx_left (tr_pc s) \<or> (\<exists>v e. tr_pc s = TReturned v e)"
    using assms(2)
    by (auto simp: toutx_normalizeResult_def toutx_left_def Let_def split: toutx_pc.splits option.splits)
  show "toutx_pc_inv zero dur (s\<lparr>tr_pc := toutx_normalizeResult zero dur s (tr_pc s)\<rparr>)"
  proof (cases "tr_pc s")
    case (TGot v e)
    then show ?thesis using assms(1)
      by (cases e; cases "tr_parent s") (auto simp: toutx_normalizeResult_def toutx_inv_defs toutx_contextual_def Let_def)
  qed (use assms in \<open>auto simp: toutx_normalizeResult_def toutx_inv_defs toutx_contextual_def Let_def split: option.splits\<close>)
qed

lemma toutx_caller_step:
  assumes "toutx_inv zero dur s" and "toutx_awaitResult zero dur expired s = Some s'"
  shows "toutx_inv zero dur s'" and "toutx_left (tr_pc s') < toutx_left (tr_pc s)"
    and "tr_ctl s' = tr_ctl s"
proof -
  have "toutx_inv zero dur s' \<and> toutx_left (tr_pc s') < toutx_left (tr_pc s) \<and> tr_ctl s' = tr_ctl s"
  proof (cases "tr_pc s \<in> {TSelect, TRecheck, TCause}")
    case True
    then show ?thesis using assms
      by (cases "tr_pc s") (auto simp: toutx_awaitResult_def toutx_inv_defs toutx_left_def Let_def split: option.splits if_splits)
  next
    case False
    have live: "tr_pc s \<noteq> TReturned v e" for v e using assms(2) by (auto simp: toutx_awaitResult_def Let_def)
    then have s': "s' = s\<lparr>tr_pc := toutx_normalizeResult zero dur s (tr_pc s)\<rparr>"
      using assms(2) False by (cases "tr_pc s") (simp_all add: toutx_awaitResult_def Let_def)
    show ?thesis
      using toutx_normalize_step [OF assms(1) False] assms(1) live unfolding s' by (auto simp: toutx_inv_def toutx_over_def)
  qed
  then show "toutx_inv zero dur s'" "toutx_left (tr_pc s') < toutx_left (tr_pc s)" "tr_ctl s' = tr_ctl s" by simp_all
qed

lemma toutx_finish_step:
  assumes "toutx_inv zero dur s" and "tr_result s = None" and "toutx_finish zero out s = Some s'"
  shows "toutx_inv zero dur s'" and "tr_pc s' = tr_pc s" and "tr_ctl s' = tr_ctl s"
proof -
  define r where "r = panix_Safe zero (te_op (tr_ctl s)) (Some out)"
  have s': "s' = s\<lparr>tr_done := Some r, tr_result := Some r\<rparr>" and "tr_done s = None"
    using assms(3) by (simp_all add: toutx_finish_def r_def Let_def split: if_splits)
  then show "toutx_inv zero dur s'"
    using assms(1,2) by (cases "tr_pc s"; cases r) (simp_all add: toutx_inv_defs)
  show "tr_pc s' = tr_pc s" "tr_ctl s' = tr_ctl s" by (simp_all add: s')
qed

lemma toutx_context_steps:
  assumes "toutx_inv zero dur s"
  shows "tr_parent s = None \<Longrightarrow> toutx_inv zero dur (s\<lparr>tr_parent := Some (e, c)\<rparr>)"
    and "tr_parent s = Some (e, c) \<Longrightarrow> toutx_inv zero dur (s\<lparr>tr_tctx := Some e\<rparr>)"
    and "toutx_inv zero dur (s\<lparr>tr_tctx := Some x, tr_fired := True\<rparr>)"
    and "tr_pc s = TReturned v err \<Longrightarrow> toutx_inv zero dur (s\<lparr>tr_tctx := Some y\<rparr>)"
  using assms by (auto simp: toutx_inv_defs split: toutx_pc.splits)

lemma toutx_Execute_inv: "toutx_Execute zero cfg nil_fn parent pd start now = Inr s0 \<Longrightarrow> toutx_inv zero dur s0 \<and> tr_pc s0 = TSelect"
  by (auto simp: toutx_Execute_def toutx_inv_def toutx_pc_inv_def Let_def split: if_splits option.splits prod.splits)

lemma toutx_reach_inv:
  assumes "toutx_reach zero dur s0 k s" and "toutx_inv zero dur s0" and "tr_pc s0 = TSelect"
  shows "toutx_inv zero dur s \<and> tr_ctl s = tr_ctl s0 \<and> k + toutx_left (tr_pc s) \<le> 6"
  using assms
proof (induction rule: toutx_reach.induct)
  case start
  then show ?case by (simp add: toutx_left_def)
next
  case (finish k s out s')
  then show ?case using toutx_finish_step [of zero dur s out s'] by simp
next
  case (caller k s expired s')
  then show ?case using toutx_caller_step [of zero dur s expired s'] by simp
next
  case (parent k s e c)
  then show ?case using toutx_context_steps(1) [of zero dur s e c] by simp
next
  case (propagate k s e c)
  then show ?case using toutx_context_steps(2) [of zero dur s e c] by simp
next
  case (timer k s)
  then show ?case using toutx_context_steps(3) [of zero dur s CtxDeadlineExceeded] by simp
next
  case (cancel k s v e)
  then show ?case using toutx_context_steps(4) [of zero dur s v e CtxCanceled] by simp
qed

subsection \<open>The outcome of a call\<close>

text \<open>
  C33: what a call of \<open>Execute\<close> returns. However the function, the parent context and the timer interleave, the result is one of three: that of
  the function, unchanged; the zero value with \<open>ErrDeadlineExceeded\<close>, and then the timer of this call has fired; or the zero value with
  \<open>ErrCancelled\<close> around the cause with which the parent has ended. One schedule is excluded: that a deadline error of the function is received when
  the parent has ended with a deadline; what happens then is the lemma \<open>toutx_parent_deadline\<close>. A received result whose error is nil, or is no context
  error, is always returned unchanged, and so is every result of a call whose timer and parent are still live.
\<close>

theorem toutx_Execute_outcome:
  assumes "toutx_Execute zero cfg nil_fn parent pd start now = Inr s0" and "toutx_reach zero dur s0 k s" and "tr_pc s = TReturned v err"
    and "\<not> toutx_misread s"
  shows "(tr_result s = Some (v, err) \<or>
      v = zero \<and> err = Some (toutx_errDeadlineExceeded dur (toutx_opOrDefault cfg) (tc_timeout cfg)) \<and> tr_fired s \<or>
      v = zero \<and> (\<exists>e c. tr_parent s = Some (e, c) \<and> err = Some (toutx_errCancelled (toutx_opOrDefault cfg) c))) \<and>
    (tr_done s = None \<longrightarrow> (\<exists>w e. tr_result s = Some (w, e) \<and> \<not> toutx_contextual e) \<longrightarrow> tr_result s = Some (v, err)) \<and>
    (\<not> tr_fired s \<longrightarrow> tr_parent s = None \<longrightarrow> tr_result s = Some (v, err))"
proof -
  have ctl: "te_op (tr_ctl s0) = toutx_opOrDefault cfg" "te_timeout (tr_ctl s0) = tc_timeout cfg"
    using assms(1) by (auto simp: toutx_Execute_def Let_def split: if_splits option.splits prod.splits)
  have "toutx_inv zero dur s" and "tr_ctl s = tr_ctl s0"
    using toutx_reach_inv [OF assms(2)] toutx_Execute_inv [OF assms(1)] by blast+
  then have "toutx_returns zero dur s v err" using assms(3) by (simp add: toutx_inv_def toutx_pc_inv_def)
  then show ?thesis
    unfolding toutx_returns_def toutx_own_result_def toutx_deadline_result_def toutx_cancel_result_def
    using ctl \<open>tr_ctl s = tr_ctl s0\<close> assms(4) by auto
qed

text \<open>
  C34: a call returns. The caller makes at most six steps; it can make one whenever a result is waiting, the derived context is over, or it is
  past its \<open>select\<close>, until it has returned; after that the deferred cancel ends the context of the function; and the goroutine can
  always send its result, so that it is never left blocked on the channel.
\<close>

theorem toutx_Execute_returns:
  assumes "toutx_Execute zero cfg nil_fn parent pd start now = Inr s0" and "toutx_reach zero dur s0 k s"
  shows "k \<le> 6 \<and>
    ((\<forall>v e. tr_pc s \<noteq> TReturned v e) \<and> (tr_done s \<noteq> None \<or> tr_tctx s \<noteq> None \<or> tr_pc s \<noteq> TSelect) \<longrightarrow>
       (\<exists>expired s'. toutx_awaitResult zero dur expired s = Some s')) \<and>
    ((\<exists>v e. tr_pc s = TReturned v e) \<longrightarrow> tr_tctx s \<noteq> None \<or> toutx_reach zero dur s0 k (s\<lparr>tr_tctx := Some CtxCanceled\<rparr>)) \<and>
    (tr_result s = None \<longrightarrow> (\<forall>out. toutx_finish zero out s \<noteq> None))"
proof -
  have inv: "toutx_inv zero dur s" and k: "k + toutx_left (tr_pc s) \<le> 6"
    using toutx_reach_inv [OF assms(2)] toutx_Execute_inv [OF assms(1)] by blast+
  have step: "\<exists>expired s'. toutx_awaitResult zero dur expired s = Some s'"
    if "\<forall>v e. tr_pc s \<noteq> TReturned v e" "tr_done s \<noteq> None \<or> tr_tctx s \<noteq> None \<or> tr_pc s \<noteq> TSelect"
    using that by (cases "tr_pc s") (auto simp: toutx_awaitResult_def Let_def split: option.splits)
  have "toutx_finish zero out s \<noteq> None" if "tr_result s = None" for out
    using that inv by (cases "tr_done s") (auto simp: toutx_finish_def toutx_inv_def Let_def)
  moreover have "tr_tctx s \<noteq> None \<or> toutx_reach zero dur s0 k (s\<lparr>tr_tctx := Some CtxCanceled\<rparr>)" if "\<exists>v e. tr_pc s = TReturned v e"
    using that toutx_reach.cancel [OF assms(2)] by blast
  ultimately show ?thesis using k step by simp
qed

subsection \<open>The configuration of a call\<close>

text \<open>
  Whatever the options, the timeout of a call is positive; it is the positional argument when that is positive, and otherwise the one that the
  options leave, in which a \<open>Timer\<close> replaces what came before it and is overridden by what comes after.
\<close>

lemma toutx_timeout_positive:
  assumes "\<And>f c. Some f \<in> set opts \<Longrightarrow> 0 < tc_timeout c \<Longrightarrow> 0 < tc_timeout (f c)"
  shows "0 < tc_timeout (toutx_newConfig timeout opts)"
proof -
  have "0 < tc_timeout (apply_opts opts \<lparr>tc_timeout = toutx_DefaultTimeout, tc_op = []\<rparr>)"
    by (rule apply_opts_inv) (use assms in \<open>simp_all add: toutx_DefaultTimeout_def\<close>)
  then show ?thesis by (simp add: toutx_newConfig_def Let_def)
qed

lemma toutx_timer_precedence:
  "tc_timeout (toutx_newConfig timeout (opts @ [Some (toutx_WithTimer (Some t)), Some (toutx_WithOp op)])) =
     (if 0 < timeout then timeout else toutx_Timer_Timeout t)"
  "tc_op (toutx_newConfig timeout (opts @ [Some (toutx_WithTimer (Some t)), Some (toutx_WithOp op)])) =
     (if op = [] then toutx_Timer_Op t else op)"
  by (simp_all add: toutx_newConfig_def toutx_WithTimer_def toutx_WithOp_def toutx_Timer_Timeout_def toutx_Timer_Op_def apply_opts_append Let_def)

text \<open>The controller of a call shows the deadline of its context, which is not later than that of the parent, and never a negative rest.\<close>

lemma toutx_controller:
  assumes "toutx_Execute zero cfg nil_fn parent pd start now = Inr s0"
  shows "toutx_Deadline (tr_ctl s0) = snd (context_WithTimeout pd now (tc_timeout cfg))"
    and "toutx_Deadline (tr_ctl s0) \<le> now + tc_timeout cfg" and "pd = Some d \<Longrightarrow> toutx_Deadline (tr_ctl s0) \<le> d"
    and "0 \<le> toutx_Remaining t (tr_ctl s0)" and "t < toutx_Deadline (tr_ctl s0) \<Longrightarrow> toutx_Remaining t (tr_ctl s0) = toutx_Deadline (tr_ctl s0) - t"
  using assms
  by (auto simp: toutx_Execute_def toutx_Deadline_def toutx_Remaining_def toutx_resolveDeadline_def context_WithTimeout_def Let_def
      split: if_splits option.splits prod.splits)

subsection \<open>Runs\<close>

definition toutx_demo_call :: "nat toutx_call" where
  "toutx_demo_call = (case toutx_Execute 0 (toutx_newConfig 0 []) False None (Some 7) 5 6 of Inr s \<Rightarrow> s | Inl r \<Rightarrow> undefined)"

definition toutx_demo_dur :: "int \<Rightarrow> string" where "toutx_demo_dur d = ''30s''"

lemma toutx_demo_call:
  "toutx_Execute 0 (toutx_newConfig 0 []) False None (Some 7) 5 6 = Inr toutx_demo_call"
  "tr_pc toutx_demo_call = TSelect" "tr_parent toutx_demo_call = None" "tr_tctx toutx_demo_call = None" "\<not> tr_own toutx_demo_call"
  "tr_done toutx_demo_call = None" "tr_result toutx_demo_call = None" "\<not> tr_fired toutx_demo_call"
  by (simp_all add: toutx_demo_call_def toutx_Execute_def toutx_newConfig_def toutx_DefaultTimeout_def context_WithTimeout_def Let_def)

abbreviation "toutx_demo_reach \<equiv> toutx_reach (0::nat) toutx_demo_dur toutx_demo_call"

text \<open>The parent context reaches a deadline that is earlier than the timeout of the call.\<close>

definition toutx_demo_expired :: "nat toutx_call" where
  "toutx_demo_expired = toutx_demo_call\<lparr>tr_parent := Some (CtxDeadlineExceeded, CtxDeadlineExceeded), tr_tctx := Some CtxDeadlineExceeded\<rparr>"

lemma toutx_demo_expired: "toutx_demo_reach 0 toutx_demo_expired"
  unfolding toutx_demo_expired_def
  by (rule toutx_reach.propagate [OF toutx_reach.parent [OF toutx_reach.start], of _ _ _ CtxDeadlineExceeded CtxDeadlineExceeded, simplified])
    (simp_all add: toutx_demo_call)

text \<open>From there the caller of a function that is still running gives up.\<close>

lemma toutx_demo_gives_up:
  "toutx_demo_reach 3 (toutx_demo_expired\<lparr>tr_pc := TReturned 0 (Some (toutx_errCancelled toutx_opExecute CtxDeadlineExceeded))\<rparr>)"
proof -
  let ?s = toutx_demo_expired
  note defs = toutx_awaitResult_def toutx_demo_expired_def toutx_demo_call Let_def
  have op: "te_op (tr_ctl ?s) = toutx_opExecute"
    by (simp add: toutx_demo_expired_def toutx_demo_call_def toutx_Execute_def toutx_newConfig_def toutx_opOrDefault_def context_WithTimeout_def Let_def)
  have 1: "toutx_demo_reach (Suc 0) (?s\<lparr>tr_pc := TRecheck\<rparr>)"
    by (rule toutx_reach.caller [OF toutx_demo_expired, of True]) (simp add: defs)
  have 2: "toutx_demo_reach (Suc (Suc 0)) (?s\<lparr>tr_pc := TCause\<rparr>)"
    by (rule toutx_reach.caller [OF 1, of True]) (simp add: defs)
  have "toutx_demo_reach (Suc (Suc (Suc 0))) (?s\<lparr>tr_pc := TReturned 0 (Some (toutx_errCancelled toutx_opExecute CtxDeadlineExceeded))\<rparr>)"
    by (rule toutx_reach.caller [OF 2, of True]) (use op in \<open>simp add: defs\<close>)
  then show ?thesis by (simp add: eval_nat_numeral)
qed

text \<open>And the result of a function whose error is a deadline is received and classified.\<close>

lemma toutx_demo_classifies:
  assumes "panix_Safe 0 toutx_opExecute (Some out) = (w, Some err)" and "errors_Is err CtxDeadlineExceeded" and "\<not> errors_Is err CtxCanceled"
  shows "\<exists>s. toutx_demo_reach 4 s \<and> tr_pc s = TReturned 0 (Some (toutx_errDeadlineExceeded toutx_demo_dur toutx_opExecute toutx_DefaultTimeout)) \<and>
    tr_result s = Some (w, Some err) \<and> \<not> tr_fired s"
proof -
  define s0 where "s0 = toutx_demo_expired\<lparr>tr_done := Some (w, Some err), tr_result := Some (w, Some err)\<rparr>"
  let ?s = "s0\<lparr>tr_done := None\<rparr>"
  have ctl: "te_op (tr_ctl toutx_demo_expired) = toutx_opExecute" "te_timeout (tr_ctl toutx_demo_expired) = toutx_DefaultTimeout"
    by (simp_all add: toutx_demo_expired_def toutx_demo_call_def toutx_Execute_def toutx_newConfig_def toutx_opOrDefault_def context_WithTimeout_def
        Let_def)
  note defs = toutx_awaitResult_def toutx_normalizeResult_def s0_def toutx_demo_expired_def toutx_demo_call Let_def
  have 0: "toutx_demo_reach 0 s0"
    by (rule toutx_reach.finish [OF toutx_demo_expired, of out])
      (use assms(1) ctl in \<open>simp_all add: toutx_finish_def s0_def toutx_demo_expired_def toutx_demo_call Let_def\<close>)
  have 1: "toutx_demo_reach (Suc 0) (?s\<lparr>tr_pc := TGot w (Some err)\<rparr>)"
    by (rule toutx_reach.caller [OF 0, of False]) (simp add: defs)
  have 2: "toutx_demo_reach (Suc (Suc 0)) (?s\<lparr>tr_pc := TDeadline w err\<rparr>)"
    by (rule toutx_reach.caller [OF 1, of True]) (use assms(2,3) in \<open>simp add: defs\<close>)
  have 3: "toutx_demo_reach (Suc (Suc (Suc 0))) (?s\<lparr>tr_pc := TDeadlineCause\<rparr>)"
    by (rule toutx_reach.caller [OF 2, of True]) (simp add: defs)
  have "toutx_demo_reach (Suc (Suc (Suc (Suc 0))))
      (?s\<lparr>tr_pc := TReturned 0 (Some (toutx_errDeadlineExceeded toutx_demo_dur toutx_opExecute toutx_DefaultTimeout))\<rparr>)"
    by (rule toutx_reach.caller [OF 3, of True]) (use ctl in \<open>simp add: defs\<close>)
  then have "toutx_demo_reach 4 (?s\<lparr>tr_pc := TReturned 0 (Some (toutx_errDeadlineExceeded toutx_demo_dur toutx_opExecute toutx_DefaultTimeout))\<rparr>)"
    by (simp add: eval_nat_numeral)
  then show ?thesis by - (rule exI, rule conjI, assumption, simp add: s0_def toutx_demo_expired_def toutx_demo_call)
qed

text \<open>
  The two show that the deadline of a parent is reported in two ways, \<open>ErrCancelled\<close> while the function runs and \<open>ErrDeadlineExceeded\<close>, with a
  timeout that never passed, when the function returns the error of its context; and that a panic is lost when its value is such an error.
\<close>

lemma toutx_parent_deadline:
  "(\<exists>k s. toutx_demo_reach k s \<and> tr_pc s = TReturned 0 (Some (toutx_errCancelled toutx_opExecute CtxDeadlineExceeded)) \<and> \<not> tr_fired s) \<and>
   (\<exists>k s. toutx_demo_reach k s \<and> tr_result s = Some (3, Some CtxDeadlineExceeded) \<and> \<not> tr_fired s \<and>
      tr_pc s = TReturned 0 (Some (toutx_errDeadlineExceeded toutx_demo_dur toutx_opExecute toutx_DefaultTimeout)))"
proof
  show "\<exists>k s. toutx_demo_reach k s \<and> tr_pc s = TReturned 0 (Some (toutx_errCancelled toutx_opExecute CtxDeadlineExceeded)) \<and> \<not> tr_fired s"
    by (rule exI, rule exI, rule conjI [OF toutx_demo_gives_up]) (simp add: toutx_demo_expired_def toutx_demo_call)
  show "\<exists>k s. toutx_demo_reach k s \<and> tr_result s = Some (3, Some CtxDeadlineExceeded) \<and> \<not> tr_fired s \<and>
      tr_pc s = TReturned 0 (Some (toutx_errDeadlineExceeded toutx_demo_dur toutx_opExecute toutx_DefaultTimeout))"
    using toutx_demo_classifies [of "Returns 3 (Some CtxDeadlineExceeded)" 3 CtxDeadlineExceeded] by (auto simp: panix_Safe_def call_fn_def)
qed

lemma toutx_panic_lost:
  "\<exists>k s err. toutx_demo_reach k s \<and> tr_result s = Some (0, Some (PanicError toutx_opExecute (PvError CtxDeadlineExceeded))) \<and>
     tr_pc s = TReturned 0 (Some err) \<and> \<not> errors_As_PanicError err"
  using toutx_demo_classifies [of "Panics (PvError CtxDeadlineExceeded)" 0 "PanicError toutx_opExecute (PvError CtxDeadlineExceeded)"]
  by (fastforce simp: panix_Safe_def call_fn_def toutx_errDeadlineExceeded_def toutx_ErrDeadlineExceeded_def)

theorem toutx_Execute_outcome_witness:
  "\<exists>s. toutx_demo_reach 3 s \<and> \<not> tr_fired s \<and> tr_result s = None \<and>
     (\<exists>err. tr_pc s = TReturned 0 err \<and> err = Some (toutx_errCancelled toutx_opExecute CtxDeadlineExceeded))"
proof -
  let ?s = "toutx_demo_expired\<lparr>tr_pc := TReturned 0 (Some (toutx_errCancelled toutx_opExecute CtxDeadlineExceeded))\<rparr>"
  have quiet: "tr_result ?s = None" "\<not> tr_fired ?s" by (simp_all add: toutx_demo_expired_def toutx_demo_call)
  then have "\<not> toutx_misread ?s" by (simp add: toutx_misread_def)
  then have "\<exists>e c. tr_parent ?s = Some (e, c) \<and> Some (toutx_errCancelled toutx_opExecute CtxDeadlineExceeded)
      = Some (toutx_errCancelled (toutx_opOrDefault (toutx_newConfig 0 [])) c)"
    using toutx_Execute_outcome [OF toutx_demo_call(1) toutx_demo_gives_up] quiet by simp
  then show ?thesis using toutx_demo_gives_up quiet by (intro exI [of _ ?s]) simp
qed

theorem toutx_Execute_returns_witness:
  "toutx_demo_reach 0 toutx_demo_expired \<and> (\<exists>expired s'. toutx_awaitResult 0 toutx_demo_dur expired toutx_demo_expired = Some s')"
  using toutx_demo_expired toutx_Execute_returns [OF toutx_demo_call(1) toutx_demo_expired]
  by (simp add: toutx_demo_expired_def toutx_demo_call)

end
