(* ===== verification/Syncx.thy ===== *)
theory Syncx
  imports Panix
begin

text \<open>
  Package \<open>syncx\<close> (\<open>src/syncx/\<close>), part one: the lazy value \<open>Lazy\<close> (\<open>lazy.go\<close>), what the package shares (\<open>errors.go\<close>, \<open>types.go\<close>,
  \<open>options.go\<close>), and mutexes as the goroutine that holds them. \<open>Syncx_Map\<close> has the concurrent map and \<open>Syncx_Group\<close> the group of tasks.
\<close>

subsection \<open>Errors and options\<close>

definition syncx_ErrInitFailed :: goerr where "syncx_ErrInitFailed = Sentinel ''syncx: lazy init failed''"
definition syncx_ErrNilInit :: goerr where "syncx_ErrNilInit = Sentinel ''syncx: nil init function''"
definition syncx_ErrNilFunc :: goerr where "syncx_ErrNilFunc = Sentinel ''syncx: nil function''"

definition syncx_errInitFailed :: "goerr \<Rightarrow> goerr" where
  "syncx_errInitFailed cause = Errorf ''%w: %w'' [syncx_ErrInitFailed, cause]"

definition syncx_isPanic :: "goerr \<Rightarrow> bool" where
  "syncx_isPanic e = errors_As_PanicError e"

definition syncx_opLazy :: string where "syncx_opLazy = ''syncx.Lazy''"
definition syncx_opGroup :: string where "syncx_opGroup = ''syncx.Group''"

definition syncx_defaultLimit :: int where "syncx_defaultLimit = 0"

record syncx_groupConfig =
  gc_limit :: int

definition syncx_WithLimit :: "int \<Rightarrow> syncx_groupConfig \<Rightarrow> syncx_groupConfig" where
  "syncx_WithLimit n c = (if 0 < n then c\<lparr>gc_limit := n\<rparr> else c)"

definition syncx_newGroupConfig :: "(syncx_groupConfig \<Rightarrow> syncx_groupConfig) list \<Rightarrow> syncx_groupConfig" where
  "syncx_newGroupConfig opts = fold (\<lambda>opt c. opt c) opts \<lparr>gc_limit = syncx_defaultLimit\<rparr>"

subsection \<open>A mutex\<close>

text \<open>\<open>lock\<close> is the goroutine that holds a mutex: the one goroutine in a section of code that \<open>P\<close> marks.\<close>

definition lock_ok :: "('p \<Rightarrow> bool) \<Rightarrow> nat option \<Rightarrow> 'p list \<Rightarrow> bool" where
  "lock_ok P lock ps \<longleftrightarrow> (\<forall>i<length ps. P (ps ! i) \<longleftrightarrow> lock = Some i) \<and> (\<forall>i. lock = Some i \<longrightarrow> i < length ps)"

lemma lock_ok_keep: "lock_ok P lock ps \<Longrightarrow> i < length ps \<Longrightarrow> P pc = P (ps ! i) \<Longrightarrow> lock_ok P lock (ps[i := pc])"
  by (auto simp: lock_ok_def nth_list_update)

lemma lock_ok_acquire: "lock_ok P None ps \<Longrightarrow> i < length ps \<Longrightarrow> P pc \<Longrightarrow> lock_ok P (Some i) (ps[i := pc])"
  by (auto simp: lock_ok_def nth_list_update)

lemma lock_ok_release: "lock_ok P lock ps \<Longrightarrow> i < length ps \<Longrightarrow> P (ps ! i) \<Longrightarrow> \<not> P pc \<Longrightarrow> lock_ok P None (ps[i := pc])"
  by (auto simp: lock_ok_def nth_list_update)

lemma lock_ok_spawn: "lock_ok P lock ps \<Longrightarrow> \<not> P pc \<Longrightarrow> lock_ok P lock (ps @ [pc])"
  by (auto simp: lock_ok_def nth_append less_Suc_eq)

lemma lock_ok_holder: "lock_ok P lock ps \<Longrightarrow> i < length ps \<Longrightarrow> P (ps ! i) \<Longrightarrow> lock = Some i"
  by (simp add: lock_ok_def)

lemma lock_ok_free: "lock_ok P None ps \<Longrightarrow> pc \<in> set ps \<Longrightarrow> \<not> P pc"
  by (auto simp: lock_ok_def in_set_conv_nth)

lemma lock_ok_sole: "lock_ok P lock ps \<Longrightarrow> i < length ps \<Longrightarrow> j < length ps \<Longrightarrow> P (ps ! i) \<Longrightarrow> P (ps ! j) \<Longrightarrow> i = j"
  by (auto simp: lock_ok_def)

subsection \<open>Lazy values\<close>

text \<open>The outcome of the init function is chosen when it runs.\<close>

record 'v syncx_Lazy =
  lz_val :: 'v
  lz_done :: bool

definition syncx_NewLazy :: "'v \<Rightarrow> bool \<Rightarrow> goerr + 'v syncx_Lazy" where
  "syncx_NewLazy zero nil_init = (if nil_init then Inl syncx_ErrNilInit else Inr \<lparr>lz_val = zero, lz_done = False\<rparr>)"

text \<open>\<open>Get\<close> under the mutex, up to the call of the init function and from its outcome.\<close>

definition syncx_Get_begin :: "'v syncx_Lazy \<Rightarrow> ('v \<times> goerror) option" where
  "syncx_Get_begin l = (if lz_done l then Some (lz_val l, None) else None)"

definition syncx_Get_end :: "'v \<Rightarrow> 'v outcome \<Rightarrow> 'v syncx_Lazy \<Rightarrow> 'v syncx_Lazy \<times> 'v \<times> goerror" where
  "syncx_Get_end zero out l =
     (case panix_Safe zero syncx_opLazy (Some out) of
        (v, Some e) \<Rightarrow> (l, zero, Some (if syncx_isPanic e then e else syncx_errInitFailed e))
      | (v, None) \<Rightarrow> (l\<lparr>lz_val := v, lz_done := True\<rparr>, v, None))"

definition syncx_Get :: "'v \<Rightarrow> 'v outcome \<Rightarrow> 'v syncx_Lazy \<Rightarrow> 'v syncx_Lazy \<times> 'v \<times> goerror" where
  "syncx_Get zero out l = (case syncx_Get_begin l of Some r \<Rightarrow> (l, r) | None \<Rightarrow> syncx_Get_end zero out l)"

definition syncx_Done :: "'v syncx_Lazy \<Rightarrow> bool" where "syncx_Done l = lz_done l"

definition syncx_Reset :: "'v \<Rightarrow> 'v syncx_Lazy \<Rightarrow> 'v syncx_Lazy" where
  "syncx_Reset zero l = l\<lparr>lz_val := zero, lz_done := False\<rparr>"

text \<open>
  Goroutines that use one lazy value. The init function runs with the mutex held; a section without a callback is one step. The log is a ghost:
  what the holders of the mutex did, in order.
\<close>

datatype 'v lazy_pc = LGet | LInit | LReset | LDone | LReturn 'v goerror | LOver

datatype 'v lazy_event = LzInit 'v | LzFail goerr | LzCached 'v | LzReset

record 'v lazy_sys =
  ls_lazy :: "'v syncx_Lazy"
  ls_lock :: "nat option"
  ls_pcs :: "'v lazy_pc list"
  ls_log :: "'v lazy_event list"

definition syncx_lazy_micro :: "'v \<Rightarrow> nat \<Rightarrow> 'v outcome \<Rightarrow> 'v lazy_sys \<Rightarrow> 'v lazy_sys option" where
  "syncx_lazy_micro zero i out s =
     (case ls_pcs s ! i of
        LGet \<Rightarrow>
          if ls_lock s \<noteq> None then None
          else (case syncx_Get_begin (ls_lazy s) of
                  Some (v, e) \<Rightarrow> Some (s\<lparr>ls_pcs := (ls_pcs s)[i := LReturn v e], ls_log := ls_log s @ [LzCached v]\<rparr>)
                | None \<Rightarrow> Some (s\<lparr>ls_lock := Some i, ls_pcs := (ls_pcs s)[i := LInit]\<rparr>))
      | LInit \<Rightarrow>
          (case syncx_Get_end zero out (ls_lazy s) of
             (l, v, e) \<Rightarrow>
               Some (s\<lparr>ls_lazy := l, ls_lock := None, ls_pcs := (ls_pcs s)[i := LReturn v e],
                      ls_log := ls_log s @ [case e of None \<Rightarrow> LzInit v | Some e \<Rightarrow> LzFail e]\<rparr>))
      | LReset \<Rightarrow>
          if ls_lock s \<noteq> None then None
          else Some (s\<lparr>ls_lazy := syncx_Reset zero (ls_lazy s), ls_pcs := (ls_pcs s)[i := LOver], ls_log := ls_log s @ [LzReset]\<rparr>)
      | LDone \<Rightarrow> if ls_lock s \<noteq> None then None else Some (s\<lparr>ls_pcs := (ls_pcs s)[i := LOver]\<rparr>)
      | _ \<Rightarrow> None)"

inductive syncx_lazy_reach :: "'v \<Rightarrow> 'v lazy_sys \<Rightarrow> bool" for zero where
  start: "syncx_NewLazy zero False = Inr l \<Longrightarrow> syncx_lazy_reach zero \<lparr>ls_lazy = l, ls_lock = None, ls_pcs = [], ls_log = []\<rparr>"
| spawn: "syncx_lazy_reach zero s \<Longrightarrow> pc \<in> {LGet, LReset, LDone} \<Longrightarrow> syncx_lazy_reach zero (s\<lparr>ls_pcs := ls_pcs s @ [pc]\<rparr>)"
| micro: "syncx_lazy_reach zero s \<Longrightarrow> i < length (ls_pcs s) \<Longrightarrow> syncx_lazy_micro zero i out s = Some s' \<Longrightarrow> syncx_lazy_reach zero s'"

text \<open>The value a log leaves, and a log in which every event fits what was before it.\<close>

definition lazy_spec :: "'v lazy_event list \<Rightarrow> 'v option" where
  "lazy_spec log = foldl (\<lambda>v ev. case ev of LzInit v \<Rightarrow> Some v | LzReset \<Rightarrow> None | _ \<Rightarrow> v) None log"

definition lazy_event_ok :: "'v option \<Rightarrow> 'v lazy_event \<Rightarrow> bool" where
  "lazy_event_ok cur ev = (case ev of LzInit v \<Rightarrow> cur = None | LzFail e \<Rightarrow> cur = None | LzCached v \<Rightarrow> cur = Some v | LzReset \<Rightarrow> True)"

definition lazy_log_ok :: "'v lazy_event list \<Rightarrow> bool" where
  "lazy_log_ok log \<longleftrightarrow> (\<forall>n<length log. lazy_event_ok (lazy_spec (take n log)) (log ! n))"

lemma lazy_spec_snoc: "lazy_spec (log @ [ev]) = (case ev of LzInit v \<Rightarrow> Some v | LzReset \<Rightarrow> None | _ \<Rightarrow> lazy_spec log)"
  by (cases ev) (simp_all add: lazy_spec_def)

lemma lazy_log_ok_snoc: "lazy_log_ok (log @ [ev]) \<longleftrightarrow> lazy_log_ok log \<and> lazy_event_ok (lazy_spec log) ev"
  by (auto simp: lazy_log_ok_def nth_append less_Suc_eq)

definition lazy_returned :: "'v lazy_event list \<Rightarrow> 'v \<Rightarrow> goerror \<Rightarrow> bool" where
  "lazy_returned log v err = (case err of None \<Rightarrow> LzInit v \<in> set log \<or> LzCached v \<in> set log | Some e \<Rightarrow> LzFail e \<in> set log)"

definition syncx_lazy_inv :: "'v \<Rightarrow> 'v lazy_sys \<Rightarrow> bool" where
  "syncx_lazy_inv zero s \<longleftrightarrow>
     lock_ok (\<lambda>pc. pc = LInit) (ls_lock s) (ls_pcs s) \<and> lazy_log_ok (ls_log s) \<and>
     lazy_spec (ls_log s) = (if lz_done (ls_lazy s) then Some (lz_val (ls_lazy s)) else None) \<and>
     (ls_lock s \<noteq> None \<longrightarrow> \<not> lz_done (ls_lazy s)) \<and>
     (\<forall>v e. LReturn v e \<in> set (ls_pcs s) \<longrightarrow> lazy_returned (ls_log s) v e)"

lemma lazy_returned_snoc: "lazy_returned log v e \<Longrightarrow> lazy_returned (log @ [ev]) v e"
  by (auto simp: lazy_returned_def split: option.splits)

lemma syncx_lazy_step:
  assumes "syncx_lazy_inv zero s" and "i < length (ls_pcs s)" and "syncx_lazy_micro zero i out s = Some s'"
  shows "syncx_lazy_inv zero s'"
proof -
  let ?P = "\<lambda>pc. pc = LInit"
  have lock: "lock_ok ?P (ls_lock s) (ls_pcs s)" and log: "lazy_log_ok (ls_log s)"
    and spec: "lazy_spec (ls_log s) = (if lz_done (ls_lazy s) then Some (lz_val (ls_lazy s)) else None)"
    and quiet: "ls_lock s \<noteq> None \<longrightarrow> \<not> lz_done (ls_lazy s)"
    and ret: "\<And>v e. LReturn v e \<in> set (ls_pcs s) \<Longrightarrow> lazy_returned (ls_log s) v e"
    using assms(1) by (auto simp: syncx_lazy_inv_def)
  have keep: "lazy_returned log v e"
    if "LReturn v e \<in> set ((ls_pcs s)[i := pc])" "\<And>v e. pc = LReturn v e \<Longrightarrow> lazy_returned log v e"
       "\<And>v e. lazy_returned (ls_log s) v e \<Longrightarrow> lazy_returned log v e" for v e pc log
    using that ret set_update_subset_insert [of "ls_pcs s" i pc] by blast
  show ?thesis
  proof (cases "ls_pcs s ! i")
    case LGet
    then have free: "ls_lock s = None" using assms(3) by (simp add: syncx_lazy_micro_def split: if_splits)
    show ?thesis
    proof (cases "lz_done (ls_lazy s)")
      case True
      let ?v = "lz_val (ls_lazy s)"
      have s': "s' = s\<lparr>ls_pcs := (ls_pcs s)[i := LReturn ?v None], ls_log := ls_log s @ [LzCached ?v]\<rparr>"
        using assms(3) LGet True by (simp add: syncx_lazy_micro_def syncx_Get_begin_def split: if_splits)
      have "lazy_returned (ls_log s @ [LzCached ?v]) v e" if "LReturn v e \<in> set ((ls_pcs s)[i := LReturn ?v None])" for v e
        by (rule keep [OF that]) (auto intro: lazy_returned_snoc simp: lazy_returned_def split: option.splits)
      then show ?thesis
        using lock_ok_keep [OF lock assms(2), of "LReturn ?v None"] log spec True LGet free
        by (simp add: s' syncx_lazy_inv_def lazy_log_ok_snoc lazy_spec_snoc lazy_event_ok_def)
    next
      case False
      have s': "s' = s\<lparr>ls_lock := Some i, ls_pcs := (ls_pcs s)[i := LInit]\<rparr>"
        using assms(3) LGet False by (simp add: syncx_lazy_micro_def syncx_Get_begin_def split: if_splits)
      have "lazy_returned (ls_log s) v e" if "LReturn v e \<in> set ((ls_pcs s)[i := LInit])" for v e
        by (rule keep [OF that]) simp_all
      then show ?thesis
        using lock_ok_acquire [OF _ assms(2), of ?P LInit] lock log spec False free by (simp add: s' syncx_lazy_inv_def)
    qed
  next
    case LInit
    have hold: "ls_lock s = Some i" by (rule lock_ok_holder [OF lock assms(2)]) (simp add: LInit)
    obtain l v e where out: "syncx_Get_end zero out (ls_lazy s) = (l, v, e)" by (rule prod_cases3)
    let ?ev = "case e of None \<Rightarrow> LzInit v | Some e \<Rightarrow> LzFail e"
    have s': "s' = s\<lparr>ls_lazy := l, ls_lock := None, ls_pcs := (ls_pcs s)[i := LReturn v e], ls_log := ls_log s @ [?ev]\<rparr>"
      using assms(3) LInit out by (simp add: syncx_lazy_micro_def)
    have "lazy_returned (ls_log s @ [?ev]) w x" if "LReturn w x \<in> set ((ls_pcs s)[i := LReturn v e])" for w x
      by (rule keep [OF that]) (auto intro: lazy_returned_snoc simp: lazy_returned_def split: option.splits)
    moreover have "l = (case e of None \<Rightarrow> (ls_lazy s)\<lparr>lz_val := v, lz_done := True\<rparr> | Some e \<Rightarrow> ls_lazy s)"
      using out by (auto simp: syncx_Get_end_def split: prod.splits option.splits)
    ultimately show ?thesis
      using lock_ok_release [OF lock assms(2), of "LReturn v e"] log spec quiet hold LInit
      by (cases e) (simp_all add: s' syncx_lazy_inv_def lazy_log_ok_snoc lazy_spec_snoc lazy_event_ok_def)
  next
    case LReset
    have s': "s' = s\<lparr>ls_lazy := syncx_Reset zero (ls_lazy s), ls_pcs := (ls_pcs s)[i := LOver], ls_log := ls_log s @ [LzReset]\<rparr>"
      and free: "ls_lock s = None"
      using assms(3) LReset by (simp_all add: syncx_lazy_micro_def split: if_splits)
    have "lazy_returned (ls_log s @ [LzReset]) v e" if "LReturn v e \<in> set ((ls_pcs s)[i := LOver])" for v e
      by (rule keep [OF that]) (auto intro: lazy_returned_snoc)
    then show ?thesis
      using lock_ok_keep [OF lock assms(2), of LOver] log spec LReset free
      by (simp add: s' syncx_lazy_inv_def lazy_log_ok_snoc lazy_spec_snoc lazy_event_ok_def syncx_Reset_def)
  next
    case LDone
    have s': "s' = s\<lparr>ls_pcs := (ls_pcs s)[i := LOver]\<rparr>"
      using assms(3) LDone by (simp add: syncx_lazy_micro_def split: if_splits)
    have "lazy_returned (ls_log s) v e" if "LReturn v e \<in> set ((ls_pcs s)[i := LOver])" for v e
      by (rule keep [OF that]) simp_all
    then show ?thesis
      using lock_ok_keep [OF lock assms(2), of LOver] log spec quiet LDone by (simp add: s' syncx_lazy_inv_def)
  qed (use assms(3) in \<open>simp_all add: syncx_lazy_micro_def\<close>)
qed

lemma syncx_lazy_reach_inv: "syncx_lazy_reach zero s \<Longrightarrow> syncx_lazy_inv zero s"
proof (induction rule: syncx_lazy_reach.induct)
  case (start l)
  then show ?case by (auto simp: syncx_NewLazy_def syncx_lazy_inv_def lock_ok_def lazy_log_ok_def lazy_spec_def)
next
  case (spawn s pc)
  then show ?case by (auto simp: syncx_lazy_inv_def intro: lock_ok_spawn)
next
  case (micro s i out s')
  then show ?case by (rule_tac syncx_lazy_step)
qed


text \<open>The errors of \<open>Get\<close>, and the composition of its two parts.\<close>

lemma syncx_Get_table:
  "syncx_Get zero out l =
     (if lz_done l then (l, lz_val l, None)
      else case out of
        Returns v None \<Rightarrow> (l\<lparr>lz_val := v, lz_done := True\<rparr>, v, None)
      | Returns v (Some e) \<Rightarrow> (l, zero, Some (if errors_As_PanicError e then e else Errorf ''%w: %w'' [syncx_ErrInitFailed, e]))
      | Panics r \<Rightarrow> (l, zero, Some (PanicError syncx_opLazy r)))"
  by (auto simp: syncx_Get_def syncx_Get_begin_def syncx_Get_end_def panix_Safe_def call_fn_def syncx_isPanic_def syncx_errInitFailed_def
      split: outcome.splits option.splits)

text \<open>Two goroutines get a value whose init fails once; the first runs it again.\<close>

definition lazy_demo :: "nat lazy_sys" where
  "lazy_demo = \<lparr>ls_lazy = \<lparr>lz_val = 4, lz_done = True\<rparr>, ls_lock = None, ls_pcs = [LReturn 0 (Some (syncx_errInitFailed (UserError 1))), LReturn 4 None, LReturn 4 None],
     ls_log = [LzFail (syncx_errInitFailed (UserError 1)), LzInit 4, LzCached 4]\<rparr>"

lemma lazy_demo_reach: "syncx_lazy_reach 0 lazy_demo"
proof -
  define s0 :: "nat lazy_sys" where "s0 = \<lparr>ls_lazy = \<lparr>lz_val = 0, lz_done = False\<rparr>, ls_lock = None, ls_pcs = [LGet, LGet, LGet], ls_log = []\<rparr>"
  define s1 where "s1 = s0\<lparr>ls_lock := Some 0, ls_pcs := [LInit, LGet, LGet]\<rparr>"
  define e where "e = syncx_errInitFailed (UserError 1)"
  define s2 where "s2 = s0\<lparr>ls_pcs := [LReturn 0 (Some e), LGet, LGet], ls_log := [LzFail e]\<rparr>"
  define s3 where "s3 = s2\<lparr>ls_lock := Some 1, ls_pcs := [LReturn 0 (Some e), LInit, LGet]\<rparr>"
  define s4 where "s4 = s2\<lparr>ls_lazy := \<lparr>lz_val = 4, lz_done = True\<rparr>, ls_pcs := [LReturn 0 (Some e), LReturn 4 None, LGet], ls_log := [LzFail e, LzInit 4]\<rparr>"
  note defs = s0_def s1_def s2_def s3_def s4_def syncx_lazy_micro_def syncx_Get_begin_def
  have "syncx_lazy_reach 0 \<lparr>ls_lazy = \<lparr>lz_val = 0, lz_done = False\<rparr>, ls_lock = None, ls_pcs = [], ls_log = []\<rparr>"
    by (rule syncx_lazy_reach.start) (simp add: syncx_NewLazy_def)
  from syncx_lazy_reach.spawn [OF syncx_lazy_reach.spawn [OF syncx_lazy_reach.spawn [OF this, of LGet], of LGet], of LGet]
  have 0: "syncx_lazy_reach 0 s0" by (simp add: s0_def)
  have 1: "syncx_lazy_reach 0 s1" by (rule syncx_lazy_reach.micro [OF 0, of 0]) (simp_all add: defs)
  have 2: "syncx_lazy_reach 0 s2"
    by (rule syncx_lazy_reach.micro [OF 1, of 0 "Returns 9 (Some (UserError 1))"])
      (simp_all add: defs syncx_Get_end_def panix_Safe_def call_fn_def e_def syncx_isPanic_def)
  have 3: "syncx_lazy_reach 0 s3" by (rule syncx_lazy_reach.micro [OF 2, of 1]) (simp_all add: defs)
  have 4: "syncx_lazy_reach 0 s4"
    by (rule syncx_lazy_reach.micro [OF 3, of 1 "Returns 4 None"]) (simp_all add: defs syncx_Get_end_def panix_Safe_def call_fn_def)
  show ?thesis by (rule syncx_lazy_reach.micro [OF 4, of 2]) (simp_all add: defs lazy_demo_def e_def)
qed


end
