(* ===== verification/Syncx_Map.thy ===== *)
theory Syncx_Map
  imports Syncx
begin

text \<open>
  Package \<open>syncx\<close>, part two: \<open>Map\<close> (\<open>src/syncx/map.go\<close>), a \<open>sync.Map\<close> with a counter of its entries. The mutating methods hold a mutex around
  their call of the \<open>sync.Map\<close> and their change of the counter, the reading ones do not, so that a reader can come between the two. A \<open>sync.Map\<close>
  is a map with atomic operations, as its documentation has it. Keys are of a type whose values are equal to themselves and can all be compared, and
  are not nil interfaces.
\<close>

subsection \<open>The methods\<close>

record ('k, 'v) syncx_Map =
  sm_m :: "'k \<Rightarrow> 'v option"
  sm_len :: int

text \<open>
  What the methods use of the type of the values: its zero value; which values, if it is an interface type, are the nil interface, for which the type
  assertion \<open>val.(V)\<close> panics; and \<open>==\<close> on values stored as \<open>any\<close>, \<open>None\<close> when it panics because their dynamic type cannot be compared.
\<close>

record 'v go_type =
  ty_zero :: 'v
  ty_nil :: "'v \<Rightarrow> bool"
  ty_eq :: "'v \<Rightarrow> 'v \<Rightarrow> bool option"

definition go_assert :: "'v go_type \<Rightarrow> 'v \<Rightarrow> bool \<Rightarrow> ('v \<times> bool) option" where
  "go_assert ty v ok = (if ty_nil ty v then None else Some (v, ok))"

definition syncmap_Swap :: "'k \<Rightarrow> 'v \<Rightarrow> ('k \<Rightarrow> 'v option) \<Rightarrow> ('k \<Rightarrow> 'v option) \<times> 'v option" where
  "syncmap_Swap k v m = (m(k \<mapsto> v), m k)"

definition syncmap_LoadAndDelete :: "'k \<Rightarrow> ('k \<Rightarrow> 'v option) \<Rightarrow> ('k \<Rightarrow> 'v option) \<times> 'v option" where
  "syncmap_LoadAndDelete k m = (m(k := None), m k)"

definition syncmap_LoadOrStore :: "'k \<Rightarrow> 'v \<Rightarrow> ('k \<Rightarrow> 'v option) \<Rightarrow> ('k \<Rightarrow> 'v option) \<times> 'v \<times> bool" where
  "syncmap_LoadOrStore k v m = (case m k of Some w \<Rightarrow> (m, w, True) | None \<Rightarrow> (m(k \<mapsto> v), v, False))"

text \<open>A value is compared with the one the map holds, if it holds one.\<close>

definition syncmap_CompareAndSwap ::
    "'v go_type \<Rightarrow> 'k \<Rightarrow> 'v \<Rightarrow> 'v \<Rightarrow> ('k \<Rightarrow> 'v option) \<Rightarrow> ('k \<Rightarrow> 'v option) \<times> bool option" where
  "syncmap_CompareAndSwap ty k old new m =
     (case m k of
        None \<Rightarrow> (m, Some False)
      | Some v \<Rightarrow> (if ty_eq ty v old = Some True then m(k \<mapsto> new) else m, ty_eq ty v old))"

definition syncmap_CompareAndDelete ::
    "'v go_type \<Rightarrow> 'k \<Rightarrow> 'v \<Rightarrow> ('k \<Rightarrow> 'v option) \<Rightarrow> ('k \<Rightarrow> 'v option) \<times> bool option" where
  "syncmap_CompareAndDelete ty k old m =
     (case m k of
        None \<Rightarrow> (m, Some False)
      | Some v \<Rightarrow> (if ty_eq ty v old = Some True then m(k := None) else m, ty_eq ty v old))"

definition syncx_NewMap :: "('k, 'v) syncx_Map" where
  "syncx_NewMap = \<lparr>sm_m = (\<lambda>_. None), sm_len = 0\<rparr>"

definition syncx_len_add :: "int \<Rightarrow> ('k, 'v) syncx_Map \<Rightarrow> ('k, 'v) syncx_Map" where
  "syncx_len_add d mp = mp\<lparr>sm_len := wrap_i64 (sm_len mp + d)\<rparr>"

text \<open>A result \<open>None\<close> is a panic; what the method did to the map and the counter before stays, and the deferred unlock runs.\<close>

definition syncx_Load :: "'v go_type \<Rightarrow> 'k \<Rightarrow> ('k, 'v) syncx_Map \<Rightarrow> ('v \<times> bool) option" where
  "syncx_Load ty k mp = (case sm_m mp k of None \<Rightarrow> Some (ty_zero ty, False) | Some v \<Rightarrow> go_assert ty v True)"

definition syncx_Store :: "'k \<Rightarrow> 'v \<Rightarrow> ('k, 'v) syncx_Map \<Rightarrow> ('k, 'v) syncx_Map" where
  "syncx_Store k v mp =
     (let (m, prev) = syncmap_Swap k v (sm_m mp); mp1 = mp\<lparr>sm_m := m\<rparr>
      in if prev = None then syncx_len_add 1 mp1 else mp1)"

definition syncx_Swap :: "'v go_type \<Rightarrow> 'k \<Rightarrow> 'v \<Rightarrow> ('k, 'v) syncx_Map \<Rightarrow> ('k, 'v) syncx_Map \<times> ('v \<times> bool) option" where
  "syncx_Swap ty k v mp =
     (let (m, prev) = syncmap_Swap k v (sm_m mp); mp1 = mp\<lparr>sm_m := m\<rparr>
      in case prev of None \<Rightarrow> (syncx_len_add 1 mp1, Some (ty_zero ty, False)) | Some w \<Rightarrow> (mp1, go_assert ty w True))"

definition syncx_Delete :: "'k \<Rightarrow> ('k, 'v) syncx_Map \<Rightarrow> ('k, 'v) syncx_Map" where
  "syncx_Delete k mp =
     (let (m, prev) = syncmap_LoadAndDelete k (sm_m mp); mp1 = mp\<lparr>sm_m := m\<rparr>
      in if prev \<noteq> None then syncx_len_add (- 1) mp1 else mp1)"

definition syncx_LoadAndDelete :: "'v go_type \<Rightarrow> 'k \<Rightarrow> ('k, 'v) syncx_Map \<Rightarrow> ('k, 'v) syncx_Map \<times> ('v \<times> bool) option" where
  "syncx_LoadAndDelete ty k mp =
     (let (m, prev) = syncmap_LoadAndDelete k (sm_m mp); mp1 = mp\<lparr>sm_m := m\<rparr>
      in case prev of None \<Rightarrow> (mp1, Some (ty_zero ty, False)) | Some w \<Rightarrow> (syncx_len_add (- 1) mp1, go_assert ty w True))"

definition syncx_LoadOrStore :: "'v go_type \<Rightarrow> 'k \<Rightarrow> 'v \<Rightarrow> ('k, 'v) syncx_Map \<Rightarrow> ('k, 'v) syncx_Map \<times> ('v \<times> bool) option" where
  "syncx_LoadOrStore ty k v mp =
     (let (m, w, loaded) = syncmap_LoadOrStore k v (sm_m mp); mp1 = mp\<lparr>sm_m := m\<rparr>
      in (if \<not> loaded then syncx_len_add 1 mp1 else mp1, go_assert ty w loaded))"

text \<open>The calls that \<open>Range\<close> makes for the pairs that the \<open>sync.Map\<close> yields, and whether it panics in the end.\<close>

fun syncx_Range :: "'v go_type \<Rightarrow> ('k \<Rightarrow> 'v \<Rightarrow> bool) \<Rightarrow> ('k \<times> 'v) list \<Rightarrow> ('k \<times> 'v) list \<times> bool" where
  "syncx_Range ty fn [] = ([], False)"
| "syncx_Range ty fn ((k, v) # kvs) =
     (if ty_nil ty v then ([], True)
      else if fn k v then (case syncx_Range ty fn kvs of (calls, panics) \<Rightarrow> ((k, v) # calls, panics))
      else ([(k, v)], False))"

definition syncx_Len :: "('k, 'v) syncx_Map \<Rightarrow> int" where "syncx_Len mp = sm_len mp"

definition syncx_CompareAndSwap :: "'v go_type \<Rightarrow> 'k \<Rightarrow> 'v \<Rightarrow> 'v \<Rightarrow> ('k, 'v) syncx_Map \<Rightarrow> ('k, 'v) syncx_Map \<times> bool option" where
  "syncx_CompareAndSwap ty k old new mp = (let (m, swapped) = syncmap_CompareAndSwap ty k old new (sm_m mp) in (mp\<lparr>sm_m := m\<rparr>, swapped))"

definition syncx_CompareAndDelete :: "'v go_type \<Rightarrow> 'k \<Rightarrow> 'v \<Rightarrow> ('k, 'v) syncx_Map \<Rightarrow> ('k, 'v) syncx_Map \<times> bool option" where
  "syncx_CompareAndDelete ty k old mp =
     (let (m, deleted) = syncmap_CompareAndDelete ty k old (sm_m mp); mp1 = mp\<lparr>sm_m := m\<rparr>
      in (if deleted = Some True then syncx_len_add (- 1) mp1 else mp1, deleted))"

definition syncx_Clear :: "('k, 'v) syncx_Map \<Rightarrow> ('k, 'v) syncx_Map" where
  "syncx_Clear mp = mp\<lparr>sm_m := (\<lambda>_. None), sm_len := 0\<rparr>"

subsection \<open>Calls\<close>

text \<open>A call of a mutating method and its result, and what the method does to the map and to the counter.\<close>

datatype ('k, 'v) map_call =
    MStore 'k 'v | MSwap 'k 'v | MDelete 'k | MLoadAndDelete 'k | MLoadOrStore 'k 'v | MCompareAndSwap 'k 'v 'v | MCompareAndDelete 'k 'v | MClear

datatype 'v map_result = RVoid | RValue 'v bool | RBool bool | RPanic

definition map_value :: "('v \<times> bool) option \<Rightarrow> 'v map_result" where
  "map_value r = (case r of Some (v, ok) \<Rightarrow> RValue v ok | None \<Rightarrow> RPanic)"

definition map_bool :: "bool option \<Rightarrow> 'v map_result" where
  "map_bool r = (case r of Some ok \<Rightarrow> RBool ok | None \<Rightarrow> RPanic)"

datatype map_effect = LenAdd int | LenZero

definition syncx_call :: "'v go_type \<Rightarrow> ('k, 'v) map_call \<Rightarrow> ('k, 'v) syncx_Map \<Rightarrow> ('k, 'v) syncx_Map \<times> 'v map_result" where
  "syncx_call ty c mp =
     (case c of
        MStore k v \<Rightarrow> (syncx_Store k v mp, RVoid)
      | MSwap k v \<Rightarrow> map_prod id map_value (syncx_Swap ty k v mp)
      | MDelete k \<Rightarrow> (syncx_Delete k mp, RVoid)
      | MLoadAndDelete k \<Rightarrow> map_prod id map_value (syncx_LoadAndDelete ty k mp)
      | MLoadOrStore k v \<Rightarrow> map_prod id map_value (syncx_LoadOrStore ty k v mp)
      | MCompareAndSwap k old new \<Rightarrow> map_prod id map_bool (syncx_CompareAndSwap ty k old new mp)
      | MCompareAndDelete k old \<Rightarrow> map_prod id map_bool (syncx_CompareAndDelete ty k old mp)
      | MClear \<Rightarrow> (syncx_Clear mp, RVoid))"

definition syncx_mutate ::
    "'v go_type \<Rightarrow> ('k, 'v) map_call \<Rightarrow> ('k \<Rightarrow> 'v option) \<Rightarrow> ('k \<Rightarrow> 'v option) \<times> map_effect \<times> 'v map_result" where
  "syncx_mutate ty c m =
     (case c of
        MStore k v \<Rightarrow> (case syncmap_Swap k v m of (m1, prev) \<Rightarrow> (m1, LenAdd (if prev = None then 1 else 0), RVoid))
      | MSwap k v \<Rightarrow>
          (case syncmap_Swap k v m of
             (m1, None) \<Rightarrow> (m1, LenAdd 1, RValue (ty_zero ty) False)
           | (m1, Some w) \<Rightarrow> (m1, LenAdd 0, map_value (go_assert ty w True)))
      | MDelete k \<Rightarrow> (case syncmap_LoadAndDelete k m of (m1, prev) \<Rightarrow> (m1, LenAdd (if prev = None then 0 else - 1), RVoid))
      | MLoadAndDelete k \<Rightarrow>
          (case syncmap_LoadAndDelete k m of
             (m1, None) \<Rightarrow> (m1, LenAdd 0, RValue (ty_zero ty) False)
           | (m1, Some w) \<Rightarrow> (m1, LenAdd (- 1), map_value (go_assert ty w True)))
      | MLoadOrStore k v \<Rightarrow>
          (case syncmap_LoadOrStore k v m of (m1, w, loaded) \<Rightarrow> (m1, LenAdd (if loaded then 0 else 1), map_value (go_assert ty w loaded)))
      | MCompareAndSwap k old new \<Rightarrow> (case syncmap_CompareAndSwap ty k old new m of (m1, ok) \<Rightarrow> (m1, LenAdd 0, map_bool ok))
      | MCompareAndDelete k old \<Rightarrow>
          (case syncmap_CompareAndDelete ty k old m of (m1, ok) \<Rightarrow> (m1, LenAdd (if ok = Some True then - 1 else 0), map_bool ok))
      | MClear \<Rightarrow> (\<lambda>_. None, LenZero, RVoid))"

definition syncx_count :: "map_effect \<Rightarrow> int \<Rightarrow> int" where
  "syncx_count eff n = (case eff of LenAdd d \<Rightarrow> if d = 0 then n else wrap_i64 (n + d) | LenZero \<Rightarrow> 0)"

lemmas syncx_map_defs = syncx_call_def syncx_mutate_def syncx_count_def syncx_len_add_def syncx_Store_def syncx_Swap_def syncx_Delete_def
  syncx_LoadAndDelete_def syncx_LoadOrStore_def syncx_CompareAndSwap_def syncx_CompareAndDelete_def syncx_Clear_def syncmap_Swap_def
  syncmap_LoadAndDelete_def syncmap_LoadOrStore_def syncmap_CompareAndSwap_def syncmap_CompareAndDelete_def map_value_def map_bool_def

text \<open>The two halves of a method make up the method.\<close>

lemma syncx_call_halves:
  "syncx_call ty c mp = (case syncx_mutate ty c (sm_m mp) of (m, eff, r) \<Rightarrow> (\<lparr>sm_m = m, sm_len = syncx_count eff (sm_len mp)\<rparr>, r))"
  by (cases c; cases mp) (auto simp: syncx_map_defs split: option.splits)

lemma card_dom_put: "finite (dom m) \<Longrightarrow> int (card (dom (m(k \<mapsto> v)))) = int (card (dom m)) + (if m k = None then 1 else 0)"
  by (auto simp: card_insert_if)

lemma card_dom_drop: "finite (dom m) \<Longrightarrow> int (card (dom (m(k := None)))) = int (card (dom m)) - (if m k = None then 0 else 1)"
proof -
  assume fin: "finite (dom m)"
  then have "card (dom m) > 0" if "m k \<noteq> None" using that card_gt_0_iff [of "dom m"] by blast
  with fin show ?thesis by (auto simp: card_Diff_singleton_if of_nat_diff)
qed

lemma syncx_mutate_effect:
  assumes "finite (dom m)" and "syncx_mutate ty c m = (m1, eff, r)"
  shows "finite (dom m1)" and "case eff of LenAdd d \<Rightarrow> int (card (dom m1)) = int (card (dom m)) + d \<and> \<bar>d\<bar> \<le> 1 | LenZero \<Rightarrow> dom m1 = {}"
proof -
  note defs = syncx_mutate_def syncmap_Swap_def syncmap_LoadAndDelete_def syncmap_LoadOrStore_def syncmap_CompareAndSwap_def
    syncmap_CompareAndDelete_def
  note put = card_dom_put [OF assms(1)] and drop = card_dom_drop [OF assms(1)]
  show "finite (dom m1)"
    using assms by (cases c) (auto simp: defs split: option.splits if_splits)
  show "case eff of LenAdd d \<Rightarrow> int (card (dom m1)) = int (card (dom m)) + d \<and> \<bar>d\<bar> \<le> 1 | LenZero \<Rightarrow> dom m1 = {}"
    using assms(2) by (cases c) (auto simp: defs put drop simp del: dom_fun_upd split: option.splits if_splits)
qed

subsection \<open>Interleavings\<close>

text \<open>
  Goroutines that call the methods of one map. The log is a ghost: the calls in the order of their accesses to the \<open>sync.Map\<close>, with their results.
\<close>

datatype ('k, 'v) map_pc =
    MWait "('k, 'v) map_call"
  | MLocked "('k, 'v) map_call"
  | MHeld "('k, 'v) map_call" map_effect "'v map_result"
  | MDone "('k, 'v) map_call" "'v map_result"
  | MLoad 'k
  | MLen
  | MLoaded "('v \<times> bool) option"
  | MLength int

record ('k, 'v) map_sys =
  ms_map :: "('k, 'v) syncx_Map"
  ms_lock :: "nat option"
  ms_pcs :: "('k, 'v) map_pc list"
  ms_log :: "(('k, 'v) map_call \<times> 'v map_result) list"

definition syncx_map_micro :: "'v go_type \<Rightarrow> nat \<Rightarrow> ('k, 'v) map_sys \<Rightarrow> ('k, 'v) map_sys option" where
  "syncx_map_micro ty i s =
     (let mp = ms_map s; at = (\<lambda>pc. (ms_pcs s)[i := pc]) in
      case ms_pcs s ! i of
        MWait c \<Rightarrow> if ms_lock s = None then Some (s\<lparr>ms_lock := Some i, ms_pcs := at (MLocked c)\<rparr>) else None
      | MLocked c \<Rightarrow>
          (case syncx_mutate ty c (sm_m mp) of
             (m, eff, r) \<Rightarrow> Some (s\<lparr>ms_map := mp\<lparr>sm_m := m\<rparr>, ms_pcs := at (MHeld c eff r), ms_log := ms_log s @ [(c, r)]\<rparr>))
      | MHeld c eff r \<Rightarrow>
          Some (s\<lparr>ms_map := mp\<lparr>sm_len := syncx_count eff (sm_len mp)\<rparr>, ms_lock := None, ms_pcs := at (MDone c r)\<rparr>)
      | MLoad k \<Rightarrow> Some (s\<lparr>ms_pcs := at (MLoaded (syncx_Load ty k mp))\<rparr>)
      | MLen \<Rightarrow> Some (s\<lparr>ms_pcs := at (MLength (syncx_Len mp))\<rparr>)
      | _ \<Rightarrow> None)"

definition map_starts :: "('k, 'v) map_pc \<Rightarrow> bool" where
  "map_starts pc = (case pc of MWait c \<Rightarrow> True | MLoad k \<Rightarrow> True | MLen \<Rightarrow> True | _ \<Rightarrow> False)"

inductive syncx_map_reach :: "'v go_type \<Rightarrow> ('k, 'v) map_sys \<Rightarrow> bool" for ty where
  start: "syncx_map_reach ty \<lparr>ms_map = syncx_NewMap, ms_lock = None, ms_pcs = [], ms_log = []\<rparr>"
| spawn: "syncx_map_reach ty s \<Longrightarrow> map_starts pc \<Longrightarrow> syncx_map_reach ty (s\<lparr>ms_pcs := ms_pcs s @ [pc]\<rparr>)"
| micro: "syncx_map_reach ty s \<Longrightarrow> i < length (ms_pcs s) \<Longrightarrow> syncx_map_micro ty i s = Some s' \<Longrightarrow> syncx_map_reach ty s'"

text \<open>The calls of a log, made one after the other on a new map.\<close>

fun syncx_calls :: "'v go_type \<Rightarrow> ('k, 'v) map_call list \<Rightarrow> ('k, 'v) syncx_Map \<Rightarrow> ('k, 'v) syncx_Map \<times> 'v map_result list" where
  "syncx_calls ty [] mp = (mp, [])"
| "syncx_calls ty (c # cs) mp =
     (case syncx_call ty c mp of (mp1, r) \<Rightarrow> (case syncx_calls ty cs mp1 of (mp2, rs) \<Rightarrow> (mp2, r # rs)))"

lemma syncx_calls_snoc:
  "syncx_calls ty (cs @ [c]) mp =
     (case syncx_calls ty cs mp of (mp1, rs) \<Rightarrow> (case syncx_call ty c mp1 of (mp2, r) \<Rightarrow> (mp2, rs @ [r])))"
  by (induction cs arbitrary: mp) (simp_all split: prod.splits)

definition map_holds :: "('k, 'v) map_pc \<Rightarrow> bool" where
  "map_holds pc = (case pc of MLocked c \<Rightarrow> True | MHeld c eff r \<Rightarrow> True | _ \<Rightarrow> False)"

text \<open>What the counter still lacks.\<close>

definition map_pending :: "('k, 'v) map_sys \<Rightarrow> map_effect" where
  "map_pending s =
     (case ms_lock s of
        None \<Rightarrow> LenAdd 0
      | Some i \<Rightarrow> (case ms_pcs s ! i of MHeld c eff r \<Rightarrow> eff | _ \<Rightarrow> LenAdd 0))"

definition map_entries :: "('k, 'v) map_sys \<Rightarrow> int" where
  "map_entries s = int (card (dom (sm_m (ms_map s))))"

definition map_counted :: "('k, 'v) map_sys \<Rightarrow> bool" where
  "map_counted s =
     (case map_pending s of
        LenAdd d \<Rightarrow> \<bar>d\<bar> \<le> 1 \<and> sm_len (ms_map s) = wrap_i64 (map_entries s - d)
      | LenZero \<Rightarrow> dom (sm_m (ms_map s)) = {})"

definition map_replayed :: "'v go_type \<Rightarrow> ('k, 'v) map_sys \<Rightarrow> bool" where
  "map_replayed ty s \<longleftrightarrow>
     syncx_calls ty (map fst (ms_log s)) syncx_NewMap =
       (\<lparr>sm_m = sm_m (ms_map s), sm_len = syncx_count (map_pending s) (sm_len (ms_map s))\<rparr>, map snd (ms_log s))"

definition map_done_ok :: "('k, 'v) map_sys \<Rightarrow> bool" where
  "map_done_ok s \<longleftrightarrow> (\<forall>c r. MDone c r \<in> set (ms_pcs s) \<or> (\<exists>eff. MHeld c eff r \<in> set (ms_pcs s)) \<longrightarrow> (c, r) \<in> set (ms_log s))"

definition syncx_map_inv :: "'v go_type \<Rightarrow> ('k, 'v) map_sys \<Rightarrow> bool" where
  "syncx_map_inv ty s \<longleftrightarrow>
     lock_ok map_holds (ms_lock s) (ms_pcs s) \<and> finite (dom (sm_m (ms_map s))) \<and> map_counted s \<and> map_replayed ty s \<and> map_done_ok s"

lemma syncx_count_none [simp]: "syncx_count (LenAdd 0) n = n"
  by (simp add: syncx_count_def)

lemma syncx_count_settles:
  assumes "case eff of LenAdd d \<Rightarrow> \<bar>d\<bar> \<le> 1 \<and> n = wrap_i64 (x - d) | LenZero \<Rightarrow> x = 0"
  shows "syncx_count eff n = wrap_i64 x"
  using assms by (cases eff) (auto simp: syncx_count_def wrap_i64_plus)

lemma map_pending_other:
  assumes "lock_ok map_holds (ms_lock s) (ms_pcs s)" and "i < length (ms_pcs s)" and "\<not> map_holds (ms_pcs s ! i)"
  shows "map_pending (s\<lparr>ms_pcs := (ms_pcs s)[i := pc]\<rparr>) = map_pending s"
proof -
  have "i \<noteq> j" if "ms_lock s = Some j" for j using assms that by (auto simp: lock_ok_def)
  then show ?thesis by (simp add: map_pending_def split: option.splits)
qed

text \<open>A step that changes neither the map nor what is pending.\<close>

lemma map_same:
  assumes "ms_map s' = ms_map s" and "ms_log s' = ms_log s" and "map_pending s' = map_pending s"
  shows "map_counted s' = map_counted s" and "map_replayed ty s' = map_replayed ty s"
  by (simp_all add: map_counted_def map_replayed_def map_entries_def assms cong: map_effect.case_cong)

lemma map_done_ok_update:
  assumes "map_done_ok s" and "ms_pcs s' = (ms_pcs s)[i := pc]" and "set (ms_log s) \<subseteq> set (ms_log s')"
    and "\<And>c r. pc = MDone c r \<or> (\<exists>eff. pc = MHeld c eff r) \<Longrightarrow> (c, r) \<in> set (ms_log s')"
  shows "map_done_ok s'"
  unfolding map_done_ok_def
proof (intro allI impI)
  fix c r
  assume "MDone c r \<in> set (ms_pcs s') \<or> (\<exists>eff. MHeld c eff r \<in> set (ms_pcs s'))"
  then consider "pc = MDone c r \<or> (\<exists>eff. pc = MHeld c eff r)" | "MDone c r \<in> set (ms_pcs s) \<or> (\<exists>eff. MHeld c eff r \<in> set (ms_pcs s))"
    using set_update_subset_insert [of "ms_pcs s" i pc] unfolding assms(2) by blast
  then show "(c, r) \<in> set (ms_log s')"
    using assms(1,3,4) unfolding map_done_ok_def by cases blast+
qed

lemma syncx_map_aside:
  assumes "syncx_map_inv ty s" and "i < length (ms_pcs s)" and "\<not> map_holds (ms_pcs s ! i)" and "\<not> map_holds pc" and "\<And>c r. pc \<noteq> MDone c r"
  shows "syncx_map_inv ty (s\<lparr>ms_pcs := (ms_pcs s)[i := pc]\<rparr>)" (is "syncx_map_inv ty ?s")
proof -
  have lock: "lock_ok map_holds (ms_lock s) (ms_pcs s)" using assms(1) by (simp add: syncx_map_inv_def)
  have "map_done_ok ?s"
    by (rule map_done_ok_update [of s _ i pc]) (use assms in \<open>auto simp: syncx_map_inv_def map_holds_def\<close>)
  then show ?thesis
    using assms(1) lock_ok_keep [OF lock assms(2), of pc] assms(3,4) map_same [of ?s s] map_pending_other [OF lock assms(2,3)]
    by (simp add: syncx_map_inv_def)
qed

lemma syncx_map_acquire:
  assumes "syncx_map_inv ty s" and "i < length (ms_pcs s)" and "ms_lock s = None"
  shows "syncx_map_inv ty (s\<lparr>ms_lock := Some i, ms_pcs := (ms_pcs s)[i := MLocked c]\<rparr>)" (is "syncx_map_inv ty ?s")
proof -
  have lock: "lock_ok map_holds None (ms_pcs s)" using assms(1,3) by (simp add: syncx_map_inv_def)
  have "map_pending ?s = map_pending s" using assms(2,3) by (simp add: map_pending_def)
  moreover have "map_done_ok ?s"
    by (rule map_done_ok_update [of s _ i "MLocked c"]) (use assms(1) in \<open>simp_all add: syncx_map_inv_def\<close>)
  ultimately show ?thesis
    using assms(1) lock_ok_acquire [OF lock assms(2), of "MLocked c"] map_same [of ?s s]
    by (simp add: syncx_map_inv_def map_holds_def)
qed

lemma syncx_map_apply:
  assumes "syncx_map_inv ty s" and "i < length (ms_pcs s)" and "ms_pcs s ! i = MLocked c"
    and "syncx_mutate ty c (sm_m (ms_map s)) = (m, eff, r)"
  shows "syncx_map_inv ty (s\<lparr>ms_map := (ms_map s)\<lparr>sm_m := m\<rparr>, ms_pcs := (ms_pcs s)[i := MHeld c eff r], ms_log := ms_log s @ [(c, r)]\<rparr>)"
    (is "syncx_map_inv ty ?s")
proof -
  have lock: "lock_ok map_holds (ms_lock s) (ms_pcs s)" and fin: "finite (dom (sm_m (ms_map s)))" using assms(1) by (simp_all add: syncx_map_inv_def)
  have hold: "ms_lock s = Some i" by (rule lock_ok_holder [OF lock assms(2)]) (simp add: assms(3) map_holds_def)
  have pending: "map_pending s = LenAdd 0" "map_pending ?s = eff" using hold assms(2,3) by (simp_all add: map_pending_def)
  note effect = syncx_mutate_effect [OF fin assms(4)]
  have "sm_len (ms_map s) = wrap_i64 (map_entries s)" using assms(1) pending(1) by (simp add: syncx_map_inv_def map_counted_def)
  then have "map_counted ?s"
    using effect(2) unfolding map_counted_def pending(2) by (cases eff) (simp_all add: map_entries_def)
  moreover have "map_replayed ty ?s"
    using assms(1,4) pending by (simp add: syncx_map_inv_def map_replayed_def syncx_calls_snoc syncx_call_halves)
  moreover have "map_done_ok ?s"
    by (rule map_done_ok_update [of s _ i "MHeld c eff r"]) (use assms(1) in \<open>auto simp: syncx_map_inv_def\<close>)
  moreover have "lock_ok map_holds (ms_lock s) ((ms_pcs s)[i := MHeld c eff r])"
    by (rule lock_ok_keep [OF lock assms(2)]) (simp add: assms(3) map_holds_def)
  ultimately show ?thesis unfolding syncx_map_inv_def using effect(1) by simp
qed

lemma syncx_map_release:
  assumes "syncx_map_inv ty s" and "i < length (ms_pcs s)" and "ms_pcs s ! i = MHeld c eff r"
  shows "syncx_map_inv ty (s\<lparr>ms_map := (ms_map s)\<lparr>sm_len := syncx_count eff (sm_len (ms_map s))\<rparr>, ms_lock := None,
    ms_pcs := (ms_pcs s)[i := MDone c r]\<rparr>)"
    (is "syncx_map_inv ty ?s")
proof -
  have lock: "lock_ok map_holds (ms_lock s) (ms_pcs s)" using assms(1) by (simp add: syncx_map_inv_def)
  have hold: "ms_lock s = Some i" by (rule lock_ok_holder [OF lock assms(2)]) (simp add: assms(3) map_holds_def)
  have pending: "map_pending s = eff" "map_pending ?s = LenAdd 0" using hold assms(3) by (simp_all add: map_pending_def)
  have "syncx_count eff (sm_len (ms_map s)) = wrap_i64 (map_entries s)"
    by (rule syncx_count_settles) (use assms(1) pending(1) in \<open>auto simp: syncx_map_inv_def map_counted_def map_entries_def split: map_effect.splits\<close>)
  then have "map_counted ?s" unfolding map_counted_def pending(2) by (simp add: map_entries_def)
  moreover have "map_replayed ty ?s"
    using assms(1) pending by (simp add: syncx_map_inv_def map_replayed_def)
  moreover have logged: "(c, r) \<in> set (ms_log s)"
    using assms(1,3) nth_mem [OF assms(2)] unfolding syncx_map_inv_def map_done_ok_def by metis
  have "map_done_ok ?s"
    by (rule map_done_ok_update [of s _ i "MDone c r"]) (use assms(1) logged in \<open>auto simp: syncx_map_inv_def\<close>)
  moreover have "lock_ok map_holds None ((ms_pcs s)[i := MDone c r])"
    by (rule lock_ok_release [OF lock assms(2)]) (simp_all add: assms(3) map_holds_def)
  ultimately show ?thesis using assms(1) by (simp add: syncx_map_inv_def)
qed

lemma syncx_map_step:
  assumes "syncx_map_inv ty s" and "i < length (ms_pcs s)" and "syncx_map_micro ty i s = Some s'"
  shows "syncx_map_inv ty s'"
proof (cases "ms_pcs s ! i")
  case (MWait c)
  then show ?thesis using syncx_map_acquire [OF assms(1,2)] assms(3) by (auto simp: syncx_map_micro_def Let_def split: if_splits)
next
  case (MLocked c)
  obtain m eff r where "syncx_mutate ty c (sm_m (ms_map s)) = (m, eff, r)" by (rule prod_cases3)
  then show ?thesis using syncx_map_apply [OF assms(1,2) MLocked] assms(3) MLocked by (simp add: syncx_map_micro_def Let_def)
next
  case (MHeld c eff r)
  then show ?thesis using syncx_map_release [OF assms(1,2) MHeld] assms(3) by (simp add: syncx_map_micro_def Let_def)
next
  case (MLoad k)
  then show ?thesis
    using syncx_map_aside [OF assms(1,2)] assms(3) by (auto simp: syncx_map_micro_def Let_def map_holds_def split: prod.splits)
next
  case MLen
  then show ?thesis using syncx_map_aside [OF assms(1,2)] assms(3) by (auto simp: syncx_map_micro_def Let_def map_holds_def)
qed (use assms(3) in \<open>simp_all add: syncx_map_micro_def Let_def\<close>)

lemma syncx_map_reach_inv: "syncx_map_reach ty s \<Longrightarrow> syncx_map_inv ty s"
proof (induction rule: syncx_map_reach.induct)
  case start
  show ?case
    by (simp add: syncx_map_inv_def lock_ok_def syncx_NewMap_def map_pending_def map_entries_def syncx_count_def map_counted_def map_replayed_def
        map_done_ok_def)
next
  case (spawn s pc)
  let ?s = "s\<lparr>ms_pcs := ms_pcs s @ [pc]\<rparr>"
  have "map_pending ?s = map_pending s"
    using spawn.IH by (auto simp: map_pending_def syncx_map_inv_def lock_ok_def nth_append split: option.splits)
  moreover have "lock_ok map_holds (ms_lock s) (ms_pcs s @ [pc])"
    using spawn.IH spawn.hyps(2) by (intro lock_ok_spawn) (auto simp: syncx_map_inv_def map_starts_def map_holds_def split: map_pc.splits)
  moreover have "map_done_ok ?s" using spawn.IH spawn.hyps(2) by (auto simp: syncx_map_inv_def map_done_ok_def map_starts_def)
  ultimately show ?case using spawn.IH map_same [of ?s s] by (simp add: syncx_map_inv_def)
next
  case (micro s i s')
  then show ?case by (rule_tac syncx_map_step)
qed

subsection \<open>The map and its length\<close>

text \<open>
  C36: the concurrent map. Under every interleaving of its methods there is one order of the mutating calls in which, made one after the other on a
  new map, they have the results the goroutines get, panics among them, and leave the contents the map has now, and that every call that returned
  or panicked is part of. The counter is the number of entries whenever no mutation is under way, whatever panicked before; a concurrent \<open>Len\<close> is
  off by at most one, unless it runs inside a \<open>Clear\<close>.
\<close>

theorem syncx_Map_linear:
  assumes "syncx_map_reach ty s"
  shows "(\<exists>mp. syncx_calls ty (map fst (ms_log s)) syncx_NewMap = (mp, map snd (ms_log s)) \<and> sm_m mp = sm_m (ms_map s) \<and>
      (ms_lock s = None \<longrightarrow> mp = ms_map s)) \<and>
    (\<forall>c r. MDone c r \<in> set (ms_pcs s) \<longrightarrow> (c, r) \<in> set (ms_log s)) \<and>
    (ms_lock s = None \<longrightarrow> syncx_Len (ms_map s) = wrap_i64 (int (card (dom (sm_m (ms_map s)))))) \<and>
    ((\<forall>c r. MHeld c LenZero r \<notin> set (ms_pcs s)) \<longrightarrow>
      (\<exists>d. \<bar>d\<bar> \<le> 1 \<and> syncx_Len (ms_map s) = wrap_i64 (int (card (dom (sm_m (ms_map s)))) + d)))"
proof -
  have inv: "syncx_map_inv ty s" by (rule syncx_map_reach_inv [OF assms])
  then have calls: "map_replayed ty s" and counted: "map_counted s" and lock: "lock_ok map_holds (ms_lock s) (ms_pcs s)"
    by (simp_all add: syncx_map_inv_def)
  have quiet: "map_pending s = LenAdd 0" if "ms_lock s = None" using that by (simp add: map_pending_def)
  have near: "\<exists>d. \<bar>d\<bar> \<le> 1 \<and> sm_len (ms_map s) = wrap_i64 (map_entries s + d)" if "map_pending s = LenAdd d" for d
    using counted that by (intro exI [of _ "- d"]) (simp add: map_counted_def)
  have clearing: "\<exists>c r. MHeld c LenZero r \<in> set (ms_pcs s)" if ty: "map_pending s = LenZero"
  proof (cases "ms_lock s")
    case (Some i)
    then have "i < length (ms_pcs s)" using lock by (simp add: lock_ok_def)
    moreover obtain c r where "ms_pcs s ! i = MHeld c LenZero r"
      using ty Some by (auto simp: map_pending_def split: map_pc.splits)
    ultimately show ?thesis by (metis nth_mem)
  qed (use ty in \<open>simp add: map_pending_def\<close>)
  have "\<exists>d. \<bar>d\<bar> \<le> 1 \<and> sm_len (ms_map s) = wrap_i64 (map_entries s + d)" if "\<forall>c r. MHeld c LenZero r \<notin> set (ms_pcs s)"
    using that near clearing by (cases "map_pending s") blast+
  moreover have "sm_len (ms_map s) = wrap_i64 (map_entries s)" if "ms_lock s = None"
    using counted quiet [OF that] by (simp add: map_counted_def)
  moreover have "\<exists>mp. syncx_calls ty (map fst (ms_log s)) syncx_NewMap = (mp, map snd (ms_log s)) \<and> sm_m mp = sm_m (ms_map s) \<and>
      (ms_lock s = None \<longrightarrow> mp = ms_map s)"
    using calls quiet unfolding map_replayed_def by (intro exI conjI) (assumption | simp)+
  ultimately show ?thesis using inv unfolding syncx_Len_def map_entries_def by (simp add: syncx_map_inv_def map_done_ok_def)
qed

text \<open>
  A nil interface value is stored but cannot be got back: with an interface type \<open>V\<close> a \<open>Load\<close>, \<open>Swap\<close> or \<open>LoadAndDelete\<close> of a key that holds one
  panics, the last two after changing the map, and \<open>LoadOrStore\<close> panics even for the nil value it has just stored.
\<close>

lemma syncx_nil_value_panics:
  assumes "ty_nil ty v"
  shows "syncx_Load ty k (syncx_Store k v mp) = None"
    and "syncx_LoadAndDelete ty k (syncx_Store k v syncx_NewMap) = (syncx_NewMap, None)"
    and "snd (syncx_Swap ty k w (syncx_Store k v mp)) = None"
    and "syncx_LoadOrStore ty k v syncx_NewMap = (syncx_Store k v syncx_NewMap, None)"
    and "syncx_Range ty fn [(k, v)] = ([], True)"
  using assms
  by (simp_all add: syncx_map_defs syncx_Load_def go_assert_def syncx_NewMap_def wrap_i64_def fun_eq_iff Let_def split: option.split)

text \<open>A \<open>Len\<close> between the two halves of a \<open>Store\<close>, in a map of values of which the number 0 stands for nil.\<close>

definition map_demo_type :: "nat go_type" where
  "map_demo_type = \<lparr>ty_zero = 0, ty_nil = (\<lambda>v. v = 0), ty_eq = (\<lambda>v w. Some (v = w))\<rparr>"

definition map_demo :: "(nat, nat) map_sys" where
  "map_demo = \<lparr>ms_map = \<lparr>sm_m = [1 \<mapsto> 5], sm_len = 0\<rparr>, ms_lock = Some 0, ms_pcs = [MHeld (MStore 1 5) (LenAdd 1) RVoid, MLength 0],
     ms_log = [(MStore 1 5, RVoid)]\<rparr>"

lemma map_demo_reach: "syncx_map_reach map_demo_type map_demo"
proof -
  define s0 :: "(nat, nat) map_sys" where "s0 = \<lparr>ms_map = syncx_NewMap, ms_lock = None, ms_pcs = [MWait (MStore 1 5), MLen], ms_log = []\<rparr>"
  define s1 where "s1 = s0\<lparr>ms_lock := Some 0, ms_pcs := [MLocked (MStore 1 5), MLen]\<rparr>"
  define s2 where "s2 = map_demo\<lparr>ms_pcs := [MHeld (MStore 1 5) (LenAdd 1) RVoid, MLen]\<rparr>"
  note defs = s0_def s1_def s2_def map_demo_def syncx_map_micro_def Let_def syncx_NewMap_def
  from syncx_map_reach.spawn [OF syncx_map_reach.spawn [OF syncx_map_reach.start, of "MWait (MStore (1::nat) (5::nat))" map_demo_type], of MLen]
  have 0: "syncx_map_reach map_demo_type s0" by (simp add: s0_def map_starts_def flip: One_nat_def)
  have 1: "syncx_map_reach map_demo_type s1" by (rule syncx_map_reach.micro [OF 0, of 0]) (simp_all add: defs)
  have 2: "syncx_map_reach map_demo_type s2" by (rule syncx_map_reach.micro [OF 1, of 0]) (simp_all add: defs syncx_mutate_def syncmap_Swap_def)
  show ?thesis by (rule syncx_map_reach.micro [OF 2, of 1]) (simp_all add: defs syncx_Len_def)
qed

theorem syncx_Map_linear_witness:
  "syncx_map_reach map_demo_type map_demo \<and> (\<exists>mp. syncx_calls map_demo_type [MStore 1 5] syncx_NewMap = (mp, [RVoid]) \<and> sm_m mp = [1 \<mapsto> (5::nat)] \<and> sm_len mp \<noteq> syncx_Len (ms_map map_demo))"
proof
  have "\<exists>mp. syncx_calls map_demo_type (map fst (ms_log map_demo)) syncx_NewMap = (mp, map snd (ms_log map_demo)) \<and> sm_m mp = sm_m (ms_map map_demo)"
    using syncx_Map_linear [OF map_demo_reach] by blast
  then show "\<exists>mp. syncx_calls map_demo_type [MStore 1 5] syncx_NewMap = (mp, [RVoid]) \<and> sm_m mp = [1 \<mapsto> (5::nat)] \<and> sm_len mp \<noteq> syncx_Len (ms_map map_demo)"
    by (auto simp: map_demo_def syncx_Len_def syncx_call_def syncx_Store_def syncmap_Swap_def syncx_NewMap_def syncx_len_add_def)
qed (rule map_demo_reach)

end
