(* ===== verification/Syncx_Group.thy ===== *)
theory Syncx_Group
  imports Syncx
begin

text \<open>
  Package \<open>syncx\<close>, part three: \<open>Group\<close> (\<open>src/syncx/group.go\<close>), goroutines started as a unit with an optional bound on how many run at a time.
  A system is the group and every goroutine that uses it: the callers of \<open>Go\<close>, \<open>TryGo\<close>, \<open>Wait\<close> and \<open>Stats\<close> and the tasks they start. One step is
  one access to the channel, the wait group, a counter or the once; a task returns when it likes with any outcome.
\<close>

subsection \<open>The group\<close>

text \<open>
  The semaphore channel is the number of its occupied slots, the wait group its counter. \<open>gr_once\<close> and \<open>gr_cancelled\<close> say that the \<open>sync.Once\<close>
  is used up and that the group has cancelled the context of its tasks. Without a limit the channel is nil.
\<close>

record syncx_Group =
  gr_limit :: int
  gr_sem :: int
  gr_wg :: int
  gr_once :: bool
  gr_err :: goerror
  gr_cancelled :: bool
  gr_started :: int
  gr_succeeded :: int
  gr_failed :: int
  gr_panicked :: int

record syncx_GroupStats =
  gt_Started :: int
  gt_Succeeded :: int
  gt_Failed :: int
  gt_Panicked :: int

definition syncx_NewGroup :: "(syncx_groupConfig \<Rightarrow> syncx_groupConfig) list \<Rightarrow> syncx_Group" where
  "syncx_NewGroup opts =
     \<lparr>gr_limit = gc_limit (syncx_newGroupConfig opts), gr_sem = 0, gr_wg = 0, gr_once = False, gr_err = None, gr_cancelled = False,
      gr_started = 0, gr_succeeded = 0, gr_failed = 0, gr_panicked = 0\<rparr>"

text \<open>A send on the semaphore, \<open>None\<close> when it blocks, and the receive of a task that ends.\<close>

definition syncx_sem_send :: "syncx_Group \<Rightarrow> syncx_Group option" where
  "syncx_sem_send g =
     (if gr_limit g \<le> 0 then Some g else if gr_sem g < gr_limit g then Some (g\<lparr>gr_sem := gr_sem g + 1\<rparr>) else None)"

definition syncx_sem_receive :: "syncx_Group \<Rightarrow> syncx_Group" where
  "syncx_sem_receive g = (if gr_limit g \<le> 0 then g else g\<lparr>gr_sem := gr_sem g - 1\<rparr>)"

text \<open>The function given to \<open>once.Do\<close>, run at most once.\<close>

definition syncx_once_fail :: "goerr \<Rightarrow> syncx_Group \<Rightarrow> syncx_Group" where
  "syncx_once_fail e g = (if gr_once g then g else g\<lparr>gr_once := True, gr_err := Some e, gr_cancelled := True\<rparr>)"

subsection \<open>Steps\<close>

text \<open>
  A caller of \<open>Go\<close> or \<open>TryGo\<close> with the argument that says whether the function is nil; \<open>launch\<close> in three steps; a task from its start to its end,
  with the error it had; a caller of \<open>Wait\<close>; a caller of \<open>Stats\<close> with the counters it has loaded so far.
\<close>

datatype group_pc =
    GGo bool
  | GTry bool
  | GAdd
  | GStart
  | GSpawn
  | GBack bool goerror
  | GRun
  | GPanicked goerr
  | GOnce goerr
  | GRelease goerror
  | GWgDone goerror
  | GEnded goerror
  | GWait
  | GCancel
  | GReadErr
  | GWaited goerror
  | GStats "int list"
  | GStatted syncx_GroupStats

text \<open>One load of \<open>Stats\<close>, which reads the counters one after the other.\<close>

definition syncx_group_Stats :: "int list \<Rightarrow> syncx_Group \<Rightarrow> group_pc option" where
  "syncx_group_Stats loaded g =
     (case loaded of
        [] \<Rightarrow> Some (GStats [gr_started g])
      | [a] \<Rightarrow> Some (GStats [a, gr_succeeded g])
      | [a, b] \<Rightarrow> Some (GStats [a, b, gr_failed g])
      | [a, b, c] \<Rightarrow> Some (GStatted \<lparr>gt_Started = a, gt_Succeeded = b, gt_Failed = c, gt_Panicked = gr_panicked g\<rparr>)
      | _ \<Rightarrow> None)"

definition syncx_group_step :: "unit outcome \<Rightarrow> group_pc \<Rightarrow> syncx_Group \<Rightarrow> (syncx_Group \<times> group_pc) option" where
  "syncx_group_step out pc g =
     (case pc of
        GGo nil_fn \<Rightarrow>
          if nil_fn then Some (g, GBack False (Some syncx_ErrNilFunc))
          else (case syncx_sem_send g of Some g1 \<Rightarrow> Some (g1, GAdd) | None \<Rightarrow> None)
      | GTry nil_fn \<Rightarrow>
          if nil_fn then Some (g, GBack False (Some syncx_ErrNilFunc))
          else (case syncx_sem_send g of Some g1 \<Rightarrow> Some (g1, GAdd) | None \<Rightarrow> Some (g, GBack False None))
      | GAdd \<Rightarrow> Some (g\<lparr>gr_wg := gr_wg g + 1\<rparr>, GStart)
      | GStart \<Rightarrow> Some (g\<lparr>gr_started := wrap_i64 (gr_started g + 1)\<rparr>, GSpawn)
      | GSpawn \<Rightarrow> Some (g, GBack True None)
      | GRun \<Rightarrow>
          (case panix_SafeVoid syncx_opGroup (Some out) of
             None \<Rightarrow> Some (g\<lparr>gr_succeeded := wrap_i64 (gr_succeeded g + 1)\<rparr>, GRelease None)
           | Some e \<Rightarrow>
               if syncx_isPanic e then Some (g\<lparr>gr_panicked := wrap_i64 (gr_panicked g + 1)\<rparr>, GPanicked e)
               else Some (g\<lparr>gr_failed := wrap_i64 (gr_failed g + 1)\<rparr>, GOnce e))
      | GPanicked e \<Rightarrow> Some (g\<lparr>gr_failed := wrap_i64 (gr_failed g + 1)\<rparr>, GOnce e)
      | GOnce e \<Rightarrow> Some (syncx_once_fail e g, GRelease (Some e))
      | GRelease r \<Rightarrow> Some (syncx_sem_receive g, GWgDone r)
      | GWgDone r \<Rightarrow> Some (g\<lparr>gr_wg := gr_wg g - 1\<rparr>, GEnded r)
      | GWait \<Rightarrow> if gr_wg g = 0 then Some (g, GCancel) else None
      | GCancel \<Rightarrow> Some (g\<lparr>gr_cancelled := True\<rparr>, GReadErr)
      | GReadErr \<Rightarrow> Some (g, GWaited (gr_err g))
      | GStats loaded \<Rightarrow> (case syncx_group_Stats loaded g of Some pc1 \<Rightarrow> Some (g, pc1) | None \<Rightarrow> None)
      | _ \<Rightarrow> None)"

lemma syncx_group_Stats_pc: "syncx_group_Stats loaded g = Some pc \<Longrightarrow> (\<exists>l. pc = GStats l) \<or> (\<exists>t. pc = GStatted t)"
  by (auto simp: syncx_group_Stats_def split: list.splits)

text \<open>
  The \<open>go\<close> statement at the end of \<open>launch\<close> adds a goroutine. Two fields are ghosts: the log has the errors in the order of the calls of \<open>once.Do\<close>, and
  \<open>gs_outs\<close> what each task function did, in the order in which they ended.
\<close>

record group_sys =
  gs_group :: syncx_Group
  gs_pcs :: "group_pc list"
  gs_log :: "goerr list"
  gs_outs :: "unit outcome list"

definition syncx_group_micro :: "nat \<Rightarrow> unit outcome \<Rightarrow> group_sys \<Rightarrow> group_sys option" where
  "syncx_group_micro i out s =
     (case syncx_group_step out (gs_pcs s ! i) (gs_group s) of
        None \<Rightarrow> None
      | Some (g, pc) \<Rightarrow>
          Some \<lparr>gs_group = g, gs_pcs = (gs_pcs s)[i := pc] @ (if gs_pcs s ! i = GSpawn then [GRun] else []),
            gs_log = gs_log s @ (case gs_pcs s ! i of GOnce e \<Rightarrow> [e] | _ \<Rightarrow> []),
            gs_outs = gs_outs s @ (if gs_pcs s ! i = GRun then [out] else [])\<rparr>)"

definition group_starts :: "group_pc \<Rightarrow> bool" where
  "group_starts pc = (case pc of GGo _ \<Rightarrow> True | GTry _ \<Rightarrow> True | GWait \<Rightarrow> True | GStats loaded \<Rightarrow> loaded = [] | _ \<Rightarrow> False)"

inductive syncx_group_reach :: "syncx_Group \<Rightarrow> group_sys \<Rightarrow> bool" for g0 where
  start: "syncx_group_reach g0 \<lparr>gs_group = g0, gs_pcs = [], gs_log = [], gs_outs = []\<rparr>"
| spawn: "syncx_group_reach g0 s \<Longrightarrow> group_starts pc \<Longrightarrow> syncx_group_reach g0 (s\<lparr>gs_pcs := gs_pcs s @ [pc]\<rparr>)"
| micro: "syncx_group_reach g0 s \<Longrightarrow> i < length (gs_pcs s) \<Longrightarrow> syncx_group_micro i out s = Some s' \<Longrightarrow> syncx_group_reach g0 s'"

subsection \<open>Invariant\<close>

text \<open>The goroutines in each role.\<close>

definition group_slot :: "group_pc \<Rightarrow> bool" where
  "group_slot pc = (case pc of GAdd \<Rightarrow> True | GStart \<Rightarrow> True | GSpawn \<Rightarrow> True | GRun \<Rightarrow> True | GPanicked _ \<Rightarrow> True | GOnce _ \<Rightarrow> True
     | GRelease _ \<Rightarrow> True | _ \<Rightarrow> False)"

definition group_waited_for :: "group_pc \<Rightarrow> bool" where
  "group_waited_for pc = (case pc of GStart \<Rightarrow> True | GSpawn \<Rightarrow> True | GRun \<Rightarrow> True | GPanicked _ \<Rightarrow> True | GOnce _ \<Rightarrow> True
     | GRelease _ \<Rightarrow> True | GWgDone _ \<Rightarrow> True | _ \<Rightarrow> False)"

definition group_task :: "group_pc \<Rightarrow> bool" where
  "group_task pc = (case pc of GRun \<Rightarrow> True | GPanicked _ \<Rightarrow> True | GOnce _ \<Rightarrow> True | GRelease _ \<Rightarrow> True | GWgDone _ \<Rightarrow> True | GEnded _ \<Rightarrow> True
     | _ \<Rightarrow> False)"

text \<open>The result of a task that has one.\<close>

definition group_result :: "group_pc \<Rightarrow> goerror option" where
  "group_result pc = (case pc of GPanicked e \<Rightarrow> Some (Some e) | GOnce e \<Rightarrow> Some (Some e) | GRelease r \<Rightarrow> Some r | GWgDone r \<Rightarrow> Some r
     | GEnded r \<Rightarrow> Some r | _ \<Rightarrow> None)"

definition group_started :: "group_pc \<Rightarrow> bool" where "group_started pc \<longleftrightarrow> group_task pc \<or> pc = GSpawn"
definition group_succeeded :: "group_pc \<Rightarrow> bool" where "group_succeeded pc \<longleftrightarrow> group_result pc = Some None"
definition group_panicked :: "group_pc \<Rightarrow> bool" where
  "group_panicked pc = (case group_result pc of Some (Some e) \<Rightarrow> syncx_isPanic e | _ \<Rightarrow> False)"
definition group_failed :: "group_pc \<Rightarrow> bool" where
  "group_failed pc \<longleftrightarrow> (\<exists>e. group_result pc = Some (Some e)) \<and> (\<forall>e. pc \<noteq> GPanicked e)"
definition group_reported :: "group_pc \<Rightarrow> bool" where
  "group_reported pc = (case pc of GRelease r \<Rightarrow> r \<noteq> None | GWgDone r \<Rightarrow> r \<noteq> None | GEnded r \<Rightarrow> r \<noteq> None | _ \<Rightarrow> False)"

lemmas group_roles = group_slot_def group_waited_for_def group_task_def group_result_def group_started_def group_succeeded_def
  group_panicked_def group_failed_def group_reported_def

definition syncx_group_inv :: "group_sys \<Rightarrow> bool" where
  "syncx_group_inv s =
     (let g = gs_group s; ps = gs_pcs s in
      (0 < gr_limit g \<longrightarrow> gr_sem g = how_many group_slot ps \<and> gr_sem g \<le> gr_limit g) \<and>
      gr_wg g = how_many group_waited_for ps \<and>
      gr_started g = wrap_i64 (how_many group_started ps) \<and>
      gr_succeeded g = wrap_i64 (how_many group_succeeded ps) \<and>
      gr_failed g = wrap_i64 (how_many group_failed ps) \<and>
      gr_panicked g = wrap_i64 (how_many group_panicked ps) \<and>
      how_many group_reported ps = int (length (gs_log s)) \<and>
      gr_once g = (gs_log s \<noteq> []) \<and>
      gr_err g = (if gs_log s = [] then None else Some (hd (gs_log s))) \<and>
      (gs_log s \<noteq> [] \<longrightarrow> gr_cancelled g))"

text \<open>The claims about one goroutine: what it reported, and what a \<open>Wait\<close> returned.\<close>

definition group_told :: "group_sys \<Rightarrow> bool" where
  "group_told s \<longleftrightarrow>
     (\<forall>pc e. pc \<in> set (gs_pcs s) \<longrightarrow> group_reported pc \<longrightarrow> group_result pc = Some (Some e) \<longrightarrow> e \<in> set (gs_log s)) \<and>
     (\<forall>e\<in>set (gs_log s). \<exists>pc\<in>set (gs_pcs s). group_reported pc \<and> group_result pc = Some (Some e)) \<and>
     (\<forall>r. GWaited r \<in> set (gs_pcs s) \<longrightarrow> r = None \<or> r = gr_err (gs_group s))"

lemma syncx_sem_send_fields:
  "syncx_sem_send g = Some g1 \<Longrightarrow>
     g1 = g\<lparr>gr_sem := (if 0 < gr_limit g then gr_sem g + 1 else gr_sem g)\<rparr> \<and> (0 < gr_limit g \<longrightarrow> gr_sem g + 1 \<le> gr_limit g)"
  by (auto simp: syncx_sem_send_def split: if_splits)

lemma syncx_sem_receive_fields:
  "syncx_sem_receive g = g\<lparr>gr_sem := (if 0 < gr_limit g then gr_sem g - 1 else gr_sem g)\<rparr>"
  by (simp add: syncx_sem_receive_def)

text \<open>The change of a role's number in a step from \<open>q\<close> to \<open>pc\<close> that may add goroutines.\<close>

definition group_delta :: "(group_pc \<Rightarrow> bool) \<Rightarrow> group_pc \<Rightarrow> group_pc \<Rightarrow> group_pc list \<Rightarrow> int" where
  "group_delta P q pc new = how_many P new + of_bool (P pc) - of_bool (P q)"

lemma how_many_step: "i < length ps \<Longrightarrow> how_many P (ps[i := pc] @ new) = how_many P ps + group_delta P (ps ! i) pc new"
  by (simp add: how_many_append how_many_update group_delta_def)

text \<open>The numbers of a group follow the roles of a goroutine that makes a step.\<close>

definition group_follows :: "group_pc \<Rightarrow> group_pc \<Rightarrow> group_pc list \<Rightarrow> goerr list \<Rightarrow> syncx_Group \<Rightarrow> syncx_Group \<Rightarrow> bool" where
  "group_follows q pc new l g g' \<longleftrightarrow>
     gr_limit g' = gr_limit g \<and>
     (0 < gr_limit g \<longrightarrow> gr_sem g' = gr_sem g + group_delta group_slot q pc new \<and> (gr_sem g' \<le> gr_sem g \<or> gr_sem g' \<le> gr_limit g)) \<and>
     gr_wg g' = gr_wg g + group_delta group_waited_for q pc new \<and>
     gr_started g' = wrap_i64 (gr_started g + group_delta group_started q pc new) \<and>
     gr_succeeded g' = wrap_i64 (gr_succeeded g + group_delta group_succeeded q pc new) \<and>
     gr_failed g' = wrap_i64 (gr_failed g + group_delta group_failed q pc new) \<and>
     gr_panicked g' = wrap_i64 (gr_panicked g + group_delta group_panicked q pc new) \<and>
     group_delta group_reported q pc new = int (length l)"

text \<open>The counters of a group are in range, so adding nothing changes nothing.\<close>

definition group_in_range :: "syncx_Group \<Rightarrow> bool" where
  "group_in_range g \<longleftrightarrow> wrap_i64 (gr_started g) = gr_started g \<and> wrap_i64 (gr_succeeded g) = gr_succeeded g \<and>
     wrap_i64 (gr_failed g) = gr_failed g \<and> wrap_i64 (gr_panicked g) = gr_panicked g"

lemma syncx_group_in_range: "syncx_group_inv s \<Longrightarrow> group_in_range (gs_group s)"
  using wrap_i64_plus [of _ 0] by (simp add: syncx_group_inv_def group_in_range_def Let_def)

lemmas group_follows_defs = group_follows_def group_delta_def how_many_def group_roles group_in_range_def

lemma syncx_call_follows:
  assumes "group_in_range g" and "syncx_group_step out q g = Some (g', pc)" and "q = GGo b \<or> q = GTry b"
  shows "group_follows q pc [] [] g g'"
proof -
  consider (slot) "syncx_sem_send g = Some g'" "pc = GAdd" | (refused) r where "g' = g" "pc = GBack False r"
    using assms(2,3) by (auto simp: syncx_group_step_def split: if_splits option.splits)
  then show ?thesis
  proof cases
    case slot
    then show ?thesis using assms(1,3) syncx_sem_send_fields [of g g'] by (elim disjE) (simp_all add: group_follows_defs)
  next
    case refused
    then show ?thesis using assms(1,3) by (elim disjE) (simp_all add: group_follows_defs)
  qed
qed

lemma syncx_run_follows:
  assumes "group_in_range g" and "syncx_group_step out GRun g = Some (g', pc)"
  shows "group_follows GRun pc [] [] g g'"
proof (cases "panix_SafeVoid syncx_opGroup (Some out)")
  case None
  then have eq: "g' = g\<lparr>gr_succeeded := wrap_i64 (gr_succeeded g + 1)\<rparr>" "pc = GRelease None"
    using assms(2) by (simp_all add: syncx_group_step_def)
  show ?thesis unfolding eq using assms(1) by (simp add: group_follows_defs)
next
  case (Some e)
  show ?thesis
  proof (cases "syncx_isPanic e")
    case True
    then have eq: "g' = g\<lparr>gr_panicked := wrap_i64 (gr_panicked g + 1)\<rparr>" "pc = GPanicked e"
      using assms(2) Some by (simp_all add: syncx_group_step_def)
    show ?thesis unfolding eq using assms(1) True by (simp add: group_follows_defs)
  next
    case False
    then have eq: "g' = g\<lparr>gr_failed := wrap_i64 (gr_failed g + 1)\<rparr>" "pc = GOnce e"
      using assms(2) Some by (simp_all add: syncx_group_step_def)
    show ?thesis unfolding eq using assms(1) False by (simp add: group_follows_defs)
  qed
qed

text \<open>The goroutine a step adds, and the error it hands to the once.\<close>

definition group_new :: "group_pc \<Rightarrow> group_pc list" where "group_new q = (if q = GSpawn then [GRun] else [])"
definition group_says :: "group_pc \<Rightarrow> goerr list" where "group_says q = (case q of GOnce e \<Rightarrow> [e] | _ \<Rightarrow> [])"

lemma syncx_group_step_follows:
  assumes "group_in_range g" and "syncx_group_step out q g = Some (g', pc)"
  shows "group_follows q pc (group_new q) (group_says q) g g'"
proof -
  note step = assms(2) [unfolded syncx_group_step_def] and defs = group_follows_defs group_new_def group_says_def
  show ?thesis
  proof (cases q)
    case (GGo b)
    then show ?thesis using syncx_call_follows [OF assms] by (simp add: group_new_def group_says_def)
  next
    case (GTry b)
    then show ?thesis using syncx_call_follows [OF assms] by (simp add: group_new_def group_says_def)
  next
    case GRun
    then show ?thesis using syncx_run_follows [OF assms(1)] assms(2) by (simp add: group_new_def group_says_def)
  next
    case (GOnce e)
    then have "g' = syncx_once_fail e g \<and> pc = GRelease (Some e)" using step by simp
    then show ?thesis using GOnce assms(1) by (simp add: defs syncx_once_fail_def)
  next
    case (GRelease r)
    then have "g' = syncx_sem_receive g \<and> pc = GWgDone r" using step by simp
    then show ?thesis using GRelease assms(1) by (simp add: defs syncx_sem_receive_fields)
  next
    case GWait
    then have "g' = g \<and> pc = GCancel" using step by (simp split: if_splits)
    then show ?thesis using GWait assms(1) by (simp add: defs)
  next
    case GAdd
    then have "g' = g\<lparr>gr_wg := gr_wg g + 1\<rparr> \<and> pc = GStart" using step by simp
    then show ?thesis using GAdd assms(1) by (simp add: defs)
  next
    case GStart
    then have "g' = g\<lparr>gr_started := wrap_i64 (gr_started g + 1)\<rparr> \<and> pc = GSpawn" using step by simp
    then show ?thesis using GStart assms(1) by (simp add: defs)
  next
    case GSpawn
    then have "g' = g \<and> pc = GBack True None" using step by simp
    then show ?thesis using GSpawn assms(1) by (simp add: defs)
  next
    case (GPanicked e)
    then have "g' = g\<lparr>gr_failed := wrap_i64 (gr_failed g + 1)\<rparr> \<and> pc = GOnce e" using step by simp
    then show ?thesis using GPanicked assms(1) by (simp add: defs)
  next
    case (GWgDone r)
    then have "g' = g\<lparr>gr_wg := gr_wg g - 1\<rparr> \<and> pc = GEnded r" using step by simp
    then show ?thesis using GWgDone assms(1) by (simp add: defs)
  next
    case GCancel
    then have "g' = g\<lparr>gr_cancelled := True\<rparr> \<and> pc = GReadErr" using step by simp
    then show ?thesis using GCancel assms(1) by (simp add: defs)
  next
    case GReadErr
    then have "g' = g \<and> pc = GWaited (gr_err g)" using step by auto
    then show ?thesis using GReadErr assms(1) by (simp add: defs)
  next
    case (GStats loaded)
    then have "g' = g \<and> syncx_group_Stats loaded g = Some pc" using step by (simp split: option.splits)
    then have "g' = g \<and> (\<exists>l st. pc = GStats l \<or> pc = GStatted st)" using syncx_group_Stats_pc [of loaded g pc] by blast
    then show ?thesis using GStats assms(1) by (elim conjE exE disjE) (simp_all add: defs)
  qed (use step in simp_all)
qed

text \<open>The once: only its step hands an error over, and the first error stays.\<close>

lemma syncx_group_step_once:
  assumes "syncx_group_step out q g = Some (g', pc)"
  shows "gr_once g' = (gr_once g \<or> group_says q \<noteq> [])"
    and "gr_err g' = (if gr_once g \<or> group_says q = [] then gr_err g else Some (hd (group_says q)))"
    and "gr_cancelled g \<or> (\<not> gr_once g \<and> group_says q \<noteq> []) \<longrightarrow> gr_cancelled g'"
proof -
  have send: "gr_once g1 = gr_once g \<and> gr_err g1 = gr_err g \<and> gr_cancelled g1 = gr_cancelled g" if "syncx_sem_send g = Some g1" for g1
    using syncx_sem_send_fields [OF that] by simp
  have "gr_once g' = (gr_once g \<or> group_says q \<noteq> []) \<and>
    gr_err g' = (if gr_once g \<or> group_says q = [] then gr_err g else Some (hd (group_says q))) \<and>
    (gr_cancelled g \<or> (\<not> gr_once g \<and> group_says q \<noteq> []) \<longrightarrow> gr_cancelled g')"
    using assms send
    by (cases q) (auto simp: syncx_group_step_def group_says_def syncx_once_fail_def syncx_sem_receive_def split: if_splits option.splits)
  then show "gr_once g' = (gr_once g \<or> group_says q \<noteq> [])"
    and "gr_err g' = (if gr_once g \<or> group_says q = [] then gr_err g else Some (hd (group_says q)))"
    and "gr_cancelled g \<or> (\<not> gr_once g \<and> group_says q \<noteq> []) \<longrightarrow> gr_cancelled g'" by blast+
qed

text \<open>What became of a task function: the error of the task, and whether it counts as a panic.\<close>

definition group_error :: "unit outcome \<Rightarrow> goerror" where
  "group_error out = (case out of Returns _ r \<Rightarrow> r | Panics v \<Rightarrow> Some (PanicError ''syncx.Group'' v))"

definition group_panic :: "unit outcome \<Rightarrow> bool" where
  "group_panic out = (case out of Returns _ None \<Rightarrow> False | Returns _ (Some e) \<Rightarrow> errors_As_PanicError e | Panics v \<Rightarrow> True)"

definition group_holds :: "(goerror \<Rightarrow> bool) \<Rightarrow> group_pc \<Rightarrow> bool" where
  "group_holds Q pc = (case group_result pc of Some r \<Rightarrow> Q r | None \<Rightarrow> False)"

text \<open>The tasks past their function have, between them, the errors of the functions that ended.\<close>

definition group_agree :: "group_sys \<Rightarrow> bool" where
  "group_agree s \<longleftrightarrow> (\<forall>Q. how_many (group_holds Q) (gs_pcs s) = how_many (\<lambda>out. Q (group_error out)) (gs_outs s))"

lemma syncx_run_error: "panix_SafeVoid syncx_opGroup (Some out) = group_error out"
  by (cases out) (auto simp: panix_SafeVoid_def panix_Safe_def call_fn_def group_error_def syncx_opGroup_def split: option.splits)

lemma syncx_group_step_result:
  assumes "syncx_group_step out q g = Some (g', pc)"
  shows "group_result pc = (if q = GRun then Some (group_error out) else group_result q)"
  using assms
  by (cases q) (auto simp: syncx_group_step_def group_result_def syncx_run_error syncx_group_Stats_def split: if_splits option.splits list.splits)

lemma syncx_group_step_agree:
  assumes "group_agree s" and "i < length (gs_pcs s)" and "syncx_group_micro i out s = Some s'"
  shows "group_agree s'"
proof -
  let ?q = "gs_pcs s ! i"
  obtain g' pc where step: "syncx_group_step out ?q (gs_group s) = Some (g', pc)"
    and s': "gs_pcs s' = (gs_pcs s)[i := pc] @ group_new ?q" "gs_outs s' = gs_outs s @ (if ?q = GRun then [out] else [])"
    using assms(3) by (auto simp: syncx_group_micro_def group_new_def split: option.splits)
  have "how_many (group_holds Q) (gs_pcs s') = how_many (\<lambda>out. Q (group_error out)) (gs_outs s')" for Q
    using assms(1) syncx_group_step_result [OF step] unfolding s' how_many_step [OF assms(2)]
    by (auto simp: group_agree_def how_many_append group_delta_def group_new_def how_many_one group_holds_def group_result_def [of GRun] group_result_def [of GSpawn])
  then show ?thesis by (simp add: group_agree_def)
qed

text \<open>What a task reports, and where it comes from.\<close>

lemma syncx_group_step_reports:
  assumes "syncx_group_step out q g = Some (g', pc)" and "group_reported pc" and "group_result pc = Some (Some e)"
  shows "group_reported q \<and> group_result q = Some (Some e) \<or> group_says q = [e]"
  using assms
  by (cases q) (auto simp: syncx_group_step_def group_says_def group_reported_def group_result_def dest!: syncx_group_Stats_pc split: if_splits option.splits)

lemma syncx_group_step_carries:
  assumes "syncx_group_step out q g = Some (g', pc)" and "group_reported q \<and> group_result q = Some (Some e) \<or> group_says q = [e]"
  shows "group_reported pc \<and> group_result pc = Some (Some e)"
  using assms by (cases q) (auto simp: syncx_group_step_def group_says_def group_reported_def group_result_def)

lemma syncx_group_step_inv:
  assumes "syncx_group_inv s" and "i < length (gs_pcs s)" and "syncx_group_micro i out s = Some s'"
  shows "syncx_group_inv s'" and "gr_limit (gs_group s') = gr_limit (gs_group s)"
proof -
  let ?q = "gs_pcs s ! i" and ?g = "gs_group s"
  obtain g' pc where step: "syncx_group_step out ?q ?g = Some (g', pc)"
    and s': "s' = \<lparr>gs_group = g', gs_pcs = (gs_pcs s)[i := pc] @ group_new ?q, gs_log = gs_log s @ group_says ?q,
      gs_outs = gs_outs s @ (if ?q = GRun then [out] else [])\<rparr>"
    using assms(3) by (auto simp: syncx_group_micro_def group_new_def group_says_def split: option.splits)
  have follows: "group_follows ?q pc (group_new ?q) (group_says ?q) ?g g'"
    by (rule syncx_group_step_follows [OF syncx_group_in_range [OF assms(1)] step])
  then show "gr_limit (gs_group s') = gr_limit ?g" by (simp add: s' group_follows_def)
  have once: "gr_once g' = (gs_log s' \<noteq> []) \<and> gr_err g' = (if gs_log s' = [] then None else Some (hd (gs_log s'))) \<and>
      (gs_log s' \<noteq> [] \<longrightarrow> gr_cancelled g')"
    using assms(1) syncx_group_step_once [OF step] by (cases "gs_log s") (simp_all add: s' syncx_group_inv_def Let_def)
  show "syncx_group_inv s'"
    using assms(1) follows once unfolding syncx_group_inv_def Let_def s'
    by (auto simp: how_many_step [OF assms(2)] group_follows_def wrap_i64_plus)
qed

lemma syncx_group_step_told:
  assumes "syncx_group_inv s" and "group_told s" and "i < length (gs_pcs s)" and "syncx_group_micro i out s = Some s'"
  shows "group_told s'"
proof -
  let ?q = "gs_pcs s ! i" and ?g = "gs_group s"
  obtain g' pc where step: "syncx_group_step out ?q ?g = Some (g', pc)"
    and s': "s' = \<lparr>gs_group = g', gs_pcs = (gs_pcs s)[i := pc] @ group_new ?q, gs_log = gs_log s @ group_says ?q,
      gs_outs = gs_outs s @ (if ?q = GRun then [out] else [])\<rparr>"
    using assms(4) by (auto simp: syncx_group_micro_def group_new_def group_says_def split: option.splits)
  have q: "?q \<in> set (gs_pcs s)" using assms(3) by simp
  have who: "x = pc \<or> x = GRun \<or> x \<in> set (gs_pcs s)" if "x \<in> set (gs_pcs s')" for x
    using that set_update_subset_insert [of "gs_pcs s" i pc] by (auto simp: s' group_new_def split: if_splits)
  have "e \<in> set (gs_log s')" if "x \<in> set (gs_pcs s')" "group_reported x" "group_result x = Some (Some e)" for x e
    using who [OF that(1)] that(2,3) assms(2) q syncx_group_step_reports [OF step, of e]
    by (auto simp: group_told_def s' group_reported_def [of GRun])
  moreover have "\<exists>x\<in>set (gs_pcs s'). group_reported x \<and> group_result x = Some (Some e)" if "e \<in> set (gs_log s')" for e
  proof (cases "group_reported ?q \<and> group_result ?q = Some (Some e) \<or> group_says ?q = [e]")
    case True
    have "pc \<in> set (gs_pcs s')" using assms(3) by (auto simp: s' set_update_memI)
    then show ?thesis using syncx_group_step_carries [OF step True] by blast
  next
    case False
    then have "e \<in> set (gs_log s)" using that by (auto simp: s' group_says_def split: group_pc.splits)
    then obtain j where j: "j < length (gs_pcs s)" "group_reported (gs_pcs s ! j)" "group_result (gs_pcs s ! j) = Some (Some e)"
      using assms(2) unfolding group_told_def by (metis in_set_conv_nth)
    then have "gs_pcs s' ! j = gs_pcs s ! j" using False by (cases "j = i") (auto simp: s' nth_append)
    moreover have "j < length (gs_pcs s')" using j(1) by (simp add: s')
    ultimately show ?thesis using j(2,3) by (metis nth_mem)
  qed
  moreover have err: "gr_err g' = gr_err ?g \<or> gr_err ?g = None"
    using syncx_group_step_once(2) [OF step] assms(1) by (simp add: syncx_group_inv_def Let_def split: if_splits)
  have "r = None \<or> r = gr_err g'" if "GWaited r \<in> set (gs_pcs s')" for r
  proof (cases "GWaited r \<in> set (gs_pcs s)")
    case True
    then have "r = None \<or> r = gr_err ?g" using assms(2) by (simp add: group_told_def)
    then show ?thesis using err by auto
  next
    case False
    then have "pc = GWaited r" using who [OF that] by simp
    then have "?q = GReadErr \<and> g' = ?g \<and> r = gr_err ?g"
      using step by (cases ?q) (auto simp: syncx_group_step_def dest!: syncx_group_Stats_pc split: if_splits option.splits)
    then show ?thesis by simp
  qed
  ultimately show ?thesis by (simp add: group_told_def s')
qed

lemma syncx_NewGroup_fields:
  "gr_limit (syncx_NewGroup opts) = gc_limit (syncx_newGroupConfig opts)" "gr_sem (syncx_NewGroup opts) = 0" "gr_wg (syncx_NewGroup opts) = 0"
  "\<not> gr_once (syncx_NewGroup opts)" "gr_err (syncx_NewGroup opts) = None" "gr_started (syncx_NewGroup opts) = 0"
  "gr_succeeded (syncx_NewGroup opts) = 0" "gr_failed (syncx_NewGroup opts) = 0" "gr_panicked (syncx_NewGroup opts) = 0"
  by (simp_all add: syncx_NewGroup_def)

lemma syncx_group_reach_inv:
  assumes "syncx_group_reach (syncx_NewGroup opts) s"
  shows "syncx_group_inv s \<and> gr_limit (gs_group s) = gc_limit (syncx_newGroupConfig opts) \<and> group_told s \<and> group_agree s"
  using assms
proof (induction rule: syncx_group_reach.induct)
  case start
  show ?case by (simp add: syncx_group_inv_def group_told_def group_agree_def syncx_NewGroup_fields Let_def)
next
  case (spawn s pc)
  have "group_agree (s\<lparr>gs_pcs := gs_pcs s @ [pc]\<rparr>)"
    using spawn by (cases pc) (simp_all add: group_agree_def how_many_append how_many_one group_starts_def group_holds_def group_result_def)
  with spawn show ?case
    by (cases pc) (auto simp: syncx_group_inv_def group_told_def group_starts_def group_roles Let_def)
next
  case (micro s i out s')
  then show ?case
    using syncx_group_step_inv [of s i out s'] syncx_group_step_told [of s i out s'] syncx_group_step_agree [of s i out s'] by simp
qed

subsection \<open>What a group promises\<close>

text \<open>The roles behind the counters, as the outcomes of the task functions.\<close>

lemma syncx_group_tally:
  assumes "group_agree s"
  shows "how_many group_succeeded (gs_pcs s) = how_many (\<lambda>out. group_error out = None) (gs_outs s)"
    and "how_many group_panicked (gs_pcs s) = how_many group_panic (gs_outs s)"
    and "how_many group_failed (gs_pcs s) =
      how_many (\<lambda>out. group_error out \<noteq> None) (gs_outs s) - how_many (\<lambda>pc. \<exists>e. pc = GPanicked e) (gs_pcs s)"
    and "how_many (\<lambda>pc. \<exists>r. group_result pc = Some r) (gs_pcs s) = int (length (gs_outs s))"
proof -
  have agree: "how_many (group_holds Q) (gs_pcs s) = how_many (\<lambda>out. Q (group_error out)) (gs_outs s)" for Q
    using assms by (simp add: group_agree_def)
  have ok: "group_succeeded = group_holds (\<lambda>r. r = None)"
    by (auto simp: fun_eq_iff group_succeeded_def group_holds_def split: option.splits)
  show "how_many group_succeeded (gs_pcs s) = how_many (\<lambda>out. group_error out = None) (gs_outs s)" unfolding ok by (rule agree)
  let ?P = "\<lambda>r. case r of Some e \<Rightarrow> syncx_isPanic e | None \<Rightarrow> False"
  have "group_panicked = group_holds ?P"
    by (auto simp: fun_eq_iff group_panicked_def group_holds_def split: option.splits)
  moreover have "?P (group_error out) = group_panic out" for out
    by (auto simp: group_error_def group_panic_def syncx_isPanic_def split: outcome.splits option.splits)
  ultimately show "how_many group_panicked (gs_pcs s) = how_many group_panic (gs_outs s)" using agree [of ?P] by simp
  have "how_many (group_holds (\<lambda>r. r \<noteq> None)) (gs_pcs s) = how_many group_failed (gs_pcs s) + how_many (\<lambda>pc. \<exists>e. pc = GPanicked e) (gs_pcs s)"
    by (rule how_many_split) (auto simp: group_holds_def group_failed_def group_result_def split: group_pc.splits)
  then show "how_many group_failed (gs_pcs s) =
      how_many (\<lambda>out. group_error out \<noteq> None) (gs_outs s) - how_many (\<lambda>pc. \<exists>e. pc = GPanicked e) (gs_pcs s)"
    using agree [of "\<lambda>r. r \<noteq> None"] by simp
  have "group_holds (\<lambda>r. True) = (\<lambda>pc. \<exists>r. group_result pc = Some r)"
    by (auto simp: fun_eq_iff group_holds_def split: option.splits)
  then show "how_many (\<lambda>pc. \<exists>r. group_result pc = Some r) (gs_pcs s) = int (length (gs_outs s))"
    using agree [of "\<lambda>r. True"] by (simp add: how_many_def)
qed

lemma syncx_group_errors:
  assumes "group_agree s"
  shows "(\<exists>pc\<in>set (gs_pcs s). group_result pc = Some r) \<longleftrightarrow> (\<exists>out\<in>set (gs_outs s). group_error out = r)"
proof -
  have some: "how_many P xs = 0 \<longleftrightarrow> (\<forall>x\<in>set xs. \<not> P x)" for P and xs :: "'x list"
    by (auto simp: how_many_def filter_empty_conv)
  have "how_many (group_holds (\<lambda>x. x = r)) (gs_pcs s) = how_many (\<lambda>out. group_error out = r) (gs_outs s)"
    using assms by (simp add: group_agree_def)
  moreover have "group_holds (\<lambda>x. x = r) pc \<longleftrightarrow> group_result pc = Some r" for pc
    by (auto simp: group_holds_def split: option.splits)
  ultimately show ?thesis
    using some [of "group_holds (\<lambda>x. x = r)" "gs_pcs s"] some [of "\<lambda>out. group_error out = r" "gs_outs s"] by auto
qed

text \<open>
  C37: a group. Under every interleaving of \<open>Go\<close>, \<open>TryGo\<close>, \<open>Wait\<close>, \<open>Stats\<close> and the tasks, at most \<open>WithLimit\<close> tasks run at a time. The counters are,
  modulo the width of an integer, the tasks launched, those whose function returned nil, those that panicked or returned an error that wraps a recovered
  panic, and those that returned an error or panicked, of which a panicking task is missing between its two counts; a call of \<open>Stats\<close> loads
  them one at a time in the order started, succeeded, failed and panicked. The error of the group is the first one handed to the once, the error of
  a task that ended, and from then on the context of the tasks is cancelled.
\<close>

theorem syncx_Group_accounting:
  assumes "syncx_group_reach (syncx_NewGroup opts) s" and "g = gs_group s"
  shows "(0 < gc_limit (syncx_newGroupConfig opts) \<longrightarrow> how_many (\<lambda>pc. pc = GRun) (gs_pcs s) \<le> gc_limit (syncx_newGroupConfig opts)) \<and>
    gr_started g = wrap_i64 (how_many group_started (gs_pcs s)) \<and>
    gr_succeeded g = wrap_i64 (how_many (\<lambda>out. group_error out = None) (gs_outs s)) \<and>
    gr_panicked g = wrap_i64 (how_many group_panic (gs_outs s)) \<and>
    gr_failed g = wrap_i64 (how_many (\<lambda>out. group_error out \<noteq> None) (gs_outs s) - how_many (\<lambda>pc. \<exists>e. pc = GPanicked e) (gs_pcs s)) \<and>
    (case gs_log s of
       [] \<Rightarrow> gr_err g = None
     | e # _ \<Rightarrow> gr_err g = Some e \<and> gr_cancelled g \<and> (\<exists>out\<in>set (gs_outs s). group_error out = Some e)) \<and>
    how_many group_reported (gs_pcs s) = int (length (gs_log s)) \<and>
    (\<forall>i loaded out s'. i < length (gs_pcs s) \<and> gs_pcs s ! i = GStats loaded \<and> syncx_group_micro i out s = Some s' \<longrightarrow>
       gs_group s' = g \<and>
       (loaded = [] \<and> gs_pcs s' ! i = GStats [gr_started g] \<or>
        (\<exists>a. loaded = [a] \<and> gs_pcs s' ! i = GStats [a, gr_succeeded g]) \<or>
        (\<exists>a b. loaded = [a, b] \<and> gs_pcs s' ! i = GStats [a, b, gr_failed g]) \<or>
        (\<exists>a b c. loaded = [a, b, c] \<and>
           gs_pcs s' ! i = GStatted \<lparr>gt_Started = a, gt_Succeeded = b, gt_Failed = c, gt_Panicked = gr_panicked g\<rparr>)))"
proof -
  have inv: "syncx_group_inv s" and limit: "gr_limit (gs_group s) = gc_limit (syncx_newGroupConfig opts)" and told: "group_told s"
    and agree: "group_agree s"
    using syncx_group_reach_inv [OF assms(1)] by blast+
  have run: "how_many (\<lambda>pc. pc = GRun) (gs_pcs s) \<le> how_many group_slot (gs_pcs s)"
    by (rule how_many_mono) (simp add: group_slot_def)
  have first: "\<exists>out\<in>set (gs_outs s). group_error out = Some e" if "e \<in> set (gs_log s)" for e
    using told that syncx_group_errors [OF agree, of "Some e"] unfolding group_told_def by blast
  have load: "gs_group s' = g \<and>
       (loaded = [] \<and> gs_pcs s' ! i = GStats [gr_started g] \<or>
        (\<exists>a. loaded = [a] \<and> gs_pcs s' ! i = GStats [a, gr_succeeded g]) \<or>
        (\<exists>a b. loaded = [a, b] \<and> gs_pcs s' ! i = GStats [a, b, gr_failed g]) \<or>
        (\<exists>a b c. loaded = [a, b, c] \<and>
           gs_pcs s' ! i = GStatted \<lparr>gt_Started = a, gt_Succeeded = b, gt_Failed = c, gt_Panicked = gr_panicked g\<rparr>))"
    if "i < length (gs_pcs s) \<and> gs_pcs s ! i = GStats loaded \<and> syncx_group_micro i out s = Some s'" for i loaded out s'
    using that assms(2)
    by (auto simp: syncx_group_micro_def syncx_group_step_def syncx_group_Stats_def nth_append split: option.splits list.splits)
  have "(0 < gc_limit (syncx_newGroupConfig opts) \<longrightarrow> how_many (\<lambda>pc. pc = GRun) (gs_pcs s) \<le> gc_limit (syncx_newGroupConfig opts)) \<and>
    gr_started g = wrap_i64 (how_many group_started (gs_pcs s)) \<and>
    gr_succeeded g = wrap_i64 (how_many (\<lambda>out. group_error out = None) (gs_outs s)) \<and>
    gr_panicked g = wrap_i64 (how_many group_panic (gs_outs s)) \<and>
    gr_failed g = wrap_i64 (how_many (\<lambda>out. group_error out \<noteq> None) (gs_outs s) - how_many (\<lambda>pc. \<exists>e. pc = GPanicked e) (gs_pcs s)) \<and>
    how_many group_reported (gs_pcs s) = int (length (gs_log s))"
    using inv limit run syncx_group_tally(1-3) [OF agree] by (auto simp: syncx_group_inv_def Let_def assms(2))
  moreover have "case gs_log s of
       [] \<Rightarrow> gr_err g = None
     | e # _ \<Rightarrow> gr_err g = Some e \<and> gr_cancelled g \<and> (\<exists>out\<in>set (gs_outs s). group_error out = Some e)"
    using inv first by (cases "gs_log s") (simp_all add: syncx_group_inv_def Let_def assms(2))
  ultimately show ?thesis using load by blast
qed

text \<open>
  C38: \<open>Wait\<close>. When a call of \<open>Wait\<close> gets past the wait group, every task that was launched has ended and is counted: modulo the width of an
  integer, the started counter is their number, the succeeded counter that of the functions that returned nil, the failed counter that of the others,
  and the panicked counter that of the panics among them. The error of the group is nil exactly if every function returned nil, and otherwise the
  error of one of them, the first that was handed to the once. A \<open>Wait\<close> that has returned an error has returned that of the group.
\<close>

theorem syncx_Group_Wait_all:
  assumes "syncx_group_reach (syncx_NewGroup opts) s" and "i < length (gs_pcs s)" and "gs_pcs s ! i = GWait"
    and "syncx_group_micro i out s = Some s'" and "g = gs_group s"
  shows "(\<forall>pc\<in>set (gs_pcs s). group_task pc \<longrightarrow> (\<exists>r. pc = GEnded r)) \<and>
    how_many group_task (gs_pcs s) = int (length (gs_outs s)) \<and>
    gr_started g = wrap_i64 (int (length (gs_outs s))) \<and>
    gr_succeeded g = wrap_i64 (how_many (\<lambda>out. group_error out = None) (gs_outs s)) \<and>
    gr_failed g = wrap_i64 (how_many (\<lambda>out. group_error out \<noteq> None) (gs_outs s)) \<and>
    gr_panicked g = wrap_i64 (how_many group_panic (gs_outs s)) \<and>
    (gr_err g = None \<longleftrightarrow> (\<forall>out\<in>set (gs_outs s). group_error out = None)) \<and>
    (\<forall>e. gr_err g = Some e \<longrightarrow> (\<exists>out\<in>set (gs_outs s). group_error out = Some e) \<and> hd (gs_log s) = e) \<and>
    (\<forall>e. GWaited (Some e) \<in> set (gs_pcs s') \<longrightarrow> gr_err (gs_group s') = Some e)"
proof -
  have inv: "syncx_group_inv s" and told: "group_told s" and agree: "group_agree s"
    using syncx_group_reach_inv [OF assms(1)] by blast+
  have "gr_wg (gs_group s) = 0" using assms(3,4) by (simp add: syncx_group_micro_def syncx_group_step_def split: if_splits)
  then have none: "how_many group_waited_for (gs_pcs s) = 0" using inv by (simp add: syncx_group_inv_def Let_def)
  have idle: "\<not> group_waited_for pc" if "pc \<in> set (gs_pcs s)" for pc
    using none that by (auto simp: how_many_def filter_empty_conv)
  have ended: "\<exists>r. pc = GEnded r" if "pc \<in> set (gs_pcs s)" "group_task pc" for pc
    using idle [OF that(1)] that(2) by (cases pc) (simp_all add: group_waited_for_def group_task_def)
  have same: "how_many P (gs_pcs s) = how_many Q (gs_pcs s)" if "\<And>pc. pc \<in> set (gs_pcs s) \<Longrightarrow> P pc = Q pc" for P Q
    unfolding how_many_def using that by (metis (no_types, lifting) filter_cong)
  have past: "group_result pc = Some r \<longleftrightarrow> pc = GEnded r" if "pc \<in> set (gs_pcs s)" for pc r
    using idle [OF that] by (cases pc) (auto simp: group_waited_for_def group_result_def)
  have task: "how_many group_task (gs_pcs s) = int (length (gs_outs s))"
    unfolding syncx_group_tally(4) [OF agree, symmetric]
  proof (rule same)
    fix pc
    assume "pc \<in> set (gs_pcs s)"
    then have "\<not> group_waited_for pc" by (rule idle)
    then show "group_task pc \<longleftrightarrow> (\<exists>r. group_result pc = Some r)"
      by (cases pc) (simp_all add: group_waited_for_def group_task_def group_result_def)
  qed
  have started: "how_many group_started (gs_pcs s) = how_many group_task (gs_pcs s)"
  proof (rule same)
    fix pc
    assume "pc \<in> set (gs_pcs s)"
    then have "\<not> group_waited_for pc" by (rule idle)
    then show "group_started pc \<longleftrightarrow> group_task pc"
      by (cases pc) (simp_all add: group_waited_for_def group_started_def)
  qed
  have panicking: "how_many (\<lambda>pc. \<exists>e. pc = GPanicked e) (gs_pcs s) = 0"
    using idle [of "GPanicked _"] by (auto simp: how_many_def filter_empty_conv group_waited_for_def)
  have logged: "e \<in> set (gs_log s) \<longleftrightarrow> (\<exists>out\<in>set (gs_outs s). group_error out = Some e)" for e
  proof -
    have "group_reported pc" if "group_result pc = Some (Some e)" "pc \<in> set (gs_pcs s)" for pc
    proof -
      have "pc = GEnded (Some e)" using past [OF that(2), of "Some e"] that(1) by simp
      then show ?thesis by (simp add: group_reported_def)
    qed
    then have "e \<in> set (gs_log s) \<longleftrightarrow> (\<exists>pc\<in>set (gs_pcs s). group_result pc = Some (Some e))"
      using told unfolding group_told_def by blast
    then show ?thesis by (simp only: syncx_group_errors [OF agree])
  qed
  have err: "gr_err (gs_group s) = (if gs_log s = [] then None else Some (hd (gs_log s)))"
    using inv by (simp add: syncx_group_inv_def Let_def)
  have "syncx_group_reach (syncx_NewGroup opts) s'" by (rule syncx_group_reach.micro [OF assms(1,2,4)])
  then have waited: "GWaited (Some e) \<in> set (gs_pcs s') \<longrightarrow> gr_err (gs_group s') = Some e" for e
    using syncx_group_reach_inv unfolding group_told_def by (metis option.distinct(1))
  have nil: "gr_err (gs_group s) = None \<longleftrightarrow> (\<forall>out\<in>set (gs_outs s). group_error out = None)"
  proof -
    have "gs_log s = [] \<longleftrightarrow> (\<forall>e. e \<notin> set (gs_log s))" by (cases "gs_log s") auto
    also have "\<dots> \<longleftrightarrow> (\<forall>out\<in>set (gs_outs s). group_error out = None)" unfolding logged by (metis option.exhaust option.distinct(1))
    finally show ?thesis unfolding err by simp
  qed
  have "(\<exists>out\<in>set (gs_outs s). group_error out = Some e) \<and> hd (gs_log s) = e" if "gr_err (gs_group s) = Some e" for e
    using that unfolding err logged [symmetric] by (cases "gs_log s") auto
  then show ?thesis
    using ended waited nil task started panicking inv syncx_group_tally(1-3) [OF agree]
    by (simp add: syncx_group_inv_def Let_def assms(5))
qed

subsection \<open>A run\<close>

fun group_run :: "(nat \<times> unit outcome) list \<Rightarrow> group_sys \<Rightarrow> group_sys option" where
  "group_run [] s = Some s"
| "group_run ((i, out) # js) s =
     (if i < length (gs_pcs s) then (case syncx_group_micro i out s of Some s1 \<Rightarrow> group_run js s1 | None \<Rightarrow> None) else None)"

lemma group_run_reach: "syncx_group_reach g0 s \<Longrightarrow> group_run js s = Some s' \<Longrightarrow> syncx_group_reach g0 s'"
proof (induction js arbitrary: s)
  case (Cons j js)
  obtain i out where j: "j = (i, out)" by (rule prod.exhaust)
  obtain s1 where "i < length (gs_pcs s)" "syncx_group_micro i out s = Some s1" "group_run js s1 = Some s'"
    using Cons.prems(2) by (auto simp: j split: if_splits option.splits)
  then show ?case using Cons.IH [OF syncx_group_reach.micro [OF Cons.prems(1)]] by blast
qed simp

text \<open>A group with room for one task, which fails; a second \<open>TryGo\<close> is refused meanwhile, and \<open>Wait\<close> is called.\<close>

definition group_demo :: group_sys where
  "group_demo = \<lparr>gs_group = (syncx_NewGroup [syncx_WithLimit 1])\<lparr>gr_once := True, gr_err := Some (UserError 3), gr_cancelled := True, gr_started := 1,
       gr_failed := 1\<rparr>,
     gs_pcs = [GBack True None, GBack False None, GWait, GEnded (Some (UserError 3))], gs_log = [UserError 3],
     gs_outs = [Returns () (Some (UserError 3))]\<rparr>"

lemma group_demo_reach: "syncx_group_reach (syncx_NewGroup [syncx_WithLimit 1]) group_demo"
proof -
  let ?g = "syncx_NewGroup [syncx_WithLimit 1]"
  define s0 where "s0 = \<lparr>gs_group = ?g, gs_pcs = [GGo False, GTry False, GWait], gs_log = [], gs_outs = []\<rparr>"
  from syncx_group_reach.spawn [OF syncx_group_reach.spawn [OF syncx_group_reach.spawn [OF syncx_group_reach.start, of "GGo False"], of "GTry False"],
      of GWait]
  have "syncx_group_reach ?g s0" by (simp add: s0_def group_starts_def)
  moreover have "group_run [(0, Returns () None), (0, Returns () None), (0, Returns () None), (0, Returns () None), (1, Returns () None),
      (3, Returns () (Some (UserError 3))), (3, Returns () None), (3, Returns () None), (3, Returns () None)] s0 = Some group_demo"
    by (simp add: s0_def group_demo_def syncx_group_micro_def syncx_group_step_def syncx_sem_send_def syncx_sem_receive_def syncx_once_fail_def
        syncx_NewGroup_def syncx_newGroupConfig_def syncx_WithLimit_def syncx_isPanic_def panix_SafeVoid_def panix_Safe_def call_fn_def)
  ultimately show ?thesis by (rule group_run_reach)
qed

theorem syncx_Group_accounting_witness:
  "syncx_group_reach (syncx_NewGroup [syncx_WithLimit 1]) group_demo \<and> how_many (\<lambda>pc. pc = GRun) (gs_pcs group_demo) \<le> 1 \<and>
    gr_failed (gs_group group_demo) = 1"
proof -
  have "how_many (\<lambda>pc. \<exists>e. pc = GPanicked e) (gs_pcs group_demo) = 0" "how_many (\<lambda>out. group_error out \<noteq> None) (gs_outs group_demo) = 1"
    by (simp_all add: group_demo_def how_many_def group_error_def)
  then show ?thesis
    using group_demo_reach syncx_Group_accounting [OF group_demo_reach HOL.refl]
    by (simp add: syncx_newGroupConfig_def syncx_WithLimit_def wrap_i64_def)
qed

theorem syncx_Group_Wait_all_witness:
  "\<exists>s'. syncx_group_micro 2 (Returns () None) group_demo = Some s' \<and> gr_err (gs_group group_demo) \<noteq> None"
proof -
  obtain s' where step: "syncx_group_micro 2 (Returns () None) group_demo = Some s'"
    by (simp add: syncx_group_micro_def syncx_group_step_def group_demo_def syncx_NewGroup_def)
  have "gs_pcs group_demo ! 2 = GWait" "2 < length (gs_pcs group_demo)" by (simp_all add: group_demo_def)
  then have "gr_err (gs_group group_demo) = None \<longleftrightarrow> (\<forall>out\<in>set (gs_outs group_demo). group_error out = None)"
    using syncx_Group_Wait_all [OF group_demo_reach _ _ step HOL.refl] by blast
  then show ?thesis using step by (simp add: group_demo_def group_error_def)
qed

text \<open>
  The four loads of \<open>Stats\<close> are not one snapshot, and a panicking task raises the counter of panics before that of failures. A call of \<open>Stats\<close>
  that starts after the one task of a group and is held up meanwhile can show a panic without a failure, and one that has loaded the started
  counter before a task is launched can show more successes than starts.
\<close>

lemma syncx_group_Stats_torn:
  "\<exists>s. syncx_group_reach (syncx_NewGroup []) s \<and>
    GStatted \<lparr>gt_Started = 1, gt_Succeeded = 0, gt_Failed = 0, gt_Panicked = 1\<rparr> \<in> set (gs_pcs s) \<and>
    GStatted \<lparr>gt_Started = 0, gt_Succeeded = 1, gt_Failed = 0, gt_Panicked = 1\<rparr> \<in> set (gs_pcs s)"
proof -
  let ?g = "syncx_NewGroup []" and ?ok = "Returns () None"
  define s0 where "s0 = \<lparr>gs_group = ?g, gs_pcs = [GGo False, GGo False, GStats [], GStats []], gs_log = [], gs_outs = []\<rparr>"
  from syncx_group_reach.spawn [OF syncx_group_reach.spawn [OF syncx_group_reach.spawn [OF syncx_group_reach.spawn [OF syncx_group_reach.start,
      of "GGo False"], of "GGo False"], of "GStats []"], of "GStats []"]
  have 0: "syncx_group_reach ?g s0" by (simp add: s0_def group_starts_def)
  let ?js = "[(2, ?ok), (0, ?ok), (0, ?ok), (0, ?ok), (3, ?ok), (3, ?ok), (0, ?ok), (3, ?ok), (1, ?ok), (1, ?ok), (1, ?ok), (1, ?ok),
      (4, Panics (PvOther 1)), (3, ?ok), (5, ?ok), (2, ?ok), (2, ?ok), (2, ?ok)]"
  have "case group_run ?js s0 of
      None \<Rightarrow> False | Some s \<Rightarrow> GStatted \<lparr>gt_Started = 1, gt_Succeeded = 0, gt_Failed = 0, gt_Panicked = 1\<rparr> \<in> set (gs_pcs s) \<and>
        GStatted \<lparr>gt_Started = 0, gt_Succeeded = 1, gt_Failed = 0, gt_Panicked = 1\<rparr> \<in> set (gs_pcs s)"
    by (simp add: s0_def syncx_group_micro_def syncx_group_step_def syncx_sem_send_def syncx_NewGroup_def syncx_newGroupConfig_def syncx_defaultLimit_def syncx_group_Stats_def
        syncx_isPanic_def panix_SafeVoid_def panix_Safe_def call_fn_def wrap_i64_def)
  then show ?thesis using group_run_reach [OF 0] by (cases "group_run ?js s0") (simp, simp only: option.case, blast)
qed

end
