(* ===== verification/Signalx.thy ===== *)
theory Signalx
  imports Panix
begin

text \<open>
  Package \<open>signalx\<close> (\<open>src/signalx/\<close>): a context that a signal cancels, and shutdown hooks that run when a context is done. A hook is a number, a
  nil one \<open>None\<close>; it returns when it likes, or never, and may panic. One step is one access to the registry, to a channel or to a context, or one
  call of a hook.
\<close>

subsection \<open>Configuration and errors\<close>

definition signalx_opWait :: string where "signalx_opWait = ''signalx.Wait''"
definition signalx_defaultShutdownTimeout :: int where "signalx_defaultShutdownTimeout = 15 * 10 ^ 9"

text \<open>Signals are their numbers.\<close>

definition signalx_defaultSignals :: "nat list" where "signalx_defaultSignals = [2, 15]"

record signalx_config =
  sc_timeout :: int

definition signalx_WithTimeout :: "int \<Rightarrow> signalx_config \<Rightarrow> signalx_config" where
  "signalx_WithTimeout d c = c\<lparr>sc_timeout := d\<rparr>"

definition signalx_newConfig :: "(signalx_config \<Rightarrow> signalx_config) list \<Rightarrow> signalx_config" where
  "signalx_newConfig opts = fold (\<lambda>opt c. opt c) opts \<lparr>sc_timeout = signalx_defaultShutdownTimeout\<rparr>"

definition signalx_ErrShutdownTimeout :: goerr where "signalx_ErrShutdownTimeout = Sentinel ''signalx: shutdown timed out''"
definition signalx_ErrHookPanic :: goerr where "signalx_ErrHookPanic = Sentinel ''signalx: shutdown hook panicked''"

subsection \<open>Hooks\<close>

text \<open>The process-global registry; \<open>None\<close> stands for the panic for a nil hook.\<close>

definition signalx_OnShutdown :: "nat option \<Rightarrow> nat list \<Rightarrow> nat list option" where
  "signalx_OnShutdown hook globals = (case hook of None \<Rightarrow> None | Some h \<Rightarrow> Some (globals @ [h]))"

definition signalx_ResetHooks :: "nat list \<Rightarrow> nat list" where
  "signalx_ResetHooks globals = []"

definition signalx_collectHooks :: "nat list \<Rightarrow> nat option list \<Rightarrow> nat option list" where
  "signalx_collectHooks globals hooks = map Some globals @ hooks"

text \<open>The index of the first nil hook.\<close>

fun signalx_assertHooks :: "nat \<Rightarrow> nat option list \<Rightarrow> nat option" where
  "signalx_assertHooks i [] = None"
| "signalx_assertHooks i (hook # hooks) = (if hook = None then Some i else signalx_assertHooks (Suc i) hooks)"

definition signalx_runHook :: "unit outcome \<Rightarrow> goerror" where
  "signalx_runHook out =
     (case panix_SafeVoid signalx_opWait (Some (case out of Returns u e \<Rightarrow> Returns () None | Panics r \<Rightarrow> Panics r)) of
        None \<Rightarrow> None
      | Some e \<Rightarrow> errors_Join [signalx_ErrHookPanic, e])"

subsection \<open>Wait\<close>

text \<open>
  A call of \<open>WaitWith\<close> on a context that is not nil. \<open>sw_ctx\<close> says that it is done, \<open>sw_expired\<close> that the shutdown context is; \<open>sw_rest\<close> are the hooks not
  yet called. Three fields are ghosts: \<open>sw_globals\<close>, the registry as the call found it, \<open>sw_ran\<close>, the hooks that ended, with their outcome, and
  \<open>sw_at\<close>, how many hooks had been called when the timeout elapsed.
\<close>

datatype signalx_pc = WBlocked | WCollect | WAssert | WLoop | WRunning nat | WFinal | WReturned goerror | WPanicked nat

record signalx_wait =
  sw_timeout :: int
  sw_hooks :: "nat option list"
  sw_ctx :: bool
  sw_expired :: bool
  sw_all :: "nat option list"
  sw_rest :: "nat option list"
  sw_errs :: "goerr list"
  sw_timedOut :: bool
  sw_pc :: signalx_pc
  sw_globals :: "nat list"
  sw_ran :: "(nat \<times> unit outcome) list"
  sw_at :: nat

definition signalx_WaitWith :: "(signalx_config \<Rightarrow> signalx_config) list \<Rightarrow> nat option list \<Rightarrow> signalx_wait" where
  "signalx_WaitWith opts hooks =
     \<lparr>sw_timeout = sc_timeout (signalx_newConfig opts), sw_hooks = hooks, sw_ctx = False, sw_expired = False, sw_all = [], sw_rest = [],
      sw_errs = [], sw_timedOut = False, sw_pc = WBlocked, sw_globals = [], sw_ran = [], sw_at = 0\<rparr>"

definition signalx_Wait :: "nat option list \<Rightarrow> signalx_wait" where
  "signalx_Wait hooks = signalx_WaitWith [] hooks"

text \<open>A step of the caller; \<open>out\<close> is the outcome of the running hook. \<open>None\<close>: blocked, or over.\<close>

definition signalx_wait_step :: "nat list \<Rightarrow> unit outcome \<Rightarrow> signalx_wait \<Rightarrow> signalx_wait option" where
  "signalx_wait_step globals out w =
     (case sw_pc w of
        WBlocked \<Rightarrow> if sw_ctx w then Some (w\<lparr>sw_pc := WCollect\<rparr>) else None
      | WCollect \<Rightarrow>
          (let all = signalx_collectHooks globals (sw_hooks w)
           in Some (w\<lparr>sw_all := all, sw_rest := all, sw_globals := globals, sw_pc := WAssert\<rparr>))
      | WAssert \<Rightarrow> Some (w\<lparr>sw_pc := (case signalx_assertHooks 0 (sw_all w) of Some i \<Rightarrow> WPanicked i | None \<Rightarrow> WLoop)\<rparr>)
      | WLoop \<Rightarrow>
          (case sw_rest w of
             [] \<Rightarrow> Some (w\<lparr>sw_pc := WFinal\<rparr>)
           | hook # hooks \<Rightarrow>
               if sw_expired w then Some (w\<lparr>sw_timedOut := True, sw_pc := WFinal\<rparr>)
               else Some (w\<lparr>sw_rest := hooks, sw_pc := WRunning (the hook)\<rparr>))
      | WRunning h \<Rightarrow>
          Some (w\<lparr>sw_errs := sw_errs w @ (case signalx_runHook out of Some e \<Rightarrow> [e] | None \<Rightarrow> []), sw_ran := sw_ran w @ [(h, out)], sw_pc := WLoop\<rparr>)
      | WFinal \<Rightarrow>
          (let timedOut = sw_timedOut w \<or> 0 < sw_timeout w \<and> sw_expired w
           in Some (w\<lparr>sw_timedOut := timedOut,
                sw_pc := WReturned (errors_Join (if timedOut then sw_errs w @ [signalx_ErrShutdownTimeout] else sw_errs w))\<rparr>))
      | _ \<Rightarrow> None)"

text \<open>The hooks called so far, in order.\<close>

definition signalx_called :: "signalx_wait \<Rightarrow> nat option list" where
  "signalx_called w = map (\<lambda>r. Some (fst r)) (sw_ran w) @ (case sw_pc w of WRunning h \<Rightarrow> [Some h] | _ \<Rightarrow> [])"

text \<open>
  \<open>shutdownContext\<close> makes the shutdown context when the call stops blocking; it has a timer if the timeout is positive. The timer fires at any time from
  then on until the call is over and cancels the context. Meanwhile the registry may change. A run counts the steps of the caller.
\<close>

definition signalx_shutdownContext :: "signalx_wait \<Rightarrow> signalx_wait" where
  "signalx_shutdownContext w =
     (if 0 < sw_timeout w \<and> \<not> sw_expired w \<and> sw_pc w \<noteq> WBlocked \<and> (case sw_pc w of WReturned _ \<Rightarrow> False | WPanicked _ \<Rightarrow> False | _ \<Rightarrow> True)
      then w\<lparr>sw_expired := True, sw_at := length (signalx_called w)\<rparr> else w)"

inductive signalx_wait_reach :: "signalx_wait \<Rightarrow> nat \<Rightarrow> nat list \<Rightarrow> signalx_wait \<Rightarrow> bool" for w0 where
  start: "signalx_wait_reach w0 0 globals w0"
| ctx: "signalx_wait_reach w0 k globals w \<Longrightarrow> signalx_wait_reach w0 k globals (w\<lparr>sw_ctx := True\<rparr>)"
| timer: "signalx_wait_reach w0 k globals w \<Longrightarrow> signalx_wait_reach w0 k globals (signalx_shutdownContext w)"
| register: "signalx_wait_reach w0 k globals w \<Longrightarrow> signalx_OnShutdown hook globals = Some globals' \<Longrightarrow> signalx_wait_reach w0 k globals' w"
| reset: "signalx_wait_reach w0 k globals w \<Longrightarrow> signalx_wait_reach w0 k (signalx_ResetHooks globals) w"
| step: "signalx_wait_reach w0 k globals w \<Longrightarrow> signalx_wait_step globals out w = Some w' \<Longrightarrow> signalx_wait_reach w0 (Suc k) globals w'"

subsection \<open>Invariant\<close>

definition signalx_failures :: "(nat \<times> unit outcome) list \<Rightarrow> goerr list" where
  "signalx_failures rs = concat (map (\<lambda>(h, out). case signalx_runHook out of Some e \<Rightarrow> [e] | None \<Rightarrow> []) rs)"

definition signalx_snapshot :: "signalx_wait \<Rightarrow> bool" where
  "signalx_snapshot w \<longleftrightarrow> sw_all w = signalx_collectHooks (sw_globals w) (sw_hooks w) \<and> signalx_called w @ sw_rest w = sw_all w"

definition signalx_wait_inv :: "signalx_wait \<Rightarrow> bool" where
  "signalx_wait_inv w \<longleftrightarrow>
     sw_errs w = signalx_failures (sw_ran w) \<and> (sw_expired w \<longrightarrow> 0 < sw_timeout w) \<and> (sw_timedOut w \<longrightarrow> sw_expired w) \<and>
     (sw_expired w \<longrightarrow> sw_at w = length (signalx_called w)) \<and>
     (case sw_pc w of
        WBlocked \<Rightarrow> sw_ran w = [] \<and> \<not> sw_timedOut w
      | WCollect \<Rightarrow> sw_ran w = [] \<and> \<not> sw_timedOut w
      | WAssert \<Rightarrow> signalx_snapshot w \<and> sw_ran w = [] \<and> \<not> sw_timedOut w
      | WPanicked i \<Rightarrow> signalx_snapshot w \<and> sw_ran w = [] \<and> signalx_assertHooks 0 (sw_all w) = Some i
      | WLoop \<Rightarrow> signalx_snapshot w \<and> None \<notin> set (sw_all w) \<and> \<not> sw_timedOut w
      | WRunning h \<Rightarrow> signalx_snapshot w \<and> None \<notin> set (sw_all w) \<and> \<not> sw_timedOut w
      | WFinal \<Rightarrow> signalx_snapshot w \<and> None \<notin> set (sw_all w) \<and> (sw_timedOut w \<or> sw_rest w = [])
      | WReturned err \<Rightarrow> signalx_snapshot w \<and> None \<notin> set (sw_all w) \<and> (sw_timedOut w \<or> sw_rest w = []) \<and> sw_timedOut w = sw_expired w \<and>
          err = errors_Join (sw_errs w @ (if sw_timedOut w then [signalx_ErrShutdownTimeout] else [])))"

text \<open>How many steps the caller can still take, once the hooks are collected.\<close>

definition signalx_left :: "signalx_wait \<Rightarrow> nat" where
  "signalx_left w =
     (case sw_pc w of WAssert \<Rightarrow> 2 * length (sw_rest w) + 3 | WLoop \<Rightarrow> 2 * length (sw_rest w) + 2 | WRunning _ \<Rightarrow> 2 * length (sw_rest w) + 3 | WFinal \<Rightarrow> 1
      | _ \<Rightarrow> 0)"

lemma signalx_assertHooks_iff: "signalx_assertHooks i hooks = None \<longleftrightarrow> None \<notin> set hooks"
  by (induction hooks arbitrary: i) auto

lemma signalx_assertHooks_Some:
  "signalx_assertHooks i hooks = Some j \<Longrightarrow> i \<le> j \<and> j - i < length hooks \<and> hooks ! (j - i) = None \<and> None \<notin> set (take (j - i) hooks)"
proof (induction hooks arbitrary: i)
  case (Cons hook hooks)
  show ?case
  proof (cases hook)
    case None
    then show ?thesis using Cons.prems by simp
  next
    case (Some h)
    then have "Suc i \<le> j \<and> j - Suc i < length hooks \<and> hooks ! (j - Suc i) = None \<and> None \<notin> set (take (j - Suc i) hooks)"
      using Cons.prems by (intro Cons.IH) simp
    moreover from this have "j - i = Suc (j - Suc i)" by linarith
    ultimately show ?thesis using Some by simp
  qed
qed simp

lemma signalx_failures_snoc:
  "signalx_failures (rs @ [(h, out)]) = signalx_failures rs @ (case signalx_runHook out of Some e \<Rightarrow> [e] | None \<Rightarrow> [])"
  by (simp add: signalx_failures_def)

lemma signalx_snapshot_rest: "signalx_snapshot w \<Longrightarrow> set (sw_rest w) \<subseteq> set (sw_all w)"
  by (metis signalx_snapshot_def Un_upper2 set_append)

lemma signalx_wait_step_inv:
  assumes "signalx_wait_inv w" and "signalx_wait_step globals out w = Some w'"
  shows "signalx_wait_inv w'" and "sw_hooks w' = sw_hooks w" and "sw_timeout w' = sw_timeout w"
proof -
  note step = assms(2) [unfolded signalx_wait_step_def]
  note defs = signalx_wait_inv_def signalx_snapshot_def signalx_called_def
  have "signalx_wait_inv w' \<and> sw_hooks w' = sw_hooks w \<and> sw_timeout w' = sw_timeout w"
  proof (cases "sw_pc w")
    case WBlocked
    then show ?thesis using assms(1) step by (auto simp: defs split: if_splits)
  next
    case WCollect
    then show ?thesis using assms(1) step by (auto simp: defs Let_def)
  next
    case WAssert
    then show ?thesis using assms(1) step signalx_assertHooks_iff [of 0 "sw_all w"] by (auto simp: defs split: option.splits)
  next
    case WLoop
    show ?thesis
    proof (cases "sw_rest w")
      case Nil
      then show ?thesis using assms(1) step WLoop by (auto simp: defs)
    next
      case (Cons hook hooks)
      then have "hook \<noteq> None" using assms(1) WLoop signalx_snapshot_rest [of w] by (cases hook) (auto simp: signalx_wait_inv_def)
      then show ?thesis using assms(1) step WLoop Cons by (auto simp: defs split: if_splits)
    qed
  next
    case (WRunning h)
    then show ?thesis using assms(1) step by (auto simp: defs signalx_failures_snoc)
  next
    case WFinal
    then show ?thesis using assms(1) step by (auto simp: defs Let_def)
  qed (use step in simp_all)
  then show "signalx_wait_inv w'" "sw_hooks w' = sw_hooks w" "sw_timeout w' = sw_timeout w" by blast+
qed

lemma signalx_environment:
  "signalx_wait_inv (w\<lparr>sw_ctx := b\<rparr>) = signalx_wait_inv w" "signalx_wait_inv w \<Longrightarrow> signalx_wait_inv (signalx_shutdownContext w)"
  "sw_pc (signalx_shutdownContext w) = sw_pc w" "sw_rest (signalx_shutdownContext w) = sw_rest w"
  "sw_hooks (signalx_shutdownContext w) = sw_hooks w" "sw_timeout (signalx_shutdownContext w) = sw_timeout w"
proof -
  have snap: "signalx_snapshot (w\<lparr>sw_ctx := b\<rparr>) = signalx_snapshot w" "signalx_snapshot (w\<lparr>sw_expired := b, sw_at := n\<rparr>) = signalx_snapshot w"
      "signalx_called (w\<lparr>sw_ctx := b\<rparr>) = signalx_called w" "signalx_called (w\<lparr>sw_expired := b, sw_at := n\<rparr>) = signalx_called w" for b n
    by (simp_all add: signalx_snapshot_def signalx_called_def)
  show "signalx_wait_inv (w\<lparr>sw_ctx := b\<rparr>) = signalx_wait_inv w" by (simp add: signalx_wait_inv_def snap cong: signalx_pc.case_cong)
  show "signalx_wait_inv w \<Longrightarrow> signalx_wait_inv (signalx_shutdownContext w)"
    by (cases "sw_pc w") (auto simp: signalx_wait_inv_def signalx_shutdownContext_def snap)
qed (simp_all add: signalx_shutdownContext_def)

lemma signalx_WaitWith_inv: "signalx_wait_inv (signalx_WaitWith opts hooks)"
  by (simp add: signalx_wait_inv_def signalx_WaitWith_def signalx_failures_def)

lemma signalx_wait_reach_inv:
  assumes "signalx_wait_reach (signalx_WaitWith opts hooks) k globals w"
  shows "signalx_wait_inv w \<and> sw_hooks w = hooks \<and> sw_timeout w = sc_timeout (signalx_newConfig opts)"
  using assms
proof (induction rule: signalx_wait_reach.induct)
  case start
  then show ?case using signalx_WaitWith_inv by (simp add: signalx_WaitWith_def)
next
  case (ctx k globals w)
  then show ?case by (simp add: signalx_environment)
next
  case (timer k globals w)
  then show ?case by (simp add: signalx_environment)
next
  case (step k globals w out w')
  then show ?case using signalx_wait_step_inv [of w globals out w'] by simp
qed

subsection \<open>The outcome of Wait\<close>

lemma signalx_returned:
  assumes "signalx_wait_reach (signalx_WaitWith opts hooks) k globals w" and "sw_pc w = WReturned err"
  shows "map (\<lambda>r. Some (fst r)) (sw_ran w) @ sw_rest w = map Some (sw_globals w) @ hooks" and "None \<notin> set hooks"
    and "sw_expired w \<or> sw_rest w = []"
    and "err = errors_Join (signalx_failures (sw_ran w) @ (if sw_expired w then [signalx_ErrShutdownTimeout] else []))"
    and "sw_expired w \<longrightarrow> sw_at w = length (sw_ran w) \<and> 0 < sc_timeout (signalx_newConfig opts)"
  using signalx_wait_reach_inv [OF assms(1)] assms(2)
  by (auto simp: signalx_wait_inv_def signalx_snapshot_def signalx_called_def signalx_collectHooks_def)

text \<open>What a wait reports of the hooks that ended: each panic, joined with the sentinel.\<close>

definition signalx_panics :: "(nat \<times> unit outcome) list \<Rightarrow> goerr list" where
  "signalx_panics rs =
     concat (map (\<lambda>r. case snd r of Panics v \<Rightarrow> [Errorf ''errors.Join'' [signalx_ErrHookPanic, PanicError ''signalx.Wait'' v]] | Returns _ _ \<Rightarrow> []) rs)"

lemma signalx_failures_panics: "signalx_failures rs = signalx_panics rs"
  unfolding signalx_failures_def signalx_panics_def
  by (induction rs) (auto simp: signalx_runHook_def errors_Join_def panix_SafeVoid_def panix_Safe_def call_fn_def signalx_opWait_def split: outcome.split)

lemma signalx_panics_none: "signalx_panics rs = [] \<longleftrightarrow> (\<forall>r\<in>set rs. \<exists>u e. snd r = Returns u e)"
proof (induction rs)
  case (Cons r rs)
  then show ?case by (cases "snd r") (simp_all add: signalx_panics_def)
qed (simp add: signalx_panics_def)

text \<open>
  C39: the outcome of a wait. However registrations, the timer and the hooks interleave, a call of \<open>Wait\<close> calls the hooks of the registry, as it
  finds it when its context is done, and then its own, one at a time and in order: all of them, unless the timeout elapses during the call, and then
  exactly those it had called before that; none is called afterwards. The error joins \<open>ErrHookPanic\<close> with the recovered panic for each hook that
  panicked, in order, and ends with \<open>ErrShutdownTimeout\<close> exactly if the timeout elapsed before its final check; it is nil if and only if every
  hook ran without a panic and the timeout did not elapse. Without a positive timeout it never does.
\<close>

theorem signalx_Wait_outcome:
  assumes "signalx_wait_reach (signalx_WaitWith opts hooks) k globals w" and "sw_pc w = WReturned err"
  shows "map (\<lambda>r. Some (fst r)) (sw_ran w) @ sw_rest w = map Some (sw_globals w) @ hooks \<and> None \<notin> set hooks \<and>
    (if sw_expired w then length (sw_ran w) = sw_at w \<and> 0 < sc_timeout (signalx_newConfig opts) else sw_rest w = []) \<and>
    err = errors_Join (signalx_panics (sw_ran w) @ (if sw_expired w then [signalx_ErrShutdownTimeout] else [])) \<and>
    (err = None \<longleftrightarrow> sw_rest w = [] \<and> \<not> sw_expired w \<and> (\<forall>r\<in>set (sw_ran w). \<exists>u e. snd r = Returns u e))"
proof -
  note all = signalx_returned [OF assms]
  have "signalx_panics (sw_ran w) = [] \<longleftrightarrow> (\<forall>r\<in>set (sw_ran w). \<exists>u e. snd r = Returns u e)"
    by (rule signalx_panics_none)
  then have "err = None \<longleftrightarrow> sw_rest w = [] \<and> \<not> sw_expired w \<and> (\<forall>r\<in>set (sw_ran w). \<exists>u e. snd r = Returns u e)"
    using all(3,4) by (auto simp: errors_Join_def signalx_failures_panics)
  then show ?thesis using all by (auto simp: signalx_failures_panics)
qed

text \<open>The errors that can be tested for.\<close>

lemma signalx_Wait_Is:
  assumes "signalx_wait_reach (signalx_WaitWith opts hooks) k globals w" and "sw_pc w = WReturned (Some err)"
  shows "sw_expired w \<Longrightarrow> errors_Is err signalx_ErrShutdownTimeout"
    and "(h, Panics v) \<in> set (sw_ran w) \<Longrightarrow> errors_Is err signalx_ErrHookPanic \<and> errors_As_PanicError err"
proof -
  have err: "err = Errorf ''errors.Join'' (signalx_failures (sw_ran w) @ (if sw_expired w then [signalx_ErrShutdownTimeout] else []))"
    using signalx_returned(4) [OF assms] by (auto simp: errors_Join_def split: if_splits)
  show "sw_expired w \<Longrightarrow> errors_Is err signalx_ErrShutdownTimeout" unfolding err by (rule errors_Is_wrap) auto
  let ?e = "Errorf ''errors.Join'' [signalx_ErrHookPanic, PanicError signalx_opWait v]"
  assume "(h, Panics v) \<in> set (sw_ran w)"
  then have "?e \<in> set (signalx_failures (sw_ran w))"
    by (force simp: signalx_failures_def signalx_runHook_def errors_Join_def panix_SafeVoid_def panix_Safe_def call_fn_def)
  then show "errors_Is err signalx_ErrHookPanic \<and> errors_As_PanicError err" unfolding err by (force simp: list_ex_iff)
qed

text \<open>
  A hook that does not return keeps \<open>Wait\<close> from returning, timer or not: the caller has no step but the return of the hook. Apart from that it ends,
  after at most two steps for each hook and four more.
\<close>

lemma signalx_Wait_blocks: "sw_pc w = WRunning h \<Longrightarrow> sw_pc (signalx_shutdownContext w) = WRunning h"
  by (simp add: signalx_environment)

lemma signalx_wait_step_left:
  assumes "signalx_wait_step globals out w = Some w'" and "sw_pc w \<notin> {WBlocked, WCollect}"
  shows "signalx_left w' < signalx_left w"
  using assms by (cases "sw_pc w") (auto simp: signalx_wait_step_def signalx_left_def Let_def split: option.splits list.splits if_splits)

text \<open>A nil hook among the arguments panics with its index before any hook runs.\<close>

lemma signalx_Wait_nil_hook:
  assumes "signalx_wait_reach (signalx_WaitWith opts hooks) k globals w" and "sw_pc w = WPanicked i"
  shows "sw_ran w = []" and "length (sw_globals w) \<le> i" and "i < length (sw_globals w) + length hooks"
    and "hooks ! (i - length (sw_globals w)) = None"
proof -
  have inv: "sw_ran w = []" "sw_all w = map Some (sw_globals w) @ hooks" "signalx_assertHooks 0 (sw_all w) = Some i"
    using signalx_wait_reach_inv [OF assms(1)] assms(2) by (auto simp: signalx_wait_inv_def signalx_snapshot_def signalx_collectHooks_def)
  have at: "i < length (sw_all w)" "sw_all w ! i = None" using signalx_assertHooks_Some [OF inv(3)] by simp_all
  show "length (sw_globals w) \<le> i" using at(2) unfolding inv(2) by (auto simp: nth_append not_le [symmetric] split: if_splits)
  then show "i < length (sw_globals w) + length hooks" "hooks ! (i - length (sw_globals w)) = None" "sw_ran w = []"
    using at inv by (simp_all add: nth_append)
qed

subsection \<open>Trap\<close>

text \<open>
  A trapped context: \<open>tp_signals\<close> are the signals that \<open>signal.Notify\<close> relays to the channel \<open>tp_ch\<close> of room one while \<open>tp_notify\<close>; \<open>tp_ctx\<close> says that
  the context is cancelled. \<open>tp_why\<close> is a ghost: a trapped signal was relayed, the parent ended, or the returned function was called.
\<close>

datatype trap_pc = TrapSelect | TrapCancel | TrapStop | TrapGone

record signalx_trap =
  tp_signals :: "nat list"
  tp_notify :: bool
  tp_ch :: "nat option"
  tp_ctx :: bool
  tp_pc :: trap_pc
  tp_why :: bool

definition signalx_Trap :: "nat option list \<Rightarrow> signalx_trap option" where
  "signalx_Trap signals =
     (if signals = [] then Some \<lparr>tp_signals = signalx_defaultSignals, tp_notify = True, tp_ch = None, tp_ctx = False, tp_pc = TrapSelect, tp_why = False\<rparr>
      else if None \<in> set signals then None
      else Some \<lparr>tp_signals = map the signals, tp_notify = True, tp_ch = None, tp_ctx = False, tp_pc = TrapSelect, tp_why = False\<rparr>)"

text \<open>A signal arrives; it is dropped when the channel is full.\<close>

definition signalx_deliver :: "nat \<Rightarrow> signalx_trap \<Rightarrow> signalx_trap" where
  "signalx_deliver sig p =
     (if tp_notify p \<and> sig \<in> set (tp_signals p) then p\<lparr>tp_ch := (case tp_ch p of None \<Rightarrow> Some sig | Some s \<Rightarrow> Some s), tp_why := True\<rparr> else p)"

text \<open>A step of the watcher; \<open>done_case\<close> says which case its \<open>select\<close> takes.\<close>

definition signalx_watch :: "bool \<Rightarrow> signalx_trap \<Rightarrow> signalx_trap option" where
  "signalx_watch done_case p =
     (case tp_pc p of
        TrapSelect \<Rightarrow>
          if done_case then (if tp_ctx p then Some (p\<lparr>tp_pc := TrapStop\<rparr>) else None)
          else (if tp_ch p \<noteq> None then Some (p\<lparr>tp_ch := None, tp_pc := TrapCancel\<rparr>) else None)
      | TrapCancel \<Rightarrow> Some (p\<lparr>tp_ctx := True, tp_pc := TrapStop\<rparr>)
      | TrapStop \<Rightarrow> Some (p\<lparr>tp_notify := False, tp_pc := TrapGone\<rparr>)
      | TrapGone \<Rightarrow> None)"

inductive signalx_trap_reach :: "signalx_trap \<Rightarrow> nat \<Rightarrow> signalx_trap \<Rightarrow> bool" for p0 where
  start: "signalx_trap_reach p0 0 p0"
| deliver: "signalx_trap_reach p0 k p \<Longrightarrow> signalx_trap_reach p0 k (signalx_deliver sig p)"
| cancelled: "signalx_trap_reach p0 k p \<Longrightarrow> signalx_trap_reach p0 k (p\<lparr>tp_ctx := True, tp_why := True\<rparr>)"
| watch: "signalx_trap_reach p0 k p \<Longrightarrow> signalx_watch done_case p = Some p' \<Longrightarrow> signalx_trap_reach p0 (Suc k) p'"

definition signalx_trap_inv :: "nat \<Rightarrow> signalx_trap \<Rightarrow> bool" where
  "signalx_trap_inv k p \<longleftrightarrow>
     (tp_ctx p \<or> tp_ch p \<noteq> None \<or> tp_pc p \<noteq> TrapSelect \<longrightarrow> tp_why p) \<and> (tp_notify p \<longleftrightarrow> tp_pc p \<noteq> TrapGone) \<and>
     (tp_pc p = TrapStop \<or> tp_pc p = TrapGone \<longrightarrow> tp_ctx p) \<and> (tp_why p \<longrightarrow> tp_ctx p \<or> tp_ch p \<noteq> None \<or> tp_pc p = TrapCancel) \<and>
     k + (case tp_pc p of TrapSelect \<Rightarrow> 3 | TrapCancel \<Rightarrow> 2 | TrapStop \<Rightarrow> 1 | TrapGone \<Rightarrow> 0) \<le> 3"

lemma signalx_trap_reach_inv:
  assumes "signalx_trap_reach p0 k p" and "signalx_Trap signals = Some p0"
  shows "signalx_trap_inv k p"
  using assms
proof (induction rule: signalx_trap_reach.induct)
  case start
  then show ?case by (auto simp: signalx_Trap_def signalx_trap_inv_def split: if_splits)
next
  case (deliver k p sig)
  then show ?case by (cases "tp_ch p") (auto simp: signalx_trap_inv_def signalx_deliver_def)
next
  case (cancelled k p)
  then show ?case by (auto simp: signalx_trap_inv_def)
next
  case (watch k p done_case p')
  then show ?case by (cases "tp_pc p") (auto simp: signalx_trap_inv_def signalx_watch_def split: if_splits)
qed

text \<open>
  C40: a trapped context. It is cancelled only after a trapped signal, the end of its parent or a call of its cancel function; after any of these the
  watcher can make a step until it is gone, which takes it at most three, and then the context is cancelled and the signals are no longer relayed.
\<close>

theorem signalx_Trap_cancels:
  assumes "signalx_Trap signals = Some p0" and "signalx_trap_reach p0 k p"
  shows "(tp_ctx p \<longrightarrow> tp_why p) \<and> k \<le> 3 \<and>
    (tp_why p \<and> tp_pc p \<noteq> TrapGone \<longrightarrow> (\<exists>done_case p'. signalx_watch done_case p = Some p')) \<and>
    (tp_pc p = TrapGone \<longrightarrow> tp_ctx p \<and> \<not> tp_notify p)"
proof -
  have inv: "signalx_trap_inv k p" by (rule signalx_trap_reach_inv [OF assms(2,1)])
  have "\<exists>done_case p'. signalx_watch done_case p = Some p'" if "tp_why p" "tp_pc p \<noteq> TrapGone"
  proof (cases "tp_pc p")
    case TrapSelect
    then have "tp_ctx p \<or> tp_ch p \<noteq> None" using inv that(1) by (simp add: signalx_trap_inv_def)
    then show ?thesis
      using TrapSelect by (intro exI [of _ "tp_ctx p"]) (auto simp: signalx_watch_def)
  qed (use that in \<open>simp_all add: signalx_watch_def\<close>)
  then show ?thesis using inv by (auto simp: signalx_trap_inv_def)
qed

subsection \<open>Runs\<close>

text \<open>One registered hook and one of the call; the registered one panics.\<close>

definition signalx_demo :: signalx_wait where
  "signalx_demo = (signalx_WaitWith [] [Some 8])\<lparr>sw_ctx := True, sw_all := [Some 7, Some 8], sw_globals := [7],
     sw_errs := signalx_failures [(7, Panics (PvOther 1)), (8, Returns () None)], sw_ran := [(7, Panics (PvOther 1)), (8, Returns () None)],
     sw_pc := WReturned (errors_Join (signalx_failures [(7, Panics (PvOther 1)), (8, Returns () None)]))\<rparr>"

fun signalx_demo_run :: "unit outcome list \<Rightarrow> signalx_wait \<Rightarrow> signalx_wait option" where
  "signalx_demo_run [] w = Some w"
| "signalx_demo_run (out # outs) w = (case signalx_wait_step [7] out w of Some w1 \<Rightarrow> signalx_demo_run outs w1 | None \<Rightarrow> None)"

lemma signalx_demo_runs:
  "signalx_wait_reach w0 k [7] w \<Longrightarrow> signalx_demo_run outs w = Some w' \<Longrightarrow> signalx_wait_reach w0 (k + length outs) [7] w'"
proof (induction outs arbitrary: k w)
  case (Cons out outs)
  then obtain w1 where "signalx_wait_step [7] out w = Some w1" "signalx_demo_run outs w1 = Some w'" by (auto split: option.splits)
  then show ?case using Cons.IH [OF signalx_wait_reach.step [OF Cons.prems(1)]] by simp
qed simp

lemma signalx_demo_reach: "signalx_wait_reach (signalx_WaitWith [] [Some 8]) 9 [7] signalx_demo"
proof -
  let ?w = "signalx_WaitWith [] [Some 8]" and ?ok = "Returns () None"
  let ?outs = "[?ok, ?ok, ?ok, ?ok, Panics (PvOther 1), ?ok, ?ok, ?ok, ?ok]"
  have "signalx_wait_reach ?w 0 [7] (?w\<lparr>sw_ctx := True\<rparr>)" by (rule signalx_wait_reach.ctx [OF signalx_wait_reach.start])
  moreover have "signalx_demo_run ?outs (?w\<lparr>sw_ctx := True\<rparr>) = Some signalx_demo"
    by (simp add: signalx_wait_step_def signalx_WaitWith_def signalx_demo_def signalx_collectHooks_def signalx_newConfig_def signalx_failures_def
        signalx_defaultShutdownTimeout_def signalx_runHook_def Let_def panix_SafeVoid_def panix_Safe_def call_fn_def errors_Join_def)
  ultimately show ?thesis using signalx_demo_runs [of ?w 0 "?w\<lparr>sw_ctx := True\<rparr>" ?outs signalx_demo] by (simp add: eval_nat_numeral)
qed

theorem signalx_Wait_outcome_witness:
  "signalx_wait_reach (signalx_WaitWith [] [Some 8]) 9 [7] signalx_demo \<and> (\<exists>err. sw_pc signalx_demo = WReturned (Some err))"
proof -
  obtain err where ret: "sw_pc signalx_demo = WReturned err" by (simp add: signalx_demo_def)
  have "err = None \<Longrightarrow> \<forall>r\<in>set (sw_ran signalx_demo). \<exists>u e. snd r = Returns u e"
    using signalx_Wait_outcome [OF signalx_demo_reach ret] by blast
  then have "err \<noteq> None" by (auto simp: signalx_demo_def)
  then show ?thesis using signalx_demo_reach ret by auto
qed

theorem signalx_Trap_cancels_witness:
  "\<exists>p0 done_case p'. signalx_Trap [] = Some p0 \<and> signalx_trap_reach p0 0 (signalx_deliver 15 p0) \<and> signalx_watch done_case (signalx_deliver 15 p0) = Some p'"
proof -
  obtain p0 where p0: "signalx_Trap [] = Some p0" by (simp add: signalx_Trap_def)
  have reach: "signalx_trap_reach p0 0 (signalx_deliver 15 p0)" by (rule signalx_trap_reach.deliver [OF signalx_trap_reach.start])
  have "tp_why (signalx_deliver 15 p0) \<and> tp_pc (signalx_deliver 15 p0) \<noteq> TrapGone"
    using p0 by (auto simp: signalx_Trap_def signalx_deliver_def signalx_defaultSignals_def)
  then show ?thesis using signalx_Trap_cancels [OF p0 reach] p0 reach by blast
qed

end
