(* ===== verification/Spec2Isabelle.thy ===== *)
theory Spec2Isabelle
  imports Circuitx_Conc Lrux_Props Lrux_Compute Lrux_Sharded Ratex Retryx Shedx_Conc Bulkx_Conc Quotax_Calls Hedgex_Race Fallx_Props Adaptx_Stats Adaptx_Conc Warmupx_Resume Warmupx_Conc Poolx_Worker Poolx_Batch Clix_Props Healthx_Probe Toutx Syncx_Map Syncx_Group Signalx
begin

text \<open>
  A verification library for \<open>urx\<close>, a collection of Go packages for resilient services. Each package of \<open>src/\<close> is a component
  with a state of its own: an object built by \<open>New\<close> from options, whose operations are safe for concurrent use. The packages meet in
  few places. Every package runs user code under \<open>panix.Safe\<close>; \<open>quotax\<close> keeps one \<open>ratex\<close> limiter for each key; the rest stand
  alone.

  \<^bold>\<open>How the code is translated.\<close> A Go \<open>pkg.F\<close> or method is \<open>pkg_F\<close>; a struct is a record; options are functions on the
  configuration. Times and durations are nanoseconds, read from clocks that are arguments. Counters wrap at the width of their type
  (\<open>wrap_i64\<close>, \<open>wrap_i32\<close>, \<open>u64\<close> words). \<open>float64\<close> is \<open>F64\<close>. An error is a value of \<open>goerr\<close> with its wrap tree, and a callback is
  a function of the component's state, so that whatever it or another goroutine does meanwhile is quantified over; it returns or panics
  (\<open>outcome\<close>). An operation that holds a lock is one step. Lock-free code is translated a second time with one step for each atomic access
  or channel operation: a goroutine is its program counter, a system the list of them, and an inductive step relation picks any of
  them. Fields marked as ghosts log what the code does to the outside.

  \<^bold>\<open>Theories.\<close>
  \<^item> \<open>URX_Prelude\<close>: Go errors, callbacks, options, fixed-width counters, shared lemmas; the locale \<open>closer\<close> (an idempotent
    \<open>Close\<close>), interpreted by \<open>circuitx\<close>, \<open>shedx\<close>, \<open>bulkx\<close>, \<open>quotax\<close>,
    \<open>fallx\<close>, \<open>adaptx\<close>, \<open>warmupx\<close> and \<open>poolx\<close>.
  \<^item> \<open>F64\<close>: finite \<open>float64\<close> values, rounded to 53 bits; the locale \<open>rounding\<close> has the error bounds the limiters use and is
    interpreted on the rounding function.
  \<^item> \<open>Simulation\<close>: forward simulation of a partial implementation by a total reference; interpreted by \<open>lrux\<close>.
  \<^item> \<open>Go_Heap\<close>: \<open>container/heap\<close> over any implementation of \<open>heap.Interface\<close> (locale \<open>go_heap\<close>); interpreted on the LRU heap of \<open>fallx\<close>.
  \<^item> \<open>Panix\<close> (\<open>panix/\<close>): recovery, and the loop that captures a stack.
  \<^item> \<open>Circuitx\<close>, \<open>Circuitx_Conc\<close> (\<open>circuitx/\<close>): the breaker; refinement of the documented three-state automaton by \<open>Execute\<close>; thresholds;
    the state changes, the hook and the counter of probes under the interleaving of single accesses, and the runs that exceed the budget of probes
    and lose a slot.
  \<^item> \<open>Lrux_List\<close>, \<open>Lrux_Cache\<close>, \<open>Lrux_Refine\<close>, \<open>Lrux_Spec\<close>, \<open>Lrux_Run\<close>, \<open>Lrux_Props\<close>, \<open>Lrux_Compute\<close>, \<open>Lrux_Sharded\<close> (\<open>lrux/\<close>): the cache on a heap
    of linked nodes, its refinement of a list of entries, what follows for any run (bound, eviction accounting, freshness), \<open>GetOrCompute\<close>
    with \<open>singleflight\<close>, and the sharded cache.
  \<^item> \<open>Ratex\<close> (\<open>ratex/\<close>): the token bucket; rate bound under rounding, waiting, release.
  \<^item> \<open>Retryx\<close> (\<open>retryx/\<close>): the retry loop with its hooks, budget and backoff; attempts, result table, delay bounds.
  \<^item> \<open>Shedx\<close>, \<open>Shedx_Conc\<close> (\<open>shedx/\<close>): admission by priority and the lock-free reservation of a slot.
  \<^item> \<open>Bulkx\<close>, \<open>Bulkx_Conc\<close> (\<open>bulkx/\<close>): the bulkhead on a buffered channel; concurrency bound, closing, no leak.
  \<^item> \<open>Quotax\<close>, \<open>Quotax_Keys\<close>, \<open>Quotax_Calls\<close> (\<open>quotax/\<close>): sharded limiters by key, pins and the cap on keys under interleaving, and the rate
    bound of \<open>ratex\<close> carried over to each key.
  \<^item> \<open>Hedgex\<close>, \<open>Hedgex_Race\<close> (\<open>hedgex/\<close>): the dispatch loop of a hedged request as a machine on the events of its \<open>select\<close>; outcome, end and
    schedule of a race.
  \<^item> \<open>Fallx\<close>, \<open>Fallx_Shard\<close>, \<open>Fallx_Cache\<close>, \<open>Fallx_Props\<close> (\<open>fallx/\<close>): the fallback strategies and the sharded result cache with its LRU heaps; size
    bound, eviction order, replay.
  \<^item> \<open>Adaptx\<close>, \<open>Adaptx_Window\<close>, \<open>Adaptx_Law\<close>, \<open>Adaptx_Stats\<close>, \<open>Adaptx_Conc\<close> (\<open>adaptx/\<close>): the adaptive limiter: its windows and the control
    laws AIMD, Vegas and Gradient on \<open>f64\<close>, the ring of latency samples behind \<open>Stats\<close>, \<open>Execute\<close>, and the accounting of permits under
    interleaving with the \<open>ResetStats\<close> schedule that breaks it.
  \<^item> \<open>Warmupx\<close>, \<open>Warmupx_Ramp\<close>, \<open>Warmupx_Resume\<close>, \<open>Warmupx_Conc\<close> (\<open>warmupx/\<close>): curves, ticks and all operations of the ramp; range and
    monotonicity of the fraction; the rounding error of \<open>StartAt\<close>'s backdating; ramp goroutines and waiters interleaved.
  \<^item> \<open>Poolx\<close>, \<open>Poolx_Worker\<close>, \<open>Poolx_Batch\<close> (\<open>poolx/\<close>): worker pool, batch processor and object pool; accounting of tasks and items under
    interleaving, what \<open>Close\<close> drains, and the schedules that orphan a task or strand an item.
  \<^item> \<open>Clix\<close>, \<open>Clix_Parse\<close>, \<open>Clix_Spell\<close>, \<open>Clix_Tree\<close>, \<open>Clix_State\<close>, \<open>Clix_Help\<close>, \<open>Clix_Props\<close> (\<open>clix/\<close>): the command tree and its
    options, the token parser, the help text; every spelling of a flag as the assignments it means, round trips, \<open>Reset\<close> against \<open>New\<close>, typed
    variables, well-formed trees, and the order of options that lets a flag be shadowed. The locale \<open>clix_kept\<close> (what every write of a parse keeps,
    the parse keeps) is interpreted on the frame and on the typing of the variables.
  \<^item> \<open>Healthx\<close>, \<open>Healthx_Probe\<close> (\<open>healthx/\<close>): the registry, one check, reports and status codes; a readiness probe whose checks send their
    results while it collects them, what its report has, when it is up, and that it ends.
  \<^item> \<open>Toutx\<close> (\<open>toutx/\<close>): a call under a deadline as caller, goroutine and contexts interleaved; what it can return and that it does.
  \<^item> \<open>Syncx\<close>, \<open>Syncx_Map\<close>, \<open>Syncx_Group\<close> (\<open>syncx/\<close>): lazy values, the concurrent map and groups of tasks with the goroutines that use them;
    one init per value, an order of the map's calls that explains their results, the accounting of a group and what \<open>Wait\<close> waits for.
  \<^item> \<open>Signalx\<close> (\<open>signalx/\<close>): shutdown hooks and the wait that runs them, and the watcher of a trapped context.

  \<^bold>\<open>Loops and fuel.\<close> No definition takes fuel. Loops over the nodes of the linked list are \<open>partial_function (option)\<close> and are shown to
  return; counting loops, the heap and the eviction loop have a measure; a wait, a retry or a race runs on the list of what it observes, and
  the theorems on termination bound the length of that list.

  \<^bold>\<open>Parameters.\<close> Hash functions with random seeds, random numbers, clocks, contexts, timers, \<open>singleflight\<close>, \<open>math.Exp\<close>, \<open>math.Log\<close> and
  the parsers and formats of floats, durations and times are arguments. A
  conversion of a \<open>float64\<close> outside the range of its target type, which Go leaves to the platform, is the argument \<open>oob\<close>.

  \<^bold>\<open>Not modelled.\<close> NaN, infinities and subnormal floats; fused multiply-add; memory reclamation; the text of stack traces; fairness of the
  scheduler (liveness is stated as what a step enables). \<open>cfgx\<close> and \<open>envx\<close> are reflection and codecs over files and the environment and
  \<open>internal/testx\<close> holds test helpers.
\<close>

end
